(* ===== verification/Prelude.thy ===== *)
theory Prelude
  imports Complex_Main "HOL-Library.Word"
begin

text \<open>
  Shared vocabulary of the development: names for the C integer types, the collections of
  rewrite rules the component theories fill, and the generic lemmas on rational numbers with a
  bounded number of decimals, on maps and on lists that several components use.
\<close>

type_synonym u8 = "8 word"
type_synonym u16 = "16 word"
type_synonym u32 = "32 word"
type_synonym u64 = "64 word"

named_theorems order_simps \<open>field and frame facts about orders\<close>
named_theorems market_frame \<open>which parts of a market an operation leaves alone\<close>
named_theorems engine_frame \<open>which parts of the engine state an operation leaves alone\<close>

section \<open>Numbers with a fixed number of decimals\<close>

text \<open>\<open>on_grid p q\<close>: \<open>q\<close> has at most \<open>p\<close> decimals.\<close>

definition on_grid :: "int \<Rightarrow> rat \<Rightarrow> bool" where
  "on_grid p q \<longleftrightarrow> (\<exists>k::int. q * 10 ^ nat p = of_int k)"

text \<open>\<open>trunc_to p q\<close>: \<open>q\<close> rounded towards zero to \<open>p\<close> decimals.\<close>

definition trunc_to :: "int \<Rightarrow> rat \<Rightarrow> rat" where
  "trunc_to p q = sgn q * of_int \<lfloor>\<bar>q\<bar> * 10 ^ nat p\<rfloor> / 10 ^ nat p"

text \<open>
  \<open>fits p q\<close>: \<open>q\<close> has at most \<open>p\<close> decimals and its integer
  coefficient at that scale has at most 34 digits, so it is a decimal128 number.
\<close>

definition fits :: "int \<Rightarrow> rat \<Rightarrow> bool" where
  "fits p q \<longleftrightarrow> 0 \<le> p \<and> p \<le> 6176 \<and> on_grid p q \<and> \<bar>q\<bar> * 10 ^ nat p < 10 ^ 34"

lemma on_grid_0 [simp]: "on_grid p 0"
  by (auto simp: on_grid_def intro: exI [of _ 0])

lemma on_grid_add: "on_grid p x \<Longrightarrow> on_grid p y \<Longrightarrow> on_grid p (x + y)"
proof -
  assume "on_grid p x" "on_grid p y"
  then obtain k l :: int where "x * 10 ^ nat p = of_int k" "y * 10 ^ nat p = of_int l"
    by (auto simp: on_grid_def)
  then have "(x + y) * 10 ^ nat p = of_int (k + l)" by (simp add: distrib_right)
  then show ?thesis unfolding on_grid_def by blast
qed

lemma on_grid_uminus [simp]: "on_grid p (- x) = on_grid p x"
proof -
  have "on_grid p x \<Longrightarrow> on_grid p (- x)" for x
    unfolding on_grid_def by (metis minus_mult_left of_int_minus)
  from this [of x] this [of "- x"] show ?thesis by auto
qed

lemma on_grid_diff: "on_grid p x \<Longrightarrow> on_grid p y \<Longrightarrow> on_grid p (x - y)"
  using on_grid_add [of p x "- y"] by simp

lemma on_grid_mult:
  assumes "on_grid p x" "on_grid q y" "0 \<le> p" "0 \<le> q"
  shows "on_grid (p + q) (x * y)"
proof -
  from assms obtain k l :: int where "x * 10 ^ nat p = of_int k" "y * 10 ^ nat q = of_int l"
    by (auto simp: on_grid_def)
  then have "(x * 10 ^ nat p) * (y * 10 ^ nat q) = of_int (k * l)" by simp
  then have "x * y * 10 ^ nat (p + q) = of_int (k * l)"
    using assms by (simp add: nat_add_distrib power_add mult.assoc mult.left_commute)
  then show ?thesis unfolding on_grid_def by blast
qed

lemma on_grid_mono:
  assumes "on_grid p x" "p \<le> q"
  shows "on_grid q x"
proof -
  from assms(1) obtain k :: int where k: "x * 10 ^ nat p = of_int k" by (auto simp: on_grid_def)
  have q: "nat q = nat p + (nat q - nat p)" using assms(2) by simp
  have "x * 10 ^ nat q = of_int (k * 10 ^ (nat q - nat p))"
    by (subst q, simp only: power_add mult.assoc [symmetric] k) simp
  then show ?thesis unfolding on_grid_def by blast
qed

lemma trunc_to_0 [simp]: "trunc_to p 0 = 0"
  by (simp add: trunc_to_def)

lemma trunc_to_on_grid: "on_grid p (trunc_to p q)"
proof -
  have "trunc_to p q * 10 ^ nat p = of_int (\<lfloor>sgn q\<rfloor> * \<lfloor>\<bar>q\<bar> * 10 ^ nat p\<rfloor>)"
    by (simp add: trunc_to_def sgn_if)
  then show ?thesis unfolding on_grid_def by blast
qed

lemma trunc_to_id: "on_grid p q \<Longrightarrow> trunc_to p q = q"
proof -
  assume "on_grid p q"
  then obtain k :: int where k: "q * 10 ^ nat p = of_int k" by (auto simp: on_grid_def)
  have a: "\<bar>q\<bar> * 10 ^ nat p = of_int \<bar>k\<bar>"
    using arg_cong [OF k, of abs] by (simp add: abs_mult)
  have "trunc_to p q = sgn q * (\<bar>q\<bar> * 10 ^ nat p) / 10 ^ nat p"
    unfolding trunc_to_def a by simp
  also have "\<dots> = sgn q * \<bar>q\<bar>" by simp
  finally show ?thesis by (simp add: sgn_mult_abs)
qed

lemma trunc_to_nonneg: "0 \<le> q \<Longrightarrow> 0 \<le> trunc_to p q"
  by (cases "q = 0") (simp_all add: trunc_to_def)

lemma trunc_to_le: "0 \<le> q \<Longrightarrow> trunc_to p q \<le> q"
proof -
  assume "0 \<le> q"
  have "of_int \<lfloor>q * 10 ^ nat p\<rfloor> \<le> q * (10 ^ nat p :: rat)" by (rule of_int_floor_le)
  then have "of_int \<lfloor>q * 10 ^ nat p\<rfloor> / 10 ^ nat p \<le> q"
    by (simp add: divide_le_eq)
  with \<open>0 \<le> q\<close> show ?thesis by (cases "q = 0") (simp_all add: trunc_to_def)
qed

lemma trunc_to_gap: "0 \<le> q \<Longrightarrow> q - trunc_to p q < 1 / 10 ^ nat p"
proof -
  assume "0 \<le> q"
  have "q * (10 ^ nat p :: rat) < of_int \<lfloor>q * 10 ^ nat p\<rfloor> + 1" by linarith
  then have "q < (of_int \<lfloor>q * 10 ^ nat p\<rfloor> + 1) / 10 ^ nat p"
    by (simp add: less_divide_eq)
  with \<open>0 \<le> q\<close> show ?thesis
    by (cases "q = 0") (simp_all add: trunc_to_def add_divide_distrib)
qed

lemma trunc_to_minus: "trunc_to p (- q) = - trunc_to p q"
  by (simp add: trunc_to_def)

lemma trunc_to_abs_le: "\<bar>trunc_to p q\<bar> \<le> \<bar>q\<bar>"
proof (cases "0 \<le> q")
  case True
  then show ?thesis using trunc_to_le [OF True, of p] trunc_to_nonneg [OF True, of p] by linarith
next
  case False
  then have q: "0 \<le> - q" by simp
  show ?thesis
    using trunc_to_le [OF q, of p] trunc_to_nonneg [OF q, of p] trunc_to_minus [of p q] by linarith
qed

lemma fitsI:
  "0 \<le> p \<Longrightarrow> p \<le> 6176 \<Longrightarrow> on_grid p q \<Longrightarrow> \<bar>q\<bar> * 10 ^ nat p < 10 ^ 34 \<Longrightarrow> fits p q"
  by (simp add: fits_def)

lemma fits_0: "0 \<le> p \<Longrightarrow> p \<le> 6176 \<Longrightarrow> fits p 0"
  by (simp add: fits_def)

text \<open>A smaller number on the same grid fits as well.\<close>

lemma fits_le:
  assumes "fits p y" "on_grid p x" "\<bar>x\<bar> \<le> \<bar>y\<bar>"
  shows "fits p x"
proof -
  have "\<bar>x\<bar> * 10 ^ nat p \<le> \<bar>y\<bar> * 10 ^ nat p" using assms(3) by (simp add: mult_right_mono)
  moreover have "\<bar>y\<bar> * 10 ^ nat p < 10 ^ 34" using assms(1) unfolding fits_def by blast
  ultimately have "\<bar>x\<bar> * 10 ^ nat p < 10 ^ 34" by (rule order.strict_trans1)
  with assms(1,2) show ?thesis unfolding fits_def by blast
qed

section \<open>Numbers as text\<close>

text \<open>The formats \<^verbatim>\<open>%u\<close> and \<^verbatim>\<open>%ld\<close>.\<close>

fun show_digits :: "nat \<Rightarrow> string" where
  "show_digits n = (if n < 10 then [] else show_digits (n div 10)) @ [char_of (48 + n mod 10)]"

definition show_long :: "int \<Rightarrow> string" where
  "show_long i = (if i < 0 then CHR ''-'' # show_digits (nat (- i)) else show_digits (nat i))"

end
