(* ===== verification/Skiplist.thy ===== *)
theory Skiplist
  imports Prelude
begin

text \<open>
  \<^verbatim>\<open>utils/ut_skiplist.c\<close>: the skip list that holds the order books and each user's
  orders. The first part is the abstract sequence the callers see (a list kept in the
  order of the comparison function); the second is the pointer structure of the C code, with the
  forward pointers of every level; the third shows that the pointer structure implements the
  sequence: every search over the levels stops at the node a scan of the bottom level would find.
\<close>

section \<open>The sequence the callers see\<close>

definition slist_insert :: "('a \<Rightarrow> 'a \<Rightarrow> int) \<Rightarrow> 'a \<Rightarrow> 'a list \<Rightarrow> 'a list option" where
  "slist_insert cmp v xs =
     (let le = takeWhile (\<lambda>x. cmp x v \<le> 0) xs in
      if le \<noteq> [] \<and> cmp (last le) v = 0 then None
      else Some (le @ v # dropWhile (\<lambda>x. cmp x v \<le> 0) xs))"

definition slist_find :: "('a \<Rightarrow> 'a \<Rightarrow> int) \<Rightarrow> 'a \<Rightarrow> 'a list \<Rightarrow> 'a option" where
  "slist_find cmp v xs =
     (let le = takeWhile (\<lambda>x. cmp x v \<le> 0) xs in
      if le \<noteq> [] \<and> cmp (last le) v = 0 then Some (last le) else None)"

definition slist_delete :: "'a \<Rightarrow> 'a list \<Rightarrow> 'a list" where
  "slist_delete x xs = remove1 x xs"

text \<open>
  What the callers promise of a comparison function, on the values they store: a strict order
  up to the equivalence \<open>cmp x y = 0\<close>.
\<close>

locale comparison =
  fixes cmp :: "'a \<Rightarrow> 'a \<Rightarrow> int" and S :: "'a set"
  assumes refl: "x \<in> S \<Longrightarrow> cmp x x = 0"
    and flip: "x \<in> S \<Longrightarrow> y \<in> S \<Longrightarrow> cmp x y < 0 \<longleftrightarrow> cmp y x > 0"
    and trans: "x \<in> S \<Longrightarrow> y \<in> S \<Longrightarrow> z \<in> S \<Longrightarrow> cmp x y < 0 \<Longrightarrow> cmp y z < 0 \<Longrightarrow> cmp x z < 0"
    and same: "x \<in> S \<Longrightarrow> y \<in> S \<Longrightarrow> cmp x y = 0 \<Longrightarrow> x = y"
begin

definition ordered :: "'a list \<Rightarrow> bool" where
  "ordered xs \<longleftrightarrow> set xs \<subseteq> S \<and> sorted_wrt (\<lambda>x y. cmp x y < 0) xs"

lemma ordered_Nil: "ordered []"
  by (simp add: ordered_def)

lemma less_irrefl: "x \<in> S \<Longrightarrow> \<not> cmp x x < 0"
  using refl by simp

lemma eq_iff: "x \<in> S \<Longrightarrow> y \<in> S \<Longrightarrow> cmp x y = 0 \<longleftrightarrow> x = y"
  using refl same by blast

lemma le_less_trans: "x \<in> S \<Longrightarrow> y \<in> S \<Longrightarrow> z \<in> S \<Longrightarrow> cmp x y < 0 \<Longrightarrow> cmp y z \<le> 0 \<Longrightarrow> cmp x z \<le> 0"
  using trans [of x y z] eq_iff [of y z] by (cases "cmp y z = 0") auto

lemma ordered_distinct: "ordered xs \<Longrightarrow> distinct xs"
  by (induction xs) (auto simp: ordered_def less_irrefl refl)

text \<open>In an ordered list the elements up to \<open>v\<close> form a prefix.\<close>

lemma ordered_split:
  assumes "ordered xs" "v \<in> S"
  defines "le \<equiv> takeWhile (\<lambda>x. cmp x v \<le> 0) xs" and "gt \<equiv> dropWhile (\<lambda>x. cmp x v \<le> 0) xs"
  shows "xs = le @ gt" "\<forall>x\<in>set le. cmp x v \<le> 0" "\<forall>y\<in>set gt. cmp v y < 0"
proof -
  show xs: "xs = le @ gt" by (simp add: le_def gt_def)
  show "\<forall>x\<in>set le. cmp x v \<le> 0" by (auto simp: le_def dest: set_takeWhileD)
  show "\<forall>y\<in>set gt. cmp v y < 0"
  proof
    fix y assume y: "y \<in> set gt"
    then obtain g gs where gt: "gt = g # gs" by (cases gt) auto
    then have g: "\<not> cmp g v \<le> 0" by (metis dropWhile_eq_Cons_conv gt_def)
    have in_S: "g \<in> S" "y \<in> S" using assms(1) xs gt y by (auto simp: ordered_def)
    then have vg: "cmp v g < 0" using g flip [of v g] assms(2) by simp
    show "cmp v y < 0"
    proof (cases "y = g")
      case False
      then have "cmp g y < 0"
        using assms(1) xs gt y by (auto simp: ordered_def sorted_wrt_append)
      with vg in_S assms(2) show ?thesis using trans [of v g y] by blast
    qed (use vg in simp)
  qed
qed

lemma slist_insert_Some:
  assumes "ordered xs" "v \<in> S" "v \<notin> set xs"
  shows "\<exists>le gt. slist_insert cmp v xs = Some (le @ v # gt) \<and> xs = le @ gt \<and> ordered (le @ v # gt)
    \<and> (\<forall>x\<in>set le. cmp x v < 0) \<and> (\<forall>y\<in>set gt. cmp v y < 0)"
proof -
  note sp = ordered_split [OF assms(1,2)]
  let ?le = "takeWhile (\<lambda>x. cmp x v \<le> 0) xs" and ?gt = "dropWhile (\<lambda>x. cmp x v \<le> 0) xs"
  have S: "set xs \<subseteq> S" using assms(1) by (simp add: ordered_def)
  have lt: "\<forall>x\<in>set ?le. cmp x v < 0"
    using sp(2) S assms(2,3) by (metis eq_iff order_le_less set_takeWhileD subsetD)
  have ord: "ordered (le @ v # gt)"
    if "xs = le @ gt" "\<forall>x\<in>set le. cmp x v < 0" "\<forall>y\<in>set gt. cmp v y < 0" for le gt
    using assms(1,2) that by (auto simp: ordered_def sorted_wrt_append)
  have "\<not> (?le \<noteq> [] \<and> cmp (last ?le) v = 0)"
  proof
    assume last: "?le \<noteq> [] \<and> cmp (last ?le) v = 0"
    then have "cmp (last ?le) v < 0" using lt last_in_set by blast
    with last show False by simp
  qed
  then have "slist_insert cmp v xs = Some (?le @ v # ?gt)"
    by (simp add: slist_insert_def Let_def)
  with ord [OF sp(1) lt sp(3)] lt sp show ?thesis by blast
qed

lemma slist_find_iff:
  assumes "ordered xs" "v \<in> S"
  shows "slist_find cmp v xs = (if v \<in> set xs then Some v else None)"
proof -
  note sp = ordered_split [OF assms(1,2)]
  let ?le = "takeWhile (\<lambda>x. cmp x v \<le> 0) xs" and ?gt = "dropWhile (\<lambda>x. cmp x v \<le> 0) xs"
  have S: "set xs \<subseteq> S" using assms(1) by (simp add: ordered_def)
  have l: "?le \<noteq> [] \<Longrightarrow> last ?le \<in> S" using S last_in_set set_takeWhileD by fastforce
  show ?thesis
  proof (cases "v \<in> set xs")
    case True
    then have "v \<in> set ?le"
      using sp(1) sp(3) less_irrefl [OF assms(2)] by (metis Un_iff set_append)
    then obtain as bs where le: "?le = as @ v # bs" by (meson split_list)
    have "bs = []"
    proof (rule ccontr)
      assume "bs \<noteq> []"
      then obtain b where b: "b \<in> set bs" by (cases bs) auto
      then have "b \<in> S" using S le set_takeWhileD by (metis Un_iff list.set_intros(2) set_append subsetD)
      have "cmp v b < 0"
        using assms(1) sp(1) b unfolding ordered_def le
        by (metis (no_types, lifting) append_assoc append_Cons le list.set_intros(1) sorted_wrt.simps(2)
          sorted_wrt_append Un_iff set_append)
      moreover have "cmp b v \<le> 0" using sp(2) b le by simp
      ultimately show False using flip [of v b] \<open>b \<in> S\<close> assms(2) by linarith
    qed
    with True le show ?thesis using refl [OF assms(2)] by (simp add: slist_find_def Let_def)
  next
    case False
    have "\<not> (?le \<noteq> [] \<and> cmp (last ?le) v = 0)"
      using l eq_iff assms(2) False by (metis last_in_set set_takeWhileD)
    with False show ?thesis by (auto simp: slist_find_def Let_def)
  qed
qed

lemma ordered_delete: "ordered xs \<Longrightarrow> ordered (slist_delete x xs)"
proof (induction xs)
  case (Cons y ys)
  then show ?case
    using set_remove1_subset [of x ys] by (auto simp: ordered_def slist_delete_def)
qed (simp add: slist_delete_def)

lemma set_slist_delete: "ordered xs \<Longrightarrow> set (slist_delete x xs) = set xs - {x}"
  unfolding slist_delete_def by (rule set_remove1_eq) (rule ordered_distinct)

end

section \<open>The pointer structure\<close>

text \<open>
  Nodes are addresses; address 0 is the header, whose value is NULL. \<open>sl_value\<close> and
  \<open>sl_fwd\<close> are the fields \<^verbatim>\<open>value\<close> and \<^verbatim>\<open>forward[i]\<close> of the allocated nodes, \<open>None\<close> being
  the NULL pointer.
\<close>

definition SKIPLIST_MAX_LEVEL :: nat where
  "SKIPLIST_MAX_LEVEL = 16"

record 'a skiplist =
  sl_level :: nat
  sl_value :: "nat \<Rightarrow> 'a option"
  sl_fwd :: "nat \<Rightarrow> nat \<Rightarrow> nat option"
  sl_len :: nat

definition skiplist_create :: "'a skiplist" where
  "skiplist_create = \<lparr>sl_level = 1, sl_value = (\<lambda>_. None), sl_fwd = (\<lambda>_ _. None), sl_len = 0\<rparr>"

text \<open>
  \<^verbatim>\<open>skiplist_random_level\<close>: \<open>rs\<close> are the results of the successive calls of
  \<^verbatim>\<open>random()\<close>; the level grows while the low 16 bits are below a quarter of 65535.
\<close>

fun random_level_loop :: "nat list \<Rightarrow> nat \<Rightarrow> nat" where
  "random_level_loop [] level = level"
| "random_level_loop (r # rs) level =
     (if 4 * (r mod 65536) < 65535 then random_level_loop rs (level + 1) else level)"

definition skiplist_random_level :: "nat list \<Rightarrow> nat" where
  "skiplist_random_level rs =
     (let level = random_level_loop rs 1 in
      if level < SKIPLIST_MAX_LEVEL then level else SKIPLIST_MAX_LEVEL)"

text \<open>
  The inner loop of every search: follow \<^verbatim>\<open>forward[i]\<close> while the next value comes
  before the place looked for. \<open>None\<close>: the loop does not end, or reads a freed node.
\<close>

partial_function (option) sl_advance ::
  "('a \<Rightarrow> bool) \<Rightarrow> 'a skiplist \<Rightarrow> nat \<Rightarrow> nat \<Rightarrow> nat option" where
  "sl_advance before s i node =
     (case sl_fwd s node i of
        None \<Rightarrow> Some node
      | Some next \<Rightarrow>
          (case sl_value s next of
             None \<Rightarrow> None
           | Some x \<Rightarrow> if before x then sl_advance before s i next else Some node))"

text \<open>
  The outer loop \<^verbatim>\<open>for (i = level - 1; i >= 0; i--)\<close>, which records in
  \<^verbatim>\<open>update[i]\<close> where level \<open>i\<close> stopped.
\<close>

fun sl_search :: "('a \<Rightarrow> bool) \<Rightarrow> 'a skiplist \<Rightarrow> nat \<Rightarrow> nat \<Rightarrow> (nat \<Rightarrow> nat) \<Rightarrow> (nat \<times> (nat \<Rightarrow> nat)) option" where
  "sl_search before s 0 node update = Some (node, update)"
| "sl_search before s (Suc i) node update =
     (case sl_advance before s i node of
        None \<Rightarrow> None
      | Some node' \<Rightarrow> sl_search before s i node' (update(i := node')))"

text \<open>
  \<^verbatim>\<open>skiplist_insert\<close>: \<open>a\<close> is the address \<^verbatim>\<open>malloc\<close> returns for the new
  node, \<open>rs\<close> the random numbers. The Boolean result is \<open>False\<close> where C returns NULL.
\<close>

definition skiplist_insert ::
  "('a \<Rightarrow> 'a \<Rightarrow> int) \<Rightarrow> nat \<Rightarrow> nat list \<Rightarrow> 'a \<Rightarrow> 'a skiplist \<Rightarrow> ('a skiplist \<times> bool) option" where
  "skiplist_insert cmp a rs v s =
     (case sl_search (\<lambda>x. cmp x v \<le> 0) s (sl_level s) 0 (\<lambda>_. 0) of
        None \<Rightarrow> None
      | Some (node, update) \<Rightarrow>
          if (case sl_value s node of Some x \<Rightarrow> cmp x v = 0 | None \<Rightarrow> False) then Some (s, False)
          else
            let level = skiplist_random_level rs;
                update = (if level > sl_level s
                  then (\<lambda>i. if sl_level s \<le> i \<and> i < level then 0 else update i) else update);
                fwd = (\<lambda>n i.
                  if i < level then
                    (if n = a then sl_fwd s (update i) i
                     else if n = update i then Some a else sl_fwd s n i)
                  else if n = a then None else sl_fwd s n i)
            in Some (s\<lparr>sl_level := max level (sl_level s), sl_value := (sl_value s)(a := Some v),
                  sl_fwd := fwd, sl_len := sl_len s + 1\<rparr>, True))"

definition skiplist_find :: "('a \<Rightarrow> 'a \<Rightarrow> int) \<Rightarrow> 'a \<Rightarrow> 'a skiplist \<Rightarrow> nat option option" where
  "skiplist_find cmp v s =
     (case sl_search (\<lambda>x. cmp x v \<le> 0) s (sl_level s) 0 (\<lambda>_. 0) of
        None \<Rightarrow> None
      | Some (node, _) \<Rightarrow>
          (case sl_value s node of
             Some x \<Rightarrow> if cmp x v = 0 then Some (Some node) else Some None
           | None \<Rightarrow> Some None))"

text \<open>The loop that lowers the level of the list while its top level is empty.\<close>

fun shrink_level :: "(nat \<Rightarrow> nat option) \<Rightarrow> nat \<Rightarrow> nat" where
  "shrink_level header 0 = 0"
| "shrink_level header (Suc l) =
     (if Suc l > 1 \<and> header l = None then shrink_level header l else Suc l)"

text \<open>\<^verbatim>\<open>skiplist_delete\<close> takes the address of a node of the list.\<close>

definition skiplist_delete :: "('a \<Rightarrow> 'a \<Rightarrow> int) \<Rightarrow> nat \<Rightarrow> 'a skiplist \<Rightarrow> 'a skiplist option" where
  "skiplist_delete cmp x s =
     (case sl_value s x of
        None \<Rightarrow> None
      | Some xv \<Rightarrow>
          (case sl_search (\<lambda>y. cmp y xv < 0) s (sl_level s) 0 (\<lambda>_. 0) of
             None \<Rightarrow> None
           | Some (_, update) \<Rightarrow>
               let fwd = (\<lambda>n i.
                 if i < sl_level s \<and> n = update i \<and> sl_fwd s n i = Some x
                 then sl_fwd s x i else sl_fwd s n i)
               in Some (s\<lparr>sl_level := shrink_level (fwd 0) (sl_level s),
                    sl_value := (sl_value s)(x := None), sl_fwd := fwd, sl_len := sl_len s - 1\<rparr>)))"

text \<open>
  \<^verbatim>\<open>skiplist_get_iterator\<close> followed by \<^verbatim>\<open>skiplist_next\<close> until it returns
  NULL: the values along \<^verbatim>\<open>forward[0]\<close>.
\<close>

partial_function (option) sl_iterate :: "'a skiplist \<Rightarrow> nat option \<Rightarrow> 'a list option" where
  "sl_iterate s next =
     (case next of
        None \<Rightarrow> Some []
      | Some node \<Rightarrow>
          (case sl_value s node of
             None \<Rightarrow> None
           | Some x \<Rightarrow> Option.bind (sl_iterate s (sl_fwd s node 0)) (\<lambda>xs. Some (x # xs))))"

definition skiplist_values :: "'a skiplist \<Rightarrow> 'a list option" where
  "skiplist_values s = sl_iterate s (sl_fwd s 0 0)"

section \<open>The levels are chains through the same nodes\<close>

text \<open>\<open>links f n xs\<close>: the pointers \<open>f\<close> lead from \<open>n\<close> through \<open>xs\<close> to NULL.\<close>

fun links :: "(nat \<Rightarrow> nat option) \<Rightarrow> nat \<Rightarrow> nat list \<Rightarrow> bool" where
  "links f n [] \<longleftrightarrow> f n = None"
| "links f n (x # xs) \<longleftrightarrow> f n = Some x \<and> links f x xs"

text \<open>
  \<open>sl_rep s h ns\<close>: the allocated nodes are \<open>ns\<close>, in list order; \<open>h\<close> gives the number of
  forward pointers of each, and level \<open>i\<close> is the chain of the nodes higher than \<open>i\<close>.
\<close>

definition sl_rep :: "'a skiplist \<Rightarrow> (nat \<Rightarrow> nat) \<Rightarrow> nat list \<Rightarrow> bool" where
  "sl_rep s h ns \<longleftrightarrow>
     distinct ns \<and> (\<forall>a. a \<in> set ns \<longleftrightarrow> sl_value s a \<noteq> None) \<and> sl_value s 0 = None \<and>
     1 \<le> sl_level s \<and> sl_level s \<le> SKIPLIST_MAX_LEVEL \<and>
     (\<forall>a\<in>set ns. 1 \<le> h a \<and> h a \<le> sl_level s) \<and>
     (\<forall>i. links (\<lambda>n. sl_fwd s n i) 0 (filter (\<lambda>a. i < h a) ns)) \<and> sl_len s = length ns"

definition node_values :: "'a skiplist \<Rightarrow> nat list \<Rightarrow> 'a list" where
  "node_values s ns = map (\<lambda>a. the (sl_value s a)) ns"

lemma links_last: "links f n (xs @ ys) \<Longrightarrow> links f (last (n # xs)) ys"
  by (induction xs arbitrary: n) auto

lemma links_cong: "links f n xs \<Longrightarrow> (\<And>m. m \<in> set (n # xs) \<Longrightarrow> g m = f m) \<Longrightarrow> links g n xs"
  by (induction xs arbitrary: n) auto

lemma links_target: "links f n xs \<Longrightarrow> m \<in> set (n # xs) \<Longrightarrow> f m = Some y \<Longrightarrow> y \<in> set xs"
  by (induction xs arbitrary: n) auto

lemma links_glue:
  "links f n (xs @ ys) \<Longrightarrow> (\<And>m. m \<in> set (butlast (n # xs)) \<Longrightarrow> g m = f m) \<Longrightarrow>
   links g (last (n # xs)) zs \<Longrightarrow> links g n (xs @ zs)"
  by (induction xs arbitrary: n) auto

lemma links_insert:
  assumes "links f n (xs @ ys)" "distinct (n # xs @ ys)" "a \<notin> set (n # xs @ ys)"
    and g: "\<And>m. g m = (if m = a then f (last (n # xs)) else if m = last (n # xs) then Some a else f m)"
  shows "links g n (xs @ a # ys)"
proof (rule links_glue [OF assms(1)])
  have ne: "last (n # xs) \<notin> set ys" "last (n # xs) \<noteq> a"
    using assms(2,3) last_in_set [of "n # xs"] by auto
  fix m assume m: "m \<in> set (butlast (n # xs))"
  have "distinct (n # xs)" using assms(2) by simp
  then have "last (n # xs) \<notin> set (butlast (n # xs))"
    by (metis append_butlast_last_id distinct_butlast list.distinct(1) not_distinct_conv_prefix)
  with m assms(3) show "g m = f m" by (auto simp: g dest: in_set_butlastD)
next
  have ne: "last (n # xs) \<notin> set ys" "last (n # xs) \<noteq> a"
    using assms(2,3) last_in_set [of "n # xs"] by (auto simp del: last.simps)
  have "links f (last (n # xs)) ys" using assms(1) by (rule links_last)
  then have "links g a ys"
  proof (cases ys)
    case (Cons y ys')
    with \<open>links f (last (n # xs)) ys\<close> have f: "f (last (n # xs)) = Some y" "links f y ys'" by auto
    have "links g y ys'"
      by (rule links_cong [OF f(2)]) (use Cons ne assms(3) in \<open>auto simp: g simp del: last.simps\<close>)
    with f Cons show ?thesis by (simp add: g del: last.simps)
  qed (simp add: g del: last.simps)
  then show "links g (last (n # xs)) (a # ys)" using ne(2) by (simp add: g)
qed

lemma links_remove:
  assumes "links f n (xs @ x # ys)" "distinct (n # xs @ x # ys)"
    and g: "\<And>m. m \<noteq> x \<Longrightarrow> g m = (if m = last (n # xs) then f x else f m)"
  shows "links g n (xs @ ys)"
proof (rule links_glue [OF assms(1)])
  fix m assume m: "m \<in> set (butlast (n # xs))"
  have "distinct (n # xs)" using assms(2) by simp
  then have "last (n # xs) \<notin> set (butlast (n # xs))"
    by (metis append_butlast_last_id distinct_butlast list.distinct(1) not_distinct_conv_prefix)
  moreover have "m \<noteq> x" using m assms(2) in_set_butlastD [OF m] by auto
  ultimately show "g m = f m" using m by (auto simp: g)
next
  have ne: "last (n # xs) \<notin> set ys" "last (n # xs) \<noteq> x"
    using assms(2) last_in_set [of "n # xs"] by (auto simp del: last.simps)
  have "links f (last (n # xs)) (x # ys)" using assms(1) by (rule links_last)
  then have f: "links f x ys" by simp
  show "links g (last (n # xs)) ys"
  proof (cases ys)
    case Nil
    with f ne show ?thesis by (simp add: g del: last.simps)
  next
    case (Cons y ys')
    with f have f': "f x = Some y" "links f y ys'" by auto
    have "links g y ys'"
    proof (rule links_cong [OF f'(2)])
      fix m assume "m \<in> set (y # ys')"
      then have "m \<noteq> x" "m \<noteq> last (n # xs)" using Cons ne assms(2) by auto
      then show "g m = f m" by (simp add: g del: last.simps)
    qed
    with f' Cons ne show ?thesis by (simp add: g del: last.simps)
  qed
qed

lemma sl_advance_run:
  assumes "links (\<lambda>m. sl_fwd s m i) n (bs @ cs)"
    and "\<forall>b\<in>set bs. \<exists>v. sl_value s b = Some v \<and> before v"
    and "\<forall>c\<in>set cs. \<exists>v. sl_value s c = Some v \<and> \<not> before v"
  shows "sl_advance before s i n = Some (last (n # bs))"
  using assms
proof (induction bs arbitrary: n)
  case Nil
  then show ?case by (cases cs) (auto simp: sl_advance.simps [of before s i n])
next
  case (Cons b bs)
  then have "sl_advance before s i b = Some (last (b # bs))" by simp
  with Cons.prems show ?case by (auto simp: sl_advance.simps [of before s i n])
qed

text \<open>Where level \<open>i\<close> stops: at the last node of the prefix that is higher than \<open>i\<close>.\<close>

definition stop_at :: "(nat \<Rightarrow> nat) \<Rightarrow> nat list \<Rightarrow> nat \<Rightarrow> nat" where
  "stop_at h pre i = last (0 # filter (\<lambda>a. i < h a) pre)"

lemma last_filter_split:
  "\<exists>as bs. pre = as @ bs \<and> filter P bs = [] \<and> last (z # filter P pre) = last (z # as) \<and> (as = [] \<or> P (last as))"
proof (induction pre rule: rev_induct)
  case (snoc x xs)
  show ?case
  proof (cases "P x")
    case True
    then show ?thesis by (intro exI [of _ "xs @ [x]"] exI [of _ "[]"]) simp
  next
    case False
    from snoc obtain as bs where "xs = as @ bs" "filter P bs = []"
      "last (z # filter P xs) = last (z # as)" "as = [] \<or> P (last as)" by blast
    with False show ?thesis by (intro exI [of _ as] exI [of _ "bs @ [x]"]) simp
  qed
qed simp

lemma stop_at_step:
  assumes rep: "sl_rep s h (pre @ suf)"
    and pre: "\<forall>b\<in>set pre. \<exists>v. sl_value s b = Some v \<and> before v"
    and suf: "\<forall>c\<in>set suf. \<exists>v. sl_value s c = Some v \<and> \<not> before v"
  shows "sl_advance before s i (stop_at h pre (Suc i)) = Some (stop_at h pre i)"
proof -
  obtain as bs where split: "pre = as @ bs" "filter (\<lambda>a. Suc i < h a) bs = []"
    and la: "stop_at h pre (Suc i) = last (0 # as)" and P: "as = [] \<or> Suc i < h (last as)"
    using last_filter_split [of pre "\<lambda>a. Suc i < h a" 0] unfolding stop_at_def by blast
  have same: "last (0 # filter (\<lambda>a. i < h a) as) = last (0 # as)"
    using P by (cases as rule: rev_cases) auto
  have "links (\<lambda>n. sl_fwd s n i) 0 (filter (\<lambda>a. i < h a) as @ filter (\<lambda>a. i < h a) bs @ filter (\<lambda>a. i < h a) suf)"
    using rep by (simp add: sl_rep_def split)
  from links_last [OF this] have l:
    "links (\<lambda>n. sl_fwd s n i) (last (0 # as)) (filter (\<lambda>a. i < h a) bs @ filter (\<lambda>a. i < h a) suf)"
    by (simp only: same)
  have "sl_advance before s i (last (0 # as)) = Some (last (last (0 # as) # filter (\<lambda>a. i < h a) bs))"
    by (rule sl_advance_run [OF l]) (use pre suf split in auto)
  moreover have "last (last (0 # as) # filter (\<lambda>a. i < h a) bs) = stop_at h pre i"
    unfolding same [symmetric] by (simp add: stop_at_def split last_append)
  ultimately show ?thesis by (simp only: la)
qed

lemma sl_search_run:
  assumes "sl_rep s h (pre @ suf)"
    and "\<forall>b\<in>set pre. \<exists>v. sl_value s b = Some v \<and> before v"
    and "\<forall>c\<in>set suf. \<exists>v. sl_value s c = Some v \<and> \<not> before v"
  shows "sl_search before s i (stop_at h pre i) update =
    Some (stop_at h pre 0, \<lambda>j. if j < i then stop_at h pre j else update j)"
proof (induction i arbitrary: update)
  case (Suc i)
  show ?case
    by (auto simp: stop_at_step [OF assms] Suc.IH fun_eq_iff less_Suc_eq)
qed simp

text \<open>The whole search, from the header at the top level.\<close>

lemma sl_search_top:
  assumes "sl_rep s h (pre @ suf)"
    and "\<forall>b\<in>set pre. before (the (sl_value s b))"
    and "\<forall>c\<in>set suf. \<not> before (the (sl_value s c))"
  shows "sl_search before s (sl_level s) 0 update =
    Some (last (0 # pre), \<lambda>j. if j < sl_level s then stop_at h pre j else update j)"
proof -
  have v: "\<forall>b\<in>set (pre @ suf). sl_value s b \<noteq> None" and
    h: "\<forall>b\<in>set (pre @ suf). 1 \<le> h b \<and> h b \<le> sl_level s"
    using assms(1) by (simp_all add: sl_rep_def)
  have "filter (\<lambda>a. sl_level s < h a) pre = []"
    using h by (simp add: filter_empty_conv not_less)
  moreover have "filter (\<lambda>a. 0 < h a) pre = pre"
    using h by (simp add: filter_id_conv Suc_le_eq)
  ultimately have "stop_at h pre (sl_level s) = 0" "stop_at h pre 0 = last (0 # pre)"
    by (simp_all add: stop_at_def)
  moreover have "\<forall>b\<in>set pre. \<exists>v. sl_value s b = Some v \<and> before v"
    "\<forall>c\<in>set suf. \<exists>v. sl_value s c = Some v \<and> \<not> before v"
    using v assms(2,3) by fastforce+
  ultimately show ?thesis using sl_search_run [OF assms(1), of before "sl_level s" update] by simp
qed

lemma sl_iterate_run:
  "links (\<lambda>m. sl_fwd s m 0) n ns \<Longrightarrow> \<forall>a\<in>set ns. sl_value s a \<noteq> None \<Longrightarrow>
   sl_iterate s (sl_fwd s n 0) = Some (node_values s ns)"
  by (induction ns arbitrary: n) (auto simp: sl_iterate.simps node_values_def)

lemma skiplist_values_rep: "sl_rep s h ns \<Longrightarrow> skiplist_values s = Some (node_values s ns)"
proof -
  assume rep: "sl_rep s h ns"
  then have "filter (\<lambda>a. 0 < h a) ns = ns" by (auto simp: sl_rep_def filter_id_conv)
  then have "links (\<lambda>m. sl_fwd s m 0) 0 ns" using rep unfolding sl_rep_def by metis
  then show ?thesis
    unfolding skiplist_values_def by (rule sl_iterate_run) (use rep in \<open>simp add: sl_rep_def\<close>)
qed

section \<open>The operations implement the sequence\<close>

lemma random_level_bounds: "1 \<le> skiplist_random_level rs \<and> skiplist_random_level rs \<le> SKIPLIST_MAX_LEVEL"
proof -
  have "l \<le> random_level_loop rs l" for l
    by (induction rs l rule: random_level_loop.induct) auto
  from this [of 1] show ?thesis by (auto simp: skiplist_random_level_def Let_def SKIPLIST_MAX_LEVEL_def)
qed

lemma node_values_append: "node_values s (xs @ ys) = node_values s xs @ node_values s ys"
  by (simp add: node_values_def)

lemma sl_rep_finite: "sl_rep s h ns \<Longrightarrow> 0 \<notin> set ns"
  by (auto simp: sl_rep_def)

text \<open>A prefix of the values is the values of a prefix of the nodes.\<close>

lemma node_values_splitE:
  assumes "node_values s ns = le @ gt"
  obtains pre suf where "ns = pre @ suf" "node_values s pre = le" "node_values s suf = gt"
  using assms that unfolding node_values_def by (metis map_eq_append_conv)

lemma shrink_level_links:
  assumes "\<And>i. l \<le> i \<Longrightarrow> f i = None" "1 \<le> l"
  shows "1 \<le> shrink_level f l \<and> shrink_level f l \<le> l \<and> (\<forall>i. shrink_level f l \<le> i \<longrightarrow> f i = None)"
  using assms
proof (induction f l rule: shrink_level.induct)
  case (2 header l)
  show ?case
  proof (cases "Suc l > 1 \<and> header l = None")
    case True
    have "header i = None" if "l \<le> i" for i
      using that True "2.prems"(1) by (cases "i = l") auto
    with 2 True show ?thesis by auto
  next
    case False
    with "2.prems" show ?thesis by auto
  qed
qed simp

lemma links_empty_iff: "links f n xs \<Longrightarrow> f n = None \<longleftrightarrow> xs = []"
  by (cases xs) auto

definition skiplist_inv :: "('a \<Rightarrow> 'a \<Rightarrow> int) \<Rightarrow> 'a set \<Rightarrow> 'a skiplist \<Rightarrow> bool" where
  "skiplist_inv cmp S s \<longleftrightarrow>
     (\<exists>h ns. sl_rep s h ns \<and> set (node_values s ns) \<subseteq> S \<and> sorted_wrt (\<lambda>x y. cmp x y < 0) (node_values s ns))"

lemma insert_rep:
  assumes rep: "sl_rep s h (pre @ suf)" and fresh: "a \<noteq> 0" "sl_value s a = None"
    and pre: "\<forall>b\<in>set pre. cmp (the (sl_value s b)) v < 0"
    and suf: "\<forall>c\<in>set suf. \<not> cmp (the (sl_value s c)) v \<le> 0"
  shows "\<exists>s' h'. skiplist_insert cmp a rs v s = Some (s', True) \<and> sl_rep s' h' (pre @ a # suf) \<and>
    node_values s' (pre @ a # suf) = node_values s pre @ v # node_values s suf"
proof -
  define level where "level = skiplist_random_level rs"
  define up where "up = (\<lambda>j. if j < sl_level s then stop_at h pre j else 0)"
  have srch: "sl_search (\<lambda>x. cmp x v \<le> 0) s (sl_level s) 0 (\<lambda>_. 0) = Some (last (0 # pre), up)"
    unfolding up_def by (rule sl_search_top [OF rep]) (use pre suf in auto)
  have lv: "1 \<le> level" "level \<le> SKIPLIST_MAX_LEVEL" using random_level_bounds by (simp_all add: level_def)
  have h: "\<forall>x\<in>set (pre @ suf). 1 \<le> h x \<and> h x \<le> sl_level s" using rep by (simp add: sl_rep_def)
  have st: "stop_at h pre j = up j" for j
  proof (cases "j < sl_level s")
    case False
    have "\<not> j < h x" if "x \<in> set pre" for x
      using bspec [OF h, of x] that False by simp
    then have "filter (\<lambda>a. j < h a) pre = []" by (simp add: filter_empty_conv)
    with False show ?thesis by (simp add: up_def stop_at_def)
  qed (simp add: up_def)
  have no_dup: "\<not> (case sl_value s (last (0 # pre)) of Some x \<Rightarrow> cmp x v = 0 | None \<Rightarrow> False)"
  proof (cases "pre = []")
    case True
    then show ?thesis using rep by (simp add: sl_rep_def)
  next
    case False
    then have "cmp (the (sl_value s (last pre))) v < 0" using pre last_in_set by blast
    with False show ?thesis by (auto split: option.splits)
  qed
  define fwd where "fwd = (\<lambda>n i. if i < level then
      (if n = a then sl_fwd s (up i) i else if n = up i then Some a else sl_fwd s n i)
      else if n = a then None else sl_fwd s n i)"
  define s' where "s' = s\<lparr>sl_level := max level (sl_level s), sl_value := (sl_value s)(a := Some v),
      sl_fwd := fwd, sl_len := sl_len s + 1\<rparr>"
  have up0: "(if level > sl_level s then \<lambda>i. if sl_level s \<le> i \<and> i < level then 0 else up i else up) = up"
    by (auto simp: up_def fun_eq_iff)
  have ins: "skiplist_insert cmp a rs v s = Some (s', True)"
    unfolding skiplist_insert_def srch option.case prod.case Let_def level_def [symmetric] up0
    using no_dup by (simp only: if_False s'_def fwd_def)
  define h' where "h' = h(a := level)"
  have a: "a \<notin> set (pre @ suf)" and z: "0 \<notin> set (pre @ suf)" and d: "distinct (pre @ suf)"
    using fresh rep by (auto simp: sl_rep_def)
  have hp: "filter (\<lambda>x. i < h' x) pre = filter (\<lambda>x. i < h x) pre"
    "filter (\<lambda>x. i < h' x) suf = filter (\<lambda>x. i < h x) suf" for i
    using a by (auto simp: h'_def intro: filter_cong)
  have ch: "links (\<lambda>n. fwd n i) 0 (filter (\<lambda>x. i < h' x) (pre @ a # suf))" for i
  proof -
    have old: "links (\<lambda>n. sl_fwd s n i) 0 (filter (\<lambda>x. i < h x) pre @ filter (\<lambda>x. i < h x) suf)"
      using rep by (simp add: sl_rep_def)
    show ?thesis
    proof (cases "i < level")
      case True
      have "links (\<lambda>n. fwd n i) 0 (filter (\<lambda>x. i < h x) pre @ a # filter (\<lambda>x. i < h x) suf)"
        by (rule links_insert [OF old])
          (use a z d fresh True in \<open>auto simp: fwd_def stop_at_def simp del: last.simps simp flip: st\<close>)
      with True show ?thesis by (simp add: hp) (simp add: h'_def)
    next
      case False
      have "links (\<lambda>n. fwd n i) 0 (filter (\<lambda>x. i < h x) pre @ filter (\<lambda>x. i < h x) suf)"
        by (rule links_cong [OF old]) (use False a fresh in \<open>auto simp: fwd_def\<close>)
      with False show ?thesis by (simp add: hp) (simp add: h'_def)
    qed
  qed
  have "sl_rep s' h' (pre @ a # suf)"
  proof -
    have nodes: "\<forall>x. x \<in> set (pre @ a # suf) \<longleftrightarrow> ((sl_value s)(a \<mapsto> v)) x \<noteq> None"
      using rep by (auto simp: sl_rep_def)
    have heights: "\<forall>x\<in>set (pre @ a # suf). 1 \<le> h' x \<and> h' x \<le> max level (sl_level s)"
      using h lv a by (auto simp: h'_def le_max_iff_disj)
    have "distinct (pre @ a # suf)" using a d by simp
    then show ?thesis
      using rep fresh lv nodes heights ch by (simp add: sl_rep_def s'_def del: set_append list.set)
  qed
  moreover have "node_values s' (pre @ a # suf) = node_values s pre @ v # node_values s suf"
    using a by (auto simp: node_values_def s'_def)
  ultimately show ?thesis using ins by blast
qed

lemma delete_rep:
  assumes rep: "sl_rep s h (pre @ x # suf)"
    and pre: "\<forall>b\<in>set pre. cmp (the (sl_value s b)) (the (sl_value s x)) < 0"
    and suf: "\<forall>c\<in>set (x # suf). \<not> cmp (the (sl_value s c)) (the (sl_value s x)) < 0"
  shows "\<exists>s'. skiplist_delete cmp x s = Some s' \<and> sl_rep s' h (pre @ suf) \<and>
    node_values s' (pre @ suf) = node_values s (pre @ suf)"
proof -
  define up where "up = (\<lambda>j. if j < sl_level s then stop_at h pre j else 0)"
  have srch: "sl_search (\<lambda>y. cmp y (the (sl_value s x)) < 0) s (sl_level s) 0 (\<lambda>_. 0) = Some (last (0 # pre), up)"
    unfolding up_def by (rule sl_search_top [OF rep]) (use pre suf in auto)
  have h: "\<forall>y\<in>set (pre @ x # suf). 1 \<le> h y \<and> h y \<le> sl_level s" using rep by (simp add: sl_rep_def)
  have d: "distinct (pre @ x # suf)" using rep by (simp add: sl_rep_def)
  have z: "0 \<notin> set (pre @ x # suf)" by (rule sl_rep_finite [OF rep])
  have vx: "\<exists>xv. sl_value s x = Some xv" using rep by (auto simp: sl_rep_def)
  have old: "links (\<lambda>n. sl_fwd s n i) 0 (filter (\<lambda>y. i < h y) (pre @ x # suf))" for i
    using rep by (simp add: sl_rep_def)
  define fwd where "fwd = (\<lambda>n i. if i < sl_level s \<and> n = up i \<and> sl_fwd s n i = Some x
      then sl_fwd s x i else sl_fwd s n i)"
  have ch: "links (\<lambda>n. fwd n i) 0 (filter (\<lambda>y. i < h y) (pre @ suf))" for i
  proof (cases "i < h x")
    case True
    then have lt: "i < sl_level s" using h by auto
    have l: "links (\<lambda>n. sl_fwd s n i) 0 (filter (\<lambda>y. i < h y) pre @ x # filter (\<lambda>y. i < h y) suf)"
      using old [of i] True by simp
    from links_last [OF l] have at: "sl_fwd s (stop_at h pre i) i = Some x" by (simp add: stop_at_def)
    have "links (\<lambda>n. fwd n i) 0 (filter (\<lambda>y. i < h y) pre @ filter (\<lambda>y. i < h y) suf)"
      by (rule links_remove [OF l])
        (use d z lt at in \<open>auto simp: fwd_def up_def stop_at_def simp del: last.simps\<close>)
    then show ?thesis by simp
  next
    case False
    have l: "links (\<lambda>n. sl_fwd s n i) 0 (filter (\<lambda>y. i < h y) (pre @ suf))"
      using old [of i] False by simp
    show ?thesis
    proof (rule links_cong [OF l])
      fix m assume m: "m \<in> set (0 # filter (\<lambda>y. i < h y) (pre @ suf))"
      have "sl_fwd s m i \<noteq> Some x" using links_target [OF l m, of x] False by auto
      then show "fwd m i = sl_fwd s m i" by (simp add: fwd_def)
    qed
  qed
  define s' where "s' = s\<lparr>sl_level := shrink_level (fwd 0) (sl_level s),
      sl_value := (sl_value s)(x := None), sl_fwd := fwd, sl_len := sl_len s - 1\<rparr>"
  have del: "skiplist_delete cmp x s = Some s'"
    using vx srch by (auto simp: skiplist_delete_def Let_def s'_def fwd_def)
  have top: "fwd 0 i = None" if "sl_level s \<le> i" for i
  proof -
    have "filter (\<lambda>y. i < h y) (pre @ suf) = []"
      using h that by (auto simp: filter_empty_conv not_less dest: bspec intro: order.trans)
    then show ?thesis using ch [of i] by simp
  qed
  have lvl: "1 \<le> sl_level s" "sl_level s \<le> SKIPLIST_MAX_LEVEL" using rep by (simp_all add: sl_rep_def)
  note sh = shrink_level_links [of "sl_level s" "fwd 0", OF top lvl(1)]
  have hs: "h y \<le> shrink_level (fwd 0) (sl_level s)" if y: "y \<in> set (pre @ suf)" for y
  proof (rule ccontr)
    assume "\<not> ?thesis"
    then have "filter (\<lambda>z. shrink_level (fwd 0) (sl_level s) < h z) (pre @ suf) \<noteq> []"
      using y unfolding filter_empty_conv by (meson not_less)
    moreover have "fwd 0 (shrink_level (fwd 0) (sl_level s)) = None" using sh by simp
    ultimately show False using links_empty_iff [OF ch] by blast
  qed
  have "sl_rep s' h (pre @ suf)"
    using rep d z h hs sh lvl ch by (auto simp: sl_rep_def s'_def)
  moreover have "node_values s' (pre @ suf) = node_values s (pre @ suf)"
    using d by (auto simp: node_values_def s'_def)
  ultimately show ?thesis using del by blast
qed

context comparison
begin

lemma skiplist_invE:
  assumes "skiplist_inv cmp S s"
  obtains h ns where "sl_rep s h ns" "ordered (node_values s ns)"
    "skiplist_values s = Some (node_values s ns)"
  using assms skiplist_values_rep unfolding skiplist_inv_def ordered_def by blast

lemma skiplist_invI: "sl_rep s h ns \<Longrightarrow> ordered (node_values s ns) \<Longrightarrow> skiplist_inv cmp S s"
  unfolding skiplist_inv_def ordered_def by blast

lemma search_le:
  assumes rep: "sl_rep s h ns" and ord: "ordered (node_values s ns)" and v: "v \<in> S"
  obtains pre suf where "ns = pre @ suf"
    "node_values s pre = takeWhile (\<lambda>x. cmp x v \<le> 0) (node_values s ns)"
    "node_values s suf = dropWhile (\<lambda>x. cmp x v \<le> 0) (node_values s ns)"
    "\<exists>upd. sl_search (\<lambda>x. cmp x v \<le> 0) s (sl_level s) 0 (\<lambda>_. 0) = Some (last (0 # pre), upd)"
    "\<forall>c\<in>set suf. \<not> cmp (the (sl_value s c)) v \<le> 0"
proof -
  note sp = ordered_split [OF ord v]
  obtain pre suf where ps: "ns = pre @ suf"
    "node_values s pre = takeWhile (\<lambda>x. cmp x v \<le> 0) (node_values s ns)"
    "node_values s suf = dropWhile (\<lambda>x. cmp x v \<le> 0) (node_values s ns)"
    using node_values_splitE [OF sp(1)] by blast
  have pre: "\<forall>b\<in>set pre. cmp (the (sl_value s b)) v \<le> 0"
    using sp(2) unfolding ps(2) [symmetric] by (simp add: node_values_def)
  have suf: "\<forall>c\<in>set suf. \<not> cmp (the (sl_value s c)) v \<le> 0"
  proof
    fix c assume c: "c \<in> set suf"
    then have "the (sl_value s c) \<in> set (node_values s suf)" by (simp add: node_values_def)
    then have "cmp v (the (sl_value s c)) < 0" using sp(3) ps(3) by simp
    moreover have "the (sl_value s c) \<in> S"
      using ord c ps(1) by (auto simp: ordered_def node_values_def)
    ultimately show "\<not> cmp (the (sl_value s c)) v \<le> 0" using flip [OF v] by (simp add: not_le)
  qed
  show ?thesis
    using that ps suf sl_search_top [of s h pre suf "\<lambda>x. cmp x v \<le> 0" "\<lambda>_. 0"] rep pre by auto
qed

lemma last_value:
  assumes "sl_rep s h (pre @ suf)"
  shows "sl_value s (last (0 # pre)) = (if pre = [] then None else Some (last (node_values s pre)))"
proof (cases "pre = []")
  case True
  then show ?thesis using assms by (simp add: sl_rep_def)
next
  case False
  then have "last pre \<in> set (pre @ suf)" by simp
  then have "sl_value s (last pre) \<noteq> None" using assms by (simp only: sl_rep_def) simp
  with False show ?thesis by (simp add: node_values_def last_map)
qed

lemma insert_duplicate:
  assumes inv: "skiplist_inv cmp S s" "skiplist_values s = Some xs" and v: "v \<in> S"
    and dup: "slist_insert cmp v xs = None"
  shows "skiplist_insert cmp a rs v s = Some (s, False)"
proof -
  from inv obtain h ns where rep: "sl_rep s h ns" and ord: "ordered (node_values s ns)"
    and xs: "xs = node_values s ns" by (metis option.inject skiplist_invE)
  obtain pre suf upd where ps: "ns = pre @ suf"
    "node_values s pre = takeWhile (\<lambda>x. cmp x v \<le> 0) (node_values s ns)"
    and srch: "sl_search (\<lambda>x. cmp x v \<le> 0) s (sl_level s) 0 (\<lambda>_. 0) = Some (last (0 # pre), upd)"
    using search_le [OF rep ord v] by metis
  have "node_values s pre \<noteq> [] \<and> cmp (last (node_values s pre)) v = 0"
    using dup unfolding ps(2) xs [symmetric] by (simp add: slist_insert_def Let_def split: if_splits)
  moreover from this have "pre \<noteq> []" by (auto simp: node_values_def)
  ultimately show ?thesis
    using last_value [of s h pre suf] rep ps(1) by (simp add: skiplist_insert_def srch)
qed

lemma insert_new:
  assumes inv: "skiplist_inv cmp S s" "skiplist_values s = Some xs" and v: "v \<in> S"
    and fresh: "a \<noteq> 0" "sl_value s a = None" and ins: "slist_insert cmp v xs = Some ys"
  shows "\<exists>s'. skiplist_insert cmp a rs v s = Some (s', True) \<and> skiplist_inv cmp S s' \<and>
    skiplist_values s' = Some ys \<and> sl_len s' = length ys"
proof -
  from inv obtain h ns where rep: "sl_rep s h ns" and ord: "ordered (node_values s ns)"
    and xs: "xs = node_values s ns" by (metis option.inject skiplist_invE)
  have new: "v \<notin> set xs"
  proof
    assume "v \<in> set xs"
    then have "slist_find cmp v xs = Some v" using slist_find_iff [of xs v] ord xs v by simp
    with ins show False by (simp add: slist_find_def slist_insert_def Let_def split: if_splits)
  qed
  obtain le gt where ys: "ys = le @ v # gt" "xs = le @ gt" "ordered (le @ v # gt)"
    and lt: "\<forall>x\<in>set le. cmp x v < 0" and gtv: "\<forall>y\<in>set gt. cmp v y < 0"
    using slist_insert_Some [of xs v] ord xs v new ins by auto
  obtain pre suf where ps: "ns = pre @ suf" "node_values s pre = le" "node_values s suf = gt"
    using node_values_splitE ys(2) xs by metis
  have pre: "\<forall>b\<in>set pre. cmp (the (sl_value s b)) v < 0"
    using lt unfolding ps(2) [symmetric] by (simp add: node_values_def)
  have suf: "\<forall>c\<in>set suf. \<not> cmp (the (sl_value s c)) v \<le> 0"
  proof
    fix c assume "c \<in> set suf"
    then have "the (sl_value s c) \<in> set gt" unfolding ps(3) [symmetric] by (simp add: node_values_def)
    moreover from this have "the (sl_value s c) \<in> S" using ys(3) by (auto simp: ordered_def)
    ultimately show "\<not> cmp (the (sl_value s c)) v \<le> 0"
      using gtv flip [OF v, of "the (sl_value s c)"] by (simp add: not_le)
  qed
  from insert_rep [of s h pre suf a cmp v rs] rep fresh pre suf ps
  obtain s' h' where s': "skiplist_insert cmp a rs v s = Some (s', True)"
    "sl_rep s' h' (pre @ a # suf)" "node_values s' (pre @ a # suf) = ys"
    using ys(1) by auto
  have "skiplist_inv cmp S s'" using skiplist_invI [OF s'(2)] s'(3) ys by simp
  moreover have "skiplist_values s' = Some ys" using skiplist_values_rep [OF s'(2)] s'(3) by simp
  moreover have "sl_len s' = length ys"
    using s'(2) arg_cong [OF s'(3), of length] by (simp add: sl_rep_def node_values_def)
  ultimately show ?thesis using s'(1) by blast
qed

lemma find_correct:
  assumes inv: "skiplist_inv cmp S s" "skiplist_values s = Some xs" and v: "v \<in> S"
  shows "\<exists>r. skiplist_find cmp v s = Some r \<and> (case r of None \<Rightarrow> v \<notin> set xs | Some n \<Rightarrow> sl_value s n = Some v)"
proof -
  from inv obtain h ns where rep: "sl_rep s h ns" and ord: "ordered (node_values s ns)"
    and xs: "xs = node_values s ns" by (metis option.inject skiplist_invE)
  obtain pre suf upd where ps: "ns = pre @ suf"
    "node_values s pre = takeWhile (\<lambda>x. cmp x v \<le> 0) (node_values s ns)"
    and srch: "sl_search (\<lambda>x. cmp x v \<le> 0) s (sl_level s) 0 (\<lambda>_. 0) = Some (last (0 # pre), upd)"
    using search_le [OF rep ord v] by metis
  have fnd: "slist_find cmp v xs = (if v \<in> set xs then Some v else None)"
    using slist_find_iff ord xs v by simp
  have e: "pre = [] \<longleftrightarrow> node_values s pre = []" by (simp add: node_values_def)
  show ?thesis
    using fnd last_value [of s h pre suf] rep ps(1) e
    unfolding slist_find_def xs ps(2) [symmetric] Let_def
    by (auto simp: skiplist_find_def srch split: if_splits)
qed

lemma delete_correct:
  assumes inv: "skiplist_inv cmp S s" "skiplist_values s = Some xs" and x: "sl_value s x = Some v"
  shows "\<exists>s'. skiplist_delete cmp x s = Some s' \<and> skiplist_inv cmp S s' \<and>
    skiplist_values s' = Some (slist_delete v xs) \<and> sl_len s' = length (slist_delete v xs)"
proof -
  from inv obtain h ns where rep: "sl_rep s h ns" and ord: "ordered (node_values s ns)"
    and xs: "xs = node_values s ns" by (metis option.inject skiplist_invE)
  have "x \<in> set ns" using rep x by (simp add: sl_rep_def)
  then obtain pre suf where ns: "ns = pre @ x # suf" by (meson split_list)
  have srt: "\<forall>b\<in>set pre. cmp (the (sl_value s b)) v < 0" "\<forall>c\<in>set suf. cmp v (the (sl_value s c)) < 0"
    and S: "v \<in> S" "\<forall>c\<in>set suf. the (sl_value s c) \<in> S"
    using ord x by (auto simp: ordered_def node_values_def ns sorted_wrt_append)
  then have "\<forall>c\<in>set (x # suf). \<not> cmp (the (sl_value s c)) (the (sl_value s x)) < 0"
    using x refl flip by fastforce
  with delete_rep [of s h pre x suf cmp] rep ns srt(1) x
  obtain s' where s': "skiplist_delete cmp x s = Some s'" "sl_rep s' h (pre @ suf)"
    "node_values s' (pre @ suf) = node_values s (pre @ suf)" by auto
  have xs': "slist_delete v xs = node_values s (pre @ suf)"
  proof -
    have "v \<notin> set (node_values s pre)" using srt(1) less_irrefl [OF S(1)] by (auto simp: node_values_def)
    then show ?thesis using x by (simp add: slist_delete_def xs ns node_values_append remove1_append)
      (simp add: node_values_def)
  qed
  have "ordered (slist_delete v xs)" using ordered_delete ord xs by simp
  then have "skiplist_inv cmp S s'" using skiplist_invI [OF s'(2)] s'(3) xs' by simp
  moreover have "skiplist_values s' = Some (slist_delete v xs)"
    using skiplist_values_rep [OF s'(2)] s'(3) xs' by simp
  moreover have "sl_len s' = length (slist_delete v xs)"
    using s'(2) xs' by (simp add: sl_rep_def node_values_def)
  ultimately show ?thesis using s'(1) by blast
qed

end

section \<open>The skip list is an ordered list\<close>

lemma skiplist_create_inv: "skiplist_inv cmp S skiplist_create" "skiplist_values skiplist_create = Some []"
proof -
  have rep: "sl_rep skiplist_create (\<lambda>_. 1) []"
    by (simp add: sl_rep_def skiplist_create_def SKIPLIST_MAX_LEVEL_def)
  then show "skiplist_inv cmp S skiplist_create" unfolding skiplist_inv_def
    by (intro exI conjI) (auto simp: node_values_def)
  show "skiplist_values skiplist_create = Some []" using skiplist_values_rep [OF rep] by (simp add: node_values_def)
qed

text \<open>
  C10. Inserting into the skip list is inserting into a sorted list: for any comparison that orders
  the values, whatever the random levels and the address of the new node, the searches over the
  levels end; a value that is already there is refused and nothing changes, and any other value
  goes to its place, so that an iteration yields the sorted list with the value added.
\<close>

theorem skiplist_insert_refines:
  assumes "comparison cmp S" "skiplist_inv cmp S s" "skiplist_values s = Some xs" "v \<in> S"
    and "a \<noteq> 0" "sl_value s a = None"
  shows "\<exists>s' ok. skiplist_insert cmp a rs v s = Some (s', ok) \<and> skiplist_inv cmp S s' \<and>
    (case slist_insert cmp v xs of
       None \<Rightarrow> \<not> ok \<and> s' = s
     | Some ys \<Rightarrow> ok \<and> skiplist_values s' = Some ys \<and> sl_len s' = length ys)"
proof (cases "slist_insert cmp v xs")
  case None
  with comparison.insert_duplicate [OF assms(1-4) None, of a rs] assms(2) show ?thesis by auto
next
  case (Some ys)
  with comparison.insert_new [OF assms(1-6) Some, of rs] show ?thesis by auto
qed

lemma int_comparison: "comparison (\<lambda>x y :: int. x - y) UNIV"
  by unfold_locales auto

theorem skiplist_insert_refines_witness:
  "\<exists>s'. skiplist_insert (\<lambda>x y :: int. x - y) 7 [1, 2, 60000] 5 skiplist_create = Some (s', True) \<and>
    skiplist_values s' = Some [5]"
  using skiplist_insert_refines [OF int_comparison skiplist_create_inv, of 5 7 "[1, 2, 60000]"]
  by (auto simp: slist_insert_def skiplist_create_def)

text \<open>
  Searching the skip list finds exactly the values an iteration yields, and returns the node
  that holds the value.
\<close>

theorem skiplist_find_refines:
  assumes "comparison cmp S" "skiplist_inv cmp S s" "skiplist_values s = Some xs" "v \<in> S"
  shows "\<exists>r. skiplist_find cmp v s = Some r \<and> (case r of None \<Rightarrow> v \<notin> set xs | Some n \<Rightarrow> sl_value s n = Some v)"
  by (rule comparison.find_correct [OF assms])

theorem skiplist_find_refines_witness:
  "skiplist_find (\<lambda>x y :: int. x - y) 5 skiplist_create = Some None"
  using skiplist_find_refines [OF int_comparison skiplist_create_inv, of 5]
  by (auto simp: skiplist_create_def split: option.splits)

text \<open>
  C11. Deleting a node removes exactly its value: the iteration of the list afterwards is the
  iteration before without it, at every level no pointer to the freed node is left, and the
  length is right.
\<close>

theorem skiplist_delete_refines:
  assumes "comparison cmp S" "skiplist_inv cmp S s" "skiplist_values s = Some xs" "sl_value s x = Some v"
  shows "\<exists>s'. skiplist_delete cmp x s = Some s' \<and> skiplist_inv cmp S s' \<and>
    skiplist_values s' = Some (slist_delete v xs) \<and> sl_len s' = length (slist_delete v xs)"
  by (rule comparison.delete_correct [OF assms])

theorem skiplist_delete_refines_witness:
  "\<exists>s s'. skiplist_insert (\<lambda>x y :: int. x - y) 7 [1, 2, 60000] 5 skiplist_create = Some (s, True) \<and>
    skiplist_delete (\<lambda>x y :: int. x - y) 7 s = Some s' \<and> skiplist_values s' = Some []"
proof -
  from comparison.insert_new [OF int_comparison skiplist_create_inv, of 5 7 "[5]" "[1, 2, 60000]"]
  obtain s where s: "skiplist_insert (\<lambda>x y :: int. x - y) 7 [1, 2, 60000] 5 skiplist_create = Some (s, True)"
    "skiplist_inv (\<lambda>x y :: int. x - y) UNIV s" "skiplist_values s = Some [5]"
    by (auto simp: slist_insert_def skiplist_create_def)
  have "sl_value s 7 = Some 5"
    using s(1) by (auto simp: skiplist_insert_def Let_def split: option.splits prod.splits if_splits)
  from skiplist_delete_refines [OF int_comparison s(2,3) this] s(1) show ?thesis by (auto simp: slist_delete_def)
qed

end
