(* ===== verification/Decimal.thy ===== *)
theory Decimal
  imports Prelude
begin

text \<open>
  \<^verbatim>\<open>utils/ut_decimal.c\<close>: the decimal numbers of the exchange. The arithmetic itself
  is the library libmpdec, which is not part of the repository: its operations are the fields
  of the record \<open>mpd_ops\<close>, a parameter of every definition that computes with amounts.
  The locale \<open>mpd_lib\<close> states what the code relies on, in the words of the library's
  documentation: under the decimal128 context with \<^verbatim>\<open>MPD_ROUND_DOWN\<close> that
  \<^verbatim>\<open>init_mpd\<close> sets up, an operation whose exact result is representable
  returns that result, and \<^verbatim>\<open>mpd_rescale\<close> truncates.
\<close>

section \<open>The library interface\<close>

text \<open>
  \<open>mpd_set_string\<close> returns the number and whether the status after the call is exactly
  \<^verbatim>\<open>MPD_Conversion_syntax\<close>; \<open>mpd_rescale x e\<close> takes the new exponent.
\<close>

record 'd mpd_ops =
  mpd_set_string :: "string \<Rightarrow> 'd \<times> bool"
  mpd_to_sci :: "'d \<Rightarrow> string"
  mpd_set_i32 :: "int \<Rightarrow> 'd"
  mpd_cmp :: "'d \<Rightarrow> 'd \<Rightarrow> int"
  mpd_add :: "'d \<Rightarrow> 'd \<Rightarrow> 'd"
  mpd_sub :: "'d \<Rightarrow> 'd \<Rightarrow> 'd"
  mpd_mul :: "'d \<Rightarrow> 'd \<Rightarrow> 'd"
  mpd_div :: "'d \<Rightarrow> 'd \<Rightarrow> 'd"
  mpd_divmod :: "'d \<Rightarrow> 'd \<Rightarrow> 'd \<times> 'd"
  mpd_pow :: "'d \<Rightarrow> 'd \<Rightarrow> 'd"
  mpd_abs :: "'d \<Rightarrow> 'd"
  mpd_copy_negate :: "'d \<Rightarrow> 'd"
  mpd_rescale :: "'d \<Rightarrow> int \<Rightarrow> 'd"

section \<open>The code of \<^verbatim>\<open>ut_decimal.c\<close>\<close>

text \<open>The constants set up by \<^verbatim>\<open>init_mpd\<close>.\<close>

definition mpd_one :: "'d mpd_ops \<Rightarrow> 'd" where
  "mpd_one M = fst (mpd_set_string M ''1'')"

definition mpd_ten :: "'d mpd_ops \<Rightarrow> 'd" where
  "mpd_ten M = fst (mpd_set_string M ''10'')"

definition mpd_zero :: "'d mpd_ops \<Rightarrow> 'd" where
  "mpd_zero M = fst (mpd_set_string M ''0'')"

text \<open>
  \<^verbatim>\<open>decimal\<close>: \<open>None\<close> is the NULL of a syntax error. A precision of 0 skips
  the rescaling altogether (the C code tests \<^verbatim>\<open>if (prec)\<close>).
\<close>

definition decimal :: "'d mpd_ops \<Rightarrow> string \<Rightarrow> int \<Rightarrow> 'd option" where
  "decimal M str prec =
     (let (result, conversion_syntax) = mpd_set_string M str in
      if conversion_syntax then None
      else if prec \<noteq> 0 then Some (mpd_rescale M result (- prec))
      else Some result)"

text \<open>\<^verbatim>\<open>rstripzero\<close> works in place; the model returns the new string.\<close>

definition strip_zeros :: "string \<Rightarrow> string" where
  "strip_zeros str = rev (dropWhile (\<lambda>c. c = CHR ''0'') (rev str))"

definition rstripzero :: "string \<Rightarrow> string" where
  "rstripzero str =
     (if CHR ''e'' \<in> set str then str
      else if CHR ''.'' \<notin> set str then str
      else let t = strip_zeros str in
        if t \<noteq> [] \<and> last t = CHR ''.'' then butlast t else t)"

text \<open>
  The string that \<^verbatim>\<open>json_object_set_new_mpd\<close> and
  \<^verbatim>\<open>json_array_append_new_mpd\<close> write for a number.
\<close>

definition mpd_json_string :: "'d mpd_ops \<Rightarrow> 'd \<Rightarrow> string" where
  "mpd_json_string M value = rstripzero (mpd_to_sci M value)"

section \<open>What the code relies on\<close>

text \<open>
  \<open>fin x\<close>: \<open>x\<close> is a finite number, of value \<open>val x\<close>.
\<close>

locale mpd_lib =
  fixes M :: "'d mpd_ops" and fin :: "'d \<Rightarrow> bool" and val :: "'d \<Rightarrow> rat"
  assumes cmp_less: "fin x \<Longrightarrow> fin y \<Longrightarrow> mpd_cmp M x y < 0 \<longleftrightarrow> val x < val y"
    and cmp_eq: "fin x \<Longrightarrow> fin y \<Longrightarrow> mpd_cmp M x y = 0 \<longleftrightarrow> val x = val y"
    and add: "fin x \<Longrightarrow> fin y \<Longrightarrow> fits p (val x + val y) \<Longrightarrow>
      fin (mpd_add M x y) \<and> val (mpd_add M x y) = val x + val y"
    and sub: "fin x \<Longrightarrow> fin y \<Longrightarrow> fits p (val x - val y) \<Longrightarrow>
      fin (mpd_sub M x y) \<and> val (mpd_sub M x y) = val x - val y"
    and mul: "fin x \<Longrightarrow> fin y \<Longrightarrow> fits p (val x * val y) \<Longrightarrow>
      fin (mpd_mul M x y) \<and> val (mpd_mul M x y) = val x * val y"
    and div: "fin x \<Longrightarrow> fin y \<Longrightarrow> 0 \<le> val x \<Longrightarrow> 0 < val y \<Longrightarrow> val x / val y < 10 ^ 34 \<Longrightarrow>
      fin (mpd_div M x y) \<and> 0 \<le> val (mpd_div M x y) \<and> val (mpd_div M x y) \<le> val x / val y"
    and rescale: "fin x \<Longrightarrow> 0 \<le> p \<Longrightarrow> p \<le> 6176 \<Longrightarrow> \<bar>val x\<bar> * 10 ^ nat p < 10 ^ 34 \<Longrightarrow>
      fin (mpd_rescale M x (- p)) \<and> val (mpd_rescale M x (- p)) = trunc_to p (val x)"
    and abs: "fin x \<Longrightarrow> fin (mpd_abs M x) \<and> val (mpd_abs M x) = \<bar>val x\<bar>"
    and negate: "fin x \<Longrightarrow> fin (mpd_copy_negate M x) \<and> val (mpd_copy_negate M x) = - val x"
    and zero: "fin (mpd_zero M) \<and> val (mpd_zero M) = 0"
    and one: "fin (mpd_one M) \<and> val (mpd_one M) = 1"
begin

lemma cmp_greater: "fin x \<Longrightarrow> fin y \<Longrightarrow> mpd_cmp M x y > 0 \<longleftrightarrow> val x > val y"
  using cmp_less [of x y] cmp_eq [of x y] by linarith

lemma cmp_le: "fin x \<Longrightarrow> fin y \<Longrightarrow> mpd_cmp M x y \<le> 0 \<longleftrightarrow> val x \<le> val y"
  using cmp_greater [of x y] by linarith

lemma cmp_ge: "fin x \<Longrightarrow> fin y \<Longrightarrow> mpd_cmp M x y \<ge> 0 \<longleftrightarrow> val x \<ge> val y"
  using cmp_less [of x y] by linarith

lemmas cmp = cmp_less cmp_eq cmp_greater cmp_le cmp_ge

lemma fin_zero [simp]: "fin (mpd_zero M)" and val_zero [simp]: "val (mpd_zero M) = 0"
  using zero by auto

lemma fin_one [simp]: "fin (mpd_one M)" and val_one [simp]: "val (mpd_one M) = 1"
  using one by auto

lemma rescale_exact:
  assumes "fin x" "fits p (val x)"
  shows "fin (mpd_rescale M x (- p)) \<and> val (mpd_rescale M x (- p)) = val x"
  using rescale [of x p] assms by (simp add: fits_def trunc_to_id)

text \<open>A parsed amount is truncated to the precision asked for, when that is not 0.\<close>

lemma decimal_truncates:
  assumes "mpd_set_string M s = (x, False)" "fin x" "0 < p" "p \<le> 6176"
    "\<bar>val x\<bar> * 10 ^ nat p < 10 ^ 34"
  shows "\<exists>y. decimal M s p = Some y \<and> fin y \<and> val y = trunc_to p (val x)"
  using rescale [of x p] assms by (simp add: decimal_def)

end

text \<open>NaN: a quiet NaN makes comparisons return \<^verbatim>\<open>INT_MAX\<close> and is propagated.\<close>

locale mpd_nan_lib = mpd_lib +
  fixes nan :: "'d \<Rightarrow> bool"
  assumes nan_cmp: "nan x \<or> nan y \<Longrightarrow> mpd_cmp M x y = 2147483647"
    and nan_mul: "nan x \<or> nan y \<Longrightarrow> nan (mpd_mul M x y)"
    and nan_sub: "nan x \<or> nan y \<Longrightarrow> nan (mpd_sub M x y)"
    and nan_div: "nan x \<or> nan y \<Longrightarrow> nan (mpd_div M x y)"
    and nan_rescale: "nan x \<Longrightarrow> nan (mpd_rescale M x e)"
    and nan_string: "\<exists>x. mpd_set_string M ''NaN'' = (x, False) \<and> nan x"
begin

lemma decimal_nan: "\<exists>x. decimal M ''NaN'' p = Some x \<and> nan x"
  using nan_string nan_rescale by (auto simp: decimal_def)

end

section \<open>Facts about \<^verbatim>\<open>rstripzero\<close>\<close>

text \<open>
  The number a plain decimal string (digits, at most one point) denotes, read left to right:
  \<open>digits_value\<close> accumulates the digits, \<open>frac_value\<close> reads what follows the point.
\<close>

definition digit_val :: "char \<Rightarrow> rat" where
  "digit_val c = of_int (int (of_char c) - 48)"

fun frac_value :: "string \<Rightarrow> rat" where
  "frac_value [] = 0"
| "frac_value (c # cs) = (digit_val c + frac_value cs) / 10"

fun plain_value :: "rat \<Rightarrow> string \<Rightarrow> rat" where
  "plain_value acc [] = acc"
| "plain_value acc (c # cs) =
     (if c = CHR ''.'' then acc + frac_value cs else plain_value (10 * acc + digit_val c) cs)"

lemma strip_zeros_snoc:
  "strip_zeros (s @ [c]) = (if c = CHR ''0'' then strip_zeros s else s @ [c])"
  by (simp add: strip_zeros_def)

lemma digit_val_zero [simp]: "digit_val (CHR ''0'') = 0"
  by (simp add: digit_val_def)

lemma frac_value_snoc0: "frac_value (s @ [CHR ''0'']) = frac_value s"
  by (induction s) auto

lemma plain_value_snoc0:
  "CHR ''.'' \<in> set s \<Longrightarrow> plain_value a (s @ [CHR ''0'']) = plain_value a s"
  by (induction s arbitrary: a) (auto simp: frac_value_snoc0)

lemma plain_value_strip:
  "CHR ''.'' \<in> set s \<Longrightarrow> plain_value a (strip_zeros s) = plain_value a s \<and> CHR ''.'' \<in> set (strip_zeros s)"
proof (induction s rule: rev_induct)
  case Nil
  then show ?case by simp
next
  case (snoc c s)
  then show ?case
    by (cases "c = CHR ''0''") (auto simp: strip_zeros_snoc plain_value_snoc0)
qed

lemma count_strip_zeros: "count_list (strip_zeros s) (CHR ''.'') = count_list s (CHR ''.'')"
  by (induction s rule: rev_induct) (auto simp: strip_zeros_snoc, simp add: strip_zeros_def)

lemma plain_value_snoc_point:
  "CHR ''.'' \<notin> set s \<Longrightarrow> plain_value a (s @ [CHR ''.'']) = plain_value a s"
  by (induction s arbitrary: a) auto

text \<open>
  Stripping zeros never changes the number that is sent to a client: for every decimal
  string with at most one point, the stripped string denotes the same number.
\<close>

theorem rstripzero_value:
  assumes "count_list str (CHR ''.'') \<le> 1"
  shows "plain_value 0 (rstripzero str) = plain_value 0 str"
proof (cases "CHR ''.'' \<in> set str \<and> CHR ''e'' \<notin> set str")
  case False
  then show ?thesis by (auto simp: rstripzero_def)
next
  case True
  let ?t = "strip_zeros str"
  have t: "plain_value 0 ?t = plain_value 0 str" "CHR ''.'' \<in> set ?t"
    using plain_value_strip True by auto
  show ?thesis
  proof (cases "last ?t = CHR ''.''")
    case last: True
    have split: "?t = butlast ?t @ [CHR ''.'']"
      using t(2) last by (metis append_butlast_last_id empty_iff list.set(1))
    have "count_list (butlast ?t) (CHR ''.'') = 0"
      using assms count_strip_zeros [of str] arg_cong [OF split, of "\<lambda>u. count_list u (CHR ''.'')"]
      by simp
    then have "CHR ''.'' \<notin> set (butlast ?t)" by (simp add: count_list_0_iff)
    then have "plain_value 0 (butlast ?t) = plain_value 0 ?t"
      using plain_value_snoc_point split by metis
    with True last t show ?thesis by (auto simp: rstripzero_def Let_def)
  qed (use True t in \<open>auto simp: rstripzero_def Let_def\<close>)
qed

theorem rstripzero_value_witness:
  "rstripzero ''12.500'' = ''12.5'' \<and> plain_value 0 (rstripzero ''12.500'') = plain_value 0 ''12.500''"
  using rstripzero_value [of "''12.500''"] by (simp add: rstripzero_def strip_zeros_def)

end
