(* ===== verification/Balance.thy ===== *)
theory Balance
  imports Decimal
begin

text \<open>
  \<^verbatim>\<open>matchengine/me_balance.c\<close>: the users' balances. The two dictionaries of the C file
  are the fields of \<open>ledger\<close>; every operation returns the new ledger and the number the C
  function returns a pointer to (\<open>None\<close> for NULL). The lemmas show that on a well-formed
  ledger the operations are exact additions and subtractions on the numbers the entries denote.
\<close>

section \<open>State\<close>

definition BALANCE_TYPE_AVAILABLE :: u32 where "BALANCE_TYPE_AVAILABLE = 1"
definition BALANCE_TYPE_FREEZE :: u32 where "BALANCE_TYPE_FREEZE = 2"
definition ASSET_NAME_MAX_LEN :: nat where "ASSET_NAME_MAX_LEN = 15"

record asset_type =
  prec_save :: int
  prec_show :: int

text \<open>\<^verbatim>\<open>struct balance_key\<close>: \<^verbatim>\<open>strncpy\<close> keeps the first 16 bytes of the name.\<close>

type_synonym balance_key = "u32 \<times> u32 \<times> string"

definition balance_key :: "u32 \<Rightarrow> u32 \<Rightarrow> string \<Rightarrow> balance_key" where
  "balance_key user_id type asset = (user_id, type, take (ASSET_NAME_MAX_LEN + 1) asset)"

record 'd ledger =
  dict_asset :: "string \<rightharpoonup> asset_type"
  dict_balance :: "balance_key \<rightharpoonup> 'd"

text \<open>
  \<^verbatim>\<open>init_balance\<close> over the configured assets: \<open>None\<close> is the error return when
  a name is configured twice (\<^verbatim>\<open>dict_add\<close> returns NULL).
\<close>

fun init_assets :: "(string \<times> asset_type) list \<Rightarrow> (string \<rightharpoonup> asset_type) \<Rightarrow> (string \<rightharpoonup> asset_type) option" where
  "init_assets [] d = Some d"
| "init_assets ((name, type) # rest) d =
     (case d name of Some _ \<Rightarrow> None | None \<Rightarrow> init_assets rest (d(name \<mapsto> type)))"

definition init_balance :: "(string \<times> asset_type) list \<Rightarrow> 'd ledger option" where
  "init_balance assets =
     map_option (\<lambda>d. \<lparr>dict_asset = d, dict_balance = Map.empty\<rparr>) (init_assets assets Map.empty)"

section \<open>Operations\<close>

definition asset_exist :: "'d ledger \<Rightarrow> string \<Rightarrow> bool" where
  "asset_exist L asset = (dict_asset L asset \<noteq> None)"

definition asset_prec :: "'d ledger \<Rightarrow> string \<Rightarrow> int" where
  "asset_prec L asset = (case dict_asset L asset of Some aty \<Rightarrow> prec_save aty | None \<Rightarrow> - 1)"

definition asset_prec_show :: "'d ledger \<Rightarrow> string \<Rightarrow> int" where
  "asset_prec_show L asset = (case dict_asset L asset of Some aty \<Rightarrow> prec_show aty | None \<Rightarrow> - 1)"

definition balance_get :: "'d ledger \<Rightarrow> u32 \<Rightarrow> u32 \<Rightarrow> string \<Rightarrow> 'd option" where
  "balance_get L user_id type asset = dict_balance L (balance_key user_id type asset)"

definition balance_put :: "'d ledger \<Rightarrow> u32 \<Rightarrow> u32 \<Rightarrow> string \<Rightarrow> 'd \<Rightarrow> 'd ledger" where
  "balance_put L user_id type asset x =
     L\<lparr>dict_balance := (dict_balance L)(balance_key user_id type asset \<mapsto> x)\<rparr>"

definition balance_del :: "'d ledger \<Rightarrow> u32 \<Rightarrow> u32 \<Rightarrow> string \<Rightarrow> 'd ledger" where
  "balance_del L user_id type asset =
     L\<lparr>dict_balance := (dict_balance L)(balance_key user_id type asset := None)\<rparr>"

definition balance_set ::
  "'d mpd_ops \<Rightarrow> 'd ledger \<Rightarrow> u32 \<Rightarrow> u32 \<Rightarrow> string \<Rightarrow> 'd \<Rightarrow> 'd ledger \<times> 'd option" where
  "balance_set M L user_id type asset amount =
     (case dict_asset L asset of
        None \<Rightarrow> (L, None)
      | Some aty \<Rightarrow>
          let ret = mpd_cmp M amount (mpd_zero M) in
          if ret < 0 then (L, None)
          else if ret = 0 then (balance_del L user_id type asset, Some (mpd_zero M))
          else
            let result = mpd_rescale M amount (- prec_save aty)
            in (balance_put L user_id type asset result, Some result))"

definition balance_add ::
  "'d mpd_ops \<Rightarrow> 'd ledger \<Rightarrow> u32 \<Rightarrow> u32 \<Rightarrow> string \<Rightarrow> 'd \<Rightarrow> 'd ledger \<times> 'd option" where
  "balance_add M L user_id type asset amount =
     (case dict_asset L asset of
        None \<Rightarrow> (L, None)
      | Some aty \<Rightarrow>
          if mpd_cmp M amount (mpd_zero M) < 0 then (L, None)
          else (case balance_get L user_id type asset of
             Some entry \<Rightarrow>
               let result = mpd_rescale M (mpd_add M entry amount) (- prec_save aty)
               in (balance_put L user_id type asset result, Some result)
           | None \<Rightarrow> balance_set M L user_id type asset amount))"

definition balance_sub ::
  "'d mpd_ops \<Rightarrow> 'd ledger \<Rightarrow> u32 \<Rightarrow> u32 \<Rightarrow> string \<Rightarrow> 'd \<Rightarrow> 'd ledger \<times> 'd option" where
  "balance_sub M L user_id type asset amount =
     (case dict_asset L asset of
        None \<Rightarrow> (L, None)
      | Some aty \<Rightarrow>
          if mpd_cmp M amount (mpd_zero M) < 0 then (L, None)
          else (case balance_get L user_id type asset of
             None \<Rightarrow> (L, None)
           | Some entry \<Rightarrow>
               if mpd_cmp M entry amount < 0 then (L, None)
               else
                 let result = mpd_sub M entry amount in
                 if mpd_cmp M result (mpd_zero M) = 0
                 then (balance_del L user_id type asset, Some (mpd_zero M))
                 else
                   let result = mpd_rescale M result (- prec_save aty)
                   in (balance_put L user_id type asset result, Some result)))"

text \<open>
  \<^verbatim>\<open>balance_freeze\<close> and \<^verbatim>\<open>balance_unfreeze\<close> keep the pointer to the
  entry they take from while the other entry is changed; the two entries have different keys, so
  the value read before the addition is still the entry's.
\<close>

definition balance_freeze ::
  "'d mpd_ops \<Rightarrow> 'd ledger \<Rightarrow> u32 \<Rightarrow> string \<Rightarrow> 'd \<Rightarrow> 'd ledger \<times> 'd option" where
  "balance_freeze M L user_id asset amount =
     (case dict_asset L asset of
        None \<Rightarrow> (L, None)
      | Some aty \<Rightarrow>
          if mpd_cmp M amount (mpd_zero M) < 0 then (L, None)
          else (case balance_get L user_id BALANCE_TYPE_AVAILABLE asset of
             None \<Rightarrow> (L, None)
           | Some available \<Rightarrow>
               if mpd_cmp M available amount < 0 then (L, None)
               else (case balance_add M L user_id BALANCE_TYPE_FREEZE asset amount of
                  (L, None) \<Rightarrow> (L, None)
                | (L, Some _) \<Rightarrow>
                    let available = mpd_sub M available amount in
                    if mpd_cmp M available (mpd_zero M) = 0
                    then (balance_del L user_id BALANCE_TYPE_AVAILABLE asset, Some (mpd_zero M))
                    else
                      let available = mpd_rescale M available (- prec_save aty)
                      in (balance_put L user_id BALANCE_TYPE_AVAILABLE asset available,
                          Some available))))"

definition balance_unfreeze ::
  "'d mpd_ops \<Rightarrow> 'd ledger \<Rightarrow> u32 \<Rightarrow> string \<Rightarrow> 'd \<Rightarrow> 'd ledger \<times> 'd option" where
  "balance_unfreeze M L user_id asset amount =
     (case dict_asset L asset of
        None \<Rightarrow> (L, None)
      | Some aty \<Rightarrow>
          if mpd_cmp M amount (mpd_zero M) < 0 then (L, None)
          else (case balance_get L user_id BALANCE_TYPE_FREEZE asset of
             None \<Rightarrow> (L, None)
           | Some freeze \<Rightarrow>
               if mpd_cmp M freeze amount < 0 then (L, None)
               else (case balance_add M L user_id BALANCE_TYPE_AVAILABLE asset amount of
                  (L, None) \<Rightarrow> (L, None)
                | (L, Some _) \<Rightarrow>
                    let freeze = mpd_sub M freeze amount in
                    if mpd_cmp M freeze (mpd_zero M) = 0
                    then (balance_del L user_id BALANCE_TYPE_FREEZE asset, Some (mpd_zero M))
                    else
                      let freeze = mpd_rescale M freeze (- prec_save aty)
                      in (balance_put L user_id BALANCE_TYPE_FREEZE asset freeze, Some freeze))))"

definition balance_total :: "'d mpd_ops \<Rightarrow> 'd ledger \<Rightarrow> u32 \<Rightarrow> string \<Rightarrow> 'd" where
  "balance_total M L user_id asset =
     (let balance = mpd_zero M;
          balance = (case balance_get L user_id BALANCE_TYPE_AVAILABLE asset of
             Some available \<Rightarrow> mpd_add M balance available | None \<Rightarrow> balance);
          balance = (case balance_get L user_id BALANCE_TYPE_FREEZE asset of
             Some freeze \<Rightarrow> mpd_add M balance freeze | None \<Rightarrow> balance)
      in balance)"

text \<open>
  \<^verbatim>\<open>balance_status\<close>: \<open>entries\<close> are the entries of the balance dictionary in the
  order in which \<^verbatim>\<open>dict_next\<close> yields them. The result is (total, available count,
  available, freeze count, freeze).
\<close>

fun balance_status_loop ::
  "'d mpd_ops \<Rightarrow> string \<Rightarrow> (balance_key \<times> 'd) list \<Rightarrow> 'd \<times> nat \<times> 'd \<times> nat \<times> 'd \<Rightarrow> 'd \<times> nat \<times> 'd \<times> nat \<times> 'd" where
  "balance_status_loop M asset [] acc = acc"
| "balance_status_loop M asset (((user_id, type, name), v) # entries) (tot, ac, available, fc, freeze) =
     (if name \<noteq> asset
      then balance_status_loop M asset entries (tot, ac, available, fc, freeze)
      else if type = BALANCE_TYPE_AVAILABLE
      then balance_status_loop M asset entries
             (mpd_add M tot v, ac + 1, mpd_add M available v, fc, freeze)
      else balance_status_loop M asset entries
             (mpd_add M tot v, ac, available, fc + 1, mpd_add M freeze v))"

definition balance_status ::
  "'d mpd_ops \<Rightarrow> (balance_key \<times> 'd) list \<Rightarrow> string \<Rightarrow> 'd \<times> nat \<times> 'd \<times> nat \<times> 'd" where
  "balance_status M entries asset =
     balance_status_loop M asset entries (mpd_zero M, 0, mpd_zero M, 0, mpd_zero M)"

section \<open>The numbers in a ledger\<close>

text \<open>
  \<open>bal val L k\<close> is the number the entry at \<open>k\<close> denotes, 0 when there is none;
  \<open>asset_supply val L a\<close> is the sum over all entries of asset \<open>a\<close>.
\<close>

definition bal :: "('d \<Rightarrow> rat) \<Rightarrow> 'd ledger \<Rightarrow> balance_key \<Rightarrow> rat" where
  "bal val L k = (case dict_balance L k of None \<Rightarrow> 0 | Some x \<Rightarrow> val x)"

definition supply_of :: "(balance_key \<Rightarrow> rat) \<Rightarrow> string \<Rightarrow> rat" where
  "supply_of f a = (\<Sum>k\<in>{k. f k \<noteq> 0 \<and> snd (snd k) = a}. f k)"

abbreviation asset_supply :: "('d \<Rightarrow> rat) \<Rightarrow> 'd ledger \<Rightarrow> string \<Rightarrow> rat" where
  "asset_supply val L a \<equiv> supply_of (bal val L) a"

text \<open>
  A well-formed ledger: short asset names with a sensible precision, and every entry a
  nonnegative number with at most \<open>prec_save\<close> decimals of a configured asset.
\<close>

definition assets_ok :: "(string \<rightharpoonup> asset_type) \<Rightarrow> bool" where
  "assets_ok A \<longleftrightarrow> (\<forall>a aty. A a = Some aty \<longrightarrow> length a \<le> ASSET_NAME_MAX_LEN \<and> 0 \<le> prec_save aty \<and> prec_save aty \<le> 6176)"

definition entry_ok :: "('d \<Rightarrow> bool) \<Rightarrow> ('d \<Rightarrow> rat) \<Rightarrow> (string \<rightharpoonup> asset_type) \<Rightarrow> string \<Rightarrow> 'd \<Rightarrow> bool" where
  "entry_ok fin val A a x \<longleftrightarrow>
     fin x \<and> 0 \<le> val x \<and> (case A a of None \<Rightarrow> False | Some aty \<Rightarrow> on_grid (prec_save aty) (val x))"

definition ledger_ok :: "('d \<Rightarrow> bool) \<Rightarrow> ('d \<Rightarrow> rat) \<Rightarrow> 'd ledger \<Rightarrow> bool" where
  "ledger_ok fin val L \<longleftrightarrow> assets_ok (dict_asset L) \<and> finite (dom (dict_balance L)) \<and>
     (\<forall>u t a x. dict_balance L (u, t, a) = Some x \<longrightarrow> entry_ok fin val (dict_asset L) a x)"

lemma finite_support: "finite (dom (dict_balance L)) \<Longrightarrow> finite {k. bal val L k \<noteq> 0}"
  by (erule rev_finite_subset) (auto simp: bal_def split: option.splits)

lemma supply_of_upd:
  assumes "finite {k. f k \<noteq> 0}"
  shows "supply_of (f(k := v)) a = supply_of f a + (if snd (snd k) = a then v - f k else 0)"
proof -
  let ?K = "{j. f j \<noteq> 0 \<and> snd (snd j) = a}"
  have fin: "finite (insert k ?K)" using assms by (auto intro: rev_finite_subset)
  have ext: "supply_of g a = sum g {j\<in>insert k ?K. snd (snd j) = a}"
    if "\<forall>j. j \<noteq> k \<longrightarrow> g j = f j" for g
    unfolding supply_of_def using fin that
    by (intro sum.mono_neutral_left) (auto intro: rev_finite_subset [OF fin])
  let ?J = "{j\<in>insert k ?K. snd (snd j) = a}"
  have J: "finite ?J" using fin by (auto intro: rev_finite_subset)
  have "sum (f(k := v)) ?J = sum f ?J + (if k \<in> ?J then v - f k else 0)"
  proof (cases "k \<in> ?J")
    case True
    have "sum (f(k := v)) (?J - {k}) = sum f (?J - {k})" by (rule sum.cong) auto
    then show ?thesis
      using sum.remove [OF J True, of f] sum.remove [OF J True, of "f(k := v)"] True by simp
  next
    case False
    then show ?thesis by (auto intro!: sum.cong)
  qed
  then show ?thesis using ext [of "f(k := v)"] ext [of f] by simp
qed

lemma supply_of_ge:
  assumes "finite {k. f k \<noteq> 0}" "\<And>j. 0 \<le> f j" "snd (snd k) = a"
  shows "f k \<le> supply_of f a"
proof (cases "f k = 0")
  case True
  then show ?thesis unfolding supply_of_def using assms(2) by (simp add: sum_nonneg)
next
  case False
  then show ?thesis unfolding supply_of_def
    by (intro member_le_sum) (use assms in \<open>auto intro: rev_finite_subset\<close>)
qed

section \<open>The operations on a well-formed ledger\<close>

lemma balance_key_inject:
  "length a \<le> ASSET_NAME_MAX_LEN \<Longrightarrow> balance_key u t a = (u, t, a)"
  by (simp add: balance_key_def)

lemma assets_okD:
  "assets_ok A \<Longrightarrow> A a = Some aty \<Longrightarrow> balance_key u t a = (u, t, a) \<and> 0 \<le> prec_save aty \<and> prec_save aty \<le> 6176"
  by (auto simp: assets_ok_def balance_key_inject)

lemma bal_balance_put:
  "bal val (balance_put L u t a x) = (bal val L)(balance_key u t a := val x)"
  by (auto simp: bal_def balance_put_def fun_eq_iff)

lemma bal_balance_del: "bal val (balance_del L u t a) = (bal val L)(balance_key u t a := 0)"
  by (auto simp: bal_def balance_del_def fun_eq_iff)

lemma dict_asset_put [simp]: "dict_asset (balance_put L u t a x) = dict_asset L"
  and dict_asset_del [simp]: "dict_asset (balance_del L u t a) = dict_asset L"
  by (simp_all add: balance_put_def balance_del_def)

lemma ledger_ok_put:
  assumes "ledger_ok fin val L" "dict_asset L a = Some aty" "entry_ok fin val (dict_asset L) a x"
  shows "ledger_ok fin val (balance_put L u t a x)"
  using assms assets_okD [of "dict_asset L" a aty u t]
  by (auto simp: ledger_ok_def balance_put_def)

lemma ledger_ok_del: "ledger_ok fin val L \<Longrightarrow> ledger_ok fin val (balance_del L u t a)"
  by (auto simp: ledger_ok_def balance_del_def finite_subset [OF _ finite_subset])

lemma ledger_ok_get:
  assumes "ledger_ok fin val L" "dict_asset L a = Some aty" "balance_get L u t a = Some x"
  shows "fin x" "0 \<le> val x" "on_grid (prec_save aty) (val x)" "bal val L (u, t, a) = val x"
proof -
  have d: "dict_balance L (u, t, a) = Some x"
    using assms assets_okD [of "dict_asset L" a aty u t] by (simp add: ledger_ok_def balance_get_def)
  then have "entry_ok fin val (dict_asset L) a x" using assms(1) by (simp add: ledger_ok_def)
  with assms(2) d show "fin x" "0 \<le> val x" "on_grid (prec_save aty) (val x)" "bal val L (u, t, a) = val x"
    by (simp_all add: entry_ok_def bal_def)
qed

lemma ledger_ok_get_None:
  assumes "ledger_ok fin val L" "dict_asset L a = Some aty" "balance_get L u t a = None"
  shows "bal val L (u, t, a) = 0"
  using assms assets_okD [of "dict_asset L" a aty u t]
  by (auto simp: ledger_ok_def balance_get_def bal_def)

lemma ledger_ok_nonneg: "ledger_ok fin val L \<Longrightarrow> 0 \<le> bal val L k"
  by (cases k) (auto simp: ledger_ok_def entry_ok_def bal_def split: option.splits)

lemma ledger_ok_grid:
  "ledger_ok fin val L \<Longrightarrow> dict_asset L a = Some aty \<Longrightarrow> on_grid (prec_save aty) (bal val L (u, t, a))"
  by (auto simp: ledger_ok_def entry_ok_def bal_def split: option.splits)

lemma ledger_ok_finite: "ledger_ok fin val L \<Longrightarrow> finite {k. bal val L k \<noteq> 0}"
  by (simp add: ledger_ok_def finite_support)

lemma ledger_ok_prec:
  "ledger_ok fin val L \<Longrightarrow> dict_asset L a = Some aty \<Longrightarrow> 0 \<le> prec_save aty \<and> prec_save aty \<le> 6176"
  by (auto simp: ledger_ok_def assets_ok_def)

lemma balance_le_supply: "ledger_ok fin val L \<Longrightarrow> bal val L (u, t, a) \<le> asset_supply val L a"
  by (rule supply_of_ge) (auto simp: ledger_ok_finite ledger_ok_nonneg)

lemma freeze_types: "BALANCE_TYPE_FREEZE \<noteq> BALANCE_TYPE_AVAILABLE"
  by (simp add: BALANCE_TYPE_FREEZE_def BALANCE_TYPE_AVAILABLE_def)

context mpd_lib
begin

text \<open>A fresh entry with a rescaled value.\<close>

lemma put_rescaled:
  assumes ok: "ledger_ok fin val L" and a: "dict_asset L a = Some aty"
    and x: "fin x" "0 \<le> val x" "val x * 10 ^ nat (prec_save aty) < 10 ^ 34"
  defines "r \<equiv> mpd_rescale M x (- prec_save aty)"
  shows "ledger_ok fin val (balance_put L u t a r)"
    "bal val (balance_put L u t a r) = (bal val L)((u, t, a) := trunc_to (prec_save aty) (val x))"
proof -
  note p = ledger_ok_prec [OF ok a]
  have r: "fin r" "val r = trunc_to (prec_save aty) (val x)"
    using rescale [of x "prec_save aty"] x p by (simp_all add: r_def)
  then have "entry_ok fin val (dict_asset L) a r"
    using x(2) a by (simp add: entry_ok_def trunc_to_nonneg trunc_to_on_grid)
  then show "ledger_ok fin val (balance_put L u t a r)" by (rule ledger_ok_put [OF ok a])
  show "bal val (balance_put L u t a r) = (bal val L)((u, t, a) := trunc_to (prec_save aty) (val x))"
    using assets_okD [of "dict_asset L" a aty u t] ok a
    by (simp add: bal_balance_put r ledger_ok_def)
qed

lemma balance_set_ok:
  assumes ok: "ledger_ok fin val L" and a: "dict_asset L a = Some aty"
    and x: "fin x" "0 \<le> val x" "val x * 10 ^ nat (prec_save aty) < 10 ^ 34"
  shows "\<exists>L' r. balance_set M L u t a x = (L', Some r) \<and> ledger_ok fin val L' \<and>
    dict_asset L' = dict_asset L \<and> bal val L' = (bal val L)((u, t, a) := trunc_to (prec_save aty) (val x))"
proof -
  have c: "\<not> mpd_cmp M x (mpd_zero M) < 0" "mpd_cmp M x (mpd_zero M) = 0 \<longleftrightarrow> val x = 0"
    using x by (simp_all add: cmp)
  show ?thesis
  proof (cases "val x = 0")
    case True
    then show ?thesis using c a ok assets_okD [of "dict_asset L" a aty u t]
      by (simp add: balance_set_def Let_def ledger_ok_del bal_balance_del ledger_ok_def [of fin val L])
  next
    case False
    with c a put_rescaled [OF ok a x, of u t] show ?thesis by (simp add: balance_set_def Let_def)
  qed
qed

theorem balance_add_ok:
  assumes ok: "ledger_ok fin val L" and a: "dict_asset L a = Some aty"
    and x: "fin x" "0 \<le> val x" "on_grid (prec_save aty) (val x)"
    and bound: "(bal val L (u, t, a) + val x) * 10 ^ nat (prec_save aty) < 10 ^ 34"
  shows "\<exists>L' r. balance_add M L u t a x = (L', Some r) \<and> ledger_ok fin val L' \<and>
    dict_asset L' = dict_asset L \<and> bal val L' = (bal val L)((u, t, a) := bal val L (u, t, a) + val x)"
proof -
  note p = ledger_ok_prec [OF ok a]
  have c: "\<not> mpd_cmp M x (mpd_zero M) < 0" using x by (simp add: cmp)
  show ?thesis
  proof (cases "balance_get L u t a")
    case None
    note z = ledger_ok_get_None [OF ok a None]
    then have "val x * 10 ^ nat (prec_save aty) < 10 ^ 34" using bound by simp
    from balance_set_ok [OF ok a x(1,2) this, of u t] show ?thesis
      using c a None z by (simp add: balance_add_def trunc_to_id [OF x(3)])
  next
    case (Some e)
    note e = ledger_ok_get [OF ok a Some]
    have g: "on_grid (prec_save aty) (val e + val x)" using e(3) x(3) by (rule on_grid_add)
    have nn: "0 \<le> val e + val x" using e(2) x(2) by simp
    have b: "(val e + val x) * 10 ^ nat (prec_save aty) < 10 ^ 34" using bound e(4) by simp
    have "fits (prec_save aty) (val e + val x)" using g nn b p by (simp add: fits_def)
    from add [OF e(1) x(1) this] have s: "fin (mpd_add M e x)" "val (mpd_add M e x) = val e + val x"
      by simp_all
    from put_rescaled [OF ok a s(1), of u t] s nn b e(4)
    show ?thesis using c a Some by (simp add: balance_add_def Let_def trunc_to_id [OF g])
  qed
qed

text \<open>The last step of the operations that take from an entry.\<close>

lemma take_from_entry:
  assumes ok: "ledger_ok fin val L" and a: "dict_asset L a = Some aty"
    and e: "fin e" "bal val L (u, t, a) = val e" "0 \<le> val x" "val x \<le> val e" "fin x"
    and exact: "fits q (val e - val x)" "prec_save aty \<le> q"
  shows "(let result = mpd_sub M e x in
      if mpd_cmp M result (mpd_zero M) = 0 then (balance_del L u t a, Some (mpd_zero M))
      else let result = mpd_rescale M result (- prec_save aty)
        in (balance_put L u t a result, Some result)) = (L', r) \<Longrightarrow>
    r \<noteq> None \<and> ledger_ok fin val L' \<and> dict_asset L' = dict_asset L \<and>
    bal val L' = (bal val L)((u, t, a) := trunc_to (prec_save aty) (val e - val x))"
proof -
  from sub [OF e(1,5) exact(1)] have s: "fin (mpd_sub M e x)" "val (mpd_sub M e x) = val e - val x"
    by simp_all
  have z: "mpd_cmp M (mpd_sub M e x) (mpd_zero M) = 0 \<longleftrightarrow> val e - val x = 0"
    using s by (simp add: cmp)
  have "(10::rat) ^ nat (prec_save aty) \<le> 10 ^ nat q" using exact(2) by (intro power_increasing) auto
  then have "(val e - val x) * 10 ^ nat (prec_save aty) \<le> (val e - val x) * 10 ^ nat q"
    using e(4) by (intro mult_left_mono) auto
  also have "\<dots> < 10 ^ 34" using exact(1) e(4) by (simp add: fits_def)
  finally have b: "(val e - val x) * 10 ^ nat (prec_save aty) < 10 ^ 34" .
  note put = put_rescaled [OF ok a s(1), of u t, unfolded s(2)]
  assume "(let result = mpd_sub M e x in
      if mpd_cmp M result (mpd_zero M) = 0 then (balance_del L u t a, Some (mpd_zero M))
      else let result = mpd_rescale M result (- prec_save aty)
        in (balance_put L u t a result, Some result)) = (L', r)"
  then show ?thesis
    using z put b e(4) ok a assets_okD [of "dict_asset L" a aty u t]
    by (auto simp: Let_def ledger_ok_del bal_balance_del ledger_ok_def [of fin val L] split: if_splits)
qed

theorem balance_sub_ok:
  assumes ok: "ledger_ok fin val L" and a: "dict_asset L a = Some aty"
    and x: "fin x" "0 < val x" "val x \<le> bal val L (u, t, a)"
    and exact: "fits q (bal val L (u, t, a) - val x)" "prec_save aty \<le> q"
  shows "\<exists>L' r. balance_sub M L u t a x = (L', Some r) \<and> ledger_ok fin val L' \<and>
    dict_asset L' = dict_asset L \<and>
    bal val L' = (bal val L)((u, t, a) := trunc_to (prec_save aty) (bal val L (u, t, a) - val x))"
proof -
  have "balance_get L u t a \<noteq> None" using ledger_ok_get_None [OF ok a, of u t] x(2,3) by fastforce
  then obtain e where Some: "balance_get L u t a = Some e" by blast
  note e = ledger_ok_get [OF ok a Some]
  have c: "\<not> mpd_cmp M x (mpd_zero M) < 0" "\<not> mpd_cmp M e x < 0" using x e by (simp_all add: cmp)
  obtain L' r where res: "balance_sub M L u t a x = (L', r)" by force
  then have "r \<noteq> None \<and> ledger_ok fin val L' \<and> dict_asset L' = dict_asset L \<and>
    bal val L' = (bal val L)((u, t, a) := trunc_to (prec_save aty) (val e - val x))"
    by (intro take_from_entry [OF ok a, of e u t x q])
      (use e x exact c a Some in \<open>auto simp: balance_sub_def Let_def\<close>)
  with res e(4) show ?thesis by auto
qed

text \<open>Freezing and unfreezing are the same move between two entries of one user.\<close>

lemma move_ok:
  assumes ok: "ledger_ok fin val L" and a: "dict_asset L a = Some aty" and ts: "s \<noteq> t"
    and x: "fin x" "0 < val x" "on_grid (prec_save aty) (val x)" "val x \<le> bal val L (u, s, a)"
    and room: "(bal val L (u, s, a) + bal val L (u, t, a)) * 10 ^ nat (prec_save aty) < 10 ^ 34"
  obtains e L1 r1 where "balance_get L u s a = Some e" "\<not> mpd_cmp M x (mpd_zero M) < 0" "\<not> mpd_cmp M e x < 0"
    "balance_add M L u t a x = (L1, Some r1)"
    "\<And>L' r. (let result = mpd_sub M e x in
        if mpd_cmp M result (mpd_zero M) = 0 then (balance_del L1 u s a, Some (mpd_zero M))
        else let result = mpd_rescale M result (- prec_save aty)
          in (balance_put L1 u s a result, Some result)) = (L', r) \<Longrightarrow>
      r \<noteq> None \<and> ledger_ok fin val L' \<and> dict_asset L' = dict_asset L \<and>
      bal val L' = (bal val L)((u, s, a) := bal val L (u, s, a) - val x,
        (u, t, a) := bal val L (u, t, a) + val x)"
proof -
  note p = ledger_ok_prec [OF ok a]
  have nn: "0 \<le> bal val L (u, t, a)" by (rule ledger_ok_nonneg [OF ok])
  have "balance_get L u s a \<noteq> None" using ledger_ok_get_None [OF ok a, of u s] x(2,4) by fastforce
  then obtain e where Some: "balance_get L u s a = Some e" by blast
  note e = ledger_ok_get [OF ok a Some]
  have c: "\<not> mpd_cmp M x (mpd_zero M) < 0" "\<not> mpd_cmp M e x < 0" using x e by (simp_all add: cmp)
  have bnd: "y * 10 ^ nat (prec_save aty) < 10 ^ 34"
    if "y \<le> bal val L (u, s, a) + bal val L (u, t, a)" for y
  proof -
    have "y * 10 ^ nat (prec_save aty) \<le> (bal val L (u, s, a) + bal val L (u, t, a)) * 10 ^ nat (prec_save aty)"
      using that by (intro mult_right_mono) auto
    then show ?thesis using room by (rule order.strict_trans1)
  qed
  obtain L1 r1 where L1: "balance_add M L u t a x = (L1, Some r1)" "ledger_ok fin val L1"
    "dict_asset L1 = dict_asset L" "bal val L1 = (bal val L)((u, t, a) := bal val L (u, t, a) + val x)"
    using balance_add_ok [OF ok a x(1) _ x(3), of u t] x bnd [of "bal val L (u, t, a) + val x"] by auto
  have g: "on_grid (prec_save aty) (val e - val x)" using e(3) x(3) by (rule on_grid_diff)
  have ft: "fits (prec_save aty) (val e - val x)"
    using p g bnd [of "val e - val x"] x e nn by (simp add: fits_def)
  have e1: "bal val L1 (u, s, a) = val e" using L1(4) e(4) ts by simp
  have le: "val x \<le> val e" using x(4) e(4) by simp
  show thesis
  proof (rule that [OF Some c L1(1)], goal_cases)
    case (1 L' r)
    from take_from_entry [OF L1(2) _ e(1) e1 _ le x(1) ft _ 1] a L1(3) x(2)
    show ?case using L1(4) e(4) ts by (auto simp: trunc_to_id [OF g] fun_eq_iff)
  qed
qed

lemma balance_freeze_ok:
  assumes "ledger_ok fin val L" "dict_asset L a = Some aty"
    and "fin x" "0 < val x" "on_grid (prec_save aty) (val x)" "val x \<le> bal val L (u, BALANCE_TYPE_AVAILABLE, a)"
    and "(bal val L (u, BALANCE_TYPE_AVAILABLE, a) + bal val L (u, BALANCE_TYPE_FREEZE, a)) *
      10 ^ nat (prec_save aty) < 10 ^ 34"
  shows "\<exists>L' r. balance_freeze M L u a x = (L', Some r) \<and> ledger_ok fin val L' \<and>
    dict_asset L' = dict_asset L \<and>
    bal val L' = (bal val L)((u, BALANCE_TYPE_AVAILABLE, a) := bal val L (u, BALANCE_TYPE_AVAILABLE, a) - val x,
        (u, BALANCE_TYPE_FREEZE, a) := bal val L (u, BALANCE_TYPE_FREEZE, a) + val x)"
proof -
  from move_ok [OF assms(1,2) freeze_types [symmetric] assms(3-7)] obtain e L1 r1
    where m: "balance_get L u BALANCE_TYPE_AVAILABLE a = Some e" "\<not> mpd_cmp M x (mpd_zero M) < 0"
      "\<not> mpd_cmp M e x < 0" "balance_add M L u BALANCE_TYPE_FREEZE a x = (L1, Some r1)"
      and fin: "\<And>L' r. (let result = mpd_sub M e x in
        if mpd_cmp M result (mpd_zero M) = 0 then (balance_del L1 u BALANCE_TYPE_AVAILABLE a, Some (mpd_zero M))
        else let result = mpd_rescale M result (- prec_save aty)
          in (balance_put L1 u BALANCE_TYPE_AVAILABLE a result, Some result)) = (L', r) \<Longrightarrow>
      r \<noteq> None \<and> ledger_ok fin val L' \<and> dict_asset L' = dict_asset L \<and>
      bal val L' = (bal val L)((u, BALANCE_TYPE_AVAILABLE, a) := bal val L (u, BALANCE_TYPE_AVAILABLE, a) - val x,
        (u, BALANCE_TYPE_FREEZE, a) := bal val L (u, BALANCE_TYPE_FREEZE, a) + val x)"
    by blast
  obtain L' r where res: "balance_freeze M L u a x = (L', r)" by force
  with m assms(2) fin [of L' r] show ?thesis by (auto simp: balance_freeze_def Let_def)
qed

lemma balance_unfreeze_ok:
  assumes "ledger_ok fin val L" "dict_asset L a = Some aty"
    and "fin x" "0 < val x" "on_grid (prec_save aty) (val x)" "val x \<le> bal val L (u, BALANCE_TYPE_FREEZE, a)"
    and "(bal val L (u, BALANCE_TYPE_FREEZE, a) + bal val L (u, BALANCE_TYPE_AVAILABLE, a)) *
      10 ^ nat (prec_save aty) < 10 ^ 34"
  shows "\<exists>L' r. balance_unfreeze M L u a x = (L', Some r) \<and> ledger_ok fin val L' \<and>
    dict_asset L' = dict_asset L \<and>
    bal val L' = (bal val L)((u, BALANCE_TYPE_FREEZE, a) := bal val L (u, BALANCE_TYPE_FREEZE, a) - val x,
        (u, BALANCE_TYPE_AVAILABLE, a) := bal val L (u, BALANCE_TYPE_AVAILABLE, a) + val x)"
proof -
  from move_ok [OF assms(1,2) freeze_types assms(3-7)] obtain e L1 r1
    where m: "balance_get L u BALANCE_TYPE_FREEZE a = Some e" "\<not> mpd_cmp M x (mpd_zero M) < 0"
      "\<not> mpd_cmp M e x < 0" "balance_add M L u BALANCE_TYPE_AVAILABLE a x = (L1, Some r1)"
      and fin: "\<And>L' r. (let result = mpd_sub M e x in
        if mpd_cmp M result (mpd_zero M) = 0 then (balance_del L1 u BALANCE_TYPE_FREEZE a, Some (mpd_zero M))
        else let result = mpd_rescale M result (- prec_save aty)
          in (balance_put L1 u BALANCE_TYPE_FREEZE a result, Some result)) = (L', r) \<Longrightarrow>
      r \<noteq> None \<and> ledger_ok fin val L' \<and> dict_asset L' = dict_asset L \<and>
      bal val L' = (bal val L)((u, BALANCE_TYPE_FREEZE, a) := bal val L (u, BALANCE_TYPE_FREEZE, a) - val x,
        (u, BALANCE_TYPE_AVAILABLE, a) := bal val L (u, BALANCE_TYPE_AVAILABLE, a) + val x)"
    by blast
  obtain L' r where res: "balance_unfreeze M L u a x = (L', r)" by force
  with m assms(2) fin [of L' r] show ?thesis by (auto simp: balance_unfreeze_def Let_def)
qed

lemma balance_total_ok:
  assumes ok: "ledger_ok fin val L" and a: "dict_asset L a = Some aty"
    and room: "(bal val L (u, BALANCE_TYPE_AVAILABLE, a) + bal val L (u, BALANCE_TYPE_FREEZE, a)) *
      10 ^ nat (prec_save aty) < 10 ^ 34"
  shows "fin (balance_total M L u a) \<and> val (balance_total M L u a) =
    bal val L (u, BALANCE_TYPE_AVAILABLE, a) + bal val L (u, BALANCE_TYPE_FREEZE, a)"
proof -
  note p = ledger_ok_prec [OF ok a]
  let ?av = "bal val L (u, BALANCE_TYPE_AVAILABLE, a)" and ?fr = "bal val L (u, BALANCE_TYPE_FREEZE, a)"
  have nn: "0 \<le> ?av" "0 \<le> ?fr" using ledger_ok_nonneg [OF ok] by auto
  have "fits (prec_save aty) (?av + ?fr)"
    using p room nn ledger_ok_grid [OF ok a] by (simp add: fits_def on_grid_add)
  moreover from this have "fits (prec_save aty) ?av"
    using nn by (auto intro: fits_le simp: ledger_ok_grid [OF ok a])
  moreover from calculation have "fits (prec_save aty) ?fr"
    using nn by (auto intro: fits_le [of _ "?av + ?fr"] simp: ledger_ok_grid [OF ok a])
  ultimately show ?thesis
    using ledger_ok_get [OF ok a, of u BALANCE_TYPE_AVAILABLE] ledger_ok_get [OF ok a, of u BALANCE_TYPE_FREEZE]
      ledger_ok_get_None [OF ok a, of u BALANCE_TYPE_AVAILABLE] ledger_ok_get_None [OF ok a, of u BALANCE_TYPE_FREEZE]
    by (auto simp: balance_total_def Let_def add [where p = "prec_save aty"] split: option.splits)
qed

end

text \<open>A failed operation leaves the ledger as it was, whatever the numbers are.\<close>

lemma balance_set_fail: "balance_set M L u t a x = (L', None) \<Longrightarrow> L' = L"
  by (auto simp: balance_set_def Let_def split: option.splits if_splits)

lemma balance_add_fail: "balance_add M L u t a x = (L', None) \<Longrightarrow> L' = L"
  by (auto simp: balance_add_def Let_def dest: balance_set_fail split: option.splits if_splits)

lemma balance_sub_fail: "balance_sub M L u t a x = (L', None) \<Longrightarrow> L' = L"
  by (auto simp: balance_sub_def Let_def split: option.splits if_splits)

lemma balance_freeze_fail: "balance_freeze M L u a x = (L', None) \<Longrightarrow> L' = L"
  by (auto simp: balance_freeze_def Let_def dest: balance_add_fail split: option.splits if_splits prod.splits)

lemma balance_unfreeze_fail: "balance_unfreeze M L u a x = (L', None) \<Longrightarrow> L' = L"
  by (auto simp: balance_unfreeze_def Let_def dest: balance_add_fail split: option.splits if_splits prod.splits)

end
