(* ===== verification/Order.thy ===== *)
theory Order
  imports Balance
begin

text \<open>
  The data of \<^verbatim>\<open>matchengine/me_market.h\<close> and the outside world of the matching
  engine: orders, the JSON library (a parameter, like the decimal library), the clock, and the
  description of an order that is sent to clients. Times are microseconds, the resolution of
  \<^verbatim>\<open>gettimeofday\<close>.
\<close>

section \<open>The JSON library\<close>

text \<open>
  The operations of jansson the engine calls. \<open>None\<close> is the NULL pointer; a document is built
  from its members in the order in which the C code sets them. A C document shares its members
  with whoever holds a pointer to them: a member that is changed through such a pointer is put
  back with \<open>json_object_set\<close> and \<open>json_array_set\<close>.
\<close>

record 'j json_ops =
  json_loadb :: "string \<Rightarrow> 'j option"
  json_is_array :: "'j \<Rightarrow> bool"
  json_array_size :: "'j \<Rightarrow> nat"
  json_array_get :: "'j \<Rightarrow> nat \<Rightarrow> 'j option"
  json_is_object :: "'j option \<Rightarrow> bool"
  json_object_get :: "'j \<Rightarrow> string \<Rightarrow> 'j option"
  json_is_integer :: "'j option \<Rightarrow> bool"
  json_integer_value :: "'j option \<Rightarrow> int"
  json_real_value :: "'j option \<Rightarrow> int"
  json_is_string :: "'j option \<Rightarrow> bool"
  json_string_value :: "'j option \<Rightarrow> string option"
  json_is_null :: "'j option \<Rightarrow> bool"
  json_is_true :: "'j option \<Rightarrow> bool"
  json_null :: 'j
  json_boolean :: "bool \<Rightarrow> 'j"
  json_integer :: "int \<Rightarrow> 'j"
  json_real :: "int \<Rightarrow> 'j"
  json_string :: "string \<Rightarrow> 'j"
  json_array :: "'j list \<Rightarrow> 'j"
  json_object :: "(string \<times> 'j) list \<Rightarrow> 'j"
  json_object_set :: "'j \<Rightarrow> string \<Rightarrow> 'j \<Rightarrow> 'j"
  json_array_set :: "'j \<Rightarrow> nat \<Rightarrow> 'j \<Rightarrow> 'j"
  json_dumps :: "'j \<Rightarrow> nat \<Rightarrow> string option"

text \<open>
  The outside world: \<open>clock n\<close> is the result of the \<open>n\<close>-th reading of
  \<^verbatim>\<open>current_timestamp\<close>, \<open>kafka n\<close> the outcome of the \<open>n\<close>-th call of
  \<^verbatim>\<open>rd_kafka_produce\<close>.
\<close>

datatype produce_result = Produced | QueueFull | ProduceError

record ('d, 'j) env =
  mpd :: "'d mpd_ops"
  json :: "'j json_ops"
  clock :: "nat \<Rightarrow> int"
  kafka :: "nat \<Rightarrow> produce_result"

section \<open>Orders\<close>

definition MARKET_ORDER_TYPE_LIMIT :: u32 where "MARKET_ORDER_TYPE_LIMIT = 1"
definition MARKET_ORDER_TYPE_MARKET :: u32 where "MARKET_ORDER_TYPE_MARKET = 2"
definition MARKET_ORDER_SIDE_ASK :: u32 where "MARKET_ORDER_SIDE_ASK = 1"
definition MARKET_ORDER_SIDE_BID :: u32 where "MARKET_ORDER_SIDE_BID = 2"
definition MARKET_ROLE_MAKER :: int where "MARKET_ROLE_MAKER = 1"
definition MARKET_ROLE_TAKER :: int where "MARKET_ROLE_TAKER = 2"

record 'd order =
  o_id :: u64
  o_type :: u32
  o_side :: u32
  o_create_time :: int
  o_update_time :: int
  o_user_id :: u32
  o_market :: string
  o_source :: string
  o_price :: 'd
  o_amount :: 'd
  o_taker_fee :: 'd
  o_maker_fee :: 'd
  o_left :: 'd
  o_freeze :: 'd
  o_deal_stock :: 'd
  o_deal_money :: 'd
  o_deal_fee :: 'd

text \<open>
  \<^verbatim>\<open>order_match_compare\<close> orders a book (best price first, then smaller id),
  \<^verbatim>\<open>order_id_compare\<close> a user's list (newest first).
\<close>

definition order_match_compare :: "'d mpd_ops \<Rightarrow> 'd order \<Rightarrow> 'd order \<Rightarrow> int" where
  "order_match_compare M order1 order2 =
     (if o_id order1 = o_id order2 then 0
      else if o_type order1 \<noteq> o_type order2 then 1
      else
        let cmp = (if o_side order1 = MARKET_ORDER_SIDE_ASK
               then mpd_cmp M (o_price order1) (o_price order2)
               else mpd_cmp M (o_price order2) (o_price order1)) in
        if cmp \<noteq> 0 then cmp
        else if o_id order1 > o_id order2 then 1 else - 1)"

definition order_id_compare :: "u64 \<Rightarrow> u64 \<Rightarrow> int" where
  "order_id_compare id1 id2 = (if id1 = id2 then 0 else if id1 > id2 then - 1 else 1)"

definition json_mpd :: "('d, 'j) env \<Rightarrow> 'd \<Rightarrow> 'j" where
  "json_mpd E value = json_string (json E) (mpd_json_string (mpd E) value)"

definition get_order_info :: "('d, 'j) env \<Rightarrow> 'd order \<Rightarrow> 'j" where
  "get_order_info E order = json_object (json E)
     [(''id'', json_integer (json E) (sint (o_id order))),
      (''market'', json_string (json E) (o_market order)),
      (''source'', json_string (json E) (o_source order)),
      (''type'', json_integer (json E) (uint (o_type order))),
      (''side'', json_integer (json E) (uint (o_side order))),
      (''user'', json_integer (json E) (uint (o_user_id order))),
      (''ctime'', json_real (json E) (o_create_time order)),
      (''mtime'', json_real (json E) (o_update_time order)),
      (''price'', json_mpd E (o_price order)),
      (''amount'', json_mpd E (o_amount order)),
      (''taker_fee'', json_mpd E (o_taker_fee order)),
      (''maker_fee'', json_mpd E (o_maker_fee order)),
      (''left'', json_mpd E (o_left order)),
      (''deal_stock'', json_mpd E (o_deal_stock order)),
      (''deal_money'', json_mpd E (o_deal_money order)),
      (''deal_fee'', json_mpd E (o_deal_fee order))]"

end
