(* ===== verification/History.thy ===== *)
theory History
  imports Order
begin

text \<open>
  \<^verbatim>\<open>matchengine/me_history.c\<close>: the rows the engine appends to its history tables.
  The C code keeps one growing INSERT statement per table and shard in a dictionary
  (\<^verbatim>\<open>dict_sql\<close>) and hands the statements to a worker queue ten times a second. The
  model keeps the rows of each statement instead of its text; the key, the sharding, the order
  of the rows and the flush are those of the code.
\<close>

datatype history_type =
  HISTORY_USER_BALANCE | HISTORY_USER_ORDER | HISTORY_USER_DEAL | HISTORY_ORDER_DETAIL | HISTORY_ORDER_DEAL

datatype ('d, 'j) row =
  OrderRow "'d order"
| DealRow int u32 u64 u64 u64 int 'd 'd 'd 'd 'd
| UserDealRow int u32 string u64 u64 u64 int int 'd 'd 'd 'd 'd
| BalanceRow int u32 string string 'd 'd 'j

definition HISTORY_HASH_NUM :: u64 where "HISTORY_HASH_NUM = 100"

text \<open>\<open>h_dict\<close> is \<^verbatim>\<open>dict_sql\<close>; \<open>h_jobs\<close> are the statements handed to the worker.\<close>

record ('d, 'j) history =
  h_dict :: "history_type \<times> u64 \<rightharpoonup> ('d, 'j) row list"
  h_jobs :: "((history_type \<times> u64) \<times> ('d, 'j) row list) list"

text \<open>
  \<^verbatim>\<open>get_sql\<close>, append to the statement, \<^verbatim>\<open>set_sql\<close>: \<open>hash\<close> is the id that
  selects the shard.
\<close>

definition history_add ::
  "history_type \<Rightarrow> u64 \<Rightarrow> ('d, 'j) row \<Rightarrow> ('d, 'j) history \<Rightarrow> ('d, 'j) history" where
  "history_add type hash row h =
     (let key = (type, hash mod HISTORY_HASH_NUM);
          sql = (case h_dict h key of None \<Rightarrow> [] | Some sql \<Rightarrow> sql)
      in h\<lparr>h_dict := (h_dict h)(key \<mapsto> sql @ [row])\<rparr>)"

definition append_user_order :: "'d order \<Rightarrow> ('d, 'j) history \<Rightarrow> ('d, 'j) history" where
  "append_user_order order = history_add HISTORY_USER_ORDER (ucast (o_user_id order)) (OrderRow order)"

definition append_order_detail :: "'d order \<Rightarrow> ('d, 'j) history \<Rightarrow> ('d, 'j) history" where
  "append_order_detail order = history_add HISTORY_ORDER_DETAIL (o_id order) (OrderRow order)"

definition append_order_deal ::
  "int \<Rightarrow> u32 \<Rightarrow> u64 \<Rightarrow> u64 \<Rightarrow> u64 \<Rightarrow> int \<Rightarrow> 'd \<Rightarrow> 'd \<Rightarrow> 'd \<Rightarrow> 'd \<Rightarrow> 'd \<Rightarrow> ('d, 'j) history \<Rightarrow> ('d, 'j) history" where
  "append_order_deal t user_id deal_id order_id deal_order_id role price amount deal fee deal_fee =
     history_add HISTORY_ORDER_DEAL order_id
       (DealRow t user_id deal_id order_id deal_order_id role price amount deal fee deal_fee)"

definition append_user_deal ::
  "int \<Rightarrow> u32 \<Rightarrow> string \<Rightarrow> u64 \<Rightarrow> u64 \<Rightarrow> u64 \<Rightarrow> int \<Rightarrow> int \<Rightarrow> 'd \<Rightarrow> 'd \<Rightarrow> 'd \<Rightarrow> 'd \<Rightarrow> 'd \<Rightarrow>
   ('d, 'j) history \<Rightarrow> ('d, 'j) history" where
  "append_user_deal t user_id market deal_id order_id deal_order_id side role price amount deal fee deal_fee =
     history_add HISTORY_USER_DEAL (ucast user_id)
       (UserDealRow t user_id market deal_id order_id deal_order_id side role price amount deal fee deal_fee)"

definition append_user_balance ::
  "int \<Rightarrow> u32 \<Rightarrow> string \<Rightarrow> string \<Rightarrow> 'd \<Rightarrow> 'd \<Rightarrow> 'j \<Rightarrow> ('d, 'j) history \<Rightarrow> ('d, 'j) history" where
  "append_user_balance t user_id asset business change balance detail =
     history_add HISTORY_USER_BALANCE (ucast user_id)
       (BalanceRow t user_id asset business change balance detail)"

definition append_order_history :: "'d order \<Rightarrow> ('d, 'j) history \<Rightarrow> ('d, 'j) history" where
  "append_order_history order h = append_order_detail order (append_user_order order h)"

definition append_order_deal_history ::
  "int \<Rightarrow> u64 \<Rightarrow> 'd order \<Rightarrow> int \<Rightarrow> 'd order \<Rightarrow> int \<Rightarrow> 'd \<Rightarrow> 'd \<Rightarrow> 'd \<Rightarrow> 'd \<Rightarrow> 'd \<Rightarrow>
   ('d, 'j) history \<Rightarrow> ('d, 'j) history" where
  "append_order_deal_history t deal_id ask ask_role bid bid_role price amount deal ask_fee bid_fee h =
     (let h = append_order_deal t (o_user_id ask) deal_id (o_id ask) (o_id bid) ask_role
                price amount deal ask_fee bid_fee h;
          h = append_order_deal t (o_user_id bid) deal_id (o_id bid) (o_id ask) bid_role
                price amount deal bid_fee ask_fee h;
          h = append_user_deal t (o_user_id ask) (o_market ask) deal_id (o_id ask) (o_id bid)
                (uint (o_side ask)) ask_role price amount deal ask_fee bid_fee h
      in append_user_deal t (o_user_id bid) (o_market ask) deal_id (o_id bid) (o_id ask)
                (uint (o_side bid)) bid_role price amount deal bid_fee ask_fee h)"

definition append_user_balance_history ::
  "'d mpd_ops \<Rightarrow> 'd ledger \<Rightarrow> int \<Rightarrow> u32 \<Rightarrow> string \<Rightarrow> string \<Rightarrow> 'd \<Rightarrow> 'j \<Rightarrow>
   ('d, 'j) history \<Rightarrow> ('d, 'j) history" where
  "append_user_balance_history M L t user_id asset business change detail =
     append_user_balance t user_id asset business change (balance_total M L user_id asset) detail"

text \<open>
  The flush of \<^verbatim>\<open>on_timer\<close>: \<open>keys\<close> are the keys in the order in which the iterator
  yields them; each statement goes to the queue and leaves the dictionary.
\<close>

fun history_flush :: "(history_type \<times> u64) list \<Rightarrow> ('d, 'j) history \<Rightarrow> ('d, 'j) history" where
  "history_flush [] h = h"
| "history_flush (key # keys) h =
     (case h_dict h key of
        None \<Rightarrow> history_flush keys h
      | Some sql \<Rightarrow> history_flush keys
          (h\<lparr>h_jobs := h_jobs h @ [(key, sql)], h_dict := (h_dict h)(key := None)\<rparr>))"

definition MAX_PENDING_HISTORY :: nat where "MAX_PENDING_HISTORY = 1000"

text \<open>\<open>pending\<close> is the worker's \<^verbatim>\<open>request_count\<close>.\<close>

definition is_history_block :: "nat \<Rightarrow> bool" where
  "is_history_block pending = (pending \<ge> MAX_PENDING_HISTORY)"

section \<open>No row is lost\<close>

text \<open>The rows of one statement, waiting or handed over, oldest first.\<close>

definition rows_of :: "('d, 'j) history \<Rightarrow> history_type \<times> u64 \<Rightarrow> ('d, 'j) row list" where
  "rows_of h key =
     concat (map snd (filter (\<lambda>j. fst j = key) (h_jobs h))) @
     (case h_dict h key of None \<Rightarrow> [] | Some sql \<Rightarrow> sql)"

lemma rows_of_add:
  "rows_of (history_add type hash row h) key =
     (if key = (type, hash mod HISTORY_HASH_NUM) then rows_of h key @ [row] else rows_of h key)"
  by (auto simp: rows_of_def history_add_def Let_def split: option.splits)

lemma rows_of_flush_step:
  "h_dict h key = Some sql \<Longrightarrow>
   rows_of (h\<lparr>h_jobs := h_jobs h @ [(key, sql)], h_dict := (h_dict h)(key := None)\<rparr>) = rows_of h"
  by (auto simp: rows_of_def fun_eq_iff)

text \<open>
  Flushing the history never loses, duplicates or reorders a row: for every table and
  shard, the rows handed to the worker followed by the rows still waiting are the same after a
  flush as before it, and nothing waits any more under the keys that were visited.
\<close>

theorem history_flush_keeps_rows:
  "rows_of (history_flush keys h) = rows_of h \<and>
   dom (h_dict (history_flush keys h)) = dom (h_dict h) - set keys"
proof (induction keys h rule: history_flush.induct)
  case (2 key keys h)
  then show ?case by (cases "h_dict h key") (auto simp: rows_of_flush_step split: if_splits)
qed simp

end
