(* ===== verification/Message.thy ===== *)
theory Message
  imports Order
begin

text \<open>
  \<^verbatim>\<open>matchengine/me_message.c\<close>: the messages the engine publishes. Each topic has a list
  of messages the broker did not accept yet; a message is handed to the broker at once when its
  list is empty and queued behind the others otherwise. The broker (librdkafka) is outside the
  repository: \<open>kafka E n\<close> is the outcome of the \<open>n\<close>-th produce call.
\<close>

datatype topic = Balances | Orders | Deals

definition MAX_PENDING_MESSAGE :: nat where "MAX_PENDING_MESSAGE = 1000"

text \<open>
  \<open>ms_pending\<close> are \<^verbatim>\<open>list_balances\<close>, \<^verbatim>\<open>list_orders\<close> and
  \<^verbatim>\<open>list_deals\<close>; \<open>ms_sent\<close> records what the broker accepted, \<open>ms_lost\<close> what it
  refused for another reason than a full queue, \<open>ms_calls\<close> counts the produce calls.
\<close>

record 'j messages =
  ms_pending :: "topic \<Rightarrow> 'j list"
  ms_sent :: "topic \<Rightarrow> 'j list"
  ms_lost :: "topic \<Rightarrow> 'j list"
  ms_calls :: nat

definition init_message :: "'j messages" where
  "init_message = \<lparr>ms_pending = (\<lambda>_. []), ms_sent = (\<lambda>_. []), ms_lost = (\<lambda>_. []), ms_calls = 0\<rparr>"

definition produce :: "(nat \<Rightarrow> produce_result) \<Rightarrow> 'j messages \<Rightarrow> produce_result \<times> 'j messages" where
  "produce broker ms = (broker (ms_calls ms), ms\<lparr>ms_calls := ms_calls ms + 1\<rparr>)"

definition mark_sent :: "topic \<Rightarrow> 'j \<Rightarrow> 'j messages \<Rightarrow> 'j messages" where
  "mark_sent tp m ms = ms\<lparr>ms_sent := (ms_sent ms)(tp := ms_sent ms tp @ [m])\<rparr>"

definition mark_lost :: "topic \<Rightarrow> 'j \<Rightarrow> 'j messages \<Rightarrow> 'j messages" where
  "mark_lost tp m ms = ms\<lparr>ms_lost := (ms_lost ms)(tp := ms_lost ms tp @ [m])\<rparr>"

definition set_pending :: "topic \<Rightarrow> 'j list \<Rightarrow> 'j messages \<Rightarrow> 'j messages" where
  "set_pending tp xs ms = ms\<lparr>ms_pending := (ms_pending ms)(tp := xs)\<rparr>"

text \<open>\<^verbatim>\<open>push_message\<close>, with its return value.\<close>

definition push_message :: "(nat \<Rightarrow> produce_result) \<Rightarrow> topic \<Rightarrow> 'j \<Rightarrow> 'j messages \<Rightarrow> 'j messages \<times> int" where
  "push_message broker tp message ms =
     (if ms_pending ms tp \<noteq> []
      then (set_pending tp (ms_pending ms tp @ [message]) ms, 0)
      else (case produce broker ms of
          (Produced, ms) \<Rightarrow> (mark_sent tp message ms, 0)
        | (QueueFull, ms) \<Rightarrow> (set_pending tp (ms_pending ms tp @ [message]) ms, 0)
        | (ProduceError, ms) \<Rightarrow> (mark_lost tp message ms, - 203)))"

text \<open>
  \<^verbatim>\<open>produce_list\<close>: the pending messages in order; a full queue stops the loop and keeps
  the message, any other error drops it.
\<close>

fun produce_list :: "(nat \<Rightarrow> produce_result) \<Rightarrow> topic \<Rightarrow> 'j list \<Rightarrow> 'j messages \<Rightarrow> 'j messages" where
  "produce_list broker tp [] ms = ms"
| "produce_list broker tp (m # rest) ms =
     (case produce broker ms of
        (Produced, ms) \<Rightarrow> produce_list broker tp rest (set_pending tp rest (mark_sent tp m ms))
      | (QueueFull, ms) \<Rightarrow> ms
      | (ProduceError, ms) \<Rightarrow> produce_list broker tp rest (set_pending tp rest (mark_lost tp m ms)))"

definition flush_topic :: "(nat \<Rightarrow> produce_result) \<Rightarrow> topic \<Rightarrow> 'j messages \<Rightarrow> 'j messages" where
  "flush_topic broker tp ms =
     (if ms_pending ms tp \<noteq> [] then produce_list broker tp (ms_pending ms tp) ms else ms)"

definition message_on_timer :: "(nat \<Rightarrow> produce_result) \<Rightarrow> 'j messages \<Rightarrow> 'j messages" where
  "message_on_timer broker ms = flush_topic broker Deals (flush_topic broker Orders (flush_topic broker Balances ms))"

definition is_message_block :: "'j messages \<Rightarrow> bool" where
  "is_message_block ms =
     (if length (ms_pending ms Deals) \<ge> MAX_PENDING_MESSAGE then True
      else if length (ms_pending ms Orders) \<ge> MAX_PENDING_MESSAGE then True
      else if length (ms_pending ms Balances) \<ge> MAX_PENDING_MESSAGE then True
      else False)"

section \<open>The three kinds of message\<close>

definition ORDER_EVENT_PUT :: int where "ORDER_EVENT_PUT = 1"
definition ORDER_EVENT_UPDATE :: int where "ORDER_EVENT_UPDATE = 2"
definition ORDER_EVENT_FINISH :: int where "ORDER_EVENT_FINISH = 3"

text \<open>\<^verbatim>\<open>json_array_append_mpd\<close> of this file does not strip trailing zeros.\<close>

definition json_mpd_raw :: "('d, 'j) env \<Rightarrow> 'd \<Rightarrow> 'j" where
  "json_mpd_raw E value = json_string (json E) (mpd_to_sci (mpd E) value)"

definition push_balance_message ::
  "('d, 'j) env \<Rightarrow> int \<Rightarrow> u32 \<Rightarrow> string \<Rightarrow> string \<Rightarrow> 'd \<Rightarrow> 'j messages \<Rightarrow> 'j messages" where
  "push_balance_message E t user_id asset business change ms =
     fst (push_message (kafka E) Balances
       (json_array (json E) [json_real (json E) t, json_integer (json E) (uint user_id),
          json_string (json E) asset, json_string (json E) business, json_mpd_raw E change]) ms)"

definition push_order_message ::
  "('d, 'j) env \<Rightarrow> int \<Rightarrow> 'd order \<Rightarrow> string \<Rightarrow> string \<Rightarrow> 'j messages \<Rightarrow> 'j messages" where
  "push_order_message E event order stock money ms =
     fst (push_message (kafka E) Orders
       (json_object (json E) [(''event'', json_integer (json E) event),
          (''order'', get_order_info E order),
          (''stock'', json_string (json E) stock), (''money'', json_string (json E) money)]) ms)"

definition push_deal_message ::
  "('d, 'j) env \<Rightarrow> int \<Rightarrow> string \<Rightarrow> 'd order \<Rightarrow> 'd order \<Rightarrow> 'd \<Rightarrow> 'd \<Rightarrow> 'd \<Rightarrow> 'd \<Rightarrow> u32 \<Rightarrow> u64 \<Rightarrow>
   string \<Rightarrow> string \<Rightarrow> 'j messages \<Rightarrow> 'j messages" where
  "push_deal_message E t market ask bid price amount ask_fee bid_fee side deal_id stock money ms =
     fst (push_message (kafka E) Deals
       (json_array (json E) [json_real (json E) t, json_string (json E) market,
          json_integer (json E) (sint (o_id ask)), json_integer (json E) (sint (o_id bid)),
          json_integer (json E) (uint (o_user_id ask)), json_integer (json E) (uint (o_user_id bid)),
          json_mpd_raw E price, json_mpd_raw E amount, json_mpd_raw E ask_fee, json_mpd_raw E bid_fee,
          json_integer (json E) (uint side), json_integer (json E) (sint deal_id),
          json_string (json E) stock, json_string (json E) money]) ms)"

section \<open>Messages keep their order\<close>

lemma pending_simps [simp]:
  "ms_pending (set_pending tp xs ms) = (ms_pending ms)(tp := xs)"
  "ms_sent (set_pending tp xs ms) = ms_sent ms" "ms_lost (set_pending tp xs ms) = ms_lost ms"
  "ms_pending (mark_sent tp m ms) = ms_pending ms" "ms_lost (mark_sent tp m ms) = ms_lost ms"
  "ms_sent (mark_sent tp m ms) = (ms_sent ms)(tp := ms_sent ms tp @ [m])"
  "ms_pending (mark_lost tp m ms) = ms_pending ms" "ms_sent (mark_lost tp m ms) = ms_sent ms"
  "ms_lost (mark_lost tp m ms) = (ms_lost ms)(tp := ms_lost ms tp @ [m])"
  by (simp_all add: set_pending_def mark_sent_def mark_lost_def)

lemma produceD: "produce broker ms = (r, ms') \<Longrightarrow>
  ms_pending ms' = ms_pending ms \<and> ms_sent ms' = ms_sent ms \<and> ms_lost ms' = ms_lost ms"
  by (auto simp: produce_def)

text \<open>
  While the broker only ever accepts or is full, what a topic was given is exactly what was
  accepted followed by what still waits.
\<close>

definition accounted :: "topic \<Rightarrow> 'j list \<Rightarrow> 'j messages \<Rightarrow> bool" where
  "accounted tp given ms \<longleftrightarrow> given = ms_sent ms tp @ ms_pending ms tp"

lemma produce_list_accounted:
  assumes "\<And>n. broker n \<noteq> ProduceError" "ms_pending ms tp = xs"
  shows "ms_sent (produce_list broker tp xs ms) tp @ ms_pending (produce_list broker tp xs ms) tp =
    ms_sent ms tp @ xs"
  using assms(2)
proof (induction xs arbitrary: ms)
  case (Cons m rest)
  obtain r ms1 where p: "produce broker ms = (r, ms1)" by force
  note d = produceD [OF p]
  have "r \<noteq> ProduceError" using p assms(1) by (auto simp: produce_def)
  then show ?case
    using p d Cons by (cases r) auto
qed simp

lemma push_accounted:
  assumes "\<And>n. broker n \<noteq> ProduceError" "accounted tp given ms"
  shows "accounted tp (given @ [m]) (fst (push_message broker tp m ms))"
proof -
  obtain r ms1 where p: "produce broker ms = (r, ms1)" by force
  have "r \<noteq> ProduceError" using p assms(1) by (auto simp: produce_def)
  then show ?thesis
    using assms(2) p produceD [OF p] by (cases r) (auto simp: accounted_def push_message_def)
qed

lemma flush_accounted:
  assumes "\<And>n. broker n \<noteq> ProduceError" "accounted tp given ms"
  shows "accounted tp given (flush_topic broker tp ms)"
  using assms(2) produce_list_accounted [OF assms(1), of ms tp] by (simp add: accounted_def flush_topic_def)

text \<open>The lists of other topics are left alone.\<close>

lemma produce_list_other:
  "tp' \<noteq> tp \<Longrightarrow> ms_sent (produce_list broker tp xs ms) tp' = ms_sent ms tp' \<and>
   ms_pending (produce_list broker tp xs ms) tp' = ms_pending ms tp'"
proof (induction xs arbitrary: ms)
  case (Cons m rest)
  obtain r ms1 where p: "produce broker ms = (r, ms1)" by force
  show ?case using Cons p produceD [OF p] by (cases r) auto
qed simp

lemma flush_other: "tp' \<noteq> tp \<Longrightarrow> accounted tp' given (flush_topic broker tp ms) = accounted tp' given ms"
  using produce_list_other [of tp' tp broker "ms_pending ms tp" ms] by (simp add: accounted_def flush_topic_def)

text \<open>
  C33. Messages reach the broker in the order in which they were pushed and none is lost or
  repeated, as long as the broker's only refusal is a full queue: pushing a message appends it
  to what was given, and a flush changes nothing but the split between sent and waiting.
\<close>

theorem message_order:
  assumes "\<And>n. broker n \<noteq> ProduceError" "accounted tp given ms"
  shows "accounted tp (given @ [m]) (fst (push_message broker tp m ms)) \<and>
    accounted tp given (flush_topic broker tp ms)"
  by (intro conjI push_accounted flush_accounted assms)

theorem message_order_witness:
  "accounted Deals [1, 2::nat]
     (fst (push_message (\<lambda>n. if n < 1 then QueueFull else Produced) Deals 2
        (fst (push_message (\<lambda>n. if n < 1 then QueueFull else Produced) Deals 1 init_message))))"
  using message_order [of "\<lambda>n. if n < 1 then QueueFull else Produced" Deals "[1::nat]"
    "fst (push_message (\<lambda>n. if n < 1 then QueueFull else Produced) Deals 1 init_message)" 2]
  by (simp add: accounted_def push_message_def init_message_def produce_def set_pending_def)

section \<open>A broker that refuses messages for good\<close>

text \<open>
  Whatever the broker answers, the messages a topic was given are those it accepted and those it
  refused for good, each in the order they were given, and after them those that still wait.
\<close>

definition settled :: "topic \<Rightarrow> 'j list \<Rightarrow> 'j messages \<Rightarrow> bool" where
  "settled tp given ms \<longleftrightarrow> (\<exists>gs. given = gs @ ms_pending ms tp \<and> gs \<in> shuffles (ms_sent ms tp) (ms_lost ms tp))"

lemma shuffles_snocI:
  "gs \<in> shuffles as bs \<Longrightarrow> gs @ [m] \<in> shuffles (as @ [m]) bs \<and> gs @ [m] \<in> shuffles as (bs @ [m])"
proof (induction gs arbitrary: as bs)
  case (Cons g gs)
  from Cons.prems consider as' where "as = g # as'" "gs \<in> shuffles as' bs" | bs' where "bs = g # bs'" "gs \<in> shuffles as bs'"
    by (auto simp: Cons_in_shuffles_iff neq_Nil_conv)
  then show ?case
    by cases (use Cons.IH in \<open>auto intro: Cons_in_shuffles_leftI Cons_in_shuffles_rightI\<close>)
qed simp

lemma shuffles_mapD:
  "map f xs \<in> shuffles as bs \<Longrightarrow> \<exists>cs ds. xs \<in> shuffles cs ds \<and> map f cs = as \<and> map f ds = bs"
proof (induction xs arbitrary: as bs)
  case (Cons x xs)
  from Cons.prems consider as' where "as = f x # as'" "map f xs \<in> shuffles as' bs" | bs' where "bs = f x # bs'" "map f xs \<in> shuffles as bs'"
    by (auto simp: Cons_in_shuffles_iff neq_Nil_conv)
  then show ?case
  proof cases
    case 1
    from Cons.IH [OF 1(2)] obtain cs ds where "xs \<in> shuffles cs ds" "map f cs = as'" "map f ds = bs" by blast
    then show ?thesis using 1(1) by (intro exI [of _ "x # cs"] exI [of _ ds]) (simp add: Cons_in_shuffles_leftI)
  next
    case 2
    from Cons.IH [OF 2(2)] obtain cs ds where "xs \<in> shuffles cs ds" "map f cs = as" "map f ds = bs'" by blast
    then show ?thesis using 2(1) by (intro exI [of _ cs] exI [of _ "x # ds"]) (simp add: Cons_in_shuffles_rightI)
  qed
qed simp

lemma settled_sent: "settled tp given ms \<Longrightarrow> ms_pending ms tp = m # rest \<Longrightarrow>
  settled tp given (set_pending tp rest (mark_sent tp m ms)) \<and> settled tp given (set_pending tp rest (mark_lost tp m ms))"
  unfolding settled_def
  by (auto dest: shuffles_snocI)

lemma produce_settled: "produce broker ms = (r, ms1) \<Longrightarrow> settled tp given ms1 = settled tp given ms"
  by (auto simp: settled_def dest: produceD)

lemma produce_list_settled:
  "settled tp given ms \<Longrightarrow> ms_pending ms tp = xs \<Longrightarrow> settled tp given (produce_list broker tp xs ms)"
proof (induction xs arbitrary: ms)
  case (Cons m rest)
  obtain r ms1 where p: "produce broker ms = (r, ms1)" by force
  have s: "settled tp given ms1" "ms_pending ms1 tp = m # rest" using Cons.prems produce_settled [OF p] produceD [OF p] by auto
  show ?case using settled_sent [OF s] s(1) by (cases r) (auto simp: p intro: Cons.IH)
qed simp

lemma push_settled:
  assumes "settled tp given ms"
  shows "settled tp (given @ [m]) (fst (push_message broker tp m ms))"
proof -
  obtain r ms1 where p: "produce broker ms = (r, ms1)" by force
  show ?thesis
    using assms p produceD [OF p]
    by (cases r) (auto simp: settled_def push_message_def dest: shuffles_snocI)
qed

lemma flush_settled: "settled tp given ms \<Longrightarrow> settled tp given (flush_topic broker tp ms)"
  by (simp add: flush_topic_def produce_list_settled)

lemma produce_list_lost_other: "tp' \<noteq> tp \<Longrightarrow> ms_lost (produce_list broker tp xs ms) tp' = ms_lost ms tp'"
proof (induction xs arbitrary: ms)
  case (Cons m rest)
  obtain r ms1 where p: "produce broker ms = (r, ms1)" by force
  show ?case using Cons p produceD [OF p] by (cases r) auto
qed simp

lemma flush_settled_other: "tp' \<noteq> tp \<Longrightarrow> settled tp' given (flush_topic broker tp ms) = settled tp' given ms"
  using produce_list_other [of tp' tp broker "ms_pending ms tp" ms] produce_list_lost_other [of tp' tp broker "ms_pending ms tp" ms]
  by (simp add: settled_def flush_topic_def)

text \<open>A broker whose only refusal is a full queue loses nothing.\<close>

lemma produce_list_lossless:
  assumes "\<And>n. broker n \<noteq> ProduceError"
  shows "ms_lost (produce_list broker tp xs ms) = ms_lost ms"
proof (induction xs arbitrary: ms)
  case (Cons m rest)
  obtain r ms1 where p: "produce broker ms = (r, ms1)" by force
  have "r \<noteq> ProduceError" using p assms(1) by (auto simp: produce_def)
  then show ?case using Cons p produceD [OF p] by (cases r) auto
qed simp

lemma flush_lossless: "(\<And>n. broker n \<noteq> ProduceError) \<Longrightarrow> ms_lost (flush_topic broker tp ms) = ms_lost ms"
  by (simp add: flush_topic_def produce_list_lossless)

lemma push_lossless:
  assumes "\<And>n. broker n \<noteq> ProduceError"
  shows "ms_lost (fst (push_message broker tp m ms)) = ms_lost ms"
proof -
  obtain r ms1 where p: "produce broker ms = (r, ms1)" by force
  have "r \<noteq> ProduceError" using p assms(1) by (auto simp: produce_def)
  then show ?thesis using p produceD [OF p] by (cases r) (auto simp: push_message_def)
qed

end
