(* ===== verification/Market.thy ===== *)
theory Market
  imports Skiplist History Message
begin

text \<open>
  \<^verbatim>\<open>matchengine/me_market.c\<close>: one market of the matching engine. A C pointer to an
  order is its id: the order objects live in \<open>m_orders\<close> (the dictionary
  \<^verbatim>\<open>orders\<close>), and the skip lists \<^verbatim>\<open>asks\<close>, \<^verbatim>\<open>bids\<close> and the
  per-user lists hold ids, so that an update of an order is seen through every list. The skip
  lists are the sequences of the theory \<open>Skiplist\<close>. What an operation reads and writes
  outside the market (balances, id counters, clock, history, messages) is the record
  \<open>engine\<close>. A loop over a book runs over the ids the book had when the iterator was created:
  the iterator has already fetched the next node when the current one is deleted, and the loops
  delete no other.
\<close>

section \<open>State\<close>

record 'd market =
  m_name :: string
  m_stock :: string
  m_money :: string
  m_stock_prec :: int
  m_money_prec :: int
  m_fee_prec :: int
  m_min_amount :: 'd
  m_orders :: "u64 \<rightharpoonup> 'd order"
  m_users :: "u32 \<rightharpoonup> u64 list"
  m_asks :: "u64 list"
  m_bids :: "u64 list"

record ('d, 'j) engine =
  ledger :: "'d ledger"
  order_id_start :: u64
  deals_id_start :: u64
  ticks :: nat
  hist :: "('d, 'j) history"
  msgs :: "'j messages"

record 'd market_conf =
  conf_name :: string
  conf_stock :: string
  conf_money :: string
  conf_stock_prec :: int
  conf_money_prec :: int
  conf_fee_prec :: int
  conf_min_amount :: 'd

definition market_create :: "'d ledger \<Rightarrow> 'd market_conf \<Rightarrow> 'd market option" where
  "market_create L conf =
     (if \<not> asset_exist L (conf_stock conf) \<or> \<not> asset_exist L (conf_money conf) then None
      else if conf_stock_prec conf + conf_money_prec conf > asset_prec L (conf_money conf) then None
      else if conf_stock_prec conf + conf_fee_prec conf > asset_prec L (conf_stock conf) then None
      else if conf_money_prec conf + conf_fee_prec conf > asset_prec L (conf_money conf) then None
      else Some \<lparr>m_name = conf_name conf, m_stock = conf_stock conf, m_money = conf_money conf,
        m_stock_prec = conf_stock_prec conf, m_money_prec = conf_money_prec conf,
        m_fee_prec = conf_fee_prec conf, m_min_amount = conf_min_amount conf,
        m_orders = Map.empty, m_users = Map.empty, m_asks = [], m_bids = []\<rparr>)"

text \<open>The comparison of the books, on ids.\<close>

definition book_compare :: "'d mpd_ops \<Rightarrow> (u64 \<rightharpoonup> 'd order) \<Rightarrow> u64 \<Rightarrow> u64 \<Rightarrow> int" where
  "book_compare M objs id1 id2 =
     (case objs id1 of None \<Rightarrow> 0
      | Some order1 \<Rightarrow> (case objs id2 of None \<Rightarrow> 0
         | Some order2 \<Rightarrow> order_match_compare M order1 order2))"

section \<open>History and messages of a deal\<close>

definition trade_detail :: "('d, 'j) env \<Rightarrow> 'd order \<Rightarrow> 'd \<Rightarrow> 'd \<Rightarrow> (string \<times> 'j) list" where
  "trade_detail E order price amount =
     [(''m'', json_string (json E) (o_market order)), (''i'', json_integer (json E) (sint (o_id order))),
      (''p'', json_mpd E price), (''a'', json_mpd E amount)]"

definition append_balance_trade_add ::
  "('d, 'j) env \<Rightarrow> 'd ledger \<Rightarrow> 'd order \<Rightarrow> string \<Rightarrow> 'd \<Rightarrow> 'd \<Rightarrow> 'd \<Rightarrow> ('d, 'j) history \<Rightarrow> ('d, 'j) history" where
  "append_balance_trade_add E L order asset change price amount =
     append_user_balance_history (mpd E) L (o_update_time order) (o_user_id order) asset ''trade''
       change (json_object (json E) (trade_detail E order price amount))"

definition append_balance_trade_sub ::
  "('d, 'j) env \<Rightarrow> 'd ledger \<Rightarrow> 'd order \<Rightarrow> string \<Rightarrow> 'd \<Rightarrow> 'd \<Rightarrow> 'd \<Rightarrow> ('d, 'j) history \<Rightarrow> ('d, 'j) history" where
  "append_balance_trade_sub E L order asset change price amount =
     append_user_balance_history (mpd E) L (o_update_time order) (o_user_id order) asset ''trade''
       (mpd_copy_negate (mpd E) change) (json_object (json E) (trade_detail E order price amount))"

definition append_balance_trade_fee ::
  "('d, 'j) env \<Rightarrow> 'd ledger \<Rightarrow> 'd order \<Rightarrow> string \<Rightarrow> 'd \<Rightarrow> 'd \<Rightarrow> 'd \<Rightarrow> 'd \<Rightarrow> ('d, 'j) history \<Rightarrow> ('d, 'j) history" where
  "append_balance_trade_fee E L order asset change price amount fee_rate =
     append_user_balance_history (mpd E) L (o_update_time order) (o_user_id order) asset ''trade''
       (mpd_copy_negate (mpd E) change)
       (json_object (json E) (trade_detail E order price amount @ [(''f'', json_mpd E fee_rate)]))"

text \<open>
  The three steps every deal is settled with: take from an entry, give to the available
  balance, charge the fee; each with its history row when \<open>live\<close> holds (\<^verbatim>\<open>real\<close> in C: the order is not a replayed one). The
  results of \<^verbatim>\<open>balance_sub\<close> and \<^verbatim>\<open>balance_add\<close> are ignored, as in the code.
\<close>

definition take_balance ::
  "('d, 'j) env \<Rightarrow> bool \<Rightarrow> 'd order \<Rightarrow> u32 \<Rightarrow> string \<Rightarrow> 'd \<Rightarrow> 'd \<Rightarrow> 'd \<Rightarrow> ('d, 'j) engine \<Rightarrow> ('d, 'j) engine" where
  "take_balance E live order type asset change price amount S =
     (let S = S\<lparr>ledger := fst (balance_sub (mpd E) (ledger S) (o_user_id order) type asset change)\<rparr>
      in if live
         then S\<lparr>hist := append_balance_trade_sub E (ledger S) order asset change price amount (hist S)\<rparr>
         else S)"

definition give_balance ::
  "('d, 'j) env \<Rightarrow> bool \<Rightarrow> 'd order \<Rightarrow> string \<Rightarrow> 'd \<Rightarrow> 'd \<Rightarrow> 'd \<Rightarrow> ('d, 'j) engine \<Rightarrow> ('d, 'j) engine" where
  "give_balance E live order asset change price amount S =
     (let S = S\<lparr>ledger := fst (balance_add (mpd E) (ledger S) (o_user_id order)
                BALANCE_TYPE_AVAILABLE asset change)\<rparr>
      in if live
         then S\<lparr>hist := append_balance_trade_add E (ledger S) order asset change price amount (hist S)\<rparr>
         else S)"

definition charge_fee ::
  "('d, 'j) env \<Rightarrow> bool \<Rightarrow> 'd order \<Rightarrow> string \<Rightarrow> 'd \<Rightarrow> 'd \<Rightarrow> 'd \<Rightarrow> 'd \<Rightarrow> ('d, 'j) engine \<Rightarrow> ('d, 'j) engine" where
  "charge_fee E live order asset fee price amount fee_rate S =
     (if mpd_cmp (mpd E) fee (mpd_zero (mpd E)) > 0
      then
        let S = S\<lparr>ledger := fst (balance_sub (mpd E) (ledger S) (o_user_id order)
                  BALANCE_TYPE_AVAILABLE asset fee)\<rparr>
        in if live
           then S\<lparr>hist := append_balance_trade_fee E (ledger S) order asset fee price amount fee_rate (hist S)\<rparr>
           else S
      else S)"

definition send_order_message ::
  "('d, 'j) env \<Rightarrow> bool \<Rightarrow> int \<Rightarrow> 'd order \<Rightarrow> 'd market \<Rightarrow> ('d, 'j) engine \<Rightarrow> ('d, 'j) engine" where
  "send_order_message E live event order m S =
     (if live then S\<lparr>msgs := push_order_message E event order (m_stock m) (m_money m) (msgs S)\<rparr> else S)"

text \<open>\<open>record_deal\<close>: the history rows and the message of a deal, before it is settled.\<close>

definition record_deal ::
  "('d, 'j) env \<Rightarrow> bool \<Rightarrow> 'd market \<Rightarrow> int \<Rightarrow> u64 \<Rightarrow> 'd order \<Rightarrow> int \<Rightarrow> 'd order \<Rightarrow> int \<Rightarrow> 'd \<Rightarrow> 'd \<Rightarrow> 'd \<Rightarrow>
   'd \<Rightarrow> 'd \<Rightarrow> u32 \<Rightarrow> ('d, 'j) engine \<Rightarrow> ('d, 'j) engine" where
  "record_deal E live m t deal_id ask ask_role bid bid_role price amount deal ask_fee bid_fee side S =
     (if live
      then S\<lparr>hist := append_order_deal_history t deal_id ask ask_role bid bid_role price amount deal
               ask_fee bid_fee (hist S),
             msgs := push_deal_message E t (m_name m) ask bid price amount ask_fee bid_fee side deal_id
               (m_stock m) (m_money m) (msgs S)\<rparr>
      else S)"

section \<open>Putting an order into the book and taking it out\<close>

definition order_put ::
  "'d mpd_ops \<Rightarrow> 'd market \<Rightarrow> 'd ledger \<Rightarrow> 'd order \<Rightarrow> 'd market \<times> 'd ledger \<times> int" where
  "order_put M m L order =
     (if o_type order \<noteq> MARKET_ORDER_TYPE_LIMIT then (m, L, - 157)
      else if m_orders m (o_id order) \<noteq> None then (m, L, - 162)
      else
        let m = m\<lparr>m_orders := (m_orders m)(o_id order \<mapsto> order)\<rparr>;
            known = m_users m (o_user_id order);
            order_list = (case known of Some order_list \<Rightarrow> order_list | None \<Rightarrow> [])
        in (case slist_insert order_id_compare (o_id order) order_list of
              None \<Rightarrow> (m, L, if known = None then - 182 else - 172)
            | Some order_list \<Rightarrow>
                let m = m\<lparr>m_users := (m_users m)(o_user_id order \<mapsto> order_list)\<rparr> in
                if o_side order = MARKET_ORDER_SIDE_ASK then
                  (case slist_insert (book_compare M (m_orders m)) (o_id order) (m_asks m) of
                     None \<Rightarrow> (m, L, - 190)
                   | Some asks \<Rightarrow>
                       let order = order\<lparr>o_freeze := o_left order\<rparr>;
                           m = m\<lparr>m_asks := asks, m_orders := (m_orders m)(o_id order \<mapsto> order)\<rparr>
                       in (case balance_freeze M L (o_user_id order) (m_stock m) (o_left order) of
                             (L, None) \<Rightarrow> (m, L, - 193)
                           | (L, Some _) \<Rightarrow> (m, L, 0)))
                else
                  (case slist_insert (book_compare M (m_orders m)) (o_id order) (m_bids m) of
                     None \<Rightarrow> (m, L, - 197)
                   | Some bids \<Rightarrow>
                       let result = mpd_mul M (o_price order) (o_left order);
                           order = order\<lparr>o_freeze := result\<rparr>;
                           m = m\<lparr>m_bids := bids, m_orders := (m_orders m)(o_id order \<mapsto> order)\<rparr>
                       in (case balance_freeze M L (o_user_id order) (m_money m) result of
                             (L, None) \<Rightarrow> (m, L, - 203)
                           | (L, Some _) \<Rightarrow> (m, L, 0)))))"

text \<open>The first half of \<^verbatim>\<open>order_finish\<close>: out of the book, and the frozen rest back.\<close>

definition leave_book :: "'d mpd_ops \<Rightarrow> (u64 \<rightharpoonup> 'd order) \<Rightarrow> u64 \<Rightarrow> u64 list \<Rightarrow> u64 list" where
  "leave_book M objs oid book =
     (case slist_find (book_compare M objs) oid book of
        Some node \<Rightarrow> slist_delete node book | None \<Rightarrow> book)"

definition release_freeze ::
  "'d mpd_ops \<Rightarrow> 'd order \<Rightarrow> string \<Rightarrow> 'd ledger \<Rightarrow> ('d ledger) option" where
  "release_freeze M order asset L =
     (if mpd_cmp M (o_freeze order) (mpd_zero M) > 0
      then (case balance_unfreeze M L (o_user_id order) asset (o_freeze order) of
              (L, None) \<Rightarrow> None | (L, Some _) \<Rightarrow> Some L)
      else Some L)"

definition drop_order :: "'d market \<Rightarrow> 'd order \<Rightarrow> 'd market" where
  "drop_order m order =
     m\<lparr>m_orders := (m_orders m)(o_id order := None),
       m_users := (case m_users m (o_user_id order) of
          None \<Rightarrow> m_users m
        | Some order_list \<Rightarrow> (m_users m)(o_user_id order \<mapsto>
            (case slist_find order_id_compare (o_id order) order_list of
               Some node \<Rightarrow> slist_delete node order_list | None \<Rightarrow> order_list)))\<rparr>"

definition order_finish ::
  "('d, 'j) env \<Rightarrow> bool \<Rightarrow> 'd market \<Rightarrow> 'd order \<Rightarrow> ('d, 'j) engine \<Rightarrow> 'd market \<times> ('d, 'j) engine \<times> int" where
  "order_finish E live m order S =
     (let M = mpd E;
          is_ask = (o_side order = MARKET_ORDER_SIDE_ASK);
          m = (if is_ask
               then m\<lparr>m_asks := leave_book M (m_orders m) (o_id order) (m_asks m)\<rparr>
               else m\<lparr>m_bids := leave_book M (m_orders m) (o_id order) (m_bids m)\<rparr>)
      in (case release_freeze M order (if is_ask then m_stock m else m_money m) (ledger S) of
            None \<Rightarrow> (m, S, if is_ask then - 220 else - 230)
          | Some L \<Rightarrow>
              (drop_order m order,
               if live \<and> mpd_cmp M (o_deal_stock order) (mpd_zero M) > 0
               then S\<lparr>ledger := L, hist := append_order_history order (hist S)\<rparr>
               else S\<lparr>ledger := L\<rparr>, 0)))"

text \<open>The end of every loop body: the maker is finished when nothing is left of it.\<close>

definition after_deal ::
  "('d, 'j) env \<Rightarrow> bool \<Rightarrow> 'd market \<Rightarrow> 'd order \<Rightarrow> ('d, 'j) engine \<Rightarrow> 'd market \<times> ('d, 'j) engine" where
  "after_deal E live m maker S =
     (let m = m\<lparr>m_orders := (m_orders m)(o_id maker \<mapsto> maker)\<rparr> in
      if mpd_cmp (mpd E) (o_left maker) (mpd_zero (mpd E)) = 0
      then (case order_finish E live m maker (send_order_message E live ORDER_EVENT_FINISH maker m S) of
              (m, S, _) \<Rightarrow> (m, S))
      else (m, send_order_message E live ORDER_EVENT_UPDATE maker m S))"

end
