(* ===== verification/Matching.thy ===== *)
theory Matching
  imports Market
begin

text \<open>
  \<^verbatim>\<open>matchengine/me_market.c\<close>, second part: the four matching loops, and the
  operations that put and cancel orders. The loop bodies for a taker that sells
  (\<open>ask_deal\<close>) are the same code for limit and market orders, and so are those for a taker that
  buys (\<open>bid_deal\<close>), except for what they take from \<^verbatim>\<open>taker->left\<close>.
\<close>

section \<open>One deal\<close>

text \<open>
  The updates of the two order objects: \<open>used\<close> is what is subtracted from \<^verbatim>\<open>left\<close>,
  \<open>unfrozen\<close> what is subtracted from \<^verbatim>\<open>freeze\<close>.
\<close>

definition fill_taker :: "'d mpd_ops \<Rightarrow> 'd \<Rightarrow> 'd \<Rightarrow> 'd \<Rightarrow> 'd \<Rightarrow> 'd order \<Rightarrow> 'd order" where
  "fill_taker M used amount deal fee taker =
     taker\<lparr>o_left := mpd_sub M (o_left taker) used,
       o_deal_stock := mpd_add M (o_deal_stock taker) amount,
       o_deal_money := mpd_add M (o_deal_money taker) deal,
       o_deal_fee := mpd_add M (o_deal_fee taker) fee\<rparr>"

definition fill_maker :: "'d mpd_ops \<Rightarrow> 'd \<Rightarrow> 'd \<Rightarrow> 'd \<Rightarrow> 'd \<Rightarrow> 'd order \<Rightarrow> 'd order" where
  "fill_maker M unfrozen amount deal fee maker =
     maker\<lparr>o_left := mpd_sub M (o_left maker) amount,
       o_freeze := mpd_sub M (o_freeze maker) unfrozen,
       o_deal_stock := mpd_add M (o_deal_stock maker) amount,
       o_deal_money := mpd_add M (o_deal_money maker) deal,
       o_deal_fee := mpd_add M (o_deal_fee maker) fee\<rparr>"

text \<open>The clock is read once per deal and the deal gets the next id.\<close>

definition next_deal :: "('d, 'j) engine \<Rightarrow> ('d, 'j) engine" where
  "next_deal S = S\<lparr>ticks := ticks S + 1, deals_id_start := deals_id_start S + 1\<rparr>"

definition stamp :: "('d, 'j) env \<Rightarrow> ('d, 'j) engine \<Rightarrow> 'd order \<Rightarrow> 'd order" where
  "stamp E S order = order\<lparr>o_update_time := clock E (ticks S)\<rparr>"

text \<open>
  The six balance operations of a deal: the taker is settled first. \<open>settle_ask\<close> is a
  taker that sells to a bid in the book, \<open>settle_bid\<close> a taker that buys from an ask.
\<close>

definition settle_ask ::
  "('d, 'j) env \<Rightarrow> bool \<Rightarrow> 'd market \<Rightarrow> 'd order \<Rightarrow> 'd order \<Rightarrow> 'd \<Rightarrow> 'd \<Rightarrow> 'd \<Rightarrow> 'd \<Rightarrow> 'd \<Rightarrow>
   ('d, 'j) engine \<Rightarrow> ('d, 'j) engine" where
  "settle_ask E live m taker maker price amount deal ask_fee bid_fee S =
     charge_fee E live maker (m_stock m) bid_fee price amount (o_maker_fee maker)
    (give_balance E live maker (m_stock m) amount price amount
    (take_balance E live maker BALANCE_TYPE_FREEZE (m_money m) deal price amount
    (charge_fee E live taker (m_money m) ask_fee price amount (o_taker_fee taker)
    (give_balance E live taker (m_money m) deal price amount
    (take_balance E live taker BALANCE_TYPE_AVAILABLE (m_stock m) amount price amount S)))))"

definition settle_bid ::
  "('d, 'j) env \<Rightarrow> bool \<Rightarrow> 'd market \<Rightarrow> 'd order \<Rightarrow> 'd order \<Rightarrow> 'd \<Rightarrow> 'd \<Rightarrow> 'd \<Rightarrow> 'd \<Rightarrow> 'd \<Rightarrow>
   ('d, 'j) engine \<Rightarrow> ('d, 'j) engine" where
  "settle_bid E live m taker maker price amount deal ask_fee bid_fee S =
     charge_fee E live maker (m_money m) ask_fee price amount (o_maker_fee maker)
    (give_balance E live maker (m_money m) deal price amount
    (take_balance E live maker BALANCE_TYPE_FREEZE (m_stock m) amount price amount
    (charge_fee E live taker (m_stock m) bid_fee price amount (o_taker_fee taker)
    (give_balance E live taker (m_stock m) amount price amount
    (take_balance E live taker BALANCE_TYPE_AVAILABLE (m_money m) deal price amount S)))))"

text \<open>\<open>deal_amount\<close>: the smaller of what the two orders have left.\<close>

definition deal_amount :: "'d mpd_ops \<Rightarrow> 'd order \<Rightarrow> 'd order \<Rightarrow> 'd" where
  "deal_amount M taker maker =
     (if mpd_cmp M (o_left taker) (o_left maker) < 0 then o_left taker else o_left maker)"

definition ask_deal ::
  "('d, 'j) env \<Rightarrow> bool \<Rightarrow> 'd market \<Rightarrow> 'd order \<Rightarrow> 'd order \<Rightarrow> ('d, 'j) engine \<Rightarrow>
   'd market \<times> 'd order \<times> ('d, 'j) engine" where
  "ask_deal E live m taker maker S =
     (let M = mpd E;
          price = o_price maker;
          amount = deal_amount M taker maker;
          deal = mpd_mul M price amount;
          ask_fee = mpd_mul M deal (o_taker_fee taker);
          bid_fee = mpd_mul M amount (o_maker_fee maker);
          taker = stamp E S taker;
          maker = stamp E S maker;
          S = next_deal S;
          S = record_deal E live m (o_update_time taker) (deals_id_start S) taker MARKET_ROLE_TAKER
                maker MARKET_ROLE_MAKER price amount deal ask_fee bid_fee MARKET_ORDER_SIDE_ASK S;
          taker = fill_taker M amount amount deal ask_fee taker;
          S = settle_ask E live m taker maker price amount deal ask_fee bid_fee S;
          maker = fill_maker M deal amount deal bid_fee maker
      in (case after_deal E live m maker S of (m, S) \<Rightarrow> (m, taker, S)))"

text \<open>\<open>bid_deal\<close> gets the amount, and \<open>used\<close> tells what \<^verbatim>\<open>taker->left\<close> loses.\<close>

definition bid_deal ::
  "('d, 'j) env \<Rightarrow> bool \<Rightarrow> 'd market \<Rightarrow> 'd order \<Rightarrow> 'd order \<Rightarrow> 'd \<Rightarrow> ('d \<Rightarrow> 'd) \<Rightarrow> ('d, 'j) engine \<Rightarrow>
   'd market \<times> 'd order \<times> ('d, 'j) engine" where
  "bid_deal E live m taker maker amount used S =
     (let M = mpd E;
          price = o_price maker;
          deal = mpd_mul M price amount;
          ask_fee = mpd_mul M deal (o_maker_fee maker);
          bid_fee = mpd_mul M amount (o_taker_fee taker);
          taker = stamp E S taker;
          maker = stamp E S maker;
          S = next_deal S;
          S = record_deal E live m (o_update_time taker) (deals_id_start S) maker MARKET_ROLE_MAKER
                taker MARKET_ROLE_TAKER price amount deal ask_fee bid_fee MARKET_ORDER_SIDE_BID S;
          taker = fill_taker M (used deal) amount deal bid_fee taker;
          S = settle_bid E live m taker maker price amount deal ask_fee bid_fee S;
          maker = fill_maker M amount amount deal ask_fee maker
      in (case after_deal E live m maker S of (m, S) \<Rightarrow> (m, taker, S)))"

section \<open>The loops over the books\<close>

text \<open>
  Each loop runs over the ids of the opposite book. An id without an object cannot occur (the
  books hold pointers to live orders); the loops stop there.
\<close>

fun limit_ask_loop ::
  "('d, 'j) env \<Rightarrow> bool \<Rightarrow> u64 list \<Rightarrow> 'd market \<Rightarrow> 'd order \<Rightarrow> ('d, 'j) engine \<Rightarrow>
   'd market \<times> 'd order \<times> ('d, 'j) engine" where
  "limit_ask_loop E live [] m taker S = (m, taker, S)"
| "limit_ask_loop E live (node # nodes) m taker S =
     (if mpd_cmp (mpd E) (o_left taker) (mpd_zero (mpd E)) = 0 then (m, taker, S)
      else (case m_orders m node of
          None \<Rightarrow> (m, taker, S)
        | Some maker \<Rightarrow>
            if mpd_cmp (mpd E) (o_price taker) (o_price maker) > 0 then (m, taker, S)
            else (case ask_deal E live m taker maker S of
                (m, taker, S) \<Rightarrow> limit_ask_loop E live nodes m taker S)))"

definition execute_limit_ask_order ::
  "('d, 'j) env \<Rightarrow> bool \<Rightarrow> 'd market \<Rightarrow> 'd order \<Rightarrow> ('d, 'j) engine \<Rightarrow> 'd market \<times> 'd order \<times> ('d, 'j) engine" where
  "execute_limit_ask_order E live m taker S = limit_ask_loop E live (m_bids m) m taker S"

fun limit_bid_loop ::
  "('d, 'j) env \<Rightarrow> bool \<Rightarrow> u64 list \<Rightarrow> 'd market \<Rightarrow> 'd order \<Rightarrow> ('d, 'j) engine \<Rightarrow>
   'd market \<times> 'd order \<times> ('d, 'j) engine" where
  "limit_bid_loop E live [] m taker S = (m, taker, S)"
| "limit_bid_loop E live (node # nodes) m taker S =
     (if mpd_cmp (mpd E) (o_left taker) (mpd_zero (mpd E)) = 0 then (m, taker, S)
      else (case m_orders m node of
          None \<Rightarrow> (m, taker, S)
        | Some maker \<Rightarrow>
            if mpd_cmp (mpd E) (o_price taker) (o_price maker) < 0 then (m, taker, S)
            else
              let amount = deal_amount (mpd E) taker maker in
              (case bid_deal E live m taker maker amount (\<lambda>_. amount) S of
                (m, taker, S) \<Rightarrow> limit_bid_loop E live nodes m taker S)))"

definition execute_limit_bid_order ::
  "('d, 'j) env \<Rightarrow> bool \<Rightarrow> 'd market \<Rightarrow> 'd order \<Rightarrow> ('d, 'j) engine \<Rightarrow> 'd market \<times> 'd order \<times> ('d, 'j) engine" where
  "execute_limit_bid_order E live m taker S = limit_bid_loop E live (m_asks m) m taker S"

fun market_ask_loop ::
  "('d, 'j) env \<Rightarrow> bool \<Rightarrow> u64 list \<Rightarrow> 'd market \<Rightarrow> 'd order \<Rightarrow> ('d, 'j) engine \<Rightarrow>
   'd market \<times> 'd order \<times> ('d, 'j) engine" where
  "market_ask_loop E live [] m taker S = (m, taker, S)"
| "market_ask_loop E live (node # nodes) m taker S =
     (if mpd_cmp (mpd E) (o_left taker) (mpd_zero (mpd E)) = 0 then (m, taker, S)
      else (case m_orders m node of
          None \<Rightarrow> (m, taker, S)
        | Some maker \<Rightarrow>
            (case ask_deal E live m taker maker S of
              (m, taker, S) \<Rightarrow> market_ask_loop E live nodes m taker S)))"

definition execute_market_ask_order ::
  "('d, 'j) env \<Rightarrow> bool \<Rightarrow> 'd market \<Rightarrow> 'd order \<Rightarrow> ('d, 'j) engine \<Rightarrow> 'd market \<times> 'd order \<times> ('d, 'j) engine" where
  "execute_market_ask_order E live m taker S = market_ask_loop E live (m_bids m) m taker S"

text \<open>
  A market order to buy gives the money it spends: the amount that money buys is found by a
  division, truncated, and lowered while it is too expensive. \<open>None\<close>: the inner loop runs
  for ever.
\<close>

partial_function (option) lower_amount :: "'d mpd_ops \<Rightarrow> int \<Rightarrow> 'd \<Rightarrow> 'd \<Rightarrow> 'd \<Rightarrow> 'd option" where
  "lower_amount M stock_prec price lft amount =
     (if mpd_cmp M (mpd_mul M amount price) lft > 0
      then lower_amount M stock_prec price lft
             (mpd_sub M amount (mpd_pow M (mpd_ten M) (mpd_set_i32 M (- stock_prec))))
      else Some amount)"

definition buy_amount :: "'d mpd_ops \<Rightarrow> int \<Rightarrow> 'd order \<Rightarrow> 'd order \<Rightarrow> 'd option" where
  "buy_amount M stock_prec taker maker =
     map_option (\<lambda>amount. if mpd_cmp M amount (o_left maker) > 0 then o_left maker else amount)
       (lower_amount M stock_prec (o_price maker) (o_left taker)
          (mpd_rescale M (mpd_div M (o_left taker) (o_price maker)) (- stock_prec)))"

fun market_bid_loop ::
  "('d, 'j) env \<Rightarrow> bool \<Rightarrow> u64 list \<Rightarrow> 'd market \<Rightarrow> 'd order \<Rightarrow> ('d, 'j) engine \<Rightarrow>
   ('d market \<times> 'd order \<times> ('d, 'j) engine) option" where
  "market_bid_loop E live [] m taker S = Some (m, taker, S)"
| "market_bid_loop E live (node # nodes) m taker S =
     (if mpd_cmp (mpd E) (o_left taker) (mpd_zero (mpd E)) = 0 then Some (m, taker, S)
      else (case m_orders m node of
          None \<Rightarrow> Some (m, taker, S)
        | Some maker \<Rightarrow>
            (case buy_amount (mpd E) (m_stock_prec m) taker maker of
               None \<Rightarrow> None
             | Some amount \<Rightarrow>
                 if mpd_cmp (mpd E) amount (mpd_zero (mpd E)) = 0 then Some (m, taker, S)
                 else (case bid_deal E live m taker maker amount (\<lambda>deal. deal) S of
                     (m, taker, S) \<Rightarrow> market_bid_loop E live nodes m taker S))))"

definition execute_market_bid_order ::
  "('d, 'j) env \<Rightarrow> bool \<Rightarrow> 'd market \<Rightarrow> 'd order \<Rightarrow> ('d, 'j) engine \<Rightarrow>
   ('d market \<times> 'd order \<times> ('d, 'j) engine) option" where
  "execute_market_bid_order E live m taker S = market_bid_loop E live (m_asks m) m taker S"

section \<open>Putting orders\<close>

text \<open>
  The results are the market, the engine, the C return value and the JSON document the
  function stores through \<^verbatim>\<open>result\<close> (\<open>None\<close> when it stores none).
\<close>

definition limit_order_check ::
  "'d mpd_ops \<Rightarrow> 'd market \<Rightarrow> 'd ledger \<Rightarrow> u32 \<Rightarrow> u32 \<Rightarrow> 'd \<Rightarrow> 'd \<Rightarrow> int" where
  "limit_order_check M m L user_id side amount price =
     (let short = (if side = MARKET_ORDER_SIDE_ASK
            then (case balance_get L user_id BALANCE_TYPE_AVAILABLE (m_stock m) of
                None \<Rightarrow> True | Some balance \<Rightarrow> mpd_cmp M balance amount < 0)
            else (case balance_get L user_id BALANCE_TYPE_AVAILABLE (m_money m) of
                None \<Rightarrow> True | Some balance \<Rightarrow> mpd_cmp M balance (mpd_mul M amount price) < 0))
      in if short then - 1 else if mpd_cmp M amount (m_min_amount m) < 0 then - 2 else 0)"

definition new_order ::
  "('d, 'j) env \<Rightarrow> 'd market \<Rightarrow> ('d, 'j) engine \<Rightarrow> u32 \<Rightarrow> u32 \<Rightarrow> u32 \<Rightarrow> 'd \<Rightarrow> 'd \<Rightarrow> 'd \<Rightarrow> 'd \<Rightarrow> string \<Rightarrow> 'd order" where
  "new_order E m S type side user_id amount price taker_fee maker_fee source =
     \<lparr>o_id = order_id_start S + 1, o_type = type, o_side = side,
      o_create_time = clock E (ticks S), o_update_time = clock E (ticks S), o_user_id = user_id,
      o_market = m_name m, o_source = source, o_price = price, o_amount = amount,
      o_taker_fee = taker_fee, o_maker_fee = maker_fee, o_left = amount,
      o_freeze = mpd_zero (mpd E), o_deal_stock = mpd_zero (mpd E),
      o_deal_money = mpd_zero (mpd E), o_deal_fee = mpd_zero (mpd E)\<rparr>"

definition next_order :: "('d, 'j) engine \<Rightarrow> ('d, 'j) engine" where
  "next_order S = S\<lparr>order_id_start := order_id_start S + 1, ticks := ticks S + 1\<rparr>"

text \<open>What follows the matching of a limit order: it is finished, or goes into the book.\<close>

definition place_limit_order ::
  "('d, 'j) env \<Rightarrow> bool \<Rightarrow> 'd market \<Rightarrow> 'd order \<Rightarrow> ('d, 'j) engine \<Rightarrow> 'd market \<times> ('d, 'j) engine" where
  "place_limit_order E live m order S =
     (if mpd_cmp (mpd E) (o_left order) (mpd_zero (mpd E)) = 0
      then (m, send_order_message E live ORDER_EVENT_FINISH order m
             (if live then S\<lparr>hist := append_order_history order (hist S)\<rparr> else S))
      else
        let S = send_order_message E live ORDER_EVENT_PUT order m S in
        (case order_put (mpd E) m (ledger S) order of (m, L, _) \<Rightarrow> (m, S\<lparr>ledger := L\<rparr>)))"

definition market_put_limit_order ::
  "('d, 'j) env \<Rightarrow> bool \<Rightarrow> 'd market \<Rightarrow> ('d, 'j) engine \<Rightarrow> u32 \<Rightarrow> u32 \<Rightarrow> 'd \<Rightarrow> 'd \<Rightarrow> 'd \<Rightarrow> 'd \<Rightarrow> string \<Rightarrow>
   'd market \<times> ('d, 'j) engine \<times> int \<times> 'j option" where
  "market_put_limit_order E live m S user_id side amount price taker_fee maker_fee source =
     (let ret = limit_order_check (mpd E) m (ledger S) user_id side amount price in
      if ret < 0 then (m, S, ret, None)
      else
        let order = new_order E m S MARKET_ORDER_TYPE_LIMIT side user_id amount price taker_fee maker_fee source;
            execute = (if side = MARKET_ORDER_SIDE_ASK then execute_limit_ask_order else execute_limit_bid_order)
        in (case execute E live m order (next_order S) of
              (m, order, S) \<Rightarrow>
                (case place_limit_order E live m order S of
                   (m, S) \<Rightarrow> (m, S, 0, if live then Some (get_order_info E order) else None))))"

definition market_order_check ::
  "'d mpd_ops \<Rightarrow> 'd market \<Rightarrow> 'd ledger \<Rightarrow> u32 \<Rightarrow> u32 \<Rightarrow> 'd \<Rightarrow> int" where
  "market_order_check M m L user_id side amount =
     (if side = MARKET_ORDER_SIDE_ASK
      then
        if (case balance_get L user_id BALANCE_TYPE_AVAILABLE (m_stock m) of
              None \<Rightarrow> True | Some balance \<Rightarrow> mpd_cmp M balance amount < 0) then - 1
        else if m_bids m = [] then - 3
        else if mpd_cmp M amount (m_min_amount m) < 0 then - 2 else 0
      else
        if (case balance_get L user_id BALANCE_TYPE_AVAILABLE (m_money m) of
              None \<Rightarrow> True | Some balance \<Rightarrow> mpd_cmp M balance amount < 0) then - 1
        else (case m_asks m of
            [] \<Rightarrow> - 3
          | node # _ \<Rightarrow>
              (case m_orders m node of
                 None \<Rightarrow> 0
               | Some order \<Rightarrow>
                   if mpd_cmp M amount (mpd_mul M (o_price order) (m_min_amount m)) < 0 then - 2 else 0)))"

definition market_put_market_order ::
  "('d, 'j) env \<Rightarrow> bool \<Rightarrow> 'd market \<Rightarrow> ('d, 'j) engine \<Rightarrow> u32 \<Rightarrow> u32 \<Rightarrow> 'd \<Rightarrow> 'd \<Rightarrow> string \<Rightarrow>
   ('d market \<times> ('d, 'j) engine \<times> int \<times> 'j option) option" where
  "market_put_market_order E live m S user_id side amount taker_fee source =
     (let ret = market_order_check (mpd E) m (ledger S) user_id side amount in
      if ret < 0 then Some (m, S, ret, None)
      else
        let order = new_order E m S MARKET_ORDER_TYPE_MARKET side user_id amount
              (mpd_zero (mpd E)) taker_fee (mpd_zero (mpd E)) source
        in (case (if side = MARKET_ORDER_SIDE_ASK
                  then Some (execute_market_ask_order E live m order (next_order S))
                  else execute_market_bid_order E live m order (next_order S)) of
              None \<Rightarrow> None
            | Some (m, order, S) \<Rightarrow>
                Some (m, send_order_message E live ORDER_EVENT_FINISH order m
                       (if live then S\<lparr>hist := append_order_history order (hist S)\<rparr> else S),
                     0, if live then Some (get_order_info E order) else None)))"

section \<open>Cancelling and queries\<close>

definition market_cancel_order ::
  "('d, 'j) env \<Rightarrow> bool \<Rightarrow> 'd market \<Rightarrow> ('d, 'j) engine \<Rightarrow> 'd order \<Rightarrow>
   'd market \<times> ('d, 'j) engine \<times> int \<times> 'j option" where
  "market_cancel_order E live m S order =
     (case order_finish E live m order (send_order_message E live ORDER_EVENT_FINISH order m S) of
        (m, S, _) \<Rightarrow> (m, S, 0, if live then Some (get_order_info E order) else None))"

definition market_put_order :: "'d mpd_ops \<Rightarrow> 'd market \<Rightarrow> 'd ledger \<Rightarrow> 'd order \<Rightarrow> 'd market \<times> 'd ledger \<times> int" where
  "market_put_order = order_put"

definition market_get_order :: "'d market \<Rightarrow> u64 \<Rightarrow> 'd order option" where
  "market_get_order m order_id = m_orders m order_id"

definition market_get_order_list :: "'d market \<Rightarrow> u32 \<Rightarrow> u64 list option" where
  "market_get_order_list m user_id = m_users m user_id"

fun sum_left :: "'d mpd_ops \<Rightarrow> (u64 \<rightharpoonup> 'd order) \<Rightarrow> u64 list \<Rightarrow> 'd \<Rightarrow> 'd" where
  "sum_left M objs [] acc = acc"
| "sum_left M objs (node # nodes) acc =
     (case objs node of
        None \<Rightarrow> sum_left M objs nodes acc
      | Some order \<Rightarrow> sum_left M objs nodes (mpd_add M acc (o_left order)))"

definition market_get_status :: "'d mpd_ops \<Rightarrow> 'd market \<Rightarrow> nat \<times> 'd \<times> nat \<times> 'd" where
  "market_get_status M m =
     (length (m_asks m), sum_left M (m_orders m) (m_asks m) (mpd_zero M),
      length (m_bids m), sum_left M (m_orders m) (m_bids m) (mpd_zero M))"

section \<open>What the steps of a deal leave alone\<close>

lemma take_balance_frame [engine_frame]:
  "ledger (take_balance E live order type asset change price amount S) =
     fst (balance_sub (mpd E) (ledger S) (o_user_id order) type asset change)"
  "order_id_start (take_balance E live order type asset change price amount S) = order_id_start S"
  "deals_id_start (take_balance E live order type asset change price amount S) = deals_id_start S"
  by (simp_all add: take_balance_def Let_def)

lemma give_balance_frame [engine_frame]:
  "ledger (give_balance E live order asset change price amount S) =
     fst (balance_add (mpd E) (ledger S) (o_user_id order) BALANCE_TYPE_AVAILABLE asset change)"
  "order_id_start (give_balance E live order asset change price amount S) = order_id_start S"
  "deals_id_start (give_balance E live order asset change price amount S) = deals_id_start S"
  by (simp_all add: give_balance_def Let_def)

lemma charge_fee_frame [engine_frame]:
  "ledger (charge_fee E live order asset fee price amount rate S) =
     (if mpd_cmp (mpd E) fee (mpd_zero (mpd E)) > 0
      then fst (balance_sub (mpd E) (ledger S) (o_user_id order) BALANCE_TYPE_AVAILABLE asset fee)
      else ledger S)"
  "order_id_start (charge_fee E live order asset fee price amount rate S) = order_id_start S"
  "deals_id_start (charge_fee E live order asset fee price amount rate S) = deals_id_start S"
  by (simp_all add: charge_fee_def Let_def)

lemma send_order_message_frame [engine_frame]:
  "ledger (send_order_message E live event order m S) = ledger S"
  "order_id_start (send_order_message E live event order m S) = order_id_start S"
  "deals_id_start (send_order_message E live event order m S) = deals_id_start S"
  by (simp_all add: send_order_message_def)

lemma record_deal_frame [engine_frame]:
  "ledger (record_deal E live m t deal_id ask ask_role bid bid_role price amount deal ask_fee bid_fee side S) = ledger S"
  "order_id_start (record_deal E live m t deal_id ask ask_role bid bid_role price amount deal ask_fee bid_fee side S) =
     order_id_start S"
  "deals_id_start (record_deal E live m t deal_id ask ask_role bid bid_role price amount deal ask_fee bid_fee side S) =
     deals_id_start S"
  by (simp_all add: record_deal_def)

lemma next_deal_frame [engine_frame]:
  "ledger (next_deal S) = ledger S" "order_id_start (next_deal S) = order_id_start S"
  "deals_id_start (next_deal S) = deals_id_start S + 1"
  by (simp_all add: next_deal_def)

lemma next_order_frame [engine_frame]:
  "ledger (next_order S) = ledger S" "order_id_start (next_order S) = order_id_start S + 1"
  "deals_id_start (next_order S) = deals_id_start S"
  by (simp_all add: next_order_def)

lemma settle_frame [engine_frame]:
  "order_id_start (settle_ask E live m taker maker price amount deal ask_fee bid_fee S) = order_id_start S"
  "deals_id_start (settle_ask E live m taker maker price amount deal ask_fee bid_fee S) = deals_id_start S"
  "order_id_start (settle_bid E live m taker maker price amount deal ask_fee bid_fee S) = order_id_start S"
  "deals_id_start (settle_bid E live m taker maker price amount deal ask_fee bid_fee S) = deals_id_start S"
  by (simp_all add: settle_ask_def settle_bid_def engine_frame)

lemma stamp_simps [order_simps]:
  "o_id (stamp E S order) = o_id order" "o_type (stamp E S order) = o_type order"
  "o_side (stamp E S order) = o_side order" "o_user_id (stamp E S order) = o_user_id order"
  "o_price (stamp E S order) = o_price order" "o_left (stamp E S order) = o_left order"
  "o_freeze (stamp E S order) = o_freeze order" "o_amount (stamp E S order) = o_amount order"
  "o_taker_fee (stamp E S order) = o_taker_fee order" "o_maker_fee (stamp E S order) = o_maker_fee order"
  "o_deal_stock (stamp E S order) = o_deal_stock order" "o_deal_money (stamp E S order) = o_deal_money order"
  "o_deal_fee (stamp E S order) = o_deal_fee order"
  by (simp_all add: stamp_def)

lemma fill_taker_simps [order_simps]:
  "o_id (fill_taker M used amount deal fee order) = o_id order"
  "o_type (fill_taker M used amount deal fee order) = o_type order"
  "o_side (fill_taker M used amount deal fee order) = o_side order"
  "o_user_id (fill_taker M used amount deal fee order) = o_user_id order"
  "o_price (fill_taker M used amount deal fee order) = o_price order"
  "o_amount (fill_taker M used amount deal fee order) = o_amount order"
  "o_taker_fee (fill_taker M used amount deal fee order) = o_taker_fee order"
  "o_maker_fee (fill_taker M used amount deal fee order) = o_maker_fee order"
  "o_freeze (fill_taker M used amount deal fee order) = o_freeze order"
  "o_left (fill_taker M used amount deal fee order) = mpd_sub M (o_left order) used"
  "o_deal_stock (fill_taker M used amount deal fee order) = mpd_add M (o_deal_stock order) amount"
  by (simp_all add: fill_taker_def)

lemma fill_maker_simps [order_simps]:
  "o_id (fill_maker M unfrozen amount deal fee order) = o_id order"
  "o_type (fill_maker M unfrozen amount deal fee order) = o_type order"
  "o_side (fill_maker M unfrozen amount deal fee order) = o_side order"
  "o_user_id (fill_maker M unfrozen amount deal fee order) = o_user_id order"
  "o_price (fill_maker M unfrozen amount deal fee order) = o_price order"
  "o_amount (fill_maker M unfrozen amount deal fee order) = o_amount order"
  "o_taker_fee (fill_maker M unfrozen amount deal fee order) = o_taker_fee order"
  "o_maker_fee (fill_maker M unfrozen amount deal fee order) = o_maker_fee order"
  "o_freeze (fill_maker M unfrozen amount deal fee order) = mpd_sub M (o_freeze order) unfrozen"
  "o_left (fill_maker M unfrozen amount deal fee order) = mpd_sub M (o_left order) amount"
  "o_deal_stock (fill_maker M unfrozen amount deal fee order) = mpd_add M (o_deal_stock order) amount"
  by (simp_all add: fill_maker_def)

end
