(* ===== verification/Funds.thy ===== *)
theory Funds
  imports Matching
begin

text \<open>
  The balance operations of a deal as arithmetic. A ledger denotes the function \<open>bal val L\<close>
  from entries to numbers; each operation of a deal is a \<open>credit\<close> (possibly negative) to one
  entry, and the two parties of a deal are settled by two applications of one lemma.
\<close>

section \<open>Credits\<close>

definition credit :: "('k \<Rightarrow> rat) \<Rightarrow> 'k \<Rightarrow> rat \<Rightarrow> 'k \<Rightarrow> rat" where
  "credit f k x = f(k := f k + x)"

lemma credit_apply: "credit f k x j = (if j = k then f k + x else f j)"
  by (simp add: credit_def)

lemma credit_credit: "credit (credit f k x) k y = credit f k (x + y)"
  by (simp add: credit_def fun_eq_iff add.assoc)

lemma credit_support: "finite {j. f j \<noteq> 0} \<Longrightarrow> finite {j. credit f k x j \<noteq> 0}"
  by (rule finite_subset [of _ "insert k {j. f j \<noteq> 0}"]) (auto simp: credit_def)

lemma supply_credit:
  "finite {j. f j \<noteq> 0} \<Longrightarrow> supply_of (credit f k x) a = supply_of f a + (if snd (snd k) = a then x else 0)"
  unfolding credit_def by (subst supply_of_upd) auto

text \<open>Two different entries of an asset together do not exceed its supply.\<close>

lemma supply_ge_two:
  assumes "finite {j. f j \<noteq> 0}" "\<And>j. 0 \<le> f j" "snd (snd k) = a" "snd (snd l) = a" "k \<noteq> l"
  shows "f k + f l \<le> supply_of f a"
proof -
  have "(credit f k (- f k)) l \<le> supply_of (credit f k (- f k)) a"
    using assms by (intro supply_of_ge credit_support) (auto simp: credit_apply)
  then show ?thesis using assms by (simp add: supply_credit credit_apply)
qed

text \<open>\<open>charge p x\<close>: what an account with \<open>p\<close> decimals loses when \<open>x\<close> is taken from it.\<close>

definition charge :: "int \<Rightarrow> rat \<Rightarrow> rat" where
  "charge p x = of_int \<lceil>x * 10 ^ nat p\<rceil> / 10 ^ nat p"

lemma charge_bounds: "x \<le> charge p x \<and> charge p x < x + 1 / 10 ^ nat p"
proof -
  have "x * 10 ^ nat p \<le> of_int \<lceil>x * 10 ^ nat p\<rceil>" by simp
  then have 1: "x \<le> charge p x" unfolding charge_def by (simp add: pos_le_divide_eq)
  have "of_int \<lceil>x * 10 ^ nat p\<rceil> < x * 10 ^ nat p + (1::rat)" by linarith
  then have "charge p x < (x * 10 ^ nat p + 1) / 10 ^ nat p"
    unfolding charge_def by (intro divide_strict_right_mono) auto
  also have "\<dots> = x + 1 / 10 ^ nat p" by (simp add: add_divide_distrib)
  finally show ?thesis using 1 by simp
qed

lemma charge_0 [simp]: "charge p 0 = 0"
  by (simp add: charge_def)

lemma charge_id:
  assumes "on_grid p x"
  shows "charge p x = x"
proof -
  from assms obtain k :: int where k: "x * 10 ^ nat p = of_int k" by (auto simp: on_grid_def)
  have "charge p x = (x * 10 ^ nat p) / 10 ^ nat p" unfolding charge_def k by simp
  then show ?thesis by simp
qed

lemma charge_nonneg: "0 \<le> x \<Longrightarrow> 0 \<le> charge p x"
  using charge_bounds [of x p] by linarith

lemma charge_le:
  assumes "on_grid p y" "x \<le> y"
  shows "charge p x \<le> y"
proof -
  from assms(1) obtain k :: int where k: "y * 10 ^ nat p = of_int k" by (auto simp: on_grid_def)
  have "x * 10 ^ nat p \<le> y * 10 ^ nat p" using assms(2) by (intro mult_right_mono) auto
  then have "\<lceil>x * 10 ^ nat p\<rceil> \<le> k" unfolding k by (simp add: ceiling_le_iff)
  then have "of_int \<lceil>x * 10 ^ nat p\<rceil> \<le> (of_int k :: rat)" by simp
  then have "of_int \<lceil>x * 10 ^ nat p\<rceil> \<le> y * 10 ^ nat p" by (simp only: k)
  then show ?thesis unfolding charge_def by (simp add: pos_divide_le_eq)
qed

lemma trunc_sub:
  assumes "on_grid p b" "x \<le> b"
  shows "trunc_to p (b - x) = b - charge p x"
proof (cases "b - x = 0")
  case True
  then show ?thesis using charge_id [OF assms(1)] by simp
next
  case False
  then have pos: "sgn (b - x) = 1" "\<bar>b - x\<bar> = b - x" using assms(2) by auto
  from assms(1) obtain k :: int where k: "b * 10 ^ nat p = of_int k" by (auto simp: on_grid_def)
  have "(b - x) * 10 ^ nat p = of_int k - x * 10 ^ nat p" by (simp add: left_diff_distrib k)
  then have "\<lfloor>(b - x) * 10 ^ nat p\<rfloor> = k - \<lceil>x * 10 ^ nat p\<rceil>" by (simp add: floor_diff_of_int ceiling_def) linarith
  then have "trunc_to p (b - x) = (of_int k - of_int \<lceil>x * 10 ^ nat p\<rceil>) / 10 ^ nat p"
    unfolding trunc_to_def pos by simp
  also have "\<dots> = b - charge p x" unfolding charge_def by (simp add: diff_divide_distrib k [symmetric])
  finally show ?thesis .
qed

section \<open>One party of a deal\<close>

text \<open>The balance operations without history: what \<open>ledger\<close> sees of a settlement.\<close>

definition settle_party ::
  "'d mpd_ops \<Rightarrow> u32 \<Rightarrow> u32 \<Rightarrow> string \<Rightarrow> 'd \<Rightarrow> string \<Rightarrow> 'd \<Rightarrow> 'd \<Rightarrow> 'd ledger \<Rightarrow> 'd ledger" where
  "settle_party M user type paid x got y fee L =
     (let L = fst (balance_add M (fst (balance_sub M L user type paid x)) user BALANCE_TYPE_AVAILABLE got y)
      in if mpd_cmp M fee (mpd_zero M) > 0
         then fst (balance_sub M L user BALANCE_TYPE_AVAILABLE got fee) else L)"

lemma ledger_settle:
  "ledger (settle_ask E live m taker maker price amount deal ask_fee bid_fee S) =
     settle_party (mpd E) (o_user_id maker) BALANCE_TYPE_FREEZE (m_money m) deal (m_stock m) amount bid_fee
    (settle_party (mpd E) (o_user_id taker) BALANCE_TYPE_AVAILABLE (m_stock m) amount (m_money m) deal ask_fee (ledger S))"
  "ledger (settle_bid E live m taker maker price amount deal ask_fee bid_fee S) =
     settle_party (mpd E) (o_user_id maker) BALANCE_TYPE_FREEZE (m_stock m) amount (m_money m) deal ask_fee
    (settle_party (mpd E) (o_user_id taker) BALANCE_TYPE_AVAILABLE (m_money m) deal (m_stock m) amount bid_fee (ledger S))"
  by (simp_all add: settle_ask_def settle_bid_def settle_party_def engine_frame Let_def)

context mpd_lib
begin

lemma sub_credit:
  assumes ok: "ledger_ok fin val L" and a: "dict_asset L a = Some aty"
    and x: "fin x" "0 < val x" "val x \<le> bal val L (u, t, a)" "on_grid q (val x)"
    and q: "prec_save aty \<le> q" "q \<le> 6176" "bal val L (u, t, a) \<le> C" "C * 10 ^ nat q < 10 ^ 34"
  shows "\<exists>L' r. balance_sub M L u t a x = (L', Some r) \<and> ledger_ok fin val L' \<and>
    dict_asset L' = dict_asset L \<and> bal val L' = credit (bal val L) (u, t, a) (- charge (prec_save aty) (val x))"
proof -
  note p = ledger_ok_prec [OF ok a] and g = ledger_ok_grid [OF ok a, of u t]
  have d: "0 \<le> bal val L (u, t, a) - val x" "bal val L (u, t, a) - val x \<le> C" using x q by auto
  have "(bal val L (u, t, a) - val x) * 10 ^ nat q \<le> C * 10 ^ nat q"
    using d(2) by (intro mult_right_mono) auto
  then have "(bal val L (u, t, a) - val x) * 10 ^ nat q < 10 ^ 34" using q(4) by (rule order.strict_trans1)
  then have "fits q (bal val L (u, t, a) - val x)"
    using d(1) p q(1,2) by (intro fitsI on_grid_diff on_grid_mono [OF g q(1)] x(4)) auto
  from balance_sub_ok [OF ok a x(1-3) this q(1)] show ?thesis
    by (simp add: trunc_sub [OF g x(3)] credit_def)
qed

lemma add_credit:
  assumes ok: "ledger_ok fin val L" and a: "dict_asset L a = Some aty"
    and x: "fin x" "0 \<le> val x" "on_grid (prec_save aty) (val x)"
    and q: "prec_save aty \<le> q" "bal val L (u, t, a) + val x \<le> C" "C * 10 ^ nat q < 10 ^ 34"
  shows "\<exists>L' r. balance_add M L u t a x = (L', Some r) \<and> ledger_ok fin val L' \<and>
    dict_asset L' = dict_asset L \<and> bal val L' = credit (bal val L) (u, t, a) (val x)"
proof -
  note p = ledger_ok_prec [OF ok a]
  have nn: "0 \<le> bal val L (u, t, a)" by (rule ledger_ok_nonneg [OF ok])
  have "(10::rat) ^ nat (prec_save aty) \<le> 10 ^ nat q" using q(1) by (intro power_increasing) auto
  then have "(bal val L (u, t, a) + val x) * 10 ^ nat (prec_save aty) \<le> C * 10 ^ nat q"
    using q(2) nn x(2) by (intro mult_mono) auto
  then have "(bal val L (u, t, a) + val x) * 10 ^ nat (prec_save aty) < 10 ^ 34" using q(3) by (rule order.strict_trans1)
  from balance_add_ok [OF ok a x this] show ?thesis by (simp add: credit_def)
qed

lemma settle_party_ok:
  assumes ok: "ledger_ok fin val L" and ab: "a \<noteq> b" and a: "dict_asset L a = Some aty" and b: "dict_asset L b = Some bty"
    and x: "fin x" "0 < val x" "val x \<le> bal val L (u, t, a)" "on_grid (prec_save aty) (val x)"
    and y: "fin y" "0 < val y" "on_grid (prec_save bty) (val y)"
    and z: "fin z" "0 \<le> val z" "val z \<le> val y" "on_grid q (val z)"
    and q: "prec_save aty \<le> q" "prec_save bty \<le> q" "q \<le> 6176"
    and Ca: "bal val L (u, t, a) \<le> Ca" "Ca * 10 ^ nat q < 10 ^ 34"
    and Cb: "bal val L (u, BALANCE_TYPE_AVAILABLE, b) + val y \<le> Cb" "Cb * 10 ^ nat q < 10 ^ 34"
  shows "ledger_ok fin val (settle_party M u t a x b y z L) \<and>
    dict_asset (settle_party M u t a x b y z L) = dict_asset L \<and>
    bal val (settle_party M u t a x b y z L) =
      credit (credit (bal val L) (u, t, a) (- val x)) (u, BALANCE_TYPE_AVAILABLE, b)
        (val y - charge (prec_save bty) (val z))"
proof -
  note p = ledger_ok_prec [OF ok a] ledger_ok_prec [OF ok b]
  let ?k = "(u, t, a)" and ?l = "(u, BALANCE_TYPE_AVAILABLE, b)"
  from sub_credit [OF ok a x(1-3) on_grid_mono [OF x(4) q(1)] q(1,3) Ca] obtain L1 r1
    where 1: "balance_sub M L u t a x = (L1, Some r1)" "ledger_ok fin val L1" "dict_asset L1 = dict_asset L"
      "bal val L1 = credit (bal val L) ?k (- val x)" by (auto simp: charge_id [OF x(4)])
  have "bal val L1 ?l + val y \<le> Cb" using 1(4) ab Cb(1) by (simp add: credit_apply)
  from add_credit [OF 1(2) _ y(1) _ y(3) q(2) this Cb(2)] b 1(3) y(2) obtain L2 r2
    where 2: "balance_add M L1 u BALANCE_TYPE_AVAILABLE b y = (L2, Some r2)" "ledger_ok fin val L2"
      "dict_asset L2 = dict_asset L" "bal val L2 = credit (bal val L1) ?l (val y)" by auto
  have l2: "bal val L2 ?l = bal val L ?l + val y" using 2(4) 1(4) ab by (simp add: credit_apply)
  have zc: "mpd_cmp M z (mpd_zero M) > 0 \<longleftrightarrow> val z > 0" using z(1) by (simp add: cmp)
  show ?thesis
  proof (cases "val z > 0")
    case False
    then have "val z = 0" using z(2) by simp
    then show ?thesis using 1 2 zc by (simp add: settle_party_def)
  next
    case True
    have "val z \<le> bal val L2 ?l" using l2 z(3) ledger_ok_nonneg [OF ok, of ?l] by linarith
    from sub_credit [OF 2(2) _ z(1) True this z(4) q(2,3) _ Cb(2)] b 2(3) Cb(1) l2 obtain L3 r3
      where 3: "balance_sub M L2 u BALANCE_TYPE_AVAILABLE b z = (L3, Some r3)" "ledger_ok fin val L3"
        "dict_asset L3 = dict_asset L" "bal val L3 = credit (bal val L2) ?l (- charge (prec_save bty) (val z))" by auto
    then show ?thesis using 1 2 zc True by (simp add: settle_party_def credit_credit)
  qed
qed

end

end
