(* ===== verification/Book.thy ===== *)
theory Book
  imports Funds
begin

text \<open>
  The structure of a market: every open order is in the dictionary, in exactly one book at the
  place price and time give it, and in its user's list; and the operations that put an order in
  and take it out keep it so.
\<close>

section \<open>The invariant\<close>

definition side_ids :: "(u64 \<rightharpoonup> 'd order) \<Rightarrow> u32 \<Rightarrow> u64 set" where
  "side_ids objs side = {i. \<exists>order. objs i = Some order \<and> o_side order = side}"

definition user_ids :: "(u64 \<rightharpoonup> 'd order) \<Rightarrow> u32 \<Rightarrow> u64 set" where
  "user_ids objs user = {i. \<exists>order. objs i = Some order \<and> o_user_id order = user}"

definition user_list :: "'d market \<Rightarrow> u32 \<Rightarrow> u64 list" where
  "user_list m user = (case m_users m user of None \<Rightarrow> [] | Some order_list \<Rightarrow> order_list)"

text \<open>\<open>key_ok fin i order\<close>: an open order under the id \<open>i\<close>.\<close>

definition key_ok :: "('d \<Rightarrow> bool) \<Rightarrow> u64 \<Rightarrow> 'd order \<Rightarrow> bool" where
  "key_ok fin i order \<longleftrightarrow> o_id order = i \<and> o_type order = MARKET_ORDER_TYPE_LIMIT \<and>
     (o_side order = MARKET_ORDER_SIDE_ASK \<or> o_side order = MARKET_ORDER_SIDE_BID) \<and> fin (o_price order)"

definition orders_ok :: "('d \<Rightarrow> bool) \<Rightarrow> (u64 \<rightharpoonup> 'd order) \<Rightarrow> bool" where
  "orders_ok fin objs \<longleftrightarrow> finite (dom objs) \<and> (\<forall>i order. objs i = Some order \<longrightarrow> key_ok fin i order)"

definition book_sorted :: "'d mpd_ops \<Rightarrow> (u64 \<rightharpoonup> 'd order) \<Rightarrow> u32 \<Rightarrow> u64 list \<Rightarrow> bool" where
  "book_sorted M objs side ids \<longleftrightarrow>
     set ids = side_ids objs side \<and> sorted_wrt (\<lambda>i j. book_compare M objs i j < 0) ids"

definition struct_ok :: "'d mpd_ops \<Rightarrow> ('d \<Rightarrow> bool) \<Rightarrow> 'd market \<Rightarrow> bool" where
  "struct_ok M fin m \<longleftrightarrow>
     orders_ok fin (m_orders m) \<and>
     book_sorted M (m_orders m) MARKET_ORDER_SIDE_ASK (m_asks m) \<and>
     book_sorted M (m_orders m) MARKET_ORDER_SIDE_BID (m_bids m) \<and>
     (\<forall>u. set (user_list m u) = user_ids (m_orders m) u \<and>
        sorted_wrt (\<lambda>i j. order_id_compare i j < 0) (user_list m u))"

lemma sides_differ: "MARKET_ORDER_SIDE_ASK \<noteq> MARKET_ORDER_SIDE_BID"
  by (simp add: MARKET_ORDER_SIDE_ASK_def MARKET_ORDER_SIDE_BID_def)

lemma orders_okD:
  "orders_ok fin objs \<Longrightarrow> objs i = Some order \<Longrightarrow> key_ok fin i order"
  by (simp add: orders_ok_def)

text \<open>The users' lists: newest order first.\<close>

interpretation ids: comparison order_id_compare UNIV
  by unfold_locales (auto simp: order_id_compare_def split: if_splits)

section \<open>The order of the books\<close>

context mpd_lib
begin

lemma book_comparison:
  assumes "orders_ok fin objs"
  shows "comparison (book_compare M objs) (side_ids objs side)"
proof -
  have cmp': "book_compare M objs i j =
      (if i = j then 0
       else let c = (if side = MARKET_ORDER_SIDE_ASK then mpd_cmp M (o_price (the (objs i))) (o_price (the (objs j)))
              else mpd_cmp M (o_price (the (objs j))) (o_price (the (objs i))))
        in if c \<noteq> 0 then c else if i > j then 1 else - 1)"
    and fp: "fin (o_price (the (objs i)))" "fin (o_price (the (objs j)))"
    if "i \<in> side_ids objs side" "j \<in> side_ids objs side" for i j
    using that assms
    by (auto simp: side_ids_def book_compare_def order_match_compare_def orders_ok_def key_ok_def Let_def)
  have neg: "mpd_cmp M x y < 0 \<longleftrightarrow> mpd_cmp M y x > 0" if "fin x" "fin y" for x y
    using that cmp by simp
  have tr: "val x < val z" if "mpd_cmp M x y < 0" "mpd_cmp M y z \<le> 0" "fin x" "fin y" "fin z" for x y z
    using that cmp by auto
  show ?thesis
  proof
    fix x y z
    assume x: "x \<in> side_ids objs side" and y: "y \<in> side_ids objs side"
    show "(book_compare M objs x y < 0) = (0 < book_compare M objs y x)"
      using cmp' [OF x y] cmp' [OF y x] fp [OF x y] by (auto simp: Let_def cmp)
    show "book_compare M objs x y = 0 \<Longrightarrow> x = y"
      using cmp' [OF x y] by (auto simp: Let_def split: if_splits)
    assume z: "z \<in> side_ids objs side"
    show "book_compare M objs x y < 0 \<Longrightarrow> book_compare M objs y z < 0 \<Longrightarrow> book_compare M objs x z < 0"
      using cmp' [OF x y] cmp' [OF y z] cmp' [OF x z] fp [OF x y] fp [OF y z]
      by (auto simp: Let_def cmp split: if_splits)
  next
    fix x
    assume "x \<in> side_ids objs side"
    then show "book_compare M objs x x = 0" using cmp' by simp
  qed
qed

lemma book_sorted_ordered:
  assumes "orders_ok fin objs" "book_sorted M objs side ids"
  shows "comparison.ordered (book_compare M objs) (side_ids objs side) ids"
  using assms by (simp add: comparison.ordered_def [OF book_comparison] book_sorted_def)

text \<open>Better price first, and the older order first among equal prices.\<close>

lemma book_compare_ask:
  assumes "orders_ok fin objs" "objs i = Some a" "objs j = Some b" "i \<noteq> j" "o_side a = MARKET_ORDER_SIDE_ASK"
  shows "book_compare M objs i j < 0 \<longleftrightarrow> val (o_price a) < val (o_price b) \<or> (val (o_price a) = val (o_price b) \<and> i < j)"
  using assms orders_okD [OF assms(1,2)] orders_okD [OF assms(1,3)]
  by (auto simp: book_compare_def order_match_compare_def key_ok_def Let_def cmp)

lemma book_compare_bid:
  assumes "orders_ok fin objs" "objs i = Some a" "objs j = Some b" "i \<noteq> j" "o_side a = MARKET_ORDER_SIDE_BID"
  shows "book_compare M objs i j < 0 \<longleftrightarrow> val (o_price b) < val (o_price a) \<or> (val (o_price a) = val (o_price b) \<and> i < j)"
  using assms orders_okD [OF assms(1,2)] orders_okD [OF assms(1,3)] sides_differ
  by (auto simp: book_compare_def order_match_compare_def key_ok_def Let_def cmp)

end

text \<open>The comparison only looks at what never changes in an open order.\<close>

definition same_key :: "'d order \<Rightarrow> 'd order \<Rightarrow> bool" where
  "same_key order order' \<longleftrightarrow> o_id order' = o_id order \<and> o_type order' = o_type order \<and>
     o_side order' = o_side order \<and> o_price order' = o_price order \<and> o_user_id order' = o_user_id order"

lemma book_compare_upd:
  assumes "objs i = Some order" "same_key order order'"
  shows "book_compare M (objs(i \<mapsto> order')) = book_compare M objs"
  using assms by (auto simp: fun_eq_iff book_compare_def order_match_compare_def same_key_def split: option.split)

lemma side_ids_upd:
  assumes "objs i = Some order" "same_key order order'"
  shows "side_ids (objs(i \<mapsto> order')) side = side_ids objs side" "user_ids (objs(i \<mapsto> order')) u = user_ids objs u"
  using assms by (auto simp: side_ids_def user_ids_def same_key_def)

lemma side_ids_del: "side_ids (objs(i := None)) side = side_ids objs side - {i}"
  "user_ids (objs(i := None)) u = user_ids objs u - {i}"
  by (auto simp: side_ids_def user_ids_def)

lemma side_ids_new: "side_ids (objs(i \<mapsto> order)) side =
    (if o_side order = side then insert i (side_ids objs side) else side_ids objs side - {i})"
  "user_ids (objs(i \<mapsto> order)) u =
    (if o_user_id order = u then insert i (user_ids objs u) else user_ids objs u - {i})"
  by (auto simp: side_ids_def user_ids_def split: if_splits)

lemma sorted_wrt_book_cong:
  assumes "\<And>i j. i \<in> set ids \<Longrightarrow> j \<in> set ids \<Longrightarrow> book_compare M objs' i j = book_compare M objs i j"
  shows "sorted_wrt (\<lambda>i j. book_compare M objs' i j < 0) ids = sorted_wrt (\<lambda>i j. book_compare M objs i j < 0) ids"
  using assms by (induction ids) auto

lemma book_compare_other:
  "i \<noteq> k \<Longrightarrow> j \<noteq> k \<Longrightarrow> book_compare M (objs(k := x)) i j = book_compare M objs i j"
  by (simp add: book_compare_def cong: option.case_cong)

lemma sorted_book_other:
  "k \<notin> set ids \<Longrightarrow> sorted_wrt (\<lambda>i j. book_compare M (objs(k := x)) i j < 0) ids =
     sorted_wrt (\<lambda>i j. book_compare M objs i j < 0) ids"
  by (rule sorted_wrt_book_cong) (metis book_compare_other)

lemma sorted_wrt_remove1: "sorted_wrt P xs \<Longrightarrow> sorted_wrt P (remove1 x xs)"
  by (induction xs) (auto dest: set_remove1_subset [THEN subsetD])

section \<open>Changing the objects\<close>

lemma struct_ok_update:
  assumes ok: "struct_ok M fin m" and i: "m_orders m i = Some order" and k: "same_key order order'"
  shows "struct_ok M fin (m\<lparr>m_orders := (m_orders m)(i \<mapsto> order')\<rparr>)"
proof -
  have "orders_ok fin ((m_orders m)(i \<mapsto> order'))"
    using ok i k by (auto simp: struct_ok_def orders_ok_def key_ok_def same_key_def)
  then show ?thesis
    using ok by (auto simp: struct_ok_def book_sorted_def book_compare_upd [of "m_orders m", OF i k] side_ids_upd [of "m_orders m", OF i k] user_list_def)
qed

section \<open>Taking an order out\<close>

lemma sorted_wrt_distinct: "sorted_wrt P xs \<Longrightarrow> (\<And>x. x \<in> set xs \<Longrightarrow> \<not> P x x) \<Longrightarrow> distinct xs"
  by (induction xs) auto

lemma book_compare_refl: "book_compare M objs i i = 0"
  by (auto simp: book_compare_def order_match_compare_def split: option.splits)

lemma book_sorted_distinct: "book_sorted M objs side ids \<Longrightarrow> distinct ids"
  unfolding book_sorted_def by (auto intro!: sorted_wrt_distinct simp: book_compare_refl)

lemma book_sorted_remove:
  assumes "book_sorted M objs side ids"
  shows "book_sorted M (objs(i := None)) side (remove1 i ids)"
proof -
  note d = book_sorted_distinct [OF assms]
  have s: "set (remove1 i ids) = side_ids objs side - {i}"
    using assms d by (simp add: book_sorted_def)
  moreover have "sorted_wrt (\<lambda>j k. book_compare M (objs(i := None)) j k < 0) (remove1 i ids)"
    using assms s by (subst sorted_wrt_book_cong [where objs = objs])
      (auto simp: book_compare_other book_sorted_def intro: sorted_wrt_remove1)
  ultimately show ?thesis by (simp add: book_sorted_def side_ids_del)
qed

text \<open>The market without one order.\<close>

definition without :: "'d market \<Rightarrow> 'd order \<Rightarrow> 'd market" where
  "without m order = m\<lparr>m_orders := (m_orders m)(o_id order := None),
     m_asks := remove1 (o_id order) (m_asks m), m_bids := remove1 (o_id order) (m_bids m),
     m_users := (case m_users m (o_user_id order) of None \<Rightarrow> m_users m
       | Some order_list \<Rightarrow> (m_users m)(o_user_id order \<mapsto> remove1 (o_id order) order_list))\<rparr>"

lemma user_list_without:
  "user_list (without m order) u =
     (if u = o_user_id order then remove1 (o_id order) (user_list m u) else user_list m u)"
  by (auto simp: user_list_def without_def split: option.splits)

lemma struct_ok_without:
  assumes ok: "struct_ok M fin m" and i: "m_orders m (o_id order) = Some order"
  shows "struct_ok M fin (without m order)"
proof -
  have "orders_ok fin ((m_orders m)(o_id order := None))"
    using ok by (auto simp: struct_ok_def orders_ok_def)
  moreover have "set (user_list (without m order) u) = user_ids ((m_orders m)(o_id order := None)) u \<and>
      sorted_wrt (\<lambda>i j. order_id_compare i j < 0) (user_list (without m order) u)" for u
  proof -
    have u: "set (user_list m u) = user_ids (m_orders m) u"
      "sorted_wrt (\<lambda>i j. order_id_compare i j < 0) (user_list m u)"
      using ok by (auto simp: struct_ok_def)
    moreover from this have "distinct (user_list m u)"
      by (intro sorted_wrt_distinct) (auto simp: order_id_compare_def)
    moreover have "o_id order \<notin> user_ids (m_orders m) u" if "u \<noteq> o_user_id order"
      using that i by (auto simp: user_ids_def)
    ultimately show ?thesis
      by (auto simp: user_list_without side_ids_del intro: sorted_wrt_remove1)
  qed
  ultimately show ?thesis
    using ok by (simp add: struct_ok_def without_def book_sorted_remove)
qed

context mpd_lib
begin

lemma leave_book_eq:
  assumes "orders_ok fin objs" "book_sorted M objs side ids" "objs i = Some order"
  shows "leave_book M objs i ids = remove1 i ids"
proof (cases "o_side order = side")
  case True
  then have i: "i \<in> side_ids objs side" using assms(3) by (simp add: side_ids_def)
  then have "i \<in> set ids" using assms(2) by (simp add: book_sorted_def)
  then have "slist_find (book_compare M objs) i ids = Some i"
    using comparison.slist_find_iff [OF book_comparison [OF assms(1)] book_sorted_ordered [OF assms(1,2)] i] by simp
  then show ?thesis by (simp add: leave_book_def slist_delete_def)
next
  case False
  have "i \<notin> set ids" using False assms(2,3) by (auto simp: book_sorted_def side_ids_def)
  moreover have "slist_find (book_compare M objs) i ids = None"
  proof (rule ccontr)
    assume "\<not> ?thesis"
    then obtain l where l: "l \<in> set ids" "book_compare M objs l i = 0"
      by (auto simp: slist_find_def Let_def split: if_splits)
        (metis last_in_set set_takeWhileD)
    then have "l \<noteq> i" using \<open>i \<notin> set ids\<close> by auto
    then show False
      using l assms orders_okD [OF assms(1,3)] orders_okD [OF assms(1), of l]
      by (auto simp: book_sorted_def side_ids_def book_compare_def order_match_compare_def key_ok_def Let_def
          split: if_splits option.splits)
  qed
  ultimately show ?thesis by (simp add: leave_book_def remove1_idem)
qed

lemma order_finish_struct:
  assumes ok: "struct_ok M fin m" and i: "m_orders m (o_id order) = Some order"
    and rel: "release_freeze M order (if o_side order = MARKET_ORDER_SIDE_ASK then m_stock m else m_money m) (ledger S) = Some L"
    and E: "mpd E = M"
  shows "\<exists>S'. order_finish E live m order S = (without m order, S', 0) \<and> ledger S' = L \<and>
    order_id_start S' = order_id_start S \<and> deals_id_start S' = deals_id_start S"
proof -
  have oo: "orders_ok fin (m_orders m)" and b: "book_sorted M (m_orders m) MARKET_ORDER_SIDE_ASK (m_asks m)"
    "book_sorted M (m_orders m) MARKET_ORDER_SIDE_BID (m_bids m)"
    using ok by (auto simp: struct_ok_def)
  have u: "o_id order \<in> set (user_list m (o_user_id order))"
    using ok i by (auto simp: struct_ok_def user_ids_def)
  obtain l where l1: "m_users m (o_user_id order) = Some l"
    using u by (cases "m_users m (o_user_id order)") (auto simp: user_list_def)
  then have l: "m_users m (o_user_id order) = Some l" "user_list m (o_user_id order) = l"
    by (auto simp: user_list_def)
  have "sorted_wrt (\<lambda>i j. order_id_compare i j < 0) l" using ok l(2) by (auto simp: struct_ok_def)
  then have "slist_find order_id_compare (o_id order) l = Some (o_id order)"
    using ids.slist_find_iff [of l "o_id order"] u l(2) by (simp add: ids.ordered_def)
  then have du: "(case slist_find order_id_compare (o_id order) l of Some node \<Rightarrow> slist_delete node l | None \<Rightarrow> l) =
      remove1 (o_id order) l" by (simp add: slist_delete_def)
  have other: "o_side order = MARKET_ORDER_SIDE_ASK \<Longrightarrow> o_id order \<notin> set (m_bids m)"
    "o_side order \<noteq> MARKET_ORDER_SIDE_ASK \<Longrightarrow> o_id order \<notin> set (m_asks m)"
    using b i sides_differ by (auto simp: book_sorted_def side_ids_def)
  have m': "drop_order (if o_side order = MARKET_ORDER_SIDE_ASK
        then m\<lparr>m_asks := leave_book M (m_orders m) (o_id order) (m_asks m)\<rparr>
        else m\<lparr>m_bids := leave_book M (m_orders m) (o_id order) (m_bids m)\<rparr>) order = without m order"
    using other
    by (simp add: drop_order_def without_def l du leave_book_eq [OF oo b(1) i] leave_book_eq [OF oo b(2) i] remove1_idem)
  show ?thesis
    using rel m' by (cases "o_side order = MARKET_ORDER_SIDE_ASK") (auto simp: order_finish_def E Let_def)
qed

end

section \<open>Putting an order in\<close>

text \<open>\<open>same_config m m'\<close>: an operation leaves what was configured alone.\<close>

definition same_config :: "'d market \<Rightarrow> 'd market \<Rightarrow> bool" where
  "same_config m m' \<longleftrightarrow> m_name m' = m_name m \<and> m_stock m' = m_stock m \<and> m_money m' = m_money m \<and>
     m_stock_prec m' = m_stock_prec m \<and> m_money_prec m' = m_money_prec m \<and> m_fee_prec m' = m_fee_prec m \<and>
     m_min_amount m' = m_min_amount m"

text \<open>The object as \<^verbatim>\<open>order_put\<close> leaves it.\<close>

definition put_freeze :: "'d mpd_ops \<Rightarrow> 'd order \<Rightarrow> 'd" where
  "put_freeze M order = (if o_side order = MARKET_ORDER_SIDE_ASK then o_left order
     else mpd_mul M (o_price order) (o_left order))"

lemma same_config_refl: "same_config m m"
  by (simp add: same_config_def)

lemma same_config_trans: "same_config m m' \<Longrightarrow> same_config m' m'' \<Longrightarrow> same_config m m''"
  by (simp add: same_config_def)

lemma same_config_without: "same_config m (without m order)"
  by (simp add: same_config_def without_def)

lemma same_config_orders: "same_config m (m\<lparr>m_orders := objs\<rparr>)"
  by (simp add: same_config_def)

context mpd_lib
begin

lemma book_sorted_insert:
  assumes oo: "orders_ok fin objs" and b: "book_sorted M (objs(i := None)) side ids"
    and i: "objs i = Some order" "o_side order = side"
  shows "\<exists>ids'. slist_insert (book_compare M objs) i ids = Some ids' \<and> book_sorted M objs side ids'"
proof -
  have set: "set ids = side_ids objs side - {i}" using b by (simp add: book_sorted_def side_ids_del)
  have "sorted_wrt (\<lambda>j k. book_compare M objs j k < 0) ids"
    using b set by (simp add: sorted_book_other book_sorted_def)
  then have ord: "comparison.ordered (book_compare M objs) (side_ids objs side) ids"
    using set by (auto simp: comparison.ordered_def [OF book_comparison [OF oo]])
  have mem: "i \<in> side_ids objs side" "i \<notin> set ids" using i set by (auto simp: side_ids_def)
  from comparison.slist_insert_Some [OF book_comparison [OF oo] ord mem] obtain le gt
    where ins: "slist_insert (book_compare M objs) i ids = Some (le @ i # gt)" "ids = le @ gt"
      "comparison.ordered (book_compare M objs) (side_ids objs side) (le @ i # gt)" by blast
  moreover have "set (le @ i # gt) = side_ids objs side" using ins(2) set mem(1) by auto
  ultimately show ?thesis
    by (auto simp: book_sorted_def comparison.ordered_def [OF book_comparison [OF oo]])
qed

lemma user_list_insert:
  assumes "set l = A" "sorted_wrt (\<lambda>i j. order_id_compare i j < 0) l" "i \<notin> A"
  shows "\<exists>l'. slist_insert order_id_compare i l = Some l' \<and> set l' = insert i A \<and>
    sorted_wrt (\<lambda>i j. order_id_compare i j < 0) l'"
  using ids.slist_insert_Some [of l i] assms by (auto simp: ids.ordered_def)

lemma order_put_struct:
  assumes ok: "struct_ok M fin m" and new: "m_orders m (o_id order) = None" and k: "key_ok fin (o_id order) order"
    and fr: "balance_freeze M L (o_user_id order)
      (if o_side order = MARKET_ORDER_SIDE_ASK then m_stock m else m_money m) (put_freeze M order) = (L', Some r)"
  shows "\<exists>m'. order_put M m L order = (m', L', 0) \<and> struct_ok M fin m' \<and> same_config m m' \<and>
    m_orders m' = (m_orders m)(o_id order \<mapsto> order\<lparr>o_freeze := put_freeze M order\<rparr>) \<and>
    (if o_side order = MARKET_ORDER_SIDE_ASK then m_bids m' = m_bids m else m_asks m' = m_asks m)"
proof -
  let ?i = "o_id order" and ?u = "o_user_id order"
  let ?objs = "(m_orders m)(?i \<mapsto> order)" and ?fin = "(m_orders m)(?i \<mapsto> order\<lparr>o_freeze := put_freeze M order\<rparr>)"
  have oo: "orders_ok fin ?objs" "orders_ok fin ?fin"
    using ok k by (auto simp: struct_ok_def orders_ok_def key_ok_def)
  have del: "?objs(?i := None) = m_orders m" using new by (auto simp: fun_eq_iff)
  have sk: "same_key order (order\<lparr>o_freeze := put_freeze M order\<rparr>)" by (simp add: same_key_def)
  have cmp': "book_compare M ?fin = book_compare M ?objs"
    using book_compare_upd [of ?objs ?i order, OF _ sk] by simp
  have b: "book_sorted M (m_orders m) MARKET_ORDER_SIDE_ASK (m_asks m)"
    "book_sorted M (m_orders m) MARKET_ORDER_SIDE_BID (m_bids m)"
    and ul: "set (user_list m u) = user_ids (m_orders m) u"
    "sorted_wrt (\<lambda>i j. order_id_compare i j < 0) (user_list m u)" for u
    using ok by (auto simp: struct_ok_def)
  have "?i \<notin> user_ids (m_orders m) ?u" using new by (simp add: user_ids_def)
  from user_list_insert [OF ul this] obtain l where l: "slist_insert order_id_compare ?i (user_list m ?u) = Some l"
    "set l = insert ?i (user_ids (m_orders m) ?u)" "sorted_wrt (\<lambda>i j. order_id_compare i j < 0) l" by blast
  let ?us = "(m_users m)(?u \<mapsto> l)"
  have users: "set (case ?us u of None \<Rightarrow> [] | Some l \<Rightarrow> l) = user_ids ?fin u \<and>
      sorted_wrt (\<lambda>i j. order_id_compare i j < 0) (case ?us u of None \<Rightarrow> [] | Some l \<Rightarrow> l)" for u
    using l ul [of u] new by (auto simp: side_ids_new user_list_def user_ids_def)
  have keep: "book_sorted M ?fin side ids" if "book_sorted M (m_orders m) side ids" "side \<noteq> o_side order" for side ids
  proof -
    have "set ids = side_ids (m_orders m) side" using that(1) by (simp add: book_sorted_def)
    moreover have "?i \<notin> side_ids (m_orders m) side" using new by (simp add: side_ids_def)
    ultimately show ?thesis
      using that by (auto simp: book_sorted_def side_ids_new sorted_book_other)
  qed
  have enter: "\<exists>ids'. slist_insert (book_compare M ?objs) ?i ids = Some ids' \<and> book_sorted M ?fin side ids'"
    if "book_sorted M (m_orders m) side ids" "side = o_side order" for side ids
  proof -
    have "book_sorted M (?objs(?i := None)) side ids" using that(1) by (simp only: del)
    from book_sorted_insert [OF oo(1) this, of order] that(2)
    obtain ids' where "slist_insert (book_compare M ?objs) ?i ids = Some ids'" "book_sorted M ?objs side ids'" by auto
    moreover have "side_ids ?fin side = side_ids ?objs side" by (auto simp: side_ids_new)
    ultimately show ?thesis using cmp' by (auto simp: book_sorted_def)
  qed
  have known: "(case m_users m ?u of None \<Rightarrow> [] | Some order_list \<Rightarrow> order_list) = user_list m ?u"
    by (simp add: user_list_def)
  show ?thesis
  proof (cases "o_side order = MARKET_ORDER_SIDE_ASK")
    case True
    from enter [OF b(1)] True obtain asks where a: "slist_insert (book_compare M ?objs) ?i (m_asks m) = Some asks"
      "book_sorted M ?fin MARKET_ORDER_SIDE_ASK asks" by auto
    let ?m = "m\<lparr>m_orders := ?fin, m_users := ?us, m_asks := asks\<rparr>"
    have "book_sorted M ?fin MARKET_ORDER_SIDE_BID (m_bids m)" using keep [OF b(2)] True sides_differ by simp
    then have "struct_ok M fin ?m" using a oo(2) users by (simp add: struct_ok_def user_list_def)
    moreover have "order_put M m L order = (?m, L', 0)"
      using True fr l(1) a(1) new k by (simp add: order_put_def Let_def known key_ok_def put_freeze_def)
    ultimately show ?thesis using True by (simp add: same_config_def)
  next
    case False
    with k have bid: "o_side order = MARKET_ORDER_SIDE_BID" by (auto simp: key_ok_def)
    from enter [OF b(2)] bid obtain bids where a: "slist_insert (book_compare M ?objs) ?i (m_bids m) = Some bids"
      "book_sorted M ?fin MARKET_ORDER_SIDE_BID bids" by auto
    let ?m = "m\<lparr>m_orders := ?fin, m_users := ?us, m_bids := bids\<rparr>"
    have "book_sorted M ?fin MARKET_ORDER_SIDE_ASK (m_asks m)" using keep [OF b(1)] bid sides_differ by simp
    then have "struct_ok M fin ?m" using a oo(2) users by (simp add: struct_ok_def user_list_def)
    moreover have "order_put M m L order = (?m, L', 0)"
      using False fr l(1) a(1) new k by (simp add: order_put_def Let_def known key_ok_def put_freeze_def)
    ultimately show ?thesis using False by (simp add: same_config_def)
  qed
qed

end

end
