(* ===== verification/Deals.thy ===== *)
theory Deals
  imports Book
begin

text \<open>
  One deal on a well-formed market: both parties can pay, the funds of the open orders stay
  frozen, and the assets change hands exactly, up to the fees.
\<close>

section \<open>The invariant on amounts\<close>

text \<open>
  \<open>digits A m\<close>: the decimals a number of this market can have. The capacity hypothesis
  \<open>roomy\<close> says that the supplies of the two assets are decimal128 numbers at that scale.
\<close>

definition save_prec :: "(string \<rightharpoonup> asset_type) \<Rightarrow> string \<Rightarrow> int" where
  "save_prec A a = (case A a of None \<Rightarrow> - 1 | Some aty \<Rightarrow> prec_save aty)"

definition digits :: "(string \<rightharpoonup> asset_type) \<Rightarrow> 'd market \<Rightarrow> int" where
  "digits A m = max (m_stock_prec m + m_money_prec m + m_fee_prec m)
     (max (save_prec A (m_stock m)) (save_prec A (m_money m)))"

definition conf_ok :: "(string \<rightharpoonup> asset_type) \<Rightarrow> 'd market \<Rightarrow> bool" where
  "conf_ok A m \<longleftrightarrow> m_stock m \<noteq> m_money m \<and> A (m_stock m) \<noteq> None \<and> A (m_money m) \<noteq> None \<and>
     0 \<le> m_stock_prec m \<and> 0 \<le> m_money_prec m \<and> 0 \<le> m_fee_prec m \<and>
     m_stock_prec m + m_money_prec m \<le> save_prec A (m_money m) \<and>
     m_stock_prec m + m_fee_prec m \<le> save_prec A (m_stock m) \<and>
     m_money_prec m + m_fee_prec m \<le> save_prec A (m_money m) \<and> digits A m \<le> 6176"

definition roomy :: "('d \<Rightarrow> rat) \<Rightarrow> 'd ledger \<Rightarrow> 'd market \<Rightarrow> bool" where
  "roomy val L m \<longleftrightarrow> (\<forall>a\<in>{m_stock m, m_money m}.
     asset_supply val L a * 10 ^ nat (digits (dict_asset L) m) < 10 ^ 34)"

definition rate_ok :: "('d \<Rightarrow> bool) \<Rightarrow> ('d \<Rightarrow> rat) \<Rightarrow> 'd market \<Rightarrow> 'd \<Rightarrow> bool" where
  "rate_ok fin val m rate \<longleftrightarrow> fin rate \<and> 0 \<le> val rate \<and> val rate \<le> 1 \<and> on_grid (m_fee_prec m) (val rate)"

text \<open>A limit order, open or being matched: what was ordered is what is left plus what was dealt.\<close>

definition lim_ok :: "('d \<Rightarrow> bool) \<Rightarrow> ('d \<Rightarrow> rat) \<Rightarrow> 'd market \<Rightarrow> 'd order \<Rightarrow> bool" where
  "lim_ok fin val m order \<longleftrightarrow>
     0 < val (o_price order) \<and> on_grid (m_money_prec m) (val (o_price order)) \<and> fin (o_price order) \<and>
     fin (o_left order) \<and> 0 \<le> val (o_left order) \<and> on_grid (m_stock_prec m) (val (o_left order)) \<and>
     fin (o_amount order) \<and> fits (m_stock_prec m) (val (o_amount order)) \<and>
     fin (o_deal_stock order) \<and> 0 \<le> val (o_deal_stock order) \<and>
     val (o_amount order) = val (o_left order) + val (o_deal_stock order) \<and>
     rate_ok fin val m (o_maker_fee order)"

text \<open>What an open order keeps frozen.\<close>

definition needed :: "('d \<Rightarrow> rat) \<Rightarrow> 'd order \<Rightarrow> rat" where
  "needed val order = (if o_side order = MARKET_ORDER_SIDE_ASK then val (o_left order)
     else val (o_price order) * val (o_left order))"

definition backed :: "('d \<Rightarrow> bool) \<Rightarrow> ('d \<Rightarrow> rat) \<Rightarrow> 'd market \<Rightarrow> 'd order \<Rightarrow> bool" where
  "backed fin val m order \<longleftrightarrow> lim_ok fin val m order \<and> fin (o_freeze order) \<and> val (o_freeze order) = needed val order"

definition paid_in :: "'d market \<Rightarrow> 'd order \<Rightarrow> string" where
  "paid_in m order = (if o_side order = MARKET_ORDER_SIDE_ASK then m_stock m else m_money m)"

definition sum_map :: "('v \<Rightarrow> rat) \<Rightarrow> ('k \<rightharpoonup> 'v) \<Rightarrow> rat" where
  "sum_map g objs = (\<Sum>i\<in>dom objs. g (the (objs i)))"

definition frozen :: "('d \<Rightarrow> rat) \<Rightarrow> 'd market \<Rightarrow> u32 \<Rightarrow> string \<Rightarrow> rat" where
  "frozen val m u a = sum_map (\<lambda>order. if o_user_id order = u \<and> paid_in m order = a then val (o_freeze order) else 0)
     (m_orders m)"

text \<open>
  \<open>covered R\<close>: a user's frozen balance is what the open orders of this market froze plus
  \<open>R\<close>, what the other markets froze.
\<close>

definition covered :: "('d \<Rightarrow> rat) \<Rightarrow> (u32 \<Rightarrow> string \<Rightarrow> rat) \<Rightarrow> 'd market \<Rightarrow> 'd ledger \<Rightarrow> bool" where
  "covered val R m L \<longleftrightarrow> (\<forall>u. \<forall>a\<in>{m_stock m, m_money m}.
     0 \<le> R u a \<and> bal val L (u, BALANCE_TYPE_FREEZE, a) = R u a + frozen val m u a)"

definition market_ok ::
  "'d mpd_ops \<Rightarrow> ('d \<Rightarrow> bool) \<Rightarrow> ('d \<Rightarrow> rat) \<Rightarrow> (u32 \<Rightarrow> string \<Rightarrow> rat) \<Rightarrow> 'd market \<Rightarrow> 'd ledger \<Rightarrow> bool" where
  "market_ok M fin val R m L \<longleftrightarrow>
     struct_ok M fin m \<and> (\<forall>i order. m_orders m i = Some order \<longrightarrow> backed fin val m order \<and> 0 < val (o_left order)) \<and>
     ledger_ok fin val L \<and> conf_ok (dict_asset L) m \<and> covered val R m L \<and> roomy val L m"

section \<open>Sums over the open orders\<close>

lemma sum_map_upd:
  assumes "finite (dom objs)"
  shows "sum_map g (objs(i \<mapsto> x)) = sum_map g (objs(i := None)) + g x"
proof -
  have "sum_map g (objs(i \<mapsto> x)) = g x + (\<Sum>j\<in>dom objs - {i}. g (the ((objs(i \<mapsto> x)) j)))"
    using assms by (simp add: sum_map_def sum.insert_remove)
  also have "(\<Sum>j\<in>dom objs - {i}. g (the ((objs(i \<mapsto> x)) j))) = sum_map g (objs(i := None))"
    unfolding sum_map_def by (rule sum.cong) auto
  finally show ?thesis by (rule trans) (rule add.commute)
qed

lemma sum_map_split:
  assumes "finite (dom objs)" "objs i = Some x"
  shows "sum_map g objs = sum_map g (objs(i := None)) + g x"
  using sum_map_upd [OF assms(1), of g i x] assms(2) by (simp add: fun_upd_idem)

lemma sum_map_nonneg: "(\<And>i x. objs i = Some x \<Longrightarrow> 0 \<le> g x) \<Longrightarrow> 0 \<le> sum_map g objs"
  unfolding sum_map_def by (rule sum_nonneg) auto

lemma sum_map_ge:
  assumes "finite (dom objs)" "objs i = Some x" "\<And>i x. objs i = Some x \<Longrightarrow> 0 \<le> g x"
  shows "g x \<le> sum_map g objs"
proof -
  have "0 \<le> sum_map g (objs(i := None))"
    using assms(3) by (intro sum_map_nonneg) (auto split: if_splits)
  then show ?thesis using sum_map_split [OF assms(1,2), of g] by simp
qed

lemma needed_nonneg: "lim_ok fin val m order \<Longrightarrow> 0 \<le> needed val order"
  by (simp add: lim_ok_def needed_def)

section \<open>The settlement\<close>

context mpd_lib
begin

text \<open>
  The taker pays \<open>x\<close> of \<open>a\<close> from the available balance and gets \<open>y\<close> of
  \<open>b\<close>; the maker pays \<open>y\<close> of \<open>b\<close> from the frozen balance and gets \<open>x\<close> of
  \<open>a\<close>. Each pays the fee in what it gets.
\<close>

lemma deal_settle_ok:
  fixes L :: "'d ledger" and ut um :: u32
  assumes ok: "ledger_ok fin val L" and ab: "a \<noteq> b" and a: "dict_asset L a = Some aty" and b: "dict_asset L b = Some bty"
    and x: "fin x" "0 < val x" "val x \<le> bal val L (ut, BALANCE_TYPE_AVAILABLE, a)" "on_grid (prec_save aty) (val x)"
    and y: "fin y" "0 < val y" "val y \<le> bal val L (um, BALANCE_TYPE_FREEZE, b)" "on_grid (prec_save bty) (val y)"
    and zt: "fin zt" "0 \<le> val zt" "val zt \<le> val y" "on_grid q (val zt)"
    and zm: "fin zm" "0 \<le> val zm" "val zm \<le> val x" "on_grid q (val zm)"
    and q: "prec_save aty \<le> q" "prec_save bty \<le> q" "q \<le> 6176"
    and room: "asset_supply val L a * 10 ^ nat q < 10 ^ 34" "asset_supply val L b * 10 ^ nat q < 10 ^ 34"
  defines "L' \<equiv> settle_party M um BALANCE_TYPE_FREEZE b y a x zm (settle_party M ut BALANCE_TYPE_AVAILABLE a x b y zt L)"
    and "f \<equiv> credit (credit (credit (credit (bal val L) (ut, BALANCE_TYPE_AVAILABLE, a) (- val x))
      (ut, BALANCE_TYPE_AVAILABLE, b) (val y - charge (prec_save bty) (val zt))) (um, BALANCE_TYPE_FREEZE, b) (- val y))
      (um, BALANCE_TYPE_AVAILABLE, a) (val x - charge (prec_save aty) (val zm))"
  shows "ledger_ok fin val L' \<and> dict_asset L' = dict_asset L \<and> bal val L' = f \<and>
    asset_supply val L' c = asset_supply val L c -
      (if c = a then charge (prec_save aty) (val zm) else if c = b then charge (prec_save bty) (val zt) else 0)"
proof -
  have fin: "finite {k. bal val L k \<noteq> 0}" and nn: "\<And>k. 0 \<le> bal val L k"
    by (simp_all add: ledger_ok_finite [OF ok] ledger_ok_nonneg [OF ok])
  have types: "BALANCE_TYPE_FREEZE \<noteq> BALANCE_TYPE_AVAILABLE" by (rule freeze_types)
  note le = balance_le_supply [OF ok]
  have two: "bal val L (ut, BALANCE_TYPE_AVAILABLE, b) + val y \<le> asset_supply val L b"
    using supply_ge_two [OF fin nn, of "(ut, BALANCE_TYPE_AVAILABLE, b)" b "(um, BALANCE_TYPE_FREEZE, b)"] y(3) types by simp
  let ?L1 = "settle_party M ut BALANCE_TYPE_AVAILABLE a x b y zt L"
  have L1: "ledger_ok fin val ?L1" "dict_asset ?L1 = dict_asset L"
    "bal val ?L1 = credit (credit (bal val L) (ut, BALANCE_TYPE_AVAILABLE, a) (- val x)) (ut, BALANCE_TYPE_AVAILABLE, b) (val y - charge (prec_save bty) (val zt))"
    using settle_party_ok [OF ok ab a b x y(1,2,4) zt q le room(1) two room(2)] by auto
  have p1: "val y \<le> bal val ?L1 (um, BALANCE_TYPE_FREEZE, b)" "bal val ?L1 (um, BALANCE_TYPE_FREEZE, b) \<le> asset_supply val L b"
    using y(3) le [of um BALANCE_TYPE_FREEZE b] types L1(3) ab by (auto simp: credit_apply)
  have p2: "bal val ?L1 (um, BALANCE_TYPE_AVAILABLE, a) + val x \<le> asset_supply val L a"
  proof (cases "um = ut")
    case True
    then show ?thesis using le [of ut BALANCE_TYPE_AVAILABLE a] L1(3) ab by (simp add: credit_apply)
  next
    case False
    then have "bal val L (um, BALANCE_TYPE_AVAILABLE, a) + bal val L (ut, BALANCE_TYPE_AVAILABLE, a) \<le> asset_supply val L a"
      by (intro supply_ge_two fin nn) auto
    then show ?thesis using x(3) L1(3) ab False by (simp add: credit_apply)
  qed
  have a1: "dict_asset ?L1 a = Some aty" and b1: "dict_asset ?L1 b = Some bty" using a b L1(2) by simp_all
  have L2: "ledger_ok fin val L'" "dict_asset L' = dict_asset ?L1"
    "bal val L' = credit (credit (bal val ?L1) (um, BALANCE_TYPE_FREEZE, b) (- val y)) (um, BALANCE_TYPE_AVAILABLE, a) (val x - charge (prec_save aty) (val zm))"
    using settle_party_ok [OF L1(1) ab [symmetric] b1 a1 y(1,2) p1(1) y(4) x(1,2,4) zm q(2,1,3) p1(2) room(2)
        p2 room(1)]
    by (auto simp: L'_def)
  have "bal val L' = f" using L2(3) L1(3) by (simp add: f_def)
  moreover have "supply_of f c = asset_supply val L c -
      (if c = a then charge (prec_save aty) (val zm) else if c = b then charge (prec_save bty) (val zt) else 0)"
    unfolding f_def using fin ab by (simp add: supply_credit credit_support)
  ultimately show ?thesis using L2 L1 by simp
qed

text \<open>Numbers of the market are exact.\<close>

lemma fits_room:
  assumes "on_grid p x" "0 \<le> p" "p \<le> q" "q \<le> 6176" "\<bar>x\<bar> \<le> C" "C * 10 ^ nat q < 10 ^ 34"
  shows "fits q x"
proof -
  have "\<bar>x\<bar> * 10 ^ nat q \<le> C * 10 ^ nat q" using assms(5) by (intro mult_right_mono) auto
  then have "\<bar>x\<bar> * 10 ^ nat q < 10 ^ 34" using assms(6) by (rule order.strict_trans1)
  then show ?thesis using assms by (intro fitsI on_grid_mono [OF assms(1)]) auto
qed

lemma deal_numbers:
  assumes conf: "conf_ok A m" and p: "fin p" "0 < val p" "on_grid (m_money_prec m) (val p)"
    and a: "fin a" "0 < val a" "on_grid (m_stock_prec m) (val a)"
    and r: "rate_ok fin val m rm" "rate_ok fin val m rs"
    and q: "q = digits A m"
    and C: "val p * val a \<le> Cm" "Cm * 10 ^ nat q < 10 ^ 34" "val a \<le> Cs" "Cs * 10 ^ nat q < 10 ^ 34"
  defines "deal \<equiv> mpd_mul M p a" and "fm \<equiv> mpd_mul M (mpd_mul M p a) rm" and "fs \<equiv> mpd_mul M a rs"
  shows "fin deal \<and> val deal = val p * val a \<and> on_grid (m_stock_prec m + m_money_prec m) (val deal) \<and>
    fin fm \<and> 0 \<le> val fm \<and> val fm \<le> val deal \<and> on_grid q (val fm) \<and>
    fin fs \<and> 0 \<le> val fs \<and> val fs \<le> val a \<and> on_grid q (val fs) \<and>
    val fm = val deal * val rm \<and> val fs = val a * val rs"
proof -
  have d: "0 \<le> m_stock_prec m" "0 \<le> m_money_prec m" "0 \<le> m_fee_prec m" "q \<le> 6176"
    "m_stock_prec m + m_money_prec m + m_fee_prec m \<le> q"
    using conf q by (auto simp: conf_ok_def digits_def)
  have gd: "on_grid (m_stock_prec m + m_money_prec m) (val p * val a)"
    using on_grid_mult [OF p(3) a(3) d(2,1)] by (simp add: add.commute)
  have pos: "0 \<le> val p * val a" using p a by simp
  have "fits q (val p * val a)" by (rule fits_room [OF gd _ _ d(4) _ C(2)]) (use d pos C(1) in auto)
  from mul [OF p(1) a(1) this] have D: "fin deal" "val deal = val p * val a" by (auto simp: deal_def)
  have rates: "fin rm" "0 \<le> val rm" "val rm \<le> 1" "on_grid (m_fee_prec m) (val rm)"
    "fin rs" "0 \<le> val rs" "val rs \<le> 1" "on_grid (m_fee_prec m) (val rs)"
    using r by (auto simp: rate_ok_def)
  have gf: "on_grid (m_stock_prec m + m_money_prec m + m_fee_prec m) (val deal * val rm)"
    unfolding D(2) by (rule on_grid_mult [OF gd rates(4)]) (use d in auto)
  have gs: "on_grid (m_stock_prec m + m_fee_prec m) (val a * val rs)"
    by (rule on_grid_mult [OF a(3) rates(8)]) (use d in auto)
  have lm: "val deal * val rm \<le> val deal" "0 \<le> val deal * val rm"
    using rates pos D(2) by (auto simp: mult_left_le)
  have ls: "val a * val rs \<le> val a" "0 \<le> val a * val rs"
    using rates a(2) by (auto simp: mult_left_le)
  have "fits q (val deal * val rm)"
    by (rule fits_room [OF gf _ _ d(4) _ C(2)]) (use d lm C(1) D(2) in auto)
  from mul [OF D(1) rates(1) this] have F: "fin fm" "val fm = val deal * val rm" by (auto simp: fm_def deal_def)
  have "fits q (val a * val rs)"
    by (rule fits_room [OF gs _ _ d(4) _ C(4)]) (use d ls C(3) in auto)
  from mul [OF a(1) rates(5) this] have G: "fin fs" "val fs = val a * val rs" by (auto simp: fs_def)
  show ?thesis
    using D F G gd lm ls on_grid_mono [OF gf d(5)] on_grid_mono [OF gs, of q] d by auto
qed

text \<open>The maker's object after a deal.\<close>

lemma fill_maker_ok:
  assumes mk: "backed fin val m maker" and conf: "conf_ok A m"
    and a: "fin a" "0 < val a" "val a \<le> val (o_left maker)" "on_grid (m_stock_prec m) (val a)"
    and y: "fin y" "val y = (if o_side maker = MARKET_ORDER_SIDE_ASK then val a else val (o_price maker) * val a)"
    and room: "m_stock_prec m + m_money_prec m \<le> q" "q \<le> 6176" "val (o_freeze maker) \<le> C" "C * 10 ^ nat q < 10 ^ 34"
  shows "backed fin val m (fill_maker M y a deal fee maker) \<and>
    val (o_left (fill_maker M y a deal fee maker)) = val (o_left maker) - val a \<and>
    val (o_freeze (fill_maker M y a deal fee maker)) = val (o_freeze maker) - val y"
proof -
  have d: "0 \<le> m_stock_prec m" "0 \<le> m_money_prec m" using conf by (auto simp: conf_ok_def)
  have l: "lim_ok fin val m maker" "fin (o_freeze maker)" "val (o_freeze maker) = needed val maker"
    using mk by (auto simp: backed_def)
  have fa: "fits (m_stock_prec m) (val (o_amount maker))" and sum: "val (o_amount maker) = val (o_left maker) + val (o_deal_stock maker)"
    and nn: "0 \<le> val (o_left maker)" "0 \<le> val (o_deal_stock maker)" "0 < val (o_price maker)"
    and fn: "fin (o_left maker)" "fin (o_deal_stock maker)"
    and g: "on_grid (m_stock_prec m) (val (o_left maker))" "on_grid (m_money_prec m) (val (o_price maker))"
    using l(1) by (auto simp: lim_ok_def)
  have ga: "on_grid (m_stock_prec m) (val (o_amount maker))" using fa by (simp add: fits_def)
  have gds: "on_grid (m_stock_prec m) (val (o_deal_stock maker))"
    using on_grid_diff [OF ga g(1)] sum by simp
  have "fits (m_stock_prec m) (val (o_left maker) - val a)"
    by (rule fits_le [OF fa on_grid_diff [OF g(1) a(4)]]) (use sum nn a in auto)
  from sub [OF fn(1) a(1) this] have 1: "fin (mpd_sub M (o_left maker) a)"
    "val (mpd_sub M (o_left maker) a) = val (o_left maker) - val a" by auto
  have "fits (m_stock_prec m) (val (o_deal_stock maker) + val a)"
    by (rule fits_le [OF fa on_grid_add [OF gds a(4)]]) (use sum nn a in auto)
  from add [OF fn(2) a(1) this] have 2: "fin (mpd_add M (o_deal_stock maker) a)"
    "val (mpd_add M (o_deal_stock maker) a) = val (o_deal_stock maker) + val a" by auto
  have gn: "on_grid (m_stock_prec m + m_money_prec m) (val (o_freeze maker) - val y)"
  proof (cases "o_side maker = MARKET_ORDER_SIDE_ASK")
    case True
    then show ?thesis using on_grid_mono [OF on_grid_diff [OF g(1) a(4)]] d l(3) y(2) by (simp add: needed_def)
  next
    case False
    then have "val (o_freeze maker) - val y = val (o_price maker) * (val (o_left maker) - val a)"
      using l(3) y(2) by (simp add: needed_def right_diff_distrib)
    then show ?thesis
      using on_grid_mult [OF g(2) on_grid_diff [OF g(1) a(4)] d(2,1)] by (simp add: add.commute)
  qed
  have eq: "val (o_freeze maker) - val y = needed val (maker\<lparr>o_left := mpd_sub M (o_left maker) a\<rparr>)"
    using l(3) y(2) 1(2) by (simp add: needed_def right_diff_distrib)
  then have "0 \<le> val (o_freeze maker) - val y" using 1(2) nn a(3) by (simp add: needed_def)
  moreover have "0 \<le> val y" using y(2) a(2) nn by simp
  ultimately have "fits q (val (o_freeze maker) - val y)"
    by (intro fits_room [OF gn _ room(1,2) _ room(4)]) (use d room(3) in auto)
  from sub [OF l(2) y(1) this] have 3: "fin (mpd_sub M (o_freeze maker) y)"
    "val (mpd_sub M (o_freeze maker) y) = val (o_freeze maker) - val y" by auto
  show ?thesis
    using l(1) 1 2 3 eq nn a on_grid_diff [OF g(1) a(4)] sum
    by (simp add: backed_def lim_ok_def order_simps needed_def)
qed

text \<open>The same for a limit order that takes.\<close>

lemma fill_taker_ok:
  assumes l: "lim_ok fin val m taker"
    and a: "fin a" "0 < val a" "val a \<le> val (o_left taker)" "on_grid (m_stock_prec m) (val a)"
  shows "lim_ok fin val m (fill_taker M a a deal fee taker) \<and>
    val (o_left (fill_taker M a a deal fee taker)) = val (o_left taker) - val a"
proof -
  have fa: "fits (m_stock_prec m) (val (o_amount taker))" and sum: "val (o_amount taker) = val (o_left taker) + val (o_deal_stock taker)"
    and nn: "0 \<le> val (o_left taker)" "0 \<le> val (o_deal_stock taker)"
    and fn: "fin (o_left taker)" "fin (o_deal_stock taker)"
    and g: "on_grid (m_stock_prec m) (val (o_left taker))"
    using l by (auto simp: lim_ok_def)
  have ga: "on_grid (m_stock_prec m) (val (o_amount taker))" using fa by (simp add: fits_def)
  have gds: "on_grid (m_stock_prec m) (val (o_deal_stock taker))"
    using on_grid_diff [OF ga g(1)] sum by simp
  have "fits (m_stock_prec m) (val (o_left taker) - val a)"
    by (rule fits_le [OF fa on_grid_diff [OF g(1) a(4)]]) (use sum nn a in auto)
  from sub [OF fn(1) a(1) this] have 1: "fin (mpd_sub M (o_left taker) a)"
    "val (mpd_sub M (o_left taker) a) = val (o_left taker) - val a" by auto
  have "fits (m_stock_prec m) (val (o_deal_stock taker) + val a)"
    by (rule fits_le [OF fa on_grid_add [OF gds a(4)]]) (use sum nn a in auto)
  from add [OF fn(2) a(1) this] have 2: "fin (mpd_add M (o_deal_stock taker) a)"
    "val (mpd_add M (o_deal_stock taker) a) = val (o_deal_stock taker) + val a" by auto
  show ?thesis
    using l 1 2 nn a on_grid_diff [OF g a(4)] sum by (simp add: lim_ok_def order_simps)
qed

end

section \<open>After the settlement\<close>

lemma same_config_simps:
  assumes "same_config m m'"
  shows "conf_ok A m' = conf_ok A m" "roomy val L m' = roomy val L m" "backed fin val m' order = backed fin val m order"
    "lim_ok fin val m' order = lim_ok fin val m order" "paid_in m' order = paid_in m order"
    "rate_ok fin val m' rate = rate_ok fin val m rate" "digits A m' = digits A m"
  using assms
  by (simp_all add: same_config_def conf_ok_def roomy_def backed_def lim_ok_def paid_in_def rate_ok_def digits_def)

definition owed :: "('d \<Rightarrow> rat) \<Rightarrow> 'd market \<Rightarrow> u32 \<Rightarrow> string \<Rightarrow> 'd order \<Rightarrow> rat" where
  "owed val m u a order = (if o_user_id order = u \<and> paid_in m order = a then val (o_freeze order) else 0)"

lemma frozen_owed: "frozen val m u a = sum_map (owed val m u a) (m_orders m)"
  unfolding frozen_def owed_def ..

lemma owed_config: "same_config m m' \<Longrightarrow> owed val m' u a = owed val m u a"
  by (simp add: owed_def same_config_simps fun_eq_iff)

lemma frozen_put:
  assumes "finite (dom (m_orders m))" "same_config m m'" "m_orders m' = (m_orders m)(i \<mapsto> order)" "m_orders m i = None"
  shows "frozen val m' u a = frozen val m u a + owed val m u a order"
  using sum_map_upd [OF assms(1), of "owed val m u a" i order] assms(4)
  by (simp add: frozen_owed owed_config [OF assms(2)] assms(3) fun_upd_idem)

lemma frozen_update:
  assumes "finite (dom (m_orders m))" "m_orders m i = Some order"
  shows "frozen val (m\<lparr>m_orders := (m_orders m)(i \<mapsto> order')\<rparr>) u a =
    frozen val m u a - owed val m u a order + owed val m u a order'"
  using sum_map_upd [OF assms(1), of "owed val m u a" i order'] sum_map_split [OF assms, of "owed val m u a"]
  by (simp add: frozen_owed owed_config [OF same_config_orders])

lemma frozen_without:
  assumes "finite (dom (m_orders m))" "m_orders m (o_id order) = Some order"
  shows "frozen val (without m order) u a = frozen val m u a - owed val m u a order"
  using sum_map_split [OF assms, of "owed val m u a"]
  by (simp add: frozen_owed owed_config [OF same_config_without]) (simp add: without_def)

lemma market_okD:
  assumes "market_ok M fin val R m L"
  shows "struct_ok M fin m" "ledger_ok fin val L" "conf_ok (dict_asset L) m" "covered val R m L" "roomy val L m"
    "m_orders m i = Some order \<Longrightarrow> backed fin val m order \<and> 0 < val (o_left order)"
    "finite (dom (m_orders m))" "m_orders m i = Some order \<Longrightarrow> key_ok fin i order"
  using assms by (auto simp: market_ok_def struct_ok_def orders_ok_def)

context mpd_lib
begin

lemma after_deal_ok:
  assumes E: "mpd E = M" and mo: "struct_ok M fin m"
    and others: "\<forall>j order. m_orders m j = Some order \<longrightarrow> backed fin val m order \<and> 0 < val (o_left order)"
    and i: "m_orders m i = Some maker" and k: "same_key maker maker'" and bk: "backed fin val m maker'"
    and L: "ledger_ok fin val (ledger S)" "conf_ok (dict_asset (ledger S)) m" "roomy val (ledger S) m"
    and cov: "covered val R (m\<lparr>m_orders := (m_orders m)(i \<mapsto> maker')\<rparr>) (ledger S)"
  defines "m1 \<equiv> m\<lparr>m_orders := (m_orders m)(i \<mapsto> maker')\<rparr>"
  shows "\<exists>m' S'. after_deal E live m maker' S = (m', S') \<and> ledger S' = ledger S \<and>
    order_id_start S' = order_id_start S \<and> deals_id_start S' = deals_id_start S \<and>
    market_ok M fin val R m' (ledger S') \<and> same_config m m' \<and>
    m' = (if val (o_left maker') = 0 then without m1 maker' else m1)"
proof -
  have id: "o_id maker' = i" using mo i k by (auto simp: struct_ok_def orders_ok_def key_ok_def same_key_def)
  have st1: "struct_ok M fin m1" unfolding m1_def by (rule struct_ok_update [OF mo i k])
  have c1: "same_config m m1" by (simp add: m1_def same_config_orders)
  have left': "fin (o_left maker')" "0 \<le> val (o_left maker')" using bk by (auto simp: backed_def lim_ok_def)
  then have z: "mpd_cmp M (o_left maker') (mpd_zero M) = 0 \<longleftrightarrow> val (o_left maker') = 0" by (simp add: cmp)
  have oth: "backed fin val m order \<and> 0 < val (o_left order)" if "m_orders m1 j = Some order" "j \<noteq> i" for j order
    using others that by (simp add: m1_def)
  show ?thesis
  proof (cases "val (o_left maker') = 0")
    case False
    have "backed fin val m order \<and> 0 < val (o_left order)" if "m_orders m1 j = Some order" for j order
      using oth [OF that] that bk left'(2) False by (cases "j = i") (auto simp: m1_def)
    then have "market_ok M fin val R m1 (ledger S)"
      using st1 L cov by (simp add: market_ok_def same_config_simps [OF c1] m1_def [symmetric])
    then show ?thesis
      using False z c1 by (simp add: after_deal_def Let_def E id m1_def [symmetric] engine_frame)
  next
    case True
    have i1: "m_orders m1 (o_id maker') = Some maker'" by (simp add: m1_def id)
    have fz: "fin (o_freeze maker')" "val (o_freeze maker') = 0"
      using bk True by (auto simp: backed_def needed_def)
    then have "release_freeze M maker' a L' = Some L'" for a L' by (simp add: release_freeze_def cmp)
    from order_finish_struct [OF st1 i1, where S = "send_order_message E live ORDER_EVENT_FINISH maker' m1 S"] this E
    obtain S' where S': "order_finish E live m1 maker' (send_order_message E live ORDER_EVENT_FINISH maker' m1 S) =
        (without m1 maker', S', 0)" "ledger S' = ledger S" "order_id_start S' = order_id_start S"
      "deals_id_start S' = deals_id_start S"
      by (force simp: engine_frame)
    have c2: "same_config m (without m1 maker')" by (rule same_config_trans [OF c1 same_config_without])
    have "frozen val (without m1 maker') u a = frozen val m1 u a" for u a
      using frozen_without [OF _ i1] mo fz by (auto simp: m1_def struct_ok_def orders_ok_def owed_def)
    then have cov': "covered val R (without m1 maker') (ledger S')"
      using cov S'(2) by (simp add: covered_def m1_def [symmetric]) (simp add: without_def m1_def)
    have "backed fin val m order \<and> 0 < val (o_left order)" if "m_orders (without m1 maker') j = Some order" for j order
      using oth [of j order] that by (auto simp: without_def id split: if_splits)
    then have "market_ok M fin val R (without m1 maker') (ledger S')"
      using struct_ok_without [OF st1 i1] L cov' S'(2) by (simp add: market_ok_def same_config_simps [OF c2])
    then show ?thesis
      using True z c2 S' by (simp add: after_deal_def Let_def E id m1_def [symmetric])
  qed
qed

end

end
