(* ===== verification/Trading.thy ===== *)
theory Trading
  imports Deals
begin

text \<open>
  The matching loops on a well-formed market: every deal they make is one the invariant allows,
  so the results of the balance operations they ignore are never failures.
\<close>

section \<open>One deal, seen from the maker's side\<close>

text \<open>
  What the two parties of a deal pay, by the side of the maker: \<open>taker_pays\<close> of the asset
  \<open>taker_asset\<close>, and the maker the other.
\<close>

definition taker_asset :: "'d market \<Rightarrow> 'd order \<Rightarrow> string" where
  "taker_asset m maker = (if o_side maker = MARKET_ORDER_SIDE_ASK then m_money m else m_stock m)"

definition taker_pays :: "('d \<Rightarrow> rat) \<Rightarrow> 'd order \<Rightarrow> rat \<Rightarrow> rat" where
  "taker_pays val maker amount =
     (if o_side maker = MARKET_ORDER_SIDE_ASK then val (o_price maker) * amount else amount)"

text \<open>The fees of a deal in stock and in money, at the taker's rate \<open>rate\<close>.\<close>

definition stock_fee :: "('d \<Rightarrow> rat) \<Rightarrow> 'd order \<Rightarrow> 'd \<Rightarrow> rat \<Rightarrow> rat" where
  "stock_fee val maker rate amount =
     amount * val (if o_side maker = MARKET_ORDER_SIDE_ASK then rate else o_maker_fee maker)"

definition money_fee :: "('d \<Rightarrow> rat) \<Rightarrow> 'd order \<Rightarrow> 'd \<Rightarrow> rat \<Rightarrow> rat" where
  "money_fee val maker rate amount =
     val (o_price maker) * amount * val (if o_side maker = MARKET_ORDER_SIDE_ASK then o_maker_fee maker else rate)"

text \<open>\<open>dealt\<close>: what a deal of \<open>amount\<close> between a taker and the maker \<open>i\<close> did.\<close>

definition dealt ::
  "'d mpd_ops \<Rightarrow> ('d \<Rightarrow> bool) \<Rightarrow> ('d \<Rightarrow> rat) \<Rightarrow> (u32 \<Rightarrow> string \<Rightarrow> rat) \<Rightarrow> u32 \<Rightarrow> 'd \<Rightarrow> 'd order \<Rightarrow> rat \<Rightarrow>
   'd market \<Rightarrow> ('d, 'j) engine \<Rightarrow> 'd market \<Rightarrow> ('d, 'j) engine \<Rightarrow> bool" where
  "dealt M fin val R user rate maker amount m S m' S' \<longleftrightarrow>
     market_ok M fin val R m' (ledger S') \<and> same_config m m' \<and>
     dict_asset (ledger S') = dict_asset (ledger S) \<and>
     order_id_start S' = order_id_start S \<and> deals_id_start S' = deals_id_start S + 1 \<and>
     (\<exists>maker'. same_key maker maker' \<and> val (o_left maker') = val (o_left maker) - amount \<and>
        m' = (if amount = val (o_left maker) then without (m\<lparr>m_orders := (m_orders m)(o_id maker \<mapsto> maker')\<rparr>) maker'
              else m\<lparr>m_orders := (m_orders m)(o_id maker \<mapsto> maker')\<rparr>)) \<and>
     bal val (ledger S) (user, BALANCE_TYPE_AVAILABLE, taker_asset m maker) - taker_pays val maker amount
       \<le> bal val (ledger S') (user, BALANCE_TYPE_AVAILABLE, taker_asset m maker) \<and>
     (\<forall>a. asset_supply val (ledger S') a = asset_supply val (ledger S) a -
        (if a = m_stock m then charge (save_prec (dict_asset (ledger S)) a) (stock_fee val maker rate amount)
         else if a = m_money m then charge (save_prec (dict_asset (ledger S)) a) (money_fee val maker rate amount)
         else 0))"

lemma fill_maker_key: "same_key maker (fill_maker M y a deal fee (stamp E S maker))"
  by (simp add: same_key_def order_simps)

lemma backed_stamp: "backed fin val m (stamp E S maker) = backed fin val m maker"
  by (simp add: backed_def lim_ok_def needed_def order_simps)

lemma conf_ok_assets:
  assumes "conf_ok A m" "a \<in> {m_stock m, m_money m}"
  shows "\<exists>aty. A a = Some aty \<and> prec_save aty = save_prec A a \<and> save_prec A a \<le> digits A m"
  using assms by (auto simp: conf_ok_def save_prec_def digits_def)

context mpd_lib
begin

lemma deal_core:
  assumes E: "mpd E = M" and mo: "market_ok M fin val R m (ledger S)" and i: "m_orders m (o_id maker) = Some maker"
    and a: "fin amount" "0 < val amount" "val amount \<le> val (o_left maker)" "on_grid (m_stock_prec m) (val amount)"
    and rt: "rate_ok fin val m rate"
    and pays: "taker_pays val maker (val amount) \<le> bal val (ledger S) (user, BALANCE_TYPE_AVAILABLE, taker_asset m maker)"
  defines "ask \<equiv> o_side maker = MARKET_ORDER_SIDE_ASK" and "deal \<equiv> mpd_mul M (o_price maker) amount"
  defines "x \<equiv> if ask then deal else amount" and "y \<equiv> if ask then amount else deal"
    and "fee_t \<equiv> if ask then mpd_mul M amount rate else mpd_mul M deal rate"
    and "fee_m \<equiv> if ask then mpd_mul M deal (o_maker_fee maker) else mpd_mul M amount (o_maker_fee maker)"
  assumes S': "ledger S' = settle_party M (o_user_id maker) BALANCE_TYPE_FREEZE (paid_in m maker) y (taker_asset m maker) x fee_m
      (settle_party M user BALANCE_TYPE_AVAILABLE (taker_asset m maker) x (paid_in m maker) y fee_t (ledger S))"
    "order_id_start S' = order_id_start S" "deals_id_start S' = deals_id_start S + 1"
  shows "\<exists>m' S''. after_deal E live m (fill_maker M y amount deal fee_m (stamp E S0 maker)) S' = (m', S'') \<and>
    dealt M fin val R user rate maker (val amount) m S m' S'' \<and> fin deal \<and> val deal = val (o_price maker) * val amount"
proof -
  let ?L = "ledger S" and ?A = "taker_asset m maker" and ?B = "paid_in m maker"
  let ?D = "dict_asset ?L" and ?q = "digits (dict_asset ?L) m"
  note ok = market_okD(1-5,7) [OF mo]
  have bk: "backed fin val m maker" and left: "0 < val (o_left maker)" using market_okD(6) [OF mo i] by auto
  have kk: "key_ok fin (o_id maker) maker" by (rule market_okD(8) [OF mo i])
  have lk: "lim_ok fin val m maker" "fin (o_freeze maker)" "val (o_freeze maker) = needed val maker"
    using bk by (auto simp: backed_def)
  have price: "fin (o_price maker)" "0 < val (o_price maker)" "on_grid (m_money_prec m) (val (o_price maker))"
    and mrate: "rate_ok fin val m (o_maker_fee maker)" using lk(1) by (auto simp: lim_ok_def)
  have AB: "?A \<noteq> ?B" "?A \<in> {m_stock m, m_money m}" "?B \<in> {m_stock m, m_money m}"
    using ok(3) by (auto simp: taker_asset_def paid_in_def conf_ok_def)
  from conf_ok_assets [OF ok(3) AB(2)] obtain aty where aty: "?D ?A = Some aty" "prec_save aty = save_prec ?D ?A" "save_prec ?D ?A \<le> ?q" by blast
  from conf_ok_assets [OF ok(3) AB(3)] obtain bty where bty: "?D ?B = Some bty" "prec_save bty = save_prec ?D ?B" "save_prec ?D ?B \<le> ?q" by blast
  have q: "?q \<le> 6176" "m_stock_prec m + m_money_prec m \<le> ?q" using ok(3) by (auto simp: conf_ok_def digits_def)
  have room: "asset_supply val ?L ?A * 10 ^ nat ?q < 10 ^ 34" "asset_supply val ?L ?B * 10 ^ nat ?q < 10 ^ 34"
    using ok(5) AB by (auto simp: roomy_def)
  have nonneg: "0 \<le> owed val m u c order" if "m_orders m j = Some order" for j order u c
    using market_okD(6) [OF mo that] by (auto simp: owed_def backed_def needed_nonneg)
  have "owed val m (o_user_id maker) ?B maker \<le> frozen val m (o_user_id maker) ?B"
    unfolding frozen_owed by (rule sum_map_ge [OF ok(6) i nonneg])
  then have fr: "val (o_freeze maker) \<le> bal val ?L (o_user_id maker, BALANCE_TYPE_FREEZE, ?B)"
  proof -
    have "0 \<le> R (o_user_id maker) ?B \<and> bal val ?L (o_user_id maker, BALANCE_TYPE_FREEZE, ?B) =
        R (o_user_id maker) ?B + frozen val m (o_user_id maker) ?B"
      using ok(4) AB(3) unfolding covered_def by blast
    with \<open>owed val m _ ?B maker \<le> _\<close> show ?thesis by (simp add: owed_def)
  qed
  have le: "bal val ?L k \<le> asset_supply val ?L (snd (snd k))" for k
    using balance_le_supply [OF ok(2), of "fst k" "fst (snd k)" "snd (snd k)"] by simp
  have need: "(if ask then val amount else val (o_price maker) * val amount) \<le> val (o_freeze maker)"
    using a(3) price(2) lk(3) by (auto simp: needed_def ask_def)
  have pm: "val (o_price maker) * val amount \<le> asset_supply val ?L (m_money m)"
    and ps: "val amount \<le> asset_supply val ?L (m_stock m)"
    using need fr pays le [of "(user, BALANCE_TYPE_AVAILABLE, ?A)"] le [of "(o_user_id maker, BALANCE_TYPE_FREEZE, ?B)"]
    by (auto simp: ask_def taker_pays_def taker_asset_def paid_in_def split: if_splits)
  have rooms: "asset_supply val ?L (m_money m) * 10 ^ nat ?q < 10 ^ 34" "asset_supply val ?L (m_stock m) * 10 ^ nat ?q < 10 ^ 34"
    using ok(5) by (auto simp: roomy_def)
  note num = deal_numbers [OF ok(3) price a(1,2,4) _ _ HOL.refl pm rooms(1) ps rooms(2), folded deal_def]
  have D: "fin deal" "val deal = val (o_price maker) * val amount" "on_grid (m_stock_prec m + m_money_prec m) (val deal)"
    using num [OF rt rt] by auto
  have Dpos: "0 < val deal" using D(2) price(2) a(2) by simp
  have prec: "m_stock_prec m + m_money_prec m \<le> save_prec ?D (m_money m)" "m_stock_prec m \<le> save_prec ?D (m_stock m)"
    "0 \<le> m_stock_prec m" "0 \<le> m_money_prec m"
    using ok(3) by (auto simp: conf_ok_def)
  have gx: "on_grid (prec_save aty) (val x)" and gy: "on_grid (prec_save bty) (val y)"
    using on_grid_mono [OF D(3) prec(1)] on_grid_mono [OF a(4) prec(2)]
    by (simp_all add: aty(2) bty(2) x_def y_def ask_def taker_asset_def paid_in_def)
  have xy: "fin x" "0 < val x" "fin y" "0 < val y" using D Dpos a by (auto simp: x_def y_def)
  have px: "val x \<le> bal val ?L (user, BALANCE_TYPE_AVAILABLE, ?A)"
    and py: "val y \<le> bal val ?L (o_user_id maker, BALANCE_TYPE_FREEZE, ?B)"
    using pays need fr D(2) by (auto simp: x_def y_def ask_def taker_pays_def split: if_splits)
  have ft: "fin fee_t" "0 \<le> val fee_t" "val fee_t \<le> val y" "on_grid ?q (val fee_t)"
    and fm: "fin fee_m" "0 \<le> val fee_m" "val fee_m \<le> val x" "on_grid ?q (val fee_m)"
    and fees: "val (if ask then fee_t else fee_m) = stock_fee val maker rate (val amount)"
      "val (if ask then fee_m else fee_t) = money_fee val maker rate (val amount)"
    using num [OF rt rt] num [OF mrate mrate] D(2)
    by (auto simp: fee_t_def fee_m_def x_def y_def stock_fee_def money_fee_def ask_def)
  note set = deal_settle_ok [OF ok(2) AB(1) aty(1) bty(1) xy(1,2) px gx xy(3,4) py gy ft fm _ _ q(1) room,
      folded S'(1), unfolded aty(2) bty(2), OF aty(3) bty(3)]
  let ?mk = "fill_maker M y amount deal fee_m (stamp E S0 maker)"
  let ?m1 = "m\<lparr>m_orders := (m_orders m)(o_id maker \<mapsto> ?mk)\<rparr>"
  have vy: "val y = (if o_side maker = MARKET_ORDER_SIDE_ASK then val amount else val (o_price maker) * val amount)"
    using D(2) by (simp add: y_def ask_def)
  have mk: "backed fin val m ?mk" "val (o_left ?mk) = val (o_left maker) - val amount"
    "val (o_freeze ?mk) = val (o_freeze maker) - val y"
    using fill_maker_ok [of m "stamp E S0 maker" ?D amount y ?q, OF _ ok(3) a(1,2) _ a(4) xy(3) _ q(2,1) _ room(2)]
      bk a(3) vy order.trans [OF fr le]
    by (auto simp: backed_stamp order_simps)
  have bal': "bal val (ledger S') = credit (credit (credit (credit (bal val ?L) (user, BALANCE_TYPE_AVAILABLE, ?A) (- val x))
      (user, BALANCE_TYPE_AVAILABLE, ?B) (val y - charge (save_prec ?D ?B) (val fee_t)))
      (o_user_id maker, BALANCE_TYPE_FREEZE, ?B) (- val y))
      (o_user_id maker, BALANCE_TYPE_AVAILABLE, ?A) (val x - charge (save_prec ?D ?A) (val fee_m))"
    using set by simp
  have frz: "bal val (ledger S') (u, BALANCE_TYPE_FREEZE, c) =
      bal val ?L (u, BALANCE_TYPE_FREEZE, c) - (if u = o_user_id maker \<and> c = ?B then val y else 0)" for u c
    unfolding bal' using freeze_types by (auto simp: credit_apply)
  have cov: "covered val R ?m1 (ledger S')"
  proof -
    have "frozen val ?m1 u c = frozen val m u c - (if u = o_user_id maker \<and> c = ?B then val y else 0)" for u c
      using frozen_update [OF ok(6) i, of val ?mk u c] mk(3)
      by (auto simp: owed_def paid_in_def order_simps)
    then show ?thesis using ok(4) frz by (simp add: covered_def)
  qed
  have sup: "asset_supply val (ledger S') c = asset_supply val ?L c -
     (if c = m_stock m then charge (save_prec ?D c) (stock_fee val maker rate (val amount))
      else if c = m_money m then charge (save_prec ?D c) (money_fee val maker rate (val amount)) else 0)" for c
    using conjunct2 [OF conjunct2 [OF conjunct2 [OF set]], of c] fees AB(1)
    by (auto simp: taker_asset_def paid_in_def ask_def split: if_splits)
  have cpos: "0 \<le> stock_fee val maker rate (val amount)" "0 \<le> money_fee val maker rate (val amount)"
    using fees ft(2) fm(2) by (auto split: if_splits)
  have "asset_supply val (ledger S') c \<le> asset_supply val ?L c" for c
    using sup [of c] charge_nonneg [OF cpos(1)] charge_nonneg [OF cpos(2)] by auto
  then have mono: "asset_supply val (ledger S') c * 10 ^ nat ?q \<le> asset_supply val ?L c * 10 ^ nat ?q" for c
    by (intro mult_right_mono) auto
  have "dict_asset (ledger S') = ?D" using set by blast
  then have roomy': "roomy val (ledger S') m"
    using ok(5) order.strict_trans1 [OF mono] unfolding roomy_def by simp
  have conf': "conf_ok (dict_asset (ledger S')) m" using ok(3) set by simp
  have led': "ledger_ok fin val (ledger S')" using set by simp
  have others: "\<forall>j order. m_orders m j = Some order \<longrightarrow> backed fin val m order \<and> 0 < val (o_left order)"
    using market_okD(6) [OF mo] by blast
  from after_deal_ok [OF E ok(1) others i fill_maker_key mk(1) led' conf' roomy' cov, where live = live]
  obtain m' S'' where r: "after_deal E live m ?mk S' = (m', S'')" "ledger S'' = ledger S'"
    "order_id_start S'' = order_id_start S'" "deals_id_start S'' = deals_id_start S'"
    "market_ok M fin val R m' (ledger S'')" "same_config m m'"
    "m' = (if val (o_left ?mk) = 0 then without ?m1 ?mk else ?m1)"
    by (elim exE conjE) (rule that)
  have keep: "bal val ?L (user, BALANCE_TYPE_AVAILABLE, ?A) - taker_pays val maker (val amount)
      \<le> bal val (ledger S') (user, BALANCE_TYPE_AVAILABLE, ?A)"
  proof -
    have "charge (save_prec ?D ?A) (val fee_m) \<le> val x" using charge_le [OF gx fm(3)] aty(2) by simp
    moreover have "taker_pays val maker (val amount) = val x" by (simp add: taker_pays_def x_def ask_def D(2))
    ultimately show ?thesis unfolding bal' using AB(1) freeze_types by (auto simp: credit_apply)
  qed
  have "dealt M fin val R user rate maker (val amount) m S m' S''"
    unfolding dealt_def using r S' keep sup set mk(2) fill_maker_key
    by (auto intro!: exI [of _ ?mk])
  with r(1) D show ?thesis by blast
qed

text \<open>The two kinds of deal of the code.\<close>

lemma deal_amount_val:
  assumes "fin (o_left taker)" "fin (o_left maker)"
  shows "fin (deal_amount M taker maker)" "val (deal_amount M taker maker) = min (val (o_left taker)) (val (o_left maker))"
  using assms by (auto simp: deal_amount_def cmp)

lemma ask_deal_ok:
  assumes E: "mpd E = M" and mo: "market_ok M fin val R m (ledger S)" and i: "m_orders m (o_id maker) = Some maker"
    and side: "o_side maker = MARKET_ORDER_SIDE_BID"
    and t: "fin (o_left taker)" "0 < val (o_left taker)" "on_grid (m_stock_prec m) (val (o_left taker))"
      "val (o_left taker) \<le> bal val (ledger S) (o_user_id taker, BALANCE_TYPE_AVAILABLE, m_stock m)"
      "rate_ok fin val m (o_taker_fee taker)"
  defines "a \<equiv> deal_amount M taker maker"
  shows "\<exists>m' S' deal fee. ask_deal E live m taker maker S = (m', fill_taker M a a deal fee (stamp E S taker), S') \<and>
    dealt M fin val R (o_user_id taker) (o_taker_fee taker) maker (val a) m S m' S' \<and>
    fin a \<and> 0 < val a \<and> val a = min (val (o_left taker)) (val (o_left maker)) \<and> on_grid (m_stock_prec m) (val a)"
proof -
  have bk: "backed fin val m maker" "0 < val (o_left maker)" using market_okD(6) [OF mo i] by auto
  then have l: "fin (o_left maker)" "on_grid (m_stock_prec m) (val (o_left maker))"
    by (auto simp: backed_def lim_ok_def)
  have a: "fin a" "0 < val a" "val a \<le> val (o_left maker)" "on_grid (m_stock_prec m) (val a)"
    "val a = min (val (o_left taker)) (val (o_left maker))"
    using deal_amount_val [OF t(1) l(1)] t(2,3) bk(2) l(2) by (auto simp: a_def min_def)
  have not_ask: "(o_side maker = MARKET_ORDER_SIDE_ASK) = False" using side sides_differ by simp
  let ?deal = "mpd_mul M (o_price maker) a"
  let ?ask_fee = "mpd_mul M ?deal (o_taker_fee taker)" and ?bid_fee = "mpd_mul M a (o_maker_fee maker)"
  let ?t = "stamp E S taker" and ?k = "stamp E S maker"
  let ?S = "settle_ask E live m (fill_taker M a a ?deal ?ask_fee ?t) ?k (o_price maker) a ?deal ?ask_fee ?bid_fee
    (record_deal E live m (o_update_time ?t) (deals_id_start (next_deal S)) ?t MARKET_ROLE_TAKER
      ?k MARKET_ROLE_MAKER (o_price maker) a ?deal ?ask_fee ?bid_fee MARKET_ORDER_SIDE_ASK (next_deal S))"
  have pays: "taker_pays val maker (val a) \<le> bal val (ledger S) (o_user_id taker, BALANCE_TYPE_AVAILABLE, taker_asset m maker)"
    using t(4) a(5) by (simp add: taker_pays_def taker_asset_def not_ask)
  from deal_core [OF E mo i a(1-4) t(5) pays, where S' = ?S and ?S0.0 = S and live = live]
  obtain m' S' where r: "after_deal E live m (fill_maker M ?deal a ?deal ?bid_fee ?k) ?S = (m', S')"
    "dealt M fin val R (o_user_id taker) (o_taker_fee taker) maker (val a) m S m' S'"
    by (auto simp: not_ask ledger_settle E engine_frame order_simps taker_asset_def paid_in_def)
  have "ask_deal E live m taker maker S = (m', fill_taker M a a ?deal ?ask_fee ?t, S')"
    unfolding ask_deal_def Let_def E a_def [symmetric] r(1) by simp
  with r(2) a show ?thesis by blast
qed

lemma bid_deal_ok:
  assumes E: "mpd E = M" and mo: "market_ok M fin val R m (ledger S)" and i: "m_orders m (o_id maker) = Some maker"
    and side: "o_side maker = MARKET_ORDER_SIDE_ASK"
    and a: "fin a" "0 < val a" "val a \<le> val (o_left maker)" "on_grid (m_stock_prec m) (val a)"
    and t: "val (o_price maker) * val a \<le> bal val (ledger S) (o_user_id taker, BALANCE_TYPE_AVAILABLE, m_money m)"
      "rate_ok fin val m (o_taker_fee taker)"
  shows "\<exists>m' S' deal fee. bid_deal E live m taker maker a used S =
      (m', fill_taker M (used deal) a deal fee (stamp E S taker), S') \<and>
    dealt M fin val R (o_user_id taker) (o_taker_fee taker) maker (val a) m S m' S' \<and>
    fin deal \<and> val deal = val (o_price maker) * val a"
proof -
  let ?deal = "mpd_mul M (o_price maker) a"
  let ?ask_fee = "mpd_mul M ?deal (o_maker_fee maker)" and ?bid_fee = "mpd_mul M a (o_taker_fee taker)"
  let ?t = "stamp E S taker" and ?k = "stamp E S maker"
  let ?S = "settle_bid E live m (fill_taker M (used ?deal) a ?deal ?bid_fee ?t) ?k (o_price maker) a ?deal ?ask_fee ?bid_fee
    (record_deal E live m (o_update_time ?t) (deals_id_start (next_deal S)) ?k MARKET_ROLE_MAKER
      ?t MARKET_ROLE_TAKER (o_price maker) a ?deal ?ask_fee ?bid_fee MARKET_ORDER_SIDE_BID (next_deal S))"
  have pays: "taker_pays val maker (val a) \<le> bal val (ledger S) (o_user_id taker, BALANCE_TYPE_AVAILABLE, taker_asset m maker)"
    using t(1) by (simp add: taker_pays_def taker_asset_def side)
  from deal_core [OF E mo i a t(2) pays, where S' = ?S and ?S0.0 = S and live = live]
  obtain m' S' where r: "after_deal E live m (fill_maker M a a ?deal ?ask_fee ?k) ?S = (m', S')"
    "dealt M fin val R (o_user_id taker) (o_taker_fee taker) maker (val a) m S m' S'"
    "fin ?deal" "val ?deal = val (o_price maker) * val a"
    by (auto simp: side ledger_settle E engine_frame order_simps taker_asset_def paid_in_def)
  have "bid_deal E live m taker maker a used S = (m', fill_taker M (used ?deal) a ?deal ?bid_fee ?t, S')"
    unfolding bid_deal_def Let_def E r(1) by simp
  with r(2-4) show ?thesis by blast
qed

end

section \<open>Runs of deals\<close>

text \<open>
  The abstract specification of a match: a sequence of deals of one taker, each with an open
  order that \<open>pick\<close> allows (the best order of the opposite book, at an acceptable price).
  The list holds the makers as they were before the deal, and the amounts.
\<close>

inductive trades ::
  "'d mpd_ops \<Rightarrow> ('d \<Rightarrow> bool) \<Rightarrow> ('d \<Rightarrow> rat) \<Rightarrow> (u32 \<Rightarrow> string \<Rightarrow> rat) \<Rightarrow> u32 \<Rightarrow> 'd \<Rightarrow> ('d order \<Rightarrow> 'd market \<Rightarrow> bool) \<Rightarrow>
   'd market \<Rightarrow> ('d, 'j) engine \<Rightarrow> ('d order \<times> rat) list \<Rightarrow> 'd market \<Rightarrow> ('d, 'j) engine \<Rightarrow> bool"
  for M fin val R user rate pick
where
  trades_nil: "trades M fin val R user rate pick m S [] m S"
| trades_step: "m_orders m (o_id maker) = Some maker \<Longrightarrow> pick maker m \<Longrightarrow> 0 < a \<Longrightarrow> a \<le> val (o_left maker) \<Longrightarrow>
    dealt M fin val R user rate maker a m S m1 S1 \<Longrightarrow> trades M fin val R user rate pick m1 S1 ds m' S' \<Longrightarrow>
    trades M fin val R user rate pick m S ((maker, a) # ds) m' S'"

inductive_simps trades_nil_iff: "trades M fin val R user rate pick m S [] m' S'"
inductive_cases trades_stepE: "trades M fin val R user rate pick m S (d # ds) m' S'"

text \<open>The fees a run charges in an asset.\<close>

definition deal_charge ::
  "('d \<Rightarrow> rat) \<Rightarrow> (string \<rightharpoonup> asset_type) \<Rightarrow> 'd market \<Rightarrow> 'd \<Rightarrow> string \<Rightarrow> 'd order \<times> rat \<Rightarrow> rat" where
  "deal_charge val A m rate a d =
     (if a = m_stock m then charge (save_prec A a) (stock_fee val (fst d) rate (snd d))
      else if a = m_money m then charge (save_prec A a) (money_fee val (fst d) rate (snd d)) else 0)"

lemma dealt_orders:
  assumes "dealt M fin val R user rate maker a m S m1 S1" "m_orders m (o_id maker) = Some maker" "m_orders m1 j = Some order'"
  shows "\<exists>order. m_orders m j = Some order \<and> same_key order order'"
  using assms
  by (auto simp: dealt_def without_def same_key_def split: if_splits)

lemma trades_ok:
  assumes "trades M fin val R user rate pick m S ds m' S'" "market_ok M fin val R m (ledger S)"
  shows "market_ok M fin val R m' (ledger S') \<and> same_config m m' \<and>
    dict_asset (ledger S') = dict_asset (ledger S) \<and> order_id_start S' = order_id_start S \<and>
    deals_id_start S' = deals_id_start S + of_nat (length ds) \<and>
    (\<forall>j order'. m_orders m' j = Some order' \<longrightarrow> (\<exists>order. m_orders m j = Some order \<and> same_key order order')) \<and>
    asset_supply val (ledger S') a = asset_supply val (ledger S) a -
      (\<Sum>d\<leftarrow>ds. deal_charge val (dict_asset (ledger S)) m rate a d)"
  using assms
proof (induction rule: trades.induct)
  case (trades_nil m S)
  then show ?case by (auto simp: same_config_refl same_key_def)
next
  case (trades_step m maker a' S m1 S1 ds m' S')
  have d: "market_ok M fin val R m1 (ledger S1)" "same_config m m1" "dict_asset (ledger S1) = dict_asset (ledger S)"
    "order_id_start S1 = order_id_start S" "deals_id_start S1 = deals_id_start S + 1"
    "asset_supply val (ledger S1) a = asset_supply val (ledger S) a - deal_charge val (dict_asset (ledger S)) m rate a (maker, a')"
    using trades_step.hyps(5) by (auto simp: dealt_def deal_charge_def)
  have dc: "deal_charge val (dict_asset (ledger S)) m1 rate a = deal_charge val (dict_asset (ledger S)) m rate a"
    using d(2) by (simp add: deal_charge_def same_config_def fun_eq_iff)
  note IH = trades_step.IH [OF d(1)]
  have ord: "\<exists>order. m_orders m j = Some order \<and> same_key order order'" if "m_orders m' j = Some order'" for j order'
  proof -
    from IH that obtain o1 where 1: "m_orders m1 j = Some o1" "same_key o1 order'" by blast
    from dealt_orders [OF trades_step.hyps(5,1) 1(1)] 1(2) show ?thesis by (auto simp: same_key_def)
  qed
  have sup: "asset_supply val (ledger S') a = asset_supply val (ledger S) a -
      (\<Sum>d\<leftarrow>(maker, a') # ds. deal_charge val (dict_asset (ledger S)) m rate a d)"
    using IH d(3,6) dc by simp
  have cnt: "deals_id_start S' = deals_id_start S + of_nat (length ((maker, a') # ds))"
    using IH d(5) by simp
  have mk: "market_ok M fin val R m' (ledger S')" "same_config m1 m'" "dict_asset (ledger S') = dict_asset (ledger S)"
    "order_id_start S' = order_id_start S"
    using IH d(3,4) by auto
  show ?case using mk(1) same_config_trans [OF d(2) mk(2)] mk(3,4) sup cnt ord by blast
qed

end
