(* ===== verification/Matches.thy ===== *)
theory Matches
  imports Trading
begin

text \<open>
  The four matching loops implement runs of deals: each deal is with the best order of the
  opposite book, and a loop stops only when the taker is filled or no order is left at an
  acceptable price.
\<close>

section \<open>The taker\<close>

text \<open>A taker that sells: \<open>left\<close> is an amount of stock it can pay.\<close>

definition seller_ok :: "('d \<Rightarrow> bool) \<Rightarrow> ('d \<Rightarrow> rat) \<Rightarrow> 'd market \<Rightarrow> 'd order \<Rightarrow> 'd ledger \<Rightarrow> bool" where
  "seller_ok fin val m t L \<longleftrightarrow> fin (o_left t) \<and> 0 \<le> val (o_left t) \<and> on_grid (m_stock_prec m) (val (o_left t)) \<and>
     val (o_left t) \<le> bal val L (o_user_id t, BALANCE_TYPE_AVAILABLE, m_stock m) \<and> rate_ok fin val m (o_taker_fee t)"

text \<open>A limit order that buys: \<open>left\<close> is an amount of stock, and its price times it can be paid.\<close>

definition buyer_ok :: "('d \<Rightarrow> bool) \<Rightarrow> ('d \<Rightarrow> rat) \<Rightarrow> 'd market \<Rightarrow> 'd order \<Rightarrow> 'd ledger \<Rightarrow> bool" where
  "buyer_ok fin val m t L \<longleftrightarrow> fin (o_left t) \<and> 0 \<le> val (o_left t) \<and> on_grid (m_stock_prec m) (val (o_left t)) \<and>
     val (o_price t) * val (o_left t) \<le> bal val L (o_user_id t, BALANCE_TYPE_AVAILABLE, m_money m) \<and>
     rate_ok fin val m (o_taker_fee t)"

text \<open>A market order that buys: \<open>left\<close> is an amount of money.\<close>

definition spender_ok :: "('d \<Rightarrow> bool) \<Rightarrow> ('d \<Rightarrow> rat) \<Rightarrow> 'd market \<Rightarrow> 'd order \<Rightarrow> 'd ledger \<Rightarrow> bool" where
  "spender_ok fin val m t L \<longleftrightarrow> fin (o_left t) \<and> 0 \<le> val (o_left t) \<and>
     on_grid (save_prec (dict_asset L) (m_money m)) (val (o_left t)) \<and>
     val (o_left t) \<le> bal val L (o_user_id t, BALANCE_TYPE_AVAILABLE, m_money m) \<and> rate_ok fin val m (o_taker_fee t)"

text \<open>Which makers a run may deal with.\<close>

definition best_bid :: "'d order \<Rightarrow> 'd market \<Rightarrow> bool" where
  "best_bid maker m \<longleftrightarrow> (\<exists>rest. m_bids m = o_id maker # rest)"

definition best_ask :: "'d order \<Rightarrow> 'd market \<Rightarrow> bool" where
  "best_ask maker m \<longleftrightarrow> (\<exists>rest. m_asks m = o_id maker # rest)"

abbreviation sum_dealt :: "('d order \<times> rat) list \<Rightarrow> rat" where
  "sum_dealt ds \<equiv> sum_list (map snd ds)"

abbreviation sum_paid :: "('d \<Rightarrow> rat) \<Rightarrow> ('d order \<times> rat) list \<Rightarrow> rat" where
  "sum_paid val ds \<equiv> (\<Sum>d\<leftarrow>ds. val (o_price (fst d)) * snd d)"

lemma lim_ok_stamp: "lim_ok fin val m (stamp E S order) = lim_ok fin val m order"
  by (simp add: lim_ok_def order_simps)

text \<open>What a taker keeps through a match.\<close>

definition same_taker :: "'d order \<Rightarrow> 'd order \<Rightarrow> bool" where
  "same_taker t t' \<longleftrightarrow> same_key t t' \<and> o_taker_fee t' = o_taker_fee t \<and> o_maker_fee t' = o_maker_fee t \<and>
     o_amount t' = o_amount t"

lemma same_taker_refl: "same_taker t t"
  by (simp add: same_taker_def same_key_def)

lemma same_taker_trans: "same_taker t t' \<Longrightarrow> same_taker t' t'' \<Longrightarrow> same_taker t t''"
  by (simp add: same_taker_def same_key_def)

lemma same_taker_fill: "same_taker t (fill_taker M used a deal fee (stamp E S t))"
  by (simp add: same_taker_def same_key_def order_simps)

lemma same_taker_simps:
  assumes "same_taker t t'"
  shows "o_user_id t' = o_user_id t" "o_taker_fee t' = o_taker_fee t" "o_price t' = o_price t"
  using assms by (simp_all add: same_taker_def same_key_def)

section \<open>The books during a match\<close>

lemma dealt_books:
  assumes "dealt M fin val R user rate maker a m S m1 S1"
  shows "m_bids m1 = (if a = val (o_left maker) then remove1 (o_id maker) (m_bids m) else m_bids m)"
    "m_asks m1 = (if a = val (o_left maker) then remove1 (o_id maker) (m_asks m) else m_asks m)"
  using assms by (auto simp: dealt_def without_def same_key_def split: if_splits)

context mpd_lib
begin

lemma book_member:
  assumes "market_ok M fin val R m L"
  shows "n \<in> set (m_bids m) \<Longrightarrow> \<exists>b. m_orders m n = Some b \<and> o_id b = n \<and> o_side b = MARKET_ORDER_SIDE_BID"
    "n \<in> set (m_asks m) \<Longrightarrow> \<exists>b. m_orders m n = Some b \<and> o_id b = n \<and> o_side b = MARKET_ORDER_SIDE_ASK"
  using market_okD(1,8) [OF assms] by (auto simp: struct_ok_def book_sorted_def side_ids_def key_ok_def)

text \<open>The first order of a book has the best price.\<close>

lemma best_bid_price:
  assumes "market_ok M fin val R m L" "m_bids m = n # rest" "m_orders m n = Some b"
    "m_orders m j = Some c" "o_side c = MARKET_ORDER_SIDE_BID"
  shows "val (o_price c) \<le> val (o_price b)"
proof (cases "j = n")
  case False
  have s: "orders_ok fin (m_orders m)" "book_sorted M (m_orders m) MARKET_ORDER_SIDE_BID (m_bids m)"
    using market_okD(1) [OF assms(1)] by (auto simp: struct_ok_def)
  have "j \<in> set rest" using s(2) assms(2,4,5) False by (auto simp: book_sorted_def side_ids_def)
  then have "book_compare M (m_orders m) n j < 0" using s(2) assms(2) by (simp add: book_sorted_def)
  moreover have "o_side b = MARKET_ORDER_SIDE_BID" using book_member(1) [OF assms(1), of n] assms(2,3) by auto
  ultimately show ?thesis using book_compare_bid [OF s(1) assms(3,4)] False by auto
qed (use assms in simp)

lemma best_ask_price:
  assumes "market_ok M fin val R m L" "m_asks m = n # rest" "m_orders m n = Some b"
    "m_orders m j = Some c" "o_side c = MARKET_ORDER_SIDE_ASK"
  shows "val (o_price b) \<le> val (o_price c)"
proof (cases "j = n")
  case False
  have s: "orders_ok fin (m_orders m)" "book_sorted M (m_orders m) MARKET_ORDER_SIDE_ASK (m_asks m)"
    using market_okD(1) [OF assms(1)] by (auto simp: struct_ok_def)
  have "j \<in> set rest" using s(2) assms(2,4,5) False by (auto simp: book_sorted_def side_ids_def)
  then have "book_compare M (m_orders m) n j < 0" using s(2) assms(2) by (simp add: book_sorted_def)
  moreover have "o_side b = MARKET_ORDER_SIDE_ASK" using book_member(2) [OF assms(1), of n] assms(2,3) by auto
  ultimately show ?thesis using book_compare_ask [OF s(1) assms(3,4)] False by auto
qed (use assms in simp)

lemma empty_book:
  assumes "market_ok M fin val R m L"
  shows "m_bids m = [] \<Longrightarrow> m_orders m j = Some c \<Longrightarrow> o_side c \<noteq> MARKET_ORDER_SIDE_BID"
    "m_asks m = [] \<Longrightarrow> m_orders m j = Some c \<Longrightarrow> o_side c \<noteq> MARKET_ORDER_SIDE_ASK"
  using market_okD(1) [OF assms] by (auto simp: struct_ok_def book_sorted_def side_ids_def)

lemma left_zero: "fin (o_left t) \<Longrightarrow> mpd_cmp M (o_left t) (mpd_zero M) = 0 \<longleftrightarrow> val (o_left t) = 0"
  by (simp add: cmp)

lemma room_stock:
  assumes "market_ok M fin val R m L"
  shows "bal val L (u, t, m_stock m) * 10 ^ nat (digits (dict_asset L) m) < 10 ^ 34"
    "bal val L (u, t, m_money m) * 10 ^ nat (digits (dict_asset L) m) < 10 ^ 34"
proof -
  have le: "bal val L (u, t, a) * 10 ^ nat (digits (dict_asset L) m) \<le> asset_supply val L a * 10 ^ nat (digits (dict_asset L) m)" for a
    by (intro mult_right_mono balance_le_supply [OF market_okD(2) [OF assms]]) auto
  show "bal val L (u, t, m_stock m) * 10 ^ nat (digits (dict_asset L) m) < 10 ^ 34"
    "bal val L (u, t, m_money m) * 10 ^ nat (digits (dict_asset L) m) < 10 ^ 34"
    using market_okD(5) [OF assms] order.strict_trans1 [OF le] unfolding roomy_def by auto
qed

lemma digits_ge:
  assumes "conf_ok A m"
  shows "m_stock_prec m \<le> digits A m" "m_stock_prec m + m_money_prec m \<le> digits A m" "digits A m \<le> 6176"
    "0 \<le> m_stock_prec m" "0 \<le> m_money_prec m" "save_prec A (m_money m) \<le> digits A m"
    "m_stock_prec m + m_money_prec m \<le> save_prec A (m_money m)"
  using assms by (auto simp: conf_ok_def digits_def)

text \<open>A selling taker after a deal.\<close>

lemma seller_step:
  fixes deal fee :: 'd and E :: "('d, 'j) env"
  assumes mo: "market_ok M fin val R m (ledger S)" and t: "seller_ok fin val m t (ledger S)"
    and a: "fin a" "0 < val a" "val a \<le> val (o_left t)" "on_grid (m_stock_prec m) (val a)"
    and d: "dealt M fin val R (o_user_id t) rate maker (val a) m S m1 S1" and side: "o_side maker = MARKET_ORDER_SIDE_BID"
  defines "t1 \<equiv> fill_taker M a a deal fee (stamp E S t)"
  shows "seller_ok fin val m1 t1 (ledger S1) \<and> val (o_left t1) = val (o_left t) - val a"
proof -
  have c: "same_config m m1" using d by (simp add: dealt_def)
  have st: "m_stock m1 = m_stock m" "m_stock_prec m1 = m_stock_prec m" using c by (auto simp: same_config_def)
  have "on_grid (m_stock_prec m) (val (o_left t) - val a)" using t a(4) by (auto simp: seller_ok_def intro: on_grid_diff)
  then have g: "on_grid (m_stock_prec m) (val (o_left t) - val a)" .
  note dg = digits_ge [OF market_okD(3) [OF mo]]
  have "fits (digits (dict_asset (ledger S)) m) (val (o_left t) - val a)"
    by (rule fits_room [OF g dg(4,1,3) _ room_stock(1) [OF mo, of "o_user_id t" BALANCE_TYPE_AVAILABLE]])
      (use t a in \<open>auto simp: seller_ok_def\<close>)
  from sub [OF _ a(1) this] t have s: "fin (o_left t1)" "val (o_left t1) = val (o_left t) - val a"
    by (auto simp: t1_def order_simps seller_ok_def)
  have "bal val (ledger S) (o_user_id t, BALANCE_TYPE_AVAILABLE, m_stock m) - val a
      \<le> bal val (ledger S1) (o_user_id t, BALANCE_TYPE_AVAILABLE, m_stock m)"
    using d side sides_differ by (simp add: dealt_def taker_asset_def taker_pays_def)
  then show ?thesis
    using t s g a(3) unfolding seller_ok_def same_config_simps [OF c] st
    by (simp add: t1_def order_simps)
qed

lemma limit_ask_loop_ok:
  assumes E: "mpd E = M"
  shows "market_ok M fin val R m (ledger S) \<Longrightarrow> seller_ok fin val m t (ledger S) \<Longrightarrow> lim_ok fin val m t \<Longrightarrow>
    ns = m_bids m \<or> val (o_left t) = 0 \<Longrightarrow>
    \<exists>m' t' S' ds. limit_ask_loop E live ns m t S = (m', t', S') \<and>
      trades M fin val R (o_user_id t) (o_taker_fee t)
        (\<lambda>maker m. best_bid maker m \<and> val (o_price t) \<le> val (o_price maker)) m S ds m' S' \<and>
      seller_ok fin val m' t' (ledger S') \<and> lim_ok fin val m' t' \<and> same_taker t t' \<and>
      val (o_left t') = val (o_left t) - sum_dealt ds \<and>
      (val (o_left t') = 0 \<or>
        (\<forall>j b. m_orders m' j = Some b \<longrightarrow> o_side b = MARKET_ORDER_SIDE_BID \<longrightarrow> val (o_price b) < val (o_price t)))"
proof (induction ns arbitrary: m t S)
  case Nil
  then show ?case using empty_book(1) [OF Nil.prems(1)] by (auto intro!: exI trades_nil simp: same_taker_refl)
next
  case (Cons n ns)
  note mo = Cons.prems(1) and t = Cons.prems(2) and l = Cons.prems(3)
  have fl: "fin (o_left t)" and nn: "0 \<le> val (o_left t)" using t by (auto simp: seller_ok_def)
  show ?case
  proof (cases "val (o_left t) = 0")
    case True
    then show ?thesis
      using left_zero [OF fl] t l by (auto intro!: exI [of _ "[]"] trades_nil simp: E same_taker_refl)
  next
    case False
    then have bids: "m_bids m = n # ns" using Cons.prems(4) by auto
    with book_member(1) [OF mo, of n] obtain k where k: "m_orders m n = Some k" "o_id k = n" "o_side k = MARKET_ORDER_SIDE_BID" by auto
    have fp: "fin (o_price t)" "fin (o_price k)" "0 < val (o_left k)"
      using l market_okD(6) [OF mo k(1)] by (auto simp: lim_ok_def backed_def)
    show ?thesis
    proof (cases "val (o_price t) > val (o_price k)")
      case True
      have "val (o_price b) < val (o_price t)" if "m_orders m j = Some b" "o_side b = MARKET_ORDER_SIDE_BID" for j b
        using best_bid_price [OF mo bids k(1) that] True by linarith
      then show ?thesis
        using True False left_zero [OF fl] fp t l k
        by (auto intro!: exI [of _ "[]"] trades_nil simp: E same_taker_refl cmp)
    next
      case price: False
      let ?a = "deal_amount M t k"
      from t nn False have t': "0 < val (o_left t)" "on_grid (m_stock_prec m) (val (o_left t))"
        "val (o_left t) \<le> bal val (ledger S) (o_user_id t, BALANCE_TYPE_AVAILABLE, m_stock m)" "rate_ok fin val m (o_taker_fee t)"
        by (auto simp: seller_ok_def)
      from ask_deal_ok [OF E mo _ k(3) fl t', where live = live] k(1,2)
      obtain m1 S1 deal fee where r: "ask_deal E live m t k S = (m1, fill_taker M ?a ?a deal fee (stamp E S t), S1)"
        and d: "dealt M fin val R (o_user_id t) (o_taker_fee t) k (val ?a) m S m1 S1"
        and a: "fin ?a" "0 < val ?a" "val ?a = min (val (o_left t)) (val (o_left k))" "on_grid (m_stock_prec m) (val ?a)"
        by auto
      let ?t = "fill_taker M ?a ?a deal fee (stamp E S t)"
      have le: "val ?a \<le> val (o_left t)" "val ?a \<le> val (o_left k)" using a(3) by auto
      have s: "seller_ok fin val m1 ?t (ledger S1)" "val (o_left ?t) = val (o_left t) - val ?a"
        using seller_step [OF mo t a(1,2) le(1) a(4) d k(3)] by auto
      have c: "same_config m m1" and mo1: "market_ok M fin val R m1 (ledger S1)" using d by (auto simp: dealt_def)
      have l1: "lim_ok fin val m1 ?t"
        using fill_taker_ok [of m "stamp E S t" ?a deal fee] l a(1,2,4) le(1)
        unfolding same_config_simps [OF c] lim_ok_stamp stamp_simps by blast
      have next_ns: "ns = m_bids m1 \<or> val (o_left ?t) = 0"
        using dealt_books(1) [OF d] bids k(2) a(3) s(2) by (auto simp: min_def split: if_splits)
      note st = same_taker_fill [of t M ?a ?a deal fee E S]
      from Cons.IH [OF mo1 s(1) l1 next_ns] obtain m' t' S' ds where
        IH: "limit_ask_loop E live ns m1 ?t S1 = (m', t', S')"
        "trades M fin val R (o_user_id t) (o_taker_fee t)
          (\<lambda>maker m. best_bid maker m \<and> val (o_price t) \<le> val (o_price maker)) m1 S1 ds m' S'"
        "seller_ok fin val m' t' (ledger S')" "lim_ok fin val m' t'" "same_taker ?t t'"
        "val (o_left t') = val (o_left ?t) - sum_dealt ds"
        "val (o_left t') = 0 \<or> (\<forall>j b. m_orders m' j = Some b \<longrightarrow> o_side b = MARKET_ORDER_SIDE_BID \<longrightarrow> val (o_price b) < val (o_price t))"
        unfolding same_taker_simps [OF st] by blast
      have "limit_ask_loop E live (n # ns) m t S = (m', t', S')"
        using False price r IH(1) k(1) fp left_zero [OF fl] by (simp add: E cmp)
      moreover have "trades M fin val R (o_user_id t) (o_taker_fee t)
          (\<lambda>maker m. best_bid maker m \<and> val (o_price t) \<le> val (o_price maker)) m S ((k, val ?a) # ds) m' S'"
        by (rule trades_step [OF _ _ a(2) le(2) d IH(2)]) (use k price bids in \<open>auto simp: best_bid_def\<close>)
      moreover have "val (o_left t') = val (o_left t) - sum_dealt ((k, val ?a) # ds)" using IH(6) s(2) by simp
      ultimately show ?thesis using IH(3,4,7) same_taker_trans [OF st IH(5)] by blast
    qed
  qed
qed

lemma market_ask_loop_ok:
  assumes E: "mpd E = M"
  shows "market_ok M fin val R m (ledger S) \<Longrightarrow> seller_ok fin val m t (ledger S) \<Longrightarrow>
    ns = m_bids m \<or> val (o_left t) = 0 \<Longrightarrow>
    \<exists>m' t' S' ds. market_ask_loop E live ns m t S = (m', t', S') \<and>
      trades M fin val R (o_user_id t) (o_taker_fee t) best_bid m S ds m' S' \<and>
      seller_ok fin val m' t' (ledger S') \<and> same_taker t t' \<and>
      val (o_left t') = val (o_left t) - sum_dealt ds \<and> (val (o_left t') = 0 \<or> m_bids m' = [])"
proof (induction ns arbitrary: m t S)
  case Nil
  then show ?case by (auto intro!: exI trades_nil simp: same_taker_refl)
next
  case (Cons n ns)
  note mo = Cons.prems(1) and t = Cons.prems(2)
  have fl: "fin (o_left t)" and nn: "0 \<le> val (o_left t)" using t by (auto simp: seller_ok_def)
  show ?case
  proof (cases "val (o_left t) = 0")
    case True
    then show ?thesis
      using left_zero [OF fl] t by (auto intro!: exI [of _ "[]"] trades_nil simp: E same_taker_refl)
  next
    case False
    then have bids: "m_bids m = n # ns" using Cons.prems(3) by auto
    with book_member(1) [OF mo, of n] obtain k where k: "m_orders m n = Some k" "o_id k = n" "o_side k = MARKET_ORDER_SIDE_BID" by auto
    let ?a = "deal_amount M t k"
    from t nn False have t': "0 < val (o_left t)" "on_grid (m_stock_prec m) (val (o_left t))"
      "val (o_left t) \<le> bal val (ledger S) (o_user_id t, BALANCE_TYPE_AVAILABLE, m_stock m)" "rate_ok fin val m (o_taker_fee t)"
      by (auto simp: seller_ok_def)
    from ask_deal_ok [OF E mo _ k(3) fl t', where live = live] k(1,2)
    obtain m1 S1 deal fee where r: "ask_deal E live m t k S = (m1, fill_taker M ?a ?a deal fee (stamp E S t), S1)"
      and d: "dealt M fin val R (o_user_id t) (o_taker_fee t) k (val ?a) m S m1 S1"
      and a: "fin ?a" "0 < val ?a" "val ?a = min (val (o_left t)) (val (o_left k))" "on_grid (m_stock_prec m) (val ?a)"
      by auto
    let ?t = "fill_taker M ?a ?a deal fee (stamp E S t)"
    have le: "val ?a \<le> val (o_left t)" "val ?a \<le> val (o_left k)" using a(3) by auto
    have s: "seller_ok fin val m1 ?t (ledger S1)" "val (o_left ?t) = val (o_left t) - val ?a"
      using seller_step [OF mo t a(1,2) le(1) a(4) d k(3)] by auto
    have mo1: "market_ok M fin val R m1 (ledger S1)" using d by (auto simp: dealt_def)
    have next_ns: "ns = m_bids m1 \<or> val (o_left ?t) = 0"
      using dealt_books(1) [OF d] bids k(2) a(3) s(2) by (auto simp: min_def split: if_splits)
    note st = same_taker_fill [of t M ?a ?a deal fee E S]
    from Cons.IH [OF mo1 s(1) next_ns] obtain m' t' S' ds where
      IH: "market_ask_loop E live ns m1 ?t S1 = (m', t', S')"
      "trades M fin val R (o_user_id t) (o_taker_fee t) best_bid m1 S1 ds m' S'"
      "seller_ok fin val m' t' (ledger S')" "same_taker ?t t'"
      "val (o_left t') = val (o_left ?t) - sum_dealt ds" "val (o_left t') = 0 \<or> m_bids m' = []"
      unfolding same_taker_simps [OF st] by blast
    have "market_ask_loop E live (n # ns) m t S = (m', t', S')"
      using False r IH(1) k(1) left_zero [OF fl] by (simp add: E)
    moreover have "trades M fin val R (o_user_id t) (o_taker_fee t) best_bid m S ((k, val ?a) # ds) m' S'"
      by (rule trades_step [OF _ _ a(2) le(2) d IH(2)]) (use k bids in \<open>auto simp: best_bid_def\<close>)
    moreover have "val (o_left t') = val (o_left t) - sum_dealt ((k, val ?a) # ds)" using IH(5) s(2) by simp
    ultimately show ?thesis using IH(3,6) same_taker_trans [OF st IH(4)] by blast
  qed
qed

text \<open>A buying taker after a deal.\<close>

lemma buyer_step:
  fixes deal fee :: 'd and E :: "('d, 'j) env"
  assumes mo: "market_ok M fin val R m (ledger S)" and t: "buyer_ok fin val m t (ledger S)" and l: "lim_ok fin val m t"
    and a: "fin a" "0 < val a" "val a \<le> val (o_left t)" "on_grid (m_stock_prec m) (val a)"
    and d: "dealt M fin val R (o_user_id t) rate maker (val a) m S m1 S1" and side: "o_side maker = MARKET_ORDER_SIDE_ASK"
    and price: "val (o_price maker) \<le> val (o_price t)"
  defines "t1 \<equiv> fill_taker M a a deal fee (stamp E S t)"
  shows "buyer_ok fin val m1 t1 (ledger S1) \<and> lim_ok fin val m1 t1 \<and> val (o_left t1) = val (o_left t) - val a"
proof -
  have c: "same_config m m1" using d by (simp add: dealt_def)
  have st: "m_money m1 = m_money m" "m_stock_prec m1 = m_stock_prec m" using c by (auto simp: same_config_def)
  have f: "lim_ok fin val m t1" "val (o_left t1) = val (o_left t) - val a"
    using fill_taker_ok [of m "stamp E S t" a deal fee] l a
    unfolding t1_def lim_ok_stamp stamp_simps by auto
  have "bal val (ledger S) (o_user_id t, BALANCE_TYPE_AVAILABLE, m_money m) - val (o_price maker) * val a
      \<le> bal val (ledger S1) (o_user_id t, BALANCE_TYPE_AVAILABLE, m_money m)"
    using d side by (simp add: dealt_def taker_asset_def taker_pays_def)
  moreover have "val (o_price maker) * val a \<le> val (o_price t) * val a" using price a(2) by (intro mult_right_mono) auto
  ultimately have "val (o_price t) * (val (o_left t) - val a) \<le> bal val (ledger S1) (o_user_id t, BALANCE_TYPE_AVAILABLE, m_money m)"
    using t by (simp add: buyer_ok_def right_diff_distrib)
  moreover have "fin (o_left t1)" "0 \<le> val (o_left t1)" "on_grid (m_stock_prec m) (val (o_left t1))"
    using f(1) by (auto simp: lim_ok_def)
  moreover have "o_price t1 = o_price t" "o_user_id t1 = o_user_id t" "o_taker_fee t1 = o_taker_fee t"
    by (simp_all add: t1_def order_simps)
  ultimately show ?thesis
    using t f unfolding buyer_ok_def same_config_simps [OF c] st by simp
qed

lemma limit_bid_loop_ok:
  assumes E: "mpd E = M"
  shows "market_ok M fin val R m (ledger S) \<Longrightarrow> buyer_ok fin val m t (ledger S) \<Longrightarrow> lim_ok fin val m t \<Longrightarrow>
    ns = m_asks m \<or> val (o_left t) = 0 \<Longrightarrow>
    \<exists>m' t' S' ds. limit_bid_loop E live ns m t S = (m', t', S') \<and>
      trades M fin val R (o_user_id t) (o_taker_fee t)
        (\<lambda>maker m. best_ask maker m \<and> val (o_price maker) \<le> val (o_price t)) m S ds m' S' \<and>
      buyer_ok fin val m' t' (ledger S') \<and> lim_ok fin val m' t' \<and> same_taker t t' \<and>
      val (o_left t') = val (o_left t) - sum_dealt ds \<and>
      (val (o_left t') = 0 \<or>
        (\<forall>j b. m_orders m' j = Some b \<longrightarrow> o_side b = MARKET_ORDER_SIDE_ASK \<longrightarrow> val (o_price t) < val (o_price b)))"
proof (induction ns arbitrary: m t S)
  case Nil
  then show ?case using empty_book(2) [OF Nil.prems(1)] by (auto intro!: exI trades_nil simp: same_taker_refl)
next
  case (Cons n ns)
  note mo = Cons.prems(1) and t = Cons.prems(2) and l = Cons.prems(3)
  have fl: "fin (o_left t)" and nn: "0 \<le> val (o_left t)" using t by (auto simp: buyer_ok_def)
  show ?case
  proof (cases "val (o_left t) = 0")
    case True
    then show ?thesis
      using left_zero [OF fl] t l by (auto intro!: exI [of _ "[]"] trades_nil simp: E same_taker_refl)
  next
    case False
    then have asks: "m_asks m = n # ns" using Cons.prems(4) by auto
    with book_member(2) [OF mo, of n] obtain k where k: "m_orders m n = Some k" "o_id k = n" "o_side k = MARKET_ORDER_SIDE_ASK" by auto
    have bk: "backed fin val m k" "0 < val (o_left k)" using market_okD(6) [OF mo k(1)] by auto
    have fp: "fin (o_price t)" "fin (o_price k)" "0 < val (o_left k)" "fin (o_left k)" "on_grid (m_stock_prec m) (val (o_left k))"
      using l bk by (auto simp: lim_ok_def backed_def)
    show ?thesis
    proof (cases "val (o_price t) < val (o_price k)")
      case True
      have "val (o_price t) < val (o_price b)" if "m_orders m j = Some b" "o_side b = MARKET_ORDER_SIDE_ASK" for j b
        using best_ask_price [OF mo asks k(1) that] True by linarith
      then show ?thesis
        using True False left_zero [OF fl] fp t l k
        by (auto intro!: exI [of _ "[]"] trades_nil simp: E same_taker_refl cmp)
    next
      case price: False
      let ?a = "deal_amount M t k"
      from t have rate: "rate_ok fin val m (o_taker_fee t)" by (simp add: buyer_ok_def)
      have a: "fin ?a" "0 < val ?a" "val ?a \<le> val (o_left t)" "val ?a \<le> val (o_left k)"
        "val ?a = min (val (o_left t)) (val (o_left k))" "on_grid (m_stock_prec m) (val ?a)"
        using deal_amount_val [OF fl fp(4)] nn False fp(3,5) t by (auto simp: min_def buyer_ok_def)
      have "val (o_price k) * val ?a \<le> val (o_price t) * val (o_left t)"
        using price a l by (intro mult_mono) (auto simp: lim_ok_def)
      then have pays: "val (o_price k) * val ?a \<le> bal val (ledger S) (o_user_id t, BALANCE_TYPE_AVAILABLE, m_money m)"
        using t by (auto simp: buyer_ok_def)
      from bid_deal_ok [OF E mo _ k(3) a(1,2,4,6) pays rate, where live = live and used = "\<lambda>_. ?a"] k(1,2)
      obtain m1 S1 deal fee where r: "bid_deal E live m t k ?a (\<lambda>_. ?a) S = (m1, fill_taker M ?a ?a deal fee (stamp E S t), S1)"
        and d: "dealt M fin val R (o_user_id t) (o_taker_fee t) k (val ?a) m S m1 S1" by auto
      let ?t = "fill_taker M ?a ?a deal fee (stamp E S t)"
      have s: "buyer_ok fin val m1 ?t (ledger S1)" "lim_ok fin val m1 ?t" "val (o_left ?t) = val (o_left t) - val ?a"
        using buyer_step [OF mo t l a(1,2,3,6) d k(3)] price by auto
      have mo1: "market_ok M fin val R m1 (ledger S1)" using d by (auto simp: dealt_def)
      have next_ns: "ns = m_asks m1 \<or> val (o_left ?t) = 0"
        using dealt_books(2) [OF d] asks k(2) a(5) s(3) by (auto simp: min_def split: if_splits)
      note st = same_taker_fill [of t M ?a ?a deal fee E S]
      from Cons.IH [OF mo1 s(1,2) next_ns] obtain m' t' S' ds where
        IH: "limit_bid_loop E live ns m1 ?t S1 = (m', t', S')"
        "trades M fin val R (o_user_id t) (o_taker_fee t)
          (\<lambda>maker m. best_ask maker m \<and> val (o_price maker) \<le> val (o_price t)) m1 S1 ds m' S'"
        "buyer_ok fin val m' t' (ledger S')" "lim_ok fin val m' t'" "same_taker ?t t'"
        "val (o_left t') = val (o_left ?t) - sum_dealt ds"
        "val (o_left t') = 0 \<or> (\<forall>j b. m_orders m' j = Some b \<longrightarrow> o_side b = MARKET_ORDER_SIDE_ASK \<longrightarrow> val (o_price t) < val (o_price b))"
        unfolding same_taker_simps [OF st] by blast
      have "limit_bid_loop E live (n # ns) m t S = (m', t', S')"
        using False price r IH(1) k(1) fp left_zero [OF fl] by (simp add: E cmp Let_def)
      moreover have "trades M fin val R (o_user_id t) (o_taker_fee t)
          (\<lambda>maker m. best_ask maker m \<and> val (o_price maker) \<le> val (o_price t)) m S ((k, val ?a) # ds) m' S'"
        by (rule trades_step [OF _ _ a(2) a(4) d IH(2)]) (use k price asks in \<open>auto simp: best_ask_def\<close>)
      moreover have "val (o_left t') = val (o_left t) - sum_dealt ((k, val ?a) # ds)" using IH(6) s(3) by simp
      ultimately show ?thesis using IH(3,4,7) same_taker_trans [OF st IH(5)] by blast
    qed
  qed
qed

text \<open>
  The amount a market order to buy takes: the inner loop returns, and what it returns can be
  paid for.
\<close>

lemma buy_amount_ok:
  assumes mo: "market_ok M fin val R m (ledger S)" and t: "spender_ok fin val m t (ledger S)"
    and k: "m_orders m n = Some k"
  shows "\<exists>a. buy_amount M (m_stock_prec m) t k = Some a \<and> fin a \<and> 0 \<le> val a \<and> val a \<le> val (o_left k) \<and>
    on_grid (m_stock_prec m) (val a) \<and> val (o_price k) * val a \<le> val (o_left t)"
proof -
  let ?A = "dict_asset (ledger S)" and ?p = "val (o_price k)" and ?l = "val (o_left t)"
  let ?q = "digits (dict_asset (ledger S)) m"
  note conf = market_okD(3) [OF mo]
  note dg = digits_ge [OF conf]
  have lk: "lim_ok fin val m k" using market_okD(6) [OF mo k] by (auto simp: backed_def)
  then have p: "fin (o_price k)" "0 < ?p" "on_grid (m_money_prec m) ?p"
    and lf: "fin (o_left k)" "0 \<le> val (o_left k)" "on_grid (m_stock_prec m) (val (o_left k))"
    by (auto simp: lim_ok_def)
  from t have l: "fin (o_left t)" "0 \<le> ?l" and lb: "?l \<le> bal val (ledger S) (o_user_id t, BALANCE_TYPE_AVAILABLE, m_money m)"
    by (auto simp: spender_ok_def)
  have "1 \<le> ?p * 10 ^ nat (m_money_prec m)"
  proof -
    from p(3) obtain z :: int where z: "?p * 10 ^ nat (m_money_prec m) = of_int z" by (auto simp: on_grid_def)
    have "0 < ?p * 10 ^ nat (m_money_prec m)" using p(2) by simp
    then have "0 < z" unfolding z by simp
    then show ?thesis unfolding z by simp
  qed
  then have "?l * 1 \<le> ?l * (?p * 10 ^ nat (m_money_prec m))" using l(2) by (intro mult_left_mono) auto
  then have quot: "?l / ?p \<le> ?l * 10 ^ nat (m_money_prec m)" using p(2) by (simp add: pos_divide_le_eq mult_ac)
  have rm: "?l * 10 ^ nat ?q < 10 ^ 34"
    using order.strict_trans1 [OF mult_right_mono [OF lb] room_stock(2) [OF mo]] by simp
  have pw: "(10::rat) ^ nat (m_money_prec m) * 10 ^ nat (m_stock_prec m) \<le> 10 ^ nat ?q"
  proof -
    have "nat (m_money_prec m) + nat (m_stock_prec m) \<le> nat ?q" using dg by linarith
    then have "(10::rat) ^ (nat (m_money_prec m) + nat (m_stock_prec m)) \<le> 10 ^ nat ?q" by (intro power_increasing) auto
    then show ?thesis by (simp add: power_add)
  qed
  have "?l / ?p * 10 ^ nat (m_stock_prec m) \<le> ?l * 10 ^ nat (m_money_prec m) * 10 ^ nat (m_stock_prec m)"
    using quot by (intro mult_right_mono) auto
  also have "\<dots> \<le> ?l * 10 ^ nat ?q" using mult_left_mono [OF pw l(2)] by (simp add: mult.assoc)
  finally have b1: "?l / ?p * 10 ^ nat (m_stock_prec m) < 10 ^ 34" using rm by (rule order.strict_trans1)
  have pos: "0 \<le> ?l / ?p" using l(2) p(2) by simp
  have "?l / ?p * 1 \<le> ?l / ?p * 10 ^ nat (m_stock_prec m)" using pos by (intro mult_left_mono) auto
  then have b0: "?l / ?p < 10 ^ 34" using b1 by simp
  let ?d = "mpd_div M (o_left t) (o_price k)"
  let ?a = "mpd_rescale M ?d (- m_stock_prec m)"
  from div [OF l(1) p(1) l(2) p(2) b0] have d: "fin ?d" "0 \<le> val ?d" "val ?d \<le> ?l / ?p" by auto
  have "val ?d * 10 ^ nat (m_stock_prec m) \<le> ?l / ?p * 10 ^ nat (m_stock_prec m)"
    using d(3) by (intro mult_right_mono) auto
  then have "\<bar>val ?d\<bar> * 10 ^ nat (m_stock_prec m) < 10 ^ 34" using order.strict_trans1 [OF _ b1] d(2) by simp
  from rescale [OF d(1) dg(4) _ this] dg have a: "fin ?a" "val ?a = trunc_to (m_stock_prec m) (val ?d)" by auto
  have a': "0 \<le> val ?a" "val ?a \<le> val ?d" "on_grid (m_stock_prec m) (val ?a)"
    using a(2) d(2) by (simp_all add: trunc_to_nonneg trunc_to_le trunc_to_on_grid)
  have pay: "val ?a * ?p \<le> ?l"
  proof -
    have "val ?a * ?p \<le> (?l / ?p) * ?p" using a'(2) d(3) p(2) by (intro mult_right_mono) auto
    then show ?thesis using p(2) by simp
  qed
  have "fits ?q (val ?a * ?p)"
    by (rule fits_room [OF on_grid_mult [OF a'(3) p(3) dg(4,5)] _ dg(2,3) _ rm]) (use pay a' p dg in auto)
  from mul [OF a(1) p(1) this] have "\<not> mpd_cmp M (mpd_mul M ?a (o_price k)) (o_left t) > 0"
    using pay l(1) by (simp add: cmp)
  then have "lower_amount M (m_stock_prec m) (o_price k) (o_left t) ?a = Some ?a"
    by (simp add: lower_amount.simps)
  then have r: "buy_amount M (m_stock_prec m) t k = Some (if mpd_cmp M ?a (o_left k) > 0 then o_left k else ?a)"
    by (simp add: buy_amount_def)
  show ?thesis
  proof (cases "val ?a > val (o_left k)")
    case True
    have "?p * val (o_left k) \<le> ?p * val ?a" using True p(2) by (intro mult_left_mono) auto
    then have "?p * val (o_left k) \<le> ?l" using pay by (simp add: mult.commute)
    with True r a(1) lf show ?thesis by (simp add: cmp)
  next
    case False
    with r a a' lf p pay show ?thesis by (auto simp: cmp mult.commute)
  qed
qed

lemma spender_step:
  fixes fee a :: 'd and E :: "('d, 'j) env"
  assumes mo: "market_ok M fin val R m (ledger S)" and t: "spender_ok fin val m t (ledger S)"
    and k: "lim_ok fin val m maker" and a: "on_grid (m_stock_prec m) x" "0 \<le> x"
    and deal: "fin deal" "val deal = val (o_price maker) * x" "val (o_price maker) * x \<le> val (o_left t)"
    and d: "dealt M fin val R (o_user_id t) rate maker x m S m1 S1" and side: "o_side maker = MARKET_ORDER_SIDE_ASK"
  defines "t1 \<equiv> fill_taker M deal a deal fee (stamp E S t)"
  shows "spender_ok fin val m1 t1 (ledger S1) \<and> val (o_left t1) = val (o_left t) - val deal"
proof -
  have c: "same_config m m1" "dict_asset (ledger S1) = dict_asset (ledger S)" using d by (simp_all add: dealt_def)
  have st: "m_money m1 = m_money m" using c by (auto simp: same_config_def)
  note dg = digits_ge [OF market_okD(3) [OF mo]]
  have p: "0 < val (o_price maker)" "on_grid (m_money_prec m) (val (o_price maker))" using k by (auto simp: lim_ok_def)
  have "on_grid (m_stock_prec m + m_money_prec m) (val deal)"
    using on_grid_mult [OF p(2) a(1) dg(5,4)] deal(2) by (simp add: add.commute)
  from on_grid_mono [OF this dg(7)]
  have gd: "on_grid (save_prec (dict_asset (ledger S)) (m_money m)) (val (o_left t) - val deal)"
    using t by (intro on_grid_diff) (auto simp: spender_ok_def)
  have nn: "0 \<le> val deal" using deal(2) p(1) a(2) by simp
  have "fits (digits (dict_asset (ledger S)) m) (val (o_left t) - val deal)"
    by (rule fits_room [OF gd _ dg(6,3) _ room_stock(2) [OF mo, of "o_user_id t" BALANCE_TYPE_AVAILABLE]])
      (use t deal nn dg in \<open>auto simp: spender_ok_def\<close>)
  from sub [OF _ deal(1) this] t have s: "fin (o_left t1)" "val (o_left t1) = val (o_left t) - val deal"
    by (auto simp: t1_def order_simps spender_ok_def)
  have "bal val (ledger S) (o_user_id t, BALANCE_TYPE_AVAILABLE, m_money m) - val deal
      \<le> bal val (ledger S1) (o_user_id t, BALANCE_TYPE_AVAILABLE, m_money m)"
    using d side deal(2) by (simp add: dealt_def taker_asset_def taker_pays_def)
  then show ?thesis
    using t s gd deal unfolding spender_ok_def same_config_simps [OF c(1)] st c(2)
    by (simp add: t1_def order_simps)
qed

lemma market_bid_loop_ok:
  assumes E: "mpd E = M"
  shows "market_ok M fin val R m (ledger S) \<Longrightarrow> spender_ok fin val m t (ledger S) \<Longrightarrow>
    set ns \<subseteq> set (m_asks m) \<Longrightarrow> distinct ns \<Longrightarrow>
    \<exists>m' t' S' ds. market_bid_loop E live ns m t S = Some (m', t', S') \<and>
      trades M fin val R (o_user_id t) (o_taker_fee t) (\<lambda>maker m. o_side maker = MARKET_ORDER_SIDE_ASK) m S ds m' S' \<and>
      spender_ok fin val m' t' (ledger S') \<and> same_taker t t' \<and>
      val (o_left t') = val (o_left t) - sum_paid val ds"
proof (induction ns arbitrary: m t S)
  case Nil
  then show ?case by (auto intro!: exI trades_nil simp: same_taker_refl)
next
  case (Cons n ns)
  note mo = Cons.prems(1) and t = Cons.prems(2)
  have fl: "fin (o_left t)" "rate_ok fin val m (o_taker_fee t)" using t by (auto simp: spender_ok_def)
  show ?case
  proof (cases "val (o_left t) = 0")
    case True
    then show ?thesis
      using left_zero [OF fl(1)] t by (auto intro!: exI [of _ "[]"] trades_nil simp: E same_taker_refl)
  next
    case False
    from Cons.prems(3) book_member(2) [OF mo, of n]
    obtain k where k: "m_orders m n = Some k" "o_id k = n" "o_side k = MARKET_ORDER_SIDE_ASK" by auto
    have lk: "lim_ok fin val m k" using market_okD(6) [OF mo k(1)] by (auto simp: backed_def)
    from buy_amount_ok [OF mo t k(1)] obtain a where a: "buy_amount M (m_stock_prec m) t k = Some a" "fin a" "0 \<le> val a"
      "val a \<le> val (o_left k)" "on_grid (m_stock_prec m) (val a)" "val (o_price k) * val a \<le> val (o_left t)" by blast
    show ?thesis
    proof (cases "val a = 0")
      case True
      then show ?thesis
        using False left_zero [OF fl(1)] a t k by (auto intro!: exI [of _ "[]"] trades_nil simp: E same_taker_refl cmp)
    next
      case a0: False
      then have pos: "0 < val a" using a(3) by simp
      have pays: "val (o_price k) * val a \<le> bal val (ledger S) (o_user_id t, BALANCE_TYPE_AVAILABLE, m_money m)"
        using a(6) t by (auto simp: spender_ok_def)
      from bid_deal_ok [OF E mo _ k(3) a(2) pos a(4,5) pays fl(2), where live = live and used = "\<lambda>d. d"] k(1,2)
      obtain m1 S1 deal fee where r: "bid_deal E live m t k a (\<lambda>d. d) S = (m1, fill_taker M deal a deal fee (stamp E S t), S1)"
        and d: "dealt M fin val R (o_user_id t) (o_taker_fee t) k (val a) m S m1 S1"
        and dl: "fin deal" "val deal = val (o_price k) * val a" by auto
      let ?t = "fill_taker M deal a deal fee (stamp E S t)"
      have s: "spender_ok fin val m1 ?t (ledger S1)" "val (o_left ?t) = val (o_left t) - val deal"
        using spender_step [OF mo t lk a(5,3) dl a(6) d k(3)] by auto
      have mo1: "market_ok M fin val R m1 (ledger S1)" using d by (auto simp: dealt_def)
      have "distinct (m_asks m)" using market_okD(1) [OF mo] by (auto simp: struct_ok_def intro: book_sorted_distinct)
      then have sub': "set ns \<subseteq> set (m_asks m1)" "distinct ns"
        using dealt_books(2) [OF d] Cons.prems(3,4) k(2) by (auto simp: set_remove1_eq)
      note st = same_taker_fill [of t M deal a deal fee E S]
      from Cons.IH [OF mo1 s(1) sub'] obtain m' t' S' ds where
        IH: "market_bid_loop E live ns m1 ?t S1 = Some (m', t', S')"
        "trades M fin val R (o_user_id t) (o_taker_fee t) (\<lambda>maker m. o_side maker = MARKET_ORDER_SIDE_ASK) m1 S1 ds m' S'"
        "spender_ok fin val m' t' (ledger S')" "same_taker ?t t'"
        "val (o_left t') = val (o_left ?t) - sum_paid val ds"
        unfolding same_taker_simps [OF st] by blast
      have "market_bid_loop E live (n # ns) m t S = Some (m', t', S')"
        using False a0 a(1,2) r IH(1) k(1) left_zero [OF fl(1)] by (simp add: E cmp)
      moreover have "trades M fin val R (o_user_id t) (o_taker_fee t) (\<lambda>maker m. o_side maker = MARKET_ORDER_SIDE_ASK)
          m S ((k, val a) # ds) m' S'"
        by (rule trades_step [OF _ _ pos a(4) d IH(2)]) (use k in auto)
      moreover have "val (o_left t') = val (o_left t) - sum_paid val ((k, val a) # ds)" using IH(5) s(2) dl(2) by simp
      ultimately show ?thesis using IH(3) same_taker_trans [OF st IH(4)] by blast
    qed
  qed
qed

end

end
