(* ===== verification/Exchange.thy ===== *)
theory Exchange
  imports Matches
begin

text \<open>
  The operations on a market that the rest of the engine calls, on a well-formed market: putting
  a limit or a market order and cancelling an order keep the invariant, never lose money except
  for the fees, and never leave the book crossed.
\<close>

section \<open>Freezing and releasing the funds of an order\<close>

definition move :: "(balance_key \<Rightarrow> rat) \<Rightarrow> u32 \<Rightarrow> string \<Rightarrow> u32 \<Rightarrow> u32 \<Rightarrow> rat \<Rightarrow> balance_key \<Rightarrow> rat" where
  "move f u a s t x = credit (credit f (u, s, a) (- x)) (u, t, a) x"

lemma supply_move: "finite {k. f k \<noteq> 0} \<Longrightarrow> supply_of (move f u a s t x) c = supply_of f c"
  unfolding move_def by (simp add: supply_credit credit_support)

text \<open>\<open>uncrossed\<close>: every ask is dearer than every bid.\<close>

definition uncrossed :: "('d \<Rightarrow> rat) \<Rightarrow> 'd market \<Rightarrow> bool" where
  "uncrossed val m \<longleftrightarrow> (\<forall>i j a b. m_orders m i = Some a \<longrightarrow> m_orders m j = Some b \<longrightarrow>
     o_side a = MARKET_ORDER_SIDE_ASK \<longrightarrow> o_side b = MARKET_ORDER_SIDE_BID \<longrightarrow> val (o_price b) < val (o_price a))"

lemma uncrossed_subset:
  assumes "uncrossed val m" "\<And>j order'. m_orders m' j = Some order' \<Longrightarrow> \<exists>order. m_orders m j = Some order \<and> same_key order order'"
  shows "uncrossed val m'"
  unfolding uncrossed_def
proof (intro allI impI)
  fix i j a b
  assume "m_orders m' i = Some a" "m_orders m' j = Some b"
    and sides: "o_side a = MARKET_ORDER_SIDE_ASK" "o_side b = MARKET_ORDER_SIDE_BID"
  then obtain c d where "m_orders m i = Some c" "same_key c a" "m_orders m j = Some d" "same_key d b"
    using assms(2) by meson
  with sides assms(1) show "val (o_price b) < val (o_price a)"
    unfolding uncrossed_def same_key_def by metis
qed

lemma paid_in_cases:
  "(if o_side order = MARKET_ORDER_SIDE_ASK then m_stock m else m_money m) = paid_in m order"
  by (simp add: paid_in_def)

lemma lim_ok_freeze:
  "lim_ok fin val m (order\<lparr>o_freeze := x\<rparr>) = lim_ok fin val m order"
  "needed val (order\<lparr>o_freeze := x\<rparr>) = needed val order"
  by (simp_all add: lim_ok_def needed_def)

context mpd_lib
begin

lemma room_two:
  assumes "market_ok M fin val R m L" "a \<in> {m_stock m, m_money m}" "s \<noteq> t"
  shows "(bal val L (u, s, a) + bal val L (u, t, a)) * 10 ^ nat (save_prec (dict_asset L) a) < 10 ^ 34"
proof -
  note ok = market_okD(2,3,5) [OF assms(1)]
  have "bal val L (u, s, a) + bal val L (u, t, a) \<le> asset_supply val L a"
    using assms(3) by (intro supply_ge_two ledger_ok_finite [OF ok(1)] ledger_ok_nonneg [OF ok(1)]) auto
  moreover have "nat (save_prec (dict_asset L) a) \<le> nat (digits (dict_asset L) m)"
    using conf_ok_assets [OF ok(2) assms(2)] by auto
  then have "(10::rat) ^ nat (save_prec (dict_asset L) a) \<le> 10 ^ nat (digits (dict_asset L) m)"
    by (intro power_increasing) auto
  moreover have "0 \<le> bal val L (u, s, a) + bal val L (u, t, a)"
    by (intro add_nonneg_nonneg ledger_ok_nonneg [OF ok(1)])
  ultimately have "(bal val L (u, s, a) + bal val L (u, t, a)) * 10 ^ nat (save_prec (dict_asset L) a)
      \<le> asset_supply val L a * 10 ^ nat (digits (dict_asset L) m)"
    by (intro mult_mono) auto
  then show ?thesis using ok(3) assms(2) unfolding roomy_def by (blast intro: order.strict_trans1)
qed

lemma lim_ok_needed_grid:
  assumes "conf_ok A m" "lim_ok fin val m order"
  shows "on_grid (save_prec A (paid_in m order)) (needed val order)"
    "on_grid (m_stock_prec m + m_money_prec m) (needed val order)"
proof -
  note dg = digits_ge [OF assms(1)]
  have c: "m_stock_prec m + m_money_prec m \<le> save_prec A (m_money m)" "m_stock_prec m \<le> save_prec A (m_stock m)"
    using assms(1) by (auto simp: conf_ok_def)
  have g: "on_grid (m_stock_prec m) (val (o_left order))" "on_grid (m_money_prec m) (val (o_price order))"
    using assms(2) by (auto simp: lim_ok_def)
  have gm: "on_grid (m_stock_prec m + m_money_prec m) (val (o_price order) * val (o_left order))"
    using on_grid_mult [OF g(2,1) dg(5,4)] by (simp add: add.commute)
  show "on_grid (save_prec A (paid_in m order)) (needed val order)"
    using on_grid_mono [OF g(1) c(2)] on_grid_mono [OF gm c(1)] by (auto simp: needed_def paid_in_def)
  show "on_grid (m_stock_prec m + m_money_prec m) (needed val order)"
    using on_grid_mono [OF g(1), of "m_stock_prec m + m_money_prec m"] gm dg by (auto simp: needed_def)
qed

lemma put_freeze_ok:
  assumes mo: "market_ok M fin val R m L" and l: "lim_ok fin val m order"
    and funds: "needed val order \<le> bal val L (o_user_id order, BALANCE_TYPE_AVAILABLE, paid_in m order)"
  shows "fin (put_freeze M order) \<and> val (put_freeze M order) = needed val order"
proof (cases "o_side order = MARKET_ORDER_SIDE_ASK")
  case True
  then show ?thesis using l by (simp add: put_freeze_def needed_def lim_ok_def)
next
  case False
  note dg = digits_ge [OF market_okD(3) [OF mo]]
  have fin: "fin (o_price order)" "fin (o_left order)" using l by (auto simp: lim_ok_def)
  have n: "needed val order = val (o_price order) * val (o_left order)" "paid_in m order = m_money m"
    using False by (simp_all add: needed_def paid_in_def)
  have "fits (digits (dict_asset L) m) (needed val order)"
    by (rule fits_room [OF lim_ok_needed_grid(2) [OF market_okD(3) [OF mo] l] _ dg(2,3) _
          room_stock(2) [OF mo, of "o_user_id order" BALANCE_TYPE_AVAILABLE]])
      (use dg funds n needed_nonneg [OF l] in auto)
  from mul [OF fin this [unfolded n(1)]] show ?thesis using False n by (simp add: put_freeze_def)
qed

lemma order_put_ok:
  assumes mo: "market_ok M fin val R m L" and new: "m_orders m (o_id order) = None"
    and k: "key_ok fin (o_id order) order" and l: "lim_ok fin val m order" "0 < val (o_left order)"
    and funds: "needed val order \<le> bal val L (o_user_id order, BALANCE_TYPE_AVAILABLE, paid_in m order)"
  shows "\<exists>m' L'. order_put M m L order = (m', L', 0) \<and> market_ok M fin val R m' L' \<and> same_config m m' \<and>
    m_orders m' = (m_orders m)(o_id order \<mapsto> order\<lparr>o_freeze := put_freeze M order\<rparr>) \<and>
    dict_asset L' = dict_asset L \<and>
    bal val L' = move (bal val L) (o_user_id order) (paid_in m order) BALANCE_TYPE_AVAILABLE BALANCE_TYPE_FREEZE (needed val order)"
proof -
  let ?a = "paid_in m order" and ?u = "o_user_id order" and ?x = "put_freeze M order"
  note ok = market_okD(1-5,7) [OF mo]
  have a: "?a \<in> {m_stock m, m_money m}" by (simp add: paid_in_def)
  from conf_ok_assets [OF ok(3) a] obtain aty where aty: "dict_asset L ?a = Some aty"
    "prec_save aty = save_prec (dict_asset L) ?a" by blast
  note x = put_freeze_ok [OF mo l(1) funds]
  have pos: "0 < needed val order" using l by (auto simp: needed_def lim_ok_def)
  from balance_freeze_ok [OF ok(2) aty(1) conjunct1 [OF x], of ?u] obtain L' r where
    fr: "balance_freeze M L ?u ?a ?x = (L', Some r)" "ledger_ok fin val L'" "dict_asset L' = dict_asset L"
      "bal val L' = move (bal val L) ?u ?a BALANCE_TYPE_AVAILABLE BALANCE_TYPE_FREEZE (needed val order)"
    using x pos funds lim_ok_needed_grid(1) [OF ok(3) l(1)] room_two [OF mo a freeze_types [symmetric], of ?u] aty(2) freeze_types
    by (auto simp: move_def credit_def)
  from order_put_struct [OF ok(1) new k, unfolded paid_in_cases, OF fr(1)] obtain m' where
    m': "order_put M m L order = (m', L', 0)" "struct_ok M fin m'" "same_config m m'"
      "m_orders m' = (m_orders m)(o_id order \<mapsto> order\<lparr>o_freeze := ?x\<rparr>)" by blast
  have fin: "finite {k. bal val L k \<noteq> 0}" by (rule ledger_ok_finite [OF ok(2)])
  have roomy': "roomy val L' m" using ok(5) fr(3,4) fin by (simp add: roomy_def supply_move)
  have bk: "backed fin val m (order\<lparr>o_freeze := ?x\<rparr>)"
    using l(1) x by (simp add: backed_def lim_ok_freeze)
  have cov: "covered val R m' L'"
  proof -
    have "frozen val m' u c = frozen val m u c + (if u = ?u \<and> c = ?a then needed val order else 0)" for u c
      using frozen_put [OF ok(6) m'(3,4) new, of val u c] x by (auto simp: owed_def paid_in_def)
    moreover have "bal val L' (u, BALANCE_TYPE_FREEZE, c) = bal val L (u, BALANCE_TYPE_FREEZE, c) +
        (if u = ?u \<and> c = ?a then needed val order else 0)" for u c
      using fr(4) freeze_types by (auto simp: move_def credit_apply)
    moreover have "m_stock m' = m_stock m" "m_money m' = m_money m" using m'(3) by (auto simp: same_config_def)
    ultimately show ?thesis using ok(4) by (simp add: covered_def)
  qed
  have "backed fin val m o' \<and> 0 < val (o_left o')" if "m_orders m' j = Some o'" for j o'
    using that m'(4) bk l(2) market_okD(6) [OF mo, of j o'] by (auto split: if_splits)
  then have "market_ok M fin val R m' L'"
    using m'(2) fr(2,3) ok(3) cov roomy' by (simp add: market_ok_def same_config_simps [OF m'(3)])
  with m' fr(3,4) show ?thesis by blast
qed

text \<open>Cancelling: the frozen funds return to the available balance.\<close>

lemma cancel_ok:
  assumes E: "mpd E = M" and mo: "market_ok M fin val R m (ledger S)" and i: "m_orders m (o_id order) = Some order"
  shows "\<exists>S' res. market_cancel_order E live m S order = (without m order, S', 0, res) \<and>
    market_ok M fin val R (without m order) (ledger S') \<and> dict_asset (ledger S') = dict_asset (ledger S) \<and>
    order_id_start S' = order_id_start S \<and> deals_id_start S' = deals_id_start S \<and>
    bal val (ledger S') = move (bal val (ledger S)) (o_user_id order) (paid_in m order)
      BALANCE_TYPE_FREEZE BALANCE_TYPE_AVAILABLE (needed val order)"
proof -
  let ?L = "ledger S" and ?a = "paid_in m order" and ?u = "o_user_id order" and ?x = "o_freeze order"
  note ok = market_okD(1-5,7) [OF mo]
  have bk: "backed fin val m order" "0 < val (o_left order)" using market_okD(6) [OF mo i] by auto
  then have x: "fin ?x" "val ?x = needed val order" "lim_ok fin val m order" by (auto simp: backed_def)
  have pos: "0 < needed val order" using bk(2) x(3) by (auto simp: needed_def lim_ok_def)
  have a: "?a \<in> {m_stock m, m_money m}" by (simp add: paid_in_def)
  from conf_ok_assets [OF ok(3) a] obtain aty where aty: "dict_asset ?L ?a = Some aty"
    "prec_save aty = save_prec (dict_asset ?L) ?a" by blast
  have nonneg: "0 \<le> owed val m u c o'" if "m_orders m j = Some o'" for j o' u c
    using market_okD(6) [OF mo that] by (auto simp: owed_def backed_def needed_nonneg)
  have "owed val m ?u ?a order \<le> frozen val m ?u ?a"
    unfolding frozen_owed by (rule sum_map_ge [OF ok(6) i nonneg])
  moreover have "0 \<le> R ?u ?a \<and> bal val ?L (?u, BALANCE_TYPE_FREEZE, ?a) = R ?u ?a + frozen val m ?u ?a"
    using ok(4) a unfolding covered_def by blast
  ultimately have funds: "val ?x \<le> bal val ?L (?u, BALANCE_TYPE_FREEZE, ?a)" by (simp add: owed_def)
  from balance_unfreeze_ok [OF ok(2) aty(1) x(1), of ?u] obtain L' r where
    fr: "balance_unfreeze M ?L ?u ?a ?x = (L', Some r)" "ledger_ok fin val L'" "dict_asset L' = dict_asset ?L"
      "bal val L' = move (bal val ?L) ?u ?a BALANCE_TYPE_FREEZE BALANCE_TYPE_AVAILABLE (needed val order)"
    using x(2) pos funds lim_ok_needed_grid(1) [OF ok(3) x(3)] room_two [OF mo a freeze_types, of ?u] aty(2) freeze_types
    by (auto simp: move_def credit_def)
  have "release_freeze M order ?a ?L = Some L'"
    using fr(1) x(1,2) pos by (simp add: release_freeze_def cmp)
  from order_finish_struct [OF ok(1) i, where S = "send_order_message E live ORDER_EVENT_FINISH order m S" and live = live,
      unfolded paid_in_cases engine_frame, OF this E]
  obtain S' where S': "order_finish E live m order (send_order_message E live ORDER_EVENT_FINISH order m S) = (without m order, S', 0)"
    "ledger S' = L'" "order_id_start S' = order_id_start S" "deals_id_start S' = deals_id_start S" by blast
  have c: "same_config m (without m order)" by (rule same_config_without)
  have st: "m_stock (without m order) = m_stock m" "m_money (without m order) = m_money m" by (simp_all add: without_def)
  have fin: "finite {k. bal val ?L k \<noteq> 0}" by (rule ledger_ok_finite [OF ok(2)])
  have roomy': "roomy val L' m" using ok(5) fr(3,4) fin by (simp add: roomy_def supply_move)
  have cov: "covered val R (without m order) L'"
  proof -
    have "frozen val (without m order) u c = frozen val m u c - (if u = ?u \<and> c = ?a then needed val order else 0)" for u c
      using frozen_without [OF ok(6) i, of val u c] x by (auto simp: owed_def)
    moreover have "bal val L' (u, BALANCE_TYPE_FREEZE, c) = bal val ?L (u, BALANCE_TYPE_FREEZE, c) -
        (if u = ?u \<and> c = ?a then needed val order else 0)" for u c
      using fr(4) freeze_types by (auto simp: move_def credit_apply)
    ultimately show ?thesis using ok(4) by (simp add: covered_def st)
  qed
  have "backed fin val m o' \<and> 0 < val (o_left o')" if "m_orders (without m order) j = Some o'" for j o'
    using that market_okD(6) [OF mo, of j o'] by (auto simp: without_def split: if_splits)
  then have "market_ok M fin val R (without m order) L'"
    using struct_ok_without [OF ok(1) i] fr(2,3) ok(3) cov roomy' by (simp add: market_ok_def same_config_simps [OF c])
  then show ?thesis using S' fr(3,4) by (simp add: market_cancel_order_def)
qed

end

section \<open>Putting a limit order\<close>

text \<open>Order ids are given out in increasing order.\<close>

definition ids_below :: "'d market \<Rightarrow> u64 \<Rightarrow> bool" where
  "ids_below m n \<longleftrightarrow> (\<forall>i. m_orders m i \<noteq> None \<longrightarrow> i \<le> n)"

lemma ids_below_fresh:
  assumes "ids_below m n" "n + 1 \<noteq> 0"
  shows "m_orders m (n + 1) = None"
proof (rule ccontr)
  assume "m_orders m (n + 1) \<noteq> None"
  then have "n + 1 \<le> n" using assms(1) by (simp add: ids_below_def)
  then have "unat (n + 1) \<le> unat n" by (simp add: word_le_nat_alt)
  moreover have "unat (1 + n) = Suc (unat n)" using assms(2) by (intro unatSuc) (simp add: add.commute)
  ultimately show False by (simp add: add.commute)
qed

text \<open>The invariant of a market between two operations.\<close>

definition exch_ok ::
  "'d mpd_ops \<Rightarrow> ('d \<Rightarrow> bool) \<Rightarrow> ('d \<Rightarrow> rat) \<Rightarrow> (u32 \<Rightarrow> string \<Rightarrow> rat) \<Rightarrow> 'd market \<Rightarrow> ('d, 'j) engine \<Rightarrow> bool" where
  "exch_ok M fin val R m S \<longleftrightarrow>
     market_ok M fin val R m (ledger S) \<and> uncrossed val m \<and> ids_below m (order_id_start S)"

lemma exch_ok_frame:
  "ledger S' = ledger S \<Longrightarrow> order_id_start S' = order_id_start S \<Longrightarrow> exch_ok M fin val R m S \<Longrightarrow> exch_ok M fin val R m S'"
  by (simp add: exch_ok_def)

text \<open>What the engine requires of the numbers of a limit order (its callers check and rescale them).\<close>

definition limit_input ::
  "('d \<Rightarrow> bool) \<Rightarrow> ('d \<Rightarrow> rat) \<Rightarrow> 'd market \<Rightarrow> 'd \<Rightarrow> 'd \<Rightarrow> 'd \<Rightarrow> 'd \<Rightarrow> bool" where
  "limit_input fin val m amount price taker_fee maker_fee \<longleftrightarrow>
     fin amount \<and> 0 < val amount \<and> fits (m_stock_prec m) (val amount) \<and>
     fin price \<and> 0 < val price \<and> on_grid (m_money_prec m) (val price) \<and>
     fits (m_stock_prec m + m_money_prec m) (val amount * val price) \<and>
     rate_ok fin val m taker_fee \<and> rate_ok fin val m maker_fee"

text \<open>The makers a limit order may deal with: the best opposite order, at its price or a better one.\<close>

definition acceptable :: "('d \<Rightarrow> rat) \<Rightarrow> u32 \<Rightarrow> 'd \<Rightarrow> 'd order \<Rightarrow> 'd market \<Rightarrow> bool" where
  "acceptable val side price maker m \<longleftrightarrow>
     (if side = MARKET_ORDER_SIDE_ASK then best_bid maker m \<and> val price \<le> val (o_price maker)
      else best_ask maker m \<and> val (o_price maker) \<le> val price)"

lemma limit_order_check_cases: "limit_order_check M m L user side amount price \<in> {0, - 1, - 2}"
  by (simp add: limit_order_check_def Let_def)

lemma new_order_simps [order_simps]:
  "o_id (new_order E m S type side user amount price tf mf source) = order_id_start S + 1"
  "o_type (new_order E m S type side user amount price tf mf source) = type"
  "o_side (new_order E m S type side user amount price tf mf source) = side"
  "o_user_id (new_order E m S type side user amount price tf mf source) = user"
  "o_price (new_order E m S type side user amount price tf mf source) = price"
  "o_amount (new_order E m S type side user amount price tf mf source) = amount"
  "o_left (new_order E m S type side user amount price tf mf source) = amount"
  "o_taker_fee (new_order E m S type side user amount price tf mf source) = tf"
  "o_maker_fee (new_order E m S type side user amount price tf mf source) = mf"
  "o_deal_stock (new_order E m S type side user amount price tf mf source) = mpd_zero (mpd E)"
  by (simp_all add: new_order_def)

lemma uncrossed_put:
  assumes "uncrossed val m" "m_orders m' = (m_orders m)(i \<mapsto> order)"
    and "o_side order = MARKET_ORDER_SIDE_ASK \<Longrightarrow>
      \<forall>j b. m_orders m j = Some b \<longrightarrow> o_side b = MARKET_ORDER_SIDE_BID \<longrightarrow> val (o_price b) < val (o_price order)"
    and "o_side order = MARKET_ORDER_SIDE_BID \<Longrightarrow>
      \<forall>j b. m_orders m j = Some b \<longrightarrow> o_side b = MARKET_ORDER_SIDE_ASK \<longrightarrow> val (o_price order) < val (o_price b)"
  shows "uncrossed val m'"
  unfolding uncrossed_def
proof (intro allI impI)
  fix j k a b
  assume h: "m_orders m' j = Some a" "m_orders m' k = Some b"
    "o_side a = MARKET_ORDER_SIDE_ASK" "o_side b = MARKET_ORDER_SIDE_BID"
  show "val (o_price b) < val (o_price a)"
  proof (cases "j = i"; cases "k = i")
    assume "j = i" "k = i"
    then show ?thesis using h assms(2) sides_differ by simp
  next
    assume "j = i" "k \<noteq> i"
    then have "a = order" "m_orders m k = Some b" using h(1,2) assms(2) by auto
    then show ?thesis using assms(3) h(3,4) by blast
  next
    assume "j \<noteq> i" "k = i"
    then have "b = order" "m_orders m j = Some a" using h(1,2) assms(2) by auto
    then show ?thesis using assms(4) h(3,4) by blast
  next
    assume "j \<noteq> i" "k \<noteq> i"
    then have "m_orders m j = Some a" "m_orders m k = Some b" using h(1,2) assms(2) by auto
    then show ?thesis using assms(1) h(3,4) unfolding uncrossed_def by blast
  qed
qed

context mpd_lib
begin

lemma available_ok:
  assumes "ledger_ok fin val L" "dict_asset L a = Some aty" "fin x"
    and "\<not> (case balance_get L u t a of None \<Rightarrow> True | Some balance \<Rightarrow> mpd_cmp M balance x < 0)"
  shows "val x \<le> bal val L (u, t, a)"
  using assms ledger_ok_get [OF assms(1,2), of u t] by (auto simp: cmp split: option.splits)

text \<open>Matching a limit order, for both sides.\<close>

lemma execute_limit_ok:
  assumes E: "mpd E = M" and mo: "market_ok M fin val R m (ledger S)" and l: "lim_ok fin val m t"
    and side: "o_side t \<in> {MARKET_ORDER_SIDE_ASK, MARKET_ORDER_SIDE_BID}" and rate: "rate_ok fin val m (o_taker_fee t)"
    and funds: "needed val t \<le> bal val (ledger S) (o_user_id t, BALANCE_TYPE_AVAILABLE, paid_in m t)"
  shows "\<exists>m' t' S' ds.
    (if o_side t = MARKET_ORDER_SIDE_ASK then execute_limit_ask_order else execute_limit_bid_order) E live m t S = (m', t', S') \<and>
    trades M fin val R (o_user_id t) (o_taker_fee t) (acceptable val (o_side t) (o_price t)) m S ds m' S' \<and>
    lim_ok fin val m' t' \<and> same_taker t t' \<and> val (o_left t') = val (o_left t) - sum_dealt ds \<and>
    needed val t' \<le> bal val (ledger S') (o_user_id t, BALANCE_TYPE_AVAILABLE, paid_in m t) \<and>
    (val (o_left t') = 0 \<or> (\<forall>j b. m_orders m' j = Some b \<longrightarrow> o_side b \<noteq> o_side t \<longrightarrow>
       (if o_side t = MARKET_ORDER_SIDE_ASK then val (o_price b) < val (o_price t) else val (o_price t) < val (o_price b))))"
proof (cases "o_side t = MARKET_ORDER_SIDE_ASK")
  case True
  then have "seller_ok fin val m t (ledger S)"
    using l rate funds by (auto simp: seller_ok_def lim_ok_def needed_def paid_in_def)
  from limit_ask_loop_ok [OF E mo this l disjI1 [OF HOL.refl], of live] obtain m' t' S' ds where
    r: "limit_ask_loop E live (m_bids m) m t S = (m', t', S')"
      "trades M fin val R (o_user_id t) (o_taker_fee t)
        (\<lambda>maker m. best_bid maker m \<and> val (o_price t) \<le> val (o_price maker)) m S ds m' S'"
      "seller_ok fin val m' t' (ledger S')" "lim_ok fin val m' t'" "same_taker t t'"
      "val (o_left t') = val (o_left t) - sum_dealt ds"
      "val (o_left t') = 0 \<or>
        (\<forall>j b. m_orders m' j = Some b \<longrightarrow> o_side b = MARKET_ORDER_SIDE_BID \<longrightarrow> val (o_price b) < val (o_price t))"
    by blast
  have ok': "market_ok M fin val R m' (ledger S')" "same_config m m'" using trades_ok [OF r(2) mo] by auto
  have st: "m_stock m' = m_stock m" using ok'(2) by (simp add: same_config_def)
  have bid: "o_side b = MARKET_ORDER_SIDE_BID" if "m_orders m' j = Some b" "o_side b \<noteq> MARKET_ORDER_SIDE_ASK" for j b
    using market_okD(8) [OF ok'(1) that(1)] that(2) by (simp add: key_ok_def)
  have pick: "acceptable val (o_side t) (o_price t) = (\<lambda>maker m. best_bid maker m \<and> val (o_price t) \<le> val (o_price maker))"
    using True by (simp add: acceptable_def fun_eq_iff)
  have sd: "o_side t' = o_side t" using r(5) by (simp add: same_taker_def same_key_def)
  have fd: "needed val t' \<le> bal val (ledger S') (o_user_id t, BALANCE_TYPE_AVAILABLE, paid_in m t)"
    using r(3) True sd same_taker_simps(1) [OF r(5)] st by (simp add: seller_ok_def needed_def paid_in_def)
  have rest: "val (o_left t') = 0 \<or> (\<forall>j b. m_orders m' j = Some b \<longrightarrow> o_side b \<noteq> o_side t \<longrightarrow> val (o_price b) < val (o_price t))"
    using r(7) bid True by metis
  show ?thesis unfolding pick using r(1,2,4-6) fd rest True by (auto simp: execute_limit_ask_order_def)
next
  case False
  then have b: "o_side t = MARKET_ORDER_SIDE_BID" using side by simp
  then have "buyer_ok fin val m t (ledger S)"
    using l rate funds sides_differ by (auto simp: buyer_ok_def lim_ok_def needed_def paid_in_def)
  from limit_bid_loop_ok [OF E mo this l disjI1 [OF HOL.refl], of live] obtain m' t' S' ds where
    r: "limit_bid_loop E live (m_asks m) m t S = (m', t', S')"
      "trades M fin val R (o_user_id t) (o_taker_fee t)
        (\<lambda>maker m. best_ask maker m \<and> val (o_price maker) \<le> val (o_price t)) m S ds m' S'"
      "buyer_ok fin val m' t' (ledger S')" "lim_ok fin val m' t'" "same_taker t t'"
      "val (o_left t') = val (o_left t) - sum_dealt ds"
      "val (o_left t') = 0 \<or>
        (\<forall>j b. m_orders m' j = Some b \<longrightarrow> o_side b = MARKET_ORDER_SIDE_ASK \<longrightarrow> val (o_price t) < val (o_price b))"
    by blast
  have ok': "market_ok M fin val R m' (ledger S')" "same_config m m'" using trades_ok [OF r(2) mo] by auto
  have st: "m_money m' = m_money m" using ok'(2) by (simp add: same_config_def)
  have ask: "o_side b = MARKET_ORDER_SIDE_ASK" if "m_orders m' j = Some b" "o_side b \<noteq> MARKET_ORDER_SIDE_BID" for j b
    using market_okD(8) [OF ok'(1) that(1)] that(2) by (simp add: key_ok_def)
  have pick: "acceptable val (o_side t) (o_price t) = (\<lambda>maker m. best_ask maker m \<and> val (o_price maker) \<le> val (o_price t))"
    using False by (simp add: acceptable_def fun_eq_iff)
  have sd: "o_side t' = o_side t" "o_price t' = o_price t" using r(5) by (auto simp: same_taker_def same_key_def)
  have fd: "needed val t' \<le> bal val (ledger S') (o_user_id t, BALANCE_TYPE_AVAILABLE, paid_in m t)"
    using r(3) False sd same_taker_simps(1) [OF r(5)] st by (simp add: buyer_ok_def needed_def paid_in_def)
  have rest: "val (o_left t') = 0 \<or> (\<forall>j b. m_orders m' j = Some b \<longrightarrow> o_side b \<noteq> o_side t \<longrightarrow> val (o_price t) < val (o_price b))"
    using r(7) ask b by metis
  show ?thesis unfolding pick using r(1,2,4-6) fd rest False by (auto simp: execute_limit_bid_order_def)
qed

lemma limit_check_funds:
  assumes mo: "market_ok M fin val R m L" and inp: "limit_input fin val m amount price taker_fee maker_fee"
    and side: "side \<in> {MARKET_ORDER_SIDE_ASK, MARKET_ORDER_SIDE_BID}"
    and chk: "limit_order_check M m L user side amount price = 0"
  shows "(if side = MARKET_ORDER_SIDE_ASK then val amount else val price * val amount)
    \<le> bal val L (user, BALANCE_TYPE_AVAILABLE, if side = MARKET_ORDER_SIDE_ASK then m_stock m else m_money m)"
proof -
  note ok = market_okD(2,3) [OF mo]
  from conf_ok_assets [OF ok(2), of "m_stock m"] conf_ok_assets [OF ok(2), of "m_money m"] obtain aty bty
    where ab: "dict_asset L (m_stock m) = Some aty" "dict_asset L (m_money m) = Some bty" by auto
  have i: "fin amount" "fin price" "fits (m_stock_prec m + m_money_prec m) (val amount * val price)"
    using inp by (auto simp: limit_input_def)
  have mm: "fin (mpd_mul M amount price)" "val (mpd_mul M amount price) = val amount * val price"
    using mul [OF i] by auto
  show ?thesis
    using chk available_ok [OF ok(1) ab(1) i(1), of user BALANCE_TYPE_AVAILABLE]
      available_ok [OF ok(1) ab(2) mm(1), of user BALANCE_TYPE_AVAILABLE] mm(2)
    by (auto simp: limit_order_check_def Let_def mult.commute split: if_splits)
qed

lemma new_lim_ok:
  assumes "limit_input fin val m amount price tf mf" "mpd E = M"
  shows "lim_ok fin val m (new_order E m S type side user amount price tf mf source)"
  using assms by (auto simp: lim_ok_def order_simps limit_input_def fits_def)

lemma put_limit_ok:
  fixes S :: "('d, 'j) engine"
  assumes E: "mpd E = M" and ok: "exch_ok M fin val R m S"
    and inp: "limit_input fin val m amount price taker_fee maker_fee"
    and side: "side \<in> {MARKET_ORDER_SIDE_ASK, MARKET_ORDER_SIDE_BID}" and room: "order_id_start S + 1 \<noteq> 0"
    and chk: "limit_order_check M m (ledger S) user side amount price = 0"
  shows "\<exists>m1 (S1 :: ('d, 'j) engine) ds m' S' res.
    market_put_limit_order E live m S user side amount price taker_fee maker_fee source = (m', S', 0, res) \<and>
    trades M fin val R user taker_fee (acceptable val side price) m (next_order S) ds m1 S1 \<and>
    sum_dealt ds \<le> val amount \<and> exch_ok M fin val R m' S' \<and> same_config m m' \<and>
    order_id_start S' = order_id_start S + 1 \<and> dict_asset (ledger S') = dict_asset (ledger S) \<and>
    (\<forall>a. asset_supply val (ledger S') a = asset_supply val (ledger S1) a) \<and>
    (if sum_dealt ds = val amount then m' = m1 \<and> ledger S' = ledger S1
     else \<exists>order. m_orders m' = (m_orders m1)(order_id_start S + 1 \<mapsto> order) \<and>
       val (o_left order) = val amount - sum_dealt ds \<and> o_user_id order = user \<and> o_side order = side \<and>
       o_price order = price \<and> o_amount order = amount)"
proof -
  let ?t = "new_order E m S MARKET_ORDER_TYPE_LIMIT side user amount price taker_fee maker_fee source"
  let ?S0 = "next_order S" and ?i = "order_id_start S + 1"
  let ?ex = "if side = MARKET_ORDER_SIDE_ASK then execute_limit_ask_order else execute_limit_bid_order"
  have mo: "market_ok M fin val R m (ledger ?S0)" and un: "uncrossed val m" and ids: "ids_below m (order_id_start S)"
    using ok by (auto simp: exch_ok_def engine_frame)
  have rate: "rate_ok fin val m (o_taker_fee ?t)" using inp by (simp add: order_simps limit_input_def)
  have pi: "paid_in m ?t = (if side = MARKET_ORDER_SIDE_ASK then m_stock m else m_money m)"
    "needed val ?t = (if side = MARKET_ORDER_SIDE_ASK then val amount else val price * val amount)"
    by (simp_all add: paid_in_def needed_def order_simps)
  have funds: "needed val ?t \<le> bal val (ledger ?S0) (o_user_id ?t, BALANCE_TYPE_AVAILABLE, paid_in m ?t)"
    using limit_check_funds [OF _ inp side chk] mo unfolding pi by (simp add: engine_frame order_simps)
  have sd: "o_side ?t \<in> {MARKET_ORDER_SIDE_ASK, MARKET_ORDER_SIDE_BID}" using side by (simp add: order_simps)
  from execute_limit_ok [OF E mo new_lim_ok [OF inp E] sd rate funds, of live, unfolded new_order_simps]
  obtain m1 t1 ds and S1 :: "('d, 'j) engine" where r: "?ex E live m ?t ?S0 = (m1, t1, S1)"
    "trades M fin val R user taker_fee (acceptable val side price) m ?S0 ds m1 S1"
    "lim_ok fin val m1 t1" "same_taker ?t t1" "val (o_left t1) = val amount - sum_dealt ds"
    "needed val t1 \<le> bal val (ledger S1) (user, BALANCE_TYPE_AVAILABLE, paid_in m ?t)"
    "val (o_left t1) = 0 \<or> (\<forall>j b. m_orders m1 j = Some b \<longrightarrow> o_side b \<noteq> side \<longrightarrow>
       (if side = MARKET_ORDER_SIDE_ASK then val (o_price b) < val price else val price < val (o_price b)))"
    by blast
  note tr = trades_ok [OF r(2) mo]
  have mo1: "market_ok M fin val R m1 (ledger S1)" and c1: "same_config m m1"
    and d1: "dict_asset (ledger S1) = dict_asset (ledger S)" and o1: "order_id_start S1 = ?i" using tr by (auto simp: engine_frame)
  have sub1: "\<exists>order. m_orders m j = Some order \<and> same_key order order'" if "m_orders m1 j = Some order'" for j order'
    using tr that by blast
  have un1: "uncrossed val m1" by (rule uncrossed_subset [OF un sub1])
  have new1: "m_orders m1 ?i = None"
  proof (rule ccontr)
    assume "m_orders m1 ?i \<noteq> None"
    then obtain o' where "m_orders m1 ?i = Some o'" by blast
    from sub1 [OF this] show False using ids_below_fresh [OF ids room] by simp
  qed
  have le: "i \<le> ?i" if "m_orders m1 i \<noteq> None" for i
  proof -
    from that obtain o' where "m_orders m1 i = Some o'" by blast
    from sub1 [OF this] have "m_orders m i \<noteq> None" by auto
    then have "i \<le> order_id_start S" using ids by (simp add: ids_below_def)
    moreover have "unat (1 + order_id_start S) = Suc (unat (order_id_start S))"
      using room by (intro unatSuc) (simp add: add.commute)
    ultimately show ?thesis by (simp add: word_le_nat_alt add.commute)
  qed
  have t1: "o_id t1 = ?i" "o_type t1 = MARKET_ORDER_TYPE_LIMIT" "o_side t1 = side" "o_user_id t1 = user"
    "o_price t1 = price" "o_amount t1 = amount"
    using r(4) by (auto simp: same_taker_def same_key_def order_simps)
  have fl: "fin (o_left t1)" "0 \<le> val (o_left t1)" using r(3) by (auto simp: lim_ok_def)
  have put: "market_put_limit_order E live m S user side amount price taker_fee maker_fee source =
      (fst (place_limit_order E live m1 t1 S1), snd (place_limit_order E live m1 t1 S1), 0,
       if live then Some (get_order_info E t1) else None)"
    using r(1) chk unfolding market_put_limit_order_def Let_def E by (simp split: prod.split)
  show ?thesis
  proof (cases "sum_dealt ds = val amount")
    case True
    then have "mpd_cmp M (o_left t1) (mpd_zero M) = 0" using r(5) fl by (simp add: cmp)
    then have p: "fst (place_limit_order E live m1 t1 S1) = m1" "ledger (snd (place_limit_order E live m1 t1 S1)) = ledger S1"
      "order_id_start (snd (place_limit_order E live m1 t1 S1)) = order_id_start S1"
      by (simp_all add: place_limit_order_def E engine_frame)
    have "exch_ok M fin val R m1 (snd (place_limit_order E live m1 t1 S1))"
      using mo1 un1 le p o1 by (simp add: exch_ok_def ids_below_def)
    then show ?thesis using put p r(2) True c1 d1 o1 by (auto simp: engine_frame)
  next
    case False
    then have pos: "0 < val (o_left t1)" using r(5) fl(2) by auto
    then have nz: "mpd_cmp M (o_left t1) (mpd_zero M) \<noteq> 0" using fl by (simp add: cmp)
    have k: "key_ok fin (o_id t1) t1" using side r(3) by (auto simp: key_ok_def t1 lim_ok_def)
    have pa: "paid_in m1 t1 = paid_in m ?t" using c1 t1(3) by (simp add: paid_in_def same_config_def order_simps)
    from order_put_ok [OF mo1 _ k r(3) pos, unfolded pa t1(1,4), OF new1 r(6)] obtain m' L' where
      p: "order_put M m1 (ledger S1) t1 = (m', L', 0)" "market_ok M fin val R m' L'" "same_config m1 m'"
        "m_orders m' = (m_orders m1)(?i \<mapsto> t1\<lparr>o_freeze := put_freeze M t1\<rparr>)" "dict_asset L' = dict_asset (ledger S1)"
        "bal val L' = move (bal val (ledger S1)) user (paid_in m ?t) BALANCE_TYPE_AVAILABLE BALANCE_TYPE_FREEZE (needed val t1)"
      by blast
    have pl: "place_limit_order E live m1 t1 S1 =
        (m', send_order_message E live ORDER_EVENT_PUT t1 m1 S1\<lparr>ledger := L'\<rparr>)"
      using nz p(1) by (simp add: place_limit_order_def E Let_def engine_frame)
    have far: "\<forall>j b. m_orders m1 j = Some b \<longrightarrow> o_side b \<noteq> side \<longrightarrow>
       (if side = MARKET_ORDER_SIDE_ASK then val (o_price b) < val price else val price < val (o_price b))"
      using r(7) pos by auto
    have "uncrossed val m'"
      by (rule uncrossed_put [OF un1 p(4)]) (use far t1(3,5) sides_differ in auto)
    moreover have "ids_below m' ?i" using le p(4) by (auto simp: ids_below_def)
    ultimately have ex: "exch_ok M fin val R m' (snd (place_limit_order E live m1 t1 S1))"
      using p(2) o1 by (simp add: exch_ok_def pl engine_frame)
    have sup: "asset_supply val L' a = asset_supply val (ledger S1) a" for a
      using ledger_ok_finite [OF market_okD(2) [OF mo1]] by (simp add: p(6) supply_move)
    have "sum_dealt ds \<le> val amount" using r(5) fl(2) by linarith
    then show ?thesis
      using put ex r(2,5) False same_config_trans [OF c1 p(3)] d1 o1 p(4,5) sup t1
      by (auto simp: pl engine_frame intro!: exI [of _ m1] exI [of _ S1] exI [of _ ds])
  qed
qed

end

section \<open>Putting a market order\<close>

definition market_input :: "('d \<Rightarrow> bool) \<Rightarrow> ('d \<Rightarrow> rat) \<Rightarrow> (string \<rightharpoonup> asset_type) \<Rightarrow> 'd market \<Rightarrow> u32 \<Rightarrow> 'd \<Rightarrow> 'd \<Rightarrow> bool" where
  "market_input fin val A m side amount taker_fee \<longleftrightarrow>
     fin amount \<and> 0 < val amount \<and> rate_ok fin val m taker_fee \<and>
     on_grid (if side = MARKET_ORDER_SIDE_ASK then m_stock_prec m else save_prec A (m_money m)) (val amount)"

text \<open>The makers a market order deals with, and how much of its amount a run uses.\<close>

definition market_pick :: "u32 \<Rightarrow> 'd order \<Rightarrow> 'd market \<Rightarrow> bool" where
  "market_pick side maker m \<longleftrightarrow>
     (if side = MARKET_ORDER_SIDE_ASK then best_bid maker m else o_side maker = MARKET_ORDER_SIDE_ASK)"

definition market_used :: "('d \<Rightarrow> rat) \<Rightarrow> u32 \<Rightarrow> ('d order \<times> rat) list \<Rightarrow> rat" where
  "market_used val side ds = (if side = MARKET_ORDER_SIDE_ASK then sum_dealt ds else sum_paid val ds)"

context mpd_lib
begin

lemma trades_exch_ok:
  assumes ok: "exch_ok M fin val R m S" and tr: "trades M fin val R user rate pick m (next_order S) ds m1 S1"
    and room: "order_id_start S + 1 \<noteq> 0"
  shows "exch_ok M fin val R m1 S1 \<and> same_config m m1 \<and> order_id_start S1 = order_id_start S + 1 \<and>
    dict_asset (ledger S1) = dict_asset (ledger S)"
proof -
  have mo: "market_ok M fin val R m (ledger (next_order S))" and un: "uncrossed val m" and ids: "ids_below m (order_id_start S)"
    using ok by (auto simp: exch_ok_def engine_frame)
  note t = trades_ok [OF tr mo]
  have sub1: "\<exists>order. m_orders m j = Some order \<and> same_key order order'" if "m_orders m1 j = Some order'" for j order'
    using t that by blast
  have "ids_below m1 (order_id_start S + 1)"
    unfolding ids_below_def
  proof (intro allI impI)
    fix i assume "m_orders m1 i \<noteq> None"
    then obtain o' where "m_orders m1 i = Some o'" by blast
    from sub1 [OF this] have "m_orders m i \<noteq> None" by auto
    then have "i \<le> order_id_start S" using ids by (simp add: ids_below_def)
    moreover have "unat (1 + order_id_start S) = Suc (unat (order_id_start S))"
      using room by (intro unatSuc) (simp add: add.commute)
    ultimately show "i \<le> order_id_start S + 1" by (simp add: word_le_nat_alt add.commute)
  qed
  moreover have "uncrossed val m1" by (rule uncrossed_subset [OF un sub1])
  ultimately show ?thesis using t by (simp add: exch_ok_def engine_frame)
qed

lemma put_market_ok:
  fixes S :: "('d, 'j) engine"
  assumes E: "mpd E = M" and ok: "exch_ok M fin val R m S"
    and inp: "market_input fin val (dict_asset (ledger S)) m side amount taker_fee"
    and room: "order_id_start S + 1 \<noteq> 0"
    and chk: "market_order_check M m (ledger S) user side amount = 0"
  shows "\<exists>ds m' (S1 :: ('d, 'j) engine) S' res.
    market_put_market_order E live m S user side amount taker_fee source = Some (m', S', 0, res) \<and>
    trades M fin val R user taker_fee (market_pick side) m (next_order S) ds m' S1 \<and> ledger S' = ledger S1 \<and>
    market_used val side ds \<le> val amount \<and> exch_ok M fin val R m' S' \<and> same_config m m' \<and>
    (side = MARKET_ORDER_SIDE_ASK \<longrightarrow> sum_dealt ds = val amount \<or> m_bids m' = [])"
proof -
  let ?t = "new_order E m S MARKET_ORDER_TYPE_MARKET side user amount (mpd_zero M) taker_fee (mpd_zero M) source"
  let ?S0 = "next_order S" and ?L = "ledger S"
  have mo: "market_ok M fin val R m ?L" and mo0: "market_ok M fin val R m (ledger ?S0)"
    using ok by (auto simp: exch_ok_def engine_frame)
  note lok = market_okD(2,3) [OF mo]
  from conf_ok_assets [OF lok(2), of "m_stock m"] conf_ok_assets [OF lok(2), of "m_money m"] obtain aty bty
    where ab: "dict_asset ?L (m_stock m) = Some aty" "dict_asset ?L (m_money m) = Some bty" by auto
  have i: "fin amount" "0 < val amount" "rate_ok fin val m taker_fee" using inp by (auto simp: market_input_def)
  let ?res = "\<lambda>t1. if live then Some (get_order_info E t1) else None"
  show ?thesis
  proof (cases "side = MARKET_ORDER_SIDE_ASK")
    case True
    have "val amount \<le> bal val ?L (user, BALANCE_TYPE_AVAILABLE, m_stock m)"
      using chk True by (intro available_ok [OF lok(1) ab(1) i(1)]) (auto simp: market_order_check_def split: if_splits)
    then have "seller_ok fin val m ?t (ledger ?S0)"
      using i inp True by (auto simp: seller_ok_def order_simps engine_frame market_input_def)
    from market_ask_loop_ok [OF E mo0 this disjI1 [OF HOL.refl], of live, unfolded new_order_simps] obtain m1 t1 ds and S1 :: "('d, 'j) engine"
      where r: "market_ask_loop E live (m_bids m) m ?t ?S0 = (m1, t1, S1)"
        "trades M fin val R user taker_fee best_bid m ?S0 ds m1 S1" "seller_ok fin val m1 t1 (ledger S1)"
        "val (o_left t1) = val amount - sum_dealt ds" "val (o_left t1) = 0 \<or> m_bids m1 = []" by blast
    define S' where "S' = send_order_message E live ORDER_EVENT_FINISH t1 m1
        (if live then S1\<lparr>hist := append_order_history t1 (hist S1)\<rparr> else S1)"
    have fr: "ledger S' = ledger S1" "order_id_start S' = order_id_start S1" by (simp_all add: S'_def engine_frame)
    have "market_put_market_order E live m S user side amount taker_fee source = Some (m1, S', 0, ?res t1)"
      using chk True r(1) by (simp add: market_put_market_order_def execute_market_ask_order_def E S'_def)
    moreover have "exch_ok M fin val R m1 S' \<and> same_config m m1"
      using trades_exch_ok [OF ok r(2) room] exch_ok_frame [OF fr] by blast
    moreover have "trades M fin val R user taker_fee (market_pick side) m ?S0 ds m1 S1"
      using r(2) True by (simp add: market_pick_def [abs_def] cong: if_cong)
    moreover have "market_used val side ds \<le> val amount" using r(3,4) True by (simp add: seller_ok_def market_used_def)
    moreover have "sum_dealt ds = val amount \<or> m_bids m1 = []" using r(4,5) by auto
    ultimately show ?thesis using fr(1) by blast
  next
    case False
    have "val amount \<le> bal val ?L (user, BALANCE_TYPE_AVAILABLE, m_money m)"
      using chk False by (intro available_ok [OF lok(1) ab(2) i(1)]) (auto simp: market_order_check_def split: if_splits)
    then have sp: "spender_ok fin val m ?t (ledger ?S0)"
      using i inp False by (auto simp: spender_ok_def order_simps engine_frame market_input_def)
    have "distinct (m_asks m)" using market_okD(1) [OF mo] by (auto simp: struct_ok_def intro: book_sorted_distinct)
    from market_bid_loop_ok [OF E mo0 sp subset_refl this, of live, unfolded new_order_simps] obtain m1 t1 ds and S1 :: "('d, 'j) engine"
      where r: "market_bid_loop E live (m_asks m) m ?t ?S0 = Some (m1, t1, S1)"
        "trades M fin val R user taker_fee (\<lambda>maker m. o_side maker = MARKET_ORDER_SIDE_ASK) m ?S0 ds m1 S1"
        "spender_ok fin val m1 t1 (ledger S1)" "val (o_left t1) = val amount - sum_paid val ds" by blast
    define S' where "S' = send_order_message E live ORDER_EVENT_FINISH t1 m1
        (if live then S1\<lparr>hist := append_order_history t1 (hist S1)\<rparr> else S1)"
    have fr: "ledger S' = ledger S1" "order_id_start S' = order_id_start S1" by (simp_all add: S'_def engine_frame)
    have "market_put_market_order E live m S user side amount taker_fee source = Some (m1, S', 0, ?res t1)"
      using chk False r(1) by (simp add: market_put_market_order_def execute_market_bid_order_def E S'_def)
    moreover have "exch_ok M fin val R m1 S' \<and> same_config m m1"
      using trades_exch_ok [OF ok r(2) room] exch_ok_frame [OF fr] by blast
    moreover have "trades M fin val R user taker_fee (market_pick side) m ?S0 ds m1 S1"
      using r(2) False by (simp add: market_pick_def [abs_def] cong: if_cong)
    moreover have "market_used val side ds \<le> val amount" using r(3,4) False by (simp add: spender_ok_def market_used_def)
    ultimately show ?thesis using fr(1) False by blast
  qed
qed

lemma cancel_exch_ok:
  assumes E: "mpd E = M" and ok: "exch_ok M fin val R m S" and i: "m_orders m (o_id order) = Some order"
  shows "\<exists>S' res. market_cancel_order E live m S order = (without m order, S', 0, res) \<and>
    exch_ok M fin val R (without m order) S' \<and>
    bal val (ledger S') = move (bal val (ledger S)) (o_user_id order) (paid_in m order)
      BALANCE_TYPE_FREEZE BALANCE_TYPE_AVAILABLE (needed val order)"
proof -
  have mo: "market_ok M fin val R m (ledger S)" and un: "uncrossed val m" and ids: "ids_below m (order_id_start S)"
    using ok by (auto simp: exch_ok_def)
  from cancel_ok [OF E mo i, of live] obtain S' res where
    r: "market_cancel_order E live m S order = (without m order, S', 0, res)" "market_ok M fin val R (without m order) (ledger S')"
      "order_id_start S' = order_id_start S"
      "bal val (ledger S') = move (bal val (ledger S)) (o_user_id order) (paid_in m order)
        BALANCE_TYPE_FREEZE BALANCE_TYPE_AVAILABLE (needed val order)" by blast
  have "uncrossed val (without m order)"
    by (rule uncrossed_subset [OF un]) (auto simp: without_def same_key_def split: if_splits)
  moreover have "ids_below (without m order) (order_id_start S)"
    using ids by (auto simp: ids_below_def without_def)
  ultimately show ?thesis using r by (simp add: exch_ok_def)
qed

end

end
