(* ===== verification/Replay.thy ===== *)
theory Replay
  imports Matching
begin

text \<open>
  Why the engine can restart from its operation log: an operation that is replayed (with
  \<open>live\<close> false, at another time, with another broker) does to the book and to the balances what
  it did when it was first executed. Two orders are the \<open>same\<close> up to their timestamps.
\<close>

definition untimed :: "'d order \<Rightarrow> 'd order" where
  "untimed order = order\<lparr>o_create_time := 0, o_update_time := 0\<rparr>"

definition same_order :: "'d order \<Rightarrow> 'd order \<Rightarrow> bool" where
  "same_order order order' \<longleftrightarrow> untimed order = untimed order'"

definition untimed_map :: "(u64 \<rightharpoonup> 'd order) \<Rightarrow> u64 \<rightharpoonup> 'd order" where
  "untimed_map objs = (\<lambda>i. map_option untimed (objs i))"

definition same_market :: "'d market \<Rightarrow> 'd market \<Rightarrow> bool" where
  "same_market m m' \<longleftrightarrow>
     m\<lparr>m_orders := untimed_map (m_orders m)\<rparr> = m'\<lparr>m_orders := untimed_map (m_orders m')\<rparr>"

definition same_engine :: "('d, 'j) engine \<Rightarrow> ('d, 'k) engine \<Rightarrow> bool" where
  "same_engine S S' \<longleftrightarrow> ledger S = ledger S' \<and> order_id_start S = order_id_start S' \<and>
     deals_id_start S = deals_id_start S'"

lemma same_orderD:
  "same_order order order' \<Longrightarrow> \<exists>c u. order' = order\<lparr>o_create_time := c, o_update_time := u\<rparr>"
  by (rule exI [of _ "o_create_time order'"], rule exI [of _ "o_update_time order'"])
    (cases order; cases order'; simp add: same_order_def untimed_def)

lemma same_order_fields:
  assumes "same_order order order'"
  shows "o_id order' = o_id order" "o_type order' = o_type order" "o_side order' = o_side order"
    "o_user_id order' = o_user_id order" "o_price order' = o_price order" "o_left order' = o_left order"
    "o_freeze order' = o_freeze order" "o_taker_fee order' = o_taker_fee order"
    "o_maker_fee order' = o_maker_fee order" "o_deal_stock order' = o_deal_stock order"
  using same_orderD [OF assms] by auto

lemma same_order_refl: "same_order order order"
  by (simp add: same_order_def)

lemma same_order_stamp: "same_order order order' \<Longrightarrow> same_order (stamp E S order) (stamp E' S' order')"
  by (cases order; cases order'; simp add: same_order_def untimed_def stamp_def)

lemma same_order_fill_taker:
  "same_order order order' \<Longrightarrow>
   same_order (fill_taker M used amount deal fee order) (fill_taker M used amount deal fee order')"
  by (cases order; cases order'; simp add: same_order_def untimed_def fill_taker_def)

lemma same_order_fill_maker:
  "same_order order order' \<Longrightarrow>
   same_order (fill_maker M unfrozen amount deal fee order) (fill_maker M unfrozen amount deal fee order')"
  by (cases order; cases order'; simp add: same_order_def untimed_def fill_maker_def)

lemma same_order_freeze:
  "same_order order order' \<Longrightarrow> same_order (order\<lparr>o_freeze := x\<rparr>) (order'\<lparr>o_freeze := x\<rparr>)"
  by (cases order; cases order'; simp add: same_order_def untimed_def)

lemma same_marketD:
  assumes "same_market m m'"
  shows "\<exists>objs. m' = m\<lparr>m_orders := objs\<rparr> \<and> untimed_map objs = untimed_map (m_orders m)"
  using assms by (intro exI [of _ "m_orders m'"]) (cases m; cases m'; simp add: same_market_def)

lemma untimed_map_upd:
  "untimed_map objs = untimed_map objs' \<Longrightarrow> same_order order order' \<Longrightarrow>
   untimed_map (objs(i \<mapsto> order)) = untimed_map (objs'(i \<mapsto> order'))"
  "untimed_map objs = untimed_map objs' \<Longrightarrow> untimed_map (objs(i := None)) = untimed_map (objs'(i := None))"
  by (auto simp: untimed_map_def same_order_def fun_eq_iff)

lemma untimed_map_lookup:
  assumes "untimed_map objs = untimed_map objs'"
  shows "rel_option same_order (objs i) (objs' i)"
  using fun_cong [OF assms, of i]
  by (cases "objs i"; cases "objs' i") (auto simp: untimed_map_def same_order_def)

lemma same_order_compare:
  "same_order a a' \<Longrightarrow> same_order b b' \<Longrightarrow> order_match_compare M a' b' = order_match_compare M a b"
  by (simp add: order_match_compare_def same_order_fields)

lemma untimed_map_compare:
  assumes "untimed_map objs = untimed_map objs'"
  shows "book_compare M objs' = book_compare M objs"
proof (intro ext)
  fix i j
  note l = untimed_map_lookup [OF assms, of i] untimed_map_lookup [OF assms, of j]
  show "book_compare M objs' i j = book_compare M objs i j"
    using l by (cases "objs i"; cases "objs' i"; cases "objs j"; cases "objs' j")
      (simp_all add: book_compare_def same_order_compare)
qed

section \<open>Every step respects sameness\<close>

lemma same_engine_steps:
  assumes "mpd E' = mpd E" "o_user_id order' = o_user_id order" "same_engine S S'"
  shows "same_engine (take_balance E live order type asset change price amount S)
      (take_balance E' live' order' type asset change price amount S')"
    "same_engine (give_balance E live order asset change price amount S)
      (give_balance E' live' order' asset change price amount S')"
    "same_engine (charge_fee E live order asset fee price amount rate S)
      (charge_fee E' live' order' asset fee price amount rate S')"
  using assms by (simp_all add: same_engine_def engine_frame)

lemma same_engine_send:
  "same_engine S S' \<Longrightarrow>
   same_engine (send_order_message E live event order m S) (send_order_message E' live' event order' m' S')"
  by (simp add: same_engine_def engine_frame)

lemma same_market_simps:
  assumes "same_market m m'"
  shows "m_stock m' = m_stock m" "m_money m' = m_money m" "m_asks m' = m_asks m" "m_bids m' = m_bids m"
    "m_users m' = m_users m" "m_stock_prec m' = m_stock_prec m" "m_min_amount m' = m_min_amount m"
  using same_marketD [OF assms] by auto

lemma same_market_lookup:
  assumes "same_market m m'"
  shows "rel_option same_order (m_orders m i) (m_orders m' i)"
proof -
  from same_marketD [OF assms] obtain objs
    where "m' = m\<lparr>m_orders := objs\<rparr>" "untimed_map (m_orders m) = untimed_map objs" by metis
  then show ?thesis using untimed_map_lookup [of "m_orders m" objs i] by simp
qed

lemma same_market_compare:
  assumes "same_market m m'"
  shows "book_compare M (m_orders m') = book_compare M (m_orders m)"
proof -
  from same_marketD [OF assms] obtain objs
    where "m' = m\<lparr>m_orders := objs\<rparr>" "untimed_map (m_orders m) = untimed_map objs" by metis
  then show ?thesis using untimed_map_compare [of "m_orders m" objs M] by simp
qed

lemma same_market_upd:
  assumes "same_market m m'"
  shows "same_order order order' \<Longrightarrow>
      same_market (m\<lparr>m_orders := (m_orders m)(i \<mapsto> order)\<rparr>) (m'\<lparr>m_orders := (m_orders m')(i \<mapsto> order')\<rparr>)"
    "same_market (m\<lparr>m_orders := (m_orders m)(i := None)\<rparr>) (m'\<lparr>m_orders := (m_orders m')(i := None)\<rparr>)"
    "same_market (m\<lparr>m_asks := asks\<rparr>) (m'\<lparr>m_asks := asks\<rparr>)"
    "same_market (m\<lparr>m_bids := bids\<rparr>) (m'\<lparr>m_bids := bids\<rparr>)"
    "same_market (m\<lparr>m_users := users\<rparr>) (m'\<lparr>m_users := users\<rparr>)"
proof -
  from same_marketD [OF assms] obtain objs
    where m': "m' = m\<lparr>m_orders := objs\<rparr>" and u: "untimed_map (m_orders m) = untimed_map objs" by metis
  show "same_order order order' \<Longrightarrow>
      same_market (m\<lparr>m_orders := (m_orders m)(i \<mapsto> order)\<rparr>) (m'\<lparr>m_orders := (m_orders m')(i \<mapsto> order')\<rparr>)"
    using untimed_map_upd(1) [OF u, of order order' i] by (simp add: same_market_def m')
  show "same_market (m\<lparr>m_orders := (m_orders m)(i := None)\<rparr>) (m'\<lparr>m_orders := (m_orders m')(i := None)\<rparr>)"
    using untimed_map_upd(2) [OF u, of i] by (simp add: same_market_def m')
  show "same_market (m\<lparr>m_asks := asks\<rparr>) (m'\<lparr>m_asks := asks\<rparr>)"
    "same_market (m\<lparr>m_bids := bids\<rparr>) (m'\<lparr>m_bids := bids\<rparr>)"
    "same_market (m\<lparr>m_users := users\<rparr>) (m'\<lparr>m_users := users\<rparr>)"
    using u by (simp_all add: same_market_def m')
qed

lemma same_settle:
  assumes "mpd E' = mpd E" "same_market m m'" "same_order taker taker'" "same_order maker maker'" "same_engine S S'"
  shows "same_engine (settle_ask E live m taker maker price amount deal ask_fee bid_fee S)
      (settle_ask E' live' m' taker' maker' price amount deal ask_fee bid_fee S')"
    "same_engine (settle_bid E live m taker maker price amount deal ask_fee bid_fee S)
      (settle_bid E' live' m' taker' maker' price amount deal ask_fee bid_fee S')"
  unfolding settle_ask_def settle_bid_def same_market_simps [OF assms(2)]
    same_order_fields [OF assms(3)] same_order_fields [OF assms(4)]
  by (intro same_engine_steps assms same_order_fields)+

text \<open>The result of a step: the same market and the same engine.\<close>

definition same_state :: "'d market \<times> ('d, 'j) engine \<Rightarrow> 'd market \<times> ('d, 'k) engine \<Rightarrow> bool" where
  "same_state x y \<longleftrightarrow> same_market (fst x) (fst y) \<and> same_engine (snd x) (snd y)"

lemma same_drop_order:
  assumes "same_market m m'" "same_order order order'"
  shows "same_market (drop_order m order) (drop_order m' order')"
proof -
  from assms(1) obtain objs where m': "m' = m\<lparr>m_orders := objs\<rparr>" "untimed_map objs = untimed_map (m_orders m)"
    using same_marketD by blast
  then show ?thesis
    using untimed_map_upd(2) [OF m'(2), of "o_id order"]
    by (simp add: drop_order_def same_market_def same_order_fields [OF assms(2)] cong: option.case_cong)
qed

lemma same_release:
  assumes "same_order order order'"
  shows "release_freeze M order' asset L = release_freeze M order asset L"
  by (simp add: release_freeze_def same_order_fields [OF assms])

lemma same_order_finish:
  assumes E: "mpd E' = mpd E" and m: "same_market m m'" and o: "same_order order order'" and S: "same_engine S S'"
    and fin: "order_finish E live m order S = (m1, S1, r)" "order_finish E' live' m' order' S' = (m1', S1', r')"
  shows "same_market m1 m1' \<and> same_engine S1 S1' \<and> r' = r"
proof -
  let ?M = "mpd E"
  define k where "k = (if o_side order = MARKET_ORDER_SIDE_ASK
     then m\<lparr>m_asks := leave_book ?M (m_orders m) (o_id order) (m_asks m)\<rparr>
     else m\<lparr>m_bids := leave_book ?M (m_orders m) (o_id order) (m_bids m)\<rparr>)"
  define k' where "k' = (if o_side order = MARKET_ORDER_SIDE_ASK
     then m'\<lparr>m_asks := leave_book ?M (m_orders m') (o_id order) (m_asks m')\<rparr>
     else m'\<lparr>m_bids := leave_book ?M (m_orders m') (o_id order) (m_bids m')\<rparr>)"
  have kk: "same_market k k'"
    using m by (simp add: k_def k'_def leave_book_def same_market_simps [OF m] same_market_compare [OF m]
        same_market_upd [OF m])
  have st: "m_stock k = m_stock m" "m_money k = m_money m" by (simp_all add: k_def)
  have L: "ledger S' = ledger S" using S by (simp add: same_engine_def)
  note d = same_drop_order [OF kk o]
  show ?thesis
    using fin S kk d unfolding order_finish_def E Let_def same_order_fields [OF o]
      k_def [symmetric] k'_def [symmetric] same_release [OF o] same_market_simps [OF kk] st L
    by (auto simp: same_engine_def split: option.splits if_splits)
qed

lemma same_after_deal:
  assumes E: "mpd E' = mpd E" and m: "same_market m m'" and o: "same_order maker maker'" and S: "same_engine S S'"
  shows "same_state (after_deal E live m maker S) (after_deal E' live' m' maker' S')"
proof -
  let ?m = "m\<lparr>m_orders := (m_orders m)(o_id maker \<mapsto> maker)\<rparr>"
  let ?m' = "m'\<lparr>m_orders := (m_orders m')(o_id maker \<mapsto> maker')\<rparr>"
  have mm: "same_market ?m ?m'" by (rule same_market_upd(1) [OF m o])
  note so = same_order_fields [OF o]
  show ?thesis
  proof (cases "mpd_cmp (mpd E) (o_left maker) (mpd_zero (mpd E)) = 0")
    case True
    obtain m1 S1 r where 1: "order_finish E live ?m maker
        (send_order_message E live ORDER_EVENT_FINISH maker ?m S) = (m1, S1, r)" by (metis prod_cases3)
    obtain m2 S2 r2 where 2: "order_finish E' live' ?m' maker'
        (send_order_message E' live' ORDER_EVENT_FINISH maker' ?m' S') = (m2, S2, r2)" by (metis prod_cases3)
    from same_order_finish [OF E mm o same_engine_send [OF S] 1 2] show ?thesis
      using True 1 2 by (simp add: after_deal_def Let_def E so same_state_def)
  next
    case False
    then show ?thesis
      using mm same_engine_send [OF S] by (simp add: after_deal_def Let_def E so same_state_def)
  qed
qed

text \<open>Results with the taker.\<close>

definition same_match ::
  "'d market \<times> 'd order \<times> ('d, 'j) engine \<Rightarrow> 'd market \<times> 'd order \<times> ('d, 'k) engine \<Rightarrow> bool" where
  "same_match x y \<longleftrightarrow> same_market (fst x) (fst y) \<and> same_order (fst (snd x)) (fst (snd y)) \<and>
     same_engine (snd (snd x)) (snd (snd y))"

lemma same_next: "same_engine S S' \<Longrightarrow> same_engine (next_deal S) (next_deal S')"
  "same_engine S S' \<Longrightarrow> same_engine (next_order S) (next_order S')"
  "same_engine S S' \<Longrightarrow>
   same_engine (record_deal E live m t deal_id ask ask_role bid bid_role price amount deal ask_fee bid_fee side S)
     (record_deal E' live' m' t' deal_id' ask' ask_role' bid' bid_role' price' amount' deal' ask_fee' bid_fee' side' S')"
  by (simp_all add: same_engine_def engine_frame)

lemma same_matchI:
  "same_state x y \<Longrightarrow> same_order taker taker' \<Longrightarrow>
   same_match (case x of (m, S) \<Rightarrow> (m, taker, S)) (case y of (m, S) \<Rightarrow> (m, taker', S))"
  by (simp add: same_match_def same_state_def prod.case_eq_if)

lemmas same_steps = same_matchI same_after_deal same_settle same_next
  same_order_fill_taker same_order_fill_maker same_order_stamp

lemma same_ask_deal:
  assumes E: "mpd E' = mpd E" and m: "same_market m m'" and t: "same_order taker taker'"
    and k: "same_order maker maker'" and S: "same_engine S S'"
  shows "same_match (ask_deal E live m taker maker S) (ask_deal E' live' m' taker' maker' S')"
proof -
  note f = same_order_fields [OF t] same_order_fields [OF k]
  have amt: "deal_amount (mpd E) taker' maker' = deal_amount (mpd E) taker maker"
    by (simp add: deal_amount_def f)
  show ?thesis
    unfolding ask_deal_def Let_def E f amt by (intro same_steps E m t k S)
qed

lemma same_bid_deal:
  assumes E: "mpd E' = mpd E" and m: "same_market m m'" and t: "same_order taker taker'"
    and k: "same_order maker maker'" and S: "same_engine S S'"
  shows "same_match (bid_deal E live m taker maker amount used S) (bid_deal E' live' m' taker' maker' amount used S')"
proof -
  note f = same_order_fields [OF t] same_order_fields [OF k]
  show ?thesis
    unfolding bid_deal_def Let_def E f by (intro same_steps E m t k S)
qed

section \<open>The loops\<close>

lemma same_match_triple:
  "same_match (m, t, S) (m', t', S') \<longleftrightarrow> same_market m m' \<and> same_order t t' \<and> same_engine S S'"
  by (simp add: same_match_def)

lemma same_matchE:
  assumes "same_match x y"
  obtains m t S m' t' S' where "x = (m, t, S)" "y = (m', t', S')" "same_market m m'" "same_order t t'"
    "same_engine S S'"
  using assms by (cases x; cases y) (simp add: same_match_triple)

lemma same_limit_ask_loop:
  assumes E: "mpd E' = mpd E"
  shows "same_market m m' \<Longrightarrow> same_order t t' \<Longrightarrow> same_engine S S' \<Longrightarrow>
    same_match (limit_ask_loop E live ns m t S) (limit_ask_loop E' live' ns m' t' S')"
proof (induction ns arbitrary: m m' t t' S S')
  case (Cons n ns)
  note m = same_market_lookup [OF Cons.prems(1), of n]
  show ?case
  proof (cases "m_orders m n")
    case (Some k)
    with m obtain k' where k: "m_orders m' n = Some k'" "same_order k k'" by (cases "m_orders m' n") auto
    from same_ask_deal [OF E Cons.prems(1,2) k(2) Cons.prems(3), of live live'] show ?thesis
      using Some k Cons.prems
      by (elim same_matchE)
        (simp add: E same_order_fields [OF Cons.prems(2)] same_order_fields [OF k(2)] Cons.IH same_match_triple)
  qed (use m Cons.prems in \<open>cases "m_orders m' n"; simp add: E same_match_triple same_order_fields\<close>)
qed (simp add: same_match_triple)

lemma same_limit_bid_loop:
  assumes E: "mpd E' = mpd E"
  shows "same_market m m' \<Longrightarrow> same_order t t' \<Longrightarrow> same_engine S S' \<Longrightarrow>
    same_match (limit_bid_loop E live ns m t S) (limit_bid_loop E' live' ns m' t' S')"
proof (induction ns arbitrary: m m' t t' S S')
  case (Cons n ns)
  note m = same_market_lookup [OF Cons.prems(1), of n]
  show ?case
  proof (cases "m_orders m n")
    case (Some k)
    with m obtain k' where k: "m_orders m' n = Some k'" "same_order k k'" by (cases "m_orders m' n") auto
    have amt: "deal_amount (mpd E) t' k' = deal_amount (mpd E) t k"
      by (simp add: deal_amount_def same_order_fields [OF Cons.prems(2)] same_order_fields [OF k(2)])
    from same_bid_deal [OF E Cons.prems(1,2) k(2) Cons.prems(3), of live "deal_amount (mpd E) t k"
      "\<lambda>_. deal_amount (mpd E) t k" live'] show ?thesis
      using Some k Cons.prems
      by (elim same_matchE)
        (simp add: E amt same_order_fields [OF Cons.prems(2)] same_order_fields [OF k(2)] Cons.IH same_match_triple)
  qed (use m Cons.prems in \<open>cases "m_orders m' n"; simp add: E same_match_triple same_order_fields\<close>)
qed (simp add: same_match_triple)

lemma same_market_ask_loop:
  assumes E: "mpd E' = mpd E"
  shows "same_market m m' \<Longrightarrow> same_order t t' \<Longrightarrow> same_engine S S' \<Longrightarrow>
    same_match (market_ask_loop E live ns m t S) (market_ask_loop E' live' ns m' t' S')"
proof (induction ns arbitrary: m m' t t' S S')
  case (Cons n ns)
  note m = same_market_lookup [OF Cons.prems(1), of n]
  show ?case
  proof (cases "m_orders m n")
    case (Some k)
    with m obtain k' where k: "m_orders m' n = Some k'" "same_order k k'" by (cases "m_orders m' n") auto
    from same_ask_deal [OF E Cons.prems(1,2) k(2) Cons.prems(3), of live live'] show ?thesis
      using Some k Cons.prems
      by (elim same_matchE) (simp add: E same_order_fields [OF Cons.prems(2)] Cons.IH same_match_triple)
  qed (use m Cons.prems in \<open>cases "m_orders m' n"; simp add: E same_match_triple same_order_fields\<close>)
qed (simp add: same_match_triple)

lemma same_market_bid_loop:
  assumes E: "mpd E' = mpd E"
  shows "same_market m m' \<Longrightarrow> same_order t t' \<Longrightarrow> same_engine S S' \<Longrightarrow>
    rel_option same_match (market_bid_loop E live ns m t S) (market_bid_loop E' live' ns m' t' S')"
proof (induction ns arbitrary: m m' t t' S S')
  case (Cons n ns)
  note m = same_market_lookup [OF Cons.prems(1), of n]
  show ?case
  proof (cases "m_orders m n")
    case (Some k)
    with m obtain k' where k: "m_orders m' n = Some k'" "same_order k k'" by (cases "m_orders m' n") auto
    have amt: "buy_amount (mpd E) p t' k' = buy_amount (mpd E) p t k" for p
      unfolding buy_amount_def same_order_fields [OF Cons.prems(2)] same_order_fields [OF k(2)] ..
    note f = E amt same_order_fields [OF Cons.prems(2)] same_market_simps [OF Cons.prems(1)]
    show ?thesis
    proof (cases "buy_amount (mpd E) (m_stock_prec m) t k")
      case None
      then show ?thesis using Some k Cons.prems by (simp add: f same_match_triple)
    next
      case (Some a)
      from same_bid_deal [OF E Cons.prems(1,2) k(2) Cons.prems(3), of live a "\<lambda>deal. deal" live'] show ?thesis
        using Some \<open>m_orders m n = Some k\<close> k Cons.prems
        by (elim same_matchE) (simp add: f Cons.IH same_match_triple)
    qed
  qed (use m Cons.prems in \<open>cases "m_orders m' n"; simp add: E same_match_triple same_order_fields\<close>)
qed (simp add: same_match_triple)

section \<open>Putting and cancelling\<close>

lemma same_order_put:
  assumes m: "same_market m m'" and o: "same_order order order'"
    and put: "order_put M m L order = (m1, L1, r)" "order_put M m' L order' = (m1', L1', r')"
  shows "same_market m1 m1' \<and> L1' = L1 \<and> r' = r"
proof -
  note f = same_order_fields [OF o] same_market_simps [OF m]
  have n: "m_orders m' i = None \<longleftrightarrow> m_orders m i = None" for i
    using same_market_lookup [OF m, of i] by (cases "m_orders m i"; cases "m_orders m' i") auto
  let ?m = "m\<lparr>m_orders := (m_orders m)(o_id order \<mapsto> order)\<rparr>"
  let ?m' = "m'\<lparr>m_orders := (m_orders m')(o_id order \<mapsto> order')\<rparr>"
  have mm: "same_market ?m ?m'" by (rule same_market_upd(1) [OF m o])
  have c: "book_compare M ((m_orders m')(o_id order \<mapsto> order')) = book_compare M ((m_orders m)(o_id order \<mapsto> order))"
    using same_market_compare [OF mm, of M] by simp
  have u: "same_market (?m\<lparr>m_users := us\<rparr>) (?m'\<lparr>m_users := us\<rparr>)" for us
    by (rule same_market_upd(5) [OF mm])
  have b: "same_market (?m\<lparr>m_users := us, m_asks := xs, m_orders := (m_orders m)(o_id order \<mapsto> order\<lparr>o_freeze := y\<rparr>)\<rparr>)
      (?m'\<lparr>m_users := us, m_asks := xs, m_orders := (m_orders m')(o_id order \<mapsto> order'\<lparr>o_freeze := y\<rparr>)\<rparr>)"
    "same_market (?m\<lparr>m_users := us, m_bids := xs, m_orders := (m_orders m)(o_id order \<mapsto> order\<lparr>o_freeze := y\<rparr>)\<rparr>)
      (?m'\<lparr>m_users := us, m_bids := xs, m_orders := (m_orders m')(o_id order \<mapsto> order'\<lparr>o_freeze := y\<rparr>)\<rparr>)" for us xs y
    using same_market_upd(1) [OF same_market_upd(3) [OF u, of xs us] same_order_freeze [OF o, of y], of "o_id order"]
      same_market_upd(1) [OF same_market_upd(4) [OF u, of xs us] same_order_freeze [OF o, of y], of "o_id order"]
    by simp_all
  show ?thesis
    using put m mm u b by (auto simp: order_put_def Let_def f n c split: if_splits option.splits prod.splits)
qed

lemma same_new_order:
  assumes "mpd E' = mpd E" "same_market m m'" "same_engine S S'"
  shows "same_order (new_order E m S type side user_id amount price taker_fee maker_fee source)
    (new_order E' (m'\<lparr>m_name := m_name m\<rparr>) S' type side user_id amount price taker_fee maker_fee source)"
  using assms by (simp add: new_order_def same_order_def untimed_def same_engine_def)

lemma same_market_name: "same_market m m' \<Longrightarrow> m'\<lparr>m_name := m_name m\<rparr> = m'"
  using same_marketD [of m m'] by auto

lemma same_place:
  assumes E: "mpd E' = mpd E" and m: "same_market m m'" and o: "same_order order order'" and S: "same_engine S S'"
  shows "same_state (place_limit_order E live m order S) (place_limit_order E' live' m' order' S')"
proof (cases "mpd_cmp (mpd E) (o_left order) (mpd_zero (mpd E)) = 0")
  case True
  have "same_engine (if live then S\<lparr>hist := append_order_history order (hist S)\<rparr> else S)
      (if live' then S'\<lparr>hist := append_order_history order' (hist S')\<rparr> else S')"
    using S by (simp add: same_engine_def)
  from same_engine_send [OF this] True show ?thesis
    by (simp add: place_limit_order_def E same_order_fields [OF o] same_state_def m)
next
  case False
  have L: "ledger S' = ledger S" using S by (simp add: same_engine_def)
  obtain m1 L1 r where 1: "order_put (mpd E) m (ledger S) order = (m1, L1, r)" by (metis prod_cases3)
  obtain m2 L2 r2 where 2: "order_put (mpd E) m' (ledger S) order' = (m2, L2, r2)" by (metis prod_cases3)
  from same_order_put [OF m o 1 2] False show ?thesis
    using S by (simp add: place_limit_order_def Let_def E same_order_fields [OF o] same_state_def engine_frame L 1 2
        same_engine_def)
qed

lemma same_put_limit_order:
  assumes E: "mpd E' = mpd E" and m: "same_market m m'" and S: "same_engine S S'"
    and put: "market_put_limit_order E live m S user_id side amount price taker_fee maker_fee source = (m1, S1, r, res)"
      "market_put_limit_order E' live' m' S' user_id side amount price taker_fee maker_fee source = (m1', S1', r', res')"
  shows "same_market m1 m1' \<and> same_engine S1 S1' \<and> r' = r"
proof -
  let ?o = "new_order E m S MARKET_ORDER_TYPE_LIMIT side user_id amount price taker_fee maker_fee source"
  let ?o' = "new_order E' m' S' MARKET_ORDER_TYPE_LIMIT side user_id amount price taker_fee maker_fee source"
  have o: "same_order ?o ?o'"
    using same_new_order [OF E m S] by (simp add: same_market_name [OF m])
  have L: "ledger S' = ledger S" using S by (simp add: same_engine_def)
  have chk: "limit_order_check M m' (ledger S') user_id side amount price =
      limit_order_check M m (ledger S) user_id side amount price" for M
    by (simp add: limit_order_check_def L same_market_simps [OF m])
  define ex where "ex = (if side = MARKET_ORDER_SIDE_ASK then execute_limit_ask_order else execute_limit_bid_order)
      E live m ?o (next_order S)"
  define ex' where "ex' = (if side = MARKET_ORDER_SIDE_ASK then execute_limit_ask_order else execute_limit_bid_order)
      E' live' m' ?o' (next_order S')"
  have "same_match ex ex'"
    unfolding ex_def ex'_def
    using same_limit_ask_loop [OF E m o same_next(2) [OF S], of live "m_bids m" live']
      same_limit_bid_loop [OF E m o same_next(2) [OF S], of live "m_asks m" live']
    by (cases "side = MARKET_ORDER_SIDE_ASK")
      (simp_all add: execute_limit_ask_order_def execute_limit_bid_order_def same_market_simps [OF m] cong: if_cong)
  then obtain m2 t2 S2 m2' t2' S2' where x: "ex = (m2, t2, S2)" "ex' = (m2', t2', S2')" "same_market m2 m2'" "same_order t2 t2'" "same_engine S2 S2'"
    by (rule same_matchE)
  from same_place [OF E x(3-5), of live live'] show ?thesis
    using put x m S unfolding market_put_limit_order_def Let_def ex_def [symmetric] ex'_def [symmetric] E chk
    by (auto simp: same_state_def split: if_splits prod.splits)
qed

lemma same_put_market_order:
  assumes E: "mpd E' = mpd E" and m: "same_market m m'" and S: "same_engine S S'"
    and put: "market_put_market_order E live m S user_id side amount taker_fee source = Some (m1, S1, r, res)"
  shows "\<exists>m1' S1' res'. market_put_market_order E' live' m' S' user_id side amount taker_fee source =
      Some (m1', S1', r, res') \<and> same_market m1 m1' \<and> same_engine S1 S1'"
proof -
  let ?o = "new_order E m S MARKET_ORDER_TYPE_MARKET side user_id amount (mpd_zero (mpd E)) taker_fee (mpd_zero (mpd E)) source"
  let ?o' = "new_order E' m' S' MARKET_ORDER_TYPE_MARKET side user_id amount (mpd_zero (mpd E)) taker_fee (mpd_zero (mpd E)) source"
  have o: "same_order ?o ?o'"
    using same_new_order [OF E m S] by (simp add: same_market_name [OF m])
  have L: "ledger S' = ledger S" using S by (simp add: same_engine_def)
  have price: "rel_option same_order (m_orders m n) (m_orders m' n)" for n
    by (rule same_market_lookup [OF m])
  have chk: "market_order_check M m' (ledger S') user_id side amount =
      market_order_check M m (ledger S) user_id side amount" for M
    using price [of "hd (m_asks m)"]
    by (cases "m_asks m"; cases "m_orders m (hd (m_asks m))"; cases "m_orders m' (hd (m_asks m))")
      (simp_all add: market_order_check_def L same_market_simps [OF m] same_order_fields)
  define ex where "ex = (if side = MARKET_ORDER_SIDE_ASK
      then Some (execute_market_ask_order E live m ?o (next_order S))
      else execute_market_bid_order E live m ?o (next_order S))"
  define ex' where "ex' = (if side = MARKET_ORDER_SIDE_ASK
      then Some (execute_market_ask_order E' live' m' ?o' (next_order S'))
      else execute_market_bid_order E' live' m' ?o' (next_order S'))"
  have ee: "rel_option same_match ex ex'"
    using same_market_ask_loop [OF E m o same_next(2) [OF S], of live "m_bids m" live']
      same_market_bid_loop [OF E m o same_next(2) [OF S], of live "m_asks m" live']
    by (cases "side = MARKET_ORDER_SIDE_ASK")
      (simp_all add: ex_def ex'_def execute_market_ask_order_def execute_market_bid_order_def same_market_simps [OF m])
  show ?thesis
  proof (cases "market_order_check (mpd E) m (ledger S) user_id side amount < 0")
    case True
    then show ?thesis using put m S by (auto simp: market_put_market_order_def E chk)
  next
    case False
    then have "ex \<noteq> None"
      using put unfolding market_put_market_order_def Let_def ex_def [symmetric] by (auto split: option.splits)
    with ee obtain x y where "ex = Some x" "ex' = Some y" "same_match x y" by (auto elim: option.rel_cases)
    then obtain m2 t2 S2 m2' t2' S2' where x: "ex = Some (m2, t2, S2)" "ex' = Some (m2', t2', S2')"
      "same_market m2 m2'" "same_order t2 t2'" "same_engine S2 S2'" by (metis same_matchE)
    have e: "same_engine (if live then S2\<lparr>hist := append_order_history t2 (hist S2)\<rparr> else S2)
      (if live' then S2'\<lparr>hist := append_order_history t2' (hist S2')\<rparr> else S2')"
      using x(5) by (simp add: same_engine_def)
    show ?thesis
      using put False
      unfolding market_put_market_order_def Let_def E ex_def [symmetric] ex'_def [symmetric] chk x(1,2)
      by (auto intro!: same_engine_send) (use x(3,5) in \<open>simp_all add: same_engine_def\<close>)
  qed
qed

lemma same_cancel_order:
  assumes E: "mpd E' = mpd E" and m: "same_market m m'" and o: "same_order order order'" and S: "same_engine S S'"
    and can: "market_cancel_order E live m S order = (m1, S1, r, res)"
      "market_cancel_order E' live' m' S' order' = (m1', S1', r', res')"
  shows "same_market m1 m1' \<and> same_engine S1 S1' \<and> r' = r"
proof -
  obtain m2 S2 r2 where 1: "order_finish E live m order (send_order_message E live ORDER_EVENT_FINISH order m S) =
    (m2, S2, r2)" by (metis prod_cases3)
  obtain m3 S3 r3 where 2: "order_finish E' live' m' order'
    (send_order_message E' live' ORDER_EVENT_FINISH order' m' S') = (m3, S3, r3)" by (metis prod_cases3)
  from same_order_finish [OF E m o same_engine_send [OF S] 1 2] show ?thesis
    using can by (auto simp: market_cancel_order_def 1 2)
qed

end
