(* ===== verification/Decimal_Text.thy ===== *)
theory Decimal_Text
  imports Decimal
begin

text \<open>
  Numbers as the servers exchange them: the text \<^verbatim>\<open>mpd_to_sci\<close> writes, without
  the zeros \<^verbatim>\<open>rstripzero\<close> takes off, is read back to the same number. What the
  library promises about its text is the locale \<open>mpd_text_lib\<close>.
\<close>

section \<open>The syntax of numbers\<close>

definition is_digit :: "char \<Rightarrow> bool" where
  "is_digit c \<longleftrightarrow> 48 \<le> (of_char c :: nat) \<and> (of_char c :: nat) \<le> 57"

fun digits_int :: "int \<Rightarrow> string \<Rightarrow> int" where
  "digits_int acc [] = acc"
| "digits_int acc (c # cs) = digits_int (10 * acc + (int (of_char c) - 48)) cs"

text \<open>A mantissa begins with a digit and has at most one point; an exponent may have a sign.\<close>

definition plain :: "string \<Rightarrow> bool" where
  "plain m \<longleftrightarrow> m \<noteq> [] \<and> is_digit (hd m) \<and> list_all (\<lambda>c. is_digit c \<or> c = CHR ''.'') m \<and> count_list m (CHR ''.'') \<le> 1"

definition mantissa :: "string \<Rightarrow> string" where
  "mantissa s = takeWhile (\<lambda>c. c \<noteq> CHR ''e'') s"

definition exponent :: "string \<Rightarrow> string" where
  "exponent s = drop (length (mantissa s) + 1) s"

definition unsign :: "string \<Rightarrow> string" where
  "unsign s = (if s \<noteq> [] \<and> (hd s = CHR ''-'' \<or> hd s = CHR ''+'') then tl s else s)"

definition exp_ok :: "string \<Rightarrow> bool" where
  "exp_ok r \<longleftrightarrow> unsign r \<noteq> [] \<and> list_all is_digit (unsign r)"

definition exp_value :: "string \<Rightarrow> int" where
  "exp_value r = (if r \<noteq> [] \<and> hd r = CHR ''-'' then - digits_int 0 (unsign r) else digits_int 0 (unsign r))"

definition unsigned_ok :: "string \<Rightarrow> bool" where
  "unsigned_ok s \<longleftrightarrow> plain (mantissa s) \<and> (CHR ''e'' \<in> set s \<longrightarrow> exp_ok (exponent s))"

definition unsigned_value :: "string \<Rightarrow> rat" where
  "unsigned_value s = plain_value 0 (mantissa s) * 10 powi (if CHR ''e'' \<in> set s then exp_value (exponent s) else 0)"

definition numeric :: "string \<Rightarrow> bool" where
  "numeric s \<longleftrightarrow> s \<noteq> [] \<and> unsigned_ok (if hd s = CHR ''-'' then tl s else s)"

definition text_value :: "string \<Rightarrow> rat" where
  "text_value s = (if hd s = CHR ''-'' then - unsigned_value (tl s) else unsigned_value s)"

section \<open>Stripping zeros\<close>

lemma strip_zeros_append: "x \<in> set m \<Longrightarrow> x \<noteq> CHR ''0'' \<Longrightarrow> strip_zeros (p @ m) = p @ strip_zeros m"
  by (auto simp: strip_zeros_def intro: dropWhile_append1)

lemma strip_zeros_prefix: "\<exists>k. strip_zeros m = take k m"
proof (induction m rule: rev_induct)
  case (snoc c m)
  then obtain k where k: "strip_zeros m = take k m" by blast
  show ?case
  proof (cases "c = CHR ''0''")
    case True
    then have "strip_zeros (m @ [c]) = take (min k (length m)) (m @ [c])" by (simp add: strip_zeros_snoc k min_def)
    then show ?thesis by blast
  next
    case False
    then have "strip_zeros (m @ [c]) = take (length (m @ [c])) (m @ [c])" by (simp add: strip_zeros_snoc)
    then show ?thesis by blast
  qed
qed (simp add: strip_zeros_def)

lemma plain_take: "plain m \<Longrightarrow> 0 < k \<Longrightarrow> plain (take k m)"
proof -
  assume m: "plain m" and k: "0 < k"
  have "count_list m (CHR ''.'') = count_list (take k m) (CHR ''.'') + count_list (drop k m) (CHR ''.'')"
    by (metis append_take_drop_id count_list_append)
  then show ?thesis using m k by (cases m; cases k) (auto simp: plain_def list_all_iff dest: in_set_takeD)
qed

lemma point_not_digit [simp]: "\<not> is_digit (CHR ''.'')" "\<not> is_digit (CHR ''e'')" "\<not> is_digit (CHR ''-'')" "\<not> is_digit (CHR ''+'')"
  by (simp_all add: is_digit_def)

lemma plain_no_e: "plain m \<Longrightarrow> CHR ''e'' \<notin> set m"
  by (auto simp: plain_def list_all_iff)

lemma mantissa_no_e [simp]: "CHR ''e'' \<notin> set s \<Longrightarrow> mantissa s = s"
  unfolding mantissa_def by (subst takeWhile_eq_all_conv) auto

lemma rstripzero_plain:
  assumes "plain m"
  shows "plain (rstripzero m)"
proof (cases "CHR ''.'' \<in> set m")
  case True
  obtain k where k: "strip_zeros m = take k m" using strip_zeros_prefix by blast
  have p: "CHR ''.'' \<in> set (take k m)" using plain_value_strip [OF True] k by simp
  then have k0: "0 < k" by (cases k) auto
  have hd: "hd (take k m) \<noteq> CHR ''.''" using plain_take [OF assms k0] by (auto simp: plain_def)
  have "\<exists>j>0. butlast (take k m) = take j m"
  proof -
    have "1 < length (take k m)"
    proof (rule ccontr)
      assume "\<not> 1 < length (take k m)"
      then have "length (take k m) \<le> 1" by linarith
      then show False using p hd by (cases "take k m") auto
    qed
    then show ?thesis by (intro exI [of _ "length (take k m) - 1"]) (auto simp: butlast_take butlast_conv_take min_def)
  qed
  then show ?thesis using True assms plain_take [OF assms] k0 k
    by (auto simp: rstripzero_def Let_def)
qed (use assms in \<open>simp add: rstripzero_def\<close>)

lemma rstripzero_sign:
  assumes "plain m"
  shows "rstripzero (CHR ''-'' # m) = CHR ''-'' # rstripzero m"
proof (cases "CHR ''.'' \<in> set m")
  case True
  have "strip_zeros (CHR ''-'' # m) = CHR ''-'' # strip_zeros m"
    using strip_zeros_append [OF True, of "''-''"] by simp
  moreover have "strip_zeros m \<noteq> []" using plain_value_strip [OF True] by auto
  ultimately show ?thesis using True by (simp add: rstripzero_def Let_def)
qed (use plain_no_e [OF assms] in \<open>simp add: rstripzero_def\<close>)

lemma rstripzero_numeric:
  assumes "numeric s"
  shows "numeric (rstripzero s) \<and> text_value (rstripzero s) = text_value s"
proof (cases "CHR ''e'' \<in> set s")
  case True
  then show ?thesis using assms by (simp add: rstripzero_def)
next
  case False
  have v: "plain_value 0 (rstripzero m) = plain_value 0 m" if "plain m" for m
    using that by (intro rstripzero_value) (simp add: plain_def)
  have hd: "hd m \<noteq> CHR ''-''" "m \<noteq> []" if "plain m" for m using that by (auto simp: plain_def)
  obtain m where m: "s = CHR ''-'' # m \<or> s = m \<and> hd m \<noteq> CHR ''-''" "plain m"
    using assms False by (cases s) (auto simp: numeric_def unsigned_ok_def split: if_splits)
  have r: "plain (rstripzero m)" by (rule rstripzero_plain [OF m(2)])
  show ?thesis
    using m(1)
  proof
    assume "s = CHR ''-'' # m"
    then show ?thesis
      using r m(2) v [OF m(2)] plain_no_e by (simp add: rstripzero_sign numeric_def text_value_def unsigned_ok_def unsigned_value_def)
  next
    assume "s = m \<and> hd m \<noteq> CHR ''-''"
    then show ?thesis
      using r m(2) v [OF m(2)] plain_no_e hd [OF r] hd [OF m(2)]
      by (simp add: numeric_def text_value_def unsigned_ok_def unsigned_value_def)
  qed
qed

section \<open>What the library promises\<close>

locale mpd_text_lib = mpd_lib +
  assumes to_sci: "fin x \<Longrightarrow> numeric (mpd_to_sci M x) \<and> text_value (mpd_to_sci M x) = val x"
    and set_string: "numeric s \<Longrightarrow> fits p (text_value s) \<Longrightarrow>
      \<exists>x. mpd_set_string M s = (x, False) \<and> fin x \<and> val x = text_value s"
begin

lemma json_string_numeric:
  "fin x \<Longrightarrow> numeric (mpd_json_string M x) \<and> text_value (mpd_json_string M x) = val x"
  using rstripzero_numeric to_sci by (simp add: mpd_json_string_def)

lemma decimal_numeric:
  "numeric s \<Longrightarrow> fits p (text_value s) \<Longrightarrow> \<exists>x. decimal M s 0 = Some x \<and> fin x \<and> val x = text_value s"
  using set_string [of s p] by (auto simp: decimal_def)

lemma decimal_json_string:
  "fin x \<Longrightarrow> fits p (val x) \<Longrightarrow> \<exists>y. decimal M (mpd_json_string M x) 0 = Some y \<and> fin y \<and> val y = val x"
  using decimal_numeric [of "mpd_json_string M x" p] json_string_numeric [of x] by simp

end

section \<open>Digits\<close>

lemma digits_int_append: "digits_int acc (xs @ ys) = digits_int (digits_int acc xs) ys"
  by (induction xs arbitrary: acc) auto

lemma digits_int_acc: "digits_int acc ds = acc * 10 ^ length ds + digits_int 0 ds"
proof (induction ds arbitrary: acc)
  case (Cons c ds)
  show ?case
    using Cons.IH [of "10 * acc + (int (of_char c) - 48)"] Cons.IH [of "int (of_char c) - 48"]
    by (simp add: algebra_simps)
qed simp

lemma plain_value_digits: "CHR ''.'' \<notin> set ds \<Longrightarrow> plain_value (of_int acc) ds = of_int (digits_int acc ds)"
proof (induction ds arbitrary: acc)
  case (Cons c ds)
  have "10 * of_int acc + digit_val c = of_int (10 * acc + (int (of_char c) - 48))" by (simp add: digit_val_def)
  then have "plain_value (of_int acc) (c # ds) = plain_value (of_int (10 * acc + (int (of_char c) - 48))) ds"
    using Cons.prems by (simp only: plain_value.simps) auto
  moreover have "CHR ''.'' \<notin> set ds" using Cons.prems by auto
  ultimately show ?case using Cons.IH by (metis digits_int.simps(2))
qed simp

lemma frac_value_digits: "frac_value ds * 10 ^ length ds = of_int (digits_int 0 ds)"
proof (induction ds)
  case (Cons c ds)
  have "frac_value (c # ds) * 10 ^ length (c # ds) = digit_val c * 10 ^ length ds + frac_value ds * 10 ^ length ds"
    by (simp add: algebra_simps)
  also have "\<dots> = of_int ((int (of_char c) - 48) * 10 ^ length ds + digits_int 0 ds)"
    by (simp add: Cons.IH digit_val_def)
  also have "(int (of_char c) - 48) * 10 ^ length ds + digits_int 0 ds = digits_int 0 (c # ds)"
    using digits_int_acc [of "int (of_char c) - 48" ds] by simp
  finally show ?case .
qed simp

lemma plain_value_point: "CHR ''.'' \<notin> set ip \<Longrightarrow> plain_value a (ip @ CHR ''.'' # fp) = plain_value a ip + frac_value fp"
  by (induction ip arbitrary: a) auto

lemma digits_no_point: "list_all is_digit ds \<Longrightarrow> CHR ''.'' \<notin> set ds" "list_all is_digit ds \<Longrightarrow> CHR ''e'' \<notin> set ds"
  by (auto simp: list_all_iff)

lemma plain_value_fraction:
  assumes "list_all is_digit ip"
  shows "plain_value 0 (ip @ CHR ''.'' # fp) = of_int (digits_int 0 (ip @ fp)) * 10 powi (- int (length fp))"
proof -
  have "plain_value 0 (ip @ CHR ''.'' # fp) * 10 ^ length fp = of_int (digits_int 0 ip) * 10 ^ length fp + frac_value fp * 10 ^ length fp"
    using plain_value_digits [of ip 0] digits_no_point [OF assms] by (simp add: plain_value_point distrib_right)
  also have "\<dots> = of_int (digits_int 0 ip * 10 ^ length fp + digits_int 0 fp)" by (simp add: frac_value_digits)
  also have "\<dots> = of_int (digits_int 0 (ip @ fp))"
    using digits_int_acc [of "digits_int 0 ip" fp] by (simp add: digits_int_append)
  finally show ?thesis by (simp add: power_int_minus field_simps)
qed

end
