(* ===== verification/Dec128.thy ===== *)
theory Dec128
  imports Decimal_Text
begin

text \<open>
  A concrete decimal arithmetic on which the library interface of \<^verbatim>\<open>Decimal\<close> is
  interpreted: a number is an integer coefficient and a power of ten, results are cut to 34
  digits towards zero, and NaN is a value of its own. It follows the General Decimal Arithmetic
  rules for finite numbers with an unbounded exponent. It is used to instantiate the library
  parameter in the witnesses; no other definition of the development refers to it.
\<close>

datatype dec = Dec int int | NaN

definition tdiv :: "int \<Rightarrow> int \<Rightarrow> int" where
  "tdiv a b = sgn a * sgn b * (\<bar>a\<bar> div \<bar>b\<bar>)"

function dec_round :: "int \<Rightarrow> int \<Rightarrow> dec" where
  "dec_round c e = (if \<bar>c\<bar> < 10 ^ 34 then Dec c e else dec_round (tdiv c 10) (e + 1))"
  by pat_completeness auto
termination
proof (relation "measure (\<lambda>(c, e). nat \<bar>c\<bar>)")
  fix c e :: int
  assume "\<not> \<bar>c\<bar> < 10 ^ 34"
  then have "0 < \<bar>c\<bar>" by (cases "c = 0") auto
  then have "\<bar>c\<bar> div 10 < \<bar>c\<bar>" by simp
  then have "\<bar>tdiv c 10\<bar> < \<bar>c\<bar>" using \<open>0 < \<bar>c\<bar>\<close> by (simp add: tdiv_def abs_mult)
  then show "((tdiv c 10, e + 1), (c, e)) \<in> measure (\<lambda>(c, e). nat \<bar>c\<bar>)" by simp
qed simp

declare dec_round.simps [simp del]

definition dec_align :: "int \<Rightarrow> int \<Rightarrow> int \<Rightarrow> int" where
  "dec_align c e m = c * 10 ^ nat (e - m)"

fun dec_cmp :: "dec \<Rightarrow> dec \<Rightarrow> int" where
  "dec_cmp (Dec a i) (Dec b j) = sgn (dec_align a i (min i j) - dec_align b j (min i j))"
| "dec_cmp _ _ = 2147483647"

fun dec_add :: "dec \<Rightarrow> dec \<Rightarrow> dec" where
  "dec_add (Dec a i) (Dec b j) =
     dec_round (dec_align a i (min i j) + dec_align b j (min i j)) (min i j)"
| "dec_add _ _ = NaN"

fun dec_neg :: "dec \<Rightarrow> dec" where
  "dec_neg (Dec a i) = Dec (- a) i"
| "dec_neg NaN = NaN"

definition dec_sub :: "dec \<Rightarrow> dec \<Rightarrow> dec" where
  "dec_sub x y = dec_add x (dec_neg y)"

fun dec_abs :: "dec \<Rightarrow> dec" where
  "dec_abs (Dec a i) = Dec \<bar>a\<bar> i"
| "dec_abs NaN = NaN"

fun dec_mul :: "dec \<Rightarrow> dec \<Rightarrow> dec" where
  "dec_mul (Dec a i) (Dec b j) = dec_round (a * b) (i + j)"
| "dec_mul _ _ = NaN"

definition div_scale :: int where
  "div_scale = 10 ^ 70"

fun dec_div :: "dec \<Rightarrow> dec \<Rightarrow> dec" where
  "dec_div (Dec a i) (Dec b j) =
     (if b = 0 then NaN else dec_round (tdiv (a * div_scale) b) (i - j - 70))"
| "dec_div _ _ = NaN"

fun dec_rescale :: "dec \<Rightarrow> int \<Rightarrow> dec" where
  "dec_rescale (Dec c e) x =
     (if x \<le> e then
        (let c' = c * 10 ^ nat (e - x) in if \<bar>c'\<bar> < 10 ^ 34 then Dec c' x else NaN)
      else Dec (tdiv c (10 ^ nat (x - e))) x)"
| "dec_rescale NaN x = NaN"

fun dec_divmod :: "dec \<Rightarrow> dec \<Rightarrow> dec \<times> dec" where
  "dec_divmod (Dec a i) (Dec b j) =
     (if b = 0 then (NaN, NaN)
      else let m = min i j; x = dec_align a i m; y = dec_align b j m; q = tdiv x y
        in (dec_round q 0, dec_round (x - q * y) m))"
| "dec_divmod _ _ = (NaN, NaN)"

fun dec_pow :: "dec \<Rightarrow> dec \<Rightarrow> dec" where
  "dec_pow (Dec a i) (Dec n j) =
     (if j \<noteq> 0 then NaN
      else if 0 \<le> n then dec_round (a ^ nat n) (i * n)
      else dec_div (Dec 1 0) (dec_round (a ^ nat (- n)) (i * (- n))))"
| "dec_pow _ _ = NaN"

text \<open>Reading and writing numbers.\<close>

definition dec_of_unsigned :: "int \<Rightarrow> string \<Rightarrow> dec option" where
  "dec_of_unsigned sign s =
     (let m = mantissa s; ip = takeWhile (\<lambda>c. c \<noteq> CHR ''.'') m; fp = drop (length ip + 1) m; has_exp = length m < length s
      in if (ip \<noteq> [] \<or> fp \<noteq> []) \<and> list_all is_digit ip \<and> list_all is_digit fp \<and> (has_exp \<longrightarrow> exp_ok (exponent s))
         then (case dec_round (sign * digits_int 0 (ip @ fp)) ((if has_exp then exp_value (exponent s) else 0) - int (length fp)) of
                 Dec c e \<Rightarrow> Some (Dec c e) | NaN \<Rightarrow> None)
         else None)"

definition dec_set_string :: "string \<Rightarrow> dec \<times> bool" where
  "dec_set_string s =
     (if s = ''NaN'' then (NaN, False)
      else case (if s \<noteq> [] \<and> hd s = CHR ''-'' then dec_of_unsigned (- 1) (tl s) else dec_of_unsigned 1 s) of
        Some d \<Rightarrow> (d, False) | None \<Rightarrow> (NaN, True))"

fun nat_digits :: "nat \<Rightarrow> string" where
  "nat_digits n =
     (if n < 10 then [char_of (48 + n)] else nat_digits (n div 10) @ [char_of (48 + n mod 10)])"

declare nat_digits.simps [simp del]

definition int_string :: "int \<Rightarrow> string" where
  "int_string i = (if i < 0 then CHR ''-'' # nat_digits (nat (- i)) else nat_digits (nat i))"

fun dec_to_sci :: "dec \<Rightarrow> string" where
  "dec_to_sci (Dec c e) =
     (let sign = (if c < 0 then ''-'' else ''''); ds = nat_digits (nat \<bar>c\<bar>);
          adj = e + int (length ds) - 1
      in if e \<le> 0 \<and> - 6 \<le> adj then
           (if e = 0 then sign @ ds
            else let n = nat (- e) in
              if n < length ds
              then sign @ take (length ds - n) ds @ ''.'' @ drop (length ds - n) ds
              else sign @ ''0.'' @ replicate (n - length ds) (CHR ''0'') @ ds)
         else sign @ take 1 ds @ (if length ds = 1 then '''' else ''.'' @ drop 1 ds) @
           ''e'' @ (if adj < 0 then int_string adj else ''+'' @ int_string adj))"
| "dec_to_sci NaN = ''NaN''"

definition dec_ops :: "dec mpd_ops" where
  "dec_ops = \<lparr>mpd_set_string = dec_set_string, mpd_to_sci = dec_to_sci,
     mpd_set_i32 = (\<lambda>i. Dec i 0), mpd_cmp = dec_cmp, mpd_add = dec_add, mpd_sub = dec_sub,
     mpd_mul = dec_mul, mpd_div = dec_div, mpd_divmod = dec_divmod, mpd_pow = dec_pow,
     mpd_abs = dec_abs, mpd_copy_negate = dec_neg, mpd_rescale = dec_rescale\<rparr>"

lemma dec_ops_simps [simp]:
  "mpd_set_string dec_ops = dec_set_string" "mpd_to_sci dec_ops = dec_to_sci"
  "mpd_set_i32 dec_ops = (\<lambda>i. Dec i 0)" "mpd_cmp dec_ops = dec_cmp"
  "mpd_add dec_ops = dec_add" "mpd_sub dec_ops = dec_sub" "mpd_mul dec_ops = dec_mul"
  "mpd_div dec_ops = dec_div" "mpd_divmod dec_ops = dec_divmod" "mpd_pow dec_ops = dec_pow"
  "mpd_abs dec_ops = dec_abs" "mpd_copy_negate dec_ops = dec_neg"
  "mpd_rescale dec_ops = dec_rescale"
  by (simp_all add: dec_ops_def)

section \<open>The instance satisfies the interface\<close>

fun dec_fin :: "dec \<Rightarrow> bool" where
  "dec_fin (Dec c e) = True"
| "dec_fin NaN = False"

fun dec_val :: "dec \<Rightarrow> rat" where
  "dec_val (Dec c e) = of_int c * 10 powi e"
| "dec_val NaN = 0"

lemma ten_powi_nat: "0 \<le> e \<Longrightarrow> (10::rat) powi e = 10 ^ nat e"
  by (simp add: power_int_def)

lemma ten_powi_pos [simp]: "(0::rat) < 10 powi e"
  by simp

lemma ten_powi_split: "m \<le> e \<Longrightarrow> (10::rat) powi e = 10 ^ nat (e - m) * 10 powi m"
  using power_int_add [of "10::rat" "e - m" m] by (simp add: ten_powi_nat)

lemma dec_align_val: "m \<le> e \<Longrightarrow> of_int (dec_align c e m) * (10::rat) powi m = of_int c * 10 powi e"
  by (simp add: dec_align_def ten_powi_split [of m e])

lemma dec_align_eq: "m \<le> e \<Longrightarrow> (of_int (dec_align c e m)::rat) = of_int c * 10 powi (e - m)"
  by (simp add: dec_align_def ten_powi_nat)

lemma sgn_of_int_rat: "sgn (of_int k :: rat) = of_int (sgn k)"
  by (simp add: sgn_if)

lemma dec_diff_val:
  "dec_val (Dec a i) - dec_val (Dec b j) =
     of_int (dec_align a i (min i j) - dec_align b j (min i j)) * 10 powi min i j"
  using dec_align_val [of "min i j" i a] dec_align_val [of "min i j" j b]
  by (simp add: left_diff_distrib)

lemma dec_add_val:
  "dec_val (Dec a i) + dec_val (Dec b j) =
     of_int (dec_align a i (min i j) + dec_align b j (min i j)) * 10 powi min i j"
  using dec_align_val [of "min i j" i a] dec_align_val [of "min i j" j b]
  by (simp add: distrib_right)

lemma dec_cmp_sgn: "of_int (dec_cmp (Dec a i) (Dec b j)) = sgn (dec_val (Dec a i) - dec_val (Dec b j))"
proof -
  have "sgn (10 powi min i j :: rat) = 1" by simp
  then show ?thesis
    unfolding dec_diff_val sgn_mult sgn_of_int_rat by simp
qed

lemma dec_cmp_less: "dec_cmp (Dec a i) (Dec b j) < 0 \<longleftrightarrow> dec_val (Dec a i) < dec_val (Dec b j)"
proof -
  have "dec_cmp (Dec a i) (Dec b j) < 0 \<longleftrightarrow> (of_int (dec_cmp (Dec a i) (Dec b j)) :: rat) < 0" by simp
  then show ?thesis by (simp only: dec_cmp_sgn sgn_less) simp
qed

lemma dec_cmp_eq: "dec_cmp (Dec a i) (Dec b j) = 0 \<longleftrightarrow> dec_val (Dec a i) = dec_val (Dec b j)"
proof -
  have "dec_cmp (Dec a i) (Dec b j) = 0 \<longleftrightarrow> (of_int (dec_cmp (Dec a i) (Dec b j)) :: rat) = 0" by simp
  then show ?thesis by (simp only: dec_cmp_sgn sgn_0_0) simp
qed

lemma dec_round_Dec: "\<exists>c' e'. dec_round c e = Dec c' e'"
proof (induction c e rule: dec_round.induct)
  case (1 c e)
  then show ?case by (subst dec_round.simps) auto
qed

lemma dec_fin_round [simp]: "dec_fin (dec_round c e)"
  using dec_round_Dec [of c e] by auto

lemma tdiv_10_abs: "\<bar>tdiv c 10\<bar> = \<bar>c\<bar> div 10"
  by (cases "c = 0") (simp_all add: tdiv_def abs_mult)

lemma powi_Suc10: "(10::rat) powi (e + 1) = 10 * 10 powi e"
  by (simp add: power_int_add)

lemma dec_round_down:
  "0 \<le> c \<Longrightarrow> 0 \<le> dec_val (dec_round c e) \<and> dec_val (dec_round c e) \<le> of_int c * 10 powi e"
proof (induction c e rule: dec_round.induct)
  case (1 c e)
  show ?case
  proof (cases "\<bar>c\<bar> < 10 ^ 34")
    case True
    with "1.prems" show ?thesis by (simp add: dec_round.simps [of c e])
  next
    case False
    have t: "tdiv c 10 = c div 10" using "1.prems" by (cases "c = 0") (simp_all add: tdiv_def)
    then have IH: "0 \<le> dec_val (dec_round (tdiv c 10) (e + 1)) \<and>
        dec_val (dec_round (tdiv c 10) (e + 1)) \<le> of_int (c div 10) * 10 powi (e + 1)"
      using 1 False by simp
    have "c div 10 * 10 \<le> c" by simp
    then have "(of_int (c div 10 * 10) :: rat) \<le> of_int c" by (simp only: of_int_le_iff)
    then have "of_int (c div 10) * 10 powi (e + 1) \<le> (of_int c :: rat) * 10 powi e"
      by (simp add: powi_Suc10 mult_right_mono flip: mult.assoc)
    with IH False show ?thesis by (auto simp: dec_round.simps [of c e])
  qed
qed

lemma tdiv_exact: "10 dvd c \<Longrightarrow> tdiv c 10 * 10 = c"
  by (auto simp: tdiv_def abs_mult sgn_mult sgn_if)

lemma dec_round_exact:
  "fits p (of_int c * 10 powi e) \<Longrightarrow> dec_val (dec_round c e) = of_int c * 10 powi e"
proof (induction c e rule: dec_round.induct)
  case (1 c e)
  show ?case
  proof (cases "\<bar>c\<bar> < 10 ^ 34")
    case True
    then show ?thesis by (simp add: dec_round.simps [of c e])
  next
    case False
    from "1.prems" obtain k :: int where p: "0 \<le> p"
      and k: "of_int c * 10 powi e * 10 ^ nat p = (of_int k :: rat)"
      and bound: "\<bar>of_int c * 10 powi e\<bar> * 10 ^ nat p < (10 ^ 34 :: rat)"
      by (auto simp: fits_def on_grid_def)
    have ep: "(10::rat) powi e * 10 ^ nat p = 10 powi (e + p)"
      using p by (simp add: power_int_add ten_powi_nat)
    have "e + p < 0"
    proof (rule ccontr)
      assume "\<not> e + p < 0"
      then have "(1::rat) \<le> 10 powi (e + p)" by (simp add: ten_powi_nat)
      then have "\<bar>of_int c :: rat\<bar> * 1 \<le> \<bar>of_int c\<bar> * 10 powi (e + p)"
        by (intro mult_left_mono) auto
      also have "\<dots> = \<bar>of_int c * 10 powi e\<bar> * 10 ^ nat p" by (simp add: abs_mult ep mult.assoc)
      also have "\<dots> < 10 ^ 34" by (rule bound)
      finally have "(of_int \<bar>c\<bar> :: rat) < of_int (10 ^ 34)" by simp
      then have "\<bar>c\<bar> < 10 ^ 34" by (simp only: of_int_less_iff)
      with False show False by blast
    qed
    have "(of_int c :: rat) = of_int c * 10 powi (e + p) * 10 powi (- (e + p))"
      by (simp add: mult.assoc flip: power_int_add)
    also have "\<dots> = of_int k * 10 ^ nat (- (e + p))"
      using k \<open>e + p < 0\<close> by (simp add: ep mult.assoc ten_powi_nat)
    finally have "(of_int c :: rat) = of_int (k * 10 ^ nat (- (e + p)))" by simp
    then have "c = k * 10 ^ nat (- (e + p))" by (simp only: of_int_eq_iff)
    moreover have "(10::int) dvd 10 ^ nat (- (e + p))" using \<open>e + p < 0\<close> by simp
    ultimately have "10 dvd c" by simp
    then have same: "of_int (tdiv c 10) * 10 powi (e + 1) = (of_int c :: rat) * 10 powi e"
      using arg_cong [OF tdiv_exact, of c "of_int :: int \<Rightarrow> rat"]
      by (simp add: powi_Suc10 flip: mult.assoc)
    have "dec_val (dec_round (tdiv c 10) (e + 1)) = of_int (tdiv c 10) * 10 powi (e + 1)"
      using 1 False same by simp
    with False same show ?thesis by (simp add: dec_round.simps [of c e])
  qed
qed

lemma powi_minus_nat: "0 \<le> p \<Longrightarrow> (10::rat) powi (- p) = 1 / 10 ^ nat p"
  by (simp add: power_int_minus ten_powi_nat divide_inverse)

lemma dec_rescale_exact:
  assumes "0 \<le> p" "- p \<le> e" "\<bar>dec_val (Dec c e)\<bar> * 10 ^ nat p < 10 ^ 34"
  shows "dec_fin (dec_rescale (Dec c e) (- p))"
    "dec_val (dec_rescale (Dec c e) (- p)) = trunc_to p (dec_val (Dec c e))"
proof -
  let ?c = "c * 10 ^ nat (e + p)"
  have v: "dec_val (Dec c e) * 10 ^ nat p = of_int ?c"
    using assms by (simp add: mult.assoc flip: ten_powi_nat power_int_add)
  then have "\<bar>dec_val (Dec c e)\<bar> * 10 ^ nat p = of_int \<bar>?c\<bar>"
    using arg_cong [OF v, of abs] by (simp add: abs_mult)
  then have "(of_int \<bar>?c\<bar> :: rat) < of_int (10 ^ 34)" using assms(3) by simp
  then have "\<bar>?c\<bar> < 10 ^ 34" by (simp only: of_int_less_iff)
  then have r: "dec_rescale (Dec c e) (- p) = Dec ?c (- p)" using assms(2) by (simp add: Let_def)
  have "dec_val (Dec ?c (- p)) = dec_val (Dec c e)"
    using v assms(1) by (auto simp add: powi_minus_nat field_simps)
  moreover have "on_grid p (dec_val (Dec c e))" using v unfolding on_grid_def by blast
  ultimately show "dec_fin (dec_rescale (Dec c e) (- p))"
    "dec_val (dec_rescale (Dec c e) (- p)) = trunc_to p (dec_val (Dec c e))"
    unfolding r by (simp_all only: trunc_to_id dec_fin.simps)
qed

lemma dec_rescale_cut:
  assumes "0 \<le> p" "e < - p"
  shows "dec_val (dec_rescale (Dec c e) (- p)) = trunc_to p (dec_val (Dec c e))"
proof -
  define n where "n = nat (- p - e)"
  have np: "(10::rat) powi e * 10 ^ nat p = 1 / 10 ^ n"
    using assms by (simp add: n_def ten_powi_nat flip: powi_minus_nat power_int_add)
       (simp add: powi_minus_nat flip: ten_powi_nat power_int_add)
  have sg: "sgn (of_int c * 10 powi e :: rat) = of_int (sgn c)"
    using sgn_mult [of "of_int c :: rat" "10 powi e"] by (simp add: sgn_of_int_rat)
  have "\<bar>of_int c * 10 powi e\<bar> * 10 ^ nat p = (of_int \<bar>c\<bar> / of_int (10 ^ n) :: rat)"
    by (simp add: abs_mult mult.assoc np)
  then have fl: "\<lfloor>\<bar>of_int c * 10 powi e :: rat\<bar> * 10 ^ nat p\<rfloor> = \<bar>c\<bar> div 10 ^ n"
    by (simp only: floor_divide_of_int_eq)
  show ?thesis using assms
    by (simp add: trunc_to_def fl sg tdiv_def powi_minus_nat n_def [symmetric])
qed

lemma dec_div_down:
  assumes "0 \<le> dec_val (Dec a i)" "0 < dec_val (Dec b j)"
  shows "dec_fin (dec_div (Dec a i) (Dec b j)) \<and> 0 \<le> dec_val (dec_div (Dec a i) (Dec b j)) \<and>
    dec_val (dec_div (Dec a i) (Dec b j)) \<le> dec_val (Dec a i) / dec_val (Dec b j)"
proof -
  have p: "\<not> (10::rat) powi n \<le> 0" "\<not> (10::rat) powi n < 0" for n
    using ten_powi_pos [of n] by linarith+
  have a: "0 \<le> a" and b: "0 < b"
    using assms by (simp_all add: zero_le_mult_iff zero_less_mult_iff p)
  have t: "tdiv (a * div_scale) b = a * div_scale div b"
    using a b by (cases "a = 0") (simp_all add: tdiv_def sgn_mult abs_mult div_scale_def)
  have nn: "0 \<le> a * div_scale div b" using a b by (simp add: pos_imp_zdiv_nonneg_iff div_scale_def)
  have "(of_int (a * div_scale div b) :: rat) \<le> of_int (a * div_scale) / of_int b"
    using of_int_floor_le [of "of_int (a * div_scale) / of_int b :: rat"]
    by (simp only: floor_divide_of_int_eq)
  then have "of_int (a * div_scale div b) * 10 powi (i - j - 70) \<le> (of_int (a * div_scale) / of_int b) * (10::rat) powi (i - j - 70)"
    by (rule mult_right_mono) simp
  also have "\<dots> = dec_val (Dec a i) / dec_val (Dec b j)"
    using b by (simp add: div_scale_def power_int_diff power_int_add field_simps)
  finally show ?thesis
    using dec_round_down [OF nn, of "i - j - 70"] b by (simp add: t)
qed

lemma dec_finD: "dec_fin x \<Longrightarrow> \<exists>c e. x = Dec c e"
  by (cases x) auto

lemma dec_zero: "mpd_zero dec_ops = Dec 0 0"
  by (simp add: mpd_zero_def dec_set_string_def dec_of_unsigned_def mantissa_def is_digit_def dec_round.simps)

lemma dec_one: "mpd_one dec_ops = Dec 1 0"
  by (simp add: mpd_one_def dec_set_string_def dec_of_unsigned_def mantissa_def is_digit_def dec_round.simps)

lemma dec_ten: "mpd_ten dec_ops = Dec 10 0"
  by (simp add: mpd_ten_def dec_set_string_def dec_of_unsigned_def mantissa_def is_digit_def dec_round.simps)

interpretation dec: mpd_nan_lib dec_ops dec_fin dec_val "\<lambda>x. x = NaN"
proof (unfold_locales, goal_cases)
  case (1 x y) then show ?case by (auto dest!: dec_finD simp: dec_cmp_less simp del: dec_cmp.simps dec_val.simps)
next
  case (2 x y) then show ?case by (auto dest!: dec_finD simp: dec_cmp_eq simp del: dec_cmp.simps dec_val.simps)
next
  case (3 x y p)
  then obtain a i b j where "x = Dec a i" "y = Dec b j" using dec_finD by meson
  with 3(3) show ?case by (simp add: dec_add_val dec_round_exact del: dec_val.simps)
next
  case (4 x y p)
  then obtain a i b j where xy: "x = Dec a i" "y = Dec b j" using dec_finD by meson
  then have "dec_val x - dec_val y = dec_val (Dec a i) + dec_val (Dec (- b) j)" by simp
  with 4(3) xy show ?case
    by (simp add: dec_sub_def dec_add_val dec_round_exact del: dec_val.simps)
next
  case (5 x y p)
  then obtain a i b j where xy: "x = Dec a i" "y = Dec b j" using dec_finD by meson
  then have "dec_val x * dec_val y = of_int (a * b) * 10 powi (i + j)"
    by (simp add: power_int_add)
  with 5(3) xy show ?case by (simp add: dec_round_exact del: dec_val.simps)
next
  case (6 x y) then show ?case using dec_finD [of x] dec_finD [of y] dec_div_down by auto
next
  case (7 x p)
  then obtain c e where x: "x = Dec c e" using dec_finD by blast
  show ?case
  proof (cases "- p \<le> e")
    case True
    with 7 x show ?thesis using dec_rescale_exact [of p e c] by simp
  next
    case False
    with 7 x show ?thesis using dec_rescale_cut [of p e c] by auto
  qed
next
  case (8 x) then show ?case by (auto dest!: dec_finD simp: abs_mult)
next
  case (9 x) then show ?case by (auto dest!: dec_finD)
next
  case 10 then show ?case by (simp add: dec_zero)
next
  case 11 then show ?case by (simp add: dec_one)
next
  case (12 x y) then show ?case by (cases x; cases y) auto
next
  case (13 x y) then show ?case by (cases x; cases y) auto
next
  case (14 x y) then show ?case by (cases x; cases y) (auto simp: dec_sub_def)
next
  case (15 x y) then show ?case by (cases x; cases y) auto
next
  case (16 x e) then show ?case by simp
next
  case 17 then show ?case by (simp add: dec_set_string_def)
qed

section \<open>Its text\<close>

lemma nat_digits_props: "nat_digits n \<noteq> [] \<and> list_all is_digit (nat_digits n) \<and> digits_int 0 (nat_digits n) = int n"
proof (induction n rule: nat_digits.induct)
  case (1 n)
  have digit: "is_digit (char_of (48 + k))" "int (of_char (char_of (48 + k) :: char)) - 48 = int k" if "k < 10" for k :: nat
    using that by (simp_all add: is_digit_def)
  show ?case
  proof (cases "n < 10")
    case True
    then show ?thesis using digit [of n] by (simp add: nat_digits.simps [of n])
  next
    case False
    have "10 * int (n div 10) + int (n mod 10) = int n" by (simp add: zdiv_int zmod_int)
    then show ?thesis
      using 1 False digit [of "n mod 10"] by (simp add: nat_digits.simps [of n] digits_int_append)
  qed
qed

lemmas nat_digits_simps [simp] = nat_digits_props [THEN conjunct1] nat_digits_props [THEN conjunct2, THEN conjunct1]
  nat_digits_props [THEN conjunct2, THEN conjunct2]

text \<open>The text of a number without its sign.\<close>

definition dec_unsigned :: "string \<Rightarrow> int \<Rightarrow> string" where
  "dec_unsigned ds e =
     (let adj = e + int (length ds) - 1
      in if e \<le> 0 \<and> - 6 \<le> adj then
           (if e = 0 then ds
            else let n = nat (- e) in
              if n < length ds then take (length ds - n) ds @ ''.'' @ drop (length ds - n) ds
              else ''0.'' @ replicate (n - length ds) (CHR ''0'') @ ds)
         else take 1 ds @ (if length ds = 1 then '''' else ''.'' @ drop 1 ds) @
           ''e'' @ (if adj < 0 then int_string adj else ''+'' @ int_string adj))"

lemma dec_to_sci_unsigned:
  "dec_to_sci (Dec c e) = (if c < 0 then ''-'' else '''') @ dec_unsigned (nat_digits (nat \<bar>c\<bar>)) e"
  by (simp add: dec_unsigned_def Let_def)

lemma hd_digit: "list_all is_digit ds \<Longrightarrow> ds \<noteq> [] \<Longrightarrow> is_digit (hd ds)"
  by (cases ds) auto

lemma count_no_point: "list_all is_digit ds \<Longrightarrow> count_list ds (CHR ''.'') = 0"
  using digits_no_point [of ds] by (simp add: count_list_0_iff)

lemma plain_digits: "list_all is_digit ds \<Longrightarrow> ds \<noteq> [] \<Longrightarrow> plain ds"
  by (auto simp: plain_def hd_digit count_no_point list_all_iff)

lemma plain_fraction: "list_all is_digit ip \<Longrightarrow> ip \<noteq> [] \<Longrightarrow> list_all is_digit fp \<Longrightarrow> plain (ip @ CHR ''.'' # fp)"
  by (auto simp: plain_def hd_digit count_no_point list_all_iff)

lemma unsigned_plain:
  "plain m \<Longrightarrow> unsigned_ok m \<and> unsigned_value m = plain_value 0 m"
  using plain_no_e [of m] by (simp add: unsigned_ok_def unsigned_value_def)

lemma unsigned_exp:
  assumes "plain m" "exp_ok r"
  shows "unsigned_ok (m @ CHR ''e'' # r) \<and> unsigned_value (m @ CHR ''e'' # r) = plain_value 0 m * 10 powi exp_value r"
proof -
  have "mantissa (m @ CHR ''e'' # r) = m" using plain_no_e [OF assms(1)] by (auto simp: mantissa_def takeWhile_append)
  then show ?thesis using assms by (simp add: unsigned_ok_def unsigned_value_def exponent_def)
qed

lemma adj_text:
  "exp_ok (if adj < 0 then int_string adj else ''+'' @ int_string adj) \<and>
   exp_value (if adj < 0 then int_string adj else ''+'' @ int_string adj) = adj"
  by (auto simp: exp_ok_def exp_value_def unsign_def int_string_def)

lemma digits_int_zeros: "digits_int 0 (replicate n (CHR ''0'') @ ds) = digits_int 0 ds"
  by (induction n) auto

lemma dec_unsigned_ok:
  assumes "list_all is_digit ds" "ds \<noteq> []"
  shows "unsigned_ok (dec_unsigned ds e) \<and> unsigned_value (dec_unsigned ds e) = of_int (digits_int 0 ds) * 10 powi e"
proof -
  have td: "list_all is_digit (take k ds)" "list_all is_digit (drop k ds)" for k
    using assms(1) by (auto simp: list_all_iff dest: in_set_takeD in_set_dropD)
  define adj where "adj = e + int (length ds) - 1"
  consider "e = 0" | "e < 0" "- 6 \<le> adj" "nat (- e) < length ds" | "e < 0" "- 6 \<le> adj" "length ds \<le> nat (- e)"
    | "e \<noteq> 0" "\<not> (e \<le> 0 \<and> - 6 \<le> adj)" by linarith
  then show ?thesis
  proof cases
    case 1
    then show ?thesis
      using unsigned_plain [OF plain_digits [OF assms]] plain_value_digits [of ds 0] digits_no_point [OF assms(1)] assms(2)
      by (auto simp: dec_unsigned_def Let_def Suc_le_eq)
  next
    case 2
    let ?k = "length ds - nat (- e)"
    have "dec_unsigned ds e = take ?k ds @ CHR ''.'' # drop ?k ds" using 2 by (simp add: dec_unsigned_def Let_def adj_def)
    moreover have "take ?k ds \<noteq> []" using 2 assms(2) by simp
    ultimately show ?thesis
      using unsigned_plain [OF plain_fraction [OF td(1) _ td(2)], of ?k ?k] plain_value_fraction [OF td(1), of ?k "drop ?k ds"] 2
      by simp
  next
    case 3
    let ?fp = "replicate (nat (- e) - length ds) (CHR ''0'') @ ds"
    have "dec_unsigned ds e = ''0'' @ CHR ''.'' # ?fp" using 3 by (simp add: dec_unsigned_def Let_def adj_def)
    moreover have z: "list_all is_digit ''0''" by (simp add: is_digit_def)
    moreover have "list_all is_digit ?fp" using assms(1) by (auto simp: list_all_iff is_digit_def)
    moreover have "digits_int 0 (''0'' @ ?fp) = digits_int 0 ds" by (simp add: digits_int_zeros)
    ultimately show ?thesis
      using unsigned_plain [OF plain_fraction [OF z]] plain_value_fraction [OF z, of ?fp] 3 by simp
  next
    case 4
    let ?r = "if adj < 0 then int_string adj else ''+'' @ int_string adj"
    have e: "of_int (digits_int 0 ds) * 10 powi (- int (length ds - 1)) * 10 powi adj = (of_int (digits_int 0 ds) * 10 powi e :: rat)"
      using assms(2) by (simp add: adj_def mult.assoc flip: power_int_add) (cases ds; simp add: algebra_simps)
    show ?thesis
    proof (cases "length ds = 1")
      case True
      then have "dec_unsigned ds e = ds @ CHR ''e'' # ?r"
        unfolding dec_unsigned_def Let_def adj_def [symmetric] if_not_P [OF 4(2)] by simp
      then show ?thesis
        using unsigned_exp [OF plain_digits [OF assms] adj_text [THEN conjunct1]] adj_text [of adj] e True
          plain_value_digits [of ds 0] digits_no_point [OF assms(1)] by simp
    next
      case False
      have n: "take 1 ds \<noteq> []" using assms(2) by simp
      have "dec_unsigned ds e = (take 1 ds @ CHR ''.'' # drop 1 ds) @ CHR ''e'' # ?r"
        using False unfolding dec_unsigned_def Let_def adj_def [symmetric] if_not_P [OF 4(2)] by simp
      then show ?thesis
        using unsigned_exp [OF plain_fraction [OF td(1) n td(2)] adj_text [THEN conjunct1], of 1 adj] adj_text [of adj] e
          plain_value_fraction [OF td(1), of 1 "drop 1 ds"] by (simp del: One_nat_def append_assoc)
    qed
  qed
qed

lemma dec_unsigned_hd: "list_all is_digit ds \<Longrightarrow> ds \<noteq> [] \<Longrightarrow> dec_unsigned ds e \<noteq> [] \<and> hd (dec_unsigned ds e) \<noteq> CHR ''-''"
  by (cases ds) (auto simp: dec_unsigned_def Let_def hd_append is_digit_def take_Cons')

lemma dec_to_sci_numeric: "numeric (dec_to_sci (Dec c e)) \<and> text_value (dec_to_sci (Dec c e)) = dec_val (Dec c e)"
proof -
  let ?ds = "nat_digits (nat \<bar>c\<bar>)"
  show ?thesis
    using dec_unsigned_ok [of ?ds e] dec_unsigned_hd [of ?ds e]
    by (auto simp: dec_to_sci_unsigned numeric_def text_value_def simp del: dec_to_sci.simps)
qed

text \<open>Reading.\<close>

lemma plain_split:
  assumes "plain m"
  defines "ip \<equiv> takeWhile (\<lambda>c. c \<noteq> CHR ''.'') m"
  defines "fp \<equiv> drop (length ip + 1) m"
  shows "list_all is_digit ip" "list_all is_digit fp" "ip \<noteq> []"
    "plain_value 0 m = of_int (digits_int 0 (ip @ fp)) * 10 powi (- int (length fp))"
proof -
  have m: "m \<noteq> []" "is_digit (hd m)" "list_all (\<lambda>c. is_digit c \<or> c = CHR ''.'') m" "count_list m (CHR ''.'') \<le> 1"
    using assms(1) by (auto simp: plain_def)
  have ip: "\<forall>c\<in>set ip. c \<noteq> CHR ''.'' \<and> c \<in> set m" unfolding ip_def by (auto dest: set_takeWhileD)
  then show d: "list_all is_digit ip" using m(3) by (auto simp: list_all_iff)
  show "ip \<noteq> []" using m(1,2) unfolding ip_def by (cases m) auto
  have dw: "m = ip @ dropWhile (\<lambda>c. c \<noteq> CHR ''.'') m" by (simp add: ip_def)
  have "list_all is_digit fp \<and> plain_value 0 m = of_int (digits_int 0 (ip @ fp)) * 10 powi (- int (length fp))"
  proof (cases "dropWhile (\<lambda>c. c \<noteq> CHR ''.'') m")
    case Nil
    then have e: "ip = m" using dw by (metis append_Nil2)
    then have f: "fp = []" unfolding fp_def by (metis add_leE drop_all le_add1 order_refl)
    have "CHR ''.'' \<notin> set m" using digits_no_point [OF d] e by metis
    then have "plain_value 0 m = of_int (digits_int 0 m)" using plain_value_digits [of m 0] by simp
    then show ?thesis unfolding f e by simp
  next
    case (Cons c r)
    then have c: "c = CHR ''.''" using hd_dropWhile [of "\<lambda>c. c \<noteq> CHR ''.''" m] by simp
    have mm: "m = ip @ CHR ''.'' # r" using dw unfolding Cons c .
    then have fp: "fp = r" by (simp add: fp_def)
    have "count_list r (CHR ''.'') = 0" using m(4) by (subst (asm) mm) simp
    moreover have "list_all (\<lambda>c. is_digit c \<or> c = CHR ''.'') r" using m(3) by (subst (asm) mm) simp
    ultimately have "list_all is_digit fp" by (auto simp: fp list_all_iff count_list_0_iff)
    then show ?thesis using plain_value_fraction [OF d, of r] by (subst mm) (simp add: fp)
  qed
  then show "list_all is_digit fp" "plain_value 0 m = of_int (digits_int 0 (ip @ fp)) * 10 powi (- int (length fp))" by auto
qed

lemma mantissa_shorter: "length (mantissa s) < length s \<longleftrightarrow> CHR ''e'' \<in> set s"
proof (cases "CHR ''e'' \<in> set s")
  case True
  then have "mantissa s \<noteq> s" by (auto simp: mantissa_def dest: set_takeWhileD [of _ _ s])
  moreover have "length (mantissa s) \<le> length s" by (simp add: mantissa_def length_takeWhile_le)
  moreover have "mantissa s = take (length (mantissa s)) s" unfolding mantissa_def by (rule takeWhile_eq_take)
  ultimately show ?thesis using True by (metis le_neq_implies_less take_all_iff)
next
  case False
  then show ?thesis by (simp add: mantissa_no_e)
qed

lemma dec_of_unsigned_numeric:
  assumes "unsigned_ok s" "fits p (of_int sign * unsigned_value s)"
  shows "\<exists>d. dec_of_unsigned sign s = Some d \<and> dec_fin d \<and> dec_val d = of_int sign * unsigned_value s"
proof -
  let ?ip = "takeWhile (\<lambda>c. c \<noteq> CHR ''.'') (mantissa s)"
  let ?fp = "drop (length ?ip + 1) (mantissa s)"
  have m: "plain (mantissa s)" using assms(1) by (simp add: unsigned_ok_def)
  note P = plain_split [OF m]
  let ?x = "if CHR ''e'' \<in> set s then exp_value (exponent s) else 0"
  have v: "of_int (sign * digits_int 0 (?ip @ ?fp)) * 10 powi (?x - int (length ?fp)) = (of_int sign * unsigned_value s :: rat)"
    unfolding unsigned_value_def P(4) by (simp add: power_int_diff power_int_minus field_simps)
  obtain c e where d: "dec_round (sign * digits_int 0 (?ip @ ?fp)) (?x - int (length ?fp)) = Dec c e"
    using dec_round_Dec by blast
  have "dec_val (Dec c e) = of_int sign * unsigned_value s"
    using dec_round_exact [of p "sign * digits_int 0 (?ip @ ?fp)" "?x - int (length ?fp)"] assms(2) unfolding v d by simp
  then show ?thesis
    using P(1-3) assms(1) d unfolding dec_of_unsigned_def Let_def mantissa_shorter by (simp add: unsigned_ok_def)
qed

lemma dec_set_string_numeric:
  assumes "numeric s" "fits p (text_value s)"
  shows "\<exists>x. dec_set_string s = (x, False) \<and> dec_fin x \<and> dec_val x = text_value s"
proof -
  have hd: "is_digit (hd t) \<and> t \<noteq> []" if "unsigned_ok t" for t
  proof -
    have "plain (mantissa t)" using that by (simp add: unsigned_ok_def)
    then show ?thesis by (cases t) (auto simp: plain_def mantissa_def split: if_splits)
  qed
  obtain c t where s: "s = c # t" using assms(1) by (cases s) (simp_all add: numeric_def)
  show ?thesis
  proof (cases "c = CHR ''-''")
    case True
    then have "unsigned_ok t" "fits p (of_int (- 1) * unsigned_value t)"
      using assms by (simp_all add: s numeric_def text_value_def)
    from dec_of_unsigned_numeric [OF this] show ?thesis using True by (auto simp: s dec_set_string_def text_value_def)
  next
    case False
    then have u: "unsigned_ok s" "fits p (of_int 1 * unsigned_value s)"
      using assms by (simp_all add: s numeric_def text_value_def)
    have "s \<noteq> ''NaN''" using hd [OF u(1)] by (auto simp: is_digit_def)
    then show ?thesis using dec_of_unsigned_numeric [OF u] False by (auto simp: s dec_set_string_def text_value_def)
  qed
qed

interpretation dec_text: mpd_text_lib dec_ops dec_fin dec_val
proof (unfold_locales, goal_cases)
  case (1 x)
  then show ?case using dec_to_sci_numeric by (auto dest!: dec_finD simp del: dec_to_sci.simps dec_val.simps)
next
  case (2 s p)
  then show ?case using dec_set_string_numeric by simp
qed

end
