(* ===== verification/Json_Values.thy ===== *)
theory Json_Values
  imports Order "HOL-Library.AList"
begin

text \<open>
  A concrete JSON library for the witnesses: documents as a datatype, printed in a text that
  reads back to the document. Nothing but the witnesses uses it; the engine's definitions take
  the library as the parameter \<open>json_ops\<close>.
\<close>

datatype jv = JNull | JBool bool | JInt int | JReal int | JStr string | JArr "jv list" | JObj "(string \<times> jv) list"

section \<open>Text\<close>

definition unary :: "nat \<Rightarrow> string" where
  "unary n = replicate n CHR ''1'' @ '';''"

fun read_unary :: "string \<Rightarrow> (nat \<times> string) option" where
  "read_unary [] = None"
| "read_unary (c # s) =
     (if c = CHR '';'' then Some (0, s)
      else if c = CHR ''1'' then map_option (\<lambda>(n, s). (Suc n, s)) (read_unary s) else None)"

lemma read_unary [simp]: "read_unary (unary n @ s) = Some (n, s)"
  by (induction n) (simp_all add: unary_def)

definition show_int :: "int \<Rightarrow> string" where
  "show_int i = (if i < 0 then CHR ''-'' # unary (nat (- i)) else CHR ''+'' # unary (nat i))"

definition read_int :: "string \<Rightarrow> (int \<times> string) option" where
  "read_int s = (case s of [] \<Rightarrow> None
     | c # s \<Rightarrow> map_option (\<lambda>(n, s). (if c = CHR ''-'' then - int n else int n, s)) (read_unary s))"

lemma read_int [simp]: "read_int (show_int i @ s) = Some (i, s)"
  by (simp add: read_int_def show_int_def)

definition show_str :: "string \<Rightarrow> string" where
  "show_str t = unary (length t) @ t"

definition read_str :: "string \<Rightarrow> (string \<times> string) option" where
  "read_str s = map_option (\<lambda>(n, s). (take n s, drop n s)) (read_unary s)"

lemma read_str [simp]: "read_str (show_str t @ s) = Some (t, s)"
  by (simp add: read_str_def show_str_def)

fun show_jv :: "jv \<Rightarrow> string" where
  "show_jv JNull = ''n''"
| "show_jv (JBool b) = [if b then CHR ''t'' else CHR ''f'']"
| "show_jv (JInt i) = CHR ''i'' # show_int i"
| "show_jv (JReal i) = CHR ''r'' # show_int i"
| "show_jv (JStr t) = CHR ''s'' # show_str t"
| "show_jv (JArr xs) = CHR ''['' # concat (map (\<lambda>x. CHR '','' # show_jv x) xs) @ '']''"
| "show_jv (JObj ms) = CHR ''{'' # concat (map (\<lambda>(k, x). CHR '','' # show_str k @ show_jv x) ms) @ ''}''"

fun read_jv :: "nat \<Rightarrow> string \<Rightarrow> (jv \<times> string) option"
  and read_items :: "nat \<Rightarrow> string \<Rightarrow> (jv list \<times> string) option"
  and read_members :: "nat \<Rightarrow> string \<Rightarrow> ((string \<times> jv) list \<times> string) option" where
  "read_jv 0 s = None"
| "read_jv (Suc n) s = (case s of [] \<Rightarrow> None
     | c # s \<Rightarrow>
         if c = CHR ''n'' then Some (JNull, s)
         else if c = CHR ''t'' then Some (JBool True, s)
         else if c = CHR ''f'' then Some (JBool False, s)
         else if c = CHR ''i'' then map_option (\<lambda>(i, s). (JInt i, s)) (read_int s)
         else if c = CHR ''r'' then map_option (\<lambda>(i, s). (JReal i, s)) (read_int s)
         else if c = CHR ''s'' then map_option (\<lambda>(t, s). (JStr t, s)) (read_str s)
         else if c = CHR ''['' then map_option (\<lambda>(xs, s). (JArr xs, s)) (read_items n s)
         else if c = CHR ''{'' then map_option (\<lambda>(ms, s). (JObj ms, s)) (read_members n s)
         else None)"
| "read_items 0 s = None"
| "read_items (Suc n) s = (case s of [] \<Rightarrow> None
     | c # s \<Rightarrow>
         if c = CHR '']'' then Some ([], s)
         else (case read_jv n s of None \<Rightarrow> None
               | Some (x, s) \<Rightarrow> map_option (\<lambda>(xs, s). (x # xs, s)) (read_items n s)))"
| "read_members 0 s = None"
| "read_members (Suc n) s = (case s of [] \<Rightarrow> None
     | c # s \<Rightarrow>
         if c = CHR ''}'' then Some ([], s)
         else (case read_str s of None \<Rightarrow> None
               | Some (k, s) \<Rightarrow>
                   (case read_jv n s of None \<Rightarrow> None
                    | Some (x, s) \<Rightarrow> map_option (\<lambda>(ms, s). ((k, x) # ms, s)) (read_members n s))))"

lemma read_items_show:
  assumes "\<forall>x\<in>set xs. \<forall>n s. length (show_jv x) \<le> n \<longrightarrow> read_jv n (show_jv x @ s) = Some (x, s)"
    and "length (concat (map (\<lambda>x. CHR '','' # show_jv x) xs)) < n"
  shows "read_items n (concat (map (\<lambda>x. CHR '','' # show_jv x) xs) @ CHR '']'' # s) = Some (xs, s)"
  using assms
proof (induction xs arbitrary: n)
  case Nil
  then show ?case by (cases n) simp_all
next
  case (Cons x xs)
  then show ?case by (cases n) simp_all
qed

lemma read_members_show:
  assumes "\<forall>m\<in>set ms. \<forall>n s. length (show_jv (snd m)) \<le> n \<longrightarrow> read_jv n (show_jv (snd m) @ s) = Some (snd m, s)"
    and "length (concat (map (\<lambda>(k, x). CHR '','' # show_str k @ show_jv x) ms)) < n"
  shows "read_members n (concat (map (\<lambda>(k, x). CHR '','' # show_str k @ show_jv x) ms) @ CHR ''}'' # s) = Some (ms, s)"
  using assms
proof (induction ms arbitrary: n)
  case Nil
  then show ?case by (cases n) simp_all
next
  case (Cons m ms)
  then show ?case by (cases n; cases m) simp_all
qed

lemma read_show: "length (show_jv v) \<le> n \<Longrightarrow> read_jv n (show_jv v @ s) = Some (v, s)"
proof (induction v arbitrary: n s)
  case (JArr xs)
  then show ?case using read_items_show [of xs "n - 1" s] by (cases n) auto
next
  case (JObj ms)
  then have "\<forall>m\<in>set ms. \<forall>n s. length (show_jv (snd m)) \<le> n \<longrightarrow> read_jv n (show_jv (snd m) @ s) = Some (snd m, s)"
    by (auto simp: snds.simps)
  with JObj show ?case using read_members_show [of ms "n - 1" s] by (cases n) auto
qed (case_tac [!] n, simp_all)

section \<open>The library\<close>

fun jv_is_array :: "jv \<Rightarrow> bool" where
  "jv_is_array (JArr xs) = True" | "jv_is_array _ = False"

fun jv_items :: "jv \<Rightarrow> jv list" where
  "jv_items (JArr xs) = xs" | "jv_items _ = []"

fun jv_members :: "jv \<Rightarrow> (string \<times> jv) list" where
  "jv_members (JObj ms) = ms" | "jv_members _ = []"

fun jv_object_set :: "jv \<Rightarrow> string \<Rightarrow> jv \<Rightarrow> jv" where
  "jv_object_set (JObj ms) k x = JObj (AList.update k x ms)" | "jv_object_set v k x = v"

fun jv_array_set :: "jv \<Rightarrow> nat \<Rightarrow> jv \<Rightarrow> jv" where
  "jv_array_set (JArr xs) i x = JArr (xs[i := x])" | "jv_array_set v i x = v"

definition jv_ops :: "jv json_ops" where
  "jv_ops = \<lparr>json_loadb = (\<lambda>s. case read_jv (length s) s of Some (v, []) \<Rightarrow> Some v | _ \<Rightarrow> None),
     json_is_array = jv_is_array, json_array_size = (\<lambda>v. length (jv_items v)),
     json_array_get = (\<lambda>v i. if i < length (jv_items v) then Some (jv_items v ! i) else None),
     json_is_object = (\<lambda>v. case v of Some (JObj ms) \<Rightarrow> True | _ \<Rightarrow> False),
     json_object_get = (\<lambda>v k. map_of (jv_members v) k),
     json_is_integer = (\<lambda>v. case v of Some (JInt i) \<Rightarrow> True | _ \<Rightarrow> False),
     json_integer_value = (\<lambda>v. case v of Some (JInt i) \<Rightarrow> i | _ \<Rightarrow> 0),
     json_real_value = (\<lambda>v. case v of Some (JReal i) \<Rightarrow> i | _ \<Rightarrow> 0),
     json_is_string = (\<lambda>v. case v of Some (JStr t) \<Rightarrow> True | _ \<Rightarrow> False),
     json_string_value = (\<lambda>v. case v of Some (JStr t) \<Rightarrow> Some t | _ \<Rightarrow> None),
     json_is_null = (\<lambda>v. v = Some JNull), json_is_true = (\<lambda>v. v = Some (JBool True)),
     json_null = JNull, json_boolean = JBool, json_integer = JInt, json_real = JReal, json_string = JStr, json_array = JArr,
     json_object = JObj, json_object_set = jv_object_set, json_array_set = jv_array_set,
     json_dumps = (\<lambda>v flags. Some (show_jv v))\<rparr>"

lemma jv_round_trip: "json_dumps jv_ops v flags = Some s \<Longrightarrow> json_loadb jv_ops s = Some v"
  using read_show [of v "length (show_jv v)" "[]"] by (auto simp: jv_ops_def)

end
