(* ===== verification/Example_Market.thy ===== *)
theory Example_Market
  imports Exchange Replay Dec128 Json_Values
begin

text \<open>
  A small market on the concrete arithmetic of \<open>Dec128\<close>, for the witnesses of the properties:
  user 1 offers 2 BTC at 100 CNY and has 3 more, user 2 has 1000 CNY.
\<close>

definition ex_env :: "(dec, jv) env" where
  "ex_env = \<lparr>mpd = dec_ops, json = jv_ops, clock = int, kafka = (\<lambda>_. Produced)\<rparr>"

definition ex_order :: "dec order" where
  "ex_order = \<lparr>o_id = 1, o_type = 1, o_side = 1, o_create_time = 0, o_update_time = 0, o_user_id = 1,
     o_market = ''BTCCNY'', o_source = '''', o_price = Dec 100 0, o_amount = Dec 2 0, o_taker_fee = Dec 1 (- 2),
     o_maker_fee = Dec 1 (- 2), o_left = Dec 2 0, o_freeze = Dec 2 0, o_deal_stock = Dec 0 0,
     o_deal_money = Dec 0 0, o_deal_fee = Dec 0 0\<rparr>"

definition ex_market :: "dec market" where
  "ex_market = \<lparr>m_name = ''BTCCNY'', m_stock = ''BTC'', m_money = ''CNY'', m_stock_prec = 4, m_money_prec = 2,
     m_fee_prec = 2, m_min_amount = Dec 1 (- 3), m_orders = [1 \<mapsto> ex_order], m_users = [1 \<mapsto> [1]],
     m_asks = [1], m_bids = []\<rparr>"

definition ex_ledger :: "dec ledger" where
  "ex_ledger = \<lparr>dict_asset = [''BTC'' \<mapsto> \<lparr>prec_save = 8, prec_show = 8\<rparr>, ''CNY'' \<mapsto> \<lparr>prec_save = 8, prec_show = 2\<rparr>],
     dict_balance = [(1, 1, ''BTC'') \<mapsto> Dec 3 0, (1, 2, ''BTC'') \<mapsto> Dec 2 0, (2, 1, ''CNY'') \<mapsto> Dec 1000 0]\<rparr>"

definition ex_engine :: "(dec, jv) engine" where
  "ex_engine = \<lparr>ledger = ex_ledger, order_id_start = 1, deals_id_start = 0, ticks = 0,
     hist = \<lparr>h_dict = Map.empty, h_jobs = []\<rparr>, msgs = init_message\<rparr>"

lemma ex_simps [simp]:
  "mpd ex_env = dec_ops" "ledger ex_engine = ex_ledger" "order_id_start ex_engine = 1"
  "m_orders ex_market = [1 \<mapsto> ex_order]" "m_stock ex_market = ''BTC''" "m_money ex_market = ''CNY''"
  "m_stock_prec ex_market = 4" "m_money_prec ex_market = 2" "m_fee_prec ex_market = 2"
  "m_asks ex_market = [1]" "m_bids ex_market = []" "m_users ex_market = [1 \<mapsto> [1]]" "m_min_amount ex_market = Dec 1 (- 3)"
  "o_id ex_order = 1" "o_type ex_order = 1" "o_side ex_order = 1" "o_user_id ex_order = 1"
  "o_price ex_order = Dec 100 0" "o_amount ex_order = Dec 2 0" "o_left ex_order = Dec 2 0"
  "o_freeze ex_order = Dec 2 0" "o_deal_stock ex_order = Dec 0 0" "o_maker_fee ex_order = Dec 1 (- 2)"
  "o_taker_fee ex_order = Dec 1 (- 2)"
  by (simp_all add: ex_env_def ex_engine_def ex_market_def ex_order_def)

lemma on_grid_int [simp]: "on_grid p (of_int k)"
  unfolding on_grid_def by (rule exI [of _ "k * 10 ^ nat p"]) simp

lemma on_grid_nat [simp]: "on_grid p 0" "on_grid p 1" "on_grid p (numeral n)"
  using on_grid_int [of p 0] on_grid_int [of p 1] on_grid_int [of p "numeral n"] by simp_all

lemma on_grid_cent [simp]: "on_grid 2 (1 / 100)"
  unfolding on_grid_def by (rule exI [of _ 1]) simp

lemma ex_val [simp]: "dec_val (Dec 1 (- 2)) = 1 / 100" "dec_val (Dec 1 (- 3)) = 1 / 1000"
  by (simp_all add: power_int_minus_divide)

lemma ex_bal: "bal dec_val ex_ledger = ((\<lambda>_. 0)((1, 1, ''BTC'') := 3, (1, 2, ''BTC'') := 2, (2, 1, ''CNY'') := 1000))"
  by (auto simp: bal_def ex_ledger_def fun_eq_iff)

lemma supply_of_zero: "supply_of (\<lambda>_. 0) a = 0"
  by (simp add: supply_of_def)

lemma support_upd: "finite {k. f k \<noteq> (0::rat)} \<Longrightarrow> finite {k. (f(j := x)) k \<noteq> 0}"
  by (rule finite_subset [of _ "insert j {k. f k \<noteq> 0}"]) auto

lemma ex_supply: "asset_supply dec_val ex_ledger ''BTC'' = 5" "asset_supply dec_val ex_ledger ''CNY'' = 1000"
proof -
  have f: "finite {k. (\<lambda>_. 0 :: rat) k \<noteq> 0}" by simp
  note u = supply_of_upd [OF support_upd [OF support_upd [OF f]]] supply_of_upd [OF support_upd [OF f]] supply_of_upd [OF f]
  show "asset_supply dec_val ex_ledger ''BTC'' = 5" "asset_supply dec_val ex_ledger ''CNY'' = 1000"
    unfolding ex_bal by (simp_all add: u supply_of_zero del: fun_upd_apply) simp_all
qed

lemma ex_frozen: "frozen dec_val ex_market u a = (if u = 1 \<and> a = ''BTC'' then 2 else 0)"
  by (auto simp: frozen_def sum_map_def paid_in_def MARKET_ORDER_SIDE_ASK_def)

lemma ex_ledger_ok: "ledger_ok dec_fin dec_val ex_ledger"
  by (auto simp: ledger_ok_def ex_ledger_def assets_ok_def ASSET_NAME_MAX_LEN_def entry_ok_def split: if_splits)

lemma ex_digits: "digits (dict_asset ex_ledger) ex_market = 8"
  by (simp add: digits_def save_prec_def ex_ledger_def)

lemma ex_conf_ok: "conf_ok (dict_asset ex_ledger) ex_market"
  using ex_digits by (simp add: conf_ok_def save_prec_def) (simp add: ex_ledger_def)

lemma ex_struct_ok: "struct_ok dec_ops dec_fin ex_market"
  by (auto simp: struct_ok_def orders_ok_def key_ok_def book_sorted_def side_ids_def user_ids_def user_list_def
      MARKET_ORDER_TYPE_LIMIT_def MARKET_ORDER_SIDE_ASK_def MARKET_ORDER_SIDE_BID_def split: if_splits)

definition ex_reserve :: "u32 \<Rightarrow> string \<Rightarrow> rat" where
  "ex_reserve u a = 0"

lemma ex_market_ok: "market_ok dec_ops dec_fin dec_val ex_reserve ex_market ex_ledger"
proof -
  have "covered dec_val ex_reserve ex_market ex_ledger"
    by (auto simp: covered_def ex_reserve_def ex_frozen ex_bal BALANCE_TYPE_FREEZE_def)
  moreover have "roomy dec_val ex_ledger ex_market"
    by (simp add: roomy_def ex_supply ex_digits)
  moreover have "backed dec_fin dec_val ex_market ex_order"
    by (simp add: backed_def lim_ok_def needed_def rate_ok_def fits_def MARKET_ORDER_SIDE_ASK_def)
  ultimately show ?thesis
    by (auto simp: market_ok_def ex_struct_ok ex_ledger_ok ex_conf_ok split: if_splits)
qed

lemma ex_exch_ok: "exch_ok dec_ops dec_fin dec_val ex_reserve ex_market ex_engine"
  by (auto simp: exch_ok_def ex_market_ok uncrossed_def ids_below_def MARKET_ORDER_SIDE_ASK_def
      MARKET_ORDER_SIDE_BID_def split: if_splits)

lemma dec_mpd_lib: "mpd_lib dec_ops dec_fin dec_val"
  by (rule dec.mpd_lib_axioms)

text \<open>The bid of the witnesses: user 2 buys 3 BTC at up to 101 CNY.\<close>

lemma ex_limit_input: "limit_input dec_fin dec_val ex_market (Dec 3 0) (Dec 101 0) (Dec 1 (- 2)) (Dec 1 (- 2))"
  by (simp add: limit_input_def rate_ok_def fits_def)

lemma ex_limit_check: "limit_order_check dec_ops ex_market ex_ledger 2 2 (Dec 3 0) (Dec 101 0) = 0"
  by (simp add: limit_order_check_def Let_def MARKET_ORDER_SIDE_ASK_def balance_get_def balance_key_def
      ASSET_NAME_MAX_LEN_def BALANCE_TYPE_AVAILABLE_def ex_ledger_def dec_align_def dec_round.simps)

end
