(* ===== verification/Market_Properties.thy ===== *)
theory Market_Properties
  imports Example_Market
begin

text \<open>
  The properties of \<^verbatim>\<open>matchengine/me_market.c\<close>: what a limit order, a market order and a
  cancellation do on a well-formed market, that replaying them does the same, and what an amount
  that is not a number does. The theorems on orders are about numbers as \<open>limit_input\<close> and
  \<open>market_input\<close> describe them: finite (neither NaN nor infinite), positive, with the decimals of
  the market and at most 34 digits, and rates of fees between 0 and 1. The engine itself does not
  ensure that an amount or a price is a number: see \<open>nan_limit_order_accepted\<close> and
  \<open>nan_market_order_hangs\<close>.
\<close>

section \<open>Limit orders\<close>

text \<open>
  C1. An accepted limit order is matched by price and time: it makes a sequence of deals, each
  with the order that is first in the opposite book at that moment and whose price is at least as
  good as the limit, for no more than was ordered; what is left over is put into the book as an
  open order of that amount, and nothing is put when all was dealt. Amount, price and rates of
  fees are finite numbers that fit the market (\<open>limit_input\<close>).
\<close>

theorem limit_order_price_time:
  assumes "mpd_lib (mpd E) fin val" and "exch_ok (mpd E) fin val R m S"
    and "limit_input fin val m amount price taker_fee maker_fee"
    and "side \<in> {MARKET_ORDER_SIDE_ASK, MARKET_ORDER_SIDE_BID}" and "order_id_start S + 1 \<noteq> 0"
    and "limit_order_check (mpd E) m (ledger S) user side amount price = 0"
  shows "\<exists>ds m1 S1 m' S' res.
    market_put_limit_order E live m S user side amount price taker_fee maker_fee source = (m', S', 0, res) \<and>
    trades (mpd E) fin val R user taker_fee (acceptable val side price) m (next_order S) ds m1 S1 \<and>
    sum_dealt ds \<le> val amount \<and>
    (if sum_dealt ds = val amount then m' = m1
     else \<exists>order. m_orders m' = (m_orders m1)(order_id_start S + 1 \<mapsto> order) \<and>
       val (o_left order) = val amount - sum_dealt ds \<and> o_user_id order = user \<and> o_side order = side \<and>
       o_price order = price \<and> o_amount order = amount)"
  using mpd_lib.put_limit_ok [OF assms(1) HOL.refl assms(2-6), of live source]
  by (elim exE conjE) (intro exI conjI, assumption+, simp split: if_splits)

theorem limit_order_price_time_witness:
  "\<exists>ds m1 S1 m' S' res.
    market_put_limit_order ex_env True ex_market ex_engine 2 2 (Dec 3 0) (Dec 101 0) (Dec 1 (- 2)) (Dec 1 (- 2)) [] =
      (m', S', 0, res) \<and>
    trades dec_ops dec_fin dec_val ex_reserve 2 (Dec 1 (- 2)) (acceptable dec_val 2 (Dec 101 0)) ex_market
      (next_order ex_engine) ds m1 S1 \<and> sum_dealt ds \<le> 3"
  using limit_order_price_time [where E = ex_env and fin = dec_fin and val = dec_val and R = ex_reserve and m = ex_market
      and S = ex_engine and side = 2 and amount = "Dec 3 0" and price = "Dec 101 0" and taker_fee = "Dec 1 (- 2)"
      and maker_fee = "Dec 1 (- 2)" and user = 2 and live = True and source = "[]"]
    dec_mpd_lib ex_exch_ok ex_limit_input ex_limit_check
  by (fastforce simp: MARKET_ORDER_SIDE_BID_def)

text \<open>
  C2. A refused limit order changes nothing at all, whatever its numbers are. An accepted one whose
  amount, price and rates of fees are finite numbers that fit the market (\<open>limit_input\<close>)
  keeps the market sound: the books stay sorted by price and time and never cross, every open order is
  in exactly its book and its user's list, and every user's frozen balance is exactly what the open
  orders need. (An amount or price NaN is accepted and breaks this: \<open>nan_limit_order_accepted\<close>.)
\<close>

theorem limit_order_invariant:
  assumes "mpd_lib (mpd E) fin val" and "exch_ok (mpd E) fin val R m S"
    and "side \<in> {MARKET_ORDER_SIDE_ASK, MARKET_ORDER_SIDE_BID}" and "order_id_start S + 1 \<noteq> 0"
    and "market_put_limit_order E live m S user side amount price taker_fee maker_fee source = (m', S', ret, res)"
  shows "ret \<in> {0, - 1, - 2} \<and> (ret \<noteq> 0 \<longrightarrow> m' = m \<and> S' = S \<and> res = None) \<and>
    (ret \<noteq> 0 \<or> limit_input fin val m amount price taker_fee maker_fee \<longrightarrow> exch_ok (mpd E) fin val R m' S')"
proof (cases "limit_order_check (mpd E) m (ledger S) user side amount price = 0")
  case True
  then have ret: "ret = 0"
    using assms(5) by (simp add: market_put_limit_order_def Let_def split: prod.splits)
  have "exch_ok (mpd E) fin val R m' S'" if "limit_input fin val m amount price taker_fee maker_fee"
    using mpd_lib.put_limit_ok [OF assms(1) HOL.refl assms(2) that assms(3,4) True, of live source] assms(5) by auto
  with ret show ?thesis by simp
next
  case False
  with limit_order_check_cases [of "mpd E" m "ledger S" user side amount price]
  have "limit_order_check (mpd E) m (ledger S) user side amount price \<in> {- 1, - 2}" by auto
  with assms(2,5) show ?thesis by (auto simp: market_put_limit_order_def Let_def)
qed

theorem limit_order_invariant_witness:
  "\<exists>m' S' ret res. market_put_limit_order ex_env True ex_market ex_engine 2 2 (Dec 3 0) (Dec 101 0) (Dec 1 (- 2))
      (Dec 1 (- 2)) [] = (m', S', ret, res) \<and> exch_ok dec_ops dec_fin dec_val ex_reserve m' S'"
proof -
  obtain m' S' ret res where r: "market_put_limit_order ex_env True ex_market ex_engine 2 2 (Dec 3 0) (Dec 101 0)
      (Dec 1 (- 2)) (Dec 1 (- 2)) [] = (m', S', ret, res)" by (metis prod_cases4)
  from limit_order_invariant [OF _ _ _ _ r, where R = ex_reserve] r
  show ?thesis using dec_mpd_lib ex_exch_ok ex_limit_input by (simp add: MARKET_ORDER_SIDE_BID_def)
qed

text \<open>
  C3. An accepted limit order whose amount, price and rates of fees are finite numbers that fit the
  market (\<open>limit_input\<close>) creates and destroys no money: for every asset, the sum of all balances
  after the order is the sum before it minus the fees of its deals, each rounded up to the precision
  the asset is saved with. (A NaN is accepted too, and then the balances are no numbers any more:
  \<open>nan_limit_order_accepted\<close>.)
\<close>

theorem limit_order_conserves:
  assumes "mpd_lib (mpd E) fin val" and "exch_ok (mpd E) fin val R m S"
    and "limit_input fin val m amount price taker_fee maker_fee"
    and "side \<in> {MARKET_ORDER_SIDE_ASK, MARKET_ORDER_SIDE_BID}" and "order_id_start S + 1 \<noteq> 0"
    and "limit_order_check (mpd E) m (ledger S) user side amount price = 0"
  shows "\<exists>ds m1 S1 m' S' res.
    market_put_limit_order E live m S user side amount price taker_fee maker_fee source = (m', S', 0, res) \<and>
    trades (mpd E) fin val R user taker_fee (acceptable val side price) m (next_order S) ds m1 S1 \<and>
    (\<forall>a. asset_supply val (ledger S') a = asset_supply val (ledger S) a -
      (\<Sum>d\<leftarrow>ds. deal_charge val (dict_asset (ledger S)) m taker_fee a d))"
proof -
  from mpd_lib.put_limit_ok [OF assms(1) HOL.refl assms(2-6), of live source] obtain ds m1 S1 m' S' res where
    r: "market_put_limit_order E live m S user side amount price taker_fee maker_fee source = (m', S', 0, res)"
      "trades (mpd E) fin val R user taker_fee (acceptable val side price) m (next_order S) ds m1 S1"
      "\<forall>a. asset_supply val (ledger S') a = asset_supply val (ledger S1) a" by blast
  have "market_ok (mpd E) fin val R m (ledger (next_order S))"
    using assms(2) by (simp add: exch_ok_def engine_frame)
  from trades_ok [OF r(2) this] r show ?thesis by (auto simp: engine_frame)
qed

theorem limit_order_conserves_witness:
  "\<exists>ds m1 S1 m' S' res.
    market_put_limit_order ex_env True ex_market ex_engine 2 2 (Dec 3 0) (Dec 101 0) (Dec 1 (- 2)) (Dec 1 (- 2)) [] =
      (m', S', 0, res) \<and>
    trades dec_ops dec_fin dec_val ex_reserve 2 (Dec 1 (- 2)) (acceptable dec_val 2 (Dec 101 0)) ex_market
      (next_order ex_engine) ds m1 S1 \<and>
    asset_supply dec_val (ledger S') ''CNY'' = 1000 -
      (\<Sum>d\<leftarrow>ds. deal_charge dec_val (dict_asset ex_ledger) ex_market (Dec 1 (- 2)) ''CNY'' d)"
  using limit_order_conserves [where E = ex_env and fin = dec_fin and val = dec_val and R = ex_reserve and m = ex_market
      and S = ex_engine and side = 2 and amount = "Dec 3 0" and price = "Dec 101 0" and taker_fee = "Dec 1 (- 2)"
      and maker_fee = "Dec 1 (- 2)" and user = 2 and live = True and source = "[]"]
    dec_mpd_lib ex_exch_ok ex_limit_input ex_limit_check ex_supply(2)
  by (fastforce simp: MARKET_ORDER_SIDE_BID_def)

section \<open>Cancelling\<close>

text \<open>
  C4. Cancelling an open order takes it out of its book, the dictionary and its user's list, and
  moves exactly the funds it still had frozen back to the user's available balance; nothing else
  changes.
\<close>

theorem cancel_order_refunds:
  assumes "mpd_lib (mpd E) fin val" and "exch_ok (mpd E) fin val R m S" and "m_orders m (o_id order) = Some order"
  shows "\<exists>S' res. market_cancel_order E live m S order = (without m order, S', 0, res) \<and>
    exch_ok (mpd E) fin val R (without m order) S' \<and>
    bal val (ledger S') = move (bal val (ledger S)) (o_user_id order) (paid_in m order)
      BALANCE_TYPE_FREEZE BALANCE_TYPE_AVAILABLE (needed val order)"
  using mpd_lib.cancel_exch_ok [OF assms(1) HOL.refl assms(2,3)] by blast

theorem cancel_order_refunds_witness:
  "\<exists>S' res. market_cancel_order ex_env True ex_market ex_engine ex_order = (without ex_market ex_order, S', 0, res) \<and>
    bal dec_val (ledger S') (1, 1, ''BTC'') = 5 \<and> bal dec_val (ledger S') (1, 2, ''BTC'') = 0"
  using cancel_order_refunds [where E = ex_env and fin = dec_fin and val = dec_val and R = ex_reserve and m = ex_market
      and S = ex_engine and order = ex_order and live = True] dec_mpd_lib ex_exch_ok
  by (auto simp: ex_bal move_def credit_def needed_def paid_in_def MARKET_ORDER_SIDE_ASK_def BALANCE_TYPE_FREEZE_def
      BALANCE_TYPE_AVAILABLE_def)

section \<open>Market orders\<close>

text \<open>
  C5. An accepted market order whose amount and rate of fees are finite numbers that fit the market
  (\<open>market_input\<close>; NaN is accepted too and is the subject of C40) returns, whatever the book
  holds: it deals with orders of the opposite book only, uses no more than the amount given (of stock when it sells, of money when
  it buys), keeps the market sound, and when it sells stops only when all is sold or no bid is
  left.
\<close>

theorem market_order_returns:
  assumes "mpd_lib (mpd E) fin val" and "exch_ok (mpd E) fin val R m S"
    and "market_input fin val (dict_asset (ledger S)) m side amount taker_fee" and "order_id_start S + 1 \<noteq> 0"
    and "market_order_check (mpd E) m (ledger S) user side amount = 0"
  shows "\<exists>ds m' S1 S' res.
    market_put_market_order E live m S user side amount taker_fee source = Some (m', S', 0, res) \<and>
    trades (mpd E) fin val R user taker_fee (market_pick side) m (next_order S) ds m' S1 \<and>
    market_used val side ds \<le> val amount \<and> exch_ok (mpd E) fin val R m' S' \<and>
    (side = MARKET_ORDER_SIDE_ASK \<longrightarrow> sum_dealt ds = val amount \<or> m_bids m' = [])"
  using mpd_lib.put_market_ok [OF assms(1) HOL.refl assms(2-5), of live source] by blast

lemma ex_market_input: "market_input dec_fin dec_val (dict_asset ex_ledger) ex_market 2 (Dec 150 0) (Dec 1 (- 2))"
  by (simp add: market_input_def rate_ok_def MARKET_ORDER_SIDE_ASK_def)

lemma ex_market_check: "market_order_check dec_ops ex_market ex_ledger 2 2 (Dec 150 0) = 0"
  by (simp add: market_order_check_def MARKET_ORDER_SIDE_ASK_def balance_get_def balance_key_def
      ASSET_NAME_MAX_LEN_def BALANCE_TYPE_AVAILABLE_def ex_ledger_def dec_align_def dec_round.simps)

theorem market_order_returns_witness:
  "\<exists>ds m' S' res.
    market_put_market_order ex_env True ex_market ex_engine 2 2 (Dec 150 0) (Dec 1 (- 2)) [] = Some (m', S', 0, res) \<and>
    market_used dec_val 2 ds \<le> 150 \<and> exch_ok dec_ops dec_fin dec_val ex_reserve m' S'"
  using market_order_returns [where E = ex_env and fin = dec_fin and val = dec_val and R = ex_reserve and m = ex_market
      and S = ex_engine and side = 2 and amount = "Dec 150 0" and taker_fee = "Dec 1 (- 2)" and user = 2
      and live = True and source = "[]"]
    dec_mpd_lib ex_exch_ok ex_market_input ex_market_check
  by fastforce

text \<open>
  The amount \<^verbatim>\<open>NaN\<close> parses, passes every comparison of the checks, and the loop that
  lowers the amount never reaches its break.
\<close>

lemma lower_amount_nan:
  "lower_amount M p price lft a = Some r \<Longrightarrow> \<not> (\<exists>fin val nan. mpd_nan_lib M fin val nan \<and> nan a)"
proof (erule lower_amount.raw_induct [where P = "\<lambda>M p price lft a r. \<not> (\<exists>fin val nan. mpd_nan_lib M fin val nan \<and> nan a)", rotated])
  fix self :: "'a mpd_ops \<Rightarrow> int \<Rightarrow> 'a \<Rightarrow> 'a \<Rightarrow> 'a \<Rightarrow> 'a option" and M p price lft and a r :: 'a
  assume 1: "\<And>p price lft a b y. self p price lft a b = Some y \<Longrightarrow> \<not> (\<exists>fin val nan. mpd_nan_lib p fin val nan \<and> nan b)"
    "(if 0 < mpd_cmp M (mpd_mul M a price) lft
      then self M p price lft (mpd_sub M a (mpd_pow M (mpd_ten M) (mpd_set_i32 M (- p))))
      else Some a) = Some r"
  show "\<not> (\<exists>fin val nan. mpd_nan_lib M fin val nan \<and> nan a)"
  proof (rule notI, elim exE conjE)
    fix fin val nan
    assume lib: "mpd_nan_lib M fin val nan" and a: "nan a"
    have "mpd_cmp M (mpd_mul M a price) lft > 0"
      using mpd_nan_lib.nan_cmp [OF lib] mpd_nan_lib.nan_mul [OF lib] a by simp
    with 1(2) have "self M p price lft (mpd_sub M a (mpd_pow M (mpd_ten M) (mpd_set_i32 M (- p)))) = Some r" by simp
    with 1(1) have "\<not> nan (mpd_sub M a (mpd_pow M (mpd_ten M) (mpd_set_i32 M (- p))))" using lib by blast
    with mpd_nan_lib.nan_sub [OF lib] a show False by blast
  qed
qed

text \<open>
  A limit order with the amount NaN passes the checks: it is accepted, and its owner's available
  and frozen balances are no numbers any more.
\<close>

lemma nan_limit_order_accepted:
  "(case market_put_limit_order ex_env False ex_market ex_engine 2 2 NaN (Dec 1 0) (Dec 1 (- 2)) (Dec 1 (- 2)) [] of (m', S', ret, res) \<Rightarrow>
     ret = 0 \<and> balance_get (ledger S') 2 BALANCE_TYPE_AVAILABLE ''CNY'' = Some NaN \<and>
     balance_get (ledger S') 2 BALANCE_TYPE_FREEZE ''CNY'' = Some NaN)"
  by code_simp

text \<open>
  C40. A market order to buy with the amount NaN hangs the engine: whenever the user has some money
  and the book has an ask, the order passes the checks and the loop over the book never returns.
\<close>

theorem nan_market_order_hangs:
  assumes "mpd_nan_lib (mpd E) fin val nan" and "nan amount"
    and "balance_get (ledger S) user BALANCE_TYPE_AVAILABLE (m_money m) = Some balance"
    and "m_asks m = node # nodes" and "m_orders m node = Some maker"
  shows "market_put_market_order E live m S user MARKET_ORDER_SIDE_BID amount taker_fee source = None"
proof -
  let ?M = "mpd E"
  note cmp = mpd_nan_lib.nan_cmp [OF assms(1)]
  have div: "nan (mpd_rescale ?M (mpd_div ?M amount (o_price maker)) (- m_stock_prec m))"
    using mpd_nan_lib.nan_div [OF assms(1)] mpd_nan_lib.nan_rescale [OF assms(1)] assms(2) by blast
  have "lower_amount ?M (m_stock_prec m) (o_price maker) amount
      (mpd_rescale ?M (mpd_div ?M amount (o_price maker)) (- m_stock_prec m)) = None"
    using lower_amount_nan [of ?M "m_stock_prec m" "o_price maker" amount
        "mpd_rescale ?M (mpd_div ?M amount (o_price maker)) (- m_stock_prec m)"] div assms(1)
    by (meson not_Some_eq)
  then have "buy_amount ?M (m_stock_prec m) (new_order E m S MARKET_ORDER_TYPE_MARKET MARKET_ORDER_SIDE_BID user amount
      (mpd_zero ?M) taker_fee (mpd_zero ?M) source) maker = None"
    by (simp add: buy_amount_def order_simps)
  then show ?thesis
    using assms(3-5) sides_differ cmp [of _ amount] cmp [of amount] assms(2)
    by (simp add: market_put_market_order_def market_order_check_def execute_market_bid_order_def order_simps)
qed

theorem nan_market_order_hangs_witness:
  "market_put_market_order ex_env True ex_market ex_engine 2 2 NaN (Dec 1 (- 2)) [] = None"
  using nan_market_order_hangs [where E = ex_env and fin = dec_fin and val = dec_val and nan = "\<lambda>x. x = NaN"
      and amount = NaN and user = 2 and S = ex_engine and m = ex_market and balance = "Dec 1000 0" and node = 1
      and nodes = "[]" and maker = ex_order and live = True and taker_fee = "Dec 1 (- 2)" and source = "[]"]
    dec.mpd_nan_lib_axioms
  by (simp add: balance_get_def balance_key_def ASSET_NAME_MAX_LEN_def BALANCE_TYPE_AVAILABLE_def ex_ledger_def
      MARKET_ORDER_SIDE_BID_def)

section \<open>Replaying\<close>

text \<open>
  C6. Replaying an order does what the order did: executed again on the same market and ledger up
  to timestamps, without writing history or messages and at any other time, a limit order gives
  the same return value, the same ledger, the same id counters and the same books and orders up
  to timestamps.
\<close>

theorem limit_order_replays:
  assumes "mpd E' = mpd E" and "same_market m m'" and "same_engine S S'"
    and "market_put_limit_order E True m S user side amount price taker_fee maker_fee source = (m1, S1, ret, res)"
    and "market_put_limit_order E' False m' S' user side amount price taker_fee maker_fee source = (m1', S1', ret', res')"
  shows "same_market m1 m1' \<and> same_engine S1 S1' \<and> ret' = ret"
  using same_put_limit_order [OF assms] .

theorem limit_order_replays_witness:
  "\<exists>m1 S1 ret res m1' S1' res'.
    market_put_limit_order ex_env True ex_market ex_engine 2 2 (Dec 3 0) (Dec 101 0) (Dec 1 (- 2)) (Dec 1 (- 2)) [] = (m1, S1, ret, res) \<and>
    market_put_limit_order (ex_env\<lparr>clock := (\<lambda>_. 7)\<rparr>) False ex_market ex_engine 2 2 (Dec 3 0) (Dec 101 0) (Dec 1 (- 2)) (Dec 1 (- 2)) [] =
      (m1', S1', ret, res') \<and> same_market m1 m1' \<and> ledger S1' = ledger S1"
proof -
  obtain m1 S1 ret res where 1: "market_put_limit_order ex_env True ex_market ex_engine 2 2 (Dec 3 0) (Dec 101 0)
      (Dec 1 (- 2)) (Dec 1 (- 2)) [] = (m1, S1, ret, res)" by (metis prod_cases4)
  obtain m2 S2 ret2 res2 where 2: "market_put_limit_order (ex_env\<lparr>clock := (\<lambda>_. 7)\<rparr>) False ex_market ex_engine 2 2 (Dec 3 0)
      (Dec 101 0) (Dec 1 (- 2)) (Dec 1 (- 2)) [] = (m2, S2, ret2, res2)" by (metis prod_cases4)
  have "same_market ex_market ex_market" "same_engine ex_engine ex_engine" by (simp_all add: same_market_def same_engine_def)
  from limit_order_replays [OF _ this 1 2] 1 2 show ?thesis by (auto simp: same_engine_def)
qed

text \<open>C7. The same for a market order, which returns when replayed if it returned at first.\<close>

theorem market_order_replays:
  assumes "mpd E' = mpd E" and "same_market m m'" and "same_engine S S'"
    and "market_put_market_order E True m S user side amount taker_fee source = Some (m1, S1, ret, res)"
  shows "\<exists>m1' S1' res'. market_put_market_order E' False m' S' user side amount taker_fee source = Some (m1', S1', ret, res') \<and>
    same_market m1 m1' \<and> same_engine S1 S1'"
  using same_put_market_order [OF assms] .

theorem market_order_replays_witness:
  "\<exists>m1 S1 res m1' S1' res'.
    market_put_market_order ex_env True ex_market ex_engine 2 2 (Dec 150 0) (Dec 1 (- 2)) [] = Some (m1, S1, 0, res) \<and>
    market_put_market_order (ex_env\<lparr>clock := (\<lambda>_. 7)\<rparr>) False ex_market ex_engine 2 2 (Dec 150 0) (Dec 1 (- 2)) [] =
      Some (m1', S1', 0, res') \<and> same_market m1 m1' \<and> ledger S1' = ledger S1"
proof -
  from mpd_lib.put_market_ok [where E = ex_env and fin = dec_fin and val = dec_val and R = ex_reserve and m = ex_market
      and S = ex_engine and side = 2 and amount = "Dec 150 0" and taker_fee = "Dec 1 (- 2)" and user = 2
      and live = True and source = "[]", OF dec_mpd_lib]
  obtain m1 S1 res where 1: "market_put_market_order ex_env True ex_market ex_engine 2 2 (Dec 150 0) (Dec 1 (- 2)) [] =
      Some (m1, S1, 0, res)"
    using ex_exch_ok ex_market_input ex_market_check by fastforce
  have "same_market ex_market ex_market" "same_engine ex_engine ex_engine" by (simp_all add: same_market_def same_engine_def)
  from market_order_replays [OF _ this 1, where E' = "ex_env\<lparr>clock := (\<lambda>_. 7)\<rparr>"] 1 show ?thesis by (auto simp: same_engine_def)
qed

end
