(* ===== verification/Balance_Properties.thy ===== *)
theory Balance_Properties
  imports Example_Market
begin

text \<open>
  The properties of \<^verbatim>\<open>matchengine/me_balance.c\<close>: freezing and releasing move money
  between a user's two balances and are inverse to each other, a refused operation changes
  nothing, and the status report adds up every entry of an asset.
\<close>

section \<open>Freezing\<close>

text \<open>
  Freezing an amount the user has moves exactly that amount from the available to the frozen
  balance of that user and asset; every other balance, and the user's total, stay as they were.
\<close>

theorem balance_freeze_moves:
  assumes "mpd_lib M fin val" and "ledger_ok fin val L" and "dict_asset L asset = Some aty"
    and "fin x" "0 < val x" "on_grid (prec_save aty) (val x)" "val x \<le> bal val L (u, BALANCE_TYPE_AVAILABLE, asset)"
    and "(bal val L (u, BALANCE_TYPE_AVAILABLE, asset) + bal val L (u, BALANCE_TYPE_FREEZE, asset)) *
      10 ^ nat (prec_save aty) < 10 ^ 34"
  shows "\<exists>L' r. balance_freeze M L u asset x = (L', Some r) \<and> ledger_ok fin val L' \<and> dict_asset L' = dict_asset L \<and>
    bal val L' = move (bal val L) u asset BALANCE_TYPE_AVAILABLE BALANCE_TYPE_FREEZE (val x) \<and>
    val (balance_total M L' u asset) = val (balance_total M L u asset)"
proof -
  from mpd_lib.balance_freeze_ok [OF assms] obtain L' r where
    r: "balance_freeze M L u asset x = (L', Some r)" "ledger_ok fin val L'" "dict_asset L' = dict_asset L"
      "bal val L' = move (bal val L) u asset BALANCE_TYPE_AVAILABLE BALANCE_TYPE_FREEZE (val x)"
    using freeze_types by (auto simp: move_def credit_def)
  have s: "bal val L' (u, BALANCE_TYPE_AVAILABLE, asset) + bal val L' (u, BALANCE_TYPE_FREEZE, asset) =
      bal val L (u, BALANCE_TYPE_AVAILABLE, asset) + bal val L (u, BALANCE_TYPE_FREEZE, asset)"
    using r(4) freeze_types by (simp add: move_def credit_apply)
  have "val (balance_total M L' u asset) = val (balance_total M L u asset)"
    using mpd_lib.balance_total_ok [OF assms(1,2,3,8)] mpd_lib.balance_total_ok [OF assms(1) r(2), of asset aty u] assms(3,8) s r(3)
    by simp
  with r show ?thesis by blast
qed

lemma ex_asset: "dict_asset ex_ledger ''BTC'' = Some \<lparr>prec_save = 8, prec_show = 8\<rparr>"
  by (simp add: ex_ledger_def)

theorem balance_freeze_moves_witness:
  "\<exists>L' r. balance_freeze dec_ops ex_ledger 1 ''BTC'' (Dec 1 0) = (L', Some r) \<and>
    bal dec_val L' (1, 1, ''BTC'') = 2 \<and> bal dec_val L' (1, 2, ''BTC'') = 3"
  using balance_freeze_moves [OF dec_mpd_lib ex_ledger_ok ex_asset, of "Dec 1 0" 1]
  by (auto simp: ex_bal move_def credit_def BALANCE_TYPE_AVAILABLE_def BALANCE_TYPE_FREEZE_def)

text \<open>
  Releasing what was frozen undoes the freezing: every balance of every user is again what it
  was before.
\<close>

theorem freeze_unfreeze_roundtrip:
  assumes "mpd_lib M fin val" and "ledger_ok fin val L" and "dict_asset L asset = Some aty"
    and "fin x" "0 < val x" "on_grid (prec_save aty) (val x)" "val x \<le> bal val L (u, BALANCE_TYPE_AVAILABLE, asset)"
    and "(bal val L (u, BALANCE_TYPE_AVAILABLE, asset) + bal val L (u, BALANCE_TYPE_FREEZE, asset)) *
      10 ^ nat (prec_save aty) < 10 ^ 34"
  shows "\<exists>r L'' r''. snd (balance_freeze M L u asset x) = Some r \<and>
    balance_unfreeze M (fst (balance_freeze M L u asset x)) u asset x = (L'', Some r'') \<and>
    bal val L'' = bal val L"
proof -
  from mpd_lib.balance_freeze_ok [OF assms] obtain L' r where
    r: "balance_freeze M L u asset x = (L', Some r)" "ledger_ok fin val L'" "dict_asset L' = dict_asset L"
      "bal val L' = move (bal val L) u asset BALANCE_TYPE_AVAILABLE BALANCE_TYPE_FREEZE (val x)"
    using freeze_types by (auto simp: move_def credit_def)
  have b: "bal val L' (u, BALANCE_TYPE_FREEZE, asset) = bal val L (u, BALANCE_TYPE_FREEZE, asset) + val x"
    "bal val L' (u, BALANCE_TYPE_AVAILABLE, asset) = bal val L (u, BALANCE_TYPE_AVAILABLE, asset) - val x"
    using r(4) freeze_types by (auto simp: move_def credit_apply)
  have "val x \<le> bal val L' (u, BALANCE_TYPE_FREEZE, asset)"
    using b(1) ledger_ok_nonneg [OF assms(2), of "(u, BALANCE_TYPE_FREEZE, asset)"] by linarith
  from mpd_lib.balance_unfreeze_ok [OF assms(1) r(2) _ assms(4-6) this] assms(3,8) r(3) b obtain L'' r'' where
    r'': "balance_unfreeze M L' u asset x = (L'', Some r'')"
      "bal val L'' = move (bal val L') u asset BALANCE_TYPE_FREEZE BALANCE_TYPE_AVAILABLE (val x)"
    using freeze_types by (auto simp: move_def credit_def algebra_simps)
  have "bal val L'' = bal val L"
    unfolding r''(2) r(4) using freeze_types by (auto simp: move_def credit_apply fun_eq_iff)
  with r r''(1) show ?thesis by simp
qed

theorem freeze_unfreeze_roundtrip_witness:
  "\<exists>L'' r''. balance_unfreeze dec_ops (fst (balance_freeze dec_ops ex_ledger 1 ''BTC'' (Dec 3 0))) 1 ''BTC'' (Dec 3 0) =
    (L'', Some r'') \<and> bal dec_val L'' = bal dec_val ex_ledger"
  using freeze_unfreeze_roundtrip [OF dec_mpd_lib ex_ledger_ok ex_asset, of "Dec 3 0" 1]
  by (auto simp: ex_bal BALANCE_TYPE_AVAILABLE_def BALANCE_TYPE_FREEZE_def)

section \<open>Refusals\<close>

text \<open>
  An operation that returns NULL (an unknown asset, a negative amount, too little money) has
  changed no balance, whatever the numbers are.
\<close>

theorem balance_refused_unchanged:
  assumes "op \<in> {balance_set M L u t asset x, balance_add M L u t asset x, balance_sub M L u t asset x,
      balance_freeze M L u asset x, balance_unfreeze M L u asset x}"
    and "snd op = None"
  shows "fst op = L"
  using assms balance_set_fail [of M L u t asset x] balance_add_fail [of M L u t asset x]
    balance_sub_fail [of M L u t asset x] balance_freeze_fail [of M L u asset x] balance_unfreeze_fail [of M L u asset x]
  by (auto simp: prod_eq_iff)

theorem balance_refused_unchanged_witness:
  "fst (balance_sub dec_ops ex_ledger 1 1 ''BTC'' (Dec 4 0)) = ex_ledger"
  by (rule balance_refused_unchanged [of _ dec_ops ex_ledger 1 1 "''BTC''" "Dec 4 0"])
    (simp_all add: balance_sub_def balance_get_def balance_key_def ASSET_NAME_MAX_LEN_def ex_ledger_def dec_zero dec_align_def)

section \<open>Status\<close>

text \<open>The sums over the entries of an asset, in the order the iterator yields them.\<close>

definition entry_sum :: "('d \<Rightarrow> rat) \<Rightarrow> (balance_key \<Rightarrow> bool) \<Rightarrow> (balance_key \<times> 'd) list \<Rightarrow> rat" where
  "entry_sum val P entries = (\<Sum>e\<leftarrow>filter (P \<circ> fst) entries. val (snd e))"

lemma balance_status_loop_ok:
  assumes lib: "mpd_lib M fin val"
    and "\<forall>k x. (k, x) \<in> set entries \<longrightarrow> snd (snd k) = asset \<longrightarrow> fin x \<and> 0 \<le> val x \<and> on_grid p (val x)"
    and p: "0 \<le> p" "p \<le> 6176" and "(val tot + entry_sum val (\<lambda>k. snd (snd k) = asset) entries) * 10 ^ nat p < 10 ^ 34"
    and "fin tot" "fin av" "fin fr" "0 \<le> val av" "0 \<le> val fr" "val tot = val av + val fr"
      "on_grid p (val av)" "on_grid p (val fr)"
    and "balance_status_loop M asset entries (tot, ac, av, fc, fr) = (tot', ac', av', fc', fr')"
  shows "fin tot' \<and> val tot' = val tot + entry_sum val (\<lambda>k. snd (snd k) = asset) entries \<and>
    val av' = val av + entry_sum val (\<lambda>k. snd (snd k) = asset \<and> fst (snd k) = BALANCE_TYPE_AVAILABLE) entries \<and>
    val fr' = val fr + entry_sum val (\<lambda>k. snd (snd k) = asset \<and> fst (snd k) \<noteq> BALANCE_TYPE_AVAILABLE) entries \<and>
    ac' + fc' = ac + fc + length (filter (\<lambda>e. snd (snd (fst e)) = asset) entries)"
  using assms(2,5-)
proof (induction entries arbitrary: tot ac av fc fr)
  case Nil
  then show ?case by (simp add: entry_sum_def)
next
  case (Cons e entries)
  obtain u t n v where e: "e = ((u, t, n), v)" by (metis prod_cases3 surj_pair)
  have ents: "\<forall>k x. (k, x) \<in> set entries \<longrightarrow> snd (snd k) = asset \<longrightarrow> fin x \<and> 0 \<le> val x \<and> on_grid p (val x)"
    using Cons.prems(1) by simp
  show ?case
  proof (cases "n = asset")
    case False
    then show ?thesis using Cons.IH [OF ents, of tot av fr ac fc] Cons.prems(2-) e by (auto simp: entry_sum_def)
  next
    case True
    have v: "fin v" "0 \<le> val v" "on_grid p (val v)" using Cons.prems(1) e True by auto
    have rest: "0 \<le> entry_sum val (\<lambda>k. snd (snd k) = asset) entries"
    proof -
      have "0 \<le> val (snd e')" if "e' \<in> set entries" "snd (snd (fst e')) = asset" for e'
        using Cons.prems(1) that by (metis list.set_intros(2) prod.collapse)
      then show ?thesis unfolding entry_sum_def by (intro sum_list_nonneg) auto
    qed
    have tb: "(val tot + val v + entry_sum val (\<lambda>k. snd (snd k) = asset) entries) * 10 ^ nat p < 10 ^ 34"
      using Cons.prems(2) True by (simp add: entry_sum_def e add.assoc)
    have bnd: "fits p y" if "on_grid p y" "0 \<le> y" "y \<le> val tot + val v" for y
    proof -
      have "y * 10 ^ nat p \<le> (val tot + val v + entry_sum val (\<lambda>k. snd (snd k) = asset) entries) * 10 ^ nat p"
        using that rest by (intro mult_right_mono) auto
      then have "y * 10 ^ nat p < 10 ^ 34" using tb by (rule order.strict_trans1)
      then show ?thesis using that p by (intro fitsI) auto
    qed
    have g: "on_grid p (val tot)" using Cons.prems by (simp add: on_grid_add)
    note add = mpd_lib.add [OF lib]
    have s: "fin (mpd_add M tot v)" "val (mpd_add M tot v) = val tot + val v"
      using add [OF Cons.prems(3) v(1) bnd [OF on_grid_add [OF g v(3)]]] v Cons.prems by auto
    have sa: "fin (mpd_add M av v)" "val (mpd_add M av v) = val av + val v"
      using add [OF Cons.prems(4) v(1) bnd [OF on_grid_add [OF Cons.prems(9) v(3)]]] v Cons.prems by auto
    have sf: "fin (mpd_add M fr v)" "val (mpd_add M fr v) = val fr + val v"
      using add [OF Cons.prems(5) v(1) bnd [OF on_grid_add [OF Cons.prems(10) v(3)]]] v Cons.prems by auto
    show ?thesis
    proof (cases "t = BALANCE_TYPE_AVAILABLE")
      case t: True
      show ?thesis
        using Cons.IH [OF ents, of "mpd_add M tot v" "mpd_add M av v" fr "ac + 1" fc] Cons.prems(2-) e True t s sa v tb
        by (simp add: entry_sum_def on_grid_add add.assoc)
    next
      case t: False
      show ?thesis
        using Cons.IH [OF ents, of "mpd_add M tot v" av "mpd_add M fr v" ac "fc + 1"] Cons.prems(2-) e True t s sf v tb
        by (simp add: entry_sum_def on_grid_add add.assoc)
    qed
  qed
qed

lemma entry_sum_supply:
  assumes ok: "ledger_ok fin val L" and ent: "distinct (map fst entries)" "map_of entries = dict_balance L"
  shows "entry_sum val (\<lambda>k. snd (snd k) = asset) entries = asset_supply val L asset"
proof -
  let ?es = "filter (\<lambda>e. snd (snd (fst e)) = asset) entries"
  have d: "distinct (map fst ?es)" using ent(1) by (simp add: distinct_map_filter)
  have v: "val (snd e) = bal val L (fst e)" if "e \<in> set entries" for e
  proof -
    have "dict_balance L (fst e) = Some (snd e)" using that ent by (metis map_of_is_SomeI prod.collapse)
    then show ?thesis by (simp add: bal_def)
  qed
  have "entry_sum val (\<lambda>k. snd (snd k) = asset) entries = (\<Sum>e\<leftarrow>?es. bal val L (fst e))"
    unfolding entry_sum_def comp_def by (rule arg_cong [where f = sum_list], rule map_cong) (auto simp: v)
  also have "\<dots> = (\<Sum>k\<in>fst ` set ?es. bal val L k)"
    using sum_list_distinct_conv_sum_set [OF d, of "bal val L"] by (simp add: comp_def)
  also have "\<dots> = supply_of (bal val L) asset"
    unfolding supply_of_def
  proof (rule sum.mono_neutral_right)
    show "{k. bal val L k \<noteq> 0 \<and> snd (snd k) = asset} \<subseteq> fst ` set ?es"
    proof
      fix k assume k: "k \<in> {k. bal val L k \<noteq> 0 \<and> snd (snd k) = asset}"
      then obtain x where "dict_balance L k = Some x" by (auto simp: bal_def split: option.splits)
      then have "(k, x) \<in> set entries" unfolding ent(2) [symmetric] by (rule map_of_SomeD)
      with k show "k \<in> fst ` set ?es" by force
    qed
  qed auto
  finally show ?thesis .
qed

text \<open>
  The status of an asset is right in whatever order the dictionary is walked: the total it
  reports is the sum of all balances of the asset, it is the sum of what it reports as available
  and as frozen, and the two counts are together the number of the asset's entries.
\<close>

theorem balance_status_sums:
  assumes "mpd_lib M fin val" and "ledger_ok fin val L" and "dict_asset L asset = Some aty"
    and "distinct (map fst entries)" "map_of entries = dict_balance L"
    and "asset_supply val L asset * 10 ^ nat (prec_save aty) < 10 ^ 34"
    and "balance_status M entries asset = (tot, ac, av, fc, fr)"
  shows "val tot = asset_supply val L asset \<and> val tot = val av + val fr \<and>
    ac + fc = length (filter (\<lambda>e. snd (snd (fst e)) = asset) entries)"
proof -
  note p = ledger_ok_prec [OF assms(2,3)] and sup = entry_sum_supply [OF assms(2,4,5), of asset]
  have z: "fin (mpd_zero M)" "val (mpd_zero M) = 0" using mpd_lib.zero [OF assms(1)] by auto
  have "\<forall>k x. (k, x) \<in> set entries \<longrightarrow> snd (snd k) = asset \<longrightarrow> fin x \<and> 0 \<le> val x \<and> on_grid (prec_save aty) (val x)"
  proof (intro allI impI)
    fix k x
    assume that: "(k, x) \<in> set entries" "snd (snd k) = asset"
    from that(1) have "dict_balance L k = Some x" using assms(4,5) by (metis map_of_is_SomeI)
    with assms(2,3) that(2) show "fin x \<and> 0 \<le> val x \<and> on_grid (prec_save aty) (val x)"
      by (cases k) (auto simp: ledger_ok_def entry_ok_def split: option.splits)
  qed
  from balance_status_loop_ok [OF assms(1) this, where tot = "mpd_zero M" and av = "mpd_zero M" and fr = "mpd_zero M"
      and ac = 0 and fc = 0 and tot' = tot and ac' = ac and av' = av and fc' = fc and fr' = fr] p z sup assms(6,7)
  have r: "val tot = asset_supply val L asset"
    "val av = entry_sum val (\<lambda>k. snd (snd k) = asset \<and> fst (snd k) = BALANCE_TYPE_AVAILABLE) entries"
    "val fr = entry_sum val (\<lambda>k. snd (snd k) = asset \<and> fst (snd k) \<noteq> BALANCE_TYPE_AVAILABLE) entries"
    "ac + fc = length (filter (\<lambda>e. snd (snd (fst e)) = asset) entries)"
    by (auto simp: balance_status_def)
  have "entry_sum val (\<lambda>k. snd (snd k) = asset) entries = val av + val fr"
    unfolding r(2,3) entry_sum_def by (induction entries) auto
  with r sup show ?thesis by simp
qed

theorem balance_status_sums_witness:
  "\<exists>tot av fr. balance_status dec_ops [((2, 1, ''CNY''), Dec 1000 0), ((1, 2, ''BTC''), Dec 2 0), ((1, 1, ''BTC''), Dec 3 0)] ''BTC''
      = (tot, 1, av, 1, fr) \<and> dec_val tot = 5"
proof -
  let ?es = "[((2 :: u32, 1 :: u32, ''CNY''), Dec 1000 0), ((1, 2, ''BTC''), Dec 2 0), ((1, 1, ''BTC''), Dec 3 0)]"
  obtain tot ac av fc fr where s: "balance_status dec_ops ?es ''BTC'' = (tot, ac, av, fc, fr)" by (metis prod_cases5)
  have "map_of ?es = dict_balance ex_ledger" by (auto simp: ex_ledger_def fun_eq_iff)
  from balance_status_sums [OF dec_mpd_lib ex_ledger_ok ex_asset _ this _ s] ex_supply
  have "dec_val tot = 5" by auto
  moreover have "ac = 1" "fc = 1"
    using s by (auto simp: balance_status_def BALANCE_TYPE_AVAILABLE_def)
  ultimately show ?thesis using s by blast
qed

end
