(* ===== verification/Update.thy ===== *)
theory Update
  imports Market
begin

text \<open>
  \<^verbatim>\<open>matchengine/me_update.c\<close>: changes of balances from outside (deposits, withdrawals) and
  the dictionary that recognises a change that was already made; and \<^verbatim>\<open>matchengine/me_trade.c\<close>,
  the dictionary of markets. A key of the C dictionary is a struct that is compared with
  \<^verbatim>\<open>memcmp\<close>, four bytes of padding included, which nothing initialises; the model takes them
  to be the same in every key.
\<close>

section \<open>Updates of balances\<close>

definition BUSINESS_NAME_MAX_LEN :: nat where "BUSINESS_NAME_MAX_LEN = 31"

type_synonym update_key = "u32 \<times> string \<times> string \<times> u64"

definition update_key :: "u32 \<Rightarrow> string \<Rightarrow> string \<Rightarrow> u64 \<Rightarrow> update_key" where
  "update_key user_id asset business business_id =
     (user_id, take (ASSET_NAME_MAX_LEN + 1) asset, take (BUSINESS_NAME_MAX_LEN + 1) business, business_id)"

text \<open>
  The return value, the detail document (the live call writes the member \<^verbatim>\<open>id\<close> into the
  caller's document), the dictionary of updates and the engine.
\<close>

definition update_user_balance ::
  "('d, 'j) env \<Rightarrow> bool \<Rightarrow> u32 \<Rightarrow> string \<Rightarrow> string \<Rightarrow> u64 \<Rightarrow> 'd \<Rightarrow> 'j \<Rightarrow> (update_key \<rightharpoonup> int) \<Rightarrow> ('d, 'j) engine \<Rightarrow>
   int \<times> 'j \<times> (update_key \<rightharpoonup> int) \<times> ('d, 'j) engine" where
  "update_user_balance E live user_id asset business business_id change detail dict S =
     (let M = mpd E; key = update_key user_id asset business business_id in
      if dict key \<noteq> None then (- 1, detail, dict, S)
      else
        (case (if mpd_cmp M change (mpd_zero M) \<ge> 0 then balance_add else balance_sub) M (ledger S) user_id
                BALANCE_TYPE_AVAILABLE asset (mpd_abs M change) of
           (L, None) \<Rightarrow> (- 2, detail, dict, S\<lparr>ledger := L\<rparr>)
         | (L, Some _) \<Rightarrow>
             let dict = dict(key \<mapsto> clock E (ticks S)); S = S\<lparr>ledger := L, ticks := ticks S + 1\<rparr> in
             if live then
               let now = clock E (ticks S);
                   detail = json_object_set (json E) detail ''id'' (json_integer (json E) (sint business_id))
               in (0, detail, dict, S\<lparr>ticks := ticks S + 1,
                     hist := append_user_balance_history M L now user_id asset business change detail (hist S),
                     msgs := push_balance_message E now user_id asset business change (msgs S)\<rparr>)
             else (0, detail, dict, S)))"

text \<open>The timer forgets updates that are older than a day.\<close>

definition update_on_timer :: "int \<Rightarrow> (update_key \<rightharpoonup> int) \<Rightarrow> (update_key \<rightharpoonup> int)" where
  "update_on_timer now dict =
     (\<lambda>key. case dict key of None \<Rightarrow> None
        | Some create_time \<Rightarrow> if create_time < now - 86400 * 1000000 then None else Some create_time)"

section \<open>The dictionary of markets\<close>

fun add_markets :: "'d ledger \<Rightarrow> 'd market_conf list \<Rightarrow> (string \<rightharpoonup> 'd market) \<Rightarrow> (string \<rightharpoonup> 'd market) option" where
  "add_markets L [] D = Some D"
| "add_markets L (conf # confs) D =
     (case market_create L conf of
        None \<Rightarrow> None
      | Some m \<Rightarrow> add_markets L confs (if D (conf_name conf) = None then D(conf_name conf \<mapsto> m) else D))"

definition init_trade :: "'d ledger \<Rightarrow> 'd market_conf list \<Rightarrow> (string \<rightharpoonup> 'd market) option" where
  "init_trade L confs = add_markets L confs Map.empty"

definition get_market :: "(string \<rightharpoonup> 'd market) \<Rightarrow> string \<Rightarrow> 'd market option" where
  "get_market D name = D name"

end
