(* ===== verification/Operlog.thy ===== *)
theory Operlog
  imports Market
begin

text \<open>
  \<^verbatim>\<open>matchengine/me_operlog.c\<close>: the log of the commands that changed the state. An entry
  waits in a list until the timer writes the list as one SQL statement, which a worker thread
  executes. The statement is the list of its tokens: rows and the commas between them.
\<close>

definition MAX_PENDING_OPERLOG :: nat where "MAX_PENDING_OPERLOG = 100"
definition JSON_SORT_KEYS :: nat where "JSON_SORT_KEYS = 0x80"

text \<open>An entry: id, time and text; \<open>None\<close> is the NULL of a document that could not be printed.\<close>

type_synonym operlog_entry = "u64 \<times> int \<times> string option"

datatype sql_token = Row u64 int string | Comma

datatype operlog_job = CreateTable string | Insert string "sql_token list"

record operlog =
  operlog_id_start :: u64
  ol_list :: "operlog_entry list"
  ol_table_last :: string
  ol_jobs :: "operlog_job list"

definition init_operlog :: "u64 \<Rightarrow> operlog" where
  "init_operlog start = \<lparr>operlog_id_start = start, ol_list = [], ol_table_last = [], ol_jobs = []\<rparr>"

definition oper_detail :: "('d, 'j) env \<Rightarrow> string \<Rightarrow> 'j \<Rightarrow> 'j" where
  "oper_detail E method params =
     json_object (json E) [(''method'', json_string (json E) method), (''params'', params)]"

definition append_operlog ::
  "('d, 'j) env \<Rightarrow> string \<Rightarrow> 'j \<Rightarrow> ('d, 'j) engine \<Rightarrow> operlog \<Rightarrow> ('d, 'j) engine \<times> operlog" where
  "append_operlog E method params S lg =
     (let start = operlog_id_start lg + 1 in
      (S\<lparr>ticks := ticks S + 1\<rparr>,
       lg\<lparr>operlog_id_start := start,
          ol_list := ol_list lg @ [(start, clock E (ticks S), json_dumps (json E) (oper_detail E method params) JSON_SORT_KEYS)]\<rparr>))"

text \<open>
  The loop of \<^verbatim>\<open>flush_log\<close> takes each entry off the list after writing it, with a comma
  when the list has more. An entry without text makes it crash (\<open>None\<close>).
\<close>

fun flush_rows :: "operlog_entry list \<Rightarrow> sql_token list option" where
  "flush_rows [] = Some []"
| "flush_rows ((i, t, detail) # logs) =
     (case detail of None \<Rightarrow> None
      | Some s \<Rightarrow>
          map_option (\<lambda>toks. Row i t s # (if length ((i, t, detail) # logs) > 1 then [Comma] else []) @ toks)
            (flush_rows logs))"

text \<open>\<open>table\<close> is the name of today's table.\<close>

definition flush_log :: "string \<Rightarrow> operlog \<Rightarrow> operlog option" where
  "flush_log table lg =
     map_option (\<lambda>toks. lg\<lparr>ol_table_last := table, ol_list := [],
         ol_jobs := ol_jobs lg @ (if ol_table_last lg \<noteq> table then [CreateTable table] else []) @ [Insert table toks]\<rparr>)
       (flush_rows (ol_list lg))"

definition operlog_on_timer :: "string \<Rightarrow> operlog \<Rightarrow> operlog option" where
  "operlog_on_timer table lg = (if ol_list lg \<noteq> [] then flush_log table lg else Some lg)"

text \<open>\<open>pending\<close> is the worker's \<^verbatim>\<open>request_count\<close>.\<close>

definition is_operlog_block :: "nat \<Rightarrow> bool" where
  "is_operlog_block pending = (pending \<ge> MAX_PENDING_OPERLOG)"

section \<open>The log is complete and in order\<close>

fun token_rows :: "sql_token list \<Rightarrow> operlog_entry list" where
  "token_rows [] = []"
| "token_rows (Row i t s # toks) = (i, t, Some s) # token_rows toks"
| "token_rows (Comma # toks) = token_rows toks"

text \<open>A statement is well formed when its rows are separated by single commas.\<close>

fun separated :: "sql_token list \<Rightarrow> bool" where
  "separated [Row i t s] = True"
| "separated (Row i t s # Comma # toks) = separated toks"
| "separated _ = False"

fun job_rows :: "operlog_job \<Rightarrow> operlog_entry list" where
  "job_rows (CreateTable table) = []"
| "job_rows (Insert table toks) = token_rows toks"

definition log_entries :: "operlog \<Rightarrow> operlog_entry list" where
  "log_entries lg = concat (map job_rows (ol_jobs lg)) @ ol_list lg"

text \<open>The entries carry the consecutive ids that follow \<open>first\<close>, up to the last id given out.\<close>

definition log_ok :: "u64 \<Rightarrow> operlog \<Rightarrow> bool" where
  "log_ok first lg \<longleftrightarrow>
     map fst (log_entries lg) = map (\<lambda>k. first + 1 + word_of_nat k) [0..<length (log_entries lg)] \<and>
     operlog_id_start lg = first + word_of_nat (length (log_entries lg)) \<and>
     (\<forall>job\<in>set (ol_jobs lg). case job of Insert table toks \<Rightarrow> separated toks | CreateTable table \<Rightarrow> True)"

lemma log_entries_append [simp]:
  "append_operlog E method params S lg = (S', lg') \<Longrightarrow> log_entries lg' = log_entries lg @
     [(operlog_id_start lg + 1, clock E (ticks S), json_dumps (json E) (oper_detail E method params) JSON_SORT_KEYS)]"
  by (auto simp: append_operlog_def log_entries_def Let_def)

lemma flush_rows_ok:
  "flush_rows logs = Some toks \<Longrightarrow> token_rows toks = logs \<and> (logs \<noteq> [] \<longrightarrow> separated toks)"
proof (induction logs arbitrary: toks rule: flush_rows.induct)
  case (2 i t detail logs)
  then show ?case by (cases logs) (auto split: option.splits)
qed simp

lemma log_entries_flush: "operlog_on_timer table lg = Some lg' \<Longrightarrow>
    log_entries lg' = log_entries lg \<and> operlog_id_start lg' = operlog_id_start lg"
  by (auto simp: operlog_on_timer_def flush_log_def log_entries_def dest!: flush_rows_ok split: if_splits)

end
