(* ===== verification/Depth.thy ===== *)
theory Depth
  imports Market
begin

text \<open>
  The order book as clients see it: \<^verbatim>\<open>get_depth\<close> and \<^verbatim>\<open>get_depth_merge\<close> of
  \<^verbatim>\<open>matchengine/me_server.c\<close>, which add up the open amounts of a book per price, or per
  interval of prices. Both walk a book once from its best price.
\<close>

text \<open>The inner loop: the orders after the first that belong to the same level.\<close>

fun take_level ::
  "'d mpd_ops \<Rightarrow> (u64 \<rightharpoonup> 'd order) \<Rightarrow> ('d \<Rightarrow> bool) \<Rightarrow> 'd \<Rightarrow> u64 list \<Rightarrow> 'd \<times> u64 list" where
  "take_level M objs same amount [] = (amount, [])"
| "take_level M objs same amount (node # nodes) =
     (case objs node of
        None \<Rightarrow> (amount, node # nodes)
      | Some order \<Rightarrow>
          if same (o_price order) then take_level M objs same (mpd_add M amount (o_left order)) nodes
          else (amount, node # nodes))"

text \<open>
  The outer loop, at most \<open>limit\<close> times: \<open>level_price\<close> is the price that is shown for the first
  order of a level, \<open>same\<close> whether another price belongs to the level shown at a price.
\<close>

fun depth_levels ::
  "'d mpd_ops \<Rightarrow> (u64 \<rightharpoonup> 'd order) \<Rightarrow> ('d \<Rightarrow> 'd) \<Rightarrow> ('d \<Rightarrow> 'd \<Rightarrow> bool) \<Rightarrow> nat \<Rightarrow> u64 list \<Rightarrow> ('d \<times> 'd) list" where
  "depth_levels M objs level_price same 0 nodes = []"
| "depth_levels M objs level_price same (Suc limit) [] = []"
| "depth_levels M objs level_price same (Suc limit) (node # nodes) =
     (case objs node of
        None \<Rightarrow> []
      | Some order \<Rightarrow>
          let price = level_price (o_price order) in
          (case take_level M objs (same price) (o_left order) nodes of
             (amount, rest) \<Rightarrow> (price, amount) # depth_levels M objs level_price same limit rest))"

definition depth_json :: "('d, 'j) env \<Rightarrow> ('d \<times> 'd) list \<Rightarrow> ('d \<times> 'd) list \<Rightarrow> 'j" where
  "depth_json E asks bids =
     (let info = (\<lambda>(price, amount). json_array (json E) [json_mpd E price, json_mpd E amount]) in
      json_object (json E) [(''asks'', json_array (json E) (map info asks)), (''bids'', json_array (json E) (map info bids))])"

definition get_depth :: "('d, 'j) env \<Rightarrow> 'd market \<Rightarrow> nat \<Rightarrow> 'j" where
  "get_depth E m limit =
     (let levels = depth_levels (mpd E) (m_orders m) (\<lambda>price. price) (\<lambda>price p. mpd_cmp (mpd E) price p = 0) limit
      in depth_json E (levels (m_asks m)) (levels (m_bids m)))"

definition merge_ask_price :: "'d mpd_ops \<Rightarrow> 'd \<Rightarrow> 'd \<Rightarrow> 'd" where
  "merge_ask_price M interval price =
     (let (q, r) = mpd_divmod M price interval; shown = mpd_mul M q interval
      in if mpd_cmp M r (mpd_zero M) \<noteq> 0 then mpd_add M shown interval else shown)"

definition merge_bid_price :: "'d mpd_ops \<Rightarrow> 'd \<Rightarrow> 'd \<Rightarrow> 'd" where
  "merge_bid_price M interval price = (let (q, r) = mpd_divmod M price interval in mpd_mul M q interval)"

definition get_depth_merge :: "('d, 'j) env \<Rightarrow> 'd market \<Rightarrow> nat \<Rightarrow> 'd \<Rightarrow> 'j" where
  "get_depth_merge E m limit interval =
     (let M = mpd E in
      depth_json E
        (depth_levels M (m_orders m) (merge_ask_price M interval) (\<lambda>price p. mpd_cmp M price p \<ge> 0) limit (m_asks m))
        (depth_levels M (m_orders m) (merge_bid_price M interval) (\<lambda>price p. mpd_cmp M price p \<le> 0) limit (m_bids m)))"

end
