(* ===== verification/Crc32.thy ===== *)
theory Crc32
  imports Bytes
begin

text \<open>
  \<^verbatim>\<open>utils/ut_crc32.c\<close>: the table-driven checksum of the network packets, and the bitwise
  cyclic redundancy check it implements.
\<close>

unbundle bit_operations_syntax

definition crc_c :: "u32 list" where
  "crc_c =
  [0x00000000, 0x77073096, 0xee0e612c, 0x990951ba, 0x076dc419, 0x706af48f,
   0xe963a535, 0x9e6495a3, 0x0edb8832, 0x79dcb8a4, 0xe0d5e91e, 0x97d2d988,
   0x09b64c2b, 0x7eb17cbd, 0xe7b82d07, 0x90bf1d91, 0x1db71064, 0x6ab020f2,
   0xf3b97148, 0x84be41de, 0x1adad47d, 0x6ddde4eb, 0xf4d4b551, 0x83d385c7,
   0x136c9856, 0x646ba8c0, 0xfd62f97a, 0x8a65c9ec, 0x14015c4f, 0x63066cd9,
   0xfa0f3d63, 0x8d080df5, 0x3b6e20c8, 0x4c69105e, 0xd56041e4, 0xa2677172,
   0x3c03e4d1, 0x4b04d447, 0xd20d85fd, 0xa50ab56b, 0x35b5a8fa, 0x42b2986c,
   0xdbbbc9d6, 0xacbcf940, 0x32d86ce3, 0x45df5c75, 0xdcd60dcf, 0xabd13d59,
   0x26d930ac, 0x51de003a, 0xc8d75180, 0xbfd06116, 0x21b4f4b5, 0x56b3c423,
   0xcfba9599, 0xb8bda50f, 0x2802b89e, 0x5f058808, 0xc60cd9b2, 0xb10be924,
   0x2f6f7c87, 0x58684c11, 0xc1611dab, 0xb6662d3d, 0x76dc4190, 0x01db7106,
   0x98d220bc, 0xefd5102a, 0x71b18589, 0x06b6b51f, 0x9fbfe4a5, 0xe8b8d433,
   0x7807c9a2, 0x0f00f934, 0x9609a88e, 0xe10e9818, 0x7f6a0dbb, 0x086d3d2d,
   0x91646c97, 0xe6635c01, 0x6b6b51f4, 0x1c6c6162, 0x856530d8, 0xf262004e,
   0x6c0695ed, 0x1b01a57b, 0x8208f4c1, 0xf50fc457, 0x65b0d9c6, 0x12b7e950,
   0x8bbeb8ea, 0xfcb9887c, 0x62dd1ddf, 0x15da2d49, 0x8cd37cf3, 0xfbd44c65,
   0x4db26158, 0x3ab551ce, 0xa3bc0074, 0xd4bb30e2, 0x4adfa541, 0x3dd895d7,
   0xa4d1c46d, 0xd3d6f4fb, 0x4369e96a, 0x346ed9fc, 0xad678846, 0xda60b8d0,
   0x44042d73, 0x33031de5, 0xaa0a4c5f, 0xdd0d7cc9, 0x5005713c, 0x270241aa,
   0xbe0b1010, 0xc90c2086, 0x5768b525, 0x206f85b3, 0xb966d409, 0xce61e49f,
   0x5edef90e, 0x29d9c998, 0xb0d09822, 0xc7d7a8b4, 0x59b33d17, 0x2eb40d81,
   0xb7bd5c3b, 0xc0ba6cad, 0xedb88320, 0x9abfb3b6, 0x03b6e20c, 0x74b1d29a,
   0xead54739, 0x9dd277af, 0x04db2615, 0x73dc1683, 0xe3630b12, 0x94643b84,
   0x0d6d6a3e, 0x7a6a5aa8, 0xe40ecf0b, 0x9309ff9d, 0x0a00ae27, 0x7d079eb1,
   0xf00f9344, 0x8708a3d2, 0x1e01f268, 0x6906c2fe, 0xf762575d, 0x806567cb,
   0x196c3671, 0x6e6b06e7, 0xfed41b76, 0x89d32be0, 0x10da7a5a, 0x67dd4acc,
   0xf9b9df6f, 0x8ebeeff9, 0x17b7be43, 0x60b08ed5, 0xd6d6a3e8, 0xa1d1937e,
   0x38d8c2c4, 0x4fdff252, 0xd1bb67f1, 0xa6bc5767, 0x3fb506dd, 0x48b2364b,
   0xd80d2bda, 0xaf0a1b4c, 0x36034af6, 0x41047a60, 0xdf60efc3, 0xa867df55,
   0x316e8eef, 0x4669be79, 0xcb61b38c, 0xbc66831a, 0x256fd2a0, 0x5268e236,
   0xcc0c7795, 0xbb0b4703, 0x220216b9, 0x5505262f, 0xc5ba3bbe, 0xb2bd0b28,
   0x2bb45a92, 0x5cb36a04, 0xc2d7ffa7, 0xb5d0cf31, 0x2cd99e8b, 0x5bdeae1d,
   0x9b64c2b0, 0xec63f226, 0x756aa39c, 0x026d930a, 0x9c0906a9, 0xeb0e363f,
   0x72076785, 0x05005713, 0x95bf4a82, 0xe2b87a14, 0x7bb12bae, 0x0cb61b38,
   0x92d28e9b, 0xe5d5be0d, 0x7cdcefb7, 0x0bdbdf21, 0x86d3d2d4, 0xf1d4e242,
   0x68ddb3f8, 0x1fda836e, 0x81be16cd, 0xf6b9265b, 0x6fb077e1, 0x18b74777,
   0x88085ae6, 0xff0f6a70, 0x66063bca, 0x11010b5c, 0x8f659eff, 0xf862ae69,
   0x616bffd3, 0x166ccf45, 0xa00ae278, 0xd70dd2ee, 0x4e048354, 0x3903b3c2,
   0xa7672661, 0xd06016f7, 0x4969474d, 0x3e6e77db, 0xaed16a4a, 0xd9d65adc,
   0x40df0b66, 0x37d83bf0, 0xa9bcae53, 0xdebb9ec5, 0x47b2cf7f, 0x30b5ffe9,
   0xbdbdf21c, 0xcabac28a, 0x53b39330, 0x24b4a3a6, 0xbad03605, 0xcdd70693,
   0x54de5729, 0x23d967bf, 0xb3667a2e, 0xc4614ab8, 0x5d681b02, 0x2a6f2b94,
   0xb40bbe37, 0xc30c8ea1, 0x5a05df1b, 0x2d02ef8d]"

definition CRC32C :: "u32 \<Rightarrow> u8 \<Rightarrow> u32" where
  "CRC32C c d = drop_bit 8 c XOR crc_c ! unat ((c XOR ucast d) AND 0xFF)"

definition generate_crc32c :: "u8 list \<Rightarrow> u32" where
  "generate_crc32c buffer = NOT (fold (\<lambda>d crc32. CRC32C crc32 d) buffer (NOT 0))"

section \<open>The bitwise definition\<close>

text \<open>
  One bit of a division by the reflected polynomial of IEEE 802.3. (The name of the C function
  promises the Castagnoli polynomial; the table is not that one.)
\<close>

definition crc_bit :: "u32 \<Rightarrow> u32" where
  "crc_bit c = (if bit c 0 then drop_bit 1 c XOR 0xEDB88320 else drop_bit 1 c)"

definition crc_byte :: "u32 \<Rightarrow> u8 \<Rightarrow> u32" where
  "crc_byte c d = (crc_bit ^^ 8) (c XOR ucast d)"

definition crc32_reference :: "u8 list \<Rightarrow> u32" where
  "crc32_reference buffer = NOT (fold (\<lambda>d c. crc_byte c d) buffer (NOT 0))"

lemma crc_bit_xor: "crc_bit (a XOR b) = crc_bit a XOR crc_bit b"
  by (simp add: crc_bit_def bit_simps) (simp add: bit_eq_iff bit_simps; fastforce)

text \<open>The table is linear, so it is determined by its entries at the powers of two.\<close>

definition crc_entry :: "nat \<Rightarrow> u32" where
  "crc_entry i = (crc_bit ^^ 8) (word_of_nat i)"

definition dbl :: "u32 \<Rightarrow> u32 list \<Rightarrow> u32 list" where
  "dbl t xs = xs @ map (\<lambda>x. t XOR x) xs"

lemma eight: "(f ^^ 8) x = f (f (f (f (f (f (f (f x)))))))"
  by (simp add: numeral_eq_Suc)

lemma crc_bits_xor: "(crc_bit ^^ n) (a XOR b) = (crc_bit ^^ n) a XOR (crc_bit ^^ n) b"
  by (induction n) (simp_all add: crc_bit_xor)

lemma add_power_xor: "j < 2 ^ k \<Longrightarrow> 2 ^ k + j = 2 ^ k XOR (j :: nat)"
proof (rule disjunctive_add_eq_xor, rule bit_eqI)
  fix n assume "j < 2 ^ k"
  then have "j = take_bit k j" by (simp add: take_bit_nat_eq_self)
  then have "bit j n \<Longrightarrow> n < k" by (metis bit_take_bit_iff)
  then show "bit (2 ^ k AND j) n = bit (0 :: nat) n" by (auto simp: bit_simps)
qed

lemma crc_entry_add: "j < 2 ^ k \<Longrightarrow> crc_entry (2 ^ k + j) = crc_entry (2 ^ k) XOR crc_entry j"
  by (simp only: crc_entry_def add_power_xor of_nat_xor_eq crc_bits_xor)

lemma crc_entries_double: "map crc_entry [0..<2 ^ Suc k] = dbl (crc_entry (2 ^ k)) (map crc_entry [0..<2 ^ k])"
proof -
  have "[0..<2 ^ Suc k] = [0..<2 ^ k] @ map (\<lambda>j. 2 ^ k + j) [0..<2 ^ k]"
    by (simp add: map_add_upt mult_2 upt_add_eq_append [symmetric] add.commute)
  then show ?thesis by (simp add: dbl_def crc_entry_add)
qed

lemma crc_entry_powers:
  "crc_entry 1 = 0x77073096"
  "crc_entry 2 = 0xee0e612c"
  "crc_entry 4 = 0x076dc419"
  "crc_entry 8 = 0x0edb8832"
  "crc_entry 16 = 0x1db71064"
  "crc_entry 32 = 0x3b6e20c8"
  "crc_entry 64 = 0x76dc4190"
  "crc_entry 128 = 0xedb88320"
  unfolding crc_entry_def eight by (simp_all add: crc_bit_def)

lemma crc_c_doubled: "crc_c = dbl 0xedb88320 (dbl 0x76dc4190 (dbl 0x3b6e20c8 (dbl 0x1db71064 (dbl 0x0edb8832 (dbl 0x076dc419 (dbl 0xee0e612c (dbl 0x77073096 ([0]))))))))"
  by (simp add: crc_c_def dbl_def)

lemma crc_entries: "map crc_entry [0..<256] = crc_c"
proof -
  have "crc_entry 0 = 0" by (simp add: crc_entry_def eight crc_bit_def)
  then have "map crc_entry [0..<2 ^ 0] = [0]" by simp
  then show ?thesis
    using crc_entries_double [of 0] crc_entries_double [of 1] crc_entries_double [of 2] crc_entries_double [of 3]
      crc_entries_double [of 4] crc_entries_double [of 5] crc_entries_double [of 6] crc_entries_double [of 7]
    unfolding crc_c_doubled crc_entry_powers [symmetric] by (simp del: upt_Suc upt_rec_numeral)
qed

section \<open>The table implements the bitwise definition\<close>

lemma crc_bits_drop:
  assumes "\<forall>i<n. \<not> bit x i"
  shows "(crc_bit ^^ n) x = drop_bit n x"
  using assms
proof (induction n)
  case (Suc n)
  then have "\<not> bit (drop_bit n x) 0" by (simp add: bit_simps)
  with Suc show ?case by (simp add: crc_bit_def drop_bit_drop_bit)
qed simp

lemma crc_bits_split: "(crc_bit ^^ 8) x = drop_bit 8 x XOR crc_entry (unat (x AND 0xFF))"
proof -
  let ?lo = "x AND mask 8" and ?hi = "x AND NOT (mask 8)"
  have "x = ?hi XOR ?lo" by (rule bit_word_eqI) (auto simp: bit_simps)
  then have "(crc_bit ^^ 8) x = (crc_bit ^^ 8) ?hi XOR (crc_bit ^^ 8) ?lo" by (metis crc_bits_xor)
  moreover have "(crc_bit ^^ 8) ?hi = drop_bit 8 ?hi" by (rule crc_bits_drop) (auto simp: bit_simps)
  moreover have "drop_bit 8 ?hi = drop_bit 8 x" by (rule bit_word_eqI) (auto simp: bit_simps dest: bit_imp_le_length)
  moreover have "mask 8 = (0xFF :: u32)" by (simp add: mask_eq_exp_minus_1)
  ultimately show ?thesis by (simp add: crc_entry_def)
qed

lemma CRC32C_bits: "CRC32C c d = crc_byte c d"
proof -
  let ?i = "(c XOR ucast d) AND (0xFF :: u32)"
  have "unat ?i \<le> unat (0xFF :: u32)" by (metis word_and_le1 word_le_nat_alt)
  then have i: "unat ?i < 256" by simp
  have "crc_c ! unat ?i = crc_entry (unat ?i)"
    unfolding crc_entries [symmetric] using i by (simp del: upt_Suc upt_rec_numeral)
  moreover have "drop_bit 8 (c XOR ucast d) = drop_bit 8 c"
    by (rule bit_word_eqI) (auto simp: bit_simps dest: bit_imp_le_length)
  ultimately show ?thesis by (simp add: CRC32C_def crc_byte_def crc_bits_split)
qed

lemma crc32_bitwise: "generate_crc32c buffer = crc32_reference buffer"
  by (simp add: generate_crc32c_def crc32_reference_def CRC32C_bits)

text \<open>
  C37. The table-driven checksum is the bitwise cyclic redundancy check: for every buffer,
  \<^verbatim>\<open>generate_crc32c\<close> gives the remainder that dividing bit by bit gives.
\<close>

theorem crc32_implements: "generate_crc32c buffer = crc32_reference buffer"
  by (rule crc32_bitwise)

section \<open>Which errors it detects\<close>

lemma xor_cancel: "a XOR c = b XOR c \<longleftrightarrow> a = (b :: 'a::len word)" "c XOR a = c XOR b \<longleftrightarrow> a = b"
  by (auto simp: bit_eq_iff bit_simps dest: bit_imp_le_length)

lemma not_cancel: "NOT a = NOT b \<longleftrightarrow> a = (b :: 'a::len word)"
  by (metis bit.double_compl)

lemma crc_bit_inj: "crc_bit a = crc_bit b \<Longrightarrow> a = b"
proof -
  have top: "bit (crc_bit c) 31 = bit c 0" for c
    using bit_imp_le_length [of c 32] by (auto simp: crc_bit_def bit_simps)
  have rest: "bit c (Suc i) = (bit (crc_bit c) i \<noteq> (bit c 0 \<and> bit (0xEDB88320 :: u32) i))" if "i < 31" for c i
    using that by (auto simp: crc_bit_def bit_simps)
  assume eq: "crc_bit a = crc_bit b"
  show "a = b"
  proof (rule bit_word_eqI)
    fix i assume "i < LENGTH(32)"
    then show "bit a i = bit b i"
      using top [of a] top [of b] rest [of "i - 1" a] rest [of "i - 1" b] eq by (cases i) auto
  qed
qed

lemma crc_bits_inj: "(crc_bit ^^ n) a = (crc_bit ^^ n) b \<Longrightarrow> a = b"
  by (induction n) (auto dest: crc_bit_inj)

lemma crc_bytes_word:
  "length ds \<le> 4 \<Longrightarrow> fold (\<lambda>d c. crc_byte c d) ds c = (crc_bit ^^ (8 * length ds)) (c XOR of_le ds)"
proof (induction ds arbitrary: c)
  case (Cons d ds)
  let ?w = "of_le ds :: u32"
  have "(crc_bit ^^ 8) (push_bit 8 ?w) = drop_bit 8 (push_bit 8 ?w)"
    by (rule crc_bits_drop) (simp add: bit_simps)
  also have "\<dots> = ?w"
    using Cons.prems by (intro bit_word_eqI) (auto simp: bit_simps bit_of_le)
  finally have w: "(crc_bit ^^ 8) (push_bit 8 ?w) = ?w" .
  have "push_bit 8 ?w OR ucast d = push_bit 8 ?w XOR ucast d"
    by (rule bit_word_eqI) (auto simp: bit_simps dest: bit_imp_le_length)
  then have "crc_byte c d XOR ?w = (crc_bit ^^ 8) (c XOR of_le (d # ds))"
    by (simp add: crc_byte_def crc_bits_xor w ac_simps)
  then show ?case
    using Cons by (simp add: funpow_add [THEN fun_cong, of "8 * length ds" 8, simplified, symmetric] add.commute)
qed simp

lemma crc_fold_inj: "fold (\<lambda>d c. crc_byte c d) ys a = fold (\<lambda>d c. crc_byte c d) ys b \<Longrightarrow> a = b"
proof (induction ys arbitrary: a b)
  case (Cons y ys)
  then have "crc_byte a y = crc_byte b y" by simp
  then show ?case by (auto simp: crc_byte_def xor_cancel dest!: crc_bits_inj)
qed simp

lemma crc32_bursts:
  assumes "length ds = length ds'" "length ds \<le> 4" "ds \<noteq> ds'"
  shows "generate_crc32c (xs @ ds @ ys) \<noteq> generate_crc32c (xs @ ds' @ ys)"
proof
  let ?c = "fold (\<lambda>d c. crc_byte c d) xs (NOT 0)"
  assume "generate_crc32c (xs @ ds @ ys) = generate_crc32c (xs @ ds' @ ys)"
  then have "fold (\<lambda>d c. crc_byte c d) ys (fold (\<lambda>d c. crc_byte c d) ds ?c) =
      fold (\<lambda>d c. crc_byte c d) ys (fold (\<lambda>d c. crc_byte c d) ds' ?c)"
    unfolding crc32_bitwise crc32_reference_def fold_append comp_apply not_cancel .
  then have "(crc_bit ^^ (8 * length ds)) (?c XOR of_le ds) = (crc_bit ^^ (8 * length ds)) (?c XOR of_le ds')"
    using assms(1,2) crc_bytes_word [of ds ?c] crc_bytes_word [of ds' ?c] by (metis crc_fold_inj)
  then have "of_le ds = (of_le ds' :: u32)"
    by (metis crc_bits_inj xor_cancel(2))
  moreover have "8 * length ds \<le> LENGTH(32)" using assms(2) by simp
  ultimately have "ds = ds'"
    by (metis le_bytes_of_le assms(1))
  with assms(3) show False by (rule notE)
qed

text \<open>
  The checksum detects every error that is confined to four consecutive bytes: two buffers
  that differ there and nowhere else never have the same checksum.
\<close>

theorem crc32_detects_bursts:
  assumes "length ds = length ds'" "length ds \<le> 4" "ds \<noteq> ds'"
  shows "generate_crc32c (xs @ ds @ ys) \<noteq> generate_crc32c (xs @ ds' @ ys)"
  using assms by (rule crc32_bursts)

theorem crc32_detects_bursts_witness:
  "generate_crc32c ([1] @ [2, 3] @ [4]) \<noteq> generate_crc32c ([1] @ [3, 2] @ [4])"
  by (rule crc32_detects_bursts) simp_all

end
