(* ===== verification/Pack.thy ===== *)
theory Pack
  imports Bytes
begin

unbundle bit_operations_syntax

text \<open>
  \<^verbatim>\<open>utils/ut_pack.c\<close>: packing and unpacking of integers, strings and script pushes. A
  writer is the bytes written so far and \<^verbatim>\<open>left\<close>, the space that remains; a reader is
  the \<^verbatim>\<open>left\<close> bytes that remain. A pack function gives its return value and the new
  writer; an unpack function the return value, what it stores and the new reader. \<open>None\<close> is the
  return value \<open>- 1\<close>, after which the C functions leave the pointers where they got to.
\<close>

type_synonym writer = "u8 list \<times> nat"

definition put :: "u8 list \<Rightarrow> writer \<Rightarrow> writer" where
  "put bs = (\<lambda>(out, lft). (out @ bs, lft - length bs))"

definition space :: "writer \<Rightarrow> nat" where
  "space w = snd w"

section \<open>Fixed widths\<close>

definition pack_uint16_le :: "u16 \<Rightarrow> writer \<Rightarrow> (nat \<times> writer) option" where
  "pack_uint16_le num w = (if space w < 4 then None else Some (2, put (le_bytes 2 num) w))"

definition unpack_uint16_le :: "u8 list \<Rightarrow> (nat \<times> u16 \<times> u8 list) option" where
  "unpack_uint16_le src = (if length src < 4 then None else Some (2, of_le (take 2 src), drop 2 src))"

definition pack_uint32_le :: "u32 \<Rightarrow> writer \<Rightarrow> (nat \<times> writer) option" where
  "pack_uint32_le num w = (if space w < 4 then None else Some (4, put (le_bytes 4 num) w))"

definition unpack_uint32_le :: "u8 list \<Rightarrow> (nat \<times> u32 \<times> u8 list) option" where
  "unpack_uint32_le src = (if length src < 4 then None else Some (4, of_le (take 4 src), drop 4 src))"

definition pack_uint64_le :: "u64 \<Rightarrow> writer \<Rightarrow> (nat \<times> writer) option" where
  "pack_uint64_le num w = (if space w < 8 then None else Some (8, put (le_bytes 8 num) w))"

definition unpack_uint64_le :: "u8 list \<Rightarrow> (nat \<times> u64 \<times> u8 list) option" where
  "unpack_uint64_le src = (if length src < 8 then None else Some (8, of_le (take 8 src), drop 8 src))"

definition pack_char :: "u8 \<Rightarrow> writer \<Rightarrow> (nat \<times> writer) option" where
  "pack_char c w = (if space w < 1 then None else Some (1, put [c] w))"

definition unpack_char :: "u8 list \<Rightarrow> (nat \<times> u8 \<times> u8 list) option" where
  "unpack_char src = (case src of [] \<Rightarrow> None | c # src \<Rightarrow> Some (1, c, src))"

definition pack_buf :: "u8 list \<Rightarrow> writer \<Rightarrow> (nat \<times> writer) option" where
  "pack_buf data w = (if space w < length data then None else Some (length data, put data w))"

definition unpack_buf :: "nat \<Rightarrow> u8 list \<Rightarrow> (nat \<times> u8 list \<times> u8 list) option" where
  "unpack_buf len src = (if length src < len then None else Some (len, take len src, drop len src))"

section \<open>Variable widths\<close>

definition pack_varint_le :: "u64 \<Rightarrow> writer \<Rightarrow> (nat \<times> writer) option" where
  "pack_varint_le num w =
     (if num < 0xfd then (if space w < 1 then None else Some (1, put [ucast num] w))
      else if num < 0xffff then
        (if space w < 3 then None else Some (3, put (0xfd # le_bytes 2 (ucast num :: u16)) w))
      else if num < 0xffffffff then
        (if space w < 5 then None else Some (5, put (0xfe # le_bytes 4 (ucast num :: u32)) w))
      else (if space w < 9 then None else Some (9, put (0xff # le_bytes 8 num) w)))"

definition unpack_varint_le :: "u8 list \<Rightarrow> (nat \<times> u64 \<times> u8 list) option" where
  "unpack_varint_le src =
     (case src of [] \<Rightarrow> None
      | mark # rest \<Rightarrow>
          if mark < 0xfd then Some (1, ucast mark, rest)
          else if mark = 0xfd then
            (if length src < 3 then None else Some (3, ucast (of_le (take 2 rest) :: u16), drop 2 rest))
          else if mark = 0xfe then
            (if length src < 5 then None else Some (5, ucast (of_le (take 4 rest) :: u32), drop 4 rest))
          else (if length src < 9 then None else Some (9, of_le (take 8 rest), drop 8 rest)))"

definition pack_varstr :: "u8 list \<Rightarrow> writer \<Rightarrow> (nat \<times> writer) option" where
  "pack_varstr str w =
     (case pack_varint_le (word_of_nat (length str)) w of
        None \<Rightarrow> None
      | Some (ret, w) \<Rightarrow>
          if space w < length str then None else Some (ret + length str, put str w))"

definition unpack_varstr :: "u8 list \<Rightarrow> (nat \<times> u8 list \<times> u8 list) option" where
  "unpack_varstr src =
     (case unpack_varint_le src of
        None \<Rightarrow> None
      | Some (ret, len, src) \<Rightarrow>
          if length src < unat len then None
          else Some (ret + unat len, take (unat len) src, drop (unat len) src))"

section \<open>Script pushes\<close>

definition pack_oppush :: "u8 list \<Rightarrow> writer \<Rightarrow> (nat \<times> writer) option" where
  "pack_oppush data w =
     (let len = length data;
          push = (\<lambda>head. if space w < length head + len then None
                         else Some (length head + len, put data (put head w)))
      in if len \<le> 0x4b then push [word_of_nat len]
         else if len \<le> 0xff then push [0x4c, word_of_nat len]
         else if len \<le> 0xffff then push (0x4d # le_bytes 2 (word_of_nat len :: u16))
         else if len \<le> 0xffffffff then push (0x4e # le_bytes 4 (word_of_nat len :: u32))
         else None)"

text \<open>\<open>capacity\<close> is the size of the destination; the result carries the length read.\<close>

definition unpack_oppush :: "nat \<Rightarrow> u8 list \<Rightarrow> (nat \<times> u8 list \<times> u8 list) option" where
  "unpack_oppush capacity src =
     (case unpack_char src of
        None \<Rightarrow> None
      | Some (n, op, src) \<Rightarrow>
          (case (if op \<le> 0x4b then Some (0, unat op, src)
                 else if op = 0x4c then map_option (\<lambda>(k, c, src). (k, unat c, src)) (unpack_char src)
                 else if op = 0x4d then map_option (\<lambda>(k, c, src). (k, unat c, src)) (unpack_uint16_le src)
                 else if op = 0x4e then map_option (\<lambda>(k, c, src). (k, unat c, src)) (unpack_uint32_le src)
                 else None) of
             None \<Rightarrow> None
           | Some (k, len, src) \<Rightarrow>
               if length src < len \<or> capacity < len then None
               else Some (n + k + len, take len src, drop len src)))"

text \<open>The loop over the bytes of the absolute value, smallest first.\<close>

function abs_bytes :: "nat \<Rightarrow> u8 list" where
  "abs_bytes n = (if n = 0 then [] else word_of_nat n # abs_bytes (n div 256))"
  by auto
termination by (relation "measure (\<lambda>n. n)") auto

declare abs_bytes.simps [simp del]

definition sign_bytes :: "bool \<Rightarrow> u8 list \<Rightarrow> u8 list" where
  "sign_bytes neg buf =
     (if bit (last buf) 7 then buf @ [if neg then 0x80 else 0]
      else if neg then butlast buf @ [last buf OR 0x80] else buf)"

definition pack_oppushint_le :: "int \<Rightarrow> writer \<Rightarrow> (nat \<times> writer) option" where
  "pack_oppushint_le num w =
     (if num = - (2 ^ 63) then None
      else if num = - 1 then pack_char 0x4f w
      else if num = 0 then pack_char 0 w
      else if 1 \<le> num \<and> num \<le> 16 then pack_char (0x50 + word_of_int num) w
      else pack_oppush (sign_bytes (num < 0) (abs_bytes (nat \<bar>num\<bar>))) w)"

definition bytes_abs :: "u8 list \<Rightarrow> int" where
  "bytes_abs buf = foldr (\<lambda>b acc. acc * 256 + uint b) buf 0"

definition unpack_oppushint_le :: "u8 list \<Rightarrow> (nat \<times> int \<times> u8 list) option" where
  "unpack_oppushint_le src =
     (case src of [] \<Rightarrow> None
      | op # rest \<Rightarrow>
          if op = 0 then Some (1, 0, rest)
          else if op = 0x4f then Some (1, - 1, rest)
          else if 0x50 < op \<and> op \<le> 0x60 then Some (1, uint op - 0x50, rest)
          else if op > 8 then None
          else map_option (\<lambda>(n, buf, src).
                 (n, let v = bytes_abs (butlast buf @ [last buf AND NOT 0x80])
                     in if bit (last buf) 7 then - v else v, src)) (unpack_oppush 8 src))"

section \<open>What a codec promises\<close>

text \<open>
  Whatever a pack function wrote, its unpack function reads back, from the front of any text
  that has \<open>slack\<close> more bytes, and both return the number of bytes.
\<close>

locale codec =
  fixes pack :: "'a \<Rightarrow> writer \<Rightarrow> (nat \<times> writer) option"
    and unpack :: "u8 list \<Rightarrow> (nat \<times> 'a \<times> u8 list) option"
    and good :: "'a \<Rightarrow> bool"
    and slack :: nat
  assumes pack_unpack: "good v \<Longrightarrow> pack v (out, lft) = Some (n, w) \<Longrightarrow>
    \<exists>bs. w = (out @ bs, lft - n) \<and> length bs = n \<and> n \<le> lft \<and>
      (\<forall>rest. slack \<le> length rest \<longrightarrow> unpack (bs @ rest) = Some (n, v, rest))"

text \<open>A sequence of values, one after the other.\<close>

fun pack_seq :: "('a \<Rightarrow> writer \<Rightarrow> (nat \<times> writer) option) \<Rightarrow> 'a list \<Rightarrow> writer \<Rightarrow> writer option" where
  "pack_seq pack [] w = Some w"
| "pack_seq pack (v # vs) w = (case pack v w of None \<Rightarrow> None | Some (_, w) \<Rightarrow> pack_seq pack vs w)"

fun unpack_seq :: "(u8 list \<Rightarrow> (nat \<times> 'a \<times> u8 list) option) \<Rightarrow> nat \<Rightarrow> u8 list \<Rightarrow> ('a list \<times> u8 list) option" where
  "unpack_seq unpack 0 src = Some ([], src)"
| "unpack_seq unpack (Suc n) src =
     (case unpack src of None \<Rightarrow> None
      | Some (_, v, src) \<Rightarrow> map_option (\<lambda>(vs, src). (v # vs, src)) (unpack_seq unpack n src))"

context codec
begin

lemma seq_roundtrip:
  assumes "\<forall>v\<in>set vs. good v" "pack_seq pack vs (out, lft) = Some w"
  shows "\<exists>bs. w = (out @ bs, lft - length bs) \<and> length bs \<le> lft \<and>
    (\<forall>rest. slack \<le> length rest \<longrightarrow> unpack_seq unpack (length vs) (bs @ rest) = Some (vs, rest))"
  using assms
proof (induction vs arbitrary: out lft)
  case (Cons v vs)
  then obtain n w1 where p: "pack v (out, lft) = Some (n, w1)" "pack_seq pack vs w1 = Some w"
    by (auto split: option.splits)
  with pack_unpack [of v out lft n w1] Cons.prems obtain bs where
    b: "w1 = (out @ bs, lft - n)" "length bs = n" "n \<le> lft"
      "\<forall>rest. slack \<le> length rest \<longrightarrow> unpack (bs @ rest) = Some (n, v, rest)" by auto
  with Cons.IH [of "out @ bs" "lft - n"] Cons.prems p obtain cs where
    c: "w = ((out @ bs) @ cs, lft - n - length cs)" "length cs \<le> lft - n"
      "\<forall>rest. slack \<le> length rest \<longrightarrow> unpack_seq unpack (length vs) (cs @ rest) = Some (vs, rest)" by auto
  show ?case
    by (rule exI [of _ "bs @ cs"]) (use b c in auto)
qed (auto intro: exI [of _ "[]"])

end

section \<open>The codecs of the file\<close>

lemma fixed_codec:
  assumes "8 * n = LENGTH('a::len)" "n \<le> k"
    and "\<And>v w. pack v w = (if space w < k then None else Some (n, put (le_bytes n (v :: 'a word)) w))"
    and "\<And>src. unpack src = (if length src < k then None else Some (n, of_le (take n src), drop n src))"
  shows "codec pack unpack (\<lambda>_. True) (k - n)"
  by unfold_locales (use assms in \<open>auto simp: space_def put_def of_le_bytes split: if_splits\<close>)

interpretation uint16: codec pack_uint16_le unpack_uint16_le "\<lambda>_. True" "4 - 2"
  by (rule fixed_codec) (simp_all add: pack_uint16_le_def unpack_uint16_le_def)

interpretation uint32: codec pack_uint32_le unpack_uint32_le "\<lambda>_. True" "4 - 4"
  by (rule fixed_codec) (simp_all add: pack_uint32_le_def unpack_uint32_le_def)

interpretation uint64: codec pack_uint64_le unpack_uint64_le "\<lambda>_. True" "8 - 8"
  by (rule fixed_codec) (simp_all add: pack_uint64_le_def unpack_uint64_le_def)

lemma unat_small: "n < 2 ^ LENGTH('a) \<Longrightarrow> unat (word_of_nat n :: 'a::len word) = n"
  by (simp add: unsigned_of_nat take_bit_nat_eq_self)

lemma ucast_small:
  assumes "x < 2 ^ LENGTH('b)" "LENGTH('b) < LENGTH('a)"
  shows "ucast (ucast (x :: 'a::len word) :: 'b::len word) = x"
proof -
  have "take_bit LENGTH('b) x = x" using assms by (simp add: less_mask_eq take_bit_eq_mask)
  then show ?thesis by (simp add: unsigned_ucast_eq)
qed

lemma varint_codec: "codec pack_varint_le unpack_varint_le (\<lambda>_. True) 0"
proof
  fix v :: u64 and out lft n w
  assume p: "pack_varint_le v (out, lft) = Some (n, w)"
  consider "v < 0xfd" | "\<not> v < 0xfd" "v < 0xffff" | "\<not> v < 0xffff" "v < 0xffffffff" | "\<not> v < 0xffffffff"
    by blast
  then show "\<exists>bs. w = (out @ bs, lft - n) \<and> length bs = n \<and> n \<le> lft \<and>
      (\<forall>rest. 0 \<le> length rest \<longrightarrow> unpack_varint_le (bs @ rest) = Some (n, v, rest))"
  proof cases
    case 1
    then have u: "ucast (ucast v :: u8) = v" by (intro ucast_small) (auto simp: word_less_nat_alt)
    moreover have "unat (ucast v :: u8) = unat v mod 256"
      by (simp add: unsigned_ucast_eq unsigned_take_bit_eq take_bit_eq_mod)
    then have "(ucast v :: u8) < 0xfd" using 1 by (simp add: word_less_nat_alt)
    ultimately show ?thesis
      using p 1 by (auto simp: pack_varint_le_def unpack_varint_le_def space_def put_def split: if_splits)
  next
    case 2
    then have "ucast (ucast v :: u16) = v" by (intro ucast_small) (auto simp: word_less_nat_alt)
    then show ?thesis
      using p 2 by (auto simp: pack_varint_le_def unpack_varint_le_def space_def put_def of_le_bytes split: if_splits)
  next
    case 3
    then have "ucast (ucast v :: u32) = v" by (intro ucast_small) (auto simp: word_less_nat_alt)
    moreover have "\<not> v < 0xfd" using 3 by (auto simp: word_less_nat_alt)
    ultimately show ?thesis
      using p 3 by (auto simp: pack_varint_le_def unpack_varint_le_def space_def put_def of_le_bytes split: if_splits)
  next
    case 4
    then have "\<not> v < 0xfd" "\<not> v < 0xffff" by (auto simp: word_less_nat_alt)
    then show ?thesis
      using p 4 by (auto simp: pack_varint_le_def unpack_varint_le_def space_def put_def of_le_bytes split: if_splits)
  qed
qed

interpretation varint: codec pack_varint_le unpack_varint_le "\<lambda>_. True" 0
  by (rule varint_codec)

interpretation char: codec pack_char unpack_char "\<lambda>_. True" 0
  by unfold_locales (auto simp: pack_char_def unpack_char_def space_def put_def split: if_splits)

interpretation varstr: codec pack_varstr unpack_varstr "\<lambda>s. length s < 2 ^ 64" 0
proof
  fix v :: "u8 list" and out lft n w
  assume len: "length v < 2 ^ 64" and p: "pack_varstr v (out, lft) = Some (n, w)"
  from p obtain k w1 where k: "pack_varint_le (word_of_nat (length v)) (out, lft) = Some (k, w1)"
      "length v \<le> space w1" "n = k + length v" "w = put v w1"
    by (auto simp: pack_varstr_def split: option.splits if_splits)
  from varint.pack_unpack [OF TrueI k(1)] obtain bs where
    b: "w1 = (out @ bs, lft - k)" "length bs = k" "k \<le> lft"
      "\<And>rest. unpack_varint_le (bs @ rest) = Some (k, word_of_nat (length v), rest)" by auto
  have "unat (word_of_nat (length v) :: u64) = length v" using len by (simp add: unat_small)
  then show "\<exists>bs. w = (out @ bs, lft - n) \<and> length bs = n \<and> n \<le> lft \<and>
      (\<forall>rest. 0 \<le> length rest \<longrightarrow> unpack_varstr (bs @ rest) = Some (n, v, rest))"
    using b k by (intro exI [of _ "bs @ v"]) (auto simp: unpack_varstr_def space_def put_def)
qed

lemma oppush_codec: "codec pack_oppush (unpack_oppush capacity) (\<lambda>d. length d \<le> capacity) 0"
proof
  fix v :: "u8 list" and out lft n w
  assume cap: "length v \<le> capacity" and p: "pack_oppush v (out, lft) = Some (n, w)"
  let ?l = "length v"
  let ?goal = "\<exists>bs. w = (out @ bs, lft - n) \<and> length bs = n \<and> n \<le> lft \<and>
      (\<forall>rest. 0 \<le> length rest \<longrightarrow> unpack_oppush capacity (bs @ rest) = Some (n, v, rest))"
  have front: ?goal if "w = put v (put head (out, lft))" "n = length head + ?l" "n \<le> lft"
    "\<And>rest. unpack_oppush capacity (head @ v @ rest) = Some (n, v, rest)" for head
    by (rule exI [of _ "head @ v"]) (use that in \<open>auto simp: put_def\<close>)
  consider "?l \<le> 0x4b" | "0x4b < ?l" "?l \<le> 0xff" | "0xff < ?l" "?l \<le> 0xffff" | "0xffff < ?l" "?l \<le> 0xffffffff"
    using p by (fastforce simp: pack_oppush_def Let_def split: if_splits)
  then show ?goal
  proof cases
    case 1
    then have "(word_of_nat ?l :: u8) \<le> 0x4b" "unat (word_of_nat ?l :: u8) = ?l"
      by (auto simp: word_le_nat_alt unat_small)
    then show ?thesis
      using p cap 1 by (intro front [of "[word_of_nat ?l]"])
        (auto simp: pack_oppush_def Let_def unpack_oppush_def unpack_char_def space_def split: if_splits)
  next
    case 2
    then have "unat (word_of_nat ?l :: u8) = ?l" by (auto simp: unat_small)
    then show ?thesis
      using p cap 2 by (intro front [of "[0x4c, word_of_nat ?l]"])
        (auto simp: pack_oppush_def Let_def unpack_oppush_def unpack_char_def space_def split: if_splits)
  next
    case 3
    then have "unat (word_of_nat ?l :: u16) = ?l" by (auto simp: unat_small)
    then show ?thesis
      using p cap 3 by (intro front [of "0x4d # le_bytes 2 (word_of_nat ?l :: u16)"])
        (auto simp: pack_oppush_def Let_def unpack_oppush_def unpack_char_def unpack_uint16_le_def of_le_bytes space_def split: if_splits)
  next
    case 4
    then have "unat (word_of_nat ?l :: u32) = ?l" by (auto simp: unat_small)
    then show ?thesis
      using p cap 4 by (intro front [of "0x4e # le_bytes 4 (word_of_nat ?l :: u32)"])
        (auto simp: pack_oppush_def Let_def unpack_oppush_def unpack_char_def unpack_uint32_le_def of_le_bytes space_def split: if_splits)
  qed
qed

interpretation oppush: codec pack_oppush "unpack_oppush capacity" "\<lambda>d. length d \<le> capacity" 0 for capacity
  by (rule oppush_codec)

section \<open>Integers of a script\<close>

lemma bytes_abs_simps [simp]: "bytes_abs [] = 0" "bytes_abs (b # bs) = bytes_abs bs * 256 + uint b"
  by (simp_all add: bytes_abs_def)

lemma bytes_abs_append: "bytes_abs (xs @ ys) = bytes_abs xs + 256 ^ length xs * bytes_abs ys"
  by (induction xs) (simp_all add: algebra_simps)

lemma bytes_abs_bytes: "bytes_abs (abs_bytes n) = int n"
proof (induction n rule: abs_bytes.induct)
  case (1 n)
  have "uint (word_of_nat n :: u8) = int n mod 256"
    by (simp add: unsigned_of_nat take_bit_eq_mod zmod_int)
  moreover have "int (n div 256) * 256 + int n mod 256 = int n"
    by (simp add: zdiv_int)
  ultimately show ?case
    using 1 by (cases "n = 0") (simp_all add: abs_bytes.simps [of n] abs_bytes.simps [of 0])
qed

lemma length_abs_bytes: "length (abs_bytes n) \<le> k \<longleftrightarrow> n < 256 ^ k"
proof (induction n arbitrary: k rule: abs_bytes.induct)
  case (1 n)
  show ?case
  proof (cases "n = 0")
    case False
    then show ?thesis
      using 1 [OF False, of "k - 1"] by (cases k) (simp_all add: abs_bytes.simps [of n] div_less_iff_less_mult mult.commute)
  qed (simp add: abs_bytes.simps)
qed

lemma abs_bytes_ne: "n \<noteq> 0 \<Longrightarrow> abs_bytes n \<noteq> []"
  by (simp add: abs_bytes.simps [of n])

lemma bytes_abs_top:
  assumes "buf \<noteq> []"
  shows "bytes_abs buf = bytes_abs (butlast buf) + 256 ^ (length buf - 1) * uint (last buf)"
  using bytes_abs_append [of "butlast buf" "[last buf]"] assms by simp

lemma bit_0x80: "bit (0x80 :: u8) n \<longleftrightarrow> n = 7"
proof -
  have "(0x80 :: u8) = 2 ^ 7" by simp
  then show ?thesis unfolding \<open>(0x80 :: u8) = 2 ^ 7\<close> bit_exp_iff by auto
qed

lemma sign_bytes_back:
  assumes "buf \<noteq> []"
  shows "sign_bytes neg buf \<noteq> []" "bit (last (sign_bytes neg buf)) 7 = neg"
    "bytes_abs (butlast (sign_bytes neg buf) @ [last (sign_bytes neg buf) AND NOT 0x80]) = bytes_abs buf"
proof -
  let ?b = "last buf"
  show "sign_bytes neg buf \<noteq> []" using assms by (auto simp: sign_bytes_def)
  show "bit (last (sign_bytes neg buf)) 7 = neg"
    using assms by (auto simp: sign_bytes_def bit_or_iff bit_0x80)
  have clear: "(0x80 :: u8) AND NOT 0x80 = 0" by simp
  have "(?b OR 0x80) AND NOT 0x80 = ?b" "?b AND NOT 0x80 = ?b" if "\<not> bit ?b 7"
    by (rule bit_word_eqI; use that in \<open>simp only: bit_and_iff bit_or_iff bit_not_iff bit_0x80; fastforce\<close>)+
  then show "bytes_abs (butlast (sign_bytes neg buf) @ [last (sign_bytes neg buf) AND NOT 0x80]) = bytes_abs buf"
    using assms by (auto simp: sign_bytes_def clear bytes_abs_append bytes_abs_top)
qed

lemma bytes_abs_nonneg: "0 \<le> bytes_abs bs"
  by (induction bs) simp_all

lemma top_bit_ge:
  assumes "bit (x :: u8) 7"
  shows "128 \<le> uint x"
proof (rule ccontr)
  assume "\<not> 128 \<le> uint x"
  then have "take_bit 7 (uint x) = uint x" by (simp add: take_bit_int_eq_self)
  then have "\<not> bit (uint x) 7" by (metis bit_take_bit_iff less_irrefl)
  with assms show False by (simp add: bit_unsigned_iff)
qed

lemma length_sign_bytes:
  assumes "n \<noteq> 0" "n < 2 ^ 63"
  shows "1 \<le> length (sign_bytes neg (abs_bytes n))" "length (sign_bytes neg (abs_bytes n)) \<le> 8"
proof -
  have ne: "abs_bytes n \<noteq> []" by (rule abs_bytes_ne [OF assms(1)])
  then show "1 \<le> length (sign_bytes neg (abs_bytes n))"
    using sign_bytes_back(1) [OF ne] by (cases "sign_bytes neg (abs_bytes n)") auto
  have 8: "length (abs_bytes n) \<le> 8" using assms(2) by (simp add: length_abs_bytes)
  have "\<not> bit (last (abs_bytes n)) 7" if "length (abs_bytes n) = 8"
  proof
    assume "bit (last (abs_bytes n)) 7"
    then have "128 \<le> uint (last (abs_bytes n))" by (rule top_bit_ge)
    then show False
      using assms(2) that bytes_abs_top [OF ne] bytes_abs_nonneg [of "butlast (abs_bytes n)"]
      by (simp add: bytes_abs_bytes)
  qed
  then show "length (sign_bytes neg (abs_bytes n)) \<le> 8"
    using 8 ne by (cases "length (abs_bytes n) = 8") (auto simp: sign_bytes_def)
qed

lemma oppushint_codec:
  "codec pack_oppushint_le unpack_oppushint_le (\<lambda>num. - (2 ^ 63) < num \<and> num < 2 ^ 63) 0"
proof
  fix v :: int and out lft n w
  assume v: "- (2 ^ 63) < v \<and> v < 2 ^ 63" and p: "pack_oppushint_le v (out, lft) = Some (n, w)"
  let ?goal = "\<exists>bs. w = (out @ bs, lft - n) \<and> length bs = n \<and> n \<le> lft \<and>
      (\<forall>rest. 0 \<le> length rest \<longrightarrow> unpack_oppushint_le (bs @ rest) = Some (n, v, rest))"
  have one: ?goal if "pack_char c (out, lft) = Some (n, w)" "\<And>rest. unpack_oppushint_le (c # rest) = Some (1, v, rest)" for c
    by (rule exI [of _ "[c]"]) (use that in \<open>auto simp: pack_char_def space_def put_def split: if_splits\<close>)
  consider "v = - 1" | "v = 0" | "1 \<le> v" "v \<le> 16" | "v < - 1 \<or> 16 < v" by linarith
  then show ?goal
  proof cases
    case 3
    then have "uint (word_of_int v :: u8) = v" by (simp add: unsigned_of_int take_bit_int_eq_self)
    then have "uint (0x50 + word_of_int v :: u8) = 0x50 + v" using 3 by (simp add: uint_word_ariths)
    then show ?thesis
      using p 3 by (intro one [of "0x50 + word_of_int v"])
        (auto simp: pack_oppushint_le_def unpack_oppushint_le_def word_less_def word_le_def word_uint_eq_iff)
  next
    case 4
    let ?s = "sign_bytes (v < 0) (abs_bytes (nat \<bar>v\<bar>))"
    have nz: "nat \<bar>v\<bar> \<noteq> 0" "nat \<bar>v\<bar> < 2 ^ 63" using 4 v by auto
    note len = length_sign_bytes [OF nz, of "v < 0"]
    note signed = sign_bytes_back [OF abs_bytes_ne [OF nz(1)], of "v < 0"]
    have p': "pack_oppush ?s (out, lft) = Some (n, w)" using p 4 v by (auto simp: pack_oppushint_le_def)
    from oppush.pack_unpack [where capacity = 8, OF len(2) p'] obtain bs where
      b: "w = (out @ bs, lft - n)" "length bs = n" "n \<le> lft"
        "\<And>rest. unpack_oppush 8 (bs @ rest) = Some (n, ?s, rest)" by auto
    have "put ?s (put [word_of_nat (length ?s)] (out, lft)) = w"
      using p' len by (auto simp: pack_oppush_def Let_def split: if_splits)
    then have bs: "bs = word_of_nat (length ?s) # ?s" using b(1) by (auto simp: put_def)
    have op: "unat (word_of_nat (length ?s) :: u8) = length ?s" by (rule unat_small) (use len in simp)
    then have "(word_of_nat (length ?s) :: u8) \<le> 8" "(word_of_nat (length ?s) :: u8) \<noteq> 0"
      using len by (auto simp: word_le_nat_alt unat_eq_zero)
    moreover from this have "\<not> 0x50 < (word_of_nat (length ?s) :: u8)" "(word_of_nat (length ?s) :: u8) \<noteq> 0x4f"
      by (auto simp: word_le_nat_alt word_less_nat_alt)
    ultimately have "unpack_oppushint_le (bs @ rest) = Some (n, v, rest)" for rest
      using b(4) [of rest] signed 4 by (auto simp: unpack_oppushint_le_def bs Let_def bytes_abs_bytes)
    then show ?thesis using b by blast
  next
    case 1
    then show ?thesis
      using p by (intro one [of "0x4f"]) (simp_all add: pack_oppushint_le_def unpack_oppushint_le_def)
  next
    case 2
    then show ?thesis
      using p by (intro one [of 0]) (simp_all add: pack_oppushint_le_def unpack_oppushint_le_def)
  qed
qed

interpretation oppushint: codec pack_oppushint_le unpack_oppushint_le "\<lambda>num. - (2 ^ 63) < num \<and> num < 2 ^ 63" 0
  by (rule oppushint_codec)

section \<open>Everything that is packed can be unpacked\<close>

text \<open>
  C39. Packing loses nothing: a sequence of variable-length integers, of strings or of script
  integers that fits into the buffer is read back in full from the bytes that were written, and
  the reader stops where the writer stopped.
\<close>

theorem pack_roundtrip:
  assumes "pack_seq pack_varint_le ns (out, lft) = Some w1"
    and "\<forall>s\<in>set ss. length s < 2 ^ 64" "pack_seq pack_varstr ss w1 = Some w2"
    and "\<forall>i\<in>set is. - (2 ^ 63) < i \<and> i < 2 ^ 63" "pack_seq pack_oppushint_le is w2 = Some w3"
  shows "\<exists>as bs cs. w3 = (out @ as @ bs @ cs, lft - length (as @ bs @ cs)) \<and>
    unpack_seq unpack_varint_le (length ns) (as @ bs @ cs @ rest) = Some (ns, bs @ cs @ rest) \<and>
    unpack_seq unpack_varstr (length ss) (bs @ cs @ rest) = Some (ss, cs @ rest) \<and>
    unpack_seq unpack_oppushint_le (length is) (cs @ rest) = Some (is, rest)"
proof -
  from varint.seq_roundtrip [OF _ assms(1)] obtain as where
    a: "w1 = (out @ as, lft - length as)" "\<And>rest. unpack_seq unpack_varint_le (length ns) (as @ rest) = Some (ns, rest)"
    by auto
  from varstr.seq_roundtrip [OF assms(2) assms(3) [unfolded a]] obtain bs where
    b: "w2 = ((out @ as) @ bs, lft - length as - length bs)"
      "\<And>rest. unpack_seq unpack_varstr (length ss) (bs @ rest) = Some (ss, rest)" by auto
  from oppushint.seq_roundtrip [OF assms(4) assms(5) [unfolded b]] obtain cs where
    c: "w3 = (((out @ as) @ bs) @ cs, lft - length as - length bs - length cs)"
      "\<And>rest. unpack_seq unpack_oppushint_le (length is) (cs @ rest) = Some (is, rest)" by auto
  show ?thesis
    by (rule exI [of _ as], rule exI [of _ bs], rule exI [of _ cs]) (use a b c in simp)
qed

theorem pack_roundtrip_witness:
  "\<exists>as bs cs. unpack_seq unpack_varint_le 2 (as @ bs @ cs) = Some ([7, 300], bs @ cs) \<and>
     unpack_seq unpack_varstr 1 (bs @ cs) = Some ([[1, 2]], cs) \<and> unpack_seq unpack_oppushint_le 3 cs = Some ([0, 9, - 300], [])"
proof -
  let ?w1 = "([7, 0xfd, 0x2c, 0x01], 60) :: writer"
  let ?w2 = "([7, 0xfd, 0x2c, 0x01, 2, 1, 2], 57) :: writer"
  let ?w3 = "([7, 0xfd, 0x2c, 0x01, 2, 1, 2, 0, 0x59, 2, 0x2c, 0x81], 52) :: writer"
  have 1: "pack_seq pack_varint_le [7, 300] ([], 64) = Some ?w1"
    by (simp add: pack_varint_le_def space_def put_def le_bytes_def upt_conv_Cons)
  have 2: "pack_seq pack_varstr [[1, 2]] ?w1 = Some ?w2" "\<forall>s\<in>set [[1, 2 :: u8]]. length s < 2 ^ 64"
    by (simp_all add: pack_varstr_def pack_varint_le_def space_def put_def)
  have 3: "pack_seq pack_oppushint_le [0, 9, - 300] ?w2 = Some ?w3" "\<forall>i\<in>set [0, 9, - 300 :: int]. - (2 ^ 63) < i \<and> i < 2 ^ 63"
    by (simp_all add: pack_oppushint_le_def pack_oppush_def pack_char_def abs_bytes.simps sign_bytes_def space_def put_def)
  show ?thesis
    using pack_roundtrip [OF 1 2(2,1) 3(2,1), of "[]"]
    by (simp only: append_Nil2 list.size numeral_2_eq_2 numeral_3_eq_3 add_0 add_Suc_right add_0_right One_nat_def) blast
qed

end
