(* ===== verification/Rpc.thy ===== *)
theory Rpc
  imports Crc32 Pack
begin

text \<open>
  \<^verbatim>\<open>utils/ut_rpc.c\<close> and the packet handling of \<^verbatim>\<open>utils/ut_rpc_svr.c\<close>: the
  framing of packets in a byte stream, and heartbeats. A packet is its header fields and the
  bytes its two pointers lead to. Times of heartbeats are milliseconds.
\<close>

section \<open>Packets\<close>

definition RPC_PKG_MAGIC :: u32 where "RPC_PKG_MAGIC = 0x70656562"
definition RPC_PKG_TYPE_REPLY :: u16 where "RPC_PKG_TYPE_REPLY = 1"
definition RPC_PKG_HEAD_SIZE :: nat where "RPC_PKG_HEAD_SIZE = 36"
definition RPC_PKG_MAX_BODY_SIZE :: u32 where "RPC_PKG_MAX_BODY_SIZE = 2147418060"

record rpc_pkg =
  magic :: u32
  command :: u32
  pkg_type :: u16
  pkg_result :: u32
  pkg_crc32 :: u32
  pkg_sequence :: u32
  req_id :: u64
  body_size :: u32
  ext_size :: u16
  pkg_ext :: "u8 list"
  pkg_body :: "u8 list"

text \<open>The 36 bytes of the header, in the order of the packed struct.\<close>

definition head_bytes :: "rpc_pkg \<Rightarrow> u8 list" where
  "head_bytes p =
     le_bytes 4 (magic p) @ le_bytes 4 (command p) @ le_bytes 2 (pkg_type p) @ le_bytes 4 (pkg_result p) @
     le_bytes 4 (pkg_crc32 p) @ le_bytes 4 (pkg_sequence p) @ le_bytes 8 (req_id p) @ le_bytes 4 (body_size p) @
     le_bytes 2 (ext_size p)"

definition field :: "nat \<Rightarrow> nat \<Rightarrow> u8 list \<Rightarrow> 'a::len word" where
  "field k n data = of_le (take n (drop k data))"

definition read_head :: "u8 list \<Rightarrow> rpc_pkg" where
  "read_head data =
     \<lparr>magic = field 0 4 data, command = field 4 4 data, pkg_type = field 8 2 data, pkg_result = field 10 4 data,
      pkg_crc32 = field 14 4 data, pkg_sequence = field 18 4 data, req_id = field 22 8 data,
      body_size = field 30 4 data, ext_size = field 34 2 data, pkg_ext = [], pkg_body = []\<rparr>"

definition rpc_pack :: "rpc_pkg \<Rightarrow> u8 list option" where
  "rpc_pack p =
     (if body_size p > RPC_PKG_MAX_BODY_SIZE then None
      else
        let rest = take (unat (ext_size p)) (pkg_ext p) @ take (unat (body_size p)) (pkg_body p);
            p = p\<lparr>magic := RPC_PKG_MAGIC, pkg_crc32 := 0\<rparr>;
            crc = generate_crc32c (head_bytes p @ rest)
        in Some (head_bytes (p\<lparr>pkg_crc32 := crc\<rparr>) @ rest))"

text \<open>The size of a packet on the wire, computed in 32 bits as the decoder does.\<close>

definition frame_size :: "rpc_pkg \<Rightarrow> u32" where
  "frame_size p = word_of_nat RPC_PKG_HEAD_SIZE + ucast (ext_size p) + body_size p"

text \<open>
  \<open>data\<close> are the \<^verbatim>\<open>max\<close> bytes received so far. The return value is negative for a
  broken stream, 0 when more bytes are needed, and otherwise the size of the first packet, whose
  header the second component holds.
\<close>

definition rpc_decode :: "u8 list \<Rightarrow> int \<times> rpc_pkg option" where
  "rpc_decode data =
     (if length data < RPC_PKG_HEAD_SIZE then (0, None)
      else
        let p = read_head data;
            size = frame_size p
        in if magic p \<noteq> RPC_PKG_MAGIC then (- 1, None)
           else if length data < unat size then (0, None)
           else if pkg_crc32 p \<noteq> generate_crc32c (take (unat size) (take 14 data @ replicate 4 0 @ drop 18 data))
           then (- 3, None)
           else (sint size, Some p))"

text \<open>
  What the packet handler sees: \<^verbatim>\<open>on_recv_pkg\<close> points \<^verbatim>\<open>ext\<close> and
  \<^verbatim>\<open>body\<close> behind the header.
\<close>

definition open_pkg :: "u8 list \<Rightarrow> rpc_pkg" where
  "open_pkg data =
     (let p = read_head data; rest = drop RPC_PKG_HEAD_SIZE data
      in p\<lparr>pkg_ext := take (unat (ext_size p)) rest,
           pkg_body := take (unat (body_size p)) (drop (unat (ext_size p)) rest)\<rparr>)"

section \<open>Heartbeats\<close>

definition RPC_CMD_HEARTBEAT :: u32 where "RPC_CMD_HEARTBEAT = 0"
definition RPC_HEARTBEAT_TIMEOUT_DEFAULT :: nat where "RPC_HEARTBEAT_TIMEOUT_DEFAULT = 3000"
definition RPC_HEARTBEAT_TIMEOUT_MIN :: nat where "RPC_HEARTBEAT_TIMEOUT_MIN = 2000"
definition RPC_HEARTBEAT_TIMEOUT_MAX :: nat where "RPC_HEARTBEAT_TIMEOUT_MAX = 600000"
definition RPC_HEARTBEAT_TYPE_TIMEOUT :: u16 where "RPC_HEARTBEAT_TYPE_TIMEOUT = 1"

record clt_info =
  last_heartbeat :: int
  heartbeat_timeout :: nat

definition clamp_timeout :: "nat \<Rightarrow> nat" where
  "clamp_timeout timeout =
     (if timeout > RPC_HEARTBEAT_TIMEOUT_MAX then RPC_HEARTBEAT_TIMEOUT_MAX
      else if timeout < RPC_HEARTBEAT_TIMEOUT_MIN then RPC_HEARTBEAT_TIMEOUT_MIN else timeout)"

text \<open>The loop over the options of a heartbeat, with the number of the line it fails at.\<close>

function heartbeat_options :: "u8 list \<Rightarrow> clt_info \<Rightarrow> int \<times> clt_info" where
  "heartbeat_options p info =
     (if p = [] then (0, info)
      else (case unpack_uint16_le p of
          None \<Rightarrow> (- 34, info)
        | Some (_, type, p1) \<Rightarrow>
            (case unpack_uint16_le p1 of
               None \<Rightarrow> (- 35, info)
             | Some (_, len, p2) \<Rightarrow>
                 if length p2 < unat len then (- 37, info)
                 else if type = RPC_HEARTBEAT_TYPE_TIMEOUT \<and> len \<noteq> 4 then (- 42, info)
                 else heartbeat_options (drop (unat len) p2)
                   (if type = RPC_HEARTBEAT_TYPE_TIMEOUT
                    then info\<lparr>heartbeat_timeout := clamp_timeout (unat (of_le (take 4 p2) :: u32))\<rparr>
                    else info))))"
  by auto
termination
  by (relation "measure (\<lambda>(p, info). length p)") (auto simp: unpack_uint16_le_def split: if_splits)

declare heartbeat_options.simps [simp del]

text \<open>The reply of \<^verbatim>\<open>on_heartbeat\<close>, sent when the return value is 0.\<close>

definition on_heartbeat :: "int \<Rightarrow> rpc_pkg \<Rightarrow> clt_info \<Rightarrow> int \<times> clt_info \<times> u8 list option" where
  "on_heartbeat now p info =
     (case heartbeat_options (pkg_body p) (info\<lparr>last_heartbeat := now\<rparr>) of
        (ret, info) \<Rightarrow>
          (ret, info, if ret < 0 then None
                      else rpc_pack (p\<lparr>pkg_type := RPC_PKG_TYPE_REPLY, body_size := 0, pkg_body := []\<rparr>)))"

text \<open>
  The packet handler of the server: a heartbeat is answered here, and a broken one closes the
  session; any other packet goes to the service.
\<close>

datatype recv = HeartbeatDone "u8 list option" | CloseSession | Dispatch rpc_pkg

definition rpc_on_recv_pkg :: "int \<Rightarrow> u8 list \<Rightarrow> clt_info \<Rightarrow> clt_info \<times> recv" where
  "rpc_on_recv_pkg now data info =
     (let p = open_pkg data in
      if command p = RPC_CMD_HEARTBEAT
      then (case on_heartbeat now p info of
              (ret, info, reply) \<Rightarrow> (info, if ret < 0 then CloseSession else HeartbeatDone reply))
      else (info, Dispatch p))"

text \<open>Whether \<^verbatim>\<open>on_timer\<close> closes the session; \<open>now\<close> and the last heartbeat in milliseconds.\<close>

definition heartbeat_expired :: "int \<Rightarrow> clt_info \<Rightarrow> bool" where
  "heartbeat_expired now info = (now - last_heartbeat info > int (heartbeat_timeout info))"

text \<open>The heartbeat a client sends: \<^verbatim>\<open>send_heartbeat\<close> of \<^verbatim>\<open>utils/ut_rpc_clt.c\<close>.\<close>

definition heartbeat_body :: "nat \<Rightarrow> u8 list" where
  "heartbeat_body timeout =
     (case Option.bind (pack_uint16_le RPC_HEARTBEAT_TYPE_TIMEOUT ([], 100)) (\<lambda>(_, w).
           Option.bind (pack_uint16_le 4 w) (\<lambda>(_, w). pack_uint32_le (word_of_nat timeout) w)) of
        None \<Rightarrow> [] | Some (_, out, _) \<Rightarrow> out)"

definition heartbeat_pkg :: "nat \<Rightarrow> rpc_pkg" where
  "heartbeat_pkg timeout =
     \<lparr>magic = 0, command = RPC_CMD_HEARTBEAT, pkg_type = 0, pkg_result = 0, pkg_crc32 = 0, pkg_sequence = 0,
      req_id = 0, body_size = word_of_nat (length (heartbeat_body timeout)), ext_size = 0, pkg_ext = [],
      pkg_body = heartbeat_body timeout\<rparr>"

definition send_heartbeat :: "nat \<Rightarrow> u8 list option" where
  "send_heartbeat timeout = rpc_pack (heartbeat_pkg timeout)"

section \<open>The header\<close>

lemma length_head_bytes [simp]: "length (head_bytes p) = 36"
  by (simp add: head_bytes_def)

lemma field_here: "length bs = n \<Longrightarrow> field 0 n (bs @ rest) = of_le bs"
  by (simp add: field_def)

lemma field_skip: "length bs \<le> k \<Longrightarrow> field k n (bs @ rest) = field (k - length bs) n rest"
  by (simp add: field_def)

lemma read_head_bytes: "read_head (head_bytes p @ rest) = p\<lparr>pkg_ext := [], pkg_body := []\<rparr>"
  by (cases p) (simp add: read_head_def head_bytes_def field_skip field_here of_le_bytes)

lemma head_bytes_crc:
  "take 14 (head_bytes p @ rest) @ replicate 4 0 @ drop 18 (head_bytes p @ rest) = head_bytes (p\<lparr>pkg_crc32 := 0\<rparr>) @ rest"
proof -
  have "le_bytes 4 (0 :: u32) = replicate 4 (0 :: u8)"
    by (simp add: le_bytes_def upt_conv_Cons numeral_eq_Suc)
  then show ?thesis by (simp add: head_bytes_def)
qed

lemma rpc_decode_frame:
  assumes "magic p = RPC_PKG_MAGIC" "36 \<le> unat (frame_size p)" "unat (frame_size p) \<le> 36 + length rest"
  shows "rpc_decode (head_bytes p @ rest) =
    (if pkg_crc32 p = generate_crc32c (head_bytes (p\<lparr>pkg_crc32 := 0\<rparr>) @ take (unat (frame_size p) - 36) rest)
     then (sint (frame_size p), Some (p\<lparr>pkg_ext := [], pkg_body := []\<rparr>)) else (- 3, None))"
proof -
  have crc: "take (unat (frame_size p)) (take 14 (head_bytes p @ rest) @ replicate 4 0 @ drop 18 (head_bytes p @ rest)) =
      head_bytes (p\<lparr>pkg_crc32 := 0\<rparr>) @ take (unat (frame_size p) - 36) rest"
    unfolding head_bytes_crc using assms(2) by simp
  have "frame_size (p\<lparr>pkg_ext := [], pkg_body := []\<rparr>) = frame_size p" by (simp add: frame_size_def)
  with assms show ?thesis
    unfolding rpc_decode_def Let_def read_head_bytes
    by (simp add: RPC_PKG_HEAD_SIZE_def crc del: take_append drop_append append_assoc)
qed

section \<open>Frames\<close>

definition pkg_ok :: "rpc_pkg \<Rightarrow> bool" where
  "pkg_ok p \<longleftrightarrow> length (pkg_ext p) = unat (ext_size p) \<and> length (pkg_body p) = unat (body_size p)"

text \<open>The packet as it is sent, checksum included.\<close>

definition sealed :: "rpc_pkg \<Rightarrow> rpc_pkg" where
  "sealed p = p\<lparr>magic := RPC_PKG_MAGIC, pkg_crc32 :=
     generate_crc32c (head_bytes (p\<lparr>magic := RPC_PKG_MAGIC, pkg_crc32 := 0\<rparr>) @ pkg_ext p @ pkg_body p)\<rparr>"

lemma sealed_simps [simp]:
  "magic (sealed p) = RPC_PKG_MAGIC" "ext_size (sealed p) = ext_size p" "body_size (sealed p) = body_size p"
  "pkg_ext (sealed p) = pkg_ext p" "pkg_body (sealed p) = pkg_body p" "frame_size (sealed p) = frame_size p"
  "command (sealed p) = command p"
  by (simp_all add: sealed_def frame_size_def)

lemma rpc_packD:
  assumes "pkg_ok p" "rpc_pack p = Some bs"
  shows "bs = head_bytes (sealed p) @ pkg_ext p @ pkg_body p" "unat (frame_size p) = length bs" "length bs < 2 ^ 31"
proof -
  have body: "unat (body_size p) \<le> 2147418060"
    using assms(2) by (auto simp: rpc_pack_def RPC_PKG_MAX_BODY_SIZE_def Let_def not_less word_le_nat_alt split: if_splits)
  have "unat (ext_size p) < 2 ^ LENGTH(16)" by (rule unsigned_less)
  then have ext: "unat (ext_size p) < 65536" by simp
  show bs: "bs = head_bytes (sealed p) @ pkg_ext p @ pkg_body p"
    using assms by (auto simp: rpc_pack_def pkg_ok_def sealed_def Let_def split: if_splits)
  have len: "length bs = 36 + unat (ext_size p) + unat (body_size p)"
    using assms(1) bs by (simp add: pkg_ok_def)
  then show "length bs < 2 ^ 31" using body ext by simp
  have "frame_size p = word_of_nat (length bs)"
    by (simp add: frame_size_def RPC_PKG_HEAD_SIZE_def len)
  moreover have "length bs < 2 ^ LENGTH(32)" using len body ext by simp
  ultimately show "unat (frame_size p) = length bs" by (simp only: unat_small)
qed

lemma sint_small:
  assumes "unat (x :: u32) < 2 ^ 31"
  shows "sint x = int (unat x)"
proof -
  have "int (unat x) < int (2 ^ 31)" using assms by (simp only: of_nat_less_iff)
  then have "uint x < 2 ^ 31" by simp
  moreover have "0 \<le> uint x" by (rule unsigned_greater_eq)
  ultimately have "signed_take_bit 31 (uint x) = uint x" by (intro signed_take_bit_int_eq_self) linarith+
  then show ?thesis by (simp add: sint_uint)
qed

lemma rpc_decode_sealed:
  assumes "pkg_ok p" "rpc_pack p = Some bs"
  shows "rpc_decode (bs @ rest) = (int (length bs), Some (sealed p\<lparr>pkg_ext := [], pkg_body := []\<rparr>))"
proof -
  note d = rpc_packD [OF assms]
  have "take (unat (frame_size p) - 36) ((pkg_ext p @ pkg_body p) @ rest) = pkg_ext p @ pkg_body p"
    using d(1,2) by simp
  moreover have "pkg_crc32 (sealed p) = generate_crc32c (head_bytes (sealed p\<lparr>pkg_crc32 := 0\<rparr>) @ pkg_ext p @ pkg_body p)"
    by (simp add: sealed_def)
  ultimately show ?thesis
    using rpc_decode_frame [of "sealed p" "(pkg_ext p @ pkg_body p) @ rest"] d sint_small [of "frame_size p"]
    by simp
qed

lemma open_sealed:
  assumes "pkg_ok p" "rpc_pack p = Some bs"
  shows "open_pkg (bs @ rest) = sealed p"
  using assms(1) unfolding rpc_packD(1) [OF assms] open_pkg_def append_assoc Let_def read_head_bytes
  by (simp add: RPC_PKG_HEAD_SIZE_def pkg_ok_def)

lemma rpc_decode_prefix:
  assumes "pkg_ok p" "rpc_pack p = Some bs" "k < length bs"
  shows "rpc_decode (take k bs) = (0, None)"
proof (cases "k < 36")
  case False
  note d = rpc_packD [OF assms(1,2)]
  have t: "take k bs = head_bytes (sealed p) @ take (k - 36) (pkg_ext p @ pkg_body p)"
    using False d(1) by simp
  have "frame_size (sealed p\<lparr>pkg_ext := [], pkg_body := []\<rparr>) = frame_size p"
    by (simp add: frame_size_def)
  moreover have "read_head (take k bs) = sealed p\<lparr>pkg_ext := [], pkg_body := []\<rparr>"
    unfolding t by (rule read_head_bytes)
  ultimately show ?thesis
    using False assms(3) d(2) by (simp add: rpc_decode_def RPC_PKG_HEAD_SIZE_def)
qed (simp add: rpc_decode_def RPC_PKG_HEAD_SIZE_def min_def)

text \<open>
  C35. A packet that is sent is received: from the bytes of \<^verbatim>\<open>rpc_pack\<close>, whatever
  follows them, the decoder takes exactly those bytes, and the handler sees the packet with its
  extension, body and every header field; from a proper part of them it asks for more.
\<close>

theorem rpc_roundtrip:
  assumes "pkg_ok p" and "rpc_pack p = Some bs"
  shows "fst (rpc_decode (bs @ rest)) = int (length bs) \<and> open_pkg (bs @ rest) = sealed p \<and>
    (\<forall>k. k < length bs \<longrightarrow> rpc_decode (take k bs) = (0, None))"
  using assms by (simp add: rpc_decode_sealed open_sealed rpc_decode_prefix)

theorem rpc_roundtrip_witness:
  "\<exists>bs. send_heartbeat 5000 = Some bs \<and> open_pkg bs = sealed (heartbeat_pkg 5000)"
proof -
  have b: "heartbeat_body 5000 = [1, 0, 4, 0, 0x88, 0x13, 0, 0]"
    by (simp add: heartbeat_body_def pack_uint16_le_def pack_uint32_le_def space_def put_def le_bytes_def upt_conv_Cons
        RPC_HEARTBEAT_TYPE_TIMEOUT_def)
  then have ok: "pkg_ok (heartbeat_pkg 5000)" by (simp add: pkg_ok_def heartbeat_pkg_def)
  have "\<exists>bs. rpc_pack (heartbeat_pkg 5000) = Some bs"
    by (simp add: rpc_pack_def heartbeat_pkg_def b RPC_PKG_MAX_BODY_SIZE_def Let_def)
  then show ?thesis using rpc_roundtrip [OF ok, of _ "[]"] by (auto simp: send_heartbeat_def)
qed

text \<open>
  C36. A packet whose extension or body was damaged in up to four consecutive bytes is never
  delivered: the decoder reports a checksum error.
\<close>

theorem rpc_decode_rejects_damage:
  assumes "pkg_ok p" and "rpc_pack p = Some (xs @ ds @ ys)" and "36 \<le> length xs"
    and "length ds = length ds'" and "length ds \<le> 4" and "ds \<noteq> ds'"
  shows "rpc_decode (xs @ ds' @ ys @ rest) = (- 3, None)"
proof -
  note d = rpc_packD [OF assms(1,2)]
  define zs where "zs = drop 36 xs"
  have split: "xs = head_bytes (sealed p) @ zs" "pkg_ext p @ pkg_body p = zs @ ds @ ys"
  proof -
    have "take 36 (xs @ ds @ ys) = head_bytes (sealed p)" "drop 36 (xs @ ds @ ys) = pkg_ext p @ pkg_body p"
      unfolding d(1) by simp_all
    then show "xs = head_bytes (sealed p) @ zs" "pkg_ext p @ pkg_body p = zs @ ds @ ys"
      using assms(3) append_take_drop_id [of 36 xs] by (simp_all add: zs_def)
  qed
  let ?h = "head_bytes (sealed p\<lparr>pkg_crc32 := 0\<rparr>)"
  have "pkg_crc32 (sealed p) = generate_crc32c ((?h @ zs) @ ds @ ys)"
    by (simp add: sealed_def split(2))
  also have "\<dots> \<noteq> generate_crc32c ((?h @ zs) @ ds' @ ys)"
    by (rule crc32_bursts [OF assms(4-6)])
  finally have crc: "pkg_crc32 (sealed p) \<noteq> generate_crc32c (?h @ zs @ ds' @ ys)" by simp
  have "unat (frame_size p) = 36 + length (zs @ ds' @ ys)"
    using d(2) split(1) assms(4) by simp
  then show ?thesis
    using rpc_decode_frame [of "sealed p" "zs @ ds' @ ys @ rest"] crc split(1) by simp
qed

theorem rpc_decode_rejects_damage_witness:
  "\<exists>xs ys. send_heartbeat 5000 = Some (xs @ [1] @ ys) \<and> rpc_decode (xs @ [2] @ ys) = (- 3, None)"
proof -
  have b: "heartbeat_body 5000 = [1, 0, 4, 0, 0x88, 0x13, 0, 0]"
    by (simp add: heartbeat_body_def pack_uint16_le_def pack_uint32_le_def space_def put_def le_bytes_def upt_conv_Cons
        RPC_HEARTBEAT_TYPE_TIMEOUT_def)
  then have ok: "pkg_ok (heartbeat_pkg 5000)" by (simp add: pkg_ok_def heartbeat_pkg_def)
  have "\<exists>xs. rpc_pack (heartbeat_pkg 5000) = Some (xs @ [1] @ [0, 4, 0, 0x88, 0x13, 0, 0]) \<and> 36 \<le> length xs"
    by (simp add: rpc_pack_def heartbeat_pkg_def b RPC_PKG_MAX_BODY_SIZE_def Let_def)
  then obtain xs where "rpc_pack (heartbeat_pkg 5000) = Some (xs @ [1] @ [0, 4, 0, 0x88, 0x13, 0, 0])" "36 \<le> length xs"
    by blast
  from this(1) rpc_decode_rejects_damage [OF ok this, of "[2]" "[]"] show ?thesis
    by (auto simp: send_heartbeat_def)
qed

text \<open>
  The decoder can be made to accept a packet that is not there: because it adds the sizes in
  32 bits and has no upper limit on the body, a frame of 36 bytes is accepted whose header
  announces a body of nearly 4 GiB, for any command and sequence number.
\<close>

theorem rpc_decode_wraps:
  "\<exists>data h. length data = 36 \<and> rpc_decode data = (36, Some h) \<and> body_size h = 0xFFFFFFFF \<and>
     command h = cmd \<and> pkg_sequence h = seq"
proof -
  define p0 where "p0 = \<lparr>magic = RPC_PKG_MAGIC, command = cmd, pkg_type = 0, pkg_result = 0, pkg_crc32 = 0,
    pkg_sequence = seq, req_id = 0, body_size = 0xFFFFFFFF, ext_size = 1, pkg_ext = [], pkg_body = []\<rparr>"
  define p where "p = p0\<lparr>pkg_crc32 := generate_crc32c (head_bytes p0)\<rparr>"
  have f: "frame_size p = 36" by (simp add: p_def p0_def frame_size_def RPC_PKG_HEAD_SIZE_def)
  have "p\<lparr>pkg_crc32 := 0\<rparr> = p0" "magic p = RPC_PKG_MAGIC" "pkg_crc32 p = generate_crc32c (head_bytes p0)"
    by (simp_all add: p_def p0_def)
  then have "rpc_decode (head_bytes p @ []) = (36, Some (p\<lparr>pkg_ext := [], pkg_body := []\<rparr>))"
    by (subst rpc_decode_frame) (simp_all add: f)
  then show ?thesis
    by (intro exI [of _ "head_bytes p"] exI [of _ "p\<lparr>pkg_ext := [], pkg_body := []\<rparr>"]) (simp add: p_def p0_def)
qed

section \<open>Heartbeats\<close>

lemma heartbeat_body_bytes:
  "heartbeat_body timeout = le_bytes 2 RPC_HEARTBEAT_TYPE_TIMEOUT @ le_bytes 2 (4 :: u16) @ le_bytes 4 (word_of_nat timeout :: u32)"
  by (simp add: heartbeat_body_def pack_uint16_le_def pack_uint32_le_def space_def put_def)

lemma heartbeat_options_timeout:
  assumes "timeout < 2 ^ 32"
  shows "heartbeat_options (heartbeat_body timeout) info = (0, info\<lparr>heartbeat_timeout := clamp_timeout timeout\<rparr>)"
proof -
  let ?v = "le_bytes 4 (word_of_nat timeout :: u32)"
  have 1: "unpack_uint16_le (heartbeat_body timeout) = Some (2, RPC_HEARTBEAT_TYPE_TIMEOUT, le_bytes 2 (4 :: u16) @ ?v)"
    by (simp add: heartbeat_body_bytes unpack_uint16_le_def of_le_bytes)
  have 2: "unpack_uint16_le (le_bytes 2 (4 :: u16) @ ?v) = Some (2, 4, ?v)"
    by (simp add: unpack_uint16_le_def of_le_bytes)
  have 3: "heartbeat_body timeout \<noteq> []" by (simp add: heartbeat_body_bytes le_bytes_def)
  have 4: "unat (word_of_nat timeout :: u32) = timeout" by (rule unat_small) (use assms in simp)
  show ?thesis
    by (subst heartbeat_options.simps, simp add: 1 2 3 4 of_le_bytes) (simp add: heartbeat_options.simps)
qed

text \<open>
  A client's heartbeat arrives: the server takes it as a sign of life, adopts the client's
  timeout within the limits of 2 seconds and 10 minutes, and answers without closing the session.
\<close>

theorem heartbeat_arrives:
  assumes "send_heartbeat timeout = Some bs" and "timeout < 2 ^ 32"
  shows "\<exists>reply. rpc_on_recv_pkg now bs info =
    (\<lparr>last_heartbeat = now, heartbeat_timeout = clamp_timeout timeout\<rparr>, HeartbeatDone (Some reply))"
proof -
  have ok: "pkg_ok (heartbeat_pkg timeout)"
    by (simp add: pkg_ok_def heartbeat_pkg_def heartbeat_body_bytes)
  from open_sealed [OF this, of bs "[]"] assms(1) have "open_pkg bs = sealed (heartbeat_pkg timeout)"
    by (simp add: send_heartbeat_def)
  moreover have "command (sealed (heartbeat_pkg timeout)) = RPC_CMD_HEARTBEAT"
    "pkg_body (sealed (heartbeat_pkg timeout)) = heartbeat_body timeout" by (simp_all add: heartbeat_pkg_def)
  moreover have "\<exists>reply. rpc_pack (sealed (heartbeat_pkg timeout)\<lparr>pkg_type := RPC_PKG_TYPE_REPLY, body_size := 0, pkg_body := []\<rparr>) = Some reply"
    by (simp add: rpc_pack_def RPC_PKG_MAX_BODY_SIZE_def Let_def)
  ultimately show ?thesis
    using heartbeat_options_timeout [OF assms(2), of "info\<lparr>last_heartbeat := now\<rparr>"]
    by (cases info) (auto simp: rpc_on_recv_pkg_def on_heartbeat_def Let_def)
qed

theorem heartbeat_arrives_witness:
  "\<exists>bs reply. send_heartbeat 1000 = Some bs \<and>
     rpc_on_recv_pkg 7 bs \<lparr>last_heartbeat = 0, heartbeat_timeout = 3000\<rparr> =
       (\<lparr>last_heartbeat = 7, heartbeat_timeout = 2000\<rparr>, HeartbeatDone (Some reply))"
proof -
  have "\<exists>bs. send_heartbeat 1000 = Some bs"
    by (simp add: send_heartbeat_def rpc_pack_def heartbeat_pkg_def heartbeat_body_bytes RPC_PKG_MAX_BODY_SIZE_def Let_def)
  then obtain bs where "send_heartbeat 1000 = Some bs" by blast
  with heartbeat_arrives [OF this, of 7 "\<lparr>last_heartbeat = 0, heartbeat_timeout = 3000\<rparr>"] show ?thesis
    by (auto simp: clamp_timeout_def RPC_HEARTBEAT_TIMEOUT_MAX_def RPC_HEARTBEAT_TIMEOUT_MIN_def)
qed

end
