(* ===== verification/Server.thy ===== *)
theory Server
  imports Update Operlog Depth Matching Rpc "HOL-Library.Monad_Syntax"
begin

text \<open>
  \<^verbatim>\<open>matchengine/me_server.c\<close>: the commands of the engine. A handler checks its JSON
  parameters, works on the state and sends at most one reply; its model returns the new state and
  the reply packet, \<open>None\<close> when the reply could not be printed and nothing is sent. A handler
  whose call never returns is \<open>None\<close>. The state is everything the server process keeps. The
  setting \<open>st_walk\<close> gives the order in which the iterator of the balance dictionary yields
  its entries.
\<close>

section \<open>State and settings\<close>

record 'd settings =
  st_assets :: "(string \<times> asset_type) list"
  st_markets :: "'d market_conf list"
  st_debug :: bool
  st_cache_timeout :: int
  st_walk :: "(balance_key \<rightharpoonup> 'd) \<Rightarrow> (balance_key \<times> 'd) list"

record ('d, 'j) server =
  sv_engine :: "('d, 'j) engine"
  sv_markets :: "string \<rightharpoonup> 'd market"
  sv_updates :: "update_key \<rightharpoonup> int"
  sv_oplog :: operlog
  sv_cache :: "string \<rightharpoonup> int \<times> 'j"

definition SOURCE_MAX_LEN :: nat where "SOURCE_MAX_LEN = 31"
definition ORDER_BOOK_MAX_LEN :: u64 where "ORDER_BOOK_MAX_LEN = 101"
definition ORDER_LIST_MAX_LEN :: u64 where "ORDER_LIST_MAX_LEN = 101"

section \<open>Replies\<close>

definition reply_json :: "('d, 'j) env \<Rightarrow> 'd settings \<Rightarrow> rpc_pkg \<Rightarrow> 'j \<Rightarrow> rpc_pkg option" where
  "reply_json E st pkg doc =
     map_option (\<lambda>message_data. pkg\<lparr>pkg_type := RPC_PKG_TYPE_REPLY, pkg_body := text_bytes message_data,
         body_size := word_of_nat (length message_data)\<rparr>)
       (json_dumps (json E) doc (if st_debug st then 4 else 0))"

definition reply_error :: "('d, 'j) env \<Rightarrow> 'd settings \<Rightarrow> rpc_pkg \<Rightarrow> int \<Rightarrow> string \<Rightarrow> rpc_pkg option" where
  "reply_error E st pkg code message =
     (let J = json E;
          error = json_object J [(''code'', json_integer J code), (''message'', json_string J message)]
      in reply_json E st pkg (json_object J
           [(''error'', error), (''result'', json_null J), (''id'', json_integer J (sint (req_id pkg)))]))"

definition reply_error_invalid_argument :: "('d, 'j) env \<Rightarrow> 'd settings \<Rightarrow> rpc_pkg \<Rightarrow> rpc_pkg option" where
  "reply_error_invalid_argument E st pkg = reply_error E st pkg 1 ''invalid argument''"

definition reply_error_internal_error :: "('d, 'j) env \<Rightarrow> 'd settings \<Rightarrow> rpc_pkg \<Rightarrow> rpc_pkg option" where
  "reply_error_internal_error E st pkg = reply_error E st pkg 2 ''internal error''"

definition reply_error_service_unavailable :: "('d, 'j) env \<Rightarrow> 'd settings \<Rightarrow> rpc_pkg \<Rightarrow> rpc_pkg option" where
  "reply_error_service_unavailable E st pkg = reply_error E st pkg 3 ''service unavailable''"

definition reply_result :: "('d, 'j) env \<Rightarrow> 'd settings \<Rightarrow> rpc_pkg \<Rightarrow> 'j \<Rightarrow> rpc_pkg option" where
  "reply_result E st pkg result =
     (let J = json E in reply_json E st pkg (json_object J
        [(''error'', json_null J), (''result'', result), (''id'', json_integer J (sint (req_id pkg)))]))"

definition reply_success :: "('d, 'j) env \<Rightarrow> 'd settings \<Rightarrow> rpc_pkg \<Rightarrow> rpc_pkg option" where
  "reply_success E st pkg =
     reply_result E st pkg (json_object (json E) [(''status'', json_string (json E) ''success'')])"

section \<open>Parameters\<close>

text \<open>
  Reading a parameter: \<open>None\<close> when it is missing or of another type. The handlers answer every
  such case with the same error, before they change anything.
\<close>

definition int_param :: "('d, 'j) env \<Rightarrow> 'j \<Rightarrow> nat \<Rightarrow> int option" where
  "int_param E params i =
     (let x = json_array_get (json E) params i
      in if json_is_integer (json E) x then Some (json_integer_value (json E) x) else None)"

definition str_param :: "('d, 'j) env \<Rightarrow> 'j \<Rightarrow> nat \<Rightarrow> string option" where
  "str_param E params i =
     (let x = json_array_get (json E) params i
      in if json_is_string (json E) x then json_string_value (json E) x else None)"

definition check :: "bool \<Rightarrow> unit option" where
  "check b = (if b then Some () else None)"

text \<open>An amount or price: a decimal above zero. A fee rate: a decimal from 0 to below 1.\<close>

definition positive_param :: "('d, 'j) env \<Rightarrow> 'j \<Rightarrow> nat \<Rightarrow> int \<Rightarrow> 'd option" where
  "positive_param E params i prec = do {
     s \<leftarrow> str_param E params i;
     x \<leftarrow> decimal (mpd E) s prec;
     check (\<not> mpd_cmp (mpd E) x (mpd_zero (mpd E)) \<le> 0);
     Some x }"

definition rate_param :: "('d, 'j) env \<Rightarrow> 'j \<Rightarrow> nat \<Rightarrow> int \<Rightarrow> 'd option" where
  "rate_param E params i prec = do {
     s \<leftarrow> str_param E params i;
     x \<leftarrow> decimal (mpd E) s prec;
     check (\<not> (mpd_cmp (mpd E) x (mpd_zero (mpd E)) < 0 \<or> mpd_cmp (mpd E) x (mpd_one (mpd E)) \<ge> 0));
     Some x }"

definition market_param :: "('d, 'j) env \<Rightarrow> (string \<rightharpoonup> 'd market) \<Rightarrow> 'j \<Rightarrow> nat \<Rightarrow> (string \<times> 'd market) option" where
  "market_param E D params i = do {
     name \<leftarrow> str_param E params i;
     m \<leftarrow> get_market D name;
     Some (name, m) }"

definition side_param :: "('d, 'j) env \<Rightarrow> 'j \<Rightarrow> nat \<Rightarrow> u32 option" where
  "side_param E params i = do {
     n \<leftarrow> int_param E params i;
     let side = word_of_int n;
     check (side = MARKET_ORDER_SIDE_ASK \<or> side = MARKET_ORDER_SIDE_BID);
     Some side }"

section \<open>Commands on balances\<close>

definition balance_show :: "('d, 'j) env \<Rightarrow> 'd ledger \<Rightarrow> u32 \<Rightarrow> u32 \<Rightarrow> string \<Rightarrow> 'j" where
  "balance_show E L user_id type asset =
     (case balance_get L user_id type asset of
        None \<Rightarrow> json_string (json E) ''0''
      | Some x \<Rightarrow>
          json_mpd E (if asset_prec L asset \<noteq> asset_prec_show L asset
                      then mpd_rescale (mpd E) x (- asset_prec_show L asset) else x))"

definition balance_unit :: "('d, 'j) env \<Rightarrow> 'd ledger \<Rightarrow> u32 \<Rightarrow> string \<Rightarrow> 'j" where
  "balance_unit E L user_id asset = json_object (json E)
     [(''available'', balance_show E L user_id BALANCE_TYPE_AVAILABLE asset),
      (''freeze'', balance_show E L user_id BALANCE_TYPE_FREEZE asset)]"

text \<open>The names of assets listed from parameter \<open>i\<close> on, each of which has to exist.\<close>

fun asset_params :: "('d, 'j) env \<Rightarrow> 'd ledger \<Rightarrow> 'j \<Rightarrow> nat list \<Rightarrow> string list option" where
  "asset_params E L params [] = Some []"
| "asset_params E L params (i # is) = do {
     asset \<leftarrow> json_string_value (json E) (json_array_get (json E) params i);
     check (asset_exist L asset);
     assets \<leftarrow> asset_params E L params is;
     Some (asset # assets) }"

definition on_cmd_balance_query ::
  "('d, 'j) env \<Rightarrow> 'd settings \<Rightarrow> rpc_pkg \<Rightarrow> 'j \<Rightarrow> ('d, 'j) server \<Rightarrow> ('d, 'j) server \<times> rpc_pkg option" where
  "on_cmd_balance_query E st pkg params X =
     (let L = ledger (sv_engine X); request_size = json_array_size (json E) params in
      (X, case (do {
             check (request_size \<noteq> 0);
             n \<leftarrow> int_param E params 0;
             check ((word_of_int n :: u32) \<noteq> 0);
             assets \<leftarrow> (if request_size = 1 then Some (map fst (st_assets st)) else asset_params E L params [1..<request_size]);
             Some (json_object (json E) (map (\<lambda>asset. (asset, balance_unit E L (word_of_int n) asset)) assets)) }) of
           None \<Rightarrow> reply_error_invalid_argument E st pkg
         | Some result \<Rightarrow> reply_result E st pkg result))"

definition update_params ::
  "('d, 'j) env \<Rightarrow> 'd ledger \<Rightarrow> 'j \<Rightarrow> (u32 \<times> string \<times> string \<times> u64 \<times> 'd \<times> 'j) option" where
  "update_params E L params = do {
     check (json_array_size (json E) params = 6);
     user_id \<leftarrow> int_param E params 0;
     asset \<leftarrow> str_param E params 1;
     check (\<not> asset_prec_show L asset < 0);
     business \<leftarrow> str_param E params 2;
     business_id \<leftarrow> int_param E params 3;
     s \<leftarrow> str_param E params 4;
     change \<leftarrow> decimal (mpd E) s (asset_prec_show L asset);
     detail \<leftarrow> json_array_get (json E) params 5;
     check (json_is_object (json E) (Some detail));
     Some (word_of_int user_id, asset, business, word_of_int business_id, change, detail) }"

text \<open>The log receives the parameters with the document the update has written its id into.\<close>

definition on_cmd_balance_update ::
  "('d, 'j) env \<Rightarrow> 'd settings \<Rightarrow> rpc_pkg \<Rightarrow> 'j \<Rightarrow> ('d, 'j) server \<Rightarrow> ('d, 'j) server \<times> rpc_pkg option" where
  "on_cmd_balance_update E st pkg params X =
     (case update_params E (ledger (sv_engine X)) params of
        None \<Rightarrow> (X, reply_error_invalid_argument E st pkg)
      | Some (user_id, asset, business, business_id, change, detail) \<Rightarrow>
          (case update_user_balance E True user_id asset business business_id change detail (sv_updates X) (sv_engine X) of
             (ret, detail, dict, S) \<Rightarrow>
               let X = X\<lparr>sv_engine := S, sv_updates := dict\<rparr>; params = json_array_set (json E) params 5 detail in
               if ret = - 1 then (X, reply_error E st pkg 10 ''repeat update'')
               else if ret = - 2 then (X, reply_error E st pkg 11 ''balance not enough'')
               else if ret < 0 then (X, reply_error_internal_error E st pkg)
               else (case append_operlog E ''update_balance'' params (sv_engine X) (sv_oplog X) of
                       (S, lg) \<Rightarrow> (X\<lparr>sv_engine := S, sv_oplog := lg\<rparr>, reply_success E st pkg))))"

definition on_cmd_asset_list ::
  "('d, 'j) env \<Rightarrow> 'd settings \<Rightarrow> rpc_pkg \<Rightarrow> 'j \<Rightarrow> ('d, 'j) server \<Rightarrow> ('d, 'j) server \<times> rpc_pkg option" where
  "on_cmd_asset_list E st pkg params X =
     (X, reply_result E st pkg (json_array (json E) (map (\<lambda>(name, aty). json_object (json E)
        [(''name'', json_string (json E) name), (''prec'', json_integer (json E) (prec_show aty))]) (st_assets st))))"

definition get_asset_summary :: "('d, 'j) env \<Rightarrow> 'd settings \<Rightarrow> 'd ledger \<Rightarrow> string \<Rightarrow> 'j" where
  "get_asset_summary E st L name =
     (case balance_status (mpd E) (st_walk st (dict_balance L)) name of
        (tot, available_count, available, freeze_count, freeze) \<Rightarrow>
          json_object (json E)
            [(''name'', json_string (json E) name), (''total_balance'', json_mpd E tot),
             (''available_count'', json_integer (json E) (int available_count)), (''available_balance'', json_mpd E available),
             (''freeze_count'', json_integer (json E) (int freeze_count)), (''freeze_balance'', json_mpd E freeze)])"

definition on_cmd_asset_summary ::
  "('d, 'j) env \<Rightarrow> 'd settings \<Rightarrow> rpc_pkg \<Rightarrow> 'j \<Rightarrow> ('d, 'j) server \<Rightarrow> ('d, 'j) server \<times> rpc_pkg option" where
  "on_cmd_asset_summary E st pkg params X =
     (let L = ledger (sv_engine X); n = json_array_size (json E) params in
      (X, case (if n = 0 then Some (map fst (st_assets st)) else asset_params E L params [0..<n]) of
            None \<Rightarrow> reply_error_invalid_argument E st pkg
          | Some names \<Rightarrow> reply_result E st pkg (json_array (json E) (map (get_asset_summary E st L) names))))"

section \<open>Commands on orders\<close>

definition set_market :: "string \<Rightarrow> 'd market \<Rightarrow> ('d, 'j) engine \<Rightarrow> ('d, 'j) server \<Rightarrow> ('d, 'j) server" where
  "set_market name m S X = X\<lparr>sv_markets := (sv_markets X)(name \<mapsto> m), sv_engine := S\<rparr>"

text \<open>An accepted command is logged and its result sent; a live command always has one.\<close>

definition log_and_reply ::
  "('d, 'j) env \<Rightarrow> 'd settings \<Rightarrow> rpc_pkg \<Rightarrow> string \<Rightarrow> 'j \<Rightarrow> 'j option \<Rightarrow> ('d, 'j) server \<Rightarrow> ('d, 'j) server \<times> rpc_pkg option" where
  "log_and_reply E st pkg method params result X =
     (case append_operlog E method params (sv_engine X) (sv_oplog X) of
        (S, lg) \<Rightarrow> (X\<lparr>sv_engine := S, sv_oplog := lg\<rparr>, Option.bind result (reply_result E st pkg)))"

definition limit_params ::
  "('d, 'j) env \<Rightarrow> (string \<rightharpoonup> 'd market) \<Rightarrow> 'j \<Rightarrow> (u32 \<times> string \<times> 'd market \<times> u32 \<times> 'd \<times> 'd \<times> 'd \<times> 'd \<times> string) option" where
  "limit_params E D params = do {
     check (json_array_size (json E) params = 8);
     user_id \<leftarrow> int_param E params 0;
     (name, m) \<leftarrow> market_param E D params 1;
     side \<leftarrow> side_param E params 2;
     amount \<leftarrow> positive_param E params 3 (m_stock_prec m);
     price \<leftarrow> positive_param E params 4 (m_money_prec m);
     taker_fee \<leftarrow> rate_param E params 5 (m_fee_prec m);
     maker_fee \<leftarrow> rate_param E params 6 (m_fee_prec m);
     source \<leftarrow> str_param E params 7;
     check (\<not> length source \<ge> SOURCE_MAX_LEN);
     Some (word_of_int user_id, name, m, side, amount, price, taker_fee, maker_fee, source) }"

definition on_cmd_order_put_limit ::
  "('d, 'j) env \<Rightarrow> 'd settings \<Rightarrow> rpc_pkg \<Rightarrow> 'j \<Rightarrow> ('d, 'j) server \<Rightarrow> ('d, 'j) server \<times> rpc_pkg option" where
  "on_cmd_order_put_limit E st pkg params X =
     (case limit_params E (sv_markets X) params of
        None \<Rightarrow> (X, reply_error_invalid_argument E st pkg)
      | Some (user_id, name, m, side, amount, price, taker_fee, maker_fee, source) \<Rightarrow>
          (case market_put_limit_order E True m (sv_engine X) user_id side amount price taker_fee maker_fee source of
             (m, S, ret, result) \<Rightarrow>
               let X = set_market name m S X in
               if ret = - 1 then (X, reply_error E st pkg 10 ''balance not enough'')
               else if ret = - 2 then (X, reply_error E st pkg 11 ''amount too small'')
               else if ret < 0 then (X, reply_error_internal_error E st pkg)
               else log_and_reply E st pkg ''limit_order'' params result X))"

definition market_order_params ::
  "('d, 'j) env \<Rightarrow> (string \<rightharpoonup> 'd market) \<Rightarrow> 'j \<Rightarrow> (u32 \<times> string \<times> 'd market \<times> u32 \<times> 'd \<times> 'd \<times> string) option" where
  "market_order_params E D params = do {
     check (json_array_size (json E) params = 6);
     user_id \<leftarrow> int_param E params 0;
     (name, m) \<leftarrow> market_param E D params 1;
     side \<leftarrow> side_param E params 2;
     amount \<leftarrow> positive_param E params 3 (m_stock_prec m);
     taker_fee \<leftarrow> rate_param E params 4 (m_fee_prec m);
     source \<leftarrow> str_param E params 5;
     check (\<not> length source \<ge> SOURCE_MAX_LEN);
     Some (word_of_int user_id, name, m, side, amount, taker_fee, source) }"

definition on_cmd_order_put_market ::
  "('d, 'j) env \<Rightarrow> 'd settings \<Rightarrow> rpc_pkg \<Rightarrow> 'j \<Rightarrow> ('d, 'j) server \<Rightarrow> (('d, 'j) server \<times> rpc_pkg option) option" where
  "on_cmd_order_put_market E st pkg params X =
     (case market_order_params E (sv_markets X) params of
        None \<Rightarrow> Some (X, reply_error_invalid_argument E st pkg)
      | Some (user_id, name, m, side, amount, taker_fee, source) \<Rightarrow>
          map_option (\<lambda>(m, S, ret, result).
              let X = set_market name m S X in
              if ret = - 1 then (X, reply_error E st pkg 10 ''balance not enough'')
              else if ret = - 2 then (X, reply_error E st pkg 11 ''amount too small'')
              else if ret = - 3 then (X, reply_error E st pkg 12 ''no enough trader'')
              else if ret < 0 then (X, reply_error_internal_error E st pkg)
              else log_and_reply E st pkg ''market_order'' params result X)
            (market_put_market_order E True m (sv_engine X) user_id side amount taker_fee source))"

definition cancel_params ::
  "('d, 'j) env \<Rightarrow> (string \<rightharpoonup> 'd market) \<Rightarrow> 'j \<Rightarrow> (u32 \<times> string \<times> 'd market \<times> u64) option" where
  "cancel_params E D params = do {
     check (json_array_size (json E) params = 3);
     user_id \<leftarrow> int_param E params 0;
     (name, m) \<leftarrow> market_param E D params 1;
     order_id \<leftarrow> int_param E params 2;
     Some (word_of_int user_id, name, m, word_of_int order_id) }"

definition on_cmd_order_cancel ::
  "('d, 'j) env \<Rightarrow> 'd settings \<Rightarrow> rpc_pkg \<Rightarrow> 'j \<Rightarrow> ('d, 'j) server \<Rightarrow> ('d, 'j) server \<times> rpc_pkg option" where
  "on_cmd_order_cancel E st pkg params X =
     (case cancel_params E (sv_markets X) params of
        None \<Rightarrow> (X, reply_error_invalid_argument E st pkg)
      | Some (user_id, name, m, order_id) \<Rightarrow>
          (case market_get_order m order_id of
             None \<Rightarrow> (X, reply_error E st pkg 10 ''order not found'')
           | Some order \<Rightarrow>
               if o_user_id order \<noteq> user_id then (X, reply_error E st pkg 11 ''user not match'')
               else (case market_cancel_order E True m (sv_engine X) order of
                   (m, S, ret, result) \<Rightarrow>
                     let X = set_market name m S X in
                     if ret < 0 then (X, reply_error_internal_error E st pkg)
                     else log_and_reply E st pkg ''cancel_order'' params result X)))"

end
