(* ===== verification/Queries.thy ===== *)
theory Queries
  imports Server
begin

text \<open>
  \<^verbatim>\<open>matchengine/me_server.c\<close>, second half: the commands that only read, the cache of
  order book depths, and the handler of packets that selects the command. A packet is answered,
  left without an answer, or closes the connection it came from; \<open>None\<close> stands for a call that
  never returns.
\<close>

section \<open>The cache of depths\<close>

definition cache_key_of :: "rpc_pkg \<Rightarrow> string" where
  "cache_key_of pkg = show_digits (unat (command pkg)) @ bytes_text (take (unat (body_size pkg)) (pkg_body pkg))"

text \<open>
  \<^verbatim>\<open>process_cache\<close>: the reply when the cache has a fresh result, else the key under
  which to store a new one. The clock is read only when there is an entry.
\<close>

definition process_cache ::
  "('d, 'j) env \<Rightarrow> 'd settings \<Rightarrow> rpc_pkg \<Rightarrow> ('d, 'j) server \<Rightarrow> ('d, 'j) server \<times> (rpc_pkg option + string)" where
  "process_cache E st pkg X =
     (let key = cache_key_of pkg in
      case sv_cache X key of
        None \<Rightarrow> (X, Inr key)
      | Some (time, result) \<Rightarrow>
          let now = clock E (ticks (sv_engine X)); S = (sv_engine X)\<lparr>ticks := ticks (sv_engine X) + 1\<rparr> in
          if now - time > st_cache_timeout st
          then (X\<lparr>sv_engine := S, sv_cache := (sv_cache X)(key := None)\<rparr>, Inr key)
          else (X\<lparr>sv_engine := S\<rparr>, Inl (reply_result E st pkg result)))"

definition add_cache :: "('d, 'j) env \<Rightarrow> string \<Rightarrow> 'j \<Rightarrow> ('d, 'j) server \<Rightarrow> ('d, 'j) server" where
  "add_cache E key result X =
     X\<lparr>sv_engine := (sv_engine X)\<lparr>ticks := ticks (sv_engine X) + 1\<rparr>,
       sv_cache := (sv_cache X)(key \<mapsto> (clock E (ticks (sv_engine X)), result))\<rparr>"

definition on_cache_timer :: "('d, 'j) server \<Rightarrow> ('d, 'j) server" where
  "on_cache_timer X = X\<lparr>sv_cache := Map.empty\<rparr>"

section \<open>Pages of orders\<close>

text \<open>The parameters offset and limit of a page, C values of type \<^verbatim>\<open>size_t\<close>.\<close>

definition page_params :: "('d, 'j) env \<Rightarrow> 'j \<Rightarrow> nat \<Rightarrow> nat \<Rightarrow> u64 \<Rightarrow> (u64 \<times> u64) option" where
  "page_params E params i j max_len = do {
     offset \<leftarrow> int_param E params i;
     limit \<leftarrow> int_param E params j;
     check (\<not> (word_of_int limit :: u64) > max_len);
     Some (word_of_int offset, word_of_int limit) }"

text \<open>The nodes of a list from \<open>offset\<close> on, at most \<open>limit\<close> of them.\<close>

definition page :: "u64 \<Rightarrow> u64 \<Rightarrow> u64 list \<Rightarrow> u64 list" where
  "page offset limit nodes =
     (if unat offset < length nodes then take (unat limit) (drop (unat offset) nodes) else [])"

definition order_infos :: "('d, 'j) env \<Rightarrow> (u64 \<rightharpoonup> 'd order) \<Rightarrow> u64 list \<Rightarrow> 'j list" where
  "order_infos E objs nodes = List.map_filter (\<lambda>node. map_option (get_order_info E) (objs node)) nodes"

definition on_cmd_order_query ::
  "('d, 'j) env \<Rightarrow> 'd settings \<Rightarrow> rpc_pkg \<Rightarrow> 'j \<Rightarrow> ('d, 'j) server \<Rightarrow> ('d, 'j) server \<times> rpc_pkg option" where
  "on_cmd_order_query E st pkg params X =
     (X, case (do {
            check (json_array_size (json E) params = 4);
            user_id \<leftarrow> int_param E params 0;
            (name, m) \<leftarrow> market_param E (sv_markets X) params 1;
            (offset, limit) \<leftarrow> page_params E params 2 3 ORDER_LIST_MAX_LEN;
            let nodes = (case market_get_order_list m (word_of_int user_id) of None \<Rightarrow> [] | Some nodes \<Rightarrow> nodes);
            Some (json_object (json E)
              [(''limit'', json_integer (json E) (sint limit)), (''offset'', json_integer (json E) (sint offset)),
               (''total'', json_integer (json E) (int (length nodes))),
               (''records'', json_array (json E) (order_infos E (m_orders m) (page offset limit nodes)))]) }) of
          None \<Rightarrow> reply_error_invalid_argument E st pkg
        | Some result \<Rightarrow> reply_result E st pkg result)"

definition on_cmd_order_book ::
  "('d, 'j) env \<Rightarrow> 'd settings \<Rightarrow> rpc_pkg \<Rightarrow> 'j \<Rightarrow> ('d, 'j) server \<Rightarrow> ('d, 'j) server \<times> rpc_pkg option" where
  "on_cmd_order_book E st pkg params X =
     (X, case (do {
            check (json_array_size (json E) params = 4);
            (name, m) \<leftarrow> market_param E (sv_markets X) params 0;
            side \<leftarrow> side_param E params 1;
            (offset, limit) \<leftarrow> page_params E params 2 3 ORDER_BOOK_MAX_LEN;
            let nodes = (if side = MARKET_ORDER_SIDE_ASK then m_asks m else m_bids m);
            Some (json_object (json E)
              [(''offset'', json_integer (json E) (sint offset)), (''limit'', json_integer (json E) (sint limit)),
               (''total'', json_integer (json E) (int (length nodes))),
               (''orders'', json_array (json E) (order_infos E (m_orders m) (page offset limit nodes)))]) }) of
          None \<Rightarrow> reply_error_invalid_argument E st pkg
        | Some result \<Rightarrow> reply_result E st pkg result)"

section \<open>Depth, details and markets\<close>

definition depth_params ::
  "('d, 'j) env \<Rightarrow> (string \<rightharpoonup> 'd market) \<Rightarrow> 'j \<Rightarrow> ('d market \<times> u64 \<times> 'd) option" where
  "depth_params E D params = do {
     check (json_array_size (json E) params = 3);
     (name, m) \<leftarrow> market_param E D params 0;
     limit \<leftarrow> int_param E params 1;
     check (\<not> (word_of_int limit :: u64) > ORDER_BOOK_MAX_LEN);
     s \<leftarrow> str_param E params 2;
     interval \<leftarrow> decimal (mpd E) s (m_money_prec m);
     check (\<not> mpd_cmp (mpd E) interval (mpd_zero (mpd E)) < 0);
     Some (m, word_of_int limit, interval) }"

definition on_cmd_order_book_depth ::
  "('d, 'j) env \<Rightarrow> 'd settings \<Rightarrow> rpc_pkg \<Rightarrow> 'j \<Rightarrow> ('d, 'j) server \<Rightarrow> ('d, 'j) server \<times> rpc_pkg option" where
  "on_cmd_order_book_depth E st pkg params X =
     (case depth_params E (sv_markets X) params of
        None \<Rightarrow> (X, reply_error_invalid_argument E st pkg)
      | Some (m, limit, interval) \<Rightarrow>
          (case process_cache E st pkg X of
             (X, Inl reply) \<Rightarrow> (X, reply)
           | (X, Inr cache_key) \<Rightarrow>
               let result = (if mpd_cmp (mpd E) interval (mpd_zero (mpd E)) = 0 then get_depth E m (unat limit)
                             else get_depth_merge E m (unat limit) interval)
               in (add_cache E cache_key result X, reply_result E st pkg result)))"

definition on_cmd_order_detail ::
  "('d, 'j) env \<Rightarrow> 'd settings \<Rightarrow> rpc_pkg \<Rightarrow> 'j \<Rightarrow> ('d, 'j) server \<Rightarrow> ('d, 'j) server \<times> rpc_pkg option" where
  "on_cmd_order_detail E st pkg params X =
     (X, case (do {
            check (json_array_size (json E) params = 2);
            (name, m) \<leftarrow> market_param E (sv_markets X) params 0;
            order_id \<leftarrow> int_param E params 1;
            Some (case market_get_order m (word_of_int order_id) of
                    None \<Rightarrow> json_null (json E)
                  | Some order \<Rightarrow> get_order_info E order) }) of
          None \<Rightarrow> reply_error_invalid_argument E st pkg
        | Some result \<Rightarrow> reply_result E st pkg result)"

definition market_info :: "('d, 'j) env \<Rightarrow> 'd market_conf \<Rightarrow> 'j" where
  "market_info E conf = json_object (json E)
     [(''name'', json_string (json E) (conf_name conf)), (''stock'', json_string (json E) (conf_stock conf)),
      (''money'', json_string (json E) (conf_money conf)), (''fee_prec'', json_integer (json E) (conf_fee_prec conf)),
      (''stock_prec'', json_integer (json E) (conf_stock_prec conf)),
      (''money_prec'', json_integer (json E) (conf_money_prec conf)),
      (''min_amount'', json_mpd E (conf_min_amount conf))]"

definition on_cmd_market_list ::
  "('d, 'j) env \<Rightarrow> 'd settings \<Rightarrow> rpc_pkg \<Rightarrow> 'j \<Rightarrow> ('d, 'j) server \<Rightarrow> ('d, 'j) server \<times> rpc_pkg option" where
  "on_cmd_market_list E st pkg params X =
     (X, reply_result E st pkg (json_array (json E) (map (market_info E) (st_markets st))))"

definition get_market_summary :: "('d, 'j) env \<Rightarrow> string \<Rightarrow> 'd market \<Rightarrow> 'j" where
  "get_market_summary E name m =
     (case market_get_status (mpd E) m of
        (ask_count, ask_amount, bid_count, bid_amount) \<Rightarrow>
          json_object (json E)
            [(''name'', json_string (json E) name), (''ask_count'', json_integer (json E) (int ask_count)),
             (''ask_amount'', json_mpd E ask_amount), (''bid_count'', json_integer (json E) (int bid_count)),
             (''bid_amount'', json_mpd E bid_amount)])"

text \<open>The markets named from parameter \<open>i\<close> on, each of which has to exist.\<close>

fun market_params :: "('d, 'j) env \<Rightarrow> (string \<rightharpoonup> 'd market) \<Rightarrow> 'j \<Rightarrow> nat list \<Rightarrow> (string \<times> 'd market) list option" where
  "market_params E D params [] = Some []"
| "market_params E D params (i # is) = do {
     name \<leftarrow> json_string_value (json E) (json_array_get (json E) params i);
     m \<leftarrow> get_market D name;
     ms \<leftarrow> market_params E D params is;
     Some ((name, m) # ms) }"

text \<open>
  Without parameters, all configured markets: each of them is in the dictionary, which is built
  from the same list.
\<close>

definition on_cmd_market_summary ::
  "('d, 'j) env \<Rightarrow> 'd settings \<Rightarrow> rpc_pkg \<Rightarrow> 'j \<Rightarrow> ('d, 'j) server \<Rightarrow> ('d, 'j) server \<times> rpc_pkg option" where
  "on_cmd_market_summary E st pkg params X =
     (let D = sv_markets X; n = json_array_size (json E) params in
      (X, case (if n = 0
                then Some (List.map_filter (\<lambda>conf. map_option (Pair (conf_name conf)) (get_market D (conf_name conf))) (st_markets st))
                else market_params E D params [0..<n]) of
            None \<Rightarrow> reply_error_invalid_argument E st pkg
          | Some ms \<Rightarrow> reply_result E st pkg (json_array (json E) (map (\<lambda>(name, m). get_market_summary E name m) ms))))"

section \<open>Packets\<close>

definition CMD_BALANCE_QUERY :: u32 where "CMD_BALANCE_QUERY = 101"
definition CMD_BALANCE_UPDATE :: u32 where "CMD_BALANCE_UPDATE = 102"
definition CMD_ASSET_LIST :: u32 where "CMD_ASSET_LIST = 104"
definition CMD_ASSET_SUMMARY :: u32 where "CMD_ASSET_SUMMARY = 105"
definition CMD_ORDER_PUT_LIMIT :: u32 where "CMD_ORDER_PUT_LIMIT = 201"
definition CMD_ORDER_PUT_MARKET :: u32 where "CMD_ORDER_PUT_MARKET = 202"
definition CMD_ORDER_QUERY :: u32 where "CMD_ORDER_QUERY = 203"
definition CMD_ORDER_CANCEL :: u32 where "CMD_ORDER_CANCEL = 204"
definition CMD_ORDER_BOOK :: u32 where "CMD_ORDER_BOOK = 205"
definition CMD_ORDER_BOOK_DEPTH :: u32 where "CMD_ORDER_BOOK_DEPTH = 206"
definition CMD_ORDER_DETAIL :: u32 where "CMD_ORDER_DETAIL = 207"
definition CMD_MARKET_LIST :: u32 where "CMD_MARKET_LIST = 307"
definition CMD_MARKET_SUMMARY :: u32 where "CMD_MARKET_SUMMARY = 308"

lemmas CMD_defs = CMD_BALANCE_QUERY_def CMD_BALANCE_UPDATE_def CMD_ASSET_LIST_def CMD_ASSET_SUMMARY_def
  CMD_ORDER_PUT_LIMIT_def CMD_ORDER_PUT_MARKET_def CMD_ORDER_QUERY_def CMD_ORDER_CANCEL_def CMD_ORDER_BOOK_def
  CMD_ORDER_BOOK_DEPTH_def CMD_ORDER_DETAIL_def CMD_MARKET_LIST_def CMD_MARKET_SUMMARY_def

datatype action = Reply rpc_pkg | NoReply | CloseSession

text \<open>
  The load of the writers behind the engine: the jobs the log worker and the history worker have
  not finished. A command that changes the state is refused while one of the writers is behind.
\<close>

record load =
  log_pending :: nat
  history_pending :: nat

definition service_blocked :: "load \<Rightarrow> ('d, 'j) server \<Rightarrow> bool" where
  "service_blocked ld X =
     (is_operlog_block (log_pending ld) \<or> is_history_block (history_pending ld) \<or> is_message_block (msgs (sv_engine X)))"

definition unless_blocked ::
  "('d, 'j) env \<Rightarrow> 'd settings \<Rightarrow> load \<Rightarrow> rpc_pkg \<Rightarrow> ('d, 'j) server \<Rightarrow> (('d, 'j) server \<times> rpc_pkg option) option \<Rightarrow>
   (('d, 'j) server \<times> rpc_pkg option) option" where
  "unless_blocked E st ld pkg X result =
     (if service_blocked ld X then Some (X, reply_error_service_unavailable E st pkg) else result)"

definition reply_action :: "rpc_pkg option \<Rightarrow> action" where
  "reply_action reply = (case reply of None \<Rightarrow> NoReply | Some p \<Rightarrow> Reply p)"

text \<open>The switch: the result of the handler that is chosen by the command, if there is one.\<close>

definition dispatch ::
  "('d, 'j) env \<Rightarrow> 'd settings \<Rightarrow> load \<Rightarrow> rpc_pkg \<Rightarrow> 'j \<Rightarrow> ('d, 'j) server \<Rightarrow> (('d, 'j) server \<times> rpc_pkg option) option" where
  "dispatch E st ld pkg params X =
     (let c = command pkg in
      if c = CMD_BALANCE_QUERY then Some (on_cmd_balance_query E st pkg params X)
      else if c = CMD_BALANCE_UPDATE then unless_blocked E st ld pkg X (Some (on_cmd_balance_update E st pkg params X))
      else if c = CMD_ASSET_LIST then Some (on_cmd_asset_list E st pkg params X)
      else if c = CMD_ASSET_SUMMARY then Some (on_cmd_asset_summary E st pkg params X)
      else if c = CMD_ORDER_PUT_LIMIT then unless_blocked E st ld pkg X (Some (on_cmd_order_put_limit E st pkg params X))
      else if c = CMD_ORDER_PUT_MARKET then unless_blocked E st ld pkg X (on_cmd_order_put_market E st pkg params X)
      else if c = CMD_ORDER_QUERY then Some (on_cmd_order_query E st pkg params X)
      else if c = CMD_ORDER_CANCEL then unless_blocked E st ld pkg X (Some (on_cmd_order_cancel E st pkg params X))
      else if c = CMD_ORDER_BOOK then Some (on_cmd_order_book E st pkg params X)
      else if c = CMD_ORDER_BOOK_DEPTH then Some (on_cmd_order_book_depth E st pkg params X)
      else if c = CMD_ORDER_DETAIL then Some (on_cmd_order_detail E st pkg params X)
      else if c = CMD_MARKET_LIST then Some (on_cmd_market_list E st pkg params X)
      else if c = CMD_MARKET_SUMMARY then Some (on_cmd_market_summary E st pkg params X)
      else Some (X, None))"

definition svr_on_recv_pkg ::
  "('d, 'j) env \<Rightarrow> 'd settings \<Rightarrow> load \<Rightarrow> rpc_pkg \<Rightarrow> ('d, 'j) server \<Rightarrow> (('d, 'j) server \<times> action) option" where
  "svr_on_recv_pkg E st ld pkg X =
     (case json_loadb (json E) (bytes_text (take (unat (body_size pkg)) (pkg_body pkg))) of
        None \<Rightarrow> Some (X, CloseSession)
      | Some params \<Rightarrow>
          if \<not> json_is_array (json E) params then Some (X, CloseSession)
          else map_option (\<lambda>(X, reply). (X, reply_action reply)) (dispatch E st ld pkg params X))"

end
