(* ===== verification/Database.thy ===== *)
theory Database
  imports Queries
begin

text \<open>
  The database of the engine, a MySQL server outside the repository: its operations are the
  fields of a record that the definitions of \<open>Dump\<close>, \<open>Load\<close> and \<open>Persist\<close> take as a
  parameter. A statement is the value of its parts instead of its text; an amount is the text
  that is sent or received.
\<close>

text \<open>A row of a \<^verbatim>\<open>slice_order\<close> table and of a \<^verbatim>\<open>slice_balance\<close> table.\<close>

record order_row =
  r_id :: u64
  r_t :: u32
  r_side :: u32
  r_create_time :: int
  r_update_time :: int
  r_user_id :: u32
  r_market :: string
  r_price :: string
  r_amount :: string
  r_taker_fee :: string
  r_maker_fee :: string
  r_left :: string
  r_freeze :: string
  r_deal_stock :: string
  r_deal_money :: string
  r_deal_fee :: string

record balance_row =
  r_user :: u32
  r_asset :: string
  r_type :: u32
  r_balance :: string

datatype sql =
  DropTable string
| DropTableIfExists string
| CreateTableLike string string
| InsertOrders string "order_row list"
| InsertBalances string "balance_row list"
| InsertSlice int u64 u64 u64
| DeleteSlice u64

text \<open>
  \<open>db_exec\<close> returns the value of \<^verbatim>\<open>mysql_real_query\<close>, zero for success. The queries
  take the last id that was read and the limit; \<open>None\<close> is a failed query. The balances come
  with their row ids, the operation log as pairs of id and text, the last
  slice as its time and the three last ids it was made at, a count as a column of numbers;
  \<open>db_show_tables\<close> is the number of tables of a name.
\<close>

record 'db mysql_ops =
  db_exec :: "'db \<Rightarrow> sql \<Rightarrow> int \<times> 'db"
  db_select_orders :: "'db \<Rightarrow> string \<Rightarrow> u64 \<Rightarrow> nat \<Rightarrow> order_row list option"
  db_select_balances :: "'db \<Rightarrow> string \<Rightarrow> u64 \<Rightarrow> nat \<Rightarrow> (u64 \<times> balance_row) list option"
  db_select_operlog :: "'db \<Rightarrow> string \<Rightarrow> u64 \<Rightarrow> nat \<Rightarrow> (u64 \<times> string) list option"
  db_show_tables :: "'db \<Rightarrow> string \<Rightarrow> nat"
  db_last_slice :: "'db \<Rightarrow> (int \<times> u64 \<times> u64 \<times> u64) list option"
  db_count_slices_since :: "'db \<Rightarrow> int \<Rightarrow> int list option"
  db_slices_before :: "'db \<Rightarrow> int \<Rightarrow> (u64 \<times> int) list option"

text \<open>\<^verbatim>\<open>utils/ut_mysql.c\<close>.\<close>

definition is_table_exists :: "'db mysql_ops \<Rightarrow> 'db \<Rightarrow> string \<Rightarrow> bool" where
  "is_table_exists Q db table = (db_show_tables Q db table = 1)"

end
