(* ===== verification/Load.thy ===== *)
theory Load
  imports Database
begin

text \<open>
  \<^verbatim>\<open>matchengine/me_load.c\<close>: how the engine gets its state back when it starts: the orders
  and balances of a slice, then the commands of the operation log, which are executed again with
  \<^verbatim>\<open>real\<close> false. Results are the C return values; \<open>None\<close> stands for a call that
  does not return.
\<close>

definition QUERY_LIMIT :: nat where "QUERY_LIMIT = 1000"

section \<open>Slices\<close>

text \<open>
  The order of a row. The member \<^verbatim>\<open>source\<close>, which no column keeps, is left NULL; the empty
  text stands for it. An amount that cannot be read fails the load.
\<close>

definition order_of_row :: "('d, 'j) env \<Rightarrow> 'd market \<Rightarrow> order_row \<Rightarrow> 'd order option" where
  "order_of_row E m row = do {
     price \<leftarrow> decimal (mpd E) (r_price row) (m_money_prec m);
     amount \<leftarrow> decimal (mpd E) (r_amount row) (m_stock_prec m);
     taker_fee \<leftarrow> decimal (mpd E) (r_taker_fee row) (m_fee_prec m);
     maker_fee \<leftarrow> decimal (mpd E) (r_maker_fee row) (m_fee_prec m);
     rest \<leftarrow> decimal (mpd E) (r_left row) (m_stock_prec m);
     freeze \<leftarrow> decimal (mpd E) (r_freeze row) 0;
     deal_stock \<leftarrow> decimal (mpd E) (r_deal_stock row) 0;
     deal_money \<leftarrow> decimal (mpd E) (r_deal_money row) 0;
     deal_fee \<leftarrow> decimal (mpd E) (r_deal_fee row) 0;
     Some \<lparr>o_id = r_id row, o_type = r_t row, o_side = r_side row, o_create_time = r_create_time row,
       o_update_time = r_update_time row, o_user_id = r_user_id row, o_market = r_market row, o_source = [],
       o_price = price, o_amount = amount, o_taker_fee = taker_fee, o_maker_fee = maker_fee, o_left = rest,
       o_freeze = freeze, o_deal_stock = deal_stock, o_deal_money = deal_money, o_deal_fee = deal_fee\<rparr> }"

text \<open>An order of a market that is no longer configured is skipped; the result of the put is ignored.\<close>

fun load_order_rows :: "('d, 'j) env \<Rightarrow> order_row list \<Rightarrow> ('d, 'j) server \<Rightarrow> int \<times> ('d, 'j) server" where
  "load_order_rows E [] X = (0, X)"
| "load_order_rows E (row # rows) X =
     (case get_market (sv_markets X) (r_market row) of
        None \<Rightarrow> load_order_rows E rows X
      | Some m \<Rightarrow>
          (case order_of_row E m row of
             None \<Rightarrow> (- 72, X)
           | Some order \<Rightarrow>
               (case market_put_order (mpd E) m (ledger (sv_engine X)) order of
                  (m, L, _) \<Rightarrow>
                    load_order_rows E rows (set_market (r_market row) m ((sv_engine X)\<lparr>ledger := L\<rparr>) X))))"

partial_function (option) load_orders_from ::
  "('d, 'j) env \<Rightarrow> 'db mysql_ops \<Rightarrow> 'db \<Rightarrow> string \<Rightarrow> u64 \<Rightarrow> ('d, 'j) server \<Rightarrow> (int \<times> ('d, 'j) server) option" where
  "load_orders_from E Q db table last_id X =
     (case db_select_orders Q db table last_id QUERY_LIMIT of
        None \<Rightarrow> Some (- 34, X)
      | Some rows \<Rightarrow>
          let (ret, X) = load_order_rows E rows X in
          if ret < 0 then Some (ret, X)
          else if length rows < QUERY_LIMIT then Some (0, X)
          else load_orders_from E Q db table (r_id (last rows)) X)"

definition load_orders ::
  "('d, 'j) env \<Rightarrow> 'db mysql_ops \<Rightarrow> 'db \<Rightarrow> string \<Rightarrow> ('d, 'j) server \<Rightarrow> (int \<times> ('d, 'j) server) option" where
  "load_orders E Q db table X = load_orders_from E Q db table 0 X"

text \<open>An amount that cannot be read crashes the process (\<open>None\<close>).\<close>

fun load_balance_rows :: "('d, 'j) env \<Rightarrow> balance_row list \<Rightarrow> 'd ledger \<Rightarrow> 'd ledger option" where
  "load_balance_rows E [] L = Some L"
| "load_balance_rows E (row # rows) L =
     (if \<not> asset_exist L (r_asset row) then load_balance_rows E rows L
      else (case decimal (mpd E) (r_balance row) (asset_prec L (r_asset row)) of
              None \<Rightarrow> None
            | Some balance \<Rightarrow>
                load_balance_rows E rows (fst (balance_set (mpd E) L (r_user row) (r_type row) (r_asset row) balance))))"

partial_function (option) load_balance_from ::
  "('d, 'j) env \<Rightarrow> 'db mysql_ops \<Rightarrow> 'db \<Rightarrow> string \<Rightarrow> u64 \<Rightarrow> 'd ledger \<Rightarrow> (int \<times> 'd ledger) option" where
  "load_balance_from E Q db table last_id L =
     (case db_select_balances Q db table last_id QUERY_LIMIT of
        None \<Rightarrow> Some (- 103, L)
      | Some rows \<Rightarrow>
          (case load_balance_rows E (map snd rows) L of
             None \<Rightarrow> None
           | Some L \<Rightarrow>
               if length rows < QUERY_LIMIT then Some (0, L)
               else load_balance_from E Q db table (fst (last rows)) L))"

definition load_balance ::
  "('d, 'j) env \<Rightarrow> 'db mysql_ops \<Rightarrow> 'db \<Rightarrow> string \<Rightarrow> ('d, 'j) server \<Rightarrow> (int \<times> ('d, 'j) server) option" where
  "load_balance E Q db table X =
     map_option (\<lambda>(ret, L). (ret, X\<lparr>sv_engine := (sv_engine X)\<lparr>ledger := L\<rparr>\<rparr>))
       (load_balance_from E Q db table 0 (ledger (sv_engine X)))"

section \<open>Commands of the log\<close>

definition load_update_balance :: "('d, 'j) env \<Rightarrow> 'j \<Rightarrow> ('d, 'j) server \<Rightarrow> int \<times> ('d, 'j) server" where
  "load_update_balance E params X =
     (let L = ledger (sv_engine X) in
      if json_array_size (json E) params \<noteq> 6 then (- 136, X)
      else case int_param E params 0 of None \<Rightarrow> (- 140, X) | Some user_id \<Rightarrow>
      (case str_param E params 1 of None \<Rightarrow> (- 145, X) | Some asset \<Rightarrow>
      if asset_prec L asset < 0 then (0, X)
      else (case str_param E params 2 of None \<Rightarrow> (- 153, X) | Some business \<Rightarrow>
      (case int_param E params 3 of None \<Rightarrow> (- 158, X) | Some business_id \<Rightarrow>
      (case str_param E params 4 of None \<Rightarrow> (- 163, X) | Some s \<Rightarrow>
      (case decimal (mpd E) s (asset_prec L asset) of None \<Rightarrow> (- 166, X) | Some change \<Rightarrow>
      (case json_array_get (json E) params 5 of None \<Rightarrow> (- 173, X) | Some detail \<Rightarrow>
      if \<not> json_is_object (json E) (Some detail) then (- 173, X)
      else (case update_user_balance E False (word_of_int user_id) asset business (word_of_int business_id) change detail
                   (sv_updates X) (sv_engine X) of
              (ret, _, dict, S) \<Rightarrow> (if ret < 0 then - 181 else 0, X\<lparr>sv_engine := S, sv_updates := dict\<rparr>)))))))))"

text \<open>The parameters behind the label \<^verbatim>\<open>error\<close>. The longest source is one character longer than the server accepts.\<close>

definition load_limit_values :: "('d, 'j) env \<Rightarrow> 'd market \<Rightarrow> 'j \<Rightarrow> ('d \<times> 'd \<times> 'd \<times> 'd \<times> string) option" where
  "load_limit_values E m params = do {
     amount \<leftarrow> positive_param E params 3 (m_stock_prec m);
     price \<leftarrow> positive_param E params 4 (m_money_prec m);
     taker_fee \<leftarrow> rate_param E params 5 (m_fee_prec m);
     maker_fee \<leftarrow> rate_param E params 6 (m_fee_prec m);
     source \<leftarrow> str_param E params 7;
     check (\<not> length source > SOURCE_MAX_LEN);
     Some (amount, price, taker_fee, maker_fee, source) }"

definition load_limit_order :: "('d, 'j) env \<Rightarrow> 'j \<Rightarrow> ('d, 'j) server \<Rightarrow> int \<times> ('d, 'j) server" where
  "load_limit_order E params X =
     (if json_array_size (json E) params \<noteq> 8 then (- 191, X)
      else case int_param E params 0 of None \<Rightarrow> (- 195, X) | Some user_id \<Rightarrow>
      (case str_param E params 1 of None \<Rightarrow> (- 200, X) | Some name \<Rightarrow>
      (case get_market (sv_markets X) name of None \<Rightarrow> (0, X) | Some m \<Rightarrow>
      (case int_param E params 2 of None \<Rightarrow> (- 208, X) | Some side \<Rightarrow>
      (case side_param E params 2 of None \<Rightarrow> (- 211, X) | Some side \<Rightarrow>
      (case load_limit_values E m params of None \<Rightarrow> (- 280, X) | Some (amount, price, taker_fee, maker_fee, source) \<Rightarrow>
      (case market_put_limit_order E False m (sv_engine X) (word_of_int user_id) side amount price taker_fee maker_fee source of
         (m, S, ret, _) \<Rightarrow> (ret, set_market name m S X))))))))"

definition load_market_values :: "('d, 'j) env \<Rightarrow> 'd market \<Rightarrow> 'j \<Rightarrow> ('d \<times> 'd \<times> string) option" where
  "load_market_values E m params = do {
     amount \<leftarrow> positive_param E params 3 (m_stock_prec m);
     taker_fee \<leftarrow> rate_param E params 4 (m_fee_prec m);
     source \<leftarrow> str_param E params 5;
     check (\<not> length source > SOURCE_MAX_LEN);
     Some (amount, taker_fee, source) }"

definition load_market_order :: "('d, 'j) env \<Rightarrow> 'j \<Rightarrow> ('d, 'j) server \<Rightarrow> (int \<times> ('d, 'j) server) option" where
  "load_market_order E params X =
     (if json_array_size (json E) params \<noteq> 6 then Some (- 287, X)
      else case int_param E params 0 of None \<Rightarrow> Some (- 291, X) | Some user_id \<Rightarrow>
      (case str_param E params 1 of None \<Rightarrow> Some (- 296, X) | Some name \<Rightarrow>
      (case get_market (sv_markets X) name of None \<Rightarrow> Some (0, X) | Some m \<Rightarrow>
      (case int_param E params 2 of None \<Rightarrow> Some (- 304, X) | Some side \<Rightarrow>
      (case side_param E params 2 of None \<Rightarrow> Some (- 307, X) | Some side \<Rightarrow>
      (case load_market_values E m params of None \<Rightarrow> Some (- 350, X) | Some (amount, taker_fee, source) \<Rightarrow>
      map_option (\<lambda>(m, S, ret, _). (ret, set_market name m S X))
        (market_put_market_order E False m (sv_engine X) (word_of_int user_id) side amount taker_fee source)))))))"

text \<open>Unlike the server, the loader does not compare the user of the order.\<close>

definition load_cancel_order :: "('d, 'j) env \<Rightarrow> 'j \<Rightarrow> ('d, 'j) server \<Rightarrow> int \<times> ('d, 'j) server" where
  "load_cancel_order E params X =
     (if json_array_size (json E) params \<noteq> 3 then (- 357, X)
      else case int_param E params 0 of None \<Rightarrow> (- 361, X) | Some user_id \<Rightarrow>
      (case str_param E params 1 of None \<Rightarrow> (- 366, X) | Some name \<Rightarrow>
      (case get_market (sv_markets X) name of None \<Rightarrow> (0, X) | Some m \<Rightarrow>
      (case int_param E params 2 of None \<Rightarrow> (- 374, X) | Some order_id \<Rightarrow>
      (case market_get_order m (word_of_int order_id) of None \<Rightarrow> (- 380, X) | Some order \<Rightarrow>
      (case market_cancel_order E False m (sv_engine X) order of
         (m, S, ret, _) \<Rightarrow> (if ret < 0 then - 387 else 0, set_market name m S X)))))))"

definition load_oper :: "('d, 'j) env \<Rightarrow> 'j \<Rightarrow> ('d, 'j) server \<Rightarrow> (int \<times> ('d, 'j) server) option" where
  "load_oper E detail X =
     (case json_string_value (json E) (json_object_get (json E) detail ''method'') of
        None \<Rightarrow> Some (- 398, X)
      | Some method \<Rightarrow>
          (case json_object_get (json E) detail ''params'' of
             None \<Rightarrow> Some (- 401, X)
           | Some params \<Rightarrow>
               if \<not> json_is_array (json E) params then Some (- 401, X)
               else if method = ''update_balance'' then Some (load_update_balance E params X)
               else if method = ''limit_order'' then Some (load_limit_order E params X)
               else if method = ''market_order'' then load_market_order E params X
               else if method = ''cancel_order'' then Some (load_cancel_order E params X)
               else Some (- 422, X)))"

text \<open>The rows of one query, after the id \<open>last_id\<close>.\<close>

fun load_oper_rows ::
  "('d, 'j) env \<Rightarrow> (u64 \<times> string) list \<Rightarrow> u64 \<Rightarrow> ('d, 'j) server \<Rightarrow> (int \<times> u64 \<times> ('d, 'j) server) option" where
  "load_oper_rows E [] last_id X = Some (0, last_id, X)"
| "load_oper_rows E ((i, text) # rows) last_id X =
     (if i \<noteq> last_id + 1 then Some (- 456, last_id, X)
      else (case json_loadb (json E) text of
              None \<Rightarrow> Some (- 464, i, X)
            | Some detail \<Rightarrow>
                (case load_oper E detail X of
                   None \<Rightarrow> None
                 | Some (ret, X) \<Rightarrow> if ret < 0 then Some (- 472, i, X) else load_oper_rows E rows i X)))"

partial_function (option) load_operlog ::
  "('d, 'j) env \<Rightarrow> 'db mysql_ops \<Rightarrow> 'db \<Rightarrow> string \<Rightarrow> u64 \<Rightarrow> ('d, 'j) server \<Rightarrow> (int \<times> u64 \<times> ('d, 'j) server) option" where
  "load_operlog E Q db table last_id X =
     (case db_select_operlog Q db table last_id QUERY_LIMIT of
        None \<Rightarrow> Some (- 443, last_id, X)
      | Some rows \<Rightarrow>
          (case load_oper_rows E rows last_id X of
             None \<Rightarrow> None
           | Some (ret, last_id, X) \<Rightarrow>
               if ret < 0 then Some (ret, last_id, X)
               else if length rows < QUERY_LIMIT then Some (0, last_id, X)
               else load_operlog E Q db table last_id X))"

end
