(* ===== verification/Frames.thy ===== *)
theory Frames
  imports Load Replay
begin

text \<open>
  What no command changes: the table of assets, and the operation log outside the commands that
  append to it. The collection \<open>asset_frame\<close> holds the facts for every operation.
\<close>

named_theorems asset_frame \<open>operations that keep the table of assets\<close>

section \<open>Balances\<close>

lemma balance_assets [asset_frame]:
  "dict_asset (balance_put L u t a x) = dict_asset L"
  "dict_asset (balance_del L u t a) = dict_asset L"
  "dict_asset (fst (balance_set M L u t a x)) = dict_asset L"
  "dict_asset (fst (balance_sub M L u t a x)) = dict_asset L"
  by (auto simp: balance_put_def balance_del_def balance_set_def balance_sub_def Let_def split: option.splits)

lemma balance_add_assets [asset_frame]: "dict_asset (fst (balance_add M L u t a x)) = dict_asset L"
  by (auto simp: balance_add_def Let_def asset_frame split: option.splits)

lemma balance_assetsD:
  "balance_add M L u t a x = (L', r) \<Longrightarrow> dict_asset L' = dict_asset L"
  "balance_sub M L u t a x = (L', r) \<Longrightarrow> dict_asset L' = dict_asset L"
  using balance_add_assets [of M L u t a x] balance_assets(4) [of M L u t a x] by simp_all

lemma balance_move_assets [asset_frame]:
  "dict_asset (fst (balance_freeze M L u a x)) = dict_asset L"
  "dict_asset (fst (balance_unfreeze M L u a x)) = dict_asset L"
  by (auto simp: balance_freeze_def balance_unfreeze_def Let_def asset_frame dest!: balance_assetsD
      split: option.splits prod.splits)

lemma refused_unchanged:
  "balance_add M L u t a x = (L', None) \<Longrightarrow> L' = L"
  "balance_sub M L u t a x = (L', None) \<Longrightarrow> L' = L"
  by (auto simp: balance_add_def balance_set_def balance_sub_def Let_def split: option.splits if_splits)

section \<open>Orders\<close>

lemma order_put_assets [asset_frame]:
  "order_put M m L order = (m', L', r) \<Longrightarrow> dict_asset L' = dict_asset L"
  using balance_move_assets(1) [of M L]
  by (auto simp: order_put_def Let_def split: option.splits if_splits prod.splits) (metis fst_conv)+

lemma order_finish_assets [asset_frame]:
  "order_finish E live m order S = (m', S', r) \<Longrightarrow> dict_asset (ledger S') = dict_asset (ledger S)"
  using balance_move_assets(2) [of "mpd E" "ledger S"]
  by (auto simp: order_finish_def release_freeze_def Let_def split: option.splits if_splits prod.splits)
    (metis fst_conv)+

lemma settle_assets [asset_frame]:
  "dict_asset (ledger (settle_ask E live m taker maker price amount deal ask_fee bid_fee S)) = dict_asset (ledger S)"
  "dict_asset (ledger (settle_bid E live m taker maker price amount deal ask_fee bid_fee S)) = dict_asset (ledger S)"
  by (simp_all add: settle_ask_def settle_bid_def engine_frame asset_frame)

lemma after_deal_assets [asset_frame]:
  "after_deal E live m maker S = (m', S') \<Longrightarrow> dict_asset (ledger S') = dict_asset (ledger S)"
  by (auto simp: after_deal_def Let_def engine_frame dest!: order_finish_assets split: if_splits prod.splits)

lemma deal_assets [asset_frame]:
  "ask_deal E live m taker maker S = (m', taker', S') \<Longrightarrow> dict_asset (ledger S') = dict_asset (ledger S)"
  "bid_deal E live m taker maker amount used S = (m', taker', S') \<Longrightarrow> dict_asset (ledger S') = dict_asset (ledger S)"
  by (auto simp: ask_deal_def bid_deal_def Let_def engine_frame settle_assets dest!: after_deal_assets split: prod.splits)

lemma limit_ask_loop_assets:
  "limit_ask_loop E live nodes m taker S = (m', taker', S') \<Longrightarrow> dict_asset (ledger S') = dict_asset (ledger S)"
  by (induction nodes arbitrary: m taker S) (fastforce dest: deal_assets split: if_splits option.splits prod.splits)+

lemma limit_bid_loop_assets:
  "limit_bid_loop E live nodes m taker S = (m', taker', S') \<Longrightarrow> dict_asset (ledger S') = dict_asset (ledger S)"
proof (induction nodes arbitrary: m taker S)
  case (Cons node nodes)
  from Cons.prems show ?case
    by (auto simp: Let_def dest!: deal_assets(2) Cons.IH split: if_splits option.splits prod.splits)
qed simp

lemma market_ask_loop_assets:
  "market_ask_loop E live nodes m taker S = (m', taker', S') \<Longrightarrow> dict_asset (ledger S') = dict_asset (ledger S)"
  by (induction nodes arbitrary: m taker S) (fastforce dest: deal_assets split: if_splits option.splits prod.splits)+

lemma market_bid_loop_assets:
  "market_bid_loop E live nodes m taker S = Some (m', taker', S') \<Longrightarrow> dict_asset (ledger S') = dict_asset (ledger S)"
  by (induction nodes arbitrary: m taker S) (fastforce dest: deal_assets split: if_splits option.splits prod.splits)+

lemmas loop_assets = limit_ask_loop_assets limit_bid_loop_assets market_ask_loop_assets market_bid_loop_assets

lemma place_assets [asset_frame]:
  "place_limit_order E live m order S = (m', S') \<Longrightarrow> dict_asset (ledger S') = dict_asset (ledger S)"
  by (auto simp: place_limit_order_def Let_def engine_frame dest!: order_put_assets split: if_splits prod.splits)

lemma put_limit_assets:
  assumes "market_put_limit_order E live m S u side amount price tf mf source = (m', S', r, res)"
  shows "dict_asset (ledger S') = dict_asset (ledger S) \<and> r \<le> 0 \<and> (r < 0 \<longrightarrow> m' = m \<and> S' = S)"
  using assms
  by (auto simp: market_put_limit_order_def execute_limit_ask_order_def execute_limit_bid_order_def Let_def next_order_frame
      dest!: loop_assets place_assets split: if_splits prod.splits)

lemma put_market_assets:
  assumes "market_put_market_order E live m S u side amount tf source = Some (m', S', r, res)"
  shows "dict_asset (ledger S') = dict_asset (ledger S) \<and> r \<le> 0 \<and> (r < 0 \<longrightarrow> m' = m \<and> S' = S)"
  using assms
  by (auto simp: market_put_market_order_def execute_market_ask_order_def execute_market_bid_order_def Let_def
      engine_frame dest!: loop_assets split: if_splits prod.splits option.splits)

lemma cancel_assets:
  assumes "market_cancel_order E live m S order = (m', S', r, res)"
  shows "dict_asset (ledger S') = dict_asset (ledger S) \<and> r = 0"
  using assms by (auto simp: market_cancel_order_def engine_frame dest!: order_finish_assets split: prod.splits)

lemma update_user_assets:
  assumes "update_user_balance E live u a b i change detail D S = (r, detail', D', S')"
  shows "dict_asset (ledger S') = dict_asset (ledger S) \<and> r \<le> 0 \<and> (r < 0 \<longrightarrow> D' = D \<and> S' = S)"
  using assms balance_add_assets [of "mpd E" "ledger S" u BALANCE_TYPE_AVAILABLE a "mpd_abs (mpd E) change"]
    balance_assets(4) [of "mpd E" "ledger S" u BALANCE_TYPE_AVAILABLE a "mpd_abs (mpd E) change"]
  by (auto simp: update_user_balance_def Let_def dest: refused_unchanged split: if_splits option.splits prod.splits)

end
