(* ===== verification/Json_Laws.thy ===== *)
theory Json_Laws
  imports Json_Values
begin

text \<open>
  What the servers rely on when they print a JSON document and another one reads it: the
  documented behaviour of the library Jansson, as locales over the record \<open>json_ops\<close>, and the
  documents of \<open>Json_Values\<close> as an instance.
\<close>

section \<open>Reading what was printed\<close>

text \<open>
  A printed document reads back as an equal document, and equal documents look the same to the
  functions that take them apart. \<open>ascii\<close> are the texts that are valid UTF-8 by themselves.
\<close>

definition ascii :: "string \<Rightarrow> bool" where
  "ascii s = list_all (\<lambda>c. of_char c \<in> {1 .. 127 :: nat}) s"

locale json_lib =
  fixes J :: "'j json_ops" and eq :: "'j \<Rightarrow> 'j \<Rightarrow> bool"
  assumes loads: "json_dumps J v flags = Some s \<Longrightarrow> \<exists>v'. json_loadb J s = Some v' \<and> eq v v'"
    and array: "eq v v' \<Longrightarrow> json_is_array J v' = json_is_array J v \<and> json_array_size J v' = json_array_size J v \<and>
      rel_option eq (json_array_get J v i) (json_array_get J v' i)"
    and object: "eq v v' \<Longrightarrow> rel_option eq (json_object_get J v k) (json_object_get J v' k)"
    and scalar: "rel_option eq x x' \<Longrightarrow> json_is_integer J x' = json_is_integer J x \<and>
      json_integer_value J x' = json_integer_value J x \<and> json_is_string J x' = json_is_string J x \<and>
      json_string_value J x' = json_string_value J x \<and> json_is_object J x' = json_is_object J x"
    and member: "distinct (map fst ms) \<Longrightarrow> json_object_get J (json_object J ms) k = map_of ms k"
    and string_value: "ascii s \<Longrightarrow> json_string_value J (Some (json_string J s)) = Some s"
    and array_set: "json_is_array J v \<Longrightarrow> i < json_array_size J v \<Longrightarrow>
      json_is_array J (json_array_set J v i w) \<and> json_array_size J (json_array_set J v i w) = json_array_size J v \<and>
      json_array_get J (json_array_set J v i w) n = (if n = i then Some w else json_array_get J v n)"
    and object_set: "json_is_object J (Some v) \<Longrightarrow> json_is_object J (Some (json_object_set J v k w))"
begin

lemma array_eqD:
  assumes "eq v v'"
  shows "json_is_array J v' = json_is_array J v" "json_array_size J v' = json_array_size J v"
    "rel_option eq (json_array_get J v i) (json_array_get J v' i)"
  using array [OF assms] by blast+

lemma scalar_eqD:
  assumes "rel_option eq x x'"
  shows "json_is_integer J x' = json_is_integer J x" "json_integer_value J x' = json_integer_value J x"
    "json_is_string J x' = json_is_string J x" "json_string_value J x' = json_string_value J x"
    "json_is_object J x' = json_is_object J x"
  using scalar [OF assms] by blast+

end

section \<open>Building documents\<close>

text \<open>
  The elements of a new array are the values it was given, integers are kept in 64 bits, and a
  real number is printed with all its digits.
\<close>

locale json_build = json_lib +
  assumes array_new: "json_is_array J (json_array J vs) \<and> json_array_size J (json_array J vs) = length vs \<and>
      json_array_get J (json_array J vs) i = (if i < length vs then Some (vs ! i) else None)"
    and integer_value: "- (2 ^ 63) \<le> k \<Longrightarrow> k < 2 ^ 63 \<Longrightarrow>
      json_is_integer J (Some (json_integer J k)) \<and> json_integer_value J (Some (json_integer J k)) = k"
    and real_value: "json_real_value J (Some (json_real J t)) = t"
    and boolean: "json_is_true J (Some (json_boolean J b)) = b"
    and null: "json_is_null J (Some (json_null J))"
    and value_eq: "rel_option eq x x' \<Longrightarrow> json_real_value J x' = json_real_value J x \<and>
      json_is_true J x' = json_is_true J x \<and> json_is_null J x' = json_is_null J x"
begin

lemma array_simps [simp]:
  "json_is_array J (json_array J vs)" "json_array_size J (json_array J vs) = length vs"
  "json_array_get J (json_array J vs) i = (if i < length vs then Some (vs ! i) else None)"
  using array_new by blast+

lemma integer_simps:
  "- (2 ^ 63) \<le> k \<Longrightarrow> k < 2 ^ 63 \<Longrightarrow> json_integer_value J (Some (json_integer J k)) = k"
  using integer_value by blast

end

section \<open>The instance\<close>

interpretation jv: json_build jv_ops "(=)"
proof
  fix v v' :: jv and flags s
  show "json_dumps jv_ops v flags = Some s \<Longrightarrow> \<exists>v'. json_loadb jv_ops s = Some v' \<and> v = v'"
    using jv_round_trip by blast
qed (auto simp: jv_ops_def option.rel_eq nth_list_update elim!: jv_is_array.elims split: option.splits jv.splits)

end
