(* ===== verification/Recovery.thy ===== *)
theory Recovery
  imports Frames Json_Laws
begin

text \<open>
  The engine restarts from its operation log: executing the commands of the log on the state the
  log was started from gives the state the commands gave when they arrived. The run of a server
  is a sequence of events: packets, and the timers that write the log, the history and the
  messages, clear the cache and forget old updates of balances.
\<close>

section \<open>Reading the log\<close>

context json_lib
begin

text \<open>A parameter that is read from the log is the parameter the command had.\<close>

lemma params_eq:
  assumes "json E = J" "json E' = J" "mpd E' = mpd E" "eq params params'"
  shows "int_param E' params' i = int_param E params i" "str_param E' params' i = str_param E params i"
    "positive_param E' params' i p = positive_param E params i p" "rate_param E' params' i p = rate_param E params i p"
    "side_param E' params' i = side_param E params i"
proof -
  note e = scalar_eqD [OF array_eqD(3) [OF assms(4)]]
  show i: "int_param E' params' i = int_param E params i" and s: "str_param E' params' i = str_param E params i" for i
    by (simp_all add: int_param_def str_param_def assms e)
  show "positive_param E' params' i p = positive_param E params i p" "rate_param E' params' i p = rate_param E params i p"
    "side_param E' params' i = side_param E params i"
    by (simp_all add: positive_param_def rate_param_def side_param_def assms i s)
qed

text \<open>The log entry of a command, read back: the loader finds its method and its parameters.\<close>

lemma load_logged:
  assumes E: "json E = J" "json E' = J" and a: "ascii meth" "json_is_array J params"
    and d: "json_dumps J (oper_detail E meth params) flags = Some s"
  shows "\<exists>detail params'. json_loadb J s = Some detail \<and> eq params params' \<and> json_is_array J params' \<and>
    json_string_value J (json_object_get J detail ''method'') = Some meth \<and>
    json_object_get J detail ''params'' = Some params'"
proof -
  from loads [OF d] obtain detail where l: "json_loadb J s = Some detail" and e: "eq (oper_detail E meth params) detail"
    by blast
  have g: "json_object_get J (oper_detail E meth params) ''method'' = Some (json_string J meth)"
    "json_object_get J (oper_detail E meth params) ''params'' = Some params"
    using E by (simp_all add: oper_detail_def member)
  have "json_string_value J (json_object_get J detail ''method'') = Some meth"
    using scalar_eqD(4) [OF object [OF e, of "''method''"]] g(1) string_value [OF a(1)] by simp
  moreover obtain params' where "json_object_get J detail ''params'' = Some params'" "eq params params'"
    using object [OF e, of "''params''"] g(2) by (cases "json_object_get J detail ''params''") auto
  ultimately show ?thesis using l a(2) array_eqD(1) by blast
qed

end

section \<open>Servers that agree\<close>

text \<open>
  Two servers agree when they have the same balances and id counters, the same markets up to the
  time stamps of the orders, and know the same updates of balances.
\<close>

definition same_server :: "('d, 'j) server \<Rightarrow> ('d, 'j) server \<Rightarrow> bool" where
  "same_server X Y \<longleftrightarrow> same_engine (sv_engine X) (sv_engine Y) \<and>
     (\<forall>name. rel_option same_market (sv_markets X name) (sv_markets Y name)) \<and>
     dom (sv_updates X) = dom (sv_updates Y)"

lemma same_serverD:
  assumes "same_server X Y"
  shows "same_engine (sv_engine X) (sv_engine Y)" "ledger (sv_engine Y) = ledger (sv_engine X)"
    "rel_option same_market (sv_markets X name) (sv_markets Y name)"
    "sv_updates X key = None \<longleftrightarrow> sv_updates Y key = None"
  using assms by (auto simp: same_server_def same_engine_def)

lemma same_server_market:
  assumes "same_server X Y" "get_market (sv_markets X) name = Some m"
  obtains m' where "get_market (sv_markets Y) name = Some m'" "same_market m m'" "m_stock_prec m' = m_stock_prec m"
    "m_money_prec m' = m_money_prec m" "m_fee_prec m' = m_fee_prec m"
proof -
  from same_serverD(3) [OF assms(1), of name] assms(2)
  obtain m' where m': "get_market (sv_markets Y) name = Some m'" "same_market m m'"
    by (cases "sv_markets Y name") (auto simp: get_market_def)
  with same_marketD [OF m'(2)] that show thesis by auto
qed

lemma same_server_set:
  assumes "same_server X Y" "same_market m m'" "same_engine S S'"
  shows "same_server (set_market name m S X) (set_market name m' S' Y)"
  using assms by (auto simp: same_server_def set_market_def)

lemma same_server_keep:
  "same_server X Y \<Longrightarrow> sv_updates X' = sv_updates X \<Longrightarrow> sv_markets X' = sv_markets X \<Longrightarrow>
   ledger (sv_engine X') = ledger (sv_engine X) \<Longrightarrow> order_id_start (sv_engine X') = order_id_start (sv_engine X) \<Longrightarrow>
   deals_id_start (sv_engine X') = deals_id_start (sv_engine X) \<Longrightarrow> same_server X' Y"
  by (simp add: same_server_def same_engine_def)

lemma same_server_log:
  "same_server X Y \<Longrightarrow> append_operlog E meth params (sv_engine X) (sv_oplog X) = (S, lg) \<Longrightarrow>
   same_server (X\<lparr>sv_engine := S, sv_oplog := lg\<rparr>) Y"
  by (auto simp: same_server_def append_operlog_def same_engine_def Let_def)

section \<open>Events\<close>

datatype event =
  Packet load rpc_pkg
| FlushLog string
| FlushHistory "(history_type \<times> u64) list"
| FlushMessages
| ClearCache
| ForgetUpdates int

text \<open>One event; \<open>None\<close> when it never returns or crashes the process.\<close>

fun server_step :: "('d, 'j) env \<Rightarrow> 'd settings \<Rightarrow> event \<Rightarrow> ('d, 'j) server \<Rightarrow> ('d, 'j) server option" where
  "server_step E st (Packet ld pkg) X = map_option fst (svr_on_recv_pkg E st ld pkg X)"
| "server_step E st (FlushLog table) X = map_option (\<lambda>lg. X\<lparr>sv_oplog := lg\<rparr>) (operlog_on_timer table (sv_oplog X))"
| "server_step E st (FlushHistory keys) X =
     Some (X\<lparr>sv_engine := (sv_engine X)\<lparr>hist := history_flush keys (hist (sv_engine X))\<rparr>\<rparr>)"
| "server_step E st FlushMessages X =
     Some (X\<lparr>sv_engine := (sv_engine X)\<lparr>msgs := message_on_timer (kafka E) (msgs (sv_engine X))\<rparr>\<rparr>)"
| "server_step E st ClearCache X = Some (on_cache_timer X)"
| "server_step E st (ForgetUpdates now) X = Some (X\<lparr>sv_updates := update_on_timer now (sv_updates X)\<rparr>)"

fun server_run :: "('d, 'j) env \<Rightarrow> 'd settings \<Rightarrow> event list \<Rightarrow> ('d, 'j) server \<Rightarrow> ('d, 'j) server option" where
  "server_run E st [] X = Some X"
| "server_run E st (e # es) X = (case server_step E st e X of None \<Rightarrow> None | Some X \<Rightarrow> server_run E st es X)"


section \<open>Every command is recovered\<close>

text \<open>
  What a step from \<open>X\<close> to \<open>X'\<close> leaves for a server \<open>Y\<close> that agrees with \<open>X\<close>: either
  nothing was logged and \<open>Y\<close> still agrees, or one entry with the next id was, and loading its text
  succeeds and makes \<open>Y\<close> agree with \<open>X'\<close>.
\<close>

definition logs_nothing :: "('d, 'j) server \<Rightarrow> ('d, 'j) server \<Rightarrow> ('d, 'j) server \<Rightarrow> bool" where
  "logs_nothing X X' Y \<longleftrightarrow> log_entries (sv_oplog X') = log_entries (sv_oplog X) \<and>
     operlog_id_start (sv_oplog X') = operlog_id_start (sv_oplog X) \<and> same_server X' Y"

definition logs_one :: "('d, 'j) env \<Rightarrow> ('d, 'j) server \<Rightarrow> ('d, 'j) server \<Rightarrow> ('d, 'j) server \<Rightarrow> bool" where
  "logs_one E' X X' Y \<longleftrightarrow> (\<exists>t d. log_entries (sv_oplog X') =
       log_entries (sv_oplog X) @ [(operlog_id_start (sv_oplog X) + 1, t, d)] \<and>
     operlog_id_start (sv_oplog X') = operlog_id_start (sv_oplog X) + 1 \<and>
     (\<forall>s. d = Some s \<longrightarrow> (\<exists>detail Y'. json_loadb (json E') s = Some detail \<and> load_oper E' detail Y = Some (0, Y') \<and>
        same_server X' Y')))"

definition recoverable :: "('d, 'j) env \<Rightarrow> ('d, 'j) server \<Rightarrow> ('d, 'j) server \<Rightarrow> ('d, 'j) server \<Rightarrow> bool" where
  "recoverable E' X X' Y \<longleftrightarrow> dict_asset (ledger (sv_engine X')) = dict_asset (ledger (sv_engine X)) \<and>
     (logs_nothing X X' Y \<or> logs_one E' X X' Y)"

lemma recoverable_same: "same_server X Y \<Longrightarrow> recoverable E' X X Y"
  by (simp add: recoverable_def logs_nothing_def)

lemma check_Some: "check b = Some x \<longleftrightarrow> b"
  by (simp add: check_def)

lemma limit_params_SomeD:
  assumes "limit_params E D params = Some (u, name, m, side, amount, price, tf, mf, source)"
  shows "json_array_size (json E) params = 8" "str_param E params 1 = Some name" "get_market D name = Some m"
    "side_param E params 2 = Some side" "\<exists>n. int_param E params 0 = Some n \<and> u = word_of_int n"
    "positive_param E params 3 (m_stock_prec m) = Some amount" "positive_param E params 4 (m_money_prec m) = Some price"
    "rate_param E params 5 (m_fee_prec m) = Some tf" "rate_param E params 6 (m_fee_prec m) = Some mf"
    "str_param E params 7 = Some source" "length source < SOURCE_MAX_LEN"
    "\<exists>n. int_param E params 2 = Some n"
  using assms by (auto simp: limit_params_def market_param_def side_param_def check_Some Let_def bind_eq_Some_conv)

lemma market_order_params_SomeD:
  assumes "market_order_params E D params = Some (u, name, m, side, amount, tf, source)"
  shows "json_array_size (json E) params = 6" "str_param E params 1 = Some name" "get_market D name = Some m"
    "side_param E params 2 = Some side" "\<exists>n. int_param E params 0 = Some n \<and> u = word_of_int n"
    "positive_param E params 3 (m_stock_prec m) = Some amount" "rate_param E params 4 (m_fee_prec m) = Some tf"
    "str_param E params 5 = Some source" "length source < SOURCE_MAX_LEN" "\<exists>n. int_param E params 2 = Some n"
  using assms by (auto simp: market_order_params_def market_param_def side_param_def check_Some Let_def bind_eq_Some_conv)

lemma cancel_params_SomeD:
  assumes "cancel_params E D params = Some (u, name, m, order_id)"
  shows "json_array_size (json E) params = 3" "str_param E params 1 = Some name" "get_market D name = Some m"
    "\<exists>n. int_param E params 0 = Some n" "\<exists>n. int_param E params 2 = Some n \<and> order_id = word_of_int n"
  using assms by (auto simp: cancel_params_def market_param_def check_Some Let_def bind_eq_Some_conv)

lemma update_params_SomeD:
  assumes "update_params E L params = Some (u, asset, business, business_id, change, detail)"
  shows "json_array_size (json E) params = 6" "str_param E params 1 = Some asset" "\<not> asset_prec_show L asset < 0"
    "str_param E params 2 = Some business" "\<exists>n. int_param E params 0 = Some n \<and> u = word_of_int n"
    "\<exists>n. int_param E params 3 = Some n \<and> business_id = word_of_int n"
    "\<exists>s. str_param E params 4 = Some s \<and> decimal (mpd E) s (asset_prec_show L asset) = Some change"
    "json_array_get (json E) params 5 = Some detail" "json_is_object (json E) (Some detail)"
  using assms by (auto simp: update_params_def check_Some Let_def bind_eq_Some_conv)

lemma update_user_dom:
  assumes "update_user_balance E live u a b i change detail D S = (r, detail1, D1, S1)"
  shows "dom D1 = (if r = 0 then insert (update_key u a b i) (dom D) else dom D)"
  using assms by (auto simp: update_user_balance_def Let_def split: if_splits option.splits prod.splits)

lemma same_update_user_balance:
  assumes E: "mpd E' = mpd E" and S: "same_engine S S'" and D: "dom D = dom D'"
    and up: "update_user_balance E True u a b i change detail D S = (r, detail1, D1, S1)"
      "update_user_balance E' False u a b i change detail' D' S' = (r', detail1', D1', S1')"
  shows "same_engine S1 S1' \<and> dom D1 = dom D1' \<and> r' = r"
proof -
  have L: "ledger S' = ledger S" "order_id_start S' = order_id_start S" "deals_id_start S' = deals_id_start S"
    using S by (simp_all add: same_engine_def)
  have k: "D' key = None \<longleftrightarrow> D key = None" for key using D by (metis domIff)
  have "same_engine S1 S1' \<and> r' = r"
    using up L by (auto simp: update_user_balance_def Let_def E k same_engine_def split: if_splits option.splits prod.splits)
  then show ?thesis using D update_user_dom [OF up(1)] update_user_dom [OF up(2)] by simp
qed

text \<open>The live call adds the id to the detail document of an update that is made.\<close>

lemma update_detail:
  assumes "update_user_balance E True u a b i change detail D S = (0, detail', D', S')"
  shows "detail' = json_object_set (json E) detail ''id'' (json_integer (json E) (sint i))"
  using assms by (auto simp: update_user_balance_def Let_def split: if_splits option.splits prod.splits)

definition precs_agree :: "('d, 'j) server \<Rightarrow> bool" where
  "precs_agree X \<longleftrightarrow> (\<forall>asset. asset_prec_show (ledger (sv_engine X)) asset = asset_prec (ledger (sv_engine X)) asset)"

text \<open>A refused command leaves its market as it was.\<close>

lemma set_market_same: "get_market (sv_markets X) name = Some m \<Longrightarrow> set_market name m (sv_engine X) X = X"
  by (auto simp: set_market_def get_market_def fun_eq_iff)

lemma depth_recoverable:
  assumes XY: "same_server X Y" and step: "on_cmd_order_book_depth E st pkg params X = (X', reply)"
  shows "recoverable E' X X' Y"
  using step
  by (auto simp: on_cmd_order_book_depth_def process_cache_def add_cache_def Let_def recoverable_def logs_nothing_def
      intro!: same_server_keep [OF XY] split: option.splits if_splits)

context json_lib
begin

text \<open>A command that was logged is recovered when executing it on \<open>Y\<close> gives what it gave on \<open>X\<close>.\<close>

lemma recover_logged:
  assumes E: "json E = J" "json E' = J" and a: "ascii meth" "json_is_array J params"
    and lr: "append_operlog E meth params (sv_engine X1) (sv_oplog X1) = (S, lg)" "sv_oplog X1 = sv_oplog X"
    and f: "dict_asset (ledger (sv_engine X1)) = dict_asset (ledger (sv_engine X))"
    and run: "\<And>params' detail. eq params params' \<Longrightarrow>
      json_string_value J (json_object_get J detail ''method'') = Some meth \<Longrightarrow>
      json_object_get J detail ''params'' = Some params' \<Longrightarrow> json_is_array J params' \<Longrightarrow>
      \<exists>Y'. load_oper E' detail Y = Some (0, Y') \<and> same_server X1 Y'"
  shows "recoverable E' X (X1\<lparr>sv_engine := S, sv_oplog := lg\<rparr>) Y"
proof -
  let ?X = "X1\<lparr>sv_engine := S, sv_oplog := lg\<rparr>"
  have s: "ledger S = ledger (sv_engine X1)" "operlog_id_start lg = operlog_id_start (sv_oplog X) + 1"
    using lr by (auto simp: append_operlog_def Let_def)
  have "\<exists>detail Y'. json_loadb (json E') s = Some detail \<and> load_oper E' detail Y = Some (0, Y') \<and> same_server ?X Y'"
    if d: "json_dumps (json E) (oper_detail E meth params) JSON_SORT_KEYS = Some s" for s
  proof -
    from d E have d': "json_dumps J (oper_detail E meth params) JSON_SORT_KEYS = Some s" by simp
    from load_logged [OF E a d'] obtain detail params' where l: "json_loadb J s = Some detail" "eq params params'"
      "json_is_array J params'" "json_string_value J (json_object_get J detail ''method'') = Some meth"
      "json_object_get J detail ''params'' = Some params'" by blast
    from run [OF l(2,4,5,3)] obtain Y' where "load_oper E' detail Y = Some (0, Y')" "same_server X1 Y'" by blast
    with l(1) E same_server_log [OF this(2) lr(1)] show ?thesis by auto
  qed
  then have "logs_one E' X ?X Y"
    using log_entries_append [OF lr(1)] s(2) lr(2) by (auto simp: logs_one_def)
  then show ?thesis using s(1) f by (simp add: recoverable_def)
qed

lemma order_put_limit_recoverable:
  assumes E: "json E = J" "json E' = J" "mpd E' = mpd E" and XY: "same_server X Y" and arr: "json_is_array J params"
    and step: "on_cmd_order_put_limit E st pkg params X = (X', reply)"
  shows "recoverable E' X X' Y"
proof (cases "limit_params E (sv_markets X) params")
  case None
  with step recoverable_same [OF XY] show ?thesis by (simp add: on_cmd_order_put_limit_def)
next
  case (Some p)
  obtain u name m side amount price tf mf source where p: "p = (u, name, m, side, amount, price, tf, mf, source)"
    by (cases p) auto
  note q = limit_params_SomeD [OF Some [unfolded p]]
  obtain m1 S1 r res where put: "market_put_limit_order E True m (sv_engine X) u side amount price tf mf source = (m1, S1, r, res)"
    by (metis prod_cases4)
  note f = put_limit_assets [OF put]
  from same_server_market [OF XY q(3)] obtain m' where m': "get_market (sv_markets Y) name = Some m'" "same_market m m'"
    "m_stock_prec m' = m_stock_prec m" "m_money_prec m' = m_money_prec m" "m_fee_prec m' = m_fee_prec m" by metis
  obtain m2 S2 r2 res2 where put': "market_put_limit_order E' False m' (sv_engine Y) u side amount price tf mf source = (m2, S2, r2, res2)"
    by (metis prod_cases4)
  from same_put_limit_order [OF E(3) m'(2) same_serverD(1) [OF XY] put put']
  have same: "same_server (set_market name m1 S1 X) (set_market name m2 S2 Y)" "r2 = r"
    using same_server_set [OF XY] by auto
  show ?thesis
  proof (cases "r < 0")
    case True
    with f step have "X' = set_market name m (sv_engine X) X"
      by (auto simp: on_cmd_order_put_limit_def Some p put Let_def split: if_splits)
    with recoverable_same [OF XY] set_market_same [OF q(3)] show ?thesis by simp
  next
    case False
    with f have r: "r = 0" by simp
    obtain S lg where lr: "append_operlog E ''limit_order'' params S1 (sv_oplog X) = (S, lg)" by fastforce
    have "\<exists>Y'. load_oper E' detail Y = Some (0, Y') \<and> same_server (set_market name m1 S1 X) Y'"
      if "eq params params'" "json_string_value J (json_object_get J detail ''method'') = Some ''limit_order''"
        "json_object_get J detail ''params'' = Some params'" "json_is_array J params'" for params' detail
    proof -
      note e = params_eq [OF E that(1)] array_eqD(2) [OF that(1)]
      have "load_limit_order E' params' Y = (0, set_market name m2 S2 Y)"
        using q put' r same(2) m'
        by (elim exE conjE) (simp add: load_limit_order_def load_limit_values_def E e check_def del: One_nat_def)
      then show ?thesis using that(2-4) same(1) by (simp add: load_oper_def E)
    qed
    then have "recoverable E' X ((set_market name m1 S1 X)\<lparr>sv_engine := S, sv_oplog := lg\<rparr>) Y"
      using lr f arr by (intro recover_logged [OF E(1,2), where meth = "''limit_order''" and params = params])
        (auto simp: set_market_def ascii_def)
    then show ?thesis
      using step r lr by (auto simp: on_cmd_order_put_limit_def Some p put Let_def log_and_reply_def set_market_def)
  qed
qed

lemma order_put_market_recoverable:
  assumes E: "json E = J" "json E' = J" "mpd E' = mpd E" and XY: "same_server X Y" and arr: "json_is_array J params"
    and step: "on_cmd_order_put_market E st pkg params X = Some (X', reply)"
  shows "recoverable E' X X' Y"
proof (cases "market_order_params E (sv_markets X) params")
  case None
  with step recoverable_same [OF XY] show ?thesis by (simp add: on_cmd_order_put_market_def)
next
  case (Some p)
  obtain u name m side amount tf source where p: "p = (u, name, m, side, amount, tf, source)"
    by (cases p) auto
  note q = market_order_params_SomeD [OF Some [unfolded p]]
  from step obtain m1 S1 r res where
    put: "market_put_market_order E True m (sv_engine X) u side amount tf source = Some (m1, S1, r, res)"
    by (auto simp: on_cmd_order_put_market_def Some p)
  note f = put_market_assets [OF put]
  from same_server_market [OF XY q(3)] obtain m' where m': "get_market (sv_markets Y) name = Some m'" "same_market m m'"
    "m_stock_prec m' = m_stock_prec m" "m_fee_prec m' = m_fee_prec m" by metis
  from same_put_market_order [OF E(3) m'(2) same_serverD(1) [OF XY] put, of False]
  obtain m2 S2 res2 where put': "market_put_market_order E' False m' (sv_engine Y) u side amount tf source = Some (m2, S2, r, res2)"
    and "same_market m1 m2" "same_engine S1 S2" by blast
  then have same: "same_server (set_market name m1 S1 X) (set_market name m2 S2 Y)"
    using same_server_set [OF XY] by auto
  show ?thesis
  proof (cases "r < 0")
    case True
    with f step have "X' = set_market name m (sv_engine X) X"
      by (auto simp: on_cmd_order_put_market_def Some p put Let_def split: if_splits)
    with recoverable_same [OF XY] set_market_same [OF q(3)] show ?thesis by simp
  next
    case False
    with f have r: "r = 0" by simp
    obtain S lg where lr: "append_operlog E ''market_order'' params S1 (sv_oplog X) = (S, lg)" by fastforce
    have "\<exists>Y'. load_oper E' detail Y = Some (0, Y') \<and> same_server (set_market name m1 S1 X) Y'"
      if "eq params params'" "json_string_value J (json_object_get J detail ''method'') = Some ''market_order''"
        "json_object_get J detail ''params'' = Some params'" "json_is_array J params'" for params' detail
    proof -
      note e = params_eq [OF E that(1)] array_eqD(2) [OF that(1)]
      have "load_market_order E' params' Y = Some (0, set_market name m2 S2 Y)"
        using q put' r m'
        by (elim exE conjE) (simp add: load_market_order_def load_market_values_def E e check_def del: One_nat_def)
      then show ?thesis using that(2-4) same by (simp add: load_oper_def E)
    qed
    then have "recoverable E' X ((set_market name m1 S1 X)\<lparr>sv_engine := S, sv_oplog := lg\<rparr>) Y"
      using lr f arr by (intro recover_logged [OF E(1,2), where meth = "''market_order''" and params = params])
        (auto simp: set_market_def ascii_def)
    then show ?thesis
      using step r lr by (auto simp: on_cmd_order_put_market_def Some p put Let_def log_and_reply_def set_market_def)
  qed
qed

lemma order_cancel_recoverable:
  assumes E: "json E = J" "json E' = J" "mpd E' = mpd E" and XY: "same_server X Y" and arr: "json_is_array J params"
    and step: "on_cmd_order_cancel E st pkg params X = (X', reply)"
  shows "recoverable E' X X' Y"
proof (cases "cancel_params E (sv_markets X) params")
  case None
  with step recoverable_same [OF XY] show ?thesis by (simp add: on_cmd_order_cancel_def)
next
  case (Some p)
  obtain u name m oid where p: "p = (u, name, m, oid)" by (cases p) auto
  note q = cancel_params_SomeD [OF Some [unfolded p]]
  show ?thesis
  proof (cases "\<exists>order. market_get_order m oid = Some order \<and> o_user_id order = u")
    case False
    then have "X' = X" using step by (auto simp: on_cmd_order_cancel_def Some p split: option.splits if_splits)
    with recoverable_same [OF XY] show ?thesis by simp
  next
    case True
    then obtain order where o: "market_get_order m oid = Some order" "o_user_id order = u" by blast
    obtain m1 S1 r res where can: "market_cancel_order E True m (sv_engine X) order = (m1, S1, r, res)"
      by (metis prod_cases4)
    note f = cancel_assets [OF can]
    from same_server_market [OF XY q(3)] obtain m' where m': "get_market (sv_markets Y) name = Some m'" "same_market m m'"
      by metis
    from same_market_lookup [OF m'(2), of oid] o(1) obtain order' where
      o': "market_get_order m' oid = Some order'" "same_order order order'"
      by (cases "m_orders m' oid") (auto simp: market_get_order_def)
    obtain m2 S2 r2 res2 where can': "market_cancel_order E' False m' (sv_engine Y) order' = (m2, S2, r2, res2)"
      by (metis prod_cases4)
    from same_cancel_order [OF E(3) m'(2) o'(2) same_serverD(1) [OF XY] can can']
    have same: "same_server (set_market name m1 S1 X) (set_market name m2 S2 Y)" "r2 = 0"
      using same_server_set [OF XY] f by auto
    obtain S lg where lr: "append_operlog E ''cancel_order'' params S1 (sv_oplog X) = (S, lg)" by fastforce
    have "\<exists>Y'. load_oper E' detail Y = Some (0, Y') \<and> same_server (set_market name m1 S1 X) Y'"
      if "eq params params'" "json_string_value J (json_object_get J detail ''method'') = Some ''cancel_order''"
        "json_object_get J detail ''params'' = Some params'" "json_is_array J params'" for params' detail
    proof -
      note e = params_eq [OF E that(1)] array_eqD(2) [OF that(1)]
      have "load_cancel_order E' params' Y = (0, set_market name m2 S2 Y)"
        using q can' same(2) m' o'
        by (elim exE conjE) (simp add: load_cancel_order_def E e del: One_nat_def)
      then show ?thesis using that(2-4) same by (simp add: load_oper_def E)
    qed
    then have "recoverable E' X ((set_market name m1 S1 X)\<lparr>sv_engine := S, sv_oplog := lg\<rparr>) Y"
      using lr f arr by (intro recover_logged [OF E(1,2), where meth = "''cancel_order''" and params = params])
        (auto simp: set_market_def ascii_def)
    then show ?thesis
      using step f lr o by (auto simp: on_cmd_order_cancel_def Some p can Let_def log_and_reply_def set_market_def)
  qed
qed

text \<open>
  An update of a balance reads its amount with the precision that is shown, the loader with the
  precision that is saved: only when they agree is the amount the same.
\<close>

lemma balance_update_recoverable:
  assumes E: "json E = J" "json E' = J" "mpd E' = mpd E" and XY: "same_server X Y" and arr: "json_is_array J params"
    and prec: "precs_agree X" and step: "on_cmd_balance_update E st pkg params X = (X', reply)"
  shows "recoverable E' X X' Y"
proof (cases "update_params E (ledger (sv_engine X)) params")
  case None
  with step recoverable_same [OF XY] show ?thesis by (simp add: on_cmd_balance_update_def)
next
  case (Some p)
  obtain u a b i change detail where p: "p = (u, a, b, i, change, detail)" by (cases p) auto
  note q = update_params_SomeD [OF Some [unfolded p]]
  obtain r d1 D1 S1 where up: "update_user_balance E True u a b i change detail (sv_updates X) (sv_engine X) = (r, d1, D1, S1)"
    by (metis prod_cases4)
  note f = update_user_assets [OF up]
  let ?X = "X\<lparr>sv_engine := S1, sv_updates := D1\<rparr>"
  show ?thesis
  proof (cases "r < 0")
    case True
    with f step have "X' = X" by (auto simp: on_cmd_balance_update_def Some p up Let_def split: if_splits)
    with recoverable_same [OF XY] show ?thesis by simp
  next
    case False
    with f have r: "r = 0" by simp
    define params1 where "params1 = json_array_set J params 5 d1"
    have s: "json_is_array J params1" "json_array_size J params1 = 6" "json_array_get J params1 5 = Some d1"
      "\<And>k. k \<noteq> 5 \<Longrightarrow> json_array_get J params1 k = json_array_get J params k"
      using array_set [OF arr, of 5] q(1) by (simp_all add: params1_def E)
    have o: "json_is_object J (Some d1)"
      using object_set [of detail] q(9) update_detail [OF up [unfolded r]] by (simp add: E)
    obtain S lg where lr: "append_operlog E ''update_balance'' params1 S1 (sv_oplog X) = (S, lg)" by fastforce
    have "\<exists>Y'. load_oper E' detail' Y = Some (0, Y') \<and> same_server ?X Y'"
      if "eq params1 params'" "json_string_value J (json_object_get J detail' ''method'') = Some ''update_balance''"
        "json_object_get J detail' ''params'' = Some params'" "json_is_array J params'" for params' detail'
    proof -
      have k: "int_param E' params' k = int_param E params k" "str_param E' params' k = str_param E params k" if "k \<noteq> 5" for k
        using params_eq(1,2) [OF E \<open>eq params1 params'\<close>, of k] s(4) [OF that] by (simp_all add: int_param_def str_param_def E)
      from array_eqD(3) [OF that(1), of 5] s(3) o scalar_eqD(5)
      obtain d' where d': "json_array_get J params' 5 = Some d'" "json_is_object J (Some d')"
        by (cases "json_array_get J params' 5") fastforce+
      obtain r2 d2 D2 S2 where
        up': "update_user_balance E' False u a b i change d' (sv_updates Y) (sv_engine Y) = (r2, d2, D2, S2)"
        by (metis prod_cases4)
      from same_update_user_balance [OF E(3) same_serverD(1) [OF XY] _ up up'] XY
      have m: "same_server ?X (Y\<lparr>sv_engine := S2, sv_updates := D2\<rparr>)" "r2 = 0"
        using r by (auto simp: same_server_def)
      have "load_update_balance E' params' Y = (0, Y\<lparr>sv_engine := S2, sv_updates := D2\<rparr>)"
        using q k array_eqD(2) [OF that(1)] s(2) d' up' m(2) prec same_serverD(2) [OF XY]
        by (elim exE conjE) (simp add: load_update_balance_def Let_def E precs_agree_def del: One_nat_def)
      then show ?thesis using that(2-4) m(1) by (simp add: load_oper_def E)
    qed
    then have "recoverable E' X (?X\<lparr>sv_engine := S, sv_oplog := lg\<rparr>) Y"
      using lr f s(1) by (intro recover_logged [OF E(1,2), where meth = "''update_balance''" and params = params1])
        (auto simp: ascii_def)
    then show ?thesis
      using step r lr by (auto simp: on_cmd_balance_update_def Some p up Let_def params1_def E)
  qed
qed

lemma packet_recoverable:
  assumes E: "json E = J" "json E' = J" "mpd E' = mpd E" and XY: "same_server X Y" and prec: "precs_agree X"
    and step: "svr_on_recv_pkg E st ld pkg X = Some (X', act)"
  shows "recoverable E' X X' Y"
proof (cases "X' = X")
  case True
  with recoverable_same [OF XY] show ?thesis by simp
next
  case False
  with step obtain params reply where arr: "json_is_array J params" and d: "dispatch E st ld pkg params X = Some (X', reply)"
    by (auto simp: svr_on_recv_pkg_def E split: option.splits if_splits)
  then show ?thesis
    using False recoverable_same [OF XY, of E'] order_put_market_recoverable [OF E XY arr, of st pkg X' reply]
      order_put_limit_recoverable [OF E XY arr, of st pkg X' reply] order_cancel_recoverable [OF E XY arr, of st pkg X' reply]
      balance_update_recoverable [OF E XY arr prec, of st pkg X' reply] depth_recoverable [OF XY, of E st pkg params X' reply E']
    by (auto simp: dispatch_def unless_blocked_def Let_def on_cmd_balance_query_def on_cmd_asset_list_def
        on_cmd_asset_summary_def on_cmd_order_query_def on_cmd_order_book_def on_cmd_order_detail_def
        on_cmd_market_list_def on_cmd_market_summary_def split: if_splits)
qed

lemma step_recoverable:
  assumes E: "json E = J" "json E' = J" "mpd E' = mpd E" and XY: "same_server X Y" and prec: "precs_agree X"
    and step: "server_step E st e X = Some X'" and e: "\<And>now. e \<noteq> ForgetUpdates now"
  shows "recoverable E' X X' Y"
proof (cases e)
  case (Packet ld pkg)
  with step packet_recoverable [OF E XY prec] show ?thesis by auto
next
  case (FlushLog table)
  with step show ?thesis
    by (auto simp: recoverable_def logs_nothing_def intro!: same_server_keep [OF XY] dest!: log_entries_flush)
qed (use step e in \<open>auto simp: recoverable_def logs_nothing_def on_cache_timer_def intro!: same_server_keep [OF XY]\<close>)

lemma recover_run:
  assumes E: "json E = J" "json E' = J" "mpd E' = mpd E"
  shows "server_run E st es X = Some X' \<Longrightarrow> same_server X Y \<Longrightarrow> precs_agree X \<Longrightarrow> \<forall>now. ForgetUpdates now \<notin> set es \<Longrightarrow>
    \<exists>new. log_entries (sv_oplog X') = log_entries (sv_oplog X) @ new \<and>
      (\<forall>rows. new = map (\<lambda>(i, t, s). (i, t, Some s)) rows \<longrightarrow>
        (\<exists>Y'. load_oper_rows E' (map (\<lambda>(i, t, s). (i, s)) rows) (operlog_id_start (sv_oplog X)) Y =
           Some (0, operlog_id_start (sv_oplog X'), Y') \<and> same_server X' Y'))"
proof (induction es arbitrary: X Y)
  case (Cons e es)
  from Cons.prems obtain X1 where s: "server_step E st e X = Some X1" "server_run E st es X1 = Some X'"
    by (auto split: option.splits)
  from Cons.prems have "\<And>now. e \<noteq> ForgetUpdates now" by auto
  note r = step_recoverable [OF E Cons.prems(2,3) s(1) this]
  have p: "precs_agree X1"
    using r Cons.prems(3) by (simp add: recoverable_def precs_agree_def asset_prec_def asset_prec_show_def)
  from r consider "logs_nothing X X1 Y" | "logs_one E' X X1 Y" by (auto simp: recoverable_def)
  then show ?case
  proof cases
    case 1
    with Cons.IH [OF s(2) _ p, of Y] Cons.prems(4) show ?thesis by (auto simp: logs_nothing_def)
  next
    case 2
    then obtain t d where l: "log_entries (sv_oplog X1) = log_entries (sv_oplog X) @ [(operlog_id_start (sv_oplog X) + 1, t, d)]"
      "operlog_id_start (sv_oplog X1) = operlog_id_start (sv_oplog X) + 1"
      "\<And>s. d = Some s \<Longrightarrow> \<exists>detail Y1. json_loadb (json E') s = Some detail \<and> load_oper E' detail Y = Some (0, Y1) \<and> same_server X1 Y1"
      by (auto simp: logs_one_def)
    from Cons.IH [OF s(2) _ p] Cons.prems(4)
    have ih: "same_server X1 Y1 \<Longrightarrow> \<exists>new. log_entries (sv_oplog X') = log_entries (sv_oplog X1) @ new \<and>
      (\<forall>rows. new = map (\<lambda>(i, t, s). (i, t, Some s)) rows \<longrightarrow>
        (\<exists>Y'. load_oper_rows E' (map (\<lambda>(i, t, s). (i, s)) rows) (operlog_id_start (sv_oplog X1)) Y1 =
           Some (0, operlog_id_start (sv_oplog X'), Y') \<and> same_server X' Y'))" for Y1 by auto
    have "same_server X1 X1"
      by (auto simp: same_server_def same_engine_def same_market_def intro: option.rel_refl)
    from ih [OF this] obtain new where new: "log_entries (sv_oplog X') = log_entries (sv_oplog X1) @ new" by blast
    have "\<exists>Y'. load_oper_rows E' (map (\<lambda>(i, t, s). (i, s)) rows) (operlog_id_start (sv_oplog X)) Y =
        Some (0, operlog_id_start (sv_oplog X'), Y') \<and> same_server X' Y'"
      if rows: "(operlog_id_start (sv_oplog X) + 1, t, d) # new = map (\<lambda>(i, t, s). (i, t, Some s)) rows" for rows
    proof -
      from rows obtain s' rows' where m: "rows = (operlog_id_start (sv_oplog X) + 1, t, s') # rows'" "d = Some s'"
        "new = map (\<lambda>(i, t, s). (i, t, Some s)) rows'" by (auto simp: Cons_eq_map_conv)
      from l(3) [OF m(2)] obtain detail Y1 where y: "json_loadb (json E') s' = Some detail"
        "load_oper E' detail Y = Some (0, Y1)" "same_server X1 Y1" by blast
      from ih [OF y(3)] new m(3) obtain Y' where
        "load_oper_rows E' (map (\<lambda>(i, t, s). (i, s)) rows') (operlog_id_start (sv_oplog X1)) Y1 =
           Some (0, operlog_id_start (sv_oplog X'), Y')" "same_server X' Y'" by auto
      then show ?thesis by (simp add: m(1) y(1,2) l(2))
    qed
    then show ?thesis using new l(1) by auto
  qed
qed simp

end

end
