(* ===== verification/Recovery_Properties.thy ===== *)
theory Recovery_Properties
  imports Recovery Example_Market
begin

text \<open>
  The properties of the restart: the log is complete, it is read back page by page, executing it
  recovers the state. The two ways in which the recovery can go wrong are in \<open>Update_Replay\<close>.
\<close>

section \<open>A server for the witnesses\<close>

definition ex_settings :: "dec settings" where
  "ex_settings = \<lparr>st_assets = [], st_markets = [], st_debug = False, st_cache_timeout = 450000, st_walk = (\<lambda>_. [])\<rparr>"

definition ex_load :: load where
  "ex_load = \<lparr>log_pending = 0, history_pending = 0\<rparr>"

text \<open>The server of the example market; \<open>prec\<close> is the precision that is shown of CNY.\<close>

definition ex_server :: "int \<Rightarrow> (dec, jv) server" where
  "ex_server prec = \<lparr>sv_engine = ex_engine\<lparr>ledger := ex_ledger\<lparr>dict_asset := (dict_asset ex_ledger)(''CNY'' \<mapsto>
       \<lparr>prec_save = 8, prec_show = prec\<rparr>)\<rparr>\<rparr>, sv_markets = [''BTCCNY'' \<mapsto> ex_market], sv_updates = Map.empty,
     sv_oplog = init_operlog 0, sv_cache = Map.empty\<rparr>"

definition ex_packet :: "u32 \<Rightarrow> jv \<Rightarrow> rpc_pkg" where
  "ex_packet cmd v = \<lparr>magic = RPC_PKG_MAGIC, command = cmd, pkg_type = 0, pkg_result = 0, pkg_crc32 = 0,
     pkg_sequence = 1, req_id = 1, body_size = word_of_nat (length (show_jv v)), ext_size = 0, pkg_ext = [],
     pkg_body = text_bytes (show_jv v)\<rparr>"

lemma ex_packet_loads:
  assumes "length (show_jv v) < 2 ^ 32"
  shows "json_loadb jv_ops (bytes_text (take (unat (body_size (ex_packet cmd v))) (pkg_body (ex_packet cmd v)))) = Some v"
proof -
  have "unat (body_size (ex_packet cmd v)) = length (show_jv v)"
    using assms by (simp add: ex_packet_def unat_of_nat)
  then show ?thesis using jv_round_trip [of v 0] by (simp add: ex_packet_def) (simp add: jv_ops_def)
qed

section \<open>The log\<close>

text \<open>
  C13. The operation log misses nothing and keeps its order: appending a command adds one entry,
  with the next consecutive id, and a flush moves the waiting entries into a well-formed
  statement without dropping, repeating or reordering one.
\<close>

theorem operlog_complete:
  assumes "log_ok first lg"
  shows "log_ok first (snd (append_operlog E meth params S lg)) \<and>
    log_entries (snd (append_operlog E meth params S lg)) = log_entries lg @
      [(operlog_id_start lg + 1, clock E (ticks S), json_dumps (json E) (oper_detail E meth params) JSON_SORT_KEYS)] \<and>
    (operlog_on_timer table lg = Some lg' \<longrightarrow> log_ok first lg' \<and> log_entries lg' = log_entries lg)"
proof (intro conjI impI)
  let ?lg = "snd (append_operlog E meth params S lg)"
  show e: "log_entries ?lg = log_entries lg @
      [(operlog_id_start lg + 1, clock E (ticks S), json_dumps (json E) (oper_detail E meth params) JSON_SORT_KEYS)]"
    by (rule log_entries_append [of _ _ _ _ _ "fst (append_operlog E meth params S lg)"]) simp
  show "log_ok first ?lg"
    using assms e by (simp add: log_ok_def) (simp add: append_operlog_def Let_def ac_simps)
next
  assume f: "operlog_on_timer table lg = Some lg'"
  show "log_entries lg' = log_entries lg" using log_entries_flush [OF f] by simp
  have "\<forall>job\<in>set (ol_jobs lg'). case job of Insert table toks \<Rightarrow> separated toks | CreateTable table \<Rightarrow> True"
    using assms f
    by (auto simp: operlog_on_timer_def flush_log_def log_ok_def dest!: flush_rows_ok split: if_splits operlog_job.splits)
  then show "log_ok first lg'" using assms log_entries_flush [OF f] by (simp add: log_ok_def)
qed


theorem operlog_complete_witness:
  "\<exists>lg. operlog_on_timer ''t'' (snd (append_operlog ex_env ''m'' JNull ex_engine (init_operlog 5))) = Some lg \<and> log_ok 5 lg \<and>
     map fst (log_entries lg) = [6]"
proof -
  have i: "log_ok 5 (init_operlog 5)" by (simp add: log_ok_def init_operlog_def log_entries_def)
  let ?lg = "snd (append_operlog ex_env ''m'' JNull ex_engine (init_operlog 5))"
  have e: "json ex_env = jv_ops" by (simp add: ex_env_def)
  have f: "\<exists>lg. operlog_on_timer ''t'' ?lg = Some lg"
    by (simp add: append_operlog_def operlog_on_timer_def flush_log_def init_operlog_def e jv_ops_def)
  note c = operlog_complete [OF i, where E = ex_env and meth = "''m''" and params = JNull and S = ex_engine]
  from f obtain lg where lg: "operlog_on_timer ''t'' ?lg = Some lg" by blast
  have "log_ok 5 ?lg" using c by blast
  from operlog_complete [OF this, where E = ex_env and meth = "[]" and params = JNull and S = ex_engine
      and table = "''t''" and lg' = lg] lg
  have k: "log_ok 5 lg" "log_entries lg = log_entries ?lg" by (blast, blast)
  have "log_entries ?lg = [(6, clock ex_env (ticks ex_engine), json_dumps (json ex_env) (oper_detail ex_env ''m'' JNull) JSON_SORT_KEYS)]"
    using c by (simp add: init_operlog_def) (simp add: log_entries_def)
  with lg k show ?thesis by auto
qed

section \<open>Reading the log\<close>

lemma load_oper_rows_split:
  "load_oper_rows E (xs @ ys) last_id X = Some (0, last', Z) \<longleftrightarrow>
   (\<exists>mid Y. load_oper_rows E xs last_id X = Some (0, mid, Y) \<and> load_oper_rows E ys mid Y = Some (0, last', Z))"
  by (induction E xs last_id X rule: load_oper_rows.induct) (auto split: if_splits option.splits prod.splits)

text \<open>Rows that load are numbered without gaps.\<close>

lemma load_oper_rows_ids:
  assumes "load_oper_rows E rows last_id X = Some (0, last', Z)"
  shows "map fst rows = map (\<lambda>k. last_id + 1 + word_of_nat k) [0..<length rows] \<and>
    last' = last_id + word_of_nat (length rows)"
  using assms
proof (induction E rows last_id X rule: load_oper_rows.induct)
  case (2 E i s rows last_id X)
  then have "i = last_id + 1" and ih: "map fst rows = map (\<lambda>k. i + 1 + word_of_nat k) [0..<length rows]"
    "last' = i + word_of_nat (length rows)" by (auto split: if_splits option.splits prod.splits)
  then show ?case by (simp add: upt_conv_Cons map_Suc_upt [symmetric] ac_simps del: upt_Suc)
qed simp

text \<open>
  What the loader relies on: a query returns the rows with a larger id, in their order, at most
  as many as it asks for.
\<close>

definition log_table :: "'db mysql_ops \<Rightarrow> 'db \<Rightarrow> string \<Rightarrow> (u64 \<times> string) list \<Rightarrow> bool" where
  "log_table Q db table rows \<longleftrightarrow>
     (\<forall>last_id n. db_select_operlog Q db table last_id n = Some (take n (filter (\<lambda>r. last_id < fst r) rows)))"

lemma later_rows:
  assumes ids: "map fst rows = map (\<lambda>k. last_id + 1 + word_of_nat k) [0..<length rows]"
    and n: "unat (last_id :: u64) + length rows < 2 ^ 64" "n \<le> length rows"
  shows "filter (\<lambda>r. last_id + word_of_nat n < fst r) rows = drop n rows"
proof -
  have u: "unat (last_id + 1 + word_of_nat k) = unat last_id + 1 + k" if "k < length rows" for k
    using that n(1) by (simp add: unat_word_ariths unat_of_nat)
  have un: "unat (last_id + word_of_nat n) = unat last_id + n"
    using n by (simp add: unat_word_ariths unat_of_nat)
  have f: "fst (rows ! k) = last_id + 1 + word_of_nat k" if "k < length rows" for k
    using arg_cong [OF ids, of "\<lambda>xs. xs ! k"] that by simp
  have l: "last_id + word_of_nat n < fst (rows ! k) \<longleftrightarrow> n \<le> k" if "k < length rows" for k
    using that by (simp add: f word_less_nat_alt u un) linarith
  have "\<not> last_id + word_of_nat n < fst r" if "r \<in> set (take n rows)" for r
  proof -
    from that obtain k where "k < n" "k < length rows" "r = rows ! k" by (auto simp: in_set_conv_nth)
    then show ?thesis using l [of k] by simp
  qed
  then have "filter (\<lambda>r. last_id + word_of_nat n < fst r) (take n rows) = []" by (auto simp: filter_empty_conv)
  moreover have "last_id + word_of_nat n < fst r" if "r \<in> set (drop n rows)" for r
  proof -
    from that obtain k where "k < length rows - n" "r = rows ! (n + k)" by (auto simp: in_set_conv_nth)
    then show ?thesis using l [of "n + k"] by simp
  qed
  then have "filter (\<lambda>r. last_id + word_of_nat n < fst r) (drop n rows) = drop n rows" by simp
  ultimately show ?thesis by (metis append_Nil append_take_drop_id filter_append)
qed

lemma load_operlog_all:
  assumes "log_table Q db table rows" and "unat last_id + length (filter (\<lambda>r. last_id < fst r) rows) < 2 ^ 64"
    and "load_oper_rows E (filter (\<lambda>r. last_id < fst r) rows) last_id X = Some (0, last', X')"
  shows "load_operlog E Q db table last_id X = Some (0, last', X')"
  using assms(2,3)
proof (induction "length (filter (\<lambda>r. last_id < fst r) rows)" arbitrary: last_id X rule: less_induct)
  case less
  let ?rows = "filter (\<lambda>r. last_id < fst r) rows"
  have q: "db_select_operlog Q db table last_id QUERY_LIMIT = Some (take QUERY_LIMIT ?rows)"
    using assms(1) by (simp add: log_table_def)
  from less.prems(2) obtain mid Y where m: "load_oper_rows E (take QUERY_LIMIT ?rows) last_id X = Some (0, mid, Y)"
    "load_oper_rows E (drop QUERY_LIMIT ?rows) mid Y = Some (0, last', X')"
    using load_oper_rows_split [of E "take QUERY_LIMIT ?rows" "drop QUERY_LIMIT ?rows"] by auto
  show ?case
  proof (cases "length ?rows < QUERY_LIMIT")
    case True
    with m have "mid = last'" "Y = X'" by auto
    with m(1) True q show ?thesis by (simp add: load_operlog.simps)
  next
    case False
    note ids = load_oper_rows_ids [OF less.prems(2)]
    note b = less.prems(1)
    have mid: "mid = last_id + word_of_nat QUERY_LIMIT" using load_oper_rows_ids [OF m(1)] False by simp
    have um: "unat mid = unat last_id + QUERY_LIMIT"
      using False b by (simp add: mid unat_word_ariths unat_of_nat)
    have d: "filter (\<lambda>r. mid < fst r) rows = drop QUERY_LIMIT ?rows"
    proof -
      have "filter (\<lambda>r. mid < fst r) rows = filter (\<lambda>r. mid < fst r) ?rows"
        using um by (auto simp: word_less_nat_alt intro!: filter_cong)
      then show ?thesis using later_rows [OF conjunct1 [OF ids] b, of QUERY_LIMIT] False by (simp add: mid)
    qed
    have pos: "0 < QUERY_LIMIT" by (simp add: QUERY_LIMIT_def)
    have "load_operlog E Q db table mid Y = Some (0, last', X')"
    proof (rule less.hyps)
      show "length (filter (\<lambda>r. mid < fst r) rows) < length ?rows" using d False pos by simp
      show "load_oper_rows E (filter (\<lambda>r. mid < fst r) rows) mid Y = Some (0, last', X')" using m(2) d by simp
      show "unat mid + length (filter (\<lambda>r. mid < fst r) rows) < 2 ^ 64" using b um d False by simp
    qed
    then show ?thesis using m(1) False q by (simp add: load_operlog.simps)
  qed
qed

text \<open>
  C12. The loader reads a log of any length page by page and executes exactly its entries, each
  once and in order: if executing the entries after \<open>last_id\<close> in one go succeeds, then reading
  them a thousand at a time returns and gives the same state.
\<close>

theorem load_operlog_pages:
  assumes "log_table Q db table rows" and "unat last_id + length (filter (\<lambda>r. last_id < fst r) rows) < 2 ^ 64"
    and "load_oper_rows E (filter (\<lambda>r. last_id < fst r) rows) last_id X = Some (0, last', X')"
  shows "load_operlog E Q db table last_id X = Some (0, last', X')"
  by (rule load_operlog_all [OF assms])

text \<open>A database for the witnesses: the log alone, as a list of rows.\<close>

definition ex_db :: "(u64 \<times> string) list mysql_ops" where
  "ex_db = \<lparr>db_exec = (\<lambda>db q. (0, db)), db_select_orders = (\<lambda>_ _ _ _. Some []), db_select_balances = (\<lambda>_ _ _ _. Some []),
     db_select_operlog = (\<lambda>db _ last_id n. Some (take n (filter (\<lambda>r. last_id < fst r) db))), db_show_tables = (\<lambda>_ _. 1),
     db_last_slice = (\<lambda>_. Some []), db_count_slices_since = (\<lambda>_ _. Some []), db_slices_before = (\<lambda>_ _. Some [])\<rparr>"

lemma ex_log_table: "log_table ex_db rows table rows"
  by (simp add: log_table_def ex_db_def)

section \<open>The restart\<close>

text \<open>
  C8. The engine recovers from its log: take any run of the server, started in a state \<open>X\<close>, whose
  log has reached the database. A server that starts in a state that agrees with \<open>X\<close> (the state
  of a slice) and loads the log returns without an error, has given out the same log ids, and is
  in a state that agrees with the one the run ended in: the same balances, the same books, the
  same open orders up to time stamps, the same id counters and known updates. This holds for
  assets that are shown with the precision they are saved with, when no update was forgotten.
\<close>

theorem restart_recovers:
  assumes "json_lib (json E) eq" and "json E' = json E" and "mpd E' = mpd E"
    and "same_server X Y" and "precs_agree X" and "\<forall>now. ForgetUpdates now \<notin> set es"
    and "server_run E st es X = Some X'"
    and "log_entries (sv_oplog X') = log_entries (sv_oplog X) @ map (\<lambda>(i, t, s). (i, t, Some s)) rows"
    and "log_table Q db table (map (\<lambda>(i, t, s). (i, s)) rows)"
    and "unat (operlog_id_start (sv_oplog X)) + length rows < 2 ^ 64"
  shows "\<exists>Y'. load_operlog E' Q db table (operlog_id_start (sv_oplog X)) Y = Some (0, operlog_id_start (sv_oplog X'), Y') \<and>
    same_server X' Y'"
proof -
  let ?rows = "map (\<lambda>(i, t, s). (i, s)) rows" and ?i = "operlog_id_start (sv_oplog X)"
  from json_lib.recover_run [OF assms(1) HOL.refl assms(2,3,7,4,5,6)] assms(8) obtain Y' where
    Y': "load_oper_rows E' ?rows ?i Y = Some (0, operlog_id_start (sv_oplog X'), Y')" "same_server X' Y'" by auto
  have "filter (\<lambda>r. ?i < fst r) ?rows = ?rows"
    using later_rows [OF conjunct1 [OF load_oper_rows_ids [OF Y'(1)]], of 0] assms(10) by simp
  with load_operlog_all [OF assms(9), of ?i E' Y] Y' assms(10) show ?thesis by auto
qed

definition ex_cancel :: rpc_pkg where
  "ex_cancel = ex_packet CMD_ORDER_CANCEL (JArr [JInt 1, JStr ''BTCCNY'', JInt 1])"

lemma ex_run:
  "\<exists>X' t s. server_run ex_env ex_settings [Packet ex_load ex_cancel, FlushLog ''t''] (ex_server 8) = Some X' \<and>
     log_entries (sv_oplog X') = [(1, t, Some s)]"
proof -
  obtain m1 S1 r res where can: "market_cancel_order ex_env True ex_market (sv_engine (ex_server 8)) ex_order = (m1, S1, r, res)"
    by (metis prod_cases4)
  have r: "r = 0" using cancel_assets [OF can] by simp
  have e: "json ex_env = jv_ops" by (simp add: ex_env_def)
  have l: "json_loadb jv_ops (bytes_text (take (unat (body_size ex_cancel)) (pkg_body ex_cancel))) =
      Some (JArr [JInt 1, JStr ''BTCCNY'', JInt 1])"
    unfolding ex_cancel_def by (rule ex_packet_loads) (simp add: unary_def show_str_def show_int_def)
  have "\<exists>X reply. dispatch ex_env ex_settings ex_load ex_cancel (JArr [JInt 1, JStr ''BTCCNY'', JInt 1]) (ex_server 8) =
      Some (X, reply) \<and> (\<exists>t s. sv_oplog X = \<lparr>operlog_id_start = 1, ol_list = [(1, t, Some s)], ol_table_last = [], ol_jobs = []\<rparr>)"
  proof -
    have "command ex_cancel = 204" by (simp add: ex_cancel_def ex_packet_def CMD_ORDER_CANCEL_def)
    moreover have "\<not> service_blocked ex_load (ex_server 8)"
      by (simp add: service_blocked_def ex_load_def is_operlog_block_def is_history_block_def is_message_block_def
          MAX_PENDING_OPERLOG_def MAX_PENDING_HISTORY_def MAX_PENDING_MESSAGE_def ex_server_def ex_engine_def init_message_def)
    moreover have "cancel_params ex_env (sv_markets (ex_server 8)) (JArr [JInt 1, JStr ''BTCCNY'', JInt 1]) =
        Some (1, ''BTCCNY'', ex_market, 1)"
      by (simp add: cancel_params_def check_def int_param_def market_param_def str_param_def e jv_ops_def ex_server_def get_market_def)
    ultimately show ?thesis using can r
      by (simp add: dispatch_def CMD_defs unless_blocked_def on_cmd_order_cancel_def market_get_order_def log_and_reply_def
          set_market_def append_operlog_def Let_def e) (simp add: ex_server_def init_operlog_def jv_ops_def)
  qed
  then obtain X reply t s where x: "dispatch ex_env ex_settings ex_load ex_cancel (JArr [JInt 1, JStr ''BTCCNY'', JInt 1]) (ex_server 8) =
      Some (X, reply)" "sv_oplog X = \<lparr>operlog_id_start = 1, ol_list = [(1, t, Some s)], ol_table_last = [], ol_jobs = []\<rparr>" by blast
  have "json_is_array jv_ops (JArr xs)" for xs by (simp add: jv_ops_def)
  then show ?thesis
    by (simp add: svr_on_recv_pkg_def e l x operlog_on_timer_def flush_log_def log_entries_def)
qed

theorem restart_recovers_witness:
  "\<exists>X' rows Y'. server_run ex_env ex_settings [Packet ex_load ex_cancel, FlushLog ''t''] (ex_server 8) = Some X' \<and>
     length rows = 1 \<and> load_operlog ex_env ex_db rows ''t'' 0 (ex_server 8) = Some (0, operlog_id_start (sv_oplog X'), Y') \<and> same_server X' Y'"
proof -
  from ex_run obtain X' t s where r: "server_run ex_env ex_settings [Packet ex_load ex_cancel, FlushLog ''t''] (ex_server 8) = Some X'"
    "log_entries (sv_oplog X') = [(1, t, Some s)]" by blast
  have p: "precs_agree (ex_server 8)"
    by (simp add: precs_agree_def ex_server_def asset_prec_def asset_prec_show_def ex_ledger_def)
  have m: "same_server (ex_server 8) (ex_server 8)"
    by (auto simp: same_server_def same_engine_def same_market_def intro: option.rel_refl)
  have j: "json_lib (json ex_env) (=)" using jv.json_lib_axioms by (simp add: ex_env_def)
  have l: "log_entries (sv_oplog (ex_server 8)) = []" "operlog_id_start (sv_oplog (ex_server 8)) = 0"
    by (simp_all add: ex_server_def init_operlog_def log_entries_def)
  from restart_recovers [OF j HOL.refl HOL.refl m p _ r(1), of "[(1, t, s)]" ex_db "[(1, s)]" "''t''"] r(2)
  show ?thesis using r(1) ex_log_table by (simp add: l) (metis length_Cons list.size(3) One_nat_def)
qed

section \<open>Inputs: a deposit, and what its log entry does on a restart\<close>

definition ex_deposit :: jv where
  "ex_deposit = JArr [JInt 2, JStr ''CNY'', JStr ''deposit'', JInt 1, JStr ''0.129'', JObj []]"

lemma ex_decimal: "decimal dec_ops ''0.129'' 2 = Some (Dec 12 (- 2))" "decimal dec_ops ''0.129'' 8 = Some (Dec 12900000 (- 8))"
  by code_simp+

lemma ex_added:
  assumes "d = Dec 12 (- 2) \<and> x = 100012000000 \<or> d = Dec 12900000 (- 8) \<and> x = 100012900000"
  shows "mpd_cmp dec_ops d (mpd_zero dec_ops) \<ge> 0" "mpd_cmp dec_ops (mpd_abs dec_ops d) (mpd_zero dec_ops) \<ge> 0"
    "mpd_rescale dec_ops (mpd_add dec_ops (Dec 1000 0) (mpd_abs dec_ops d)) (- 8) = Dec x (- 8)"
  using assms by (elim disjE conjE; simp; code_simp)+

text \<open>An update of the example user's CNY: what it makes of the balance and of the known updates.\<close>

lemma ex_update:
  assumes "d = Dec 12 (- 2) \<and> x = 100012000000 \<or> d = Dec 12900000 (- 8) \<and> x = 100012900000"
  shows "\<exists>D' S'. update_user_balance ex_env live 2 ''CNY'' ''deposit'' 1 d detail Map.empty (sv_engine (ex_server p)) =
      (0, if live then json_object_set jv_ops detail ''id'' (JInt 1) else detail, D', S') \<and>
      balance_get (ledger S') 2 1 ''CNY'' = Some (Dec x (- 8)) \<and> D' (update_key 2 ''CNY'' ''deposit'' 1) \<noteq> None"
proof -
  have e: "json ex_env = jv_ops" "json_integer jv_ops = JInt" by (simp_all add: ex_env_def jv_ops_def)
  have k: "balance_key 2 1 ''CNY'' = (2, 1, ''CNY'')" by (simp add: balance_key_def ASSET_NAME_MAX_LEN_def)
  have L: "dict_asset (ledger (sv_engine (ex_server p))) ''CNY'' = Some \<lparr>prec_save = 8, prec_show = p\<rparr>"
    "dict_balance (ledger (sv_engine (ex_server p))) (2, 1, ''CNY'') = Some (Dec 1000 0)"
    by (simp_all add: ex_server_def ex_ledger_def)
  note a = ex_added [OF assms]
  have "balance_add dec_ops (ledger (sv_engine (ex_server p))) 2 1 ''CNY'' (mpd_abs dec_ops d) =
      (balance_put (ledger (sv_engine (ex_server p))) 2 1 ''CNY'' (Dec x (- 8)), Some (Dec x (- 8)))"
    using a by (simp add: balance_add_def balance_get_def L k Let_def not_less del: dec_ops_simps)
  then show ?thesis
    using a(1) by (cases live) (simp_all add: update_user_balance_def BALANCE_TYPE_AVAILABLE_def Let_def e balance_get_def
        balance_put_def k del: dec_ops_simps)
qed

text \<open>The deposit on any server that shows all decimals of CNY, and what its log entry does on a restart.\<close>

definition ex_logged :: jv where
  "ex_logged = JArr [JInt 2, JStr ''CNY'', JStr ''deposit'', JInt 1, JStr ''0.129'', JObj [(''id'', JInt 1)]]"

definition ex_key :: update_key where
  "ex_key = update_key 2 ''CNY'' ''deposit'' 1"

definition shows_cny :: "(dec, jv) server \<Rightarrow> bool" where
  "shows_cny X \<longleftrightarrow> dict_asset (ledger (sv_engine X)) ''CNY'' = Some \<lparr>prec_save = 8, prec_show = 8\<rparr> \<and>
     balance_get (ledger (sv_engine X)) 2 1 ''CNY'' \<noteq> None"

lemma cny_precs:
  assumes "shows_cny X"
  shows "asset_prec_show (ledger (sv_engine X)) ''CNY'' = 8" "asset_prec (ledger (sv_engine X)) ''CNY'' = 8"
  using assms by (simp_all add: asset_prec_show_def asset_prec_def shows_cny_def)

lemma cny_update:
  assumes "shows_cny X" and "sv_updates X ex_key = None"
  shows "\<exists>detail' S'. update_user_balance ex_env live 2 ''CNY'' ''deposit'' 1 (Dec 12900000 (- 8)) detail (sv_updates X) (sv_engine X) =
      (0, detail', (sv_updates X)(ex_key \<mapsto> int (ticks (sv_engine X))), S') \<and>
      shows_cny (X\<lparr>sv_engine := S'\<rparr>)"
proof -
  note a = ex_added [of "Dec 12900000 (- 8)" 100012900000, simplified HOL.simp_thms]
  have c: "clock ex_env = int" by (simp add: ex_env_def)
  have "\<exists>x. balance_add dec_ops (ledger (sv_engine X)) 2 1 ''CNY'' (mpd_abs dec_ops (Dec 12900000 (- 8))) =
      (balance_put (ledger (sv_engine X)) 2 1 ''CNY'' x, Some x)"
    using a(2) assms(1) by (auto simp: shows_cny_def balance_add_def Let_def not_less simp del: dec_ops_simps)
  then show ?thesis
    using a(1) assms
    by (cases live) (auto simp: update_user_balance_def BALANCE_TYPE_AVAILABLE_def Let_def c ex_key_def shows_cny_def
        balance_put_def balance_get_def balance_key_def simp del: dec_ops_simps)
qed

lemma cny_deposit:
  assumes X: "shows_cny X" "sv_updates X ex_key = None"
  shows "\<exists>X' reply t s. on_cmd_balance_update ex_env ex_settings (ex_packet CMD_BALANCE_UPDATE ex_deposit) ex_deposit X = (X', reply) \<and>
     log_entries (sv_oplog X') = log_entries (sv_oplog X) @ [(operlog_id_start (sv_oplog X) + 1, t, Some s)] \<and>
     operlog_id_start (sv_oplog X') = operlog_id_start (sv_oplog X) + 1 \<and>
     json_loadb jv_ops s = Some (oper_detail ex_env ''update_balance'' ex_logged) \<and> shows_cny X' \<and>
     sv_updates X' = (sv_updates X)(ex_key \<mapsto> int (ticks (sv_engine X)))"
proof -
  have e: "json ex_env = jv_ops" by (simp add: ex_env_def)
  note pr = cny_precs [OF X(1)]
  have p: "update_params ex_env (ledger (sv_engine X)) ex_deposit = Some (2, ''CNY'', ''deposit'', 1, Dec 12900000 (- 8), JObj [])"
    by (simp add: update_params_def check_def int_param_def str_param_def e pr ex_deposit_def ex_decimal jv_ops_def)
  from cny_update [OF X, of True "JObj []"] obtain detail' S' where
    u: "update_user_balance ex_env True 2 ''CNY'' ''deposit'' 1 (Dec 12900000 (- 8)) (JObj []) (sv_updates X) (sv_engine X) =
      (0, detail', (sv_updates X)(ex_key \<mapsto> int (ticks (sv_engine X))), S')" "shows_cny (X\<lparr>sv_engine := S'\<rparr>)" by blast
  have d: "json_array_set jv_ops ex_deposit 5 detail' = ex_logged"
    using update_detail [OF u(1)] by (simp add: e ex_deposit_def ex_logged_def jv_ops_def)
  obtain s where s: "json_dumps jv_ops (oper_detail ex_env ''update_balance'' ex_logged) JSON_SORT_KEYS = Some s"
    by (simp add: jv_ops_def)
  obtain S lg where lr: "append_operlog ex_env ''update_balance'' ex_logged S' (sv_oplog X) = (S, lg)" by fastforce
  have l: "ledger S = ledger S'" "operlog_id_start lg = operlog_id_start (sv_oplog X) + 1"
    using lr by (auto simp: append_operlog_def Let_def)
  have "on_cmd_balance_update ex_env ex_settings (ex_packet CMD_BALANCE_UPDATE ex_deposit) ex_deposit X =
    (X\<lparr>sv_engine := S, sv_updates := (sv_updates X)(ex_key \<mapsto> int (ticks (sv_engine X))), sv_oplog := lg\<rparr>,
     reply_success ex_env ex_settings (ex_packet CMD_BALANCE_UPDATE ex_deposit))"
    by (simp add: on_cmd_balance_update_def p u(1) Let_def e d lr)
  moreover have "shows_cny (X\<lparr>sv_engine := S, sv_updates := D, sv_oplog := lg\<rparr>)" for D
    using u(2) l(1) by (simp add: shows_cny_def)
  ultimately show ?thesis using log_entries_append [OF lr] l(2) s jv_round_trip [OF s] by (auto simp: e)
qed

lemma cny_reload:
  assumes "shows_cny Y"
  shows "sv_updates Y ex_key = None \<Longrightarrow> \<exists>Y'. load_oper ex_env (oper_detail ex_env ''update_balance'' ex_logged) Y = Some (0, Y') \<and>
      shows_cny Y' \<and> sv_updates Y' ex_key \<noteq> None"
    "sv_updates Y ex_key \<noteq> None \<Longrightarrow> \<exists>Y'. load_oper ex_env (oper_detail ex_env ''update_balance'' ex_logged) Y = Some (- 181, Y')"
proof -
  have e: "json ex_env = jv_ops" by (simp add: ex_env_def)
  have l: "load_oper ex_env (oper_detail ex_env ''update_balance'' ex_logged) Y = Some (load_update_balance ex_env ex_logged Y)"
    by (simp add: load_oper_def oper_detail_def e jv_ops_def) (simp add: ex_logged_def)
  have u: "load_update_balance ex_env ex_logged Y =
    (case update_user_balance ex_env False 2 ''CNY'' ''deposit'' 1 (Dec 12900000 (- 8)) (JObj [(''id'', JInt 1)]) (sv_updates Y) (sv_engine Y) of
       (ret, _, dict, S) \<Rightarrow> (if ret < 0 then - 181 else 0, Y\<lparr>sv_engine := S, sv_updates := dict\<rparr>))"
    by (simp add: load_update_balance_def int_param_def str_param_def e cny_precs [OF assms] ex_decimal ex_logged_def Let_def jv_ops_def)
  show "sv_updates Y ex_key = None \<Longrightarrow> \<exists>Y'. load_oper ex_env (oper_detail ex_env ''update_balance'' ex_logged) Y = Some (0, Y') \<and>
      shows_cny Y' \<and> sv_updates Y' ex_key \<noteq> None"
    using cny_update [OF assms, of False "JObj [(''id'', JInt 1)]"] by (auto simp: l u shows_cny_def)
  show "sv_updates Y ex_key \<noteq> None \<Longrightarrow> \<exists>Y'. load_oper ex_env (oper_detail ex_env ''update_balance'' ex_logged) Y = Some (- 181, Y')"
    by (auto simp: l u update_user_balance_def ex_key_def)
qed

theorem load_operlog_pages_witness:
  "\<exists>s Y. load_operlog ex_env ex_db [(1, s)] ''t'' 0 (ex_server 8) = Some (0, 1, Y) \<and> sv_updates Y ex_key \<noteq> None"
proof -
  have i: "shows_cny (ex_server 8)" "sv_updates (ex_server 8) ex_key = None"
    by (simp_all add: shows_cny_def ex_server_def ex_ledger_def balance_get_def balance_key_def ASSET_NAME_MAX_LEN_def)
  from cny_reload(1) [OF i] obtain Y where
    Y: "load_oper ex_env (oper_detail ex_env ''update_balance'' ex_logged) (ex_server 8) = Some (0, Y)" "sv_updates Y ex_key \<noteq> None"
    by blast
  from cny_deposit [OF i] obtain s where
    s: "json_loadb jv_ops s = Some (oper_detail ex_env ''update_balance'' ex_logged)" by blast
  have "load_oper_rows ex_env [(1, s)] 0 (ex_server 8) = Some (0, 1, Y)"
    using Y(1) s by (simp add: ex_env_def)
  then have "load_operlog ex_env ex_db [(1, s)] ''t'' 0 (ex_server 8) = Some (0, 1, Y)"
    by (intro load_operlog_pages [OF ex_log_table]) simp_all
  with Y(2) show ?thesis by blast
qed

end
