(* ===== verification/Depth_Levels.thy ===== *)
theory Depth_Levels
  imports Recovery_Properties
begin

text \<open>
  What the depth of \<^verbatim>\<open>me_server.c\<close> (theory \<open>Depth\<close>) says about a book: its levels are
  the prices of the book, or the intervals they fall into, each with the sum of its orders.
\<close>

section \<open>Division with a remainder\<close>

text \<open>
  \<^verbatim>\<open>mpd_divmod\<close> of two numbers with at most 34 digits on the same grid of \<open>p\<close> decimals,
  neither of them negative: both results are exact.
\<close>

locale mpd_floor_lib = mpd_lib +
  assumes divmod: "fin x \<Longrightarrow> fin y \<Longrightarrow> 0 \<le> val x \<Longrightarrow> 0 < val y \<Longrightarrow> fits p (val x) \<Longrightarrow> fits p (val y) \<Longrightarrow>
    mpd_divmod M x y = (q, r) \<Longrightarrow>
    fin q \<and> val q = of_int \<lfloor>val x / val y\<rfloor> \<and> fin r \<and> val r = val x - of_int \<lfloor>val x / val y\<rfloor> * val y"

text \<open>The multiples of an interval below and above a price.\<close>

definition round_down :: "rat \<Rightarrow> rat \<Rightarrow> rat" where
  "round_down interval x = of_int \<lfloor>x / interval\<rfloor> * interval"

definition round_up :: "rat \<Rightarrow> rat \<Rightarrow> rat" where
  "round_up interval x = of_int \<lceil>x / interval\<rceil> * interval"

lemma round_down_mono: "0 < v \<Longrightarrow> x \<le> y \<Longrightarrow> round_down v x \<le> round_down v y"
  by (simp add: round_down_def divide_right_mono floor_mono)

lemma round_up_mono: "0 < v \<Longrightarrow> x \<le> y \<Longrightarrow> round_up v x \<le> round_up v y"
  by (simp add: round_up_def divide_right_mono ceiling_mono)

lemma round_down_bounds: "0 < v \<Longrightarrow> round_down v x \<le> x \<and> x - v < round_down v x"
proof -
  assume v: "0 < v"
  have "of_int \<lfloor>x / v\<rfloor> * v \<le> x / v * v" "x / v * v < (of_int \<lfloor>x / v\<rfloor> + 1) * v"
    by (rule mult_right_mono, use v in linarith, use v in linarith) (rule mult_strict_right_mono, use v in linarith, rule v)
  then show ?thesis using v by (simp add: round_down_def algebra_simps)
qed

lemma round_up_cases: "0 < v \<Longrightarrow> round_up v x = (if round_down v x = x then x else round_down v x + v)"
proof -
  assume v: "0 < v"
  have e: "of_int \<lfloor>x / v\<rfloor> * v = x \<longleftrightarrow> of_int \<lfloor>x / v\<rfloor> = x / v" using v by (metis eq_divide_eq less_irrefl)
  show ?thesis
  proof (cases "of_int \<lfloor>x / v\<rfloor> = x / v")
    case True
    then have "\<lceil>x / v\<rceil> = \<lfloor>x / v\<rfloor>" by (metis ceiling_of_int)
    then show ?thesis using True e by (simp add: round_up_def round_down_def)
  next
    case False
    then have "\<lceil>x / v\<rceil> = \<lfloor>x / v\<rfloor> + 1" by (simp add: ceiling_altdef)
    then show ?thesis using False e by (simp add: round_up_def round_down_def algebra_simps)
  qed
qed

text \<open>A later price belongs to the level exactly when it is not beyond what is shown.\<close>

lemma same_level_up: "0 < v \<Longrightarrow> x \<le> y \<Longrightarrow> y \<le> round_up v x \<longleftrightarrow> round_up v y = round_up v x"
proof
  assume v: "0 < v" and "x \<le> y" "y \<le> round_up v x"
  have "y / v \<le> of_int \<lceil>x / v\<rceil>" using \<open>y \<le> round_up v x\<close> v by (simp add: round_up_def divide_le_eq)
  then have "\<lceil>y / v\<rceil> \<le> \<lceil>x / v\<rceil>" by (simp add: ceiling_le_iff)
  moreover have "\<lceil>x / v\<rceil> \<le> \<lceil>y / v\<rceil>" using \<open>x \<le> y\<close> v by (simp add: ceiling_mono divide_right_mono)
  ultimately show "round_up v y = round_up v x" by (simp add: round_up_def)
next
  assume v: "0 < v" and "round_up v y = round_up v x"
  moreover have "y \<le> round_up v y" using round_down_bounds [OF v, of y] round_up_cases [OF v, of y] by (auto split: if_splits)
  ultimately show "y \<le> round_up v x" by simp
qed

lemma same_level_down: "0 < v \<Longrightarrow> y \<le> x \<Longrightarrow> round_down v x \<le> y \<longleftrightarrow> round_down v y = round_down v x"
proof
  assume v: "0 < v" and "y \<le> x" "round_down v x \<le> y"
  have "of_int \<lfloor>x / v\<rfloor> \<le> y / v" using \<open>round_down v x \<le> y\<close> v by (simp add: round_down_def le_divide_eq)
  then have "\<lfloor>x / v\<rfloor> \<le> \<lfloor>y / v\<rfloor>" by (simp add: le_floor_iff)
  moreover have "\<lfloor>y / v\<rfloor> \<le> \<lfloor>x / v\<rfloor>" using \<open>y \<le> x\<close> v by (simp add: floor_mono divide_right_mono)
  ultimately show "round_down v y = round_down v x" by (simp add: round_down_def)
next
  assume v: "0 < v" and "round_down v y = round_down v x"
  then show "round_down v x \<le> y" using round_down_bounds [OF v, of y] by simp
qed

context mpd_floor_lib
begin

lemma merged_prices:
  assumes "fin x" "fin interval" "0 \<le> val x" "0 < val interval" "fits p (val x)" "fits p (val interval)"
    "fits p (val x + val interval)"
  shows "fin (merge_bid_price M interval x) \<and> val (merge_bid_price M interval x) = round_down (val interval) (val x)"
    "fin (merge_ask_price M interval x) \<and> val (merge_ask_price M interval x) = round_up (val interval) (val x)"
proof -
  obtain q r where d: "mpd_divmod M x interval = (q, r)" by (cases "mpd_divmod M x interval")
  note D = divmod [OF assms(1-6) d]
  let ?R = "round_down (val interval) (val x)"
  have g: "on_grid p (of_int k * val interval)" for k
    using assms(6) on_grid_mult [of 0 "of_int k" p "val interval"] by (auto simp: fits_def on_grid_def)
  note B = round_down_bounds [OF assms(4), of "val x"]
  have nn: "0 \<le> ?R" using assms(3,4) by (simp add: round_down_def)
  have f: "fits p ?R" by (rule fits_le [OF assms(5)]) (use g B nn assms(3) in \<open>auto simp: round_down_def\<close>)
  have m: "fin (mpd_mul M q interval) \<and> val (mpd_mul M q interval) = ?R"
    using mul [of q interval p] D f assms(2) by (simp add: round_down_def)
  then show "fin (merge_bid_price M interval x) \<and> val (merge_bid_price M interval x) = ?R"
    by (simp add: merge_bid_price_def d)
  have f2: "fits p (?R + val interval)"
    by (rule fits_le [OF assms(7)])
      (use g [of "\<lfloor>val x / val interval\<rfloor> + 1"] B nn assms(3,4) in \<open>auto simp: round_down_def algebra_simps\<close>)
  have "mpd_cmp M r (mpd_zero M) = 0 \<longleftrightarrow> ?R = val x" using D by (auto simp: cmp_eq round_down_def)
  moreover have "fin (mpd_add M (mpd_mul M q interval) interval) \<and>
      val (mpd_add M (mpd_mul M q interval) interval) = ?R + val interval"
    using add [of "mpd_mul M q interval" interval p] m f2 assms(2) by simp
  ultimately show "fin (merge_ask_price M interval x) \<and> val (merge_ask_price M interval x) = round_up (val interval) (val x)"
    using m round_up_cases [OF assms(4), of "val x"] by (simp add: merge_ask_price_def d Let_def)
qed

end

interpretation dec_floor: mpd_floor_lib dec_ops dec_fin dec_val
proof (unfold_locales, goal_cases)
  case (1 x y p q r)
  obtain a i b j where xy: "x = Dec a i" "y = Dec b j" using 1(1,2) dec_finD by meson
  define m X Y where "m = min i j" and "X = dec_align a i m" and "Y = dec_align b j m"
  have v: "dec_val x = of_int X * 10 powi m" "dec_val y = of_int Y * 10 powi m"
    by (simp_all add: xy X_def Y_def m_def dec_align_val)
  have pos: "0 \<le> X" "0 < Y" using 1(3,4) v ten_powi_pos [of m] by (simp_all add: zero_le_mult_iff zero_less_mult_iff not_less less_imp_le)
  then have "b \<noteq> 0" by (auto simp: Y_def dec_align_def)
  have t: "tdiv X Y = X div Y" using pos by (cases "X = 0") (simp_all add: tdiv_def)
  have f: "\<lfloor>dec_val x / dec_val y\<rfloor> = X div Y" using v pos by (simp add: floor_divide_of_int_eq flip: of_int_mult)
  have qr: "q = dec_round (X div Y) 0" "r = dec_round (X - X div Y * Y) m"
    using 1(7) \<open>b \<noteq> 0\<close> t by (simp_all add: xy X_def Y_def m_def Let_def)
  obtain k l where kl: "dec_val x * 10 ^ nat p = of_int k" "dec_val y * 10 ^ nat p = of_int l"
    using 1(5,6) by (auto simp: fits_def on_grid_def)
  have l: "0 < l" using kl(2) 1(4) by (metis mult_pos_pos of_int_0_less_iff zero_less_numeral zero_less_power)
  have "dec_val x / dec_val y = of_int k / of_int l" by (simp flip: kl)
  then have "X div Y = k div l" using f by (simp add: floor_divide_of_int_eq)
  moreover have "k < 10 ^ 34" "0 \<le> k"
  proof -
    have "(of_int k :: rat) < of_int (10 ^ 34)" using 1(3,5) kl(1) by (simp add: fits_def)
    then show "k < 10 ^ 34" by (simp only: of_int_less_iff)
    have "(0 :: rat) \<le> of_int k" using 1(3) by (simp flip: kl(1))
    then show "0 \<le> k" by simp
  qed
  moreover have "k div l \<le> k" using zdiv_mono2 [of k 1 l] \<open>0 \<le> k\<close> l by simp
  moreover have "0 \<le> k div l" using \<open>0 \<le> k\<close> l by (simp add: pos_imp_zdiv_nonneg_iff)
  ultimately have "\<bar>X div Y\<bar> < 10 ^ 34" by simp
  then have q: "dec_val q = of_int (X div Y)" by (simp add: qr(1) dec_round.simps)
  have rv: "of_int (X - X div Y * Y) * 10 powi m = dec_val x - of_int (X div Y) * dec_val y"
    by (simp add: v algebra_simps)
  have g: "on_grid p (dec_val x - of_int (X div Y) * dec_val y)"
    using kl by (auto simp: on_grid_def algebra_simps intro!: exI [of _ "k - X div Y * l"])
  have "0 \<le> X - X div Y * Y" "X - X div Y * Y \<le> X" using pos by (simp_all add: minus_div_mult_eq_mod zmod_le_nonneg_dividend)
  then have "(0 :: rat) \<le> of_int (X - X div Y * Y) * 10 powi m" "of_int (X - X div Y * Y) * 10 powi m \<le> dec_val x"
    unfolding v(1) by (simp_all only: mult_nonneg_nonneg mult_right_mono ten_powi_pos less_imp_le of_int_0_le_iff of_int_le_iff)
  then have "0 \<le> dec_val x - of_int (X div Y) * dec_val y" "dec_val x - of_int (X div Y) * dec_val y \<le> dec_val x"
    unfolding rv by blast+
  then have "fits p (of_int (X - X div Y * Y) * 10 powi m)"
    unfolding rv using g by (intro fits_le [OF 1(5)]) auto
  then have "dec_val r = dec_val x - of_int (X div Y) * dec_val y" using dec_round_exact rv by (simp add: qr(2))
  then show ?case using f q by (simp add: qr)
qed

section \<open>Levels\<close>

text \<open>The price and the open amount of a node of a book.\<close>

definition node_price :: "('d \<Rightarrow> rat) \<Rightarrow> (u64 \<rightharpoonup> 'd order) \<Rightarrow> u64 \<Rightarrow> rat" where
  "node_price val objs node = val (o_price (the (objs node)))"

definition node_left :: "('d \<Rightarrow> rat) \<Rightarrow> (u64 \<rightharpoonup> 'd order) \<Rightarrow> u64 \<Rightarrow> rat" where
  "node_left val objs node = val (o_left (the (objs node)))"

text \<open>
  What a depth should show of a book: the shown prices of its orders, each once and in the order of
  the book, with the sum of what is left of all the orders shown at this price, and of these levels the first \<open>limit\<close>.
\<close>

definition book_levels :: "('d \<Rightarrow> rat) \<Rightarrow> (u64 \<rightharpoonup> 'd order) \<Rightarrow> (rat \<Rightarrow> rat) \<Rightarrow> nat \<Rightarrow> u64 list \<Rightarrow> (rat \<times> rat) list" where
  "book_levels val objs shown limit nodes =
     take limit (map (\<lambda>q. (q, \<Sum>node\<leftarrow>filter (\<lambda>node. shown (node_price val objs node) = q) nodes. node_left val objs node))
       (remdups_adj (map (\<lambda>node. shown (node_price val objs node)) nodes)))"

text \<open>The nodes hold orders whose numbers and sums the arithmetic represents.\<close>

definition nodes_ok :: "('d \<Rightarrow> bool) \<Rightarrow> ('d \<Rightarrow> rat) \<Rightarrow> (u64 \<rightharpoonup> 'd order) \<Rightarrow> int \<Rightarrow> rat \<Rightarrow> u64 list \<Rightarrow> bool" where
  "nodes_ok fin val objs p bound nodes \<longleftrightarrow> 0 \<le> p \<and> p \<le> 6176 \<and> bound * 10 ^ nat p < 10 ^ 34 \<and>
     (\<forall>node\<in>set nodes. \<exists>order. objs node = Some order \<and> fin (o_price order) \<and> fin (o_left order) \<and>
        0 \<le> val (o_left order) \<and> on_grid p (val (o_left order))) \<and>
     (\<Sum>node\<leftarrow>nodes. node_left val objs node) \<le> bound"

lemma remdups_adj_group:
  "\<forall>x\<in>set xs. x = a \<Longrightarrow> ys = [] \<or> hd ys \<noteq> a \<Longrightarrow> remdups_adj (a # xs @ ys) = a # remdups_adj ys"
proof (induction xs)
  case Nil
  then show ?case by (cases ys) auto
qed auto

lemma node_left_nonneg: "nodes_ok fin val objs p bound nodes \<Longrightarrow> node \<in> set nodes \<Longrightarrow> 0 \<le> node_left val objs node"
  by (fastforce simp: nodes_ok_def node_left_def)

text \<open>How a depth groups: the price shown for an order, and which of the orders behind it belong to its level.\<close>

definition groups ::
  "('d \<Rightarrow> rat) \<Rightarrow> (u64 \<rightharpoonup> 'd order) \<Rightarrow> ('d \<Rightarrow> 'd) \<Rightarrow> ('d \<Rightarrow> 'd \<Rightarrow> bool) \<Rightarrow> (rat \<Rightarrow> rat) \<Rightarrow> u64 list \<Rightarrow> bool" where
  "groups val objs level_price same shown nodes \<longleftrightarrow>
     (\<forall>n\<in>set nodes. val (level_price (o_price (the (objs n)))) = shown (node_price val objs n)) \<and>
     sorted_wrt (\<lambda>a b. same (level_price (o_price (the (objs a)))) (o_price (the (objs b))) \<longleftrightarrow>
       shown (node_price val objs b) = shown (node_price val objs a)) nodes"

context mpd_lib
begin

lemma nodes_okD:
  assumes "nodes_ok fin val objs p bound (node # nodes)"
  obtains order where "objs node = Some order" "fin (o_price order)" "fin (o_left order)" "0 \<le> val (o_left order)"
    "on_grid p (val (o_left order))" "nodes_ok fin val objs p (bound - val (o_left order)) nodes"
    "nodes_ok fin val objs p bound nodes"
proof -
  from assms obtain order where o: "objs node = Some order" "fin (o_price order)" "fin (o_left order)" "0 \<le> val (o_left order)"
    "on_grid p (val (o_left order))" by (auto simp: nodes_ok_def)
  have "(bound - val (o_left order)) * 10 ^ nat p \<le> bound * 10 ^ nat p" by (rule mult_right_mono) (use o(4) in auto)
  then have b: "(bound - val (o_left order)) * 10 ^ nat p < 10 ^ 34"
    by (rule le_less_trans) (use assms in \<open>simp add: nodes_ok_def\<close>)
  have s: "(\<Sum>node\<leftarrow>nodes. node_left val objs node) \<le> bound - val (o_left order)"
    using assms o(1) by (simp add: nodes_ok_def node_left_def [of val objs node])
  then have s': "(\<Sum>node\<leftarrow>nodes. node_left val objs node) \<le> bound" using o(4) by linarith
  show thesis
  proof (rule that [OF o])
    show "nodes_ok fin val objs p (bound - val (o_left order)) nodes" using assms b s by (auto simp: nodes_ok_def)
    show "nodes_ok fin val objs p bound nodes" using assms s' by (auto simp: nodes_ok_def)
  qed
qed

lemma take_level_sum:
  assumes "take_level M objs same amount nodes = (amount', rest)"
    and "\<forall>n\<in>set nodes. same (o_price (the (objs n))) \<longleftrightarrow> shown (node_price val objs n) = q"
    and "fin amount" "0 \<le> val amount" "on_grid p (val amount)" "nodes_ok fin val objs p (bound - val amount) nodes"
    "bound * 10 ^ nat p < 10 ^ 34"
  shows "\<exists>group. nodes = group @ rest \<and> (\<forall>node\<in>set group. shown (node_price val objs node) = q) \<and>
    val amount' = val amount + (\<Sum>node\<leftarrow>group. node_left val objs node) \<and>
    (rest = [] \<or> shown (node_price val objs (hd rest)) \<noteq> q)"
  using assms
proof (induction nodes arbitrary: amount)
  case (Cons node nodes)
  from Cons.prems(6) obtain order where o: "objs node = Some order" "fin (o_price order)" "fin (o_left order)"
    "0 \<le> val (o_left order)" "on_grid p (val (o_left order))"
    "nodes_ok fin val objs p (bound - val amount - val (o_left order)) nodes" by (rule nodes_okD)
  have c: "same (o_price order) \<longleftrightarrow> shown (node_price val objs node) = q" using Cons.prems(2) o(1) by auto
  show ?case
  proof (cases "same (o_price order)")
    case False
    then show ?thesis using Cons.prems(1) o(1) c by auto
  next
    case True
    let ?a = "mpd_add M amount (o_left order)"
    have s: "0 \<le> (\<Sum>node\<leftarrow>nodes. node_left val objs node)"
      using node_left_nonneg [OF o(6)] by (intro sum_list_nonneg) auto
    have "(val amount + val (o_left order)) * 10 ^ nat p \<le> bound * 10 ^ nat p"
      using o(6) s by (intro mult_right_mono) (auto simp: nodes_ok_def)
    then have "(val amount + val (o_left order)) * 10 ^ nat p < 10 ^ 34" using Cons.prems(7) by (rule le_less_trans)
    then have f: "fits p (val amount + val (o_left order))"
      using o(4,5,6) Cons.prems(4,5) on_grid_add by (auto simp: fits_def nodes_ok_def)
    have a: "fin ?a" "val ?a = val amount + val (o_left order)" using add [OF Cons.prems(3) o(3) f] by auto
    have "\<exists>group. nodes = group @ rest \<and> (\<forall>node\<in>set group. shown (node_price val objs node) = q) \<and>
      val amount' = val ?a + (\<Sum>node\<leftarrow>group. node_left val objs node) \<and>
      (rest = [] \<or> shown (node_price val objs (hd rest)) \<noteq> q)"
    proof (rule Cons.IH)
      show "take_level M objs same ?a nodes = (amount', rest)" using Cons.prems(1) o(1) True by simp
      show "nodes_ok fin val objs p (bound - val ?a) nodes" using o(6) a(2) by (simp add: diff_diff_eq)
      show "on_grid p (val ?a)" using f a(2) by (simp add: fits_def)
    qed (use a Cons.prems o in auto)
    then obtain group where "nodes = group @ rest" "\<forall>node\<in>set group. shown (node_price val objs node) = q"
      "val amount' = val ?a + (\<Sum>node\<leftarrow>group. node_left val objs node)"
      "rest = [] \<or> shown (node_price val objs (hd rest)) \<noteq> q" by blast
    then show ?thesis using o(1) True a(2) c
      by (intro exI [of _ "node # group"]) (simp add: node_left_def)
  qed
qed auto

lemma depth_levels_sum:
  assumes "nodes_ok fin val objs p bound nodes" "groups val objs level_price same shown nodes"
    "distinct (remdups_adj (map (\<lambda>n. shown (node_price val objs n)) nodes))"
  shows "map (\<lambda>(price, amount). (val price, val amount)) (depth_levels M objs level_price same limit nodes) =
    book_levels val objs shown limit nodes"
  using assms
proof (induction limit arbitrary: nodes)
  case 0
  then show ?case by (simp add: book_levels_def)
next
  case (Suc limit)
  show ?case
  proof (cases nodes)
    case Nil
    then show ?thesis by (simp add: book_levels_def)
  next
    case (Cons node ns)
    from Suc.prems(1)[unfolded Cons] obtain order where o: "objs node = Some order" "fin (o_price order)" "fin (o_left order)"
      "0 \<le> val (o_left order)" "on_grid p (val (o_left order))" "nodes_ok fin val objs p (bound - val (o_left order)) ns"
      "nodes_ok fin val objs p bound ns" by (rule nodes_okD)
    let ?P = "\<lambda>n. shown (node_price val objs n)" and ?A = "node_left val objs" and ?lp = "level_price (o_price order)"
    obtain amount rest where l: "take_level M objs (same ?lp) (o_left order) ns = (amount, rest)" by fastforce
    have bd: "bound * 10 ^ nat p < 10 ^ 34" using Suc.prems(1) by (simp add: nodes_ok_def)
    have later: "\<forall>n\<in>set ns. same ?lp (o_price (the (objs n))) \<longleftrightarrow> ?P n = ?P node"
      using Suc.prems(2) o(1) by (simp add: groups_def Cons)
    from take_level_sum [OF l later o(3-6) bd] obtain group where g: "ns = group @ rest" "\<forall>n\<in>set group. ?P n = ?P node"
      "val amount = val (o_left order) + (\<Sum>n\<leftarrow>group. ?A n)" "rest = [] \<or> ?P (hd rest) \<noteq> ?P node" by blast
    have q: "val ?lp = ?P node" "?A node = val (o_left order)" using o(1) Suc.prems(2) by (simp_all add: groups_def Cons node_left_def)
    have r: "remdups_adj (map ?P nodes) = ?P node # remdups_adj (map ?P rest)"
      using remdups_adj_group [of "map ?P group" "?P node" "map ?P rest"] g by (cases rest) (auto simp: Cons)
    have nr: "?P node \<notin> ?P ` set rest" using Suc.prems(3) r by simp
    have f1: "filter (\<lambda>n. ?P n = ?P node) nodes = node # group"
      using g(2) nr by (auto simp: Cons g(1) filter_empty_conv image_iff)
    have f2: "filter (\<lambda>n. ?P n = x) nodes = filter (\<lambda>n. ?P n = x) rest" if "x \<in> ?P ` set rest" for x
      using g(2) nr that by (auto simp: Cons g(1) filter_empty_conv image_iff)
    have "nodes_ok fin val objs p bound rest"
    proof -
      have "0 \<le> (\<Sum>n\<leftarrow>group. ?A n)" using node_left_nonneg [OF o(7)] g(1) by (intro sum_list_nonneg) auto
      then show ?thesis using o(7) g(1) by (auto simp: nodes_ok_def)
    qed
    moreover have "groups val objs level_price same shown rest"
      using Suc.prems(2) by (auto simp: groups_def Cons g(1) sorted_wrt_append)
    ultimately have "map (\<lambda>(price, amount). (val price, val amount)) (depth_levels M objs level_price same limit rest) =
      book_levels val objs shown limit rest" using Suc.prems(3) r by (intro Suc.IH) auto
    moreover have "book_levels val objs shown limit rest =
      take limit (map (\<lambda>q. (q, \<Sum>n\<leftarrow>filter (\<lambda>n. ?P n = q) nodes. ?A n)) (remdups_adj (map ?P rest)))"
      unfolding book_levels_def using f2 by (intro arg_cong [where f = "take limit"] map_cong) auto
    moreover have "book_levels val objs shown (Suc limit) nodes = (?P node, val amount) #
      take limit (map (\<lambda>q. (q, \<Sum>n\<leftarrow>filter (\<lambda>n. ?P n = q) nodes. ?A n)) (remdups_adj (map ?P rest)))"
      using f1 q(2) g(3) by (simp add: book_levels_def r)
    ultimately show ?thesis using o(1) l q(1) by (simp add: Cons Let_def)
  qed
qed

end

lemma sorted_wrt_runs:
  "sorted_wrt R xs \<Longrightarrow> (\<And>a b. R a b \<Longrightarrow> R b a \<Longrightarrow> a = b) \<Longrightarrow> distinct (remdups_adj xs)"
  by (induction xs rule: remdups_adj.induct) auto

lemma sorted_runs: "sorted_wrt (\<le>) xs \<or> sorted_wrt (\<ge>) xs \<Longrightarrow> distinct (remdups_adj (xs :: rat list))"
  using sorted_wrt_runs [of "(\<le>)" xs] sorted_wrt_runs [of "(\<ge>)" xs] by auto

lemma sorted_wrt_image:
  "sorted_wrt R (map f xs) \<Longrightarrow> (\<And>x y. R x y \<Longrightarrow> S (g x) (g y)) \<Longrightarrow> sorted_wrt S (map (\<lambda>x. g (f x)) xs)"
  by (auto simp: sorted_wrt_map elim: sorted_wrt_mono_rel [rotated])

section \<open>The depth\<close>

definition level_values :: "('d \<Rightarrow> rat) \<Rightarrow> ('d \<times> 'd) list \<Rightarrow> (rat \<times> rat) list" where
  "level_values val = map (\<lambda>(price, amount). (val price, val amount))"

text \<open>An interval to merge by, small enough for the arithmetic to be exact.\<close>

definition merge_ok :: "('d \<Rightarrow> bool) \<Rightarrow> ('d \<Rightarrow> rat) \<Rightarrow> (u64 \<rightharpoonup> 'd order) \<Rightarrow> int \<Rightarrow> u64 list \<Rightarrow> 'd \<Rightarrow> bool" where
  "merge_ok fin val objs p nodes interval \<longleftrightarrow> fin interval \<and> 0 < val interval \<and> fits p (val interval) \<and>
     (\<forall>n\<in>set nodes. 0 \<le> node_price val objs n \<and> fits p (node_price val objs n) \<and> fits p (node_price val objs n + val interval))"

lemma nodes_fin: "nodes_ok fin val objs p bound nodes \<Longrightarrow> n \<in> set nodes \<Longrightarrow> fin (o_price (the (objs n)))"
  by (fastforce simp: nodes_ok_def)

context mpd_lib
begin

lemma groups_plain:
  assumes "nodes_ok fin val objs p bound nodes"
  shows "groups val objs (\<lambda>q. q) (\<lambda>price q. mpd_cmp M price q = 0) (\<lambda>q. q) nodes"
proof -
  have "sorted_wrt (\<lambda>a b. mpd_cmp M (o_price (the (objs a))) (o_price (the (objs b))) = 0 \<longleftrightarrow>
      node_price val objs b = node_price val objs a) nodes"
    by (simp add: sorted_wrt_iff_nth_less node_price_def cmp_eq nodes_fin [OF assms]) (metis)
  then show ?thesis by (simp add: groups_def node_price_def)
qed

end

context mpd_floor_lib
begin

lemma groups_merged:
  assumes ok: "nodes_ok fin val objs p bound nodes" and merge: "merge_ok fin val objs r nodes interval"
  shows "sorted_wrt (\<le>) (map (node_price val objs) nodes) \<Longrightarrow>
      groups val objs (merge_ask_price M interval) (\<lambda>price q. mpd_cmp M price q \<ge> 0) (round_up (val interval)) nodes"
    "sorted_wrt (\<ge>) (map (node_price val objs) nodes) \<Longrightarrow>
      groups val objs (merge_bid_price M interval) (\<lambda>price q. mpd_cmp M price q \<le> 0) (round_down (val interval)) nodes"
proof -
  have i: "fin interval" "0 < val interval" "fits r (val interval)" using merge by (simp_all add: merge_ok_def)
  have P: "fin (merge_bid_price M interval (o_price (the (objs n)))) \<and>
      val (merge_bid_price M interval (o_price (the (objs n)))) = round_down (val interval) (node_price val objs n) \<and>
      fin (merge_ask_price M interval (o_price (the (objs n)))) \<and>
      val (merge_ask_price M interval (o_price (the (objs n)))) = round_up (val interval) (node_price val objs n)" if "n \<in> set nodes" for n
    using merged_prices [OF nodes_fin [OF ok that] i(1) _ i(2) _ i(3)] merge that by (simp add: merge_ok_def node_price_def)
  show "groups val objs (merge_ask_price M interval) (\<lambda>price q. mpd_cmp M price q \<ge> 0) (round_up (val interval)) nodes"
    if s: "sorted_wrt (\<le>) (map (node_price val objs) nodes)"
  proof -
    have "sorted_wrt (\<lambda>a b. node_price val objs a \<le> node_price val objs b) nodes" using s by (simp add: sorted_wrt_map)
    then have "sorted_wrt (\<lambda>a b. mpd_cmp M (merge_ask_price M interval (o_price (the (objs a)))) (o_price (the (objs b))) \<ge> 0 \<longleftrightarrow>
        round_up (val interval) (node_price val objs b) = round_up (val interval) (node_price val objs a)) nodes"
      by (rule sorted_wrt_mono_rel [rotated])
        (use P nodes_fin [OF ok] same_level_up [OF i(2)] in \<open>simp add: cmp_ge flip: node_price_def\<close>)
    then show ?thesis using P by (simp add: groups_def)
  qed
  show "groups val objs (merge_bid_price M interval) (\<lambda>price q. mpd_cmp M price q \<le> 0) (round_down (val interval)) nodes"
    if s: "sorted_wrt (\<ge>) (map (node_price val objs) nodes)"
  proof -
    have "sorted_wrt (\<lambda>a b. node_price val objs b \<le> node_price val objs a) nodes" using s by (simp add: sorted_wrt_map)
    then have "sorted_wrt (\<lambda>a b. mpd_cmp M (merge_bid_price M interval (o_price (the (objs a)))) (o_price (the (objs b))) \<le> 0 \<longleftrightarrow>
        round_down (val interval) (node_price val objs b) = round_down (val interval) (node_price val objs a)) nodes"
      by (rule sorted_wrt_mono_rel [rotated])
        (use P nodes_fin [OF ok] same_level_down [OF i(2)] in \<open>simp add: cmp_le flip: node_price_def\<close>)
    then show ?thesis using P by (simp add: groups_def)
  qed
qed

end

text \<open>
  C14. The depth shows the book: for sides in price order, it consists of the different prices of the book in this
  order, each with the sum of what is left of all the orders at this price, cut off after the limit. The depth merged
  by an interval shows the multiples of the interval instead, an ask at the next one above its price and a bid at the
  next one below, again each once and with the sum of all its orders, cut off after the limit. The numbers and sums of the
  book are taken to have at most 34 digits.
\<close>

theorem depth_shows_book:
  assumes "mpd_floor_lib (mpd E) fin val"
    and "nodes_ok fin val (m_orders m) p bound (m_asks m)" "nodes_ok fin val (m_orders m) p bound (m_bids m)"
    and "sorted_wrt (\<le>) (map (node_price val (m_orders m)) (m_asks m))" "sorted_wrt (\<ge>) (map (node_price val (m_orders m)) (m_bids m))"
  shows "(\<exists>asks bids. get_depth E m limit = depth_json E asks bids \<and>
      level_values val asks = book_levels val (m_orders m) (\<lambda>q. q) limit (m_asks m) \<and>
      level_values val bids = book_levels val (m_orders m) (\<lambda>q. q) limit (m_bids m)) \<and>
    (merge_ok fin val (m_orders m) r (m_asks m) interval \<and> merge_ok fin val (m_orders m) r (m_bids m) interval \<longrightarrow>
      (\<exists>asks bids. get_depth_merge E m limit interval = depth_json E asks bids \<and>
        level_values val asks = book_levels val (m_orders m) (round_up (val interval)) limit (m_asks m) \<and>
        level_values val bids = book_levels val (m_orders m) (round_down (val interval)) limit (m_bids m)))"
proof -
  let ?P = "node_price val (m_orders m)"
  note E = assms(1)
  have lib: "mpd_lib (mpd E) fin val" using E by (simp add: mpd_floor_lib_def)
  note sum = mpd_lib.depth_levels_sum [OF lib, folded level_values_def]
  have plain: "level_values val (depth_levels (mpd E) (m_orders m) (\<lambda>q. q) (\<lambda>price q. mpd_cmp (mpd E) price q = 0) limit nodes) =
      book_levels val (m_orders m) (\<lambda>q. q) limit nodes"
    if "nodes_ok fin val (m_orders m) p bound nodes" "sorted_wrt (\<le>) (map ?P nodes) \<or> sorted_wrt (\<ge>) (map ?P nodes)" for nodes
    by (rule sum [OF that(1) mpd_lib.groups_plain [OF lib that(1)] sorted_runs [OF that(2)]])
  show ?thesis
  proof (intro conjI impI)
    show "\<exists>asks bids. get_depth E m limit = depth_json E asks bids \<and>
        level_values val asks = book_levels val (m_orders m) (\<lambda>q. q) limit (m_asks m) \<and>
        level_values val bids = book_levels val (m_orders m) (\<lambda>q. q) limit (m_bids m)"
      unfolding get_depth_def Let_def using plain [OF assms(2)] plain [OF assms(3)] assms(4,5) by blast
    assume m: "merge_ok fin val (m_orders m) r (m_asks m) interval \<and> merge_ok fin val (m_orders m) r (m_bids m) interval"
    then have v: "0 < val interval" by (simp add: merge_ok_def)
    have up: "sorted_wrt (\<le>) (map (\<lambda>n. round_up (val interval) (?P n)) (m_asks m))"
      and down: "sorted_wrt (\<ge>) (map (\<lambda>n. round_down (val interval) (?P n)) (m_bids m))"
      using sorted_wrt_image [OF assms(4), of "(\<le>)" "round_up (val interval)"] round_up_mono [OF v]
        sorted_wrt_image [OF assms(5), of "(\<ge>)" "round_down (val interval)"] round_down_mono [OF v] by blast+
    show "\<exists>asks bids. get_depth_merge E m limit interval = depth_json E asks bids \<and>
        level_values val asks = book_levels val (m_orders m) (round_up (val interval)) limit (m_asks m) \<and>
        level_values val bids = book_levels val (m_orders m) (round_down (val interval)) limit (m_bids m)"
      unfolding get_depth_merge_def Let_def
      using sum [OF assms(2) mpd_floor_lib.groups_merged(1) [OF E assms(2) conjunct1 [OF m] assms(4)] sorted_runs [OF disjI1 [OF up]]]
        sum [OF assms(3) mpd_floor_lib.groups_merged(2) [OF E assms(3) conjunct2 [OF m] assms(5)] sorted_runs [OF disjI2 [OF down]]]
      by blast
  qed
qed

text \<open>An input: three orders at two prices, shown as they are and by tens.\<close>

definition ex_book :: "dec market" where
  "ex_book = ex_market\<lparr>m_orders := [1 \<mapsto> ex_order, 2 \<mapsto> ex_order\<lparr>o_id := 2, o_left := Dec 5 0\<rparr>,
       3 \<mapsto> ex_order\<lparr>o_id := 3, o_price := Dec 101 0\<rparr>], m_asks := [1, 2, 3]\<rparr>"

lemma depth_shows_book_witness:
  "(\<exists>asks bids. get_depth ex_env ex_book 1 = depth_json ex_env asks bids \<and> level_values dec_val asks = [(100, 7)]) \<and>
   (\<exists>asks bids. get_depth_merge ex_env ex_book 5 (Dec 10 0) = depth_json ex_env asks bids \<and>
      level_values dec_val asks = [(100, 7), (110, 2)])"
proof -
  have n: "nodes_ok dec_fin dec_val (m_orders ex_book) 0 9 (m_asks ex_book)" "nodes_ok dec_fin dec_val (m_orders ex_book) 0 9 (m_bids ex_book)"
    by (simp_all add: nodes_ok_def ex_book_def node_left_def)
  have s: "sorted_wrt (\<le>) (map (node_price dec_val (m_orders ex_book)) (m_asks ex_book))"
    "sorted_wrt (\<ge>) (map (node_price dec_val (m_orders ex_book)) (m_bids ex_book))"
    by (simp_all add: node_price_def ex_book_def)
  have g: "on_grid 0 (100 :: rat)" "on_grid 0 (101 :: rat)" "on_grid 0 (10 :: rat)" "on_grid 0 (110 :: rat)" "on_grid 0 (111 :: rat)"
    by (auto simp: on_grid_def intro: exI [of _ 100] exI [of _ 101] exI [of _ 10] exI [of _ 110] exI [of _ 111])
  have m: "merge_ok dec_fin dec_val (m_orders ex_book) 0 (m_asks ex_book) (Dec 10 0)"
    "merge_ok dec_fin dec_val (m_orders ex_book) 0 (m_bids ex_book) (Dec 10 0)"
    using g by (simp_all add: merge_ok_def node_price_def ex_book_def fits_def)
  have "mpd_floor_lib (mpd ex_env) dec_fin dec_val" using dec_floor.mpd_floor_lib_axioms by (simp add: ex_env_def)
  note D = depth_shows_book [OF this n s]
  have c: "\<lceil>(101 :: rat) / 10\<rceil> = 11" by (simp add: ceiling_unique)
  show ?thesis using D [of 1 0 "Dec 10 0"] D [of 5 0 "Dec 10 0"] m c
    by (simp add: book_levels_def ex_book_def node_price_def node_left_def round_up_def) blast
qed

end
