(* ===== verification/Update_Replay.thy ===== *)
theory Update_Replay
  imports Recovery_Properties
begin

text \<open>
  Where the restart of the engine goes wrong: updates of balances whose amounts have more decimals than the
  asset shows, and updates that are repeated after the server has forgotten them.
\<close>

section \<open>The log entry of an update\<close>

text \<open>
  What the loader does with the entry of an update, in a server \<open>Y\<close>: it reads the amount with the
  precision that is saved. The detail document plays no part.
\<close>

definition reload_update ::
  "('d, 'j) env \<Rightarrow> u32 \<Rightarrow> string \<Rightarrow> string \<Rightarrow> u64 \<Rightarrow> string \<Rightarrow> 'j \<Rightarrow> ('d, 'j) server \<Rightarrow> int \<times> ('d, 'j) server" where
  "reload_update E u asset business i amount detail Y =
     (if asset_prec (ledger (sv_engine Y)) asset < 0 then (0, Y)
      else case decimal (mpd E) amount (asset_prec (ledger (sv_engine Y)) asset) of
        None \<Rightarrow> (- 166, Y)
      | Some change \<Rightarrow>
          (case update_user_balance E False u asset business i change detail (sv_updates Y) (sv_engine Y) of
             (ret, _, D, S) \<Rightarrow> (if ret < 0 then - 181 else 0, Y\<lparr>sv_engine := S, sv_updates := D\<rparr>)))"

context json_lib
begin

lemma update_logged:
  assumes E: "json E = J" "json E' = J" and arr: "json_is_array J params"
    and p: "update_params E (ledger (sv_engine X)) params = Some (u, asset, business, i, change, detail)"
    and amount: "str_param E params 4 = Some amount"
    and step: "on_cmd_balance_update E st pkg params X = (X', reply)"
      "log_entries (sv_oplog X') = log_entries (sv_oplog X) @ [(n, t, Some s)]"
  shows "n = operlog_id_start (sv_oplog X) + 1 \<and>
    (\<exists>detail' d. json_loadb J s = Some detail' \<and> (\<forall>Y. load_oper E' detail' Y = Some (reload_update E' u asset business i amount d Y))) \<and>
    (\<exists>d1 S1. update_user_balance E True u asset business i change detail (sv_updates X) (sv_engine X) = (0, d1, sv_updates X', S1) \<and>
       ledger (sv_engine X') = ledger S1 \<and> sv_markets X' = sv_markets X)"
proof -
  note q = update_params_SomeD [OF p]
  obtain r d1 D1 S1 where up: "update_user_balance E True u asset business i change detail (sv_updates X) (sv_engine X) = (r, d1, D1, S1)"
    by (metis prod_cases4)
  note f = update_user_assets [OF up]
  have r: "r = 0"
  proof (rule ccontr)
    assume "r \<noteq> 0"
    then have "r < 0" using f by simp
    then have "X' = X" using f step(1) by (auto simp: on_cmd_balance_update_def p up Let_def split: if_splits)
    then show False using step(2) by simp
  qed
  define params1 where "params1 = json_array_set J params 5 d1"
  have s1: "json_is_array J params1" "json_array_size J params1 = 6" "json_array_get J params1 5 = Some d1"
    "\<And>k. k \<noteq> 5 \<Longrightarrow> json_array_get J params1 k = json_array_get J params k"
    using array_set [OF arr, of 5] q(1) by (simp_all add: params1_def E)
  have o: "json_is_object J (Some d1)"
    using object_set [of detail] q(9) update_detail [OF up [unfolded r]] by (simp add: E)
  obtain S lg where lr: "append_operlog E ''update_balance'' params1 S1 (sv_oplog X) = (S, lg)" by fastforce
  have X': "X' = X\<lparr>sv_engine := S, sv_updates := D1, sv_oplog := lg\<rparr>"
    using step(1) r lr by (auto simp: on_cmd_balance_update_def p up Let_def params1_def E)
  have dump: "n = operlog_id_start (sv_oplog X) + 1" "json_dumps J (oper_detail E ''update_balance'' params1) JSON_SORT_KEYS = Some s"
    using log_entries_append [OF lr] step(2) X' E by simp_all
  have "ascii ''update_balance''" by (simp add: ascii_def)
  from load_logged [OF E this s1(1) dump(2)] obtain detail' params' where l: "json_loadb J s = Some detail'" "eq params1 params'"
    "json_is_array J params'" "json_string_value J (json_object_get J detail' ''method'') = Some ''update_balance''"
    "json_object_get J detail' ''params'' = Some params'" by blast
  note e = scalar_eqD [OF array_eqD(3) [OF l(2)]]
  have k: "int_param E' params' k = int_param E params k" "str_param E' params' k = str_param E params k" if "k \<noteq> 5" for k
    using e [of k] s1(4) [OF that] by (simp_all add: int_param_def str_param_def E)
  from array_eqD(3) [OF l(2), of 5] s1(3) o scalar_eqD(5)
  obtain d where d: "json_array_get J params' 5 = Some d" "json_is_object J (Some d)"
    by (cases "json_array_get J params' 5") fastforce+
  obtain a b where ab: "int_param E params 0 = Some a" "u = word_of_int a" "int_param E params 3 = Some b" "i = word_of_int b"
    using q(5,6) by blast
  have "load_oper E' detail' Y = Some (reload_update E' u asset business i amount d Y)" for Y
    using l(3-5) array_eqD(2) [OF l(2)] s1(2) d k q(2,4) ab amount
    by (simp add: load_oper_def load_update_balance_def reload_update_def E Let_def del: One_nat_def split: option.splits)
  moreover have "ledger S = ledger S1" using lr by (auto simp: append_operlog_def Let_def)
  ultimately show ?thesis using dump(1) l(1) up r X' by auto
qed

end

section \<open>What loading keeps\<close>

lemma reload_known:
  assumes "reload_update E u asset business i amount d Y = (r, Y')" "sv_updates Y (update_key u asset business i) \<noteq> None"
    and "0 \<le> asset_prec (ledger (sv_engine Y)) asset"
  shows "r < 0"
  using assms by (auto simp: reload_update_def update_user_balance_def split: option.splits)

lemma reload_new:
  assumes "reload_update E u asset business i amount d Y = (r, Y')" "\<not> r < 0" "0 \<le> asset_prec (ledger (sv_engine Y)) asset"
  shows "sv_updates Y' (update_key u asset business i) \<noteq> None"
proof -
  from assms obtain change where c: "decimal (mpd E) amount (asset_prec (ledger (sv_engine Y)) asset) = Some change"
    by (cases "decimal (mpd E) amount (asset_prec (ledger (sv_engine Y)) asset)") (auto simp: reload_update_def)
  obtain k d1 D S where up: "update_user_balance E False u asset business i change d (sv_updates Y) (sv_engine Y) = (k, d1, D, S)"
    by (metis prod_cases4)
  have "\<not> k < 0" "Y' = Y\<lparr>sv_engine := S, sv_updates := D\<rparr>" using assms by (auto simp: reload_update_def c up split: if_splits)
  moreover from this have "k = 0" using update_user_assets [OF up] by simp
  ultimately have "update_key u asset business i \<in> dom (sv_updates Y')" using update_user_dom [OF up] by simp
  then show "sv_updates Y' (update_key u asset business i) \<noteq> None" by (simp only: domIff not_False_eq_True)
qed

definition keeps :: "('d, 'j) server \<Rightarrow> ('d, 'j) server \<Rightarrow> bool" where
  "keeps Y Y' \<longleftrightarrow> dom (sv_updates Y) \<subseteq> dom (sv_updates Y') \<and> dict_asset (ledger (sv_engine Y')) = dict_asset (ledger (sv_engine Y))"

lemma keeps_trans: "\<lbrakk>keeps X Y; keeps Y Z\<rbrakk> \<Longrightarrow> keeps X Z"
  by (simp add: keeps_def) (elim conjE, erule (1) subset_trans)

lemma keeps_same: "\<lbrakk>sv_updates Y' = sv_updates Y; dict_asset (ledger (sv_engine Y')) = dict_asset (ledger (sv_engine Y))\<rbrakk> \<Longrightarrow> keeps Y Y'"
  by (simp add: keeps_def)

lemma keeps_update:
  assumes "update_user_balance E live u a b i change detail (sv_updates Y) (sv_engine Y) = (r, d, D, S)"
  shows "keeps Y (Y\<lparr>sv_engine := S, sv_updates := D\<rparr>)"
proof -
  have "dom (sv_updates Y) \<subseteq> dom D" unfolding update_user_dom [OF assms] by auto
  then show ?thesis using update_user_assets [OF assms] unfolding keeps_def by simp
qed

lemma load_oper_keeps:
  assumes "load_oper E detail Y = Some (r, Y')"
  shows "keeps Y Y'"
proof -
  have u: "keeps Y Z" if "load_update_balance E params Y = (k, Z)" for params k Z
    using that by (auto simp: load_update_balance_def Let_def dest: keeps_update intro: keeps_same split: option.splits prod.splits if_splits)
  have l: "keeps Y Z" if "load_limit_order E params Y = (k, Z)" for params k Z
    using that by (auto simp: load_limit_order_def set_market_def dest!: put_limit_assets intro!: keeps_same split: option.splits prod.splits if_splits)
  have c: "keeps Y Z" if "load_cancel_order E params Y = (k, Z)" for params k Z
    using that by (auto simp: load_cancel_order_def set_market_def dest!: cancel_assets intro!: keeps_same split: option.splits prod.splits if_splits)
  have m: "keeps Y Z" if "load_market_order E params Y = Some (k, Z)" for params k Z
    using that by (auto simp: load_market_order_def set_market_def dest!: put_market_assets intro!: keeps_same split: option.splits if_splits)
  show ?thesis using assms by (auto simp: load_oper_def dest: u l c m intro: keeps_same split: option.splits if_splits)
qed

lemma load_rows_keep:
  "load_oper_rows E rows start Y = Some (r, last', Y') \<Longrightarrow>
    keeps Y Y'"
proof (induction E rows start Y rule: load_oper_rows.induct)
  case (2 E i s rows start Y)
  show ?case
  proof (cases "i = start + 1 \<and> (\<exists>detail Z. json_loadb (json E) s = Some detail \<and> load_oper E detail Y = Some Z)")
    case True
    then obtain detail k Z where d: "i = start + 1" "json_loadb (json E) s = Some detail" "load_oper E detail Y = Some (k, Z)" by auto
    show ?thesis
    proof (cases "k < 0")
      case True
      then show ?thesis using d "2.prems" load_oper_keeps [OF d(3)] by simp
    next
      case False
      then have "load_oper_rows E rows i Z = Some (r, last', Y')" using d "2.prems" by simp
      from "2.IH" [OF _ d(2,3) HOL.refl False this] d(1) load_oper_keeps [OF d(3)] show ?thesis by (metis keeps_trans)
    qed
  qed (use "2.prems" in \<open>auto intro: keeps_same split: if_splits option.splits prod.splits\<close>)
qed (auto intro: keeps_same)

section \<open>A log that loads was executed entry by entry\<close>

lemma load_oper_rows_code: "load_oper_rows E rows start Y = Some (k, mid, Z) \<Longrightarrow> k < 0 \<or> k = 0"
  by (induction E rows start Y rule: load_oper_rows.induct) (auto split: if_splits option.splits prod.splits)

text \<open>The ids of a log that was written from the id \<open>start\<close> on.\<close>

definition consecutive :: "u64 \<Rightarrow> (u64 \<times> string) list \<Rightarrow> bool" where
  "consecutive start rows \<longleftrightarrow> unat start + length rows < 2 ^ 64 \<and>
     map fst rows = map (\<lambda>k. start + 1 + word_of_nat k) [0..<length rows]"

lemma load_operlog_rows:
  assumes t: "log_table Q db table rows" and c: "consecutive start rows" and n: "n \<le> length rows"
    and l: "load_operlog E Q db table (start + word_of_nat n) Y = Some (0, last', Y')"
  shows "load_oper_rows E (drop n rows) (start + word_of_nat n) Y = Some (0, last', Y')"
  using n l
proof (induction "length rows - n" arbitrary: n Y rule: less_induct)
  case less
  let ?i = "start + word_of_nat n" and ?page = "take QUERY_LIMIT (drop n rows)"
  have q: "db_select_operlog Q db table ?i QUERY_LIMIT = Some ?page"
    using t later_rows [OF conjunct2 [OF c [unfolded consecutive_def]] conjunct1 [OF c [unfolded consecutive_def]] less.prems(1)]
    by (simp add: log_table_def)
  note s = less.prems(2) [unfolded load_operlog.simps [of E Q db table ?i] q option.case]
  obtain k mid Z where m: "load_oper_rows E ?page ?i Y = Some (k, mid, Z)" using s by (auto split: option.splits)
  with s load_oper_rows_code [OF m] have k: "k = 0" by (auto split: if_splits)
  note s = s [unfolded m option.case prod.case k] and m = m [unfolded k]
  show ?case
  proof (cases "length ?page < QUERY_LIMIT")
    case True
    then have "?page = drop n rows" by simp
    then show ?thesis using s m True by simp
  next
    case False
    then have le: "n + QUERY_LIMIT \<le> length rows" using less.prems(1) by (simp add: QUERY_LIMIT_def)
    have mid: "mid = start + word_of_nat (n + QUERY_LIMIT)" using load_oper_rows_ids [OF m] False by (simp add: ac_simps)
    have "load_operlog E Q db table mid Z = Some (0, last', Y')" using s False by simp
    from less.hyps [OF _ le this [unfolded mid]] le have
      "load_oper_rows E (drop QUERY_LIMIT (drop n rows)) mid Z = Some (0, last', Y')"
      by (simp add: QUERY_LIMIT_def mid add.commute)
    with m have "load_oper_rows E (?page @ drop QUERY_LIMIT (drop n rows)) ?i Y = Some (0, last', Y')"
      unfolding load_oper_rows_split by blast
    then show ?thesis by (simp only: append_take_drop_id)
  qed
qed

section \<open>Updates that are repeated after they were forgotten\<close>

text \<open>
  C15. The engine can log what it cannot load: when the same update (of one user, asset, business
  and business id) was accepted twice, which takes that the timer forgot the first one, then the
  log holds two entries for it, and no server that knows the asset loads that log: the loader forgets nothing and
  refuses the second entry as a repetition, whatever lies between the two entries, before or after
  them, and however the log is paged. The load fails or does not return, so the process does not
  start.
\<close>

theorem forgotten_update_stops_restart:
  assumes "json_lib (json E) eq" and "json E' = json E"
    and "json_is_array (json E) params" and "json_is_array (json E) params'"
    and "update_params E (ledger (sv_engine X)) params = Some (u, asset, business, i, change, detail)"
    and "update_params E (ledger (sv_engine X2)) params' = Some (u, asset, business, i, change', detail')"
    and "on_cmd_balance_update E st pkg params X = (X1, reply)"
    and "log_entries (sv_oplog X1) = log_entries (sv_oplog X) @ [(n1, t1, Some s1)]"
    and "server_run E st es X1 = Some X2"
    and "on_cmd_balance_update E st pkg' params' X2 = (X3, reply')"
    and "log_entries (sv_oplog X3) = log_entries (sv_oplog X2) @ [(n2, t2, Some s2)]"
    and "log_table Q db table rows" and "consecutive start rows"
    and "rows = before @ (n1, s1) # between @ (n2, s2) # after"
    and "0 \<le> asset_prec (ledger (sv_engine Y)) asset"
  shows "load_operlog E' Q db table start Y \<noteq> Some (0, last', Y')"
proof
  assume "load_operlog E' Q db table start Y = Some (0, last', Y')"
  with load_operlog_rows [OF assms(12,13), of 0 E' Y last' Y'] assms(14)
  have "load_oper_rows E' (before @ [(n1, s1)] @ between @ [(n2, s2)] @ after) start Y = Some (0, last', Y')" by simp
  then obtain m1 m2 m3 m4 Y1 Y2 Y3 Y4 where r: "load_oper_rows E' before start Y = Some (0, m1, Y1)"
    "load_oper_rows E' [(n1, s1)] m1 Y1 = Some (0, m2, Y2)" "load_oper_rows E' between m2 Y2 = Some (0, m3, Y3)"
    "load_oper_rows E' [(n2, s2)] m3 Y3 = Some (0, m4, Y4)"
    unfolding load_oper_rows_split by blast
  from update_params_SomeD(7) [OF assms(5)] obtain amount where a1: "str_param E params 4 = Some amount" by blast
  from update_params_SomeD(7) [OF assms(6)] obtain amount' where a2: "str_param E params' 4 = Some amount'" by blast
  from json_lib.update_logged [OF assms(1) HOL.refl assms(2,3,5) a1 assms(7,8)] obtain detail1 d1 where
    1: "json_loadb (json E) s1 = Some detail1" "\<And>Y. load_oper E' detail1 Y = Some (reload_update E' u asset business i amount d1 Y)" by blast
  from json_lib.update_logged [OF assms(1) HOL.refl assms(2,4,6) a2 assms(10,11)] obtain detail2 d2 where
    2: "json_loadb (json E) s2 = Some detail2" "\<And>Y. load_oper E' detail2 Y = Some (reload_update E' u asset business i amount' d2 Y)" by blast
  from r(2) 1 assms(2) obtain k1 where e1: "reload_update E' u asset business i amount d1 Y1 = (k1, Y2)" "\<not> k1 < 0"
    by (auto split: if_splits prod.splits)
  from r(4) 2 assms(2) obtain k2 where e2: "reload_update E' u asset business i amount' d2 Y3 = (k2, Y4)" "\<not> k2 < 0"
    by (auto split: if_splits prod.splits)
  have k: "keeps Y Y1" "keeps Y1 Y2" "keeps Y2 Y3" using load_rows_keep r(1-3) by blast+
  then have p: "asset_prec (ledger (sv_engine Y1)) asset = asset_prec (ledger (sv_engine Y)) asset"
    "asset_prec (ledger (sv_engine Y3)) asset = asset_prec (ledger (sv_engine Y)) asset"
    by (simp_all add: keeps_def asset_prec_def)
  from reload_new [OF e1] p(1) assms(15) have "update_key u asset business i \<in> dom (sv_updates Y2)" by (simp add: domIff)
  with k(3) have "sv_updates Y3 (update_key u asset business i) \<noteq> None" unfolding keeps_def by (blast dest: domIff [THEN iffD1])
  from reload_known [OF e2(1) this] p(2) assms(15) e2(2) show False by simp
qed

theorem forgotten_update_stops_restart_witness:
  "\<exists>X1 r1 X2 X3 r3 t1 s1 t2 s2.
     on_cmd_balance_update ex_env ex_settings (ex_packet CMD_BALANCE_UPDATE ex_deposit) ex_deposit (ex_server 8) = (X1, r1) \<and>
     server_run ex_env ex_settings [ForgetUpdates 86400000001] X1 = Some X2 \<and>
     on_cmd_balance_update ex_env ex_settings (ex_packet CMD_BALANCE_UPDATE ex_deposit) ex_deposit X2 = (X3, r3) \<and>
     log_entries (sv_oplog X3) = [(1, t1, Some s1), (2, t2, Some s2)] \<and>
     (\<forall>last' Y'. load_operlog ex_env ex_db [(1, s1), (2, s2)] ''t'' 0 (ex_server 8) \<noteq> Some (0, last', Y'))"
proof -
  have e: "json ex_env = jv_ops" by (simp add: ex_env_def)
  have i: "shows_cny (ex_server 8)" "sv_updates (ex_server 8) ex_key = None" "log_entries (sv_oplog (ex_server 8)) = []"
    "operlog_id_start (sv_oplog (ex_server 8)) = 0" "sv_updates (ex_server 8) = Map.empty" "ticks (sv_engine (ex_server 8)) = 0"
    by (simp_all add: shows_cny_def ex_server_def ex_ledger_def balance_get_def balance_key_def ASSET_NAME_MAX_LEN_def ex_engine_def
        init_operlog_def log_entries_def)
  from cny_deposit [OF i(1,2)] obtain X1 r1 t1 s1 where
    1: "on_cmd_balance_update ex_env ex_settings (ex_packet CMD_BALANCE_UPDATE ex_deposit) ex_deposit (ex_server 8) = (X1, r1)"
      "log_entries (sv_oplog X1) = log_entries (sv_oplog (ex_server 8)) @ [(1, t1, Some s1)]"
      "operlog_id_start (sv_oplog X1) = 1" "shows_cny X1" "sv_updates X1 = [ex_key \<mapsto> 0]"
    by (auto simp: i)
  define X2 where "X2 = X1\<lparr>sv_updates := update_on_timer 86400000001 (sv_updates X1)\<rparr>"
  have run: "server_run ex_env ex_settings [ForgetUpdates 86400000001] X1 = Some X2" by (simp add: X2_def)
  have c: "shows_cny X2" "sv_updates X2 ex_key = None" using 1(4,5) by (simp_all add: X2_def shows_cny_def update_on_timer_def)
  from cny_deposit [OF c] obtain X3 r3 t2 s2 where
    2: "on_cmd_balance_update ex_env ex_settings (ex_packet CMD_BALANCE_UPDATE ex_deposit) ex_deposit X2 = (X3, r3)"
      "log_entries (sv_oplog X3) = log_entries (sv_oplog X2) @ [(2, t2, Some s2)]"
    using 1(3) by (auto simp: X2_def)
  have p: "update_params ex_env (ledger (sv_engine X)) ex_deposit = Some (2, ''CNY'', ''deposit'', 1, Dec 12900000 (- 8), JObj [])"
    if "shows_cny X" for X :: "(dec, jv) server"
    by (simp add: update_params_def check_def int_param_def str_param_def e cny_precs [OF that] ex_deposit_def ex_decimal jv_ops_def)
  have j: "json_lib (json ex_env) (=)" using jv.json_lib_axioms by (simp add: ex_env_def)
  have a: "json_is_array (json ex_env) ex_deposit" by (simp add: e jv_ops_def ex_deposit_def)
  have w: "consecutive 0 [(1, s1), (2, s2)]" by (simp add: consecutive_def)
  have "load_operlog ex_env ex_db [(1, s1), (2, s2)] ''t'' 0 (ex_server 8) \<noteq> Some (0, last', Y')" for last' Y'
    by (rule forgotten_update_stops_restart [OF j HOL.refl a a p [OF i(1)] p [OF c(1)] 1(1,2) run 2 ex_log_table w, of "[]" "[]" "[]"])
      (simp_all add: cny_precs [OF i(1)])
  then show ?thesis using 1(1,2) run 2 i(3) by (simp add: X2_def)
qed

section \<open>Amounts with more decimals than the asset shows\<close>

lemma credit_eq: "credit f k x = credit f k y \<longleftrightarrow> x = y"
  using fun_upd_eqD [of f k "f k + x" f "f k + y"] by (auto simp: credit_def)

text \<open>A deposit is made: the balance grows by the amount.\<close>

context mpd_lib
begin

lemma deposit_made:
  assumes E: "mpd E = M" and ok: "ledger_ok fin val (ledger S)" and a: "dict_asset (ledger S) asset = Some aty"
    and x: "fin x" "0 \<le> val x" "on_grid (prec_save aty) (val x)"
    and bound: "(bal val (ledger S) (u, BALANCE_TYPE_AVAILABLE, asset) + val x) * 10 ^ nat (prec_save aty) < 10 ^ 34"
    and new: "D (update_key u asset business i) = None"
    and up: "update_user_balance E live u asset business i x detail D S = (r, d1, D1, S1)"
  shows "r = 0 \<and> bal val (ledger S1) = credit (bal val (ledger S)) (u, BALANCE_TYPE_AVAILABLE, asset) (val x)"
proof -
  have "fin (mpd_abs M x)" "val (mpd_abs M x) = val x" "mpd_cmp M x (mpd_zero M) \<ge> 0" using abs [of x] x by (simp_all add: cmp)
  with balance_add_ok [OF ok a, of "mpd_abs M x" u BALANCE_TYPE_AVAILABLE] x bound obtain L' r' where
    "balance_add M (ledger S) u BALANCE_TYPE_AVAILABLE asset (mpd_abs M x) = (L', Some r')"
    "bal val L' = credit (bal val (ledger S)) (u, BALANCE_TYPE_AVAILABLE, asset) (val x)"
    by (auto simp: credit_def)
  then show ?thesis using up new \<open>mpd_cmp M x (mpd_zero M) \<ge> 0\<close>
    by (cases live) (auto simp: update_user_balance_def E Let_def)
qed

lemma cut_bound:
  "0 \<le> b \<Longrightarrow> 0 \<le> x \<Longrightarrow> p \<le> q \<Longrightarrow> (b + x) * 10 ^ nat q < 10 ^ 34 \<Longrightarrow> \<bar>x\<bar> * 10 ^ nat p < 10 ^ 34 \<and> (b + trunc_to p x) * 10 ^ nat q < 10 ^ 34"
proof (intro conjI)
  assume h: "0 \<le> b" "0 \<le> x" "p \<le> q" "(b + x) * 10 ^ nat q < 10 ^ 34"
  have "x * 10 ^ nat p \<le> (b + x) * 10 ^ nat q" using h(1-3) by (intro mult_mono power_increasing) auto
  then show "\<bar>x\<bar> * 10 ^ nat p < 10 ^ 34" using h by simp
  have "(b + trunc_to p x) * 10 ^ nat q \<le> (b + x) * 10 ^ nat q" using trunc_to_le [OF h(2), of p] by (intro mult_right_mono) auto
  then show "(b + trunc_to p x) * 10 ^ nat q < 10 ^ 34" using h(4) by (rule order.strict_trans1)
qed

end

text \<open>
  C16. With a precision that is shown smaller than the one that is saved, a restart does not
  recover the balances. A deposit is credited with its amount cut to the decimals that are shown;
  its log entry keeps the text of the amount, and a server that agreed with this one before the
  deposit loads the entry without an error, but credits the amount cut to the decimals that are
  saved. (At least one decimal is shown; the amount is finite, and with the balance it has at most 34 digits.) The two servers agree on the balances exactly when the amount has no digit between the two
  precisions: 0.129 with two decimals shown and eight saved is 0.12 before the restart and 0.129
  after it.
\<close>

theorem balance_replay_diverges:
  assumes "mpd_lib (mpd E) fin val" and "json_lib (json E) eq" and "json E' = json E" and "mpd E' = mpd E"
    and "same_server X Y" and "ledger_ok fin val (ledger (sv_engine X))"
    and "dict_asset (ledger (sv_engine X)) asset = Some aty" and "0 < prec_show aty" and "prec_show aty \<le> prec_save aty"
    and "json_is_array (json E) params" and "str_param E params 4 = Some amount"
    and "update_params E (ledger (sv_engine X)) params = Some (u, asset, business, i, change, detail)"
    and "mpd_set_string (mpd E) amount = (v, False)" and "fin v" and "0 \<le> val v"
    and "(bal val (ledger (sv_engine X)) (u, BALANCE_TYPE_AVAILABLE, asset) + val v) * 10 ^ nat (prec_save aty) < 10 ^ 34"
    and "on_cmd_balance_update E st pkg params X = (X', reply)"
    and "log_entries (sv_oplog X') = log_entries (sv_oplog X) @ [(n, t, Some s)]"
  shows "\<exists>Y'. load_oper_rows E' [(n, s)] (operlog_id_start (sv_oplog X)) Y = Some (0, n, Y') \<and>
    bal val (ledger (sv_engine X')) =
      credit (bal val (ledger (sv_engine X))) (u, BALANCE_TYPE_AVAILABLE, asset) (trunc_to (prec_show aty) (val v)) \<and>
    bal val (ledger (sv_engine Y')) =
      credit (bal val (ledger (sv_engine X))) (u, BALANCE_TYPE_AVAILABLE, asset) (trunc_to (prec_save aty) (val v)) \<and>
    (bal val (ledger (sv_engine X')) = bal val (ledger (sv_engine Y')) \<longleftrightarrow> trunc_to (prec_show aty) (val v) = trunc_to (prec_save aty) (val v))"
proof -
  let ?L = "ledger (sv_engine X)" and ?k = "(u, BALANCE_TYPE_AVAILABLE, asset)"
  note M = assms(1) and p = ledger_ok_prec [OF assms(6,7)] and same = same_serverD [OF assms(5)]
  have nn: "0 \<le> bal val ?L ?k" by (rule ledger_ok_nonneg [OF assms(6)])
  note cut = mpd_lib.cut_bound [OF M nn assms(15) _ assms(16)]
  from mpd_lib.decimal_truncates [OF M assms(13,14), of "prec_show aty"] cut [OF assms(9)] p assms(8,9)
  obtain x where x: "decimal (mpd E) amount (prec_show aty) = Some x" "fin x" "val x = trunc_to (prec_show aty) (val v)" by auto
  from mpd_lib.decimal_truncates [OF M assms(13,14), of "prec_save aty"] cut [of "prec_save aty"] p assms(8,9)
  obtain y where y: "decimal (mpd E) amount (prec_save aty) = Some y" "fin y" "val y = trunc_to (prec_save aty) (val v)" by auto
  have g: "on_grid (prec_save aty) (val x)" "on_grid (prec_save aty) (val y)"
    using on_grid_mono [OF trunc_to_on_grid assms(9), of "val v"] x(3) y(3) trunc_to_on_grid by (simp_all add: assms(8))
  have ch: "change = x" using update_params_SomeD(7) [OF assms(12)] assms(11) x(1) by (simp add: asset_prec_show_def assms(7))
  from json_lib.update_logged [OF assms(2) HOL.refl assms(3,10,12,11,17,18)] obtain detail' d d1 S1 where
    l: "n = operlog_id_start (sv_oplog X) + 1" "json_loadb (json E) s = Some detail'"
      "load_oper E' detail' Y = Some (reload_update E' u asset business i amount d Y)" and
    up: "update_user_balance E True u asset business i x detail (sv_updates X) (sv_engine X) = (0, d1, sv_updates X', S1)"
      "ledger (sv_engine X') = ledger S1"
    unfolding ch by blast
  have new: "sv_updates X (update_key u asset business i) = None" using up(1) by (auto simp: update_user_balance_def Let_def split: if_splits)
  have live: "bal val (ledger (sv_engine X')) = credit (bal val ?L) ?k (val x)"
    using mpd_lib.deposit_made [OF M HOL.refl assms(6,7) x(2) _ g(1) _ new up(1)] cut [OF assms(9)] trunc_to_nonneg [OF assms(15)] x(3) up(2)
    by simp
  obtain k d2 D2 S2 where up2: "update_user_balance E' False u asset business i y d (sv_updates Y) (sv_engine Y) = (k, d2, D2, S2)"
    by (metis prod_cases4)
  have ok2: "ledger_ok fin val (ledger (sv_engine Y))" "dict_asset (ledger (sv_engine Y)) asset = Some aty"
    "sv_updates Y (update_key u asset business i) = None" using assms(6,7) new same(2,4) by simp_all
  have replayed: "k = 0" "bal val (ledger S2) = credit (bal val ?L) ?k (val y)"
    using mpd_lib.deposit_made [OF M assms(4) ok2(1,2) y(2) _ g(2) _ ok2(3) up2] cut [of "prec_save aty"] trunc_to_nonneg [OF assms(15)] y(3) same(2)
    by simp_all
  have "reload_update E' u asset business i amount d Y = (0, Y\<lparr>sv_engine := S2, sv_updates := D2\<rparr>)"
    using up2 replayed(1) y(1) p by (simp add: reload_update_def asset_prec_def ok2(2) assms(4))
  then show ?thesis using l live replayed(2) x(3) y(3) by (auto simp: assms(3) credit_eq)
qed

theorem balance_replay_diverges_witness:
  "\<exists>X' reply t s Y'.
     on_cmd_balance_update ex_env ex_settings (ex_packet CMD_BALANCE_UPDATE ex_deposit) ex_deposit (ex_server 2) = (X', reply) \<and>
     log_entries (sv_oplog X') = [(1, t, Some s)] \<and> load_oper_rows ex_env [(1, s)] 0 (ex_server 2) = Some (0, 1, Y') \<and>
     bal dec_val (ledger (sv_engine X')) (2, BALANCE_TYPE_AVAILABLE, ''CNY'') = 1000 + 12 / 100 \<and>
     bal dec_val (ledger (sv_engine Y')) (2, BALANCE_TYPE_AVAILABLE, ''CNY'') = 1000 + 129 / 1000"
proof -
  have e: "json ex_env = jv_ops" by (simp add: ex_env_def)
  have pr: "asset_prec_show (ledger (sv_engine (ex_server 2))) ''CNY'' = 2" "dict_asset (ledger (sv_engine (ex_server 2))) ''CNY'' = Some \<lparr>prec_save = 8, prec_show = 2\<rparr>"
    by (simp_all add: asset_prec_show_def ex_server_def)
  have D: "sv_updates (ex_server 2) = Map.empty" "sv_oplog (ex_server 2) = init_operlog 0" by (simp_all add: ex_server_def)
  have j: "json_lib (json ex_env) (=)" using jv.json_lib_axioms by (simp add: ex_env_def)
  have a: "json_is_array (json ex_env) ex_deposit" "str_param ex_env ex_deposit 4 = Some ''0.129''"
    by (simp_all add: e jv_ops_def ex_deposit_def str_param_def)
  have m: "same_server (ex_server 2) (ex_server 2)"
    by (auto simp: same_server_def same_engine_def same_market_def intro: option.rel_refl)
  have ok: "ledger_ok dec_fin dec_val (ledger (sv_engine (ex_server 2)))"
    using ex_ledger_ok by (simp add: ex_server_def ledger_ok_def assets_ok_def entry_ok_def ex_ledger_def split: if_splits)
  have up: "update_params ex_env (ledger (sv_engine (ex_server 2))) ex_deposit = Some (2, ''CNY'', ''deposit'', 1, Dec 12 (- 2), JObj [])"
    by (simp add: update_params_def check_def int_param_def str_param_def e pr ex_deposit_def ex_decimal jv_ops_def)
  obtain D1 S1 where 1: "update_user_balance ex_env True 2 ''CNY'' ''deposit'' 1 (Dec 12 (- 2)) (JObj []) Map.empty (sv_engine (ex_server 2)) =
      (0, JObj [(''id'', JInt 1)], D1, S1)"
    using ex_update [of "Dec 12 (- 2)" 100012000000 True "JObj []" 2] by (auto simp: jv_ops_def)
  obtain X' reply t s where 2: "on_cmd_balance_update ex_env ex_settings (ex_packet CMD_BALANCE_UPDATE ex_deposit) ex_deposit (ex_server 2) = (X', reply)"
    "log_entries (sv_oplog X') = [(1, t, Some s)]"
    using up 1 by (simp add: on_cmd_balance_update_def D e Let_def append_operlog_def init_operlog_def log_entries_def ex_deposit_def jv_ops_def)
  have v: "mpd_set_string (mpd ex_env) ''0.129'' = (Dec 129 (- 3), False)" "dec_fin (Dec 129 (- 3))" "dec_val (Dec 129 (- 3)) = 129 / 1000"
    by (simp_all, code_simp)
  have b: "bal dec_val (ledger (sv_engine (ex_server 2))) (2, BALANCE_TYPE_AVAILABLE, ''CNY'') = 1000"
    by (simp add: bal_def ex_server_def ex_ledger_def BALANCE_TYPE_AVAILABLE_def)
  have tr: "trunc_to 2 (129 / 1000) = 12 / 100" "trunc_to 8 (129 / 1000) = 129 / 1000" by (simp_all add: trunc_to_def floor_eq_iff)
  have l: "log_entries (sv_oplog (ex_server 2)) = []" "operlog_id_start (sv_oplog (ex_server 2)) = 0"
    by (simp_all add: D init_operlog_def log_entries_def)
  have M: "mpd_lib (mpd ex_env) dec_fin dec_val" using dec_mpd_lib by simp
  from balance_replay_diverges [OF M j HOL.refl HOL.refl m ok pr(2) _ _ a up v(1,2) _ _ 2(1), of 1 t s]
  obtain Y' where "load_oper_rows ex_env [(1, s)] 0 (ex_server 2) = Some (0, 1, Y')"
     "bal dec_val (ledger (sv_engine X')) = credit (bal dec_val (ledger (sv_engine (ex_server 2)))) (2, BALANCE_TYPE_AVAILABLE, ''CNY'') (12 / 100)"
     "bal dec_val (ledger (sv_engine Y')) = credit (bal dec_val (ledger (sv_engine (ex_server 2)))) (2, BALANCE_TYPE_AVAILABLE, ''CNY'') (129 / 1000)"
    using 2(2) by (auto simp: b v(3) tr l)
  then show ?thesis using 2 b by (simp add: credit_apply)
qed

end
