(* ===== verification/Buffers.thy ===== *)
theory Buffers
  imports Bytes
begin

text \<open>
  \<^verbatim>\<open>network/nw_buf.c\<close>: fixed-size buffers with a read and a write position, the pool they
  come from, and lists of buffers. The pool keeps released buffers; a buffer that is taken from it
  still holds old bytes, which its positions hide. What a buffer holds are the bytes between the
  positions.
\<close>

section \<open>Buffers\<close>

record nw_buf =
  buf_rpos :: nat
  buf_wpos :: nat
  buf_data :: "u8 list"

definition buf_cap :: "nw_buf \<Rightarrow> nat" where
  "buf_cap b = length (buf_data b)"

definition nw_buf_size :: "nw_buf \<Rightarrow> nat" where
  "nw_buf_size b = buf_wpos b - buf_rpos b"

definition nw_buf_avail :: "nw_buf \<Rightarrow> nat" where
  "nw_buf_avail b = buf_cap b - buf_wpos b"

definition poke :: "nat \<Rightarrow> u8 list \<Rightarrow> u8 list \<Rightarrow> u8 list" where
  "poke pos bs data = take pos data @ bs @ drop (pos + length bs) data"

definition nw_buf_write :: "u8 list \<Rightarrow> nw_buf \<Rightarrow> nat \<times> nw_buf" where
  "nw_buf_write data b =
     (let wlen = (if length data > nw_buf_avail b then nw_buf_avail b else length data)
      in (wlen, b\<lparr>buf_data := poke (buf_wpos b) (take wlen data) (buf_data b), buf_wpos := buf_wpos b + wlen\<rparr>))"

definition nw_buf_shift :: "nw_buf \<Rightarrow> nw_buf" where
  "nw_buf_shift b =
     (if buf_rpos b = buf_wpos b then b\<lparr>buf_rpos := 0, buf_wpos := 0\<rparr>
      else if buf_rpos b \<noteq> 0
      then b\<lparr>buf_data := poke 0 (drop (buf_rpos b) (take (buf_wpos b) (buf_data b))) (buf_data b),
             buf_wpos := buf_wpos b - buf_rpos b, buf_rpos := 0\<rparr>
      else b)"

definition buf_ok :: "nw_buf \<Rightarrow> bool" where
  "buf_ok b \<longleftrightarrow> buf_rpos b \<le> buf_wpos b \<and> buf_wpos b \<le> buf_cap b"

definition contents :: "nw_buf \<Rightarrow> u8 list" where
  "contents b = drop (buf_rpos b) (take (buf_wpos b) (buf_data b))"

lemma length_contents: "buf_ok b \<Longrightarrow> length (contents b) = nw_buf_size b"
  by (auto simp: contents_def nw_buf_size_def buf_ok_def buf_cap_def)

lemma write_ok:
  assumes "buf_ok b" "nw_buf_write data b = (n, b')"
  shows "buf_ok b'" "contents b' = contents b @ take n data" "n = min (length data) (nw_buf_avail b)"
    "buf_cap b' = buf_cap b" "buf_rpos b' = buf_rpos b" "nw_buf_avail b' = nw_buf_avail b - n"
  using assms
  by (auto simp: nw_buf_write_def Let_def buf_ok_def contents_def buf_cap_def nw_buf_avail_def poke_def min_def
      take_append split: if_splits)

lemma shift_ok:
  assumes "buf_ok b"
  shows "buf_ok (nw_buf_shift b)" "contents (nw_buf_shift b) = contents b" "buf_cap (nw_buf_shift b) = buf_cap b"
    "buf_rpos (nw_buf_shift b) = 0" "buf_wpos (nw_buf_shift b) = length (contents b)"
  using assms by (auto simp: nw_buf_shift_def buf_ok_def contents_def buf_cap_def poke_def)

section \<open>The pool\<close>

definition NW_BUF_POOL_INIT_SIZE :: nat where "NW_BUF_POOL_INIT_SIZE = 64"
definition NW_BUF_POOL_MAX_SIZE :: nat where "NW_BUF_POOL_MAX_SIZE = 65535"

record nw_buf_pool =
  pool_size :: nat
  pool_free :: "nw_buf list"
  pool_total :: nat

definition nw_buf_pool_create :: "nat \<Rightarrow> nw_buf_pool" where
  "nw_buf_pool_create n = \<lparr>pool_size = n, pool_free = [], pool_total = NW_BUF_POOL_INIT_SIZE\<rparr>"

definition nw_buf_alloc :: "nw_buf_pool \<Rightarrow> nw_buf \<times> nw_buf_pool" where
  "nw_buf_alloc pool =
     (case pool_free pool of
        b # bs \<Rightarrow> (b\<lparr>buf_rpos := 0, buf_wpos := 0\<rparr>, pool\<lparr>pool_free := bs\<rparr>)
      | [] \<Rightarrow> (\<lparr>buf_rpos = 0, buf_wpos = 0, buf_data = replicate (pool_size pool) 0\<rparr>, pool))"

definition nw_buf_free :: "nw_buf_pool \<Rightarrow> nw_buf \<Rightarrow> nw_buf_pool" where
  "nw_buf_free pool b =
     (if length (pool_free pool) < pool_total pool then pool\<lparr>pool_free := b # pool_free pool\<rparr>
      else if pool_total pool < NW_BUF_POOL_MAX_SIZE
      then pool\<lparr>pool_total := pool_total pool * 2, pool_free := b # pool_free pool\<rparr>
      else pool)"

text \<open>Every pooled buffer has the pool's size, and the pool never holds more than its array.\<close>

definition pool_ok :: "nw_buf_pool \<Rightarrow> bool" where
  "pool_ok pool \<longleftrightarrow> 0 < pool_total pool \<and> length (pool_free pool) \<le> pool_total pool \<and>
     (\<forall>b\<in>set (pool_free pool). buf_cap b = pool_size pool)"

lemma pool_create_ok: "pool_ok (nw_buf_pool_create n)"
  by (simp add: pool_ok_def nw_buf_pool_create_def NW_BUF_POOL_INIT_SIZE_def)

lemma alloc_ok:
  assumes "pool_ok pool" "nw_buf_alloc pool = (b, pool')"
  shows "pool_ok pool'" "buf_ok b" "contents b = []" "buf_cap b = pool_size pool" "pool_size pool' = pool_size pool"
    "buf_rpos b = 0" "buf_wpos b = 0" "nw_buf_avail b = pool_size pool"
  using assms
  by (auto simp: nw_buf_alloc_def pool_ok_def buf_ok_def contents_def buf_cap_def nw_buf_avail_def split: list.splits)

lemma free_ok:
  assumes "pool_ok pool" "buf_cap b = pool_size pool"
  shows "pool_ok (nw_buf_free pool b)" "pool_size (nw_buf_free pool b) = pool_size pool"
  using assms by (auto simp: nw_buf_free_def pool_ok_def)

section \<open>Lists of buffers\<close>

record nw_buf_list =
  bl_pool :: nw_buf_pool
  bl_limit :: nat
  bl_bufs :: "nw_buf list"

definition nw_buf_list_create :: "nw_buf_pool \<Rightarrow> nat \<Rightarrow> nw_buf_list" where
  "nw_buf_list_create pool limit = \<lparr>bl_pool = pool, bl_limit = limit, bl_bufs = []\<rparr>"

definition list_full :: "nw_buf_list \<Rightarrow> bool" where
  "list_full l \<longleftrightarrow> bl_limit l \<noteq> 0 \<and> length (bl_bufs l) \<ge> bl_limit l"

text \<open>
  The loop of \<^verbatim>\<open>nw_buf_list_write\<close>, with the bytes that did not fit. A pool of empty
  buffers would make it run for ever.
\<close>

partial_function (option) list_extend :: "u8 list \<Rightarrow> nw_buf_list \<Rightarrow> (u8 list \<times> nw_buf_list) option" where
  "list_extend data l =
     (if data = [] then Some ([], l)
      else if list_full l then Some (data, l)
      else (case nw_buf_alloc (bl_pool l) of
              (b, pool) \<Rightarrow>
                (case nw_buf_write data b of
                   (n, b) \<Rightarrow> list_extend (drop n data) (l\<lparr>bl_pool := pool, bl_bufs := bl_bufs l @ [b]\<rparr>))))"

definition nw_buf_list_write :: "u8 list \<Rightarrow> nw_buf_list \<Rightarrow> (nat \<times> nw_buf_list) option" where
  "nw_buf_list_write data l =
     (case (if bl_bufs l \<noteq> [] \<and> nw_buf_avail (last (bl_bufs l)) \<noteq> 0
            then (case nw_buf_write data (last (bl_bufs l)) of
                    (n, b) \<Rightarrow> (drop n data, l\<lparr>bl_bufs := butlast (bl_bufs l) @ [b]\<rparr>))
            else (data, l)) of
        (rest, l) \<Rightarrow> map_option (\<lambda>(rest, l). (length data - length rest, l)) (list_extend rest l))"

definition nw_buf_list_append :: "u8 list \<Rightarrow> nw_buf_list \<Rightarrow> nat \<times> nw_buf_list" where
  "nw_buf_list_append data l =
     (if list_full l then (0, l)
      else (case nw_buf_alloc (bl_pool l) of
              (b, pool) \<Rightarrow>
                if length data > buf_cap b then (0, l\<lparr>bl_pool := nw_buf_free pool b\<rparr>)
                else (length data, l\<lparr>bl_pool := pool, bl_bufs := bl_bufs l @ [snd (nw_buf_write data b)]\<rparr>)))"

definition nw_buf_list_shift :: "nw_buf_list \<Rightarrow> nw_buf_list" where
  "nw_buf_list_shift l =
     (case bl_bufs l of [] \<Rightarrow> l
      | b # bs \<Rightarrow> l\<lparr>bl_bufs := bs, bl_pool := nw_buf_free (bl_pool l) b\<rparr>)"

definition list_ok :: "nw_buf_list \<Rightarrow> bool" where
  "list_ok l \<longleftrightarrow> pool_ok (bl_pool l) \<and> 0 < pool_size (bl_pool l) \<and>
     (\<forall>b\<in>set (bl_bufs l). buf_ok b \<and> buf_cap b = pool_size (bl_pool l))"

definition queued :: "nw_buf_list \<Rightarrow> u8 list" where
  "queued l = concat (map contents (bl_bufs l))"

lemma list_extend_ok:
  assumes "list_ok l"
  shows "\<exists>rest l'. list_extend data l = Some (rest, l') \<and> list_ok l' \<and> bl_limit l' = bl_limit l \<and>
    (\<exists>wrote. data = wrote @ rest \<and> queued l' = queued l @ wrote) \<and> (rest \<noteq> [] \<longrightarrow> list_full l')"
  using assms
proof (induction "length data" arbitrary: data l rule: less_induct)
  case less
  consider "data = []" | "data \<noteq> []" "list_full l" | "data \<noteq> []" "\<not> list_full l" by blast
  then show ?case
  proof cases
    case 3
    obtain b pool where a: "nw_buf_alloc (bl_pool l) = (b, pool)" by force
    obtain n b' where w: "nw_buf_write data b = (n, b')" by force
    have p: "pool_ok (bl_pool l)" "0 < pool_size (bl_pool l)" using less.prems by (auto simp: list_ok_def)
    note A = alloc_ok [OF p(1) a]
    note W = write_ok [OF A(2) w]
    let ?l = "l\<lparr>bl_pool := pool, bl_bufs := bl_bufs l @ [b']\<rparr>"
    have n: "0 < n" using W(3) A(8) p(2) 3(1) by simp
    have ok: "list_ok ?l" using less.prems A W by (auto simp: list_ok_def)
    have q: "queued ?l = queued l @ take n data" using A(3) W(2) by (simp add: queued_def)
    have "length (drop n data) < length data" using n 3(1) by simp
    from less.hyps [OF this ok] obtain rest l' wrote where
      r: "list_extend (drop n data) ?l = Some (rest, l')" "list_ok l'" "bl_limit l' = bl_limit ?l"
        "drop n data = wrote @ rest" "queued l' = queued ?l @ wrote" "rest \<noteq> [] \<longrightarrow> list_full l'"
      by (elim exE conjE)
    have "list_extend data l = Some (rest, l')"
      using 3 r(1) by (subst list_extend.simps) (simp add: a w)
    moreover have "data = (take n data @ wrote) @ rest" by (metis append.assoc append_take_drop_id r(4))
    ultimately show ?thesis using r q by (intro exI [of _ rest] exI [of _ l'] exI [of _ "take n data @ wrote"] conjI) simp_all
  qed (use less.prems in \<open>auto simp: list_extend.simps\<close>)
qed

lemma list_write_ok:
  assumes "list_ok l"
  shows "\<exists>n l'. nw_buf_list_write data l = Some (n, l') \<and> list_ok l' \<and> bl_limit l' = bl_limit l \<and>
    n \<le> length data \<and> queued l' = queued l @ take n data \<and> (n < length data \<longrightarrow> list_full l')"
proof -
  define r where "r = (if bl_bufs l \<noteq> [] \<and> nw_buf_avail (last (bl_bufs l)) \<noteq> 0
            then (case nw_buf_write data (last (bl_bufs l)) of
                    (n, b) \<Rightarrow> (drop n data, l\<lparr>bl_bufs := butlast (bl_bufs l) @ [b]\<rparr>))
            else (data, l))"
  obtain data1 l1 where r1: "r = (data1, l1)" by force
  have "\<exists>w. data = w @ data1 \<and> queued l1 = queued l @ w \<and> list_ok l1 \<and> bl_limit l1 = bl_limit l"
  proof (cases "bl_bufs l \<noteq> [] \<and> nw_buf_avail (last (bl_bufs l)) \<noteq> 0")
    case True
    then obtain bs b where l: "bl_bufs l = bs @ [b]" by (metis append_butlast_last_id)
    obtain n b' where w: "nw_buf_write data b = (n, b')" by force
    have "buf_ok b" using assms l by (simp add: list_ok_def)
    note W = write_ok [OF this w]
    have "data1 = drop n data" "l1 = l\<lparr>bl_bufs := bs @ [b']\<rparr>" using r1 True by (auto simp: r_def l w)
    then show ?thesis using assms W by (intro exI [of _ "take n data"]) (auto simp: queued_def l list_ok_def)
  qed (use r1 assms in \<open>auto simp: r_def\<close>)
  then obtain w where w: "data = w @ data1" "queued l1 = queued l @ w" "list_ok l1" "bl_limit l1 = bl_limit l" by blast
  from list_extend_ok [OF w(3), of data1] obtain rest l' wrote where
    e: "list_extend data1 l1 = Some (rest, l')" "list_ok l'" "bl_limit l' = bl_limit l1" "data1 = wrote @ rest"
      "queued l' = queued l1 @ wrote" "rest \<noteq> [] \<longrightarrow> list_full l'" by (elim exE conjE)
  have "nw_buf_list_write data l = Some (length data - length rest, l')"
    unfolding nw_buf_list_write_def r_def [symmetric] r1 by (simp add: e(1))
  moreover have "take (length data - length rest) data = w @ wrote" by (simp add: w(1) e(4))
  ultimately show ?thesis using e w by (intro exI [of _ "length data - length rest"] exI [of _ l'] conjI) auto
qed

lemma list_shift_ok:
  assumes "list_ok l" "bl_bufs l = b # bs"
  shows "list_ok (nw_buf_list_shift l)" "bl_bufs (nw_buf_list_shift l) = bs" "bl_limit (nw_buf_list_shift l) = bl_limit l"
  using assms free_ok [of "bl_pool l" b] by (auto simp: list_ok_def nw_buf_list_shift_def)

text \<open>
  Writing into a list of buffers loses nothing and keeps the order: the call returns, the
  bytes it reports as written are the front of the data and come out behind everything that was
  queued, and it writes less than everything only when the list is at its limit.
\<close>

theorem buf_list_write_appends:
  assumes "list_ok l"
  shows "\<exists>n l'. nw_buf_list_write data l = Some (n, l') \<and> list_ok l' \<and> queued l' = queued l @ take n data \<and>
    (n < length data \<longrightarrow> list_full l')"
  using list_write_ok [OF assms, of data] by blast

theorem buf_list_write_appends_witness:
  "\<exists>n l'. nw_buf_list_write [1, 2, 3] (nw_buf_list_create (nw_buf_pool_create 2) 1) = Some (n, l') \<and>
     queued l' = take n [1, 2, 3]"
proof -
  have "list_ok (nw_buf_list_create (nw_buf_pool_create 2) 1)"
    using pool_create_ok [of 2] by (simp add: list_ok_def nw_buf_list_create_def) (simp add: nw_buf_pool_create_def)
  from buf_list_write_appends [OF this, of "[1, 2, 3]"] show ?thesis
    by (auto simp: queued_def nw_buf_list_create_def)
qed

end
