(* ===== verification/Session.thy ===== *)
theory Session
  imports Buffers Rpc
begin

text \<open>
  The stream half of \<^verbatim>\<open>network/nw_ses.c\<close>: reading from a socket into the session's
  buffer and cutting packets out of it, and sending with a queue for what the kernel does not take
  at once. The results of the system calls are the environment's: the chunks a read returns, and
  how many bytes a write accepts. An interrupted call is repeated by the code and not seen here.
\<close>

section \<open>Reading\<close>

datatype read_event = Got "u8 list" | PeerClosed | ReadError

record 's read_ses =
  ses_pool :: nw_buf_pool
  ses_read :: "nw_buf option"
  ses_user :: 's

datatype 's progress = Continue nw_buf 's | Failed 's | Gone 's

text \<open>
  The loop that cuts packets out of the buffer. \<open>decode\<close> is the protocol's
  \<^verbatim>\<open>decode_pkg\<close>; \<open>recv\<close> is the handler, which is given the bytes of one packet and
  tells whether it closed the session.
\<close>

function decode_loop ::
  "(u8 list \<Rightarrow> int) \<Rightarrow> (u8 list \<Rightarrow> 's \<Rightarrow> 's \<times> bool) \<Rightarrow> nw_buf \<Rightarrow> 's \<Rightarrow> 's progress" where
  "decode_loop decode recv b s =
     (if nw_buf_size b = 0 then Continue b s
      else
        let ret = decode (contents b) in
        if ret < 0 then Failed s
        else if ret > 0 then
          (case recv (take (nat ret) (contents b)) s of
             (s, gone) \<Rightarrow>
               if gone then Gone s
               else decode_loop decode recv (b\<lparr>buf_rpos := buf_rpos b + nat ret\<rparr>) s)
        else
          let b = nw_buf_shift b
          in if buf_wpos b = buf_cap b then Failed s else Continue b s)"
  by auto
termination
  by (relation "measure (\<lambda>(decode, recv, b, s). nw_buf_size b)") (auto simp: nw_buf_size_def)

declare decode_loop.simps [simp del]

datatype outcome = Idle | OnError | OnClose | ClosedByHandler

text \<open>
  The reads of one wake-up, until the socket is empty. A read takes at most the space that is
  left in the buffer; the rest of the chunk stays in the socket.
\<close>

function read_loop ::
  "(u8 list \<Rightarrow> int) \<Rightarrow> (u8 list \<Rightarrow> 's \<Rightarrow> 's \<times> bool) \<Rightarrow> read_event list \<Rightarrow> nw_buf \<Rightarrow> 's \<Rightarrow> outcome \<times> nw_buf \<times> 's" where
  "read_loop decode recv [] b s = (Idle, b, s)"
| "read_loop decode recv (PeerClosed # es) b s = (OnClose, b, s)"
| "read_loop decode recv (ReadError # es) b s = (OnError, b, s)"
| "read_loop decode recv (Got bs # es) b s =
     (case nw_buf_write bs b of
        (n, b) \<Rightarrow>
          if n = 0 then (OnClose, b, s)
          else (case decode_loop decode recv b s of
                  Failed s \<Rightarrow> (OnError, b, s)
                | Gone s \<Rightarrow> (ClosedByHandler, b, s)
                | Continue b s \<Rightarrow>
                    read_loop decode recv (if drop n bs = [] then es else Got (drop n bs) # es) (nw_buf_shift b) s))"
  by pat_completeness auto
termination
  by (relation "measure (\<lambda>(decode, recv, es, b, s). \<Sum>e\<leftarrow>es. case e of Got bs \<Rightarrow> Suc (length bs) | _ \<Rightarrow> 1)")
    (auto simp: nw_buf_write_def Let_def split: if_splits)

definition on_can_read ::
  "(u8 list \<Rightarrow> int) \<Rightarrow> (u8 list \<Rightarrow> 's \<Rightarrow> 's \<times> bool) \<Rightarrow> read_event list \<Rightarrow> 's read_ses \<Rightarrow> outcome \<times> 's read_ses" where
  "on_can_read decode recv es ses =
     (case (case ses_read ses of Some b \<Rightarrow> (b, ses_pool ses) | None \<Rightarrow> nw_buf_alloc (ses_pool ses)) of
        (b, pool) \<Rightarrow>
          (case read_loop decode recv es b (ses_user ses) of
             (out, b, s) \<Rightarrow>
               (out, if out = Idle \<and> nw_buf_size b = 0
                     then \<lparr>ses_pool = nw_buf_free pool b, ses_read = None, ses_user = s\<rparr>
                     else \<lparr>ses_pool = pool, ses_read = Some b, ses_user = s\<rparr>)))"

text \<open>Any number of wake-ups, as long as the session lives.\<close>

fun wake_ups ::
  "(u8 list \<Rightarrow> int) \<Rightarrow> (u8 list \<Rightarrow> 's \<Rightarrow> 's \<times> bool) \<Rightarrow> read_event list list \<Rightarrow> 's read_ses \<Rightarrow> outcome \<times> 's read_ses" where
  "wake_ups decode recv [] ses = (Idle, ses)"
| "wake_ups decode recv (es # ess) ses =
     (case on_can_read decode recv es ses of
        (out, ses) \<Rightarrow> if out = Idle then wake_ups decode recv ess ses else (out, ses))"

section \<open>What a framing promises\<close>

text \<open>
  A frame is recognised whatever follows it, and a proper part of a frame is never taken for
  one. This is all the session needs from a protocol.
\<close>

locale framing =
  fixes decode :: "u8 list \<Rightarrow> int" and frame :: "u8 list \<Rightarrow> bool"
  assumes decode_frame: "frame f \<Longrightarrow> decode (f @ rest) = int (length f)"
    and decode_part: "frame f \<Longrightarrow> k < length f \<Longrightarrow> decode (take k f) = 0"
    and frame_ne: "frame f \<Longrightarrow> f \<noteq> []"

text \<open>The buffer holds the beginning of the frames that are still to come.\<close>

definition waiting :: "nat \<Rightarrow> nw_buf \<Rightarrow> u8 list \<Rightarrow> u8 list list \<Rightarrow> bool" where
  "waiting cap b tail fs \<longleftrightarrow> buf_ok b \<and> buf_cap b = cap \<and> contents b @ tail = concat fs"

definition partial :: "nw_buf \<Rightarrow> u8 list list \<Rightarrow> bool" where
  "partial b fs \<longleftrightarrow> (fs = [] \<or> length (contents b) < length (hd fs))"

lemma contents_advance:
  "buf_ok b \<Longrightarrow> n \<le> nw_buf_size b \<Longrightarrow>
   contents (b\<lparr>buf_rpos := buf_rpos b + n\<rparr>) = drop n (contents b) \<and> buf_ok (b\<lparr>buf_rpos := buf_rpos b + n\<rparr>)"
  by (auto simp: contents_def buf_ok_def buf_cap_def nw_buf_size_def add.commute)

text \<open>What the session keeps between wake-ups: no buffer, or the beginning of a frame.\<close>

definition between :: "(u8 list \<Rightarrow> bool) \<Rightarrow> u8 list \<Rightarrow> u8 list list \<Rightarrow> 's read_ses \<Rightarrow> bool" where
  "between frame tail fs ses \<longleftrightarrow> pool_ok (ses_pool ses) \<and> 0 < pool_size (ses_pool ses) \<and>
     (\<forall>f\<in>set fs. frame f \<and> length f \<le> pool_size (ses_pool ses)) \<and>
     (case ses_read ses of
        None \<Rightarrow> tail = concat fs
      | Some b \<Rightarrow> waiting (pool_size (ses_pool ses)) b tail fs \<and> partial b fs \<and> buf_rpos b = 0 \<and> contents b \<noteq> [])"

definition arrived :: "read_event list \<Rightarrow> u8 list" where
  "arrived es = concat (map (\<lambda>e. case e of Got bs \<Rightarrow> bs | _ \<Rightarrow> []) es)"

definition chunks :: "read_event list \<Rightarrow> bool" where
  "chunks es \<longleftrightarrow> (\<forall>e\<in>set es. \<exists>bs. e = Got bs \<and> bs \<noteq> [])"

lemma arrived_simps [simp]: "arrived [] = []" "arrived (Got bs # es) = bs @ arrived es"
  by (simp_all add: arrived_def)

lemma chunks_simps [simp]: "chunks []" "chunks (Got bs # es) \<longleftrightarrow> bs \<noteq> [] \<and> chunks es"
  "chunks (PeerClosed # es) = False" "chunks (ReadError # es) = False"
  by (simp_all add: chunks_def)

context framing
begin

lemma decode_loop_frames:
  assumes "waiting cap b tail fs" "\<forall>f\<in>set fs. frame f \<and> length f \<le> cap" "\<forall>f\<in>set fs. \<forall>s. \<not> snd (recv f s)"
  shows "\<exists>gs hs b'. fs = gs @ hs \<and> decode_loop decode recv b s = Continue b' (fold (\<lambda>f s. fst (recv f s)) gs s) \<and>
    waiting cap b' tail hs \<and> partial b' hs"
  using assms
proof (induction fs arbitrary: b s)
  case Nil
  then have "contents b = []" by (simp add: waiting_def)
  then have "nw_buf_size b = 0" using Nil length_contents [of b] by (simp add: waiting_def)
  then show ?case using Nil by (auto simp: decode_loop.simps partial_def)
next
  case (Cons f fs)
  then have f: "frame f" "length f \<le> cap" "f \<noteq> []" using frame_ne by auto
  have b: "buf_ok b" "buf_cap b = cap" "contents b @ tail = f @ concat fs" using Cons.prems by (auto simp: waiting_def)
  have len: "length (contents b) = nw_buf_size b" by (rule length_contents [OF b(1)])
  show ?case
  proof (cases "length f \<le> length (contents b)")
    case True
    then obtain c where c: "contents b = f @ c" "c @ tail = concat fs"
      using b(3) by (auto simp: append_eq_append_conv2)
    have n: "length f \<le> nw_buf_size b" using True len by simp
    let ?b = "b\<lparr>buf_rpos := buf_rpos b + length f\<rparr>"
    have w: "waiting cap ?b tail fs"
      using contents_advance [OF b(1) n] b c by (simp add: waiting_def buf_cap_def)
    have "decode_loop decode recv b s = decode_loop decode recv ?b (fst (recv f s))"
      using decode_frame [OF f(1), of c] f(3) n Cons.prems(3) [THEN bspec, of f, simplified, rule_format, of s] c(1)
      by (subst decode_loop.simps) (cases "recv f s", auto simp: Let_def)
    moreover from Cons.IH [OF w, of "fst (recv f s)"] Cons.prems(2,3) obtain gs hs b' where
      "fs = gs @ hs" "decode_loop decode recv ?b (fst (recv f s)) = Continue b' (fold (\<lambda>f s. fst (recv f s)) gs (fst (recv f s)))"
      "waiting cap b' tail hs" "partial b' hs" by (auto simp: dest!: spec)
    ultimately show ?thesis by (intro exI [of _ "f # gs"] exI [of _ hs] exI [of _ b']) simp
  next
    case False
    then have part: "contents b = take (length (contents b)) f"
      using b(3) by (auto simp: append_eq_append_conv2)
    have w: "waiting cap b tail (f # fs)" "partial b (f # fs)" using Cons.prems False by (simp_all add: partial_def)
    show ?thesis
    proof (cases "nw_buf_size b = 0")
      case True
      then have "decode_loop decode recv b s = Continue b s" by (simp add: decode_loop.simps)
      then show ?thesis using w by (intro exI [of _ "[]"] exI [of _ "f # fs"] exI [of _ b]) simp
    next
      case size: False
      let ?b = "nw_buf_shift b"
      note sh = shift_ok [OF b(1)]
      have "decode (contents b) = 0" using decode_part [OF f(1), of "length (contents b)"] False part by simp
      moreover have "buf_wpos ?b \<noteq> buf_cap ?b" using sh False f(2) b(2) by simp
      ultimately have "decode_loop decode recv b s = Continue ?b s"
        using size by (subst decode_loop.simps) (simp add: Let_def)
      moreover have "waiting cap ?b tail (f # fs)" "partial ?b (f # fs)" using w sh by (simp_all add: waiting_def partial_def)
      ultimately show ?thesis by (intro exI [of _ "[]"] exI [of _ "f # fs"] exI [of _ ?b]) simp
    qed
  qed
qed

lemma read_loop_frames:
  assumes "waiting cap b (arrived es @ tail) fs" "partial b fs" "buf_rpos b = 0" "chunks es"
    and "\<forall>f\<in>set fs. frame f \<and> length f \<le> cap" "\<forall>f\<in>set fs. \<forall>s. \<not> snd (recv f s)"
  shows "\<exists>gs hs b'. fs = gs @ hs \<and> read_loop decode recv es b s = (Idle, b', fold (\<lambda>f s. fst (recv f s)) gs s) \<and>
    waiting cap b' tail hs \<and> partial b' hs \<and> buf_rpos b' = 0"
  using assms
proof (induction "length (arrived es)" arbitrary: es b s fs rule: less_induct)
  case less
  show ?case
  proof (cases es)
    case Nil
    then show ?thesis using less.prems by (intro exI [of _ "[]"] exI [of _ fs] exI [of _ b]) simp
  next
    case (Cons e es')
    then obtain bs where e: "es = Got bs # es'" "bs \<noteq> []" "chunks es'"
      using less.prems(4) by (cases e) simp_all
    have b: "buf_ok b" "buf_cap b = cap" "contents b @ bs @ arrived es' @ tail = concat fs"
      using less.prems(1) by (simp_all add: waiting_def e)
    obtain n b1 where w: "nw_buf_write bs b = (n, b1)" by force
    note W = write_ok [OF b(1) w]
    have "fs \<noteq> []" using b(3) e(2) by auto
    then have "length (contents b) < cap"
      using less.prems(2,5) by (auto simp: partial_def dest!: bspec [of _ _ "hd fs"])
    then have "0 < nw_buf_avail b"
      using less.prems(3) length_contents [OF b(1)] b(2) by (simp add: nw_buf_size_def nw_buf_avail_def)
    then have n: "0 < n" "n \<le> length bs" using W(3) e(2) by auto
    define es1 where "es1 = (if drop n bs = [] then es' else Got (drop n bs) # es')"
    have es1: "arrived es1 = drop n bs @ arrived es'" "chunks es1" using e(3) by (auto simp: es1_def)
    have "contents b1 @ arrived es1 @ tail = concat fs"
      unfolding b(3) [symmetric] W(2) es1 append_assoc by (simp only: append_assoc [symmetric] append_take_drop_id)
    then have "waiting cap b1 (arrived es1 @ tail) fs" using W b(2) by (simp add: waiting_def)
    from decode_loop_frames [OF this less.prems(5,6), of s] obtain gs1 hs1 b2 where
      d: "fs = gs1 @ hs1" "decode_loop decode recv b1 s = Continue b2 (fold (\<lambda>f s. fst (recv f s)) gs1 s)"
        "waiting cap b2 (arrived es1 @ tail) hs1" "partial b2 hs1" by (elim exE conjE)
    have b2: "buf_ok b2" using d(3) by (simp add: waiting_def)
    have w2: "waiting cap (nw_buf_shift b2) (arrived es1 @ tail) hs1" "partial (nw_buf_shift b2) hs1" "buf_rpos (nw_buf_shift b2) = 0"
      using d(3,4) shift_ok [OF b2] by (simp_all add: waiting_def partial_def)
    have "length (arrived es1) < length (arrived es)" using n by (simp add: es1 e)
    moreover have "\<forall>f\<in>set hs1. frame f \<and> length f \<le> cap" "\<forall>f\<in>set hs1. \<forall>s. \<not> snd (recv f s)"
      using less.prems(5,6) d(1) by simp_all
    ultimately obtain gs hs b' where
      r: "hs1 = gs @ hs" "read_loop decode recv es1 (nw_buf_shift b2) (fold (\<lambda>f s. fst (recv f s)) gs1 s) =
           (Idle, b', fold (\<lambda>f s. fst (recv f s)) gs (fold (\<lambda>f s. fst (recv f s)) gs1 s))"
        "waiting cap b' tail hs" "partial b' hs" "buf_rpos b' = 0"
      using less.hyps [OF _ w2 es1(2)] by blast
    then show ?thesis
      using d(1,2) n(1) by (intro exI [of _ "gs1 @ gs"] exI [of _ hs] exI [of _ b']) (simp add: e w es1_def)
  qed
qed

lemma on_can_read_frames:
  assumes "between frame (arrived es @ tail) fs ses" "chunks es" "\<forall>f\<in>set fs. \<forall>s. \<not> snd (recv f s)"
  shows "\<exists>gs hs ses'. fs = gs @ hs \<and> on_can_read decode recv es ses = (Idle, ses') \<and> between frame tail hs ses' \<and>
    ses_user ses' = fold (\<lambda>f s. fst (recv f s)) gs (ses_user ses)"
proof -
  let ?cap = "pool_size (ses_pool ses)"
  obtain b pool where bp: "(case ses_read ses of Some b \<Rightarrow> (b, ses_pool ses) | None \<Rightarrow> nw_buf_alloc (ses_pool ses)) = (b, pool)"
    by force
  have p: "pool_ok (ses_pool ses)" "0 < ?cap" "\<forall>f\<in>set fs. frame f \<and> length f \<le> ?cap"
    using assms(1) by (simp_all add: between_def)
  have w: "waiting ?cap b (arrived es @ tail) fs" "partial b fs" "buf_rpos b = 0" "pool_ok pool" "pool_size pool = ?cap"
  proof -
    have "fs \<noteq> [] \<Longrightarrow> 0 < length (hd fs)" using p(3) frame_ne by (cases fs) auto
    then have "waiting ?cap b (arrived es @ tail) fs \<and> partial b fs \<and> buf_rpos b = 0 \<and> pool_ok pool \<and> pool_size pool = ?cap"
    proof (cases "ses_read ses")
      case None
      with bp have "nw_buf_alloc (ses_pool ses) = (b, pool)" by simp
      note A = alloc_ok [OF p(1) this]
      have "partial b fs" using A(3) \<open>fs \<noteq> [] \<Longrightarrow> 0 < length (hd fs)\<close> by (auto simp: partial_def)
      then show ?thesis using A None assms(1) by (simp add: between_def waiting_def)
    next
      case (Some c)
      then show ?thesis using assms(1) bp p(1) by (simp add: between_def)
    qed
    then show "waiting ?cap b (arrived es @ tail) fs" "partial b fs" "buf_rpos b = 0" "pool_ok pool" "pool_size pool = ?cap"
      by simp_all
  qed
  from read_loop_frames [OF w(1-3) assms(2) p(3) assms(3), of "ses_user ses"] obtain gs hs b' where
    r: "fs = gs @ hs" "read_loop decode recv es b (ses_user ses) = (Idle, b', fold (\<lambda>f s. fst (recv f s)) gs (ses_user ses))"
      "waiting ?cap b' tail hs" "partial b' hs" "buf_rpos b' = 0" by (elim exE conjE)
  have b': "buf_ok b'" "buf_cap b' = ?cap" using r(3) by (simp_all add: waiting_def)
  show ?thesis
  proof (cases "nw_buf_size b' = 0")
    case True
    then have "tail = concat hs" using r(3) length_contents [OF b'(1)] by (simp add: waiting_def)
    then show ?thesis
      using r(1,2) True p(2,3) free_ok [OF w(4), of b'] w(5) b'(2) bp
      by (intro exI [of _ gs] exI [of _ hs]
          exI [of _ "\<lparr>ses_pool = nw_buf_free pool b', ses_read = None, ses_user = fold (\<lambda>f s. fst (recv f s)) gs (ses_user ses)\<rparr>"])
        (simp add: on_can_read_def between_def)
  next
    case False
    then show ?thesis
      using r p(2,3) w(4,5) length_contents [OF b'(1)] bp
      by (intro exI [of _ gs] exI [of _ hs]
          exI [of _ "\<lparr>ses_pool = pool, ses_read = Some b', ses_user = fold (\<lambda>f s. fst (recv f s)) gs (ses_user ses)\<rparr>"])
        (auto simp: on_can_read_def between_def)
  qed
qed

lemma wake_ups_frames:
  assumes "between frame (concat (map arrived ess) @ tail) fs ses" "\<forall>es\<in>set ess. chunks es" "\<forall>f\<in>set fs. \<forall>s. \<not> snd (recv f s)"
  shows "\<exists>gs hs ses'. fs = gs @ hs \<and> wake_ups decode recv ess ses = (Idle, ses') \<and> between frame tail hs ses' \<and>
    ses_user ses' = fold (\<lambda>f s. fst (recv f s)) gs (ses_user ses)"
  using assms
proof (induction ess arbitrary: fs ses)
  case Nil
  then show ?case by (intro exI [of _ "[]"] exI [of _ fs] exI [of _ ses]) simp
next
  case (Cons es ess)
  then have "between frame (arrived es @ concat (map arrived ess) @ tail) fs ses" "chunks es" by simp_all
  from on_can_read_frames [OF this Cons.prems(3)] obtain gs1 hs1 ses1 where
    1: "fs = gs1 @ hs1" "on_can_read decode recv es ses = (Idle, ses1)" "between frame (concat (map arrived ess) @ tail) hs1 ses1"
      "ses_user ses1 = fold (\<lambda>f s. fst (recv f s)) gs1 (ses_user ses)" by (elim exE conjE)
  from Cons.IH [OF 1(3)] Cons.prems(2,3) 1(1) obtain gs hs ses' where
    2: "hs1 = gs @ hs" "wake_ups decode recv ess ses1 = (Idle, ses')" "between frame tail hs ses'"
      "ses_user ses' = fold (\<lambda>f s. fst (recv f s)) gs (ses_user ses1)" by auto
  show ?case
    by (rule exI [of _ "gs1 @ gs"], rule exI [of _ hs], rule exI [of _ ses']) (use 1 2 in simp)
qed

lemma between_done: "between frame [] hs ses \<Longrightarrow> hs = [] \<and> ses_read ses = None"
proof -
  assume b: "between frame [] hs ses"
  have ne: "\<forall>f\<in>set hs. f \<noteq> []" using b frame_ne by (auto simp: between_def)
  show ?thesis
  proof (cases "ses_read ses")
    case None
    then have "concat hs = []" using b by (simp add: between_def)
    then show ?thesis using ne None by (cases hs) auto
  next
    case (Some c)
    then have "contents c = concat hs" "partial c hs" "contents c \<noteq> []" using b by (auto simp: between_def waiting_def)
    then show ?thesis by (cases hs) (auto simp: partial_def)
  qed
qed

text \<open>Whatever the fragmentation, the handler gets exactly the frames, and no buffer is kept.\<close>

lemma wake_ups_exact:
  assumes "\<forall>f\<in>set fs. frame f \<and> length f \<le> pool_size pool" "pool_ok pool" "0 < pool_size pool"
    and "\<forall>es\<in>set ess. chunks es" "concat (map arrived ess) = concat fs" "\<forall>f\<in>set fs. \<forall>s. \<not> snd (recv f s)"
  shows "\<exists>pool'. wake_ups decode recv ess \<lparr>ses_pool = pool, ses_read = None, ses_user = s\<rparr> =
    (Idle, \<lparr>ses_pool = pool', ses_read = None, ses_user = fold (\<lambda>f s. fst (recv f s)) fs s\<rparr>)"
proof -
  let ?ses = "\<lparr>ses_pool = pool, ses_read = None, ses_user = s\<rparr>"
  have "between frame (concat (map arrived ess) @ []) fs ?ses" using assms(1-3,5) by (simp add: between_def)
  from wake_ups_frames [OF this assms(4,6)] obtain gs hs ses' where
    r: "fs = gs @ hs" "wake_ups decode recv ess ?ses = (Idle, ses')" "between frame [] hs ses'"
      "ses_user ses' = fold (\<lambda>f s. fst (recv f s)) gs s" by auto
  then show ?thesis using between_done [OF r(3)] by (cases ses') auto
qed

end

section \<open>Packets over a stream\<close>

definition rpc_frame :: "u8 list \<Rightarrow> bool" where
  "rpc_frame f \<longleftrightarrow> (\<exists>p. pkg_ok p \<and> rpc_pack p = Some f)"

definition rpc_decode_pkg :: "u8 list \<Rightarrow> int" where
  "rpc_decode_pkg data = fst (rpc_decode data)"

interpretation rpc: framing rpc_decode_pkg rpc_frame
proof
  fix f rest and k :: nat
  assume "rpc_frame f"
  then obtain p where p: "pkg_ok p" "rpc_pack p = Some f" by (auto simp: rpc_frame_def)
  show "rpc_decode_pkg (f @ rest) = int (length f)" by (simp add: rpc_decode_pkg_def rpc_decode_sealed [OF p])
  show "k < length f \<Longrightarrow> rpc_decode_pkg (take k f) = 0" by (simp add: rpc_decode_pkg_def rpc_decode_prefix [OF p])
  have "length f \<noteq> 0" unfolding rpc_packD(1) [OF p] by simp
  then show "f \<noteq> []" by simp
qed

text \<open>A handler that keeps what it receives.\<close>

definition collect :: "u8 list \<Rightarrow> rpc_pkg list \<Rightarrow> rpc_pkg list \<times> bool" where
  "collect f ps = (ps @ [open_pkg f], False)"

lemma fold_collect: "fold (\<lambda>f s. fst (collect f s)) fs ps = ps @ map open_pkg fs"
  by (induction fs arbitrary: ps) (simp_all add: collect_def)

text \<open>
  C34. A packet stream survives any fragmentation: however the bytes of a sequence of packets are
  cut into reads and wake-ups, the session hands exactly these packets to the handler, each once
  and in order, ends without an error and keeps no buffer; it only needs each packet to fit into
  a buffer.
\<close>

theorem stream_reassembly:
  assumes "list_all2 (\<lambda>p f. pkg_ok p \<and> rpc_pack p = Some f \<and> length f \<le> pool_size pool) ps fs"
    and "pool_ok pool" and "0 < pool_size pool"
    and "\<forall>es\<in>set ess. chunks es" and "concat (map arrived ess) = concat fs"
  shows "\<exists>pool'. wake_ups rpc_decode_pkg collect ess \<lparr>ses_pool = pool, ses_read = None, ses_user = []\<rparr> =
    (Idle, \<lparr>ses_pool = pool', ses_read = None, ses_user = map sealed ps\<rparr>)"
proof -
  have fr: "\<forall>f\<in>set fs. rpc_frame f \<and> length f \<le> pool_size pool" and opened: "map open_pkg fs = map sealed ps"
    using assms(1) by (induction rule: list_all2_induct) (auto simp: rpc_frame_def open_sealed [of _ _ "[]", simplified])
  have "\<forall>f\<in>set fs. \<forall>s. \<not> snd (collect f s)" by (simp add: collect_def)
  from rpc.wake_ups_exact [OF fr assms(2-5) this, of "[]"] show ?thesis by (simp add: fold_collect opened)
qed

theorem stream_reassembly_witness:
  "\<exists>bs pool'. send_heartbeat 5000 = Some bs \<and>
     wake_ups rpc_decode_pkg collect [[Got (take 7 bs)], [Got (drop 7 bs), Got (take 40 bs)], [Got (drop 40 bs)]]
       \<lparr>ses_pool = nw_buf_pool_create 100, ses_read = None, ses_user = []\<rparr> =
     (Idle, \<lparr>ses_pool = pool', ses_read = None, ses_user = [sealed (heartbeat_pkg 5000), sealed (heartbeat_pkg 5000)]\<rparr>)"
proof -
  have ok: "pkg_ok (heartbeat_pkg 5000)" by (simp add: pkg_ok_def heartbeat_pkg_def heartbeat_body_bytes)
  have "\<exists>bs. send_heartbeat 5000 = Some bs"
    by (simp add: send_heartbeat_def rpc_pack_def heartbeat_pkg_def heartbeat_body_bytes RPC_PKG_MAX_BODY_SIZE_def Let_def)
  then obtain bs where bs: "send_heartbeat 5000 = Some bs" by blast
  let ?ess = "[[Got (take 7 bs)], [Got (drop 7 bs), Got (take 40 bs)], [Got (drop 40 bs)]]"
  from bs have p: "rpc_pack (heartbeat_pkg 5000) = Some bs" by (simp add: send_heartbeat_def)
  have len: "length bs = 44"
    using arg_cong [OF rpc_packD(1) [OF ok p], of length] by (simp add: heartbeat_pkg_def heartbeat_body_bytes)
  have "list_all2 (\<lambda>p f. pkg_ok p \<and> rpc_pack p = Some f \<and> length f \<le> pool_size (nw_buf_pool_create 100))
      [heartbeat_pkg 5000, heartbeat_pkg 5000] [bs, bs]"
    using ok p len by (simp add: nw_buf_pool_create_def)
  moreover have "0 < pool_size (nw_buf_pool_create 100)" by (simp add: nw_buf_pool_create_def)
  moreover have "\<forall>es\<in>set ?ess. chunks es" "concat (map arrived ?ess) = concat [bs, bs]" using len by auto
  ultimately have "\<exists>pool'. wake_ups rpc_decode_pkg collect ?ess \<lparr>ses_pool = nw_buf_pool_create 100, ses_read = None, ses_user = []\<rparr> =
      (Idle, \<lparr>ses_pool = pool', ses_read = None, ses_user = map sealed [heartbeat_pkg 5000, heartbeat_pkg 5000]\<rparr>)"
    by (intro stream_reassembly pool_create_ok)
  then show ?thesis using bs by (simp del: wake_ups.simps)
qed

section \<open>Sending\<close>

text \<open>
  \<open>wire\<close> are the bytes the kernel has accepted. A write accepts at least one byte, or would
  block, or fails; when the results run out the next write would block.
\<close>

datatype write_result = Wrote nat | WriteAgain | WriteError

record send_ses =
  wire :: "u8 list"
  wq :: nw_buf_list

text \<open>The bytes written, whether the last error was another than ``would block'', and the results left.\<close>

fun nw_write_stream :: "write_result list \<Rightarrow> u8 list \<Rightarrow> u8 list \<times> bool \<times> write_result list" where
  "nw_write_stream ws [] = ([], False, ws)"
| "nw_write_stream [] data = ([], False, [])"
| "nw_write_stream (WriteAgain # ws) data = ([], False, ws)"
| "nw_write_stream (WriteError # ws) data = ([], True, ws)"
| "nw_write_stream (Wrote k # ws) data =
     (case nw_write_stream ws (drop (Suc k) data) of
        (sent, failed, ws) \<Rightarrow> (take (Suc k) data @ sent, failed, ws))"

text \<open>The stream case of \<^verbatim>\<open>nw_ses_send\<close>; \<open>None\<close> is a call that never returns.\<close>

definition nw_ses_send :: "write_result list \<Rightarrow> u8 list \<Rightarrow> send_ses \<Rightarrow> (send_ses \<times> int) option" where
  "nw_ses_send ws data ses =
     (if bl_bufs (wq ses) \<noteq> []
      then map_option (\<lambda>(n, l). (ses\<lparr>wq := l\<rparr>, if n \<noteq> length data then - 1 else 0)) (nw_buf_list_write data (wq ses))
      else (case nw_write_stream ws data of
          (sent, failed, ws) \<Rightarrow>
            let ses = ses\<lparr>wire := wire ses @ sent\<rparr>; rest = drop (length sent) data in
            if length sent < length data then
              if failed then Some (ses, - 1)
              else map_option (\<lambda>(n, l). (ses\<lparr>wq := l\<rparr>, if n \<noteq> length rest then - 1 else 0)) (nw_buf_list_write rest (wq ses))
            else Some (ses, 0)))"

text \<open>The stream case of \<^verbatim>\<open>on_can_write\<close>, with whether it ended without an error.\<close>

function on_can_write :: "write_result list \<Rightarrow> send_ses \<Rightarrow> send_ses \<times> bool" where
  "on_can_write ws ses =
     (case bl_bufs (wq ses) of
        [] \<Rightarrow> (ses, True)
      | b # bs \<Rightarrow>
          (case nw_write_stream ws (contents b) of
             (sent, failed, ws) \<Rightarrow>
               let ses = ses\<lparr>wire := wire ses @ sent\<rparr> in
               if length sent < nw_buf_size b then
                 if failed then (ses, False)
                 else (ses\<lparr>wq := (wq ses)\<lparr>bl_bufs := b\<lparr>buf_rpos := buf_rpos b + length sent\<rparr> # bs\<rparr>\<rparr>, True)
               else on_can_write ws (ses\<lparr>wq := nw_buf_list_shift (wq ses)\<rparr>)))"
  by auto
termination
  by (relation "measure (\<lambda>(ws, ses). length (bl_bufs (wq ses)))") (auto simp: nw_buf_list_shift_def)

declare on_can_write.simps [simp del]

text \<open>
  The same loop for packet sockets. \<open>rets\<close> are the return values of
  \<^verbatim>\<open>nw_write_packet\<close>, \<open>- 1\<close> for an error. The comparison with the size converts the
  return value to an unsigned number.
\<close>

function on_can_write_packet :: "int list \<Rightarrow> send_ses \<Rightarrow> send_ses" where
  "on_can_write_packet rets ses =
     (case bl_bufs (wq ses) of
        [] \<Rightarrow> ses
      | b # bs \<Rightarrow>
          (case rets of
             [] \<Rightarrow> ses
           | nwrite # rets \<Rightarrow>
               if (word_of_int nwrite :: u64) < word_of_nat (nw_buf_size b) then ses
               else on_can_write_packet rets
                 (ses\<lparr>wire := (if nwrite < 0 then wire ses else wire ses @ contents b),
                      wq := nw_buf_list_shift (wq ses)\<rparr>)))"
  by auto
termination
  by (relation "measure (\<lambda>(rets, ses). length rets)") auto

declare on_can_write_packet.simps [simp del]

lemma write_stream_prefix:
  "nw_write_stream ws data = (sent, failed, ws') \<Longrightarrow> sent = take (length sent) data"
proof (induction ws data arbitrary: sent failed ws' rule: nw_write_stream.induct)
  case (5 k ws d ds)
  then obtain sent1 where s: "nw_write_stream ws (drop (Suc k) (d # ds)) = (sent1, failed, ws')"
      "sent = take (Suc k) (d # ds) @ sent1" by (auto split: prod.splits)
  with 5(1) have "sent1 = take (length sent1) (drop (Suc k) (d # ds))" by blast
  then show ?case unfolding s(2) by (metis append_eq_conv_conj append_take_drop_id append.assoc)
qed auto

definition sent_all :: "send_ses \<Rightarrow> u8 list" where
  "sent_all ses = wire ses @ queued (wq ses)"

lemma on_can_write_ok:
  assumes "list_ok (wq ses)" "on_can_write ws ses = (ses', True)"
  shows "sent_all ses' = sent_all ses \<and> list_ok (wq ses')"
  using assms
proof (induction ws ses rule: on_can_write.induct)
  case (1 ws ses)
  show ?case
  proof (cases "bl_bufs (wq ses)")
    case Nil
    then show ?thesis using 1 by (simp add: on_can_write.simps [of ws])
  next
    case (Cons b bs)
    obtain sent failed ws1 where w: "nw_write_stream ws (contents b) = (sent, failed, ws1)" by (metis prod_cases3)
    note pre = write_stream_prefix [OF w]
    have b: "buf_ok b" "length (contents b) = nw_buf_size b"
      using 1(2) Cons length_contents by (auto simp: list_ok_def)
    let ?ses = "ses\<lparr>wire := wire ses @ sent\<rparr>"
    show ?thesis
    proof (cases "length sent < nw_buf_size b")
      case True
      note adv = contents_advance [OF b(1) less_imp_le [OF True]]
      have "ses' = ?ses\<lparr>wq := (wq ses)\<lparr>bl_bufs := b\<lparr>buf_rpos := buf_rpos b + length sent\<rparr> # bs\<rparr>\<rparr>"
        using 1(3) True by (subst (asm) on_can_write.simps) (auto simp: Cons w Let_def split: if_splits)
      moreover have "sent @ drop (length sent) (contents b) = contents b" using pre by (metis append_take_drop_id)
      ultimately show ?thesis
        using 1(2) Cons adv by (auto simp: sent_all_def queued_def list_ok_def buf_cap_def)
    next
      case False
      then have s: "sent = contents b" using pre b(2) by simp
      let ?next = "?ses\<lparr>wq := nw_buf_list_shift (wq ses)\<rparr>"
      have "on_can_write ws1 ?next = (ses', True)"
        using 1(3) False by (subst (asm) on_can_write.simps) (simp add: Cons w Let_def)
      then have "sent_all ses' = sent_all ?next \<and> list_ok (wq ses')"
        using 1(1) [OF Cons w [symmetric] HOL.refl HOL.refl] list_shift_ok [OF 1(2) Cons] False by simp
      then show ?thesis using list_shift_ok [OF 1(2) Cons] by (simp add: sent_all_def queued_def s Cons)
    qed
  qed
qed

lemma nw_ses_send_ok:
  assumes "list_ok (wq ses)" "nw_ses_send ws data ses = Some (ses', 0)"
  shows "sent_all ses' = sent_all ses @ data \<and> list_ok (wq ses')"
proof (cases "bl_bufs (wq ses) = []")
  case False
  from list_write_ok [OF assms(1), of data] obtain n l where
    l: "nw_buf_list_write data (wq ses) = Some (n, l)" "list_ok l" "queued l = queued (wq ses) @ take n data" by blast
  then show ?thesis using assms(2) False by (auto simp: nw_ses_send_def sent_all_def split: if_splits)
next
  case True
  obtain sent failed ws1 where w: "nw_write_stream ws data = (sent, failed, ws1)" by (metis prod_cases3)
  note pre = write_stream_prefix [OF w]
  have q: "queued (wq ses) = []" by (simp add: queued_def True)
  show ?thesis
  proof (cases "length sent < length data")
    case False
    then show ?thesis using assms True pre by (auto simp: nw_ses_send_def w sent_all_def q)
  next
    case less: True
    from list_write_ok [OF assms(1), of "drop (length sent) data"] obtain n l where
      l: "nw_buf_list_write (drop (length sent) data) (wq ses) = Some (n, l)" "list_ok l"
        "queued l = queued (wq ses) @ take n (drop (length sent) data)" by blast
    then have r: "ses' = ses\<lparr>wire := wire ses @ sent, wq := l\<rparr>" "n = length data - length sent"
      using assms(2) True less by (auto simp: nw_ses_send_def w Let_def split: if_splits)
    then have "sent @ take n (drop (length sent) data) = data" using pre by (metis append_take_drop_id length_drop order_refl take_all)
    then show ?thesis using l r(1) by (simp add: sent_all_def q)
  qed
qed

text \<open>
  Sending keeps the byte stream intact: a send that reports success appends exactly its data
  to what the kernel took and what is queued, however little the kernel takes at once, and
  emptying the queue moves bytes to the kernel without changing that stream.
\<close>

theorem send_keeps_stream:
  assumes "list_ok (wq ses)" and "nw_ses_send ws data ses = Some (ses1, 0)" and "on_can_write ws' ses1 = (ses2, True)"
  shows "sent_all ses2 = sent_all ses @ data \<and> list_ok (wq ses2)"
  using nw_ses_send_ok [OF assms(1,2)] on_can_write_ok [OF _ assms(3)] by simp

theorem send_keeps_stream_witness:
  "\<exists>ses1 ses2. nw_ses_send [Wrote 0, WriteAgain] [1, 2, 3, 4] \<lparr>wire = [], wq = nw_buf_list_create (nw_buf_pool_create 2) 0\<rparr> = Some (ses1, 0) \<and>
     on_can_write [Wrote 0] ses1 = (ses2, True) \<and> wire ses2 = [1, 2] \<and> sent_all ses2 = [1, 2, 3, 4]"
proof -
  let ?ses = "\<lparr>wire = [], wq = nw_buf_list_create (nw_buf_pool_create 2) 0\<rparr>"
  let ?q = "\<lparr>bl_pool = nw_buf_pool_create 2, bl_limit = 0,
      bl_bufs = [\<lparr>buf_rpos = 0, buf_wpos = 2, buf_data = [2, 3]\<rparr>, \<lparr>buf_rpos = 0, buf_wpos = 1, buf_data = [4, 0]\<rparr>]\<rparr>"
  let ?ses1 = "\<lparr>wire = [1], wq = ?q\<rparr>"
  let ?ses2 = "\<lparr>wire = [1, 2], wq = ?q\<lparr>bl_bufs := [\<lparr>buf_rpos = 1, buf_wpos = 2, buf_data = [2, 3]\<rparr>,
      \<lparr>buf_rpos = 0, buf_wpos = 1, buf_data = [4, 0]\<rparr>]\<rparr>\<rparr>"
  have 0: "list_ok (wq ?ses)"
    using pool_create_ok [of 2] by (simp add: list_ok_def nw_buf_list_create_def) (simp add: nw_buf_pool_create_def)
  have 1: "nw_ses_send [Wrote 0, WriteAgain] [1, 2, 3, 4] ?ses = Some (?ses1, 0)"
    by (simp add: nw_ses_send_def nw_buf_list_create_def nw_buf_list_write_def list_extend.simps list_full_def
        nw_buf_alloc_def nw_buf_pool_create_def nw_buf_write_def nw_buf_avail_def buf_cap_def poke_def numeral_2_eq_2)
  have 2: "on_can_write [Wrote 0] ?ses1 = (?ses2, True)"
    by (simp add: on_can_write.simps contents_def nw_buf_size_def numeral_2_eq_2)
  show ?thesis using 1 2 send_keeps_stream [OF 0 1 2]
    by (intro exI [of _ ?ses1] exI [of _ ?ses2]) (simp add: sent_all_def queued_def nw_buf_list_create_def)
qed

text \<open>
  On a packet socket a full kernel queue loses data: the return value \<open>- 1\<close> counts as a
  huge unsigned number, so the waiting packet is dropped from the queue although nothing was sent.
\<close>

theorem seqpacket_drops_packet:
  assumes "bl_bufs (wq ses) = [b]" and "nw_buf_size b < 2 ^ 32"
  shows "wire (on_can_write_packet [- 1] ses) = wire ses \<and> bl_bufs (wq (on_can_write_packet [- 1] ses)) = []"
proof -
  have "\<not> (- 1 :: u64) < word_of_nat (nw_buf_size b)" by (simp add: not_less)
  then show ?thesis
    using assms(1) by (simp add: on_can_write_packet.simps nw_buf_list_shift_def)
qed

theorem seqpacket_drops_packet_witness:
  "wire (on_can_write_packet [- 1] \<lparr>wire = [], wq = \<lparr>bl_pool = nw_buf_pool_create 2, bl_limit = 0,
      bl_bufs = [\<lparr>buf_rpos = 0, buf_wpos = 2, buf_data = [2, 3]\<rparr>]\<rparr>\<rparr>) = []"
  using seqpacket_drops_packet [of "\<lparr>wire = [], wq = \<lparr>bl_pool = nw_buf_pool_create 2, bl_limit = 0,
      bl_bufs = [\<lparr>buf_rpos = 0, buf_wpos = 2, buf_data = [2, 3]\<rparr>]\<rparr>\<rparr>"]
  by (simp add: nw_buf_size_def)

end
