(* ===== verification/Dump.thy ===== *)
theory Dump
  imports Database
begin

text \<open>
  \<^verbatim>\<open>matchengine/me_dump.c\<close>: a slice, the copy of all open orders and balances in the
  database. Rows are sent in statements of at most a thousand.
\<close>

definition INSERT_LIMIT :: nat where "INSERT_LIMIT = 1000"

text \<open>
  The loop that is common to \<^verbatim>\<open>dump_orders_list\<close> and \<^verbatim>\<open>dump_balance_dict\<close>: \<open>acc\<close>
  are the rows of the statement being written, \<open>err_full\<close> and \<open>err_rest\<close> the error returns in
  the loop and after it. The code only takes a negative result of the query for an error.
\<close>

fun dump_rows ::
  "'db mysql_ops \<Rightarrow> ('r list \<Rightarrow> sql) \<Rightarrow> int \<Rightarrow> int \<Rightarrow> 'r list \<Rightarrow> 'r list \<Rightarrow> 'db \<Rightarrow> int \<times> 'db" where
  "dump_rows Q statement err_full err_rest acc [] db =
     (if length acc > 0 then
        (case db_exec Q db (statement acc) of (ret, db) \<Rightarrow> (if ret < 0 then err_rest else 0, db))
      else (0, db))"
| "dump_rows Q statement err_full err_rest acc (row # rows) db =
     (let acc = acc @ [row] in
      if length acc = INSERT_LIMIT then
        (case db_exec Q db (statement acc) of
           (ret, db) \<Rightarrow> if ret < 0 then (err_full, db) else dump_rows Q statement err_full err_rest [] rows db)
      else dump_rows Q statement err_full err_rest acc rows db)"

definition row_of_order :: "'d mpd_ops \<Rightarrow> 'd order \<Rightarrow> order_row" where
  "row_of_order M order =
     \<lparr>r_id = o_id order, r_t = o_type order, r_side = o_side order, r_create_time = o_create_time order,
      r_update_time = o_update_time order, r_user_id = o_user_id order, r_market = o_market order,
      r_price = mpd_to_sci M (o_price order), r_amount = mpd_to_sci M (o_amount order),
      r_taker_fee = mpd_to_sci M (o_taker_fee order), r_maker_fee = mpd_to_sci M (o_maker_fee order),
      r_left = mpd_to_sci M (o_left order), r_freeze = mpd_to_sci M (o_freeze order),
      r_deal_stock = mpd_to_sci M (o_deal_stock order), r_deal_money = mpd_to_sci M (o_deal_money order),
      r_deal_fee = mpd_to_sci M (o_deal_fee order)\<rparr>"

definition dump_orders_list ::
  "'d mpd_ops \<Rightarrow> 'db mysql_ops \<Rightarrow> string \<Rightarrow> (u64 \<rightharpoonup> 'd order) \<Rightarrow> u64 list \<Rightarrow> 'db \<Rightarrow> int \<times> 'db" where
  "dump_orders_list M Q table objs nodes db =
     dump_rows Q (InsertOrders table) (- 74) (- 90) []
       (List.map_filter (\<lambda>node. map_option (row_of_order M) (objs node)) nodes) db"

text \<open>The markets in the order of the configuration.\<close>

fun dump_markets ::
  "'d mpd_ops \<Rightarrow> 'db mysql_ops \<Rightarrow> string \<Rightarrow> (string \<rightharpoonup> 'd market) \<Rightarrow> string list \<Rightarrow> 'db \<Rightarrow> int \<times> 'db" where
  "dump_markets M Q table D [] db = (0, db)"
| "dump_markets M Q table D (name # names) db =
     (case get_market D name of
        None \<Rightarrow> (- 129, db)
      | Some m \<Rightarrow>
          (case dump_orders_list M Q table (m_orders m) (m_asks m) db of
             (ret, db) \<Rightarrow>
               if ret < 0 then (- 136, db)
               else (case dump_orders_list M Q table (m_orders m) (m_bids m) db of
                  (ret, db) \<Rightarrow> if ret < 0 then (- 142, db) else dump_markets M Q table D names db)))"

definition dump_orders ::
  "'d mpd_ops \<Rightarrow> 'db mysql_ops \<Rightarrow> string \<Rightarrow> 'd settings \<Rightarrow> (string \<rightharpoonup> 'd market) \<Rightarrow> 'db \<Rightarrow> int \<times> 'db" where
  "dump_orders M Q table st D db =
     (case db_exec Q db (DropTableIfExists table) of
        (ret, db) \<Rightarrow>
          if ret \<noteq> 0 then (- 109, db)
          else (case db_exec Q db (CreateTableLike table ''slice_order_example'') of
             (ret, db) \<Rightarrow>
               if ret \<noteq> 0 then (- 120, db)
               else dump_markets M Q table D (map conf_name (st_markets st)) db))"

definition row_of_balance :: "'d mpd_ops \<Rightarrow> balance_key \<times> 'd \<Rightarrow> balance_row" where
  "row_of_balance M entry =
     (case entry of ((user_id, type, asset), balance) \<Rightarrow>
        \<lparr>r_user = user_id, r_asset = asset, r_type = type, r_balance = mpd_to_sci M balance\<rparr>)"

text \<open>\<open>entries\<close> are the entries of the dictionary in the order in which the iterator yields them.\<close>

definition dump_balance_dict ::
  "'d mpd_ops \<Rightarrow> 'db mysql_ops \<Rightarrow> string \<Rightarrow> (balance_key \<times> 'd) list \<Rightarrow> 'db \<Rightarrow> int \<times> 'db" where
  "dump_balance_dict M Q table entries db =
     dump_rows Q (InsertBalances table) (- 184) (- 200) [] (map (row_of_balance M) entries) db"

definition dump_balance ::
  "'d mpd_ops \<Rightarrow> 'db mysql_ops \<Rightarrow> string \<Rightarrow> (balance_key \<times> 'd) list \<Rightarrow> 'db \<Rightarrow> int \<times> 'db" where
  "dump_balance M Q table entries db =
     (case db_exec Q db (DropTableIfExists table) of
        (ret, db) \<Rightarrow>
          if ret \<noteq> 0 then (- 218, db)
          else (case db_exec Q db (CreateTableLike table ''slice_balance_example'') of
             (ret, db) \<Rightarrow>
               if ret \<noteq> 0 then (- 229, db)
               else (case dump_balance_dict M Q table entries db of
                  (ret, db) \<Rightarrow> (if ret < 0 then - 237 else 0, db))))"

end
