(* ===== verification/Persist.thy ===== *)
theory Persist
  imports Dump Load
begin

text \<open>
  \<^verbatim>\<open>matchengine/me_persist.c\<close>: starting from the last slice and the log, and making a new
  slice. The connection to the database is \<open>None\<close> when \<^verbatim>\<open>mysql_connect\<close> fails. What
  the local time zone makes of a time is a parameter: \<open>log_name\<close> the name of the log table of a
  time, \<open>today\<close> the start of the current day.
\<close>

definition slice_order_table :: "int \<Rightarrow> string" where
  "slice_order_table t = ''slice_order_'' @ show_long t"

definition slice_balance_table :: "int \<Rightarrow> string" where
  "slice_balance_table t = ''slice_balance_'' @ show_long t"

section \<open>Starting\<close>

text \<open>The return value and what the pointers receive; without a slice they keep their zeros.\<close>

definition get_last_slice :: "'db mysql_ops \<Rightarrow> 'db \<Rightarrow> int \<times> int \<times> u64 \<times> u64 \<times> u64" where
  "get_last_slice Q db =
     (case db_last_slice Q db of
        None \<Rightarrow> (- 48, 0, 0, 0, 0)
      | Some [(timestamp, oper_id, order_id, deals_id)] \<Rightarrow> (0, timestamp, oper_id, order_id, deals_id)
      | Some _ \<Rightarrow> (0, 0, 0, 0, 0))"

definition load_slice_from_db ::
  "('d, 'j) env \<Rightarrow> 'db mysql_ops \<Rightarrow> 'db \<Rightarrow> int \<Rightarrow> ('d, 'j) server \<Rightarrow> (int \<times> ('d, 'j) server) option" where
  "load_slice_from_db E Q db timestamp X =
     (case load_orders E Q db (slice_order_table timestamp) X of
        None \<Rightarrow> None
      | Some (ret, X) \<Rightarrow>
          if ret < 0 then Some (- 79, X)
          else (case load_balance E Q db (slice_balance_table timestamp) X of
             None \<Rightarrow> None
           | Some (ret, X) \<Rightarrow> Some (if ret < 0 then - 90 else 0, X)))"

text \<open>The id is stored back only when the whole table was loaded.\<close>

definition load_operlog_from_db ::
  "('d, 'j) env \<Rightarrow> 'db mysql_ops \<Rightarrow> 'db \<Rightarrow> string \<Rightarrow> u64 \<Rightarrow> ('d, 'j) server \<Rightarrow> (int \<times> u64 \<times> ('d, 'j) server) option" where
  "load_operlog_from_db E Q db table start_id X =
     (if \<not> is_table_exists Q db table then Some (0, start_id, X)
      else (case load_operlog E Q db table start_id X of
         None \<Rightarrow> None
       | Some (ret, last_id, X) \<Rightarrow> Some (if ret < 0 then (- 115, start_id, X) else (0, last_id, X))))"

text \<open>The logs of the days from \<open>start\<close> on, before \<open>stop\<close>.\<close>

function load_days ::
  "('d, 'j) env \<Rightarrow> 'db mysql_ops \<Rightarrow> 'db \<Rightarrow> (int \<Rightarrow> string) \<Rightarrow> int \<Rightarrow> int \<Rightarrow> u64 \<Rightarrow> ('d, 'j) server \<Rightarrow>
   (int \<times> u64 \<times> ('d, 'j) server) option" where
  "load_days E Q db log_name start stop oper_id X =
     (if start < stop then
        (case load_operlog_from_db E Q db (log_name start) oper_id X of
           None \<Rightarrow> None
         | Some (ret, oper_id, X) \<Rightarrow>
             if ret < 0 then Some (ret, oper_id, X)
             else load_days E Q db log_name (start + 86400) stop oper_id X)
      else Some (0, oper_id, X))"
  by pat_completeness auto

termination by (relation "measure (\<lambda>(E, Q, db, log_name, start, stop, oper_id, X). nat (stop - start))") auto

text \<open>The return value, \<^verbatim>\<open>last_slice_time\<close> and the state.\<close>

definition init_from_db ::
  "('d, 'j) env \<Rightarrow> 'db mysql_ops \<Rightarrow> 'db option \<Rightarrow> (int \<Rightarrow> string) \<Rightarrow> int \<Rightarrow> int \<Rightarrow> ('d, 'j) server \<Rightarrow>
   (int \<times> int \<times> ('d, 'j) server) option" where
  "init_from_db E Q conn log_name now today X =
     (case conn of
        None \<Rightarrow> Some (- 130, 0, X)
      | Some db \<Rightarrow>
          (case get_last_slice Q db of
             (ret, last_slice_time, oper_id, order_id, deals_id) \<Rightarrow>
               if ret < 0 then Some (ret, last_slice_time, X)
               else
                 let X = X\<lparr>sv_engine := (sv_engine X)\<lparr>order_id_start := order_id, deals_id_start := deals_id\<rparr>\<rparr> in
                 (case (if last_slice_time = 0 then load_operlog_from_db E Q db (log_name now) oper_id X
                        else (case load_slice_from_db E Q db last_slice_time X of
                           None \<Rightarrow> None
                         | Some (ret, X) \<Rightarrow>
                             if ret < 0 then Some (ret, oper_id, X)
                             else load_days E Q db log_name last_slice_time (today + 86400) oper_id X)) of
                    None \<Rightarrow> None
                  | Some (ret, oper_id, X) \<Rightarrow>
                      if ret < 0 then Some (ret, last_slice_time, X)
                      else Some (0, last_slice_time, X\<lparr>sv_oplog := (sv_oplog X)\<lparr>operlog_id_start := oper_id\<rparr>\<rparr>))))"

section \<open>Making a slice\<close>

definition dump_order_to_db ::
  "('d, 'j) env \<Rightarrow> 'db mysql_ops \<Rightarrow> 'd settings \<Rightarrow> int \<Rightarrow> ('d, 'j) server \<Rightarrow> 'db \<Rightarrow> int \<times> 'db" where
  "dump_order_to_db E Q st t X db =
     (case dump_orders (mpd E) Q (slice_order_table t) st (sv_markets X) db of
        (ret, db) \<Rightarrow> (if ret < 0 then - 198 else 0, db))"

definition dump_balance_to_db ::
  "('d, 'j) env \<Rightarrow> 'db mysql_ops \<Rightarrow> 'd settings \<Rightarrow> int \<Rightarrow> ('d, 'j) server \<Rightarrow> 'db \<Rightarrow> int \<times> 'db" where
  "dump_balance_to_db E Q st t X db =
     (case dump_balance (mpd E) Q (slice_balance_table t) (st_walk st (dict_balance (ledger (sv_engine X)))) db of
        (ret, db) \<Rightarrow> (if ret < 0 then - 213 else 0, db))"

definition update_slice_history :: "'db mysql_ops \<Rightarrow> int \<Rightarrow> ('d, 'j) server \<Rightarrow> 'db \<Rightarrow> int \<times> 'db" where
  "update_slice_history Q t X db =
     (case db_exec Q db (InsertSlice t (operlog_id_start (sv_oplog X)) (order_id_start (sv_engine X))
             (deals_id_start (sv_engine X))) of
        (ret, db) \<Rightarrow> (if ret < 0 then - 235 else 0, db))"

definition dump_to_db ::
  "('d, 'j) env \<Rightarrow> 'db mysql_ops \<Rightarrow> 'd settings \<Rightarrow> int \<Rightarrow> ('d, 'j) server \<Rightarrow> 'db \<Rightarrow> int \<times> 'db" where
  "dump_to_db E Q st t X db =
     (case dump_order_to_db E Q st t X db of
        (ret, db) \<Rightarrow>
          if ret < 0 then (ret, db)
          else (case dump_balance_to_db E Q st t X db of
             (ret, db) \<Rightarrow> if ret < 0 then (ret, db) else update_slice_history Q t X db))"

text \<open>\<open>keep\<close> is the setting \<^verbatim>\<open>slice_keeptime\<close>.\<close>

definition slice_count :: "'db mysql_ops \<Rightarrow> int \<Rightarrow> int \<Rightarrow> 'db \<Rightarrow> int" where
  "slice_count Q keep t db =
     (case db_count_slices_since Q db (t - keep) of
        None \<Rightarrow> - 288
      | Some rows \<Rightarrow> if length rows \<noteq> 1 then - 296 else hd rows)"

definition delete_slice :: "'db mysql_ops \<Rightarrow> u64 \<Rightarrow> int \<Rightarrow> 'db \<Rightarrow> int \<times> 'db" where
  "delete_slice Q slice_id t db =
     (case db_exec Q db (DropTable (slice_order_table t)) of
        (ret, db) \<Rightarrow>
          if ret \<noteq> 0 then (- 317, db)
          else (case db_exec Q db (DropTable (slice_balance_table t)) of
             (ret, db) \<Rightarrow>
               if ret \<noteq> 0 then (- 327, db)
               else (case db_exec Q db (DeleteSlice slice_id) of
                  (ret, db) \<Rightarrow> (if ret \<noteq> 0 then - 338 else 0, db))))"

fun delete_slices :: "'db mysql_ops \<Rightarrow> (u64 \<times> int) list \<Rightarrow> 'db \<Rightarrow> int \<times> 'db" where
  "delete_slices Q [] db = (0, db)"
| "delete_slices Q ((slice_id, t) # slices) db =
     (case delete_slice Q slice_id t db of (ret, db) \<Rightarrow> if ret < 0 then (ret, db) else delete_slices Q slices db)"

definition clear_slice :: "'db mysql_ops \<Rightarrow> int \<Rightarrow> int \<Rightarrow> 'db \<Rightarrow> int \<times> 'db" where
  "clear_slice Q keep t db =
     (let ret = slice_count Q keep t db in
      if ret < 0 then (ret, db)
      else if ret = 0 then (ret, db)
      else (case db_slices_before Q db (t - keep) of
         None \<Rightarrow> (- 372, db)
       | Some slices \<Rightarrow> delete_slices Q slices db))"

text \<open>
  The child process of \<^verbatim>\<open>make_slice\<close> on its copy of the state: it clears old slices even
  when the dump failed. A connection that cannot be made leaves the database alone.
\<close>

definition make_slice ::
  "('d, 'j) env \<Rightarrow> 'db mysql_ops \<Rightarrow> 'd settings \<Rightarrow> int \<Rightarrow> int \<Rightarrow> ('d, 'j) server \<Rightarrow> 'db \<Rightarrow> 'db" where
  "make_slice E Q st keep t X db = snd (clear_slice Q keep t (snd (dump_to_db E Q st t X db)))"

text \<open>The timer: whether a slice is due, and the new \<^verbatim>\<open>last_slice_time\<close>.\<close>

definition slice_due :: "int \<Rightarrow> int \<Rightarrow> int \<Rightarrow> bool" where
  "slice_due interval last_slice_time now \<longleftrightarrow> now - last_slice_time \<ge> interval \<and> now mod interval \<le> 5"

definition persist_on_timer ::
  "('d, 'j) env \<Rightarrow> 'db mysql_ops \<Rightarrow> 'd settings \<Rightarrow> int \<Rightarrow> int \<Rightarrow> int \<Rightarrow> int \<Rightarrow> ('d, 'j) server \<Rightarrow> 'db \<Rightarrow> int \<times> 'db" where
  "persist_on_timer E Q st interval keep last_slice_time now X db =
     (if slice_due interval last_slice_time now then (now, make_slice E Q st keep now X db)
      else (last_slice_time, db))"

end
