(* ===== verification/Server_Properties.thy ===== *)
theory Server_Properties
  imports Recovery_Properties
begin

text \<open>
  The properties of the commands of \<^verbatim>\<open>matchengine/me_server.c\<close>: a packet is carried out
  completely and logged, or changes nothing; pages of orders.
\<close>

section \<open>A packet changes everything or nothing\<close>

definition untouched :: "('d, 'j) server \<Rightarrow> ('d, 'j) server \<Rightarrow> bool" where
  "untouched X X' \<longleftrightarrow> sv_markets X' = sv_markets X \<and> sv_updates X' = sv_updates X \<and> sv_oplog X' = sv_oplog X \<and>
     (sv_engine X')\<lparr>ticks := 0\<rparr> = (sv_engine X)\<lparr>ticks := 0\<rparr>"

text \<open>\<open>X'\<close> has one more log entry than \<open>X\<close>, for one of the four commands that are logged.\<close>

definition logged_once :: "('d, 'j) env \<Rightarrow> ('d, 'j) server \<Rightarrow> ('d, 'j) server \<Rightarrow> bool" where
  "logged_once E X X' \<longleftrightarrow>
     (\<exists>t method params. method \<in> {''update_balance'', ''limit_order'', ''market_order'', ''cancel_order''} \<and>
        log_entries (sv_oplog X') = log_entries (sv_oplog X) @
          [(operlog_id_start (sv_oplog X) + 1, t, json_dumps (json E) (oper_detail E method params) JSON_SORT_KEYS)])"

text \<open>
  The whole effect of each of the four commands: the operation of the engine on the market or the balance that
  the parameters name, with success, its results stored, and the log entry. For an update the entry holds the
  parameters with the document the update has completed.
\<close>

definition logged :: "('d, 'j) env \<Rightarrow> string \<Rightarrow> 'j \<Rightarrow> ('d, 'j) server \<Rightarrow> ('d, 'j) server \<Rightarrow> bool" where
  "logged E method params X X' \<longleftrightarrow>
     (\<exists>S lg. append_operlog E method params (sv_engine X) (sv_oplog X) = (S, lg) \<and> X' = X\<lparr>sv_engine := S, sv_oplog := lg\<rparr>)"

definition carried_out :: "('d, 'j) env \<Rightarrow> u32 \<Rightarrow> 'j \<Rightarrow> ('d, 'j) server \<Rightarrow> ('d, 'j) server \<Rightarrow> bool" where
  "carried_out E c params X X' \<longleftrightarrow>
     c = CMD_ORDER_PUT_LIMIT \<and> (\<exists>u name m side amount price tf mf source m' S' res.
       limit_params E (sv_markets X) params = Some (u, name, m, side, amount, price, tf, mf, source) \<and>
       market_put_limit_order E True m (sv_engine X) u side amount price tf mf source = (m', S', 0, res) \<and>
       logged E ''limit_order'' params (X\<lparr>sv_markets := (sv_markets X)(name \<mapsto> m'), sv_engine := S'\<rparr>) X') \<or>
     c = CMD_ORDER_PUT_MARKET \<and> (\<exists>u name m side amount tf source m' S' res.
       market_order_params E (sv_markets X) params = Some (u, name, m, side, amount, tf, source) \<and>
       market_put_market_order E True m (sv_engine X) u side amount tf source = Some (m', S', 0, res) \<and>
       logged E ''market_order'' params (X\<lparr>sv_markets := (sv_markets X)(name \<mapsto> m'), sv_engine := S'\<rparr>) X') \<or>
     c = CMD_ORDER_CANCEL \<and> (\<exists>u name m i order m' S' res.
       cancel_params E (sv_markets X) params = Some (u, name, m, i) \<and> m_orders m i = Some order \<and> o_user_id order = u \<and>
       market_cancel_order E True m (sv_engine X) order = (m', S', 0, res) \<and>
       logged E ''cancel_order'' params (X\<lparr>sv_markets := (sv_markets X)(name \<mapsto> m'), sv_engine := S'\<rparr>) X') \<or>
     c = CMD_BALANCE_UPDATE \<and> (\<exists>u asset business i change detail detail' D' S'.
       update_params E (ledger (sv_engine X)) params = Some (u, asset, business, i, change, detail) \<and>
       update_user_balance E True u asset business i change detail (sv_updates X) (sv_engine X) = (0, detail', D', S') \<and>
       logged E ''update_balance'' (json_array_set (json E) params 5 detail') (X\<lparr>sv_updates := D', sv_engine := S'\<rparr>) X')"

lemma untouched_refl: "untouched X X"
  by (simp add: untouched_def)

lemma untouched_set: "get_market (sv_markets X) name = Some m \<Longrightarrow> untouched X (set_market name m (sv_engine X) X)"
  by (simp add: set_market_same untouched_refl)

lemma carried_out_logged: "carried_out E c params X X' \<Longrightarrow> logged_once E X X'"
  unfolding carried_out_def logged_def logged_once_def
  by (elim disjE exE conjE) (drule log_entries_append, fastforce)+

lemma log_and_reply_logged:
  "log_and_reply E st pkg method params res X = (X', reply) \<Longrightarrow> logged E method params X X'"
  by (auto simp: log_and_reply_def logged_def split: prod.splits)

lemma put_limit_atomic:
  assumes "on_cmd_order_put_limit E st pkg params X = (X', reply)" "command pkg = CMD_ORDER_PUT_LIMIT"
  shows "untouched X X' \<or> carried_out E (command pkg) params X X'"
proof (cases "limit_params E (sv_markets X) params")
  case (Some x)
  then obtain u name m side amount price tf mf source where
    x: "limit_params E (sv_markets X) params = Some (u, name, m, side, amount, price, tf, mf, source)" by (metis surj_pair)
  obtain m' S' r res where p: "market_put_limit_order E True m (sv_engine X) u side amount price tf mf source = (m', S', r, res)"
    by (metis prod_cases4)
  show ?thesis
  proof (cases "r < 0")
    case True
    then show ?thesis using assms(1) x p put_limit_assets [OF p] untouched_set [OF limit_params_SomeD(3) [OF x]]
      by (auto simp: on_cmd_order_put_limit_def Let_def split: if_splits)
  next
    case False
    then have "r = 0" using put_limit_assets [OF p] by simp
    then show ?thesis using assms x p
      by (auto simp: on_cmd_order_put_limit_def Let_def carried_out_def set_market_def dest!: log_and_reply_logged)
  qed
qed (use assms in \<open>simp add: on_cmd_order_put_limit_def untouched_refl\<close>)

lemma put_market_atomic:
  assumes "on_cmd_order_put_market E st pkg params X = Some (X', reply)" "command pkg = CMD_ORDER_PUT_MARKET"
  shows "untouched X X' \<or> carried_out E (command pkg) params X X'"
proof (cases "market_order_params E (sv_markets X) params")
  case (Some x)
  then obtain u name m side amount tf source where
    x: "market_order_params E (sv_markets X) params = Some (u, name, m, side, amount, tf, source)" by (metis prod_cases7)
  obtain m' S' r res where p: "market_put_market_order E True m (sv_engine X) u side amount tf source = Some (m', S', r, res)"
    using assms(1) x by (auto simp: on_cmd_order_put_market_def)
  show ?thesis
  proof (cases "r < 0")
    case True
    then show ?thesis using assms(1) x p put_market_assets [OF p] untouched_set [OF market_order_params_SomeD(3) [OF x]]
      by (auto simp: on_cmd_order_put_market_def Let_def split: if_splits)
  next
    case False
    then have "r = 0" using put_market_assets [OF p] by simp
    then show ?thesis using assms x p
      by (auto simp: on_cmd_order_put_market_def Let_def carried_out_def set_market_def dest!: log_and_reply_logged)
  qed
qed (use assms in \<open>simp add: on_cmd_order_put_market_def untouched_refl\<close>)

lemma cancel_atomic:
  assumes "on_cmd_order_cancel E st pkg params X = (X', reply)" "command pkg = CMD_ORDER_CANCEL"
  shows "untouched X X' \<or> carried_out E (command pkg) params X X'"
proof (cases "\<exists>u name m i order. cancel_params E (sv_markets X) params = Some (u, name, m, i) \<and> m_orders m i = Some order \<and> o_user_id order = u")
  case True
  then obtain u name m i order where x: "cancel_params E (sv_markets X) params = Some (u, name, m, i)" "m_orders m i = Some order"
    "o_user_id order = u" by blast
  obtain m' S' r res where p: "market_cancel_order E True m (sv_engine X) order = (m', S', r, res)" by (metis prod_cases4)
  have "r = 0" using cancel_assets [OF p] by simp
  then show ?thesis using assms x p
    by (auto simp: on_cmd_order_cancel_def market_get_order_def Let_def carried_out_def set_market_def dest!: log_and_reply_logged)
qed (use assms in \<open>auto simp: on_cmd_order_cancel_def market_get_order_def untouched_refl split: option.splits if_splits\<close>)

lemma update_atomic:
  assumes "on_cmd_balance_update E st pkg params X = (X', reply)" "command pkg = CMD_BALANCE_UPDATE"
  shows "untouched X X' \<or> carried_out E (command pkg) params X X'"
proof (cases "update_params E (ledger (sv_engine X)) params")
  case (Some x)
  then obtain u asset business i change detail where
    x: "update_params E (ledger (sv_engine X)) params = Some (u, asset, business, i, change, detail)" by (metis prod_cases6)
  obtain r detail' D' S' where
    p: "update_user_balance E True u asset business i change detail (sv_updates X) (sv_engine X) = (r, detail', D', S')" by (metis prod_cases4)
  show ?thesis
  proof (cases "r < 0")
    case True
    then show ?thesis using assms(1) x p update_user_assets [OF p]
      by (auto simp: on_cmd_balance_update_def Let_def untouched_refl split: if_splits)
  next
    case False
    then have "r = 0" using update_user_assets [OF p] by simp
    then show ?thesis using assms x p
      by (auto simp: on_cmd_balance_update_def Let_def carried_out_def logged_def CMD_defs split: prod.splits)
  qed
qed (use assms in \<open>simp add: on_cmd_balance_update_def untouched_refl\<close>)

lemma depth_untouched:
  assumes "on_cmd_order_book_depth E st pkg params X = (X', reply)"
  shows "untouched X X'"
  using assms
  by (auto simp: on_cmd_order_book_depth_def process_cache_def add_cache_def Let_def untouched_def
      split: option.splits if_splits)

text \<open>
  C9. A packet changes everything or nothing: whatever a client sends, either the markets, the
  balances, the history, the messages, the known updates and the operation log are all what they
  were, or no writer was behind, the packet was one of the four commands that change them, the engine
  executed this command with success on the market or the balance its parameters name, all of its
  results are stored, and exactly one entry with the next id, this command and its parameters, was added to the log.
\<close>

theorem packet_atomic:
  assumes "svr_on_recv_pkg E st ld pkg X = Some (X', act)"
  shows "untouched X X' \<or> \<not> service_blocked ld X \<and> logged_once E X X' \<and>
    (\<exists>params. json_loadb (json E) (bytes_text (take (unat (body_size pkg)) (pkg_body pkg))) = Some params \<and>
       carried_out E (command pkg) params X X')"
proof (cases "X' = X")
  case True
  then show ?thesis by (simp add: untouched_refl)
next
  case False
  with assms obtain params reply where d: "dispatch E st ld pkg params X = Some (X', reply)"
    "json_loadb (json E) (bytes_text (take (unat (body_size pkg)) (pkg_body pkg))) = Some params"
    by (auto simp: svr_on_recv_pkg_def split: option.splits if_splits)
  have "untouched X X' \<or> \<not> service_blocked ld X \<and> carried_out E (command pkg) params X X'"
    using False d(1) put_market_atomic [of E st pkg params X X' reply] put_limit_atomic [of E st pkg params X X' reply]
      cancel_atomic [of E st pkg params X X' reply] update_atomic [of E st pkg params X X' reply]
      depth_untouched [of E st pkg params X X' reply]
    by (auto simp: dispatch_def unless_blocked_def Let_def on_cmd_balance_query_def on_cmd_asset_list_def
        on_cmd_asset_summary_def on_cmd_order_query_def on_cmd_order_book_def on_cmd_order_detail_def
        on_cmd_market_list_def on_cmd_market_summary_def split: if_splits)
  then show ?thesis using d(2) by (auto dest: carried_out_logged)
qed

theorem packet_atomic_witness:
  "\<exists>X' act. svr_on_recv_pkg ex_env ex_settings ex_load ex_cancel (ex_server 8) = Some (X', act) \<and>
     (untouched (ex_server 8) X' \<or> logged_once ex_env (ex_server 8) X')"
proof -
  from ex_run obtain X' where "server_step ex_env ex_settings (Packet ex_load ex_cancel) (ex_server 8) = Some X'"
    by (auto split: option.splits)
  then obtain X' act where "svr_on_recv_pkg ex_env ex_settings ex_load ex_cancel (ex_server 8) = Some (X', act)" by auto
  with packet_atomic [OF this] show ?thesis by blast
qed

section \<open>Pages of orders\<close>

lemma page_slice: "page offset limit nodes = take (unat limit) (drop (unat offset) nodes)"
  by (simp add: page_def)

lemma pages_concat: "concat (map (\<lambda>k. take n (drop (k * n) xs)) [0..<q]) = take (q * n) xs"
  by (induction q) (simp_all add: take_add [symmetric] add.commute)

text \<open>
  A client that asks for page after page sees every order exactly once and in the order of
  the list: \<open>q\<close> pages of \<open>limit\<close> orders each are the first \<open>q * limit\<close> orders, for offsets that
  stay within 64 bits.
\<close>

theorem pages_partition:
  assumes "q * unat limit < 2 ^ 64"
  shows "concat (map (\<lambda>k. page (word_of_nat k * limit) limit nodes) [0..<q]) = take (q * unat limit) nodes"
proof -
  have "unat (word_of_nat k * limit) = k * unat limit" if "k < q" for k
  proof -
    have "k * unat limit < 2 ^ 64" using that assms by (meson le_less_trans less_imp_le mult_le_mono1)
    then show ?thesis by (simp add: unat_word_ariths unat_of_nat mod_mult_left_eq)
  qed
  then have m: "map (\<lambda>k. page (word_of_nat k * limit) limit nodes) [0..<q] =
      map (\<lambda>k. take (unat limit) (drop (k * unat limit) nodes)) [0..<q]" by (simp add: page_slice)
  show ?thesis unfolding m by (rule pages_concat)
qed

theorem pages_partition_witness: "page 0 2 [7, 5, 3] @ page 2 2 [7, 5, 3] = [7, 5, 3]"
proof -
  have "concat (map (\<lambda>k. page (word_of_nat k * 2) 2 [7, 5, 3]) [0..<2]) = take (2 * unat (2 :: u64)) [7, 5, 3 :: u64]"
    by (rule pages_partition) simp
  then show ?thesis by (simp add: upt_rec)
qed

end
