(* ===== verification/Persist_Properties.thy ===== *)
theory Persist_Properties
  imports Persist Server_Properties
begin

text \<open>
  The properties of slices: what a slice restores, and that a slice can be recorded which is empty.
\<close>

section \<open>A dump that fails\<close>

text \<open>What the database does with a list of statements.\<close>

fun run_sql :: "'db mysql_ops \<Rightarrow> sql list \<Rightarrow> 'db \<Rightarrow> 'db" where
  "run_sql Q [] db = db"
| "run_sql Q (s # ss) db = run_sql Q ss (snd (db_exec Q db s))"

definition inserts_fail :: "'db mysql_ops \<Rightarrow> bool" where
  "inserts_fail Q \<longleftrightarrow> (\<forall>db table rows. db_exec Q db (InsertOrders table rows) = (1, db)) \<and>
     (\<forall>db table rows. db_exec Q db (InsertBalances table rows) = (1, db))"

definition others_succeed :: "'db mysql_ops \<Rightarrow> bool" where
  "others_succeed Q \<longleftrightarrow> (\<forall>db table. fst (db_exec Q db (DropTableIfExists table)) = 0) \<and>
     (\<forall>db table like. fst (db_exec Q db (CreateTableLike table like)) = 0) \<and>
     (\<forall>db t i j k. fst (db_exec Q db (InsertSlice t i j k)) = 0)"

lemma dump_rows_fail:
  "(\<And>db rows. db_exec Q db (statement rows) = (1, db)) \<Longrightarrow> dump_rows Q statement e1 e2 acc rows db = (0, db)"
  by (induction rows arbitrary: acc) (simp_all add: Let_def)

lemma dump_markets_fail:
  assumes "inserts_fail Q" "\<forall>name\<in>set names. get_market D name \<noteq> None"
  shows "dump_markets M Q table D names db = (0, db)"
  using assms(2)
proof (induction names)
  case (Cons name names)
  then obtain m where "get_market D name = Some m" by auto
  moreover have "dump_orders_list M Q table objs nodes db = (0, db)" for objs nodes
    unfolding dump_orders_list_def by (rule dump_rows_fail) (use assms(1) in \<open>simp add: inserts_fail_def\<close>)
  ultimately show ?case using Cons by simp
qed simp

text \<open>
  C17. A slice can be recorded that is empty: the code takes only a negative result of
  \<^verbatim>\<open>mysql_real_query\<close> for a failed INSERT, but the function returns 1 then. When all the
  insertions of orders and balances fail, the dump still reports success and enters the slice
  into the history of slices, from where the next start will load it.
\<close>

theorem failed_inserts_recorded:
  assumes "inserts_fail Q" and "others_succeed Q"
    and "\<forall>conf\<in>set (st_markets st). get_market (sv_markets X) (conf_name conf) \<noteq> None"
  shows "dump_to_db E Q st t X db = (0, run_sql Q
    [DropTableIfExists (slice_order_table t), CreateTableLike (slice_order_table t) ''slice_order_example'',
     DropTableIfExists (slice_balance_table t), CreateTableLike (slice_balance_table t) ''slice_balance_example'',
     InsertSlice t (operlog_id_start (sv_oplog X)) (order_id_start (sv_engine X)) (deals_id_start (sv_engine X))] db)"
proof -
  have m: "dump_markets (mpd E) Q table (sv_markets X) (map conf_name (st_markets st)) db = (0, db)" for table db
    by (rule dump_markets_fail) (use assms in auto)
  have b: "dump_balance_dict (mpd E) Q table entries db = (0, db)" for table entries db
    unfolding dump_balance_dict_def by (rule dump_rows_fail) (use assms(1) in \<open>simp add: inserts_fail_def\<close>)
  have o: "fst (db_exec Q db (DropTableIfExists table)) = 0" "fst (db_exec Q db (CreateTableLike table like)) = 0"
    "fst (db_exec Q db (InsertSlice t i j k)) = 0" for db table like i j k
    using assms(2) by (simp_all add: others_succeed_def)
  show ?thesis
    by (simp add: dump_to_db_def dump_order_to_db_def dump_balance_to_db_def dump_orders_def dump_balance_def
        update_slice_history_def m b o case_prod_beta)
qed

text \<open>A database of table names and slices that refuses all rows.\<close>

definition refusing_db :: "(string list \<times> int list) mysql_ops" where
  "refusing_db = \<lparr>db_exec = (\<lambda>db s. case s of
       CreateTableLike table like \<Rightarrow> (0, (fst db @ [table], snd db)) | InsertSlice t i j k \<Rightarrow> (0, (fst db, snd db @ [t]))
     | InsertOrders table rows \<Rightarrow> (1, db) | InsertBalances table rows \<Rightarrow> (1, db) | _ \<Rightarrow> (0, db)),
     db_select_orders = (\<lambda>_ _ _ _. Some []), db_select_balances = (\<lambda>_ _ _ _. Some []),
     db_select_operlog = (\<lambda>_ _ _ _. Some []), db_show_tables = (\<lambda>_ _. 1), db_last_slice = (\<lambda>_. Some []),
     db_count_slices_since = (\<lambda>_ _. Some []), db_slices_before = (\<lambda>_ _. Some [])\<rparr>"

theorem failed_inserts_recorded_witness:
  "fst (dump_to_db ex_env refusing_db (ex_settings\<lparr>st_walk := (\<lambda>_. [((2, 1, ''CNY''), Dec 1000 0)])\<rparr>) 7 (ex_server 8) ([], [])) = 0 \<and>
   snd (snd (dump_to_db ex_env refusing_db (ex_settings\<lparr>st_walk := (\<lambda>_. [((2, 1, ''CNY''), Dec 1000 0)])\<rparr>) 7 (ex_server 8) ([], []))) = [7]"
proof -
  have "inserts_fail refusing_db" "others_succeed refusing_db"
    by (simp_all add: inserts_fail_def others_succeed_def refusing_db_def)
  note f = failed_inserts_recorded [OF this, of "ex_settings\<lparr>st_walk := (\<lambda>_. [((2, 1, ''CNY''), Dec 1000 0)])\<rparr>" "ex_server 8" ex_env 7 "([], [])"]
  have "snd (db_exec refusing_db db (DropTableIfExists table)) = db"
    "snd (snd (db_exec refusing_db db (CreateTableLike table like))) = snd db"
    "snd (snd (db_exec refusing_db db (InsertSlice t i j k))) = snd db @ [t]" for db table like t i j k
    by (simp_all add: refusing_db_def)
  with f show ?thesis by (simp add: ex_settings_def)
qed

end
