(* ===== verification/Dict.thy ===== *)
theory Dict
  imports Prelude "HOL-Library.Multiset"
begin

unbundle bit_operations_syntax

text \<open>
  \<^verbatim>\<open>utils/ut_dict.c\<close>: the hash table behind every dictionary of the server. A bucket is the
  list of its entries in the order of the chain; the hash function of a dictionary is the
  parameter \<open>h\<close>, two keys compare as equal when they are, and the functions that copy and free
  keys and values do not show. An entry has the number it got when it was added:
  \<^verbatim>\<open>dict_mark_clear\<close> makes all entries with smaller numbers disappear without touching
  them, and a search drops those it meets. The other theories use dictionaries as maps, which the
  last section justifies.
\<close>

section \<open>The table\<close>

record ('k, 'v) dict =
  dt_table :: "('k \<times> 'v \<times> u64) list list"
  dt_size :: u32
  dt_mask :: u32
  dt_used :: u32
  dt_id_start :: u64
  dt_id_clear :: u64

text \<open>The FNV hash of a block of bytes.\<close>

definition fnv_step :: "u8 \<Rightarrow> u32 \<Rightarrow> u32" where
  "fnv_step b hval =
     (let hval = hval XOR ucast b
      in hval + (push_bit 1 hval + push_bit 4 hval + push_bit 7 hval + push_bit 8 hval + push_bit 24 hval))"

definition dict_generic_hash_function :: "u8 list \<Rightarrow> u32" where
  "dict_generic_hash_function data = fold fnv_step data 0x811c9dc5"

text \<open>The smallest power of two that is not below \<open>sz\<close> (and at least 4); \<open>None\<close>: the loop never ends.\<close>

partial_function (option) next_power_from :: "u32 \<Rightarrow> u32 \<Rightarrow> u32 option" where
  "next_power_from realsize sz =
     (if realsize \<ge> sz then Some realsize else next_power_from (realsize * 2) sz)"

definition dict_next_power :: "u32 \<Rightarrow> u32 option" where
  "dict_next_power sz = next_power_from 4 sz"

definition dict_create :: "u32 \<Rightarrow> ('k, 'v) dict option" where
  "dict_create init_size =
     map_option (\<lambda>sz. \<lparr>dt_table = replicate (unat sz) [], dt_size = sz, dt_mask = sz - 1, dt_used = 0,
         dt_id_start = 0, dt_id_clear = 0\<rparr>) (dict_next_power init_size)"

definition bucket :: "('k \<Rightarrow> u32) \<Rightarrow> u32 \<Rightarrow> 'k \<Rightarrow> nat" where
  "bucket h msk key = unat (h key AND msk)"

text \<open>An entry, a key with what belongs to it, goes to the front of its chain.\<close>

definition push_entry ::
  "('k \<Rightarrow> u32) \<Rightarrow> u32 \<Rightarrow> 'k \<times> 'r \<Rightarrow> ('k \<times> 'r) list list \<Rightarrow> ('k \<times> 'r) list list" where
  "push_entry h msk entry T = (let i = bucket h msk (fst entry) in T[i := entry # T ! i])"

text \<open>The loop of \<^verbatim>\<open>dict_expand\<close>: \<open>used\<close> counts down, and the loop ends when it is 0.\<close>

fun move_chains ::
  "('k \<Rightarrow> u32) \<Rightarrow> u32 \<Rightarrow> ('k \<times> 'v \<times> u64) list list \<Rightarrow> u32 \<Rightarrow> ('k \<times> 'v \<times> u64) list list \<Rightarrow> ('k \<times> 'v \<times> u64) list list" where
  "move_chains h msk [] used T = T"
| "move_chains h msk (chain # chs) used T =
     (if used = 0 then T
      else move_chains h msk chs (used - word_of_nat (length chain)) (fold (push_entry h msk) chain T))"

definition dict_expand :: "('k \<Rightarrow> u32) \<Rightarrow> ('k, 'v) dict \<Rightarrow> u32 \<Rightarrow> ('k, 'v) dict option" where
  "dict_expand h dt sz =
     map_option (\<lambda>sz. dt\<lparr>dt_size := sz, dt_mask := sz - 1,
         dt_table := move_chains h (sz - 1) (dt_table dt) (dt_used dt) (replicate (unat sz) [])\<rparr>)
       (dict_next_power sz)"

definition dict_expand_if_needed :: "('k \<Rightarrow> u32) \<Rightarrow> ('k, 'v) dict \<Rightarrow> ('k, 'v) dict option" where
  "dict_expand_if_needed h dt =
     (if dt_used dt \<ge> dt_size dt * 4 then dict_expand h dt (dt_size dt * 4) else Some dt)"

text \<open>\<^verbatim>\<open>check_clear\<close>: the entries of one chain that were marked are removed.\<close>

definition check_clear :: "('k, 'v) dict \<Rightarrow> nat \<Rightarrow> ('k, 'v) dict" where
  "check_clear dt i =
     (let chain = dt_table dt ! i; kept = filter (\<lambda>(_, _, n). \<not> n < dt_id_clear dt) chain
      in dt\<lparr>dt_table := (dt_table dt)[i := kept], dt_used := dt_used dt - word_of_nat (length chain - length kept)\<rparr>)"

fun chain_find :: "'k \<Rightarrow> ('k \<times> 'v \<times> u64) list \<Rightarrow> 'v option" where
  "chain_find key [] = None"
| "chain_find key ((k, v, n) # chain) = (if key = k then Some v else chain_find key chain)"

text \<open>The value of the entry that is found, and the dictionary after the marked entries were dropped.\<close>

definition dict_find :: "('k \<Rightarrow> u32) \<Rightarrow> ('k, 'v) dict \<Rightarrow> 'k \<Rightarrow> 'v option \<times> ('k, 'v) dict" where
  "dict_find h dt key =
     (let i = bucket h (dt_mask dt) key; dt = (if dt_id_clear dt > 0 then check_clear dt i else dt)
      in (chain_find key (dt_table dt ! i), dt))"

text \<open>Whether the entry was added; \<open>None\<close> when the expansion never ends.\<close>

definition dict_add :: "('k \<Rightarrow> u32) \<Rightarrow> ('k, 'v) dict \<Rightarrow> 'k \<Rightarrow> 'v \<Rightarrow> (bool \<times> ('k, 'v) dict) option" where
  "dict_add h dt key v =
     (case dict_find h dt key of
        (Some _, dt) \<Rightarrow> Some (False, dt)
      | (None, dt) \<Rightarrow>
          map_option (\<lambda>dt. (True, dt\<lparr>dt_table := push_entry h (dt_mask dt) (key, v, dt_id_start dt) (dt_table dt),
              dt_id_start := dt_id_start dt + 1, dt_used := dt_used dt + 1\<rparr>))
            (dict_expand_if_needed h dt))"

fun chain_set :: "'k \<Rightarrow> 'v \<Rightarrow> ('k \<times> 'v \<times> u64) list \<Rightarrow> ('k \<times> 'v \<times> u64) list" where
  "chain_set key v [] = []"
| "chain_set key v ((k, w, n) # chain) = (if key = k then (k, v, n) # chain else (k, w, n) # chain_set key v chain)"

definition dict_replace :: "('k \<Rightarrow> u32) \<Rightarrow> ('k, 'v) dict \<Rightarrow> 'k \<Rightarrow> 'v \<Rightarrow> (int \<times> ('k, 'v) dict) option" where
  "dict_replace h dt key v =
     (case dict_find h dt key of
        (None, dt) \<Rightarrow> map_option (\<lambda>(added, dt). (if added then 1 else - 1, dt)) (dict_add h dt key v)
      | (Some _, dt) \<Rightarrow>
          let i = bucket h (dt_mask dt) key
          in Some (0, dt\<lparr>dt_table := (dt_table dt)[i := chain_set key v (dt_table dt ! i)]\<rparr>))"

fun chain_delete :: "'k \<Rightarrow> ('k \<times> 'v \<times> u64) list \<Rightarrow> ('k \<times> 'v \<times> u64) list option" where
  "chain_delete key [] = None"
| "chain_delete key ((k, v, n) # chain) =
     (if k = key then Some chain else map_option (\<lambda>chain. (k, v, n) # chain) (chain_delete key chain))"

definition dict_delete :: "('k \<Rightarrow> u32) \<Rightarrow> ('k, 'v) dict \<Rightarrow> 'k \<Rightarrow> int \<times> ('k, 'v) dict" where
  "dict_delete h dt key =
     (let i = bucket h (dt_mask dt) key in
      case chain_delete key (dt_table dt ! i) of
        None \<Rightarrow> (0, dt)
      | Some chain \<Rightarrow> (1, dt\<lparr>dt_table := (dt_table dt)[i := chain], dt_used := dt_used dt - 1\<rparr>))"

text \<open>
  The iterator: the bucket it is at, and, when it is inside a chain, the rest of that chain from
  \<^verbatim>\<open>next_entry\<close> on.
\<close>

record ('k, 'v) dict_iterator =
  it_index :: int
  it_chain :: "('k \<times> 'v \<times> u64) list option"

definition dict_get_iterator :: "('k, 'v) dict_iterator" where
  "dict_get_iterator = \<lparr>it_index = - 1, it_chain = None\<rparr>"

partial_function (option) dict_next ::
  "('k, 'v) dict \<Rightarrow> ('k, 'v) dict_iterator \<Rightarrow> (('k \<times> 'v \<times> u64) option \<times> ('k, 'v) dict_iterator) option" where
  "dict_next dt iter =
     (case it_chain iter of
        None \<Rightarrow>
          (let iter = iter\<lparr>it_index := it_index iter + 1\<rparr> in
           if it_index iter \<ge> uint (dt_size dt) then Some (None, iter)
           else (case dt_table dt ! nat (it_index iter) of
                   [] \<Rightarrow> dict_next dt iter
                 | entry # chain \<Rightarrow> Some (Some entry, iter\<lparr>it_chain := Some chain\<rparr>)))
      | Some [] \<Rightarrow> dict_next dt (iter\<lparr>it_chain := None\<rparr>)
      | Some (entry # chain) \<Rightarrow> Some (Some entry, iter\<lparr>it_chain := Some chain\<rparr>))"

text \<open>A loop over the dictionary: what it collects until \<^verbatim>\<open>dict_next\<close> returns NULL.\<close>

partial_function (option) dict_iterate ::
  "('k, 'v) dict \<Rightarrow> ('k, 'v) dict_iterator \<Rightarrow> ('k \<times> 'v \<times> u64) list option" where
  "dict_iterate dt iter =
     (case dict_next dt iter of
        None \<Rightarrow> None
      | Some (None, iter) \<Rightarrow> Some []
      | Some (Some entry, iter) \<Rightarrow> Option.bind (dict_iterate dt iter) (\<lambda>es. Some (entry # es)))"

text \<open>
  The entries in the order in which \<^verbatim>\<open>dict_next\<close> yields them (\<open>dict_iterate_entries\<close>); the
  iterator has already fetched the next entry when the current one is deleted.
\<close>

definition dict_entries :: "('k, 'v) dict \<Rightarrow> ('k \<times> 'v \<times> u64) list" where
  "dict_entries dt = concat (dt_table dt)"

definition dict_clear :: "('k \<Rightarrow> u32) \<Rightarrow> ('k, 'v) dict \<Rightarrow> ('k, 'v) dict" where
  "dict_clear h dt = fold (\<lambda>(key, _, _) dt. snd (dict_delete h dt key)) (dict_entries dt) dt"

definition dict_mark_clear :: "('k, 'v) dict \<Rightarrow> ('k, 'v) dict" where
  "dict_mark_clear dt = dt\<lparr>dt_id_clear := dt_id_start dt, dt_id_start := dt_id_start dt + 1\<rparr>"

section \<open>What a dictionary stands for\<close>

text \<open>The entries that are not marked, as a map.\<close>

definition dict_map :: "('k, 'v) dict \<Rightarrow> 'k \<rightharpoonup> 'v" where
  "dict_map dt = map_of (map (\<lambda>(k, v, n). (k, v)) (filter (\<lambda>(_, _, n). \<not> n < dt_id_clear dt) (dict_entries dt)))"

text \<open>
  All entries that are in the table, the marked ones included: this is what
  \<^verbatim>\<open>dict_delete\<close> and the iterator see.
\<close>

definition dict_held :: "('k, 'v) dict \<Rightarrow> 'k \<rightharpoonup> 'v" where
  "dict_held dt = map_of (map (\<lambda>(k, v, n). (k, v)) (dict_entries dt))"

text \<open>Every entry is in the chain its hash selects, and no key is there twice.\<close>

definition table_ok :: "('k \<Rightarrow> u32) \<Rightarrow> u32 \<Rightarrow> ('k \<times> 'r) list list \<Rightarrow> bool" where
  "table_ok h msk T \<longleftrightarrow> length T = unat msk + 1 \<and> distinct (map fst (concat T)) \<and>
     (\<forall>i < length T. \<forall>e\<in>set (T ! i). bucket h msk (fst e) = i)"

text \<open>The size is a power of two that the expansion does not overflow.\<close>

definition size_ok :: "u32 \<Rightarrow> bool" where
  "size_ok sz \<longleftrightarrow> (\<exists>k\<in>{2..29}. sz = 2 ^ k)"

text \<open>A well-formed dictionary with room for \<open>n\<close> more operations: the counters count.\<close>

definition dict_ok :: "('k \<Rightarrow> u32) \<Rightarrow> nat \<Rightarrow> ('k, 'v) dict \<Rightarrow> bool" where
  "dict_ok h n dt \<longleftrightarrow> table_ok h (dt_mask dt) (dt_table dt) \<and> size_ok (dt_size dt) \<and>
     dt_mask dt = dt_size dt - 1 \<and>
     unat (dt_used dt) = length (dict_entries dt) \<and> length (dict_entries dt) + n < 2 ^ 30 \<and>
     (\<forall>e\<in>set (dict_entries dt). snd (snd e) < dt_id_start dt) \<and>
     dt_id_clear dt \<le> dt_id_start dt \<and> unat (dt_id_start dt) + n < 2 ^ 64"

section \<open>The table under updates\<close>

lemma mset_concat_update:
  assumes "i < length T"
  shows "mset (concat (T[i := C])) + mset (T ! i) = mset (concat T) + mset C"
  using assms
proof (induction T arbitrary: i)
  case (Cons a T)
  then show ?case by (cases i) (auto simp: add.assoc add.commute add.left_commute)
qed simp

lemma mset_push_entry:
  assumes "bucket h msk (fst e) < length T"
  shows "mset (concat (push_entry h msk e T)) = add_mset e (mset (concat T))"
  using mset_concat_update [OF assms, of "e # T ! bucket h msk (fst e)"]
  by (simp add: push_entry_def Let_def)

lemma bucket_le: "bucket h msk k \<le> unat msk"
  unfolding bucket_def by (simp add: word_and_le1 flip: word_le_nat_alt)

lemma bucket_less [simp]: "table_ok h msk T \<Longrightarrow> bucket h msk k < length T"
  using bucket_le [of h msk k] by (simp add: table_ok_def)

lemma distinct_keys_mset:
  "mset xs = mset ys \<Longrightarrow> distinct (map fst xs) \<longleftrightarrow> distinct (map fst ys)"
  by (metis mset_eq_imp_distinct_iff mset_map)

lemma length_push_entry [simp]: "length (push_entry h msk e T) = length T"
  by (simp add: push_entry_def Let_def)

lemma table_ok_push:
  assumes "table_ok h msk T" "fst e \<notin> fst ` set (concat T)"
  shows "table_ok h msk (push_entry h msk e T)"
proof -
  have b: "bucket h msk (fst e) < length T" using assms(1) by simp
  have "distinct (map fst (concat (push_entry h msk e T)))"
    using distinct_keys_mset [of "concat (push_entry h msk e T)" "e # concat T"] assms b
    by (auto simp: mset_push_entry table_ok_def)
  moreover have "\<forall>i < length T. \<forall>x\<in>set (push_entry h msk e T ! i). bucket h msk (fst x) = i"
    using assms(1) b by (auto simp: push_entry_def Let_def table_ok_def nth_list_update)
  ultimately show ?thesis using assms(1) by (simp add: table_ok_def)
qed

lemma table_ok_subchain:
  assumes "table_ok h msk T" "i < length T" "mset C \<subseteq># mset (T ! i)"
  shows "table_ok h msk (T[i := C])"
proof -
  have "mset (concat (T[i := C])) \<subseteq># mset (concat T)"
    using mset_concat_update [OF assms(2), of C] assms(3)
    by (metis add_le_cancel_right add_le_mono order_refl subset_mset.add_left_mono mset_subset_eq_mono_add_right_cancel)
  then obtain ds where "mset (concat T) = mset (concat (T[i := C]) @ ds)"
    by (metis ex_mset mset_append subset_mset.le_iff_add)
  then have "distinct (map fst (concat (T[i := C])))"
    using assms(1) distinct_keys_mset [of "concat T" "concat (T[i := C]) @ ds"] by (simp add: table_ok_def)
  moreover have "\<forall>j < length T. \<forall>x\<in>set (T[i := C] ! j). bucket h msk (fst x) = j"
  proof (intro allI impI ballI)
    fix j x
    assume "j < length T" "x \<in> set (T[i := C] ! j)"
    then have "x \<in> set (T ! j)"
      using set_mset_mono [OF assms(3)] by (cases "j = i") auto
    then show "bucket h msk (fst x) = j" using assms(1) \<open>j < length T\<close> unfolding table_ok_def by blast
  qed
  ultimately show ?thesis using assms(1) by (simp add: table_ok_def)
qed

lemma word_of_nat_unat_u32: "word_of_nat (unat (w :: u32)) = w"
  by simp

lemma unat_u32_less: "unat (w :: u32) < 2 ^ 32"
  by (rule order_less_le_trans [OF unsigned_less]) simp

lemma fold_push_entry:
  assumes "table_ok h msk T" "distinct (map fst C)" "fst ` set C \<inter> fst ` set (concat T) = {}"
  shows "table_ok h msk (fold (push_entry h msk) C T) \<and>
    mset (concat (fold (push_entry h msk) C T)) = mset C + mset (concat T)"
  using assms
proof (induction C arbitrary: T)
  case (Cons e C)
  have T': "table_ok h msk (push_entry h msk e T)" using Cons.prems by (intro table_ok_push) auto
  have m: "mset (concat (push_entry h msk e T)) = add_mset e (mset (concat T))"
    using Cons.prems by (intro mset_push_entry) simp
  then have "set (concat (push_entry h msk e T)) = insert e (set (concat T))"
    by (metis set_mset_add_mset_insert set_mset_mset)
  then have "fst ` set C \<inter> fst ` set (concat (push_entry h msk e T)) = {}"
    using Cons.prems by auto
  then show ?case using Cons.IH [OF T'] Cons.prems m by simp
qed simp

lemma move_chains_moves:
  assumes "table_ok h msk T" "distinct (map fst (concat cs))" "fst ` set (concat cs) \<inter> fst ` set (concat T) = {}"
    "unat used = length (concat cs)"
  shows "table_ok h msk (move_chains h msk cs used T) \<and>
    mset (concat (move_chains h msk cs used T)) = mset (concat cs) + mset (concat T)"
  using assms
proof (induction cs arbitrary: used T)
  case (Cons C cs)
  show ?case
  proof (cases "used = 0")
    case True
    then show ?thesis using Cons.prems by simp
  next
    case False
    let ?T = "fold (push_entry h msk) C T"
    have T: "table_ok h msk ?T" "mset (concat ?T) = mset C + mset (concat T)"
      using fold_push_entry [of h msk T C] Cons.prems by auto
    have s: "set (concat ?T) = set C \<union> set (concat T)"
      using T(2) by (metis set_mset_mset set_mset_union)
    have u: "unat (used - word_of_nat (length C)) = length (concat cs)"
    proof -
      have "used = word_of_nat (length C + length (concat cs))"
        using Cons.prems(4) by (metis concat.simps(2) length_append word_of_nat_unat_u32)
      then have "used - word_of_nat (length C) = word_of_nat (length (concat cs))" by simp
      moreover have "length (concat cs) < 2 ^ 32"
        using Cons.prems(4) unat_u32_less [of used] by simp
      ultimately show ?thesis by (simp add: unat_of_nat)
    qed
    have "fst ` set (concat cs) \<inter> fst ` set (concat ?T) = {}"
    proof -
      have "fst ` set C \<inter> fst ` set (concat cs) = {}"
        using Cons.prems(2) unfolding concat.simps(2) map_append distinct_append set_map by (elim conjE)
      moreover have "fst ` set (concat cs) \<inter> fst ` set (concat T) = {}"
        using Cons.prems(3) unfolding concat.simps(2) set_append image_Un by blast
      ultimately show ?thesis unfolding s image_Un by blast
    qed
    then show ?thesis using Cons.IH [OF T(1) _ _ u] Cons.prems(2) False T(2) by (simp add: ac_simps)
  qed
qed simp

section \<open>The sizes\<close>

lemma unat_two_power: "k < 32 \<Longrightarrow> unat ((2::u32) ^ k) = 2 ^ k"
  using unat_of_nat [of "2 ^ k", where 'a = 32] power_strict_increasing [of k 32 "2::nat"] by simp

lemma next_power_from_power:
  assumes "j \<le> k" "k < 32"
  shows "next_power_from (2 ^ j) (2 ^ k) = Some (2 ^ k)"
  using assms
proof (induction "k - j" arbitrary: j)
  case 0
  then show ?case by (subst next_power_from.simps) simp
next
  case (Suc d)
  then have "\<not> (2::u32) ^ k \<le> 2 ^ j" using Suc by (simp add: word_le_nat_alt unat_two_power)
  moreover have "(2::u32) ^ j * 2 = 2 ^ Suc j" by simp
  moreover have "next_power_from (2 ^ Suc j) (2 ^ k) = Some ((2::u32) ^ k)" using Suc by (intro Suc.hyps) auto
  ultimately show ?case by (subst next_power_from.simps) (simp add: mult.commute)
qed

lemma size_ok_mask:
  assumes "size_ok sz"
  shows "unat (sz - 1) + 1 = unat sz" "unat sz \<le> 2 ^ 29"
proof -
  obtain k where k: "2 \<le> k" "k \<le> 29" "sz = 2 ^ k" using assms by (auto simp: size_ok_def)
  then have u: "unat sz = 2 ^ k" by (simp add: unat_two_power)
  then have "1 \<le> sz" by (simp add: word_le_nat_alt)
  then show "unat (sz - 1) + 1 = unat sz" using u by (simp add: unat_sub)
  show "unat sz \<le> 2 ^ 29" using k unfolding u by (intro power_increasing) auto
qed

lemma table_ok_replicate [simp]:
  assumes "size_ok sz"
  shows "table_ok h (sz - 1) (replicate (unat sz) [])"
  using size_ok_mask(1) [OF assms] by (simp add: table_ok_def)

lemma concat_replicate_Nil [simp]: "concat (replicate n []) = []"
  by (induction n) auto

lemma dict_next_power_size_ok:
  assumes "size_ok sz"
  shows "dict_next_power sz = Some sz"
proof -
  obtain k where k: "2 \<le> k" "k \<le> 29" "sz = 2 ^ k" using assms by (auto simp: size_ok_def)
  then show ?thesis using next_power_from_power [of 2 k] by (simp add: dict_next_power_def)
qed

lemma size_ok_times_four:
  assumes "size_ok sz" "sz * 4 \<le> used" "unat used < 2 ^ 30"
  shows "size_ok (sz * 4)"
proof -
  obtain k where k: "2 \<le> k" "k \<le> 29" "sz = 2 ^ k" using assms by (auto simp: size_ok_def)
  have e: "sz * 4 = 2 ^ (k + 2)" using k by (simp add: power_add)
  then have "(2::nat) ^ (k + 2) < 2 ^ 30"
    using k assms(2,3) unat_two_power [of "k + 2"] unfolding e word_le_nat_alt by linarith
  then have "k + 2 \<le> 29" using power_less_imp_less_exp [of "2::nat" "k + 2" 30] by simp
  then show ?thesis unfolding size_ok_def e using k by (intro bexI [of _ "k + 2"]) auto
qed

section \<open>Every operation keeps the dictionary well-formed\<close>

lemma dict_map_eq:
  assumes "distinct (map fst (dict_entries dt))"
  shows "dict_map dt key = Some v \<longleftrightarrow> (\<exists>n. (key, v, n) \<in> set (dict_entries dt) \<and> \<not> n < dt_id_clear dt)"
proof -
  let ?es = "filter (\<lambda>(_, _, n). \<not> n < dt_id_clear dt) (dict_entries dt)"
  have "map fst (map (\<lambda>(k, v, n). (k, v)) es) = map fst es" for es :: "('a \<times> 'b \<times> u64) list"
    by (induction es) auto
  then have "distinct (map fst (map (\<lambda>(k, v, n). (k, v)) ?es))" using assms by (simp only: distinct_map_filter)
  then show ?thesis by (force simp: dict_map_def)
qed

lemma option_eqI_Some: "(\<And>v. x = Some v \<longleftrightarrow> y = Some v) \<Longrightarrow> x = y"
  by (cases x; cases y) auto

lemma dict_map_eqI:
  assumes "distinct (map fst (dict_entries dt))" "distinct (map fst (dict_entries dt'))"
    "\<And>k v. (\<exists>n. (k, v, n) \<in> set (dict_entries dt) \<and> \<not> n < dt_id_clear dt) \<longleftrightarrow>
       (\<exists>n. (k, v, n) \<in> set (dict_entries dt') \<and> \<not> n < dt_id_clear dt')"
  shows "dict_map dt = dict_map dt'"
proof
  fix k
  show "dict_map dt k = dict_map dt' k"
  proof (rule option_eqI_Some)
    show "dict_map dt k = Some v \<longleftrightarrow> dict_map dt' k = Some v" for v
      unfolding dict_map_eq [OF assms(1)] dict_map_eq [OF assms(2)] by (rule assms(3))
  qed
qed

lemma dict_ok_table: "dict_ok h n dt \<Longrightarrow> table_ok h (dt_mask dt) (dt_table dt)"
  unfolding dict_ok_def by (elim conjE)

lemma dict_ok_ids: "dict_ok h n dt \<Longrightarrow> e \<in> set (dict_entries dt) \<Longrightarrow> snd (snd e) < dt_id_start dt"
  unfolding dict_ok_def by blast

lemma dict_ok_distinct: "dict_ok h n dt \<Longrightarrow> distinct (map fst (dict_entries dt))"
  by (simp add: dict_ok_def table_ok_def dict_entries_def)

lemma table_chain_in:
  assumes "table_ok h msk T"
  shows "(k, r) \<in> set (concat T) \<longleftrightarrow> (k, r) \<in> set (T ! bucket h msk k)"
proof
  assume "(k, r) \<in> set (concat T)"
  then obtain i where i: "i < length T" "(k, r) \<in> set (T ! i)" by (auto simp: set_conv_nth [of T])
  then have "\<forall>e\<in>set (T ! i). bucket h msk (fst e) = i" using assms unfolding table_ok_def by blast
  then have "bucket h msk k = i" using i(2) by force
  then show "(k, r) \<in> set (T ! bucket h msk k)" using i by simp
next
  assume "(k, r) \<in> set (T ! bucket h msk k)"
  then show "(k, r) \<in> set (concat T)" using bucket_less [OF assms, of k] by (auto intro: nth_mem)
qed

lemma table_chain_distinct:
  assumes "table_ok h msk T" "i < length T"
  shows "distinct (map fst (T ! i))"
proof -
  have "mset (concat T) = mset (concat (T[i := []]) @ T ! i)"
    using mset_concat_update [OF assms(2), of "[]"] by simp
  from distinct_keys_mset [OF this] show ?thesis using assms(1) by (simp add: table_ok_def)
qed

lemma chain_find_eq:
  "distinct (map fst ch) \<Longrightarrow> chain_find key ch = Some v \<longleftrightarrow> (\<exists>n. (key, v, n) \<in> set ch)"
  by (induction key ch rule: chain_find.induct) (auto simp: rev_image_eqI)

text \<open>Dropping entries of one chain that are marked.\<close>

lemma length_concat_update:
  assumes "i < length T"
  shows "length (concat (T[i := C])) + length (T ! i) = length (concat T) + length C"
  using arg_cong [OF mset_concat_update [OF assms, of C], of size] by simp

lemma mset_filter_chain: "mset (filter P xs) \<subseteq># mset xs"
  by simp

lemma dict_ok_smaller:
  assumes "dict_ok h n dt" "table_ok h (dt_mask dt) T" "unat u = length (concat T)"
    "length (concat T) \<le> length (dict_entries dt)" "\<forall>e\<in>set (concat T). snd (snd e) < dt_id_start dt"
  shows "dict_ok h n (dt\<lparr>dt_table := T, dt_used := u\<rparr>)"
  using assms by (auto simp: dict_ok_def dict_entries_def)

lemma check_clear_ok:
  assumes ok: "dict_ok h n dt" and i: "i < length (dt_table dt)"
  defines "dt' \<equiv> check_clear dt i"
  shows "dict_ok h n dt'" "dict_map dt' = dict_map dt" "dt_mask dt' = dt_mask dt" "dt_id_clear dt' = dt_id_clear dt"
    "\<forall>e\<in>set (dt_table dt' ! i). \<not> snd (snd e) < dt_id_clear dt"
proof -
  let ?C = "filter (\<lambda>(_, _, n). \<not> n < dt_id_clear dt) (dt_table dt ! i)"
  let ?T = "(dt_table dt)[i := ?C]"
  have T: "dt_table dt' = ?T" "dt_mask dt' = dt_mask dt" "dt_id_clear dt' = dt_id_clear dt" "dt_size dt' = dt_size dt"
    "dt_id_start dt' = dt_id_start dt"
    "dt_used dt' = dt_used dt - word_of_nat (length (dt_table dt ! i) - length ?C)"
    by (simp_all add: dt'_def check_clear_def Let_def)
  have ms: "mset (concat ?T) + mset (dt_table dt ! i) = mset (concat (dt_table dt)) + mset ?C"
    by (rule mset_concat_update [OF i])
  have tok: "table_ok h (dt_mask dt) ?T"
    using ok i by (intro table_ok_subchain) (auto simp: dict_ok_def)
  have le: "length ?C \<le> length (dt_table dt ! i)" by simp
  have len: "length (concat ?T) + (length (dt_table dt ! i) - length ?C) = length (concat (dt_table dt))"
    using length_concat_update [OF i, of ?C] le by linarith
  have used: "unat (dt_used dt') = length (concat ?T)"
  proof -
    obtain d where d: "length (dt_table dt ! i) - length ?C = d" by blast
    have "dt_used dt = word_of_nat (length (concat ?T) + d)"
      using ok unfolding len [unfolded d] dict_ok_def dict_entries_def by (metis word_of_nat_unat_u32)
    then have "dt_used dt' = word_of_nat (length (concat ?T))" unfolding T(6) d by simp
    moreover have "length (concat ?T) < 2 ^ 32" using ok len [unfolded d] by (simp add: dict_ok_def dict_entries_def)
    ultimately show ?thesis by (simp add: unat_of_nat)
  qed
  have sub: "set (concat ?T) \<subseteq> set (concat (dt_table dt))"
  proof
    fix e
    assume "e \<in> set (concat ?T)"
    then obtain c where "c \<in> set ?T" "e \<in> set c" by auto
    then have "c = ?C \<or> c \<in> set (dt_table dt)" using set_update_subset_insert [of "dt_table dt" i ?C] by blast
    then show "e \<in> set (concat (dt_table dt))" using \<open>e \<in> set c\<close> nth_mem [OF i] by auto
  qed
  have "dict_ok h n (dt\<lparr>dt_table := ?T, dt_used := dt_used dt'\<rparr>)"
  proof (rule dict_ok_smaller [OF ok tok used])
    show "length (concat ?T) \<le> length (dict_entries dt)" unfolding dict_entries_def using len by linarith
    show "\<forall>e\<in>set (concat ?T). snd (snd e) < dt_id_start dt"
      using ok sub unfolding dict_ok_def dict_entries_def by blast
  qed
  moreover have "dt\<lparr>dt_table := ?T, dt_used := dt_used dt'\<rparr> = dt'" by (simp add: dt'_def check_clear_def Let_def)
  ultimately show "dict_ok h n dt'" by simp
  show "dt_mask dt' = dt_mask dt" "dt_id_clear dt' = dt_id_clear dt" by (simp_all add: T)
  show "\<forall>e\<in>set (dt_table dt' ! i). \<not> snd (snd e) < dt_id_clear dt" using i by (auto simp: T)
  have "(\<exists>n. (k, v, n) \<in> set (concat ?T) \<and> \<not> n < dt_id_clear dt) \<longleftrightarrow>
      (\<exists>n. (k, v, n) \<in> set (concat (dt_table dt)) \<and> \<not> n < dt_id_clear dt)" for k v
  proof -
    have "(k, v, n) \<in> set (concat ?T) \<longleftrightarrow> (k, v, n) \<in> set (concat (dt_table dt))" if "\<not> n < dt_id_clear dt" for n
      using table_chain_in [OF tok, of k "(v, n)"] table_chain_in [of h "dt_mask dt" "dt_table dt" k "(v, n)"] ok i that
      by (auto simp: dict_ok_def nth_list_update split: if_splits)
    then show ?thesis by blast
  qed
  then show "dict_map dt' = dict_map dt"
    using dict_ok_distinct [OF ok] dict_ok_distinct [OF \<open>dict_ok h n dt'\<close>]
    by (intro dict_map_eqI) (simp_all add: dict_entries_def T)
qed

lemma dict_ok_bucket [simp]: "dict_ok h n dt \<Longrightarrow> bucket h (dt_mask dt) key < length (dt_table dt)"
  by (rule bucket_less, rule dict_ok_table)

lemma dict_ok_mono: "dict_ok h n dt \<Longrightarrow> m \<le> n \<Longrightarrow> dict_ok h m dt"
  by (auto simp: dict_ok_def)

text \<open>A search finds what the map holds, and leaves only entries that are not marked in the chain.\<close>

lemma dict_find_ok:
  assumes ok: "dict_ok h n dt"
  obtains dt' where "dict_find h dt key = (dict_map dt key, dt')" "dict_ok h n dt'" "dict_map dt' = dict_map dt"
    "dt_mask dt' = dt_mask dt" "dt_id_clear dt' = dt_id_clear dt"
    "\<forall>e\<in>set (dt_table dt' ! bucket h (dt_mask dt') key). \<not> snd (snd e) < dt_id_clear dt"
proof -
  let ?i = "bucket h (dt_mask dt) key"
  define dt' where "dt' = (if dt_id_clear dt > 0 then check_clear dt ?i else dt)"
  have dt': "dict_ok h n dt'" "dict_map dt' = dict_map dt" "dt_mask dt' = dt_mask dt" "dt_id_clear dt' = dt_id_clear dt"
    "\<forall>e\<in>set (dt_table dt' ! ?i). \<not> snd (snd e) < dt_id_clear dt"
    using check_clear_ok [OF ok dict_ok_bucket [OF ok]] ok by (auto simp: dt'_def word_gt_0)
  have tok: "table_ok h (dt_mask dt') (dt_table dt')" by (rule dict_ok_table [OF dt'(1)])
  have "chain_find key (dt_table dt' ! ?i) = dict_map dt' key"
  proof (rule option_eqI_Some)
    fix v
    have "chain_find key (dt_table dt' ! ?i) = Some v \<longleftrightarrow> (\<exists>n. (key, v, n) \<in> set (dt_table dt' ! ?i))"
      using table_chain_distinct [OF tok] dict_ok_bucket [OF dt'(1), of key] dt'(3) by (intro chain_find_eq) simp
    also have "\<dots> \<longleftrightarrow> (\<exists>n. (key, v, n) \<in> set (dict_entries dt') \<and> \<not> n < dt_id_clear dt')"
      using table_chain_in [OF tok, of key "(v, n)" for n] dt'(3,4,5) by (fastforce simp: dict_entries_def)
    finally show "chain_find key (dt_table dt' ! ?i) = Some v \<longleftrightarrow> dict_map dt' key = Some v"
      using dict_map_eq [OF dict_ok_distinct [OF dt'(1)]] by metis
  qed
  then have "dict_find h dt key = (dict_map dt key, dt')" using dt'(2) by (simp add: dict_find_def Let_def dt'_def)
  then show thesis using that dt' by simp
qed

text \<open>The expansion moves every entry to its new chain.\<close>

lemma dict_expand_if_needed_ok:
  assumes ok: "dict_ok h n dt"
  obtains dt' where "dict_expand_if_needed h dt = Some dt'" "dict_ok h n dt'" "dict_map dt' = dict_map dt"
    "mset (dict_entries dt') = mset (dict_entries dt)" "dt_id_start dt' = dt_id_start dt" "dt_id_clear dt' = dt_id_clear dt"
proof (cases "dt_used dt \<ge> dt_size dt * 4")
  case True
  let ?sz = "dt_size dt * 4"
  let ?T = "move_chains h (?sz - 1) (dt_table dt) (dt_used dt) (replicate (unat ?sz) [])"
  define dt' where "dt' = dt\<lparr>dt_size := ?sz, dt_mask := ?sz - 1, dt_table := ?T\<rparr>"
  have sz: "size_ok ?sz" using ok True by (intro size_ok_times_four) (auto simp: dict_ok_def)
  have "table_ok h (?sz - 1) ?T \<and> mset (concat ?T) = mset (concat (dt_table dt)) + mset (concat (replicate (unat ?sz) ([] :: ('a \<times> 'b \<times> u64) list)))"
    using ok table_ok_replicate [OF sz, of h] dict_ok_distinct [OF ok]
    by (intro move_chains_moves) (simp_all add: dict_ok_def dict_entries_def)
  then have T: "table_ok h (?sz - 1) ?T" "mset (dict_entries dt') = mset (dict_entries dt)"
    by (simp_all add: dict_entries_def dt'_def)
  have s: "set (dict_entries dt') = set (dict_entries dt)" using T(2) by (metis set_mset_mset)
  have l: "length (dict_entries dt') = length (dict_entries dt)" using T(2) by (metis size_mset)
  have ok': "dict_ok h n dt'" using ok T(1) sz unfolding dict_ok_def s l by (simp add: dt'_def)
  moreover have ids: "dt_id_start dt' = dt_id_start dt" "dt_id_clear dt' = dt_id_clear dt" by (simp_all add: dt'_def)
  moreover have "dict_map dt' = dict_map dt"
    using dict_ok_distinct [OF ok] dict_ok_distinct [OF ok'] by (intro dict_map_eqI) (simp_all add: s ids)
  moreover have "dict_expand_if_needed h dt = Some dt'"
    using True by (simp add: dict_expand_if_needed_def dict_expand_def dict_next_power_size_ok [OF sz] dt'_def)
  ultimately show thesis using that T(2) by blast
next
  case False
  then show thesis using that ok by (simp add: dict_expand_if_needed_def)
qed

text \<open>An entry that is added extends the map.\<close>

lemma dict_add_ok:
  assumes ok: "dict_ok h (Suc n) dt"
  obtains dt' where "dict_add h dt key v = Some (dict_map dt key = None, dt')" "dict_ok h n dt'"
    "dict_map dt' = (if dict_map dt key = None then (dict_map dt)(key \<mapsto> v) else dict_map dt)"
proof -
  obtain d1 where d1: "dict_find h dt key = (dict_map dt key, d1)" "dict_ok h (Suc n) d1" "dict_map d1 = dict_map dt"
    "\<forall>e\<in>set (dt_table d1 ! bucket h (dt_mask d1) key). \<not> snd (snd e) < dt_id_clear d1"
    using dict_find_ok [OF ok] by metis
  show thesis
  proof (cases "dict_map dt key")
    case (Some w)
    then show thesis using that [of d1] d1 dict_ok_mono [OF d1(2), of n] by (simp add: dict_add_def)
  next
    case None
    obtain d2 where d2: "dict_expand_if_needed h d1 = Some d2" "dict_ok h (Suc n) d2" "dict_map d2 = dict_map d1"
      "mset (dict_entries d2) = mset (dict_entries d1)" "dt_id_clear d2 = dt_id_clear d1"
      using dict_expand_if_needed_ok [OF d1(2)] by metis
    have s: "set (dict_entries d2) = set (dict_entries d1)" using d2(4) by (metis set_mset_mset)
    have fresh: "key \<notin> fst ` set (dict_entries d2)"
    proof
      assume "key \<in> fst ` set (dict_entries d2)"
      then obtain w i where e: "(key, w, i) \<in> set (dict_entries d1)" unfolding s by force
      then have "\<not> i < dt_id_clear d1"
        using table_chain_in [OF dict_ok_table [OF d1(2)], of key "(w, i)"] d1(4) by (force simp: dict_entries_def)
      then have "dict_map d1 key = Some w" using e dict_map_eq [OF dict_ok_distinct [OF d1(2)]] by metis
      then show False using None d1(3) by simp
    qed
    let ?e = "(key, v, dt_id_start d2)"
    define dt' where "dt' = d2\<lparr>dt_table := push_entry h (dt_mask d2) ?e (dt_table d2),
        dt_id_start := dt_id_start d2 + 1, dt_used := dt_used d2 + 1\<rparr>"
    have ms: "mset (dict_entries dt') = add_mset ?e (mset (dict_entries d2))"
      unfolding dict_entries_def dt'_def using dict_ok_bucket [OF d2(2), of key]
      by (simp add: mset_push_entry)
    have st: "set (dict_entries dt') = insert ?e (set (dict_entries d2))"
      using ms by (metis set_mset_add_mset_insert set_mset_mset)
    have ln: "length (dict_entries dt') = Suc (length (dict_entries d2))"
      using ms by (metis size_add_mset size_mset)
    have tok: "table_ok h (dt_mask dt') (dt_table dt')"
      using table_ok_push [OF dict_ok_table [OF d2(2)], of ?e] fresh by (simp add: dt'_def dict_entries_def)
    have u: "unat (dt_id_start d2 + 1) = unat (dt_id_start d2) + 1" "unat (dt_used d2 + 1) = unat (dt_used d2) + 1"
      using d2(2) by (auto simp: dict_ok_def unat_word_ariths)
    have ok': "dict_ok h n dt'"
      using d2(2) tok u unfolding dict_ok_def st ln by (auto simp: dt'_def word_less_nat_alt word_le_nat_alt)
    have "dict_map dt' = (dict_map dt)(key \<mapsto> v)"
    proof
      fix k
      have ids: "dt_id_clear dt' = dt_id_clear d2" "dt_id_clear d2 \<le> dt_id_start d2"
        using d2(2) by (auto simp: dt'_def dict_ok_def)
      show "dict_map dt' k = ((dict_map dt)(key \<mapsto> v)) k"
      proof (rule option_eqI_Some)
        fix w
        have old: "dict_map dt k = Some w \<longleftrightarrow> (\<exists>i. (k, w, i) \<in> set (dict_entries d2) \<and> \<not> i < dt_id_clear d2)"
          using dict_map_eq [OF dict_ok_distinct [OF d2(2)], of k w] d2(3) d1(3) by simp
        have new: "dict_map dt' k = Some w \<longleftrightarrow> (\<exists>i. (k, w, i) \<in> insert ?e (set (dict_entries d2)) \<and> \<not> i < dt_id_clear d2)"
          using dict_map_eq [OF dict_ok_distinct [OF ok'], of k w] st ids(1) by simp
        show "dict_map dt' k = Some w \<longleftrightarrow> ((dict_map dt)(key \<mapsto> v)) k = Some w"
        proof (cases "k = key")
          case True
          have "\<not> dt_id_start d2 < dt_id_clear d2" using ids(2) by (simp add: not_less)
          moreover have "(key, w, i) \<notin> set (dict_entries d2)" for i using fresh by force
          ultimately show ?thesis using new unfolding True by auto
        next
          case False
          then show ?thesis unfolding new by (simp add: old)
        qed
      qed
    qed
    moreover have "dict_add h dt key v = Some (True, dt')" using d1(1) d2(1) None by (simp add: dict_add_def dt'_def)
    ultimately show thesis using that ok' None by simp
  qed
qed

text \<open>A replaced value: the keys and numbers of the chain stay.\<close>

lemma chain_set_props:
  "map fst (chain_set key v ch) = map fst ch" "length (chain_set key v ch) = length ch"
  "map (\<lambda>e. snd (snd e)) (chain_set key v ch) = map (\<lambda>e. snd (snd e)) ch"
  by (induction key v ch rule: chain_set.induct) auto

lemma chain_set_in:
  "distinct (map fst ch) \<Longrightarrow> (k, w, n) \<in> set (chain_set key v ch) \<longleftrightarrow>
     (if k = key then w = v \<and> (\<exists>w. (k, w, n) \<in> set ch) else (k, w, n) \<in> set ch)"
  by (induction key v ch rule: chain_set.induct) (auto simp: rev_image_eqI)

lemma map_concat_update:
  assumes "map f C = map f (T ! i)"
  shows "map f (concat (T[i := C])) = map f (concat T)"
proof -
  have "map (map f) (T[i := C]) = (map (map f) T)[i := map f (T ! i)]" by (simp add: map_update assms)
  also have "\<dots> = map (map f) T" by (cases "i < length T") (auto simp: list_eq_iff_nth_eq nth_list_update)
  finally show ?thesis by (simp add: map_concat)
qed

lemma dict_set_ok:
  fixes v :: 'v
  assumes ok: "dict_ok h n dt" and key: "dict_map dt key \<noteq> None"
    and live: "\<forall>e\<in>set (dt_table dt ! bucket h (dt_mask dt) key). \<not> snd (snd e) < dt_id_clear dt"
  defines "dt' \<equiv> dt\<lparr>dt_table := (dt_table dt)[bucket h (dt_mask dt) key := chain_set key v (dt_table dt ! bucket h (dt_mask dt) key)]\<rparr>"
  shows "dict_ok h n dt'" "dict_map dt' = (dict_map dt)(key \<mapsto> v)"
proof -
  let ?i = "bucket h (dt_mask dt) key" and ?T = "dt_table dt"
  let ?T' = "?T[?i := chain_set key v (?T ! ?i)]"
  note tok = dict_ok_table [OF ok]
  have fsts: "map fst (concat ?T') = map fst (concat ?T)" by (rule map_concat_update) (rule chain_set_props)
  have ids: "map (\<lambda>e. snd (snd e)) (concat ?T') = map (\<lambda>e. snd (snd e)) (concat ?T)"
    by (rule map_concat_update) (rule chain_set_props)
  have len: "length (concat ?T') = length (concat ?T)" using fsts by (metis length_map)
  have tok': "table_ok h (dt_mask dt) ?T'"
  proof -
    have "bucket h (dt_mask dt) (fst e) = j" if j: "j < length ?T" "e \<in> set (?T' ! j)" for j e
    proof -
      have "map fst (?T' ! j) = map fst (?T ! j)" using j(1) by (cases "j = ?i") (simp_all add: chain_set_props)
      then have "fst e \<in> fst ` set (?T ! j)" using j(2) by (metis imageI set_map)
      then show ?thesis using tok j(1) unfolding table_ok_def by fastforce
    qed
    then show ?thesis using tok fsts unfolding table_ok_def by simp
  qed
  have "\<forall>e\<in>set (concat ?T'). snd (snd e) < dt_id_start dt"
  proof
    fix e
    assume "e \<in> set (concat ?T')"
    then have "snd (snd e) \<in> (\<lambda>e. snd (snd e)) ` set (concat ?T)"
      using arg_cong [OF ids, of set] unfolding set_map by blast
    then obtain e' where "e' \<in> set (dict_entries dt)" "snd (snd e) = snd (snd e')" unfolding dict_entries_def by blast
    then show "snd (snd e) < dt_id_start dt" using dict_ok_ids [OF ok] by metis
  qed
  moreover have "unat (dt_used dt) = length (concat ?T')"
    using ok unfolding len by (simp add: dict_ok_def dict_entries_def)
  ultimately have "dict_ok h n (dt\<lparr>dt_table := ?T', dt_used := dt_used dt\<rparr>)"
    by (intro dict_ok_smaller [OF ok tok']) (simp_all only: dict_entries_def len)
  then show ok': "dict_ok h n dt'" by (simp add: dt'_def)
  have old: "dict_map dt k = Some w \<longleftrightarrow> (\<exists>n. (k, w, n) \<in> set (?T ! bucket h (dt_mask dt) k) \<and> \<not> n < dt_id_clear dt)" for k w
    using dict_map_eq [OF dict_ok_distinct [OF ok], of k w] table_chain_in [OF tok, of k "(w, n)" for n] by (simp add: dict_entries_def)
  have new: "dict_map dt' k = Some w \<longleftrightarrow> (\<exists>n. (k, w, n) \<in> set (?T' ! bucket h (dt_mask dt) k) \<and> \<not> n < dt_id_clear dt)" for k w
    using dict_map_eq [OF dict_ok_distinct [OF ok'], of k w] table_chain_in [OF tok', of k "(w, n)" for n]
    by (simp add: dict_entries_def dt'_def)
  have b: "?i < length ?T" using ok by simp
  note cin = chain_set_in [OF table_chain_distinct [OF tok b]]
  show "dict_map dt' = (dict_map dt)(key \<mapsto> v)"
  proof
    fix k
    show "dict_map dt' k = ((dict_map dt)(key \<mapsto> v)) k"
    proof (rule option_eqI_Some)
      fix w
      obtain w0 where "dict_map dt key = Some w0" using key by blast
      then have "\<exists>n. \<exists>w0. (key, w0, n) \<in> set (?T ! ?i) \<and> \<not> n < dt_id_clear dt" using old by blast
      then show "dict_map dt' k = Some w \<longleftrightarrow> ((dict_map dt)(key \<mapsto> v)) k = Some w"
        using old [of k w] new [of k w] b
        by (cases "bucket h (dt_mask dt) k = ?i") (auto simp: cin)
    qed
  qed
qed

text \<open>Every entry of a key that is deleted is gone.\<close>

lemma chain_delete_None: "chain_delete key ch = None \<longleftrightarrow> key \<notin> fst ` set ch"
  by (induction key ch rule: chain_delete.induct) auto

lemma chain_delete_Some:
  "chain_delete key ch = Some ch' \<Longrightarrow> \<exists>w n. mset ch = add_mset (key, w, n) (mset ch')"
  by (induction key ch arbitrary: ch' rule: chain_delete.induct) (auto split: if_splits)

lemma dict_delete_ok:
  assumes ok: "dict_ok h n dt"
  obtains r dt' where "dict_delete h dt key = (r, dt')" "dict_ok h n dt'" "dict_map dt' = (dict_map dt)(key := None)"
    "r = (if key \<in> fst ` set (dict_entries dt) then 1 else 0)"
    "set (dict_entries dt') = {e \<in> set (dict_entries dt). fst e \<noteq> key}"
proof -
  let ?i = "bucket h (dt_mask dt) key" and ?T = "dt_table dt"
  note tok = dict_ok_table [OF ok]
  have b: "?i < length ?T" using ok by simp
  have keyin: "key \<in> fst ` set (dict_entries dt) \<longleftrightarrow> key \<in> fst ` set (?T ! ?i)"
    using table_chain_in [OF tok, of key] by (force simp: dict_entries_def)
  show thesis
  proof (cases "chain_delete key (?T ! ?i)")
    case None
    then have no: "key \<notin> fst ` set (dict_entries dt)" using keyin by (simp add: chain_delete_None)
    then have "dict_map dt key = None"
      using dict_map_eq [OF dict_ok_distinct [OF ok], of key] by (cases "dict_map dt key") force+
    then have "dict_map dt = (dict_map dt)(key := None)" by auto
    moreover have "set (dict_entries dt) = {e \<in> set (dict_entries dt). fst e \<noteq> key}" using no by force
    ultimately show thesis using that [of 0 dt] None no ok by (simp add: dict_delete_def Let_def)
  next
    case (Some ch)
    obtain w i where m: "mset (?T ! ?i) = add_mset (key, w, i) (mset ch)" using chain_delete_Some [OF Some] by blast
    let ?T' = "?T[?i := ch]"
    define dt' where "dt' = dt\<lparr>dt_table := ?T', dt_used := dt_used dt - 1\<rparr>"
    have tok': "table_ok h (dt_mask dt) ?T'" using b m by (intro table_ok_subchain [OF tok]) simp_all
    have "mset (concat ?T') + add_mset (key, w, i) (mset ch) = mset (concat ?T) + mset ch"
      using mset_concat_update [OF b, of ch] m by simp
    then have ms: "mset (concat ?T) = add_mset (key, w, i) (mset (concat ?T'))" by simp
    have len: "length (concat ?T) = Suc (length (concat ?T'))" using ms by (metis size_add_mset size_mset)
    have st: "set (concat ?T) = insert (key, w, i) (set (concat ?T'))" using ms by (metis set_mset_add_mset_insert set_mset_mset)
    have "distinct (map fst ((key, w, i) # concat ?T'))"
      using distinct_keys_mset [of "concat ?T" "(key, w, i) # concat ?T'"] ms dict_ok_distinct [OF ok]
      by (simp add: dict_entries_def)
    then have nin: "key \<notin> fst ` set (concat ?T')" by simp
    have sub: "set (concat ?T') = {e \<in> set (concat ?T). fst e \<noteq> key}" unfolding st using nin by force
    have "unat (dt_used dt - 1) = length (concat ?T')"
      using ok len by (auto simp: dict_ok_def dict_entries_def unat_sub_if' word_le_nat_alt unat_minus_one)
    moreover have "\<forall>e\<in>set (concat ?T'). snd (snd e) < dt_id_start dt"
      using dict_ok_ids [OF ok] unfolding sub dict_entries_def by blast
    ultimately have ok': "dict_ok h n dt'" unfolding dt'_def
      by (intro dict_ok_smaller [OF ok tok']) (simp_all only: dict_entries_def len)
    have "dict_map dt' = (dict_map dt)(key := None)"
    proof
      fix k
      show "dict_map dt' k = ((dict_map dt)(key := None)) k"
      proof (rule option_eqI_Some)
        fix w'
        have "dict_map dt' k = Some w' \<longleftrightarrow> (\<exists>n. (k, w', n) \<in> set (concat ?T') \<and> \<not> n < dt_id_clear dt)"
          using dict_map_eq [OF dict_ok_distinct [OF ok'], of k w'] by (simp add: dict_entries_def dt'_def)
        also have "\<dots> \<longleftrightarrow> k \<noteq> key \<and> dict_map dt k = Some w'"
          unfolding sub dict_map_eq [OF dict_ok_distinct [OF ok]] dict_entries_def by auto
        finally show "dict_map dt' k = Some w' \<longleftrightarrow> ((dict_map dt)(key := None)) k = Some w'" by auto
      qed
    qed
    moreover have "dict_delete h dt key = (1, dt')" using Some by (simp add: dict_delete_def Let_def dt'_def)
    moreover have "key \<in> fst ` set (dict_entries dt)" unfolding dict_entries_def st by force
    ultimately show thesis using that ok' sub by (simp add: dict_entries_def dt'_def)
  qed
qed

lemma dict_mark_clear_ok:
  assumes ok: "dict_ok h (Suc n) dt"
  shows "dict_ok h n (dict_mark_clear dt)" "dict_map (dict_mark_clear dt) = Map.empty"
proof -
  have u: "unat (dt_id_start dt + 1) = unat (dt_id_start dt) + 1"
    using ok by (auto simp: dict_ok_def unat_word_ariths)
  have e: "dict_entries (dict_mark_clear dt) = dict_entries dt" by (simp add: dict_mark_clear_def dict_entries_def)
  show ok': "dict_ok h n (dict_mark_clear dt)"
    using ok u unfolding dict_ok_def e by (auto simp: dict_mark_clear_def word_less_nat_alt word_le_nat_alt)
  show "dict_map (dict_mark_clear dt) = Map.empty"
    using dict_map_eq [OF dict_ok_distinct [OF ok']] dict_ok_ids [OF ok] unfolding e
    by (intro ext option_eqI_Some) (fastforce simp: dict_mark_clear_def)
qed

lemma fold_dict_delete_ok:
  assumes "dict_ok h n dt"
  shows "dict_ok h n (fold (\<lambda>(key, _, _) dt. snd (dict_delete h dt key)) es dt) \<and>
    set (dict_entries (fold (\<lambda>(key, _, _) dt. snd (dict_delete h dt key)) es dt)) =
      {e \<in> set (dict_entries dt). fst e \<notin> fst ` set es}"
  using assms
proof (induction es arbitrary: dt)
  case (Cons e es)
  obtain key w i where e: "e = (key, w, i)" by (cases e) auto
  obtain r dt' where d: "dict_delete h dt key = (r, dt')" "dict_ok h n dt'"
    "set (dict_entries dt') = {e \<in> set (dict_entries dt). fst e \<noteq> key}"
    by (rule dict_delete_ok [OF Cons.prems, of key])
  have "{e \<in> set (dict_entries dt'). fst e \<notin> fst ` set es} = {x \<in> set (dict_entries dt). fst x \<notin> fst ` set (e # es)}"
    unfolding d(3) e by auto
  then show ?case using Cons.IH [OF d(2)] unfolding e fold_simps comp_def prod.case d(1) snd_conv by argo
qed simp

lemma dict_clear_ok:
  assumes "dict_ok h n dt"
  shows "dict_ok h n (dict_clear h dt)" "dict_map (dict_clear h dt) = Map.empty"
proof -
  have "{e \<in> set (dict_entries dt). fst e \<notin> fst ` set (dict_entries dt)} = {}" by blast
  then have c: "dict_ok h n (dict_clear h dt) \<and> set (dict_entries (dict_clear h dt)) = {}"
    using fold_dict_delete_ok [OF assms, of "dict_entries dt"] unfolding dict_clear_def by simp
  then show "dict_ok h n (dict_clear h dt)" by simp
  show "dict_map (dict_clear h dt) = Map.empty" using c by (auto simp: dict_map_def)
qed

lemma dict_replace_ok:
  assumes ok: "dict_ok h (Suc n) dt"
  obtains dt' where "dict_replace h dt key v = Some (if dict_map dt key = None then 1 else 0, dt')" "dict_ok h n dt'"
    "dict_map dt' = (dict_map dt)(key \<mapsto> v)"
proof -
  obtain d1 where d1: "dict_find h dt key = (dict_map dt key, d1)" "dict_ok h (Suc n) d1" "dict_map d1 = dict_map dt"
    "\<forall>e\<in>set (dt_table d1 ! bucket h (dt_mask d1) key). \<not> snd (snd e) < dt_id_clear d1"
    using dict_find_ok [OF ok] by metis
  show thesis
  proof (cases "dict_map dt key")
    case None
    obtain d2 where "dict_add h d1 key v = Some (dict_map d1 key = None, d2)" "dict_ok h n d2"
      "dict_map d2 = (if dict_map d1 key = None then (dict_map d1)(key \<mapsto> v) else dict_map d1)"
      using dict_add_ok [OF d1(2)] by metis
    then show thesis using that [of d2] d1 None by (simp add: dict_replace_def)
  next
    case (Some w)
    then have "dict_map d1 key \<noteq> None" using d1(3) by simp
    note s = dict_set_ok [OF d1(2) this d1(4), of v]
    show thesis using that [OF _ dict_ok_mono [OF s(1)]] s(2) d1 Some by (simp add: dict_replace_def Let_def)
  qed
qed

lemma dict_create_ok:
  assumes "size_ok sz" "n < 2 ^ 30"
  obtains dt where "dict_create sz = Some dt" "dict_ok h n dt" "dict_map dt = Map.empty" "dict_held dt = Map.empty"
  using that [of "\<lparr>dt_table = replicate (unat sz) [], dt_size = sz, dt_mask = sz - 1, dt_used = 0, dt_id_start = 0, dt_id_clear = 0\<rparr>"]
    assms table_ok_replicate [OF assms(1), of h]
  by (simp add: dict_create_def dict_next_power_size_ok dict_ok_def dict_entries_def dict_map_def dict_held_def)

section \<open>What is left of marked entries\<close>

definition unmark :: "('k, 'v) dict \<Rightarrow> ('k, 'v) dict" where
  "unmark dt = dt\<lparr>dt_id_clear := 0\<rparr>"

lemma unmark_simps [simp]:
  "dict_entries (unmark dt) = dict_entries dt" "dt_id_clear (unmark dt) = 0" "dt_mask (unmark dt) = dt_mask dt"
  "dt_table (unmark dt) = dt_table dt"
  by (simp_all add: unmark_def dict_entries_def)

lemma unmark_map: "dict_map (unmark dt) = dict_held dt"
  by (simp add: dict_map_def dict_held_def case_prod_unfold)

lemma unmark_ok: "dict_ok h n dt \<Longrightarrow> dict_ok h n (unmark dt)"
  unfolding dict_ok_def by (auto simp: unmark_def dict_entries_def)

lemma dict_held_eq:
  assumes "dict_ok h n dt"
  shows "dict_held dt key = Some v \<longleftrightarrow> (\<exists>n. (key, v, n) \<in> set (dict_entries dt))"
  using dict_map_eq [OF dict_ok_distinct [OF unmark_ok [OF assms]], of key v] by (simp add: unmark_map)

lemma dict_map_held: "dict_ok h n dt \<Longrightarrow> dict_map dt \<subseteq>\<^sub>m dict_held dt"
  unfolding map_le_def by (metis (no_types, lifting) dict_map_eq [OF dict_ok_distinct] dict_held_eq domD)

lemma held_unmarked:
  assumes ok: "dict_ok h n dt" and live: "\<forall>e\<in>set (dt_table dt ! bucket h (dt_mask dt) key). \<not> snd (snd e) < dt_id_clear dt"
  shows "dict_held dt key = dict_map dt key"
proof (rule option_eqI_Some)
  fix v
  show "dict_held dt key = Some v \<longleftrightarrow> dict_map dt key = Some v"
    using live table_chain_in [OF dict_ok_table [OF ok], of key "(v, i)" for i]
    by (fastforce simp: dict_held_eq [OF ok] dict_map_eq [OF dict_ok_distinct [OF ok]] dict_entries_def)
qed

text \<open>A search drops marked entries only, and every marked entry of the key.\<close>

lemma dict_find_held:
  assumes ok: "dict_ok h n dt" and f: "dict_find h dt key = (r, dt')"
  shows "r = dict_map dt key" "dict_ok h n dt'" "dict_map dt' = dict_map dt" "dict_held dt' \<subseteq>\<^sub>m dict_held dt"
    "dict_held dt' key = dict_map dt key" "dict_map dt \<subseteq>\<^sub>m dict_held dt'"
proof -
  obtain d1 where d1: "dict_find h dt key = (dict_map dt key, d1)" "dict_ok h n d1" "dict_map d1 = dict_map dt"
    "\<forall>e\<in>set (dt_table d1 ! bucket h (dt_mask d1) key). \<not> snd (snd e) < dt_id_clear d1"
    using dict_find_ok [OF ok] by metis
  then show g: "r = dict_map dt key" "dict_ok h n dt'" "dict_map dt' = dict_map dt" using f by auto
  show "dict_map dt \<subseteq>\<^sub>m dict_held dt'" using dict_map_held [OF g(2)] g(3) by simp
  show "dict_held dt' key = dict_map dt key" using held_unmarked [OF d1(2,4)] d1(1,3) f by simp
  have "dt' = dt \<or> dt' = check_clear dt (bucket h (dt_mask dt) key)" using f by (auto simp: dict_find_def Let_def)
  then have "set (dict_entries dt') \<subseteq> set (dict_entries dt)"
  proof
    let ?T = "dt_table dt" and ?i = "bucket h (dt_mask dt) key"
    assume "dt' = check_clear dt ?i"
    then have "dict_entries dt' = concat (?T[?i := filter (\<lambda>(_, _, n). \<not> n < dt_id_clear dt) (?T ! ?i)])"
      by (simp add: check_clear_def Let_def dict_entries_def)
    moreover have "set (?T[?i := filter P (?T ! ?i)]) \<subseteq> insert (filter P (?T ! ?i)) (set ?T)" for P by (rule set_update_subset_insert)
    moreover have "?T ! ?i \<in> set ?T" using dict_ok_bucket [OF ok] by (rule nth_mem)
    ultimately show ?thesis unfolding dict_entries_def by fastforce
  qed simp
  then show "dict_held dt' \<subseteq>\<^sub>m dict_held dt"
    unfolding map_le_def by (metis (no_types, lifting) dict_held_eq domD g(2) ok subsetD)
qed

lemma dict_delete_unmark: "dict_delete h (unmark dt) key = map_prod id unmark (dict_delete h dt key)"
  by (simp add: dict_delete_def unmark_def Let_def split: option.split)

lemma dict_delete_held:
  assumes ok: "dict_ok h n dt" and d: "dict_delete h dt key = (r, dt')"
  shows "r = (if dict_held dt key = None then 0 else 1)" "dict_held dt' = (dict_held dt)(key := None)"
proof -
  obtain r1 d1 where d1: "dict_delete h (unmark dt) key = (r1, d1)" "dict_map d1 = (dict_map (unmark dt))(key := None)"
    "r1 = (if key \<in> fst ` set (dict_entries (unmark dt)) then 1 else 0)"
    by (rule dict_delete_ok [OF unmark_ok [OF ok], of key])
  then show "dict_held dt' = (dict_held dt)(key := None)" using d by (auto simp: dict_delete_unmark unmark_map)
  have "key \<in> fst ` set (dict_entries dt) \<longleftrightarrow> dict_held dt key \<noteq> None"
    using dict_held_eq [OF ok, of key] by (force simp: image_iff)
  then show "r = (if dict_held dt key = None then 0 else 1)" using d d1 by (simp add: dict_delete_unmark)
qed

lemma dict_expand_unmark: "dict_expand_if_needed h (unmark dt) = map_option unmark (dict_expand_if_needed h dt)"
  by (cases "dict_next_power (dt_size dt * 4)") (simp_all add: dict_expand_if_needed_def dict_expand_def unmark_def)

lemma dict_find_unmark: "dict_find h (unmark dt) key = (chain_find key (dt_table dt ! bucket h (dt_mask dt) key), unmark dt)"
  by (simp add: dict_find_def Let_def)

lemma dict_add_held:
  assumes ok: "dict_ok h (Suc n) dt" and a: "dict_add h dt key v = Some (b, dt')"
  shows "\<exists>H. dict_map dt \<subseteq>\<^sub>m H \<and> H \<subseteq>\<^sub>m dict_held dt \<and> H key = dict_map dt key \<and> dict_held dt' = (if dict_map dt key = None then H(key \<mapsto> v) else H)"
proof -
  obtain r d1 where f: "dict_find h dt key = (r, d1)" by fastforce
  note d1 = dict_find_held [OF ok f]
  show ?thesis
  proof (cases "dict_map dt key")
    case None
    obtain b2 d2 where d2: "dict_add h (unmark d1) key v = Some (b2, d2)" "dict_map d2 = (dict_held d1)(key \<mapsto> v)"
      using dict_add_ok [OF unmark_ok [OF d1(2)], of key v] d1(5) None by (metis unmark_map)
    have "dict_find h (unmark d1) key = (None, unmark d1)"
      using dict_find_ok [OF unmark_ok [OF d1(2)], of key] d1(5) None by (metis dict_find_unmark fst_conv unmark_map)
    then have "d2 = unmark dt'"
      using a d2(1) None by (auto simp: dict_add_def f d1(1) dict_expand_unmark) (simp add: unmark_def)
    then show ?thesis using d2(2) d1(4-6) None by (auto simp: unmark_map)
  next
    case (Some w)
    then have "dt' = d1" using a by (simp add: dict_add_def f d1(1))
    then show ?thesis using d1(4-6) Some by auto
  qed
qed

lemma dict_replace_held:
  assumes ok: "dict_ok h (Suc n) dt" and a: "dict_replace h dt key v = Some (r, dt')"
  shows "\<exists>H. dict_map dt \<subseteq>\<^sub>m H \<and> H \<subseteq>\<^sub>m dict_held dt \<and> H key = dict_map dt key \<and> dict_held dt' = H(key \<mapsto> v)"
proof -
  obtain r1 d1 where f: "dict_find h dt key = (r1, d1)" by fastforce
  note d1 = dict_find_held [OF ok f]
  show ?thesis
  proof (cases "dict_map dt key")
    case None
    with a obtain b where "dict_add h d1 key v = Some (b, dt')" by (auto simp: dict_replace_def f d1(1))
    from dict_add_held [OF d1(2) this] None d1(3) obtain H where
      "dict_map dt \<subseteq>\<^sub>m H" "H \<subseteq>\<^sub>m dict_held d1" "H key = None" "dict_held dt' = H(key \<mapsto> v)" by auto
    then show ?thesis using map_le_trans [OF _ d1(4)] None by auto
  next
    case (Some w)
    let ?i = "bucket h (dt_mask d1) key"
    let ?T = "(dt_table d1)[?i := chain_set key v (dt_table d1 ! ?i)]"
    have m: "dt_mask d1 = dt_mask dt" using f by (auto simp: dict_find_def Let_def check_clear_def)
    have "dt' = d1\<lparr>dt_table := ?T\<rparr>" using a Some by (simp add: dict_replace_def f d1(1) Let_def m)
    moreover have "dict_map ((unmark d1)\<lparr>dt_table := ?T\<rparr>) = (dict_map (unmark d1))(key \<mapsto> v)"
      using dict_set_ok(2) [OF unmark_ok [OF d1(2)], of key v] d1(5) Some by (simp add: unmark_map)
    moreover have "(unmark d1)\<lparr>dt_table := ?T\<rparr> = unmark (d1\<lparr>dt_table := ?T\<rparr>)" by (simp add: unmark_def)
    ultimately show ?thesis using d1(4-6) by (auto simp: unmark_map)
  qed
qed

lemma dict_clear_held:
  assumes "dict_ok h n dt"
  shows "dict_held (dict_clear h dt) = Map.empty"
proof -
  have "{e \<in> set (dict_entries dt). fst e \<notin> fst ` set (dict_entries dt)} = {}" by blast
  then have "set (dict_entries (dict_clear h dt)) = {}"
    using conjunct2 [OF fold_dict_delete_ok [OF assms, of "dict_entries dt"]] unfolding dict_clear_def by simp
  then show ?thesis by (simp add: dict_held_def)
qed

text \<open>The iterator yields every entry once.\<close>

lemma dict_iterate_from:
  assumes "length (dt_table dt) = nat (uint (dt_size dt))" and "nat (i + 1) \<le> length (dt_table dt)" and "- 1 \<le> i"
  shows "dict_iterate dt \<lparr>it_index = i, it_chain = chain\<rparr> =
    Some (concat (case chain of None \<Rightarrow> [] | Some chain \<Rightarrow> [chain]) @ concat (drop (nat (i + 1)) (dt_table dt)))"
  using assms(2,3)
proof (induction "length (dt_table dt) - nat (i + 1)" arbitrary: i chain rule: less_induct)
  case less
  have at_end: "dict_iterate dt \<lparr>it_index = i, it_chain = None\<rparr> = Some (concat (drop (nat (i + 1)) (dt_table dt)))"
  proof (cases "nat (i + 1) = length (dt_table dt)")
    case True
    then have "i + 1 \<ge> uint (dt_size dt)" using assms(1) less.prems by linarith
    then show ?thesis using True by (simp add: dict_iterate.simps dict_next.simps)
  next
    case False
    then have lt: "nat (i + 1) < length (dt_table dt)" using less.prems by simp
    then have n: "\<not> i + 1 \<ge> uint (dt_size dt)" using assms(1) less.prems by linarith
    have m: "length (dt_table dt) - nat (i + 1 + 1) < length (dt_table dt) - nat (i + 1)" "nat (i + 1 + 1) \<le> length (dt_table dt)"
      "- 1 \<le> i + 1" "nat (i + 1 + 1) = Suc (nat (i + 1))"
      using lt less.prems by linarith+
    show ?thesis
      using less.hyps [OF m(1-3)] n Cons_nth_drop_Suc [OF lt, symmetric] m(4)
      by (cases "dt_table dt ! nat (i + 1)")
        (simp_all add: dict_iterate.simps [of dt "\<lparr>it_index = i, it_chain = None\<rparr>"] dict_next.simps [of dt "\<lparr>it_index = i, it_chain = None\<rparr>"]
          flip: dict_iterate.simps)
  qed
  show ?case
  proof (cases chain)
    case None
    then show ?thesis using at_end by simp
  next
    case (Some c)
    have "dict_iterate dt \<lparr>it_index = i, it_chain = Some c\<rparr> = Some (c @ concat (drop (nat (i + 1)) (dt_table dt)))"
    proof (induction c)
      case Nil
      have "dict_iterate dt \<lparr>it_index = i, it_chain = Some []\<rparr> = dict_iterate dt \<lparr>it_index = i, it_chain = None\<rparr>"
        by (simp add: dict_iterate.simps [of dt "\<lparr>it_index = i, it_chain = c\<rparr>" for c]
            dict_next.simps [of dt "\<lparr>it_index = i, it_chain = Some []\<rparr>"])
      then show ?case using at_end by simp
    next
      case (Cons e c)
      then show ?case by (simp add: dict_iterate.simps [of dt "\<lparr>it_index = i, it_chain = Some (e # c)\<rparr>"]
            dict_next.simps [of dt "\<lparr>it_index = i, it_chain = Some (e # c)\<rparr>"])
    qed
    then show ?thesis using Some by simp
  qed
qed

lemma dict_iterate_entries:
  assumes "dict_ok h n dt"
  shows "dict_iterate dt dict_get_iterator = Some (dict_entries dt)"
proof -
  have "length (dt_table dt) = unat (dt_size dt)"
    using dict_ok_table [OF assms] assms size_ok_mask [of "dt_size dt"] by (auto simp: dict_ok_def table_ok_def)
  then show ?thesis using dict_iterate_from [of dt "- 1" None] by (simp add: dict_get_iterator_def dict_entries_def)
qed

section \<open>The dictionary as an interface\<close>

text \<open>
  The calls a client makes, one constructor each. The answers are what the C functions return;
  a loop over the dictionary answers with the keys and values it meets.
\<close>

datatype ('k, 'v) dict_request = Find_key 'k | Add 'k 'v | Replace 'k 'v | Delete 'k | Iterate | Clear | Mark_clear

datatype ('k, 'v) dict_answer = Found "'v option" | Status int | Entries "('k \<times> 'v) list" | Nothing

fun dict_call ::
  "('k \<Rightarrow> u32) \<Rightarrow> ('k, 'v) dict_request \<Rightarrow> ('k, 'v) dict \<Rightarrow> (('k, 'v) dict_answer \<times> ('k, 'v) dict) option" where
  "dict_call h (Find_key key) dt = Some (map_prod Found id (dict_find h dt key))"
| "dict_call h (Add key v) dt = map_option (map_prod (\<lambda>added. Status (if added then 1 else 0)) id) (dict_add h dt key v)"
| "dict_call h (Replace key v) dt = map_option (map_prod Status id) (dict_replace h dt key v)"
| "dict_call h (Delete key) dt = Some (map_prod Status id (dict_delete h dt key))"
| "dict_call h Iterate dt =
     map_option (\<lambda>es. (Entries (map (\<lambda>(k, v, n). (k, v)) es), dt)) (dict_iterate dt dict_get_iterator)"
| "dict_call h Clear dt = Some (Nothing, dict_clear h dt)"
| "dict_call h Mark_clear dt = Some (Nothing, dict_mark_clear dt)"

text \<open>
  What the calls mean. The meaning of a dictionary is a map \<open>m\<close> and what deletion and
  iteration see, the map \<open>held\<close>: \<open>m\<close> and the entries that were marked by
  \<^verbatim>\<open>dict_mark_clear\<close> and are still there. Calls that search may drop marked entries, and
  drop those of the key they search; which others they drop depends on the hash function.
\<close>

type_synonym ('k, 'v) dict_meaning = "('k \<rightharpoonup> 'v) \<times> ('k \<rightharpoonup> 'v)"

definition searched :: "'k \<Rightarrow> ('k, 'v) dict_meaning \<Rightarrow> ('k \<rightharpoonup> 'v) \<Rightarrow> bool" where
  "searched key D H \<longleftrightarrow> fst D \<subseteq>\<^sub>m H \<and> H \<subseteq>\<^sub>m snd D \<and> H key = fst D key"

fun map_call ::
  "('k, 'v) dict_request \<Rightarrow> ('k, 'v) dict_meaning \<Rightarrow> ('k, 'v) dict_answer \<Rightarrow> ('k, 'v) dict_meaning \<Rightarrow> bool" where
  "map_call (Find_key key) D r D' \<longleftrightarrow> r = Found (fst D key) \<and> fst D' = fst D \<and> searched key D (snd D')"
| "map_call (Add key v) D r D' \<longleftrightarrow>
     (case fst D key of
        None \<Rightarrow> r = Status 1 \<and> fst D' = (fst D)(key \<mapsto> v) \<and> (\<exists>H. searched key D H \<and> snd D' = H(key \<mapsto> v))
      | Some _ \<Rightarrow> r = Status 0 \<and> fst D' = fst D \<and> searched key D (snd D'))"
| "map_call (Replace key v) D r D' \<longleftrightarrow> r = Status (if fst D key = None then 1 else 0) \<and>
     fst D' = (fst D)(key \<mapsto> v) \<and> (\<exists>H. searched key D H \<and> snd D' = H(key \<mapsto> v))"
| "map_call (Delete key) D r D' \<longleftrightarrow> r = Status (if snd D key = None then 0 else 1) \<and>
     D' = ((fst D)(key := None), (snd D)(key := None))"
| "map_call Iterate D r D' \<longleftrightarrow> (\<exists>es. r = Entries es \<and> distinct (map fst es) \<and> map_of es = snd D) \<and> D' = D"
| "map_call Clear D r D' \<longleftrightarrow> r = Nothing \<and> D' = (Map.empty, Map.empty)"
| "map_call Mark_clear D r D' \<longleftrightarrow> r = Nothing \<and> D' = (Map.empty, snd D)"

definition dict_abs :: "('k, 'v) dict \<Rightarrow> ('k, 'v) dict_meaning" where
  "dict_abs dt = (dict_map dt, dict_held dt)"

text \<open>A sequence of calls and their answers, and whether the meanings of the calls allow answers.\<close>

fun run_calls :: "('c \<Rightarrow> 'd \<Rightarrow> ('r \<times> 'd) option) \<Rightarrow> 'c list \<Rightarrow> 'd \<Rightarrow> ('r list \<times> 'd) option" where
  "run_calls call [] d = Some ([], d)"
| "run_calls call (c # cs) d =
     (case call c d of None \<Rightarrow> None
      | Some (r, d) \<Rightarrow> map_option (\<lambda>(rs, d). (r # rs, d)) (run_calls call cs d))"

fun run_meanings :: "('c \<Rightarrow> 'a \<Rightarrow> 'r \<Rightarrow> 'a \<Rightarrow> bool) \<Rightarrow> 'c list \<Rightarrow> 'a \<Rightarrow> 'r list \<Rightarrow> 'a \<Rightarrow> bool" where
  "run_meanings meaning [] a rs a' \<longleftrightarrow> rs = [] \<and> a' = a"
| "run_meanings meaning (c # cs) a rs a' \<longleftrightarrow>
     (\<exists>r rs1 a1. rs = r # rs1 \<and> meaning c a r a1 \<and> run_meanings meaning cs a1 rs1 a')"

text \<open>
  An implementation that simulates its specification call by call, as long as it has room for
  another call; a specification that leaves no choice gives the answers.
\<close>

locale loose_simulation =
  fixes call :: "'c \<Rightarrow> 'd \<Rightarrow> ('r \<times> 'd) option"
    and allows :: "'c \<Rightarrow> 'a \<Rightarrow> 'r \<Rightarrow> 'a \<Rightarrow> bool"
    and room :: "nat \<Rightarrow> 'd \<Rightarrow> bool"
    and abs :: "'d \<Rightarrow> 'a"
  assumes allowed: "room (Suc n) d \<Longrightarrow> \<exists>r d'. call c d = Some (r, d') \<and> room n d' \<and> allows c (abs d) r (abs d')"
begin

lemma run_allowed:
  "room (length cs) d \<Longrightarrow> \<exists>rs d'. run_calls call cs d = Some (rs, d') \<and> room 0 d' \<and> run_meanings allows cs (abs d) rs (abs d')"
proof (induction cs arbitrary: d)
  case (Cons c cs)
  then obtain r d1 where d1: "call c d = Some (r, d1)" "room (length cs) d1" "allows c (abs d) r (abs d1)"
    using allowed [of "length cs" d c] by auto
  then show ?case using Cons.IH [OF d1(2)] by auto
qed simp

end

locale simulation =
  fixes call :: "'c \<Rightarrow> 'd \<Rightarrow> ('r \<times> 'd) option"
    and meaning :: "'c \<Rightarrow> 'a \<Rightarrow> 'r \<times> 'a"
    and room :: "nat \<Rightarrow> 'd \<Rightarrow> bool"
    and abs :: "'d \<Rightarrow> 'a"
  assumes step: "room (Suc n) d \<Longrightarrow> \<exists>r d'. call c d = Some (r, d') \<and> room n d' \<and> meaning c (abs d) = (r, abs d')"

sublocale simulation \<subseteq> loose: loose_simulation call "\<lambda>c a r a'. meaning c a = (r, a')" room abs
  by unfold_locales (rule step)

context simulation
begin

lemma run_exact: "run_meanings (\<lambda>c a r a'. meaning c a = (r, a')) cs a rs a' \<Longrightarrow> run_calls (\<lambda>c a. Some (meaning c a)) cs a = Some (rs, a')"
  by (induction cs arbitrary: a rs) auto

lemma run:
  "room (length cs) d \<Longrightarrow> \<exists>rs d'. run_calls call cs d = Some (rs, d') \<and>
     run_calls (\<lambda>c a. Some (meaning c a)) cs (abs d) = Some (rs, abs d')"
  using loose.run_allowed run_exact by blast

end

lemma dict_call_step:
  assumes ok: "dict_ok h (Suc n) dt"
  shows "\<exists>r dt'. dict_call h c dt = Some (r, dt') \<and> dict_ok h n dt' \<and> map_call c (dict_abs dt) r (dict_abs dt')"
proof (cases c)
  case (Find_key key)
  obtain r dt' where f: "dict_find h dt key = (r, dt')" by fastforce
  show ?thesis using dict_find_held [OF ok f] dict_ok_mono [of h "Suc n" dt' n]
    by (simp add: Find_key f dict_abs_def searched_def)
next
  case (Add key v)
  obtain dt' where a: "dict_add h dt key v = Some (dict_map dt key = None, dt')" "dict_ok h n dt'"
    "dict_map dt' = (if dict_map dt key = None then (dict_map dt)(key \<mapsto> v) else dict_map dt)"
    by (rule dict_add_ok [OF ok])
  then show ?thesis using dict_add_held [OF ok a(1)]
    by (cases "dict_map dt key") (auto simp: Add dict_abs_def searched_def)
next
  case (Replace key v)
  obtain dt' where r: "dict_replace h dt key v = Some (if dict_map dt key = None then 1 else 0, dt')" "dict_ok h n dt'"
    "dict_map dt' = (dict_map dt)(key \<mapsto> v)"
    by (rule dict_replace_ok [OF ok])
  then show ?thesis using dict_replace_held [OF ok r(1)] by (auto simp: Replace dict_abs_def searched_def)
next
  case (Delete key)
  obtain r dt' where d: "dict_delete h dt key = (r, dt')" "dict_ok h (Suc n) dt'" "dict_map dt' = (dict_map dt)(key := None)"
    by (rule dict_delete_ok [OF ok, of key])
  then show ?thesis using dict_delete_held [OF ok d(1)] dict_ok_mono [of h "Suc n" dt' n] by (simp add: Delete dict_abs_def)
next
  case Iterate
  have "map fst (map (\<lambda>(k, v, n). (k, v)) (dict_entries dt)) = map fst (dict_entries dt)" by (simp add: case_prod_unfold)
  then have "distinct (map fst (map (\<lambda>(k, v, n). (k, v)) (dict_entries dt)))" using dict_ok_distinct [OF ok] by (simp only:)
  then show ?thesis using dict_ok_mono [OF ok, of n]
    by (simp add: Iterate dict_iterate_entries [OF ok] dict_abs_def dict_held_def)
next
  case Clear
  have "dict_ok h n dt" using dict_ok_mono [OF ok, of n] by simp
  from dict_clear_ok [OF this] dict_clear_held [OF this] show ?thesis by (simp add: Clear dict_abs_def)
next
  case Mark_clear
  have "dict_held (dict_mark_clear dt) = dict_held dt" by (simp add: dict_held_def dict_mark_clear_def dict_entries_def)
  then show ?thesis using dict_mark_clear_ok [OF ok] by (simp add: Mark_clear dict_abs_def)
qed

interpretation dict: loose_simulation "dict_call h" map_call "dict_ok h" dict_abs for h
  by unfold_locales (rule dict_call_step)

text \<open>Without marked entries, what is held is the map.\<close>

lemma unmarked_searched: "searched key (m, m) H \<Longrightarrow> H = m"
  by (auto simp: searched_def intro: map_le_antisym)

lemma searched_key: "searched key D H \<Longrightarrow> H key = fst D key"
  by (simp add: searched_def)

lemma unmarked_meaning:
  "\<lbrakk>run_meanings map_call cs (m, m) rs D; Mark_clear \<notin> set cs\<rbrakk> \<Longrightarrow> snd D = fst D"
proof (induction cs arbitrary: m rs)
  case (Cons c cs)
  then obtain r rs1 D1 where d: "map_call c (m, m) r D1" "run_meanings map_call cs D1 rs1 D" by auto
  have "snd D1 = fst D1"
    using d(1) Cons.prems(2) by (cases c) (auto dest: unmarked_searched split: option.splits)
  then have "D1 = (fst D1, fst D1)" by (simp add: prod_eq_iff)
  then show ?case using Cons.IH [of "fst D1" rs1] d(2) Cons.prems(2) by (metis list.set_intros(2))
qed simp

text \<open>
  C38. A dictionary that was created with a size of at most 2^29 answers any sequence of fewer than
  2^30 calls, loops over it included, as the finite map it stands for does, whatever its hash
  function: expansions and chains are not visible, and every call returns. The one thing that shows
  is \<^verbatim>\<open>dict_mark_clear\<close>: searches and additions treat marked entries as gone, but a
  deletion still finds them and reports 1, and a loop still yields them, until a search has dropped
  them. Without that call the dictionary holds exactly its map at all times.
\<close>

theorem dict_refines_map:
  fixes h :: "'k \<Rightarrow> u32" and cs :: "('k, 'v) dict_request list"
  assumes "2 \<le> k" "k \<le> 29" "length cs < 2 ^ 30"
  shows "\<exists>dt dt' rs. dict_create (2 ^ k) = Some dt \<and> run_calls (dict_call h) cs dt = Some (rs, dt') \<and>
    run_meanings map_call cs (Map.empty, Map.empty) rs (dict_abs dt') \<and>
    (Mark_clear \<notin> set cs \<longrightarrow> dict_held dt' = dict_map dt')"
proof -
  have "size_ok (2 ^ k)" using assms by (auto simp: size_ok_def)
  then obtain dt :: "('k, 'v) dict" where dt: "dict_create (2 ^ k) = Some dt" "dict_ok h (length cs) dt" "dict_map dt = Map.empty"
    "dict_held dt = Map.empty"
    by (rule dict_create_ok [OF _ assms(3), of _ h])
  from dict.run_allowed [OF dt(2)] obtain rs dt' where r: "run_calls (dict_call h) cs dt = Some (rs, dt')"
    "run_meanings map_call cs (Map.empty, Map.empty) rs (dict_abs dt')"
    by (auto simp: dict_abs_def dt(3,4))
  then show ?thesis using dt(1) unmarked_meaning [OF r(2)] by (auto simp: dict_abs_def)
qed

lemma dict_refines_map_witness:
  "\<exists>dt dt' rs. dict_create (2 ^ 2) = Some dt \<and>
    run_calls (dict_call dict_generic_hash_function)
      [Add [1, 2] True, Iterate, Mark_clear, Add [1, 2] False, Find_key [1, 2], Mark_clear, Delete [1, 2]] dt = Some (rs, dt') \<and>
    rs = [Status 1, Entries [([1, 2], True)], Nothing, Status 1, Found (Some False), Nothing, Status 1] \<and> dict_map dt' = Map.empty"
proof -
  let ?cs = "[Add [1, 2] True, Iterate, Mark_clear, Add [1, 2] False, Find_key [1, 2], Mark_clear, Delete [1, 2 :: u8]]"
  obtain cs where cs: "cs = ?cs" by simp
  then have "length cs < 2 ^ 30" by simp
  from dict_refines_map [OF _ _ this, of 2 dict_generic_hash_function] obtain dt dt' rs where
    r: "dict_create (2 ^ 2) = Some dt" "run_calls (dict_call dict_generic_hash_function) cs dt = Some (rs, dt')" and
    m: "run_meanings map_call cs (Map.empty, Map.empty) rs (dict_abs dt')" by auto
  have one: "es = [([1, 2], True)]" if "distinct (map fst es)" "map_of es = [[1, 2 :: u8] \<mapsto> True]" for es
  proof -
    have "fst ` set es = {[1, 2]}" using that(2) dom_map_of_conv_image_fst [of es] by simp
    moreover have "length es = card (fst ` set es)" using that(1) by (metis distinct_card length_map set_map)
    ultimately obtain e where "es = [e]" by (auto simp: length_Suc_conv)
    then show ?thesis using that(2) by (cases e) (auto dest: fun_cong [where x = "[1, 2]"] split: if_splits)
  qed
  have a: "rs = [Status 1, Entries [([1, 2], True)], Nothing, Status 1, Found (Some False), Nothing, Status 1] \<and> dict_map dt' = Map.empty"
    using m unfolding cs by (auto simp: dict_abs_def dest!: unmarked_searched one dest: searched_key)
  show ?thesis using r a unfolding cs by blast
qed

text \<open>
  For a size above \<open>2 ^ 31\<close> no power of two is large enough: the loop of \<^verbatim>\<open>dict_next_power\<close>
  multiplies until it reaches 0 and stays there.
\<close>

lemma next_power_from_0: "sz \<noteq> 0 \<Longrightarrow> next_power_from 0 sz = None"
proof -
  have "\<And>r. next_power_from 0 sz = Some r \<Longrightarrow> sz \<noteq> 0 \<Longrightarrow> False"
    by (rule next_power_from.raw_induct [where P = "\<lambda>x y _. x = 0 \<longrightarrow> y \<noteq> 0 \<longrightarrow> False", rule_format])
      (auto split: if_splits)
  then show "sz \<noteq> 0 \<Longrightarrow> next_power_from 0 sz = None" by (cases "next_power_from 0 sz") auto
qed

lemma dict_create_hangs:
  assumes "(2::u32) ^ 31 < sz"
  shows "dict_create sz = (None :: ('k, 'v) dict option)"
proof -
  have "next_power_from (2 ^ j) sz = None" if "j \<le> 32" for j
    using that
  proof (induction "32 - j" arbitrary: j)
    case 0
    then have "j = 32" by simp
    then have "(2::u32) ^ j = 0" using word_exp_length_eq_0 [where 'a = 32] by simp
    then show ?case using next_power_from_0 [of sz] assms by (metis word_not_simps(1))
  next
    case (Suc d)
    then have "(2::nat) ^ j \<le> 2 ^ 31" by (intro power_increasing) auto
    then have "(2::u32) ^ j \<le> 2 ^ 31"
      using Suc unat_two_power [of j] unat_two_power [of 31] by (simp only: word_le_nat_alt)
    then have "\<not> sz \<le> 2 ^ j" using assms by (simp add: not_le)
    moreover have "next_power_from (2 ^ Suc j) sz = None" using Suc by (intro Suc.hyps) auto
    ultimately show ?case by (subst next_power_from.simps) (simp add: mult.commute)
  qed
  from this [of 2] show ?thesis by (simp add: dict_create_def dict_next_power_def)
qed

end
