(* ===== verification/State_Table.thy ===== *)
theory State_Table
  imports Dict
begin

text \<open>
  \<^verbatim>\<open>network/nw_state.c\<close>: the table of requests a server waits for. An entry has an id of 32
  bits, by which the answer finds it, and a timer; when the timer fires, the owner's
  \<^verbatim>\<open>on_timeout\<close> is called and the entry removed. The chains of the table are those of
  \<open>Dict\<close> for keys that are their own hash; the timers of libev are the environment's. The other
  theories use a table as a map with a counter, \<open>pending\<close>, which the last section justifies.
\<close>

section \<open>The table\<close>

record 'a nw_state =
  nst_table :: "(u32 \<times> 'a) list list"
  nst_size :: u32
  nst_mask :: u32
  nst_used :: u32
  nst_id_start :: u32

definition NW_STATE_HASH_TABLE_INIT_SIZE :: u32 where "NW_STATE_HASH_TABLE_INIT_SIZE = 64"

definition nw_state_create :: "'a nw_state" where
  "nw_state_create = \<lparr>nst_table = replicate (unat NW_STATE_HASH_TABLE_INIT_SIZE) [],
     nst_size = NW_STATE_HASH_TABLE_INIT_SIZE, nst_mask = NW_STATE_HASH_TABLE_INIT_SIZE - 1, nst_used = 0, nst_id_start = 0\<rparr>"

text \<open>The chain is walked to the first entry with the id.\<close>

definition nw_state_get :: "'a nw_state \<Rightarrow> u32 \<Rightarrow> 'a option" where
  "nw_state_get st id' = map_of (nst_table st ! bucket id (nst_mask st) id') id'"

definition expand_if_needed :: "'a nw_state \<Rightarrow> 'a nw_state" where
  "expand_if_needed st =
     (if nst_used st < nst_size st * 4 then st
      else let new_table_size = nst_size st * 4; new_table_mask = new_table_size - 1
        in st\<lparr>nst_table := fold (fold (push_entry id new_table_mask)) (nst_table st) (replicate (unat new_table_size) []),
             nst_size := new_table_size, nst_mask := new_table_mask\<rparr>)"

text \<open>\<open>None\<close>: the search for an id never ends.\<close>

partial_function (option) get_available_id :: "(u32 \<Rightarrow> bool) \<Rightarrow> u32 \<Rightarrow> u32 option" where
  "get_available_id taken id_start =
     (let id_start = id_start + 1; id_start = (if id_start = 0 then id_start + 1 else id_start)
      in if taken id_start then get_available_id taken id_start else Some id_start)"

text \<open>
  The outer option: the call returns; the inner one: NULL, or the id of the new entry. The caller
  fills in the data at once, so they are an argument here.
\<close>

definition nw_state_add :: "u32 \<Rightarrow> 'a \<Rightarrow> 'a nw_state \<Rightarrow> (u32 option \<times> 'a nw_state) option" where
  "nw_state_add id' data st =
     (if id' \<noteq> 0 \<and> nw_state_get st id' \<noteq> None then Some (None, st)
      else if nst_used st = - 1 then Some (None, st)
      else (case (if id' \<noteq> 0 then Some (id', st)
                  else map_option (\<lambda>i. (i, st\<lparr>nst_id_start := i\<rparr>))
                    (get_available_id (\<lambda>i. nw_state_get st i \<noteq> None) (nst_id_start st))) of
              None \<Rightarrow> None
            | Some (i, st) \<Rightarrow>
                let st = expand_if_needed st
                in Some (Some i, st\<lparr>nst_table := push_entry id (nst_mask st) (i, data) (nst_table st), nst_used := nst_used st + 1\<rparr>)))"

fun chain_remove :: "u32 \<Rightarrow> (u32 \<times> 'a) list \<Rightarrow> (u32 \<times> 'a) list option" where
  "chain_remove i [] = None"
| "chain_remove i ((j, data) # chain) = (if j = i then Some chain else map_option (Cons (j, data)) (chain_remove i chain))"

definition state_remove :: "u32 \<Rightarrow> 'a nw_state \<Rightarrow> 'a nw_state" where
  "state_remove i st =
     (let k = bucket id (nst_mask st) i in
      case chain_remove i (nst_table st ! k) of
        None \<Rightarrow> st
      | Some chain \<Rightarrow> st\<lparr>nst_table := (nst_table st)[k := chain], nst_used := nst_used st - 1\<rparr>)"

definition nw_state_del :: "u32 \<Rightarrow> 'a nw_state \<Rightarrow> int \<times> 'a nw_state" where
  "nw_state_del i st = (if nw_state_get st i = None then (- 1, st) else (0, state_remove i st))"

definition nw_state_count :: "'a nw_state \<Rightarrow> nat" where
  "nw_state_count st = unat (nst_used st)"

text \<open>The timer of an entry: the owner sees its data, then the entry is gone.\<close>

definition on_timeout :: "u32 \<Rightarrow> 'a nw_state \<Rightarrow> 'a option \<times> 'a nw_state" where
  "on_timeout i st = (nw_state_get st i, state_remove i st)"

section \<open>Finding an id\<close>

lemma get_available_id_free:
  assumes "t \<noteq> 0" "\<not> taken t"
  shows "\<exists>i. get_available_id taken start = Some i \<and> i \<noteq> 0 \<and> \<not> taken i"
proof (induction "unat (t - start - 1)" arbitrary: start rule: less_induct)
  case less
  define nxt where "nxt = (if start + 1 = 0 then 1 else start + 1)"
  have rec: "get_available_id taken start = (if taken nxt then get_available_id taken nxt else Some nxt)"
    by (subst get_available_id.simps) (simp add: Let_def nxt_def)
  have nz: "nxt \<noteq> 0" by (simp add: nxt_def)
  show ?case
  proof (cases "taken nxt")
    case False
    then show ?thesis using rec nz by simp
  next
    case True
    then have "t \<noteq> nxt" using assms(2) by auto
    have "unat (t - nxt - 1) < unat (t - start - 1)"
    proof (cases "start + 1 = 0")
      case False
      then have n: "nxt = start + 1" by (simp add: nxt_def)
      then have "t - start - 1 \<noteq> 0" using \<open>t \<noteq> nxt\<close> by (simp add: algebra_simps)
      then show ?thesis unfolding n using unat_minus_one [of "t - start - 1"] unat_gt_0 [of "t - start - 1"] by (simp add: algebra_simps)
    next
      case True
      then have n: "nxt = 1" and s: "start = - 1" by (simp_all add: nxt_def eq_neg_iff_add_eq_0)
      have "t - 1 \<noteq> 0" using \<open>t \<noteq> nxt\<close> n by simp
      then have "unat (t - 1 - 1) < unat (t - 1)" using unat_minus_one [of "t - 1"] unat_gt_0 [of "t - 1"] by simp
      also have "\<dots> < unat t" using unat_minus_one [OF assms(1)] unat_gt_0 [of t] assms(1) by simp
      finally show ?thesis by (simp add: n s)
    qed
    from less.hyps [OF this] show ?thesis using rec True by simp
  qed
qed

lemma free_id_exists:
  assumes "finite {i. taken i}" "card {i. taken i} < 2 ^ 32 - 1"
  shows "\<exists>t :: u32. t \<noteq> 0 \<and> \<not> taken t"
proof (rule ccontr)
  assume "\<not> ?thesis"
  then have "UNIV - {0 :: u32} \<subseteq> {i. taken i}" by auto
  then have "card (UNIV - {0 :: u32}) \<le> card {i. taken i}" using assms(1) by (rule card_mono [rotated])
  moreover have "card (UNIV :: u32 set) = 2 ^ 32" by (simp add: card_word)
  ultimately show False using assms(2) by (simp add: card_Diff_singleton)
qed

section \<open>What a table stands for\<close>

definition state_map :: "'a nw_state \<Rightarrow> u32 \<rightharpoonup> 'a" where
  "state_map st = map_of (concat (nst_table st))"

text \<open>A well-formed table with room for \<open>n\<close> more entries.\<close>

definition state_ok :: "nat \<Rightarrow> 'a nw_state \<Rightarrow> bool" where
  "state_ok n st \<longleftrightarrow> table_ok id (nst_mask st) (nst_table st) \<and> size_ok (nst_size st) \<and> nst_mask st = nst_size st - 1 \<and>
     unat (nst_used st) = length (concat (nst_table st)) \<and> length (concat (nst_table st)) + n < 2 ^ 30"

lemma state_okD:
  assumes "state_ok n st"
  shows "table_ok id (nst_mask st) (nst_table st)" "size_ok (nst_size st)" "nst_mask st = nst_size st - 1"
    "unat (nst_used st) = length (concat (nst_table st))" "length (concat (nst_table st)) + n < 2 ^ 30"
    "distinct (map fst (concat (nst_table st)))"
proof -
  show t: "table_ok id (nst_mask st) (nst_table st)" using assms unfolding state_ok_def by (elim conjE)
  show "size_ok (nst_size st)" "nst_mask st = nst_size st - 1" "unat (nst_used st) = length (concat (nst_table st))"
    "length (concat (nst_table st)) + n < 2 ^ 30"
    using assms unfolding state_ok_def by simp_all
  show "distinct (map fst (concat (nst_table st)))" using t by (simp add: table_ok_def)
qed

lemma state_map_eq: "state_ok n st \<Longrightarrow> state_map st i = Some data \<longleftrightarrow> (i, data) \<in> set (concat (nst_table st))"
  unfolding state_map_def by (rule map_of_eq_Some_iff) (rule state_okD(6))

lemma state_get_map:
  assumes "state_ok n st"
  shows "nw_state_get st i = state_map st i"
proof (rule option_eqI_Some)
  fix data
  let ?k = "bucket id (nst_mask st) i"
  note T = state_okD(1) [OF assms]
  have "distinct (map fst (nst_table st ! ?k))" by (rule table_chain_distinct [OF T bucket_less [OF T]])
  then have "nw_state_get st i = Some data \<longleftrightarrow> (i, data) \<in> set (nst_table st ! ?k)"
    unfolding nw_state_get_def by (rule map_of_eq_Some_iff)
  then show "nw_state_get st i = Some data \<longleftrightarrow> state_map st i = Some data"
    unfolding state_map_eq [OF assms] using table_chain_in [OF T] by simp
qed

lemma fold_concat_folds: "fold f (concat xss) a = fold (fold f) xss a"
  by (induction xss arbitrary: a) simp_all

lemma map_of_mset:
  assumes "mset xs = mset ys" "distinct (map fst xs)"
  shows "map_of xs = map_of ys"
  using assms distinct_keys_mset [OF assms(1)] mset_eq_setD [OF assms(1)] by (simp add: map_of_inject_set)

lemma expand_ok:
  assumes "state_ok n st"
  shows "state_ok n (expand_if_needed st) \<and> state_map (expand_if_needed st) = state_map st \<and>
    nst_used (expand_if_needed st) = nst_used st \<and> nst_id_start (expand_if_needed st) = nst_id_start st"
proof (cases "nst_used st < nst_size st * 4")
  case True
  then show ?thesis using assms by (simp add: expand_if_needed_def)
next
  case False
  note D = state_okD [OF assms]
  let ?sz = "nst_size st * 4"
  have "unat (nst_used st) < 2 ^ 30" using D(4,5) by simp
  then have sz: "size_ok ?sz" using size_ok_times_four [OF D(2)] False by (simp add: not_less)
  have f: "fold (fold (push_entry id (?sz - 1))) (nst_table st) (replicate (unat ?sz) []) =
      fold (push_entry id (?sz - 1)) (concat (nst_table st)) (replicate (unat ?sz) [])"
    by (simp add: fold_concat_folds)
  have F: "table_ok id (?sz - 1) (fold (push_entry id (?sz - 1)) (concat (nst_table st)) (replicate (unat ?sz) []))"
    "mset (concat (fold (push_entry id (?sz - 1)) (concat (nst_table st)) (replicate (unat ?sz) []))) = mset (concat (nst_table st))"
    using fold_push_entry [OF table_ok_replicate [OF sz] D(6), of id] by simp_all
  have l: "length (concat (fold (push_entry id (?sz - 1)) (concat (nst_table st)) (replicate (unat ?sz) []))) =
      length (concat (nst_table st))"
    using F(2) by (metis size_mset)
  have "state_map (expand_if_needed st) = state_map st"
    using map_of_mset [OF F(2) [symmetric] D(6)] False by (simp add: expand_if_needed_def Let_def state_map_def f)
  then show ?thesis
    using False sz F D(4,5) l by (simp add: expand_if_needed_def Let_def state_ok_def f)
qed

lemma push_state_ok:
  fixes data :: 'a
  assumes "state_ok (Suc n) st" "state_map st i = None"
  defines "st' \<equiv> st\<lparr>nst_table := push_entry id (nst_mask st) (i, data) (nst_table st), nst_used := nst_used st + 1\<rparr>"
  shows "state_ok n st' \<and> state_map st' = (state_map st)(i \<mapsto> data)"
proof -
  note D = state_okD [OF assms(1)]
  let ?T = "push_entry id (nst_mask st) (i, data) (nst_table st)"
  have new: "fst (i, data) \<notin> fst ` set (concat (nst_table st))"
    using assms(2) by (auto simp: state_map_def map_of_eq_None_iff)
  have m: "mset (concat ?T) = add_mset (i, data) (mset (concat (nst_table st)))"
    by (rule mset_push_entry) (simp add: bucket_less [OF D(1)])
  have T: "table_ok id (nst_mask st) ?T" by (rule table_ok_push [OF D(1) new])
  have l: "length (concat ?T) = Suc (length (concat (nst_table st)))" using m by (metis size_add_mset size_mset)
  have u: "unat (nst_used st + 1) = Suc (unat (nst_used st))"
    using D(4,5) by (simp add: unat_word_ariths)
  have "map_of (concat ?T) = map_of ((i, data) # concat (nst_table st))"
    using T m by (intro map_of_mset) (simp_all add: table_ok_def)
  then show ?thesis using D T l u by (simp add: st'_def state_ok_def state_map_def)
qed

text \<open>Removal: the entry leaves its chain.\<close>

lemma chain_remove_None: "chain_remove i chain = None \<longleftrightarrow> i \<notin> fst ` set chain"
  by (induction chain) (auto split: if_splits)

lemma chain_remove_Some: "chain_remove i chain = Some chain' \<Longrightarrow> \<exists>data. mset chain = add_mset (i, data) (mset chain')"
  by (induction chain arbitrary: chain') (auto split: if_splits)

lemma state_remove_ok:
  assumes ok: "state_ok n st"
  shows "state_ok n (state_remove i st) \<and> state_map (state_remove i st) = (state_map st)(i := None) \<and>
    nst_id_start (state_remove i st) = nst_id_start st"
proof -
  note D = state_okD [OF ok]
  let ?k = "bucket id (nst_mask st) i"
  have k: "?k < length (nst_table st)" using D(1) by simp
  show ?thesis
  proof (cases "chain_remove i (nst_table st ! ?k)")
    case None
    then have "nw_state_get st i = None" by (simp add: nw_state_get_def map_of_eq_None_iff chain_remove_None)
    then have "state_map st i = None" by (simp add: state_get_map [OF ok])
    then show ?thesis using ok None by (simp add: state_remove_def Let_def fun_upd_idem)
  next
    case (Some chain)
    then obtain data where m: "mset (nst_table st ! ?k) = add_mset (i, data) (mset chain)"
      using chain_remove_Some by blast
    let ?T = "(nst_table st)[?k := chain]"
    have mT: "mset (concat (nst_table st)) = add_mset (i, data) (mset (concat ?T))"
      using mset_concat_update [OF k, of chain] m by simp
    have T: "table_ok id (nst_mask st) ?T" using D(1) k by (rule table_ok_subchain) (simp add: m)
    have l: "length (concat (nst_table st)) = Suc (length (concat ?T))" using mT by (metis size_add_mset size_mset)
    have u: "unat (nst_used st - 1) = length (concat ?T)"
      using D(4) l unat_minus_one [of "nst_used st"] by (cases "nst_used st = 0") auto
    have e: "map_of (concat (nst_table st)) = map_of ((i, data) # concat ?T)"
      using mT D(6) by (intro map_of_mset) simp_all
    have "distinct (map fst ((i, data) # concat ?T))"
      using distinct_keys_mset [of "concat (nst_table st)" "(i, data) # concat ?T"] mT D(6) by simp
    then have "map_of (concat ?T) i = None" by (simp add: map_of_eq_None_iff)
    then have "map_of (concat ?T) = (map_of (concat (nst_table st)))(i := None)" unfolding e by (simp add: fun_upd_idem)
    then show ?thesis using D T l u Some by (simp add: state_remove_def Let_def state_ok_def state_map_def)
  qed
qed

lemma finite_state_ids: "finite {i. state_map st i \<noteq> None}"
  "card {i. state_map st i \<noteq> None} \<le> length (concat (nst_table st))"
proof -
  have e: "{i. state_map st i \<noteq> None} = fst ` set (concat (nst_table st))"
    unfolding state_map_def by (auto simp only: map_of_eq_None_iff)
  show "finite {i. state_map st i \<noteq> None}" unfolding e by simp
  show "card {i. state_map st i \<noteq> None} \<le> length (concat (nst_table st))"
    unfolding e by (rule order_trans [OF card_image_le card_length]) simp
qed

section \<open>What its users see\<close>

text \<open>A map, and the last id that was given out.\<close>

record 'a pending =
  pn_map :: "u32 \<rightharpoonup> 'a"
  pn_start :: u32

definition no_pending :: "'a pending" where
  "no_pending = \<lparr>pn_map = Map.empty, pn_start = 0\<rparr>"

text \<open>A new entry under a fresh id, the next that is free; \<open>None\<close>: there is none.\<close>

definition pending_new :: "'a \<Rightarrow> 'a pending \<Rightarrow> (u32 \<times> 'a pending) option" where
  "pending_new data p =
     map_option (\<lambda>i. (i, \<lparr>pn_map = (pn_map p)(i \<mapsto> data), pn_start = i\<rparr>))
       (get_available_id (\<lambda>i. pn_map p i \<noteq> None) (pn_start p))"

definition pending_del :: "u32 \<Rightarrow> 'a pending \<Rightarrow> 'a pending" where
  "pending_del i p = p\<lparr>pn_map := (pn_map p)(i := None)\<rparr>"

datatype 'a state_request = Add_entry u32 'a | Get_entry u32 | Del_entry u32 | Fire u32

datatype 'a state_answer = Id "u32 option" | Data "'a option" | Return int | No_answer

fun state_call :: "'a state_request \<Rightarrow> 'a nw_state \<Rightarrow> ('a state_answer \<times> 'a nw_state) option" where
  "state_call (Add_entry i data) st = map_option (map_prod Id id) (nw_state_add i data st)"
| "state_call (Get_entry i) st = Some (Data (nw_state_get st i), st)"
| "state_call (Del_entry i) st = Some (map_prod Return id (nw_state_del i st))"
| "state_call (Fire i) st = Some (map_prod Data id (on_timeout i st))"

fun pending_call :: "'a state_request \<Rightarrow> 'a pending \<Rightarrow> 'a state_answer \<times> 'a pending" where
  "pending_call (Add_entry i data) p =
     (if i = 0 then (case pending_new data p of None \<Rightarrow> (No_answer, p) | Some (i, p) \<Rightarrow> (Id (Some i), p))
      else if pn_map p i = None then (Id (Some i), p\<lparr>pn_map := (pn_map p)(i \<mapsto> data)\<rparr>)
      else (Id None, p))"
| "pending_call (Get_entry i) p = (Data (pn_map p i), p)"
| "pending_call (Del_entry i) p = (Return (if pn_map p i = None then - 1 else 0), pending_del i p)"
| "pending_call (Fire i) p = (Data (pn_map p i), pending_del i p)"

definition state_abs :: "'a nw_state \<Rightarrow> 'a pending" where
  "state_abs st = \<lparr>pn_map = state_map st, pn_start = nst_id_start st\<rparr>"

lemma state_ok_mono: "state_ok n st \<Longrightarrow> m \<le> n \<Longrightarrow> state_ok m st"
  by (auto simp: state_ok_def)

lemma state_start [simp]:
  "state_ok n (st\<lparr>nst_id_start := j\<rparr>) = state_ok n st" "state_map (st\<lparr>nst_id_start := j\<rparr>) = state_map st"
  unfolding state_ok_def state_map_def by (cases st; simp only: nw_state.select_convs nw_state.update_convs)+

lemma state_add_entry:
  fixes data :: 'a
  assumes ok: "state_ok (Suc n) st" and free: "state_map st i = None"
  defines "st' \<equiv> (let st = expand_if_needed st
      in st\<lparr>nst_table := push_entry id (nst_mask st) (i, data) (nst_table st), nst_used := nst_used st + 1\<rparr>)"
  shows "state_ok n st' \<and> state_abs st' = \<lparr>pn_map = (state_map st)(i \<mapsto> data), pn_start = nst_id_start st\<rparr>"
proof -
  note E = expand_ok [OF ok]
  have "state_map (expand_if_needed st) i = None" using E free by simp
  from push_state_ok [OF _ this, of n data] E show ?thesis by (simp add: st'_def Let_def state_abs_def)
qed

lemma state_new_id:
  assumes ok: "state_ok n st"
  obtains i where "get_available_id (\<lambda>i. nw_state_get st i \<noteq> None) (nst_id_start st) = Some i"
    "get_available_id (\<lambda>i. state_map st i \<noteq> None) (nst_id_start st) = Some i" "i \<noteq> 0" "state_map st i = None"
proof -
  have "card {i. state_map st i \<noteq> None} < 2 ^ 32 - 1"
    using finite_state_ids(2) [of st] state_okD(5) [OF ok] by simp
  then obtain t where "t \<noteq> 0" "state_map st t = None" using free_id_exists [OF finite_state_ids(1)] by blast
  then obtain i where "get_available_id (\<lambda>i. state_map st i \<noteq> None) (nst_id_start st) = Some i" "i \<noteq> 0" "state_map st i = None"
    using get_available_id_free [of t "\<lambda>i. state_map st i \<noteq> None"] by blast
  then show thesis using that by (simp add: state_get_map [OF ok])
qed

lemma nw_state_add_step:
  assumes ok: "state_ok (Suc n) st"
  shows "\<exists>r st'. nw_state_add i data st = Some (r, st') \<and> state_ok n st' \<and>
    pending_call (Add_entry i data) (state_abs st) = (Id r, state_abs st')"
proof -
  have nofull: "nst_used st \<noteq> - 1"
  proof
    assume "nst_used st = - 1"
    then have "nst_used st = 4294967295" by simp
    then have "unat (nst_used st) = 2 ^ 32 - 1" by (simp only: unat_numeral) simp
    then show False using state_okD(4,5) [OF ok] by simp
  qed
  show ?thesis
  proof (cases "i = 0")
    case True
    obtain j where j: "get_available_id (\<lambda>i. nw_state_get st i \<noteq> None) (nst_id_start st) = Some j"
      "get_available_id (\<lambda>i. state_map st i \<noteq> None) (nst_id_start st) = Some j" "j \<noteq> 0" "state_map st j = None"
      by (rule state_new_id [OF ok])
    have "state_ok (Suc n) (st\<lparr>nst_id_start := j\<rparr>)" "state_map (st\<lparr>nst_id_start := j\<rparr>) j = None"
      using ok j(4) by simp_all
    from state_add_entry [OF this, of data] show ?thesis
      using True j nofull by (auto simp: nw_state_add_def Let_def pending_new_def state_abs_def state_map_def)
  next
    case False
    show ?thesis
    proof (cases "state_map st i")
      case None
      from state_add_entry [OF ok this, of data] show ?thesis
        using False None nofull by (auto simp: nw_state_add_def Let_def state_get_map [OF ok] state_abs_def)
    next
      case (Some w)
      then show ?thesis using False state_ok_mono [OF ok, of n] by (simp add: nw_state_add_def state_get_map [OF ok] state_abs_def)
    qed
  qed
qed

lemma state_call_step:
  assumes ok: "state_ok (Suc n) st"
  shows "\<exists>r st'. state_call c st = Some (r, st') \<and> state_ok n st' \<and> pending_call c (state_abs st) = (r, state_abs st')"
proof (cases c)
  case (Add_entry i data)
  then show ?thesis using nw_state_add_step [OF ok, of i data] by auto
next
  case (Get_entry i)
  then show ?thesis using state_ok_mono [OF ok, of n] by (simp add: state_get_map [OF ok] state_abs_def)
next
  case (Del_entry i)
  then show ?thesis using state_ok_mono [OF ok, of n] state_remove_ok [OF state_ok_mono [OF ok, of n], of i]
    by (simp add: nw_state_del_def state_get_map [OF ok] state_abs_def pending_del_def fun_upd_idem)
next
  case (Fire i)
  then show ?thesis using state_remove_ok [OF state_ok_mono [OF ok, of n], of i]
    by (simp add: on_timeout_def state_get_map [OF ok] state_abs_def pending_del_def)
qed

interpretation state_table: simulation state_call pending_call state_ok state_abs
  by unfold_locales (rule state_call_step)

lemma nw_state_create_ok: "n < 2 ^ 30 \<Longrightarrow> state_ok n nw_state_create \<and> state_abs nw_state_create = no_pending"
proof -
  assume n: "n < 2 ^ 30"
  have s: "size_ok NW_STATE_HASH_TABLE_INIT_SIZE"
    unfolding size_ok_def NW_STATE_HASH_TABLE_INIT_SIZE_def by (rule bexI [of _ 6]) simp_all
  show ?thesis using table_ok_replicate [OF s, of id] n s
    by (simp add: nw_state_create_def state_ok_def state_abs_def state_map_def no_pending_def)
qed

text \<open>
  C23. A table of pending requests that was just created answers any sequence of fewer than 2^30
  additions, lookups, deletions and timeouts as a map with a rotating counter does: every call
  returns, also the search for a free id, and the growth of the table does not show.
\<close>

theorem state_refines_pending:
  fixes cs :: "'a state_request list"
  assumes "length cs < 2 ^ 30"
  shows "\<exists>rs st. run_calls state_call cs nw_state_create = Some (rs, st) \<and>
    run_calls (\<lambda>c p. Some (pending_call c p)) cs no_pending = Some (rs, state_abs st)"
proof -
  have c: "state_ok (length cs) (nw_state_create :: 'a nw_state)" "state_abs (nw_state_create :: 'a nw_state) = no_pending"
    using nw_state_create_ok [OF assms] by (rule conjunct1, rule conjunct2)
  show ?thesis using state_table.run [OF c(1)] unfolding c(2) by blast
qed

lemma state_refines_pending_witness:
  "\<exists>rs st. run_calls state_call [Add_entry 7 True, Add_entry 7 False, Get_entry 7, Fire 7, Del_entry 7] nw_state_create = Some (rs, st) \<and>
    rs = [Id (Some 7), Id None, Data (Some True), Data (Some True), Return (- 1)] \<and> state_map st = Map.empty"
  using state_refines_pending [of "[Add_entry 7 True, Add_entry 7 False, Get_entry 7, Fire 7, Del_entry 7]"]
  by (auto simp: no_pending_def pending_del_def state_abs_def)

text \<open>An id that is given out is neither 0 nor in use.\<close>

lemma pending_new_fresh:
  "pending_new data p = Some (i, p') \<Longrightarrow> i \<noteq> 0 \<and> pn_map p i = None \<and> p' = \<lparr>pn_map = (pn_map p)(i \<mapsto> data), pn_start = i\<rparr>"
proof -
  have "\<And>r. get_available_id taken start = Some r \<Longrightarrow> r \<noteq> 0 \<and> \<not> taken r" for taken start
    by (rule get_available_id.raw_induct [where P = "\<lambda>t s r. r \<noteq> 0 \<and> \<not> t r"])
      (auto simp: Let_def split: if_splits)
  then have f: "get_available_id taken start = Some r \<Longrightarrow> r \<noteq> 0 \<and> \<not> taken r" for taken start r .
  show "pending_new data p = Some (i, p') \<Longrightarrow> ?thesis"
    unfolding pending_new_def by (auto dest!: f simp del: not_None_eq)
qed

end
