(* ===== verification/Kline.thy ===== *)
theory Kline
  imports Order "HOL-Library.Monad_Syntax" "HOL-Library.Multiset"
begin

text \<open>
  \<^verbatim>\<open>marketprice/mp_kline.c\<close>: candles. A candle sums up the deals of an interval: the
  prices of the first and the last, the highest and the lowest, and the sums of the amounts and of
  the money. The second half gives candles their meaning, as functions of a list of deals.
\<close>

section \<open>The operations\<close>

record 'd kline_info =
  k_open :: 'd
  k_close :: 'd
  k_high :: 'd
  k_low :: 'd
  k_volume :: 'd
  k_deal :: 'd

definition kline_info_new :: "'d mpd_ops \<Rightarrow> 'd \<Rightarrow> 'd kline_info" where
  "kline_info_new M price =
     \<lparr>k_open = price, k_close = price, k_high = price, k_low = price, k_volume = mpd_zero M, k_deal = mpd_zero M\<rparr>"

definition kline_info_update :: "'d mpd_ops \<Rightarrow> 'd kline_info \<Rightarrow> 'd \<Rightarrow> 'd \<Rightarrow> 'd kline_info" where
  "kline_info_update M info price amount =
     (let deal = mpd_mul M price amount;
          info = info\<lparr>k_close := price, k_volume := mpd_add M (k_volume info) amount, k_deal := mpd_add M (k_deal info) deal\<rparr>;
          info = (if mpd_cmp M price (k_high info) > 0 then info\<lparr>k_high := price\<rparr> else info)
      in if mpd_cmp M price (k_low info) < 0 then info\<lparr>k_low := price\<rparr> else info)"

definition kline_info_merge :: "'d mpd_ops \<Rightarrow> 'd kline_info \<Rightarrow> 'd kline_info \<Rightarrow> 'd kline_info" where
  "kline_info_merge M info upd =
     (let info = info\<lparr>k_close := k_close upd, k_volume := mpd_add M (k_volume info) (k_volume upd),
            k_deal := mpd_add M (k_deal info) (k_deal upd)\<rparr>;
          info = (if mpd_cmp M (k_high upd) (k_high info) > 0 then info\<lparr>k_high := k_high upd\<rparr> else info)
      in if mpd_cmp M (k_low upd) (k_low info) < 0 then info\<lparr>k_low := k_low upd\<rparr> else info)"

text \<open>An element of a candle's text: a decimal in a JSON string. A missing sixth element counts as zero.\<close>

definition kline_field :: "('d, 'j) env \<Rightarrow> 'j \<Rightarrow> nat \<Rightarrow> 'd option" where
  "kline_field E obj i = do {
     s \<leftarrow> json_string_value (json E) (json_array_get (json E) obj i);
     decimal (mpd E) s 0 }"

definition kline_from_str :: "('d, 'j) env \<Rightarrow> string \<Rightarrow> 'd kline_info option" where
  "kline_from_str E str = do {
     obj \<leftarrow> json_loadb (json E) str;
     if \<not> json_is_array (json E) obj \<or> json_array_size (json E) obj < 5 then None
     else do {
       open_price \<leftarrow> kline_field E obj 0;
       close_price \<leftarrow> kline_field E obj 1;
       high \<leftarrow> kline_field E obj 2;
       low \<leftarrow> kline_field E obj 3;
       volume \<leftarrow> kline_field E obj 4;
       deal \<leftarrow> (if json_array_size (json E) obj \<ge> 6 then kline_field E obj 5 else Some (mpd_zero (mpd E)));
       Some \<lparr>k_open = open_price, k_close = close_price, k_high = high, k_low = low, k_volume = volume, k_deal = deal\<rparr>
     }
   }"

definition kline_to_str :: "('d, 'j) env \<Rightarrow> 'd kline_info \<Rightarrow> string option" where
  "kline_to_str E info = json_dumps (json E) (json_array (json E)
     [json_mpd E (k_open info), json_mpd E (k_close info), json_mpd E (k_high info), json_mpd E (k_low info),
      json_mpd E (k_volume info), json_mpd E (k_deal info)]) 0"

section \<open>What a candle means\<close>

text \<open>
  The candle of a non-empty list of deals, given as prices and amounts. The definition takes the
  numbers as they are; \<open>kline_val\<close> is a candle of the code as numbers.
\<close>

definition candle :: "(rat \<times> rat) list \<Rightarrow> rat kline_info" where
  "candle ds = \<lparr>k_open = fst (hd ds), k_close = fst (last ds), k_high = Max (fst ` set ds), k_low = Min (fst ` set ds),
     k_volume = sum_list (map snd ds), k_deal = sum_list (map (\<lambda>(price, amount). price * amount) ds)\<rparr>"

definition kline_val :: "('d \<Rightarrow> rat) \<Rightarrow> 'd kline_info \<Rightarrow> rat kline_info" where
  "kline_val val k = \<lparr>k_open = val (k_open k), k_close = val (k_close k), k_high = val (k_high k), k_low = val (k_low k),
     k_volume = val (k_volume k), k_deal = val (k_deal k)\<rparr>"

definition kline_fin :: "('d \<Rightarrow> bool) \<Rightarrow> 'd kline_info \<Rightarrow> bool" where
  "kline_fin fin k \<longleftrightarrow> fin (k_open k) \<and> fin (k_close k) \<and> fin (k_high k) \<and> fin (k_low k) \<and>
     fin (k_volume k) \<and> fin (k_deal k)"

text \<open>The two operations on numbers.\<close>

definition put_deal :: "rat kline_info \<Rightarrow> rat \<Rightarrow> rat \<Rightarrow> rat kline_info" where
  "put_deal k price amount = k\<lparr>k_close := price, k_high := max (k_high k) price, k_low := min (k_low k) price,
     k_volume := k_volume k + amount, k_deal := k_deal k + price * amount\<rparr>"

definition join :: "rat kline_info \<Rightarrow> rat kline_info \<Rightarrow> rat kline_info" where
  "join k l = k\<lparr>k_close := k_close l, k_high := max (k_high k) (k_high l), k_low := min (k_low k) (k_low l),
     k_volume := k_volume k + k_volume l, k_deal := k_deal k + k_deal l\<rparr>"

definition flat :: "rat \<Rightarrow> rat kline_info" where
  "flat price = \<lparr>k_open = price, k_close = price, k_high = price, k_low = price, k_volume = 0, k_deal = 0\<rparr>"

lemma candle_snoc: "ds \<noteq> [] \<Longrightarrow> candle (ds @ [(price, amount)]) = put_deal (candle ds) price amount"
  by (simp add: candle_def put_deal_def max.commute min.commute)

lemma candle_single: "candle [(price, amount)] = put_deal (flat price) price amount"
  by (simp add: candle_def put_deal_def flat_def)

lemma candle_append: "ds \<noteq> [] \<Longrightarrow> es \<noteq> [] \<Longrightarrow> candle (ds @ es) = join (candle ds) (candle es)"
  by (simp add: candle_def join_def image_Un Max_Un Min_Un)

lemma join_flat: "ds \<noteq> [] \<Longrightarrow> join (flat (k_open (candle ds))) (candle ds) = candle ds"
proof -
  assume "ds \<noteq> []"
  then have "fst (hd ds) \<in> fst ` set ds" by simp
  then have "max (fst (hd ds)) (Max (fst ` set ds)) = Max (fst ` set ds)"
    "min (fst (hd ds)) (Min (fst ` set ds)) = Min (fst ` set ds)" by simp_all
  then show ?thesis by (simp add: join_def flat_def candle_def)
qed

text \<open>
  Deals whose sums stay within 34 digits at \<open>p\<close> decimals.
\<close>

definition deals_fit :: "int \<Rightarrow> (rat \<times> rat) list \<Rightarrow> bool" where
  "deals_fit p ds \<longleftrightarrow> (\<forall>(price, amount)\<in>set ds. 0 \<le> price \<and> 0 \<le> amount \<and> on_grid p amount \<and> on_grid p (price * amount)) \<and>
     fits p (sum_list (map snd ds)) \<and> fits p (sum_list (map (\<lambda>(price, amount). price * amount) ds))"

lemma on_grid_sum_list: "\<forall>x\<in>set xs. on_grid p x \<Longrightarrow> on_grid p (sum_list xs)"
  by (induction xs) (auto intro: on_grid_add)

lemma sum_list_subseq_le:
  fixes f :: "'a \<Rightarrow> rat"
  assumes "mset xs \<subseteq># mset ys" "\<forall>y\<in>set ys. 0 \<le> f y"
  shows "0 \<le> sum_list (map f xs) \<and> sum_list (map f xs) \<le> sum_list (map f ys)"
proof -
  obtain zs where "mset ys = mset (xs @ zs)" using assms(1) by (metis ex_mset mset_append subset_mset.le_iff_add)
  then have "sum_list (map f ys) = sum_list (map f (xs @ zs))" "set ys = set (xs @ zs)"
    by (metis mset_map sum_mset_sum_list, metis set_mset_mset)
  then show ?thesis using assms(2) by (auto intro!: sum_list_nonneg)
qed

text \<open>Part of the deals fit as well.\<close>

lemma deals_fit_mono:
  assumes "deals_fit p ys" "mset xs \<subseteq># mset ys"
  shows "deals_fit p xs"
proof -
  have s: "set xs \<subseteq> set ys" using assms(2) by (metis set_mset_mono set_mset_mset)
  note all = assms(1) [unfolded deals_fit_def, THEN conjunct1]
  have a: "\<forall>y\<in>set ys. 0 \<le> snd y" "\<forall>y\<in>set ys. 0 \<le> (case y of (price, amount) \<Rightarrow> price * amount)"
    using all by auto
  have g: "\<forall>x\<in>set xs. on_grid p (snd x)" "\<forall>x\<in>set xs. on_grid p (case x of (price, amount) \<Rightarrow> price * amount)"
    using all s by fastforce+
  have fits: "fits p (sum_list (map f xs))"
    if "fits p (sum_list (map f ys))" "\<forall>y\<in>set ys. 0 \<le> f y" "\<forall>x\<in>set xs. on_grid p (f x)" for f :: "rat \<times> rat \<Rightarrow> rat"
  proof (rule fits_le [OF that(1)])
    show "on_grid p (sum_list (map f xs))" using that(3) by (intro on_grid_sum_list) simp
    show "\<bar>sum_list (map f xs)\<bar> \<le> \<bar>sum_list (map f ys)\<bar>"
      using sum_list_subseq_le [OF assms(2) that(2)] by linarith
  qed
  have "fits p (sum_list (map snd xs))" "fits p (sum_list (map (\<lambda>(price, amount). price * amount) xs))"
    using fits a g assms(1) unfolding deals_fit_def by blast+
  then show ?thesis using all s unfolding deals_fit_def by blast
qed

text \<open>On numbers that fit, the code computes exactly.\<close>

context mpd_lib
begin

lemma kline_info_new_val:
  "fin price \<Longrightarrow> kline_fin fin (kline_info_new M price) \<and> kline_val val (kline_info_new M price) = flat (val price)"
  by (simp add: kline_info_new_def kline_fin_def kline_val_def flat_def)

lemma kline_info_update_val:
  assumes "kline_fin fin k" "fin price" "fin amount" "fits p (val price * val amount)"
    "fits p (val (k_volume k) + val amount)" "fits p (val (k_deal k) + val price * val amount)"
  shows "kline_fin fin (kline_info_update M k price amount) \<and>
    kline_val val (kline_info_update M k price amount) = put_deal (kline_val val k) (val price) (val amount)"
proof -
  have m: "fin (mpd_mul M price amount)" "val (mpd_mul M price amount) = val price * val amount"
    using mul [OF assms(2,3,4)] by auto
  have v: "fin (mpd_add M (k_volume k) amount)" "val (mpd_add M (k_volume k) amount) = val (k_volume k) + val amount"
    using add [of "k_volume k" amount p] assms by (auto simp: kline_fin_def)
  have d: "fin (mpd_add M (k_deal k) (mpd_mul M price amount))"
    "val (mpd_add M (k_deal k) (mpd_mul M price amount)) = val (k_deal k) + val price * val amount"
    using add [of "k_deal k" "mpd_mul M price amount" p] assms m by (auto simp: kline_fin_def)
  show ?thesis
    using assms(1,2) m v d by (auto simp: kline_info_update_def Let_def kline_fin_def kline_val_def put_deal_def cmp max_def min_def)
qed

lemma kline_info_merge_val:
  assumes "kline_fin fin k" "kline_fin fin l" "fits p (val (k_volume k) + val (k_volume l))"
    "fits p (val (k_deal k) + val (k_deal l))"
  shows "kline_fin fin (kline_info_merge M k l) \<and>
    kline_val val (kline_info_merge M k l) = join (kline_val val k) (kline_val val l)"
proof -
  have v: "fin (mpd_add M (k_volume k) (k_volume l))" "val (mpd_add M (k_volume k) (k_volume l)) = val (k_volume k) + val (k_volume l)"
    using add [of "k_volume k" "k_volume l" p] assms by (auto simp: kline_fin_def)
  have d: "fin (mpd_add M (k_deal k) (k_deal l))" "val (mpd_add M (k_deal k) (k_deal l)) = val (k_deal k) + val (k_deal l)"
    using add [of "k_deal k" "k_deal l" p] assms by (auto simp: kline_fin_def)
  show ?thesis
    using assms(1,2) v d by (auto simp: kline_info_merge_def Let_def kline_fin_def kline_val_def join_def cmp max_def min_def)
qed

end

end
