(* ===== verification/Prices.thy ===== *)
theory Prices
  imports Kline "HOL-Library.Signed_Division"
begin

text \<open>
  \<^verbatim>\<open>marketprice/mp_message.c\<close>, first part: the candles of every market per second, minute,
  hour and day, and how a deal message updates them. The dictionaries are maps (theory \<open>Dict\<close>);
  \<^verbatim>\<open>deals\<close> and \<^verbatim>\<open>deals_json\<close> are lists. Times of deals and of
  the clock are microseconds, candles are filed under seconds as in the code. What the C library
  knows of the local time zone is the record \<open>zone\<close>.
\<close>

section \<open>State\<close>

datatype kline_type = KLINE_SEC | KLINE_MIN | KLINE_HOUR | KLINE_DAY

text \<open>
  A printed deal is \<open>None\<close> when \<^verbatim>\<open>json_dumps\<close> returned NULL. The padding of the keys of
  \<^verbatim>\<open>update\<close> counts as equal.
\<close>

record ('d, 'j) market_info =
  mi_name :: string
  mi_last :: 'd
  mi_sec :: "int \<rightharpoonup> 'd kline_info"
  mi_min :: "int \<rightharpoonup> 'd kline_info"
  mi_hour :: "int \<rightharpoonup> 'd kline_info"
  mi_day :: "int \<rightharpoonup> 'd kline_info"
  mi_update :: "(kline_type \<times> int) set"
  mi_deals :: "string option list"
  mi_deals_json :: "'j list"
  mi_update_time :: int

record price_settings =
  pst_debug :: bool
  pst_timezone :: int
  pst_sec_max :: int
  pst_min_max :: int
  pst_hour_max :: int
  pst_cache_timeout :: int

text \<open>\<^verbatim>\<open>localtime\<close> gives year, month and day; \<^verbatim>\<open>mktime\<close> the start of a day.\<close>

record zone =
  tz_localtime :: "int \<Rightarrow> int \<times> int \<times> int"
  tz_mktime :: "int \<times> int \<times> int \<Rightarrow> int"

record ('d, 'j) prices =
  px_markets :: "string \<rightharpoonup> ('d, 'j) market_info"
  px_last_flush :: int
  px_last_offset :: int
  px_ticks :: nat

definition MARKET_DEALS_MAX :: nat where "MARKET_DEALS_MAX = 10000"

text \<open>The dictionary of one kind of candle.\<close>

fun klines_of :: "('d, 'j) market_info \<Rightarrow> kline_type \<Rightarrow> (int \<rightharpoonup> 'd kline_info)" where
  "klines_of info KLINE_SEC = mi_sec info"
| "klines_of info KLINE_MIN = mi_min info"
| "klines_of info KLINE_HOUR = mi_hour info"
| "klines_of info KLINE_DAY = mi_day info"

text \<open>A reading of the clock, and \<^verbatim>\<open>time(NULL)\<close>.\<close>

definition tick :: "('d, 'j) env \<Rightarrow> ('d, 'j) prices \<Rightarrow> int \<times> ('d, 'j) prices" where
  "tick E X = (clock E (px_ticks X), X\<lparr>px_ticks := px_ticks X + 1\<rparr>)"

definition seconds :: "int \<Rightarrow> int" where
  "seconds t = t sdiv 1000000"

definition create_market :: "('d, 'j) env \<Rightarrow> string \<Rightarrow> ('d, 'j) market_info" where
  "create_market E market =
     \<lparr>mi_name = market, mi_last = mpd_zero (mpd E), mi_sec = Map.empty, mi_min = Map.empty, mi_hour = Map.empty,
      mi_day = Map.empty, mi_update = {}, mi_deals = [], mi_deals_json = [], mi_update_time = 0\<rparr>"

definition market_query :: "('d, 'j) prices \<Rightarrow> string \<Rightarrow> ('d, 'j) market_info option" where
  "market_query X market = px_markets X market"

definition kline_query :: "(int \<rightharpoonup> 'd kline_info) \<Rightarrow> int \<Rightarrow> 'd kline_info option" where
  "kline_query D timestamp = D timestamp"

definition add_update :: "kline_type \<Rightarrow> int \<Rightarrow> ('d, 'j) market_info \<Rightarrow> ('d, 'j) market_info" where
  "add_update type timestamp info = info\<lparr>mi_update := insert (type, timestamp) (mi_update info)\<rparr>"

definition get_day_start :: "zone \<Rightarrow> int \<Rightarrow> int" where
  "get_day_start Z timestamp = tz_mktime Z (tz_localtime Z timestamp)"

section \<open>A deal\<close>

text \<open>One of the four updates of \<^verbatim>\<open>market_update\<close>: the candle is found or created, then updated.\<close>

definition kline_put :: "'d mpd_ops \<Rightarrow> int \<Rightarrow> 'd \<Rightarrow> 'd \<Rightarrow> (int \<rightharpoonup> 'd kline_info) \<Rightarrow> (int \<rightharpoonup> 'd kline_info)" where
  "kline_put M t price amount D =
     D(t \<mapsto> kline_info_update M (case D t of Some kinfo \<Rightarrow> kinfo | None \<Rightarrow> kline_info_new M price) price amount)"

definition time_min :: "int \<Rightarrow> int" where "time_min time_sec = time_sec sdiv 60 * 60"
definition time_hour :: "int \<Rightarrow> int" where "time_hour time_sec = time_sec sdiv 3600 * 3600"

definition update_klines ::
  "('d, 'j) env \<Rightarrow> zone \<Rightarrow> int \<Rightarrow> 'd \<Rightarrow> 'd \<Rightarrow> ('d, 'j) market_info \<Rightarrow> ('d, 'j) market_info" where
  "update_klines E Z time_sec price amount info =
     (let put = (\<lambda>t. kline_put (mpd E) t price amount);
          info = add_update KLINE_SEC time_sec (info\<lparr>mi_sec := put time_sec (mi_sec info)\<rparr>);
          info = add_update KLINE_MIN (time_min time_sec) (info\<lparr>mi_min := put (time_min time_sec) (mi_min info)\<rparr>);
          info = add_update KLINE_HOUR (time_hour time_sec) (info\<lparr>mi_hour := put (time_hour time_sec) (mi_hour info)\<rparr>);
          time_day = get_day_start Z time_sec
      in add_update KLINE_DAY time_day (info\<lparr>mi_day := put time_day (mi_day info)\<rparr>))"

definition deal_json :: "('d, 'j) env \<Rightarrow> int \<Rightarrow> 'd \<Rightarrow> 'd \<Rightarrow> u32 \<Rightarrow> u64 \<Rightarrow> 'j" where
  "deal_json E timestamp price amount side id' = json_object (json E)
     [(''id'', json_integer (json E) (sint id')), (''time'', json_real (json E) timestamp),
      (''price'', json_mpd E price), (''amount'', json_mpd E amount),
      (''type'', json_string (json E) (if side = MARKET_ORDER_SIDE_ASK then ''sell'' else ''buy''))]"

definition append_deal :: "('d, 'j) env \<Rightarrow> 'j \<Rightarrow> ('d, 'j) market_info \<Rightarrow> ('d, 'j) market_info" where
  "append_deal E deal info =
     (let deals_json = deal # mi_deals_json info
      in info\<lparr>mi_deals := mi_deals info @ [json_dumps (json E) deal 0],
           mi_deals_json := (if length deals_json > MARKET_DEALS_MAX then butlast deals_json else deals_json)\<rparr>)"

definition market_update ::
  "('d, 'j) env \<Rightarrow> zone \<Rightarrow> string \<Rightarrow> int \<Rightarrow> 'd \<Rightarrow> 'd \<Rightarrow> u32 \<Rightarrow> u64 \<Rightarrow> ('d, 'j) prices \<Rightarrow> int \<times> ('d, 'j) prices" where
  "market_update E Z market timestamp price amount side id' X =
     (let info = (case market_query X market of Some info \<Rightarrow> info | None \<Rightarrow> create_market E market);
          info = update_klines E Z (seconds timestamp) price amount info;
          info = info\<lparr>mi_last := price\<rparr>;
          info = append_deal E (deal_json E timestamp price amount side id') info;
          (now, X) = tick E X
      in (0, X\<lparr>px_markets := (px_markets X)(market \<mapsto> info\<lparr>mi_update_time := now\<rparr>)\<rparr>))"

text \<open>
  A message of the topic of deals: \<open>None\<close> when it is not valid, in which case only the log is
  written and the offset stays.
\<close>

definition deal_message :: "('d, 'j) env \<Rightarrow> string \<Rightarrow> (int \<times> string \<times> 'd \<times> 'd \<times> u32 \<times> u64) option" where
  "deal_message E message = do {
     obj \<leftarrow> json_loadb (json E) message;
     let J = json E;
     if \<not> json_is_array J obj \<or> json_array_size J obj < 12 then None
     else do {
       let timestamp = json_real_value J (json_array_get J obj 0);
       if timestamp = 0 then None
       else do {
         market \<leftarrow> json_string_value J (json_array_get J obj 1);
         price_str \<leftarrow> json_string_value J (json_array_get J obj 6);
         price \<leftarrow> decimal (mpd E) price_str 0;
         amount_str \<leftarrow> json_string_value J (json_array_get J obj 7);
         amount \<leftarrow> decimal (mpd E) amount_str 0;
         let side = word_of_int (json_integer_value J (json_array_get J obj 10));
         if side \<noteq> MARKET_ORDER_SIDE_ASK \<and> side \<noteq> MARKET_ORDER_SIDE_BID then None
         else do {
           let id' = word_of_int (json_integer_value J (json_array_get J obj 11));
           if id' = 0 then None else Some (timestamp, market, price, amount, side, id')
         }
       }
     }
   }"

definition on_deals_message ::
  "('d, 'j) env \<Rightarrow> zone \<Rightarrow> string \<Rightarrow> int \<Rightarrow> ('d, 'j) prices \<Rightarrow> ('d, 'j) prices" where
  "on_deals_message E Z message offset X =
     (case deal_message E message of
        None \<Rightarrow> X
      | Some (timestamp, market, price, amount, side, id') \<Rightarrow>
          (snd (market_update E Z market timestamp price amount side id' X))\<lparr>px_last_offset := offset\<rparr>)"

section \<open>Clearing\<close>

definition clear_dict :: "int \<Rightarrow> (int \<rightharpoonup> 'd kline_info) \<Rightarrow> (int \<rightharpoonup> 'd kline_info)" where
  "clear_dict start D = (\<lambda>timestamp. if timestamp < start then None else D timestamp)"

text \<open>The first second whose candles of each kind are kept at the time \<open>now\<close> (in seconds).\<close>

definition sec_start :: "price_settings \<Rightarrow> int \<Rightarrow> int" where "sec_start st now = now - pst_sec_max st"
definition min_start :: "price_settings \<Rightarrow> int \<Rightarrow> int" where "min_start st now = now sdiv 60 * 60 - pst_min_max st * 60"
definition hour_start :: "price_settings \<Rightarrow> int \<Rightarrow> int" where
  "hour_start st now = now sdiv 3600 * 3600 - pst_hour_max st * 3600"

definition clear_info :: "price_settings \<Rightarrow> int \<Rightarrow> ('d, 'j) market_info \<Rightarrow> ('d, 'j) market_info" where
  "clear_info st now info = info\<lparr>mi_sec := clear_dict (sec_start st now) (mi_sec info),
     mi_min := clear_dict (min_start st now) (mi_min info), mi_hour := clear_dict (hour_start st now) (mi_hour info)\<rparr>"

definition clear_kline :: "('d, 'j) env \<Rightarrow> price_settings \<Rightarrow> ('d, 'j) prices \<Rightarrow> ('d, 'j) prices" where
  "clear_kline E st X =
     (let (now, X) = tick E X in X\<lparr>px_markets := (\<lambda>m. map_option (clear_info st (seconds now)) (px_markets X m))\<rparr>)"

definition on_clear_timer :: "('d, 'j) env \<Rightarrow> price_settings \<Rightarrow> ('d, 'j) prices \<Rightarrow> ('d, 'j) prices" where
  "on_clear_timer E st X = clear_kline E st X"

end
