(* ===== verification/Price_Store.thy ===== *)
theory Price_Store
  imports Prices
begin

text \<open>
  \<^verbatim>\<open>marketprice/mp_message.c\<close>, second part: what the price server keeps in Redis, how the
  timers write it and how a restart reads it. Redis is outside the repository: its commands are
  the fields of a record, a command is the value of its parts. The order in which an iterator of a
  dictionary yields its keys is a parameter.
\<close>

section \<open>Redis\<close>

text \<open>
  The first component of a result says whether there was a reply. \<open>r_hgetall\<close> and \<open>r_lrange\<close>
  give the elements of the reply, \<open>r_get\<close> the string or \<open>None\<close> for nil; \<open>r_lpush\<close> takes the
  arguments in the order of the command.
\<close>

record 'r redis_ops =
  r_connect :: "'r \<Rightarrow> bool \<times> 'r"
  r_hgetall :: "'r \<Rightarrow> string \<Rightarrow> (string \<times> string) list option \<times> 'r"
  r_lrange :: "'r \<Rightarrow> string \<Rightarrow> int \<Rightarrow> int \<Rightarrow> string list option \<times> 'r"
  r_get :: "'r \<Rightarrow> string \<Rightarrow> string option option \<times> 'r"
  r_set :: "'r \<Rightarrow> string \<Rightarrow> string \<Rightarrow> bool \<times> 'r"
  r_hset :: "'r \<Rightarrow> string \<Rightarrow> string \<Rightarrow> string \<Rightarrow> bool \<times> 'r"
  r_hdel :: "'r \<Rightarrow> string \<Rightarrow> string \<Rightarrow> bool \<times> 'r"
  r_lpush :: "'r \<Rightarrow> string \<Rightarrow> string list \<Rightarrow> bool \<times> 'r"
  r_ltrim :: "'r \<Rightarrow> string \<Rightarrow> int \<Rightarrow> int \<Rightarrow> bool \<times> 'r"

record walks =
  wk_updates :: "(kline_type \<times> int) set \<Rightarrow> (kline_type \<times> int) list"
  wk_markets :: "string set \<Rightarrow> string list"

definition kline_key :: "string \<Rightarrow> kline_type \<Rightarrow> string" where
  "kline_key name type = ''k:'' @ name @ (case type of KLINE_SEC \<Rightarrow> '':1s'' | KLINE_MIN \<Rightarrow> '':1m''
     | KLINE_HOUR \<Rightarrow> '':1h'' | KLINE_DAY \<Rightarrow> '':1d'')"

definition deals_key :: "string \<Rightarrow> string" where "deals_key name = ''k:'' @ name @ '':deals''"
definition last_key :: "string \<Rightarrow> string" where "last_key name = ''k:'' @ name @ '':last''"

section \<open>Reading numbers\<close>

text \<open>\<^verbatim>\<open>strtol\<close> with base 0, which selects the base by the prefix.\<close>

definition digit_of :: "char \<Rightarrow> nat option" where
  "digit_of c = (let n = of_char c :: nat in
     if 48 \<le> n \<and> n \<le> 57 then Some (n - 48) else if 65 \<le> n \<and> n \<le> 90 then Some (n - 55)
     else if 97 \<le> n \<and> n \<le> 122 then Some (n - 87) else None)"

fun read_digits :: "nat \<Rightarrow> nat \<Rightarrow> string \<Rightarrow> nat" where
  "read_digits base acc [] = acc"
| "read_digits base acc (c # s) =
     (case digit_of c of Some d \<Rightarrow> if d < base then read_digits base (acc * base + d) s else acc | None \<Rightarrow> acc)"

definition is_hex :: "string \<Rightarrow> bool" where
  "is_hex s = (case s of z # x # c # _ \<Rightarrow> z = CHR ''0'' \<and> (x = CHR ''x'' \<or> x = CHR ''X'') \<and>
     (case digit_of c of Some d \<Rightarrow> d < 16 | None \<Rightarrow> False) | _ \<Rightarrow> False)"

definition read_unsigned :: "string \<Rightarrow> nat" where
  "read_unsigned s = (if is_hex s then read_digits 16 0 (drop 2 s)
     else if s \<noteq> [] \<and> hd s = CHR ''0'' then read_digits 8 0 s else read_digits 10 0 s)"

definition strtol :: "string \<Rightarrow> int" where
  "strtol str =
     (let s = dropWhile (\<lambda>c. c = CHR '' '' \<or> (9 \<le> (of_char c :: nat) \<and> (of_char c :: nat) \<le> 13)) str;
          n = (case s of [] \<Rightarrow> 0
             | c # r \<Rightarrow> if c = CHR ''-'' then - int (read_unsigned r)
                       else if c = CHR ''+'' then int (read_unsigned r) else int (read_unsigned s))
      in max (- (2 ^ 63)) (min (2 ^ 63 - 1) n))"

section \<open>Loading\<close>

fun add_klines :: "('d, 'j) env \<Rightarrow> int \<Rightarrow> (string \<times> string) list \<Rightarrow> (int \<rightharpoonup> 'd kline_info) \<Rightarrow> (int \<rightharpoonup> 'd kline_info)" where
  "add_klines E start [] D = D"
| "add_klines E start ((field, str) # rows) D =
     (let timestamp = strtol field in
      if start \<noteq> 0 \<and> timestamp < start then add_klines E start rows D
      else (case kline_from_str E str of
         None \<Rightarrow> add_klines E start rows D
       | Some info \<Rightarrow> add_klines E start rows (if D timestamp = None then D(timestamp \<mapsto> info) else D)))"

definition load_market_kline ::
  "('d, 'j) env \<Rightarrow> 'r redis_ops \<Rightarrow> 'r \<Rightarrow> string \<Rightarrow> (int \<rightharpoonup> 'd kline_info) \<Rightarrow> int \<Rightarrow> int \<times> (int \<rightharpoonup> 'd kline_info) \<times> 'r" where
  "load_market_kline E Q r key D start =
     (case r_hgetall Q r key of
        (None, r) \<Rightarrow> (- 99, D, r)
      | (Some rows, r) \<Rightarrow> (0, add_klines E start rows D, r))"

text \<open>The deals that were read before one that is not valid stay in the list.\<close>

fun add_deals :: "('d, 'j) env \<Rightarrow> string list \<Rightarrow> 'j list \<Rightarrow> int \<times> 'j list" where
  "add_deals E [] deals_json = (0, deals_json)"
| "add_deals E (str # strs) deals_json =
     (case json_loadb (json E) str of
        None \<Rightarrow> (- 127, deals_json)
      | Some deal \<Rightarrow> add_deals E strs (deals_json @ [deal]))"

definition load_market_deals ::
  "('d, 'j) env \<Rightarrow> 'r redis_ops \<Rightarrow> 'r \<Rightarrow> string \<Rightarrow> ('d, 'j) market_info \<Rightarrow> int \<times> ('d, 'j) market_info \<times> 'r" where
  "load_market_deals E Q r key info =
     (case r_lrange Q r key 0 (int MARKET_DEALS_MAX - 1) of
        (None, r) \<Rightarrow> (- 120, info, r)
      | (Some strs, r) \<Rightarrow>
          (case add_deals E strs (mi_deals_json info) of
             (ret, deals_json) \<Rightarrow> (ret, info\<lparr>mi_deals_json := deals_json\<rparr>, r)))"

text \<open>A price that cannot be read fails the load; the record keeps its last price then (the code a NULL).\<close>

definition load_market_last ::
  "('d, 'j) env \<Rightarrow> 'r redis_ops \<Rightarrow> 'r \<Rightarrow> ('d, 'j) market_info \<Rightarrow> int \<times> ('d, 'j) market_info \<times> 'r" where
  "load_market_last E Q r info =
     (case r_get Q r (last_key (mi_name info)) of
        (None, r) \<Rightarrow> (- 139, info, r)
      | (Some None, r) \<Rightarrow> (0, info, r)
      | (Some (Some str), r) \<Rightarrow>
          (case decimal (mpd E) str 0 of
             None \<Rightarrow> (- 145, info, r)
           | Some last_price \<Rightarrow> (0, info\<lparr>mi_last := last_price\<rparr>, r)))"

text \<open>\<open>now\<close> in seconds, read once at the beginning.\<close>

definition load_market ::
  "('d, 'j) env \<Rightarrow> price_settings \<Rightarrow> 'r redis_ops \<Rightarrow> int \<Rightarrow> 'r \<Rightarrow> ('d, 'j) market_info \<Rightarrow> int \<times> ('d, 'j) market_info \<times> 'r" where
  "load_market E st Q now r info =
     (let name = mi_name info;
          (ret, D, r) = load_market_kline E Q r (kline_key name KLINE_SEC) (mi_sec info) (sec_start st now);
          info = info\<lparr>mi_sec := D\<rparr>
      in if ret < 0 then (ret, info, r) else
     let (ret, D, r) = load_market_kline E Q r (kline_key name KLINE_MIN) (mi_min info) (min_start st now);
         info = info\<lparr>mi_min := D\<rparr>
      in if ret < 0 then (ret, info, r) else
     let (ret, D, r) = load_market_kline E Q r (kline_key name KLINE_HOUR) (mi_hour info) (hour_start st now);
         info = info\<lparr>mi_hour := D\<rparr>
      in if ret < 0 then (ret, info, r) else
     let (ret, D, r) = load_market_kline E Q r (kline_key name KLINE_DAY) (mi_day info) 0;
         info = info\<lparr>mi_day := D\<rparr>
      in if ret < 0 then (ret, info, r) else
     let (ret, info, r) = load_market_deals E Q r (deals_key name) info
      in if ret < 0 then (ret, info, r) else load_market_last E Q r info)"

text \<open>
  The markets of the list the HTTP gateway gave, which is a parameter. A member without a name
  makes \<^verbatim>\<open>strdup\<close> crash: \<open>None\<close>.
\<close>

fun init_markets ::
  "('d, 'j) env \<Rightarrow> price_settings \<Rightarrow> 'r redis_ops \<Rightarrow> 'j option list \<Rightarrow> 'r \<Rightarrow> ('d, 'j) prices \<Rightarrow> (int \<times> 'r \<times> ('d, 'j) prices) option" where
  "init_markets E st Q [] r X = Some (0, r, X)"
| "init_markets E st Q (item # items) r X =
     (case (case item of None \<Rightarrow> None | Some item \<Rightarrow> json_string_value (json E) (json_object_get (json E) item ''name'')) of
        None \<Rightarrow> None
      | Some name \<Rightarrow>
          let (now, X) = tick E X;
              (ret, info, r) = load_market E st Q (seconds now) r (create_market E name);
              X = X\<lparr>px_markets := (px_markets X)(name := (case px_markets X name of None \<Rightarrow> Some info | Some old \<Rightarrow> Some old))\<rparr>
          in if ret < 0 then Some (- 362, r, X) else init_markets E st Q items r X)"

definition init_market ::
  "('d, 'j) env \<Rightarrow> price_settings \<Rightarrow> 'r redis_ops \<Rightarrow> 'j option \<Rightarrow> 'r \<Rightarrow> ('d, 'j) prices \<Rightarrow> (int \<times> 'r \<times> ('d, 'j) prices) option" where
  "init_market E st Q market_list r X =
     (let X = X\<lparr>px_markets := Map.empty\<rparr> in
      case r_connect Q r of
        (False, r) \<Rightarrow> Some (- 337, r, X)
      | (True, r) \<Rightarrow>
          (case market_list of
             None \<Rightarrow> Some (- 344, r, X)
           | Some doc \<Rightarrow> init_markets E st Q (map (json_array_get (json E) doc) [0..<json_array_size (json E) doc]) r X))"

definition get_message_offset :: "'r redis_ops \<Rightarrow> 'r \<Rightarrow> int \<times> 'r" where
  "get_message_offset Q r =
     (case r_connect Q r of
        (False, r) \<Rightarrow> (- 828, r)
      | (True, r) \<Rightarrow>
          (case r_get Q r ''k:offset'' of
             (None, r) \<Rightarrow> (- 832, r)
           | (Some None, r) \<Rightarrow> (0, r)
           | (Some (Some str), r) \<Rightarrow> (strtol str, r)))"

text \<open>The start of the server, up to the offset from which messages are consumed.\<close>

definition init_prices ::
  "('d, 'j) env \<Rightarrow> price_settings \<Rightarrow> 'r redis_ops \<Rightarrow> 'j option \<Rightarrow> 'r \<Rightarrow> ('d, 'j) prices \<Rightarrow> (int \<times> int \<times> 'r \<times> ('d, 'j) prices) option" where
  "init_prices E st Q market_list r X =
     (case init_market E st Q market_list r X of
        None \<Rightarrow> None
      | Some (ret, r, X) \<Rightarrow>
          if ret < 0 then Some (ret, 0, r, X)
          else let (offset, r) = get_message_offset Q r; X = X\<lparr>px_last_offset := offset\<rparr>
               in Some (if offset < 0 then - 866 else 0, offset + 1, r, X))"

section \<open>Writing\<close>

definition flush_kline ::
  "('d, 'j) env \<Rightarrow> 'r redis_ops \<Rightarrow> 'r \<Rightarrow> ('d, 'j) market_info \<Rightarrow> kline_type \<times> int \<Rightarrow> int \<times> 'r" where
  "flush_kline E Q r info ukey =
     (let (type, timestamp) = ukey
      in case kline_query (klines_of info type) timestamp of
           None \<Rightarrow> (- 626, r)
         | Some kinfo \<Rightarrow>
             (case kline_to_str E kinfo of
                None \<Rightarrow> (- 632, r)
              | Some str \<Rightarrow>
                  (case r_hset Q r (kline_key (mi_name info) type) (show_long timestamp) str of
                     (ok, r) \<Rightarrow> (if ok then 0 else - 640, r))))"

text \<open>\<^verbatim>\<open>flush_update\<close>: a failure is only logged, and the key is deleted all the same.\<close>

fun flush_klines ::
  "('d, 'j) env \<Rightarrow> 'r redis_ops \<Rightarrow> ('d, 'j) market_info \<Rightarrow> (kline_type \<times> int) list \<Rightarrow> 'r \<Rightarrow> 'r" where
  "flush_klines E Q info [] r = r"
| "flush_klines E Q info (ukey # ukeys) r = flush_klines E Q info ukeys (snd (flush_kline E Q r info ukey))"

definition flush_update ::
  "('d, 'j) env \<Rightarrow> walks \<Rightarrow> 'r redis_ops \<Rightarrow> 'r \<Rightarrow> ('d, 'j) market_info \<Rightarrow> ('d, 'j) market_info \<times> 'r" where
  "flush_update E W Q r info =
     (info\<lparr>mi_update := {}\<rparr>, flush_klines E Q info (wk_updates W (mi_update info)) r)"

definition flush_last :: "('d, 'j) env \<Rightarrow> 'r redis_ops \<Rightarrow> 'r \<Rightarrow> string \<Rightarrow> 'd \<Rightarrow> int \<times> 'r" where
  "flush_last E Q r market last_price =
     (case r_set Q r (last_key market) (mpd_to_sci (mpd E) last_price) of (ok, r) \<Rightarrow> (if ok then 0 else - 666, r))"

text \<open>
  \<^verbatim>\<open>flush_deals\<close> pushes the printed deals; \<^verbatim>\<open>strlen\<close> of one that
  could not be printed crashes: \<open>None\<close>.
\<close>

definition flush_deals ::
  "'r redis_ops \<Rightarrow> 'r \<Rightarrow> ('d, 'j) market_info \<Rightarrow> (int \<times> ('d, 'j) market_info \<times> 'r) option" where
  "flush_deals Q r info =
     (if None \<in> set (mi_deals info) then None
      else Some (case r_lpush Q r (deals_key (mi_name info)) (map the (mi_deals info)) of
          (False, r) \<Rightarrow> (- 590, info, r)
        | (True, r) \<Rightarrow>
            (0, info\<lparr>mi_deals := []\<rparr>, snd (r_ltrim Q r (deals_key (mi_name info)) 0 (int MARKET_DEALS_MAX - 1)))))"

definition flush_info ::
  "('d, 'j) env \<Rightarrow> walks \<Rightarrow> 'r redis_ops \<Rightarrow> int \<Rightarrow> 'r \<Rightarrow> ('d, 'j) market_info \<Rightarrow> (int \<times> ('d, 'j) market_info \<times> 'r) option" where
  "flush_info E W Q last_flush r info =
     (if mi_update_time info < last_flush then Some (0, info, r)
      else let (info, r) = flush_update E W Q r info; (ret, r) = flush_last E Q r (mi_name info) (mi_last info)
           in if ret < 0 then Some (ret, info, r)
              else if mi_deals info = [] then Some (0, info, r)
              else flush_deals Q r info)"

fun flush_infos ::
  "('d, 'j) env \<Rightarrow> walks \<Rightarrow> 'r redis_ops \<Rightarrow> string list \<Rightarrow> 'r \<Rightarrow> ('d, 'j) prices \<Rightarrow> (int \<times> ('d, 'j) prices \<times> 'r) option" where
  "flush_infos E W Q [] r X = Some (0, X, r)"
| "flush_infos E W Q (name # names) r X =
     (case px_markets X name of
        None \<Rightarrow> flush_infos E W Q names r X
      | Some info \<Rightarrow>
          (case flush_info E W Q (px_last_flush X) r info of
             None \<Rightarrow> None
           | Some (ret, info, r) \<Rightarrow>
               let X = X\<lparr>px_markets := (px_markets X)(name \<mapsto> info)\<rparr>
               in if ret < 0 then Some (ret, X, r) else flush_infos E W Q names r X))"

definition flush_offset :: "'r redis_ops \<Rightarrow> 'r \<Rightarrow> int \<Rightarrow> int \<times> 'r" where
  "flush_offset Q r offset = (case r_set Q r ''k:offset'' (show_long offset) of (ok, r) \<Rightarrow> (if ok then 0 else - 652, r))"

definition flush_market ::
  "('d, 'j) env \<Rightarrow> walks \<Rightarrow> 'r redis_ops \<Rightarrow> 'r \<Rightarrow> ('d, 'j) prices \<Rightarrow> (int \<times> ('d, 'j) prices \<times> 'r) option" where
  "flush_market E W Q r X =
     (case r_connect Q r of
        (False, r) \<Rightarrow> Some (- 695, X, r)
      | (True, r) \<Rightarrow>
          (case flush_infos E W Q (wk_markets W (dom (px_markets X))) r X of
             None \<Rightarrow> None
           | Some (ret, X, r) \<Rightarrow>
               if ret < 0 then Some (ret, X, r)
               else let (ret, r) = flush_offset Q r (px_last_offset X)
                    in if ret < 0 then Some (- 730, X, r)
                       else let (now, X) = tick E X in Some (0, X\<lparr>px_last_flush := now\<rparr>, r)))"

definition on_market_timer ::
  "('d, 'j) env \<Rightarrow> walks \<Rightarrow> 'r redis_ops \<Rightarrow> ('d, 'j) prices \<times> 'r \<Rightarrow> (('d, 'j) prices \<times> 'r) option" where
  "on_market_timer E W Q = (\<lambda>(X, r). map_option snd (flush_market E W Q r X))"

section \<open>Clearing Redis\<close>

text \<open>The child of \<^verbatim>\<open>on_redis_timer\<close>; only Redis changes.\<close>

fun delete_fields :: "'r redis_ops \<Rightarrow> string \<Rightarrow> int \<Rightarrow> (string \<times> string) list \<Rightarrow> 'r \<Rightarrow> int \<times> 'r" where
  "delete_fields Q key stop [] r = (0, r)"
| "delete_fields Q key stop ((field, str) # rows) r =
     (let timestamp = strtol field in
      if timestamp \<ge> stop then delete_fields Q key stop rows r
      else (case r_hdel Q r key (show_long timestamp) of
         (False, r) \<Rightarrow> (- 783, r)
       | (True, r) \<Rightarrow> delete_fields Q key stop rows r))"

definition clear_key :: "'r redis_ops \<Rightarrow> 'r \<Rightarrow> string \<Rightarrow> int \<Rightarrow> int \<times> 'r" where
  "clear_key Q r key stop =
     (case r_hgetall Q r key of (None, r) \<Rightarrow> (- 776, r) | (Some rows, r) \<Rightarrow> delete_fields Q key stop rows r)"

definition clear_market_keys :: "price_settings \<Rightarrow> 'r redis_ops \<Rightarrow> int \<Rightarrow> string \<Rightarrow> 'r \<Rightarrow> 'r" where
  "clear_market_keys st Q now name r =
     (let r = snd (clear_key Q r (kline_key name KLINE_SEC) (sec_start st now));
          r = snd (clear_key Q r (kline_key name KLINE_MIN) (min_start st now))
      in snd (clear_key Q r (kline_key name KLINE_HOUR) (hour_start st now)))"

definition clear_redis ::
  "price_settings \<Rightarrow> walks \<Rightarrow> 'r redis_ops \<Rightarrow> int \<Rightarrow> ('d, 'j) prices \<Rightarrow> 'r \<Rightarrow> int \<times> 'r" where
  "clear_redis st W Q now X r =
     (case r_connect Q r of
        (False, r) \<Rightarrow> (1, r)
      | (True, r) \<Rightarrow> (0, fold (clear_market_keys st Q now) (wk_markets W (dom (px_markets X))) r))"

end
