(* ===== verification/Price_Sound.thy ===== *)
theory Price_Sound
  imports Price_Store
begin

text \<open>
  What the stored candles are worth: whatever the price server does, each stored candle that is
  recent enough sums up exactly the deals of its second, minute, hour or day.
\<close>

section \<open>One dictionary\<close>

text \<open>A deal is its second, price and amount. The deals of a bucket, and their numbers.\<close>

type_synonym 'd deal = "int \<times> 'd \<times> 'd"

definition in_bucket :: "(int \<Rightarrow> int) \<Rightarrow> int \<Rightarrow> 'd deal list \<Rightarrow> 'd deal list" where
  "in_bucket bucket t ds = filter (\<lambda>d. bucket (fst d) = t) ds"

definition vals :: "('d \<Rightarrow> rat) \<Rightarrow> 'd deal list \<Rightarrow> (rat \<times> rat) list" where
  "vals val ds = map (\<lambda>(_, price, amount). (val price, val amount)) ds"

definition deals_fin :: "('d \<Rightarrow> bool) \<Rightarrow> 'd deal list \<Rightarrow> bool" where
  "deals_fin fin ds \<longleftrightarrow> (\<forall>(_, price, amount)\<in>set ds. fin price \<and> fin amount)"

text \<open>A candle that sums up some deals; no candle sums up none.\<close>

definition sums_up :: "('d \<Rightarrow> bool) \<Rightarrow> ('d \<Rightarrow> rat) \<Rightarrow> 'd kline_info option \<Rightarrow> 'd deal list \<Rightarrow> bool" where
  "sums_up fin val k ds \<longleftrightarrow>
     (case k of None \<Rightarrow> ds = [] | Some k \<Rightarrow> ds \<noteq> [] \<and> kline_fin fin k \<and> kline_val val k = candle (vals val ds))"

definition klines_ok ::
  "('d \<Rightarrow> bool) \<Rightarrow> ('d \<Rightarrow> rat) \<Rightarrow> (int \<Rightarrow> int) \<Rightarrow> 'd deal list \<Rightarrow> (int \<Rightarrow> bool) \<Rightarrow> (int \<rightharpoonup> 'd kline_info) \<Rightarrow> bool" where
  "klines_ok fin val bucket ds kept D \<longleftrightarrow> (\<forall>t. kept t \<longrightarrow> sums_up fin val (D t) (in_bucket bucket t ds))"

lemma vals_simps [simp]: "vals val [] = []" "vals val (ds @ es) = vals val ds @ vals val es"
  "vals val ((s, price, amount) # ds) = (val price, val amount) # vals val ds" "vals val ds = [] \<longleftrightarrow> ds = []"
  by (auto simp: vals_def)

lemma mset_vals_filter: "mset (vals val (filter P ds)) \<subseteq># mset (vals val ds)"
  unfolding vals_def mset_map by (intro image_mset_subseteq_mono) simp

lemma vals_fit:
  assumes "deals_fit p (vals val ds)"
  shows "deals_fit p (vals val (filter P ds))"
  using deals_fit_mono [OF assms mset_vals_filter] .

lemma sums_volume: "k_volume (candle ds) = sum_list (map snd ds)"
  and sums_deal: "k_deal (candle ds) = sum_list (map (\<lambda>(price, amount). price * amount) ds)"
  by (simp_all add: candle_def)

context mpd_lib
begin

text \<open>A deal is added to the deals its candle sums up.\<close>

lemma sums_up_update:
  assumes k: "sums_up fin val k ds" and f: "fin price" "fin amount"
    and fit: "deals_fit p (vals val (ds @ [(s, price, amount)]))"
  shows "sums_up fin val (Some (kline_info_update M (case k of Some k \<Rightarrow> k | None \<Rightarrow> kline_info_new M price) price amount))
    (ds @ [(s, price, amount)])"
proof -
  have one: "fits p (val price * val amount)" "fits p (val amount)"
    using deals_fit_mono [OF fit, of "[(val price, val amount)]"] by (simp_all add: deals_fit_def)
  show ?thesis
  proof (cases k)
    case None
    then have ds: "ds = []" using k by (simp add: sums_up_def)
    note new = kline_info_new_val [OF f(1)]
    have z: "val (k_volume (kline_info_new M price)) = 0" "val (k_deal (kline_info_new M price)) = 0"
      by (simp_all add: kline_info_new_def)
    show ?thesis
      using kline_info_update_val [of "kline_info_new M price" price amount p] new z one f None ds
      by (simp add: sums_up_def candle_single)
  next
    case (Some k')
    then have k': "ds \<noteq> []" "kline_fin fin k'" "kline_val val k' = candle (vals val ds)"
      using k by (simp_all add: sums_up_def)
    have v: "val (k_volume k') = sum_list (map snd (vals val ds))"
      "val (k_deal k') = sum_list (map (\<lambda>(price, amount). price * amount) (vals val ds))"
      using arg_cong [OF k'(3), of k_volume] arg_cong [OF k'(3), of k_deal] by (simp_all add: kline_val_def sums_volume sums_deal)
    have "fits p (val (k_volume k') + val amount)" "fits p (val (k_deal k') + val price * val amount)"
      using fit unfolding v by (simp_all add: deals_fit_def)
    then show ?thesis
      using kline_info_update_val [OF k'(2) f one(1)] k' Some by (simp add: sums_up_def candle_snoc)
  qed
qed

lemma kline_put_ok:
  assumes "klines_ok fin val bucket ds kept D" "fin price" "fin amount"
    "deals_fit p (vals val (ds @ [(s, price, amount)]))"
  shows "klines_ok fin val bucket (ds @ [(s, price, amount)]) kept (kline_put M (bucket s) price amount D)"
  unfolding klines_ok_def
proof (intro allI impI)
  fix t
  assume t: "kept t"
  have old: "sums_up fin val (D t) (in_bucket bucket t ds)" using assms(1) t by (simp add: klines_ok_def)
  show "sums_up fin val (kline_put M (bucket s) price amount D t) (in_bucket bucket t (ds @ [(s, price, amount)]))"
  proof (cases "bucket s = t")
    case True
    have "deals_fit p (vals val (in_bucket bucket t ds @ [(s, price, amount)]))"
      using vals_fit [OF assms(4), of "\<lambda>d. bucket (fst d) = t"] True by (simp add: in_bucket_def)
    from sums_up_update [OF old assms(2,3) this] show ?thesis using True by (simp add: in_bucket_def kline_put_def)
  next
    case False
    then show ?thesis using old by (simp add: in_bucket_def kline_put_def)
  qed
qed

end

lemma clear_dict_ok:
  "klines_ok fin val bucket ds kept D \<Longrightarrow> (\<And>t. kept t \<Longrightarrow> start \<le> t) \<Longrightarrow>
   klines_ok fin val bucket ds kept (clear_dict start D)"
  by (fastforce simp: klines_ok_def clear_dict_def)

lemma klines_ok_empty: "klines_ok fin val bucket [] kept Map.empty"
  by (simp add: klines_ok_def sums_up_def in_bucket_def)

section \<open>Runs of the server\<close>

text \<open>What happens to the price server besides questions: messages with their offsets, and its two timers.\<close>

datatype price_event = Message string int | Clear_timer | Market_timer

fun price_step ::
  "('d, 'j) env \<Rightarrow> price_settings \<Rightarrow> zone \<Rightarrow> walks \<Rightarrow> 'r redis_ops \<Rightarrow> price_event \<Rightarrow> ('d, 'j) prices \<times> 'r \<Rightarrow>
   (('d, 'j) prices \<times> 'r) option" where
  "price_step E st Z W Q (Message message offset) (X, r) = Some (on_deals_message E Z message offset X, r)"
| "price_step E st Z W Q Clear_timer (X, r) = Some (on_clear_timer E st X, r)"
| "price_step E st Z W Q Market_timer (X, r) = on_market_timer E W Q (X, r)"

fun price_run ::
  "('d, 'j) env \<Rightarrow> price_settings \<Rightarrow> zone \<Rightarrow> walks \<Rightarrow> 'r redis_ops \<Rightarrow> price_event list \<Rightarrow> ('d, 'j) prices \<times> 'r \<Rightarrow>
   (('d, 'j) prices \<times> 'r) option" where
  "price_run E st Z W Q [] S = Some S"
| "price_run E st Z W Q (ev # evs) S =
     (case price_step E st Z W Q ev S of None \<Rightarrow> None | Some S \<Rightarrow> price_run E st Z W Q evs S)"

text \<open>The deals of a market in a list of events.\<close>

definition deals_of :: "('d, 'j) env \<Rightarrow> string \<Rightarrow> price_event \<Rightarrow> 'd deal list" where
  "deals_of E market ev =
     (case ev of
        Message message offset \<Rightarrow>
          (case deal_message E message of
             Some (timestamp, name, price, amount, side, id') \<Rightarrow>
               if name = market then [(seconds timestamp, price, amount)] else []
           | None \<Rightarrow> [])
      | _ \<Rightarrow> [])"

definition deals_of_run :: "('d, 'j) env \<Rightarrow> string \<Rightarrow> price_event list \<Rightarrow> 'd deal list" where
  "deals_of_run E market evs = concat (map (deals_of E market) evs)"

text \<open>The time under which a deal of a second is filed.\<close>

fun kline_time :: "zone \<Rightarrow> kline_type \<Rightarrow> int \<Rightarrow> int" where
  "kline_time Z KLINE_SEC s = s"
| "kline_time Z KLINE_MIN s = time_min s"
| "kline_time Z KLINE_HOUR s = time_hour s"
| "kline_time Z KLINE_DAY s = get_day_start Z s"

text \<open>The times whose candles are still kept at a second.\<close>

fun kline_kept :: "price_settings \<Rightarrow> int \<Rightarrow> kline_type \<Rightarrow> int \<Rightarrow> bool" where
  "kline_kept st now KLINE_SEC t \<longleftrightarrow> sec_start st now \<le> t"
| "kline_kept st now KLINE_MIN t \<longleftrightarrow> min_start st now \<le> t"
| "kline_kept st now KLINE_HOUR t \<longleftrightarrow> hour_start st now \<le> t"
| "kline_kept st now KLINE_DAY t \<longleftrightarrow> True"

definition info_ok ::
  "('d \<Rightarrow> bool) \<Rightarrow> ('d \<Rightarrow> rat) \<Rightarrow> price_settings \<Rightarrow> zone \<Rightarrow> int \<Rightarrow> 'd deal list \<Rightarrow> ('d, 'j) market_info \<Rightarrow> bool" where
  "info_ok fin val st Z now ds info \<longleftrightarrow>
     (\<forall>type. klines_ok fin val (kline_time Z type) ds (kline_kept st now type) (klines_of info type)) \<and>
     (ds \<noteq> [] \<longrightarrow> mi_last info = fst (snd (last ds)))"

definition prices_ok ::
  "('d \<Rightarrow> bool) \<Rightarrow> ('d \<Rightarrow> rat) \<Rightarrow> price_settings \<Rightarrow> zone \<Rightarrow> int \<Rightarrow> 'd deal list \<Rightarrow> ('d, 'j) market_info option \<Rightarrow> bool" where
  "prices_ok fin val st Z now ds info \<longleftrightarrow>
     (case info of None \<Rightarrow> ds = [] | Some info \<Rightarrow> info_ok fin val st Z now ds info)"

lemma update_klines_of:
  "klines_of (update_klines E Z s price amount info) type =
     kline_put (mpd E) (kline_time Z type s) price amount (klines_of info type)"
  by (cases type) (simp_all add: update_klines_def Let_def add_update_def)

lemma klines_of_frame [simp]:
  "klines_of (info\<lparr>mi_last := v\<rparr>) type = klines_of info type" "klines_of (append_deal E deal info) type = klines_of info type"
  "klines_of (info\<lparr>mi_update_time := now\<rparr>) type = klines_of info type"
  "klines_of (info\<lparr>mi_update := u\<rparr>) type = klines_of info type" "klines_of (info\<lparr>mi_deals := l\<rparr>) type = klines_of info type"
  "mi_last (append_deal E deal info) = mi_last info"
  by (cases type; simp add: append_deal_def Let_def)+

lemma sdiv_mono_pos:
  assumes "a \<le> b" "0 < k"
  shows "a sdiv k \<le> b sdiv (k :: int)"
proof (cases "0 \<le> a")
  case True
  then show ?thesis using assms by (simp add: signed_divide_int_def sgn_if zdiv_mono1 pos_imp_zdiv_nonneg_iff)
next
  case False
  have "0 \<le> - a div k" using False assms(2) by (simp add: pos_imp_zdiv_nonneg_iff)
  moreover have "0 \<le> b \<Longrightarrow> 0 \<le> b div k" using assms(2) by (simp add: pos_imp_zdiv_nonneg_iff)
  moreover have "b < 0 \<Longrightarrow> - b div k \<le> - a div k" using assms by (simp add: zdiv_mono1)
  ultimately show ?thesis using False assms(2) by (auto simp: signed_divide_int_def sgn_if)
qed

lemma seconds_mono: "a \<le> b \<Longrightarrow> seconds a \<le> seconds b"
  by (simp add: seconds_def sdiv_mono_pos)

text \<open>What is kept at a time was kept before.\<close>

lemma kline_kept_mono: "kline_kept st now type t \<Longrightarrow> s \<le> now \<Longrightarrow> kline_kept st s type t"
  using sdiv_mono_pos [of s now 60] sdiv_mono_pos [of s now 3600]
  by (cases type) (auto simp: sec_start_def min_start_def hour_start_def)

lemma clear_info_ok:
  assumes "info_ok fin val st Z now ds info" "s \<le> now"
  shows "info_ok fin val st Z now ds (clear_info st s info)"
proof -
  have "klines_ok fin val (kline_time Z type) ds (kline_kept st now type) (klines_of (clear_info st s info) type)" for type
  proof -
    have ok: "klines_ok fin val (kline_time Z type) ds (kline_kept st now type) (klines_of info type)"
      using assms(1) by (simp add: info_ok_def)
    have "\<And>t. kline_kept st now type t \<Longrightarrow> kline_kept st s type t" using assms(2) kline_kept_mono by blast
    then show ?thesis using ok by (cases type) (auto simp: clear_info_def intro!: clear_dict_ok)
  qed
  then show ?thesis using assms(1) by (simp add: info_ok_def clear_info_def)
qed

context mpd_lib
begin

lemma price_update_ok:
  assumes M: "mpd E = M" and ok: "prices_ok fin val st Z now ds (px_markets X market)"
    and f: "fin price" "fin amount" and fit: "deals_fit p (vals val (ds @ [(seconds timestamp, price, amount)]))"
  shows "prices_ok fin val st Z now (ds @ [(seconds timestamp, price, amount)])
    (px_markets (snd (market_update E Z market timestamp price amount side id' X)) market)"
proof -
  let ?info = "case px_markets X market of Some info \<Rightarrow> info | None \<Rightarrow> create_market E market"
  have "klines_ok fin val (kline_time Z type) ds (kline_kept st now type) (klines_of ?info type)" for type
  proof (cases "px_markets X market")
    case None
    then show ?thesis using ok by (cases type) (simp_all add: prices_ok_def create_market_def klines_ok_empty)
  next
    case (Some info)
    then show ?thesis using ok by (simp add: prices_ok_def info_ok_def)
  qed
  then have "klines_ok fin val (kline_time Z type) (ds @ [(seconds timestamp, price, amount)]) (kline_kept st now type)
      (kline_put M (kline_time Z type (seconds timestamp)) price amount (klines_of ?info type))" for type
    by (rule kline_put_ok [OF _ f fit])
  then show ?thesis
    by (simp add: prices_ok_def info_ok_def market_update_def Let_def market_query_def tick_def update_klines_of M)
qed

end

text \<open>The other markets, and the flush, which changes no candle.\<close>

lemma market_update_other:
  "m \<noteq> market \<Longrightarrow> px_markets (snd (market_update E Z market timestamp price amount side id' X)) m = px_markets X m"
  by (simp add: market_update_def Let_def tick_def)

lemma prices_ok_frame:
  assumes "rel_option (\<lambda>i j. mi_last j = mi_last i \<and> (\<forall>type. klines_of j type = klines_of i type)) x y"
  shows "prices_ok fin val st Z now ds y \<longleftrightarrow> prices_ok fin val st Z now ds x"
  using assms by (cases x; cases y) (auto simp: prices_ok_def info_ok_def)

lemma flush_info_frame:
  assumes "flush_info E W Q t r info = Some (ret, info', r')"
  shows "mi_last info' = mi_last info \<and> (\<forall>type. klines_of info' type = klines_of info type)"
  using assms by (auto simp: flush_info_def flush_update_def flush_deals_def Let_def split: if_splits prod.splits bool.splits)

lemma flush_infos_frame:
  assumes "flush_infos E W Q names r X = Some (ret, X', r')"
  shows "rel_option (\<lambda>i j. mi_last j = mi_last i \<and> (\<forall>type. klines_of j type = klines_of i type))
    (px_markets X m) (px_markets X' m)"
  using assms
proof (induction E W Q names r X rule: flush_infos.induct)
  case (1 E W Q r X)
  then show ?case by (simp add: option.rel_refl)
next
  case (2 E W Q name names r X)
  show ?case
  proof (cases "px_markets X name")
    case None
    then show ?thesis using 2 by simp
  next
    case (Some info)
    obtain ret1 info1 r1 where f: "flush_info E W Q (px_last_flush X) r info = Some (ret1, info1, r1)"
      using 2(3) Some by (auto split: option.splits)
    let ?X = "X\<lparr>px_markets := (px_markets X)(name \<mapsto> info1)\<rparr>"
    note fr = flush_info_frame [OF f]
    have s: "rel_option (\<lambda>i j. mi_last j = mi_last i \<and> (\<forall>type. klines_of j type = klines_of i type))
        (px_markets X m) (px_markets ?X m)"
      using fr Some by (cases "m = name") (auto intro: option.rel_refl)
    show ?thesis
    proof (cases "ret1 < 0")
      case True
      then show ?thesis using s 2(3) Some f by (auto simp: Let_def)
    next
      case False
      then have "rel_option (\<lambda>i j. mi_last j = mi_last i \<and> (\<forall>type. klines_of j type = klines_of i type))
          (px_markets ?X m) (px_markets X' m)"
        using 2(2) [OF Some f] 2(3) Some f by (simp add: Let_def)
      then show ?thesis using s by (cases "px_markets X m"; cases "px_markets ?X m"; cases "px_markets X' m") auto
    qed
  qed
qed

lemma market_timer_frame:
  assumes "on_market_timer E W Q (X, r) = Some (X', r')"
  shows "rel_option (\<lambda>i j. mi_last j = mi_last i \<and> (\<forall>type. klines_of j type = klines_of i type))
    (px_markets X m) (px_markets X' m)"
proof -
  have refl: "rel_option (\<lambda>i j. mi_last j = mi_last i \<and> (\<forall>type. klines_of j type = klines_of i type)) x x" for x :: "('a, 'b) market_info option"
    by (simp add: option.rel_refl)
  obtain ret where f: "flush_market E W Q r X = Some (ret, X', r')"
    using assms by (auto simp: on_market_timer_def)
  show ?thesis
    using f refl
    by (auto simp: flush_market_def tick_def Let_def split: prod.splits bool.splits option.splits if_splits
        dest!: flush_infos_frame [of _ _ _ _ _ _ _ _ _ m])
qed

section \<open>Every run keeps the candles right\<close>

lemma on_deals_message_market:
  "px_markets (on_deals_message E Z message offset X) m =
     (case deal_message E message of
        Some (timestamp, market, price, amount, side, id') \<Rightarrow>
          if market = m then px_markets (snd (market_update E Z market timestamp price amount side id' X)) m else px_markets X m
      | None \<Rightarrow> px_markets X m)"
  by (auto simp: on_deals_message_def market_update_other split: option.splits)

lemma clear_timer_market:
  "px_markets (on_clear_timer E st X) m = map_option (clear_info st (seconds (clock E (px_ticks X)))) (px_markets X m)"
  by (simp add: on_clear_timer_def clear_kline_def tick_def)

text \<open>The clock is read in order.\<close>

lemma flush_info_ticks:
  assumes "flush_infos E W Q names r X = Some (ret, X', r')"
  shows "px_ticks X' = px_ticks X"
  using assms
proof (induction E W Q names r X rule: flush_infos.induct)
  case (2 E W Q name names r X)
  show ?case
  proof (cases "px_markets X name")
    case None
    then show ?thesis using 2 by simp
  next
    case (Some info)
    obtain ret1 info1 r1 where f: "flush_info E W Q (px_last_flush X) r info = Some (ret1, info1, r1)"
      using 2(3) Some by (auto split: option.splits)
    show ?thesis using 2(2) [OF Some f] 2(3) Some f by (cases "ret1 < 0") (auto simp: Let_def)
  qed
qed simp

lemma price_step_ticks: "price_step E st Z W Q ev (X, r) = Some (X', r') \<Longrightarrow> px_ticks X \<le> px_ticks X'"
proof (cases ev)
  case (Message message offset)
  assume "price_step E st Z W Q ev (X, r) = Some (X', r')"
  then show ?thesis using Message
    by (auto simp: on_deals_message_def market_update_def Let_def tick_def split: option.splits)
next
  case Clear_timer
  assume "price_step E st Z W Q ev (X, r) = Some (X', r')"
  then show ?thesis using Clear_timer by (auto simp: on_clear_timer_def clear_kline_def tick_def)
next
  case Market_timer
  assume "price_step E st Z W Q ev (X, r) = Some (X', r')"
  then obtain ret where "flush_market E W Q r X = Some (ret, X', r')"
    using Market_timer by (auto simp: on_market_timer_def)
  then show ?thesis
    by (auto simp: flush_market_def Let_def tick_def
        split: prod.splits bool.splits option.splits if_splits dest!: flush_info_ticks)
qed

lemma price_run_ticks: "price_run E st Z W Q evs (X, r) = Some (X', r') \<Longrightarrow> px_ticks X \<le> px_ticks X'"
proof (induction evs arbitrary: X r)
  case (Cons ev evs)
  then obtain X1 r1 where "price_step E st Z W Q ev (X, r) = Some (X1, r1)" "price_run E st Z W Q evs (X1, r1) = Some (X', r')"
    by (auto split: option.splits)
  then show ?case using price_step_ticks [of E st Z W Q ev X r X1 r1] Cons.IH [of X1 r1] by simp
qed simp

context mpd_lib
begin

lemma price_step_ok:
  assumes M: "mpd E = M" and T: "\<forall>n<px_ticks X'. clock E n \<le> T" and ok: "prices_ok fin val st Z (seconds T) ds (px_markets X m)"
    and f: "deals_fin fin (deals_of E m ev)" and fit: "deals_fit p (vals val (ds @ deals_of E m ev))"
    and step: "price_step E st Z W Q ev (X, r) = Some (X', r')"
  shows "prices_ok fin val st Z (seconds T) (ds @ deals_of E m ev) (px_markets X' m)"
proof (cases ev)
  case (Message message offset)
  show ?thesis
  proof (cases "deal_message E message")
    case None
    then show ?thesis using Message ok step by (auto simp: deals_of_def on_deals_message_def)
  next
    case (Some d)
    obtain timestamp market price amount side id' where d: "d = (timestamp, market, price, amount, side, id')"
      by (cases d) auto
    have X': "X' = on_deals_message E Z message offset X" using step Message by simp
    show ?thesis
    proof (cases "market = m")
      case True
      then have ds: "deals_of E m ev = [(seconds timestamp, price, amount)]" using Message Some d by (simp add: deals_of_def)
      then have "fin price" "fin amount" "deals_fit p (vals val (ds @ [(seconds timestamp, price, amount)]))"
        using f fit by (simp_all add: deals_fin_def)
      from price_update_ok [OF M ok this] show ?thesis
        using X' Some d True unfolding ds by (simp add: on_deals_message_market)
    next
      case False
      then show ?thesis using X' Message Some d ok by (simp add: deals_of_def on_deals_message_market)
    qed
  qed
next
  case Clear_timer
  then have "px_ticks X < px_ticks X'" using step by (auto simp: on_clear_timer_def clear_kline_def tick_def)
  then have "seconds (clock E (px_ticks X)) \<le> seconds T" using T by (simp add: seconds_mono)
  then show ?thesis using Clear_timer ok step clear_info_ok
    by (auto simp: deals_of_def clear_timer_market prices_ok_def split: option.splits)
next
  case Market_timer
  then have "on_market_timer E W Q (X, r) = Some (X', r')" using step by simp
  from prices_ok_frame [OF market_timer_frame [OF this]] ok show ?thesis by (simp add: Market_timer deals_of_def)
qed

lemma price_run_ok:
  assumes M: "mpd E = M"
  shows "\<forall>n<px_ticks X'. clock E n \<le> T \<Longrightarrow> prices_ok fin val st Z (seconds T) ds (px_markets X m) \<Longrightarrow> deals_fin fin (deals_of_run E m evs) \<Longrightarrow>
    deals_fit p (vals val (ds @ deals_of_run E m evs)) \<Longrightarrow> price_run E st Z W Q evs (X, r) = Some (X', r') \<Longrightarrow>
    prices_ok fin val st Z (seconds T) (ds @ deals_of_run E m evs) (px_markets X' m)"
proof (induction evs arbitrary: ds X r)
  case Nil
  then show ?case by (simp add: deals_of_run_def)
next
  case (Cons ev evs)
  obtain X1 r1 where s: "price_step E st Z W Q ev (X, r) = Some (X1, r1)" "price_run E st Z W Q evs (X1, r1) = Some (X', r')"
    using Cons.prems(5) by (auto split: option.splits)
  have T: "\<forall>n<px_ticks X1. clock E n \<le> T" using Cons.prems(1) price_run_ticks [OF s(2)] by auto
  have e: "deals_of_run E m (ev # evs) = deals_of E m ev @ deals_of_run E m evs" by (simp add: deals_of_run_def)
  have f: "deals_fin fin (deals_of E m ev)" "deals_fin fin (deals_of_run E m evs)"
    using Cons.prems(3) by (simp_all add: e deals_fin_def)
  have "deals_fit p (vals val (ds @ deals_of E m ev))"
    using deals_fit_mono [OF Cons.prems(4)] by (simp add: e)
  then have "prices_ok fin val st Z (seconds T) (ds @ deals_of E m ev) (px_markets X1 m)"
    by (rule price_step_ok [OF M T Cons.prems(2) f(1) _ s(1)])
  from Cons.IH [OF Cons.prems(1) this f(2) _ s(2)] Cons.prems(4) show ?case by (simp add: e)
qed

end

text \<open>A run returns when every deal can be printed.\<close>

definition all_printed :: "('d, 'j) prices \<Rightarrow> bool" where
  "all_printed X \<longleftrightarrow> (\<forall>info\<in>ran (px_markets X). None \<notin> set (mi_deals info))"

lemma mi_deals_frame [simp]:
  "mi_deals (update_klines E Z s price amount info) = mi_deals info" "mi_deals (clear_info st now info) = mi_deals info"
  by (simp_all add: update_klines_def Let_def add_update_def clear_info_def)

lemma all_printedD: "all_printed X \<Longrightarrow> px_markets X m = Some info \<Longrightarrow> None \<notin> set (mi_deals info)"
  by (auto simp: all_printed_def ran_def)

lemma all_printedI: "(\<And>m info. px_markets X m = Some info \<Longrightarrow> None \<notin> set (mi_deals info)) \<Longrightarrow> all_printed X"
  by (auto simp: all_printed_def ran_def)

lemma flush_info_printed:
  assumes "None \<notin> set (mi_deals info)"
  shows "\<exists>ret info' r'. flush_info E W Q t r info = Some (ret, info', r') \<and> None \<notin> set (mi_deals info')"
  using assms by (auto simp: flush_info_def flush_update_def flush_deals_def Let_def split: prod.splits bool.splits)

lemma flush_infos_printed:
  "all_printed X \<Longrightarrow> \<exists>ret X' r'. flush_infos E W Q names r X = Some (ret, X', r') \<and> all_printed X'"
proof (induction E W Q names r X rule: flush_infos.induct)
  case (2 E W Q name names r X)
  show ?case
  proof (cases "px_markets X name")
    case None
    then show ?thesis using 2 by simp
  next
    case (Some info)
    obtain ret1 info1 r1 where f: "flush_info E W Q (px_last_flush X) r info = Some (ret1, info1, r1)"
      "None \<notin> set (mi_deals info1)"
      using flush_info_printed [OF all_printedD [OF 2(3) Some]] by metis
    have "all_printed (X\<lparr>px_markets := (px_markets X)(name \<mapsto> info1)\<rparr>)"
      using 2(3) f(2) by (auto intro!: all_printedI dest: all_printedD split: if_splits)
    then show ?thesis using 2(2) [OF Some f(1)] Some f by (auto simp: Let_def)
  qed
qed simp

lemma market_update_printed:
  assumes "all_printed X" "\<forall>v. json_dumps (json E) v 0 \<noteq> None"
  shows "all_printed (snd (market_update E Z market timestamp price amount side id' X))"
proof (rule all_printedI)
  fix m info
  assume m: "px_markets (snd (market_update E Z market timestamp price amount side id' X)) m = Some info"
  show "None \<notin> set (mi_deals info)"
  proof (cases "m = market")
    case True
    define old where "old = (case px_markets X market of Some info \<Rightarrow> info | None \<Rightarrow> create_market E market)"
    have "None \<notin> set (mi_deals old)"
      using all_printedD [OF assms(1)] by (cases "px_markets X market") (auto simp: old_def create_market_def)
    moreover have "mi_deals info = mi_deals old @ [json_dumps (json E) (deal_json E timestamp price amount side id') 0]"
      using m True by (auto simp: old_def market_update_def market_query_def Let_def tick_def append_deal_def)
    moreover have "json_dumps (json E) (deal_json E timestamp price amount side id') 0 \<noteq> None" using assms(2) by blast
    ultimately show ?thesis by auto
  next
    case False
    then show ?thesis using m all_printedD [OF assms(1)] by (simp add: market_update_other)
  qed
qed

lemma price_run_returns:
  assumes "\<forall>v. json_dumps (json E) v 0 \<noteq> None"
  shows "all_printed X \<Longrightarrow> \<exists>X' r'. price_run E st Z W Q evs (X, r) = Some (X', r') \<and> all_printed X'"
proof (induction evs arbitrary: X r)
  case (Cons ev evs)
  have "\<exists>X' r'. price_step E st Z W Q ev (X, r) = Some (X', r') \<and> all_printed X'"
  proof (cases ev)
    case (Message message offset)
    have "all_printed (on_deals_message E Z message offset X)"
      using market_update_printed [OF Cons.prems assms] Cons.prems
      by (auto simp: on_deals_message_def all_printed_def split: option.splits)
    then show ?thesis using Message by simp
  next
    case Clear_timer
    have "all_printed (on_clear_timer E st X)"
      using all_printedD [OF Cons.prems] by (intro all_printedI) (auto simp: clear_timer_market)
    then show ?thesis by (simp add: Clear_timer)
  next
    case Market_timer
    show ?thesis
    proof (cases "r_connect Q r")
      case (Pair ok r0)
      show ?thesis
        using flush_infos_printed [OF Cons.prems, of E W Q "wk_markets W (dom (px_markets X))" r0] Cons.prems Market_timer Pair
        by (cases ok) (auto simp: on_market_timer_def flush_market_def Let_def tick_def all_printed_def split: prod.splits)
    qed
  qed
  then show ?case using Cons.IH by fastforce
qed simp

end
