(* ===== verification/Wire.thy ===== *)
theory Wire
  imports Json_Laws Dec128
begin

text \<open>
  Numbers on their way between two processes: as texts in a JSON document. The locale \<open>wire\<close>
  joins what is relied on of the libraries for JSON and for decimal numbers.
\<close>

section \<open>The text of a number\<close>

lemma digit_ascii: "is_digit c \<Longrightarrow> of_char c \<in> {1 .. 127 :: nat}"
  by (auto simp: is_digit_def)

lemma plain_ascii: "plain m \<Longrightarrow> ascii m"
  by (auto simp: plain_def ascii_def list_all_iff dest!: digit_ascii bspec)

lemma unsigned_ascii:
  assumes "unsigned_ok s"
  shows "ascii s"
proof (cases "CHR ''e'' \<in> set s")
  case False
  then show ?thesis using assms plain_ascii by (simp add: unsigned_ok_def)
next
  case True
  have m: "ascii (mantissa s)" using assms by (simp add: unsigned_ok_def plain_ascii)
  have r: "exp_ok (exponent s)" using assms True by (simp add: unsigned_ok_def)
  have "ascii (exponent s)"
    using r digit_ascii by (cases "exponent s") (auto simp: exp_ok_def unsign_def ascii_def list_all_iff split: if_splits)
  moreover have "s = mantissa s @ CHR ''e'' # exponent s"
  proof -
    have "dropWhile (\<lambda>c. c \<noteq> CHR ''e'') s \<noteq> []" using True by (simp add: dropWhile_eq_Nil_conv)
    then obtain c r where c: "dropWhile (\<lambda>c. c \<noteq> CHR ''e'') s = c # r" by (cases "dropWhile (\<lambda>c. c \<noteq> CHR ''e'') s") auto
    then have "c = CHR ''e''" using hd_dropWhile [of "\<lambda>c. c \<noteq> CHR ''e''" s] by simp
    then have s: "s = mantissa s @ CHR ''e'' # r" using takeWhile_dropWhile_id [of "\<lambda>c. c \<noteq> CHR ''e''" s] c by (simp add: mantissa_def)
    then have "exponent s = r" unfolding exponent_def by (metis Suc_eq_plus1 append_eq_conv_conj drop_Suc_Cons drop_drop drop0 add.commute)
    then show ?thesis using s by simp
  qed
  moreover have "ascii (a @ CHR ''e'' # b)" if "ascii a" "ascii b" for a b using that by (simp add: ascii_def)
  ultimately show ?thesis using m by metis
qed

lemma numeric_ascii: "numeric s \<Longrightarrow> ascii s"
  using unsigned_ascii [of s] unsigned_ascii [of "tl s"]
  by (cases s) (auto simp: numeric_def ascii_def split: if_splits)

section \<open>Both libraries\<close>

locale wire = json_build J eq + mpd_text_lib M fin val
  for J :: "'j json_ops" and eq and M :: "'d mpd_ops" and fin val
begin

lemma number_text:
  assumes "fin x" "fits p (val x)"
  shows "ascii (mpd_to_sci M x) \<and> (\<exists>y. decimal M (mpd_to_sci M x) 0 = Some y \<and> fin y \<and> val y = val x)"
  using to_sci [OF assms(1)] decimal_numeric [of "mpd_to_sci M x" p] assms(2) numeric_ascii by simp

lemma json_number_text:
  assumes "fin x"
  shows "json_string_value J (Some (json_string J (mpd_json_string M x))) = Some (mpd_json_string M x)"
  using json_string_numeric [OF assms] numeric_ascii by (simp add: string_value)

end

interpretation jv_wire: wire jv_ops "(=)" dec_ops dec_fin dec_val
  by (simp add: wire_def jv.json_build_axioms dec_text.mpd_text_lib_axioms)

end
