(* ===== verification/Example_Prices.thy ===== *)
theory Example_Prices
  imports Price_Sound Example_Market
begin

text \<open>
  Two deals of one market on the price server, for the witnesses of its properties: 2 at the price
  100 after 61 seconds and 1 at the price 101 after 130 seconds.
\<close>

definition ex_price_settings :: price_settings where
  "ex_price_settings = \<lparr>pst_debug = False, pst_timezone = 0, pst_sec_max = 1000, pst_min_max = 1000, pst_hour_max = 1000,
     pst_cache_timeout = 1000\<rparr>"

text \<open>Days of a zone \<open>shift\<close> seconds ahead, counted on in the first month of 1970.\<close>

definition ex_zone :: "int \<Rightarrow> zone" where
  "ex_zone shift = \<lparr>tz_localtime = (\<lambda>t. (70, 0, (t + shift) div 86400 + 1)),
     tz_mktime = (\<lambda>(year, month, day). (day - 1) * 86400 - shift)\<rparr>"

definition ex_walks :: walks where
  "ex_walks = \<lparr>wk_updates = (\<lambda>_. []), wk_markets = (\<lambda>_. [])\<rparr>"

definition ex_redis :: "unit redis_ops" where
  "ex_redis = \<lparr>r_connect = Pair False, r_hgetall = (\<lambda>r _. (None, r)), r_lrange = (\<lambda>r _ _ _. (None, r)),
     r_get = (\<lambda>r _. (None, r)), r_set = (\<lambda>r _ _. (False, r)), r_hset = (\<lambda>r _ _ _. (False, r)),
     r_hdel = (\<lambda>r _ _. (False, r)), r_lpush = (\<lambda>r _ _. (False, r)), r_ltrim = (\<lambda>r _ _ _. (False, r))\<rparr>"

definition ex_deal_doc :: "int \<Rightarrow> string \<Rightarrow> string \<Rightarrow> jv" where
  "ex_deal_doc time price amount = JArr [JReal time, JStr ''BTCCNY'', JInt 1, JInt 2, JInt 1, JInt 2, JStr price, JStr amount,
     JStr ''0'', JStr ''0'', JInt 1, JInt 1]"

definition ex_prices :: "(dec, jv) prices" where
  "ex_prices = \<lparr>px_markets = Map.empty, px_last_flush = 0, px_last_offset = 0, px_ticks = 0\<rparr>"

definition ex_events :: "price_event list" where
  "ex_events = [Message (show_jv (ex_deal_doc 61000000 ''100'' ''2'')) 1, Message (show_jv (ex_deal_doc 130000000 ''101'' ''1'')) 2]"

definition ex_deals :: "dec deal list" where
  "ex_deals = [(61, Dec 100 0, Dec 2 0), (130, Dec 101 0, Dec 1 0)]"

lemma ex_json [simp]: "json ex_env = jv_ops" "clock ex_env = int"
  by (simp_all add: ex_env_def)

lemma jv_load [simp]: "json_loadb jv_ops (show_jv v) = Some v"
  by (rule jv_round_trip [of _ 0]) (simp add: jv_ops_def)

lemma jv_sel [simp]:
  "json_is_array jv_ops = jv_is_array" "json_array_size jv_ops v = length (jv_items v)"
  "json_array_get jv_ops v i = (if i < length (jv_items v) then Some (jv_items v ! i) else None)"
  "json_real_value jv_ops (Some (JReal t)) = t" "json_string_value jv_ops (Some (JStr s)) = Some s"
  "json_integer_value jv_ops (Some (JInt k)) = k"
  by (simp_all add: jv_ops_def)

lemma ex_deal_message:
  assumes "time \<noteq> 0" "decimal dec_ops price 0 = Some p" "decimal dec_ops amount 0 = Some a"
  shows "deal_message ex_env (show_jv (ex_deal_doc time price amount)) = Some (time, ''BTCCNY'', p, a, 1, 1)"
  unfolding deal_message_def ex_json jv_load
  using assms by (simp add: ex_deal_doc_def Let_def MARKET_ORDER_SIDE_ASK_def)

lemma ex_decimals:
  "decimal dec_ops ''100'' 0 = Some (Dec 100 0)" "decimal dec_ops ''101'' 0 = Some (Dec 101 0)"
  "decimal dec_ops ''2'' 0 = Some (Dec 2 0)" "decimal dec_ops ''1'' 0 = Some (Dec 1 0)"
  by code_simp+

lemma ex_messages:
  "deal_message ex_env (show_jv (ex_deal_doc 61000000 ''100'' ''2'')) = Some (61000000, ''BTCCNY'', Dec 100 0, Dec 2 0, 1, 1)"
  "deal_message ex_env (show_jv (ex_deal_doc 130000000 ''101'' ''1'')) = Some (130000000, ''BTCCNY'', Dec 101 0, Dec 1 0, 1, 1)"
  by (simp_all add: ex_deal_message ex_decimals)

lemma ex_seconds [simp]: "seconds 61000000 = 61" "seconds 130000000 = 130"
  by (simp_all add: seconds_def)

lemma ex_deals_of_run: "deals_of_run ex_env ''BTCCNY'' ex_events = ex_deals"
  by (simp add: deals_of_run_def ex_events_def deals_of_def ex_messages ex_deals_def)

lemma ex_deals_fin: "deals_fin dec_fin ex_deals"
  by (simp add: deals_fin_def ex_deals_def)

lemma ex_vals: "vals dec_val ex_deals = [(100, 2), (101, 1)]"
  by (simp add: vals_def ex_deals_def)

lemma ex_deals_fit: "deals_fit 8 (vals dec_val ex_deals)"
  by (simp add: ex_vals deals_fit_def fits_def)

lemma ex_dumps: "\<forall>v. json_dumps (json ex_env) v 0 \<noteq> None"
  by (simp add: jv_ops_def)

text \<open>The market after these events, seen at the time of 200 seconds.\<close>

definition ex_info :: "(dec, jv) market_info" where
  "ex_info = the (px_markets (on_deals_message ex_env (ex_zone 0) (show_jv (ex_deal_doc 130000000 ''101'' ''1'')) 2
     (on_deals_message ex_env (ex_zone 0) (show_jv (ex_deal_doc 61000000 ''100'' ''2'')) 1 ex_prices)) ''BTCCNY'')"

lemma ex_price_run: "price_run ex_env ex_price_settings (ex_zone 0) ex_walks ex_redis ex_events (ex_prices, ()) =
  Some (on_deals_message ex_env (ex_zone 0) (show_jv (ex_deal_doc 130000000 ''101'' ''1'')) 2
     (on_deals_message ex_env (ex_zone 0) (show_jv (ex_deal_doc 61000000 ''100'' ''2'')) 1 ex_prices), ())"
  by (simp add: ex_events_def)

lemma ex_info_ok: "info_ok dec_fin dec_val ex_price_settings (ex_zone 0) 200 ex_deals ex_info"
proof -
  let ?X = "on_deals_message ex_env (ex_zone 0) (show_jv (ex_deal_doc 130000000 ''101'' ''1'')) 2
     (on_deals_message ex_env (ex_zone 0) (show_jv (ex_deal_doc 61000000 ''100'' ''2'')) 1 ex_prices)"
  have t: "\<forall>n<px_ticks ?X. clock ex_env n \<le> 200000000"
    by (simp add: on_deals_message_def ex_messages market_update_def Let_def tick_def ex_prices_def)
  have "prices_ok dec_fin dec_val ex_price_settings (ex_zone 0) (seconds 200000000) ([] @ deals_of_run ex_env ''BTCCNY'' ex_events)
      (px_markets ?X ''BTCCNY'')"
    by (rule mpd_lib.price_run_ok [OF dec_mpd_lib ex_simps(1) t _ _ _ ex_price_run, where p = 8])
      (simp_all add: prices_ok_def ex_prices_def ex_deals_of_run ex_deals_fin ex_deals_fit)
  then show ?thesis
    by (auto simp: prices_ok_def ex_deals_of_run ex_deals_def ex_info_def seconds_def split: option.splits)
qed

end
