(* ===== verification/Deal_Feed.thy ===== *)
theory Deal_Feed
  imports Price_Sound Wire Example_Prices
begin

text \<open>
  From the matching engine to the price server: the messages \<^verbatim>\<open>push_deal_message\<close> gives to
  the broker, read by \<^verbatim>\<open>on_deals_message\<close>, are the deals of the engine.
\<close>

section \<open>One message\<close>

text \<open>The arguments of one call of \<^verbatim>\<open>push_deal_message\<close>.\<close>

record 'd pushed_deal =
  pd_time :: int
  pd_market :: string
  pd_ask :: "'d order"
  pd_bid :: "'d order"
  pd_price :: 'd
  pd_amount :: 'd
  pd_ask_fee :: 'd
  pd_bid_fee :: 'd
  pd_side :: u32
  pd_id :: u64
  pd_stock :: string
  pd_money :: string

definition push_deal :: "('d, 'j) env \<Rightarrow> 'd pushed_deal \<Rightarrow> 'j messages \<Rightarrow> 'j messages" where
  "push_deal E d ms = push_deal_message E (pd_time d) (pd_market d) (pd_ask d) (pd_bid d) (pd_price d) (pd_amount d)
     (pd_ask_fee d) (pd_bid_fee d) (pd_side d) (pd_id d) (pd_stock d) (pd_money d) ms"

text \<open>What the engine's deals are like.\<close>

definition deal_ok :: "('d \<Rightarrow> bool) \<Rightarrow> ('d \<Rightarrow> rat) \<Rightarrow> int \<Rightarrow> 'd pushed_deal \<Rightarrow> bool" where
  "deal_ok fin val p d \<longleftrightarrow> pd_time d \<noteq> 0 \<and> ascii (pd_market d) \<and> fin (pd_price d) \<and> fits p (val (pd_price d)) \<and>
     fin (pd_amount d) \<and> fits p (val (pd_amount d)) \<and> (pd_side d = MARKET_ORDER_SIDE_ASK \<or> pd_side d = MARKET_ORDER_SIDE_BID) \<and>
     pd_id d \<noteq> 0"

text \<open>The document of a deal.\<close>

definition deal_document :: "('d, 'j) env \<Rightarrow> 'd pushed_deal \<Rightarrow> 'j" where
  "deal_document E d = json_array (json E) [json_real (json E) (pd_time d), json_string (json E) (pd_market d),
     json_integer (json E) (sint (o_id (pd_ask d))), json_integer (json E) (sint (o_id (pd_bid d))),
     json_integer (json E) (uint (o_user_id (pd_ask d))), json_integer (json E) (uint (o_user_id (pd_bid d))),
     json_mpd_raw E (pd_price d), json_mpd_raw E (pd_amount d), json_mpd_raw E (pd_ask_fee d), json_mpd_raw E (pd_bid_fee d),
     json_integer (json E) (uint (pd_side d)), json_integer (json E) (sint (pd_id d)),
     json_string (json E) (pd_stock d), json_string (json E) (pd_money d)]"

lemma push_deal_message: "push_deal E d ms = fst (push_message (kafka E) Deals (deal_document E d) ms)"
  by (simp add: push_deal_def push_deal_message_def deal_document_def)

text \<open>The price server reads the deal.\<close>

context wire
begin

lemma deal_message_reads:
  assumes E: "json E = J" "mpd E = M" "json E' = J" "mpd E' = M" and ok: "deal_ok fin val p d"
    and s: "json_dumps J (deal_document E d) 0 = Some message"
  shows "\<exists>price amount. deal_message E' message = Some (pd_time d, pd_market d, price, amount, pd_side d, pd_id d) \<and>
    fin price \<and> val price = val (pd_price d) \<and> fin amount \<and> val amount = val (pd_amount d)"
proof -
  note D = ok [unfolded deal_ok_def]
  obtain v where v: "json_loadb J message = Some v" "eq (deal_document E d) v" using loads [OF s] by blast
  have get: "rel_option eq (json_array_get J (deal_document E d) i) (json_array_get J v i)" for i
    using array_eqD(3) [OF v(2)] .
  have a: "json_is_array J v" "json_array_size J v = 14"
    using array_eqD(1,2) [OF v(2)] E by (simp_all add: deal_document_def)
  have str: "json_string_value J (json_array_get J v i) = json_string_value J (json_array_get J (deal_document E d) i)" for i
    using scalar_eqD(4) [OF get] .
  have num: "json_integer_value J (json_array_get J v i) = json_integer_value J (json_array_get J (deal_document E d) i)" for i
    using scalar_eqD(2) [OF get] .
  have t: "json_real_value J (json_array_get J v 0) = pd_time d"
    using value_eq [OF get, of 0] E by (simp add: deal_document_def real_value)
  obtain price where price: "decimal M (mpd_to_sci M (pd_price d)) 0 = Some price" "fin price" "val price = val (pd_price d)"
    "ascii (mpd_to_sci M (pd_price d))" using number_text D by blast
  obtain amount where amount: "decimal M (mpd_to_sci M (pd_amount d)) 0 = Some amount" "fin amount" "val amount = val (pd_amount d)"
    "ascii (mpd_to_sci M (pd_amount d))" using number_text D by blast
  have strs: "json_string_value J (json_array_get J v 1) = Some (pd_market d)"
    "json_string_value J (json_array_get J v 6) = Some (mpd_to_sci M (pd_price d))"
    "json_string_value J (json_array_get J v 7) = Some (mpd_to_sci M (pd_amount d))"
    using D price(4) amount(4) E by (simp_all add: str deal_document_def json_mpd_raw_def string_value)
  have "sint (pd_id d) < 2 ^ 63" "- (2 ^ 63) \<le> sint (pd_id d)" using sint_lt [of "pd_id d"] sint_ge [of "pd_id d"] by simp_all
  then have id': "json_integer_value J (json_array_get J v 11) = sint (pd_id d)"
    using E by (simp add: num deal_document_def integer_simps)
  have side: "json_integer_value J (json_array_get J v 10) = uint (pd_side d)"
  proof -
    have "uint (pd_side d) < 2 ^ LENGTH(32)" by (rule unsigned_less)
    moreover have "- (2 ^ 63) \<le> uint (pd_side d)" by (rule order_trans [of _ 0]) simp_all
    ultimately show ?thesis using E integer_simps [of "uint (pd_side d)"] by (simp add: num deal_document_def)
  qed
  have "deal_message E' message = Some (pd_time d, pd_market d, price, amount, pd_side d, pd_id d)"
    unfolding deal_message_def E v Let_def
    using D a t strs price(1) amount(1) side id' by auto
  then show ?thesis using price amount by blast
qed

end

section \<open>The stream of deals\<close>

text \<open>The engine pushes deals, and its timer tries again what the broker did not take.\<close>

datatype 'd feed = Push "'d pushed_deal" | Retry

fun run_feed :: "('d, 'j) env \<Rightarrow> 'd feed list \<Rightarrow> 'j messages \<Rightarrow> 'j messages" where
  "run_feed E [] ms = ms"
| "run_feed E (Push d # fs) ms = run_feed E fs (push_deal E d ms)"
| "run_feed E (Retry # fs) ms = run_feed E fs (message_on_timer (kafka E) ms)"

definition pushed :: "'d feed list \<Rightarrow> 'd pushed_deal list" where
  "pushed fs = List.map_filter (\<lambda>f. case f of Push d \<Rightarrow> Some d | Retry \<Rightarrow> None) fs"

lemma pushed_simps [simp]: "pushed [] = []" "pushed (Push d # fs) = d # pushed fs" "pushed (Retry # fs) = pushed fs"
  by (simp_all add: pushed_def List.map_filter_def)

lemma run_feed_settled:
  "settled Deals given ms \<Longrightarrow> settled Deals (given @ map (deal_document E) (pushed fs)) (run_feed E fs ms)"
proof (induction fs arbitrary: given ms)
  case (Cons f fs)
  show ?case
  proof (cases f)
    case (Push d)
    have "settled Deals (given @ [deal_document E d]) (push_deal E d ms)"
      using push_settled [OF Cons.prems] by (simp add: push_deal_message)
    from Cons.IH [OF this] show ?thesis by (simp add: Push)
  next
    case Retry
    have "settled Deals given (message_on_timer (kafka E) ms)"
      using flush_settled [of Deals given] Cons.prems by (simp add: message_on_timer_def flush_settled_other)
    from Cons.IH [OF this] show ?thesis by (simp add: Retry)
  qed
qed simp

lemma run_feed_lossless:
  assumes "\<And>n. kafka E n \<noteq> ProduceError"
  shows "ms_lost ms Deals = [] \<Longrightarrow> ms_lost (run_feed E fs ms) Deals = []"
proof (induction fs arbitrary: ms)
  case (Cons f fs)
  then show ?case
    by (cases f) (simp_all add: push_deal_message push_lossless [OF assms] message_on_timer_def flush_lossless [OF assms])
qed simp

text \<open>The deals of a market as numbers.\<close>

definition deal_numbers :: "('d \<Rightarrow> rat) \<Rightarrow> 'd deal list \<Rightarrow> (int \<times> rat \<times> rat) list" where
  "deal_numbers val ds = map (\<lambda>(s, price, amount). (s, val price, val amount)) ds"

lemma deal_numbers_simps [simp]: "deal_numbers val [] = []" "deal_numbers val (ds @ es) = deal_numbers val ds @ deal_numbers val es"
  "deal_numbers val ((s, price, amount) # ds) = (s, val price, val amount) # deal_numbers val ds"
  by (simp_all add: deal_numbers_def)

context wire
begin

lemma deals_of_messages:
  assumes E: "json E = J" "mpd E = M" "json E' = J" "mpd E' = M"
  shows "\<forall>d\<in>set ds. deal_ok fin val p d \<Longrightarrow>
    map (\<lambda>d. json_dumps J (deal_document E d) 0) ds = map (\<lambda>(message, offset). Some message) texts \<Longrightarrow>
    deal_numbers val (deals_of_run E' m (map (\<lambda>(message, offset). Message message offset) texts)) =
      map (\<lambda>d. (seconds (pd_time d), val (pd_price d), val (pd_amount d))) (filter (\<lambda>d. pd_market d = m) ds) \<and>
    deals_fin fin (deals_of_run E' m (map (\<lambda>(message, offset). Message message offset) texts))"
proof (induction ds arbitrary: texts)
  case Nil
  then show ?case by (simp add: deals_of_run_def deals_fin_def)
next
  case (Cons d ds)
  then obtain message offset texts' where texts: "texts = (message, offset) # texts'"
    "json_dumps J (deal_document E d) 0 = Some message"
    "map (\<lambda>d. json_dumps J (deal_document E d) 0) ds = map (\<lambda>(message, offset). Some message) texts'"
    by (cases texts) (auto split: prod.splits)
  obtain price amount where r: "deal_message E' message = Some (pd_time d, pd_market d, price, amount, pd_side d, pd_id d)"
    "fin price" "val price = val (pd_price d)" "fin amount" "val amount = val (pd_amount d)"
    using deal_message_reads [OF E _ texts(2), of p] Cons.prems(1) by (auto simp del: not_None_eq)
  have "deals_of E' m (Message message offset) = (if pd_market d = m then [(seconds (pd_time d), price, amount)] else [])"
    using r(1) by (simp add: deals_of_def)
  then show ?case
    using Cons.IH [OF _ texts(3)] Cons.prems(1) r by (auto simp: texts(1) deals_of_run_def deals_fin_def)
qed

end

text \<open>
  C22. The engine's deals reach the candles: whatever deals the engine pushes and whatever the
  broker answers, the deals fall into those it accepted, those it refused with another error than
  a full queue, and those that still wait. The price server that reads the topic from its beginning
  files exactly the accepted ones, in the order in which they were made, with the same time, price
  and amount. When a full queue is the broker's only refusal, none is refused for good: the price
  server files the first deals of all that were pushed, without a gap. Prices and amounts are finite and
  have at most 34 digits, names of markets are ASCII, times and ids are not 0. The candles then sum them
  up (C18).
\<close>

theorem deals_reach_price_server:
  assumes "json_build (json E) eq" "mpd_text_lib (mpd E) fin val" "json E' = json E" "mpd E' = mpd E"
    "\<forall>d\<in>set (pushed fs). deal_ok fin val p d"
    "map (\<lambda>doc. json_dumps (json E) doc 0) (ms_sent (run_feed E fs init_message) Deals) =
       map (\<lambda>(message, offset). Some message) texts"
  shows "\<exists>accepted refused waiting. pushed fs \<in> {gs @ waiting | gs. gs \<in> shuffles accepted refused} \<and>
    map (deal_document E) accepted = ms_sent (run_feed E fs init_message) Deals \<and>
    map (deal_document E) refused = ms_lost (run_feed E fs init_message) Deals \<and>
    map (deal_document E) waiting = ms_pending (run_feed E fs init_message) Deals \<and>
    ((\<forall>n. kafka E n \<noteq> ProduceError) \<longrightarrow> pushed fs = accepted @ waiting) \<and>
    (\<forall>m. deal_numbers val (deals_of_run E' m (map (\<lambda>(message, offset). Message message offset) texts)) =
       map (\<lambda>d. (seconds (pd_time d), val (pd_price d), val (pd_amount d))) (filter (\<lambda>d. pd_market d = m) accepted))"
proof -
  let ?ms = "run_feed E fs init_message"
  have "settled Deals (map (deal_document E) (pushed fs)) ?ms"
    using run_feed_settled [of "[]" init_message E fs] by (simp add: settled_def init_message_def)
  then obtain gs where gs: "map (deal_document E) (pushed fs) = gs @ ms_pending ?ms Deals" "gs \<in> shuffles (ms_sent ?ms Deals) (ms_lost ?ms Deals)"
    by (auto simp: settled_def)
  obtain hs ws where hs: "pushed fs = hs @ ws" "map (deal_document E) hs = gs" "map (deal_document E) ws = ms_pending ?ms Deals"
    using gs(1) by (auto simp: map_eq_append_conv)
  obtain ds ls where ds: "hs \<in> shuffles ds ls" "map (deal_document E) ds = ms_sent ?ms Deals" "map (deal_document E) ls = ms_lost ?ms Deals"
    using shuffles_mapD [of "deal_document E" hs] gs(2) hs(2) by blast
  have docs: "map (\<lambda>d. json_dumps (json E) (deal_document E d) 0) ds = map (\<lambda>(message, offset). Some message) texts"
    using assms(6) ds(2) by (metis (no_types, lifting) comp_apply list.map_comp map_eq_conv)
  have w: "wire (json E) eq (mpd E) fin val" using assms(1,2) by (simp add: wire_def)
  have ok: "\<forall>d\<in>set ds. deal_ok fin val p d" using assms(5) hs(1) ds(1) set_shuffles [of hs ds ls] by simp
  have "pushed fs = ds @ ws" if "\<forall>n. kafka E n \<noteq> ProduceError"
  proof -
    have "ls = []" using run_feed_lossless [of E init_message fs] that ds(3) by (simp add: init_message_def)
    then show ?thesis using hs(1) ds(1) by simp
  qed
  then show ?thesis
    using ds hs wire.deals_of_messages [OF w refl refl assms(3,4) ok docs]
    by (intro exI [of _ ds] exI [of _ ls] exI [of _ ws]) blast
qed

definition ex_pushed :: "int \<Rightarrow> dec \<Rightarrow> dec \<Rightarrow> dec pushed_deal" where
  "ex_pushed time price amount = \<lparr>pd_time = time, pd_market = ''BTCCNY'', pd_ask = ex_order, pd_bid = ex_order, pd_price = price,
     pd_amount = amount, pd_ask_fee = Dec 0 0, pd_bid_fee = Dec 0 0, pd_side = 1, pd_id = 1, pd_stock = ''BTC'', pd_money = ''CNY''\<rparr>"

text \<open>A broker whose queue is first full, which then refuses the first deal for good and accepts what follows.\<close>

definition ex_broker :: "nat \<Rightarrow> produce_result" where
  "ex_broker n = (if n = 0 then QueueFull else if n = 1 then ProduceError else Produced)"

lemma deals_reach_price_server_witness:
  "deal_numbers dec_val (deals_of_run ex_env ''BTCCNY'' (map (\<lambda>(message, offset). Message message offset)
     [(show_jv (deal_document ex_env (ex_pushed 130000000 (Dec 101 0) (Dec 1 0))), 1)])) = [(130, 101, 1)]"
proof -
  let ?E = "ex_env\<lparr>kafka := ex_broker\<rparr>"
  let ?d = "ex_pushed 61000000 (Dec 100 0) (Dec 2 0)" and ?e = "ex_pushed 130000000 (Dec 101 0) (Dec 1 0)"
  let ?fs = "[Push ?d, Retry, Push ?e]"
  have doc: "deal_document ?E d = deal_document ex_env d" for d
    by (simp add: deal_document_def json_mpd_raw_def)
  have run: "ms_sent (run_feed ?E ?fs init_message) Deals = [deal_document ex_env ?e]"
    "ms_lost (run_feed ?E ?fs init_message) Deals = [deal_document ex_env ?d]"
    "ms_pending (run_feed ?E ?fs init_message) Deals = []"
    by (simp_all add: push_deal_message push_message_def init_message_def produce_def mark_sent_def mark_lost_def set_pending_def
        message_on_timer_def flush_topic_def ex_broker_def doc)
  have ok: "\<forall>d\<in>set (pushed ?fs). deal_ok dec_fin dec_val 8 d"
    by (auto simp: deal_ok_def ex_pushed_def ascii_def fits_def MARKET_ORDER_SIDE_ASK_def)
  have b: "json_build (json ?E) (=)" using jv.json_build_axioms by (simp add: ex_env_def)
  have t: "mpd_text_lib (mpd ?E) dec_fin dec_val" using dec_text.mpd_text_lib_axioms by (simp add: ex_env_def)
  have e: "json ex_env = json ?E" "mpd ex_env = mpd ?E" by simp_all
  have texts: "map (\<lambda>doc. json_dumps (json ?E) doc 0) (ms_sent (run_feed ?E ?fs init_message) Deals) =
      map (\<lambda>(message, offset). Some message) [(show_jv (deal_document ex_env ?e), 1)]"
    by (simp only: run) (simp add: jv_ops_def)
  have ne: "deal_document ex_env ?d \<noteq> deal_document ex_env ?e"
    by (simp add: deal_document_def ex_pushed_def jv_ops_def)
  obtain accepted refused waiting where f: "pushed ?fs \<in> {gs @ waiting | gs. gs \<in> shuffles accepted refused}"
    "map (deal_document ex_env) accepted = [deal_document ex_env ?e]" "map (deal_document ex_env) refused = [deal_document ex_env ?d]"
    "map (deal_document ex_env) waiting = []"
    "\<forall>m. deal_numbers dec_val (deals_of_run ex_env m (map (\<lambda>(message, offset). Message message offset)
       [(show_jv (deal_document ex_env ?e), 1)])) =
       map (\<lambda>d. (seconds (pd_time d), dec_val (pd_price d), dec_val (pd_amount d))) (filter (\<lambda>d. pd_market d = m) accepted)"
    using deals_reach_price_server [OF b t e ok texts] unfolding run doc by (elim exE conjE) (rule that)
  have "[?d, ?e] \<in> shuffles accepted refused" using f(1,4) by simp
  moreover obtain d e where "accepted = [d]" "refused = [e]" "deal_document ex_env d = deal_document ex_env ?e"
    using f(2,3) by (auto simp: map_eq_Cons_conv)
  ultimately have "accepted = [?e]" using ne by auto
  then show ?thesis by (simp only: f(5) [rule_format]) (simp add: ex_pushed_def)
qed

end
