(* ===== verification/Candles.thy ===== *)
theory Candles
  imports Prices "HOL-Library.While_Combinator"
begin

text \<open>
  \<^verbatim>\<open>marketprice/mp_message.c\<close>, third part: the answers of the price server, candles of any
  interval put together from the stored ones. A loop that steps through times is a walk over the
  list of the times it visits. \<open>None\<close> is the NULL of an unknown market, and for the candles of
  months a call that does not return.
\<close>

section \<open>Loops over times\<close>

text \<open>
  The times of \<^verbatim>\<open>for (t = start; t < stop; t += step)\<close> and of
  \<^verbatim>\<open>for (t = start; t >= stop; t -= step)\<close>, for a positive step.
\<close>

definition times_up :: "int \<Rightarrow> int \<Rightarrow> int \<Rightarrow> int list" where
  "times_up start stop step = map (\<lambda>i. start + int i * step) [0..<nat ((stop - start + step - 1) div step)]"

definition times_down :: "int \<Rightarrow> int \<Rightarrow> int \<Rightarrow> int list" where
  "times_down start stop step = map (\<lambda>i. start - int i * step) [0..<nat ((start - stop) div step + 1)]"

fun first_kline :: "(int \<rightharpoonup> 'd kline_info) \<Rightarrow> int list \<Rightarrow> 'd kline_info option" where
  "first_kline D [] = None"
| "first_kline D (t # ts) = (case D t of Some kinfo \<Rightarrow> Some kinfo | None \<Rightarrow> first_kline D ts)"

definition get_last_kline :: "(int \<rightharpoonup> 'd kline_info) \<Rightarrow> int \<Rightarrow> int \<Rightarrow> int \<Rightarrow> 'd kline_info option" where
  "get_last_kline D start stop interval = first_kline D (times_down start stop interval)"

text \<open>The loop that merges the candles of some times.\<close>

fun merge_klines :: "'d mpd_ops \<Rightarrow> (int \<rightharpoonup> 'd kline_info) \<Rightarrow> int list \<Rightarrow> 'd kline_info option \<Rightarrow> 'd kline_info option" where
  "merge_klines M D [] kinfo = kinfo"
| "merge_klines M D (t # ts) kinfo =
     (case D t of
        None \<Rightarrow> merge_klines M D ts kinfo
      | Some item \<Rightarrow>
          merge_klines M D ts
            (Some (kline_info_merge M (case kinfo of None \<Rightarrow> kline_info_new M (k_open item) | Some k \<Rightarrow> k) item)))"

section \<open>The state of a market\<close>

definition market_exist :: "('d, 'j) prices \<Rightarrow> string \<Rightarrow> bool" where
  "market_exist X market = (market_query X market \<noteq> None)"

text \<open>The seconds up to the next full minute, then the minutes.\<close>

definition period_kline :: "'d mpd_ops \<Rightarrow> ('d, 'j) market_info \<Rightarrow> int \<Rightarrow> int \<Rightarrow> 'd kline_info option" where
  "period_kline M info start now =
     (let start_min = start sdiv 60 * 60 + 60
      in merge_klines M (mi_min info) (times_up start_min now 60)
           (merge_klines M (mi_sec info) (times_up start start_min 1) None))"

definition get_market_status ::
  "('d, 'j) env \<Rightarrow> string \<Rightarrow> int \<Rightarrow> ('d, 'j) prices \<Rightarrow> 'j option \<times> ('d, 'j) prices" where
  "get_market_status E market period X =
     (case market_query X market of
        None \<Rightarrow> (None, X)
      | Some info \<Rightarrow>
          let (clk, X) = tick E X; now = seconds clk; M = mpd E;
              kinfo = (case period_kline M info (now - period) now of Some k \<Rightarrow> k | None \<Rightarrow> kline_info_new M (mpd_zero M))
          in (Some (json_object (json E)
               [(''period'', json_integer (json E) period), (''last'', json_mpd E (mi_last info)),
                (''open'', json_mpd E (k_open kinfo)), (''close'', json_mpd E (k_close kinfo)),
                (''high'', json_mpd E (k_high kinfo)), (''low'', json_mpd E (k_low kinfo)),
                (''volume'', json_mpd E (k_volume kinfo)), (''deal'', json_mpd E (k_deal kinfo))]), X))"

text \<open>The sums of \<^verbatim>\<open>get_market_status_today\<close> over the last day.\<close>

fun sum_klines :: "'d mpd_ops \<Rightarrow> (int \<rightharpoonup> 'd kline_info) \<Rightarrow> int list \<Rightarrow> 'd \<times> 'd \<Rightarrow> 'd \<times> 'd" where
  "sum_klines M D [] acc = acc"
| "sum_klines M D (t # ts) (volume, deal) =
     (case D t of
        None \<Rightarrow> sum_klines M D ts (volume, deal)
      | Some k \<Rightarrow> sum_klines M D ts (mpd_add M volume (k_volume k), mpd_add M deal (k_deal k)))"

definition day_sums :: "'d mpd_ops \<Rightarrow> ('d, 'j) market_info \<Rightarrow> int \<Rightarrow> 'd \<times> 'd" where
  "day_sums M info now =
     (let start_24h = now - 86400; start_min = start_24h sdiv 60 * 60 + 60
      in sum_klines M (mi_min info) (times_up start_min now 60)
           (sum_klines M (mi_sec info) (times_up start_24h start_min 1) (mpd_zero M, mpd_zero M)))"

definition today_prices :: "('d, 'j) env \<Rightarrow> ('d, 'j) market_info \<Rightarrow> int \<Rightarrow> (string \<times> 'j) list" where
  "today_prices E info start =
     (let klast = get_last_kline (mi_day info) (start - 86400) (start - 86400 * 30) 86400
      in case mi_day info start of
           Some today \<Rightarrow> [(''open'', json_mpd E (k_open today)), (''last'', json_mpd E (k_close today)),
             (''high'', json_mpd E (k_high today)), (''low'', json_mpd E (k_low today))]
         | None \<Rightarrow>
             (case klast of
                Some k \<Rightarrow> [(''open'', json_mpd E (k_close k)), (''last'', json_mpd E (k_close k)),
                  (''high'', json_mpd E (k_close k)), (''low'', json_mpd E (k_close k))]
              | None \<Rightarrow> [(''open'', json_string (json E) ''0''), (''last'', json_string (json E) ''0''),
                  (''high'', json_string (json E) ''0''), (''low'', json_string (json E) ''0'')]))"

definition get_market_status_today ::
  "('d, 'j) env \<Rightarrow> zone \<Rightarrow> string \<Rightarrow> ('d, 'j) prices \<Rightarrow> 'j option \<times> ('d, 'j) prices" where
  "get_market_status_today E Z market X =
     (case market_query X market of
        None \<Rightarrow> (None, X)
      | Some info \<Rightarrow>
          let (clk, X) = tick E X; now = seconds clk; (volume, deal) = day_sums (mpd E) info now
          in (Some (json_object (json E) (today_prices E info (get_day_start Z now) @
               [(''volume'', json_mpd E volume), (''deal'', json_mpd E deal)])), X))"

section \<open>Candles of an interval\<close>

definition append_kinfo :: "('d, 'j) env \<Rightarrow> int \<Rightarrow> 'd kline_info \<Rightarrow> string \<Rightarrow> 'j" where
  "append_kinfo E timestamp kinfo market = json_array (json E)
     [json_integer (json E) timestamp, json_mpd E (k_open kinfo), json_mpd E (k_close kinfo), json_mpd E (k_high kinfo),
      json_mpd E (k_low kinfo), json_mpd E (k_volume kinfo), json_mpd E (k_deal kinfo), json_string (json E) market]"

text \<open>
  The loop that five of the functions share: the candle of each start is merged from the stored
  ones at \<open>steps start\<close>; without any, it is flat at the last close, and left out when there is
  none. The results are the starts and their candles.
\<close>

fun kline_loop ::
  "'d mpd_ops \<Rightarrow> (int \<rightharpoonup> 'd kline_info) \<Rightarrow> (int \<Rightarrow> int list) \<Rightarrow> int list \<Rightarrow> 'd kline_info option \<Rightarrow> (int \<times> 'd kline_info) list" where
  "kline_loop M D steps [] klast = []"
| "kline_loop M D steps (start # starts) klast =
     (case merge_klines M D (steps start) None of
        Some kinfo \<Rightarrow> (start, kinfo) # kline_loop M D steps starts (Some kinfo)
      | None \<Rightarrow>
          (case klast of
             None \<Rightarrow> kline_loop M D steps starts None
           | Some k \<Rightarrow>
               let kinfo = kline_info_new M (k_close k)
               in (start, kinfo) # kline_loop M D steps starts (Some kinfo)))"

text \<open>The times of the inner loop, \<^verbatim>\<open>step\<close> of them.\<close>

definition inner_times :: "int \<Rightarrow> int \<Rightarrow> int \<Rightarrow> int list" where
  "inner_times interval unit start = map (\<lambda>i. start + int i * unit) [0..<nat (interval sdiv unit)]"

definition klines_json :: "('d, 'j) env \<Rightarrow> string \<Rightarrow> (int \<times> 'd kline_info) list \<Rightarrow> 'j" where
  "klines_json E market ks = json_array (json E) (map (\<lambda>(t, k). append_kinfo E t k market) ks)"

definition klines_sec ::
  "'d mpd_ops \<Rightarrow> price_settings \<Rightarrow> ('d, 'j) market_info \<Rightarrow> int \<Rightarrow> int \<Rightarrow> int \<Rightarrow> int \<Rightarrow> (int \<times> 'd kline_info) list" where
  "klines_sec M st info now start stop interval =
     (let start = (if start < sec_start st now then sec_start st now else start);
          start = start sdiv interval * interval;
          kbefor = get_last_kline (mi_sec info) (start - 1) (sec_start st now) 1
      in kline_loop M (mi_sec info) (inner_times interval 1) (times_up start (stop + 1) interval) kbefor)"

definition klines_min ::
  "'d mpd_ops \<Rightarrow> price_settings \<Rightarrow> ('d, 'j) market_info \<Rightarrow> int \<Rightarrow> int \<Rightarrow> int \<Rightarrow> int \<Rightarrow> (int \<times> 'd kline_info) list" where
  "klines_min M st info now start stop interval =
     (let start_min = min_start st now;
          start = (if start < start_min then start_min else start);
          start = start sdiv interval * interval;
          kbefor = get_last_kline (mi_min info) (start - 60) start_min 60
      in kline_loop M (mi_min info) (inner_times interval 60) (times_up start (stop + 1) interval) kbefor)"

text \<open>\<^verbatim>\<open>while ((base + interval) <= start) base += interval;\<close>\<close>

definition advance_base :: "int \<Rightarrow> int \<Rightarrow> int \<Rightarrow> int" where
  "advance_base base interval start = while (\<lambda>base. base + interval \<le> start) (\<lambda>base. base + interval) base"

definition klines_hour ::
  "'d mpd_ops \<Rightarrow> price_settings \<Rightarrow> zone \<Rightarrow> ('d, 'j) market_info \<Rightarrow> int \<Rightarrow> int \<Rightarrow> int \<Rightarrow> int \<Rightarrow> (int \<times> 'd kline_info) list" where
  "klines_hour M st Z info now start stop interval =
     (let start_min = hour_start st now;
          start = (if start < start_min then start_min else start);
          start = advance_base (get_day_start Z start) interval start;
          kbefor = get_last_kline (mi_hour info) (start - 3600) start_min 3600
      in kline_loop M (mi_hour info) (inner_times interval 3600) (times_up start (stop + 1) interval) kbefor)"

definition klines_from_days ::
  "'d mpd_ops \<Rightarrow> ('d, 'j) market_info \<Rightarrow> int \<Rightarrow> int \<Rightarrow> int \<Rightarrow> (int \<times> 'd kline_info) list" where
  "klines_from_days M info start stop interval =
     (let kbefor = get_last_kline (mi_day info) (start - 86400) (start - 86400 * 30) 86400
      in kline_loop M (mi_day info) (inner_times interval 86400) (times_up start (stop + 1) interval) kbefor)"

definition klines_day ::
  "'d mpd_ops \<Rightarrow> price_settings \<Rightarrow> ('d, 'j) market_info \<Rightarrow> int \<Rightarrow> int \<Rightarrow> int \<Rightarrow> (int \<times> 'd kline_info) list" where
  "klines_day M st info start stop interval =
     klines_from_days M info ((start - pst_timezone st) sdiv interval * interval + pst_timezone st) stop interval"

definition klines_week ::
  "'d mpd_ops \<Rightarrow> price_settings \<Rightarrow> ('d, 'j) market_info \<Rightarrow> int \<Rightarrow> int \<Rightarrow> int \<Rightarrow> (int \<times> 'd kline_info) list" where
  "klines_week M st info start stop interval =
     (let base = (start - pst_timezone st) sdiv interval * interval - 3 * 86400 + pst_timezone st
      in klines_from_days M info (advance_base base interval start) stop interval)"

text \<open>Each function for the JSON document; only the first three read the clock.\<close>

definition get_market_kline_sec ::
  "('d, 'j) env \<Rightarrow> price_settings \<Rightarrow> string \<Rightarrow> int \<Rightarrow> int \<Rightarrow> int \<Rightarrow> ('d, 'j) prices \<Rightarrow> 'j option \<times> ('d, 'j) prices" where
  "get_market_kline_sec E st market start stop interval X =
     (case market_query X market of
        None \<Rightarrow> (None, X)
      | Some info \<Rightarrow>
          let (clk, X) = tick E X
          in (Some (klines_json E market (klines_sec (mpd E) st info (seconds clk) start stop interval)), X))"

definition get_market_kline_min ::
  "('d, 'j) env \<Rightarrow> price_settings \<Rightarrow> string \<Rightarrow> int \<Rightarrow> int \<Rightarrow> int \<Rightarrow> ('d, 'j) prices \<Rightarrow> 'j option \<times> ('d, 'j) prices" where
  "get_market_kline_min E st market start stop interval X =
     (case market_query X market of
        None \<Rightarrow> (None, X)
      | Some info \<Rightarrow>
          let (clk, X) = tick E X
          in (Some (klines_json E market (klines_min (mpd E) st info (seconds clk) start stop interval)), X))"

definition get_market_kline_hour ::
  "('d, 'j) env \<Rightarrow> price_settings \<Rightarrow> zone \<Rightarrow> string \<Rightarrow> int \<Rightarrow> int \<Rightarrow> int \<Rightarrow> ('d, 'j) prices \<Rightarrow> 'j option \<times> ('d, 'j) prices" where
  "get_market_kline_hour E st Z market start stop interval X =
     (case market_query X market of
        None \<Rightarrow> (None, X)
      | Some info \<Rightarrow>
          let (clk, X) = tick E X
          in (Some (klines_json E market (klines_hour (mpd E) st Z info (seconds clk) start stop interval)), X))"

definition get_market_kline_day ::
  "('d, 'j) env \<Rightarrow> price_settings \<Rightarrow> string \<Rightarrow> int \<Rightarrow> int \<Rightarrow> int \<Rightarrow> ('d, 'j) prices \<Rightarrow> 'j option" where
  "get_market_kline_day E st market start stop interval X =
     map_option (\<lambda>info. klines_json E market (klines_day (mpd E) st info start stop interval)) (market_query X market)"

definition get_market_kline_week ::
  "('d, 'j) env \<Rightarrow> price_settings \<Rightarrow> string \<Rightarrow> int \<Rightarrow> int \<Rightarrow> int \<Rightarrow> ('d, 'j) prices \<Rightarrow> 'j option" where
  "get_market_kline_week E st market start stop interval X =
     map_option (\<lambda>info. klines_json E market (klines_week (mpd E) st info start stop interval)) (market_query X market)"

section \<open>Candles of months\<close>

definition get_month_start :: "zone \<Rightarrow> int \<Rightarrow> int \<Rightarrow> int" where
  "get_month_start Z tm_year tm_mon = tz_mktime Z (tm_year, tm_mon, 1)"

definition next_month :: "int \<Rightarrow> int \<Rightarrow> int \<times> int" where
  "next_month tm_year tm_mon = (if tm_mon = 11 then (tm_year + 1, 0) else (tm_year, tm_mon + 1))"

definition get_next_month :: "zone \<Rightarrow> int \<Rightarrow> int \<Rightarrow> int \<times> int \<times> int" where
  "get_next_month Z tm_year tm_mon =
     (let (tm_year, tm_mon) = next_month tm_year tm_mon in (tz_mktime Z (tm_year, tm_mon, 1), tm_year, tm_mon))"

text \<open>
  The outer loop. It goes on to the next month only after it has appended a candle: the
  \<^verbatim>\<open>continue\<close> of a month without candles skips \<^verbatim>\<open>mon_start = mon_next\<close>. \<open>None\<close>:
  the loop does not end.
\<close>

partial_function (option) month_loop ::
  "'d mpd_ops \<Rightarrow> zone \<Rightarrow> (int \<rightharpoonup> 'd kline_info) \<Rightarrow> int \<Rightarrow> int \<Rightarrow> int \<Rightarrow> int \<Rightarrow> 'd kline_info option \<Rightarrow> (int \<times> 'd kline_info) list option" where
  "month_loop M Z D stop tm_year tm_mon mon_start klast =
     (if mon_start \<le> stop then
        (case get_next_month Z tm_year tm_mon of
           (mon_next, tm_year, tm_mon) \<Rightarrow>
             (case merge_klines M D (times_up mon_start (min mon_next (stop + 1)) 86400) None of
                Some kinfo \<Rightarrow>
                  do {
                    ks \<leftarrow> month_loop M Z D stop tm_year tm_mon mon_next (Some kinfo);
                    Some ((mon_start, kinfo) # ks)
                  }
              | None \<Rightarrow>
                  (case klast of
                     None \<Rightarrow> month_loop M Z D stop tm_year tm_mon mon_start None
                   | Some k \<Rightarrow>
                       do {
                         ks \<leftarrow> month_loop M Z D stop tm_year tm_mon mon_next (Some (kline_info_new M (k_close k)));
                         Some ((mon_start, kline_info_new M (k_close k)) # ks)
                       })))
      else Some [])"

definition klines_month ::
  "'d mpd_ops \<Rightarrow> zone \<Rightarrow> ('d, 'j) market_info \<Rightarrow> int \<Rightarrow> int \<Rightarrow> (int \<times> 'd kline_info) list option" where
  "klines_month M Z info start stop =
     (let (tm_year, tm_mon, tm_mday) = tz_localtime Z start; mon_start = get_month_start Z tm_year tm_mon
      in month_loop M Z (mi_day info) stop tm_year tm_mon mon_start
           (get_last_kline (mi_day info) (mon_start - 86400) (start - 86400 * 30) 86400))"

text \<open>The outer option: the call returns; the inner one: the market is known.\<close>

definition get_market_kline_month ::
  "('d, 'j) env \<Rightarrow> zone \<Rightarrow> string \<Rightarrow> int \<Rightarrow> int \<Rightarrow> ('d, 'j) prices \<Rightarrow> 'j option option" where
  "get_market_kline_month E Z market start stop X =
     (case market_query X market of
        None \<Rightarrow> Some None
      | Some info \<Rightarrow> map_option (\<lambda>ks. Some (klines_json E market ks)) (klines_month (mpd E) Z info start stop))"

section \<open>Deals and prices\<close>

text \<open>The newest deals first, up to the id that is known, at most \<open>limit\<close> (positive) of them.\<close>

fun take_deals :: "'j json_ops \<Rightarrow> u64 \<Rightarrow> nat \<Rightarrow> 'j list \<Rightarrow> 'j list" where
  "take_deals J last_id limit [] = []"
| "take_deals J last_id limit (deal # deals) =
     (if (word_of_int (json_integer_value J (json_object_get J deal ''id'')) :: u64) \<le> last_id then []
      else if limit = 1 then [deal] else deal # take_deals J last_id (limit - 1) deals)"

definition get_market_deals :: "('d, 'j) env \<Rightarrow> string \<Rightarrow> nat \<Rightarrow> u64 \<Rightarrow> ('d, 'j) prices \<Rightarrow> 'j option" where
  "get_market_deals E market limit last_id X =
     map_option (\<lambda>info. json_array (json E) (take_deals (json E) last_id limit (mi_deals_json info))) (market_query X market)"

definition get_market_last_price :: "string \<Rightarrow> ('d, 'j) prices \<Rightarrow> 'd option" where
  "get_market_last_price market X = map_option mi_last (market_query X market)"

end
