(* ===== verification/Price_Windows.thy ===== *)
theory Price_Windows
  imports Candles Price_Sound
begin

text \<open>
  The candles the price server puts together, in terms of deals: merging stored candles sums up
  their deals, and walking through the windows of an interval gives for each the candle of its
  deals, or a flat one at the last price before it.
\<close>

section \<open>Merging\<close>

definition in_buckets :: "(int \<Rightarrow> int) \<Rightarrow> int list \<Rightarrow> 'd deal list \<Rightarrow> 'd deal list" where
  "in_buckets bucket ts ds = concat (map (\<lambda>t. in_bucket bucket t ds) ts)"

lemma in_buckets_simps [simp]:
  "in_buckets bucket [] ds = []" "in_buckets bucket (t # ts) ds = in_bucket bucket t ds @ in_buckets bucket ts ds"
  by (simp_all add: in_buckets_def)

text \<open>Deals in the order of time: consecutive parts are parts of the list.\<close>

lemma filter_append_sorted:
  assumes "sorted (map f ds)" "\<And>x y. P x \<Longrightarrow> Q y \<Longrightarrow> x < y"
  shows "filter (\<lambda>d. P (f d)) ds @ filter (\<lambda>d. Q (f d)) ds = filter (\<lambda>d. P (f d) \<or> Q (f d)) ds"
  using assms(1)
proof (induction ds)
  case (Cons d ds)
  have "filter (\<lambda>d. P (f d)) ds = []" if "Q (f d)"
    using Cons.prems assms(2) [OF _ that] by (auto simp: filter_empty_conv dest: leD)
  moreover have "\<not> (P (f d) \<and> Q (f d))" using assms(2) by (meson less_irrefl)
  ultimately show ?case using Cons by auto
qed simp

lemma in_buckets_sorted:
  assumes "sorted (map (\<lambda>d. bucket (fst d)) ds)" "sorted_wrt (<) ts"
  shows "in_buckets bucket ts ds = filter (\<lambda>d. bucket (fst d) \<in> set ts) ds"
  using assms(2)
proof (induction ts)
  case (Cons t ts)
  have "in_bucket bucket t ds @ filter (\<lambda>d. bucket (fst d) \<in> set ts) ds =
      filter (\<lambda>d. bucket (fst d) = t \<or> bucket (fst d) \<in> set ts) ds"
    unfolding in_bucket_def
    using Cons.prems by (intro filter_append_sorted [OF assms(1), of "\<lambda>x. x = t" "\<lambda>x. x \<in> set ts"]) auto
  then show ?case using Cons by simp
qed simp

context mpd_lib
begin

lemma merge_klines_sums:
  assumes D: "klines_ok fin val bucket ds kept D"
  shows "\<forall>t\<in>set ts. kept t \<Longrightarrow> sums_up fin val k es \<Longrightarrow> deals_fit p (vals val (es @ in_buckets bucket ts ds)) \<Longrightarrow>
    sums_up fin val (merge_klines M D ts k) (es @ in_buckets bucket ts ds)"
proof (induction ts arbitrary: k es)
  case (Cons t ts)
  let ?b = "in_bucket bucket t ds"
  have b: "sums_up fin val (D t) ?b" using D Cons.prems(1) by (simp add: klines_ok_def)
  show ?case
  proof (cases "D t")
    case None
    then have "?b = []" using b by (simp add: sums_up_def)
    then show ?thesis using Cons None by simp
  next
    case (Some item)
    then have i: "?b \<noteq> []" "kline_fin fin item" "kline_val val item = candle (vals val ?b)"
      using b by (simp_all add: sums_up_def)
    let ?k = "kline_info_merge M (case k of None \<Rightarrow> kline_info_new M (k_open item) | Some k \<Rightarrow> k) item"
    have fit: "deals_fit p (vals val (es @ ?b))"
      using deals_fit_mono [OF Cons.prems(3), of "vals val (es @ ?b)"] by simp
    have v: "val (k_volume item) = sum_list (map snd (vals val ?b))"
      "val (k_deal item) = sum_list (map (\<lambda>(price, amount). price * amount) (vals val ?b))"
      using arg_cong [OF i(3), of k_volume] arg_cong [OF i(3), of k_deal] by (simp_all add: kline_val_def sums_volume sums_deal)
    have "sums_up fin val (Some ?k) (es @ ?b)"
    proof (cases k)
      case None
      then have es: "es = []" using Cons.prems(2) by (simp add: sums_up_def)
      have o: "fin (k_open item)" using i(2) by (simp add: kline_fin_def)
      note n = kline_info_new_val [OF o]
      have z: "val (k_volume (kline_info_new M (k_open item))) = 0" "val (k_deal (kline_info_new M (k_open item))) = 0"
        by (simp_all add: kline_info_new_def)
      have "val (k_open item) = k_open (candle (vals val ?b))" using arg_cong [OF i(3), of k_open] by (simp add: kline_val_def)
      then show ?thesis
        using kline_info_merge_val [of "kline_info_new M (k_open item)" item p] n z v i fit None es join_flat [of "vals val ?b"]
        by (simp add: sums_up_def deals_fit_def)
    next
      case (Some k')
      then have k': "es \<noteq> []" "kline_fin fin k'" "kline_val val k' = candle (vals val es)"
        using Cons.prems(2) by (simp_all add: sums_up_def)
      have w: "val (k_volume k') = sum_list (map snd (vals val es))"
        "val (k_deal k') = sum_list (map (\<lambda>(price, amount). price * amount) (vals val es))"
        using arg_cong [OF k'(3), of k_volume] arg_cong [OF k'(3), of k_deal] by (simp_all add: kline_val_def sums_volume sums_deal)
      have "fits p (val (k_volume k') + val (k_volume item))" "fits p (val (k_deal k') + val (k_deal item))"
        using fit unfolding v w by (simp_all add: deals_fit_def)
      then show ?thesis
        using kline_info_merge_val [OF k'(2) i(2)] k' i Some by (simp add: sums_up_def candle_append)
    qed
    from Cons.IH [OF _ this] Cons.prems show ?thesis using Some by simp
  qed
qed simp

text \<open>The candle of a window of time, when the buckets \<open>ts\<close> are those of the window.\<close>

lemma merge_window:
  assumes "klines_ok fin val bucket ds kept D" "\<forall>t\<in>set ts. kept t" "deals_fit p (vals val ds)"
    "sorted (map (\<lambda>d. bucket (fst d)) ds)" "sorted_wrt (<) ts"
    "\<And>d. d \<in> set ds \<Longrightarrow> bucket (fst d) \<in> set ts \<longleftrightarrow> P (fst d)"
  shows "sums_up fin val (merge_klines M D ts None) (filter (\<lambda>d. P (fst d)) ds)"
proof -
  have e: "in_buckets bucket ts ds = filter (\<lambda>d. P (fst d)) ds"
    using in_buckets_sorted [OF assms(4,5)] assms(6) by (simp cong: filter_cong)
  show ?thesis
    using merge_klines_sums [OF assms(1,2), of None "[]" p] vals_fit [OF assms(3), of "\<lambda>d. P (fst d)"]
    by (simp add: e sums_up_def)
qed

end

section \<open>Windows\<close>

text \<open>Buckets of a whole number of seconds, from the zero of time on.\<close>

definition unit_bucket :: "int \<Rightarrow> int \<Rightarrow> int" where
  "unit_bucket u s = s sdiv u * u"

lemma unit_bucket_pos: "0 \<le> s \<Longrightarrow> 0 < u \<Longrightarrow> unit_bucket u s = s div u * u"
  by (cases "s = 0") (simp_all add: unit_bucket_def signed_divide_int_def sgn_if pos_imp_zdiv_nonneg_iff)

lemma unit_bucket_mono: "s \<le> t \<Longrightarrow> 0 < u \<Longrightarrow> unit_bucket u s \<le> unit_bucket u t"
  by (simp add: unit_bucket_def sdiv_mono_pos)

lemma unit_bucket_eq:
  assumes "0 \<le> s" "0 < u" "u dvd t"
  shows "unit_bucket u s = t \<longleftrightarrow> t \<le> s \<and> s < t + u"
proof -
  obtain q where t: "t = q * u" using assms(3) by (metis dvd_def mult.commute)
  have "s div u = q \<longleftrightarrow> q * u \<le> s \<and> s < q * u + u"
  proof
    assume "s div u = q"
    then show "q * u \<le> s \<and> s < q * u + u"
      using div_mult_mod_eq [of s u] pos_mod_sign [OF assms(2), of s] pos_mod_bound [OF assms(2), of s] by auto
  next
    assume "q * u \<le> s \<and> s < q * u + u"
    then show "s div u = q" using assms(2) int_div_pos_eq [of s u q "s - q * u"] by (simp add: mult.commute)
  qed
  then show ?thesis using assms by (simp add: t unit_bucket_pos)
qed

lemma inner_times_sorted: "0 < u \<Longrightarrow> sorted_wrt (<) (inner_times interval u start)"
  by (simp add: inner_times_def sorted_wrt_map sorted_wrt_upt)

lemma inner_times_window:
  assumes "0 \<le> s" "0 < u" "u dvd start" "u dvd interval" "0 < interval"
  shows "unit_bucket u s \<in> set (inner_times interval u start) \<longleftrightarrow> start \<le> s \<and> s < start + interval"
proof -
  obtain n where n: "interval = int n * u"
  proof -
    obtain q where "interval = q * u" using assms(4) by (metis dvd_def mult.commute)
    moreover from this have "0 \<le> q" using assms(2,5) by (simp add: zero_less_mult_iff)
    ultimately show thesis using that [of "nat q"] by simp
  qed
  have c: "nat (interval sdiv u) = n"
    using assms(2,5) unfolding n by (simp add: signed_divide_int_def sgn_if)
  have "unit_bucket u s \<in> set (inner_times interval u start) \<longleftrightarrow> (\<exists>i<n. start + int i * u \<le> s \<and> s < start + int i * u + u)"
    using unit_bucket_eq [OF assms(1,2), of "start + int i * u" for i] assms(3)
    by (auto simp: inner_times_def c image_iff)
  also have "\<dots> \<longleftrightarrow> start \<le> s \<and> s < start + int n * u"
  proof
    assume "\<exists>i<n. start + int i * u \<le> s \<and> s < start + int i * u + u"
    then obtain i where i: "i < n" "start + int i * u \<le> s" "s < start + int i * u + u" by blast
    have "int i * u + u \<le> int n * u"
      using mult_right_mono [of "int i + 1" "int n" u] i(1) assms(2) by (simp add: distrib_right)
    moreover have "0 \<le> int i * u" using assms(2) by simp
    ultimately show "start \<le> s \<and> s < start + int n * u" using i by linarith
  next
    assume h: "start \<le> s \<and> s < start + int n * u"
    let ?i = "nat ((s - start) div u)"
    have p: "0 \<le> (s - start) div u" using h assms(2) by (simp add: pos_imp_zdiv_nonneg_iff)
    have q: "(s - start) div u * u + (s - start) mod u = s - start" by (rule div_mult_mod_eq)
    have r: "0 \<le> (s - start) mod u" "(s - start) mod u < u" using assms(2) by simp_all
    have "(s - start) div u * u < int n * u" using q r(1) h by linarith
    then have "(s - start) div u < int n" using assms(2) by (simp add: mult_less_cancel_right)
    moreover have "start + (s - start) div u * u \<le> s \<and> s < start + (s - start) div u * u + u" using q r by linarith
    ultimately show "\<exists>i<n. start + int i * u \<le> s \<and> s < start + int i * u + u"
      using p by (intro exI [of _ ?i]) (simp add: nat_less_iff)
  qed
  finally show ?thesis by (simp add: n)
qed

text \<open>
  The candle of a window: of its deals; without any, flat at the last price since \<open>lo\<close>; or none.
\<close>

definition window_kline :: "('d \<Rightarrow> rat) \<Rightarrow> int \<Rightarrow> 'd deal list \<Rightarrow> int \<Rightarrow> int \<Rightarrow> rat kline_info option" where
  "window_kline val lo ds interval start =
     (let inside = filter (\<lambda>d. start \<le> fst d \<and> fst d < start + interval) ds;
          before = filter (\<lambda>d. lo \<le> fst d \<and> fst d < start) ds
      in if inside \<noteq> [] then Some (candle (vals val inside))
         else if before \<noteq> [] then Some (flat (val (fst (snd (last before))))) else None)"

text \<open>The candle \<open>k\<close> closes at the last price of some deals.\<close>

definition closes_at :: "('d \<Rightarrow> bool) \<Rightarrow> ('d \<Rightarrow> rat) \<Rightarrow> 'd kline_info option \<Rightarrow> 'd deal list \<Rightarrow> bool" where
  "closes_at fin val k ds \<longleftrightarrow>
     (case k of None \<Rightarrow> ds = [] | Some k \<Rightarrow> ds \<noteq> [] \<and> fin (k_close k) \<and> val (k_close k) = val (fst (snd (last ds))))"

lemma last_vals: "ds \<noteq> [] \<Longrightarrow> fst (last (vals val ds)) = val (fst (snd (last ds)))"
  by (simp add: vals_def last_map split: prod.splits)

lemma sums_up_closes_at: "sums_up fin val k ds \<Longrightarrow> closes_at fin val k ds"
proof (cases k)
  case (Some k')
  assume "sums_up fin val k ds"
  then have "ds \<noteq> []" "kline_fin fin k'" "kline_val val k' = candle (vals val ds)" using Some by (simp_all add: sums_up_def)
  then show ?thesis
    using arg_cong [of "kline_val val k'" "candle (vals val ds)" k_close] Some
    by (simp add: closes_at_def kline_fin_def kline_val_def candle_def last_vals)
qed (simp add: sums_up_def closes_at_def)

lemma closes_at_append: "ds \<noteq> [] \<Longrightarrow> closes_at fin val k (es @ ds) = closes_at fin val k ds"
  by (cases k) (simp_all add: closes_at_def)

lemma filter_window_split:
  assumes "sorted (map fst ds)" "lo \<le> start" "start \<le> stop"
  shows "filter (\<lambda>d. lo \<le> fst d \<and> fst d < stop) ds =
    filter (\<lambda>d. lo \<le> fst d \<and> fst d < start) ds @ filter (\<lambda>d. start \<le> fst d \<and> fst d < (stop :: int)) ds"
proof -
  have "filter (\<lambda>d. lo \<le> fst d \<and> fst d < stop) ds =
      filter (\<lambda>d. (lo \<le> fst d \<and> fst d < start) \<or> (start \<le> fst d \<and> fst d < stop)) ds"
    using assms(2,3) by (intro filter_cong) auto
  also have "\<dots> = filter (\<lambda>d. lo \<le> fst d \<and> fst d < start) ds @ filter (\<lambda>d. start \<le> fst d \<and> fst d < stop) ds"
    by (rule filter_append_sorted [OF assms(1), of "\<lambda>x. lo \<le> x \<and> x < start" "\<lambda>x. start \<le> x \<and> x < stop", symmetric])
      auto
  finally show ?thesis .
qed

text \<open>The windows one after the other.\<close>

lemma upto_Suc_shift:
  "map (\<lambda>i. start + int i * interval) [0..<Suc n] = start # map (\<lambda>i. (start + interval) + int i * interval) [0..<n]"
  by (simp add: upt_conv_Cons map_Suc_upt [symmetric] o_def algebra_simps del: upt_Suc map_Suc_upt)

lemma map_filter_simps' [simp]:
  "List.map_filter f [] = []" "List.map_filter f (x # xs) = (case f x of None \<Rightarrow> List.map_filter f xs | Some y \<Rightarrow> y # List.map_filter f xs)"
  by (simp_all add: List.map_filter_def split: option.splits)

context mpd_lib
begin

lemma window_step:
  assumes D: "klines_ok fin val (unit_bucket u) ds kept D" and fit: "deals_fit p (vals val ds)"
    and srt: "sorted (map fst ds)" and pos: "\<forall>d\<in>set ds. 0 \<le> fst d"
    and u: "0 < u" "u dvd start" "u dvd interval" "0 < interval" and kept: "\<And>t. start \<le> t \<Longrightarrow> kept t"
  shows "sums_up fin val (merge_klines M D (inner_times interval u start) None)
    (filter (\<lambda>d. start \<le> fst d \<and> fst d < start + interval) ds)"
proof (rule merge_window [OF D _ fit])
  show "\<forall>t\<in>set (inner_times interval u start). kept t" using u(1) by (auto simp: inner_times_def intro!: kept)
  show "sorted (map (\<lambda>d. unit_bucket u (fst d)) ds)"
    using srt u(1) by (simp add: sorted_map) (metis (mono_tags, lifting) sorted_wrt_mono_rel unit_bucket_mono)
  show "sorted_wrt (<) (inner_times interval u start)" by (rule inner_times_sorted [OF u(1)])
  show "\<And>d. d \<in> set ds \<Longrightarrow> unit_bucket u (fst d) \<in> set (inner_times interval u start) \<longleftrightarrow> start \<le> fst d \<and> fst d < start + interval"
    using inner_times_window [OF _ u] pos by blast
qed

lemma kline_loop_windows:
  assumes D: "klines_ok fin val (unit_bucket u) ds kept D" and fit: "deals_fit p (vals val ds)"
    and srt: "sorted (map fst ds)" and pos: "\<forall>d\<in>set ds. 0 \<le> fst d"
    and u: "0 < u" "u dvd interval" "0 < interval"
  shows "lo \<le> start \<Longrightarrow> u dvd start \<Longrightarrow> (\<And>t. start \<le> t \<Longrightarrow> kept t) \<Longrightarrow>
    closes_at fin val klast (filter (\<lambda>d. lo \<le> fst d \<and> fst d < start) ds) \<Longrightarrow>
    map (\<lambda>(t, k). (t, kline_val val k))
      (kline_loop M D (inner_times interval u) (map (\<lambda>i. start + int i * interval) [0..<n]) klast) =
    List.map_filter (\<lambda>t. map_option (Pair t) (window_kline val lo ds interval t)) (map (\<lambda>i. start + int i * interval) [0..<n])"
proof (induction n arbitrary: start klast)
  case (Suc n)
  let ?in = "filter (\<lambda>d. start \<le> fst d \<and> fst d < start + interval) ds"
  let ?before = "filter (\<lambda>d. lo \<le> fst d \<and> fst d < start) ds"
  have w: "sums_up fin val (merge_klines M D (inner_times interval u start) None) ?in"
    by (rule window_step [OF D fit srt pos u(1) Suc.prems(2) u(2,3) Suc.prems(3)])
  have split: "filter (\<lambda>d. lo \<le> fst d \<and> fst d < start + interval) ds = ?before @ ?in"
    using filter_window_split [OF srt Suc.prems(1), of "start + interval"] u(3) by simp
  have IH: "closes_at fin val k (?before @ ?in) \<Longrightarrow>
    map (\<lambda>(t, k). (t, kline_val val k))
      (kline_loop M D (inner_times interval u) (map (\<lambda>i. start + interval + int i * interval) [0..<n]) k) =
    List.map_filter (\<lambda>t. map_option (Pair t) (window_kline val lo ds interval t))
      (map (\<lambda>i. start + interval + int i * interval) [0..<n])" for k
    using Suc.prems(1,2,3) u by (intro Suc.IH) (simp_all only: split, auto)
  show ?case
  proof (cases "merge_klines M D (inner_times interval u start) None")
    case (Some k)
    then have k: "?in \<noteq> []" "kline_val val k = candle (vals val ?in)" using w by (simp_all add: sums_up_def)
    have "closes_at fin val (Some k) (?before @ ?in)"
      using sums_up_closes_at [OF w] k(1) Some by (simp add: closes_at_append)
    from IH [OF this] show ?thesis
      unfolding upto_Suc_shift using Some k by (simp add: window_kline_def Let_def)
  next
    case None
    then have e: "?in = []" using w by (simp add: sums_up_def)
    show ?thesis
    proof (cases klast)
      case None': None
      then have b: "?before = []" using Suc.prems(4) by (simp add: closes_at_def)
      then have "closes_at fin val None (?before @ ?in)" using e by (simp add: closes_at_def)
      from IH [OF this] show ?thesis
        unfolding upto_Suc_shift using None None' e b by (simp add: window_kline_def Let_def)
    next
      case (Some k)
      then have k: "?before \<noteq> []" "fin (k_close k)" "val (k_close k) = val (fst (snd (last ?before)))"
        using Suc.prems(4) by (simp_all add: closes_at_def)
      note n = kline_info_new_val [OF k(2)]
      have "closes_at fin val (Some (kline_info_new M (k_close k))) (?before @ ?in)"
        using k e by (simp add: closes_at_def kline_info_new_def)
      from IH [OF this] show ?thesis
        unfolding upto_Suc_shift using None Some e k n by (simp add: window_kline_def Let_def)
    qed
  qed
qed simp

text \<open>The candle before the first window.\<close>

lemma get_last_kline_closes:
  assumes D: "klines_ok fin val (unit_bucket u) ds kept D" and srt: "sorted (map fst ds)" and pos: "\<forall>d\<in>set ds. 0 \<le> fst d"
    and u: "0 < u" "u dvd lo" and kept: "\<And>t. lo \<le> t \<Longrightarrow> kept t"
  shows "closes_at fin val (first_kline D (map (\<lambda>i. (lo + int n * u - u) - int i * u) [0..<n]))
    (filter (\<lambda>d. lo \<le> fst d \<and> fst d < lo + int n * u) ds)"
proof (induction n)
  case 0
  have "filter (\<lambda>d. lo \<le> fst d \<and> fst d < lo) ds = []" by (simp add: filter_empty_conv)
  then show ?case by (simp add: closes_at_def)
next
  case (Suc n)
  let ?t = "lo + int n * u"
  have b: "in_bucket (unit_bucket u) ?t ds = filter (\<lambda>d. ?t \<le> fst d \<and> fst d < ?t + u) ds"
    unfolding in_bucket_def using unit_bucket_eq [OF _ u(1), of _ ?t] u(2) pos by (intro filter_cong) auto
  have "0 \<le> int n * u" using u(1) by simp
  then have w: "sums_up fin val (D ?t) (filter (\<lambda>d. ?t \<le> fst d \<and> fst d < ?t + u) ds)"
    using D kept [of ?t] unfolding b [symmetric] by (simp add: klines_ok_def)
  have split: "filter (\<lambda>d. lo \<le> fst d \<and> fst d < lo + int (Suc n) * u) ds =
      filter (\<lambda>d. lo \<le> fst d \<and> fst d < ?t) ds @ filter (\<lambda>d. ?t \<le> fst d \<and> fst d < ?t + u) ds"
    using filter_window_split [OF srt, of lo ?t "?t + u"] u(1) by (simp add: algebra_simps)
  have times: "map (\<lambda>i. (lo + int (Suc n) * u - u) - int i * u) [0..<Suc n] =
      ?t # map (\<lambda>i. (lo + int n * u - u) - int i * u) [0..<n]"
    by (simp add: upt_conv_Cons map_Suc_upt [symmetric] o_def algebra_simps del: upt_Suc map_Suc_upt)
  show ?case
  proof (cases "D ?t")
    case None
    then show ?thesis using w Suc.IH unfolding split times by (simp add: sums_up_def)
  next
    case (Some k)
    then show ?thesis using sums_up_closes_at [OF w] w unfolding split times by (simp add: closes_at_append sums_up_def)
  qed
qed

text \<open>Both together: the loop from \<open>start\<close> on, with the candle before it.\<close>

lemma klines_windows:
  assumes D: "klines_ok fin val (unit_bucket u) ds kept D" and fit: "deals_fit p (vals val ds)"
    and srt: "sorted (map fst ds)" and pos: "\<forall>d\<in>set ds. 0 \<le> fst d"
    and u: "0 < u" "u dvd interval" "0 < interval" and lo: "u dvd lo" "u dvd start" "lo \<le> start"
    and kept: "\<And>t. lo \<le> t \<Longrightarrow> kept t"
  shows "map (\<lambda>(t, k). (t, kline_val val k))
      (kline_loop M D (inner_times interval u) (times_up start stop interval) (get_last_kline D (start - u) lo u)) =
    List.map_filter (\<lambda>t. map_option (Pair t) (window_kline val lo ds interval t)) (times_up start stop interval)"
proof -
  have "u dvd start - lo" using lo(1,2) by (rule dvd_diff [rotated])
  then obtain q where q: "start - lo = u * q" by (rule dvdE)
  then have "0 \<le> u * q" using lo(3) by linarith
  then have "0 \<le> q" using u(1) by (simp add: zero_le_mult_iff)
  then obtain n where "q = int n" by (rule nonneg_int_cases)
  then have n: "start = lo + int n * u" using q by (simp add: algebra_simps)
  have "nat ((int n * u - u) div u + 1) = n"
  proof -
    have "(int n * u - u) div u = int n - 1"
    proof -
      have "int n * u - u = (int n - 1) * u" by (simp add: left_diff_distrib)
      then show ?thesis using u(1) by simp
    qed
    then show ?thesis by simp
  qed
  then have "get_last_kline D (start - u) lo u = first_kline D (map (\<lambda>i. (lo + int n * u - u) - int i * u) [0..<n])"
    by (simp add: get_last_kline_def times_down_def n)
  then have c: "closes_at fin val (get_last_kline D (start - u) lo u) (filter (\<lambda>d. lo \<le> fst d \<and> fst d < start) ds)"
    using get_last_kline_closes [OF D srt pos u(1) lo(1) kept, of n] by (simp add: n)
  show ?thesis unfolding times_up_def
    using kept lo(3) by (intro kline_loop_windows [OF D fit srt pos u lo(3,2) _ c]) simp
qed

end

section \<open>The code's buckets\<close>

lemma sdiv_one [simp]: "s sdiv (1 :: int) = s"
  by (cases "s < 0") (simp_all add: signed_divide_int_def sgn_if)

lemma kline_time_unit:
  "kline_time Z KLINE_SEC = unit_bucket 1" "kline_time Z KLINE_MIN = unit_bucket 60" "kline_time Z KLINE_HOUR = unit_bucket 3600"
  by (auto simp: unit_bucket_def time_min_def time_hour_def)

lemma info_okD:
  assumes "info_ok fin val st Z now ds info"
  shows "klines_ok fin val (unit_bucket 1) ds (kline_kept st now KLINE_SEC) (mi_sec info)"
    "klines_ok fin val (unit_bucket 60) ds (kline_kept st now KLINE_MIN) (mi_min info)"
    "klines_ok fin val (unit_bucket 3600) ds (kline_kept st now KLINE_HOUR) (mi_hour info)"
    "klines_ok fin val (get_day_start Z) ds (\<lambda>_. True) (mi_day info)"
proof -
  have ok: "klines_ok fin val (kline_time Z type) ds (kline_kept st now type) (klines_of info type)" for type
    using assms by (simp add: info_ok_def)
  have "kline_time Z KLINE_DAY = get_day_start Z" "kline_kept st now KLINE_DAY = (\<lambda>_. True)" by auto
  then show "klines_ok fin val (unit_bucket 1) ds (kline_kept st now KLINE_SEC) (mi_sec info)"
    "klines_ok fin val (unit_bucket 60) ds (kline_kept st now KLINE_MIN) (mi_min info)"
    "klines_ok fin val (unit_bucket 3600) ds (kline_kept st now KLINE_HOUR) (mi_hour info)"
    "klines_ok fin val (get_day_start Z) ds (\<lambda>_. True) (mi_day info)"
    using ok [of KLINE_SEC] ok [of KLINE_MIN] ok [of KLINE_HOUR] ok [of KLINE_DAY] by (simp_all only: kline_time_unit klines_of.simps)
qed

end
