(* ===== verification/Price_Server.thy ===== *)
theory Price_Server
  imports Candles Rpc
begin

text \<open>
  \<^verbatim>\<open>marketprice/mp_server.c\<close>: the commands of the price server, its cache of results, and
  the handler of packets. A handler returns the new state and the reply; \<open>None\<close> inside is a reply
  that could not be printed, \<open>None\<close> outside a call that does not return.
\<close>

section \<open>Replies\<close>

record ('d, 'j) price_server =
  pv_prices :: "('d, 'j) prices"
  pv_cache :: "string \<rightharpoonup> int \<times> 'j"

definition reply_json :: "('d, 'j) env \<Rightarrow> price_settings \<Rightarrow> rpc_pkg \<Rightarrow> 'j \<Rightarrow> rpc_pkg option" where
  "reply_json E st pkg doc =
     map_option (\<lambda>message_data. pkg\<lparr>pkg_type := RPC_PKG_TYPE_REPLY, pkg_body := text_bytes message_data,
         body_size := word_of_nat (length message_data)\<rparr>)
       (json_dumps (json E) doc (if pst_debug st then 4 else 0))"

definition reply_error :: "('d, 'j) env \<Rightarrow> price_settings \<Rightarrow> rpc_pkg \<Rightarrow> int \<Rightarrow> string \<Rightarrow> rpc_pkg option" where
  "reply_error E st pkg code message =
     (let J = json E;
          error = json_object J [(''code'', json_integer J code), (''message'', json_string J message)]
      in reply_json E st pkg (json_object J
           [(''error'', error), (''result'', json_null J), (''id'', json_integer J (sint (req_id pkg)))]))"

definition reply_error_invalid_argument :: "('d, 'j) env \<Rightarrow> price_settings \<Rightarrow> rpc_pkg \<Rightarrow> rpc_pkg option" where
  "reply_error_invalid_argument E st pkg = reply_error E st pkg 1 ''invalid argument''"

definition reply_error_internal_error :: "('d, 'j) env \<Rightarrow> price_settings \<Rightarrow> rpc_pkg \<Rightarrow> rpc_pkg option" where
  "reply_error_internal_error E st pkg = reply_error E st pkg 2 ''internal error''"

definition reply_result :: "('d, 'j) env \<Rightarrow> price_settings \<Rightarrow> rpc_pkg \<Rightarrow> 'j \<Rightarrow> rpc_pkg option" where
  "reply_result E st pkg result =
     (let J = json E in reply_json E st pkg (json_object J
        [(''error'', json_null J), (''result'', result), (''id'', json_integer J (sint (req_id pkg)))]))"

section \<open>The cache\<close>

definition cache_key_of :: "rpc_pkg \<Rightarrow> string" where
  "cache_key_of pkg = show_digits (unat (command pkg)) @ bytes_text (take (unat (body_size pkg)) (pkg_body pkg))"

definition server_tick :: "('d, 'j) env \<Rightarrow> ('d, 'j) price_server \<Rightarrow> int \<times> ('d, 'j) price_server" where
  "server_tick E S = (let (now, X) = tick E (pv_prices S) in (now, S\<lparr>pv_prices := X\<rparr>))"

text \<open>The reply from the cache, or the key for a new result; the clock is read only for an entry.\<close>

definition process_cache ::
  "('d, 'j) env \<Rightarrow> price_settings \<Rightarrow> rpc_pkg \<Rightarrow> ('d, 'j) price_server \<Rightarrow> ('d, 'j) price_server \<times> (rpc_pkg option + string)" where
  "process_cache E st pkg S =
     (let key = cache_key_of pkg in
      case pv_cache S key of
        None \<Rightarrow> (S, Inr key)
      | Some (time, result) \<Rightarrow>
          let (now, S) = server_tick E S in
          if now - time > pst_cache_timeout st then (S\<lparr>pv_cache := (pv_cache S)(key := None)\<rparr>, Inr key)
          else (S, Inl (reply_result E st pkg result)))"

definition add_cache :: "('d, 'j) env \<Rightarrow> string \<Rightarrow> 'j \<Rightarrow> ('d, 'j) price_server \<Rightarrow> ('d, 'j) price_server" where
  "add_cache E key result S =
     (let (now, S) = server_tick E S in S\<lparr>pv_cache := (pv_cache S)(key \<mapsto> (now, result))\<rparr>)"

definition on_cache_timer :: "('d, 'j) price_server \<Rightarrow> ('d, 'j) price_server" where
  "on_cache_timer S = S\<lparr>pv_cache := Map.empty\<rparr>"

text \<open>The end of the handlers with a cache: a result is stored and sent.\<close>

definition cached_reply ::
  "('d, 'j) env \<Rightarrow> price_settings \<Rightarrow> rpc_pkg \<Rightarrow> string \<Rightarrow> 'j option \<times> ('d, 'j) price_server \<Rightarrow> ('d, 'j) price_server \<times> rpc_pkg option" where
  "cached_reply E st pkg key = (\<lambda>(result, S).
     (case result of
        None \<Rightarrow> (S, reply_error_internal_error E st pkg)
      | Some result \<Rightarrow> (add_cache E key result S, reply_result E st pkg result)))"

definition with_prices :: "('d, 'j) price_server \<Rightarrow> 'j option \<times> ('d, 'j) prices \<Rightarrow> 'j option \<times> ('d, 'j) price_server" where
  "with_prices S = (\<lambda>(result, X). (result, S\<lparr>pv_prices := X\<rparr>))"

section \<open>Commands\<close>

text \<open>A market that exists, by its name.\<close>

definition known_market :: "('d, 'j) env \<Rightarrow> ('d, 'j) price_server \<Rightarrow> 'j \<Rightarrow> string option" where
  "known_market E S params =
     (case json_string_value (json E) (json_array_get (json E) params 0) of
        None \<Rightarrow> None
      | Some market \<Rightarrow> if market_exist (pv_prices S) market then Some market else None)"

text \<open>Assigning a JSON integer to an \<^verbatim>\<open>int\<close> keeps its low 32 bits.\<close>

definition int_value :: "('d, 'j) env \<Rightarrow> 'j \<Rightarrow> nat \<Rightarrow> int" where
  "int_value E params i = sint (word_of_int (json_integer_value (json E) (json_array_get (json E) params i)) :: u32)"

definition time_value :: "('d, 'j) env \<Rightarrow> 'j \<Rightarrow> nat \<Rightarrow> int" where
  "time_value E params i = json_integer_value (json E) (json_array_get (json E) params i)"

definition on_cmd_market_status ::
  "('d, 'j) env \<Rightarrow> price_settings \<Rightarrow> rpc_pkg \<Rightarrow> 'j \<Rightarrow> ('d, 'j) price_server \<Rightarrow> ('d, 'j) price_server \<times> rpc_pkg option" where
  "on_cmd_market_status E st pkg params S =
     (if json_array_size (json E) params \<noteq> 2 then (S, reply_error_invalid_argument E st pkg)
      else case known_market E S params of
        None \<Rightarrow> (S, reply_error_invalid_argument E st pkg)
      | Some market \<Rightarrow>
          let period = int_value E params 1 in
          if period \<le> 0 \<or> period > pst_sec_max st then (S, reply_error_invalid_argument E st pkg)
          else (case process_cache E st pkg S of
            (S, Inl reply) \<Rightarrow> (S, reply)
          | (S, Inr key) \<Rightarrow> cached_reply E st pkg key (with_prices S (get_market_status E market period (pv_prices S)))))"

text \<open>
  The choice by the interval: \<open>None\<close> outside, the call does not return; \<open>Inl\<close>, the interval is
  refused.
\<close>

definition kline_result ::
  "('d, 'j) env \<Rightarrow> price_settings \<Rightarrow> zone \<Rightarrow> string \<Rightarrow> int \<Rightarrow> int \<Rightarrow> int \<Rightarrow> ('d, 'j) price_server \<Rightarrow>
   (unit + 'j option \<times> ('d, 'j) price_server) option" where
  "kline_result E st Z market start stop interval S =
     (let X = pv_prices S in
      if interval < 60 then
        (if 60 smod interval \<noteq> 0 then Some (Inl ())
         else Some (Inr (with_prices S (get_market_kline_sec E st market start stop interval X))))
      else if interval < 3600 then
        (if interval smod 60 \<noteq> 0 \<or> 3600 smod interval \<noteq> 0 then Some (Inl ())
         else Some (Inr (with_prices S (get_market_kline_min E st market start stop interval X))))
      else if interval < 86400 then
        (if interval smod 3600 \<noteq> 0 \<or> 86400 smod interval \<noteq> 0 then Some (Inl ())
         else Some (Inr (with_prices S (get_market_kline_hour E st Z market start stop interval X))))
      else if interval < 86400 * 7 then
        (if interval smod 86400 \<noteq> 0 then Some (Inl ())
         else Some (Inr (get_market_kline_day E st market start stop interval X, S)))
      else if interval = 86400 * 7 then Some (Inr (get_market_kline_week E st market start stop interval X, S))
      else if interval = 86400 * 30 then
        map_option (\<lambda>result. Inr (result, S)) (get_market_kline_month E Z market start stop X)
      else Some (Inl ()))"

definition on_cmd_market_kline ::
  "('d, 'j) env \<Rightarrow> price_settings \<Rightarrow> zone \<Rightarrow> rpc_pkg \<Rightarrow> 'j \<Rightarrow> ('d, 'j) price_server \<Rightarrow>
   (('d, 'j) price_server \<times> rpc_pkg option) option" where
  "on_cmd_market_kline E st Z pkg params S =
     (if json_array_size (json E) params \<noteq> 4 then Some (S, reply_error_invalid_argument E st pkg)
      else case known_market E S params of
        None \<Rightarrow> Some (S, reply_error_invalid_argument E st pkg)
      | Some market \<Rightarrow>
          let start = time_value E params 1 in
          if start \<le> 0 then Some (S, reply_error_invalid_argument E st pkg)
          else let (clk, S) = server_tick E S; now = seconds clk;
                   stop = (if time_value E params 2 > now then now else time_value E params 2) in
          if stop \<le> 0 \<or> start > stop then Some (S, reply_error_invalid_argument E st pkg)
          else let interval = int_value E params 3 in
          if interval \<le> 0 then Some (S, reply_error_invalid_argument E st pkg)
          else (case process_cache E st pkg S of
            (S, Inl reply) \<Rightarrow> Some (S, reply)
          | (S, Inr key) \<Rightarrow>
              (case kline_result E st Z market start stop interval S of
                 None \<Rightarrow> None
               | Some (Inl ()) \<Rightarrow> Some (S, reply_error_invalid_argument E st pkg)
               | Some (Inr result) \<Rightarrow> Some (cached_reply E st pkg key result))))"

definition on_cmd_market_deals ::
  "('d, 'j) env \<Rightarrow> price_settings \<Rightarrow> rpc_pkg \<Rightarrow> 'j \<Rightarrow> ('d, 'j) price_server \<Rightarrow> ('d, 'j) price_server \<times> rpc_pkg option" where
  "on_cmd_market_deals E st pkg params S =
     (S, if json_array_size (json E) params \<noteq> 3 then reply_error_invalid_argument E st pkg
      else case known_market E S params of
        None \<Rightarrow> reply_error_invalid_argument E st pkg
      | Some market \<Rightarrow>
          let limit = int_value E params 1 in
          if limit \<le> 0 \<or> limit > int MARKET_DEALS_MAX then reply_error_invalid_argument E st pkg
          else if \<not> json_is_integer (json E) (json_array_get (json E) params 2) then reply_error_invalid_argument E st pkg
          else (case get_market_deals E market (nat limit) (word_of_int (time_value E params 2)) (pv_prices S) of
            None \<Rightarrow> reply_error_internal_error E st pkg
          | Some result \<Rightarrow> reply_result E st pkg result))"

definition on_cmd_market_last ::
  "('d, 'j) env \<Rightarrow> price_settings \<Rightarrow> rpc_pkg \<Rightarrow> 'j \<Rightarrow> ('d, 'j) price_server \<Rightarrow> ('d, 'j) price_server \<times> rpc_pkg option" where
  "on_cmd_market_last E st pkg params S =
     (S, if json_array_size (json E) params \<noteq> 1 then reply_error_invalid_argument E st pkg
      else case known_market E S params of
        None \<Rightarrow> reply_error_invalid_argument E st pkg
      | Some market \<Rightarrow>
          (case get_market_last_price market (pv_prices S) of
             None \<Rightarrow> reply_error_internal_error E st pkg
           | Some last_price \<Rightarrow> reply_result E st pkg (json_string (json E) (mpd_to_sci (mpd E) last_price))))"

definition on_cmd_market_status_today ::
  "('d, 'j) env \<Rightarrow> price_settings \<Rightarrow> zone \<Rightarrow> rpc_pkg \<Rightarrow> 'j \<Rightarrow> ('d, 'j) price_server \<Rightarrow> ('d, 'j) price_server \<times> rpc_pkg option" where
  "on_cmd_market_status_today E st Z pkg params S =
     (if json_array_size (json E) params \<noteq> 1 then (S, reply_error_invalid_argument E st pkg)
      else case known_market E S params of
        None \<Rightarrow> (S, reply_error_invalid_argument E st pkg)
      | Some market \<Rightarrow>
          (case process_cache E st pkg S of
             (S, Inl reply) \<Rightarrow> (S, reply)
           | (S, Inr key) \<Rightarrow> cached_reply E st pkg key (with_prices S (get_market_status_today E Z market (pv_prices S)))))"

section \<open>Packets\<close>

definition CMD_MARKET_STATUS :: u32 where "CMD_MARKET_STATUS = 301"
definition CMD_MARKET_KLINE :: u32 where "CMD_MARKET_KLINE = 302"
definition CMD_MARKET_DEALS :: u32 where "CMD_MARKET_DEALS = 303"
definition CMD_MARKET_LAST :: u32 where "CMD_MARKET_LAST = 304"
definition CMD_MARKET_STATUS_TODAY :: u32 where "CMD_MARKET_STATUS_TODAY = 305"

datatype answer = Answer "rpc_pkg option" | Closed

definition svr_on_recv_pkg ::
  "('d, 'j) env \<Rightarrow> price_settings \<Rightarrow> zone \<Rightarrow> rpc_pkg \<Rightarrow> ('d, 'j) price_server \<Rightarrow> (('d, 'j) price_server \<times> answer) option" where
  "svr_on_recv_pkg E st Z pkg S =
     (case json_loadb (json E) (bytes_text (take (unat (body_size pkg)) (pkg_body pkg))) of
        None \<Rightarrow> Some (S, Closed)
      | Some params \<Rightarrow>
          if \<not> json_is_array (json E) params then Some (S, Closed)
          else let c = command pkg in map_option (map_prod id Answer)
            (if c = CMD_MARKET_STATUS then Some (on_cmd_market_status E st pkg params S)
             else if c = CMD_MARKET_KLINE then on_cmd_market_kline E st Z pkg params S
             else if c = CMD_MARKET_DEALS then Some (on_cmd_market_deals E st pkg params S)
             else if c = CMD_MARKET_LAST then Some (on_cmd_market_last E st pkg params S)
             else if c = CMD_MARKET_STATUS_TODAY then Some (on_cmd_market_status_today E st Z pkg params S)
             else Some (S, None)))"

end
