(* ===== verification/Price_Properties.thy ===== *)
theory Price_Properties
  imports Price_Windows Price_Server Example_Prices
begin

text \<open>
  The properties of the price server (\<^verbatim>\<open>marketprice/\<close>): stored candles and the answers
  made of them are exact, and the requests for which they are not.
\<close>

section \<open>Stored candles\<close>

text \<open>
  C18. Start with no market and let any messages arrive and any timers fire; if all deals can be
  printed, the server gets through them. At every later time, each stored candle of a second,
  minute, hour or day that is young enough to be kept sums up exactly the deals of the market that
  belong to it, in open, close, highest and lowest price, volume and turnover, a candle exists
  exactly when there was a deal, and the last price is that of the last deal.
\<close>

theorem candles_sum_up_deals:
  assumes "mpd_lib (mpd E) fin val" "\<forall>v. json_dumps (json E) v 0 \<noteq> None"
    "px_markets X = Map.empty" "deals_fin fin (deals_of_run E m evs)" "deals_fit p (vals val (deals_of_run E m evs))"
  shows "\<exists>X' r'. price_run E st Z W Q evs (X, r) = Some (X', r') \<and>
    (case px_markets X' m of
       None \<Rightarrow> deals_of_run E m evs = []
     | Some info \<Rightarrow>
         (deals_of_run E m evs \<noteq> [] \<longrightarrow> mi_last info = fst (snd (last (deals_of_run E m evs)))) \<and>
         (\<forall>T type t. (\<forall>n<px_ticks X'. clock E n \<le> T) \<longrightarrow> kline_kept st (seconds T) type t \<longrightarrow>
            sums_up fin val (klines_of info type t) (in_bucket (kline_time Z type) t (deals_of_run E m evs))))"
proof -
  have "all_printed X" using assms(3) by (simp add: all_printed_def)
  then obtain X' r' where run: "price_run E st Z W Q evs (X, r) = Some (X', r')"
    using price_run_returns [OF assms(2)] by metis
  have "prices_ok fin val st Z (seconds T) (deals_of_run E m evs) (px_markets X' m)"
    if "\<forall>n<px_ticks X'. clock E n \<le> T" for T
  proof -
    have "prices_ok fin val st Z (seconds T) [] (px_markets X m)" using assms(3) by (simp add: prices_ok_def)
    from mpd_lib.price_run_ok [OF assms(1) refl that this assms(4) _ run] assms(5) show ?thesis by simp
  qed
  moreover obtain T where "\<forall>n<px_ticks X'. clock E n \<le> T"
    by (rule that [of "Max (insert 0 (clock E ` {..<px_ticks X'}))"]) simp
  ultimately show ?thesis using run
    by (intro exI [of _ X'] exI [of _ r']) (auto simp: prices_ok_def info_ok_def klines_ok_def split: option.splits)
qed

lemma candles_sum_up_deals_witness:
  "\<exists>X' r' info. price_run ex_env ex_price_settings (ex_zone 0) ex_walks ex_redis ex_events (ex_prices, ()) = Some (X', r') \<and>
    px_markets X' ''BTCCNY'' = Some info \<and> mi_last info = Dec 101 0 \<and>
    sums_up dec_fin dec_val (mi_min info 60) [(61, Dec 100 0, Dec 2 0)] \<and>
    sums_up dec_fin dec_val (mi_hour info 0) ex_deals"
proof -
  obtain X' r' where run: "price_run ex_env ex_price_settings (ex_zone 0) ex_walks ex_redis ex_events (ex_prices, ()) = Some (X', r')"
    and ok: "case px_markets X' ''BTCCNY'' of
       None \<Rightarrow> ex_deals = []
     | Some info \<Rightarrow>
         (ex_deals \<noteq> [] \<longrightarrow> mi_last info = fst (snd (last ex_deals))) \<and>
         (\<forall>T type t. (\<forall>n<px_ticks X'. clock ex_env n \<le> T) \<longrightarrow> kline_kept ex_price_settings (seconds T) type t \<longrightarrow>
            sums_up dec_fin dec_val (klines_of info type t) (in_bucket (kline_time (ex_zone 0) type) t ex_deals))"
    using candles_sum_up_deals [of ex_env dec_fin dec_val ex_prices "''BTCCNY''" ex_events 8 ex_price_settings "ex_zone 0"
      ex_walks ex_redis "()"] dec_mpd_lib ex_dumps ex_deals_fin ex_deals_fit
    unfolding ex_deals_of_run ex_simps by (auto simp: ex_prices_def)
  have ticks: "px_ticks X' = 2"
    using run unfolding ex_price_run
    by (auto simp: on_deals_message_def ex_messages market_update_def Let_def tick_def ex_prices_def)
  obtain info where info: "px_markets X' ''BTCCNY'' = Some info" "mi_last info = Dec 101 0"
    and sums: "kline_kept ex_price_settings (seconds 2) type t \<Longrightarrow>
      sums_up dec_fin dec_val (klines_of info type t) (in_bucket (kline_time (ex_zone 0) type) t ex_deals)" for type t
  proof -
    have two: "\<forall>n<px_ticks X'. clock ex_env n \<le> 2" by (simp add: ticks)
    obtain info where i: "px_markets X' ''BTCCNY'' = Some info" using ok by (auto simp: ex_deals_def split: option.splits)
    then have "mi_last info = Dec 101 0" using ok by (simp add: ex_deals_def)
    then show thesis using ok two by (intro that [OF i]) (simp_all add: i del: ex_json)
  qed
  have "sums_up dec_fin dec_val (mi_min info 60) [(61, Dec 100 0, Dec 2 0)]"
    "sums_up dec_fin dec_val (mi_hour info 0) ex_deals"
    using sums [of KLINE_MIN 60] sums [of KLINE_HOUR 0]
    by (simp_all add: in_bucket_def ex_deals_def time_min_def time_hour_def min_start_def hour_start_def seconds_def
        ex_price_settings_def)
  then show ?thesis using run info by blast
qed

section \<open>Candles of an interval\<close>

text \<open>
  C19. The answer for an interval of minutes: with the deals in the order of time, the windows one
  after the other, each with the candle of exactly its deals; a window without deals is flat at
  the price of the last deal that is still kept, and left out when there is none.
\<close>

theorem minute_candles_exact:
  assumes "mpd_lib M fin val" "info_ok fin val st Z now ds info" "deals_fit p (vals val ds)"
    "sorted (map fst ds)" "\<forall>d\<in>set ds. 0 \<le> fst d" "60 dvd interval" "0 < interval"
    "min_start st now \<le> start" "min_start st now \<le> start sdiv interval * interval"
  shows "map (\<lambda>(t, k). (t, kline_val val k)) (klines_min M st info now start stop interval) =
    List.map_filter (\<lambda>t. map_option (Pair t) (window_kline val (min_start st now) ds interval t))
      (times_up (start sdiv interval * interval) (stop + 1) interval)"
proof -
  have "60 dvd min_start st now" by (simp add: min_start_def)
  moreover have "60 dvd start sdiv interval * interval" using assms(6) by simp
  ultimately show ?thesis
    using mpd_lib.klines_windows [OF assms(1) info_okD(2) [OF assms(2)] assms(3,4,5), of interval "min_start st now"
        "start sdiv interval * interval" "stop + 1"] assms(6-9)
    by (simp add: klines_min_def Let_def)
qed

lemma minute_candles_exact_witness:
  "map (\<lambda>(t, k). (t, kline_val dec_val k)) (klines_min dec_ops ex_price_settings ex_info 200 60 180 60) =
     [(60, candle [(100, 2)]), (120, candle [(101, 1)]), (180, flat 101)]"
proof -
  have "map (\<lambda>(t, k). (t, kline_val dec_val k)) (klines_min dec_ops ex_price_settings ex_info 200 60 180 60) =
      List.map_filter (\<lambda>t. map_option (Pair t) (window_kline dec_val (min_start ex_price_settings 200) ex_deals 60 t))
        (times_up (60 sdiv 60 * 60) (180 + 1) 60)"
    by (rule minute_candles_exact [OF dec_mpd_lib ex_info_ok ex_deals_fit])
      (simp_all add: ex_deals_def min_start_def ex_price_settings_def)
  also have "times_up (60 sdiv 60 * 60) (180 + 1) 60 = [60, 120, 180]" by (simp add: times_up_def numeral_nat upt_rec)
  finally show ?thesis
    by (simp add: window_kline_def ex_deals_def min_start_def ex_price_settings_def vals_def)
qed

section \<open>The state of a market\<close>

lemma int_le_div_iff: "0 < c \<Longrightarrow> a \<le> b div c \<longleftrightarrow> a * c \<le> (b :: int)"
proof
  assume "0 < c" "a \<le> b div c"
  then have "a * c \<le> b div c * c" by (simp add: mult_right_mono)
  also have "\<dots> \<le> b" using \<open>0 < c\<close> div_mult_mod_eq [of b c] pos_mod_sign [of c b] by linarith
  finally show "a * c \<le> b" .
next
  assume "0 < c" "a * c \<le> b"
  then show "a \<le> b div c" using zdiv_mono1 [of "a * c" b c] by simp
qed

lemma times_up_set:
  assumes "0 < step"
  shows "set (times_up a b step) = {a + int i * step | i. a + int i * step < b}"
proof -
  have "i < nat ((b - a + step - 1) div step) \<longleftrightarrow> a + int i * step < b" for i
  proof -
    have "int i < (b - a + step - 1) div step \<longleftrightarrow> int i + 1 \<le> (b - a + step - 1) div step" by linarith
    also have "\<dots> \<longleftrightarrow> (int i + 1) * step \<le> b - a + step - 1" using assms by (simp add: int_le_div_iff)
    also have "\<dots> \<longleftrightarrow> a + int i * step < b" by (auto simp: distrib_right)
    finally show ?thesis by (simp add: zless_nat_eq_int_zless)
  qed
  then show ?thesis by (auto simp: times_up_def)
qed

lemma times_up_sorted: "0 < step \<Longrightarrow> sorted_wrt (<) (times_up a b step)"
  by (simp add: times_up_def sorted_wrt_map sorted_wrt_upt)

lemma unit_bucket_le: "0 \<le> s \<Longrightarrow> 0 < u \<Longrightarrow> unit_bucket u s \<le> s \<and> s < unit_bucket u s + u"
  using unit_bucket_eq [of s u "unit_bucket u s"] by (simp add: unit_bucket_def)

text \<open>The first full minute that is not before \<open>now\<close>: the end of the last minute candle that is read.\<close>

definition minute_end :: "int \<Rightarrow> int" where
  "minute_end now = (now + 59) div 60 * 60"

lemma minute_end: "now \<le> minute_end now" "minute_end now < now + 60" "60 dvd now \<Longrightarrow> minute_end now = now" "\<not> 60 dvd now \<Longrightarrow> now < minute_end now"
  unfolding minute_end_def by presburger+

lemma minute_bucket:
  fixes s now :: int
  shows "s div 60 * 60 < now \<longleftrightarrow> s < (now + 59) div 60 * 60"
    and "s < now \<Longrightarrow> s div 60 * 60 + 60 \<le> (now + 59) div 60 * 60"
proof -
  define q r where "q = s div 60" and "r = (now + 59) div 60"
  have s: "60 * q \<le> s" "s < 60 * q + 60" unfolding q_def by presburger+
  have n: "now \<le> 60 * r" "60 * r < now + 60" unfolding r_def by presburger+
  consider "q + 1 \<le> r" | "r \<le> q" by linarith
  then show "s div 60 * 60 < now \<longleftrightarrow> s < (now + 59) div 60 * 60"
    unfolding q_def [symmetric] r_def [symmetric] by cases (use s n in linarith)+
  show "s div 60 * 60 + 60 \<le> (now + 59) div 60 * 60" if "s < now"
  proof -
    have "q + 1 \<le> r" using s n that by linarith
    then show ?thesis unfolding q_def [symmetric] r_def [symmetric] by linarith
  qed
qed

lemma minute_listed:
  assumes "60 dvd mid" "0 \<le> mid" "0 \<le> s"
  shows "unit_bucket 60 s \<in> set (times_up mid now 60) \<longleftrightarrow> mid \<le> s \<and> s < minute_end now"
proof -
  have b: "unit_bucket 60 s < now \<longleftrightarrow> s < minute_end now"
    using unit_bucket_pos [OF assms(3), of 60] minute_bucket(1) [of s now] by (simp add: minute_end_def)
  show ?thesis
  proof
    assume "unit_bucket 60 s \<in> set (times_up mid now 60)"
    then have "mid \<le> unit_bucket 60 s" "unit_bucket 60 s < now" by (auto simp: times_up_set)
    then show "mid \<le> s \<and> s < minute_end now" using unit_bucket_le [OF assms(3), of 60] b by simp
  next
    assume le: "mid \<le> s \<and> s < minute_end now"
    have "mid \<le> unit_bucket 60 s" using unit_bucket_mono [of mid s 60] le unit_bucket_eq [of mid 60 mid] assms by simp
    moreover have "60 dvd unit_bucket 60 s - mid" using assms(1) by (simp add: unit_bucket_def)
    ultimately show "unit_bucket 60 s \<in> set (times_up mid now 60)"
      using le b by (auto simp: times_up_set intro!: exI [of _ "nat ((unit_bucket 60 s - mid) div 60)"])
  qed
qed

text \<open>
  C20. The state of a market over the last \<open>period\<close> seconds: the candle is put together from the seconds up
  to the next full minute and the minutes after it, and it sums up exactly the deals from \<open>now - period\<close> on
  whose minute has begun before \<open>now\<close>. These are all deals before \<open>now\<close>, each once; of the deals in the
  current second itself, all are counted, but none when the current second is a full minute. The deals
  have arrived in the order of their times; the period is one the command accepts, and the settings keep
  the seconds and minutes it needs.
\<close>

theorem status_exact:
  assumes "mpd_lib M fin val" "info_ok fin val st Z now ds info" "deals_fit p (vals val ds)"
    "sorted (map fst ds)" "\<forall>d\<in>set ds. 0 \<le> fst d"
    "0 < period" "period \<le> now" "period \<le> pst_sec_max st" "period \<le> pst_min_max st * 60"
  shows "sums_up fin val (period_kline M info (now - period) now) (filter (\<lambda>d. now - period \<le> fst d \<and> fst d < minute_end now) ds) \<and>
    now \<le> minute_end now \<and> (now < minute_end now \<longleftrightarrow> \<not> 60 dvd now)"
proof (intro conjI)
  let ?start = "now - period"
  let ?mid = "unit_bucket 60 ?start + 60"
  have s0: "0 \<le> ?start" using assms(7) by simp
  have mid: "?start < ?mid" "60 dvd ?mid" using unit_bucket_le [OF s0, of 60] by (simp_all add: unit_bucket_def)
  have mid_end: "?mid \<le> minute_end now"
    using assms(6) unit_bucket_pos [OF s0, of 60] minute_bucket(2) [of ?start now] by (simp add: minute_end_def)
  have m: "sorted (map (\<lambda>d. unit_bucket u (fst d)) ds)" if "0 < u" for u
    using assms(4) that by (simp add: sorted_map) (metis (mono_tags, lifting) sorted_wrt_mono_rel unit_bucket_mono)
  let ?sec = "times_up ?start ?mid 1" and ?min = "times_up ?mid now 60"
  have sec: "unit_bucket 1 (fst d) \<in> set ?sec \<longleftrightarrow> ?start \<le> fst d \<and> fst d < ?mid" for d :: "'a deal"
    by (auto simp: times_up_set unit_bucket_def intro!: exI [of _ "nat (fst d - ?start)"])
  have min: "unit_bucket 60 (fst d) \<in> set ?min \<longleftrightarrow> ?mid \<le> fst d \<and> fst d < minute_end now" if "d \<in> set ds" for d
    using minute_listed [OF mid(2), of "fst d" now] mid(1) s0 assms(5) that by simp
  have secs: "sums_up fin val (merge_klines M (mi_sec info) ?sec None) (filter (\<lambda>d. ?start \<le> fst d \<and> fst d < ?mid) ds)"
    using assms(8) sec
    by (intro mpd_lib.merge_window [OF assms(1) info_okD(1) [OF assms(2)] _ assms(3) m times_up_sorted])
      (auto simp: times_up_set sec_start_def)
  have e: "in_buckets (unit_bucket 60) ?min ds = filter (\<lambda>d. ?mid \<le> fst d \<and> fst d < minute_end now) ds"
    using in_buckets_sorted [OF m times_up_sorted, of 60 60] min by (simp cong: filter_cong)
  have split: "filter (\<lambda>d. ?start \<le> fst d \<and> fst d < ?mid) ds @ filter (\<lambda>d. ?mid \<le> fst d \<and> fst d < minute_end now) ds =
      filter (\<lambda>d. ?start \<le> fst d \<and> fst d < minute_end now) ds"
  proof -
    have "filter (\<lambda>d. ?start \<le> fst d \<and> fst d < minute_end now) ds =
        filter (\<lambda>d. (?start \<le> fst d \<and> fst d < ?mid) \<or> (?mid \<le> fst d \<and> fst d < minute_end now)) ds"
      using mid(1) mid_end by (intro filter_cong) auto
    then show ?thesis
      using filter_append_sorted [OF assms(4), of "\<lambda>x. ?start \<le> x \<and> x < ?mid" "\<lambda>x. ?mid \<le> x \<and> x < minute_end now"] by simp
  qed
  have kept: "\<forall>t\<in>set ?min. kline_kept st now KLINE_MIN t"
  proof
    fix t
    assume "t \<in> set ?min"
    then have "?mid \<le> t" by (auto simp: times_up_set)
    moreover have "unit_bucket 60 now \<le> now" using unit_bucket_le [of now 60] assms(6,7) by simp
    ultimately show "kline_kept st now KLINE_MIN t"
      using mid(1) assms(9) by (simp add: min_start_def unit_bucket_def)
  qed
  have "deals_fit p (vals val (filter (\<lambda>d. ?start \<le> fst d \<and> fst d < ?mid) ds @ in_buckets (unit_bucket 60) ?min ds))"
    unfolding e split by (rule vals_fit [OF assms(3)])
  from mpd_lib.merge_klines_sums [OF assms(1) info_okD(2) [OF assms(2)] kept secs this]
  show "sums_up fin val (period_kline M info ?start now) (filter (\<lambda>d. ?start \<le> fst d \<and> fst d < minute_end now) ds)"
    unfolding e split by (simp add: period_kline_def Let_def unit_bucket_def)
  show "now \<le> minute_end now" "now < minute_end now \<longleftrightarrow> \<not> 60 dvd now" using minute_end [of now] by auto
qed

lemma status_exact_witness:
  "sums_up dec_fin dec_val (period_kline dec_ops ex_info 100 200) [(130, Dec 101 0, Dec 1 0)]"
  using status_exact [OF dec_mpd_lib ex_info_ok ex_deals_fit, of 100]
  by (simp add: ex_deals_def ex_price_settings_def minute_end_def)

section \<open>Requests that go wrong\<close>

lemma first_kline_None: "\<forall>t\<in>set ts. D t = None \<Longrightarrow> first_kline D ts = None"
  by (induction ts) auto

lemma merge_klines_None: "\<forall>t\<in>set ts. D t = None \<Longrightarrow> merge_klines M D ts k = k"
  by (induction ts) auto

lemma times_down_set: "0 < step \<Longrightarrow> t \<in> set (times_down a b step) \<Longrightarrow> \<exists>i. t = a - int i * step"
  by (auto simp: times_down_def)

lemma month_loop_hangs:
  assumes D: "\<forall>t\<le> stop. D t = None" and start: "mon_start \<le> stop"
  shows "month_loop M Z D stop tm_year tm_mon mon_start None = None"
proof -
  have "False" if "month_loop M Z D stop tm_year tm_mon mon_start None = Some ks" for ks
    using month_loop.raw_induct [of "\<lambda>M Z D' stop' tm_year tm_mon mon_start' klast ks.
        D' = D \<and> stop' = stop \<and> mon_start' = mon_start \<and> klast = None \<longrightarrow> False", OF _ that]
  proof (rule mp, goal_cases)
    case (1 loop M Z D' stop' tm_year tm_mon mon_start' klast ks)
    show ?case
    proof
      assume e: "D' = D \<and> stop' = stop \<and> mon_start' = mon_start \<and> klast = None"
      obtain mon_next y m where n: "get_next_month Z tm_year tm_mon = (mon_next, y, m)" by (metis prod_cases3)
      have "merge_klines M D (times_up mon_start (min mon_next (stop + 1)) 86400) None = None"
        using D by (intro merge_klines_None) (auto simp: times_up_set)
      then have "loop M Z D stop y m mon_start None = Some ks"
        using 1(2) e start n by simp
      from 1(1) [OF this] show False by simp
    qed
  qed simp
  then show ?thesis by (cases "month_loop M Z D stop tm_year tm_mon mon_start None") auto
qed

text \<open>
  C21. A request for the candles of months never returns when the market had no deal up to the end
  of the requested time, for instance a market that is configured and was never traded: the loop
  starts again with the same month. One such packet stops the price server. (The code's year is an
  \<^verbatim>\<open>int\<close>: the model's loop goes on where the code's would overflow it after
  \<open>2 ^ 31\<close> years.)
\<close>

theorem month_request_hangs:
  assumes "json_array_size (json E) params = 4" "known_market E S params = Some market"
    "px_markets (pv_prices S) market = Some info" "\<forall>t\<le> seconds (clock E (px_ticks (pv_prices S))). mi_day info t = None"
    "0 < time_value E params 1" "time_value E params 1 \<le> time_value E params 2"
    "time_value E params 1 \<le> seconds (clock E (px_ticks (pv_prices S)))"
    "int_value E params 3 = 30 * 86400" "pv_cache S (Price_Server.cache_key_of pkg) = None"
    "tz_localtime Z (time_value E params 1) = (year, month, day)" "tz_mktime Z (year, month, 1) \<le> time_value E params 1"
  shows "on_cmd_market_kline E st Z pkg params S = None"
proof -
  define now where "now = seconds (clock E (px_ticks (pv_prices S)))"
  define start where "start = time_value E params 1"
  define stop where "stop = (if time_value E params 2 > now then now else time_value E params 2)"
  have stop: "start \<le> stop" "stop \<le> now" "0 < stop" using assms(5,6,7) by (auto simp: stop_def start_def now_def)
  have m: "tz_mktime Z (year, month, 1) \<le> stop" using assms(11) stop(1) by (simp add: start_def)
  have days: "\<forall>t\<le> stop. mi_day info t = None" using assms(4) stop(2) by (auto simp: now_def)
  have "get_last_kline (mi_day info) (tz_mktime Z (year, month, 1) - 86400) (start - 86400 * 30) 86400 = None"
    unfolding get_last_kline_def
    using days m by (intro first_kline_None) (auto dest!: times_down_set [rotated])
  then have "klines_month (mpd E) Z info start stop = None"
    using month_loop_hangs [OF days m] assms(10) by (simp add: klines_month_def get_month_start_def start_def)
  then have "kline_result E st Z market start stop (30 * 86400) (S\<lparr>pv_prices := snd (tick E (pv_prices S))\<rparr>) = None"
    using assms(3) by (simp add: kline_result_def Let_def get_market_kline_month_def market_query_def tick_def)
  then have k: "kline_result E st Z market start stop 2592000
      (S\<lparr>pv_prices := (pv_prices S)\<lparr>px_ticks := px_ticks (pv_prices S) + 1\<rparr>\<rparr>) = None"
    by (simp add: tick_def)
  have stop': "(if time_value E params 2 > now then now else time_value E params 2) = stop" by (simp add: stop_def)
  have start': "time_value E params 1 = start" by (simp add: start_def)
  show ?thesis
    using assms(1,2,5,8,9) stop k
    unfolding on_cmd_market_kline_def Let_def server_tick_def tick_def prod.case fst_conv snd_conv now_def [symmetric] stop' start'
    by (simp add: Price_Server.process_cache_def)
qed

lemma month_request_hangs_witness:
  "on_cmd_market_kline ex_env ex_price_settings (ex_zone 0)
     \<lparr>magic = 0, command = CMD_MARKET_KLINE, pkg_type = 0, pkg_result = 0, pkg_crc32 = 0, pkg_sequence = 1, req_id = 1,
      body_size = 0, ext_size = 0, pkg_ext = [], pkg_body = []\<rparr>
     (JArr [JStr ''BTCCNY'', JInt 1, JInt 2, JInt 2592000])
     \<lparr>pv_prices = ex_prices\<lparr>px_markets := [''BTCCNY'' \<mapsto> create_market ex_env ''BTCCNY''], px_ticks := 1000000\<rparr>,
      pv_cache = Map.empty\<rparr> = None"
  by (rule month_request_hangs [where market = "''BTCCNY''" and info = "create_market ex_env ''BTCCNY''" and
        year = 70 and month = 0 and day = 1])
    (simp_all add: known_market_def market_exist_def market_query_def time_value_def int_value_def create_market_def
      ex_zone_def ex_prices_def seconds_def)

lemma advance_base_dvd:
  assumes "0 < interval" "k dvd interval"
  shows "k dvd advance_base base interval start - base"
  unfolding advance_base_def
proof (rule while_rule [where P = "\<lambda>b. k dvd b - base" and r = "measure (\<lambda>b. nat (start - b))"])
  show "\<And>b. k dvd b - base \<Longrightarrow> b + interval \<le> start \<Longrightarrow> k dvd b + interval - base"
    using assms(2) by (metis add_diff_eq diff_add_eq dvd_add)
qed (use assms(1) in auto)

text \<open>
  In a time zone that is not a whole number of hours from the zone in which times are counted,
  no stored candle of an hour is ever found: whatever was dealt, a request for candles of hours is
  answered with an empty list, since the stored candles begin at multiples of 3600 seconds and the
  requested ones at full hours of local time.
\<close>

theorem hour_candles_lost:
  assumes "\<forall>t\<in>dom (mi_hour info). 3600 dvd t" "0 < interval" "3600 dvd interval"
    "\<not> 3600 dvd get_day_start Z (if start < hour_start st now then hour_start st now else start)"
  shows "klines_hour M st Z info now start stop interval = []"
proof -
  define base where "base = advance_base (get_day_start Z (if start < hour_start st now then hour_start st now else start)) interval
      (if start < hour_start st now then hour_start st now else start)"
  have nd: "\<not> 3600 dvd base"
    using advance_base_dvd [OF assms(2,3)] assms(4) unfolding base_def by (metis dvd_diff_commute dvd_diff_right_iff)
  have no: "mi_hour info t = None" if "3600 dvd t - base" for t
    using assms(1) nd that by (metis domIff dvd_diff_right_iff dvd_diff_commute)
  have last: "get_last_kline (mi_hour info) (base - 3600) (hour_start st now) 3600 = None"
    unfolding get_last_kline_def
    by (intro first_kline_None ballI no) (auto dest!: times_down_set [rotated])
  have loop: "kline_loop M (mi_hour info) (inner_times interval 3600) starts None = []"
    if "\<forall>t\<in>set starts. 3600 dvd t - base" for starts
    using that
  proof (induction starts)
    case (Cons s starts)
    have "mi_hour info t = None" if "t \<in> set (inner_times interval 3600 s)" for t
    proof (rule no)
      obtain i where "t = s + int i * 3600" using \<open>t \<in> set (inner_times interval 3600 s)\<close> by (auto simp: inner_times_def)
      then have "t - base = (s - base) + int i * 3600" by simp
      then show "3600 dvd t - base" using Cons.prems by (simp only: dvd_add_times_triv_right_iff) simp
    qed
    then have "merge_klines M (mi_hour info) (inner_times interval 3600 s) None = None" by (intro merge_klines_None) blast
    then show ?case using Cons by simp
  qed simp
  have "3600 dvd t - base" if "t \<in> set (times_up base (stop + 1) interval)" for t
    using that assms(2,3) by (auto simp: times_up_set)
  then show ?thesis using last loop by (simp add: klines_hour_def Let_def base_def)
qed

lemma hour_candles_lost_witness:
  "klines_hour dec_ops ex_price_settings (ex_zone 1800) ex_info 200 100 200 3600 = []"
proof (rule hour_candles_lost)
  show "\<forall>t\<in>dom (mi_hour ex_info). 3600 dvd t"
    by (auto simp: ex_info_def on_deals_message_def ex_messages market_update_def Let_def tick_def ex_prices_def market_query_def
        create_market_def update_klines_def add_update_def append_deal_def kline_put_def time_hour_def)
qed (simp_all add: ex_zone_def get_day_start_def hour_start_def ex_price_settings_def)

end
