(* ===== verification/Http.thy ===== *)
theory Http
  imports Dict Bytes
begin

text \<open>
  \<^verbatim>\<open>utils/ut_http.c\<close> and \<^verbatim>\<open>utils/ut_http_svr.c\<close>: HTTP requests and
  responses, and the server that puts a request together from what the parser reports. The parser
  (\<^verbatim>\<open>http_parser.c\<close>, a copy of a library) is a parameter: for the bytes it is given, it
  yields the calls of its callbacks and whether it understood everything. Texts are lists of
  bytes, written as characters.
\<close>

section \<open>Headers\<close>

text \<open>
  Two names of headers are equal up to the case of their letters: a key is the name in lower case,
  and the entry holds the name as it was first written, and the value.
\<close>

definition lower_char :: "char \<Rightarrow> char" where
  "lower_char c = (let n = of_char c :: nat in if 65 \<le> n \<and> n \<le> 90 then char_of (n + 32) else c)"

definition lower :: "string \<Rightarrow> string" where
  "lower = map lower_char"

type_synonym headers = "(string, string \<times> string) dict"

definition dict_header_hash_func :: "string \<Rightarrow> u32" where
  "dict_header_hash_func key = dict_generic_hash_function (text_bytes (lower key))"

definition create_header_dict :: "headers option" where
  "create_header_dict = dict_create 64"

text \<open>A second value of a header is appended to the first.\<close>

definition set_header :: "string \<Rightarrow> string \<Rightarrow> headers \<Rightarrow> (int \<times> headers) option" where
  "set_header field value H =
     (case dict_find dict_header_hash_func H (lower field) of
        (Some (name, old), H) \<Rightarrow>
          map_option (\<lambda>(_, H). (0, H)) (dict_replace dict_header_hash_func H (lower field) (name, old @ '', '' @ value))
      | (None, H) \<Rightarrow>
          map_option (\<lambda>(added, H). (if added then 0 else - 1, H)) (dict_add dict_header_hash_func H (lower field) (field, value)))"

definition get_header :: "headers \<Rightarrow> string \<Rightarrow> string option" where
  "get_header H field = map_option snd (fst (dict_find dict_header_hash_func H (lower field)))"

section \<open>Requests\<close>

definition HTTP_GET :: nat where "HTTP_GET = 1"
definition HTTP_POST :: nat where "HTTP_POST = 3"

record http_request =
  rq_version_major :: nat
  rq_version_minor :: nat
  rq_method :: nat
  rq_headers :: headers
  rq_url :: "string option"
  rq_body :: "string option"

definition http_request_new :: "http_request option" where
  "http_request_new =
     map_option (\<lambda>H. \<lparr>rq_version_major = 0, rq_version_minor = 0, rq_method = 0, rq_headers = H, rq_url = None, rq_body = None\<rparr>)
       create_header_dict"

definition http_request_set_header :: "string \<Rightarrow> string \<Rightarrow> http_request \<Rightarrow> http_request option" where
  "http_request_set_header field value request =
     map_option (\<lambda>(_, H). request\<lparr>rq_headers := H\<rparr>) (set_header field value (rq_headers request))"

definition http_request_get_header :: "http_request \<Rightarrow> string \<Rightarrow> string option" where
  "http_request_get_header request field = get_header (rq_headers request) field"

text \<open>
  The address of a client behind proxies; \<open>peer\<close> is the address of the socket. The code means to
  cut the list of addresses at the first comma, but writes the digit 0 there.
\<close>

definition NW_SOCK_IP_SIZE :: nat where "NW_SOCK_IP_SIZE = 46"

definition http_get_remote_ip :: "string \<Rightarrow> http_request \<Rightarrow> string" where
  "http_get_remote_ip peer request =
     (case http_request_get_header request ''X-Connecting-IP'' of Some ip \<Rightarrow> ip
      | None \<Rightarrow>
     (case http_request_get_header request ''X-Forwarded-For'' of
        Some list \<Rightarrow>
          (let ip = take (NW_SOCK_IP_SIZE - 1) list; k = length (takeWhile (\<lambda>c. c \<noteq> CHR '','') ip)
           in if k < length ip then ip[k := CHR ''0''] else ip)
      | None \<Rightarrow>
     (case http_request_get_header request ''X-Proxy-IP'' of Some ip \<Rightarrow> ip
      | None \<Rightarrow>
     (case http_request_get_header request ''X-Real-IP'' of Some ip \<Rightarrow> ip
      | None \<Rightarrow> peer))))"

section \<open>Responses\<close>

record http_response =
  rs_status :: u32
  rs_headers :: headers
  rs_content :: "string option"
  rs_content_size :: nat

definition http_response_new :: "http_response option" where
  "http_response_new =
     map_option (\<lambda>H. \<lparr>rs_status = 0, rs_headers = H, rs_content = None, rs_content_size = 0\<rparr>) create_header_dict"

definition http_response_set_header :: "string \<Rightarrow> string \<Rightarrow> http_response \<Rightarrow> http_response option" where
  "http_response_set_header field value response =
     map_option (\<lambda>(_, H). response\<lparr>rs_headers := H\<rparr>) (set_header field value (rs_headers response))"

definition http_response_get_header :: "http_response \<Rightarrow> string \<Rightarrow> string option" where
  "http_response_get_header response field = get_header (rs_headers response) field"

definition status_descriptions :: "(u32 \<times> string) list" where
  "status_descriptions = [
   (100, ''Continue''), (101, ''Switching Protocols''), (102, ''Processing''), (200, ''OK''),
   (201, ''Created''), (202, ''Accepted''), (203, ''Non-Authoritative Information''), (204, ''No Content''),
   (205, ''Reset Content''), (206, ''Partial Content''), (207, ''Multi-Status''), (208, ''Already Reported''),
   (226, ''IM Used''), (300, ''Multiple Choices''), (301, ''Moved Permanently''), (302, ''Found''),
   (303, ''See Other''), (304, ''Not Modified''), (305, ''Use Proxy''), (307, ''Temporary Redirect''),
   (308, ''Permanent Redirect''), (400, ''Bad Request''), (401, ''Unauthorized''), (402, ''Payment Required''),
   (403, ''Forbidden''), (404, ''Not Found''), (405, ''Method Not Allowed''), (406, ''Not Acceptable''),
   (407, ''Proxy Authentication Required''), (408, ''Request Timeout''), (409, ''Conflict''), (410, ''Gone''),
   (411, ''Length Required''), (412, ''Precondition Failed''), (413, ''Payload Too Large''), (414, ''URI Too Long''),
   (415, ''Unsupported Media Type''), (416, ''Range Not Satisfiable''), (417, ''Expectation Failed''), (421, ''Misdirected Request''),
   (422, ''Unprocessable Entity''), (423, ''Locked''), (424, ''Failed Dependency''), (426, ''Upgrade Required''),
   (428, ''Precondition Required''), (429, ''Too Many Requests''), (431, ''Request Header Fields Too Large''), (451, ''Unavailable For Legal Reasons''),
   (500, ''Internal Server Error''), (501, ''Not Implemented''), (502, ''Bad Gateway''), (503, ''Service Unavailable''),
   (504, ''Gateway Timeout''), (505, ''HTTP Version Not Supported''), (506, ''Variant Also Negotiates''), (507, ''Insufficient Storage''),
   (508, ''Loop Detected''), (510, ''Not Extended''), (511, ''Network Authentication Required'')]"

definition get_status_description :: "u32 \<Rightarrow> string" where
  "get_status_description status = (case map_of status_descriptions status of Some d \<Rightarrow> d | None \<Rightarrow> ''Unknown'')"

text \<open>
  The date of a response: \<^verbatim>\<open>gmtime\<close> and \<^verbatim>\<open>strftime\<close> with the full name of the
  month, as the code asks for. The civil date of a day is counted in eras of 400 years that
  begin on the first of March.
\<close>

definition civil_date :: "int \<Rightarrow> int \<times> nat \<times> nat" where
  "civil_date days =
     (let z = days + 719468; era = z div 146097; doe = z mod 146097;
          yoe = (doe - doe div 1460 + doe div 36524 - doe div 146096) div 365;
          doy = doe - (365 * yoe + yoe div 4 - yoe div 100);
          mp = (5 * doy + 2) div 153; d = doy - (153 * mp + 2) div 5 + 1;
          m = (if mp < 10 then mp + 3 else mp - 9)
      in (yoe + era * 400 + (if m \<le> 2 then 1 else 0), nat m, nat d))"

definition month_names :: "string list" where
  "month_names = [''January'', ''February'', ''March'', ''April'', ''May'', ''June'', ''July'', ''August'', ''September'',
     ''October'', ''November'', ''December'']"

definition day_names :: "string list" where
  "day_names = [''Thu'', ''Fri'', ''Sat'', ''Sun'', ''Mon'', ''Tue'', ''Wed'']"

definition two_digits :: "nat \<Rightarrow> string" where
  "two_digits n = (if n < 10 then ''0'' @ show_digits n else show_digits n)"

definition http_date :: "int \<Rightarrow> string" where
  "http_date now =
     (let days = now div 86400; sec = nat (now mod 86400) in
      case civil_date days of
        (year, month, day) \<Rightarrow>
          day_names ! nat (days mod 7) @ '', '' @ two_digits day @ '' '' @ month_names ! (month - 1) @ '' '' @ show_long year @ '' '' @
          two_digits (sec div 3600) @ '':'' @ two_digits (sec div 60 mod 60) @ '':'' @ two_digits (sec mod 60) @ '' GMT'')"

definition crlf :: string where "crlf = [CHR 0x0D, CHR 0x0A]"

definition http_response_encode :: "int \<Rightarrow> http_response \<Rightarrow> string" where
  "http_response_encode now response =
     ''HTTP/1.1 '' @ show_digits (unat (rs_status response)) @ '' '' @ get_status_description (rs_status response) @ crlf @
     ''Date: '' @ http_date now @ crlf @
     ''Content-Length: '' @ show_digits (rs_content_size response) @ crlf @
     concat (map (\<lambda>(_, (name, value), _). name @ '': '' @ value @ crlf) (dict_entries (rs_headers response))) @ crlf @
     (case rs_content response of None \<Rightarrow> [] | Some content \<Rightarrow> take (rs_content_size response) content)"

text \<open>What \<^verbatim>\<open>send_http_response_simple\<close> gives to the session.\<close>

definition http_response_simple :: "int \<Rightarrow> u32 \<Rightarrow> string option \<Rightarrow> nat \<Rightarrow> string option" where
  "http_response_simple now status content sz =
     map_option (\<lambda>response. http_response_encode now (response\<lparr>rs_status := status, rs_content := content, rs_content_size := sz\<rparr>))
       http_response_new"

section \<open>The server\<close>

text \<open>The calls of the parser, and what the server keeps for a connection.\<close>

datatype parse_event = Message_begin | On_url string | Header_field string | Header_value string | On_body string
  | Message_complete nat nat nat

record http_clt =
  hc_last_activity :: int
  hc_field :: string
  hc_field_set :: bool
  hc_value :: string
  hc_value_set :: bool
  hc_request :: "http_request option"

definition on_new_connection :: "int \<Rightarrow> http_clt" where
  "on_new_connection now = \<lparr>hc_last_activity = now, hc_field = [], hc_field_set = False, hc_value = [], hc_value_set = False,
     hc_request = None\<rparr>"

text \<open>
  The callbacks but the last; \<open>None\<close>: there is no request, which the parser rules out by its order
  of calls.
\<close>

fun on_parse :: "parse_event \<Rightarrow> http_clt \<Rightarrow> http_clt option" where
  "on_parse Message_begin info = map_option (\<lambda>request. info\<lparr>hc_request := Some request\<rparr>) http_request_new"
| "on_parse (On_url bs) info = map_option (\<lambda>request. info\<lparr>hc_request := Some (request\<lparr>rq_url := Some bs\<rparr>)\<rparr>) (hc_request info)"
| "on_parse (Header_field bs) info = Some (info\<lparr>hc_field_set := True, hc_field := bs\<rparr>)"
| "on_parse (Header_value bs) info =
     (let info = info\<lparr>hc_value_set := True, hc_value := bs\<rparr> in
      if hc_field_set info \<and> hc_value_set info
      then (case hc_request info of None \<Rightarrow> None
            | Some request \<Rightarrow>
                map_option (\<lambda>request. info\<lparr>hc_request := Some request, hc_field_set := False, hc_value_set := False\<rparr>)
                  (http_request_set_header (hc_field info) (hc_value info) request))
      else Some info)"
| "on_parse (On_body bs) info = map_option (\<lambda>request. info\<lparr>hc_request := Some (request\<lparr>rq_body := Some bs\<rparr>)\<rparr>) (hc_request info)"
| "on_parse (Message_complete major minor method) info =
     map_option (\<lambda>request. info\<lparr>hc_request := Some (request\<lparr>rq_version_major := major, rq_version_minor := minor,
         rq_method := method\<rparr>)\<rparr>) (hc_request info)"

text \<open>
  The calls in their order. The handler \<open>on_request\<close> works on the state \<open>'s\<close> of the service; a
  code other than 0 stops the parser and closes the connection: the first component is whether
  it is still open.
\<close>

fun run_parser :: "(http_request \<Rightarrow> 's \<Rightarrow> (int \<times> 's) option) \<Rightarrow> parse_event list \<Rightarrow> http_clt \<Rightarrow> 's \<Rightarrow> (bool \<times> http_clt \<times> 's) option" where
  "run_parser on_request [] info s = Some (True, info, s)"
| "run_parser on_request (e # es) info s =
     (case on_parse e info of
        None \<Rightarrow> None
      | Some info \<Rightarrow>
          (case (e, hc_request info) of
             (Message_complete _ _ _, Some request) \<Rightarrow>
               (case on_request request s of
                  None \<Rightarrow> None
                | Some (ret, s) \<Rightarrow> if ret \<noteq> 0 then Some (False, info, s) else run_parser on_request es info s)
           | _ \<Rightarrow> run_parser on_request es info s))"

definition http_on_recv_pkg ::
  "(http_request \<Rightarrow> 's \<Rightarrow> (int \<times> 's) option) \<Rightarrow> int \<Rightarrow> parse_event list \<times> bool \<Rightarrow> http_clt \<Rightarrow> 's \<Rightarrow> (bool \<times> http_clt \<times> 's) option" where
  "http_on_recv_pkg on_request now parsed info s =
     map_option (\<lambda>(alive, info, s). (alive \<and> snd parsed, info, s))
       (run_parser on_request (fst parsed) (info\<lparr>hc_last_activity := now\<rparr>) s)"

text \<open>Whether the timer closes a connection; times are milliseconds.\<close>

definition idle_too_long :: "int \<Rightarrow> nat \<Rightarrow> http_clt \<Rightarrow> bool" where
  "idle_too_long now keep_alive info = (now - hc_last_activity info > int keep_alive * 1000)"

section \<open>What a service sees of a request\<close>

text \<open>The values of all headers with a name, joined.\<close>

fun join :: "string \<Rightarrow> string list \<Rightarrow> string option" where
  "join sep [] = None"
| "join sep (v # vs) = Some (foldl (\<lambda>a v. a @ sep @ v) v vs)"

definition joined :: "(string \<times> string) list \<Rightarrow> string \<Rightarrow> string option" where
  "joined hs f = join '', '' (map snd (filter (\<lambda>h. lower (fst h) = lower f) hs))"

lemma join_snoc: "join sep (vs @ [v]) = Some (case join sep vs of None \<Rightarrow> v | Some a \<Rightarrow> a @ sep @ v)"
  by (cases vs) simp_all

definition headers_hold :: "nat \<Rightarrow> headers \<Rightarrow> (string \<times> string) list \<Rightarrow> bool" where
  "headers_hold n H hs \<longleftrightarrow> dict_ok dict_header_hash_func n H \<and>
     (\<forall>f. map_option snd (dict_map H (lower f)) = joined hs f)"

lemma get_header_hold: "headers_hold n H hs \<Longrightarrow> get_header H f = joined hs f"
proof -
  assume h: "headers_hold n H hs"
  then have "dict_ok dict_header_hash_func n H" by (simp add: headers_hold_def)
  from dict_find_ok [OF this, of "lower f"] show ?thesis using h by (metis fst_conv get_header_def headers_hold_def)
qed

lemma set_header_hold:
  assumes h: "headers_hold (Suc n) H hs"
  obtains r H' where "set_header f v H = Some (r, H')" "headers_hold n H' (hs @ [(f, v)])"
proof -
  have ok: "dict_ok dict_header_hash_func (Suc n) H" and m: "\<And>g. map_option snd (dict_map H (lower g)) = joined hs g"
    using h by (simp_all add: headers_hold_def)
  obtain H1 where H1: "dict_find dict_header_hash_func H (lower f) = (dict_map H (lower f), H1)"
    "dict_ok dict_header_hash_func (Suc n) H1" "dict_map H1 = dict_map H"
    by (rule dict_find_ok [OF ok])
  have j: "joined (hs @ [(f, v)]) g = (if lower g = lower f then Some (case joined hs f of None \<Rightarrow> v | Some a \<Rightarrow> a @ '', '' @ v)
      else joined hs g)" for g
    by (auto simp: joined_def join_snoc)
  show thesis
  proof (cases "dict_map H (lower f)")
    case None
    obtain H2 where "dict_add dict_header_hash_func H1 (lower f) (f, v) = Some (dict_map H1 (lower f) = None, H2)"
      "dict_ok dict_header_hash_func n H2"
      "dict_map H2 = (if dict_map H1 (lower f) = None then (dict_map H1)(lower f \<mapsto> (f, v)) else dict_map H1)"
      by (rule dict_add_ok [OF H1(2)])
    then show thesis using that [of 0 H2] None H1 m m [of f] j by (auto simp: set_header_def headers_hold_def)
  next
    case (Some w)
    obtain name old where w: "w = (name, old)" by (cases w)
    obtain H2 where "dict_replace dict_header_hash_func H1 (lower f) (name, old @ '', '' @ v) =
        Some (if dict_map H1 (lower f) = None then 1 else 0, H2)" "dict_ok dict_header_hash_func n H2"
      "dict_map H2 = (dict_map H1)(lower f \<mapsto> (name, old @ '', '' @ v))"
      by (rule dict_replace_ok [OF H1(2)])
    moreover have "joined hs f = Some old" using m [of f] Some by (simp add: w)
    ultimately show thesis using that [of 0 H2] Some H1 m by (simp add: set_header_def headers_hold_def w j)
  qed
qed

text \<open>
  The calls for some headers, whose names and values the parser reports in pieces, and what is kept of
  each: the last piece of the name and the first of the value.
\<close>

definition header_events :: "(string list \<times> string list) list \<Rightarrow> parse_event list" where
  "header_events hs = concat (map (\<lambda>(fs, vs). map Header_field fs @ map Header_value vs) hs)"

definition kept :: "(string list \<times> string list) list \<Rightarrow> (string \<times> string) list" where
  "kept hs = map (\<lambda>(fs, vs). (last fs, hd vs)) hs"

lemma run_field_pieces:
  "fs \<noteq> [] \<Longrightarrow> run_parser on_request (map Header_field fs @ es) info s =
     run_parser on_request es (info\<lparr>hc_field_set := True, hc_field := last fs\<rparr>) s"
proof (induction fs arbitrary: info)
  case (Cons f fs)
  then show ?case by (cases "fs = []") simp_all
qed simp

lemma run_later_values:
  "\<not> hc_field_set info \<Longrightarrow> \<exists>info'. run_parser on_request (map Header_value vs @ es) info s = run_parser on_request es info' s \<and>
     hc_request info' = hc_request info"
proof (induction vs arbitrary: info)
  case (Cons v vs)
  from Cons.IH [of "info\<lparr>hc_value_set := True, hc_value := v\<rparr>"] Cons.prems show ?case by simp
qed auto

lemma run_header_events:
  assumes "hc_request info = Some request" "headers_hold (length hs) (rq_headers request) gs" "\<forall>(fs, vs)\<in>set hs. fs \<noteq> [] \<and> vs \<noteq> []"
  shows "\<exists>info' request'. run_parser on_request (header_events hs @ es) info s = run_parser on_request es info' s \<and>
    hc_request info' = Some request' \<and> headers_hold 0 (rq_headers request') (gs @ kept hs) \<and>
    rq_url request' = rq_url request \<and> rq_body request' = rq_body request"
  using assms
proof (induction hs arbitrary: info request gs)
  case Nil
  then show ?case by (auto simp: header_events_def kept_def)
next
  case (Cons h hs)
  obtain fs v vs where h: "h = (fs, v # vs)" "fs \<noteq> []" using Cons.prems(3) by (cases h) (auto simp: neq_Nil_conv)
  let ?f = "last fs"
  obtain r H' where H': "set_header ?f v (rq_headers request) = Some (r, H')" "headers_hold (length hs) H' (gs @ [(?f, v)])"
    by (rule set_header_hold [of "length hs" "rq_headers request" gs ?f v]) (use Cons.prems(2) in simp_all)
  let ?info = "info\<lparr>hc_field := ?f, hc_value := v, hc_request := Some (request\<lparr>rq_headers := H'\<rparr>), hc_field_set := False, hc_value_set := False\<rparr>"
  obtain info2 where i2: "run_parser on_request (map Header_value vs @ header_events hs @ es) ?info s =
      run_parser on_request (header_events hs @ es) info2 s" "hc_request info2 = Some (request\<lparr>rq_headers := H'\<rparr>)"
    using run_later_values [of ?info on_request vs "header_events hs @ es" s] by auto
  have "run_parser on_request (header_events (h # hs) @ es) info s =
      run_parser on_request (map Header_value vs @ header_events hs @ es) ?info s"
    using Cons.prems(1) H'(1) run_field_pieces [OF h(2), of on_request "map Header_value (v # vs) @ header_events hs @ es" info s]
    by (simp add: header_events_def h(1) http_request_set_header_def Let_def)
  then have run: "run_parser on_request (header_events (h # hs) @ es) info s = run_parser on_request (header_events hs @ es) info2 s"
    using i2(1) by simp
  have "\<forall>(fs, vs)\<in>set hs. fs \<noteq> [] \<and> vs \<noteq> []" using Cons.prems(3) by simp
  from Cons.IH [OF i2(2) _ this, of "gs @ [(?f, v)]"] H'(2) show ?case unfolding run by (simp add: h(1) kept_def)
qed

lemma run_url_pieces:
  assumes "hc_request info = Some request" "us \<noteq> []"
  shows "run_parser on_request (map On_url us @ es) info s =
    run_parser on_request es (info\<lparr>hc_request := Some (request\<lparr>rq_url := Some (last us)\<rparr>)\<rparr>) s"
  using assms
proof (induction us arbitrary: info request)
  case (Cons u us)
  then show ?case by (cases "us = []") simp_all
qed simp

lemma run_body_events:
  assumes "hc_request info = Some request"
  shows "\<exists>info'. run_parser on_request (map On_body bs @ es) info s = run_parser on_request es info' s \<and>
    hc_request info' = Some (if bs = [] then request else request\<lparr>rq_body := Some (last bs)\<rparr>)"
  using assms
proof (induction bs arbitrary: info request)
  case Nil
  then show ?case by auto
next
  case (Cons b bs)
  from Cons.IH [of "info\<lparr>hc_request := Some (request\<lparr>rq_body := Some b\<rparr>)\<rparr>" "request\<lparr>rq_body := Some b\<rparr>"] Cons.prems
  show ?case by auto
qed

lemma header_dict_new: "n < 2 ^ 30 \<Longrightarrow> \<exists>H. create_header_dict = Some H \<and> headers_hold n H []"
proof -
  assume n: "n < 2 ^ 30"
  have "size_ok 64" unfolding size_ok_def by (rule bexI [of _ 6]) simp_all
  from dict_create_ok [OF this n, of dict_header_hash_func] obtain H :: headers
    where "dict_create 64 = Some H" "dict_ok dict_header_hash_func n H" "dict_map H = Map.empty" by blast
  then show ?thesis by (auto simp: create_header_dict_def headers_hold_def joined_def)
qed

text \<open>
  C30. The service is called once for a request, however the parser cuts it into pieces, with its method,
  its URL and its headers, whose names are found in any case and whose values are joined in their order.
  What arrives in one piece is complete; of a URL, a header name or a body that is reported in several pieces
  only the last piece is left, and of a header value only the first.
\<close>

theorem http_request_assembled:
  assumes "length hs < 2 ^ 30" and "\<forall>(fs, vs)\<in>set hs. fs \<noteq> [] \<and> vs \<noteq> []" and "us \<noteq> []"
  shows "\<exists>request info'.
    run_parser on_request (Message_begin # map On_url us @ header_events hs @ map On_body bs @ [Message_complete major minor method]) info s =
      map_option (\<lambda>(ret, s). (ret = 0, info', s)) (on_request request s) \<and>
    rq_method request = method \<and> rq_url request = Some (last us) \<and>
    (\<forall>f. http_request_get_header request f = joined (kept hs) f) \<and>
    rq_body request = (if bs = [] then None else Some (last bs))"
proof -
  obtain H where H: "create_header_dict = Some H" "headers_hold (length hs) H []" using header_dict_new [OF assms(1)] by blast
  let ?r = "\<lparr>rq_version_major = 0, rq_version_minor = 0, rq_method = 0, rq_headers = H, rq_url = None, rq_body = None\<rparr>"
  let ?rest = "map On_body bs @ [Message_complete major minor method]" and ?ru = "?r\<lparr>rq_url := Some (last us)\<rparr>"
  obtain i1 r1 where r1: "run_parser on_request (header_events hs @ ?rest) (info\<lparr>hc_request := Some ?ru\<rparr>) s =
      run_parser on_request ?rest i1 s"
    "hc_request i1 = Some r1" "headers_hold 0 (rq_headers r1) (kept hs)" "rq_url r1 = Some (last us)" "rq_body r1 = None"
    using run_header_events [of "info\<lparr>hc_request := Some ?ru\<rparr>" ?ru hs "[]" on_request ?rest s] H(2) assms(2) by auto
  obtain i2 where i2: "run_parser on_request ?rest i1 s = run_parser on_request [Message_complete major minor method] i2 s"
    "hc_request i2 = Some (if bs = [] then r1 else r1\<lparr>rq_body := Some (last bs)\<rparr>)"
    using run_body_events [OF r1(2), of on_request bs "[Message_complete major minor method]" s] by blast
  let ?q = "(if bs = [] then r1 else r1\<lparr>rq_body := Some (last bs)\<rparr>)
      \<lparr>rq_version_major := major, rq_version_minor := minor, rq_method := method\<rparr>"
  have "run_parser on_request (Message_begin # map On_url us @ header_events hs @ ?rest) info s =
      run_parser on_request (header_events hs @ ?rest) (info\<lparr>hc_request := Some ?ru\<rparr>) s"
  proof -
    have "run_parser on_request (map On_url us @ header_events hs @ ?rest) (info\<lparr>hc_request := Some ?r\<rparr>) s =
        run_parser on_request (header_events hs @ ?rest) (info\<lparr>hc_request := Some ?r, hc_request := Some ?ru\<rparr>) s"
      by (rule run_url_pieces) (use assms(3) in simp_all)
    then show ?thesis by (simp add: http_request_new_def H(1))
  qed
  moreover have "run_parser on_request [Message_complete major minor method] i2 s =
      map_option (\<lambda>(ret, s). (ret = 0, i2\<lparr>hc_request := Some ?q\<rparr>, s)) (on_request ?q s)"
    using i2(2) by (simp split: option.split prod.split)
  ultimately have "run_parser on_request (Message_begin # map On_url us @ header_events hs @ ?rest) info s =
      map_option (\<lambda>(ret, s). (ret = 0, i2\<lparr>hc_request := Some ?q\<rparr>, s)) (on_request ?q s)" unfolding r1(1) i2(1) by simp
  moreover have "\<forall>f. http_request_get_header ?q f = joined (kept hs) f"
    using get_header_hold [OF r1(3)] by (simp add: http_request_get_header_def)
  ultimately show ?thesis using r1(4,5) by (intro exI [of _ ?q] exI [of _ "i2\<lparr>hc_request := Some ?q\<rparr>"]) simp
qed

lemma http_request_assembled_witness:
  "\<exists>request info'.
    run_parser (\<lambda>request s. Some (0, rq_body request # s))
      (Message_begin # map On_url [''/''] @ header_events [([''Accept''], [''a'']), ([''HO'', ''HOST''], [''h'', ''ost'']), ([''accept''], [''b''])] @
        map On_body [''{abc'', ''def}''] @ [Message_complete 1 1 3]) (on_new_connection 0) [] = Some (True, info', [Some ''def}'']) \<and>
    http_request_get_header request ''ACCEPT'' = Some ''a, b'' \<and> http_request_get_header request ''host'' = Some ''h''"
proof -
  let ?hs = "[([''Accept''], [''a'']), ([''HO'', ''HOST''], [''h'', ''ost'']), ([''accept''], [''b''])]"
  have j: "joined (kept ?hs) ''ACCEPT'' = Some ''a, b''" "joined (kept ?hs) ''host'' = Some ''h''" by code_simp+
  have l: "length ?hs < 2 ^ 30" "\<forall>(fs, vs)\<in>set ?hs. fs \<noteq> [] \<and> vs \<noteq> []" "[''/''] \<noteq> []" by simp_all
  obtain request info' where r: "run_parser (\<lambda>request s. Some (0, rq_body request # s))
      (Message_begin # map On_url [''/''] @ header_events ?hs @ map On_body [''{abc'', ''def}''] @ [Message_complete 1 1 3])
      (on_new_connection 0) [] =
      map_option (\<lambda>(ret, s). (ret = 0, info', s)) (Some (0, rq_body request # []))"
    "\<forall>f. http_request_get_header request f = joined (kept ?hs) f" "rq_body request = Some ''def}''"
    using http_request_assembled [OF l, of "\<lambda>request s. Some (0, rq_body request # s)" "[''{abc'', ''def}'']" 1 1 3
        "on_new_connection 0" "[]"]
    by auto
  show ?thesis by (rule exI [of _ request], rule exI [of _ info']) (simp only: r j, simp)
qed

end
