(* ===== verification/Connections.thy ===== *)
theory Connections
  imports Prelude
begin

text \<open>
  \<^verbatim>\<open>network/nw_svr.c\<close>: the connections of a server. A session is an object at an
  address; the memory of a closed session is given to a later one, so whoever keeps the address of a
  session for later also keeps its id and compares the two. Ids are counted up, and that of a closed
  session is 0. Sockets and callbacks belong to the users of a server.
\<close>

section \<open>Sessions\<close>

type_synonym ses = nat

record connections =
  cn_id_start :: u64
  cn_id :: "ses \<Rightarrow> u64"
  cn_list :: "ses list"

definition nw_svr_create :: connections where
  "nw_svr_create = \<lparr>cn_id_start = 0, cn_id = (\<lambda>_. 0), cn_list = []\<rparr>"

text \<open>A new session in the memory at \<open>ses\<close>, which no open session uses.\<close>

definition nw_svr_add_ses :: "ses \<Rightarrow> connections \<Rightarrow> connections" where
  "nw_svr_add_ses ses svr =
     (let i = cn_id_start svr; svr = svr\<lparr>cn_id_start := cn_id_start svr + 1\<rparr>;
          (i, svr) = (if i = 0 then (cn_id_start svr, svr\<lparr>cn_id_start := cn_id_start svr + 1\<rparr>) else (i, svr))
      in svr\<lparr>cn_id := (cn_id svr)(ses := i), cn_list := cn_list svr @ [ses]\<rparr>)"

definition nw_svr_close_ses :: "ses \<Rightarrow> connections \<Rightarrow> connections" where
  "nw_svr_close_ses ses svr =
     (if cn_id svr ses = 0 then svr
      else svr\<lparr>cn_list := remove1 ses (cn_list svr), cn_id := (cn_id svr)(ses := 0)\<rparr>)"

section \<open>Ids tell sessions apart\<close>

text \<open>A server that can take \<open>n\<close> more connections before its counter wraps.\<close>

definition conns_ok :: "nat \<Rightarrow> connections \<Rightarrow> bool" where
  "conns_ok n svr \<longleftrightarrow> (\<forall>s. cn_id svr s \<noteq> 0 \<longrightarrow> cn_id svr s < cn_id_start svr) \<and> unat (cn_id_start svr) + 2 * n < 2 ^ 64 \<and>
     distinct (cn_list svr) \<and> set (cn_list svr) = {s. cn_id svr s \<noteq> 0}"

lemma conns_ok_create [simp]: "n < 2 ^ 63 \<Longrightarrow> conns_ok n nw_svr_create"
  by (simp add: conns_ok_def nw_svr_create_def)

lemma conns_ok_mono: "conns_ok n svr \<Longrightarrow> m \<le> n \<Longrightarrow> conns_ok m svr"
  by (auto simp: conns_ok_def)

lemma conns_ok_less: "conns_ok n svr \<Longrightarrow> cn_id svr s \<noteq> 0 \<Longrightarrow> cn_id svr s < cn_id_start svr"
  unfolding conns_ok_def by blast

lemma add_ses_ok:
  assumes ok: "conns_ok (Suc n) svr" and free: "cn_id svr ses = 0"
  shows "conns_ok n (nw_svr_add_ses ses svr) \<and> cn_id (nw_svr_add_ses ses svr) ses \<noteq> 0 \<and>
    cn_id_start svr \<le> cn_id (nw_svr_add_ses ses svr) ses \<and>
    cn_id_start svr < cn_id_start (nw_svr_add_ses ses svr) \<and>
    (\<forall>s. s \<noteq> ses \<longrightarrow> cn_id (nw_svr_add_ses ses svr) s = cn_id svr s)"
proof -
  have b: "unat (cn_id_start svr) + 2 * Suc n < 2 ^ 64" using ok by (simp add: conns_ok_def)
  have less: "\<And>s. cn_id svr s \<noteq> 0 \<Longrightarrow> cn_id svr s < cn_id_start svr" by (rule conns_ok_less [OF ok])
  have l: "distinct (cn_list svr)" "set (cn_list svr) = {s. cn_id svr s \<noteq> 0}" using ok by (auto simp: conns_ok_def)
  show ?thesis
  proof (cases "cn_id_start svr = 0")
    case True
    have "cn_id svr s = 0" for s using less [of s] True by (cases "cn_id svr s = 0") auto
    then show ?thesis using True b l by (auto simp: nw_svr_add_ses_def Let_def conns_ok_def)
  next
    case False
    have u: "unat (cn_id_start svr + 1) = Suc (unat (cn_id_start svr))" using b by (simp add: unat_word_ariths)
    then have "cn_id_start svr < cn_id_start svr + 1" by (simp add: word_less_nat_alt)
    moreover from this have "cn_id svr s < cn_id_start svr + 1" if "cn_id svr s \<noteq> 0" for s
      using less [OF that] by (rule less_trans [rotated])
    ultimately show ?thesis using False b l u free by (auto simp: nw_svr_add_ses_def Let_def conns_ok_def)
  qed
qed

lemma close_ses_ok:
  assumes "conns_ok n svr"
  shows "conns_ok n (nw_svr_close_ses ses svr) \<and> cn_id (nw_svr_close_ses ses svr) = (cn_id svr)(ses := 0) \<and>
    cn_id_start (nw_svr_close_ses ses svr) = cn_id_start svr"
  using assms by (auto simp: nw_svr_close_ses_def conns_ok_def)

end
