(* ===== verification/Gateway.thy ===== *)
theory Gateway
  imports Http Connections State_Table Queries Price_Server Json_Values
begin

text \<open>
  \<^verbatim>\<open>accesshttp/ah_server.c\<close>: the gateway for HTTP clients. A request is a JSON document
  with a method and parameters; it is forwarded to the server the method belongs to, under a
  sequence number from the table of pending requests, and the packet that comes back with this
  number, or a timeout, is the answer to the client. What the gateway does on an event is the list
  of its actions; the log is left out. \<open>None\<close> is a call that does not return or ends in a crash.
\<close>

section \<open>State\<close>

datatype backend = Matchengine | Marketprice | Readhistory

record state_info =
  si_ses :: ses
  si_ses_id :: u64
  si_request_id :: int

record gateway =
  gw_state :: "state_info pending"
  gw_conns :: connections

datatype gate_action = Respond ses string | Forward backend rpc_pkg | Close ses

definition CMD_BALANCE_HISTORY :: u32 where "CMD_BALANCE_HISTORY = 103"
definition CMD_ORDER_HISTORY :: u32 where "CMD_ORDER_HISTORY = 208"
definition CMD_ORDER_DEALS :: u32 where "CMD_ORDER_DEALS = 209"
definition CMD_ORDER_DETAIL_FINISHED :: u32 where "CMD_ORDER_DETAIL_FINISHED = 210"
definition CMD_MARKET_USER_DEALS :: u32 where "CMD_MARKET_USER_DEALS = 306"

definition RPC_PKG_TYPE_REQUEST :: u16 where "RPC_PKG_TYPE_REQUEST = 0"

text \<open>The table of methods.\<close>

definition init_methods_handler :: "(string \<times> backend \<times> u32) list" where
  "init_methods_handler = [
     (''asset.list'', Matchengine, CMD_ASSET_LIST),
     (''asset.summary'', Matchengine, CMD_ASSET_SUMMARY),
     (''balance.query'', Matchengine, CMD_BALANCE_QUERY),
     (''balance.update'', Matchengine, CMD_BALANCE_UPDATE),
     (''balance.history'', Readhistory, CMD_BALANCE_HISTORY),
     (''order.put_limit'', Matchengine, CMD_ORDER_PUT_LIMIT),
     (''order.put_market'', Matchengine, CMD_ORDER_PUT_MARKET),
     (''order.cancel'', Matchengine, CMD_ORDER_CANCEL),
     (''order.book'', Matchengine, CMD_ORDER_BOOK),
     (''order.depth'', Matchengine, CMD_ORDER_BOOK_DEPTH),
     (''order.pending'', Matchengine, CMD_ORDER_QUERY),
     (''order.pending_detail'', Matchengine, CMD_ORDER_DETAIL),
     (''order.deals'', Readhistory, CMD_ORDER_DEALS),
     (''order.finished'', Readhistory, CMD_ORDER_HISTORY),
     (''order.finished_detail'', Readhistory, CMD_ORDER_DETAIL_FINISHED),
     (''market.last'', Marketprice, CMD_MARKET_LAST),
     (''market.deals'', Marketprice, CMD_MARKET_DEALS),
     (''market.kline'', Marketprice, CMD_MARKET_KLINE),
     (''market.status'', Marketprice, CMD_MARKET_STATUS),
     (''market.status_today'', Marketprice, CMD_MARKET_STATUS_TODAY),
     (''market.user_deals'', Readhistory, CMD_MARKET_USER_DEALS),
     (''market.list'', Matchengine, CMD_MARKET_LIST),
     (''market.summary'', Matchengine, CMD_MARKET_SUMMARY)]"

section \<open>Responses\<close>

definition send_http_response_simple :: "int \<Rightarrow> ses \<Rightarrow> u32 \<Rightarrow> string option \<Rightarrow> nat \<Rightarrow> gate_action list" where
  "send_http_response_simple now ses status content sz =
     (case http_response_simple now status content sz of None \<Rightarrow> [] | Some msg \<Rightarrow> [Respond ses msg])"

definition reply_error :: "'j json_ops \<Rightarrow> int \<Rightarrow> ses \<Rightarrow> int \<Rightarrow> int \<Rightarrow> string \<Rightarrow> u32 \<Rightarrow> gate_action list option" where
  "reply_error J now ses i code message status =
     (let error = json_object J [(''code'', json_integer J code), (''message'', json_string J message)];
          reply = json_object J [(''error'', error), (''result'', json_null J), (''id'', json_integer J i)]
      in map_option (\<lambda>reply_str. send_http_response_simple now ses status (Some reply_str) (length reply_str)) (json_dumps J reply 0))"

definition reply_bad_request :: "int \<Rightarrow> ses \<Rightarrow> gate_action list" where
  "reply_bad_request now ses = send_http_response_simple now ses 400 None 0"

definition reply_internal_error :: "int \<Rightarrow> ses \<Rightarrow> gate_action list" where
  "reply_internal_error now ses = send_http_response_simple now ses 500 None 0"

definition reply_not_found :: "'j json_ops \<Rightarrow> int \<Rightarrow> ses \<Rightarrow> int \<Rightarrow> gate_action list option" where
  "reply_not_found J now ses i = reply_error J now ses i 4 ''method not found'' 404"

definition reply_time_out :: "'j json_ops \<Rightarrow> int \<Rightarrow> ses \<Rightarrow> int \<Rightarrow> gate_action list option" where
  "reply_time_out J now ses i = reply_error J now ses i 5 ''service timeout'' 504"

section \<open>Requests\<close>

text \<open>The id, the method and the parameters of a request; \<open>None\<close>: it cannot be decoded.\<close>

definition decode_request :: "'j json_ops \<Rightarrow> http_request \<Rightarrow> (int \<times> string \<times> 'j) option" where
  "decode_request J request =
     do { text \<leftarrow> rq_body request;
          body \<leftarrow> json_loadb J text;
          check (json_is_integer J (json_object_get J body ''id''));
          check (json_is_string J (json_object_get J body ''method''));
          method \<leftarrow> json_string_value J (json_object_get J body ''method'');
          params \<leftarrow> json_object_get J body ''params'';
          check (json_is_array J params);
          Some (json_integer_value J (json_object_get J body ''id''), method, params) }"

definition request_pkg :: "u32 \<Rightarrow> u32 \<Rightarrow> int \<Rightarrow> string \<Rightarrow> rpc_pkg" where
  "request_pkg cmd sequence i body =
     \<lparr>magic = 0, command = cmd, pkg_type = RPC_PKG_TYPE_REQUEST, pkg_result = 0, pkg_crc32 = 0, pkg_sequence = sequence,
      req_id = word_of_int i, body_size = word_of_nat (length body), ext_size = 0, pkg_ext = [], pkg_body = text_bytes body\<rparr>"

text \<open>\<open>up b\<close>: the client of the server \<open>b\<close> is connected. The code is 0 or negative.\<close>

definition on_http_request ::
  "'j json_ops \<Rightarrow> int \<Rightarrow> (backend \<Rightarrow> bool) \<Rightarrow> ses \<Rightarrow> http_request \<Rightarrow> gateway \<Rightarrow> (int \<times> gateway \<times> gate_action list) option" where
  "on_http_request J now up ses request g =
     (if rq_method request \<noteq> HTTP_POST \<or> rq_body request = None then Some (- 81, g, reply_bad_request now ses)
      else (case decode_request J request of
        None \<Rightarrow> Some (- 161, g, reply_bad_request now ses)
      | Some (i, method, params) \<Rightarrow>
          (case map_of init_methods_handler method of
             None \<Rightarrow> map_option (\<lambda>out. (0, g, out)) (reply_not_found J now ses i)
           | Some (clt, cmd) \<Rightarrow>
               if \<not> up clt then Some (0, g, reply_internal_error now ses)
               else do { (sequence, state) \<leftarrow> pending_new \<lparr>si_ses = ses, si_ses_id = cn_id (gw_conns g) ses, si_request_id = i\<rparr> (gw_state g);
                         body \<leftarrow> json_dumps J params 0;
                         Some (0, g\<lparr>gw_state := state\<rparr>, [Forward clt (request_pkg cmd sequence i body)]) })))"

section \<open>Answers\<close>

definition on_state_timeout :: "'j json_ops \<Rightarrow> int \<Rightarrow> connections \<Rightarrow> state_info \<Rightarrow> gate_action list option" where
  "on_state_timeout J now svr info =
     (if cn_id svr (si_ses info) = si_ses_id info then reply_time_out J now (si_ses info) (si_request_id info) else Some [])"

definition on_backend_recv_pkg :: "int \<Rightarrow> rpc_pkg \<Rightarrow> gateway \<Rightarrow> gateway \<times> gate_action list" where
  "on_backend_recv_pkg now pkg g =
     (case pn_map (gw_state g) (pkg_sequence pkg) of
        None \<Rightarrow> (g, [])
      | Some info \<Rightarrow>
          (g\<lparr>gw_state := pending_del (pkg_sequence pkg) (gw_state g)\<rparr>,
           if cn_id (gw_conns g) (si_ses info) = si_ses_id info
           then send_http_response_simple now (si_ses info) 200 (Some (bytes_text (pkg_body pkg))) (unat (body_size pkg))
           else []))"

section \<open>The event loop\<close>

text \<open>
  What can happen: connections are opened and closed, a request of a connection is complete, a
  server sends a packet, the timer of a pending request fires. An event the environment cannot
  produce (a second session in used memory, a request of a closed connection) does nothing.
\<close>

datatype gate_event = Connect ses | Disconnect ses | Request ses http_request | Packet rpc_pkg | Timeout u32

definition init_server :: gateway where
  "init_server = \<lparr>gw_state = no_pending, gw_conns = nw_svr_create\<rparr>"

fun gate_step ::
  "'j json_ops \<Rightarrow> int \<times> (backend \<Rightarrow> bool) \<times> gate_event \<Rightarrow> gateway \<Rightarrow> (gate_action list \<times> gateway) option" where
  "gate_step J (now, up, Connect ses) g =
     Some ([], if cn_id (gw_conns g) ses = 0 then g\<lparr>gw_conns := nw_svr_add_ses ses (gw_conns g)\<rparr> else g)"
| "gate_step J (now, up, Disconnect ses) g = Some ([], g\<lparr>gw_conns := nw_svr_close_ses ses (gw_conns g)\<rparr>)"
| "gate_step J (now, up, Request ses request) g =
     (if cn_id (gw_conns g) ses = 0 then Some ([], g)
      else map_option (\<lambda>(ret, g, out). if ret < 0 then (out @ [Close ses], g\<lparr>gw_conns := nw_svr_close_ses ses (gw_conns g)\<rparr>) else (out, g))
        (on_http_request J now up ses request g))"
| "gate_step J (now, up, Packet pkg) g = (case on_backend_recv_pkg now pkg g of (g, out) \<Rightarrow> Some (out, g))"
| "gate_step J (now, up, Timeout i) g =
     (case pn_map (gw_state g) i of
        None \<Rightarrow> Some ([], g)
      | Some info \<Rightarrow>
          map_option (\<lambda>out. (out, g\<lparr>gw_state := pending_del i (gw_state g)\<rparr>)) (on_state_timeout J now (gw_conns g) info))"

section \<open>Who waits for an answer\<close>

text \<open>
  What happened, the newest event first, tells who gets the answer with the number \<open>q\<close>, and the id
  of the request: the last one whose request was forwarded under this number, if no answer came
  since then and the connection has not been closed.
\<close>

fun answered :: "gate_event \<Rightarrow> u32 option" where
  "answered (Packet pkg) = Some (pkg_sequence pkg)"
| "answered (Timeout i) = Some i"
| "answered _ = None"

definition forwards :: "u32 \<Rightarrow> gate_action list \<Rightarrow> bool" where
  "forwards q out \<longleftrightarrow> (\<exists>b pkg. Forward b pkg \<in> set out \<and> pkg_sequence pkg = q)"

fun asked :: "'j json_ops \<Rightarrow> u32 \<Rightarrow> (gate_event \<times> gate_action list) list \<Rightarrow> (ses \<times> int) option" where
  "asked J q [] = None"
| "asked J q ((e, out) # past) =
     (if answered e = Some q then None
      else (case e of
        Request ses request \<Rightarrow>
          if forwards q out then map_option (\<lambda>(i, _, _). (ses, i)) (decode_request J request)
          else (case asked J q past of Some (s, i) \<Rightarrow> if Close s \<in> set out then None else Some (s, i) | None \<Rightarrow> None)
      | Disconnect ses \<Rightarrow> (case asked J q past of Some (s, i) \<Rightarrow> if s = ses then None else Some (s, i) | None \<Rightarrow> None)
      | _ \<Rightarrow> asked J q past))"

text \<open>The answer to whoever waits.\<close>

fun answer_text :: "'j json_ops \<Rightarrow> int \<Rightarrow> gate_event \<Rightarrow> ses \<times> int \<Rightarrow> gate_action list option" where
  "answer_text J now (Packet pkg) (ses, i) =
     Some (send_http_response_simple now ses 200 (Some (bytes_text (pkg_body pkg))) (unat (body_size pkg)))"
| "answer_text J now (Timeout q) (ses, i) = reply_time_out J now ses i"
| "answer_text J now _ _ = None"

fun gate_run ::
  "'j json_ops \<Rightarrow> (int \<times> (backend \<Rightarrow> bool) \<times> gate_event) list \<Rightarrow> gateway \<times> (gate_event \<times> gate_action list) list \<Rightarrow>
     (gateway \<times> (gate_event \<times> gate_action list) list) option" where
  "gate_run J [] gp = Some gp"
| "gate_run J (e # es) (g, past) =
     (case gate_step J e g of None \<Rightarrow> None | Some (out, g) \<Rightarrow> gate_run J es (g, (snd (snd e), out) # past))"

section \<open>Every answer reaches its client\<close>

definition waiting_for :: "gateway \<Rightarrow> u32 \<Rightarrow> (ses \<times> int) option" where
  "waiting_for g q =
     (case pn_map (gw_state g) q of None \<Rightarrow> None
      | Some info \<Rightarrow> if cn_id (gw_conns g) (si_ses info) = si_ses_id info then Some (si_ses info, si_request_id info) else None)"

definition gate_inv :: "'j json_ops \<Rightarrow> nat \<Rightarrow> (gate_event \<times> gate_action list) list \<Rightarrow> gateway \<Rightarrow> bool" where
  "gate_inv J n past g \<longleftrightarrow> conns_ok n (gw_conns g) \<and>
     (\<forall>q info. pn_map (gw_state g) q = Some info \<longrightarrow> si_ses_id info \<noteq> 0 \<and> si_ses_id info < cn_id_start (gw_conns g)) \<and>
     (\<forall>q. asked J q past = waiting_for g q)"

lemma gate_invD:
  assumes "gate_inv J n past g"
  shows "conns_ok n (gw_conns g)" "asked J q past = waiting_for g q"
    "pn_map (gw_state g) q = Some info \<Longrightarrow> si_ses_id info \<noteq> 0"
    "pn_map (gw_state g) q = Some info \<Longrightarrow> si_ses_id info < cn_id_start (gw_conns g)"
  using assms unfolding gate_inv_def by blast+

lemma gate_init [simp]: "n < 2 ^ 63 \<Longrightarrow> gate_inv J n [] init_server"
  by (simp add: gate_inv_def init_server_def no_pending_def waiting_for_def)

lemma send_simple_only [simp]:
  "Close s \<notin> set (send_http_response_simple now ses status content sz)"
  "\<not> forwards q (send_http_response_simple now ses status content sz)"
  by (simp_all add: send_http_response_simple_def forwards_def split: option.split)

lemma reply_error_only:
  "reply_error J now ses i code message status = Some out \<Longrightarrow> Close s \<notin> set out \<and> \<not> forwards q out"
  by (auto simp: reply_error_def Let_def)

text \<open>What a request does: it is answered at once, or forwarded under a fresh number.\<close>

lemma on_http_request_cases:
  assumes "on_http_request J now up ses request g = Some (ret, g', out)"
  obtains (refused) "g' = g" "\<And>q. \<not> forwards q out" "\<And>s. Close s \<notin> set out"
  | (forwarded) q cmd clt i mname params body where
    "ret = 0" "decode_request J request = Some (i, mname, params)" "q \<noteq> 0" "pn_map (gw_state g) q = None"
    "out = [Forward clt (request_pkg cmd q i body)]"
    "g' = g\<lparr>gw_state := \<lparr>pn_map = (pn_map (gw_state g))(q \<mapsto>
        \<lparr>si_ses = ses, si_ses_id = cn_id (gw_conns g) ses, si_request_id = i\<rparr>), pn_start = q\<rparr>\<rparr>"
proof (cases "rq_method request \<noteq> HTTP_POST \<or> rq_body request = None \<or> decode_request J request = None")
  case True
  then have "g' = g \<and> out = reply_bad_request now ses" using assms by (auto simp: on_http_request_def split: if_splits)
  then show thesis using refused by (simp add: reply_bad_request_def)
next
  case False
  then obtain i mname params where d: "decode_request J request = Some (i, mname, params)" by auto
  show thesis
  proof (cases "map_of init_methods_handler mname")
    case None
    then have "g' = g" "reply_not_found J now ses i = Some out" using assms False d by (auto simp: on_http_request_def)
    then show thesis using refused reply_error_only unfolding reply_not_found_def by metis
  next
    case (Some h)
    then obtain clt cmd where h: "map_of init_methods_handler mname = Some (clt, cmd)" by (cases h) auto
    show thesis
    proof (cases "up clt")
      case False
      then have "g' = g \<and> out = reply_internal_error now ses" using assms \<open>\<not> (rq_method request \<noteq> HTTP_POST \<or> _)\<close> d h
        by (auto simp: on_http_request_def)
      then show thesis using refused by (simp add: reply_internal_error_def)
    next
      case True
      let ?info = "\<lparr>si_ses = ses, si_ses_id = cn_id (gw_conns g) ses, si_request_id = i\<rparr>"
      obtain q st body where n: "pending_new ?info (gw_state g) = Some (q, st)" "json_dumps J params 0 = Some body"
        "ret = 0" "g' = g\<lparr>gw_state := st\<rparr>" "out = [Forward clt (request_pkg cmd q i body)]"
        using assms False d h True by (auto simp: on_http_request_def split: bind_splits)
      from pending_new_fresh [OF n(1)] show thesis using forwarded [of i mname params q clt cmd body] n d by simp
    qed
  qed
qed

lemma pending_del_map [simp]: "pn_map (pending_del i p) = (pn_map p)(i := None)"
  by (simp add: pending_del_def)

lemma gate_step_inv:
  assumes inv: "gate_inv J (Suc n) past g" and step: "gate_step J (now, up, e) g = Some (out, g')"
  shows "gate_inv J n ((e, out) # past) g'"
proof (cases e)
  case (Connect ses)
  note D = gate_invD [OF inv]
  show ?thesis
  proof (cases "cn_id (gw_conns g) ses = 0")
    case True
    then have g': "g' = g\<lparr>gw_conns := nw_svr_add_ses ses (gw_conns g)\<rparr>" "out = []" using step Connect by auto
    note A = add_ses_ok [OF D(1) True]
    have w: "waiting_for g' q = waiting_for g q" for q
    proof (cases "pn_map (gw_state g) q")
      case (Some info)
      have "si_ses_id info < cn_id (nw_svr_add_ses ses (gw_conns g)) ses"
        using D(4) [OF Some] A by (meson order_less_le_trans)
      then show ?thesis using Some A D(3) [OF Some] True by (cases "si_ses info = ses") (auto simp: waiting_for_def g')
    qed (simp add: waiting_for_def g')
    have "si_ses_id info < cn_id_start (nw_svr_add_ses ses (gw_conns g))" if "pn_map (gw_state g) q = Some info" for q info
      using D(4) [OF that] A by (meson order_less_trans)
    then show ?thesis using D A w by (auto simp: gate_inv_def g' Connect)
  next
    case False
    then show ?thesis using D step Connect conns_ok_mono [OF D(1), of n] by (auto simp: gate_inv_def waiting_for_def)
  qed
next
  case (Disconnect ses)
  note D = gate_invD [OF inv]
  note C = close_ses_ok [OF conns_ok_mono [OF D(1), of n], of ses]
  have g': "g' = g\<lparr>gw_conns := nw_svr_close_ses ses (gw_conns g)\<rparr>" "out = []" using step Disconnect by auto
  have "asked J q ((e, out) # past) = waiting_for g' q" for q
    using D(2) [of q] D(3) [of q] C by (auto simp: waiting_for_def g' Disconnect split: option.splits if_splits)
  then show ?thesis using D C by (auto simp: gate_inv_def g')
next
  case (Request ses request)
  note D = gate_invD [OF inv]
  show ?thesis
  proof (cases "cn_id (gw_conns g) ses = 0")
    case True
    then show ?thesis using D step Request conns_ok_mono [OF D(1), of n]
      by (auto simp: gate_inv_def forwards_def waiting_for_def split: option.splits)
  next
    case False
    obtain ret g1 out1 where h: "on_http_request J now up ses request g = Some (ret, g1, out1)"
      and s: "(out, g') = (if ret < 0 then (out1 @ [Close ses], g1\<lparr>gw_conns := nw_svr_close_ses ses (gw_conns g1)\<rparr>) else (out1, g1))"
      using step Request False by (auto split: if_splits)
    from h show ?thesis
    proof (cases rule: on_http_request_cases)
      case refused
      note C = close_ses_ok [OF conns_ok_mono [OF D(1), of n], of ses]
      have "\<not> forwards q out" for q using refused(2) s by (auto simp: forwards_def split: if_splits)
      moreover have "Close x \<in> set out \<longleftrightarrow> x = ses \<and> ret < 0" for x using refused(3) s by (auto split: if_splits)
      ultimately have "asked J q ((e, out) # past) = waiting_for g' q" for q
        using D(2) [of q] D(3) [of q] C refused(1) s
        by (auto simp: waiting_for_def Request split: option.splits if_splits)
      then show ?thesis using D C refused(1) s conns_ok_mono [OF D(1), of n] by (auto simp: gate_inv_def split: if_splits)
    next
      case (forwarded q0 cmd clt i mname params body)
      have gs: "g' = g1" "out = out1" using s forwarded(1) by auto
      have f: "forwards q out \<longleftrightarrow> q = q0" for q using forwarded(5) by (auto simp: forwards_def gs request_pkg_def)
      have c: "Close x \<notin> set out" for x using forwarded(5) by (simp add: gs)
      have "asked J q ((e, out) # past) = waiting_for g' q" for q
        using D(2) [of q] f [of q] c forwarded(2,4,6) by (auto simp: waiting_for_def Request gs split: option.splits)
      moreover have "pn_map (gw_state g') q = Some info \<Longrightarrow> si_ses_id info \<noteq> 0 \<and> si_ses_id info < cn_id_start (gw_conns g')" for q info
        using D(3,4) [of q info] False conns_ok_less [OF D(1), of ses] forwarded(6) by (auto simp: gs split: if_splits)
      ultimately show ?thesis using D conns_ok_mono [OF D(1), of n] forwarded(6) by (auto simp: gate_inv_def gs)
    qed
  qed
next
  case (Packet pkg)
  note D = gate_invD [OF inv]
  have g': "gw_conns g' = gw_conns g" "pn_map (gw_state g') = (pn_map (gw_state g))(pkg_sequence pkg := None)"
    using step Packet by (auto simp: on_backend_recv_pkg_def split: option.splits)
  have "asked J q ((e, out) # past) = waiting_for g' q" for q
    using D(2) [of q] by (auto simp: waiting_for_def Packet g' split: option.splits)
  then show ?thesis using D conns_ok_mono [OF D(1), of n] by (auto simp: gate_inv_def g' split: if_splits)
next
  case (Timeout i)
  note D = gate_invD [OF inv]
  have g': "gw_conns g' = gw_conns g" "pn_map (gw_state g') = (pn_map (gw_state g))(i := None)"
    using step Timeout by (auto split: option.splits)
  have "asked J q ((e, out) # past) = waiting_for g' q" for q
    using D(2) [of q] by (auto simp: waiting_for_def Timeout g' split: option.splits)
  then show ?thesis using D conns_ok_mono [OF D(1), of n] by (auto simp: gate_inv_def g' split: if_splits)
qed

lemma gate_run_inv:
  "gate_run J es (g, past) = Some (g', past') \<Longrightarrow> gate_inv J (n + length es) past g \<Longrightarrow> gate_inv J n past' g'"
proof (induction es arbitrary: g past)
  case (Cons e es)
  obtain now up ev where e: "e = (now, up, ev)" by (cases e)
  obtain out g1 where s: "gate_step J e g = Some (out, g1)" "gate_run J es (g1, (ev, out) # past) = Some (g', past')"
    using Cons.prems(1) by (auto simp: e split: option.splits)
  have "gate_inv J (n + length es) ((ev, out) # past) g1"
    using gate_step_inv [of J "n + length es" past g now up ev out g1] s(1) Cons.prems(2) e by simp
  then show ?case using Cons.IH [OF s(2)] by simp
qed simp

lemma gate_step_answers:
  assumes run: "gate_run J es (init_server, []) = Some (g, past)" and len: "length es < 2 ^ 62"
    and step: "gate_step J (now, up, e) g = Some (out, g')"
  shows "answered e = Some q \<Longrightarrow>
      Some out = (case asked J q past of None \<Rightarrow> Some [] | Some w \<Rightarrow> answer_text J now e w)"
    and "forwards q out \<Longrightarrow> asked J q past = None"
proof -
  have inv: "gate_inv J 0 past g" using gate_run_inv [OF run, of 0] len by simp
  note D = gate_invD [OF inv]
  show "answered e = Some q \<Longrightarrow> Some out = (case asked J q past of None \<Rightarrow> Some [] | Some w \<Rightarrow> answer_text J now e w)"
    using step D(2) [of q]
    by (cases e) (auto simp: on_backend_recv_pkg_def on_state_timeout_def waiting_for_def split: option.splits if_splits)
  show "asked J q past = None" if f: "forwards q out"
  proof (cases e)
    case (Request ses request)
    show ?thesis
    proof (cases "cn_id (gw_conns g) ses = 0")
      case True
      then show ?thesis using f step Request by (simp add: forwards_def)
    next
      case False
      obtain ret g1 out1 where h: "on_http_request J now up ses request g = Some (ret, g1, out1)"
        and s: "out = (if ret < 0 then out1 @ [Close ses] else out1)"
        using step Request False by (auto split: if_splits)
      from h show ?thesis
      proof (cases rule: on_http_request_cases)
        case refused
        then show ?thesis using f s by (auto simp: forwards_def split: if_splits)
      next
        case (forwarded q0 cmd clt i mname params body)
        then have "q = q0" using f s by (auto simp: forwards_def request_pkg_def)
        then show ?thesis using D(2) [of q] forwarded(4) by (simp add: waiting_for_def)
      qed
    qed
  qed (use f step in \<open>auto simp: forwards_def on_backend_recv_pkg_def on_state_timeout_def reply_time_out_def send_http_response_simple_def
      reply_error_def Let_def split: option.splits if_splits\<close>)
qed

text \<open>
  C24. Whatever happens to the gateway, with fewer than 2^62 events: a packet of a server, or a timeout,
  is answered to exactly the client whose request was last forwarded under its number, and only
  if that request has not been answered and its connection is still the same one; and no
  request is forwarded under a number for which somebody still waits.
\<close>

theorem gateway_answers:
  assumes "gate_run J es (init_server, []) = Some (g, past)" "length es < 2 ^ 62"
    and "gate_step J (now, up, e) g = Some (out, g')"
  shows "(\<forall>q. answered e = Some q \<longrightarrow>
      Some out = (case asked J q past of None \<Rightarrow> Some [] | Some w \<Rightarrow> answer_text J now e w)) \<and>
    (\<forall>q. forwards q out \<longrightarrow> asked J q past = None)"
  using gate_step_answers [OF assms] by blast

definition ex_request :: http_request where
  "ex_request = \<lparr>rq_version_major = 1, rq_version_minor = 1, rq_method = HTTP_POST,
     rq_headers = \<lparr>dt_table = [], dt_size = 0, dt_mask = 0, dt_used = 0, dt_id_start = 0, dt_id_clear = 0\<rparr>, rq_url = Some ''/'',
     rq_body = Some (show_jv (JObj [(''id'', JInt 7), (''method'', JStr ''asset.list''), (''params'', JArr [])]))\<rparr>"

definition ex_reply :: rpc_pkg where
  "ex_reply = (request_pkg CMD_ASSET_LIST 1 7 ''[]'')\<lparr>pkg_type := RPC_PKG_TYPE_REPLY\<rparr>"

lemma ex_request_simps [simp]:
  "rq_method ex_request = HTTP_POST"
  "rq_body ex_request = Some (show_jv (JObj [(''id'', JInt 7), (''method'', JStr ''asset.list''), (''params'', JArr [])]))"
  by (simp_all only: ex_request_def http_request.simps)

lemma ex_decode_request: "decode_request jv_ops ex_request = Some (7, ''asset.list'', JArr [])"
proof -
  have "json_loadb jv_ops (show_jv v) = Some v" for v
    by (rule jv_round_trip [of v 0]) (simp add: jv_ops_def)
  then show ?thesis by (simp add: decode_request_def check_def del: show_jv.simps) (simp add: jv_ops_def)
qed

lemma gateway_answers_witness:
  "\<exists>g past g'. gate_run jv_ops [(0, \<lambda>_. True, Connect 5), (0, \<lambda>_. True, Request 5 ex_request)] (init_server, []) = Some (g, past) \<and>
    gate_step jv_ops (1, \<lambda>_. True, Packet ex_reply) g = Some (send_http_response_simple 1 5 200 (Some ''[]'') 2, g')"
proof -
  let ?up = "\<lambda>_ :: backend. True"
  let ?es = "[(0, ?up, Connect 5), (0, ?up, Request 5 ex_request)]"
  let ?svr = "nw_svr_add_ses 5 nw_svr_create"
  let ?g = "\<lparr>gw_state = \<lparr>pn_map = [1 \<mapsto> \<lparr>si_ses = 5, si_ses_id = cn_id ?svr 5, si_request_id = 7\<rparr>], pn_start = 1\<rparr>, gw_conns = ?svr\<rparr>"
  let ?out = "[Forward Matchengine (request_pkg CMD_ASSET_LIST 1 7 (show_jv (JArr [])))]"
  let ?past = "[(Request 5 ex_request, ?out), (Connect 5, [])]"
  have f: "get_available_id (\<lambda>i :: u32. \<exists>y. Map.empty i = Some y) 0 = Some 1"
    by (subst get_available_id.simps) simp
  have m: "map_of init_methods_handler ''asset.list'' = Some (Matchengine, CMD_ASSET_LIST)" by (simp add: init_methods_handler_def)
  have "on_http_request jv_ops 0 ?up 5 ex_request \<lparr>gw_state = no_pending, gw_conns = ?svr\<rparr> = Some (0, ?g, ?out)"
    using f m by (simp add: on_http_request_def ex_decode_request pending_new_def no_pending_def del: show_jv.simps) (simp add: jv_ops_def)
  moreover have "cn_id ?svr 5 \<noteq> 0" by (simp add: nw_svr_add_ses_def nw_svr_create_def)
  ultimately have r: "gate_run jv_ops ?es (init_server, []) = Some (?g, ?past)"
    by (simp add: init_server_def nw_svr_create_def)
  have a: "asked jv_ops 1 ?past = Some (5, 7)" by (simp add: forwards_def request_pkg_def ex_decode_request)
  obtain out g' where st: "gate_step jv_ops (1, ?up, Packet ex_reply) ?g = Some (out, g')"
    by (cases "on_backend_recv_pkg 1 ex_reply ?g") simp
  have "Some out = answer_text jv_ops 1 (Packet ex_reply) (5, 7)"
    using gateway_answers [OF r _ st] a by (simp add: ex_reply_def request_pkg_def)
  then have "out = send_http_response_simple 1 5 200 (Some ''[]'') 2" by (simp add: ex_reply_def request_pkg_def)
  with r st show ?thesis by blast
qed

end
