(* ===== verification/Websocket.thy ===== *)
theory Websocket
  imports Http Session
begin

text \<open>
  \<^verbatim>\<open>utils/ut_ws_svr.c\<close>: the web socket server. A connection begins as an HTTP request
  that asks for an upgrade; after that its bytes are frames, masked by the client, and the
  fragments of a message are collected until the last one. The HTTP parser and the functions SHA1
  and base64 of OpenSSL are parameters, as is the handler of messages.
\<close>

section \<open>The opening handshake\<close>

definition UT_WS_SVR_MAX_HEADER_SIZE :: nat where "UT_WS_SVR_MAX_HEADER_SIZE = 1024"

record ws_svr =
  ws_protocol :: string
  ws_origin :: string
  sha1_base64 :: "string \<Rightarrow> string"

text \<open>\<^verbatim>\<open>sdssplitlen\<close> with one character, \<^verbatim>\<open>sdstrim\<close> with blanks, and \<^verbatim>\<open>strtok\<close>.\<close>

fun split_at :: "('a \<Rightarrow> bool) \<Rightarrow> 'a list \<Rightarrow> 'a list list" where
  "split_at P [] = [[]]"
| "split_at P (c # cs) =
     (if P c then [] # split_at P cs
      else (case split_at P cs of [] \<Rightarrow> [[c]] | t # ts \<Rightarrow> (c # t) # ts))"

definition sdssplitlen :: "char \<Rightarrow> string \<Rightarrow> string list" where
  "sdssplitlen sep s = (if s = [] then [] else split_at (\<lambda>c. c = sep) s)"

definition sdstrim :: "string \<Rightarrow> string" where
  "sdstrim s = rev (dropWhile (\<lambda>c. c = CHR '' '') (rev (dropWhile (\<lambda>c. c = CHR '' '') s)))"

definition strtok :: "string \<Rightarrow> string \<Rightarrow> string list" where
  "strtok s delim = filter (\<lambda>t. t \<noteq> []) (split_at (\<lambda>c. c \<in> set delim) s)"

definition is_good_protocol :: "string \<Rightarrow> string \<Rightarrow> bool" where
  "is_good_protocol protocol_list protocol = list_ex (\<lambda>pch. pch = protocol) (strtok protocol_list '', '')"

text \<open>An origin is good when it ends with the configured text.\<close>

definition is_good_origin :: "string \<Rightarrow> string \<Rightarrow> bool" where
  "is_good_origin origin require =
     (if length origin < length require then False else drop (length origin - length require) origin = require)"

definition send_hand_shake_reply :: "int \<Rightarrow> ws_svr \<Rightarrow> string option \<Rightarrow> string \<Rightarrow> string option" where
  "send_hand_shake_reply now svr protocol key =
     (let b4message = sha1_base64 svr (key @ ''258EAFA5-E914-47DA-95CA-C5AB0DC85B11'')
      in Option.bind http_response_new (\<lambda>response.
         Option.bind (http_response_set_header ''Upgrade'' ''websocket'' response) (\<lambda>response.
         Option.bind (http_response_set_header ''Connection'' ''Upgrade'' response) (\<lambda>response.
         Option.bind (http_response_set_header ''Sec-WebSocket-Accept'' b4message response) (\<lambda>response.
         Option.bind (case protocol of None \<Rightarrow> Some response | Some protocol \<Rightarrow> http_response_set_header ''Sec-WebSocket-Protocol'' protocol response) (\<lambda>response.
           Some (http_response_encode now (response\<lparr>rs_status := 101\<rparr>))))))))"

text \<open>The checks of \<^verbatim>\<open>on_http_message_complete\<close>, in their order.\<close>

definition good_handshake :: "ws_svr \<Rightarrow> http_request \<Rightarrow> bool" where
  "good_handshake svr request \<longleftrightarrow>
     rq_method request = HTTP_GET \<and>
     http_request_get_header request ''Host'' \<noteq> None \<and>
     10 * rq_version_major request + rq_version_minor request \<ge> 11 \<and>
     (case http_request_get_header request ''Upgrade'' of None \<Rightarrow> False | Some upgrade \<Rightarrow> lower upgrade = ''websocket'') \<and>
     (case http_request_get_header request ''Connection'' of None \<Rightarrow> False
      | Some connection \<Rightarrow> length connection \<le> UT_WS_SVR_MAX_HEADER_SIZE \<and>
          list_ex (\<lambda>token. lower (sdstrim token) = ''upgrade'') (sdssplitlen CHR '','' connection)) \<and>
     http_request_get_header request ''Sec-WebSocket-Version'' = Some ''13'' \<and>
     http_request_get_header request ''Sec-WebSocket-Key'' \<noteq> None \<and>
     (case http_request_get_header request ''Sec-WebSocket-Protocol'' of None \<Rightarrow> True
      | Some protocol_list \<Rightarrow> is_good_protocol protocol_list (ws_protocol svr)) \<and>
     (ws_origin svr \<noteq> [] \<longrightarrow>
        (case http_request_get_header request ''Origin'' of None \<Rightarrow> False | Some origin \<Rightarrow> is_good_origin origin (ws_origin svr)))"

text \<open>Any host whose name ends like the configured one is accepted.\<close>

lemma foreign_origin_accepted: "is_good_origin (prefix @ require) require"
  by (simp add: is_good_origin_def)

section \<open>Frames\<close>

record ws_frame =
  fr_fin :: bool
  fr_opcode :: u8
  fr_payload_len :: u64
  fr_payload :: nat
  fr_masks :: "u8 list"

definition of_be :: "u8 list \<Rightarrow> 'a::len word" where
  "of_be bs = of_le (rev bs)"

definition be_bytes :: "nat \<Rightarrow> 'a::len word \<Rightarrow> u8 list" where
  "be_bytes n w = rev (le_bytes n w)"

definition is_good_opcode :: "u8 \<Rightarrow> bool" where
  "is_good_opcode opcode \<longleftrightarrow> opcode \<in> {0x0, 0x1, 0x2, 0x8, 0x9, 0xa}"

text \<open>
  The header of the first frame in \<open>data\<close>, and the size of the frame as the code computes it, in 64
  bits; no header: the code is the return value.
\<close>

definition decode_head :: "u8 list \<Rightarrow> int + ws_frame \<times> u64" where
  "decode_head data =
     (if length data < 2 then Inl 0
      else
        let fin = (data ! 0 AND 0x80 \<noteq> 0); opcode = data ! 0 AND 0x0f in
        if \<not> is_good_opcode opcode then Inl (- 1)
        else if data ! 1 AND 0x80 = 0 then Inl (- 1)
        else
          let len = data ! 1 AND 0x7f;
              pkg_size = (if len < 126 then 2 else if len = 126 then 4 else 10 :: nat) in
          if len \<ge> 126 \<and> length data < pkg_size then Inl 0
          else
            let payload_len = (if len < 126 then ucast len else of_be (take (pkg_size - 2) (drop 2 data)) :: u64)
            in Inr (\<lparr>fr_fin = fin, fr_opcode = opcode, fr_payload_len = payload_len, fr_payload = pkg_size + 4,
                 fr_masks = take 4 (drop pkg_size data)\<rparr>, word_of_nat (pkg_size + 4) + payload_len))"

text \<open>
  The return value of \<^verbatim>\<open>decode_pkg\<close> after the upgrade. When the size has wrapped around, the
  loop that removes the mask leaves the buffer: \<open>unmask_end\<close> is the first byte behind those it
  writes to.
\<close>

definition ws_decode_pkg :: "u8 list \<Rightarrow> int" where
  "ws_decode_pkg data =
     (case decode_head data of
        Inl ret \<Rightarrow> ret
      | Inr (frame, pkg_size) \<Rightarrow> if length data < unat pkg_size then 0 else sint (ucast pkg_size :: 32 word))"

definition unmask_end :: "u8 list \<Rightarrow> nat" where
  "unmask_end data =
     (case decode_head data of
        Inl ret \<Rightarrow> 0
      | Inr (frame, pkg_size) \<Rightarrow> if length data < unat pkg_size then 0 else fr_payload frame + unat (fr_payload_len frame))"

text \<open>The payload, without its mask.\<close>

definition unmask :: "u8 list \<Rightarrow> u8 list \<Rightarrow> u8 list" where
  "unmask masks payload = map (\<lambda>i. payload ! i XOR masks ! (i mod 4)) [0..<length payload]"

definition frame_payload :: "ws_frame \<Rightarrow> u8 list \<Rightarrow> u8 list" where
  "frame_payload frame data = unmask (fr_masks frame) (take (unat (fr_payload_len frame)) (drop (fr_payload frame) data))"

text \<open>A frame that is sent; the payload is not masked.\<close>

definition send_reply :: "u8 \<Rightarrow> u8 list \<Rightarrow> u8 list" where
  "send_reply opcode payload =
     (let n = length payload in
      (0x80 OR opcode) #
      (if n < 126 then [word_of_nat n]
       else if n \<le> 0xffff then 126 # be_bytes 2 (word_of_nat n :: u16)
       else 127 # be_bytes 8 (word_of_nat n :: u64)) @ payload)"

definition send_pong_message :: "u8 list" where
  "send_pong_message = send_reply 0xa []"

definition ws_send_text :: "string \<Rightarrow> u8 list" where
  "ws_send_text message = send_reply 0x1 (text_bytes message)"

definition ws_send_binary :: "u8 list \<Rightarrow> u8 list" where
  "ws_send_binary data = send_reply 0x2 data"

section \<open>Connections\<close>

record ws_clt =
  wc_http :: http_clt
  wc_upgrade :: bool
  wc_remote :: string
  wc_url :: string
  wc_message :: "u8 list option"

definition ws_on_new_connection :: "int \<Rightarrow> ws_clt" where
  "ws_on_new_connection now = \<lparr>wc_http = Http.on_new_connection now, wc_upgrade = False, wc_remote = [], wc_url = [], wc_message = None\<rparr>"

text \<open>
  The handshake: what is kept of the request, and the response; code -1 closes the connection.
  The callbacks before it are those of the HTTP server.
\<close>

definition on_http_message_complete ::
  "int \<Rightarrow> string \<Rightarrow> ws_svr \<Rightarrow> http_request \<Rightarrow> (string \<times> string \<times> string) option \<Rightarrow> (int \<times> (string \<times> string \<times> string) option) option" where
  "on_http_message_complete now peer svr request s =
     (case http_request_get_header request ''Sec-WebSocket-Key'' of
        Some ws_key \<Rightarrow>
          if good_handshake svr request
          then map_option (\<lambda>reply. (0, Some (http_get_remote_ip peer request, case rq_url request of None \<Rightarrow> [] | Some url \<Rightarrow> url, reply)))
            (send_hand_shake_reply now svr
              (if http_request_get_header request ''Sec-WebSocket-Protocol'' = None then None else Some (ws_protocol svr)) ws_key)
          else Some (- 1, s)
      | None \<Rightarrow> Some (- 1, s))"

text \<open>
  A packet before the upgrade; \<open>parsed\<close> is what the parser makes of it. The results: whether the
  connection is still open, and the bytes that are sent.
\<close>

definition ws_on_recv_http ::
  "int \<Rightarrow> string \<Rightarrow> ws_svr \<Rightarrow> parse_event list \<times> bool \<Rightarrow> ws_clt \<Rightarrow> (bool \<times> ws_clt \<times> u8 list list) option" where
  "ws_on_recv_http now peer svr parsed info =
     map_option (\<lambda>(alive, http, upgrade).
         (case upgrade of
            None \<Rightarrow> (alive, info\<lparr>wc_http := http\<rparr>, [])
          | Some (remote, url, reply) \<Rightarrow>
              (alive, info\<lparr>wc_http := http, wc_upgrade := True, wc_remote := remote, wc_url := url\<rparr>, [text_bytes reply])))
       (http_on_recv_pkg (on_http_message_complete now peer svr) now parsed (wc_http info) None)"

text \<open>
  A frame after the upgrade: the handler of messages gets the address and the URL of the client and
  the whole message. The results: the state, the bytes that are sent, and whether the connection
  is closed.
\<close>

definition ws_on_recv_pkg ::
  "(string \<Rightarrow> string \<Rightarrow> u8 list \<Rightarrow> 's \<Rightarrow> int \<times> 's) \<Rightarrow> u8 list \<Rightarrow> ws_clt \<times> u8 list list \<times> 's \<Rightarrow> (ws_clt \<times> u8 list list \<times> 's) \<times> bool" where
  "ws_on_recv_pkg on_message data st =
     (case (decode_head data, st) of
        (Inl _, _) \<Rightarrow> (st, False)
      | (Inr (frame, _), (info, sent, s)) \<Rightarrow>
          if fr_opcode frame = 0x8 then (st, True)
          else if fr_opcode frame = 0x9 then ((info, sent @ [send_pong_message], s), False)
          else if fr_opcode frame = 0xa then (st, False)
          else
            let message = (case wc_message info of None \<Rightarrow> [] | Some m \<Rightarrow> m) @ frame_payload frame data;
                info = info\<lparr>wc_message := Some message\<rparr> in
            if fr_fin frame
            then (case on_message (wc_remote info) (wc_url info) message s of
                    (ret, s) \<Rightarrow> if ret < 0 then ((info, sent, s), True) else ((info\<lparr>wc_message := None\<rparr>, sent, s), False))
            else ((info, sent, s), False))"

section \<open>The frames of a client\<close>

text \<open>A frame as RFC 6455 has a client send it, with the shortest form of the length.\<close>

record client_frame =
  cf_fin :: bool
  cf_opcode :: u8
  cf_masks :: "u8 list"
  cf_payload :: "u8 list"

definition length_code :: "nat \<Rightarrow> u8 \<times> u8 list" where
  "length_code n =
     (if n < 126 then (word_of_nat n, [])
      else if n < 2 ^ 16 then (126, be_bytes 2 (word_of_nat n :: u16))
      else (127, be_bytes 8 (word_of_nat n :: u64)))"

text \<open>The masking of the standard: the bytes of the key are used in turn.\<close>

fun masked :: "u8 list \<Rightarrow> u8 list \<Rightarrow> u8 list" where
  "masked key [] = []"
| "masked key (b # bs) = (hd key XOR b) # masked (rotate1 key) bs"

definition client_bytes :: "client_frame \<Rightarrow> u8 list" where
  "client_bytes f =
     (case length_code (length (cf_payload f)) of
        (len, ext) \<Rightarrow> ((if cf_fin f then 0x80 else 0) OR cf_opcode f) # (0x80 OR len) # ext @ cf_masks f @ masked (cf_masks f) (cf_payload f))"

definition client_frame_ok :: "client_frame \<Rightarrow> bool" where
  "client_frame_ok f \<longleftrightarrow> is_good_opcode (cf_opcode f) \<and> length (cf_masks f) = 4 \<and> length (cf_payload f) < 2 ^ 30"

lemma of_be_bytes: "8 * n = LENGTH('a::len) \<Longrightarrow> of_be (be_bytes n (w :: 'a word)) = w"
  by (simp add: of_be_def be_bytes_def of_le_bytes)

lemma of_le_wider:
  assumes "8 * n = LENGTH('b::len)" "LENGTH('b) \<le> LENGTH('a::len)"
  shows "(of_le (le_bytes n (w :: 'b word)) :: 'a word) = ucast w"
proof (rule bit_word_eqI)
  fix i assume i: "i < LENGTH('a)"
  show "bit (of_le (le_bytes n w) :: 'a word) i = bit (ucast w :: 'a word) i"
  proof (cases "i < 8 * n")
    case True
    then have "i div 8 < n" by simp
    then show ?thesis using i True assms by (auto simp: bit_of_le le_bytes_def bit_simps div_mult_mod_eq)
  next
    case False
    then have "\<not> bit w i" using assms(1) bit_imp_le_length [of w i] by auto
    then show ?thesis using False by (simp add: bit_of_le bit_simps)
  qed
qed

lemma length_unmask [simp]: "length (unmask masks payload) = length payload"
  by (simp add: unmask_def)

lemma length_masked [simp]: "length (masked key bs) = length bs"
  by (induction key bs rule: masked.induct) simp_all

lemma nth_masked: "i < length bs \<Longrightarrow> key \<noteq> [] \<Longrightarrow> masked key bs ! i = key ! (i mod length key) XOR bs ! i"
proof (induction key bs arbitrary: i rule: masked.induct)
  case (2 key b bs)
  show ?case
  proof (cases i)
    case (Suc j)
    have "rotate1 key ! (j mod length key) = key ! (Suc (j mod length key) mod length key)"
      using 2(3) by (intro nth_rotate1) simp
    also have "Suc (j mod length key) mod length key = Suc j mod length key" by (simp add: mod_Suc_eq)
    finally show ?thesis using 2 Suc by simp
  qed (use 2 in \<open>simp add: hd_conv_nth\<close>)
qed simp

lemma unmask_masked [simp]: "length key = 4 \<Longrightarrow> unmask key (masked key bs) = bs"
proof (rule nth_equalityI)
  fix i assume k: "length key = 4" and i: "i < length (unmask key (masked key bs))"
  then have "key \<noteq> []" by auto
  then have "masked key bs ! i = key ! (i mod 4) XOR bs ! i" using nth_masked [of i bs key] i k by simp
  then show "unmask key (masked key bs) ! i = bs ! i" using i by (simp add: unmask_def xor.commute xor.left_commute)
qed simp

lemma low_bits: "n < 128 \<Longrightarrow> (0x80 OR (word_of_nat n :: u8)) AND 0x7f = word_of_nat n"
proof -
  assume n: "n < 128"
  then have "take_bit 7 n = n" by (simp add: take_bit_eq_mod)
  then have "take_bit 7 (word_of_nat n :: u8) = word_of_nat n" by (simp only: take_bit_of_nat)
  moreover have "(mask 7 :: u8) = 0x7f" by (simp add: mask_eq_exp_minus_1)
  ultimately have "(word_of_nat n :: u8) AND 0x7f = word_of_nat n" by (simp add: take_bit_eq_mask)
  then show ?thesis by (simp add: bit.conj_disj_distrib2)
qed

lemma high_bit: "(0x80 OR (w :: u8)) AND 0x80 \<noteq> 0"
  by (simp add: bit.conj_disj_distrib2 or_eq_0_iff)

lemma opcode_bits:
  assumes "is_good_opcode c"
  shows "((if fin then 0x80 else 0) OR c) AND 0x0f = c" "(((if fin then 0x80 else 0) OR c) AND 0x80 \<noteq> 0) = fin"
  using assms by (auto simp: is_good_opcode_def)

text \<open>What the decoder finds at the beginning of a frame.\<close>

lemma length_code:
  assumes "length_code n = (len, ext)" "n < 2 ^ 30"
  shows "(0x80 OR len) AND 0x7f = len" "length ext = (if len < 126 then 0 else if len = 126 then 2 else 8)"
    "(if len < 126 then ucast len else of_be ext :: u64) = word_of_nat n" "n < 126 \<longleftrightarrow> len < 126"
proof -
  have w: "(word_of_nat n :: u8) < 126" "(ucast (word_of_nat n :: u8) :: u64) = word_of_nat n" if "n < 126"
    using that by (simp_all add: word_less_nat_alt unat_of_nat unsigned_of_nat take_bit_eq_mod)
  consider "n < 126" "len = word_of_nat n" "ext = []" | "126 \<le> n" "n < 2 ^ 16" "len = 126" "ext = be_bytes 2 (word_of_nat n :: u16)"
    | "2 ^ 16 \<le> n" "len = 127" "ext = be_bytes 8 (word_of_nat n :: u64)"
    using assms(1) by (auto simp: length_code_def split: if_splits)
  then have "(0x80 OR len) AND 0x7f = len \<and> length ext = (if len < 126 then 0 else if len = 126 then 2 else 8) \<and>
    (if len < 126 then ucast len else of_be ext :: u64) = word_of_nat n \<and> (n < 126 \<longleftrightarrow> len < 126)"
  proof cases
    case 1
    then show ?thesis using w low_bits [of n] by simp
  next
    case 2
    have "(of_be (be_bytes 2 (word_of_nat n :: u16)) :: u64) = word_of_nat n"
      using 2(2) of_le_wider [of 2 "word_of_nat n :: u16", where 'a = 64]
      by (simp add: of_be_def be_bytes_def unsigned_of_nat take_bit_eq_mod)
    then show ?thesis using 2 by (simp add: be_bytes_def)
  next
    case 3
    then show ?thesis by (simp add: be_bytes_def of_be_bytes [unfolded be_bytes_def])
  qed
  then show "(0x80 OR len) AND 0x7f = len" "length ext = (if len < 126 then 0 else if len = 126 then 2 else 8)"
    "(if len < 126 then ucast len else of_be ext :: u64) = word_of_nat n" "n < 126 \<longleftrightarrow> len < 126" by blast+
qed

lemma decode_head_frame:
  assumes ok: "client_frame_ok f" and lc: "length_code (length (cf_payload f)) = (len, ext)"
    and data_def: "data = take k (client_bytes f @ rest)"
  shows "decode_head data = (if k < 2 + length ext then Inl 0
    else Inr (\<lparr>fr_fin = cf_fin f, fr_opcode = cf_opcode f, fr_payload_len = word_of_nat (length (cf_payload f)),
          fr_payload = length ext + 6, fr_masks = take 4 (drop (2 + length ext) data)\<rparr>, word_of_nat (length (client_bytes f))))"
proof -
  let ?b0 = "(if cf_fin f then 0x80 else 0) OR cf_opcode f" and ?b1 = "0x80 OR len"
  let ?rest = "cf_masks f @ masked (cf_masks f) (cf_payload f) @ rest"
  have g: "is_good_opcode (cf_opcode f)" "length (cf_masks f) = 4" "length (cf_payload f) < 2 ^ 30"
    using ok by (simp_all add: client_frame_ok_def)
  note L = length_code [OF lc g(3)]
  have cb: "client_bytes f @ rest = ?b0 # ?b1 # ext @ ?rest" by (simp add: client_bytes_def lc)
  have len: "length (client_bytes f) = 6 + length ext + length (cf_payload f)" by (simp add: client_bytes_def lc g(2))
  show ?thesis
  proof (cases "k < 2")
    case True
    then have "length data < 2" by (simp add: data_def)
    then show ?thesis using True by (simp add: decode_head_def)
  next
    case False
    then obtain j where k: "k = Suc (Suc j)" by (metis add_2_eq_Suc le_Suc_ex not_less)
    have d: "data = ?b0 # ?b1 # take j (ext @ ?rest)" unfolding data_def cb k by simp
    have ld: "length data = 2 + min j (length (ext @ ?rest))" by (simp add: d)
    have ls: "length (ext @ ?rest) \<ge> length ext + 4" by (simp add: g(2))
    show ?thesis
    proof (cases "j < length ext")
      case True
      then have "\<not> len < 126" "length data < (if len = 126 then 4 else 10)" using L(2) ld by (auto split: if_splits)
      then show ?thesis using True k L(1) high_bit [of len] opcode_bits [OF g(1), of "cf_fin f"] g(1)
        unfolding decode_head_def by (simp add: d Let_def)
    next
      case False
      then have e: "take j (ext @ ?rest) = ext @ take (j - length ext) ?rest" by simp
      have nl: "\<not> (len \<ge> 126 \<and> length data < (if len < 126 then 2 else if len = 126 then 4 else 10))"
        using L(2) ld ls False by (auto split: if_splits)
      have p: "(if len < 126 then 2 else if len = 126 then 4 else 10 :: nat) = 2 + length ext" using L(2) by auto
      have w: "word_of_nat (2 + length ext + 4) + word_of_nat (length (cf_payload f)) = (word_of_nat (length (client_bytes f)) :: u64)"
        unfolding len by (simp add: algebra_simps)
      have "drop 2 data = ext @ take (j - length ext) ?rest" by (simp add: d e del: take_append)
      then have x: "take (2 + length ext - 2) (drop 2 data) = ext" by simp
      have b: "data ! 0 AND 0x0f = cf_opcode f" "(data ! 0 AND 0x80 \<noteq> 0) = cf_fin f" "data ! 1 AND 0x80 \<noteq> 0" "data ! 1 AND 0x7f = len"
        using opcode_bits [OF g(1), of "cf_fin f"] high_bit [of len] L(1) by (simp_all add: d)
      have l2: "\<not> length data < 2" by (simp add: ld)
      show ?thesis using False
        unfolding decode_head_def Let_def b p x L(3) w using l2 g(1) b(3) nl [unfolded p] k by simp
    qed
  qed
qed

lemma length_client_bytes:
  assumes "client_frame_ok f" "length_code (length (cf_payload f)) = (len, ext)"
  shows "length (client_bytes f) = 6 + length ext + length (cf_payload f)" "length ext \<le> 8" "length (client_bytes f) < 2 ^ 31"
proof -
  show l: "length (client_bytes f) = 6 + length ext + length (cf_payload f)"
    using assms by (simp add: client_bytes_def client_frame_ok_def)
  show e: "length ext \<le> 8" using length_code(2) [OF assms(2)] assms(1) by (simp add: client_frame_ok_def)
  show "length (client_bytes f) < 2 ^ 31" using assms(1) l e by (simp add: client_frame_ok_def)
qed

definition ws_frame_bytes :: "u8 list \<Rightarrow> bool" where
  "ws_frame_bytes bs \<longleftrightarrow> (\<exists>f. client_frame_ok f \<and> bs = client_bytes f)"

lemma ws_decode_frame:
  assumes "client_frame_ok f"
  shows "ws_decode_pkg (take k (client_bytes f @ rest)) =
    (if k < length (client_bytes f) then 0 else int (length (client_bytes f)))"
proof -
  obtain len ext where lc: "length_code (length (cf_payload f)) = (len, ext)" by force
  note L = length_client_bytes [OF assms lc]
  let ?n = "length (client_bytes f)"
  have u: "unat (word_of_nat ?n :: u64) = ?n" using L(3) by (simp add: unat_of_nat)
  have "(ucast (word_of_nat ?n :: u64) :: 32 word) = word_of_nat ?n" using L(3) by (simp add: unsigned_of_nat take_bit_eq_mod)
  moreover have "sint (word_of_nat ?n :: 32 word) = int ?n"
    using L(3) by (simp add: signed_of_nat signed_take_bit_int_eq_self)
  ultimately have s: "sint (ucast (word_of_nat ?n :: u64) :: 32 word) = int ?n" by simp
  show ?thesis
    using L decode_head_frame [OF assms lc refl, of k rest] s u by (auto simp: ws_decode_pkg_def min_def)
qed

interpretation ws: framing ws_decode_pkg ws_frame_bytes
proof
  fix f rest and k :: nat
  assume "ws_frame_bytes f"
  then obtain c where c: "client_frame_ok c" "f = client_bytes c" by (auto simp: ws_frame_bytes_def)
  show "ws_decode_pkg (f @ rest) = int (length f)"
    using ws_decode_frame [OF c(1), of "length (f @ rest)" rest] c(2) by simp
  show "k < length f \<Longrightarrow> ws_decode_pkg (take k f) = 0"
    using ws_decode_frame [OF c(1), of k "[]"] c(2) by simp
  obtain len ext where "length_code (length (cf_payload c)) = (len, ext)" by force
  then show "f \<noteq> []" using length_client_bytes(1) [OF c(1)] c(2) by fastforce
qed

section \<open>Messages\<close>

text \<open>The fragments of a message, the last one marked; and how they are gathered.\<close>

definition fragments :: "u8 list list \<Rightarrow> (bool \<times> u8 list) list" where
  "fragments m = zip (replicate (length m - 1) False @ [True]) m"

fun gather :: "(bool \<times> u8 list) list \<Rightarrow> u8 list option \<Rightarrow> u8 list list \<times> u8 list option" where
  "gather [] p = ([], p)"
| "gather ((fin, d) # ds) p =
     (let m = (case p of None \<Rightarrow> [] | Some m \<Rightarrow> m) @ d in
      if fin then (case gather ds None of (ms, p) \<Rightarrow> (m # ms, p)) else gather ds (Some m))"

lemma gather_fragments:
  "m \<noteq> [] \<Longrightarrow> gather (fragments m @ ds) p =
     (((case p of None \<Rightarrow> [] | Some x \<Rightarrow> x) @ concat m) # fst (gather ds None), snd (gather ds None))"
proof (induction m arbitrary: p)
  case (Cons x m)
  show ?case
  proof (cases m)
    case Nil
    then show ?thesis by (simp add: fragments_def Let_def split: prod.split)
  next
    case (Cons y ys)
    then have "fragments (x # m) = (False, x) # fragments m" by (simp add: fragments_def)
    then show ?thesis using Cons.IH [of "Some ((case p of None \<Rightarrow> [] | Some x \<Rightarrow> x) @ x)"] Cons by (simp add: Let_def)
  qed
qed simp

lemma gather_messages: "[] \<notin> set ms \<Longrightarrow> gather (concat (map fragments ms)) None = (map concat ms, None)"
proof (induction ms)
  case (Cons m ms)
  then have "m \<noteq> []" by auto
  then show ?case using Cons by (simp add: gather_fragments)
qed simp

definition data_frames :: "client_frame list \<Rightarrow> (bool \<times> u8 list) list" where
  "data_frames fs = map (\<lambda>f. (cf_fin f, cf_payload f)) (filter (\<lambda>f. cf_opcode f < 8) fs)"

definition pongs :: "client_frame list \<Rightarrow> u8 list list" where
  "pongs fs = replicate (length (filter (\<lambda>f. cf_opcode f = 9) fs)) send_pong_message"

lemma recv_client_frame:
  assumes ok: "client_frame_ok f" and stay: "cf_opcode f \<noteq> 8" and accept: "\<And>remote url m s. 0 \<le> fst (on_message remote url m s)"
  shows "ws_on_recv_pkg on_message (client_bytes f) (info, sent, s) =
    ((info\<lparr>wc_message := snd (gather (data_frames [f]) (wc_message info))\<rparr>, sent @ pongs [f],
      fold (\<lambda>m s. snd (on_message (wc_remote info) (wc_url info) m s)) (fst (gather (data_frames [f]) (wc_message info))) s), False)"
proof -
  obtain len ext where lc: "length_code (length (cf_payload f)) = (len, ext)" by force
  note L = length_client_bytes [OF ok lc]
  have g: "length (cf_masks f) = 4" "is_good_opcode (cf_opcode f)" "length (cf_payload f) < 2 ^ 30"
    using ok by (simp_all add: client_frame_ok_def)
  have m: "take 4 (drop (2 + length ext) (client_bytes f)) = cf_masks f"
    "drop (length ext + 6) (client_bytes f) = masked (cf_masks f) (cf_payload f)"
  proof -
    have e: "length ext + 6 = Suc (Suc (length ext + 4))" by simp
    show "take 4 (drop (2 + length ext) (client_bytes f)) = cf_masks f" using g(1) by (simp add: client_bytes_def lc)
    show "drop (length ext + 6) (client_bytes f) = masked (cf_masks f) (cf_payload f)"
      unfolding client_bytes_def lc prod.case e drop_Suc_Cons using g(1) by simp
  qed
  obtain h where h: "decode_head (client_bytes f) = Inr (h, word_of_nat (length (client_bytes f)))"
    "fr_fin h = cf_fin f" "fr_opcode h = cf_opcode f" "frame_payload h (client_bytes f) = cf_payload f"
    using decode_head_frame [OF ok lc refl, of "length (client_bytes f)" "[]"] L(1) m g(1,3)
    by (auto simp: frame_payload_def unat_of_nat)
  consider "cf_opcode f = 9" | "cf_opcode f = 10" | "cf_opcode f \<in> {0, 1, 2}" using g(2) stay by (auto simp: is_good_opcode_def)
  then show ?thesis
  proof cases
    case 3
    then have d: "data_frames [f] = [(cf_fin f, cf_payload f)]" "pongs [f] = []" "cf_opcode f \<noteq> 8" "cf_opcode f \<noteq> 9" "cf_opcode f \<noteq> 10"
      by (auto simp: data_frames_def pongs_def)
    let ?m = "(case wc_message info of None \<Rightarrow> [] | Some m \<Rightarrow> m) @ cf_payload f"
    obtain ret s' where r: "on_message (wc_remote info) (wc_url info) ?m s = (ret, s')" by force
    then have "0 \<le> ret" using accept [of "wc_remote info" "wc_url info" ?m s] by simp
    then show ?thesis using d by (simp add: ws_on_recv_pkg_def h Let_def r)
  qed (simp_all add: ws_on_recv_pkg_def h data_frames_def pongs_def)
qed

lemma gather_append: "gather (ds @ es) p = (fst (gather ds p) @ fst (gather es (snd (gather ds p))), snd (gather es (snd (gather ds p))))"
  by (induction ds p rule: gather.induct) (auto simp: Let_def split: prod.split)

lemma recv_client_frames:
  assumes "\<forall>f\<in>set fs. client_frame_ok f \<and> cf_opcode f \<noteq> 8"
    and accept: "\<And>remote url m s. 0 \<le> fst (on_message remote url m s)"
  shows "fold (\<lambda>f st. fst (ws_on_recv_pkg on_message f st)) (map client_bytes fs) (info, sent, s) =
    (info\<lparr>wc_message := snd (gather (data_frames fs) (wc_message info))\<rparr>, sent @ pongs fs,
      fold (\<lambda>m s. snd (on_message (wc_remote info) (wc_url info) m s)) (fst (gather (data_frames fs) (wc_message info))) s)"
  using assms
proof (induction fs arbitrary: info sent s)
  case Nil
  then show ?case by (simp add: data_frames_def pongs_def)
next
  case (Cons f fs)
  have d: "data_frames (f # fs) = data_frames [f] @ data_frames fs" "pongs (f # fs) = pongs [f] @ pongs fs"
    by (simp_all add: data_frames_def pongs_def)
  show ?case using Cons.IH [of "info\<lparr>wc_message := snd (gather (data_frames [f]) (wc_message info))\<rparr>"] Cons.prems
    by (simp add: recv_client_frame d gather_append)
qed

text \<open>
  C31. Web socket messages arrive as they were sent: whatever their masks and fragments, whatever
  pings and pongs come in between, and however the bytes are cut into reads and wake-ups, the handler is
  called once for each message, in order and with its whole payload, and every ping is answered.
\<close>

theorem ws_messages_delivered:
  assumes frames: "\<forall>f\<in>set fs. client_frame_ok f \<and> cf_opcode f \<noteq> 8 \<and> length (client_bytes f) \<le> pool_size pool"
    and messages: "data_frames fs = concat (map fragments ms)" "[] \<notin> set ms"
    and pool: "pool_ok pool" "0 < pool_size pool"
    and bytes: "\<forall>es\<in>set ess. chunks es" "concat (map arrived ess) = concat (map client_bytes fs)"
    and accept: "\<And>remote url m s. 0 \<le> fst (on_message remote url m s)"
    and start: "wc_message info = None"
  shows "\<exists>pool'. wake_ups ws_decode_pkg (ws_on_recv_pkg on_message) ess \<lparr>ses_pool = pool, ses_read = None, ses_user = (info, [], s)\<rparr> =
    (Idle, \<lparr>ses_pool = pool', ses_read = None,
       ses_user = (info, pongs fs, fold (\<lambda>m s. snd (on_message (wc_remote info) (wc_url info) m s)) (map concat ms) s)\<rparr>)"
proof -
  let ?recv = "ws_on_recv_pkg on_message"
  have "\<not> snd (?recv (client_bytes f) st)" if "f \<in> set fs" for f st
    using recv_client_frame [of f on_message "fst st" "fst (snd st)" "snd (snd st)"] frames accept that by simp
  then have stay: "\<forall>f\<in>set (map client_bytes fs). \<forall>st. \<not> snd (?recv f st)" by auto
  have "\<forall>f\<in>set (map client_bytes fs). ws_frame_bytes f \<and> length f \<le> pool_size pool"
    using frames by (auto simp: ws_frame_bytes_def)
  from ws.wake_ups_exact [OF this pool bytes stay, of "(info, [], s)"] obtain pool' where
    w: "wake_ups ws_decode_pkg ?recv ess \<lparr>ses_pool = pool, ses_read = None, ses_user = (info, [], s)\<rparr> =
      (Idle, \<lparr>ses_pool = pool', ses_read = None, ses_user = fold (\<lambda>f st. fst (?recv f st)) (map client_bytes fs) (info, [], s)\<rparr>)" ..
  have "info\<lparr>wc_message := None\<rparr> = info" using start by simp
  then have "fold (\<lambda>f st. fst (?recv f st)) (map client_bytes fs) (info, [], s) =
      (info, pongs fs, fold (\<lambda>m s. snd (on_message (wc_remote info) (wc_url info) m s)) (map concat ms) s)"
    using recv_client_frames [of fs on_message info "[]" s] frames accept by (simp add: start messages gather_messages)
  with w show ?thesis by metis
qed

lemma ws_messages_delivered_witness:
  "\<exists>pool'. wake_ups ws_decode_pkg (ws_on_recv_pkg (\<lambda>remote url m s. (0, s @ [m])))
      [[Got [0x01, 0x82, 1, 2, 3, 4, 0x69, 0x67, 0x89]], [Got [0x80, 0, 0, 0, 0, 0x80], Got [0x81, 0, 0, 0, 1, 0x21]]]
      \<lparr>ses_pool = nw_buf_pool_create 100, ses_read = None, ses_user = (ws_on_new_connection 0, [], [])\<rparr> =
    (Idle, \<lparr>ses_pool = pool', ses_read = None, ses_user = (ws_on_new_connection 0, [[0x8a, 0]], [[0x68, 0x65, 0x21]])\<rparr>)"
proof -
  let ?fs = "[\<lparr>cf_fin = False, cf_opcode = 1, cf_masks = [1, 2, 3, 4], cf_payload = [0x68, 0x65]\<rparr>,
      \<lparr>cf_fin = True, cf_opcode = 9, cf_masks = [0, 0, 0, 0], cf_payload = []\<rparr>,
      \<lparr>cf_fin = True, cf_opcode = 0, cf_masks = [0, 0, 0, 1], cf_payload = [0x21]\<rparr>]"
  let ?ess = "[[Got [0x01, 0x82, 1, 2, 3, 4, 0x69, 0x67, 0x89]], [Got [0x80, 0, 0, 0, 0, 0x80], Got [0x81, 0, 0, 0, 1, 0x21]]] :: read_event list list"
  have b: "map client_bytes ?fs = [[0x01, 0x82, 1, 2, 3, 4, 0x69, 0x67], [0x89, 0x80, 0, 0, 0, 0], [0x80, 0x81, 0, 0, 0, 1, 0x21]]"
    by (simp add: client_bytes_def length_code_def)
  have len: "list_all (\<lambda>f. length (client_bytes f) \<le> 8) ?fs" using b by (simp add: list_all_iff)
  have frames: "\<forall>f\<in>set ?fs. client_frame_ok f \<and> cf_opcode f \<noteq> 8 \<and> length (client_bytes f) \<le> pool_size (nw_buf_pool_create 100)"
    using len by (simp add: client_frame_ok_def is_good_opcode_def nw_buf_pool_create_def)
  have m: "data_frames ?fs = concat (map fragments [[[0x68, 0x65], [0x21]]])" by (simp add: data_frames_def fragments_def)
  have p: "pool_ok (nw_buf_pool_create 100)" "0 < pool_size (nw_buf_pool_create 100)"
    by (rule pool_create_ok) (simp add: nw_buf_pool_create_def)
  have c: "\<forall>es\<in>set ?ess. chunks es" "concat (map arrived ?ess) = concat (map client_bytes ?fs)" unfolding b by simp_all
  have n: "wc_message (ws_on_new_connection 0) = None" by (simp add: ws_on_new_connection_def)
  have a: "0 \<le> fst (0 :: int, s @ [m])" for s and m :: "u8 list" by simp
  have g: "pongs ?fs = [[0x8a, 0]]" by (simp add: pongs_def send_pong_message_def send_reply_def)
  from ws_messages_delivered [where on_message = "\<lambda>remote url m s. (0, s @ [m])", OF frames m _ p c a n, of "[]"] show ?thesis
    unfolding g by simp
qed

text \<open>What a client that reads RFC 6455 frames makes of the frames that are sent to it.\<close>

definition read_server_frame :: "u8 list \<Rightarrow> (u8 \<times> u8 list \<times> u8 list) option" where
  "read_server_frame bs =
     (case bs of
        b0 # len # rest \<Rightarrow>
          let k = (if len < 126 then 0 else if len = 126 then 2 else 8 :: nat);
              n = unat (if len < 126 then ucast len else of_be (take k rest) :: u64)
          in if b0 AND 0x80 = 0 \<or> len > 127 \<or> length rest < k + n then None
             else Some (b0 AND 0x0f, take n (drop k rest), drop (k + n) rest)
      | _ \<Rightarrow> None)"

lemma read_send_reply:
  assumes "is_good_opcode opcode" "length payload < 2 ^ 30"
  shows "read_server_frame (send_reply opcode payload @ rest) = Some (opcode, payload, rest)"
proof -
  obtain len ext where lc: "length_code (length payload) = (len, ext)" by force
  note L = length_code [OF lc assms(2)]
  have s: "send_reply opcode payload = (0x80 OR opcode) # len # ext @ payload"
    using lc by (auto simp: send_reply_def length_code_def Let_def split: if_splits)
  have "len \<le> 127" using lc by (auto simp: length_code_def word_le_nat_alt unat_of_nat split: if_splits)
  moreover have t: "take (length ext) (ext @ payload @ rest) = ext" by simp
  have A: "(if len < 126 then 0 else if len = 126 then 2 else 8) = length ext" using L(2) by simp
  have B: "(if len < 126 then ucast len else of_be (take (length ext) (ext @ payload @ rest)) :: u64) = word_of_nat (length payload)"
    unfolding t by (rule L(3))
  have C: "unat (word_of_nat (length payload) :: u64) = length payload" using assms(2) by (simp add: unat_of_nat)
  have e: "send_reply opcode payload @ rest = (0x80 OR opcode) # len # (ext @ payload @ rest)" by (simp add: s)
  ultimately show ?thesis
    using opcode_bits [OF assms(1), of True] unfolding e read_server_frame_def list.case Let_def A B C by (simp add: not_less)
qed

text \<open>
  C32. A header of 14 bytes that announces 2^64 - 13 bytes or more makes the computed size of the frame
  wrap around: the decoder takes the 14 bytes for a complete frame of at most 13 bytes and removes the
  mask from the whole payload, far behind the end of what was received.
\<close>

theorem ws_length_wraps:
  fixes n :: u64
  assumes "p0 \<in> {0x81, 0x82}" "length masks = 4" "2 ^ 64 - 13 \<le> unat n"
  defines "data \<equiv> p0 # 0xff # be_bytes 8 n @ masks"
  shows "length data = 14 \<and> 0 < ws_decode_pkg data \<and> ws_decode_pkg data \<le> 13 \<and> unmask_end data = 14 + unat n"
proof -
  have len: "length data = 14" using assms(2) by (simp add: data_def be_bytes_def)
  obtain k where k: "unat n = 2 ^ 64 - k" "k \<le> 13" "0 < k"
    using assms(3) unsigned_less [of n] by (intro that [of "2 ^ 64 - unat n"]) auto
  have w: "(14 :: u64) + n = word_of_nat (14 - k)"
  proof -
    have "n = word_of_nat (2 ^ 64 - k)" unfolding k(1) [symmetric] by simp
    then have "14 + n = word_of_nat (14 + (2 ^ 64 - k))" by simp
    also have "14 + (2 ^ 64 - k) = 2 ^ 64 + (14 - k)" using k(2) by simp
    also have "(word_of_nat (2 ^ 64 + (14 - k)) :: u64) = word_of_nat (14 - k)" by (simp add: word_of_nat_eq_0_iff)
    finally show ?thesis .
  qed
  obtain h where h: "decode_head data = Inr (h, 14 + n)" "fr_payload h = 14" "fr_payload_len h = n"
  proof -
    have b: "data ! 0 = p0" "data ! Suc 0 = 0xff" "take 8 (drop 2 data) = be_bytes 8 n" by (simp_all add: data_def be_bytes_def)
    have o: "is_good_opcode (p0 AND 0x0f)" using assms(1) by (auto simp: is_good_opcode_def)
    show thesis
      by (rule that [of "\<lparr>fr_fin = (p0 AND 0x80 \<noteq> 0), fr_opcode = p0 AND 0x0f, fr_payload_len = n, fr_payload = 14,
          fr_masks = take 4 (drop 10 data)\<rparr>"]) (simp_all add: decode_head_def len b o of_be_bytes Let_def)
  qed
  obtain d where d: "14 - k = d" "0 < d" "d \<le> 13" using k by auto
  have u: "unat (14 + n) = d" "(ucast (14 + n) :: 32 word) = word_of_nat d" unfolding w d(1) using d(3)
    by (simp_all add: unat_of_nat unsigned_of_nat take_bit_eq_mod)
  have "sint (word_of_nat d :: 32 word) = int d" using d(3) by (simp add: signed_of_nat signed_take_bit_int_eq_self)
  then show ?thesis using len d(2,3) by (simp add: ws_decode_pkg_def unmask_end_def h u)
qed

lemma ws_length_wraps_witness:
  "length (0x82 # 0xff # be_bytes 8 (0xffffffffffffffff :: u64) @ [1, 2, 3, 4 :: u8]) = 14 \<and>
    0 < ws_decode_pkg (0x82 # 0xff # be_bytes 8 (0xffffffffffffffff :: u64) @ [1, 2, 3, 4])"
  using ws_length_wraps [of "0x82" "[1, 2, 3, 4]" "0xffffffffffffffff"] by simp

end
