(* ===== verification/Push.thy ===== *)
theory Push
  imports Gateway
begin

text \<open>
  What the parts of the push server (\<^verbatim>\<open>accessws/\<close>) share. The first section is the start
  of \<^verbatim>\<open>aw_server.c\<close>: the documents for clients. The second is the code that
  \<^verbatim>\<open>aw_state.c\<close>, \<^verbatim>\<open>aw_today.c\<close>, \<^verbatim>\<open>aw_price.c\<close>,
  \<^verbatim>\<open>aw_kline.c\<close>, \<^verbatim>\<open>aw_deals.c\<close> and \<^verbatim>\<open>aw_depth.c\<close> have in
  common: a dictionary of what somebody is subscribed to, with the sessions and with what was seen
  last, that a timer has queried from another server. A call yields the list of its actions; the
  log is left out. \<open>None\<close> is a call that does not return or ends in a crash.
\<close>

section \<open>Documents\<close>

text \<open>The jobs are requests to the login service, which worker threads send; the elements of an array are read by index.\<close>

datatype push_action = Send ses string | Query backend rpc_pkg | Auth_job u32 string | Sign_job u32 string string u64 | Hang_up ses

definition json_items :: "('d, 'j) env \<Rightarrow> 'j \<Rightarrow> 'j list" where
  "json_items E list = List.map_filter (json_array_get (json E) list) [0..<json_array_size (json E) list]"

definition send_json :: "('d, 'j) env \<Rightarrow> ses \<Rightarrow> 'j \<Rightarrow> push_action list" where
  "send_json E ses doc = (case json_dumps (json E) doc 0 of None \<Rightarrow> [] | Some message_data \<Rightarrow> [Send ses message_data])"

definition send_error :: "('d, 'j) env \<Rightarrow> ses \<Rightarrow> u64 \<Rightarrow> int \<Rightarrow> string \<Rightarrow> push_action list" where
  "send_error E ses i code message =
     (let J = json E;
          error = json_object J [(''code'', json_integer J code), (''message'', json_string J message)]
      in send_json E ses (json_object J [(''error'', error), (''result'', json_null J), (''id'', json_integer J (sint i))]))"

definition send_error_invalid_argument :: "('d, 'j) env \<Rightarrow> ses \<Rightarrow> u64 \<Rightarrow> push_action list" where
  "send_error_invalid_argument E ses i = send_error E ses i 1 ''invalid argument''"

definition send_error_internal_error :: "('d, 'j) env \<Rightarrow> ses \<Rightarrow> u64 \<Rightarrow> push_action list" where
  "send_error_internal_error E ses i = send_error E ses i 2 ''internal error''"

definition send_error_service_timeout :: "('d, 'j) env \<Rightarrow> ses \<Rightarrow> u64 \<Rightarrow> push_action list" where
  "send_error_service_timeout E ses i = send_error E ses i 5 ''service timeout''"

definition send_error_require_auth :: "('d, 'j) env \<Rightarrow> ses \<Rightarrow> u64 \<Rightarrow> push_action list" where
  "send_error_require_auth E ses i = send_error E ses i 6 ''require authentication''"

definition send_result :: "('d, 'j) env \<Rightarrow> ses \<Rightarrow> u64 \<Rightarrow> 'j \<Rightarrow> push_action list" where
  "send_result E ses i result =
     (let J = json E
      in send_json E ses (json_object J [(''error'', json_null J), (''result'', result), (''id'', json_integer J (sint i))]))"

definition send_success :: "('d, 'j) env \<Rightarrow> ses \<Rightarrow> u64 \<Rightarrow> push_action list" where
  "send_success E ses i = send_result E ses i (json_object (json E) [(''status'', json_string (json E) ''success'')])"

definition send_notify :: "('d, 'j) env \<Rightarrow> ses \<Rightarrow> string \<Rightarrow> 'j \<Rightarrow> push_action list" where
  "send_notify E ses method params =
     (let J = json E
      in send_json E ses (json_object J [(''method'', json_string J method), (''params'', params), (''id'', json_null J)]))"

text \<open>
  A dictionary of sessions is a list; the iterator yields its elements in an order \<open>walk\<close>
  of the hash table.
\<close>

definition notify_all :: "('d, 'j) env \<Rightarrow> (ses list \<Rightarrow> ses list) \<Rightarrow> ses list \<Rightarrow> string \<Rightarrow> 'j \<Rightarrow> push_action list" where
  "notify_all E walk sessions method params = concat (map (\<lambda>ses. send_notify E ses method params) (walk sessions))"

section \<open>Topics\<close>

record ('k, 'v) topic =
  tp_dict :: "'k \<rightharpoonup> ses list \<times> 'v"
  tp_state :: "'k pending"

definition init_topic :: "('k, 'v) topic" where
  "init_topic = \<lparr>tp_dict = Map.empty, tp_state = no_pending\<rparr>"

definition ses_add :: "ses \<Rightarrow> ses list \<Rightarrow> ses list" where
  "ses_add ses sessions = (if ses \<in> set sessions then sessions else ses # sessions)"

definition topic_subscribe :: "'v \<Rightarrow> ses \<Rightarrow> 'k \<Rightarrow> ('k, 'v) topic \<Rightarrow> ('k, 'v) topic" where
  "topic_subscribe val ses key tp =
     (let (sessions, obj) = (case tp_dict tp key of None \<Rightarrow> ([], val) | Some entry \<Rightarrow> entry)
      in tp\<lparr>tp_dict := (tp_dict tp)(key \<mapsto> (ses_add ses sessions, obj))\<rparr>)"

text \<open>
  \<open>found\<close>: whether \<^verbatim>\<open>dict_delete\<close> finds the session. The dictionaries hash a session by the first
  eight bytes of its object (\<^verbatim>\<open>dict_ses_hash_func\<close>), the members \<^verbatim>\<open>active\<close> and
  \<^verbatim>\<open>pending\<close> of its event watcher. While a session handles a message of its own client the watcher
  is active with nothing pending: that is when it is put in, and when it is found again. It can be closed
  at another time, by the timer for idle connections or after an error in sending, and when an event is pending for it
  then, its hash is another one and the entry is missed. (A dictionary of fewer than 4096 sessions is never
  expanded, which would compute the hashes anew.)
\<close>

definition topic_unsubscribe :: "bool \<Rightarrow> ses \<Rightarrow> ('k, 'v) topic \<Rightarrow> ('k, 'v) topic" where
  "topic_unsubscribe found ses tp =
     tp\<lparr>tp_dict := (\<lambda>key. map_option (\<lambda>(sessions, obj). (if found then removeAll ses sessions else sessions, obj)) (tp_dict tp key))\<rparr>"

text \<open>
  The timer: an entry without sessions is dropped, for the others a request is sent. \<open>keys\<close>
  is the order of the iterator, \<open>params\<close> the parameters of the request.
\<close>

fun topic_timer ::
  "('d, 'j) env \<Rightarrow> backend \<Rightarrow> u32 \<Rightarrow> ('k \<Rightarrow> 'v \<Rightarrow> 'j) \<Rightarrow> 'k list \<Rightarrow> ('k, 'v) topic \<Rightarrow> (('k, 'v) topic \<times> push_action list) option" where
  "topic_timer E clt cmd params [] tp = Some (tp, [])"
| "topic_timer E clt cmd params (key # keys) tp =
     (case tp_dict tp key of
        None \<Rightarrow> topic_timer E clt cmd params keys tp
      | Some (sessions, obj) \<Rightarrow>
          if sessions = [] then topic_timer E clt cmd params keys (tp\<lparr>tp_dict := (tp_dict tp)(key := None)\<rparr>)
          else do { (sequence, state) \<leftarrow> pending_new key (tp_state tp);
                    body \<leftarrow> json_dumps (json E) (params key obj) 0;
                    (tp, out) \<leftarrow> topic_timer E clt cmd params keys (tp\<lparr>tp_state := state\<rparr>);
                    Some (tp, Query clt (request_pkg cmd sequence 0 body) # out) })"

text \<open>
  A packet from the other server: the entry that waits for it is looked up by the key kept with
  the request, and \<open>on_reply\<close> deals with the result. An error drops the whole entry.
\<close>

definition pkg_text :: "rpc_pkg \<Rightarrow> string" where
  "pkg_text pkg = bytes_text (take (unat (body_size pkg)) (pkg_body pkg))"

definition topic_recv_pkg ::
  "('d, 'j) env \<Rightarrow> u32 \<Rightarrow> ('k \<Rightarrow> 'j \<Rightarrow> ses list \<Rightarrow> 'v \<Rightarrow> ('v \<times> push_action list) option) \<Rightarrow> rpc_pkg \<Rightarrow> ('k, 'v) topic \<Rightarrow>
   (('k, 'v) topic \<times> push_action list) option" where
  "topic_recv_pkg E cmd on_reply pkg tp =
     (case pn_map (tp_state tp) (pkg_sequence pkg) of
        None \<Rightarrow> Some (tp, [])
      | Some key \<Rightarrow>
          let tp = tp\<lparr>tp_state := pending_del (pkg_sequence pkg) (tp_state tp)\<rparr> in
          (case json_loadb (json E) (pkg_text pkg) of
             None \<Rightarrow> Some (tp, [])
           | Some reply \<Rightarrow>
               let error = json_object_get (json E) reply ''error'' in
               if error \<noteq> None \<and> \<not> json_is_null (json E) error
               then Some (tp\<lparr>tp_dict := (tp_dict tp)(key := None)\<rparr>, [])
               else (case (error, json_object_get (json E) reply ''result'') of
                 (Some _, Some result) \<Rightarrow>
                   if command pkg \<noteq> cmd then Some (tp, [])
                   else (case tp_dict tp key of
                     None \<Rightarrow> Some (tp, [])
                   | Some (sessions, obj) \<Rightarrow>
                       map_option (\<lambda>(obj, out). (tp\<lparr>tp_dict := (tp_dict tp)(key \<mapsto> (sessions, obj))\<rparr>, out))
                         (on_reply key result sessions obj))
               | _ \<Rightarrow> Some (tp, []))))"

definition topic_timeout :: "u32 \<Rightarrow> ('k, 'v) topic \<Rightarrow> ('k, 'v) topic" where
  "topic_timeout i tp = tp\<lparr>tp_state := pending_del i (tp_state tp)\<rparr>"

section \<open>Settings and requests to subscribe\<close>

text \<open>\<open>kline_span\<close> is \<^verbatim>\<open>(int)(settings.kline_interval + 1)\<close>.\<close>

record 'd push_settings =
  depth_limit :: "int list"
  depth_merge :: "'d list"
  kline_span :: int
  cache_timeout :: int

definition MARKET_NAME_MAX_LEN :: nat where "MARKET_NAME_MAX_LEN = 16"
definition INTERVAL_MAX_LEN :: nat where "INTERVAL_MAX_LEN = 16"
definition ASSET_NAME_MAX_LEN :: nat where "ASSET_NAME_MAX_LEN = 16"

definition name_param :: "('d, 'j) env \<Rightarrow> nat \<Rightarrow> 'j \<Rightarrow> nat \<Rightarrow> string option" where
  "name_param E max_len params i =
     (case json_string_value (json E) (json_array_get (json E) params i) of
        None \<Rightarrow> None
      | Some name \<Rightarrow> if length name \<ge> max_len then None else Some name)"

text \<open>The loop over the names in a request, which stops at the first bad one.\<close>

fun each_name :: "(string \<Rightarrow> 't \<Rightarrow> 't) \<Rightarrow> string option list \<Rightarrow> 't \<Rightarrow> bool \<times> 't" where
  "each_name subscribe [] tp = (True, tp)"
| "each_name subscribe (None # names) tp = (False, tp)"
| "each_name subscribe (Some name # names) tp = each_name subscribe names (subscribe name tp)"

definition on_method_subscribe ::
  "('d, 'j) env \<Rightarrow> ses \<Rightarrow> u64 \<Rightarrow> 'j \<Rightarrow> (ses \<Rightarrow> 't \<Rightarrow> 't) \<Rightarrow> (ses \<Rightarrow> string \<Rightarrow> 't \<Rightarrow> 't) \<Rightarrow>
   (ses \<Rightarrow> string \<Rightarrow> 't \<Rightarrow> push_action list) \<Rightarrow> 't \<Rightarrow> 't \<times> push_action list" where
  "on_method_subscribe E ses i params unsubscribe subscribe send_last tp =
     (let names = map (name_param E MARKET_NAME_MAX_LEN params) [0..<json_array_size (json E) params] in
      case each_name (subscribe ses) names (unsubscribe ses tp) of
        (False, tp) \<Rightarrow> (tp, send_error_invalid_argument E ses i)
      | (True, tp) \<Rightarrow> (tp, send_success E ses i @ concat (map (\<lambda>name. send_last ses name tp) (List.map_filter id names))))"

section \<open>Facts about topics\<close>

lemma set_ses_add [simp]: "set (ses_add ses sessions) = insert ses (set sessions)"
  by (auto simp: ses_add_def)

lemma topic_subscribe_dict:
  "tp_dict (topic_subscribe val ses key tp) k =
     (if k = key then Some (case tp_dict tp key of None \<Rightarrow> ([ses], val) | Some (sessions, obj) \<Rightarrow> (ses_add ses sessions, obj))
      else tp_dict tp k)"
  by (auto simp: topic_subscribe_def ses_add_def split: option.splits prod.splits)

lemma topic_unsubscribe_dict:
  "tp_dict (topic_unsubscribe found ses tp) k =
     map_option (\<lambda>(sessions, obj). (if found then removeAll ses sessions else sessions, obj)) (tp_dict tp k)"
  by (simp add: topic_unsubscribe_def)

text \<open>The timer sends only requests, and only drops what nobody is subscribed to.\<close>

lemma topic_timer_frame:
  assumes "topic_timer E clt cmd params keys tp = Some (tp', out)"
  shows "(\<forall>a\<in>set out. \<exists>pkg. a = Query clt pkg) \<and>
    (\<forall>k. tp_dict tp' k = tp_dict tp k \<or> (tp_dict tp' k = None \<and> (\<exists>v. tp_dict tp k = Some ([], v))))"
  using assms
proof (induction E clt cmd params keys tp arbitrary: tp' out rule: topic_timer.induct)
  case (1 E clt cmd params tp)
  then show ?case by simp
next
  case (2 E clt cmd params key keys tp)
  show ?case
  proof (cases "tp_dict tp key")
    case None
    then show ?thesis using 2 by simp
  next
    case (Some entry)
    obtain sessions obj where e: "entry = (sessions, obj)" by (cases entry)
    show ?thesis
    proof (cases "sessions = []")
      case True
      then show ?thesis using "2.IH"(2) [OF Some e [symmetric] True] "2.prems" Some e
        by (auto split: if_splits) (metis not_Some_eq surj_pair)+
    next
      case False
      obtain sequence state body tp1 out1 where s: "pending_new key (tp_state tp) = Some (sequence, state)"
        "json_dumps (json E) (params key obj) 0 = Some body"
        "topic_timer E clt cmd params keys (tp\<lparr>tp_state := state\<rparr>) = Some (tp1, out1)"
        "tp' = tp1" "out = Query clt (request_pkg cmd sequence 0 body) # out1"
        using "2.prems" Some e False by (auto split: Option.bind_splits)
      from "2.IH"(3) [OF Some e [symmetric] False s(1) _ s(2,3)] s(4,5) show ?thesis by auto
    qed
  qed
qed

text \<open>The keys that requests wait with are keys the timer found.\<close>

lemma topic_recv_pkg_cases:
  assumes "topic_recv_pkg E cmd on_reply pkg tp = Some (tp', out)"
  obtains (quiet) "out = []" "tp_dict tp' = tp_dict tp"
    | (dropped) key where "out = []" "tp_dict tp' = (tp_dict tp)(key := None)"
    | (reply) key reply result sessions obj obj' where
        "pn_map (tp_state tp) (pkg_sequence pkg) = Some key" "command pkg = cmd"
        "json_loadb (json E) (pkg_text pkg) = Some reply" "json_object_get (json E) reply ''result'' = Some result"
        "tp_dict tp key = Some (sessions, obj)" "on_reply key result sessions obj = Some (obj', out)"
        "tp_dict tp' = (tp_dict tp)(key \<mapsto> (sessions, obj'))"
  using assms
  by (auto simp: topic_recv_pkg_def Let_def split: option.splits if_splits)

end
