(* ===== verification/Push_Depth.thy ===== *)
theory Push_Depth
  imports Push Wire
begin

text \<open>
  \<^verbatim>\<open>accessws/aw_depth.c\<close>: the order books that clients watch. A client gets the whole book
  at first and once a minute, and in between the levels that have changed. The last sections prove
  that a client that follows the protocol sees the book exactly.
\<close>

section \<open>Differences\<close>

text \<open>A level is an array of a price and an amount, both as texts.\<close>

definition level_price :: "('d, 'j) env \<Rightarrow> 'j \<Rightarrow> string option" where
  "level_price E unit = json_string_value (json E) (json_array_get (json E) unit 0)"

definition level_amount :: "('d, 'j) env \<Rightarrow> 'j \<Rightarrow> string option" where
  "level_amount E unit = json_string_value (json E) (json_array_get (json E) unit 1)"

definition removed_level :: "('d, 'j) env \<Rightarrow> string \<Rightarrow> 'j" where
  "removed_level E price = json_array (json E) [json_string (json E) price, json_string (json E) ''0'']"

text \<open>
  The first loop of \<^verbatim>\<open>get_list_diff\<close>, with the rests of both lists; \<open>None\<close> is the
  jump to \<^verbatim>\<open>error\<close>.
\<close>

fun diff_loop :: "('d, 'j) env \<Rightarrow> int \<Rightarrow> 'j list \<Rightarrow> 'j list \<Rightarrow> ('j list \<times> 'j list \<times> 'j list) option" where
  "diff_loop E side (unit1 # list1) (unit2 # list2) =
     do { unit1_price \<leftarrow> level_price E unit1;
          unit1_amount \<leftarrow> level_amount E unit1;
          price1 \<leftarrow> decimal (mpd E) unit1_price 0;
          amount1 \<leftarrow> decimal (mpd E) unit1_amount 0;
          unit2_price \<leftarrow> level_price E unit2;
          unit2_amount \<leftarrow> level_amount E unit2;
          price2 \<leftarrow> decimal (mpd E) unit2_price 0;
          amount2 \<leftarrow> decimal (mpd E) unit2_amount 0;
          let cmp = mpd_cmp (mpd E) price1 price2 * side in
          if cmp = 0
          then map_option (\<lambda>(diff, rest). (if mpd_cmp (mpd E) amount1 amount2 \<noteq> 0 then unit2 # diff else diff, rest))
                 (diff_loop E side list1 list2)
          else if cmp > 0 then map_option (\<lambda>(diff, rest). (unit2 # diff, rest)) (diff_loop E side (unit1 # list1) list2)
          else map_option (\<lambda>(diff, rest). (removed_level E (mpd_json_string (mpd E) price1) # diff, rest))
                 (diff_loop E side list1 (unit2 # list2)) }"
| "diff_loop E side list1 list2 = Some ([], list1, list2)"

text \<open>The second loop: what is left of the old list is removed.\<close>

fun removed_levels :: "('d, 'j) env \<Rightarrow> 'j list \<Rightarrow> 'j list option" where
  "removed_levels E [] = Some []"
| "removed_levels E (unit # list1) =
     do { price \<leftarrow> level_price E unit;
          amount \<leftarrow> level_amount E unit;
          diff \<leftarrow> removed_levels E list1;
          Some (removed_level E price # diff) }"

definition get_list_diff :: "('d, 'j) env \<Rightarrow> 'j option \<Rightarrow> 'j option \<Rightarrow> u32 \<Rightarrow> int \<Rightarrow> 'j option" where
  "get_list_diff E list1 list2 limit side =
     do { list1 \<leftarrow> list1;
          list2 \<leftarrow> list2;
          (diff, rest1, rest2) \<leftarrow> diff_loop E side (json_items E list1) (json_items E list2);
          removed \<leftarrow> (if json_array_size (json E) list2 < unat limit then removed_levels E rest1 else Some []);
          let diff = diff @ removed @ rest2;
          if diff = [] then None else Some (json_array (json E) diff) }"

definition get_depth_diff :: "('d, 'j) env \<Rightarrow> 'j \<Rightarrow> 'j \<Rightarrow> u32 \<Rightarrow> 'j option" where
  "get_depth_diff E first second limit =
     (let get = json_object_get (json E);
          asks = get_list_diff E (get first ''asks'') (get second ''asks'') limit 1;
          bids = get_list_diff E (get first ''bids'') (get second ''bids'') limit (- 1)
      in if asks = None \<and> bids = None then None
         else Some (json_object (json E)
           ((case asks of None \<Rightarrow> [] | Some asks \<Rightarrow> [(''asks'', asks)]) @ (case bids of None \<Rightarrow> [] | Some bids \<Rightarrow> [(''bids'', bids)]))))"

section \<open>The service\<close>

text \<open>The key is a market, an interval and a limit; kept are the last book and the time of the last whole one.\<close>

type_synonym depth_key = "string \<times> string \<times> u32"
type_synonym 'j depth_val = "'j option \<times> int"
type_synonym 'j depth = "(depth_key, 'j depth_val) topic"

definition CLEAN_INTERVAL :: int where "CLEAN_INTERVAL = 60"

definition depth_update_params :: "('d, 'j) env \<Rightarrow> bool \<Rightarrow> 'j \<Rightarrow> string \<Rightarrow> 'j" where
  "depth_update_params E clean result market =
     json_array (json E) [json_boolean (json E) clean, result, json_string (json E) market]"

definition broadcast_update ::
  "('d, 'j) env \<Rightarrow> (ses list \<Rightarrow> ses list) \<Rightarrow> string \<Rightarrow> ses list \<Rightarrow> bool \<Rightarrow> 'j \<Rightarrow> push_action list" where
  "broadcast_update E walk market sessions clean result =
     notify_all E walk sessions ''depth.update'' (depth_update_params E clean result market)"

definition on_market_depth_reply ::
  "('d, 'j) env \<Rightarrow> (ses list \<Rightarrow> ses list) \<Rightarrow> int \<Rightarrow> depth_key \<Rightarrow> 'j \<Rightarrow> ses list \<Rightarrow> 'j depth_val \<Rightarrow> 'j depth_val \<times> push_action list" where
  "on_market_depth_reply E walk now key result sessions val =
     (case (key, val) of ((market, interval, limit), (latest, last_clean)) \<Rightarrow>
        (case latest of
           None \<Rightarrow> ((Some result, now), broadcast_update E walk market sessions True result)
         | Some book \<Rightarrow>
             (case get_depth_diff E book result limit of
                None \<Rightarrow> ((latest, last_clean), [])
              | Some diff \<Rightarrow>
                  if now - last_clean \<ge> CLEAN_INTERVAL
                  then ((Some result, now), broadcast_update E walk market sessions True result)
                  else ((Some result, last_clean), broadcast_update E walk market sessions False diff))))"

definition depth_recv_pkg ::
  "('d, 'j) env \<Rightarrow> (ses list \<Rightarrow> ses list) \<Rightarrow> int \<Rightarrow> rpc_pkg \<Rightarrow> 'j depth \<Rightarrow> ('j depth \<times> push_action list) option" where
  "depth_recv_pkg E walk now =
     topic_recv_pkg E CMD_ORDER_BOOK_DEPTH (\<lambda>key result sessions val. Some (on_market_depth_reply E walk now key result sessions val))"

definition depth_on_timer :: "('d, 'j) env \<Rightarrow> depth_key list \<Rightarrow> 'j depth \<Rightarrow> ('j depth \<times> push_action list) option" where
  "depth_on_timer E =
     topic_timer E Matchengine CMD_ORDER_BOOK_DEPTH (\<lambda>(market, interval, limit) val.
       json_array (json E) [json_string (json E) market, json_integer (json E) (uint limit), json_string (json E) interval])"

definition is_good_limit :: "'d push_settings \<Rightarrow> int \<Rightarrow> bool" where
  "is_good_limit st limit = list_ex (\<lambda>l. l = limit) (depth_limit st)"

definition is_good_interval :: "('d, 'j) env \<Rightarrow> 'd push_settings \<Rightarrow> string \<Rightarrow> bool" where
  "is_good_interval E st interval =
     (case decimal (mpd E) interval 0 of
        None \<Rightarrow> False
      | Some merge \<Rightarrow> list_ex (\<lambda>l. mpd_cmp (mpd E) l merge = 0) (depth_merge st))"

definition depth_key :: "string \<Rightarrow> u32 \<Rightarrow> string \<Rightarrow> depth_key" where
  "depth_key market limit interval = (take (MARKET_NAME_MAX_LEN - 1) market, take (INTERVAL_MAX_LEN - 1) interval, limit)"

text \<open>The result is 0 or -1.\<close>

definition depth_subscribe ::
  "('d, 'j) env \<Rightarrow> 'd push_settings \<Rightarrow> ses \<Rightarrow> string \<Rightarrow> u32 \<Rightarrow> string \<Rightarrow> 'j depth \<Rightarrow> int \<times> 'j depth" where
  "depth_subscribe E st ses market limit interval tp =
     (if \<not> is_good_limit st (sint limit) then (- 1, tp)
      else if \<not> is_good_interval E st interval then (- 1, tp)
      else (0, topic_subscribe (None, 0) ses (depth_key market limit interval) tp))"

definition depth_unsubscribe :: "bool \<Rightarrow> ses \<Rightarrow> 'j depth \<Rightarrow> 'j depth" where
  "depth_unsubscribe = topic_unsubscribe"

definition depth_send_clean ::
  "('d, 'j) env \<Rightarrow> ses \<Rightarrow> string \<Rightarrow> u32 \<Rightarrow> string \<Rightarrow> 'j depth \<Rightarrow> push_action list" where
  "depth_send_clean E ses market limit interval tp =
     (case tp_dict tp (depth_key market limit interval) of
        Some (sessions, Some book, last_clean) \<Rightarrow> send_notify E ses ''depth.update'' (depth_update_params E True book market)
      | _ \<Rightarrow> [])"

text \<open>The methods in \<^verbatim>\<open>aw_server.c\<close>. The limit is cut to the 32 bits of an \<^verbatim>\<open>int\<close>.\<close>

definition depth_request :: "('d, 'j) env \<Rightarrow> 'j \<Rightarrow> (string \<times> u32 \<times> string) option" where
  "depth_request E params =
     do { check (json_array_size (json E) params = 3);
          market \<leftarrow> name_param E MARKET_NAME_MAX_LEN params 0;
          let limit = word_of_int (json_integer_value (json E) (json_array_get (json E) params 1));
          check (\<not> sint limit \<le> 0);
          interval \<leftarrow> name_param E INTERVAL_MAX_LEN params 2;
          Some (market, limit, interval) }"

definition on_method_depth_subscribe ::
  "('d, 'j) env \<Rightarrow> 'd push_settings \<Rightarrow> ses \<Rightarrow> u64 \<Rightarrow> 'j \<Rightarrow> 'j depth \<Rightarrow> 'j depth \<times> push_action list" where
  "on_method_depth_subscribe E st ses i params tp =
     (case depth_request E params of
        None \<Rightarrow> (tp, send_error_invalid_argument E ses i)
      | Some (market, limit, interval) \<Rightarrow>
          (case depth_subscribe E st ses market limit interval (depth_unsubscribe True ses tp) of
             (ret, tp) \<Rightarrow>
               if ret = - 1 then (tp, send_error_invalid_argument E ses i)
               else (tp, send_success E ses i @ depth_send_clean E ses market limit interval tp)))"

definition on_method_depth_unsubscribe :: "('d, 'j) env \<Rightarrow> ses \<Rightarrow> u64 \<Rightarrow> 'j depth \<Rightarrow> 'j depth \<times> push_action list" where
  "on_method_depth_unsubscribe E ses i tp = (depth_unsubscribe True ses tp, send_success E ses i)"

section \<open>A client that follows the protocol\<close>

text \<open>
  What a client makes of the messages: it keeps the levels as numbers, best first; a whole book
  replaces them, and a difference is put in level by level (an amount of 0 takes a level out), after
  which only the best levels up to the limit are kept.
\<close>

type_synonym level = "rat \<times> rat"

definition level_of :: "('d, 'j) env \<Rightarrow> ('d \<Rightarrow> rat) \<Rightarrow> 'j \<Rightarrow> level" where
  "level_of E val unit =
     (case (level_price E unit, level_amount E unit) of
        (Some price, Some amount) \<Rightarrow>
          (case (decimal (mpd E) price 0, decimal (mpd E) amount 0) of (Some x, Some y) \<Rightarrow> (val x, val y) | _ \<Rightarrow> (0, 0))
      | _ \<Rightarrow> (0, 0))"

definition levels :: "('d, 'j) env \<Rightarrow> ('d \<Rightarrow> rat) \<Rightarrow> 'j \<Rightarrow> string \<Rightarrow> level list" where
  "levels E val doc name =
     (case json_object_get (json E) doc name of None \<Rightarrow> [] | Some list \<Rightarrow> map (level_of E val) (json_items E list))"

fun put_level :: "int \<Rightarrow> level \<Rightarrow> level list \<Rightarrow> level list" where
  "put_level side (p, a) [] = (if a = 0 then [] else [(p, a)])"
| "put_level side (p, a) ((q, b) # view) =
     (if p = q then (if a = 0 then view else (p, a) # view)
      else if of_int side * p < of_int side * q then (if a = 0 then (q, b) # view else (p, a) # (q, b) # view)
      else (q, b) # put_level side (p, a) view)"

definition merge_levels :: "int \<Rightarrow> nat \<Rightarrow> level list \<Rightarrow> level list \<Rightarrow> level list" where
  "merge_levels side limit diff view = take limit (fold (put_level side) diff view)"

record client =
  cl_limit :: nat
  cl_asks :: "level list"
  cl_bids :: "level list"

definition client_message :: "('d, 'j) env \<Rightarrow> ('d \<Rightarrow> rat) \<Rightarrow> string \<Rightarrow> client \<Rightarrow> client" where
  "client_message E val text c =
     (case do { msg \<leftarrow> json_loadb (json E) text;
                name \<leftarrow> json_object_get (json E) msg ''method'';
                check (json_string_value (json E) (Some name) = Some ''depth.update'');
                params \<leftarrow> json_object_get (json E) msg ''params'';
                doc \<leftarrow> json_array_get (json E) params 1;
                Some (json_is_true (json E) (json_array_get (json E) params 0), doc) } of
        None \<Rightarrow> c
      | Some (clean, doc) \<Rightarrow>
          if clean then c\<lparr>cl_asks := levels E val doc ''asks'', cl_bids := levels E val doc ''bids''\<rparr>
          else c\<lparr>cl_asks := merge_levels 1 (cl_limit c) (levels E val doc ''asks'') (cl_asks c),
                 cl_bids := merge_levels (- 1) (cl_limit c) (levels E val doc ''bids'') (cl_bids c)\<rparr>)"

section \<open>Differences of numbers\<close>

definition ranked :: "int \<Rightarrow> level list \<Rightarrow> bool" where
  "ranked side = sorted_wrt (\<lambda>l m. of_int side * fst l < of_int side * fst m)"

lemma ranked_simps [simp]:
  "ranked side []"
  "ranked side (l # view) \<longleftrightarrow> (\<forall>m\<in>set view. of_int side * fst l < of_int side * fst m) \<and> ranked side view"
  by (auto simp: ranked_def)

lemma ranked_append: "ranked side (xs @ ys) \<longleftrightarrow> ranked side xs \<and> ranked side ys \<and>
    (\<forall>l\<in>set xs. \<forall>m\<in>set ys. of_int side * fst l < of_int side * fst m)"
  by (auto simp: ranked_def sorted_wrt_append)

text \<open>A level is put behind the better ones.\<close>

lemma put_level_behind:
  "(\<forall>l\<in>set pre. of_int side * fst l < of_int side * p) \<Longrightarrow> put_level side (p, a) (pre @ view) = pre @ put_level side (p, a) view"
  by (induction pre) auto

lemma put_levels_at_end:
  "ranked side (pre @ view) \<Longrightarrow> \<forall>l\<in>set view. snd l \<noteq> 0 \<Longrightarrow> fold (put_level side) view pre = pre @ view"
proof (induction view arbitrary: pre)
  case (Cons l view)
  obtain p a where l: "l = (p, a)" by (cases l)
  have "put_level side (p, a) (pre @ []) = pre @ [(p, a)]"
    using Cons.prems by (subst put_level_behind) (auto simp: l ranked_append)
  then show ?case using Cons.IH [of "pre @ [l]"] Cons.prems by (simp add: l)
qed simp

lemma remove_levels_at_end:
  "ranked side (pre @ view) \<Longrightarrow> fold (put_level side) (map (\<lambda>l. (fst l, 0)) view) (pre @ view) = pre"
proof (induction view)
  case (Cons l view)
  obtain p a where l: "l = (p, a)" by (cases l)
  have "put_level side (p, 0) (pre @ l # view) = pre @ view"
    using Cons.prems by (subst put_level_behind) (auto simp: l ranked_append)
  moreover have "ranked side (pre @ view)" using Cons.prems by (fastforce simp: ranked_append l)
  ultimately show ?case using Cons.IH by (simp add: l)
qed simp

lemma take_full: "length xs \<le> n \<Longrightarrow> ys = [] \<or> length xs = n \<Longrightarrow> take n (xs @ ys) = xs"
  by auto

section \<open>Differences of documents\<close>

text \<open>What a book is like: its prices can be read and are ranked, no amount is 0, and it has no more levels than asked for.\<close>

definition good_level :: "('d, 'j) env \<Rightarrow> ('d \<Rightarrow> bool) \<Rightarrow> ('d \<Rightarrow> rat) \<Rightarrow> int \<Rightarrow> 'j \<Rightarrow> bool" where
  "good_level E fin val p unit =
     (case (level_price E unit, level_amount E unit) of
        (Some price, Some amount) \<Rightarrow>
          (case (decimal (mpd E) price 0, decimal (mpd E) amount 0) of
             (Some x, Some y) \<Rightarrow> fin x \<and> fin y \<and> fits p (val x) \<and> ascii price
           | _ \<Rightarrow> False)
      | _ \<Rightarrow> False)"

lemma good_levelE:
  assumes "good_level E fin val p unit"
  obtains price amount x y where "level_price E unit = Some price" "level_amount E unit = Some amount"
    "decimal (mpd E) price 0 = Some x" "decimal (mpd E) amount 0 = Some y" "fin x" "fin y" "fits p (val x)" "ascii price"
    "level_of E val unit = (val x, val y)"
  using assms by (auto simp: good_level_def level_of_def split: option.splits)

definition good_list :: "('d, 'j) env \<Rightarrow> ('d \<Rightarrow> bool) \<Rightarrow> ('d \<Rightarrow> rat) \<Rightarrow> int \<Rightarrow> int \<Rightarrow> 'j list \<Rightarrow> bool" where
  "good_list E fin val p side units \<longleftrightarrow> (\<forall>u\<in>set units. good_level E fin val p u \<and> snd (level_of E val u) \<noteq> 0) \<and>
     ranked side (map (level_of E val) units)"

lemma good_list_Cons:
  "good_list E fin val p side (u # us) \<longleftrightarrow> good_level E fin val p u \<and> snd (level_of E val u) \<noteq> 0 \<and>
     (\<forall>v\<in>set us. of_int side * fst (level_of E val u) < of_int side * fst (level_of E val v)) \<and> good_list E fin val p side us"
  by (auto simp: good_list_def)

definition good_side :: "('d, 'j) env \<Rightarrow> ('d \<Rightarrow> bool) \<Rightarrow> ('d \<Rightarrow> rat) \<Rightarrow> int \<Rightarrow> nat \<Rightarrow> int \<Rightarrow> 'j option \<Rightarrow> bool" where
  "good_side E fin val p limit side list =
     (case list of
        None \<Rightarrow> False
      | Some l \<Rightarrow> json_array_size (json E) l = length (json_items E l) \<and> length (json_items E l) \<le> limit \<and>
          good_list E fin val p side (json_items E l))"

context wire
begin

lemma zero_text: "decimal M ''0'' 0 = Some (mpd_zero M)" "fin (mpd_zero M)" "val (mpd_zero M) = 0"
proof -
  have n: "numeric ''0''" "text_value ''0'' = 0" by code_simp+
  obtain x where x: "mpd_set_string M ''0'' = (x, False)" "fin x" "val x = 0"
    using set_string [OF n(1), of 0] n(2) by (auto simp: fits_0)
  then show "decimal M ''0'' 0 = Some (mpd_zero M)" "fin (mpd_zero M)" "val (mpd_zero M) = 0"
    by (simp_all add: decimal_def mpd_zero_def)
qed

lemma removed_level_good:
  assumes E: "json E = J" "mpd E = M" and s: "decimal M s 0 = Some x" "fin x" "fits p (val x)" "ascii s"
  shows "good_level E fin val p (removed_level E s) \<and> level_of E val (removed_level E s) = (val x, 0)"
proof -
  have "ascii ''0''" by (simp add: ascii_def)
  then show ?thesis using s zero_text E
    by (simp add: good_level_def level_of_def level_price_def level_amount_def removed_level_def string_value)
qed

lemma removed_number_good:
  assumes E: "json E = J" "mpd E = M" and x: "fin x" "fits p (val x)"
  shows "good_level E fin val p (removed_level E (mpd_json_string M x)) \<and>
    level_of E val (removed_level E (mpd_json_string M x)) = (val x, 0)"
proof -
  obtain y where y: "decimal M (mpd_json_string M x) 0 = Some y" "fin y" "val y = val x"
    using decimal_json_string [OF x] by blast
  have "ascii (mpd_json_string M x)" using json_string_numeric [OF x(1)] numeric_ascii by simp
  then show ?thesis using removed_level_good [OF E y(1,2), of p] x(2) y(3) by simp
qed

lemma cmp_side:
  assumes "fin x" "fin y" "side = 1 \<or> side = - 1"
  shows "mpd_cmp M x y * side = 0 \<longleftrightarrow> val x = val y"
    "mpd_cmp M x y * side > 0 \<longleftrightarrow> of_int side * val y < of_int side * val x"
  using assms cmp_eq [of x y] cmp_less [of x y] cmp_greater [of x y] by auto

lemma diff_loop_levels:
  assumes "json E = J" "mpd E = M" "side = 1 \<or> side = - 1"
    "good_list E fin val p side list1" "good_list E fin val p side list2"
    "ranked side (pre @ map (level_of E val) list1)" "ranked side (pre @ map (level_of E val) list2)"
  shows "\<exists>diff rest1 rest2. diff_loop E side list1 list2 = Some (diff, rest1, rest2) \<and>
      (\<forall>u\<in>set diff. good_level E fin val p u) \<and> (rest1 = [] \<or> rest2 = []) \<and> set rest1 \<subseteq> set list1 \<and> set rest2 \<subseteq> set list2 \<and>
      ranked side (pre @ map (level_of E val) (list2 @ rest1)) \<and>
      fold (put_level side) (map (level_of E val) (diff @ rest2)) (pre @ map (level_of E val) list1) =
        pre @ map (level_of E val) (list2 @ rest1)"
  using assms
proof (induction E side list1 list2 arbitrary: pre rule: diff_loop.induct)
  case (1 E side unit1 list1 unit2 list2)
  note E = "1.prems"(1,2) and side = "1.prems"(3)
  note g1 = "1.prems"(4) [unfolded good_list_Cons] and g2 = "1.prems"(5) [unfolded good_list_Cons]
  obtain s1 t1 x1 y1 where u1: "level_price E unit1 = Some s1" "level_amount E unit1 = Some t1"
    "decimal (mpd E) s1 0 = Some x1" "decimal (mpd E) t1 0 = Some y1" "fin x1" "fin y1" "fits p (val x1)" "ascii s1"
    "level_of E val unit1 = (val x1, val y1)" using g1 by (auto elim: good_levelE)
  obtain s2 t2 x2 y2 where u2: "level_price E unit2 = Some s2" "level_amount E unit2 = Some t2"
    "decimal (mpd E) s2 0 = Some x2" "decimal (mpd E) t2 0 = Some y2" "fin x2" "fin y2" "fits p (val x2)" "ascii s2"
    "level_of E val unit2 = (val x2, val y2)" using g2 by (auto elim: good_levelE)
  have l1: "good_list E fin val p side list1" and l2: "good_list E fin val p side list2" using g1 g2 by blast+
  note IH = "1.IH" [OF u1(1-4) u2(1-4) refl]
  note c = cmp_side [OF u1(5) u2(5) side]
  let ?lv = "map (level_of E val)"
  let ?cmp = "mpd_cmp M x1 x2 * side"
  have pre: "\<forall>l\<in>set pre. of_int side * fst l < of_int side * val x1" "\<forall>l\<in>set pre. of_int side * fst l < of_int side * val x2"
    using "1.prems"(6,7) u1(9) u2(9) by (auto simp: ranked_append)
  have head: "put_level side (q, a) (pre @ ?lv (unit1 # list1)) = pre @ put_level side (q, a) ((val x1, val y1) # ?lv list1)"
    if "q = val x1 \<or> q = val x2" for q a using that pre u1(9) by (auto simp: put_level_behind)
  consider (same) "?cmp = 0" | (new) "?cmp > 0" | (gone) "?cmp < 0" by linarith
  then show ?case
  proof cases
    case same
    have n: "mpd_cmp (mpd E) x1 x2 * side = 0" using same E by simp
    have x: "val x1 = val x2" using same c by simp
    have r: "ranked side ((pre @ [(val x2, val y2)]) @ ?lv list1)" "ranked side ((pre @ [(val x2, val y2)]) @ ?lv list2)"
      using "1.prems"(6,7) u1(9) u2(9) x by (auto simp: ranked_append)
    obtain diff rest1 rest2 where d: "diff_loop E side list1 list2 = Some (diff, rest1, rest2)"
      "\<forall>u\<in>set diff. good_level E fin val p u" "rest1 = [] \<or> rest2 = []" "set rest1 \<subseteq> set list1" "set rest2 \<subseteq> set list2"
      "ranked side ((pre @ [(val x2, val y2)]) @ ?lv (list2 @ rest1))"
      "fold (put_level side) (?lv (diff @ rest2)) ((pre @ [(val x2, val y2)]) @ ?lv list1) = (pre @ [(val x2, val y2)]) @ ?lv (list2 @ rest1)"
      using IH(1) [OF n E side l1 l2 r] by (elim exE conjE) (rule that)
    let ?d = "if mpd_cmp M y1 y2 \<noteq> 0 then unit2 # diff else diff"
    have "fold (put_level side) (?lv (?d @ rest2)) (pre @ ?lv (unit1 # list1)) = pre @ ?lv ((unit2 # list2) @ rest1)"
      using d(7) head [of "val x2" "val y2"] g2 u1(6,9) u2(6,9) x cmp_eq [of y1 y2] by auto
    moreover have "diff_loop E side (unit1 # list1) (unit2 # list2) = Some (?d, rest1, rest2)"
      using u1 u2 d(1) n by (simp del: mult_eq_0_iff add: E)
    ultimately show ?thesis using d(2-6) g2 u2(9) by (intro exI [of _ ?d] exI [of _ rest1] exI [of _ rest2]) auto
  next
    case new
    have n: "mpd_cmp (mpd E) x1 x2 * side \<noteq> 0" "mpd_cmp (mpd E) x1 x2 * side > 0" using new E by auto
    have r: "ranked side ((pre @ [(val x2, val y2)]) @ ?lv (unit1 # list1))" "ranked side ((pre @ [(val x2, val y2)]) @ ?lv list2)"
      using "1.prems"(6,7) u1(9) u2(9) new c g1 pre by (auto simp: ranked_append intro: less_trans)
    obtain diff rest1 rest2 where d: "diff_loop E side (unit1 # list1) list2 = Some (diff, rest1, rest2)"
      "\<forall>u\<in>set diff. good_level E fin val p u" "rest1 = [] \<or> rest2 = []" "set rest1 \<subseteq> set (unit1 # list1)" "set rest2 \<subseteq> set list2"
      "ranked side ((pre @ [(val x2, val y2)]) @ ?lv (list2 @ rest1))"
      "fold (put_level side) (?lv (diff @ rest2)) ((pre @ [(val x2, val y2)]) @ ?lv (unit1 # list1)) = (pre @ [(val x2, val y2)]) @ ?lv (list2 @ rest1)"
      using IH(2) [OF n E side "1.prems"(4) l2 r] by (elim exE conjE) (rule that)
    have "fold (put_level side) (?lv ((unit2 # diff) @ rest2)) (pre @ ?lv (unit1 # list1)) = pre @ ?lv ((unit2 # list2) @ rest1)"
    proof -
      have less: "of_int side * val x2 < of_int side * val x1" using new c(2) by blast
      moreover have "val x2 \<noteq> val x1" using less by auto
      moreover have "val y2 \<noteq> 0" using g2 u2(9) by simp
      ultimately have "put_level side (val x2, val y2) (pre @ ?lv (unit1 # list1)) = (pre @ [(val x2, val y2)]) @ ?lv (unit1 # list1)"
        using head [of "val x2" "val y2"] u1(9) by simp
      then show ?thesis using d(7) u2(9) by simp
    qed
    moreover have "diff_loop E side (unit1 # list1) (unit2 # list2) = Some (unit2 # diff, rest1, rest2)"
      using u1 u2 d(1) n by (simp del: mult_eq_0_iff add: E)
    ultimately show ?thesis using d(2-6) g2 u2(9) by (intro exI [of _ "unit2 # diff"] exI [of _ rest1] exI [of _ rest2]) auto
  next
    case gone
    have n: "mpd_cmp (mpd E) x1 x2 * side \<noteq> 0" "\<not> mpd_cmp (mpd E) x1 x2 * side > 0" using gone E by auto
    let ?u = "removed_level E (mpd_json_string M x1)"
    note u = removed_number_good [OF E u1(5,7)]
    have r: "ranked side (pre @ ?lv list1)" using "1.prems"(6) by (auto simp: ranked_append)
    obtain diff rest1 rest2 where d: "diff_loop E side list1 (unit2 # list2) = Some (diff, rest1, rest2)"
      "\<forall>u\<in>set diff. good_level E fin val p u" "rest1 = [] \<or> rest2 = []" "set rest1 \<subseteq> set list1" "set rest2 \<subseteq> set (unit2 # list2)"
      "ranked side (pre @ ?lv ((unit2 # list2) @ rest1))"
      "fold (put_level side) (?lv (diff @ rest2)) (pre @ ?lv list1) = pre @ ?lv ((unit2 # list2) @ rest1)"
      using IH(3) [OF n E side l1 "1.prems"(5) r "1.prems"(7)] by (elim exE conjE) (rule that)
    have "fold (put_level side) (?lv ((?u # diff) @ rest2)) (pre @ ?lv (unit1 # list1)) = pre @ ?lv ((unit2 # list2) @ rest1)"
      using d(7) head [of "val x1" 0] u by simp
    moreover have "diff_loop E side (unit1 # list1) (unit2 # list2) = Some (?u # diff, rest1, rest2)"
      using u1 u2 d(1) n by (simp del: mult_eq_0_iff add: E)
    ultimately show ?thesis using d(2-6) u by (intro exI [of _ "?u # diff"] exI [of _ rest1] exI [of _ rest2]) auto
  qed
qed (simp_all add: good_list_def put_levels_at_end)

text \<open>The removal of what is left of the old list.\<close>

lemma removed_levels_good:
  assumes "json E = J" "mpd E = M" "\<forall>u\<in>set units. good_level E fin val p u"
  shows "\<exists>diff. removed_levels E units = Some diff \<and> (\<forall>u\<in>set diff. good_level E fin val p u) \<and>
    map (level_of E val) diff = map (\<lambda>l. (fst l, 0)) (map (level_of E val) units)"
  using assms(3)
proof (induction units)
  case (Cons u units)
  obtain s t x y where u: "level_price E u = Some s" "level_amount E u = Some t" "decimal M s 0 = Some x" "fin x" "fits p (val x)"
    "ascii s" "level_of E val u = (val x, val y)" using Cons.prems assms(2) by (auto elim: good_levelE)
  show ?case using Cons u(1,2,7) removed_level_good [OF assms(1,2) u(3-6)] by auto
qed simp

lemma items_json_array: "json E = J \<Longrightarrow> json_items E (json_array J us) = us"
  by (auto simp: json_items_def List.map_filter_def comp_def intro!: nth_equalityI)

text \<open>A difference that is put into the old levels gives the new ones; if there is none, nothing has changed.\<close>

lemma good_side_ranked:
  "good_side E fin val p limit side list \<Longrightarrow> \<exists>l. list = Some l \<and> good_list E fin val p side (json_items E l) \<and>
     json_array_size (json E) l = length (json_items E l) \<and> length (json_items E l) \<le> limit"
  by (auto simp: good_side_def split: option.splits)

lemma list_diff_merges:
  assumes E: "json E = J" "mpd E = M" and side: "side = 1 \<or> side = - 1"
    and g1: "good_list E fin val p side (json_items E l1)" "length (json_items E l1) \<le> unat limit"
    and g2: "good_list E fin val p side (json_items E l2)" "length (json_items E l2) \<le> unat limit"
      "json_array_size (json E) l2 = length (json_items E l2)"
  shows "\<exists>us. (get_list_diff E (Some l1) (Some l2) limit side = (if us = [] then None else Some (json_array (json E) us))) \<and>
    merge_levels side (unat limit) (map (level_of E val) us) (map (level_of E val) (json_items E l1)) = map (level_of E val) (json_items E l2)"
proof -
  let ?lv = "map (level_of E val)"
  let ?u1 = "json_items E l1" and ?u2 = "json_items E l2"
  have r: "ranked side ([] @ ?lv ?u1)" "ranked side ([] @ ?lv ?u2)" using g1(1) g2(1) by (simp_all add: good_list_def)
  obtain diff rest1 rest2 where d: "diff_loop E side ?u1 ?u2 = Some (diff, rest1, rest2)"
    "\<forall>u\<in>set diff. good_level E fin val p u" "rest1 = [] \<or> rest2 = []" "set rest1 \<subseteq> set ?u1" "set rest2 \<subseteq> set ?u2"
    "ranked side ([] @ ?lv (?u2 @ rest1))" "fold (put_level side) (?lv (diff @ rest2)) ([] @ ?lv ?u1) = [] @ ?lv (?u2 @ rest1)"
    using diff_loop_levels [OF E side g1(1) g2(1) r] by (elim exE conjE) (rule that)
  have good: "\<forall>u\<in>set rest1. good_level E fin val p u" using d(4) g1(1) by (auto simp: good_list_def)
  obtain removed where rm: "removed_levels E rest1 = Some removed" "?lv removed = map (\<lambda>l. (fst l, 0)) (?lv rest1)"
    using removed_levels_good [OF E good] by blast
  let ?rm = "if length ?u2 < unat limit then removed else []"
  have g: "get_list_diff E (Some l1) (Some l2) limit side =
      (if diff @ ?rm @ rest2 = [] then None else Some (json_array (json E) (diff @ ?rm @ rest2)))"
    using d(1) rm(1) g2(3) by (simp add: get_list_diff_def Let_def)
  have "take (unat limit) (fold (put_level side) (?lv (diff @ ?rm @ rest2)) (?lv ?u1)) = ?lv ?u2"
  proof (cases "length ?u2 < unat limit")
    case True
    have "fold (put_level side) (?lv (diff @ removed @ rest2)) (?lv ?u1) = ?lv ?u2"
    proof (cases "rest1 = []")
      case True
      then show ?thesis using d(7) rm by simp
    next
      case False
      then show ?thesis using d(3,6,7) remove_levels_at_end [of side "?lv ?u2" "?lv rest1"] rm(2) by simp
    qed
    then show ?thesis using True g2(2) by simp
  next
    case False
    then show ?thesis using d(7) g2(2) by simp
  qed
  then show ?thesis using g unfolding merge_levels_def by blast
qed

section \<open>What the client reads\<close>

lemma level_of_eq:
  assumes "json E = J" "eq u u'"
  shows "level_of E val u' = level_of E val u"
  using scalar_eqD(4) [OF array_eqD(3) [OF assms(2), of 0]] scalar_eqD(4) [OF array_eqD(3) [OF assms(2), of 1]] assms(1)
  by (simp add: level_of_def level_price_def level_amount_def)

lemma items_levels_eq:
  assumes "json E = J" "eq l l'"
  shows "map (level_of E val) (json_items E l') = map (level_of E val) (json_items E l)"
proof -
  have "map (level_of E val) (List.map_filter (json_array_get J l') is) = map (level_of E val) (List.map_filter (json_array_get J l) is)" for "is"
  proof (induction "is")
    case (Cons i "is")
    then show ?case using array_eqD(3) [OF assms(2), of i] level_of_eq [OF assms(1)]
      by (cases "json_array_get J l i"; cases "json_array_get J l' i") (auto simp: map_filter_simps)
  qed (simp add: map_filter_simps)
  then show ?thesis using array_eqD(2) [OF assms(2)] assms(1) by (simp add: json_items_def)
qed

lemma levels_eq:
  assumes "json E = J" "eq doc doc'"
  shows "levels E val doc' name = levels E val doc name"
  using object [OF assms(2), of name] items_levels_eq [OF assms(1)] assms(1)
  by (cases "json_object_get J doc name"; cases "json_object_get J doc' name") (auto simp: levels_def)

lemma notify_text:
  assumes E: "json E = J" and m: "ascii m" and d: "\<forall>ms. json_dumps J (json_object J ms) 0 \<noteq> None"
  shows "\<exists>text msg params'. send_notify E ses m params = [Send ses text] \<and> json_loadb J text = Some msg \<and>
    (\<exists>name. json_object_get J msg ''method'' = Some name \<and> json_string_value J (Some name) = Some m) \<and>
    json_object_get J msg ''params'' = Some params' \<and> eq params params'"
proof -
  let ?ms = "[(''method'', json_string J m), (''params'', params), (''id'', json_null J)]"
  obtain tx where t: "json_dumps J (json_object J ?ms) 0 = Some tx" using d by blast
  obtain msg where msg: "json_loadb J tx = Some msg" "eq (json_object J ?ms) msg" using loads [OF t] by blast
  have get: "rel_option eq (map_of ?ms k) (json_object_get J msg k)" for k
    using object [OF msg(2), of k] member [of ?ms k] by simp
  obtain name where "json_object_get J msg ''method'' = Some name" "eq (json_string J m) name"
    using get [of "''method''"] by (auto simp: option_rel_Some1)
  then have "\<exists>name. json_object_get J msg ''method'' = Some name \<and> json_string_value J (Some name) = Some m"
    using scalar_eqD(4) [of "Some (json_string J m)" "Some name"] string_value [OF m] by simp
  moreover obtain params' where "json_object_get J msg ''params'' = Some params'" "eq params params'"
    using get [of "''params''"] by (auto simp: option_rel_Some1)
  ultimately show ?thesis using t msg(1) E by (auto simp: send_notify_def send_json_def Let_def)
qed

text \<open>The document that arrives is the one that was sent.\<close>

lemma depth_update_text:
  assumes E: "json E = J" and d: "\<forall>ms. json_dumps J (json_object J ms) 0 \<noteq> None"
  shows "\<exists>text. send_notify E ses ''depth.update'' (depth_update_params E clean doc market) = [Send ses text] \<and>
    (\<forall>c. client_message E val text c =
      (if clean then c\<lparr>cl_asks := levels E val doc ''asks'', cl_bids := levels E val doc ''bids''\<rparr>
       else c\<lparr>cl_asks := merge_levels 1 (cl_limit c) (levels E val doc ''asks'') (cl_asks c),
              cl_bids := merge_levels (- 1) (cl_limit c) (levels E val doc ''bids'') (cl_bids c)\<rparr>))"
proof -
  let ?p = "depth_update_params E clean doc market"
  have "ascii ''depth.update''" by (simp add: ascii_def)
  from notify_text [OF E this d, of ses ?p] obtain tx msg params' where t: "send_notify E ses ''depth.update'' ?p = [Send ses tx]"
    "json_loadb J tx = Some msg" "\<exists>name. json_object_get J msg ''method'' = Some name \<and> json_string_value J (Some name) = Some ''depth.update''"
    "json_object_get J msg ''params'' = Some params'" "eq ?p params'" by blast
  have clean: "json_is_true J (json_array_get J params' 0) = clean"
    using value_eq [OF array_eqD(3) [OF t(5), of 0]] E by (simp add: depth_update_params_def boolean)
  obtain doc' where doc': "json_array_get J params' 1 = Some doc'" "eq doc doc'"
    using array_eqD(3) [OF t(5), of 1] E by (auto simp: depth_update_params_def option_rel_Some1)
  have "client_message E val tx c =
      (if clean then c\<lparr>cl_asks := levels E val doc ''asks'', cl_bids := levels E val doc ''bids''\<rparr>
       else c\<lparr>cl_asks := merge_levels 1 (cl_limit c) (levels E val doc ''asks'') (cl_asks c),
              cl_bids := merge_levels (- 1) (cl_limit c) (levels E val doc ''bids'') (cl_bids c)\<rparr>)" for c
    using t(2-4) doc'(1) clean levels_eq [OF E doc'(2)] E by (auto simp: client_message_def check_def)
  then show ?thesis using t(1) by blast
qed

text \<open>Sending a difference of two good books turns the levels of one into those of the other.\<close>

lemma depth_diff_levels:
  assumes E: "json E = J" "mpd E = M"
    and g: "good_side E fin val p (unat limit) 1 (json_object_get J first ''asks'')"
      "good_side E fin val p (unat limit) (- 1) (json_object_get J first ''bids'')"
      "good_side E fin val p (unat limit) 1 (json_object_get J second ''asks'')"
      "good_side E fin val p (unat limit) (- 1) (json_object_get J second ''bids'')"
  shows "case get_depth_diff E first second limit of
      None \<Rightarrow> levels E val second ''asks'' = levels E val first ''asks'' \<and> levels E val second ''bids'' = levels E val first ''bids''
    | Some diff \<Rightarrow>
        merge_levels 1 (unat limit) (levels E val diff ''asks'') (levels E val first ''asks'') = levels E val second ''asks'' \<and>
        merge_levels (- 1) (unat limit) (levels E val diff ''bids'') (levels E val first ''bids'') = levels E val second ''bids''"
proof -
  obtain a1 b1 a2 b2 where o: "json_object_get J first ''asks'' = Some a1" "json_object_get J first ''bids'' = Some b1"
    "json_object_get J second ''asks'' = Some a2" "json_object_get J second ''bids'' = Some b2"
    using g by (auto simp: good_side_def split: option.splits)
  note S = good_side_def o option.case E
  have a: "good_list E fin val p 1 (json_items E a1)" "length (json_items E a1) \<le> unat limit"
    "good_list E fin val p 1 (json_items E a2)" "length (json_items E a2) \<le> unat limit"
    "json_array_size (json E) a2 = length (json_items E a2)"
    using g(1,3) by (simp_all add: S)
  have b: "good_list E fin val p (- 1) (json_items E b1)" "length (json_items E b1) \<le> unat limit"
    "good_list E fin val p (- 1) (json_items E b2)" "length (json_items E b2) \<le> unat limit"
    "json_array_size (json E) b2 = length (json_items E b2)"
    using g(2,4) by (simp_all add: S)
  obtain us where us: "get_list_diff E (Some a1) (Some a2) limit 1 = (if us = [] then None else Some (json_array J us))"
    "merge_levels 1 (unat limit) (map (level_of E val) us) (map (level_of E val) (json_items E a1)) = map (level_of E val) (json_items E a2)"
    using list_diff_merges [OF E _ a] E by auto
  obtain vs where vs: "get_list_diff E (Some b1) (Some b2) limit (- 1) = (if vs = [] then None else Some (json_array J vs))"
    "merge_levels (- 1) (unat limit) (map (level_of E val) vs) (map (level_of E val) (json_items E b1)) = map (level_of E val) (json_items E b2)"
    using list_diff_merges [OF E _ b] E by auto
  have none: "merge_levels side (unat limit) [] (map (level_of E val) (json_items E l)) = map (level_of E val) (json_items E l)"
    if "length (json_items E l) \<le> unat limit" for side l using that by (simp add: merge_levels_def)
  show ?thesis
    using us vs none [of a1 1] none [of b1 "- 1"] a(2) b(2) o E items_json_array [of E us] items_json_array [of E vs]
      member [of "[(''asks'', json_array J us), (''bids'', json_array J vs)]"] member [of "[(''asks'', json_array J us)]"]
      member [of "[(''bids'', json_array J vs)]"]
    by (cases "us = []"; cases "vs = []") (simp_all add: get_depth_diff_def levels_def)
qed

text \<open>A reply is no message about a book.\<close>

lemma reply_ignored:
  assumes E: "json E = J" and d: "\<forall>ms. json_dumps J (json_object J ms) 0 \<noteq> None"
    and ms: "distinct (map fst ms)" "map_of ms ''method'' = None"
  shows "\<exists>text. send_json E ses (json_object J ms) = [Send ses text] \<and> (\<forall>c. client_message E val text c = c)"
proof -
  obtain tx where t: "json_dumps J (json_object J ms) 0 = Some tx" using d by blast
  obtain msg where msg: "json_loadb J tx = Some msg" "eq (json_object J ms) msg" using loads [OF t] by blast
  have "json_object_get J msg ''method'' = None" using object [OF msg(2), of "''method''"] member [OF ms(1)] ms(2) by simp
  then show ?thesis using t msg(1) E by (simp add: send_json_def client_message_def)
qed

end

end
