(* ===== verification/Example_Push.thy ===== *)
theory Example_Push
  imports Push Wire Example_Market
begin

text \<open>Inputs for the witnesses about the push server: settings, packets of answers, and rules to compute with the concrete documents.\<close>

lemma jv_select:
  "json_is_array jv_ops = jv_is_array" "json_array_size jv_ops (JArr xs) = length xs"
  "json_array_get jv_ops (JArr xs) i = (if i < length xs then Some (xs ! i) else None)"
  "json_object_get jv_ops (JObj ms) k = map_of ms k" "json_object_get jv_ops (JArr xs) k = None"
  "json_is_integer jv_ops (Some (JInt n))" "json_integer_value jv_ops (Some (JInt n)) = n"
  "json_is_string jv_ops (Some (JStr s))" "json_string_value jv_ops (Some (JStr s)) = Some s"
  "json_is_null jv_ops x = (x = Some JNull)" "json_is_true jv_ops x = (x = Some (JBool True))"
  "json_null jv_ops = JNull" "json_boolean jv_ops = JBool" "json_integer jv_ops = JInt" "json_string jv_ops = JStr"
  "json_array jv_ops = JArr" "json_object jv_ops = JObj" "json_dumps jv_ops v flags = Some (show_jv v)"
  by (simp_all add: jv_ops_def)

lemma jv_loadb: "json_loadb jv_ops (show_jv v) = Some v"
  using jv_round_trip [of v 0] by (simp add: jv_select)

lemma push_env [simp]: "json ex_env = jv_ops"
  by (simp add: ex_env_def)

definition ex_push :: "dec push_settings" where
  "ex_push = \<lparr>depth_limit = [2], depth_merge = [Dec 0 0], kline_span = 4, cache_timeout = 0\<rparr>"

text \<open>The answer to the request with a number.\<close>

definition ex_answer :: "u32 \<Rightarrow> u32 \<Rightarrow> jv \<Rightarrow> rpc_pkg" where
  "ex_answer cmd q v =
     (let body = show_jv (JObj [(''error'', JNull), (''result'', v), (''id'', JInt 0)])
      in \<lparr>magic = 0, command = cmd, pkg_type = 1, pkg_result = 0, pkg_crc32 = 0, pkg_sequence = q, req_id = 0,
        body_size = word_of_nat (length body), ext_size = 0, pkg_ext = [], pkg_body = text_bytes body\<rparr>)"

lemma ex_answer:
  assumes "length (show_jv (JObj [(''error'', JNull), (''result'', v), (''id'', JInt 0)])) < 2 ^ 32"
  shows "pkg_text (ex_answer cmd q v) = show_jv (JObj [(''error'', JNull), (''result'', v), (''id'', JInt 0)])"
    "command (ex_answer cmd q v) = cmd" "pkg_sequence (ex_answer cmd q v) = q"
proof -
  show "pkg_text (ex_answer cmd q v) = show_jv (JObj [(''error'', JNull), (''result'', v), (''id'', JInt 0)])"
    using assms by (simp add: ex_answer_def pkg_text_def Let_def unat_of_nat del: show_jv.simps)
qed (simp_all add: ex_answer_def Let_def)

text \<open>Numbers of requests.\<close>

lemma next_number: "(i :: u32) + 1 \<noteq> 0 \<Longrightarrow> \<not> taken (i + 1) \<Longrightarrow> get_available_id taken i = Some (i + 1)"
  by (subst get_available_id.simps) simp

end
