(* ===== verification/Depth_Views.thy ===== *)
theory Depth_Views
  imports Push_Depth Example_Push
begin

text \<open>
  The order books of the push server over whole runs: clients subscribe and leave, the timer asks
  the matching engine, answers come or do not come. Every subscribed client that follows the
  protocol then sees exactly the book of the last answer.
\<close>

section \<open>Runs\<close>

text \<open>
  The world: the service, what every client has made of its messages, and the last answer of the
  engine for every book. A client takes over the limit of its last accepted request.
\<close>

record 'j depth_world =
  dw_topic :: "'j depth"
  dw_client :: "ses \<Rightarrow> client"
  dw_answer :: "depth_key \<Rightarrow> 'j option"

datatype 'j depth_event = Watch ses u64 'j | Unwatch ses u64 | Leave ses bool | Tick "depth_key list" | Answer int rpc_pkg | Expire u32

fun depth_step ::
  "('d, 'j) env \<Rightarrow> 'd push_settings \<Rightarrow> (ses list \<Rightarrow> ses list) \<Rightarrow> 'j depth_event \<Rightarrow> 'j depth \<Rightarrow> ('j depth \<times> push_action list) option" where
  "depth_step E st walk (Watch ses i params) tp = Some (on_method_depth_subscribe E st ses i params tp)"
| "depth_step E st walk (Unwatch ses i) tp = Some (on_method_depth_unsubscribe E ses i tp)"
| "depth_step E st walk (Leave ses found) tp = Some (depth_unsubscribe found ses tp, [])"
| "depth_step E st walk (Tick keys) tp = depth_on_timer E keys tp"
| "depth_step E st walk (Answer now pkg) tp = depth_recv_pkg E walk now pkg tp"
| "depth_step E st walk (Expire i) tp = Some (topic_timeout i tp, [])"

fun deliver :: "('d, 'j) env \<Rightarrow> ('d \<Rightarrow> rat) \<Rightarrow> push_action list \<Rightarrow> (ses \<Rightarrow> client) \<Rightarrow> ses \<Rightarrow> client" where
  "deliver E val [] cs = cs"
| "deliver E val (Send ses text # out) cs = deliver E val out (cs(ses := client_message E val text (cs ses)))"
| "deliver E val (action # out) cs = deliver E val out cs"

fun take_limit :: "('d, 'j) env \<Rightarrow> 'd push_settings \<Rightarrow> 'j depth_event \<Rightarrow> (ses \<Rightarrow> client) \<Rightarrow> ses \<Rightarrow> client" where
  "take_limit E st (Watch ses i params) cs =
     (case depth_request E params of
        None \<Rightarrow> cs
      | Some (market, limit, interval) \<Rightarrow>
          if is_good_limit st (sint limit) \<and> is_good_interval E st interval then cs(ses := (cs ses)\<lparr>cl_limit := unat limit\<rparr>) else cs)"
| "take_limit E st e cs = cs"

text \<open>The book a packet brings, if it answers a request for one that somebody may still watch.\<close>

definition answer_of :: "('d, 'j) env \<Rightarrow> 'j depth \<Rightarrow> rpc_pkg \<Rightarrow> (depth_key \<times> 'j) option" where
  "answer_of E tp pkg =
     do { key \<leftarrow> pn_map (tp_state tp) (pkg_sequence pkg);
          reply \<leftarrow> json_loadb (json E) (pkg_text pkg);
          error \<leftarrow> json_object_get (json E) reply ''error'';
          check (json_is_null (json E) (Some error));
          result \<leftarrow> json_object_get (json E) reply ''result'';
          check (command pkg = CMD_ORDER_BOOK_DEPTH);
          entry \<leftarrow> tp_dict tp key;
          Some (key, result) }"

fun take_answer :: "('d, 'j) env \<Rightarrow> 'j depth \<Rightarrow> 'j depth_event \<Rightarrow> (depth_key \<Rightarrow> 'j option) \<Rightarrow> depth_key \<Rightarrow> 'j option" where
  "take_answer E tp (Answer now pkg) answers =
     (case answer_of E tp pkg of None \<Rightarrow> answers | Some (key, result) \<Rightarrow> answers(key := Some result))"
| "take_answer E tp e answers = answers"

definition world_step ::
  "('d, 'j) env \<Rightarrow> 'd push_settings \<Rightarrow> ('d \<Rightarrow> rat) \<Rightarrow> (ses list \<Rightarrow> ses list) \<Rightarrow> 'j depth_event \<Rightarrow> 'j depth_world \<Rightarrow> 'j depth_world option" where
  "world_step E st val walk e W =
     map_option (\<lambda>(tp, out). \<lparr>dw_topic = tp, dw_client = deliver E val out (take_limit E st e (dw_client W)),
         dw_answer = take_answer E (dw_topic W) e (dw_answer W)\<rparr>)
       (depth_step E st walk e (dw_topic W))"

fun depth_run ::
  "('d, 'j) env \<Rightarrow> 'd push_settings \<Rightarrow> ('d \<Rightarrow> rat) \<Rightarrow> (ses list \<Rightarrow> ses list) \<Rightarrow> 'j depth_event list \<Rightarrow> 'j depth_world \<Rightarrow> 'j depth_world option" where
  "depth_run E st val walk [] W = Some W"
| "depth_run E st val walk (e # es) W = (case world_step E st val walk e W of None \<Rightarrow> None | Some W \<Rightarrow> depth_run E st val walk es W)"

definition init_world :: "'j depth_world" where
  "init_world = \<lparr>dw_topic = init_topic, dw_client = (\<lambda>_. \<lparr>cl_limit = 0, cl_asks = [], cl_bids = []\<rparr>), dw_answer = Map.empty\<rparr>"

text \<open>What is expected of the engine: its answers are books with at most as many levels as asked for.\<close>

definition good_book :: "('d, 'j) env \<Rightarrow> ('d \<Rightarrow> bool) \<Rightarrow> ('d \<Rightarrow> rat) \<Rightarrow> int \<Rightarrow> depth_key \<Rightarrow> 'j \<Rightarrow> bool" where
  "good_book E fin val p key book \<longleftrightarrow>
     good_side E fin val p (unat (snd (snd key))) 1 (json_object_get (json E) book ''asks'') \<and>
     good_side E fin val p (unat (snd (snd key))) (- 1) (json_object_get (json E) book ''bids'')"

fun answers_ok ::
  "('d, 'j) env \<Rightarrow> 'd push_settings \<Rightarrow> ('d \<Rightarrow> bool) \<Rightarrow> ('d \<Rightarrow> rat) \<Rightarrow> int \<Rightarrow> (ses list \<Rightarrow> ses list) \<Rightarrow> 'j depth_event list \<Rightarrow> 'j depth_world \<Rightarrow> bool" where
  "answers_ok E st fin val p walk [] W = True"
| "answers_ok E st fin val p walk (e # es) W =
     ((case e of
         Answer now pkg \<Rightarrow> (case answer_of E (dw_topic W) pkg of None \<Rightarrow> True | Some (key, book) \<Rightarrow> good_book E fin val p key book)
       | _ \<Rightarrow> True) \<and>
      (case world_step E st val walk e W of None \<Rightarrow> True | Some W \<Rightarrow> answers_ok E st fin val p walk es W))"

section \<open>The invariant\<close>

definition sees :: "('d, 'j) env \<Rightarrow> ('d \<Rightarrow> rat) \<Rightarrow> 'j \<Rightarrow> client \<Rightarrow> bool" where
  "sees E val book c \<longleftrightarrow> cl_asks c = levels E val book ''asks'' \<and> cl_bids c = levels E val book ''bids''"

text \<open>The part of the invariant about one entry, and the whole.\<close>

definition watched_ok ::
  "('d, 'j) env \<Rightarrow> ('d \<Rightarrow> bool) \<Rightarrow> ('d \<Rightarrow> rat) \<Rightarrow> int \<Rightarrow> (ses \<Rightarrow> client) \<Rightarrow> 'j option \<Rightarrow> depth_key \<Rightarrow> ses list \<Rightarrow> 'j option \<Rightarrow> bool" where
  "watched_ok E fin val p cs answer key sessions latest \<longleftrightarrow>
     distinct sessions \<and> (\<forall>s\<in>set sessions. cl_limit (cs s) = unat (snd (snd key))) \<and>
     (case latest of
        None \<Rightarrow> True
      | Some book \<Rightarrow> good_book E fin val p key book \<and> (\<forall>s\<in>set sessions. sees E val book (cs s)) \<and>
          (case answer of None \<Rightarrow> False
           | Some a \<Rightarrow> levels E val a ''asks'' = levels E val book ''asks'' \<and> levels E val a ''bids'' = levels E val book ''bids''))"

definition depth_inv ::
  "('d, 'j) env \<Rightarrow> ('d \<Rightarrow> bool) \<Rightarrow> ('d \<Rightarrow> rat) \<Rightarrow> int \<Rightarrow> (depth_key \<rightharpoonup> ses list \<times> 'j depth_val) \<Rightarrow> (ses \<Rightarrow> client) \<Rightarrow> (depth_key \<Rightarrow> 'j option) \<Rightarrow> bool" where
  "depth_inv E fin val p D cs answers \<longleftrightarrow>
     (\<forall>key sessions latest t. D key = Some (sessions, latest, t) \<longrightarrow> watched_ok E fin val p cs (answers key) key sessions latest) \<and>
     (\<forall>s key key' S S' v v'. D key = Some (S, v) \<longrightarrow> D key' = Some (S', v') \<longrightarrow> s \<in> set S \<longrightarrow> s \<in> set S' \<longrightarrow> key = key')"

lemma depth_invI:
  assumes "\<And>key sessions latest t. D key = Some (sessions, latest, t) \<Longrightarrow> watched_ok E fin val p cs (answers key) key sessions latest"
    and "\<And>s key key' S S' v v'. D key = Some (S, v) \<Longrightarrow> D key' = Some (S', v') \<Longrightarrow> s \<in> set S \<Longrightarrow> s \<in> set S' \<Longrightarrow> key = key'"
  shows "depth_inv E fin val p D cs answers"
  using assms unfolding depth_inv_def by blast

lemma depth_invD:
  assumes "depth_inv E fin val p D cs answers"
  shows "D key = Some (sessions, latest, t) \<Longrightarrow> watched_ok E fin val p cs (answers key) key sessions latest"
    and "D key = Some (S, v) \<Longrightarrow> D key' = Some (S', v') \<Longrightarrow> s \<in> set S \<Longrightarrow> s \<in> set S' \<Longrightarrow> key = key'"
  using assms unfolding depth_inv_def by blast+

lemma watched_ok_mono:
  assumes "watched_ok E fin val p cs answer key sessions latest" "distinct S" "set S \<subseteq> set sessions" "\<And>s. s \<in> set S \<Longrightarrow> cs' s = cs s"
  shows "watched_ok E fin val p cs' answer key S latest"
  using assms by (auto simp: watched_ok_def subset_iff split: option.splits)

text \<open>An entry may go.\<close>

lemma depth_inv_drop:
  assumes inv: "depth_inv E fin val p D cs answers" and D: "\<And>k. D' k = D k \<or> D' k = None"
  shows "depth_inv E fin val p D' cs answers"
proof (rule depth_invI)
  fix key sessions latest t
  assume "D' key = Some (sessions, latest, t)"
  then have "D key = Some (sessions, latest, t)" using D [of key] by auto
  then show "watched_ok E fin val p cs (answers key) key sessions latest" by (rule depth_invD(1) [OF inv])
next
  fix s key key' S S' v v'
  assume "D' key = Some (S, v)" "D' key' = Some (S', v')" "s \<in> set S" "s \<in> set S'"
  then have "D key = Some (S, v)" "D key' = Some (S', v')" "s \<in> set S" "s \<in> set S'" using D [of key] D [of key'] by auto
  then show "key = key'" by (rule depth_invD(2) [OF inv])
qed

text \<open>A session may go, and what it sees then does not matter.\<close>

lemma depth_inv_unsubscribe:
  assumes inv: "depth_inv E fin val p (tp_dict tp) cs answers" and cs: "\<And>s. s \<noteq> ses \<Longrightarrow> cs' s = cs s" "found \<or> cs' ses = cs ses"
  shows "depth_inv E fin val p (tp_dict (depth_unsubscribe found ses tp)) cs' answers"
proof (rule depth_invI)
  fix key sessions latest t
  assume "tp_dict (depth_unsubscribe found ses tp) key = Some (sessions, latest, t)"
  then obtain S where S: "tp_dict tp key = Some (S, latest, t)" "sessions = (if found then removeAll ses S else S)"
    by (auto simp: depth_unsubscribe_def topic_unsubscribe_dict)
  note ok = depth_invD(1) [OF inv S(1)]
  have same: "cs' s = cs s" if "s \<in> set sessions" for s
    using that S(2) cs by (cases "s = ses") (auto split: if_splits)
  show "watched_ok E fin val p cs' (answers key) key sessions latest"
    using ok by (rule watched_ok_mono) (use ok same S(2) in \<open>auto simp: watched_ok_def distinct_removeAll split: if_splits\<close>)
next
  fix s key key' S S' v v'
  assume "tp_dict (depth_unsubscribe found ses tp) key = Some (S, v)" "tp_dict (depth_unsubscribe found ses tp) key' = Some (S', v')"
    "s \<in> set S" "s \<in> set S'"
  then obtain T T' where "tp_dict tp key = Some (T, v)" "tp_dict tp key' = Some (T', v')" "s \<in> set T" "s \<in> set T'"
    by (auto simp: depth_unsubscribe_def topic_unsubscribe_dict split: if_splits)
  then show "key = key'" by (rule depth_invD(2) [OF inv])
qed

lemma unsubscribed: "tp_dict (depth_unsubscribe True ses tp) key = Some (S, v) \<Longrightarrow> ses \<notin> set S"
  by (auto simp: depth_unsubscribe_def topic_unsubscribe_dict)

section \<open>Every step keeps the invariant\<close>

lemma deliver_append: "deliver E val (a @ b) cs = deliver E val b (deliver E val a cs)"
  by (induction E val a cs rule: deliver.induct) (simp_all del: fun_upd_apply)

text \<open>One message for each of some sessions.\<close>

lemma deliver_all:
  assumes "distinct ss" "\<forall>s\<in>set ss. \<exists>text. send s = [Send s text] \<and> (\<forall>c. client_message E val text c = f c)"
  shows "deliver E val (concat (map send ss)) cs = (\<lambda>s. if s \<in> set ss then f (cs s) else cs s)"
  using assms
proof (induction ss arbitrary: cs)
  case (Cons s ss)
  then obtain tx where "send s = [Send s tx]" "\<forall>c. client_message E val tx c = f c" by auto
  then show ?case using Cons by auto
qed simp

text \<open>A new subscriber that sees the book, if there is one.\<close>

lemma depth_inv_subscribe:
  assumes inv: "depth_inv E fin val p D cs answers" and new: "\<And>k S v. D k = Some (S, v) \<Longrightarrow> ses \<notin> set S"
    and e: "(case D key of None \<Rightarrow> ([], None, 0) | Some e \<Rightarrow> e) = (S, latest, t)"
    and cs: "\<And>s. s \<noteq> ses \<Longrightarrow> cs' s = cs s" "cl_limit (cs' ses) = unat (snd (snd key))"
      "\<And>book. latest = Some book \<Longrightarrow> sees E val book (cs' ses)"
  shows "depth_inv E fin val p (D(key \<mapsto> (ses_add ses S, latest, t))) cs' answers"
proof (rule depth_invI)
  have ok: "watched_ok E fin val p cs (answers key) key S latest"
  proof (cases "D key")
    case None
    then show ?thesis using e by (auto simp: watched_ok_def)
  next
    case (Some x)
    then show ?thesis using e depth_invD(1) [OF inv, of key] by simp
  qed
  have notin: "ses \<notin> set S" using e new [of key S "(latest, t)"] by (auto split: option.splits)
  fix k sessions l u
  assume k: "(D(key \<mapsto> (ses_add ses S, latest, t))) k = Some (sessions, l, u)"
  show "watched_ok E fin val p cs' (answers k) k sessions l"
  proof (cases "k = key")
    case True
    then have eqs: "sessions = ses # S" "l = latest" using k notin by (auto simp: ses_add_def)
    have "\<forall>s\<in>set S. cs' s = cs s" using notin cs(1) by metis
    then show ?thesis using ok cs(2,3) notin unfolding eqs True watched_ok_def by (auto split: option.splits)
  next
    case False
    then have k: "D k = Some (sessions, l, u)" using k by simp
    have w: "watched_ok E fin val p cs (answers k) k sessions l" by (rule depth_invD(1) [OF inv k])
    have same: "\<And>s. s \<in> set sessions \<Longrightarrow> cs' s = cs s" using new [OF k] cs(1) by metis
    have "distinct sessions" using w by (simp add: watched_ok_def)
    then show ?thesis using watched_ok_mono [OF w _ order_refl same] by blast
  qed
next
  fix s k k' T T' v v'
  assume a: "(D(key \<mapsto> (ses_add ses S, latest, t))) k = Some (T, v)" "(D(key \<mapsto> (ses_add ses S, latest, t))) k' = Some (T', v')"
    "s \<in> set T" "s \<in> set T'"
  have old: "D key = Some (S, latest, t)" if "s \<in> set S" using that e by (auto split: option.splits)
  have other: False if "x \<noteq> key" "D x = Some (U, w)" "s \<in> set U" "s \<in> set (ses_add ses S)" for x U w
  proof -
    have "s \<in> set S" using that(4) new [OF that(2)] that(3) by auto
    then show False using depth_invD(2) [OF inv that(2) old that(3)] that(1) by blast
  qed
  show "k = k'"
  proof (cases "k = key \<or> k' = key")
    case True
    then show ?thesis using a other [of k T v] other [of k' T' v'] by (auto split: if_splits)
  next
    case False
    then show ?thesis using a depth_invD(2) [OF inv, of k T v k' T' v' s] by simp
  qed
qed

lemma depth_recv_none:
  assumes "depth_recv_pkg E walk now pkg tp = Some (tp', out)" "answer_of E tp pkg = None"
  shows "out = [] \<and> (\<forall>k. tp_dict tp' k = tp_dict tp k \<or> tp_dict tp' k = None)"
  using assms
  by (auto simp: depth_recv_pkg_def topic_recv_pkg_def answer_of_def check_def Let_def split: option.splits if_splits Option.bind_splits)

lemma depth_recv_some:
  assumes "depth_recv_pkg E walk now pkg tp = Some (tp', out)" "answer_of E tp pkg = Some (key, result)"
  shows "\<exists>S v v'. tp_dict tp key = Some (S, v) \<and> on_market_depth_reply E walk now key result S v = (v', out) \<and>
    tp_dict tp' = (tp_dict tp)(key \<mapsto> (S, v'))"
  using assms
  by (auto simp: depth_recv_pkg_def topic_recv_pkg_def answer_of_def check_def Let_def
      split: option.splits if_splits Option.bind_splits prod.splits)

context wire
begin

lemma send_error_ignored:
  assumes E: "json E = J" and d: "\<forall>ms. json_dumps J (json_object J ms) 0 \<noteq> None"
  shows "deliver E val (send_error_invalid_argument E ses i) cs = cs" "deliver E val (send_success E ses i) cs = cs"
proof -
  obtain t1 where "send_error_invalid_argument E ses i = [Send ses t1] \<and> (\<forall>c. client_message E val t1 c = c)"
    using reply_ignored [OF E d, of "[(''error'', json_object J [(''code'', json_integer J 1), (''message'', json_string J ''invalid argument'')]),
      (''result'', json_null J), (''id'', json_integer J (sint i))]" ses] E
    by (auto simp: send_error_invalid_argument_def send_error_def Let_def)
  then show "deliver E val (send_error_invalid_argument E ses i) cs = cs" by simp
  obtain t2 where "send_success E ses i = [Send ses t2] \<and> (\<forall>c. client_message E val t2 c = c)"
    using reply_ignored [OF E d, of "[(''error'', json_null J), (''result'', json_object J [(''status'', json_string J ''success'')]),
      (''id'', json_integer J (sint i))]" ses] E
    by (auto simp: send_success_def send_result_def Let_def)
  then show "deliver E val (send_success E ses i) cs = cs" by simp
qed

lemma clean_book_seen:
  assumes E: "json E = J" and d: "\<forall>ms. json_dumps J (json_object J ms) 0 \<noteq> None"
  shows "\<exists>c. deliver E val (send_notify E ses ''depth.update'' (depth_update_params E True book market)) cs = cs(ses := c) \<and>
    sees E val book c \<and> cl_limit c = cl_limit (cs ses)"
proof -
  obtain tx where t: "send_notify E ses ''depth.update'' (depth_update_params E True book market) = [Send ses tx]"
    "\<forall>c. client_message E val tx c = c\<lparr>cl_asks := levels E val book ''asks'', cl_bids := levels E val book ''bids''\<rparr>"
    using depth_update_text [OF E d, of ses True book market] by auto
  then show ?thesis by (auto simp: sees_def)
qed

lemma watch_inv:
  assumes E: "json E = J" and d: "\<forall>ms. json_dumps J (json_object J ms) 0 \<noteq> None"
    and inv: "depth_inv E fin val p (tp_dict tp) cs answers"
    and step: "on_method_depth_subscribe E st ses i params tp = (tp', out)"
  shows "depth_inv E fin val p (tp_dict tp') (deliver E val out (take_limit E st (Watch ses i params) cs)) answers"
proof (cases "depth_request E params")
  case None
  then show ?thesis using step inv send_error_ignored [OF E d] by (auto simp: on_method_depth_subscribe_def)
next
  case (Some r)
  obtain market limit interval where r: "r = (market, limit, interval)" by (cases r)
  let ?u = "depth_unsubscribe True ses tp" and ?k = "depth_key market limit interval"
  show ?thesis
  proof (cases "is_good_limit st (sint limit) \<and> is_good_interval E st interval")
    case False
    then have "tp' = ?u" "out = send_error_invalid_argument E ses i"
      using step Some r by (auto simp: on_method_depth_subscribe_def depth_subscribe_def split: if_splits)
    moreover have "take_limit E st (Watch ses i params) cs = cs" using False Some r by auto
    ultimately show ?thesis using depth_inv_unsubscribe [OF inv, of ses cs True] send_error_ignored [OF E d] by simp
  next
    case True
    let ?cs = "cs(ses := (cs ses)\<lparr>cl_limit := unat limit\<rparr>)"
    obtain S latest t where e: "(case tp_dict ?u ?k of None \<Rightarrow> ([], None, 0) | Some e \<Rightarrow> e) = (S, latest, t)"
      by (metis surj_pair)
    have tp': "tp_dict tp' = (tp_dict ?u)(?k \<mapsto> (ses_add ses S, latest, t))"
      using step Some r True e by (auto simp: on_method_depth_subscribe_def depth_subscribe_def topic_subscribe_def Let_def)
    have out: "out = send_success E ses i @ depth_send_clean E ses market limit interval tp'"
      using step Some r True by (auto simp: on_method_depth_subscribe_def depth_subscribe_def)
    have lim: "take_limit E st (Watch ses i params) cs = ?cs" using Some r True by simp
    have u: "depth_inv E fin val p (tp_dict ?u) ?cs answers" by (rule depth_inv_unsubscribe [OF inv]) simp_all
    have clean: "\<exists>c. deliver E val out ?cs = ?cs(ses := c) \<and> cl_limit c = unat limit \<and> (\<forall>book. latest = Some book \<longrightarrow> sees E val book c)"
    proof (cases latest)
      case None
      then have "deliver E val out ?cs = ?cs(ses := ?cs ses)"
        using send_error_ignored(2) [OF E d] out tp' by (simp add: depth_send_clean_def deliver_append)
      moreover have "cl_limit (?cs ses) = unat limit" by simp
      ultimately show ?thesis using None by blast
    next
      case (Some book)
      obtain c where "deliver E val (send_notify E ses ''depth.update'' (depth_update_params E True book market)) ?cs = ?cs(ses := c)"
        "sees E val book c" "cl_limit c = cl_limit (?cs ses)" using clean_book_seen [OF E d] by blast
      then have "deliver E val out ?cs = ?cs(ses := c) \<and> cl_limit c = unat limit \<and> (\<forall>b. latest = Some b \<longrightarrow> sees E val b c)"
        using Some send_error_ignored(2) [OF E d] out tp' by (simp add: depth_send_clean_def deliver_append)
      then show ?thesis by blast
    qed
    then obtain c where c: "deliver E val out ?cs = ?cs(ses := c)" "cl_limit c = unat limit"
      "\<And>book. latest = Some book \<Longrightarrow> sees E val book c" by blast
    have key: "snd (snd ?k) = limit" by (simp add: depth_key_def)
    have "depth_inv E fin val p ((tp_dict ?u)(?k \<mapsto> (ses_add ses S, latest, t))) (?cs(ses := c)) answers"
      using u unsubscribed e by (rule depth_inv_subscribe) (use c key in auto)
    then show ?thesis using c(1) tp' lim by simp
  qed
qed

text \<open>A broadcast reaches every subscriber once.\<close>

lemma broadcast_delivered:
  assumes E: "json E = J" and d: "\<forall>ms. json_dumps J (json_object J ms) 0 \<noteq> None"
    and w: "\<forall>ss. mset (walk ss) = mset ss" and S: "distinct S"
  shows "deliver E val (broadcast_update E walk market S clean doc) cs = (\<lambda>s. if s \<in> set S then
      (if clean then (cs s)\<lparr>cl_asks := levels E val doc ''asks'', cl_bids := levels E val doc ''bids''\<rparr>
       else (cs s)\<lparr>cl_asks := merge_levels 1 (cl_limit (cs s)) (levels E val doc ''asks'') (cl_asks (cs s)),
              cl_bids := merge_levels (- 1) (cl_limit (cs s)) (levels E val doc ''bids'') (cl_bids (cs s))\<rparr>)
      else cs s)"
proof -
  have s: "set (walk S) = set S" using w mset_eq_setD by blast
  have ds: "distinct (walk S)" using w S mset_eq_imp_distinct_iff by blast
  have "\<forall>s\<in>set (walk S). \<exists>text. send_notify E s ''depth.update'' (depth_update_params E clean doc market) = [Send s text] \<and>
    (\<forall>c. client_message E val text c =
      (if clean then c\<lparr>cl_asks := levels E val doc ''asks'', cl_bids := levels E val doc ''bids''\<rparr>
       else c\<lparr>cl_asks := merge_levels 1 (cl_limit c) (levels E val doc ''asks'') (cl_asks c),
              cl_bids := merge_levels (- 1) (cl_limit c) (levels E val doc ''bids'') (cl_bids c)\<rparr>))"
    using depth_update_text [OF E d] by blast
  from deliver_all [OF ds this, of cs] show ?thesis unfolding broadcast_update_def notify_all_def s .
qed

text \<open>An answer brings every subscriber from the old book to the new one.\<close>

lemma answer_inv:
  assumes E: "json E = J" "mpd E = M" and d: "\<forall>ms. json_dumps J (json_object J ms) 0 \<noteq> None"
    and w: "\<forall>ss. mset (walk ss) = mset ss"
    and inv: "depth_inv E fin val p D cs answers" and k: "D key = Some (S, v)" and good: "good_book E fin val p key book"
    and r: "on_market_depth_reply E walk now key book S v = (v', out)"
  shows "depth_inv E fin val p (D(key \<mapsto> (S, v'))) (deliver E val out cs) (answers(key := Some book))"
proof -
  obtain market interval limit where key: "key = (market, interval, limit)" by (cases key)
  obtain latest t where v: "v = (latest, t)" by (cases v)
  have ok: "watched_ok E fin val p cs (answers key) key S latest" using depth_invD(1) [OF inv] k v by simp
  have S: "distinct S" and lim: "\<forall>s\<in>set S. cl_limit (cs s) = unat limit" using ok key by (simp_all add: watched_ok_def)
  note B = broadcast_delivered [OF E(1) d w S, of market]
  have new: "(\<forall>s. s \<notin> set S \<longrightarrow> deliver E val out cs s = cs s) \<and>
      watched_ok E fin val p (deliver E val out cs) (Some book) key S (fst v')"
  proof (cases latest)
    case None
    then have "out = broadcast_update E walk market S True book" "v' = (Some book, now)"
      using r by (simp_all add: on_market_depth_reply_def key v)
    then show ?thesis using B [of True book cs] S lim good key by (simp add: watched_ok_def sees_def)
  next
    case (Some old)
    have g: "good_book E fin val p key old" and seen: "\<forall>s\<in>set S. sees E val old (cs s)"
      using ok Some by (auto simp: watched_ok_def split: option.splits)
    have gs: "good_side E fin val p (unat limit) 1 (json_object_get J old ''asks'')"
      "good_side E fin val p (unat limit) (- 1) (json_object_get J old ''bids'')"
      "good_side E fin val p (unat limit) 1 (json_object_get J book ''asks'')"
      "good_side E fin val p (unat limit) (- 1) (json_object_get J book ''bids'')"
      using g good E key by (simp_all add: good_book_def)
    note D = depth_diff_levels [OF E gs]
    show ?thesis
    proof (cases "get_depth_diff E old book limit")
      case None
      then have "out = []" "v' = v" using r Some by (simp_all add: on_market_depth_reply_def key v)
      then show ?thesis using ok Some None D v by (auto simp: watched_ok_def split: option.splits)
    next
      case (Some diff)
      show ?thesis
      proof (cases "now - t \<ge> CLEAN_INTERVAL")
        case True
        then have "out = broadcast_update E walk market S True book" "v' = (Some book, now)"
          using r \<open>latest = Some old\<close> Some by (simp_all add: on_market_depth_reply_def key v)
        then show ?thesis using B [of True book cs] S lim good key by (simp add: watched_ok_def sees_def)
      next
        case False
        then have "out = broadcast_update E walk market S False diff" "v' = (Some book, t)"
          using r \<open>latest = Some old\<close> Some by (simp_all add: on_market_depth_reply_def key v)
        then show ?thesis using B [of False diff cs] S lim good key D Some seen by (simp add: watched_ok_def sees_def)
      qed
    qed
  qed
  show ?thesis
  proof (rule depth_invI)
    fix k' sessions l u
    assume k': "(D(key \<mapsto> (S, v'))) k' = Some (sessions, l, u)"
    show "watched_ok E fin val p (deliver E val out cs) ((answers(key := Some book)) k') k' sessions l"
    proof (cases "k' = key")
      case True
      then show ?thesis using new k' by auto
    next
      case False
      then have k'': "D k' = Some (sessions, l, u)" using k' by simp
      have same: "deliver E val out cs s = cs s" if "s \<in> set sessions" for s
        using depth_invD(2) [OF inv k k'', of s] that False new by blast
      have ok': "watched_ok E fin val p cs (answers k') k' sessions l" by (rule depth_invD(1) [OF inv k''])
      have "distinct sessions" using ok' by (simp add: watched_ok_def)
      then show ?thesis using watched_ok_mono [OF ok' _ order_refl same] False by simp
    qed
  next
    fix s k1 k2 S1 S2 v1 v2
    assume "(D(key \<mapsto> (S, v'))) k1 = Some (S1, v1)" "(D(key \<mapsto> (S, v'))) k2 = Some (S2, v2)" "s \<in> set S1" "s \<in> set S2"
    then obtain w1 w2 where "D k1 = Some (S1, w1)" "D k2 = Some (S2, w2)" "s \<in> set S1" "s \<in> set S2"
      using k by (auto split: if_splits)
    then show "k1 = k2" by (rule depth_invD(2) [OF inv])
  qed
qed

lemma world_step_inv:
  assumes E: "json E = J" "mpd E = M" and d: "\<forall>ms. json_dumps J (json_object J ms) 0 \<noteq> None"
    and w: "\<forall>ss. mset (walk ss) = mset ss"
    and inv: "depth_inv E fin val p (tp_dict (dw_topic W)) (dw_client W) (dw_answer W)"
    and good: "answers_ok E st fin val p walk (e # es) W" and step: "world_step E st val walk e W = Some W'"
  shows "depth_inv E fin val p (tp_dict (dw_topic W')) (dw_client W') (dw_answer W')"
proof -
  obtain tp' out where s: "depth_step E st walk e (dw_topic W) = Some (tp', out)" "dw_topic W' = tp'"
    "dw_client W' = deliver E val out (take_limit E st e (dw_client W))" "dw_answer W' = take_answer E (dw_topic W) e (dw_answer W)"
    using step by (auto simp: world_step_def)
  show ?thesis
  proof (cases e)
    case (Watch ses i params)
    then show ?thesis using watch_inv [OF E(1) d inv] s by simp
  next
    case (Unwatch ses i)
    then show ?thesis using s depth_inv_unsubscribe [OF inv, of ses _ True] send_error_ignored(2) [OF E(1) d]
      by (auto simp: on_method_depth_unsubscribe_def)
  next
    case (Leave ses found)
    then show ?thesis using s depth_inv_unsubscribe [OF inv, of ses "dw_client W" found] by auto
  next
    case (Tick keys)
    have f: "(\<forall>a\<in>set out. \<exists>pkg. a = Query Matchengine pkg) \<and> (\<forall>k. tp_dict tp' k = tp_dict (dw_topic W) k \<or>
        (tp_dict tp' k = None \<and> (\<exists>v. tp_dict (dw_topic W) k = Some ([], v))))"
      by (rule topic_timer_frame) (use s(1) Tick in \<open>simp add: depth_on_timer_def\<close>)
    have q: "\<forall>a\<in>set out. \<exists>pkg. a = Query Matchengine pkg" using f by (rule conjunct1)
    have D: "tp_dict tp' k = tp_dict (dw_topic W) k \<or> tp_dict tp' k = None" for k using conjunct2 [OF f, rule_format, of k] by (elim disjE conjE) (rule disjI1 disjI2, assumption)+
    have "deliver E val out cs = cs" for cs using q by (induction out) auto
    then show ?thesis using s Tick depth_inv_drop [OF inv, of "tp_dict tp'", OF D] by simp
  next
    case (Answer now pkg)
    have recv: "depth_recv_pkg E walk now pkg (dw_topic W) = Some (tp', out)" using s(1) Answer by simp
    show ?thesis
    proof (cases "answer_of E (dw_topic W) pkg")
      case None
      note N = depth_recv_none [OF recv None]
      have D: "tp_dict tp' k = tp_dict (dw_topic W) k \<or> tp_dict tp' k = None" for k by (rule conjunct2 [OF N, rule_format])
      show ?thesis using conjunct1 [OF N] None s Answer depth_inv_drop [OF inv, of "tp_dict tp'", OF D] by simp
    next
      case (Some kb)
      obtain key book where kb: "kb = (key, book)" by (cases kb)
      obtain S v v' where r: "tp_dict (dw_topic W) key = Some (S, v)" "on_market_depth_reply E walk now key book S v = (v', out)"
        "tp_dict tp' = (tp_dict (dw_topic W))(key \<mapsto> (S, v'))" using depth_recv_some [OF recv] Some kb by blast
      have "good_book E fin val p key book" using good Answer Some kb by simp
      from answer_inv [OF E d w inv r(1) this r(2)] show ?thesis using s r(3) Answer Some kb by simp
    qed
  next
    case (Expire i)
    then have "topic_timeout i (dw_topic W) = tp'" "out = []" using s(1) by simp_all
    then show ?thesis using s(2-4) Expire inv by (auto simp: topic_timeout_def)
  qed
qed

lemma depth_run_inv:
  assumes E: "json E = J" "mpd E = M" and d: "\<forall>ms. json_dumps J (json_object J ms) 0 \<noteq> None"
    and w: "\<forall>ss. mset (walk ss) = mset ss"
  shows "depth_run E st val walk es W = Some W' \<Longrightarrow> answers_ok E st fin val p walk es W \<Longrightarrow>
    depth_inv E fin val p (tp_dict (dw_topic W)) (dw_client W) (dw_answer W) \<Longrightarrow>
    depth_inv E fin val p (tp_dict (dw_topic W')) (dw_client W') (dw_answer W')"
proof (induction es arbitrary: W)
  case (Cons e es)
  obtain W1 where s: "world_step E st val walk e W = Some W1" "depth_run E st val walk es W1 = Some W'"
    using Cons.prems(1) by (auto split: option.splits)
  have "depth_inv E fin val p (tp_dict (dw_topic W1)) (dw_client W1) (dw_answer W1)"
    by (rule world_step_inv [OF E d w Cons.prems(3,2) s(1)])
  then show ?case using Cons.IH [OF s(2)] Cons.prems(2) s(1) by simp
qed simp

end

lemma init_world_inv: "depth_inv E fin val p (tp_dict (dw_topic init_world)) (dw_client init_world) (dw_answer init_world)"
  by (simp add: depth_inv_def init_world_def init_topic_def)

section \<open>Clients see the book\<close>

text \<open>
  C25. A client that is subscribed to an order book and follows the protocol sees, level by level and
  with exact numbers, the book of the engine's last answer, whatever subscriptions, timers, lost and
  late answers came before; the messages it got were whole books at times and differences otherwise.
\<close>

theorem depth_views_exact:
  assumes "wire (json E) eq (mpd E) fin val" "\<forall>ms. json_dumps (json E) (json_object (json E) ms) 0 \<noteq> None"
    "\<forall>ss. mset (walk ss) = mset ss"
    "depth_run E st val walk es init_world = Some W" "answers_ok E st fin val p walk es init_world"
    "tp_dict (dw_topic W) key = Some (sessions, Some book, t)" "ses \<in> set sessions"
  shows "\<exists>answer. dw_answer W key = Some answer \<and> cl_asks (dw_client W ses) = levels E val answer ''asks'' \<and>
    cl_bids (dw_client W ses) = levels E val answer ''bids''"
proof -
  from wire.depth_run_inv [OF assms(1) refl refl assms(2-5) init_world_inv]
  have "watched_ok E fin val p (dw_client W) (dw_answer W key) key sessions (Some book)"
    using depth_invD(1) assms(6) by blast
  then show ?thesis using assms(7) by (auto simp: watched_ok_def sees_def split: option.splits)
qed

text \<open>An input: a client watches a book of two levels, whose best level then goes.\<close>

definition ex_book :: "(string \<times> string) list \<Rightarrow> jv" where
  "ex_book asks = JObj [(''asks'', JArr (map (\<lambda>(p, a). JArr [JStr p, JStr a]) asks)), (''bids'', JArr [])]"

abbreviation ex_key :: depth_key where "ex_key \<equiv> (''BTC'', ''0'', 2)"
abbreviation ex_book1 :: jv where "ex_book1 \<equiv> ex_book [(''1'', ''5''), (''2'', ''6'')]"
abbreviation ex_book2 :: jv where "ex_book2 \<equiv> ex_book [(''2'', ''6''), (''3'', ''4'')]"

definition ex_watch :: "jv depth_event list" where
  "ex_watch = [Watch 7 1 (JArr [JStr ''BTC'', JInt 2, JStr ''0'']), Tick [ex_key],
     Answer 100 (ex_answer CMD_ORDER_BOOK_DEPTH 1 ex_book1), Tick [ex_key],
     Answer 101 (ex_answer CMD_ORDER_BOOK_DEPTH 2 ex_book2)]"

definition ex_world :: "u32 \<Rightarrow> bool \<Rightarrow> jv depth_val \<Rightarrow> (ses \<Rightarrow> client) \<Rightarrow> (depth_key \<Rightarrow> jv option) \<Rightarrow> jv depth_world" where
  "ex_world n waiting v cs answers = \<lparr>dw_topic = \<lparr>tp_dict = [ex_key \<mapsto> ([7], v)],
       tp_state = \<lparr>pn_map = (if waiting then [n \<mapsto> ex_key] else Map.empty), pn_start = n\<rparr>\<rparr>, dw_client = cs, dw_answer = answers\<rparr>"

lemma ex_request: "depth_request ex_env (JArr [JStr ''BTC'', JInt 2, JStr ''0'']) = Some (''BTC'', 2, ''0'')"
  by (simp add: depth_request_def check_def name_param_def jv_select MARKET_NAME_MAX_LEN_def INTERVAL_MAX_LEN_def)

lemma ex_good: "is_good_limit ex_push 2" "is_good_interval ex_env ex_push ''0''"
  by (simp_all add: is_good_limit_def is_good_interval_def ex_push_def ex_env_def) code_simp

lemma ex_watch_step:
  "\<exists>cs. world_step ex_env ex_push dec_val (\<lambda>ss. ss) (Watch 7 1 (JArr [JStr ''BTC'', JInt 2, JStr ''0''])) init_world =
     Some (ex_world 0 False (None, 0) cs Map.empty)"
  by (simp add: world_step_def on_method_depth_subscribe_def ex_request depth_subscribe_def ex_good depth_unsubscribe_def
      topic_subscribe_def topic_unsubscribe_def init_world_def init_topic_def depth_key_def MARKET_NAME_MAX_LEN_def INTERVAL_MAX_LEN_def
      Let_def ses_add_def ex_world_def no_pending_def fun_eq_iff del: show_jv.simps) (intro exI allI, rule refl)

lemma ex_tick:
  "n + 1 \<noteq> 0 \<Longrightarrow> \<exists>cs'. world_step ex_env ex_push dec_val (\<lambda>ss. ss) (Tick [ex_key]) (ex_world n False v cs answers) =
     Some (ex_world (n + 1) True v cs' answers)"
  by (simp add: world_step_def depth_on_timer_def ex_world_def pending_new_def next_number jv_select del: show_jv.simps)

lemma ex_answer_of:
  assumes "length (show_jv (JObj [(''error'', JNull), (''result'', book), (''id'', JInt 0)])) < 2 ^ 32"
  shows "answer_of ex_env (dw_topic (ex_world n True v cs answers)) (ex_answer CMD_ORDER_BOOK_DEPTH n book) = Some (ex_key, book)"
    "\<exists>cs'. world_step ex_env ex_push dec_val (\<lambda>ss. ss) (Answer now (ex_answer CMD_ORDER_BOOK_DEPTH n book)) (ex_world n True v cs answers) =
       Some (ex_world n False (fst (on_market_depth_reply ex_env (\<lambda>ss. ss) now ex_key book [7] v)) cs' (answers(ex_key \<mapsto> book)))"
proof -
  note S = ex_answer [OF assms] jv_loadb jv_select ex_world_def
  show a: "answer_of ex_env (dw_topic (ex_world n True v cs answers)) (ex_answer CMD_ORDER_BOOK_DEPTH n book) = Some (ex_key, book)"
    by (simp add: answer_of_def check_def S del: show_jv.simps)
  show "\<exists>cs'. world_step ex_env ex_push dec_val (\<lambda>ss. ss) (Answer now (ex_answer CMD_ORDER_BOOK_DEPTH n book)) (ex_world n True v cs answers) =
       Some (ex_world n False (fst (on_market_depth_reply ex_env (\<lambda>ss. ss) now ex_key book [7] v)) cs' (answers(ex_key \<mapsto> book)))"
    using a by (cases "on_market_depth_reply ex_env (\<lambda>ss. ss) now ex_key book [7] v")
      (simp add: world_step_def depth_recv_pkg_def topic_recv_pkg_def pending_del_def S fun_eq_iff del: show_jv.simps, intro exI allI, rule refl)
qed

lemma ex_short: "length (show_jv (JObj [(''error'', JNull), (''result'', ex_book1), (''id'', JInt 0)])) < 2 ^ 32"
  "length (show_jv (JObj [(''error'', JNull), (''result'', ex_book2), (''id'', JInt 0)])) < 2 ^ 32"
  by (simp_all add: ex_book_def unary_def show_str_def show_int_def)

lemma ex_number: "decimal dec_ops [CHR ''1''] 0 = Some (Dec 1 0)" "decimal dec_ops [CHR ''2''] 0 = Some (Dec 2 0)"
  "decimal dec_ops [CHR ''3''] 0 = Some (Dec 3 0)" "decimal dec_ops [CHR ''4''] 0 = Some (Dec 4 0)"
  "decimal dec_ops [CHR ''5''] 0 = Some (Dec 5 0)" "decimal dec_ops [CHR ''6''] 0 = Some (Dec 6 0)"
  by code_simp+

lemma ex_level: "level_of ex_env dec_val (JArr [JStr p, JStr a]) =
    (case (decimal dec_ops p 0, decimal dec_ops a 0) of (Some x, Some y) \<Rightarrow> (dec_val x, dec_val y) | _ \<Rightarrow> (0, 0))"
  by (simp add: level_of_def level_price_def level_amount_def jv_select ex_env_def)

lemma ex_items: "json_items ex_env (JArr xs) = xs"
  using jv_wire.items_json_array [of ex_env xs] by (simp add: jv_select)

lemma ex_books_good: "good_book ex_env dec_fin dec_val 0 ex_key ex_book1" "good_book ex_env dec_fin dec_val 0 ex_key ex_book2"
  by (simp_all add: good_book_def good_side_def good_list_def ex_book_def jv_select ex_items good_level_def ex_level level_price_def
      level_amount_def ex_number ascii_def fits_def)

lemma ex_diff: "\<exists>d. get_depth_diff ex_env ex_book1 ex_book2 2 = Some d"
  by (simp add: get_depth_diff_def get_list_diff_def ex_book_def jv_select ex_items level_price_def level_amount_def Let_def
      ex_number dec_align_def)

lemma depth_views_exact_witness:
  "\<exists>W. depth_run ex_env ex_push dec_val (\<lambda>ss. ss) ex_watch init_world = Some W \<and> cl_asks (dw_client W 7) = [(2, 6), (3, 4)]"
proof -
  let ?step = "world_step ex_env ex_push dec_val (\<lambda>ss :: ses list. ss)"
  let ?ans = "ex_answer CMD_ORDER_BOOK_DEPTH"
  obtain cs1 where s1: "?step (Watch 7 1 (JArr [JStr ''BTC'', JInt 2, JStr ''0''])) init_world = Some (ex_world 0 False (None, 0) cs1 Map.empty)"
    using ex_watch_step by blast
  obtain cs2 where s2: "?step (Tick [ex_key]) (ex_world 0 False (None, 0) cs1 Map.empty) = Some (ex_world 1 True (None, 0) cs2 Map.empty)"
    using ex_tick [of 0 "(None, 0)" cs1 Map.empty] by auto
  obtain cs3 where s3: "?step (Answer 100 (?ans 1 ex_book1)) (ex_world 1 True (None, 0) cs2 Map.empty) =
      Some (ex_world 1 False (Some ex_book1, 100) cs3 [ex_key \<mapsto> ex_book1])"
    using ex_answer_of(2) [OF ex_short(1), of 100 1 "(None, 0)" cs2 Map.empty] by (auto simp: on_market_depth_reply_def)
  obtain cs4 where s4: "?step (Tick [ex_key]) (ex_world 1 False (Some ex_book1, 100) cs3 [ex_key \<mapsto> ex_book1]) =
      Some (ex_world 2 True (Some ex_book1, 100) cs4 [ex_key \<mapsto> ex_book1])"
    using ex_tick [of 1 "(Some ex_book1, 100)" cs3 "[ex_key \<mapsto> ex_book1]"] by auto
  obtain cs5 where s5: "?step (Answer 101 (?ans 2 ex_book2)) (ex_world 2 True (Some ex_book1, 100) cs4 [ex_key \<mapsto> ex_book1]) =
      Some (ex_world 2 False (Some ex_book2, 100) cs5 [ex_key \<mapsto> ex_book2])"
    using ex_answer_of(2) [OF ex_short(2), of 101 2 "(Some ex_book1, 100)" cs4 "[ex_key \<mapsto> ex_book1]"] ex_diff
    by (auto simp: on_market_depth_reply_def CLEAN_INTERVAL_def)
  have run: "depth_run ex_env ex_push dec_val (\<lambda>ss. ss) ex_watch init_world = Some (ex_world 2 False (Some ex_book2, 100) cs5 [ex_key \<mapsto> ex_book2])"
    by (simp add: ex_watch_def s1 s2 s3 s4 s5)
  have ok: "answers_ok ex_env ex_push dec_fin dec_val 0 (\<lambda>ss. ss) ex_watch init_world"
    by (simp add: ex_watch_def s1 s2 s3 s4 s5 ex_answer_of(1) [OF ex_short(1)] ex_answer_of(1) [OF ex_short(2)] ex_books_good)
  have w: "wire (json ex_env) (=) (mpd ex_env) dec_fin dec_val" using jv_wire.wire_axioms by simp
  have d: "\<forall>ms. json_dumps (json ex_env) (json_object (json ex_env) ms) 0 \<noteq> None" by (simp add: jv_select)
  have "cl_asks (cs5 7) = levels ex_env dec_val ex_book2 ''asks''"
    using depth_views_exact [OF w d _ run ok, of ex_key "[7]" ex_book2 100 7] by (simp add: ex_world_def)
  also have "\<dots> = [(2, 6), (3, 4)]" by (simp add: levels_def ex_book_def jv_select ex_items ex_level ex_number)
  finally show ?thesis using run by (simp add: ex_world_def)
qed

end
