(* ===== verification/Push_Topics.thy ===== *)
theory Push_Topics
  imports Push
begin

text \<open>
  The other topics of the push server: the state of a market over a day
  (\<^verbatim>\<open>aw_state.c\<close>) and since midnight (\<^verbatim>\<open>aw_today.c\<close>), the last price
  (\<^verbatim>\<open>aw_price.c\<close>), candles (\<^verbatim>\<open>aw_kline.c\<close>) and deals
  (\<^verbatim>\<open>aw_deals.c\<close>), with their methods in \<^verbatim>\<open>aw_server.c\<close>. Each of these
  files is a topic of \<open>Push\<close> with its own request and its own comparison of answers.
\<close>

section \<open>Market status\<close>

definition JSON_SORT_KEYS :: nat where "JSON_SORT_KEYS = 128"

type_synonym 'j status = "(string, 'j option) topic"

definition market_params :: "('d, 'j) env \<Rightarrow> string \<Rightarrow> 'j \<Rightarrow> 'j" where
  "market_params E market result = json_array (json E) [json_string (json E) market, result]"

definition status_reply ::
  "('d, 'j) env \<Rightarrow> (ses list \<Rightarrow> ses list) \<Rightarrow> string \<Rightarrow> string \<Rightarrow> 'j \<Rightarrow> ses list \<Rightarrow> 'j option \<Rightarrow> ('j option \<times> push_action list) option" where
  "status_reply E walk method market result sessions latest =
     (let update = (Some result, notify_all E walk sessions method (market_params E market result)) in
      case latest of
        None \<Rightarrow> Some update
      | Some old \<Rightarrow>
          do { last_str \<leftarrow> json_dumps (json E) old JSON_SORT_KEYS;
               curr_str \<leftarrow> json_dumps (json E) result JSON_SORT_KEYS;
               Some (if last_str \<noteq> curr_str then update else (latest, [])) })"

definition status_send_last :: "('d, 'j) env \<Rightarrow> string \<Rightarrow> ses \<Rightarrow> string \<Rightarrow> 'j status \<Rightarrow> push_action list" where
  "status_send_last E method ses market tp =
     (case tp_dict tp market of
        Some (sessions, Some result) \<Rightarrow> send_notify E ses method (market_params E market result)
      | _ \<Rightarrow> [])"

definition market_key :: "string \<Rightarrow> string" where
  "market_key market = take (MARKET_NAME_MAX_LEN - 1) market"

text \<open>\<^verbatim>\<open>aw_state.c\<close>.\<close>

definition on_market_status_reply ::
  "('d, 'j) env \<Rightarrow> (ses list \<Rightarrow> ses list) \<Rightarrow> string \<Rightarrow> 'j \<Rightarrow> ses list \<Rightarrow> 'j option \<Rightarrow> ('j option \<times> push_action list) option" where
  "on_market_status_reply E walk = status_reply E walk ''state.update''"

definition state_recv_pkg ::
  "('d, 'j) env \<Rightarrow> (ses list \<Rightarrow> ses list) \<Rightarrow> rpc_pkg \<Rightarrow> 'j status \<Rightarrow> ('j status \<times> push_action list) option" where
  "state_recv_pkg E walk = topic_recv_pkg E CMD_MARKET_STATUS (on_market_status_reply E walk)"

definition state_on_timer :: "('d, 'j) env \<Rightarrow> string list \<Rightarrow> 'j status \<Rightarrow> ('j status \<times> push_action list) option" where
  "state_on_timer E = topic_timer E Marketprice CMD_MARKET_STATUS (\<lambda>market latest.
     json_array (json E) [json_string (json E) market, json_integer (json E) 86400])"

definition state_subscribe :: "ses \<Rightarrow> string \<Rightarrow> 'j status \<Rightarrow> 'j status" where
  "state_subscribe = topic_subscribe None"

definition state_unsubscribe :: "bool \<Rightarrow> ses \<Rightarrow> 'j status \<Rightarrow> 'j status" where
  "state_unsubscribe = topic_unsubscribe"

definition state_send_last :: "('d, 'j) env \<Rightarrow> ses \<Rightarrow> string \<Rightarrow> 'j status \<Rightarrow> push_action list" where
  "state_send_last E = status_send_last E ''state.update''"

definition on_method_state_subscribe :: "('d, 'j) env \<Rightarrow> ses \<Rightarrow> u64 \<Rightarrow> 'j \<Rightarrow> 'j status \<Rightarrow> 'j status \<times> push_action list" where
  "on_method_state_subscribe E ses i params =
     on_method_subscribe E ses i params (state_unsubscribe True) state_subscribe (state_send_last E)"

definition on_method_state_unsubscribe :: "('d, 'j) env \<Rightarrow> ses \<Rightarrow> u64 \<Rightarrow> 'j status \<Rightarrow> 'j status \<times> push_action list" where
  "on_method_state_unsubscribe E ses i tp = (state_unsubscribe True ses tp, send_success E ses i)"

text \<open>\<^verbatim>\<open>aw_today.c\<close>.\<close>

definition on_market_status_today_reply ::
  "('d, 'j) env \<Rightarrow> (ses list \<Rightarrow> ses list) \<Rightarrow> string \<Rightarrow> 'j \<Rightarrow> ses list \<Rightarrow> 'j option \<Rightarrow> ('j option \<times> push_action list) option" where
  "on_market_status_today_reply E walk = status_reply E walk ''today.update''"

definition today_recv_pkg ::
  "('d, 'j) env \<Rightarrow> (ses list \<Rightarrow> ses list) \<Rightarrow> rpc_pkg \<Rightarrow> 'j status \<Rightarrow> ('j status \<times> push_action list) option" where
  "today_recv_pkg E walk = topic_recv_pkg E CMD_MARKET_STATUS_TODAY (on_market_status_today_reply E walk)"

definition today_on_timer :: "('d, 'j) env \<Rightarrow> string list \<Rightarrow> 'j status \<Rightarrow> ('j status \<times> push_action list) option" where
  "today_on_timer E = topic_timer E Marketprice CMD_MARKET_STATUS_TODAY (\<lambda>market latest.
     json_array (json E) [json_string (json E) market])"

definition today_subscribe :: "ses \<Rightarrow> string \<Rightarrow> 'j status \<Rightarrow> 'j status" where
  "today_subscribe = topic_subscribe None"

definition today_unsubscribe :: "bool \<Rightarrow> ses \<Rightarrow> 'j status \<Rightarrow> 'j status" where
  "today_unsubscribe = topic_unsubscribe"

definition today_send_last :: "('d, 'j) env \<Rightarrow> ses \<Rightarrow> string \<Rightarrow> 'j status \<Rightarrow> push_action list" where
  "today_send_last E = status_send_last E ''today.update''"

definition on_method_today_subscribe :: "('d, 'j) env \<Rightarrow> ses \<Rightarrow> u64 \<Rightarrow> 'j \<Rightarrow> 'j status \<Rightarrow> 'j status \<times> push_action list" where
  "on_method_today_subscribe E ses i params =
     on_method_subscribe E ses i params (today_unsubscribe True) today_subscribe (today_send_last E)"

definition on_method_today_unsubscribe :: "('d, 'j) env \<Rightarrow> ses \<Rightarrow> u64 \<Rightarrow> 'j status \<Rightarrow> 'j status \<times> push_action list" where
  "on_method_today_unsubscribe E ses i tp = (today_unsubscribe True ses tp, send_success E ses i)"

section \<open>The last price\<close>

type_synonym 'd prices = "(string, 'd) topic"

definition on_market_last_reply ::
  "('d, 'j) env \<Rightarrow> (ses list \<Rightarrow> ses list) \<Rightarrow> string \<Rightarrow> 'j \<Rightarrow> ses list \<Rightarrow> 'd \<Rightarrow> 'd \<times> push_action list" where
  "on_market_last_reply E walk market result sessions latest =
     (case (do { check (json_is_string (json E) (Some result));
                 s \<leftarrow> json_string_value (json E) (Some result);
                 decimal (mpd E) s 0 }) of
        None \<Rightarrow> (latest, [])
      | Some price \<Rightarrow>
          if mpd_cmp (mpd E) price latest \<noteq> 0
          then (price, notify_all E walk sessions ''price.update'' (market_params E market result))
          else (latest, []))"

definition price_recv_pkg ::
  "('d, 'j) env \<Rightarrow> (ses list \<Rightarrow> ses list) \<Rightarrow> rpc_pkg \<Rightarrow> 'd prices \<Rightarrow> ('d prices \<times> push_action list) option" where
  "price_recv_pkg E walk =
     topic_recv_pkg E CMD_MARKET_LAST (\<lambda>market result sessions latest. Some (on_market_last_reply E walk market result sessions latest))"

definition price_on_timer :: "('d, 'j) env \<Rightarrow> string list \<Rightarrow> 'd prices \<Rightarrow> ('d prices \<times> push_action list) option" where
  "price_on_timer E = topic_timer E Marketprice CMD_MARKET_LAST (\<lambda>market latest. json_array (json E) [json_string (json E) market])"

definition price_subscribe :: "('d, 'j) env \<Rightarrow> ses \<Rightarrow> string \<Rightarrow> 'd prices \<Rightarrow> 'd prices" where
  "price_subscribe E = topic_subscribe (mpd_zero (mpd E))"

definition price_unsubscribe :: "bool \<Rightarrow> ses \<Rightarrow> 'd prices \<Rightarrow> 'd prices" where
  "price_unsubscribe = topic_unsubscribe"

definition price_send_last :: "('d, 'j) env \<Rightarrow> ses \<Rightarrow> string \<Rightarrow> 'd prices \<Rightarrow> push_action list" where
  "price_send_last E ses market tp =
     (case tp_dict tp market of
        None \<Rightarrow> []
      | Some (sessions, latest) \<Rightarrow>
          if mpd_cmp (mpd E) latest (mpd_zero (mpd E)) = 0 then []
          else send_notify E ses ''price.update'' (market_params E market (json_mpd E latest)))"

definition on_method_price_subscribe :: "('d, 'j) env \<Rightarrow> ses \<Rightarrow> u64 \<Rightarrow> 'j \<Rightarrow> 'd prices \<Rightarrow> 'd prices \<times> push_action list" where
  "on_method_price_subscribe E ses i params =
     on_method_subscribe E ses i params (price_unsubscribe True) (price_subscribe E) (price_send_last E)"

definition on_method_price_unsubscribe :: "('d, 'j) env \<Rightarrow> ses \<Rightarrow> u64 \<Rightarrow> 'd prices \<Rightarrow> 'd prices \<times> push_action list" where
  "on_method_price_unsubscribe E ses i tp = (price_unsubscribe True ses tp, send_success E ses i)"

section \<open>Candles\<close>

text \<open>The key is a market and an interval; kept is the last candle of the last answer.\<close>

type_synonym kline_key = "string \<times> int"
type_synonym 'j klines = "(kline_key, 'j option) topic"

definition on_market_kline_reply ::
  "('d, 'j) env \<Rightarrow> (ses list \<Rightarrow> ses list) \<Rightarrow> kline_key \<Rightarrow> 'j \<Rightarrow> ses list \<Rightarrow> 'j option \<Rightarrow> ('j option \<times> push_action list) option" where
  "on_market_kline_reply E walk key result sessions latest =
     (if \<not> json_is_array (json E) result \<or> json_array_size (json E) result = 0 then Some (latest, [])
      else let candle = json_array_get (json E) result (json_array_size (json E) result - 1);
               update = (candle, notify_all E walk sessions ''kline.update'' result) in
        case latest of
          None \<Rightarrow> Some update
        | Some old \<Rightarrow>
            do { candle \<leftarrow> candle;
                 first_str \<leftarrow> json_dumps (json E) old 0;
                 second_str \<leftarrow> json_dumps (json E) candle 0;
                 Some (if first_str \<noteq> second_str then update else (latest, [])) })"

definition kline_recv_pkg ::
  "('d, 'j) env \<Rightarrow> (ses list \<Rightarrow> ses list) \<Rightarrow> rpc_pkg \<Rightarrow> 'j klines \<Rightarrow> ('j klines \<times> push_action list) option" where
  "kline_recv_pkg E walk = topic_recv_pkg E CMD_MARKET_KLINE (on_market_kline_reply E walk)"

text \<open>\<open>now\<close> is the time, in seconds, at which the timer comes to an entry.\<close>

definition kline_on_timer ::
  "('d, 'j) env \<Rightarrow> 'd push_settings \<Rightarrow> (kline_key \<Rightarrow> int) \<Rightarrow> kline_key list \<Rightarrow> 'j klines \<Rightarrow> ('j klines \<times> push_action list) option" where
  "kline_on_timer E st now = topic_timer E Marketprice CMD_MARKET_KLINE (\<lambda>(market, interval) latest.
     json_array (json E) [json_string (json E) market, json_integer (json E) (now (market, interval) - kline_span st),
       json_integer (json E) (now (market, interval)), json_integer (json E) interval])"

definition kline_subscribe :: "ses \<Rightarrow> string \<Rightarrow> int \<Rightarrow> 'j klines \<Rightarrow> 'j klines" where
  "kline_subscribe ses market interval = topic_subscribe None ses (market_key market, interval)"

definition kline_unsubscribe :: "bool \<Rightarrow> ses \<Rightarrow> 'j klines \<Rightarrow> 'j klines" where
  "kline_unsubscribe = topic_unsubscribe"

definition on_method_kline_subscribe :: "('d, 'j) env \<Rightarrow> ses \<Rightarrow> u64 \<Rightarrow> 'j \<Rightarrow> 'j klines \<Rightarrow> 'j klines \<times> push_action list" where
  "on_method_kline_subscribe E ses i params tp =
     (case (do { check (json_array_size (json E) params = 2);
                 market \<leftarrow> name_param E MARKET_NAME_MAX_LEN params 0;
                 let interval = sint (word_of_int (json_integer_value (json E) (json_array_get (json E) params 1)) :: u32);
                 check (\<not> interval \<le> 0);
                 Some (market, interval) }) of
        None \<Rightarrow> (tp, send_error_invalid_argument E ses i)
      | Some (market, interval) \<Rightarrow> (kline_subscribe ses market interval (kline_unsubscribe True ses tp), send_success E ses i))"

definition on_method_kline_unsubscribe :: "('d, 'j) env \<Rightarrow> ses \<Rightarrow> u64 \<Rightarrow> 'j klines \<Rightarrow> 'j klines \<times> push_action list" where
  "on_method_kline_unsubscribe E ses i tp = (kline_unsubscribe True ses tp, send_success E ses i)"

section \<open>Deals\<close>

text \<open>Kept are the newest deals, the newest first, and the id of the newest.\<close>

type_synonym 'j deals_val = "'j list \<times> u64"
type_synonym 'j deals = "(string, 'j deals_val) topic"

definition DEALS_QUERY_LIMIT :: nat where "DEALS_QUERY_LIMIT = 100"

definition on_order_deals_reply ::
  "('d, 'j) env \<Rightarrow> (ses list \<Rightarrow> ses list) \<Rightarrow> string \<Rightarrow> 'j \<Rightarrow> ses list \<Rightarrow> 'j deals_val \<Rightarrow> 'j deals_val \<times> push_action list" where
  "on_order_deals_reply E walk market result sessions val =
     (case val of (deals, last_id) \<Rightarrow>
       if \<not> json_is_array (json E) result \<or> json_array_size (json E) result = 0 then (val, [])
       else let deal_id = word_of_int (json_integer_value (json E)
                  (case json_array_get (json E) result 0 of None \<Rightarrow> None | Some first \<Rightarrow> json_object_get (json E) first ''id'')) in
         if deal_id = 0 then (val, [])
         else ((take DEALS_QUERY_LIMIT (json_items E result @ deals), deal_id),
               notify_all E walk sessions ''deals.update'' (market_params E market result)))"

definition deals_recv_pkg ::
  "('d, 'j) env \<Rightarrow> (ses list \<Rightarrow> ses list) \<Rightarrow> rpc_pkg \<Rightarrow> 'j deals \<Rightarrow> ('j deals \<times> push_action list) option" where
  "deals_recv_pkg E walk =
     topic_recv_pkg E CMD_MARKET_DEALS (\<lambda>market result sessions val. Some (on_order_deals_reply E walk market result sessions val))"

definition deals_on_timer :: "('d, 'j) env \<Rightarrow> string list \<Rightarrow> 'j deals \<Rightarrow> ('j deals \<times> push_action list) option" where
  "deals_on_timer E = topic_timer E Marketprice CMD_MARKET_DEALS (\<lambda>market (deals, last_id).
     json_array (json E) [json_string (json E) market, json_integer (json E) (int DEALS_QUERY_LIMIT),
       json_integer (json E) (sint last_id)])"

definition deals_subscribe :: "ses \<Rightarrow> string \<Rightarrow> 'j deals \<Rightarrow> 'j deals" where
  "deals_subscribe = topic_subscribe ([], 0)"

definition deals_unsubscribe :: "bool \<Rightarrow> ses \<Rightarrow> 'j deals \<Rightarrow> 'j deals" where
  "deals_unsubscribe = topic_unsubscribe"

definition deals_send_full :: "('d, 'j) env \<Rightarrow> ses \<Rightarrow> string \<Rightarrow> 'j deals \<Rightarrow> push_action list" where
  "deals_send_full E ses market tp =
     (case tp_dict tp market of
        None \<Rightarrow> []
      | Some (sessions, deals, last_id) \<Rightarrow>
          if deals = [] then []
          else send_notify E ses ''deals.update'' (market_params E market (json_array (json E) deals)))"

definition on_method_deals_subscribe :: "('d, 'j) env \<Rightarrow> ses \<Rightarrow> u64 \<Rightarrow> 'j \<Rightarrow> 'j deals \<Rightarrow> 'j deals \<times> push_action list" where
  "on_method_deals_subscribe E ses i params =
     on_method_subscribe E ses i params (deals_unsubscribe True) deals_subscribe (deals_send_full E)"

definition on_method_deals_unsubscribe :: "('d, 'j) env \<Rightarrow> ses \<Rightarrow> u64 \<Rightarrow> 'j deals \<Rightarrow> 'j deals \<times> push_action list" where
  "on_method_deals_unsubscribe E ses i tp = (deals_unsubscribe True ses tp, send_success E ses i)"

end
