(* ===== verification/Push_Users.thy ===== *)
theory Push_Users
  imports Push
begin

text \<open>
  What the push server tells a user about the own orders and balances: \<^verbatim>\<open>aw_order.c\<close>,
  \<^verbatim>\<open>aw_asset.c\<close> and the messages of the engine that cause it, which
  \<^verbatim>\<open>aw_message.c\<close> reads from the broker. The dictionaries go from the id of a user to
  the list of the sessions with the market or asset each has subscribed to.
\<close>

section \<open>Subscriptions of users\<close>

type_synonym subs = "u32 \<rightharpoonup> (ses \<times> string) list"

definition sub_list :: "subs \<Rightarrow> u32 \<Rightarrow> (ses \<times> string) list" where
  "sub_list D user_id = (case D user_id of None \<Rightarrow> [] | Some list \<Rightarrow> list)"

definition user_subscribe :: "u32 \<Rightarrow> ses \<Rightarrow> string \<Rightarrow> subs \<Rightarrow> subs" where
  "user_subscribe user_id ses name D =
     (let list = sub_list D user_id
      in D(user_id \<mapsto> (if (ses, name) \<in> set list then list else list @ [(ses, name)])))"

definition user_unsubscribe :: "u32 \<Rightarrow> ses \<Rightarrow> subs \<Rightarrow> subs" where
  "user_unsubscribe user_id ses D =
     (case D user_id of
        None \<Rightarrow> D
      | Some list \<Rightarrow>
          let list = filter (\<lambda>(s, name). s \<noteq> ses) list
          in D(user_id := (if list = [] then None else Some list)))"

text \<open>A message for the sessions of a user that have subscribed to \<open>name\<close>.\<close>

definition notify_user :: "('d, 'j) env \<Rightarrow> string \<Rightarrow> (ses \<times> string) list \<Rightarrow> string \<Rightarrow> 'j \<Rightarrow> push_action list" where
  "notify_user E method list name params =
     concat (map (\<lambda>(ses, n). if n = name then send_notify E ses method params else []) list)"

section \<open>Orders\<close>

definition order_subscribe :: "u32 \<Rightarrow> ses \<Rightarrow> string \<Rightarrow> subs \<Rightarrow> subs" where
  "order_subscribe user_id ses market = user_subscribe user_id ses (take (MARKET_NAME_MAX_LEN - 1) market)"

definition order_unsubscribe :: "u32 \<Rightarrow> ses \<Rightarrow> subs \<Rightarrow> subs" where
  "order_unsubscribe = user_unsubscribe"

definition order_on_update :: "('d, 'j) env \<Rightarrow> u32 \<Rightarrow> int \<Rightarrow> 'j \<Rightarrow> subs \<Rightarrow> push_action list" where
  "order_on_update E user_id event order D =
     (case json_object_get (json E) order ''market'' of
        None \<Rightarrow> []
      | Some name \<Rightarrow>
          (case (json_string_value (json E) (Some name), D user_id) of
             (Some market, Some list) \<Rightarrow>
               notify_user E ''order.update'' list market (json_array (json E) [json_integer (json E) event, order])
           | _ \<Rightarrow> []))"

section \<open>Balances\<close>

text \<open>A query waits with the user and the asset it asks about.\<close>

record assets =
  as_sub :: subs
  as_state :: "(u32 \<times> string) pending"

definition init_asset :: assets where
  "init_asset = \<lparr>as_sub = Map.empty, as_state = no_pending\<rparr>"

definition asset_subscribe :: "u32 \<Rightarrow> ses \<Rightarrow> string \<Rightarrow> assets \<Rightarrow> assets" where
  "asset_subscribe user_id ses asset A =
     A\<lparr>as_sub := user_subscribe user_id ses (take (Push.ASSET_NAME_MAX_LEN - 1) asset) (as_sub A)\<rparr>"

definition asset_unsubscribe :: "u32 \<Rightarrow> ses \<Rightarrow> assets \<Rightarrow> assets" where
  "asset_unsubscribe user_id ses A = A\<lparr>as_sub := user_unsubscribe user_id ses (as_sub A)\<rparr>"

definition asset_on_update :: "('d, 'j) env \<Rightarrow> u32 \<Rightarrow> string \<Rightarrow> assets \<Rightarrow> (assets \<times> push_action list) option" where
  "asset_on_update E user_id asset A =
     (case as_sub A user_id of
        None \<Rightarrow> Some (A, [])
      | Some list \<Rightarrow>
          if \<not> list_ex (\<lambda>(ses, name). name = asset) list then Some (A, [])
          else do { (sequence, state) \<leftarrow> pending_new (user_id, take (Push.ASSET_NAME_MAX_LEN - 1) asset) (as_state A);
                    body \<leftarrow> json_dumps (json E) (json_array (json E)
                      [json_integer (json E) (uint user_id), json_string (json E) asset]) 0;
                    Some (A\<lparr>as_state := state\<rparr>, [Query Matchengine (request_pkg CMD_BALANCE_QUERY sequence 0 body)]) })"

definition on_balance_query_reply :: "('d, 'j) env \<Rightarrow> u32 \<times> string \<Rightarrow> 'j \<Rightarrow> assets \<Rightarrow> push_action list" where
  "on_balance_query_reply E state result A =
     (case as_sub A (fst state) of
        None \<Rightarrow> []
      | Some list \<Rightarrow> notify_user E ''asset.update'' list (snd state) (json_array (json E) [result]))"

definition asset_recv_pkg :: "('d, 'j) env \<Rightarrow> rpc_pkg \<Rightarrow> assets \<Rightarrow> assets \<times> push_action list" where
  "asset_recv_pkg E pkg A =
     (case pn_map (as_state A) (pkg_sequence pkg) of
        None \<Rightarrow> (A, [])
      | Some state \<Rightarrow>
          (A\<lparr>as_state := pending_del (pkg_sequence pkg) (as_state A)\<rparr>,
           case do { reply \<leftarrow> json_loadb (json E) (pkg_text pkg);
                     error \<leftarrow> json_object_get (json E) reply ''error'';
                     result \<leftarrow> json_object_get (json E) reply ''result'';
                     check (json_is_null (json E) (Some error));
                     check (command pkg = CMD_BALANCE_QUERY);
                     Some result } of
             None \<Rightarrow> []
           | Some result \<Rightarrow> on_balance_query_reply E state result A))"

section \<open>Messages of the engine\<close>

text \<open>\<open>None\<close> as a parameter: the message is not valid.\<close>

definition orders_message :: "('d, 'j) env \<Rightarrow> 'j \<Rightarrow> (int \<times> 'j \<times> u32 \<times> string \<times> string) option" where
  "orders_message E msg =
     (let J = json E; event = sint (word_of_int (json_integer_value J (json_object_get J msg ''event'')) :: u32) in
      do { check (event \<noteq> 0);
           order \<leftarrow> json_object_get J msg ''order'';
           let user_id = word_of_int (json_integer_value J (json_object_get J order ''user''));
           stock \<leftarrow> json_object_get J msg ''stock'';
           money \<leftarrow> json_object_get J msg ''money'';
           check (user_id \<noteq> 0);
           stock \<leftarrow> json_string_value J (Some stock);
           money \<leftarrow> json_string_value J (Some money);
           Some (event, order, user_id, stock, money) })"

definition on_orders_message ::
  "('d, 'j) env \<Rightarrow> string \<Rightarrow> subs \<times> assets \<Rightarrow> ((subs \<times> assets) \<times> push_action list) option" where
  "on_orders_message E message S =
     (case S of (D, A) \<Rightarrow>
       (case Option.bind (json_loadb (json E) message) (orders_message E) of
          None \<Rightarrow> Some (S, [])
        | Some (event, order, user_id, stock, money) \<Rightarrow>
            do { (A, out1) \<leftarrow> asset_on_update E user_id stock A;
                 (A, out2) \<leftarrow> asset_on_update E user_id money A;
                 Some ((D, A), out1 @ out2 @ order_on_update E user_id event order D) }))"

definition balances_message :: "('d, 'j) env \<Rightarrow> 'j \<Rightarrow> (u32 \<times> string) option" where
  "balances_message E msg =
     (let J = json E; user_id = word_of_int (json_integer_value J (json_array_get J msg 1)) in
      do { asset \<leftarrow> json_array_get J msg 2;
           asset \<leftarrow> json_string_value J (Some asset);
           check (user_id \<noteq> 0);
           Some (user_id, asset) })"

definition on_balances_message :: "('d, 'j) env \<Rightarrow> string \<Rightarrow> assets \<Rightarrow> (assets \<times> push_action list) option" where
  "on_balances_message E message A =
     (case Option.bind (json_loadb (json E) message) (balances_message E) of
        None \<Rightarrow> Some (A, [])
      | Some (user_id, asset) \<Rightarrow> asset_on_update E user_id asset A)"

section \<open>Who is subscribed\<close>

definition subscribed :: "subs \<Rightarrow> u32 \<Rightarrow> ses \<Rightarrow> bool" where
  "subscribed D user_id ses \<longleftrightarrow> ses \<in> fst ` set (sub_list D user_id)"

lemma subscribed_subscribe [simp]:
  "subscribed (user_subscribe u ses name D) user_id s \<longleftrightarrow> subscribed D user_id s \<or> (user_id = u \<and> s = ses)"
  by (force simp: subscribed_def user_subscribe_def sub_list_def Let_def)

lemma subscribed_unsubscribe [simp]:
  "subscribed (user_unsubscribe u ses D) user_id s \<longleftrightarrow> subscribed D user_id s \<and> (user_id \<noteq> u \<or> s \<noteq> ses)"
  by (force simp: subscribed_def user_unsubscribe_def sub_list_def Let_def filter_empty_conv split: option.splits)

lemma send_json_to: "Send s text \<in> set (send_json E ses doc) \<Longrightarrow> s = ses"
  by (auto simp: send_json_def split: option.splits)

lemma notify_user_to: "Send s text \<in> set (notify_user E method list name params) \<Longrightarrow> s \<in> fst ` set list"
  by (force simp: notify_user_def send_notify_def Let_def dest!: send_json_to split: if_splits)

lemma order_on_update_to: "Send s text \<in> set (order_on_update E user_id event order D) \<Longrightarrow> subscribed D user_id s"
  by (auto simp: order_on_update_def subscribed_def sub_list_def split: option.splits dest!: notify_user_to)

lemma balance_reply_to: "Send s text \<in> set (on_balance_query_reply E state result A) \<Longrightarrow> subscribed (as_sub A) (fst state) s"
  by (auto simp: on_balance_query_reply_def subscribed_def sub_list_def split: option.splits dest!: notify_user_to)

lemma asset_on_update_frame:
  assumes "asset_on_update E user_id asset A = Some (A', out)"
  shows "as_sub A' = as_sub A" "Send s text \<notin> set out"
  using assms by (auto simp: asset_on_update_def split: option.splits if_splits Option.bind_splits)

end
