(* ===== verification/Push_Server.thy ===== *)
theory Push_Server
  imports Push_Depth Push_Topics Push_Users
begin

text \<open>
  The push server as a whole: logins (\<^verbatim>\<open>aw_auth.c\<close>, \<^verbatim>\<open>aw_sign.c\<close>) and
  the methods, the cache and the connections of \<^verbatim>\<open>aw_server.c\<close>. The web socket protocol
  below is that of \<open>Websocket\<close>: an event here is a whole message of a client. The jobs that ask
  the login service run in threads; their results come back as events, as do timers and packets.
\<close>

section \<open>State\<close>

text \<open>What the server keeps of a client, of a request it has passed on, and of a login it waits for.\<close>

record clt_info =
  ci_auth :: bool
  ci_user_id :: u32
  ci_source :: "string option"

record request_data =
  rq_ses :: ses
  rq_ses_id :: u64
  rq_request_id :: u64
  rq_cache_key :: "string option"

record login_data =
  lg_ses :: ses
  lg_ses_id :: u64
  lg_request_id :: u64

record ('d, 'j) push_server =
  ps_conns :: connections
  ps_info :: "ses \<Rightarrow> clt_info"
  ps_requests :: "request_data pending"
  ps_cache :: "string \<rightharpoonup> int \<times> 'j"
  ps_auth :: "login_data pending"
  ps_sign :: "login_data pending"
  ps_kline :: "'j klines"
  ps_depth :: "'j depth"
  ps_price :: "'d prices"
  ps_state :: "'j status"
  ps_today :: "'j status"
  ps_deals :: "'j deals"
  ps_order :: subs
  ps_asset :: assets

text \<open>
  What an event finds outside: the time as a timestamp and in seconds, which servers are connected,
  and the order in which an iterator yields the sessions of a dictionary.
\<close>

record outside =
  ou_timestamp :: int
  ou_time :: int
  ou_up :: "backend \<Rightarrow> bool"
  ou_walk :: "ses list \<Rightarrow> ses list"

section \<open>Logins\<close>

text \<open>\<^verbatim>\<open>SOURCE_MAX_LEN\<close> of the push server is 32.\<close>

definition SOURCE_MAX_LEN :: nat where "SOURCE_MAX_LEN = 32"

definition new_login ::
  "ses \<Rightarrow> u64 \<Rightarrow> ('d, 'j) push_server \<Rightarrow> login_data" where
  "new_login ses i S = \<lparr>lg_ses = ses, lg_ses_id = cn_id (ps_conns S) ses, lg_request_id = i\<rparr>"

definition set_source :: "ses \<Rightarrow> string \<Rightarrow> ('d, 'j) push_server \<Rightarrow> ('d, 'j) push_server" where
  "set_source ses source S = S\<lparr>ps_info := (ps_info S)(ses := (ps_info S ses)\<lparr>ci_source := Some source\<rparr>)\<rparr>"

definition send_auth_request ::
  "('d, 'j) env \<Rightarrow> ses \<Rightarrow> u64 \<Rightarrow> 'j \<Rightarrow> ('d, 'j) push_server \<Rightarrow> (('d, 'j) push_server \<times> push_action list) option" where
  "send_auth_request E ses i params S =
     (case do { check (json_array_size (json E) params = 2);
                token \<leftarrow> json_string_value (json E) (json_array_get (json E) params 0);
                source \<leftarrow> json_string_value (json E) (json_array_get (json E) params 1);
                check (\<not> length source \<ge> SOURCE_MAX_LEN);
                Some (token, source) } of
        None \<Rightarrow> Some (S, send_error_invalid_argument E ses i)
      | Some (token, source) \<Rightarrow>
          do { (entry, state) \<leftarrow> pending_new (new_login ses i S) (ps_auth S);
               Some (set_source ses source (S\<lparr>ps_auth := state\<rparr>), [Auth_job entry token]) })"

definition send_sign_request ::
  "('d, 'j) env \<Rightarrow> ses \<Rightarrow> u64 \<Rightarrow> 'j \<Rightarrow> ('d, 'j) push_server \<Rightarrow> (('d, 'j) push_server \<times> push_action list) option" where
  "send_sign_request E ses i params S =
     (case do { check (json_array_size (json E) params = 3);
                access_id \<leftarrow> json_string_value (json E) (json_array_get (json E) params 0);
                authorisation \<leftarrow> json_string_value (json E) (json_array_get (json E) params 1);
                let tonce = (word_of_int (json_integer_value (json E) (json_array_get (json E) params 2)) :: u64);
                check (tonce \<noteq> 0);
                Some (access_id, authorisation, tonce) } of
        None \<Rightarrow> Some (S, send_error_invalid_argument E ses i)
      | Some (access_id, authorisation, tonce) \<Rightarrow>
          do { (entry, state) \<leftarrow> pending_new (new_login ses i S) (ps_sign S);
               Some (set_source ses ''api'' (S\<lparr>ps_sign := state\<rparr>), [Sign_job entry access_id authorisation tonce]) })"

text \<open>
  What the login service answers: an error message, a user, or something else. The code is cut to
  the 32 bits of an \<^verbatim>\<open>int\<close>.
\<close>

datatype login_result = Login_error string | Login_user u32 | Bad_login

definition login_result :: "('d, 'j) env \<Rightarrow> 'j option \<Rightarrow> login_result" where
  "login_result E reply =
     (let J = json E in
      case do { result \<leftarrow> reply;
                code \<leftarrow> json_object_get J result ''code'';
                if sint (word_of_int (json_integer_value J (Some code)) :: u32) \<noteq> 0
                then do { message \<leftarrow> json_object_get J result ''message'';
                          map_option Login_error (json_string_value J (Some message)) }
                else do { data \<leftarrow> json_object_get J result ''data'';
                          let user_id = word_of_int (json_integer_value J (json_object_get J data ''user_id''));
                          check (user_id \<noteq> 0);
                          Some (Login_user user_id) } } of
        None \<Rightarrow> Bad_login
      | Some r \<Rightarrow> r)"

text \<open>\<^verbatim>\<open>on_result\<close>, which both files have: subscriptions of another user end with a new login.\<close>

definition on_result ::
  "('d, 'j) env \<Rightarrow> login_data \<Rightarrow> 'j option \<Rightarrow> ('d, 'j) push_server \<Rightarrow> ('d, 'j) push_server \<times> push_action list" where
  "on_result E state reply S =
     (let ses = lg_ses state; info = ps_info S ses in
      if cn_id (ps_conns S) ses \<noteq> lg_ses_id state then (S, [])
      else (case login_result E reply of
        Login_error message \<Rightarrow> (S, send_error E ses (lg_request_id state) 11 message)
      | Bad_login \<Rightarrow> (S, send_error_internal_error E ses (lg_request_id state))
      | Login_user user_id \<Rightarrow>
          let S = (if ci_auth info \<and> ci_user_id info \<noteq> user_id
                   then S\<lparr>ps_asset := asset_unsubscribe (ci_user_id info) ses (ps_asset S),
                          ps_order := order_unsubscribe (ci_user_id info) ses (ps_order S)\<rparr>
                   else S)
          in (S\<lparr>ps_info := (ps_info S)(ses := info\<lparr>ci_auth := True, ci_user_id := user_id\<rparr>)\<rparr>,
              send_success E ses (lg_request_id state))))"

definition auth_on_finish ::
  "('d, 'j) env \<Rightarrow> u32 \<Rightarrow> 'j option \<Rightarrow> ('d, 'j) push_server \<Rightarrow> ('d, 'j) push_server \<times> push_action list" where
  "auth_on_finish E entry reply S =
     (case pn_map (ps_auth S) entry of
        None \<Rightarrow> (S, [])
      | Some state \<Rightarrow> (case on_result E state reply S of (S, out) \<Rightarrow> (S\<lparr>ps_auth := pending_del entry (ps_auth S)\<rparr>, out)))"

definition sign_on_finish ::
  "('d, 'j) env \<Rightarrow> u32 \<Rightarrow> 'j option \<Rightarrow> ('d, 'j) push_server \<Rightarrow> ('d, 'j) push_server \<times> push_action list" where
  "sign_on_finish E entry reply S =
     (case pn_map (ps_sign S) entry of
        None \<Rightarrow> (S, [])
      | Some state \<Rightarrow> (case on_result E state reply S of (S, out) \<Rightarrow> (S\<lparr>ps_sign := pending_del entry (ps_sign S)\<rparr>, out)))"

definition login_on_timeout :: "('d, 'j) env \<Rightarrow> login_data \<Rightarrow> ('d, 'j) push_server \<Rightarrow> push_action list" where
  "login_on_timeout E state S =
     (if cn_id (ps_conns S) (lg_ses state) = lg_ses_id state
      then send_error_service_timeout E (lg_ses state) (lg_request_id state) else [])"

section \<open>Requests that are passed on\<close>

definition process_cache ::
  "('d, 'j) env \<Rightarrow> 'd push_settings \<Rightarrow> outside \<Rightarrow> ses \<Rightarrow> u64 \<Rightarrow> string \<Rightarrow> ('d, 'j) push_server \<Rightarrow>
   bool \<times> ('d, 'j) push_server \<times> push_action list" where
  "process_cache E st w ses i key S =
     (case ps_cache S key of
        None \<Rightarrow> (False, S, [])
      | Some (time, result) \<Rightarrow>
          if ou_timestamp w - time > cache_timeout st then (False, S\<lparr>ps_cache := (ps_cache S)(key := None)\<rparr>, [])
          else (True, S, send_result E ses i result))"

definition pass_on ::
  "backend \<Rightarrow> u32 \<Rightarrow> ses \<Rightarrow> u64 \<Rightarrow> string option \<Rightarrow> string \<Rightarrow> ('d, 'j) push_server \<Rightarrow> (('d, 'j) push_server \<times> push_action list) option" where
  "pass_on clt cmd ses i key body S =
     do { (entry, state) \<leftarrow> pending_new \<lparr>rq_ses = ses, rq_ses_id = cn_id (ps_conns S) ses, rq_request_id = i, rq_cache_key = key\<rparr>
            (ps_requests S);
          Some (S\<lparr>ps_requests := state\<rparr>, [Query clt (request_pkg cmd entry (uint i) body)]) }"

text \<open>The queries about markets are answered from a cache that is common to all clients.\<close>

definition public_query ::
  "('d, 'j) env \<Rightarrow> 'd push_settings \<Rightarrow> outside \<Rightarrow> backend \<Rightarrow> u32 \<Rightarrow> ses \<Rightarrow> u64 \<Rightarrow> 'j \<Rightarrow> ('d, 'j) push_server \<Rightarrow>
   (('d, 'j) push_server \<times> push_action list) option" where
  "public_query E st w clt cmd ses i params S =
     (if \<not> ou_up w clt then Some (S, send_error_internal_error E ses i)
      else do { params_str \<leftarrow> json_dumps (json E) params 0;
                let key = show_digits (unat cmd) @ ''-'' @ params_str;
                case process_cache E st w ses i key S of
                  (True, S, out) \<Rightarrow> Some (S, out)
                | (False, S, out) \<Rightarrow> pass_on clt cmd ses i (Some key) params_str S })"

definition on_method_kline_query ::
  "('d, 'j) env \<Rightarrow> 'd push_settings \<Rightarrow> outside \<Rightarrow> ses \<Rightarrow> u64 \<Rightarrow> 'j \<Rightarrow> ('d, 'j) push_server \<Rightarrow> (('d, 'j) push_server \<times> push_action list) option" where
  "on_method_kline_query E st w = public_query E st w Marketprice CMD_MARKET_KLINE"

definition on_method_depth_query ::
  "('d, 'j) env \<Rightarrow> 'd push_settings \<Rightarrow> outside \<Rightarrow> ses \<Rightarrow> u64 \<Rightarrow> 'j \<Rightarrow> ('d, 'j) push_server \<Rightarrow> (('d, 'j) push_server \<times> push_action list) option" where
  "on_method_depth_query E st w = public_query E st w Matchengine CMD_ORDER_BOOK_DEPTH"

definition on_method_price_query ::
  "('d, 'j) env \<Rightarrow> 'd push_settings \<Rightarrow> outside \<Rightarrow> ses \<Rightarrow> u64 \<Rightarrow> 'j \<Rightarrow> ('d, 'j) push_server \<Rightarrow> (('d, 'j) push_server \<times> push_action list) option" where
  "on_method_price_query E st w = public_query E st w Marketprice CMD_MARKET_LAST"

definition on_method_state_query ::
  "('d, 'j) env \<Rightarrow> 'd push_settings \<Rightarrow> outside \<Rightarrow> ses \<Rightarrow> u64 \<Rightarrow> 'j \<Rightarrow> ('d, 'j) push_server \<Rightarrow> (('d, 'j) push_server \<times> push_action list) option" where
  "on_method_state_query E st w = public_query E st w Marketprice CMD_MARKET_STATUS"

definition on_method_today_query ::
  "('d, 'j) env \<Rightarrow> 'd push_settings \<Rightarrow> outside \<Rightarrow> ses \<Rightarrow> u64 \<Rightarrow> 'j \<Rightarrow> ('d, 'j) push_server \<Rightarrow> (('d, 'j) push_server \<times> push_action list) option" where
  "on_method_today_query E st w = public_query E st w Marketprice CMD_MARKET_STATUS_TODAY"

definition on_method_deals_query ::
  "('d, 'j) env \<Rightarrow> 'd push_settings \<Rightarrow> outside \<Rightarrow> ses \<Rightarrow> u64 \<Rightarrow> 'j \<Rightarrow> ('d, 'j) push_server \<Rightarrow> (('d, 'j) push_server \<times> push_action list) option" where
  "on_method_deals_query E st w = public_query E st w Marketprice CMD_MARKET_DEALS"

text \<open>The queries about a user get the id of the user who is logged in as their first parameter.\<close>

definition user_query ::
  "('d, 'j) env \<Rightarrow> backend \<Rightarrow> u32 \<Rightarrow> ses \<Rightarrow> u64 \<Rightarrow> 'j list \<Rightarrow> ('d, 'j) push_server \<Rightarrow> (('d, 'j) push_server \<times> push_action list) option" where
  "user_query E clt cmd ses i params S =
     do { body \<leftarrow> json_dumps (json E) (json_array (json E) (json_integer (json E) (uint (ci_user_id (ps_info S ses))) # params)) 0;
          pass_on clt cmd ses i None body S }"

definition on_method_order_query ::
  "('d, 'j) env \<Rightarrow> outside \<Rightarrow> ses \<Rightarrow> u64 \<Rightarrow> 'j \<Rightarrow> ('d, 'j) push_server \<Rightarrow> (('d, 'j) push_server \<times> push_action list) option" where
  "on_method_order_query E w ses i params S =
     (if \<not> ou_up w Matchengine then Some (S, send_error_internal_error E ses i)
      else if \<not> ci_auth (ps_info S ses) then Some (S, send_error_require_auth E ses i)
      else (case do { check (json_array_size (json E) params = 3);
                      market \<leftarrow> json_string_value (json E) (json_array_get (json E) params 0);
                      offset \<leftarrow> int_param E params 1;
                      limit \<leftarrow> int_param E params 2;
                      Some (market, sint (word_of_int offset :: u32), sint (word_of_int limit :: u32)) } of
              None \<Rightarrow> Some (S, send_error_invalid_argument E ses i)
            | Some (market, offset, limit) \<Rightarrow>
                user_query E Matchengine CMD_ORDER_QUERY ses i
                  [json_string (json E) market, json_integer (json E) offset, json_integer (json E) limit] S))"

definition on_method_order_history ::
  "('d, 'j) env \<Rightarrow> outside \<Rightarrow> ses \<Rightarrow> u64 \<Rightarrow> 'j \<Rightarrow> ('d, 'j) push_server \<Rightarrow> (('d, 'j) push_server \<times> push_action list) option" where
  "on_method_order_history E w ses i params S =
     (if \<not> ou_up w Readhistory then Some (S, send_error_internal_error E ses i)
      else if \<not> ci_auth (ps_info S ses) then Some (S, send_error_require_auth E ses i)
      else if json_array_size (json E) params \<noteq> 6 then Some (S, send_error_invalid_argument E ses i)
      else user_query E Readhistory CMD_ORDER_HISTORY ses i (json_items E params) S)"

definition on_method_asset_query ::
  "('d, 'j) env \<Rightarrow> outside \<Rightarrow> ses \<Rightarrow> u64 \<Rightarrow> 'j \<Rightarrow> ('d, 'j) push_server \<Rightarrow> (('d, 'j) push_server \<times> push_action list) option" where
  "on_method_asset_query E w ses i params S =
     (if \<not> ci_auth (ps_info S ses) then Some (S, send_error_require_auth E ses i)
      else if \<not> ou_up w Matchengine then Some (S, send_error_internal_error E ses i)
      else user_query E Matchengine CMD_BALANCE_QUERY ses i (json_items E params) S)"

definition on_method_asset_history ::
  "('d, 'j) env \<Rightarrow> outside \<Rightarrow> ses \<Rightarrow> u64 \<Rightarrow> 'j \<Rightarrow> ('d, 'j) push_server \<Rightarrow> (('d, 'j) push_server \<times> push_action list) option" where
  "on_method_asset_history E w ses i params S =
     (if \<not> ou_up w Readhistory then Some (S, send_error_internal_error E ses i)
      else if \<not> ci_auth (ps_info S ses) then Some (S, send_error_require_auth E ses i)
      else if json_array_size (json E) params \<noteq> 6 then Some (S, send_error_invalid_argument E ses i)
      else user_query E Readhistory CMD_BALANCE_HISTORY ses i (json_items E params) S)"

section \<open>Subscriptions of users\<close>

definition user_subscriptions ::
  "('d, 'j) env \<Rightarrow> nat \<Rightarrow> ses \<Rightarrow> u64 \<Rightarrow> 'j \<Rightarrow> (string \<Rightarrow> 't \<Rightarrow> 't) \<Rightarrow> 't \<Rightarrow> 't \<times> push_action list" where
  "user_subscriptions E max_len ses i params subscribe t =
     (case each_name subscribe (map (name_param E max_len params) [0..<json_array_size (json E) params]) t of
        (False, t) \<Rightarrow> (t, send_error_invalid_argument E ses i)
      | (True, t) \<Rightarrow> (t, send_success E ses i))"

definition on_method_order_subscribe ::
  "('d, 'j) env \<Rightarrow> ses \<Rightarrow> u64 \<Rightarrow> 'j \<Rightarrow> ('d, 'j) push_server \<Rightarrow> ('d, 'j) push_server \<times> push_action list" where
  "on_method_order_subscribe E ses i params S =
     (let info = ps_info S ses in
      if \<not> ci_auth info then (S, send_error_require_auth E ses i)
      else (case user_subscriptions E MARKET_NAME_MAX_LEN ses i params (order_subscribe (ci_user_id info) ses)
               (order_unsubscribe (ci_user_id info) ses (ps_order S)) of
              (D, out) \<Rightarrow> (S\<lparr>ps_order := D\<rparr>, out)))"

definition on_method_order_unsubscribe ::
  "('d, 'j) env \<Rightarrow> ses \<Rightarrow> u64 \<Rightarrow> ('d, 'j) push_server \<Rightarrow> ('d, 'j) push_server \<times> push_action list" where
  "on_method_order_unsubscribe E ses i S =
     (let info = ps_info S ses in
      if \<not> ci_auth info then (S, send_error_require_auth E ses i)
      else (S\<lparr>ps_order := order_unsubscribe (ci_user_id info) ses (ps_order S)\<rparr>, send_success E ses i))"

definition on_method_asset_subscribe ::
  "('d, 'j) env \<Rightarrow> ses \<Rightarrow> u64 \<Rightarrow> 'j \<Rightarrow> ('d, 'j) push_server \<Rightarrow> ('d, 'j) push_server \<times> push_action list" where
  "on_method_asset_subscribe E ses i params S =
     (let info = ps_info S ses in
      if \<not> ci_auth info then (S, send_error_require_auth E ses i)
      else (case user_subscriptions E Push.ASSET_NAME_MAX_LEN ses i params (asset_subscribe (ci_user_id info) ses)
               (asset_unsubscribe (ci_user_id info) ses (ps_asset S)) of
              (A, out) \<Rightarrow> (S\<lparr>ps_asset := A\<rparr>, out)))"

definition on_method_asset_unsubscribe ::
  "('d, 'j) env \<Rightarrow> ses \<Rightarrow> u64 \<Rightarrow> ('d, 'j) push_server \<Rightarrow> ('d, 'j) push_server \<times> push_action list" where
  "on_method_asset_unsubscribe E ses i S =
     (let info = ps_info S ses in
      if \<not> ci_auth info then (S, send_error_require_auth E ses i)
      else (S\<lparr>ps_asset := asset_unsubscribe (ci_user_id info) ses (ps_asset S)\<rparr>, send_success E ses i))"

section \<open>Methods\<close>

definition on_method_server_ping :: "('d, 'j) env \<Rightarrow> ses \<Rightarrow> u64 \<Rightarrow> push_action list" where
  "on_method_server_ping E ses i = send_result E ses i (json_string (json E) ''pong'')"

definition on_method_server_time :: "('d, 'j) env \<Rightarrow> outside \<Rightarrow> ses \<Rightarrow> u64 \<Rightarrow> push_action list" where
  "on_method_server_time E w ses i = send_result E ses i (json_integer (json E) (ou_time w))"

text \<open>The table of methods: a handler gets the session, the id of the request, the parameters and the state.\<close>

type_synonym ('d, 'j) handler = "ses \<Rightarrow> u64 \<Rightarrow> 'j \<Rightarrow> ('d, 'j) push_server \<Rightarrow> (('d, 'j) push_server \<times> push_action list) option"

definition method_map :: "('d, 'j) env \<Rightarrow> 'd push_settings \<Rightarrow> outside \<Rightarrow> (string \<times> ('d, 'j) handler) list" where
  "method_map E st w = [
     (''server.ping'', \<lambda>ses i params S. Some (S, on_method_server_ping E ses i)),
     (''server.time'', \<lambda>ses i params S. Some (S, on_method_server_time E w ses i)),
     (''server.auth'', send_auth_request E),
     (''server.sign'', send_sign_request E),
     (''kline.query'', on_method_kline_query E st w),
     (''kline.subscribe'', \<lambda>ses i params S. Some (map_prod (\<lambda>tp. S\<lparr>ps_kline := tp\<rparr>) id (on_method_kline_subscribe E ses i params (ps_kline S)))),
     (''kline.unsubscribe'', \<lambda>ses i params S. Some (map_prod (\<lambda>tp. S\<lparr>ps_kline := tp\<rparr>) id (on_method_kline_unsubscribe E ses i (ps_kline S)))),
     (''depth.query'', on_method_depth_query E st w),
     (''depth.subscribe'', \<lambda>ses i params S. Some (map_prod (\<lambda>tp. S\<lparr>ps_depth := tp\<rparr>) id (on_method_depth_subscribe E st ses i params (ps_depth S)))),
     (''depth.unsubscribe'', \<lambda>ses i params S. Some (map_prod (\<lambda>tp. S\<lparr>ps_depth := tp\<rparr>) id (on_method_depth_unsubscribe E ses i (ps_depth S)))),
     (''price.query'', on_method_price_query E st w),
     (''price.subscribe'', \<lambda>ses i params S. Some (map_prod (\<lambda>tp. S\<lparr>ps_price := tp\<rparr>) id (on_method_price_subscribe E ses i params (ps_price S)))),
     (''price.unsubscribe'', \<lambda>ses i params S. Some (map_prod (\<lambda>tp. S\<lparr>ps_price := tp\<rparr>) id (on_method_price_unsubscribe E ses i (ps_price S)))),
     (''state.query'', on_method_state_query E st w),
     (''state.subscribe'', \<lambda>ses i params S. Some (map_prod (\<lambda>tp. S\<lparr>ps_state := tp\<rparr>) id (on_method_state_subscribe E ses i params (ps_state S)))),
     (''state.unsubscribe'', \<lambda>ses i params S. Some (map_prod (\<lambda>tp. S\<lparr>ps_state := tp\<rparr>) id (on_method_state_unsubscribe E ses i (ps_state S)))),
     (''today.query'', on_method_today_query E st w),
     (''today.subscribe'', \<lambda>ses i params S. Some (map_prod (\<lambda>tp. S\<lparr>ps_today := tp\<rparr>) id (on_method_today_subscribe E ses i params (ps_today S)))),
     (''today.unsubscribe'', \<lambda>ses i params S. Some (map_prod (\<lambda>tp. S\<lparr>ps_today := tp\<rparr>) id (on_method_today_unsubscribe E ses i (ps_today S)))),
     (''deals.query'', on_method_deals_query E st w),
     (''deals.subscribe'', \<lambda>ses i params S. Some (map_prod (\<lambda>tp. S\<lparr>ps_deals := tp\<rparr>) id (on_method_deals_subscribe E ses i params (ps_deals S)))),
     (''deals.unsubscribe'', \<lambda>ses i params S. Some (map_prod (\<lambda>tp. S\<lparr>ps_deals := tp\<rparr>) id (on_method_deals_unsubscribe E ses i (ps_deals S)))),
     (''order.query'', on_method_order_query E w),
     (''order.history'', on_method_order_history E w),
     (''order.subscribe'', \<lambda>ses i params S. Some (on_method_order_subscribe E ses i params S)),
     (''order.unsubscribe'', \<lambda>ses i params S. Some (on_method_order_unsubscribe E ses i S)),
     (''asset.query'', on_method_asset_query E w),
     (''asset.history'', on_method_asset_history E w),
     (''asset.subscribe'', \<lambda>ses i params S. Some (on_method_asset_subscribe E ses i params S)),
     (''asset.unsubscribe'', \<lambda>ses i params S. Some (on_method_asset_unsubscribe E ses i S))]"

section \<open>Clients\<close>

text \<open>A message that cannot be decoded is answered with -1, and the web socket server closes the session.\<close>

definition decode_message :: "('d, 'j) env \<Rightarrow> string \<Rightarrow> (u64 \<times> string \<times> 'j) option" where
  "decode_message E message =
     (let J = json E in
      do { msg \<leftarrow> json_loadb J message;
           i \<leftarrow> json_object_get J msg ''id'';
           check (json_is_integer J (Some i));
           name \<leftarrow> json_object_get J msg ''method'';
           check (json_is_string J (Some name));
           params \<leftarrow> json_object_get J msg ''params'';
           check (json_is_array J params);
           name \<leftarrow> json_string_value J (Some name);
           Some (word_of_int (json_integer_value J (Some i)), name, params) })"

definition on_message ::
  "('d, 'j) env \<Rightarrow> 'd push_settings \<Rightarrow> outside \<Rightarrow> ses \<Rightarrow> string \<Rightarrow> ('d, 'j) push_server \<Rightarrow>
   (int \<times> ('d, 'j) push_server \<times> push_action list) option" where
  "on_message E st w ses message S =
     (case decode_message E message of
        None \<Rightarrow> Some (- 1, S, [])
      | Some (i, name, params) \<Rightarrow>
          (case map_of (method_map E st w) name of
             None \<Rightarrow> Some (0, S, [])
           | Some handler \<Rightarrow> map_option (Pair 0) (handler ses i params S)))"

definition on_upgrade :: "ses \<Rightarrow> ('d, 'j) push_server \<Rightarrow> ('d, 'j) push_server" where
  "on_upgrade ses S = S\<lparr>ps_info := (ps_info S)(ses := \<lparr>ci_auth = False, ci_user_id = 0, ci_source = None\<rparr>)\<rparr>"

definition on_close :: "bool \<Rightarrow> ses \<Rightarrow> ('d, 'j) push_server \<Rightarrow> ('d, 'j) push_server" where
  "on_close found ses S =
     (let S = S\<lparr>ps_kline := kline_unsubscribe found ses (ps_kline S), ps_depth := depth_unsubscribe found ses (ps_depth S),
            ps_price := price_unsubscribe found ses (ps_price S), ps_today := today_unsubscribe found ses (ps_today S),
            ps_deals := deals_unsubscribe found ses (ps_deals S)\<rparr>;
          info = ps_info S ses
      in if ci_auth info
         then S\<lparr>ps_order := order_unsubscribe (ci_user_id info) ses (ps_order S),
                ps_asset := asset_unsubscribe (ci_user_id info) ses (ps_asset S)\<rparr>
         else S)"

section \<open>Answers of the other servers\<close>

definition on_timeout :: "('d, 'j) env \<Rightarrow> request_data \<Rightarrow> ('d, 'j) push_server \<Rightarrow> push_action list" where
  "on_timeout E state S =
     (if cn_id (ps_conns S) (rq_ses state) = rq_ses_id state
      then send_error_service_timeout E (rq_ses state) (rq_request_id state) else [])"

definition on_backend_recv_pkg ::
  "('d, 'j) env \<Rightarrow> outside \<Rightarrow> rpc_pkg \<Rightarrow> ('d, 'j) push_server \<Rightarrow> ('d, 'j) push_server \<times> push_action list" where
  "on_backend_recv_pkg E w pkg S =
     (case pn_map (ps_requests S) (pkg_sequence pkg) of
        None \<Rightarrow> (S, [])
      | Some state \<Rightarrow>
          let out = (if cn_id (ps_conns S) (rq_ses state) = rq_ses_id state then [Send (rq_ses state) (pkg_text pkg)] else []);
              cache = (case do { key \<leftarrow> rq_cache_key state;
                                 reply \<leftarrow> json_loadb (json E) (pkg_text pkg);
                                 check (json_is_object (json E) (Some reply));
                                 result \<leftarrow> json_object_get (json E) reply ''result'';
                                 check (\<not> json_is_null (json E) (Some result));
                                 Some (key, result) } of
                         None \<Rightarrow> ps_cache S
                       | Some (key, result) \<Rightarrow> (ps_cache S)(key \<mapsto> (ou_timestamp w, result)))
          in (S\<lparr>ps_cache := cache, ps_requests := pending_del (pkg_sequence pkg) (ps_requests S)\<rparr>, out))"

definition on_cache_timer :: "('d, 'j) push_server \<Rightarrow> ('d, 'j) push_server" where
  "on_cache_timer S = S\<lparr>ps_cache := Map.empty\<rparr>"

definition init_push_server :: "('d, 'j) push_server" where
  "init_push_server = \<lparr>ps_conns = nw_svr_create, ps_info = (\<lambda>_. \<lparr>ci_auth = False, ci_user_id = 0, ci_source = None\<rparr>),
     ps_requests = no_pending, ps_cache = Map.empty, ps_auth = no_pending, ps_sign = no_pending, ps_kline = init_topic,
     ps_depth = init_topic, ps_price = init_topic, ps_state = init_topic, ps_today = init_topic, ps_deals = init_topic,
     ps_order = Map.empty, ps_asset = init_asset\<rparr>"

end
