(* ===== verification/Push_Sessions.thy ===== *)
theory Push_Sessions
  imports Push_Server
begin

text \<open>
  The event loop of the push server, and what holds in every run of it: who is logged in is decided
  by the answers of the login service alone, what concerns a user is sent to connections of this user
  alone, and a connection that is closed is subscribed to nothing, with two exceptions: the state of
  markets, which \<^verbatim>\<open>on_close\<close> forgets, and sessions that the dictionaries did not find when
  they were closed (\<open>left_behind\<close>).
\<close>

section \<open>The event loop\<close>

datatype login = Auth | Sign

datatype market_topic = Price_topic | State_topic | Today_topic | Deals_topic | Kline_topic | Depth_topic

datatype 'j push_event =
  Open ses | Shut ses bool | Client ses string | Packet rpc_pkg | Timeout u32 | Cache_tick
| Login_done login u32 "'j option" | Login_timeout login u32
| Orders string | Balances string | Asset_packet rpc_pkg | Asset_timeout u32
| Topic_packet market_topic rpc_pkg | Topic_timeout market_topic u32
| Market_tick market_topic "string list" | Kline_tick "kline_key list" | Depth_tick "depth_key list"

text \<open>
  A session is closed from outside its own messages, the flag telling whether the dictionaries find it
  then, or, with \<open>Hang_up\<close>, while it handles a message.
\<close>

definition shut :: "bool \<Rightarrow> ses \<Rightarrow> ('d, 'j) push_server \<Rightarrow> ('d, 'j) push_server" where
  "shut found ses S = (let S = on_close found ses S in S\<lparr>ps_conns := nw_svr_close_ses ses (ps_conns S)\<rparr>)"

definition logins :: "login \<Rightarrow> ('d, 'j) push_server \<Rightarrow> login_data pending" where
  "logins k S = (case k of Auth \<Rightarrow> ps_auth S | Sign \<Rightarrow> ps_sign S)"

definition on_finish :: "('d, 'j) env \<Rightarrow> login \<Rightarrow> u32 \<Rightarrow> 'j option \<Rightarrow> ('d, 'j) push_server \<Rightarrow> ('d, 'j) push_server \<times> push_action list" where
  "on_finish E k = (case k of Auth \<Rightarrow> auth_on_finish E | Sign \<Rightarrow> sign_on_finish E)"

definition drop_login :: "login \<Rightarrow> u32 \<Rightarrow> ('d, 'j) push_server \<Rightarrow> ('d, 'j) push_server" where
  "drop_login k q S = (case k of Auth \<Rightarrow> S\<lparr>ps_auth := pending_del q (ps_auth S)\<rparr> | Sign \<Rightarrow> S\<lparr>ps_sign := pending_del q (ps_sign S)\<rparr>)"

fun topic_packet ::
  "('d, 'j) env \<Rightarrow> outside \<Rightarrow> market_topic \<Rightarrow> rpc_pkg \<Rightarrow> ('d, 'j) push_server \<Rightarrow> (('d, 'j) push_server \<times> push_action list) option" where
  "topic_packet E w Price_topic pkg S = map_option (map_prod (\<lambda>tp. S\<lparr>ps_price := tp\<rparr>) id) (price_recv_pkg E (ou_walk w) pkg (ps_price S))"
| "topic_packet E w State_topic pkg S = map_option (map_prod (\<lambda>tp. S\<lparr>ps_state := tp\<rparr>) id) (state_recv_pkg E (ou_walk w) pkg (ps_state S))"
| "topic_packet E w Today_topic pkg S = map_option (map_prod (\<lambda>tp. S\<lparr>ps_today := tp\<rparr>) id) (today_recv_pkg E (ou_walk w) pkg (ps_today S))"
| "topic_packet E w Deals_topic pkg S = map_option (map_prod (\<lambda>tp. S\<lparr>ps_deals := tp\<rparr>) id) (deals_recv_pkg E (ou_walk w) pkg (ps_deals S))"
| "topic_packet E w Kline_topic pkg S = map_option (map_prod (\<lambda>tp. S\<lparr>ps_kline := tp\<rparr>) id) (kline_recv_pkg E (ou_walk w) pkg (ps_kline S))"
| "topic_packet E w Depth_topic pkg S = map_option (map_prod (\<lambda>tp. S\<lparr>ps_depth := tp\<rparr>) id) (depth_recv_pkg E (ou_walk w) (ou_time w) pkg (ps_depth S))"

fun topic_expire :: "market_topic \<Rightarrow> u32 \<Rightarrow> ('d, 'j) push_server \<Rightarrow> ('d, 'j) push_server" where
  "topic_expire Price_topic q S = S\<lparr>ps_price := topic_timeout q (ps_price S)\<rparr>"
| "topic_expire State_topic q S = S\<lparr>ps_state := topic_timeout q (ps_state S)\<rparr>"
| "topic_expire Today_topic q S = S\<lparr>ps_today := topic_timeout q (ps_today S)\<rparr>"
| "topic_expire Deals_topic q S = S\<lparr>ps_deals := topic_timeout q (ps_deals S)\<rparr>"
| "topic_expire Kline_topic q S = S\<lparr>ps_kline := topic_timeout q (ps_kline S)\<rparr>"
| "topic_expire Depth_topic q S = S\<lparr>ps_depth := topic_timeout q (ps_depth S)\<rparr>"

text \<open>The timers of candles and order books have their own keys.\<close>

fun market_tick ::
  "('d, 'j) env \<Rightarrow> market_topic \<Rightarrow> string list \<Rightarrow> ('d, 'j) push_server \<Rightarrow> (('d, 'j) push_server \<times> push_action list) option" where
  "market_tick E Price_topic keys S = map_option (map_prod (\<lambda>tp. S\<lparr>ps_price := tp\<rparr>) id) (price_on_timer E keys (ps_price S))"
| "market_tick E State_topic keys S = map_option (map_prod (\<lambda>tp. S\<lparr>ps_state := tp\<rparr>) id) (state_on_timer E keys (ps_state S))"
| "market_tick E Today_topic keys S = map_option (map_prod (\<lambda>tp. S\<lparr>ps_today := tp\<rparr>) id) (today_on_timer E keys (ps_today S))"
| "market_tick E Deals_topic keys S = map_option (map_prod (\<lambda>tp. S\<lparr>ps_deals := tp\<rparr>) id) (deals_on_timer E keys (ps_deals S))"
| "market_tick E k keys S = Some (S, [])"

fun push_step ::
  "('d, 'j) env \<Rightarrow> 'd push_settings \<Rightarrow> outside \<times> 'j push_event \<Rightarrow> ('d, 'j) push_server \<Rightarrow> (('d, 'j) push_server \<times> push_action list) option" where
  "push_step E st (w, Open ses) S =
     Some (if cn_id (ps_conns S) ses = 0 then on_upgrade ses (S\<lparr>ps_conns := nw_svr_add_ses ses (ps_conns S)\<rparr>) else S, [])"
| "push_step E st (w, Shut ses found) S = Some (if cn_id (ps_conns S) ses = 0 then S else shut found ses S, [])"
| "push_step E st (w, Client ses message) S =
     (if cn_id (ps_conns S) ses = 0 then Some (S, [])
      else map_option (\<lambda>(ret, S, out). if ret < 0 then (shut True ses S, out @ [Hang_up ses]) else (S, out)) (on_message E st w ses message S))"
| "push_step E st (w, Packet pkg) S = Some (on_backend_recv_pkg E w pkg S)"
| "push_step E st (w, Timeout q) S =
     Some (S\<lparr>ps_requests := pending_del q (ps_requests S)\<rparr>,
       case pn_map (ps_requests S) q of None \<Rightarrow> [] | Some state \<Rightarrow> on_timeout E state S)"
| "push_step E st (w, Cache_tick) S = Some (on_cache_timer S, [])"
| "push_step E st (w, Login_done k q reply) S = Some (on_finish E k q reply S)"
| "push_step E st (w, Login_timeout k q) S =
     Some (drop_login k q S, case pn_map (logins k S) q of None \<Rightarrow> [] | Some state \<Rightarrow> login_on_timeout E state S)"
| "push_step E st (w, Orders message) S =
     map_option (\<lambda>((D, A), out). (S\<lparr>ps_order := D, ps_asset := A\<rparr>, out)) (on_orders_message E message (ps_order S, ps_asset S))"
| "push_step E st (w, Balances message) S =
     map_option (map_prod (\<lambda>A. S\<lparr>ps_asset := A\<rparr>) id) (on_balances_message E message (ps_asset S))"
| "push_step E st (w, Asset_packet pkg) S = Some (map_prod (\<lambda>A. S\<lparr>ps_asset := A\<rparr>) id (asset_recv_pkg E pkg (ps_asset S)))"
| "push_step E st (w, Asset_timeout q) S =
     Some (S\<lparr>ps_asset := (ps_asset S)\<lparr>as_state := pending_del q (as_state (ps_asset S))\<rparr>\<rparr>, [])"
| "push_step E st (w, Topic_packet k pkg) S = topic_packet E w k pkg S"
| "push_step E st (w, Topic_timeout k q) S = Some (topic_expire k q S, [])"
| "push_step E st (w, Market_tick k keys) S = market_tick E k keys S"
| "push_step E st (w, Kline_tick keys) S =
     map_option (map_prod (\<lambda>tp. S\<lparr>ps_kline := tp\<rparr>) id) (kline_on_timer E st (\<lambda>_. ou_time w) keys (ps_kline S))"
| "push_step E st (w, Depth_tick keys) S =
     map_option (map_prod (\<lambda>tp. S\<lparr>ps_depth := tp\<rparr>) id) (depth_on_timer E keys (ps_depth S))"

text \<open>A run keeps what has happened and was done, the newest first.\<close>

type_synonym 'j push_past = "('j push_event \<times> push_action list) list"

fun push_run ::
  "('d, 'j) env \<Rightarrow> 'd push_settings \<Rightarrow> (outside \<times> 'j push_event) list \<Rightarrow> ('d, 'j) push_server \<times> 'j push_past \<Rightarrow>
   (('d, 'j) push_server \<times> 'j push_past) option" where
  "push_run E st [] (S, past) = Some (S, past)"
| "push_run E st (e # es) (S, past) =
     (case push_step E st e S of
        None \<Rightarrow> None
      | Some (S, out) \<Rightarrow> push_run E st es (S, (snd e, out) # past))"

section \<open>Who is logged in\<close>

text \<open>
  What has happened tells which connection waits for the answer to a login with the number \<open>q\<close>, and
  as which user a connection is logged in: the one in the last good answer to a login that the
  connection itself has asked for.
\<close>

definition closes :: "'j push_event \<Rightarrow> push_action list \<Rightarrow> ses \<Rightarrow> bool" where
  "closes e out s \<longleftrightarrow> (\<exists>found. e = Shut s found) \<or> Hang_up s \<in> set out"

text \<open>A session that was closed and not found.\<close>

definition left_behind :: "ses \<Rightarrow> 'j push_past \<Rightarrow> bool" where
  "left_behind s past \<longleftrightarrow> (\<exists>out. (Shut s False, out) \<in> set past)"

lemma left_behind_simps [simp]: "\<not> left_behind s []" "left_behind s ((e, out) # past) \<longleftrightarrow> e = Shut s False \<or> left_behind s past"
  by (auto simp: left_behind_def)

definition asks :: "login \<Rightarrow> u32 \<Rightarrow> push_action list \<Rightarrow> bool" where
  "asks k q out \<longleftrightarrow> (case k of Auth \<Rightarrow> \<exists>t. Auth_job q t \<in> set out | Sign \<Rightarrow> \<exists>a b t. Sign_job q a b t \<in> set out)"

fun ends_login :: "login \<Rightarrow> u32 \<Rightarrow> 'j push_event \<Rightarrow> bool" where
  "ends_login k q (Login_done k' q' reply) \<longleftrightarrow> k' = k \<and> q' = q"
| "ends_login k q (Login_timeout k' q') \<longleftrightarrow> k' = k \<and> q' = q"
| "ends_login k q e \<longleftrightarrow> False"

fun login_of :: "login \<Rightarrow> u32 \<Rightarrow> 'j push_past \<Rightarrow> ses option" where
  "login_of k q [] = None"
| "login_of k q ((e, out) # past) =
     (if ends_login k q e then None
      else if asks k q out then (case e of Client s message \<Rightarrow> Some s | _ \<Rightarrow> None)
      else (case login_of k q past of None \<Rightarrow> None | Some s \<Rightarrow> if closes e out s then None else Some s))"

fun logged_in :: "('d, 'j) env \<Rightarrow> ses \<Rightarrow> 'j push_past \<Rightarrow> u32 option" where
  "logged_in E s [] = None"
| "logged_in E s ((e, out) # past) =
     (if closes e out s then None
      else (case e of
        Login_done k q reply \<Rightarrow>
          (case (login_of k q past, login_result E reply) of
             (Some s', Login_user user_id) \<Rightarrow> if s' = s then Some user_id else logged_in E s past
           | _ \<Rightarrow> logged_in E s past)
      | _ \<Rightarrow> logged_in E s past))"

section \<open>What handlers leave alone\<close>

definition watchers :: "('k, 'v) topic \<Rightarrow> ses set" where
  "watchers tp = {s. \<exists>k S v. tp_dict tp k = Some (S, v) \<and> s \<in> set S}"

lemma watchers_subscribe: "watchers (topic_subscribe v ses key tp) \<subseteq> insert ses (watchers tp)"
  by (fastforce simp: watchers_def topic_subscribe_dict split: if_splits option.splits)

lemma watchers_unsubscribe [simp]: "watchers (topic_unsubscribe found ses tp) = (if found then watchers tp - {ses} else watchers tp)"
  by (force simp: watchers_def topic_unsubscribe_dict)

lemma watchers_same: "(\<And>k. tp_dict tp' k = tp_dict tp k \<or> (\<exists>S v v'. tp_dict tp k = Some (S, v) \<and> tp_dict tp' k = Some (S, v')) \<or> tp_dict tp' k = None) \<Longrightarrow>
    watchers tp' \<subseteq> watchers tp"
  unfolding watchers_def by (smt (verit) Collect_mono Pair_inject not_None_eq option.inject)

lemma watchers_timer:
  assumes "topic_timer E clt cmd params keys tp = Some (tp', out)"
  shows "watchers tp' \<subseteq> watchers tp" "Send s text \<notin> set out" "Hang_up s \<notin> set out" "\<not> asks k q out"
proof -
  note F = topic_timer_frame [OF assms]
  show "watchers tp' \<subseteq> watchers tp" by (rule watchers_same) (use conjunct2 [OF F] in metis)
  show "Send s text \<notin> set out" "Hang_up s \<notin> set out" "\<not> asks k q out" using conjunct1 [OF F] by (auto simp: asks_def split: login.splits)
qed

lemma watchers_recv:
  assumes "topic_recv_pkg E cmd on_reply pkg tp = Some (tp', out)"
  shows "watchers tp' \<subseteq> watchers tp"
  using assms by (cases rule: topic_recv_pkg_cases) (auto intro!: watchers_same split: if_splits)

lemma watchers_each_name:
  "(\<And>name t. watchers (f name t) \<subseteq> insert ses (watchers t)) \<Longrightarrow> watchers (snd (each_name f names tp)) \<subseteq> insert ses (watchers tp)"
proof (induction f names tp rule: each_name.induct)
  case (3 f name names tp)
  then have "watchers (snd (each_name f names (f name tp))) \<subseteq> insert ses (watchers (f name tp))" by blast
  then show ?case using "3.prems" [of name tp] by auto
qed auto

text \<open>Actions of the ordinary kind are no requests to the login service and close nothing.\<close>

definition plain_out :: "push_action list \<Rightarrow> bool" where
  "plain_out out \<longleftrightarrow> (\<forall>a\<in>set out. (\<exists>s t. a = Send s t) \<or> (\<exists>b pkg. a = Query b pkg))"

lemma plain_out_simps [simp]:
  "plain_out []" "plain_out (Send s t # out) = plain_out out" "plain_out (Query b pkg # out) = plain_out out"
  "plain_out (out @ out') \<longleftrightarrow> plain_out out \<and> plain_out out'" "plain_out (concat outs) \<longleftrightarrow> (\<forall>out\<in>set outs. plain_out out)"
  "\<not> plain_out (Hang_up s # out)" "\<not> plain_out (Auth_job q a # out)" "\<not> plain_out (Sign_job q a a2 c # out)"
  by (auto simp: plain_out_def)

lemma plain_sends [simp]:
  "plain_out (send_json E ses doc)" "plain_out (send_error E ses i code m)" "plain_out (send_error_invalid_argument E ses i)"
  "plain_out (send_error_internal_error E ses i)" "plain_out (send_error_service_timeout E ses i)" "plain_out (send_error_require_auth E ses i)"
  "plain_out (send_result E ses i r)" "plain_out (send_success E ses i)" "plain_out (send_notify E ses m params)"
  "plain_out (notify_all E walk sessions m params)" "plain_out (notify_user E m list name params)"
proof -
  show j: "plain_out (send_json E ses doc)" for ses doc by (simp add: send_json_def split: option.splits)
  show "plain_out (send_error E ses i code m)" "plain_out (send_error_invalid_argument E ses i)"
    "plain_out (send_error_internal_error E ses i)" "plain_out (send_error_service_timeout E ses i)" "plain_out (send_error_require_auth E ses i)"
    "plain_out (send_result E ses i r)" "plain_out (send_success E ses i)"
    by (simp_all add: send_error_def send_error_invalid_argument_def send_error_internal_error_def send_error_service_timeout_def
        send_error_require_auth_def send_result_def send_success_def Let_def j)
  show n: "plain_out (send_notify E ses m params)" for ses m params by (simp add: send_notify_def Let_def j)
  show "plain_out (notify_all E walk sessions m params)" "plain_out (notify_user E m list name params)"
    by (auto simp: notify_all_def notify_user_def n split: if_splits)
qed

lemma plain_outD: "plain_out out \<Longrightarrow> \<not> asks k q out \<and> Hang_up s \<notin> set out"
  by (auto simp: plain_out_def asks_def split: login.splits)

text \<open>
  What the handler of a message of \<open>ses\<close> may do to the parts the invariant is about: sessions and
  logins stay, but for a new request to the login service, and only \<open>ses\<close> is newly subscribed, to
  the data of the user it is logged in as.
\<close>

definition all_watchers :: "('d, 'j) push_server \<Rightarrow> ses set" where
  "all_watchers S = watchers (ps_kline S) \<union> watchers (ps_depth S) \<union> watchers (ps_price S) \<union> watchers (ps_today S) \<union> watchers (ps_deals S)"

definition user_of :: "('d, 'j) push_server \<Rightarrow> ses \<Rightarrow> u32 option" where
  "user_of S s = (if ci_auth (ps_info S s) then Some (ci_user_id (ps_info S s)) else None)"

definition message_frame :: "ses \<Rightarrow> ('d, 'j) push_server \<Rightarrow> ('d, 'j) push_server \<Rightarrow> push_action list \<Rightarrow> bool" where
  "message_frame ses S S' out \<longleftrightarrow> ps_conns S' = ps_conns S \<and> user_of S' = user_of S \<and>
     (\<forall>k q. if asks k q out then pn_map (logins k S) q = None \<and> (\<exists>i. pn_map (logins k S') q = Some (new_login ses i S))
        else pn_map (logins k S') q = pn_map (logins k S) q) \<and>
     (\<forall>u s. subscribed (ps_order S') u s \<longrightarrow> subscribed (ps_order S) u s \<or> (s = ses \<and> user_of S ses = Some u)) \<and>
     (\<forall>u s. subscribed (as_sub (ps_asset S')) u s \<longrightarrow> subscribed (as_sub (ps_asset S)) u s \<or> (s = ses \<and> user_of S ses = Some u)) \<and>
     as_state (ps_asset S') = as_state (ps_asset S) \<and>
     all_watchers S' \<subseteq> insert ses (all_watchers S) \<and> (\<forall>s. Hang_up s \<notin> set out)"

text \<open>A handler without a login.\<close>

lemma quiet_frame:
  assumes "plain_out out" "ps_conns S' = ps_conns S" "ps_info S' = ps_info S" "ps_auth S' = ps_auth S" "ps_sign S' = ps_sign S"
    and "\<And>u s. subscribed (ps_order S') u s \<Longrightarrow> subscribed (ps_order S) u s \<or> (s = ses \<and> user_of S ses = Some u)"
    and "\<And>u s. subscribed (as_sub (ps_asset S')) u s \<Longrightarrow> subscribed (as_sub (ps_asset S)) u s \<or> (s = ses \<and> user_of S ses = Some u)"
    and "as_state (ps_asset S') = as_state (ps_asset S)" "all_watchers S' \<subseteq> insert ses (all_watchers S)"
  shows "message_frame ses S S' out"
  using assms plain_outD [OF assms(1)] by (simp add: message_frame_def user_of_def fun_eq_iff logins_def split: login.splits)

lemma same_frame: "plain_out out \<Longrightarrow> message_frame ses S S out"
  by (rule quiet_frame) auto

section \<open>The handlers\<close>

named_theorems handler_frames \<open>what the methods do to sessions, logins and subscriptions\<close>

lemma pass_on_frame: "pass_on clt cmd s i key body S = Some (S', out) \<Longrightarrow> message_frame ses S S' out"
  by (auto simp: pass_on_def all_watchers_def intro!: quiet_frame split: Option.bind_splits)

lemma process_cache_frame:
  "process_cache E st w s i key S = (b, S1, out1) \<Longrightarrow> message_frame ses S S1 out1 \<and>
     (pass_on clt cmd s i (Some key) body S1 = Some (S', out) \<longrightarrow> message_frame ses S S' out)"
  by (auto simp: process_cache_def pass_on_def all_watchers_def intro!: quiet_frame split: option.splits if_splits Option.bind_splits prod.splits)

lemma public_query_frame [handler_frames]:
  assumes "public_query E st w clt cmd s i params S = Some (S', out)"
  shows "message_frame ses S S' out"
proof (cases "ou_up w clt")
  case False
  then show ?thesis using assms by (auto simp: public_query_def intro: same_frame)
next
  case True
  obtain body where body: "json_dumps (json E) params 0 = Some body" using assms True by (auto simp: public_query_def split: Option.bind_splits)
  let ?key = "show_digits (unat cmd) @ ''-'' @ body"
  obtain b S1 out1 where c: "process_cache E st w s i ?key S = (b, S1, out1)" by (metis surj_pair)
  then show ?thesis using assms True body process_cache_frame [OF c, of ses clt cmd body S' out]
    by (cases b) (simp_all add: public_query_def)
qed

lemma user_query_frame:
  "user_query E clt cmd s i params S = Some (S', out) \<Longrightarrow> message_frame ses S S' out"
  by (auto simp: user_query_def intro: pass_on_frame split: Option.bind_splits)

lemma order_asset_query_frame [handler_frames]:
  "on_method_order_query E w s i params S = Some (S', out) \<Longrightarrow> message_frame ses S S' out"
  "on_method_order_history E w s i params S = Some (S', out) \<Longrightarrow> message_frame ses S S' out"
  "on_method_asset_query E w s i params S = Some (S', out) \<Longrightarrow> message_frame ses S S' out"
  "on_method_asset_history E w s i params S = Some (S', out) \<Longrightarrow> message_frame ses S S' out"
  using user_query_frame [of E _ _ s i _ S S' out ses] same_frame [of _ ses S]
  by (auto simp: on_method_order_query_def on_method_order_history_def on_method_asset_query_def on_method_asset_history_def
      split: if_splits option.splits simp del: bind_split_asm)

text \<open>Subscriptions to topics.\<close>

lemma on_method_subscribe_frame:
  assumes "on_method_subscribe E ses i params unsub sub send_last tp = (tp', out)"
    and "\<And>t. watchers (unsub ses t) \<subseteq> watchers t" "\<And>name t. watchers (sub ses name t) \<subseteq> insert ses (watchers t)"
    and "\<And>name t. plain_out (send_last ses name t)"
  shows "watchers tp' \<subseteq> insert ses (watchers tp) \<and> plain_out out"
proof -
  obtain b t where r: "each_name (sub ses) (map (name_param E MARKET_NAME_MAX_LEN params) [0..<json_array_size (json E) params]) (unsub ses tp) = (b, t)"
    by (metis surj_pair)
  have "watchers t \<subseteq> insert ses (watchers (unsub ses tp))" using watchers_each_name [of "sub ses" ses, OF assms(3)] r by (metis snd_conv)
  then have "watchers t \<subseteq> insert ses (watchers tp)" using assms(2) by blast
  moreover have "tp' = t" "plain_out out" using assms(1,4) r by (auto simp: on_method_subscribe_def split: bool.splits)
  ultimately show ?thesis by simp
qed

lemma send_last_plain [simp]:
  "plain_out (price_send_last E ses market tpp)" "plain_out (state_send_last E ses market tps)"
  "plain_out (today_send_last E ses market tps)" "plain_out (deals_send_full E ses market tpd)"
  "plain_out (depth_send_clean E ses market limit interval tpo)"
  by (auto simp: price_send_last_def state_send_last_def today_send_last_def status_send_last_def deals_send_full_def
      depth_send_clean_def split: option.splits)

lemma topic_frames [handler_frames]:
  "on_method_price_subscribe E ses i params tpp = (tpp', out) \<Longrightarrow> watchers tpp' \<subseteq> insert ses (watchers tpp) \<and> plain_out out"
  "on_method_today_subscribe E ses i params tps = (tps', out) \<Longrightarrow> watchers tps' \<subseteq> insert ses (watchers tps) \<and> plain_out out"
  "on_method_state_subscribe E ses i params tps = (tps', out) \<Longrightarrow> watchers tps' \<subseteq> insert ses (watchers tps) \<and> plain_out out"
  "on_method_deals_subscribe E ses i params tpd = (tpd', out) \<Longrightarrow> watchers tpd' \<subseteq> insert ses (watchers tpd) \<and> plain_out out"
  by (unfold on_method_price_subscribe_def on_method_today_subscribe_def on_method_state_subscribe_def on_method_deals_subscribe_def,
      (erule on_method_subscribe_frame,
        simp_all add: price_unsubscribe_def today_unsubscribe_def state_unsubscribe_def deals_unsubscribe_def
          price_subscribe_def today_subscribe_def state_subscribe_def deals_subscribe_def watchers_subscribe)+)

lemma kline_depth_frames [handler_frames]:
  "on_method_kline_subscribe E ses i params tpk = (tpk', out) \<Longrightarrow> watchers tpk' \<subseteq> insert ses (watchers tpk) \<and> plain_out out"
  "on_method_depth_subscribe E st ses i params tpo = (tpo', out) \<Longrightarrow> watchers tpo' \<subseteq> insert ses (watchers tpo) \<and> plain_out out"
  using watchers_subscribe
  by (fastforce simp: on_method_kline_subscribe_def kline_subscribe_def kline_unsubscribe_def on_method_depth_subscribe_def
      depth_subscribe_def depth_unsubscribe_def split: option.splits if_splits prod.splits)+

lemma unsubscribe_frames [handler_frames]:
  "on_method_price_unsubscribe E ses i tpp = (tpp', out) \<Longrightarrow> watchers tpp' \<subseteq> insert ses (watchers tpp) \<and> plain_out out"
  "on_method_today_unsubscribe E ses i tps = (tps', out) \<Longrightarrow> watchers tps' \<subseteq> insert ses (watchers tps) \<and> plain_out out"
  "on_method_state_unsubscribe E ses i tps = (tps', out) \<Longrightarrow> watchers tps' \<subseteq> insert ses (watchers tps) \<and> plain_out out"
  "on_method_deals_unsubscribe E ses i tpd = (tpd', out) \<Longrightarrow> watchers tpd' \<subseteq> insert ses (watchers tpd) \<and> plain_out out"
  "on_method_kline_unsubscribe E ses i tpk = (tpk', out) \<Longrightarrow> watchers tpk' \<subseteq> insert ses (watchers tpk) \<and> plain_out out"
  "on_method_depth_unsubscribe E ses i tpo = (tpo', out) \<Longrightarrow> watchers tpo' \<subseteq> insert ses (watchers tpo) \<and> plain_out out"
  by (auto simp: on_method_price_unsubscribe_def on_method_today_unsubscribe_def on_method_state_unsubscribe_def
      on_method_deals_unsubscribe_def on_method_kline_unsubscribe_def on_method_depth_unsubscribe_def price_unsubscribe_def
      today_unsubscribe_def state_unsubscribe_def deals_unsubscribe_def kline_unsubscribe_def depth_unsubscribe_def)

text \<open>Subscriptions of users.\<close>

lemma each_name_subscribed:
  "subscribed (snd (each_name (order_subscribe u ses) names D)) v s \<Longrightarrow> subscribed D v s \<or> (v = u \<and> s = ses)"
  by (induction "order_subscribe u ses" names D rule: each_name.induct) (auto simp: order_subscribe_def)

lemma each_name_asset:
  "as_state (snd (each_name (asset_subscribe u ses) names A)) = as_state A \<and>
   (subscribed (as_sub (snd (each_name (asset_subscribe u ses) names A))) v s \<longrightarrow> subscribed (as_sub A) v s \<or> (v = u \<and> s = ses))"
  by (induction "asset_subscribe u ses" names A rule: each_name.induct) (auto simp: asset_subscribe_def)

lemma user_subscriptions_cases:
  assumes "user_subscriptions E n ses i params subscribe t = (t', out)"
  shows "plain_out out \<and> (\<exists>names. t' = snd (each_name subscribe names t))"
proof -
  let ?names = "map (name_param E n params) [0..<json_array_size (json E) params]"
  obtain b u where "each_name subscribe ?names t = (b, u)" by (metis surj_pair)
  then show ?thesis using assms by (auto simp: user_subscriptions_def split: bool.splits intro: exI [of _ ?names])
qed

lemma order_subscribe_frames [handler_frames]:
  "on_method_order_subscribe E ses i params S = (S', out) \<Longrightarrow> message_frame ses S S' out"
  "on_method_order_unsubscribe E ses i S = (S', out) \<Longrightarrow> message_frame ses S S' out"
  by (auto simp: on_method_order_subscribe_def on_method_order_unsubscribe_def Let_def all_watchers_def order_unsubscribe_def user_of_def
      dest!: user_subscriptions_cases each_name_subscribed intro!: quiet_frame intro: same_frame split: if_splits prod.splits)

lemma asset_subscribe_frames [handler_frames]:
  "on_method_asset_subscribe E ses i params S = (S', out) \<Longrightarrow> message_frame ses S S' out"
  "on_method_asset_unsubscribe E ses i S = (S', out) \<Longrightarrow> message_frame ses S S' out"
  using each_name_asset
  by (fastforce simp: on_method_asset_subscribe_def on_method_asset_unsubscribe_def Let_def all_watchers_def asset_unsubscribe_def user_of_def
      dest!: user_subscriptions_cases intro!: quiet_frame intro: same_frame split: if_splits prod.splits)+

text \<open>Requests to log in.\<close>

lemma user_of_source [simp]: "user_of (set_source ses source S) = user_of S"
  by (simp add: user_of_def set_source_def fun_eq_iff)

lemma pending_newD: "pending_new data p = Some (q, p') \<Longrightarrow> pn_map p q = None \<and> pn_map p' = (pn_map p)(q \<mapsto> data)"
  using pending_new_fresh [of data p q p'] by simp

lemma send_auth_request_cases:
  assumes "send_auth_request E ses i params S = Some (S', out)"
  obtains "S' = S" "out = send_error_invalid_argument E ses i"
    | q state token source where "pending_new (new_login ses i S) (ps_auth S) = Some (q, state)"
      "S' = set_source ses source (S\<lparr>ps_auth := state\<rparr>)" "out = [Auth_job q token]"
proof -
  define r where "r = do { check (json_array_size (json E) params = 2);
                token \<leftarrow> json_string_value (json E) (json_array_get (json E) params 0);
                source \<leftarrow> json_string_value (json E) (json_array_get (json E) params 1);
                check (\<not> length source \<ge> SOURCE_MAX_LEN);
                Some (token, source) }"
  note d = assms [unfolded send_auth_request_def r_def [symmetric]]
  show thesis
  proof (cases r)
    case None
    then show ?thesis using d that(1) by simp
  next
    case (Some x)
    then show ?thesis using d that(2) by (cases x) (auto simp: bind_eq_Some_conv)
  qed
qed

lemma send_sign_request_cases:
  assumes "send_sign_request E ses i params S = Some (S', out)"
  obtains "S' = S" "out = send_error_invalid_argument E ses i"
    | q state a b c where "pending_new (new_login ses i S) (ps_sign S) = Some (q, state)"
      "S' = set_source ses ''api'' (S\<lparr>ps_sign := state\<rparr>)" "out = [Sign_job q a b c]"
proof -
  define r where "r = do { check (json_array_size (json E) params = 3);
                access_id \<leftarrow> json_string_value (json E) (json_array_get (json E) params 0);
                authorisation \<leftarrow> json_string_value (json E) (json_array_get (json E) params 1);
                let tonce = (word_of_int (json_integer_value (json E) (json_array_get (json E) params 2)) :: u64);
                check (tonce \<noteq> 0);
                Some (access_id, authorisation, tonce) }"
  note d = assms [unfolded send_sign_request_def r_def [symmetric]]
  show thesis
  proof (cases r)
    case None
    then show ?thesis using d that(1) by simp
  next
    case (Some x)
    then show ?thesis using d that(2) by (cases x) (auto simp: bind_eq_Some_conv)
  qed
qed

lemma auth_frame [handler_frames]:
  "send_auth_request E ses i params S = Some (S', out) \<Longrightarrow> message_frame ses S S' out"
proof (erule send_auth_request_cases)
  fix q state token source
  assume p: "pending_new (new_login ses i S) (ps_auth S) = Some (q, state)" and
    e: "S' = set_source ses source (S\<lparr>ps_auth := state\<rparr>)" "out = [Auth_job q token]"
  have "user_of S' = user_of S" unfolding e by (simp add: user_of_def fun_eq_iff set_source_def)
  then show "message_frame ses S S' out" unfolding e using pending_newD [OF p]
    by (auto simp: message_frame_def logins_def asks_def all_watchers_def set_source_def split: login.splits)
qed (simp add: same_frame)

lemma sign_frame [handler_frames]:
  "send_sign_request E ses i params S = Some (S', out) \<Longrightarrow> message_frame ses S S' out"
proof (erule send_sign_request_cases)
  fix q state a b c
  assume p: "pending_new (new_login ses i S) (ps_sign S) = Some (q, state)" and
    e: "S' = set_source ses ''api'' (S\<lparr>ps_sign := state\<rparr>)" "out = [Sign_job q a b c]"
  have "user_of S' = user_of S" unfolding e by (simp add: user_of_def fun_eq_iff set_source_def)
  then show "message_frame ses S S' out" unfolding e using pending_newD [OF p]
    by (auto simp: message_frame_def logins_def asks_def all_watchers_def set_source_def split: login.splits)
qed (simp add: same_frame)

text \<open>All methods of the table.\<close>

lemma topic_update_frames:
  "map_prod (\<lambda>tp. S\<lparr>ps_kline := tp\<rparr>) id r1 = (S', out) \<Longrightarrow> watchers (fst r1) \<subseteq> insert ses (watchers (ps_kline S)) \<and> plain_out (snd r1) \<Longrightarrow>
     message_frame ses S S' out"
  "map_prod (\<lambda>tp. S\<lparr>ps_depth := tp\<rparr>) id r2 = (S', out) \<Longrightarrow> watchers (fst r2) \<subseteq> insert ses (watchers (ps_depth S)) \<and> plain_out (snd r2) \<Longrightarrow>
     message_frame ses S S' out"
  "map_prod (\<lambda>tp. S\<lparr>ps_price := tp\<rparr>) id r3 = (S', out) \<Longrightarrow> watchers (fst r3) \<subseteq> insert ses (watchers (ps_price S)) \<and> plain_out (snd r3) \<Longrightarrow>
     message_frame ses S S' out"
  "map_prod (\<lambda>tp. S\<lparr>ps_state := tp\<rparr>) id r4 = (S', out) \<Longrightarrow> watchers (fst r4) \<subseteq> insert ses (watchers (ps_state S)) \<and> plain_out (snd r4) \<Longrightarrow>
     message_frame ses S S' out"
  "map_prod (\<lambda>tp. S\<lparr>ps_today := tp\<rparr>) id r4 = (S', out) \<Longrightarrow> watchers (fst r4) \<subseteq> insert ses (watchers (ps_today S)) \<and> plain_out (snd r4) \<Longrightarrow>
     message_frame ses S S' out"
  "map_prod (\<lambda>tp. S\<lparr>ps_deals := tp\<rparr>) id r5 = (S', out) \<Longrightarrow> watchers (fst r5) \<subseteq> insert ses (watchers (ps_deals S)) \<and> plain_out (snd r5) \<Longrightarrow>
     message_frame ses S S' out"
  by (cases r1; cases r2; cases r3; cases r4; cases r5; auto simp: all_watchers_def intro!: quiet_frame)+

definition handler_ok :: "('d, 'j) handler \<Rightarrow> bool" where
  "handler_ok h \<longleftrightarrow> (\<forall>ses i params S S' out. h ses i params S = Some (S', out) \<longrightarrow> message_frame ses S S' out)"

lemma topic_handlers_ok:
  "handler_ok (\<lambda>ses i params S. Some (map_prod (\<lambda>tp. S\<lparr>ps_kline := tp\<rparr>) id (on_method_kline_subscribe E ses i params (ps_kline S))))"
  "handler_ok (\<lambda>ses i params S. Some (map_prod (\<lambda>tp. S\<lparr>ps_kline := tp\<rparr>) id (on_method_kline_unsubscribe E ses i (ps_kline S))))"
  "handler_ok (\<lambda>ses i params S. Some (map_prod (\<lambda>tp. S\<lparr>ps_depth := tp\<rparr>) id (on_method_depth_subscribe E st ses i params (ps_depth S))))"
  "handler_ok (\<lambda>ses i params S. Some (map_prod (\<lambda>tp. S\<lparr>ps_depth := tp\<rparr>) id (on_method_depth_unsubscribe E ses i (ps_depth S))))"
  "handler_ok (\<lambda>ses i params S. Some (map_prod (\<lambda>tp. S\<lparr>ps_price := tp\<rparr>) id (on_method_price_subscribe E ses i params (ps_price S))))"
  "handler_ok (\<lambda>ses i params S. Some (map_prod (\<lambda>tp. S\<lparr>ps_price := tp\<rparr>) id (on_method_price_unsubscribe E ses i (ps_price S))))"
  "handler_ok (\<lambda>ses i params S. Some (map_prod (\<lambda>tp. S\<lparr>ps_state := tp\<rparr>) id (on_method_state_subscribe E ses i params (ps_state S))))"
  "handler_ok (\<lambda>ses i params S. Some (map_prod (\<lambda>tp. S\<lparr>ps_state := tp\<rparr>) id (on_method_state_unsubscribe E ses i (ps_state S))))"
  "handler_ok (\<lambda>ses i params S. Some (map_prod (\<lambda>tp. S\<lparr>ps_today := tp\<rparr>) id (on_method_today_subscribe E ses i params (ps_today S))))"
  "handler_ok (\<lambda>ses i params S. Some (map_prod (\<lambda>tp. S\<lparr>ps_today := tp\<rparr>) id (on_method_today_unsubscribe E ses i (ps_today S))))"
  "handler_ok (\<lambda>ses i params S. Some (map_prod (\<lambda>tp. S\<lparr>ps_deals := tp\<rparr>) id (on_method_deals_subscribe E ses i params (ps_deals S))))"
  "handler_ok (\<lambda>ses i params S. Some (map_prod (\<lambda>tp. S\<lparr>ps_deals := tp\<rparr>) id (on_method_deals_unsubscribe E ses i (ps_deals S))))"
  unfolding handler_ok_def option.inject
  by (intro allI impI, erule topic_update_frames, rule handler_frames, rule surjective_pairing)+

lemma other_handlers_ok:
  "handler_ok (\<lambda>ses i params S. Some (S, on_method_server_ping E ses i))"
  "handler_ok (\<lambda>ses i params S. Some (S, on_method_server_time E w ses i))"
  "handler_ok (send_auth_request E)" "handler_ok (send_sign_request E)"
  "handler_ok (on_method_kline_query E st w)" "handler_ok (on_method_depth_query E st w)" "handler_ok (on_method_price_query E st w)"
  "handler_ok (on_method_state_query E st w)" "handler_ok (on_method_today_query E st w)" "handler_ok (on_method_deals_query E st w)"
  "handler_ok (on_method_order_query E w)" "handler_ok (on_method_order_history E w)"
  "handler_ok (on_method_asset_query E w)" "handler_ok (on_method_asset_history E w)"
  "handler_ok (\<lambda>ses i params S. Some (on_method_order_subscribe E ses i params S))"
  "handler_ok (\<lambda>ses i params S. Some (on_method_order_unsubscribe E ses i S))"
  "handler_ok (\<lambda>ses i params S. Some (on_method_asset_subscribe E ses i params S))"
  "handler_ok (\<lambda>ses i params S. Some (on_method_asset_unsubscribe E ses i S))"
  unfolding handler_ok_def on_method_kline_query_def on_method_depth_query_def on_method_price_query_def on_method_state_query_def
    on_method_today_query_def on_method_deals_query_def
  by (auto simp: on_method_server_ping_def on_method_server_time_def intro: same_frame handler_frames)

lemma method_map_ok: "map_of (method_map E st w) name = Some h \<Longrightarrow> handler_ok h"
proof -
  have "\<forall>x\<in>set (method_map E st w). handler_ok (snd x)"
    unfolding method_map_def by (simp add: topic_handlers_ok other_handlers_ok)
  then show "map_of (method_map E st w) name = Some h \<Longrightarrow> handler_ok h" by (auto dest!: map_of_SomeD)
qed

lemma on_message_frame:
  assumes "on_message E st w ses message S = Some (ret, S', out)"
  shows "message_frame ses S S' out" "ret < 0 \<Longrightarrow> S' = S \<and> out = []"
proof -
  show "message_frame ses S S' out"
  proof (cases "decode_message E message")
    case None
    then show ?thesis using assms by (simp add: on_message_def same_frame)
  next
    case (Some x)
    obtain i name params where x: "x = (i, name, params)" by (cases x)
    show ?thesis
    proof (cases "map_of (method_map E st w) name")
      case None
      then show ?thesis using assms Some x by (simp add: on_message_def same_frame)
    next
      case (Some h)
      from method_map_ok [OF Some] show ?thesis
        using assms Some \<open>decode_message E message = Some x\<close> x by (auto simp: on_message_def handler_ok_def)
    qed
  qed
  show "ret < 0 \<Longrightarrow> S' = S \<and> out = []"
    using assms by (auto simp: on_message_def split: option.splits)
qed

section \<open>The invariant\<close>

definition waiting_login :: "('d, 'j) push_server \<Rightarrow> login \<Rightarrow> u32 \<Rightarrow> ses option" where
  "waiting_login S k q =
     (case pn_map (logins k S) q of
        None \<Rightarrow> None
      | Some d \<Rightarrow> if cn_id (ps_conns S) (lg_ses d) = lg_ses_id d then Some (lg_ses d) else None)"

definition push_inv :: "('d, 'j) env \<Rightarrow> nat \<Rightarrow> 'j push_past \<Rightarrow> ('d, 'j) push_server \<Rightarrow> bool" where
  "push_inv E n past S \<longleftrightarrow> conns_ok n (ps_conns S) \<and>
     (\<forall>k q. login_of k q past = waiting_login S k q) \<and>
     (\<forall>k q d. pn_map (logins k S) q = Some d \<longrightarrow> lg_ses_id d \<noteq> 0 \<and> lg_ses_id d < cn_id_start (ps_conns S)) \<and>
     (\<forall>s. logged_in E s past = (if cn_id (ps_conns S) s = 0 then None else user_of S s)) \<and>
     (\<forall>u s. subscribed (ps_order S) u s \<or> subscribed (as_sub (ps_asset S)) u s \<longrightarrow> cn_id (ps_conns S) s \<noteq> 0 \<and> user_of S s = Some u) \<and>
     (\<forall>s\<in>all_watchers S. cn_id (ps_conns S) s \<noteq> 0 \<or> left_behind s past)"

lemma push_invD:
  assumes "push_inv E n past S"
  shows "conns_ok n (ps_conns S)" "login_of k q past = waiting_login S k q"
    "pn_map (logins k S) q = Some d \<Longrightarrow> lg_ses_id d \<noteq> 0 \<and> lg_ses_id d < cn_id_start (ps_conns S)"
    "logged_in E s past = (if cn_id (ps_conns S) s = 0 then None else user_of S s)"
    "subscribed (ps_order S) u s \<or> subscribed (as_sub (ps_asset S)) u s \<Longrightarrow> cn_id (ps_conns S) s \<noteq> 0 \<and> user_of S s = Some u"
    "s \<in> all_watchers S \<Longrightarrow> cn_id (ps_conns S) s \<noteq> 0 \<or> left_behind s past"
  using assms by (auto simp: push_inv_def)

lemma push_invI:
  assumes "conns_ok n (ps_conns S)" "\<And>k q. login_of k q past = waiting_login S k q"
    "\<And>k q d. pn_map (logins k S) q = Some d \<Longrightarrow> lg_ses_id d \<noteq> 0 \<and> lg_ses_id d < cn_id_start (ps_conns S)"
    "\<And>s. logged_in E s past = (if cn_id (ps_conns S) s = 0 then None else user_of S s)"
    "\<And>u s. subscribed (ps_order S) u s \<or> subscribed (as_sub (ps_asset S)) u s \<Longrightarrow> cn_id (ps_conns S) s \<noteq> 0 \<and> user_of S s = Some u"
    "\<And>s. s \<in> all_watchers S \<Longrightarrow> cn_id (ps_conns S) s \<noteq> 0 \<or> left_behind s past"
  shows "push_inv E n past S"
  using assms by (simp add: push_inv_def)

text \<open>Steps that neither open nor close a connection and have nothing to do with logins.\<close>

fun about_sessions :: "'j push_event \<Rightarrow> bool" where
  "about_sessions (Open s) \<longleftrightarrow> True" | "about_sessions (Shut s found) \<longleftrightarrow> True" | "about_sessions (Client s m) \<longleftrightarrow> True"
| "about_sessions (Login_done k q r) \<longleftrightarrow> True" | "about_sessions (Login_timeout k q) \<longleftrightarrow> True" | "about_sessions e \<longleftrightarrow> False"

lemma silent_inv:
  assumes inv: "push_inv E n past S" and e: "\<not> about_sessions e" and out: "plain_out out"
    and same: "ps_conns S' = ps_conns S" "ps_info S' = ps_info S" "ps_auth S' = ps_auth S" "ps_sign S' = ps_sign S"
      "ps_order S' = ps_order S" "as_sub (ps_asset S') = as_sub (ps_asset S)" "all_watchers S' \<subseteq> all_watchers S"
  shows "push_inv E n ((e, out) # past) S'"
proof (rule push_invI)
  note D = push_invD [OF inv]
  have l: "logins k S' = logins k S" for k using same by (simp add: logins_def split: login.splits)
  have c: "\<not> closes e out s" for s using e plain_outD [OF out] by (cases e) (auto simp: closes_def)
  have f: "\<not> ends_login k q e" for k q using e by (cases e) auto
  have u: "user_of S' = user_of S" using same by (simp add: user_of_def fun_eq_iff)
  show "conns_ok n (ps_conns S')" using D(1) same by simp
  show "login_of k q ((e, out) # past) = waiting_login S' k q" for k q
    using D(2) [of k q] f c plain_outD [OF out] l same by (simp add: waiting_login_def split: option.splits)
  show "pn_map (logins k S') q = Some d \<Longrightarrow> lg_ses_id d \<noteq> 0 \<and> lg_ses_id d < cn_id_start (ps_conns S')" for k q d
    using D(3) same by (simp add: l)
  show "logged_in E s ((e, out) # past) = (if cn_id (ps_conns S') s = 0 then None else user_of S' s)" for s
    using D(4) [of s] c e same u by (cases e) auto
  show "subscribed (ps_order S') v s \<or> subscribed (as_sub (ps_asset S')) v s \<Longrightarrow> cn_id (ps_conns S') s \<noteq> 0 \<and> user_of S' s = Some v" for v s
    using D(5) [of v s] same u by simp
  show "s \<in> all_watchers S' \<Longrightarrow> cn_id (ps_conns S') s \<noteq> 0 \<or> left_behind s ((e, out) # past)" for s using D(6) same by auto
qed

end
