(* ===== verification/Push_Private.thy ===== *)
theory Push_Private
  imports Push_Sessions
begin

text \<open>
  The invariant of \<open>Push_Sessions\<close> holds in every run of the push server, and what follows from it.
\<close>

section \<open>Connections open and close\<close>

lemma push_inv_mono: "push_inv E n past S \<Longrightarrow> m \<le> n \<Longrightarrow> push_inv E m past S"
  unfolding push_inv_def using conns_ok_mono by blast

lemma logins_upgrade [simp]: "logins k (on_upgrade ses S) = logins k S" "logins k (S\<lparr>ps_conns := c\<rparr>) = logins k S"
  by (simp_all add: logins_def on_upgrade_def split: login.splits)

lemma open_inv:
  assumes inv: "push_inv E (Suc n) past S" and free: "cn_id (ps_conns S) ses = 0"
  shows "push_inv E n ((Open ses, []) # past) (on_upgrade ses (S\<lparr>ps_conns := nw_svr_add_ses ses (ps_conns S)\<rparr>))"
    (is "push_inv E n ?past ?S")
proof (rule push_invI)
  note D = push_invD [OF inv]
  let ?c = "nw_svr_add_ses ses (ps_conns S)"
  note A = add_ses_ok [OF D(1) free]
  have c: "conns_ok n ?c" "cn_id ?c ses \<noteq> 0" "cn_id_start (ps_conns S) \<le> cn_id ?c ses" "cn_id_start (ps_conns S) < cn_id_start ?c"
    and other: "\<And>s. s \<noteq> ses \<Longrightarrow> cn_id ?c s = cn_id (ps_conns S) s" using A by blast+
  have S: "ps_conns ?S = ?c" "ps_order ?S = ps_order S" "ps_asset ?S = ps_asset S" "all_watchers ?S = all_watchers S"
    by (simp_all add: on_upgrade_def all_watchers_def)
  have u: "user_of ?S s = (if s = ses then None else user_of S s)" for s by (simp add: user_of_def on_upgrade_def)
  show "conns_ok n (ps_conns ?S)" using c(1) S(1) by simp
  show "login_of k q ?past = waiting_login ?S k q" for k q
  proof (cases "pn_map (logins k S) q")
    case None
    then show ?thesis using D(2) [of k q] by (simp add: closes_def asks_def waiting_login_def split: login.splits)
  next
    case (Some d)
    have "lg_ses_id d \<noteq> cn_id ?c ses" "lg_ses_id d \<noteq> 0" using D(3) [OF Some] c(3) by auto
    then show ?thesis using D(2) [of k q] Some S(1) other [of "lg_ses d"] free
      by (cases "lg_ses d = ses") (simp_all add: closes_def asks_def waiting_login_def split: login.splits option.splits)
  qed
  show "pn_map (logins k ?S) q = Some d \<Longrightarrow> lg_ses_id d \<noteq> 0 \<and> lg_ses_id d < cn_id_start (ps_conns ?S)" for k q d
    using D(3) [of k q d] c(4) unfolding S(1) logins_upgrade by (blast intro: less_trans)
  show "logged_in E s ?past = (if cn_id (ps_conns ?S) s = 0 then None else user_of ?S s)" for s
    using D(4) [of s] free S(1) u other by (cases "s = ses") (simp_all add: closes_def)
  show "subscribed (ps_order ?S) v s \<or> subscribed (as_sub (ps_asset ?S)) v s \<Longrightarrow> cn_id (ps_conns ?S) s \<noteq> 0 \<and> user_of ?S s = Some v" for v s
    using D(5) [of v s] free S u other by (cases "s = ses") auto
  show "s \<in> all_watchers ?S \<Longrightarrow> cn_id (ps_conns ?S) s \<noteq> 0 \<or> left_behind s ?past" for s
    using D(6) [of s] free S other by (cases "s = ses") auto
qed

lemma on_close_frame:
  "ps_conns (on_close found ses S) = ps_conns S" "ps_info (on_close found ses S) = ps_info S" "logins k (on_close found ses S) = logins k S"
  "all_watchers (on_close found ses S) = (if found then all_watchers S - {ses} else all_watchers S)" "ps_state (on_close found ses S) = ps_state S"
  "subscribed (ps_order (on_close found ses S)) v s \<longleftrightarrow> subscribed (ps_order S) v s \<and> (user_of S ses \<noteq> Some v \<or> s \<noteq> ses)"
  "subscribed (as_sub (ps_asset (on_close found ses S))) v s \<longleftrightarrow> subscribed (as_sub (ps_asset S)) v s \<and> (user_of S ses \<noteq> Some v \<or> s \<noteq> ses)"
  by (auto simp: on_close_def Let_def logins_def all_watchers_def kline_unsubscribe_def depth_unsubscribe_def price_unsubscribe_def
      today_unsubscribe_def deals_unsubscribe_def user_of_def order_unsubscribe_def asset_unsubscribe_def split: login.splits)

lemma shut_inv:
  assumes inv: "push_inv E n past S" and out: "\<And>s. closes e out s \<longleftrightarrow> s = ses" and found: "found \<or> e = Shut ses False"
    and e: "\<And>k q. \<not> asks k q out" "\<And>k q. \<not> ends_login k q e" "\<And>k q r. e \<noteq> Login_done k q r"
  shows "push_inv E n ((e, out) # past) (shut found ses S)"
proof (rule push_invI)
  note D = push_invD [OF inv]
  let ?S = "shut found ses S"
  note C = close_ses_ok [OF D(1), of ses]
  have c: "conns_ok n (ps_conns ?S)" "cn_id (ps_conns ?S) = (cn_id (ps_conns S))(ses := 0)"
    "cn_id_start (ps_conns ?S) = cn_id_start (ps_conns S)" using C by (simp_all add: shut_def Let_def on_close_frame)
  have l: "logins k ?S = logins k S" for k by (simp add: shut_def Let_def on_close_frame)
  have u: "user_of ?S = user_of S" by (simp add: shut_def Let_def on_close_frame user_of_def fun_eq_iff)
  have w: "all_watchers ?S = all_watchers (on_close found ses S)" by (simp add: shut_def Let_def all_watchers_def)
  show "conns_ok n (ps_conns ?S)" by (rule c(1))
  show "login_of k q ((e, out) # past) = waiting_login ?S k q" for k q
    using D(2) [of k q] D(3) [of k q] out e l c(2) by (auto simp: waiting_login_def split: option.splits)
  show "pn_map (logins k ?S) q = Some d \<Longrightarrow> lg_ses_id d \<noteq> 0 \<and> lg_ses_id d < cn_id_start (ps_conns ?S)" for k q d
    using D(3) [of k q d] l c(3) by simp
  show "logged_in E s ((e, out) # past) = (if cn_id (ps_conns ?S) s = 0 then None else user_of ?S s)" for s
    using D(4) [of s] out [of s] e(3) c(2) u by (cases e) auto
  show "subscribed (ps_order ?S) v s \<or> subscribed (as_sub (ps_asset ?S)) v s \<Longrightarrow> cn_id (ps_conns ?S) s \<noteq> 0 \<and> user_of ?S s = Some v" for v s
    using D(5) [of v s] c(2) u by (auto simp: shut_def Let_def on_close_frame)
  show "s \<in> all_watchers ?S \<Longrightarrow> cn_id (ps_conns ?S) s \<noteq> 0 \<or> left_behind s ((e, out) # past)" for s
    using D(6) [of s] c(2) w found by (auto simp: on_close_frame split: if_splits)
qed

section \<open>Messages and logins\<close>

lemma message_inv:
  assumes inv: "push_inv E n past S" and f: "message_frame ses S S' out" and live: "cn_id (ps_conns S) ses \<noteq> 0"
  shows "push_inv E n ((Client ses m, out) # past) S'"
proof (rule push_invI)
  note D = push_invD [OF inv]
  have c: "ps_conns S' = ps_conns S" "user_of S' = user_of S" "\<And>s. Hang_up s \<notin> set out" "all_watchers S' \<subseteq> insert ses (all_watchers S)"
    and a: "\<And>k q. asks k q out \<Longrightarrow> \<exists>i. pn_map (logins k S') q = Some (new_login ses i S)"
    and b: "\<And>k q. \<not> asks k q out \<Longrightarrow> pn_map (logins k S') q = pn_map (logins k S) q"
    and o: "\<And>u s. subscribed (ps_order S') u s \<Longrightarrow> subscribed (ps_order S) u s \<or> (s = ses \<and> user_of S ses = Some u)"
    and t: "\<And>u s. subscribed (as_sub (ps_asset S')) u s \<Longrightarrow> subscribed (as_sub (ps_asset S)) u s \<or> (s = ses \<and> user_of S ses = Some u)"
    using f unfolding message_frame_def by (blast, blast, blast, blast, metis, metis, blast, blast)
  show "conns_ok n (ps_conns S')" using D(1) c(1) by simp
  show "login_of k q ((Client ses m, out) # past) = waiting_login S' k q" for k q
  proof (cases "asks k q out")
    case True
    then show ?thesis using a [OF True] c(1) by (auto simp: waiting_login_def new_login_def)
  next
    case False
    then show ?thesis using b [OF False] c D(2) [of k q] by (auto simp: waiting_login_def closes_def split: option.splits)
  qed
  show "lg_ses_id d \<noteq> 0 \<and> lg_ses_id d < cn_id_start (ps_conns S')" if "pn_map (logins k S') q = Some d" for k q d
  proof (cases "asks k q out")
    case True
    then show ?thesis using a [OF True] that live conns_ok_less [OF D(1) live] c(1) by (auto simp: new_login_def)
  next
    case False
    then show ?thesis using b [OF False] that D(3) [of k q d] c(1) by simp
  qed
  show "logged_in E s ((Client ses m, out) # past) = (if cn_id (ps_conns S') s = 0 then None else user_of S' s)" for s
    using D(4) [of s] c by (simp add: closes_def)
  show "subscribed (ps_order S') v s \<or> subscribed (as_sub (ps_asset S')) v s \<Longrightarrow> cn_id (ps_conns S') s \<noteq> 0 \<and> user_of S' s = Some v" for v s
    using D(5) [of v s] o [of v s] t [of v s] live c(1,2) by auto
  show "s \<in> all_watchers S' \<Longrightarrow> cn_id (ps_conns S') s \<noteq> 0 \<or> left_behind s ((Client ses m, out) # past)" for s
    using D(6) [of s] c(4) live c(1) by auto
qed

lemma on_result_frame:
  assumes "on_result E d reply S = (S', out)"
  shows "plain_out out" "ps_conns S' = ps_conns S" "logins k S' = logins k S" "all_watchers S' = all_watchers S"
    "user_of S' s = (if cn_id (ps_conns S) (lg_ses d) = lg_ses_id d \<and> s = lg_ses d
       then (case login_result E reply of Login_user u \<Rightarrow> Some u | _ \<Rightarrow> user_of S s) else user_of S s)"
    "subscribed (ps_order S') v s \<or> subscribed (as_sub (ps_asset S')) v s \<Longrightarrow>
       (subscribed (ps_order S) v s \<or> subscribed (as_sub (ps_asset S)) v s) \<and> (s = lg_ses d \<and> user_of S s = Some v \<longrightarrow> user_of S' s = Some v)"
proof -
  have "plain_out out \<and> ps_conns S' = ps_conns S \<and> logins k S' = logins k S \<and> all_watchers S' = all_watchers S \<and>
    user_of S' s = (if cn_id (ps_conns S) (lg_ses d) = lg_ses_id d \<and> s = lg_ses d
       then (case login_result E reply of Login_user u \<Rightarrow> Some u | _ \<Rightarrow> user_of S s) else user_of S s) \<and>
    (subscribed (ps_order S') v s \<or> subscribed (as_sub (ps_asset S')) v s \<longrightarrow>
       (subscribed (ps_order S) v s \<or> subscribed (as_sub (ps_asset S)) v s) \<and> (s = lg_ses d \<and> user_of S s = Some v \<longrightarrow> user_of S' s = Some v))"
  proof (cases "cn_id (ps_conns S) (lg_ses d) \<noteq> lg_ses_id d")
    case True
    then show ?thesis using assms by (auto simp: on_result_def)
  next
    case False
    then show ?thesis
    proof (cases "login_result E reply")
      case (Login_user u)
      have l: "logins k (S\<lparr>ps_info := x, ps_order := D\<rparr>) = logins k S" "logins k (S\<lparr>ps_info := x\<rparr>) = logins k S"
        "logins k (S\<lparr>ps_info := x, ps_asset := A, ps_order := D\<rparr>) = logins k S" for x A D
        by (simp_all add: logins_def split: login.splits)
      show ?thesis
      proof (cases "ci_auth (ps_info S (lg_ses d)) \<and> ci_user_id (ps_info S (lg_ses d)) \<noteq> u")
        case True
        then have "S' = S\<lparr>ps_info := (ps_info S)(lg_ses d := (ps_info S (lg_ses d))\<lparr>ci_auth := True, ci_user_id := u\<rparr>),
            ps_asset := asset_unsubscribe (ci_user_id (ps_info S (lg_ses d))) (lg_ses d) (ps_asset S),
            ps_order := order_unsubscribe (ci_user_id (ps_info S (lg_ses d))) (lg_ses d) (ps_order S)\<rparr>"
          "out = send_success E (lg_ses d) (lg_request_id d)"
          using assms False Login_user by (auto simp: on_result_def Let_def)
        then show ?thesis using True False Login_user l
          by (simp add: user_of_def all_watchers_def order_unsubscribe_def asset_unsubscribe_def) blast
      next
        case same: False
        then have "S' = S\<lparr>ps_info := (ps_info S)(lg_ses d := (ps_info S (lg_ses d))\<lparr>ci_auth := True, ci_user_id := u\<rparr>)\<rparr>"
          "out = send_success E (lg_ses d) (lg_request_id d)"
          using assms False Login_user by (auto simp: on_result_def Let_def)
        then show ?thesis using same False Login_user l by (auto simp: user_of_def all_watchers_def)
      qed
    qed (use assms False in \<open>auto simp: on_result_def Let_def\<close>)
  qed
  then show "plain_out out" "ps_conns S' = ps_conns S" "logins k S' = logins k S" "all_watchers S' = all_watchers S"
    "user_of S' s = (if cn_id (ps_conns S) (lg_ses d) = lg_ses_id d \<and> s = lg_ses d
       then (case login_result E reply of Login_user u \<Rightarrow> Some u | _ \<Rightarrow> user_of S s) else user_of S s)"
    "subscribed (ps_order S') v s \<or> subscribed (as_sub (ps_asset S')) v s \<Longrightarrow>
       (subscribed (ps_order S) v s \<or> subscribed (as_sub (ps_asset S)) v s) \<and> (s = lg_ses d \<and> user_of S s = Some v \<longrightarrow> user_of S' s = Some v)"
    by blast+
qed


lemma logins_drop: "logins j (drop_login k q S) = (if j = k then pending_del q (logins k S) else logins j S)"
  by (simp add: logins_def drop_login_def split: login.splits)

lemma drop_login_frame [simp]:
  "ps_conns (drop_login k q S) = ps_conns S" "user_of (drop_login k q S) = user_of S" "ps_order (drop_login k q S) = ps_order S"
  "ps_asset (drop_login k q S) = ps_asset S" "all_watchers (drop_login k q S) = all_watchers S"
  by (simp_all add: drop_login_def user_of_def all_watchers_def fun_eq_iff split: login.splits)

lemma on_finish_cases:
  "on_finish E k q reply S = (case pn_map (logins k S) q of None \<Rightarrow> (S, []) | Some d \<Rightarrow> map_prod (drop_login k q) id (on_result E d reply S))"
  by (cases k) (auto simp: on_finish_def logins_def auth_on_finish_def sign_on_finish_def drop_login_def split: option.splits prod.splits)

text \<open>The end of a login, with or without an answer: \<open>S1\<close> is the state before the request is forgotten.\<close>

lemma login_end_inv:
  assumes inv: "push_inv E n past S" and e: "\<And>j p. ends_login j p e \<longleftrightarrow> j = k \<and> p = q" "\<And>s b. e \<noteq> Shut s b" and out: "plain_out out"
    and S1: "ps_conns S1 = ps_conns S" "\<And>j. logins j S1 = logins j S" "all_watchers S1 = all_watchers S"
    and user: "\<And>s. (if cn_id (ps_conns S) s = 0 then None else user_of S1 s) = logged_in E s ((e, out) # past)"
    and sub: "\<And>v s. subscribed (ps_order S1) v s \<or> subscribed (as_sub (ps_asset S1)) v s \<Longrightarrow> cn_id (ps_conns S) s \<noteq> 0 \<and> user_of S1 s = Some v"
  shows "push_inv E n ((e, out) # past) (drop_login k q S1)"
proof (rule push_invI)
  note D = push_invD [OF inv]
  have c: "\<not> closes e out s" for s using e(2) plain_outD [OF out] by (simp add: closes_def)
  show "conns_ok n (ps_conns (drop_login k q S1))" using D(1) S1(1) by simp
  show "login_of j p ((e, out) # past) = waiting_login (drop_login k q S1) j p" for j p
    using D(2) [of j p] e(1) c plain_outD [OF out] S1 by (auto simp: waiting_login_def logins_drop split: option.splits)
  show "pn_map (logins j (drop_login k q S1)) p = Some d \<Longrightarrow> lg_ses_id d \<noteq> 0 \<and> lg_ses_id d < cn_id_start (ps_conns (drop_login k q S1))" for j p d
    using D(3) [of j p d] S1 by (simp add: logins_drop split: if_splits)
  show "logged_in E s ((e, out) # past) = (if cn_id (ps_conns (drop_login k q S1)) s = 0 then None else user_of (drop_login k q S1) s)" for s
    unfolding drop_login_frame S1(1) by (rule user [symmetric])
  show "subscribed (ps_order (drop_login k q S1)) v s \<or> subscribed (as_sub (ps_asset (drop_login k q S1))) v s \<Longrightarrow>
      cn_id (ps_conns (drop_login k q S1)) s \<noteq> 0 \<and> user_of (drop_login k q S1) s = Some v" for v s
    using sub [of v s] S1(1) by simp
  show "s \<in> all_watchers (drop_login k q S1) \<Longrightarrow> cn_id (ps_conns (drop_login k q S1)) s \<noteq> 0 \<or> left_behind s ((e, out) # past)" for s
    using D(6) [of s] S1 by simp
qed

lemma login_done_inv:
  assumes inv: "push_inv E n past S" and f: "on_finish E k q reply S = (S', out)"
  shows "push_inv E n ((Login_done k q reply, out) # past) S'"
proof (cases "pn_map (logins k S) q")
  note D = push_invD [OF inv]
  case None
  then have s: "S' = S" "out = []" "login_of k q past = None" using f D(2) [of k q] by (simp_all add: on_finish_cases waiting_login_def)
  have "drop_login k q S = S"
    using None by (cases k) (simp_all add: drop_login_def logins_def pending_del_def fun_upd_idem)
  moreover have "push_inv E n ((Login_done k q reply, []) # past) (drop_login k q S)"
    by (rule login_end_inv [OF inv]) (use D s in \<open>auto simp: closes_def split: if_splits\<close>)
  ultimately show ?thesis using s by simp
next
  note D = push_invD [OF inv]
  case (Some d)
  obtain S1 where r: "on_result E d reply S = (S1, out)" "S' = drop_login k q S1"
    using f Some by (cases "on_result E d reply S") (auto simp: on_finish_cases)
  note F = on_result_frame [OF r(1)]
  have i: "lg_ses_id d \<noteq> 0" using D(3) [OF Some] by simp
  have l: "login_of k q past = (if cn_id (ps_conns S) (lg_ses d) = lg_ses_id d then Some (lg_ses d) else None)"
    using D(2) [of k q] Some by (simp add: waiting_login_def)
  show ?thesis unfolding r(2)
  proof (rule login_end_inv [OF inv])
    show "(if cn_id (ps_conns S) s = 0 then None else user_of S1 s) = logged_in E s ((Login_done k q reply, out) # past)" for s
      using D(4) [of s] F(5) [of s] l i plain_outD [OF F(1)] by (auto simp: closes_def split: login_result.splits)
    show "subscribed (ps_order S1) v s \<or> subscribed (as_sub (ps_asset S1)) v s \<Longrightarrow> cn_id (ps_conns S) s \<noteq> 0 \<and> user_of S1 s = Some v" for v s
      using F(6) [of v s] D(5) [of v s] F(5) [of s] by (auto split: if_splits)
  qed (use F in auto)
qed

lemma login_timeout_inv:
  assumes inv: "push_inv E n past S" and out: "plain_out out"
  shows "push_inv E n ((Login_timeout k q, out) # past) (drop_login k q S)"
  by (rule login_end_inv [OF inv]) (use push_invD [OF inv] plain_outD [OF out] out in \<open>auto simp: closes_def split: if_splits\<close>)

section \<open>The other events\<close>

lemma all_watchers_le:
  "watchers tpk \<subseteq> watchers (ps_kline S) \<Longrightarrow> all_watchers (S\<lparr>ps_kline := tpk\<rparr>) \<subseteq> all_watchers S"
  "watchers tpo \<subseteq> watchers (ps_depth S) \<Longrightarrow> all_watchers (S\<lparr>ps_depth := tpo\<rparr>) \<subseteq> all_watchers S"
  "watchers tpp \<subseteq> watchers (ps_price S) \<Longrightarrow> all_watchers (S\<lparr>ps_price := tpp\<rparr>) \<subseteq> all_watchers S"
  "watchers tps \<subseteq> watchers (ps_today S) \<Longrightarrow> all_watchers (S\<lparr>ps_today := tps\<rparr>) \<subseteq> all_watchers S"
  "watchers tpd \<subseteq> watchers (ps_deals S) \<Longrightarrow> all_watchers (S\<lparr>ps_deals := tpd\<rparr>) \<subseteq> all_watchers S"
  "watchers tps \<subseteq> watchers (ps_state S) \<Longrightarrow> all_watchers (S\<lparr>ps_state := tps\<rparr>) \<subseteq> all_watchers S"
  by (auto simp: all_watchers_def)

lemma topic_recv_frame:
  assumes "topic_recv_pkg E cmd on_reply pkg tp = Some (tp', out)"
    and "\<And>key result sessions obj obj' out. on_reply key result sessions obj = Some (obj', out) \<Longrightarrow> plain_out out"
  shows "watchers tp' \<subseteq> watchers tp \<and> plain_out out"
  using assms(1) by (cases rule: topic_recv_pkg_cases) (use watchers_recv [OF assms(1)] assms(2) in auto)

lemma replies_plain:
  "on_market_last_reply E walk keyp result sessions objp = (objp', out) \<Longrightarrow> plain_out out"
  "status_reply E walk meth keyp result sessions objs = Some (objs', out) \<Longrightarrow> plain_out out"
  "on_market_kline_reply E walk keyk result sessions objk = Some (objk', out) \<Longrightarrow> plain_out out"
  "on_order_deals_reply E walk keyp result sessions objd = (objd', out) \<Longrightarrow> plain_out out"
  "on_market_depth_reply E walk now keyo result sessions objo = (objo', out) \<Longrightarrow> plain_out out"
  by (auto simp: on_market_last_reply_def status_reply_def on_market_kline_reply_def on_order_deals_reply_def
      on_market_depth_reply_def broadcast_update_def Let_def split: if_splits option.splits Option.bind_splits prod.splits)

text \<open>Packets and timers of the topics.\<close>

lemma topic_recv_frames:
  "price_recv_pkg E walk pkg tpp = Some (tpp', out) \<Longrightarrow> watchers tpp' \<subseteq> watchers tpp \<and> plain_out out"
  "state_recv_pkg E walk pkg tps = Some (tps', out) \<Longrightarrow> watchers tps' \<subseteq> watchers tps \<and> plain_out out"
  "today_recv_pkg E walk pkg tps = Some (tps', out) \<Longrightarrow> watchers tps' \<subseteq> watchers tps \<and> plain_out out"
  "deals_recv_pkg E walk pkg tpd = Some (tpd', out) \<Longrightarrow> watchers tpd' \<subseteq> watchers tpd \<and> plain_out out"
  "kline_recv_pkg E walk pkg tpk = Some (tpk', out) \<Longrightarrow> watchers tpk' \<subseteq> watchers tpk \<and> plain_out out"
  "depth_recv_pkg E walk now pkg tpo = Some (tpo', out) \<Longrightarrow> watchers tpo' \<subseteq> watchers tpo \<and> plain_out out"
  unfolding price_recv_pkg_def state_recv_pkg_def today_recv_pkg_def deals_recv_pkg_def kline_recv_pkg_def depth_recv_pkg_def
    on_market_status_reply_def on_market_status_today_reply_def
  by (erule topic_recv_frame, (erule replies_plain | (simp only: option.inject, erule replies_plain)))+

lemma watchers_timeout [simp]: "watchers (topic_timeout q tp) = watchers tp"
  by (simp add: watchers_def topic_timeout_def)

lemma topic_timer_frames:
  assumes "topic_timer E clt cmd params keys tp = Some (tp', out)"
  shows "watchers tp' \<subseteq> watchers tp \<and> plain_out out"
  using watchers_timer(1) [OF assms] topic_timer_frame [OF assms] by (auto simp: plain_out_def)

lemma asset_on_update_plain: "asset_on_update E user_id asset A = Some (A', out) \<Longrightarrow> as_sub A' = as_sub A \<and> plain_out out"
  by (auto simp: asset_on_update_def split: option.splits if_splits Option.bind_splits)

lemma orders_plain:
  "on_orders_message E message (D, A) = Some ((D', A'), out) \<Longrightarrow> D' = D \<and> as_sub A' = as_sub A \<and> plain_out out"
  "on_balances_message E message A = Some (A', out) \<Longrightarrow> as_sub A' = as_sub A \<and> plain_out out"
  "asset_recv_pkg E pkg A = (A', out) \<Longrightarrow> as_sub A' = as_sub A \<and> plain_out out"
  by (auto simp: on_orders_message_def on_balances_message_def asset_recv_pkg_def order_on_update_def on_balance_query_reply_def
      bind_eq_Some_conv dest!: asset_on_update_plain split: option.splits prod.splits)

text \<open>What such a step may change.\<close>

definition silent :: "('d, 'j) push_server \<Rightarrow> ('d, 'j) push_server \<Rightarrow> push_action list \<Rightarrow> bool" where
  "silent S S' out \<longleftrightarrow> plain_out out \<and> ps_conns S' = ps_conns S \<and> ps_info S' = ps_info S \<and> ps_auth S' = ps_auth S \<and>
     ps_sign S' = ps_sign S \<and> ps_order S' = ps_order S \<and> as_sub (ps_asset S') = as_sub (ps_asset S) \<and> all_watchers S' \<subseteq> all_watchers S"

lemma silent_step:
  assumes "push_step E st (w, e) S = Some (S', out)" "\<not> about_sessions e"
  shows "silent S S' out"
proof (cases e)
  case (Topic_packet k pkg)
  then show ?thesis using assms(1)
    by (cases k) (auto simp: silent_def dest!: topic_recv_frames all_watchers_le split: prod.splits)
next
  case (Market_tick k keys)
  then show ?thesis using assms(1)
    by (cases k) (auto simp: silent_def price_on_timer_def state_on_timer_def today_on_timer_def deals_on_timer_def
        dest!: topic_timer_frames all_watchers_le)
next
  case (Topic_timeout k q)
  then show ?thesis using assms(1) by (cases k) (auto simp: silent_def all_watchers_def)
next
  case (Packet pkg)
  then show ?thesis using assms(1)
    by (auto simp: silent_def on_backend_recv_pkg_def Let_def all_watchers_def split: option.splits)
next
  case (Timeout q)
  then show ?thesis using assms(1) by (auto simp: silent_def on_timeout_def all_watchers_def split: option.splits)
next
  case (Orders message)
  then show ?thesis using assms(1) by (auto simp: silent_def all_watchers_def dest!: orders_plain split: prod.splits)
next
  case (Kline_tick keys)
  then show ?thesis using assms(1) by (auto simp: silent_def kline_on_timer_def dest!: topic_timer_frames all_watchers_le)
next
  case (Depth_tick keys)
  then show ?thesis using assms(1) by (auto simp: silent_def depth_on_timer_def dest!: topic_timer_frames all_watchers_le)
next
  case (Balances message)
  then show ?thesis using assms(1) by (auto simp: silent_def all_watchers_def dest!: orders_plain)
next
  case (Asset_packet pkg)
  then show ?thesis using assms(1)
    by (cases "asset_recv_pkg E pkg (ps_asset S)") (auto simp: silent_def all_watchers_def dest!: orders_plain)
qed (use assms in \<open>auto simp: silent_def all_watchers_def on_cache_timer_def\<close>)

section \<open>Every run\<close>

lemma push_step_inv:
  assumes inv: "push_inv E (Suc n) past S" and s: "push_step E st (w, e) S = Some (S', out)"
  shows "push_inv E n ((e, out) # past) S'"
proof -
  have inv': "push_inv E n past S" by (rule push_inv_mono [OF inv]) simp
  note D = push_invD [OF inv']
  show ?thesis
  proof (cases "about_sessions e")
    case False
    note silent_step [OF s False]
    then show ?thesis unfolding silent_def by (intro silent_inv [OF inv' False]) auto
  next
    case True
    then show ?thesis
    proof (cases e)
      case (Open ses)
      show ?thesis
      proof (cases "cn_id (ps_conns S) ses = 0")
        case True
        then show ?thesis using s Open open_inv [OF inv True] by simp
      next
        case False
        then show ?thesis using s Open D by (simp add: push_inv_def closes_def asks_def split: login.splits option.splits)
      qed
    next
      case (Shut ses found)
      show ?thesis
      proof (cases "cn_id (ps_conns S) ses = 0")
        case False
        then show ?thesis using s Shut by (auto simp: closes_def asks_def intro!: shut_inv [OF inv'] split: login.splits)
      next
        case True
        have "push_inv E n ((Shut ses found, []) # past) S"
        proof (rule push_invI)
          show "login_of k q ((Shut ses found, []) # past) = waiting_login S k q" for k q
            using D(2) [of k q] D(3) [of k q] True by (auto simp: closes_def asks_def waiting_login_def split: login.splits option.splits)
          show "logged_in E s ((Shut ses found, []) # past) = (if cn_id (ps_conns S) s = 0 then None else user_of S s)" for s
            using D(4) [of s] True by (auto simp: closes_def)
          show "s \<in> all_watchers S \<Longrightarrow> cn_id (ps_conns S) s \<noteq> 0 \<or> left_behind s ((Shut ses found, []) # past)" for s using D(6) [of s] by auto
        qed (use D in blast)+
        then show ?thesis using s Shut True by simp
      qed
    next
      case (Client ses m)
      show ?thesis
      proof (cases "cn_id (ps_conns S) ses = 0")
        case False
        then obtain ret S1 out1 where r: "on_message E st w ses m S = Some (ret, S1, out1)"
          "(S', out) = (if ret < 0 then (shut True ses S1, out1 @ [Hang_up ses]) else (S1, out1))"
          using s Client by (auto simp: split: prod.splits)
        note F = on_message_frame [OF r(1)]
        show ?thesis
        proof (cases "ret < 0")
          case True
          then have "S1 = S" "out1 = []" using F(2) by simp_all
          then show ?thesis using r(2) True Client
            by (auto simp: closes_def asks_def intro!: shut_inv [OF inv'] split: login.splits)
        next
          case neg: False
          then show ?thesis using r(2) Client message_inv [OF inv' F(1) False] by simp
        qed
      next
        case True
        have "push_inv E n ((Client ses m, []) # past) S"
        proof (rule push_invI)
          show "login_of k q ((Client ses m, []) # past) = waiting_login S k q" for k q
            using D(2) [of k q] by (auto simp: closes_def asks_def split: login.splits option.splits)
          show "logged_in E s ((Client ses m, []) # past) = (if cn_id (ps_conns S) s = 0 then None else user_of S s)" for s
            using D(4) [of s] by (auto simp: closes_def)
          show "s \<in> all_watchers S \<Longrightarrow> cn_id (ps_conns S) s \<noteq> 0 \<or> left_behind s ((Client ses m, []) # past)" for s using D(6) [of s] by auto
        qed (use D in blast)+
        then show ?thesis using s Client True by simp
      qed
    next
      case (Login_done k q reply)
      then show ?thesis using s login_done_inv [OF inv'] by simp
    next
      case (Login_timeout k q)
      have "plain_out (case pn_map (logins k S) q of None \<Rightarrow> [] | Some state \<Rightarrow> login_on_timeout E state S)"
        by (simp add: login_on_timeout_def split: option.splits)
      from login_timeout_inv [OF inv' this] show ?thesis using s Login_timeout by auto
    qed auto
  qed
qed

lemma push_run_inv:
  "push_run E st es (S, past) = Some (S', past') \<Longrightarrow> push_inv E (length es + n) past S \<Longrightarrow> push_inv E n past' S'"
proof (induction es arbitrary: S past)
  case (Cons e es)
  obtain w v where e: "e = (w, v)" by (cases e)
  obtain S1 out where s: "push_step E st (w, v) S = Some (S1, out)" "push_run E st es (S1, (v, out) # past) = Some (S', past')"
    using Cons.prems(1) by (auto simp: e split: option.splits)
  from push_step_inv [of E "length es + n" past S st w v S1 out] Cons.prems(2) s(1)
  have "push_inv E (length es + n) ((v, out) # past) S1" by simp
  from Cons.IH [OF s(2) this] show ?case .
qed simp

lemma init_push_inv: "n < 2 ^ 63 \<Longrightarrow> push_inv E n [] init_push_server"
  by (simp add: push_inv_def init_push_server_def waiting_login_def logins_def no_pending_def subscribed_def sub_list_def init_asset_def
      all_watchers_def watchers_def init_topic_def nw_svr_create_def conns_ok_def split: login.splits)

end
