(* ===== verification/Push_Requests.thy ===== *)
theory Push_Requests
  imports Push_Private
begin

text \<open>
  The requests the push server passes on for its clients: each waits for its answer under its own
  number with the connection that sent it, and a request about a user asks for the user who is
  logged in on this connection.
\<close>

section \<open>Who waits for an answer\<close>

definition passes :: "u32 \<Rightarrow> push_action list \<Rightarrow> bool" where
  "passes q out \<longleftrightarrow> (\<exists>clt pkg. Query clt pkg \<in> set out \<and> pkg_sequence pkg = q)"

fun ends_request :: "u32 \<Rightarrow> 'j push_event \<Rightarrow> bool" where
  "ends_request q (Packet pkg) \<longleftrightarrow> pkg_sequence pkg = q"
| "ends_request q (Timeout q') \<longleftrightarrow> q' = q"
| "ends_request q e \<longleftrightarrow> False"

text \<open>The connection whose request with the number \<open>q\<close> is still unanswered.\<close>

fun asker :: "u32 \<Rightarrow> 'j push_past \<Rightarrow> ses option" where
  "asker q [] = None"
| "asker q ((e, out) # past) =
     (if ends_request q e then None
      else case (e, passes q out) of
        (Client s message, True) \<Rightarrow> Some s
      | _ \<Rightarrow> (case asker q past of None \<Rightarrow> None | Some s \<Rightarrow> if closes e out s then None else Some s))"

section \<open>What the methods pass on\<close>

definition user_commands :: "u32 set" where
  "user_commands = {CMD_ORDER_QUERY, CMD_ORDER_HISTORY, CMD_BALANCE_QUERY, CMD_BALANCE_HISTORY}"

definition asks_about :: "('d, 'j) env \<Rightarrow> u32 \<Rightarrow> string \<Rightarrow> bool" where
  "asks_about E user_id body \<longleftrightarrow>
     (\<exists>params. json_dumps (json E) (json_array (json E) (json_integer (json E) (uint user_id) # params)) 0 = Some body)"

definition request_of :: "ses \<Rightarrow> u64 \<Rightarrow> string option \<Rightarrow> ('d, 'j) push_server \<Rightarrow> request_data" where
  "request_of ses i key S = \<lparr>rq_ses = ses, rq_ses_id = cn_id (ps_conns S) ses, rq_request_id = i, rq_cache_key = key\<rparr>"

definition only_sends :: "push_action list \<Rightarrow> bool" where
  "only_sends out \<longleftrightarrow> (\<forall>clt pkg. Query clt pkg \<notin> set out)"

definition request_frame ::
  "('d, 'j) env \<Rightarrow> ses \<Rightarrow> ('d, 'j) push_server \<Rightarrow> ('d, 'j) push_server \<Rightarrow> push_action list \<Rightarrow> bool" where
  "request_frame E ses S S' out \<longleftrightarrow>
     (only_sends out \<and> ps_requests S' = ps_requests S) \<or>
     (\<exists>clt cmd i key body q. pending_new (request_of ses i key S) (ps_requests S) = Some (q, ps_requests S') \<and>
        out = [Query clt (request_pkg cmd q (uint i) body)] \<and>
        (cmd \<in> user_commands \<longrightarrow> (\<exists>u. user_of S ses = Some u \<and> asks_about E u body)))"

lemma quiet_request: "only_sends out \<Longrightarrow> ps_requests S' = ps_requests S \<Longrightarrow> request_frame E ses S S' out"
  by (simp add: request_frame_def)

lemma only_sends_simps [simp]:
  "only_sends []" "only_sends (Send s t # out) = only_sends out" "\<not> only_sends (Query b pkg # out)"
  "only_sends (Auth_job q a # out) = only_sends out" "only_sends (Sign_job q a a2 c # out) = only_sends out"
  "only_sends (out @ out') \<longleftrightarrow> only_sends out \<and> only_sends out'" "only_sends (concat outs) \<longleftrightarrow> (\<forall>out\<in>set outs. only_sends out)"
  by (auto simp: only_sends_def)

lemma only_sends_messages [simp]:
  "only_sends (send_json E ses doc)" "only_sends (send_error E ses i code m)" "only_sends (send_error_invalid_argument E ses i)"
  "only_sends (send_error_internal_error E ses i)" "only_sends (send_error_require_auth E ses i)"
  "only_sends (send_result E ses i r)" "only_sends (send_success E ses i)" "only_sends (send_notify E ses m params)"
proof -
  show j: "only_sends (send_json E ses doc)" for doc by (simp add: send_json_def split: option.splits)
  show "only_sends (send_error E ses i code m)" "only_sends (send_error_invalid_argument E ses i)"
    "only_sends (send_error_internal_error E ses i)" "only_sends (send_error_require_auth E ses i)"
    "only_sends (send_result E ses i r)" "only_sends (send_success E ses i)" "only_sends (send_notify E ses m params)"
    by (simp_all add: send_error_def send_error_invalid_argument_def send_error_internal_error_def send_error_require_auth_def
        send_result_def send_success_def send_notify_def Let_def j)
qed

lemma pass_on_request:
  assumes "pass_on clt cmd ses i key body S = Some (S', out)"
    and "cmd \<in> user_commands \<Longrightarrow> \<exists>u. user_of S ses = Some u \<and> asks_about E u body"
  shows "request_frame E ses S S' out"
  using assms by (fastforce simp: pass_on_def request_frame_def request_of_def split: Option.bind_splits prod.splits)

lemma user_command_values [simp]:
  "CMD_MARKET_KLINE \<notin> user_commands" "CMD_ORDER_BOOK_DEPTH \<notin> user_commands" "CMD_MARKET_LAST \<notin> user_commands"
  "CMD_MARKET_STATUS \<notin> user_commands" "CMD_MARKET_STATUS_TODAY \<notin> user_commands" "CMD_MARKET_DEALS \<notin> user_commands"
  by (simp_all add: user_commands_def CMD_MARKET_KLINE_def CMD_ORDER_BOOK_DEPTH_def CMD_MARKET_LAST_def CMD_MARKET_STATUS_def
      CMD_MARKET_STATUS_TODAY_def CMD_MARKET_DEALS_def CMD_ORDER_QUERY_def CMD_ORDER_HISTORY_def CMD_BALANCE_QUERY_def CMD_BALANCE_HISTORY_def)

lemma process_cache_requests:
  "process_cache E st w ses i key S = (b, S1, out1) \<Longrightarrow> ps_requests S1 = ps_requests S \<and> ps_conns S1 = ps_conns S \<and>
     user_of S1 = user_of S \<and> only_sends out1"
  by (auto simp: process_cache_def user_of_def split: option.splits if_splits prod.splits)

lemma public_query_request:
  assumes "public_query E st w clt cmd ses i params S = Some (S', out)" "cmd \<notin> user_commands"
  shows "request_frame E ses S S' out"
proof (cases "ou_up w clt")
  case False
  then show ?thesis using assms(1) by (auto simp: public_query_def intro: quiet_request)
next
  case True
  obtain body where body: "json_dumps (json E) params 0 = Some body" using assms True by (auto simp: public_query_def split: Option.bind_splits)
  let ?key = "show_digits (unat cmd) @ ''-'' @ body"
  obtain b S1 out1 where c: "process_cache E st w ses i ?key S = (b, S1, out1)" by (metis surj_pair)
  have S1: "ps_requests S1 = ps_requests S" "ps_conns S1 = ps_conns S" "user_of S1 = user_of S" "only_sends out1"
    using process_cache_requests [OF c] by blast+
  have r: "request_of ses i key S1 = request_of ses i key S" for i key using S1 by (simp add: request_of_def)
  show ?thesis
  proof (cases b)
    case True
    then show ?thesis using assms(1) \<open>ou_up w clt\<close> body c S1 by (auto simp: public_query_def intro: quiet_request)
  next
    case False
    then have "pass_on clt cmd ses i (Some ?key) body S1 = Some (S', out)" using assms(1) \<open>ou_up w clt\<close> body c by (simp add: public_query_def)
    from pass_on_request [OF this] assms(2) show ?thesis by (simp add: request_frame_def S1 r)
  qed
qed

lemma user_query_request:
  assumes "user_query E clt cmd ses i params S = Some (S', out)" "ci_auth (ps_info S ses)"
  shows "request_frame E ses S S' out"
proof -
  obtain body where b: "json_dumps (json E) (json_array (json E) (json_integer (json E) (uint (ci_user_id (ps_info S ses))) # params)) 0 = Some body"
    "pass_on clt cmd ses i None body S = Some (S', out)" using assms(1) unfolding user_query_def bind_eq_Some_conv by blast
  show ?thesis by (rule pass_on_request [OF b(2)]) (use b(1) assms(2) in \<open>auto simp: user_of_def asks_about_def\<close>)
qed

lemma user_method_requests:
  "on_method_order_query E w ses i params S = Some (S', out) \<Longrightarrow> request_frame E ses S S' out"
  "on_method_order_history E w ses i params S = Some (S', out) \<Longrightarrow> request_frame E ses S S' out"
  "on_method_asset_query E w ses i params S = Some (S', out) \<Longrightarrow> request_frame E ses S S' out"
  "on_method_asset_history E w ses i params S = Some (S', out) \<Longrightarrow> request_frame E ses S S' out"
  using user_query_request [of E _ _ ses i _ S S' out] quiet_request [of _ S S E ses]
  by (auto simp: on_method_order_query_def on_method_order_history_def on_method_asset_query_def on_method_asset_history_def
      split: if_splits option.splits simp del: bind_split_asm)

text \<open>Subscriptions send messages only.\<close>

lemma send_last_only [simp]:
  "only_sends (price_send_last E ses market tpp)" "only_sends (state_send_last E ses market tps)"
  "only_sends (today_send_last E ses market tps)" "only_sends (deals_send_full E ses market tpd)"
  "only_sends (depth_send_clean E ses market limit interval tpo)"
  by (auto simp: price_send_last_def state_send_last_def today_send_last_def status_send_last_def deals_send_full_def
      depth_send_clean_def split: option.splits)

lemma on_method_subscribe_only:
  "(\<And>name t. only_sends (send_last ses name t)) \<Longrightarrow> only_sends (snd (on_method_subscribe E ses i params unsub sub send_last tp))"
  by (auto simp: on_method_subscribe_def Let_def split: prod.splits bool.splits)

lemma topic_methods_only:
  "only_sends (snd (on_method_price_subscribe E ses i params tpp))" "only_sends (snd (on_method_today_subscribe E ses i params tps))"
  "only_sends (snd (on_method_state_subscribe E ses i params tps))" "only_sends (snd (on_method_deals_subscribe E ses i params tpd))"
  "only_sends (snd (on_method_kline_subscribe E ses i params tpk))" "only_sends (snd (on_method_depth_subscribe E st ses i params tpo))"
  "only_sends (snd (on_method_price_unsubscribe E ses i tpp))" "only_sends (snd (on_method_today_unsubscribe E ses i tps))"
  "only_sends (snd (on_method_state_unsubscribe E ses i tps))" "only_sends (snd (on_method_deals_unsubscribe E ses i tpd))"
  "only_sends (snd (on_method_kline_unsubscribe E ses i tpk))" "only_sends (snd (on_method_depth_unsubscribe E ses i tpo))"
  by (auto simp: on_method_price_subscribe_def on_method_today_subscribe_def on_method_state_subscribe_def on_method_deals_subscribe_def
      on_method_kline_subscribe_def on_method_depth_subscribe_def on_method_price_unsubscribe_def on_method_today_unsubscribe_def
      on_method_state_unsubscribe_def on_method_deals_unsubscribe_def on_method_kline_unsubscribe_def on_method_depth_unsubscribe_def
      intro!: on_method_subscribe_only split: option.splits prod.splits)

lemma user_subscription_requests:
  "on_method_order_subscribe E ses i params S = (S', out) \<Longrightarrow> request_frame E ses S S' out"
  "on_method_order_unsubscribe E ses i S = (S', out) \<Longrightarrow> request_frame E ses S S' out"
  "on_method_asset_subscribe E ses i params S = (S', out) \<Longrightarrow> request_frame E ses S S' out"
  "on_method_asset_unsubscribe E ses i S = (S', out) \<Longrightarrow> request_frame E ses S S' out"
  by (auto simp: on_method_order_subscribe_def on_method_order_unsubscribe_def on_method_asset_subscribe_def
      on_method_asset_unsubscribe_def user_subscriptions_def Let_def intro!: quiet_request split: if_splits prod.splits bool.splits)

lemma login_requests:
  "send_auth_request E ses i params S = Some (S', out) \<Longrightarrow> request_frame E ses S S' out"
  "send_sign_request E ses i params S = Some (S', out) \<Longrightarrow> request_frame E ses S S' out"
  by (erule send_auth_request_cases, simp_all add: set_source_def quiet_request)
    (erule send_sign_request_cases, simp_all add: set_source_def quiet_request)

text \<open>All methods of the table.\<close>

definition passes_own :: "('d, 'j) env \<Rightarrow> ('d, 'j) handler \<Rightarrow> bool" where
  "passes_own E h \<longleftrightarrow> (\<forall>ses i params S S' out. h ses i params S = Some (S', out) \<longrightarrow> request_frame E ses S S' out)"

lemma update_passes_own:
  "(\<And>ses i params S. ps_requests (f S (fst (h ses i params S))) = ps_requests S \<and> only_sends (snd (h ses i params S))) \<Longrightarrow>
   passes_own E (\<lambda>ses i params S. Some (map_prod (f S) id (h ses i params S)))"
  unfolding passes_own_def by (intro allI impI) (metis (no_types, lifting) map_prod_def case_prod_unfold Pair_inject id_apply option.inject quiet_request)

lemma method_map_passes_own: "map_of (method_map E st w) name = Some h \<Longrightarrow> passes_own E h"
proof -
  have q: "passes_own E (on_method_kline_query E st w)" "passes_own E (on_method_depth_query E st w)"
    "passes_own E (on_method_price_query E st w)" "passes_own E (on_method_state_query E st w)"
    "passes_own E (on_method_today_query E st w)" "passes_own E (on_method_deals_query E st w)"
    unfolding passes_own_def on_method_kline_query_def on_method_depth_query_def on_method_price_query_def on_method_state_query_def
      on_method_today_query_def on_method_deals_query_def
    by (auto intro: public_query_request)
  have o: "passes_own E (\<lambda>ses i params S. Some (S, on_method_server_ping E ses i))"
    "passes_own E (\<lambda>ses i params S. Some (S, on_method_server_time E w ses i))"
    "passes_own E (send_auth_request E)" "passes_own E (send_sign_request E)"
    "passes_own E (on_method_order_query E w)" "passes_own E (on_method_order_history E w)"
    "passes_own E (on_method_asset_query E w)" "passes_own E (on_method_asset_history E w)"
    "passes_own E (\<lambda>ses i params S. Some (on_method_order_subscribe E ses i params S))"
    "passes_own E (\<lambda>ses i params S. Some (on_method_order_unsubscribe E ses i S))"
    "passes_own E (\<lambda>ses i params S. Some (on_method_asset_subscribe E ses i params S))"
    "passes_own E (\<lambda>ses i params S. Some (on_method_asset_unsubscribe E ses i S))"
    unfolding passes_own_def
    by (auto simp: on_method_server_ping_def on_method_server_time_def
        intro: quiet_request user_method_requests user_subscription_requests login_requests)
  have "\<forall>x\<in>set (method_map E st w). passes_own E (snd x)"
    unfolding method_map_def by (simp add: q o update_passes_own topic_methods_only)
  then show "map_of (method_map E st w) name = Some h \<Longrightarrow> passes_own E h" by (auto dest!: map_of_SomeD)
qed

lemma on_message_request:
  assumes "on_message E st w ses message S = Some (ret, S', out)"
  shows "request_frame E ses S S' out"
proof (cases "decode_message E message")
  case (Some x)
  obtain i name params where x: "x = (i, name, params)" by (cases x)
  show ?thesis
  proof (cases "map_of (method_map E st w) name")
    case None
    then show ?thesis using assms Some x by (simp add: on_message_def quiet_request)
  next
    case (Some h)
    from method_map_passes_own [OF this] show ?thesis
      using assms Some \<open>decode_message E message = Some x\<close> x by (auto simp: on_message_def passes_own_def)
  qed
qed (use assms in \<open>simp add: on_message_def quiet_request\<close>)

section \<open>The requests in a run\<close>

definition waiting_request :: "('d, 'j) push_server \<Rightarrow> u32 \<Rightarrow> ses option" where
  "waiting_request S q =
     (case pn_map (ps_requests S) q of
        None \<Rightarrow> None
      | Some d \<Rightarrow> if cn_id (ps_conns S) (rq_ses d) = rq_ses_id d then Some (rq_ses d) else None)"

definition request_inv :: "'j push_past \<Rightarrow> ('d, 'j) push_server \<Rightarrow> bool" where
  "request_inv past S \<longleftrightarrow> (\<forall>q. asker q past = waiting_request S q) \<and>
     (\<forall>q d. pn_map (ps_requests S) q = Some d \<longrightarrow> rq_ses_id d \<noteq> 0 \<and> rq_ses_id d < cn_id_start (ps_conns S))"

text \<open>An id in use before a step tells the same connection afterwards, unless the step closes it.\<close>

definition ids_kept :: "'j push_event \<Rightarrow> push_action list \<Rightarrow> ('d, 'j) push_server \<Rightarrow> ('d, 'j) push_server \<Rightarrow> bool" where
  "ids_kept e out S S' \<longleftrightarrow> cn_id_start (ps_conns S) \<le> cn_id_start (ps_conns S') \<and>
     (\<forall>s i. i \<noteq> 0 \<longrightarrow> i < cn_id_start (ps_conns S) \<longrightarrow>
       (cn_id (ps_conns S') s = i \<longleftrightarrow> \<not> closes e out s \<and> cn_id (ps_conns S) s = i))"

lemma ids_keptI: "ps_conns S' = ps_conns S \<Longrightarrow> (\<And>s. cn_id (ps_conns S) s \<noteq> 0 \<Longrightarrow> \<not> closes e out s) \<Longrightarrow> ids_kept e out S S'"
  by (auto simp: ids_kept_def)

lemma ids_kept_shut:
  "conns_ok n (ps_conns S) \<Longrightarrow> (\<And>s. closes e out s \<longleftrightarrow> s = ses) \<Longrightarrow> ids_kept e out S (shut found ses S)"
  using close_ses_ok [of n "ps_conns S" ses] by (auto simp: ids_kept_def shut_def Let_def on_close_frame)

lemma ids_kept_step:
  assumes inv: "push_inv E (Suc n) past S" and s: "push_step E st (w, e) S = Some (S', out)"
  shows "ids_kept e out S S'"
proof (cases "about_sessions e")
  case False
  have "plain_out out" "ps_conns S' = ps_conns S" using silent_step [OF s False] by (auto simp: silent_def)
  then show ?thesis using False plain_outD [of out] by (cases e) (auto simp: closes_def intro!: ids_keptI)
next
  case True
  note ok = push_invD(1) [OF inv]
  show ?thesis
  proof (cases e)
    case (Open ses)
    have c: "\<not> closes e [] s" for s by (simp add: Open closes_def)
    show ?thesis
    proof (cases "cn_id (ps_conns S) ses = 0")
      case free: True
      note A = add_ses_ok [OF ok free]
      have S': "ps_conns S' = nw_svr_add_ses ses (ps_conns S)" "out = []" using s Open free by (auto simp: on_upgrade_def)
      show ?thesis unfolding ids_kept_def
      proof (intro conjI allI impI)
        show "cn_id_start (ps_conns S) \<le> cn_id_start (ps_conns S')" using A S' by (simp add: less_imp_le)
        show "cn_id (ps_conns S') s = i \<longleftrightarrow> \<not> closes e out s \<and> cn_id (ps_conns S) s = i"
          if "i \<noteq> 0" "i < cn_id_start (ps_conns S)" for s i
          using A S' c that free by (cases "s = ses") auto
      qed
    qed (use s Open c in \<open>auto intro!: ids_keptI\<close>)
  next
    case (Shut ses found)
    then show ?thesis using s ok
      by (cases "cn_id (ps_conns S) ses = 0") (auto simp: closes_def intro!: ids_keptI ids_kept_shut)
  next
    case (Client ses m)
    show ?thesis
    proof (cases "cn_id (ps_conns S) ses = 0")
      case False
      then obtain ret S1 out1 where r: "on_message E st w ses m S = Some (ret, S1, out1)"
        "(S', out) = (if ret < 0 then (shut True ses S1, out1 @ [Hang_up ses]) else (S1, out1))"
        using s Client by (auto split: prod.splits)
      show ?thesis
      proof (cases "ret < 0")
        case True
        then have "S' = shut True ses S" "out = [Hang_up ses]" using on_message_frame(2) [OF r(1)] r(2) by auto
        then show ?thesis using ok Client by (auto simp: closes_def intro!: ids_kept_shut)
      next
        case False
        then show ?thesis using on_message_frame(1) [OF r(1)] r(2) Client by (auto simp: message_frame_def closes_def intro!: ids_keptI)
      qed
    qed (use s Client in \<open>auto simp: closes_def intro!: ids_keptI\<close>)
  next
    case (Login_done k q reply)
    have "ps_conns S' = ps_conns S \<and> plain_out out"
    proof (cases "pn_map (logins k S) q")
      case (Some d)
      then show ?thesis using s Login_done on_result_frame(1,2) by (cases "on_result E d reply S") (auto simp: on_finish_cases)
    qed (use s Login_done in \<open>auto simp: on_finish_cases\<close>)
    then show ?thesis using Login_done plain_outD [of out] by (auto simp: closes_def intro!: ids_keptI)
  next
    case (Login_timeout k q)
    have "plain_out (case pn_map (logins k S) q of None \<Rightarrow> [] | Some state \<Rightarrow> login_on_timeout E state S)"
      by (simp add: login_on_timeout_def split: option.splits)
    then show ?thesis using s Login_timeout plain_outD by (fastforce simp: closes_def intro!: ids_keptI)
  qed (use True in auto)
qed

lemma request_kept:
  assumes inv: "request_inv past S" and ids: "ids_kept e out S S'"
    and r: "\<And>q. pn_map (ps_requests S') q = (if ends_request q e then None else pn_map (ps_requests S) q)"
    and p: "\<And>s m q. e = Client s m \<Longrightarrow> \<not> passes q out"
  shows "request_inv ((e, out) # past) S'"
proof -
  have k: "rq_ses_id d \<noteq> 0 \<and> rq_ses_id d < cn_id_start (ps_conns S)" if "pn_map (ps_requests S) q = Some d" for q d
    using inv that unfolding request_inv_def by blast
  have a: "asker q past = waiting_request S q" for q using inv unfolding request_inv_def by blast
  have "asker q ((e, out) # past) = waiting_request S' q" for q
  proof (cases "ends_request q e")
    case True
    then show ?thesis using r [of q] by (simp add: waiting_request_def)
  next
    case False
    have f: "asker q ((e, out) # past) = (case asker q past of None \<Rightarrow> None | Some s \<Rightarrow> if closes e out s then None else Some s)"
      using False p by (auto split: push_event.splits)
    show ?thesis
    proof (cases "pn_map (ps_requests S) q")
      case (Some d)
      have "cn_id (ps_conns S') (rq_ses d) = rq_ses_id d \<longleftrightarrow> \<not> closes e out (rq_ses d) \<and> cn_id (ps_conns S) (rq_ses d) = rq_ses_id d"
        using ids k [OF Some] unfolding ids_kept_def by blast
      then show ?thesis unfolding f using a [of q] r [of q] False Some by (simp add: waiting_request_def)
    qed (use f a [of q] r [of q] False in \<open>simp add: waiting_request_def\<close>)
  qed
  moreover have "rq_ses_id d \<noteq> 0 \<and> rq_ses_id d < cn_id_start (ps_conns S')" if "pn_map (ps_requests S') q = Some d" for q d
    using that r [of q] k [of q d] ids unfolding ids_kept_def by (auto split: if_splits)
  ultimately show ?thesis unfolding request_inv_def by blast
qed

lemma other_requests:
  assumes s: "push_step E st (w, e) S = Some (S', out)" and e: "\<And>s m. e \<noteq> Client s m"
  shows "pn_map (ps_requests S') q = (if ends_request q e then None else pn_map (ps_requests S) q)"
proof (cases e)
  case (Topic_packet k pkg)
  then show ?thesis using s by (cases k) auto
next
  case (Market_tick k keys)
  then show ?thesis using s by (cases k) auto
next
  case (Topic_timeout k q)
  then show ?thesis using s by (cases k) auto
next
  case (Shut ses found)
  then show ?thesis using s by (auto simp: shut_def on_close_def Let_def)
next
  case (Packet pkg)
  then show ?thesis using s by (auto simp: on_backend_recv_pkg_def Let_def split: option.splits)
next
  case (Login_done k p reply)
  have r: "on_result E d reply S = (S1, out1) \<Longrightarrow> ps_requests S1 = ps_requests S" for d S1 out1
    by (auto simp: on_result_def Let_def split: login_result.splits if_splits)
  show ?thesis using s Login_done
    by (cases k) (auto simp: on_finish_def auth_on_finish_def sign_on_finish_def dest!: r split: option.splits prod.splits)
next
  case (Login_timeout k p)
  then show ?thesis using s by (cases k) (auto simp: drop_login_def)
next
  case (Asset_packet pkg)
  then show ?thesis using s by (cases "asset_recv_pkg E pkg (ps_asset S)") auto
qed (use s e in \<open>auto simp: on_upgrade_def on_cache_timer_def\<close>)

lemma request_step:
  assumes inv: "push_inv E (Suc n) past S" and rinv: "request_inv past S" and s: "push_step E st (w, e) S = Some (S', out)"
  shows "request_inv ((e, out) # past) S'"
proof (cases "\<exists>ses m. e = Client ses m \<and> cn_id (ps_conns S) ses \<noteq> 0")
  case False
  show ?thesis
  proof (rule request_kept [OF rinv ids_kept_step [OF inv s]])
    show "pn_map (ps_requests S') q = (if ends_request q e then None else pn_map (ps_requests S) q)" for q
      using other_requests [OF s, of q] s False by (cases e) auto
    show "e = Client ses m \<Longrightarrow> \<not> passes q out" for ses m q using s False by (auto simp: passes_def)
  qed
next
  case True
  then obtain ses m where e: "e = Client ses m" and live: "cn_id (ps_conns S) ses \<noteq> 0" by blast
  obtain ret S1 out1 where r: "on_message E st w ses m S = Some (ret, S1, out1)"
    "(S', out) = (if ret < 0 then (shut True ses S1, out1 @ [Hang_up ses]) else (S1, out1))"
    using s e live by (auto split: prod.splits)
  show ?thesis
  proof (cases "only_sends out \<and> ps_requests S' = ps_requests S")
    case True
    show ?thesis
      by (rule request_kept [OF rinv ids_kept_step [OF inv s]]) (use True e in \<open>auto simp: only_sends_def passes_def\<close>)
  next
    case False
    have ret: "\<not> ret < 0"
    proof
      assume "ret < 0"
      then have "S' = shut True ses S" "out = [Hang_up ses]" using on_message_frame(2) [OF r(1)] r(2) by auto
      then show False using False by (auto simp: only_sends_def shut_def on_close_def Let_def)
    qed
    obtain clt cmd i key body q where p: "pending_new (request_of ses i key S) (ps_requests S) = Some (q, ps_requests S')"
      "out = [Query clt (request_pkg cmd q (uint i) body)]"
      using on_message_request [OF r(1)] r(2) ret False unfolding request_frame_def by auto
    have c: "ps_conns S' = ps_conns S" using on_message_frame(1) [OF r(1)] r(2) ret by (simp add: message_frame_def)
    have m: "pn_map (ps_requests S') = (pn_map (ps_requests S))(q \<mapsto> request_of ses i key S)" using pending_newD [OF p(1)] by simp
    have ps: "passes q' out \<longleftrightarrow> q' = q" for q' by (auto simp: p(2) passes_def request_pkg_def)
    have cl: "\<not> closes e out s" for s by (simp add: e p(2) closes_def)
    have less: "cn_id (ps_conns S) ses < cn_id_start (ps_conns S)" by (rule conns_ok_less [OF push_invD(1) [OF inv] live])
    show ?thesis unfolding request_inv_def
    proof (intro conjI allI impI)
      show "asker q' ((e, out) # past) = waiting_request S' q'" for q'
      proof (cases "q' = q")
        case True
        then show ?thesis using ps by (simp add: e waiting_request_def m c request_of_def)
      next
        case False
        have "asker q' past = waiting_request S q'" using rinv unfolding request_inv_def by blast
        then show ?thesis using False ps cl by (auto simp: e waiting_request_def m c split: option.splits)
      qed
      fix q' d assume d: "pn_map (ps_requests S') q' = Some d"
      show "rq_ses_id d \<noteq> 0" "rq_ses_id d < cn_id_start (ps_conns S')"
        using d rinv live less by (auto simp: m c request_of_def request_inv_def split: if_splits)
    qed
  qed
qed

lemma push_run_requests:
  "push_run E st es (S, past) = Some (S', past') \<Longrightarrow> push_inv E (length es + n) past S \<Longrightarrow> request_inv past S \<Longrightarrow> request_inv past' S'"
proof (induction es arbitrary: S past)
  case (Cons e es)
  obtain w v where e: "e = (w, v)" by (cases e)
  obtain S1 out where s: "push_step E st (w, v) S = Some (S1, out)" "push_run E st es (S1, (v, out) # past) = Some (S', past')"
    using Cons.prems(1) by (auto simp: e split: option.splits)
  have inv: "push_inv E (Suc (length es + n)) past S" using Cons.prems(2) by simp
  show ?case by (rule Cons.IH [OF s(2) push_step_inv [OF inv s(1)] request_step [OF inv Cons.prems(3) s(1)]])
qed simp

lemma init_request_inv: "request_inv [] init_push_server"
  by (simp add: request_inv_def init_push_server_def waiting_request_def no_pending_def)

end
