(* ===== verification/Push_Properties.thy ===== *)
theory Push_Properties
  imports Push_Requests Example_Push
begin

text \<open>What the clients of the push server can rely on: every run keeps their data and their answers to themselves.\<close>

section \<open>Runs\<close>

text \<open>A run from the start of the server, short enough that the counter of connections does not wrap.\<close>

definition push_reaches ::
  "('d, 'j) env \<Rightarrow> 'd push_settings \<Rightarrow> (outside \<times> 'j push_event) list \<Rightarrow> ('d, 'j) push_server \<Rightarrow> 'j push_past \<Rightarrow> bool" where
  "push_reaches E st es S past \<longleftrightarrow> length es < 2 ^ 62 \<and> push_run E st es (init_push_server, []) = Some (S, past)"

lemma reachesD:
  assumes "push_reaches E st es S past"
  shows "push_inv E 1 past S" "request_inv past S"
proof -
  have r: "push_run E st es (init_push_server, []) = Some (S, past)" and l: "length es < 2 ^ 62"
    using assms unfolding push_reaches_def by blast+
  have i: "push_inv E (length es + 1) [] init_push_server" by (rule init_push_inv) (use l in simp)
  show "push_inv E 1 past S" by (rule push_run_inv [OF r i])
  show "request_inv past S" by (rule push_run_requests [OF r i init_request_inv])
qed

text \<open>The user an order of the engine belongs to, or about whose balance an answer is.\<close>

fun concerns :: "('d, 'j) env \<Rightarrow> ('d, 'j) push_server \<Rightarrow> 'j push_event \<Rightarrow> u32 option" where
  "concerns E S (Orders message) =
     map_option (\<lambda>(event, order, user_id, stock, money). user_id) (Option.bind (json_loadb (json E) message) (orders_message E))"
| "concerns E S (Asset_packet pkg) = map_option fst (pn_map (as_state (ps_asset S)) (pkg_sequence pkg))"
| "concerns E S e = None"

lemma orders_to:
  assumes "on_orders_message E message (D, A) = Some (DA, out)" "Send s text \<in> set out"
  shows "\<exists>u. concerns E S (Orders message) = Some u \<and> subscribed D u s"
  using assms asset_on_update_frame(2)
  by (fastforce simp: on_orders_message_def bind_eq_Some_conv split: option.splits prod.splits dest: order_on_update_to)

lemma balance_to:
  assumes "asset_recv_pkg E pkg A = (A', out)" "Send s text \<in> set out"
  shows "\<exists>u. map_option fst (pn_map (as_state A) (pkg_sequence pkg)) = Some u \<and> subscribed (as_sub A) u s"
  using assms by (auto simp: asset_recv_pkg_def split: option.splits dest!: balance_reply_to)

section \<open>Privacy\<close>

text \<open>
  C26. What an order message of the engine or an answer about a balance makes the server send goes to
  connections alone that are logged in as the user it is about; the answer to a request that was
  passed on goes to the connection alone that still waits for it.
\<close>

theorem push_private:
  assumes "push_reaches E st es S past" "push_step E st (w, e) S = Some (S', out)" "Send s text \<in> set out"
  shows "case e of
      Orders message \<Rightarrow> \<exists>u. concerns E S e = Some u \<and> logged_in E s past = Some u
    | Asset_packet pkg \<Rightarrow> \<exists>u. concerns E S e = Some u \<and> logged_in E s past = Some u
    | Packet pkg \<Rightarrow> asker (pkg_sequence pkg) past = Some s
    | _ \<Rightarrow> True"
proof -
  note inv = reachesD [OF assms(1)]
  have l: "logged_in E s past = Some u" if "subscribed (ps_order S) u s \<or> subscribed (as_sub (ps_asset S)) u s" for u
    using push_invD(5) [OF inv(1) that] push_invD(4) [OF inv(1), of s] by simp
  show ?thesis
  proof (cases e)
    case (Orders message)
    then obtain DA where "on_orders_message E message (ps_order S, ps_asset S) = Some (DA, out)" using assms(2) by (auto split: prod.splits)
    from orders_to [OF this assms(3), of S] show ?thesis using Orders l by auto
  next
    case (Asset_packet pkg)
    obtain A where "asset_recv_pkg E pkg (ps_asset S) = (A, out)"
      using assms(2) Asset_packet by (cases "asset_recv_pkg E pkg (ps_asset S)") auto
    from balance_to [OF this assms(3)] show ?thesis using Asset_packet l by auto
  next
    case (Packet pkg)
    have a: "asker (pkg_sequence pkg) past = waiting_request S (pkg_sequence pkg)" using inv(2) unfolding request_inv_def by blast
    show ?thesis using assms(2,3) Packet a
      by (auto simp: on_backend_recv_pkg_def waiting_request_def Let_def split: option.splits if_splits)
  qed auto
qed

text \<open>
  C27. A request about orders or balances that is passed on for a client asks for the data of the user
  the client is logged in as, whatever its parameters are.
\<close>

theorem push_asks_own:
  assumes "push_reaches E st es S past" "push_step E st (w, Client s message) S = Some (S', out)"
    "Query clt pkg \<in> set out" "command pkg \<in> user_commands"
  shows "\<exists>u body. logged_in E s past = Some u \<and> pkg_body pkg = text_bytes body \<and> asks_about E u body"
proof (cases "cn_id (ps_conns S) s = 0")
  case False
  then obtain ret S1 out1 where r: "on_message E st w s message S = Some (ret, S1, out1)"
    "(S', out) = (if ret < 0 then (shut True s S1, out1 @ [Hang_up s]) else (S1, out1))"
    using assms(2) by (auto split: prod.splits)
  have "Query clt pkg \<in> set out1" using r(2) assms(3) by (auto split: if_splits)
  with on_message_request [OF r(1)] obtain clt' cmd q body and i :: u64 where o: "out1 = [Query clt' (request_pkg cmd q (uint i) body)]"
    "cmd \<in> user_commands \<longrightarrow> (\<exists>u. user_of S s = Some u \<and> asks_about E u body)"
    unfolding request_frame_def only_sends_def by blast
  have pkg: "pkg = request_pkg cmd q (uint i) body" using \<open>Query clt pkg \<in> set out1\<close> o(1) by simp
  show ?thesis using pkg o(2) assms(4) False push_invD(4) [OF reachesD(1) [OF assms(1)], of s] by (auto simp: request_pkg_def)
qed (use assms in simp)

text \<open>
  C28. Whoever is subscribed to orders or balances of a user is an open connection logged in as this user.
  Whoever is subscribed to candles, order books, prices, the day or deals is an open connection too, or a
  session that was once closed, other than while it handled a message of its client, at a moment when the
  dictionaries did not find it: closing, and logging in as somebody else, ends all other subscriptions.
\<close>

theorem subscribers_open:
  assumes "push_reaches E st es S past"
  shows "(s \<in> all_watchers S \<longrightarrow> cn_id (ps_conns S) s \<noteq> 0 \<or> left_behind s past) \<and>
    (subscribed (ps_order S) u s \<or> subscribed (as_sub (ps_asset S)) u s \<longrightarrow> cn_id (ps_conns S) s \<noteq> 0 \<and> logged_in E s past = Some u)"
proof -
  note inv = reachesD(1) [OF assms(1)]
  show ?thesis using push_invD(4) [OF inv, of s] push_invD(5) [OF inv, of u s] push_invD(6) [OF inv, of s] by auto
qed

section \<open>Inputs\<close>

definition ex_msg :: "string \<Rightarrow> jv list \<Rightarrow> string" where
  "ex_msg name params = show_jv (JObj [(''id'', JInt 1), (''method'', JStr name), (''params'', JArr params)])"

definition ex_outside :: outside where
  "ex_outside = \<lparr>ou_timestamp = 0, ou_time = 0, ou_up = (\<lambda>_. True), ou_walk = (\<lambda>ss. ss)\<rparr>"

lemma ex_decode: "decode_message ex_env (ex_msg name params) = Some (1, name, JArr params)"
  by (simp add: decode_message_def ex_msg_def jv_select jv_loadb check_def del: show_jv.simps)


lemma ex_message: "on_message ex_env ex_push w ses (ex_msg name params) S =
    (case map_of (method_map ex_env ex_push w) name of None \<Rightarrow> Some (0, S, []) | Some handler \<Rightarrow> map_option (Pair 0) (handler ses 1 (JArr params) S))"
  by (simp add: on_message_def ex_decode)

lemma ex_methods:
  "map_of (method_map E st w) ''server.auth'' = Some (send_auth_request E)"
  "map_of (method_map E st w) ''order.subscribe'' = Some (\<lambda>ses i params S. Some (on_method_order_subscribe E ses i params S))"
  "map_of (method_map E st w) ''asset.query'' = Some (on_method_asset_query E w)"
  "map_of (method_map E st w) ''state.subscribe'' =
     Some (\<lambda>ses i params S. Some (map_prod (\<lambda>tp. S\<lparr>ps_state := tp\<rparr>) id (on_method_state_subscribe E ses i params (ps_state S))))"
  by (simp_all add: method_map_def)

text \<open>A client logs in, subscribes to its orders and asks for its balances.\<close>

definition ex_login :: "(outside \<times> jv push_event) list" where
  "ex_login = map (Pair ex_outside) [Open 7, Client 7 (ex_msg ''server.auth'' [JStr ''t'', JStr ''web'']),
     Login_done Auth 1 (Some (JObj [(''code'', JInt 0), (''data'', JObj [(''user_id'', JInt 5)])])),
     Client 7 (ex_msg ''order.subscribe'' [JStr ''BTC''])]"

definition ex_order :: string where
  "ex_order = show_jv (JObj [(''event'', JInt 1), (''order'', JObj [(''user'', JInt 5), (''market'', JStr ''BTC'')]),
     (''stock'', JStr ''B''), (''money'', JStr ''U'')])"

definition ex_push_server :: "(dec, jv) push_server" where
  "ex_push_server = init_push_server\<lparr>ps_conns := nw_svr_add_ses 7 nw_svr_create,
     ps_info := (\<lambda>_. \<lparr>ci_auth = False, ci_user_id = 0, ci_source = None\<rparr>)(7 := \<lparr>ci_auth = True, ci_user_id = 5, ci_source = Some ''web''\<rparr>),
     ps_auth := no_pending\<lparr>pn_start := 1\<rparr>, ps_order := [5 \<mapsto> [(7, ''BTC'')]]\<rparr>"

lemma ex_id: "cn_id (nw_svr_add_ses 7 nw_svr_create) 7 = 1" "cn_id nw_svr_create 7 = 0"
  by (simp_all add: nw_svr_add_ses_def nw_svr_create_def)

lemma ex_result: "login_result ex_env (Some (JObj [(''code'', JInt 0), (''data'', JObj [(''user_id'', JInt 5)])])) = Login_user 5"
  by (simp add: login_result_def jv_select check_def)

lemma ex_login_run:
  "\<exists>past. push_reaches ex_env ex_push ex_login ex_push_server past \<and> logged_in ex_env 7 past = Some 5"
  by (simp add: push_reaches_def ex_login_def ex_message ex_methods send_auth_request_def jv_select check_def SOURCE_MAX_LEN_def
      init_push_server_def on_upgrade_def ex_id pending_new_def next_number new_login_def set_source_def on_finish_def auth_on_finish_def
      on_result_def ex_result Let_def on_method_order_subscribe_def user_subscriptions_def name_param_def MARKET_NAME_MAX_LEN_def
      order_subscribe_def order_unsubscribe_def user_unsubscribe_def user_subscribe_def sub_list_def closes_def asks_def
      send_success_def send_result_def send_json_def ex_push_server_def no_pending_def pending_del_def fun_eq_iff del: show_jv.simps)


lemma push_private_witness:
  "\<exists>past S' out text. push_reaches ex_env ex_push ex_login ex_push_server past \<and>
     push_step ex_env ex_push (ex_outside, Orders ex_order) ex_push_server = Some (S', out) \<and> Send 7 text \<in> set out \<and>
     logged_in ex_env 7 past = Some 5"
proof -
  obtain past where past: "push_reaches ex_env ex_push ex_login ex_push_server past" using ex_login_run by blast
  have m: "Option.bind (json_loadb (json ex_env) ex_order) (orders_message ex_env) =
      Some (1, JObj [(''user'', JInt 5), (''market'', JStr ''BTC'')], 5, ''B'', ''U'')"
    by (simp add: ex_order_def jv_loadb orders_message_def jv_select check_def del: show_jv.simps)
  obtain tx where step: "push_step ex_env ex_push (ex_outside, Orders ex_order) ex_push_server = Some (ex_push_server, [Send 7 tx])"
    using m by (simp add: on_orders_message_def ex_push_server_def init_push_server_def asset_on_update_def init_asset_def order_on_update_def
        notify_user_def jv_select send_notify_def send_json_def del: show_jv.simps)
  have "logged_in ex_env 7 past = Some 5"
    using push_private [OF past step, of 7 tx] m by simp
  then show ?thesis using past step by auto
qed

lemma push_asks_own_witness:
  "\<exists>past S' out clt pkg body. push_reaches ex_env ex_push ex_login ex_push_server past \<and>
     push_step ex_env ex_push (ex_outside, Client 7 (ex_msg ''asset.query'' [])) ex_push_server = Some (S', out) \<and>
     Query clt pkg \<in> set out \<and> command pkg \<in> user_commands \<and> pkg_body pkg = text_bytes body \<and> asks_about ex_env 5 body"
proof -
  obtain past where past: "push_reaches ex_env ex_push ex_login ex_push_server past" "logged_in ex_env 7 past = Some 5" using ex_login_run by blast
  obtain S' body where step: "push_step ex_env ex_push (ex_outside, Client 7 (ex_msg ''asset.query'' [])) ex_push_server =
      Some (S', [Query Matchengine (request_pkg CMD_BALANCE_QUERY 1 1 body)])"
    by (simp add: ex_message ex_methods on_method_asset_query_def ex_push_server_def init_push_server_def ex_id ex_outside_def user_query_def
        jv_select pass_on_def pending_new_def next_number no_pending_def json_items_def del: show_jv.simps)
  have c: "command (request_pkg CMD_BALANCE_QUERY 1 1 body) \<in> user_commands" by (simp add: request_pkg_def user_commands_def)
  obtain b where "pkg_body (request_pkg CMD_BALANCE_QUERY 1 1 body) = text_bytes b \<and> asks_about ex_env 5 b"
    using push_asks_own [OF past(1) step _ c] past(2) by auto
  then show ?thesis using past(1) step c by fastforce
qed

lemma subscribers_open_witness:
  "subscribed (ps_order ex_push_server) 5 7 \<and> cn_id (ps_conns ex_push_server) 7 \<noteq> 0"
proof -
  obtain past where "push_reaches ex_env ex_push ex_login ex_push_server past" using ex_login_run by blast
  from subscribers_open [OF this, of 7 5] show ?thesis
    by (simp add: subscribed_def sub_list_def ex_push_server_def)
qed

section \<open>Subscriptions that outlive their connection\<close>

text \<open>
  C29. Subscriptions can outlive their connection. \<^verbatim>\<open>on_close\<close> does not end those to the state of
  markets: when a connection that is subscribed to it is closed, however that happens, it stays subscribed, and
  the next answer for its market that brings another state than the last one makes the server send to the
  session that was closed, whose memory may be another client's by then. When the session is closed at a
  moment when the dictionaries do not find it, all its other market subscriptions stay as well.
\<close>

theorem state_outlives_connection:
  assumes "push_reaches E st es S past" and "cn_id (ps_conns S) s \<noteq> 0"
    and "tp_dict (ps_state S) market = Some (sessions, latest)" and "s \<in> set sessions"
    and "pn_map (tp_state (ps_state S)) (pkg_sequence pkg) = Some market" and "command pkg = CMD_MARKET_STATUS"
    and "json_loadb (json E) (pkg_text pkg) = Some reply"
    and "json_object_get (json E) reply ''error'' = Some error" and "json_is_null (json E) (Some error)"
    and "json_object_get (json E) reply ''result'' = Some result"
    and "latest = None \<or> (\<exists>old a b. latest = Some old \<and> json_dumps (json E) old JSON_SORT_KEYS = Some a \<and>
           json_dumps (json E) result JSON_SORT_KEYS = Some b \<and> a \<noteq> b)"
    and "\<forall>ss. set (ou_walk w ss) = set ss" and "\<forall>v. json_dumps (json E) v 0 \<noteq> None"
  shows "\<exists>S1 S2 out text. push_step E st (w, Shut s found) S = Some (S1, []) \<and> cn_id (ps_conns S1) s = 0 \<and>
    push_step E st (w, Topic_packet State_topic pkg) S1 = Some (S2, out) \<and> Send s text \<in> set out \<and>
    (\<not> found \<longrightarrow> all_watchers S1 = all_watchers S)"
proof -
  let ?S1 = "shut found s S"
  let ?new = "Some (Some result, notify_all E (ou_walk w) sessions ''state.update'' (market_params E market result))"
  have gone: "push_step E st (w, Shut s found) S = Some (?S1, [])" "cn_id (ps_conns ?S1) s = 0"
    using assms(2) by (simp_all add: shut_def Let_def nw_svr_close_ses_def)
  have same: "ps_state ?S1 = ps_state S" by (simp add: shut_def Let_def on_close_frame)
  have "status_reply E (ou_walk w) ''state.update'' market result sessions latest = ?new"
    using assms(11) by (auto simp: status_reply_def)
  then obtain tp where "state_recv_pkg E (ou_walk w) pkg (ps_state ?S1) =
      Some (tp, notify_all E (ou_walk w) sessions ''state.update'' (market_params E market result))"
    using assms(3,5-10) unfolding same by (auto simp: state_recv_pkg_def topic_recv_pkg_def on_market_status_reply_def Let_def)
  then have step: "push_step E st (w, Topic_packet State_topic pkg) ?S1 =
      Some (?S1\<lparr>ps_state := tp\<rparr>, notify_all E (ou_walk w) sessions ''state.update'' (market_params E market result))" by simp
  have "s \<in> set (ou_walk w sessions)" using assms(4,12) by blast
  moreover obtain tx where "send_notify E s ''state.update'' (market_params E market result) = [Send s tx]"
    using assms(13) [rule_format, of "json_object (json E) [(''method'', json_string (json E) ''state.update''),
      (''params'', market_params E market result), (''id'', json_null (json E))]"]
    by (auto simp: send_notify_def send_json_def Let_def)
  ultimately have "Send s tx \<in> set (notify_all E (ou_walk w) sessions ''state.update'' (market_params E market result))"
    by (force simp: notify_all_def)
  moreover have "all_watchers ?S1 = all_watchers S" if "\<not> found"
    using that by (simp add: shut_def Let_def all_watchers_def on_close_def kline_unsubscribe_def depth_unsubscribe_def price_unsubscribe_def
        today_unsubscribe_def deals_unsubscribe_def)
  ultimately show ?thesis using gone step by blast
qed

text \<open>A client subscribes to the state of a market, the server asks for it, and the connection is closed before the answer comes.\<close>

lemma state_outlives_connection_witness:
  "\<exists>S past S1 S2 out text. push_reaches ex_env ex_push (map (Pair ex_outside)
      [Open 7, Client 7 (ex_msg ''state.subscribe'' [JStr ''BTC'']), Market_tick State_topic [''BTC'']]) S past \<and>
    push_step ex_env ex_push (ex_outside, Shut 7 True) S = Some (S1, []) \<and> cn_id (ps_conns S1) 7 = 0 \<and>
    push_step ex_env ex_push (ex_outside, Topic_packet State_topic (ex_answer CMD_MARKET_STATUS 1 (JStr ''s''))) S1 = Some (S2, out) \<and>
    Send 7 text \<in> set out"
proof -
  let ?S = "init_push_server\<lparr>ps_conns := nw_svr_add_ses 7 nw_svr_create,
     ps_state := \<lparr>tp_dict = [''BTC'' \<mapsto> ([7], None)], tp_state = \<lparr>pn_map = [1 \<mapsto> ''BTC''], pn_start = 1\<rparr>\<rparr>\<rparr> :: (dec, jv) push_server"
  have k: "market_key ''BTC'' = ''BTC''" by (simp add: market_key_def MARKET_NAME_MAX_LEN_def)
  obtain past where run: "push_reaches ex_env ex_push (map (Pair ex_outside)
      [Open 7, Client 7 (ex_msg ''state.subscribe'' [JStr ''BTC'']), Market_tick State_topic [''BTC'']]) ?S past"
    by (simp add: push_reaches_def ex_message ex_methods jv_select init_push_server_def on_upgrade_def ex_id on_method_state_subscribe_def
        on_method_subscribe_def name_param_def MARKET_NAME_MAX_LEN_def state_subscribe_def state_unsubscribe_def topic_subscribe_def
        topic_unsubscribe_def init_topic_def ses_add_def state_send_last_def status_send_last_def k Let_def
        state_on_timer_def pending_new_def next_number no_pending_def fun_eq_iff del: show_jv.simps)
  have short: "length (show_jv (JObj [(''error'', JNull), (''result'', JStr ''s''), (''id'', JInt 0)])) < 2 ^ 32"
    by (simp add: unary_def show_str_def show_int_def)
  let ?v = "JObj [(''error'', JNull), (''result'', JStr ''s''), (''id'', JInt 0)]"
  have l: "json_loadb (json ex_env) (pkg_text (ex_answer CMD_MARKET_STATUS 1 (JStr ''s''))) = Some ?v"
    unfolding ex_answer [OF short] by (simp add: jv_loadb del: show_jv.simps)
  have d: "\<forall>v. json_dumps (json ex_env) v 0 \<noteq> None" by (simp add: jv_select)
  have o: "cn_id (ps_conns ?S) 7 \<noteq> 0" by (simp add: ex_id)
  have t: "tp_dict (ps_state ?S) ''BTC'' = Some ([7], None)" "(7 :: ses) \<in> set [7]"
    "pn_map (tp_state (ps_state ?S)) (pkg_sequence (ex_answer CMD_MARKET_STATUS 1 (JStr ''s''))) = Some ''BTC''"
    "command (ex_answer CMD_MARKET_STATUS 1 (JStr ''s'')) = CMD_MARKET_STATUS"
    by (simp_all add: ex_answer [OF short])
  have j: "json_object_get (json ex_env) ?v ''error'' = Some JNull" "json_is_null (json ex_env) (Some JNull)"
    "json_object_get (json ex_env) ?v ''result'' = Some (JStr ''s'')" by (simp_all add: jv_select)
  have w: "\<forall>ss. set (ou_walk ex_outside ss) = set ss" by (simp add: ex_outside_def)
  obtain S1 S2 out tx where "push_step ex_env ex_push (ex_outside, Shut 7 True) ?S = Some (S1, [])" "cn_id (ps_conns S1) 7 = 0"
    "push_step ex_env ex_push (ex_outside, Topic_packet State_topic (ex_answer CMD_MARKET_STATUS 1 (JStr ''s''))) S1 = Some (S2, out)"
    "Send 7 tx \<in> set out"
    using state_outlives_connection [OF run o t l j disjI1 [OF HOL.refl] w d, of True] by blast
  then show ?thesis using run by blast
qed

end
