(* ===== verification/Spec2Isabelle.thy ===== *)
theory Spec2Isabelle
  imports Market_Properties Balance_Properties Depth_Levels Update_Replay Session Persist_Properties State_Table Deal_Feed Price_Properties Gateway Websocket Depth_Views Push_Properties
begin

text \<open>
  A verification development for the viabtc exchange server (C).

  \<^bold>\<open>The program.\<close> The matching engine (\<^verbatim>\<open>matchengine/\<close>) is one
  process that keeps all markets and balances in memory. Commands reach it as RPC packets:
  \<^verbatim>\<open>network/nw_ses.c\<close> reassembles the packets of a connection from what the sockets
  deliver, \<^verbatim>\<open>utils/ut_rpc.c\<close> frames and checks them, \<^verbatim>\<open>me_server.c\<close> reads
  the JSON parameters and calls the market (\<^verbatim>\<open>me_market.c\<close>), the balances
  (\<^verbatim>\<open>me_balance.c\<close>) or the balance updates (\<^verbatim>\<open>me_update.c\<close>). A command that
  changes the state is appended to the operation log (\<^verbatim>\<open>me_operlog.c\<close>); its effects go to
  the history tables (\<^verbatim>\<open>me_history.c\<close>) and to the message broker
  (\<^verbatim>\<open>me_message.c\<close>). From time to time the whole state is written to the database as a slice
  (\<^verbatim>\<open>me_persist.c\<close>, \<^verbatim>\<open>me_dump.c\<close>); at the start the last slice is loaded and the
  commands logged since then are executed again (\<^verbatim>\<open>me_load.c\<close>).

  The price server (\<^verbatim>\<open>marketprice/\<close>) is a second process. It reads the messages of deals that
  the engine sends to the broker, sums them up in candles per second, minute, hour and day
  (\<^verbatim>\<open>mp_kline.c\<close>, \<^verbatim>\<open>mp_message.c\<close>), writes what has changed to Redis and
  reads it back at its start, and answers questions about prices (\<^verbatim>\<open>mp_server.c\<close>) with candles
  that it puts together from the stored ones.

  Clients reach the servers through two front ends. The gateway (\<^verbatim>\<open>accesshttp/\<close>) turns HTTP
  requests, which \<^verbatim>\<open>ut_http_svr.c\<close> puts together, into RPC packets and their answers into
  responses; the push server (\<^verbatim>\<open>accessws/\<close>) speaks web socket
  (\<^verbatim>\<open>ut_ws_svr.c\<close>): it logs clients in, passes their questions on, asks the other servers
  regularly for what clients have subscribed to and sends them what has changed, as differences where it can.

  \<^bold>\<open>How the model corresponds to the code.\<close> Each theory opens with the file it models and
  keeps the order and the names of its functions. A \<^verbatim>\<open>struct\<close> is a record, a return code an
  integer, a NULL an option, a pointer to an order its id in the dictionary of its market. Machine
  integers are words of their width, computed with as the C code does. Global variables are the fields of state
  records that every function takes and returns. A loop that may not end is a
  \<^verbatim>\<open>partial_function (option)\<close> whose value \<open>None\<close> is a call that does not
  return, so every property that says that a call returns states a value \<open>Some\<close>. No fuel is used.

  \<^item> \<^verbatim>\<open>Prelude\<close>: the types and the lemmas the other theories share.
  \<^item> \<^verbatim>\<open>Decimal\<close> (\<^verbatim>\<open>ut_decimal.c\<close>): amounts. The library libmpdec is the
    parameter \<open>M\<close> of every definition that computes with amounts; the locales \<open>mpd_lib\<close> and
    \<open>mpd_nan_lib\<close> state its documented laws (exact results that fit 34 digits are returned, others are
    truncated, comparisons with NaN give INT_MAX), \<open>mpd_text_lib\<close> of \<^verbatim>\<open>Decimal_Text\<close> those
    of its texts. \<^verbatim>\<open>Dec128\<close> interprets them on a concrete arithmetic.
  \<^item> \<^verbatim>\<open>Skiplist\<close> (\<^verbatim>\<open>ut_skiplist.c\<close>) \<^verbatim>\<open>Dict\<close>
    (\<^verbatim>\<open>ut_dict.c\<close>) and \<^verbatim>\<open>State_Table\<close> (\<^verbatim>\<open>nw_state.c\<close>): the
    containers, with levels, links, chains and expansions; proved to refine sorted lists (locale \<open>comparison\<close>), finite
    maps and maps with a counter of ids (locales \<open>loose_simulation\<close> and \<open>simulation\<close>), which is what the
    other theories use them as. A dictionary that \<^verbatim>\<open>dict_mark_clear\<close> was called on has a second
    map, of the entries it still holds, which deletions and loops show; no other modelled component calls it.
  \<^item> \<^verbatim>\<open>Balance\<close>, \<^verbatim>\<open>Order\<close>, \<^verbatim>\<open>History\<close>,
    \<^verbatim>\<open>Message\<close>: balances, order objects and their JSON views, history rows, messages. The JSON
    library is the parameter record \<open>json_ops\<close>, the clock and the broker are functions of a counter of calls.
  \<^item> \<^verbatim>\<open>Market\<close>, \<^verbatim>\<open>Matching\<close> (\<^verbatim>\<open>me_market.c\<close>): one
    market, order entry, matching and cancellation. The proofs are in \<^verbatim>\<open>Funds\<close> (a deal as arithmetic on
    balances), \<^verbatim>\<open>Book\<close> (the books and dictionaries agree), \<^verbatim>\<open>Deals\<close> (one
    deal), \<^verbatim>\<open>Trading\<close> (the invariant), \<^verbatim>\<open>Matches\<close> (the loops make
    runs of deals), \<^verbatim>\<open>Exchange\<close> (whole operations), \<^verbatim>\<open>Replay\<close> (the
    flag \<^verbatim>\<open>real\<close>); the statements are in \<^verbatim>\<open>Market_Properties\<close> and
    \<^verbatim>\<open>Balance_Properties\<close>.
  \<^item> \<^verbatim>\<open>Update\<close> (\<^verbatim>\<open>me_update.c\<close>, \<^verbatim>\<open>me_trade.c\<close>),
    \<^verbatim>\<open>Operlog\<close>, \<^verbatim>\<open>Depth\<close>, \<^verbatim>\<open>Server\<close>,
    \<^verbatim>\<open>Queries\<close> (\<^verbatim>\<open>me_server.c\<close>): the commands. \<^verbatim>\<open>Server\<close> has
    the commands that change the state, \<^verbatim>\<open>Queries\<close> the others and the dispatch of packets;
    \<^verbatim>\<open>Server_Properties\<close> shows that a packet is atomic and that pages partition a list,
    \<^verbatim>\<open>Depth_Levels\<close> that the plain and the merged depth sum the book, for every limit and interval.
  \<^item> \<^verbatim>\<open>Database\<close>, \<^verbatim>\<open>Dump\<close>, \<^verbatim>\<open>Persist\<close>,
    \<^verbatim>\<open>Load\<close>: slices and restart. MySQL is the parameter record \<open>mysql_ops\<close>.
    \<^verbatim>\<open>Recovery\<close> (with the frame rules of \<^verbatim>\<open>Frames\<close>) proves that loading the
    operation log of a run gives the state the run ended in, over the laws of a JSON library (locale \<open>json_lib\<close> of
    \<^verbatim>\<open>Json_Laws\<close>);
    \<^verbatim>\<open>Recovery_Properties\<close> and \<^verbatim>\<open>Persist_Properties\<close> hold the statements,
    \<^verbatim>\<open>Update_Replay\<close> those of the two cases in which recovery fails: an update of a balance that is
    repeated after it was forgotten, and assets shown with fewer decimals than they are saved with. \<^verbatim>\<open>Json_Values\<close> and
    \<^verbatim>\<open>Example_Market\<close> are concrete inputs for the witnesses.
  \<^item> \<^verbatim>\<open>Bytes\<close>, \<^verbatim>\<open>Crc32\<close> (\<^verbatim>\<open>ut_crc32.c\<close>),
    \<^verbatim>\<open>Pack\<close> (\<^verbatim>\<open>ut_pack.c\<close>, locale \<open>codec\<close>), \<^verbatim>\<open>Rpc\<close>
    (\<^verbatim>\<open>ut_rpc.c\<close> and the heartbeats of \<^verbatim>\<open>ut_rpc_svr.c\<close>,
    \<^verbatim>\<open>ut_rpc_clt.c\<close>), \<^verbatim>\<open>Buffers\<close> (\<^verbatim>\<open>nw_buf.c\<close>),
    \<^verbatim>\<open>Session\<close> (\<^verbatim>\<open>nw_ses.c\<close>, locale \<open>framing\<close>): from the bytes of a socket to
    packets and back. The kernel is a list of results, one for each system call.
  \<^item> \<^verbatim>\<open>Kline\<close> (\<^verbatim>\<open>mp_kline.c\<close>): candles, and what they mean as functions
    of a list of deals. \<^verbatim>\<open>Prices\<close>, \<^verbatim>\<open>Price_Store\<close>,
    \<^verbatim>\<open>Candles\<close> (\<^verbatim>\<open>mp_message.c\<close>): the dictionaries of candles and the
    messages that update them, Redis (the parameter record \<open>redis_ops\<close>), and the answers made of candles.
    \<^verbatim>\<open>Price_Server\<close> (\<^verbatim>\<open>mp_server.c\<close>): the commands and their cache.
    \<^verbatim>\<open>Price_Sound\<close> proves that every run keeps the stored candles right,
    \<^verbatim>\<open>Price_Windows\<close> what merging them gives, \<^verbatim>\<open>Price_Properties\<close> holds the
    statements, \<^verbatim>\<open>Deal_Feed\<close> the one that joins the two processes, and
    \<^verbatim>\<open>Example_Prices\<close> has the inputs of their witnesses. The local time zone is the
    parameter record \<open>zone\<close>, the order of iterators the record \<open>walks\<close>.
  \<^item> \<^verbatim>\<open>Http\<close> (\<^verbatim>\<open>ut_http.c\<close>, \<^verbatim>\<open>ut_http_svr.c\<close>),
    \<^verbatim>\<open>Connections\<close> (\<^verbatim>\<open>nw_svr.c\<close>), \<^verbatim>\<open>Gateway\<close>
    (\<^verbatim>\<open>ah_server.c\<close>) and \<^verbatim>\<open>Websocket\<close> (\<^verbatim>\<open>ut_ws_svr.c\<close>, an
    instance of \<open>framing\<close>): the front ends. The HTTP parser is a list of the calls of its callbacks, which
    may report a name, a value, the URL or the body in several pieces.
  \<^item> \<^verbatim>\<open>Push\<close>: what the push server sends, and the part that its topics have in common, a
    dictionary of subscribers and the requests it repeats with a timer. \<^verbatim>\<open>Push_Depth\<close>
    (\<^verbatim>\<open>aw_depth.c\<close>): order books and their differences, with a client that merges them as the
    specification; \<^verbatim>\<open>Push_Topics\<close> (\<^verbatim>\<open>aw_state.c\<close>,
    \<^verbatim>\<open>aw_today.c\<close>, \<^verbatim>\<open>aw_price.c\<close>, \<^verbatim>\<open>aw_kline.c\<close>,
    \<^verbatim>\<open>aw_deals.c\<close>); \<^verbatim>\<open>Push_Users\<close> (\<^verbatim>\<open>aw_order.c\<close>,
    \<^verbatim>\<open>aw_asset.c\<close>, \<^verbatim>\<open>aw_message.c\<close>); \<^verbatim>\<open>Push_Server\<close>
    (\<^verbatim>\<open>aw_server.c\<close>, \<^verbatim>\<open>aw_auth.c\<close>, \<^verbatim>\<open>aw_sign.c\<close>).
    \<^verbatim>\<open>Depth_Views\<close> follows a client's book through a run, \<^verbatim>\<open>Push_Sessions\<close>,
    \<^verbatim>\<open>Push_Private\<close> and \<^verbatim>\<open>Push_Requests\<close> hold the event loop, who is logged in
    according to what has happened, and the invariants; \<^verbatim>\<open>Push_Properties\<close> the statements and
    \<^verbatim>\<open>Example_Push\<close> inputs. \<^verbatim>\<open>Wire\<close> is the contract between the texts of JSON
    and the numbers of mpdecimal that \<^verbatim>\<open>Deal_Feed\<close> and \<^verbatim>\<open>Depth_Views\<close> share; it is
    interpreted on \<^verbatim>\<open>Json_Laws\<close> and \<^verbatim>\<open>Dec128\<close>.
    The dictionaries of sessions hash the first bytes of the session object, which its event watcher changes: whether the
    dictionaries find a session that is closed is a parameter of the event (\<open>Shut\<close>, \<open>Leave\<close>). While the
    session handles a message of its client the watcher has no pending event, so there it is found.

  \<^bold>\<open>What the theorems show.\<close> Matching follows price and time priority, keeps the invariant of books,
  dictionaries and frozen funds, and loses no money but the fees; every accepted order returns. All this is for amounts,
  prices and rates of fees that are finite numbers; the engine accepts NaN as well, which is shown to ruin balances
  (limit orders) or to hang the engine (market orders to buy). Every run of the server that forgets no update, with assets
  shown as precisely as they are saved, is reproduced by replaying its log; either condition is shown to be needed.
  A command is carried out as a whole and logged once, or changes nothing. The containers refine their
  abstractions. Packets survive any fragmentation, and damage of up to four bytes is detected.
  Every candle of the price server that is still kept sums up exactly its deals, and so do the answers made of
  minutes and the state of a market; two requests that go wrong are shown as well.
  The deals the broker accepts reach the price server as the engine made them. The gateway gives every answer to the client that waits for it,
  and to nobody else; web socket messages arrive as they were sent, except for one frame that breaks the server.
  A client of the push server sees exactly the order book of the engine, whatever differences it was sent; what concerns
  a user reaches connections alone that are logged in as this user, and closed connections are forgotten, but for one topic and for sessions the dictionaries
  did not find.

  \<^bold>\<open>Bounds.\<close> Theorems about amounts assume that the supplies of the assets of a market fit 34 digits at its
  scale; those about dictionaries fewer than \<open>2 ^ 30\<close> calls; those about lists of a market that ids and
  counters do not wrap, with the bound in the statement.

  \<^bold>\<open>Not modelled.\<close> Failures of \<^verbatim>\<open>malloc\<close> (the branches that only handle them are left
  out), big-endian hosts, log files and status texts, the text of SQL statements (a statement is the value of its
  parts), the worker threads of MySQL and Kafka beyond the order in which they get their jobs,
  \<^verbatim>\<open>fork\<close> (the child computes on a copy of the state), the uninitialised padding of
  \<^verbatim>\<open>struct update_key\<close>, the string NULL of an order source after a restart (the empty text). A
  packet decoder is assumed not to ask for more than the maximal size. Process start, configuration files, sockets and
  the event loop (\<^verbatim>\<open>nw_svr.c\<close>, \<^verbatim>\<open>nw_clt.c\<close>, \<^verbatim>\<open>nw_evt.c\<close>,
  \<^verbatim>\<open>nw_sock.c\<close>), the alert center and
  the history reader are thin layers over system calls, SQL and JSON. http-parser, sds and hiredis are copies of
  third-party code.
\<close>

end
